(* ===== verification/Prelude.thy ===== *)
theory Prelude
  imports Main "HOL-Library.Word" "HOL-Library.Monad_Syntax"
begin

unbundle bit_operations_syntax

text \<open>
  Shared vocabulary of the development: the machine types of the Rust sources, results, byte
  slices and the bit-level lemmas that the components use.

  Conventions.  A byte (\<^verbatim>\<open>u8\<close>) is an \<open>8 word\<close>.  The wider unsigned types
  (\<^verbatim>\<open>u16\<close>, \<^verbatim>\<open>u32\<close>, \<^verbatim>\<open>u64\<close>, \<^verbatim>\<open>usize\<close> on a 64-bit target) are natural numbers; where an
  operation of the source can leave the width (a left shift, a narrowing cast, a checked or a
  saturating addition) the width is written out with \<open>take_bit\<close>, \<open>checked_add\<close>,
  \<open>sat_add\<close>.  A \<^verbatim>\<open>Result<T, E>\<close> is the sum \<open>'e + 't\<close> with \<open>Inl\<close> for the error, an
  \<^verbatim>\<open>Option<T>\<close> is \<open>'t option\<close>.  A mutable slice that a function fills is passed in and
  returned.
\<close>

section \<open>Machine types\<close>

type_synonym u8 = "8 word"
type_synonym u16 = nat
type_synonym u32 = nat
type_synonym u64 = nat
type_synonym usize = nat
type_synonym bytes = "u8 list"

abbreviation (input) u64_max :: nat where
  "u64_max \<equiv> 2 ^ 64 - 1"

abbreviation (input) usize_max :: nat where
  "usize_max \<equiv> 2 ^ 64 - 1"

text \<open>\<^verbatim>\<open>x as u8\<close> keeps the low eight bits.\<close>

definition as_u8 :: "nat \<Rightarrow> u8" where
  "as_u8 n = word_of_nat n"

text \<open>\<^verbatim>\<open>u64::checked_add\<close>, \<^verbatim>\<open>u64::saturating_add\<close> and \<^verbatim>\<open>u64::saturating_sub\<close>.\<close>

definition checked_add :: "u64 \<Rightarrow> u64 \<Rightarrow> u64 option" where
  "checked_add a b = (if a + b \<le> u64_max then Some (a + b) else None)"

definition checked_mul :: "u64 \<Rightarrow> u64 \<Rightarrow> u64 option" where
  "checked_mul a b = (if a * b \<le> u64_max then Some (a * b) else None)"

definition sat_add :: "u64 \<Rightarrow> u64 \<Rightarrow> u64" where
  "sat_add a b = min (a + b) u64_max"

definition sat_sub :: "u64 \<Rightarrow> u64 \<Rightarrow> u64" where
  "sat_sub a b = a - b"

section \<open>Results\<close>

text \<open>The \<^verbatim>\<open>?\<close> operator on \<^verbatim>\<open>Result\<close>, \<^verbatim>\<open>map_err\<close> and \<^verbatim>\<open>ok_or\<close>.\<close>

definition bindR :: "'e + 'a \<Rightarrow> ('a \<Rightarrow> 'e + 'b) \<Rightarrow> 'e + 'b" where
  "bindR m f = (case m of Inl e \<Rightarrow> Inl e | Inr x \<Rightarrow> f x)"

definition map_err :: "('e \<Rightarrow> 'f) \<Rightarrow> 'e + 'a \<Rightarrow> 'f + 'a" where
  "map_err g m = (case m of Inl e \<Rightarrow> Inl (g e) | Inr x \<Rightarrow> Inr x)"

definition ok_or :: "'a option \<Rightarrow> 'e \<Rightarrow> 'e + 'a" where
  "ok_or m e = (case m of None \<Rightarrow> Inl e | Some x \<Rightarrow> Inr x)"

definition result_ok :: "'e + 'a \<Rightarrow> 'a option" where
  "result_ok m = (case m of Inl e \<Rightarrow> None | Inr x \<Rightarrow> Some x)"

named_theorems result_simps \<open>how the result combinators compute\<close>

lemma bindR_simps [simp, result_simps]:
  "bindR (Inl e) f = Inl e"
  "bindR (Inr x) f = f x"
  by (simp_all add: bindR_def)

lemma map_err_simps [simp, result_simps]:
  "map_err g (Inl e) = Inl (g e)"
  "map_err g (Inr x) = Inr x"
  by (simp_all add: map_err_def)

lemma ok_or_simps [simp, result_simps]:
  "ok_or None e = Inl e"
  "ok_or (Some x) e = Inr x"
  by (simp_all add: ok_or_def)

lemma result_ok_simps [simp, result_simps]:
  "result_ok (Inl e) = None"
  "result_ok (Inr x) = Some x"
  by (simp_all add: result_ok_def)

lemma bindR_cong [fundef_cong]:
  "m = m' \<Longrightarrow> (\<And>x. m' = Inr x \<Longrightarrow> f x = g x) \<Longrightarrow> bindR m f = bindR m' g"
  by (cases m') auto

lemma bindR_Inr_iff: "bindR m f = Inr y \<longleftrightarrow> (\<exists>x. m = Inr x \<and> f x = Inr y)"
  by (cases m) auto

lemma map_err_Inr_iff [simp]: "map_err g m = Inr x \<longleftrightarrow> m = Inr x"
  by (cases m) auto

lemma ok_or_Inr_iff [simp]: "ok_or m e = Inr x \<longleftrightarrow> m = Some x"
  by (cases m) auto

lemma result_ok_Some_iff [simp]: "result_ok m = Some x \<longleftrightarrow> m = Inr x"
  by (cases m) auto

section \<open>Slices\<close>

text \<open>
  \<open>copy_at buf off bs\<close> is \<^verbatim>\<open>buf[off..off + bs.len()].copy_from_slice(bs)\<close>; the callers check
  that the range is inside the slice.  \<open>splice buf off sub\<close> is the buffer after a callee
  wrote \<open>sub\<close> into the sub-slice \<^verbatim>\<open>&mut buf[off..]\<close>.
\<close>

definition copy_at :: "bytes \<Rightarrow> usize \<Rightarrow> bytes \<Rightarrow> bytes" where
  "copy_at buf off bs = take off buf @ bs @ drop (off + length bs) buf"

definition splice :: "bytes \<Rightarrow> usize \<Rightarrow> bytes \<Rightarrow> bytes" where
  "splice buf off sub = take off buf @ sub"

lemma length_copy_at [simp]:
  "off + length bs \<le> length buf \<Longrightarrow> length (copy_at buf off bs) = length buf"
  by (simp add: copy_at_def)

lemma take_copy_at:
  "off + length bs \<le> length buf \<Longrightarrow>
    take (off + length bs) (copy_at buf off bs) = take off buf @ bs"
  by (simp add: copy_at_def)

text \<open>
  \<open>written buf bs buf'\<close>: a writer that was given \<open>buf\<close> left \<open>bs\<close> at its start and
  the rest of it untouched.
\<close>

definition written :: "bytes \<Rightarrow> bytes \<Rightarrow> bytes" where
  "written buf bs = bs @ drop (length bs) buf"

lemma length_written [simp]: "length bs \<le> length buf \<Longrightarrow> length (written buf bs) = length buf"
  by (simp add: written_def)

lemma take_written [simp]: "take (length bs) (written buf bs) = bs"
  by (simp add: written_def)

lemma copy_at_0 [simp]: "copy_at buf 0 bs = written buf bs"
  by (simp add: copy_at_def written_def)

lemma splice_written:
  "splice (written buf as) (length as) (written (drop (length as) (written buf as)) bs)
    = written buf (as @ bs)"
  by (simp add: splice_def written_def add.commute)

lemma copy_at_written:
  "copy_at (written buf as) (length as) bs = written buf (as @ bs)"
  by (simp add: copy_at_def written_def add.commute)

lemma written_update:
  assumes "length as < length buf"
  shows "(written buf as)[length as := b] = written buf (as @ [b])"
  using assms by (simp add: written_def list_update_append upd_conv_take_nth_drop
      Cons_nth_drop_Suc [symmetric])

lemma written_Nil [simp]: "written buf [] = buf"
  by (simp add: written_def)

text \<open>
  \<open>writes W bs\<close>: the writer \<open>W\<close> puts \<open>bs\<close> at the start of any slice that is long enough and fails on
  a shorter one.  Writers compose: the second one gets the slice behind the first.
\<close>

definition writes :: "(bytes \<Rightarrow> (bytes \<times> usize) option) \<Rightarrow> bytes \<Rightarrow> bool" where
  "writes W bs \<longleftrightarrow>
    (\<forall>buf. W buf = (if length buf < length bs then None else Some (written buf bs, length bs)))"

named_theorems writers \<open>what the writers of the program write\<close>

lemma writesD:
  "writes W bs \<Longrightarrow> W buf = (if length buf < length bs then None else Some (written buf bs, length bs))"
  by (simp add: writes_def)

lemma writes_at:
  assumes "writes W bs" "length as \<le> length buf"
  shows "W (drop (length as) (written buf as)) =
    (if length buf < length (as @ bs) then None
     else Some (written (drop (length as) buf) bs, length bs))"
  using assms by (simp add: writesD [OF assms(1)] written_def less_diff_conv2 add.commute)

lemma splice_at:
  "splice (written buf as) (length as) (written (drop (length as) buf) bs) = written buf (as @ bs)"
  by (simp add: splice_def written_def add.commute)

lemma writes_then:
  assumes "writes V as" "writes W bs"
  shows "writes (\<lambda>buf. do {
      (buf, offset) \<leftarrow> V buf;
      (sub, n) \<leftarrow> W (drop offset buf);
      Some (splice buf offset sub, offset + n)
    }) (as @ bs)"
proof -
  have "(do { (buf, offset) \<leftarrow> V buf; (sub, n) \<leftarrow> W (drop offset buf);
      Some (splice buf offset sub, offset + n) }) =
    (if length buf < length (as @ bs) then None else Some (written buf (as @ bs), length (as @ bs)))"
    for buf
  proof (cases "length buf < length as")
    case True
    with assms(1) show ?thesis by (simp add: writesD)
  next
    case False
    with writes_at [OF assms(2), of as buf] assms(1) show ?thesis
      by (simp add: writesD splice_at)
  qed
  then show ?thesis unfolding writes_def by blast
qed

text \<open>A loop over items, each written behind the previous one.\<close>

fun write_all :: "('x \<Rightarrow> bytes \<Rightarrow> (bytes \<times> usize) option) \<Rightarrow> 'x list \<Rightarrow> bytes \<Rightarrow> usize \<Rightarrow> (bytes \<times> usize) option" where
  "write_all W [] buf offset = Some (buf, offset)"
| "write_all W (x # xs) buf offset = do {
     (sub, n) \<leftarrow> W x (drop offset buf);
     write_all W xs (splice buf offset sub) (offset + n)
   }"

lemma write_all_at:
  assumes "\<forall>x \<in> set xs. writes (W x) (enc x)" "length as \<le> length buf"
  shows "write_all W xs (written buf as) (length as) =
    (if length buf < length (as @ concat (map enc xs)) then None
     else Some (written buf (as @ concat (map enc xs)), length (as @ concat (map enc xs))))"
  using assms
proof (induction xs arbitrary: as)
  case (Cons x xs)
  then have w: "writes (W x) (enc x)" by simp
  show ?case
  proof (cases "length buf < length (as @ enc x)")
    case True
    with writes_at [OF w Cons.prems(2)] show ?thesis by simp
  next
    case False
    with writes_at [OF w Cons.prems(2)] Cons.IH [of "as @ enc x"] Cons.prems show ?thesis
      by (simp add: splice_at)
  qed
qed simp

section \<open>Bytes and big-endian integers\<close>

lemma unat_as_u8 [simp]: "unat (as_u8 n) = n mod 256"
  by (simp add: as_u8_def unat_of_nat)

lemma as_u8_unat [simp]: "as_u8 (unat b) = b"
  by (simp add: as_u8_def)

lemma as_u8_eq_iff: "as_u8 n = as_u8 m \<longleftrightarrow> n mod 256 = m mod 256"
  by (metis unat_as_u8 as_u8_unat as_u8_def word_of_nat_eq_iff unsigned_of_nat
      word_unat_eq_iff)

lemma unat_u8_lt [simp]: "unat (b :: u8) < 256"
  using unsigned_less [of b] by simp

text \<open>\<^verbatim>\<open>to_be_bytes\<close> of an integer of \<open>n\<close> bytes and \<^verbatim>\<open>from_be_bytes\<close>.\<close>

fun to_be_bytes :: "nat \<Rightarrow> nat \<Rightarrow> bytes" where
  "to_be_bytes 0 v = []"
| "to_be_bytes (Suc n) v = to_be_bytes n (drop_bit 8 v) @ [as_u8 v]"

definition from_be_bytes :: "bytes \<Rightarrow> nat" where
  "from_be_bytes bs = foldl (\<lambda>acc b. acc * 256 + unat b) 0 bs"

lemma length_to_be_bytes [simp]: "length (to_be_bytes n v) = n"
  by (induction n arbitrary: v) auto

lemma from_be_bytes_snoc [simp]: "from_be_bytes (bs @ [b]) = from_be_bytes bs * 256 + unat b"
  by (simp add: from_be_bytes_def)

lemma from_be_bytes_Nil [simp]: "from_be_bytes [] = 0"
  by (simp add: from_be_bytes_def)

lemma from_to_be_bytes: "from_be_bytes (to_be_bytes n v) = v mod 256 ^ n"
proof (induction n arbitrary: v)
  case 0
  then show ?case by simp
next
  case (Suc n)
  have "v mod (256 * 256 ^ n) = 256 * (v div 256 mod 256 ^ n) + v mod 256"
    by (simp add: mod_mult2_eq)
  with Suc show ?case by (simp add: drop_bit_eq_div)
qed

lemma from_be_bytes_bound: "from_be_bytes bs < 256 ^ length bs"
proof (induction bs rule: rev_induct)
  case Nil
  then show ?case by simp
next
  case (snoc b bs)
  then have "from_be_bytes bs + 1 \<le> 256 ^ length bs" by simp
  then have "(from_be_bytes bs + 1) * 256 \<le> 256 ^ length bs * 256" by (rule mult_le_mono1)
  moreover have "from_be_bytes bs * 256 + unat b < (from_be_bytes bs + 1) * 256"
    using unat_u8_lt [of b] by simp
  ultimately have "from_be_bytes bs * 256 + unat b < 256 ^ length bs * 256"
    by (rule less_le_trans [rotated])
  then show ?case by (simp add: mult.commute)
qed

lemma to_from_be_bytes: "to_be_bytes (length bs) (from_be_bytes bs) = bs"
proof (induction bs rule: rev_induct)
  case Nil
  then show ?case by simp
next
  case (snoc b bs)
  have "(from_be_bytes bs * 256 + unat b) div 256 = from_be_bytes bs"
    using unat_u8_lt [of b] by (simp add: div_add1_eq)
  moreover have "as_u8 (from_be_bytes bs * 256 + unat b) = b"
    using unat_u8_lt [of b] by (simp add: word_unat_eq_iff mod_add_eq)
  ultimately show ?case using snoc by (simp add: drop_bit_eq_div)
qed

lemma hd_to_be_bytes: "0 < n \<Longrightarrow> hd (to_be_bytes n v) = as_u8 (v div 256 ^ (n - 1))"
proof (induction n arbitrary: v)
  case (Suc n)
  show ?case
  proof (cases n)
    case (Suc m)
    then have "to_be_bytes n (drop_bit 8 v) \<noteq> []"
      by (metis length_to_be_bytes list.size(3) nat.distinct(1))
    then have "hd (to_be_bytes (Suc n) v) = hd (to_be_bytes n (drop_bit 8 v))"
      by simp
    also have "\<dots> = as_u8 (drop_bit 8 v div 256 ^ m)"
      using Suc.IH [of "drop_bit 8 v"] Suc by simp
    finally show ?thesis
      using Suc by (simp add: drop_bit_eq_div div_mult2_eq del: to_be_bytes.simps)
  qed simp
qed simp

section \<open>Bit patterns\<close>

text \<open>Putting a value under a tag, and reading the two back.\<close>

lemma nat_and_tag: "x < 2 ^ k \<Longrightarrow> x AND t * 2 ^ k = (0 :: nat)"
proof -
  assume x: "x < 2 ^ k"
  have "x AND push_bit k t = 0"
  proof (rule bit_eqI)
    fix n
    show "bit (x AND push_bit k t) n = bit (0 :: nat) n"
    proof (cases "n < k")
      case True
      then show ?thesis by (simp add: bit_and_iff bit_push_bit_iff)
    next
      case False
      then have "\<not> bit x n"
        using x by (metis bit_take_bit_iff take_bit_nat_eq_self)
      then show ?thesis by (simp add: bit_and_iff)
    qed
  qed
  then show ?thesis by (simp add: push_bit_eq_mult)
qed

lemma nat_or_tag: "x < 2 ^ k \<Longrightarrow> x OR t * 2 ^ k = x + t * (2 ^ k :: nat)"
  using nat_and_tag [of x k t] by (simp add: disjunctive_add_eq_or)

lemma nat_and_mask: "x AND (2 ^ k - 1) = x mod (2 ^ k :: nat)"
  by (metis mask_eq_exp_minus_1 take_bit_eq_mask take_bit_eq_mod)

section \<open>Byte string literals\<close>

text \<open>\<open>ascii ''abc''\<close> is \<^verbatim>\<open>b"abc"\<close>.\<close>

definition ascii :: "string \<Rightarrow> bytes" where
  "ascii s = map (\<lambda>c. word_of_nat (of_char c)) s"

lemma ascii_inject: "ascii s = ascii t \<longleftrightarrow> s = t"
proof
  assume "ascii s = ascii t"
  moreover have "inj (\<lambda>c. word_of_nat (of_char c) :: u8)"
  proof (rule injI)
    fix x y :: char
    assume "(word_of_nat (of_char x) :: u8) = word_of_nat (of_char y)"
    then have "of_char x mod (256 :: nat) = of_char y mod 256"
      by (metis as_u8_def as_u8_eq_iff)
    then show "x = y" by simp
  qed
  ultimately show "s = t" unfolding ascii_def by (metis inj_map_eq_map)
qed simp

lemma length_ascii [simp]: "length (ascii s) = length s"
  by (simp add: ascii_def)

section \<open>Self-delimiting codes\<close>

text \<open>
  Every wire format of the program is read the same way: a decoder looks at the front of a
  buffer and returns the value together with the number of bytes it consumed, so that the next
  field starts right behind it.  A code is self-delimiting when the decoder recovers the encoded
  value whatever follows it.  The facts that clients need about concatenations, uniqueness and
  sequences of such fields are proved once, here.
\<close>

locale self_delimiting =
  fixes wf :: "'a \<Rightarrow> bool"
    and enc :: "'a \<Rightarrow> bytes"
    and dec :: "bytes \<Rightarrow> 'e + 'a \<times> usize"
  assumes dec_enc: "wf x \<Longrightarrow> dec (enc x @ rest) = Inr (x, length (enc x))"
    and enc_nonempty: "wf x \<Longrightarrow> enc x \<noteq> []"
begin

lemma dec_enc_exact: "wf x \<Longrightarrow> dec (enc x) = Inr (x, length (enc x))"
  using dec_enc [of x "[]"] by simp

lemma enc_inj:
  assumes "wf x" "wf y" "enc x = enc y"
  shows "x = y"
proof -
  have "Inr (x, length (enc x)) = dec (enc y)"
    using dec_enc_exact [OF assms(1)] by (simp add: assms(3))
  then show ?thesis using dec_enc_exact [OF assms(2)] by simp
qed

lemma prefix_free:
  assumes "wf x" "wf y" "enc x @ r = enc y @ s"
  shows "x = y \<and> r = s"
proof -
  have "dec (enc x @ r) = Inr (x, length (enc x))" "dec (enc x @ r) = Inr (y, length (enc y))"
    using dec_enc [OF assms(1), of r] dec_enc [OF assms(2), of s] by (simp_all only: assms(3))
  then show ?thesis using assms(3) by simp
qed

lemma dec_at_offset:
  "wf x \<Longrightarrow> dec (drop (length p) (p @ enc x @ rest)) = Inr (x, length (enc x))"
  by (simp add: dec_enc)

lemma concat_inj:
  assumes "\<forall>x \<in> set xs. wf x" "\<forall>y \<in> set ys. wf y"
    "concat (map enc xs) = concat (map enc ys)"
  shows "xs = ys"
  using assms
proof (induction xs arbitrary: ys)
  case Nil
  then show ?case by (cases ys) (use enc_nonempty in auto)
next
  case (Cons x xs)
  show ?case
  proof (cases ys)
    case Nil
    with Cons.prems enc_nonempty [of x] show ?thesis by simp
  next
    case (Cons y ys')
    with Cons.prems prefix_free [of x y "concat (map enc xs)" "concat (map enc ys')"]
    have "x = y" "concat (map enc xs) = concat (map enc ys')" by auto
    with Cons Cons.IH [of ys'] Cons.prems show ?thesis by simp
  qed
qed

end

text \<open>
  Receipt in pieces: the decoder answers \<open>short\<close> exactly while the field is incomplete, and no
  other answer changes when more bytes arrive.
\<close>

locale incremental = self_delimiting wf enc dec
  for wf :: "'a \<Rightarrow> bool" and enc :: "'a \<Rightarrow> bytes" and dec :: "bytes \<Rightarrow> 'e + 'a \<times> usize" +
  fixes short :: 'e
  assumes dec_stable: "dec b \<noteq> Inl short \<Longrightarrow> dec (b @ r) = dec b"
    and dec_bound: "dec b = Inr (x, n) \<Longrightarrow> n \<le> length b"
begin

lemma partial_short:
  assumes "wf x" "k < length (enc x)"
  shows "dec (take k (enc x)) = Inl short"
proof (rule ccontr)
  assume "dec (take k (enc x)) \<noteq> Inl short"
  from dec_stable [OF this, of "drop k (enc x)"]
  have "dec (take k (enc x)) = Inr (x, length (enc x))"
    by (simp add: dec_enc_exact [OF assms(1)])
  from dec_bound [OF this] assms(2) show False by simp
qed

lemma short_prefix_short:
  assumes "dec (b @ r) = Inl short"
  shows "dec b = Inl short"
proof (rule ccontr)
  assume "dec b \<noteq> Inl short"
  from dec_stable [OF this, of r] assms \<open>dec b \<noteq> Inl short\<close> show False by simp
qed

end

text \<open>Two fields in sequence, and a field that is post-processed, are received in pieces as well.\<close>

definition stable_dec :: "'e \<Rightarrow> (bytes \<Rightarrow> 'e + 'a \<times> usize) \<Rightarrow> bool" where
  "stable_dec short dec \<longleftrightarrow>
    (\<forall>b r. dec b \<noteq> Inl short \<longrightarrow> dec (b @ r) = dec b) \<and>
    (\<forall>b x n. dec b = Inr (x, n) \<longrightarrow> n \<le> length b)"

lemma stableI:
  "(\<And>b r. dec b \<noteq> Inl short \<Longrightarrow> dec (b @ r) = dec b) \<Longrightarrow>
    (\<And>b x n. dec b = Inr (x, n) \<Longrightarrow> n \<le> length b) \<Longrightarrow> stable_dec short dec"
  by (simp add: stable_dec_def)

lemma stableD:
  "stable_dec short dec \<Longrightarrow> dec b \<noteq> Inl short \<Longrightarrow> dec (b @ r) = dec b"
  "stable_dec short dec \<Longrightarrow> dec b = Inr (x, n) \<Longrightarrow> n \<le> length b"
  by (simp_all add: stable_dec_def)

lemma stable_seq:
  assumes "stable_dec short D" "stable_dec short E"
  shows "stable_dec short (\<lambda>b. bindR (D b) (\<lambda>(x, n). bindR (E (drop n b)) (\<lambda>(y, m). Inr (f x y, n + m))))"
    (is "stable_dec short ?S")
proof (rule stableI)
  fix b r
  assume s: "?S b \<noteq> Inl short"
  show "?S (b @ r) = ?S b"
  proof (cases "D b")
    case (Inl e)
    with s stableD(1) [OF assms(1), of b r] show ?thesis by simp
  next
    case (Inr p)
    then obtain x n where p: "D b = Inr (x, n)" by (cases p) auto
    with s have "E (drop n b) \<noteq> Inl short" by auto
    with p stableD(2) [OF assms(1) p] stableD(1) [OF assms(1), of b r] stableD(1) [OF assms(2), of "drop n b" r]
    show ?thesis by simp
  qed
next
  fix b x n
  assume "?S b = Inr (x, n)"
  then obtain y k z m where "D b = Inr (y, k)" "E (drop k b) = Inr (z, m)" "n = k + m"
    by (auto simp: bindR_Inr_iff)
  with stableD(2) [OF assms(1)] stableD(2) [OF assms(2)] show "n \<le> length b" by fastforce
qed

lemma stable_map:
  assumes "stable_dec short D"
  shows "stable_dec short (\<lambda>b. bindR (D b) (\<lambda>(x, n). Inr (f x, n)))"
proof (rule stableI)
  fix b r
  assume s: "bindR (D b) (\<lambda>(x, n). Inr (f x, n)) \<noteq> Inl short"
  then show "bindR (D (b @ r)) (\<lambda>(x, n). Inr (f x, n)) = bindR (D b) (\<lambda>(x, n). Inr (f x, n))"
    using stableD(1) [OF assms, of b r] by (cases "D b") auto
next
  fix b x n
  assume "bindR (D b) (\<lambda>(x, n). Inr (f x, n)) = Inr (x, n)"
  then show "n \<le> length b" using stableD(2) [OF assms] by (auto simp: bindR_Inr_iff)
qed

text \<open>A choice by the first byte; an empty buffer is incomplete.\<close>

lemma stable_first:
  assumes "\<And>c. stable_dec short (D c)"
  shows "stable_dec short (\<lambda>b. if b = [] then Inl short else D (b ! 0) b)"
proof (rule stableI)
  fix b r
  assume "(if b = [] then Inl short else D (b ! 0) b) \<noteq> Inl short"
  then have "b \<noteq> []" "D (b ! 0) b \<noteq> Inl short" by (auto split: if_splits)
  then show "(if b @ r = [] then Inl short else D ((b @ r) ! 0) (b @ r)) =
      (if b = [] then Inl short else D (b ! 0) b)"
    using stableD(1) [OF assms] by (simp add: nth_append)
next
  fix b x n
  assume "(if b = [] then Inl short else D (b ! 0) b) = Inr (x, n)"
  then show "n \<le> length b" using stableD(2) [OF assms] by (auto split: if_splits)
qed

end
