(* ===== verification/Varint.thy ===== *)
theory Varint
  imports Prelude
begin

text \<open>
  QUIC variable-length integers (\<^verbatim>\<open>src/varint.rs\<close>, RFC 9000 Section 16).  A \<open>varint\<close> wraps a
  64-bit value; \<open>varint_ok\<close> is the invariant \<^verbatim>\<open>0..=2^62 - 1\<close> of the type, which the checked
  constructors establish and which \<open>varint_decode\<close>, that builds the value without a check,
  has to guarantee by itself.
\<close>

section \<open>The type and its constructors\<close>

datatype varint = VarInt (vget: u64)

datatype varint_error = OutOfRange u64

definition VARINT_MAX :: varint where
  "VARINT_MAX = VarInt (2 ^ 62 - 1)"

definition VARINT_ZERO :: varint where
  "VARINT_ZERO = VarInt 0"

definition varint_ok :: "varint \<Rightarrow> bool" where
  "varint_ok v \<longleftrightarrow> vget v \<le> vget VARINT_MAX"

definition varint_new :: "u64 \<Rightarrow> varint_error + varint" where
  "varint_new value = (if vget VARINT_MAX < value then Inl (OutOfRange value) else Inr (VarInt value))"

text \<open>\<^verbatim>\<open>VarInt::from_static\<close> panics outside the range; every use is on a literal.\<close>

definition varint_from_static :: "u64 \<Rightarrow> varint" where
  "varint_from_static value = VarInt value"

definition encoded_len :: "varint \<Rightarrow> usize" where
  "encoded_len v =
    (if vget v < 64 then 1
     else if vget v < 16384 then 2
     else if vget v < 1073741824 then 4
     else 8)"

section \<open>Encoding\<close>

datatype varint_encode_error = EncodeBufferTooShort
datatype varint_decode_error = DecodeBufferTooShort

definition varint_encode :: "bytes \<Rightarrow> varint \<Rightarrow> varint_encode_error + bytes \<times> usize" where
  "varint_encode buf value =
    (let len = encoded_len value in
     if length buf < len then Inl EncodeBufferTooShort
     else
       let raw = vget value in
       if len = 1 then Inr (copy_at buf 0 [as_u8 raw], len)
       else if len = 2 then Inr (copy_at buf 0 (to_be_bytes 2 (take_bit 16 raw OR 0x4000)), len)
       else if len = 4 then Inr (copy_at buf 0 (to_be_bytes 4 (take_bit 32 raw OR 0x80000000)), len)
       else Inr (copy_at buf 0 (to_be_bytes 8 (raw OR 0xc000000000000000)), len))"

text \<open>
  \<^verbatim>\<open>encode_into_vec\<close> grows the vector by \<^verbatim>\<open>encoded_len\<close> zero bytes and encodes into them; the
  \<^verbatim>\<open>expect\<close> is the \<open>undefined\<close> branch, which \<open>encode_into_vec_append\<close> below shows is never taken.
\<close>

definition encode_into_vec :: "bytes \<Rightarrow> varint \<Rightarrow> bytes" where
  "encode_into_vec buf value =
    (let start = length buf; buf = buf @ replicate (encoded_len value) 0 in
     case varint_encode (drop start buf) value of
       Inl e \<Rightarrow> undefined
     | Inr (sub, n) \<Rightarrow> splice buf start sub)"

section \<open>Decoding\<close>

definition varint_decode :: "bytes \<Rightarrow> varint_decode_error + varint \<times> usize" where
  "varint_decode buf =
    (if buf = [] then Inl DecodeBufferTooShort
     else
       let prefix = drop_bit 6 (buf ! 0); len = (2 :: nat) ^ unat prefix in
       if length buf < len then Inl DecodeBufferTooShort
       else
         let value =
           (if len = 1 then unat (buf ! 0 AND 0x3f)
            else if len = 2 then from_be_bytes (take 2 buf) AND 0x3fff
            else if len = 4 then from_be_bytes (take 4 buf) AND 0x3fffffff
            else from_be_bytes (take 8 buf) AND 0x3fffffffffffffff)
         in Inr (VarInt value, len))"

definition peek_len :: "bytes \<Rightarrow> usize option" where
  "peek_len buf = (case buf of [] \<Rightarrow> None | b # _ \<Rightarrow> Some (2 ^ unat (drop_bit 6 b)))"

section \<open>The bytes of an encoding\<close>

text \<open>What \<open>varint_encode\<close> writes, as a list: the abstract view the other formats build on.\<close>

definition varint_bytes :: "varint \<Rightarrow> bytes" where
  "varint_bytes v =
    (let raw = vget v in
     if raw < 64 then [as_u8 raw]
     else if raw < 16384 then to_be_bytes 2 (raw + 0x4000)
     else if raw < 1073741824 then to_be_bytes 4 (raw + 0x80000000)
     else to_be_bytes 8 (raw + 0xc000000000000000))"

lemma length_varint_bytes [simp]: "length (varint_bytes v) = encoded_len v"
  by (simp add: varint_bytes_def encoded_len_def Let_def)

lemma encoded_len_pos [simp]: "0 < encoded_len v"
  by (simp add: encoded_len_def)

lemma encoded_len_le_8: "encoded_len v \<le> 8"
  by (simp add: encoded_len_def)

lemma encoded_len_cases: "encoded_len v \<in> {1, 2, 4, 8}"
  by (simp add: encoded_len_def)

lemma varint_bytes_nonempty [simp]: "varint_bytes v \<noteq> []"
  by (metis encoded_len_pos length_varint_bytes length_greater_0_conv)

lemma varint_ok_iff: "varint_ok v \<longleftrightarrow> vget v < 2 ^ 62"
  by (auto simp: varint_ok_def VARINT_MAX_def)

lemma varint_new_ok: "varint_new n = Inr v \<Longrightarrow> varint_ok v \<and> vget v = n"
  by (auto simp: varint_new_def varint_ok_def split: if_splits)

lemma or_tags:
  "raw < 16384 \<Longrightarrow> raw OR 0x4000 = raw + (0x4000 :: nat)"
  "raw < 1073741824 \<Longrightarrow> raw OR 0x80000000 = raw + (0x80000000 :: nat)"
  "raw < 2 ^ 62 \<Longrightarrow> raw OR 0xc000000000000000 = raw + (0xc000000000000000 :: nat)"
  using nat_or_tag [of raw 14 1] nat_or_tag [of raw 30 2] nat_or_tag [of raw 62 3] by simp_all

lemma varint_encode_written:
  assumes "varint_ok v"
  shows "varint_encode buf v =
    (if length buf < encoded_len v then Inl EncodeBufferTooShort
     else Inr (written buf (varint_bytes v), encoded_len v))"
proof -
  have "take_bit 16 (vget v) = vget v" if "vget v < 16384"
    using that by (simp add: take_bit_nat_eq_self)
  moreover have "take_bit 32 (vget v) = vget v" if "vget v < 1073741824"
    using that by (simp add: take_bit_nat_eq_self)
  moreover have "vget v OR 0xc000000000000000 = vget v + 0xc000000000000000"
    using assms or_tags(3) by (simp add: varint_ok_iff)
  ultimately show ?thesis
    by (auto simp: varint_encode_def varint_bytes_def encoded_len_def Let_def or_tags(1,2)
        simp del: to_be_bytes.simps)
qed

lemma encode_into_vec_append:
  assumes "varint_ok v"
  shows "encode_into_vec buf v = buf @ varint_bytes v"
  using varint_encode_written [OF assms, of "replicate (encoded_len v) 0"]
  by (simp add: encode_into_vec_def Let_def splice_def written_def)

section \<open>Reading the bytes back\<close>

lemma unat_prefix: "unat (drop_bit 6 (b :: u8)) = unat b div 64"
  by (simp only: unat_drop_bit_eq) (simp add: drop_bit_eq_div)

lemma unat_and_3f: "unat (b AND 0x3f :: u8) = unat b mod 64"
proof -
  have "unat (b AND 0x3f) = unat b AND (2 ^ 6 - 1)"
    by (simp add: unsigned_and_eq)
  then show ?thesis by (simp only: nat_and_mask) simp
qed

lemma and_masks:
  "x AND 0x3fff = x mod (16384 :: nat)"
  "x AND 0x3fffffff = x mod (1073741824 :: nat)"
  "x AND 0x3fffffffffffffff = x mod (2 ^ 62 :: nat)"
  using nat_and_mask [of x 14] nat_and_mask [of x 30] nat_and_mask [of x 62] by simp_all

text \<open>
  The first byte of an encoding of \<open>n\<close> bytes carries the tag in its two high bits: with
  \<open>tag * 2 ^ (8 * n - 2)\<close> added to the value, the prefix is the tag.
\<close>

lemma prefix_of_tagged:
  assumes "raw < 2 ^ (8 * n - 2)" "tag < 4" "0 < n"
  shows "unat (hd (to_be_bytes n (raw + tag * 2 ^ (8 * n - 2)))) div 64 = tag"
proof -
  have e: "8 * n - 2 = 8 * (n - 1) + 6" using assms(3) by simp
  have p: "(2 :: nat) ^ (8 * n - 2) = 256 ^ (n - 1) * 64"
    by (simp only: e power_add power_mult) simp
  have "raw + tag * 2 ^ (8 * n - 2) = raw + (tag * 64) * 256 ^ (n - 1)"
    by (simp add: p)
  then have "(raw + tag * 2 ^ (8 * n - 2)) div 256 ^ (n - 1) = tag * 64 + raw div 256 ^ (n - 1)"
    by (simp only: div_mult_self1) simp
  moreover have "raw div 256 ^ (n - 1) < 64"
    using assms(1) by (simp only: p) (simp add: less_mult_imp_div_less mult.commute)
  ultimately show ?thesis
    using assms(2,3) by (simp add: hd_to_be_bytes)
qed

lemma varint_decode_multi:
  assumes "bs \<noteq> []" "2 ^ unat (drop_bit 6 (bs ! 0)) = n" "n \<le> length bs" "n \<in> {2, 4, 8}"
  shows "varint_decode bs = Inr (VarInt (from_be_bytes (take n bs) mod 2 ^ (8 * n - 2)), n)"
proof -
  from assms(4) consider "n = 2" | "n = 4" | "n = 8" by auto
  then show ?thesis
    using assms(1-3) by cases (simp_all add: varint_decode_def Let_def and_masks)
qed

lemma decode_tagged:
  assumes "raw < 2 ^ (8 * n - 2)" "n = 2 ^ tag" "tag < 4" "0 < tag"
  shows "varint_decode (to_be_bytes n (raw + tag * 2 ^ (8 * n - 2)) @ rest) = Inr (VarInt raw, n)"
proof -
  let ?v = "raw + tag * 2 ^ (8 * n - 2)"
  let ?bs = "to_be_bytes n ?v"
  have n: "0 < n" using assms(2) by simp
  then have ne: "?bs \<noteq> []" by (metis length_to_be_bytes length_greater_0_conv)
  then have hd: "(?bs @ rest) ! 0 = hd ?bs" by (cases ?bs) simp_all
  have "unat (drop_bit 6 ((?bs @ rest) ! 0)) = tag"
    unfolding hd unat_prefix by (rule prefix_of_tagged [OF assms(1,3) n])
  then have len: "(2 :: nat) ^ unat (drop_bit 6 ((?bs @ rest) ! 0)) = n"
    by (simp only: assms(2))
  have "(256 :: nat) ^ n = 2 ^ (8 * n)" by (simp add: power_mult)
  also have "8 * n = 2 + (8 * n - 2)" using n by simp
  also have "(2 :: nat) ^ \<dots> = 4 * 2 ^ (8 * n - 2)" by (simp only: power_add) simp
  finally have "(256 :: nat) ^ n = 4 * 2 ^ (8 * n - 2)" .
  moreover have "tag * 2 ^ (8 * n - 2) \<le> 3 * 2 ^ (8 * n - 2)"
    using assms(3) by (intro mult_le_mono1) simp
  ultimately have "?v < 256 ^ n" using assms(1) by linarith
  then have v: "from_be_bytes (take n (?bs @ rest)) = ?v"
    by (simp add: from_to_be_bytes)
  from assms(3,4) have "tag \<in> {1, 2, 3}" by auto
  with assms(2) have n4: "n \<in> {2, 4, 8}" by auto
  have "?v mod 2 ^ (8 * n - 2) = raw"
    using assms(1) by simp
  then show ?thesis
    using varint_decode_multi [OF _ len _ n4] ne v by simp
qed

lemma varint_decode_encode:
  assumes "varint_ok v"
  shows "varint_decode (varint_bytes v @ rest) = Inr (v, encoded_len v)"
proof -
  have small: "varint_decode ([as_u8 raw] @ rest) = Inr (VarInt raw, 1)" if "raw < 64" for raw
    using that by (simp add: varint_decode_def unat_prefix unat_and_3f)
  have "varint_bytes v =
      (if encoded_len v = 1 then [as_u8 (vget v)]
       else to_be_bytes (encoded_len v) (vget v +
        (if encoded_len v = 2 then 1 * 2 ^ (8 * 2 - 2)
         else if encoded_len v = 4 then 2 * 2 ^ (8 * 4 - 2) else 3 * 2 ^ (8 * 8 - 2))))"
    by (simp add: varint_bytes_def encoded_len_def Let_def del: to_be_bytes.simps)
  then consider
    "encoded_len v = 1" "vget v < 64" "varint_bytes v = [as_u8 (vget v)]"
  | "encoded_len v = 2" "vget v < 2 ^ (8 * 2 - 2)"
      "varint_bytes v = to_be_bytes 2 (vget v + 1 * 2 ^ (8 * 2 - 2))"
  | "encoded_len v = 4" "vget v < 2 ^ (8 * 4 - 2)"
      "varint_bytes v = to_be_bytes 4 (vget v + 2 * 2 ^ (8 * 4 - 2))"
  | "encoded_len v = 8" "vget v < 2 ^ (8 * 8 - 2)"
      "varint_bytes v = to_be_bytes 8 (vget v + 3 * 2 ^ (8 * 8 - 2))"
    using assms by (fastforce simp: encoded_len_def varint_ok_iff split: if_splits)
  then show ?thesis
  proof cases
    case 1
    with small show ?thesis by simp
  next
    case 2
    have "varint_decode (varint_bytes v @ rest) = Inr (VarInt (vget v), 2)"
      unfolding 2(3) by (rule decode_tagged) (use 2(2) in simp_all)
    then show ?thesis by (simp add: 2(1))
  next
    case 3
    have "varint_decode (varint_bytes v @ rest) = Inr (VarInt (vget v), 4)"
      unfolding 3(3) by (rule decode_tagged) (use 3(2) in simp_all)
    then show ?thesis by (simp add: 3(1))
  next
    case 4
    have "varint_decode (varint_bytes v @ rest) = Inr (VarInt (vget v), 8)"
      unfolding 4(3) by (rule decode_tagged) (use 4(2) in simp_all)
    then show ?thesis by (simp add: 4(1))
  qed
qed

text \<open>The decoder's own guarantees: the value is in range and the length is one of four.\<close>

lemma varint_decode_sound:
  assumes "varint_decode buf = Inr (v, n)"
  shows "varint_ok v \<and> encoded_len v \<le> n \<and> n \<in> {1, 2, 4, 8} \<and> n \<le> length buf"
proof -
  have b: "buf \<noteq> []" and n: "n = 2 ^ unat (drop_bit 6 (buf ! 0))" and l: "n \<le> length buf"
    using assms by (auto simp: varint_decode_def Let_def split: if_splits)
  have "unat (drop_bit 6 (buf ! 0)) < 4"
    unfolding unat_prefix using unat_u8_lt [of "buf ! 0"] by (simp add: less_mult_imp_div_less)
  then have "unat (drop_bit 6 (buf ! 0)) \<in> {0, 1, 2, 3}" by auto
  with n have "n \<in> {1, 2, 4, 8}" by auto
  moreover from this assms have "vget v < 2 ^ (8 * n - 2)"
    by (auto simp: varint_decode_def Let_def and_masks unat_and_3f split: if_splits)
  ultimately show ?thesis
    using l by (auto simp: varint_ok_iff encoded_len_def)
qed

lemma varint_decode_prefix:
  assumes "varint_decode buf = Inr (v, n)"
  shows "varint_decode (buf @ rest) = Inr (v, n)"
  using assms varint_decode_sound [OF assms]
  by (auto simp: varint_decode_def Let_def nth_append split: if_splits)

lemma varint_decode_too_short:
  "varint_decode buf = Inl e \<longleftrightarrow>
    buf = [] \<or> length buf < 2 ^ unat (drop_bit 6 (buf ! 0))"
  by (cases e) (auto simp: varint_decode_def Let_def)

lemma varint_decode_Nil [simp]: "varint_decode [] = Inl DecodeBufferTooShort"
  by (simp add: varint_decode_def)

lemma varint_decode_stable:
  assumes "varint_decode buf \<noteq> Inl DecodeBufferTooShort"
  shows "varint_decode (buf @ rest) = varint_decode buf"
proof (cases "varint_decode buf")
  case (Inl e)
  with assms show ?thesis by (cases e) simp
next
  case (Inr r)
  then show ?thesis by (cases r) (simp add: varint_decode_prefix)
qed

interpretation vi: incremental varint_ok varint_bytes varint_decode DecodeBufferTooShort
  by unfold_locales (auto simp: varint_decode_encode varint_decode_stable
      dest: varint_decode_sound)

end
