(* ===== verification/Settings.thy ===== *)
theory Settings
  imports Varint
begin

text \<open>
  HTTP/3 SETTINGS (\<^verbatim>\<open>src/settings.rs\<close>, \<^verbatim>\<open>src/limits.rs\<close>) and the WebTransport part of them
  (\<^verbatim>\<open>src/webtransport/settings.rs\<close>): the typed parameters, their wire form, the payload that
  refuses duplicate identifiers (\<^verbatim>\<open>SettingsPayload\<close> of \<^verbatim>\<open>src/frame/mod.rs\<close>) and the two typed
  collections.  The main fact is \<open>settings_roundtrip\<close>: what a peer reads from the payload
  built for a configuration is that configuration.
\<close>

section \<open>Parameters and their wire form\<close>

abbreviation (input) ID_QPACK_MAX_TABLE_CAPACITY :: u64 where "ID_QPACK_MAX_TABLE_CAPACITY \<equiv> 0x01"
abbreviation (input) ID_MAX_FIELD_SECTION_SIZE :: u64 where "ID_MAX_FIELD_SECTION_SIZE \<equiv> 0x06"
abbreviation (input) ID_QPACK_BLOCKED_STREAMS :: u64 where "ID_QPACK_BLOCKED_STREAMS \<equiv> 0x07"
abbreviation (input) ID_ENABLE_CONNECT_PROTOCOL :: u64 where "ID_ENABLE_CONNECT_PROTOCOL \<equiv> 0x08"
abbreviation (input) ID_H3_DATAGRAM :: u64 where "ID_H3_DATAGRAM \<equiv> 0x33"
abbreviation (input) ID_WT_INITIAL_MAX_DATA :: u64 where "ID_WT_INITIAL_MAX_DATA \<equiv> 0x2b61"
abbreviation (input) ID_WT_INITIAL_MAX_STREAMS_UNI :: u64 where "ID_WT_INITIAL_MAX_STREAMS_UNI \<equiv> 0x2b64"
abbreviation (input) ID_WT_INITIAL_MAX_STREAMS_BIDI :: u64 where "ID_WT_INITIAL_MAX_STREAMS_BIDI \<equiv> 0x2b65"
abbreviation (input) ID_ENABLE_WEBTRANSPORT_DRAFT02 :: u64 where "ID_ENABLE_WEBTRANSPORT_DRAFT02 \<equiv> 0x2b603742"
abbreviation (input) ID_WT_MAX_SESSIONS_DRAFT14 :: u64 where "ID_WT_MAX_SESSIONS_DRAFT14 \<equiv> 0x14e9cd29"
abbreviation (input) ID_WT_ENABLED :: u64 where "ID_WT_ENABLED \<equiv> 0x2c7cf000"
abbreviation (input) ID_WT_ENABLED_DRAFT17 :: u64 where "ID_WT_ENABLED_DRAFT17 \<equiv> 0x20b8933b"
abbreviation (input) ID_WEBTRANSPORT_MAX_SESSIONS_DRAFT07 :: u64 where "ID_WEBTRANSPORT_MAX_SESSIONS_DRAFT07 \<equiv> 0xc671706a"

definition is_http2_only_id :: "u64 \<Rightarrow> bool" where
  "is_http2_only_id i \<longleftrightarrow> 0x02 \<le> i \<and> i \<le> 0x05"

datatype unknown_setting = UnknownSetting (us_id: varint) (us_value: varint)

datatype setting =
    QpackMaxTableCapacity varint
  | MaxFieldSectionSize varint
  | QpackBlockedStreams varint
  | EnableConnectProtocol bool
  | H3Datagram bool
  | WtEnabled varint
  | WtEnabledDraft17 varint
  | WtMaxSessionsDraft14 varint
  | EnableWebTransportDraft02 bool
  | WebTransportMaxSessionsDraft07 varint
  | WtInitialMaxData varint
  | WtInitialMaxStreamsUni varint
  | WtInitialMaxStreamsBidi varint
  | SettingUnknown unknown_setting

datatype setting_error =
    Http2OnlyId varint
  | InvalidBooleanValue varint varint
  | DuplicateId varint

definition check_bool :: "varint \<Rightarrow> varint \<Rightarrow> setting_error + bool" where
  "check_bool i value =
    (if vget value = 0 then Inr False
     else if vget value = 1 then Inr True
     else Inl (InvalidBooleanValue i value))"

definition setting_from_wire :: "varint \<Rightarrow> varint \<Rightarrow> setting_error + setting" where
  "setting_from_wire i value =
    (let raw = vget i in
     if is_http2_only_id raw then Inl (Http2OnlyId i)
     else if raw = ID_QPACK_MAX_TABLE_CAPACITY then Inr (QpackMaxTableCapacity value)
     else if raw = ID_MAX_FIELD_SECTION_SIZE then Inr (MaxFieldSectionSize value)
     else if raw = ID_QPACK_BLOCKED_STREAMS then Inr (QpackBlockedStreams value)
     else if raw = ID_ENABLE_CONNECT_PROTOCOL then
       bindR (check_bool i value) (\<lambda>b. Inr (EnableConnectProtocol b))
     else if raw = ID_H3_DATAGRAM then bindR (check_bool i value) (\<lambda>b. Inr (H3Datagram b))
     else if raw = ID_WT_ENABLED then Inr (WtEnabled value)
     else if raw = ID_WT_ENABLED_DRAFT17 then Inr (WtEnabledDraft17 value)
     else if raw = ID_WT_MAX_SESSIONS_DRAFT14 then Inr (WtMaxSessionsDraft14 value)
     else if raw = ID_ENABLE_WEBTRANSPORT_DRAFT02 then
       bindR (check_bool i value) (\<lambda>b. Inr (EnableWebTransportDraft02 b))
     else if raw = ID_WEBTRANSPORT_MAX_SESSIONS_DRAFT07 then
       Inr (WebTransportMaxSessionsDraft07 value)
     else if raw = ID_WT_INITIAL_MAX_DATA then Inr (WtInitialMaxData value)
     else if raw = ID_WT_INITIAL_MAX_STREAMS_UNI then Inr (WtInitialMaxStreamsUni value)
     else if raw = ID_WT_INITIAL_MAX_STREAMS_BIDI then Inr (WtInitialMaxStreamsBidi value)
     else Inr (SettingUnknown (UnknownSetting i value)))"

definition bool_v :: "bool \<Rightarrow> varint" where
  "bool_v b = (if b then varint_from_static 1 else VARINT_ZERO)"

fun as_wire :: "setting \<Rightarrow> varint \<times> varint" where
  "as_wire (QpackMaxTableCapacity v) = (varint_from_static ID_QPACK_MAX_TABLE_CAPACITY, v)"
| "as_wire (MaxFieldSectionSize v) = (varint_from_static ID_MAX_FIELD_SECTION_SIZE, v)"
| "as_wire (QpackBlockedStreams v) = (varint_from_static ID_QPACK_BLOCKED_STREAMS, v)"
| "as_wire (EnableConnectProtocol b) = (varint_from_static ID_ENABLE_CONNECT_PROTOCOL, bool_v b)"
| "as_wire (H3Datagram b) = (varint_from_static ID_H3_DATAGRAM, bool_v b)"
| "as_wire (WtEnabled v) = (varint_from_static ID_WT_ENABLED, v)"
| "as_wire (WtEnabledDraft17 v) = (varint_from_static ID_WT_ENABLED_DRAFT17, v)"
| "as_wire (WtMaxSessionsDraft14 v) = (varint_from_static ID_WT_MAX_SESSIONS_DRAFT14, v)"
| "as_wire (EnableWebTransportDraft02 b) =
    (varint_from_static ID_ENABLE_WEBTRANSPORT_DRAFT02, bool_v b)"
| "as_wire (WebTransportMaxSessionsDraft07 v) =
    (varint_from_static ID_WEBTRANSPORT_MAX_SESSIONS_DRAFT07, v)"
| "as_wire (WtInitialMaxData v) = (varint_from_static ID_WT_INITIAL_MAX_DATA, v)"
| "as_wire (WtInitialMaxStreamsUni v) = (varint_from_static ID_WT_INITIAL_MAX_STREAMS_UNI, v)"
| "as_wire (WtInitialMaxStreamsBidi v) = (varint_from_static ID_WT_INITIAL_MAX_STREAMS_BIDI, v)"
| "as_wire (SettingUnknown u) = (us_id u, us_value u)"

definition setting_id :: "setting \<Rightarrow> varint" where
  "setting_id s = fst (as_wire s)"

text \<open>
  What the private fields of \<^verbatim>\<open>UnknownSetting\<close> protect: an unknown parameter never carries an
  identifier that has a variant of its own or is reserved for HTTP/2.
\<close>

definition known_setting_ids :: "u64 list" where
  "known_setting_ids =
    [0x01, 0x06, 0x07, 0x08, 0x33, 0x2c7cf000, 0x20b8933b, 0x14e9cd29, 0x2b603742, 0xc671706a,
     0x2b61, 0x2b64, 0x2b65]"

definition wf_setting :: "setting \<Rightarrow> bool" where
  "wf_setting s \<longleftrightarrow>
    varint_ok (fst (as_wire s)) \<and> varint_ok (snd (as_wire s)) \<and>
    (case s of SettingUnknown u \<Rightarrow>
        vget (us_id u) \<notin> set known_setting_ids \<and> \<not> is_http2_only_id (vget (us_id u))
      | _ \<Rightarrow> True)"

lemma vget_from_static [simp]: "vget (varint_from_static n) = n"
  by (simp add: varint_from_static_def)

lemma from_static_inject [simp]: "varint_from_static a = varint_from_static b \<longleftrightarrow> a = b"
  by (simp add: varint_from_static_def)

lemma vget_ZERO [simp]: "vget VARINT_ZERO = 0"
  by (simp add: VARINT_ZERO_def)

lemma varint_ok_from_static [simp]: "varint_ok (varint_from_static n) \<longleftrightarrow> n < 2 ^ 62"
  by (simp add: varint_ok_iff)

lemma varint_ok_ZERO [simp]: "varint_ok VARINT_ZERO"
  by (simp add: varint_ok_iff)

lemma varint_eq_ZERO: "v = VARINT_ZERO \<longleftrightarrow> vget v = 0"
  by (cases v) (simp add: VARINT_ZERO_def)

lemma bool_v_ok [simp]: "varint_ok (bool_v b)"
  by (simp add: bool_v_def)

lemma check_bool_bool_v [simp]: "check_bool i (bool_v b) = Inr b"
  by (simp add: check_bool_def bool_v_def)

lemma check_bool_Inr: "check_bool i v = Inr b \<Longrightarrow> bool_v b = v"
  by (cases v) (auto simp: check_bool_def bool_v_def varint_from_static_def VARINT_ZERO_def
      split: if_splits)

lemma from_wire_as_wire:
  assumes "wf_setting s"
  shows "setting_from_wire (fst (as_wire s)) (snd (as_wire s)) = Inr s"
proof (cases s)
  case (SettingUnknown u)
  with assms show ?thesis
    by (cases u) (simp add: wf_setting_def setting_from_wire_def known_setting_ids_def)
qed (simp_all add: setting_from_wire_def is_http2_only_id_def)

lemma as_wire_from_wire:
  assumes "setting_from_wire i v = Inr s"
  shows "as_wire s = (i, v)"
proof -
  have "varint_from_static (vget i) = i" by (cases i) (simp add: varint_from_static_def)
  with assms show ?thesis
    by (auto simp: setting_from_wire_def Let_def bindR_Inr_iff split: if_splits
        dest: check_bool_Inr)
qed

lemma wf_from_wire:
  assumes "setting_from_wire i v = Inr s" "varint_ok i" "varint_ok v"
  shows "wf_setting s"
proof -
  have "case s of SettingUnknown u \<Rightarrow>
      vget (us_id u) \<notin> set known_setting_ids \<and> \<not> is_http2_only_id (vget (us_id u))
      | _ \<Rightarrow> True"
    using assms(1)
    by (auto simp: setting_from_wire_def Let_def bindR_Inr_iff known_setting_ids_def
        split: if_splits)
  then show ?thesis
    using as_wire_from_wire [OF assms(1)] assms(2,3) by (simp add: wf_setting_def)
qed

section \<open>The SETTINGS payload\<close>

record settings_payload =
  sp_settings :: "setting list"
  sp_seen_ids :: "varint set"

definition payload_new :: settings_payload where
  "payload_new = \<lparr>sp_settings = [], sp_seen_ids = {}\<rparr>"

definition payload_add :: "settings_payload \<Rightarrow> setting \<Rightarrow> setting_error + settings_payload" where
  "payload_add p s =
    (let i = setting_id s in
     if i \<in> sp_seen_ids p then Inl (DuplicateId i)
     else Inr (p\<lparr>sp_seen_ids := insert i (sp_seen_ids p), sp_settings := sp_settings p @ [s]\<rparr>))"

text \<open>The invariant of the payload: well-formed parameters, each identifier once and recorded.\<close>

definition wf_payload :: "settings_payload \<Rightarrow> bool" where
  "wf_payload p \<longleftrightarrow>
    (\<forall>s \<in> set (sp_settings p). wf_setting s) \<and>
    distinct (map setting_id (sp_settings p)) \<and>
    sp_seen_ids p = set (map setting_id (sp_settings p))"

lemma wf_payload_new [simp]: "wf_payload payload_new"
  by (simp add: wf_payload_def payload_new_def)

lemma payload_new_settings [simp]: "sp_settings payload_new = []"
  by (simp add: payload_new_def)

lemma wf_payload_add:
  assumes "wf_payload p" "wf_setting s" "payload_add p s = Inr p'"
  shows "wf_payload p' \<and> sp_settings p' = sp_settings p @ [s]"
  using assms by (auto simp: payload_add_def wf_payload_def Let_def split: if_splits)

lemma payload_add_fresh:
  assumes "wf_payload p" "setting_id s \<notin> set (map setting_id (sp_settings p))"
  shows "\<exists>p'. payload_add p s = Inr p'"
  using assms by (auto simp: payload_add_def wf_payload_def Let_def)

text \<open>Adding parameters one after the other, as the decoder and the builder do.\<close>

fun payload_add_all :: "settings_payload \<Rightarrow> setting list \<Rightarrow> setting_error + settings_payload" where
  "payload_add_all p [] = Inr p"
| "payload_add_all p (s # ss) = bindR (payload_add p s) (\<lambda>p'. payload_add_all p' ss)"

lemma payload_add_all_append:
  "payload_add_all p (xs @ ys) = bindR (payload_add_all p xs) (\<lambda>p'. payload_add_all p' ys)"
proof (induction xs arbitrary: p)
  case (Cons x xs)
  then show ?case by (cases "payload_add p x") auto
qed simp

lemma payload_add_all_distinct:
  assumes "wf_payload p" "\<forall>s \<in> set ss. wf_setting s"
    "distinct (map setting_id (sp_settings p @ ss))"
  shows "\<exists>p'. payload_add_all p ss = Inr p' \<and> wf_payload p' \<and> sp_settings p' = sp_settings p @ ss"
  using assms
proof (induction ss arbitrary: p)
  case Nil
  then show ?case by simp
next
  case (Cons s ss)
  then obtain p' where p': "payload_add p s = Inr p'"
    using payload_add_fresh [of p s] by auto
  with Cons.prems have "wf_payload p'" "sp_settings p' = sp_settings p @ [s]"
    using wf_payload_add by auto
  with Cons.IH [of p'] Cons.prems p' show ?case by simp
qed

section \<open>Limits and the typed collections\<close>

record limits =
  lim_max_field_section_size :: u64
  lim_qpack_max_table_capacity :: u64
  lim_qpack_blocked_streams :: u64
  lim_max_received_body_size :: u64

definition limits_default :: limits where
  "limits_default =
    \<lparr>lim_max_field_section_size = 16 * 1024, lim_qpack_max_table_capacity = 4096,
     lim_qpack_blocked_streams = 100, lim_max_received_body_size = 16 * 1024 * 1024\<rparr>"

record wt_settings =
  wt_enabled :: varint
  wt_enabled_draft17 :: varint
  wt_initial_max_streams_uni :: varint
  wt_initial_max_streams_bidi :: varint
  wt_initial_max_data :: varint
  enable_webtransport_draft02 :: "bool option"
  webtransport_max_sessions_draft07 :: "varint option"
  wt_max_sessions_draft14 :: "varint option"

definition wt_settings_new :: wt_settings where
  "wt_settings_new =
    \<lparr>wt_enabled = VARINT_ZERO, wt_enabled_draft17 = VARINT_ZERO,
     wt_initial_max_streams_uni = VARINT_ZERO, wt_initial_max_streams_bidi = VARINT_ZERO,
     wt_initial_max_data = VARINT_ZERO, enable_webtransport_draft02 = None,
     webtransport_max_sessions_draft07 = None, wt_max_sessions_draft14 = None\<rparr>"

record h3_settings =
  qpack_max_table_capacity :: "varint option"
  max_field_section_size :: "varint option"
  qpack_blocked_streams :: "varint option"
  enable_connect_protocol :: "bool option"
  h3_datagram :: "bool option"
  wt_part :: "wt_settings option"

definition h3_settings_new :: h3_settings where
  "h3_settings_new =
    \<lparr>qpack_max_table_capacity = None, max_field_section_size = None,
     qpack_blocked_streams = None, enable_connect_protocol = None, h3_datagram = None,
     wt_part = None\<rparr>"

definition settings_from_limits :: "limits \<Rightarrow> varint_error + h3_settings" where
  "settings_from_limits l =
    bindR (varint_new (lim_qpack_max_table_capacity l)) (\<lambda>c.
    bindR (varint_new (lim_max_field_section_size l)) (\<lambda>m.
    bindR (varint_new (lim_qpack_blocked_streams l)) (\<lambda>b.
      Inr \<lparr>qpack_max_table_capacity = Some c, max_field_section_size = Some m,
        qpack_blocked_streams = Some b, enable_connect_protocol = None, h3_datagram = None,
        wt_part = None\<rparr>)))"

definition enable_webtransport_server :: "h3_settings \<Rightarrow> wt_settings \<Rightarrow> h3_settings" where
  "enable_webtransport_server s wt =
    s\<lparr>enable_connect_protocol := Some True, h3_datagram := Some True, wt_part := Some wt\<rparr>"

definition enable_webtransport_client :: "h3_settings \<Rightarrow> wt_settings \<Rightarrow> h3_settings" where
  "enable_webtransport_client s wt = s\<lparr>h3_datagram := Some True, wt_part := Some wt\<rparr>"

section \<open>From a configuration to parameters and back\<close>

definition then_some :: "bool \<Rightarrow> 'a \<Rightarrow> 'a option" where
  "then_some b x = (if b then Some x else None)"

definition opt_list :: "'a option \<Rightarrow> 'a list" where
  "opt_list m = (case m of None \<Rightarrow> [] | Some x \<Rightarrow> [x])"

lemma opt_list_simps [simp]: "opt_list None = []" "opt_list (Some x) = [x]"
  by (simp_all add: opt_list_def)

lemma set_opt_list [simp]: "x \<in> set (opt_list m) \<longleftrightarrow> m = Some x"
  by (cases m) auto

lemma then_some_eq_Some [simp]: "then_some b x = Some y \<longleftrightarrow> b \<and> y = x"
  by (auto simp: then_some_def)

definition settings_iter :: "h3_settings \<Rightarrow> setting list" where
  "settings_iter s = concat (map opt_list
    [map_option QpackMaxTableCapacity (qpack_max_table_capacity s),
     map_option MaxFieldSectionSize (max_field_section_size s),
     map_option QpackBlockedStreams (qpack_blocked_streams s),
     map_option EnableConnectProtocol (enable_connect_protocol s),
     map_option H3Datagram (h3_datagram s)])"

definition wt_iter :: "wt_settings \<Rightarrow> setting list" where
  "wt_iter w = concat (map opt_list
    [then_some (wt_enabled w \<noteq> VARINT_ZERO) (WtEnabled (wt_enabled w)),
     then_some (wt_enabled_draft17 w \<noteq> VARINT_ZERO) (WtEnabledDraft17 (wt_enabled_draft17 w)),
     then_some (wt_initial_max_streams_uni w \<noteq> VARINT_ZERO)
       (WtInitialMaxStreamsUni (wt_initial_max_streams_uni w)),
     then_some (wt_initial_max_streams_bidi w \<noteq> VARINT_ZERO)
       (WtInitialMaxStreamsBidi (wt_initial_max_streams_bidi w)),
     then_some (wt_initial_max_data w \<noteq> VARINT_ZERO) (WtInitialMaxData (wt_initial_max_data w)),
     map_option EnableWebTransportDraft02 (enable_webtransport_draft02 w),
     map_option WebTransportMaxSessionsDraft07 (webtransport_max_sessions_draft07 w),
     map_option WtMaxSessionsDraft14 (wt_max_sessions_draft14 w)])"

text \<open>
  \<^verbatim>\<open>SettingsPayload::from_settings\<close>: the H3 part, the WebTransport part, then the reserved
  identifier 0x21.  Its \<^verbatim>\<open>expect\<close>s panic on an error of \<open>payload_add\<close> or \<open>from_wire\<close>; the model
  returns that error, and \<open>payload_from_settings_total\<close> shows that there is none.
\<close>

definition payload_from_settings :: "h3_settings \<Rightarrow> setting_error + settings_payload" where
  "payload_from_settings s =
    bindR (payload_add_all payload_new (settings_iter s)) (\<lambda>p.
    bindR (case wt_part s of None \<Rightarrow> Inr p | Some wt \<Rightarrow> payload_add_all p (wt_iter wt)) (\<lambda>p.
    bindR (setting_from_wire (varint_from_static 0x21) VARINT_ZERO) (\<lambda>grease.
      payload_add p grease)))"

fun wt_apply :: "setting \<Rightarrow> wt_settings \<times> bool \<Rightarrow> wt_settings \<times> bool" where
  "wt_apply (WtEnabled v) (w, found) = (w\<lparr>wt_enabled := v\<rparr>, True)"
| "wt_apply (WtEnabledDraft17 v) (w, found) = (w\<lparr>wt_enabled_draft17 := v\<rparr>, True)"
| "wt_apply (WtInitialMaxStreamsUni v) (w, found) = (w\<lparr>wt_initial_max_streams_uni := v\<rparr>, True)"
| "wt_apply (WtInitialMaxStreamsBidi v) (w, found) = (w\<lparr>wt_initial_max_streams_bidi := v\<rparr>, True)"
| "wt_apply (WtInitialMaxData v) (w, found) = (w\<lparr>wt_initial_max_data := v\<rparr>, True)"
| "wt_apply (EnableWebTransportDraft02 b) (w, found) =
    (w\<lparr>enable_webtransport_draft02 := Some b\<rparr>, True)"
| "wt_apply (WebTransportMaxSessionsDraft07 v) (w, found) =
    (w\<lparr>webtransport_max_sessions_draft07 := Some v\<rparr>, True)"
| "wt_apply (WtMaxSessionsDraft14 v) (w, found) = (w\<lparr>wt_max_sessions_draft14 := Some v\<rparr>, True)"
| "wt_apply (QpackMaxTableCapacity v) a = a"
| "wt_apply (MaxFieldSectionSize v) a = a"
| "wt_apply (QpackBlockedStreams v) a = a"
| "wt_apply (EnableConnectProtocol b) a = a"
| "wt_apply (H3Datagram b) a = a"
| "wt_apply (SettingUnknown u) a = a"

definition wt_from_payload :: "setting list \<Rightarrow> wt_settings option" where
  "wt_from_payload ss =
    (let (w, found) = fold wt_apply ss (wt_settings_new, False) in then_some found w)"

fun h3_apply :: "setting \<Rightarrow> h3_settings \<Rightarrow> h3_settings" where
  "h3_apply (QpackMaxTableCapacity v) s = s\<lparr>qpack_max_table_capacity := Some v\<rparr>"
| "h3_apply (MaxFieldSectionSize v) s = s\<lparr>max_field_section_size := Some v\<rparr>"
| "h3_apply (QpackBlockedStreams v) s = s\<lparr>qpack_blocked_streams := Some v\<rparr>"
| "h3_apply (EnableConnectProtocol b) s = s\<lparr>enable_connect_protocol := Some b\<rparr>"
| "h3_apply (H3Datagram b) s = s\<lparr>h3_datagram := Some b\<rparr>"
| "h3_apply (WtEnabled v) s = s"
| "h3_apply (WtEnabledDraft17 v) s = s"
| "h3_apply (WtMaxSessionsDraft14 v) s = s"
| "h3_apply (EnableWebTransportDraft02 b) s = s"
| "h3_apply (WebTransportMaxSessionsDraft07 v) s = s"
| "h3_apply (WtInitialMaxData v) s = s"
| "h3_apply (WtInitialMaxStreamsUni v) s = s"
| "h3_apply (WtInitialMaxStreamsBidi v) s = s"
| "h3_apply (SettingUnknown u) s = s"

definition settings_from_payload :: "settings_payload \<Rightarrow> h3_settings" where
  "settings_from_payload p =
    (fold h3_apply (sp_settings p) h3_settings_new)\<lparr>wt_part := wt_from_payload (sp_settings p)\<rparr>"

definition settings_len :: "h3_settings \<Rightarrow> usize" where
  "settings_len s = length (settings_iter s) +
    (case wt_part s of None \<Rightarrow> 0 | Some wt \<Rightarrow> length (wt_iter wt))"

section \<open>The configuration survives the payload\<close>

text \<open>Every \<^verbatim>\<open>VarInt\<close> of a configuration satisfies its type's invariant.\<close>

definition wf_wt_settings :: "wt_settings \<Rightarrow> bool" where
  "wf_wt_settings w \<longleftrightarrow>
    varint_ok (wt_enabled w) \<and> varint_ok (wt_enabled_draft17 w) \<and>
    varint_ok (wt_initial_max_streams_uni w) \<and> varint_ok (wt_initial_max_streams_bidi w) \<and>
    varint_ok (wt_initial_max_data w) \<and>
    pred_option varint_ok (webtransport_max_sessions_draft07 w) \<and>
    pred_option varint_ok (wt_max_sessions_draft14 w)"

definition wf_h3_settings :: "h3_settings \<Rightarrow> bool" where
  "wf_h3_settings s \<longleftrightarrow>
    pred_option varint_ok (qpack_max_table_capacity s) \<and>
    pred_option varint_ok (max_field_section_size s) \<and>
    pred_option varint_ok (qpack_blocked_streams s) \<and>
    pred_option wf_wt_settings (wt_part s)"

definition grease_setting :: setting where
  "grease_setting = SettingUnknown (UnknownSetting (varint_from_static 0x21) VARINT_ZERO)"

definition all_settings :: "h3_settings \<Rightarrow> setting list" where
  "all_settings s =
    settings_iter s @ (case wt_part s of None \<Rightarrow> [] | Some wt \<Rightarrow> wt_iter wt) @ [grease_setting]"

lemma from_wire_grease: "setting_from_wire (varint_from_static 0x21) VARINT_ZERO = Inr grease_setting"
  by (simp add: setting_from_wire_def is_http2_only_id_def grease_setting_def)

lemma pred_option_SomeD: "pred_option P m \<Longrightarrow> m = Some x \<Longrightarrow> P x"
  by simp

lemma wf_settings_iter: "wf_h3_settings s \<Longrightarrow> x \<in> set (settings_iter s) \<Longrightarrow> wf_setting x"
  by (auto simp: settings_iter_def wf_h3_settings_def wf_setting_def
      dest: pred_option_SomeD)

lemma wf_wt_iter: "wf_wt_settings w \<Longrightarrow> x \<in> set (wt_iter w) \<Longrightarrow> wf_setting x"
  by (auto simp: wt_iter_def wf_wt_settings_def wf_setting_def
      dest: pred_option_SomeD)

lemma wf_grease: "wf_setting grease_setting"
  by (simp add: grease_setting_def wf_setting_def known_setting_ids_def is_http2_only_id_def)

text \<open>The identifiers of the three parts, in the order of emission: sublists of a fixed list.\<close>

lemma distinct_opt_ids:
  "distinct (map f (opt_list m)) "
  by (cases m) auto

definition h3_ids :: "nat set" where
  "h3_ids = {0x01, 0x06, 0x07, 0x08, 0x33}"

definition wt_ids :: "nat set" where
  "wt_ids = {0x2c7cf000, 0x20b8933b, 0x14e9cd29, 0x2b603742, 0xc671706a, 0x2b61, 0x2b64, 0x2b65}"

lemma ids_settings_iter: "x \<in> set (settings_iter s) \<Longrightarrow> vget (setting_id x) \<in> h3_ids"
  by (auto simp: settings_iter_def setting_id_def h3_ids_def)

lemma ids_wt_iter: "x \<in> set (wt_iter w) \<Longrightarrow> vget (setting_id x) \<in> wt_ids"
  by (auto simp: wt_iter_def setting_id_def wt_ids_def)

lemma ids_disjoint: "h3_ids \<inter> wt_ids = {}" "0x21 \<notin> h3_ids" "0x21 \<notin> wt_ids"
  by (auto simp: h3_ids_def wt_ids_def)

lemma distinct_settings_iter: "distinct (map setting_id (settings_iter s))"
  by (auto simp: settings_iter_def setting_id_def distinct_opt_ids)

lemma distinct_wt_iter: "distinct (map setting_id (wt_iter w))"
  by (auto simp: wt_iter_def setting_id_def distinct_opt_ids)

lemma distinct_all_settings: "distinct (map setting_id (all_settings s))"
proof -
  have g: "vget (setting_id grease_setting) = 0x21"
    by (simp add: setting_id_def grease_setting_def)
  have 1: "setting_id grease_setting \<notin> setting_id ` set (settings_iter s)"
    using ids_settings_iter g ids_disjoint(2) by force
  have 2: "setting_id grease_setting \<notin> setting_id ` set (wt_iter w)" for w
    using ids_wt_iter g ids_disjoint(3) by force
  have "setting_id x \<noteq> setting_id y" if "x \<in> set (settings_iter s)" "y \<in> set (wt_iter w)" for x y w
    using ids_settings_iter [OF that(1)] ids_wt_iter [OF that(2)] ids_disjoint(1) by auto
  then have 3: "setting_id ` set (settings_iter s) \<inter> setting_id ` set (wt_iter w) = {}" for w
    by auto
  show ?thesis
  proof (cases "wt_part s")
    case None
    with distinct_settings_iter [of s] 1 show ?thesis by (simp add: all_settings_def)
  next
    case (Some w)
    with distinct_settings_iter [of s] distinct_wt_iter [of w] 1 2 [of w] 3 [of w]
    show ?thesis by (simp add: all_settings_def)
  qed
qed

lemma payload_from_settings_total:
  assumes "wf_h3_settings s"
  shows "\<exists>p. payload_from_settings s = Inr p \<and> wf_payload p \<and> sp_settings p = all_settings s"
proof -
  have wf: "\<forall>x \<in> set (all_settings s). wf_setting x"
    using assms wf_settings_iter [OF assms] wf_wt_iter wf_grease
    by (cases "wt_part s") (auto simp: all_settings_def wf_h3_settings_def)
  obtain p where p: "payload_add_all payload_new (all_settings s) = Inr p" "wf_payload p"
    "sp_settings p = all_settings s"
    using payload_add_all_distinct [OF wf_payload_new wf] distinct_all_settings [of s] by auto
  have "payload_from_settings s = payload_add_all payload_new (all_settings s)"
    unfolding payload_from_settings_def all_settings_def payload_add_all_append from_wire_grease
    by (cases "payload_add_all payload_new (settings_iter s)"; cases "wt_part s")
      (auto simp: bindR_def split: sum.splits)
  with p show ?thesis by auto
qed

text \<open>Reading back: parameters of the other part are skipped, the own ones are stored.\<close>

lemma fold_skip: "(\<And>x. x \<in> set xs \<Longrightarrow> f x a = a) \<Longrightarrow> fold f xs a = a"
  by (induction xs) auto

lemma h3_apply_wt_iter: "x \<in> set (wt_iter w) \<Longrightarrow> h3_apply x s = s"
  by (auto simp: wt_iter_def)

lemma wt_apply_settings_iter: "x \<in> set (settings_iter s) \<Longrightarrow> wt_apply x a = a"
  by (cases a) (auto simp: settings_iter_def)

lemma apply_grease [simp]: "h3_apply grease_setting s = s" "wt_apply grease_setting a = a"
  by (cases a, simp add: grease_setting_def)+

definition store :: "('x \<Rightarrow> 'a \<Rightarrow> 'a) \<Rightarrow> 'x option \<Rightarrow> 'a \<Rightarrow> 'a" where
  "store f m a = (case m of None \<Rightarrow> a | Some x \<Rightarrow> f x a)"

lemma fold_concat_opt: "fold f (concat (map opt_list ms)) a = fold (store f) ms a"
  by (induction ms arbitrary: a) (auto simp: store_def opt_list_def split: option.splits)

lemma store_h3 [simp]:
  "qpack_max_table_capacity s = None \<Longrightarrow>
    store h3_apply (map_option QpackMaxTableCapacity m) s = s\<lparr>qpack_max_table_capacity := m\<rparr>"
  "max_field_section_size s = None \<Longrightarrow>
    store h3_apply (map_option MaxFieldSectionSize m) s = s\<lparr>max_field_section_size := m\<rparr>"
  "qpack_blocked_streams s = None \<Longrightarrow>
    store h3_apply (map_option QpackBlockedStreams m) s = s\<lparr>qpack_blocked_streams := m\<rparr>"
  "enable_connect_protocol s = None \<Longrightarrow>
    store h3_apply (map_option EnableConnectProtocol b) s = s\<lparr>enable_connect_protocol := b\<rparr>"
  "h3_datagram s = None \<Longrightarrow>
    store h3_apply (map_option H3Datagram b) s = s\<lparr>h3_datagram := b\<rparr>"
  by (cases s; cases m; cases b; simp add: store_def)+

lemma fold_h3_settings_iter:
  "fold h3_apply (settings_iter s) h3_settings_new = s\<lparr>wt_part := None\<rparr>"
  by (cases s) (simp add: settings_iter_def fold_concat_opt h3_settings_new_def
      del: list.map concat.simps)

lemma store_wt [simp]:
  "wt_enabled w = VARINT_ZERO \<Longrightarrow>
    store wt_apply (then_some (v \<noteq> VARINT_ZERO) (WtEnabled v)) (w, b) =
      (w\<lparr>wt_enabled := v\<rparr>, b \<or> v \<noteq> VARINT_ZERO)"
  "wt_enabled_draft17 w = VARINT_ZERO \<Longrightarrow>
    store wt_apply (then_some (v \<noteq> VARINT_ZERO) (WtEnabledDraft17 v)) (w, b) =
      (w\<lparr>wt_enabled_draft17 := v\<rparr>, b \<or> v \<noteq> VARINT_ZERO)"
  "wt_initial_max_streams_uni w = VARINT_ZERO \<Longrightarrow>
    store wt_apply (then_some (v \<noteq> VARINT_ZERO) (WtInitialMaxStreamsUni v)) (w, b) =
      (w\<lparr>wt_initial_max_streams_uni := v\<rparr>, b \<or> v \<noteq> VARINT_ZERO)"
  "wt_initial_max_streams_bidi w = VARINT_ZERO \<Longrightarrow>
    store wt_apply (then_some (v \<noteq> VARINT_ZERO) (WtInitialMaxStreamsBidi v)) (w, b) =
      (w\<lparr>wt_initial_max_streams_bidi := v\<rparr>, b \<or> v \<noteq> VARINT_ZERO)"
  "wt_initial_max_data w = VARINT_ZERO \<Longrightarrow>
    store wt_apply (then_some (v \<noteq> VARINT_ZERO) (WtInitialMaxData v)) (w, b) =
      (w\<lparr>wt_initial_max_data := v\<rparr>, b \<or> v \<noteq> VARINT_ZERO)"
  "enable_webtransport_draft02 w = None \<Longrightarrow>
    store wt_apply (map_option EnableWebTransportDraft02 c) (w, b) =
      (w\<lparr>enable_webtransport_draft02 := c\<rparr>, b \<or> c \<noteq> None)"
  "webtransport_max_sessions_draft07 w = None \<Longrightarrow>
    store wt_apply (map_option WebTransportMaxSessionsDraft07 m) (w, b) =
      (w\<lparr>webtransport_max_sessions_draft07 := m\<rparr>, b \<or> m \<noteq> None)"
  "wt_max_sessions_draft14 w = None \<Longrightarrow>
    store wt_apply (map_option WtMaxSessionsDraft14 m) (w, b) =
      (w\<lparr>wt_max_sessions_draft14 := m\<rparr>, b \<or> m \<noteq> None)"
  by (cases w; cases m; cases c; simp add: store_def then_some_def)+

lemma fold_wt_iter:
  "fold wt_apply (wt_iter w) (wt_settings_new, False) = (w, w \<noteq> wt_settings_new)"
  by (cases w) (auto simp add: wt_iter_def fold_concat_opt wt_settings_new_def
      simp del: list.map concat.simps)

lemma settings_from_payload_all:
  assumes "sp_settings p = all_settings s"
  shows "settings_from_payload p =
    (if wt_part s = Some wt_settings_new then s\<lparr>wt_part := None\<rparr> else s)"
proof -
  have h3: "fold h3_apply (all_settings s) h3_settings_new = s\<lparr>wt_part := None\<rparr>"
    by (cases "wt_part s")
      (simp_all add: all_settings_def fold_h3_settings_iter fold_skip h3_apply_wt_iter)
  have wt: "fold wt_apply (all_settings s) a =
      (case wt_part s of None \<Rightarrow> a | Some w \<Rightarrow> fold wt_apply (wt_iter w) a)" for a
    by (cases "wt_part s")
      (simp_all add: all_settings_def fold_skip [of _ wt_apply] wt_apply_settings_iter)
  have "settings_from_payload p =
      s\<lparr>wt_part := (case wt_part s of None \<Rightarrow> None | Some w \<Rightarrow> then_some (w \<noteq> wt_settings_new) w)\<rparr>"
    by (cases "wt_part s")
      (simp_all add: settings_from_payload_def wt_from_payload_def assms h3 wt fold_wt_iter
        then_some_def)
  then show ?thesis
    by (cases s; cases "wt_part s") (simp_all add: then_some_def)
qed

section \<open>WebTransport draft versions\<close>

text \<open>
  \<^verbatim>\<open>DraftVersion\<close> (\<^verbatim>\<open>src/webtransport/connect/draft.rs\<close>) and the choice of the version a
  connection uses, by the order of preference \<open>DRAFT_SELECTION_ORDER\<close>.
\<close>

datatype draft_version = Draft02 | Draft07 | Draft14 | Draft15 | Draft17

definition DRAFT_SELECTION_ORDER :: "draft_version list" where
  "DRAFT_SELECTION_ORDER = [Draft17, Draft15, Draft07, Draft14, Draft02]"

definition is_some_and :: "'a option \<Rightarrow> ('a \<Rightarrow> bool) \<Rightarrow> bool" where
  "is_some_and m P = (case m of None \<Rightarrow> False | Some x \<Rightarrow> P x)"

fun advertises_draft_version :: "wt_settings \<Rightarrow> draft_version \<Rightarrow> bool" where
  "advertises_draft_version w Draft17 \<longleftrightarrow> 0 < vget (wt_enabled_draft17 w)"
| "advertises_draft_version w Draft15 \<longleftrightarrow> 0 < vget (wt_enabled w)"
| "advertises_draft_version w Draft14 \<longleftrightarrow>
    is_some_and (wt_max_sessions_draft14 w) (\<lambda>v. 0 < vget v)"
| "advertises_draft_version w Draft07 \<longleftrightarrow>
    is_some_and (webtransport_max_sessions_draft07 w) (\<lambda>v. 0 < vget v)"
| "advertises_draft_version w Draft02 \<longleftrightarrow> enable_webtransport_draft02 w = Some True"

definition advertised_draft_versions :: "wt_settings \<Rightarrow> draft_version list" where
  "advertised_draft_versions w = filter (advertises_draft_version w) DRAFT_SELECTION_ORDER"

definition first_mutual_draft :: "wt_settings \<Rightarrow> wt_settings \<Rightarrow> draft_version option" where
  "first_mutual_draft w peer =
    find (\<lambda>v. advertises_draft_version w v \<and> advertises_draft_version peer v) DRAFT_SELECTION_ORDER"

definition advertises_any_draft_version :: "wt_settings \<Rightarrow> bool" where
  "advertises_any_draft_version w = list_ex (advertises_draft_version w) DRAFT_SELECTION_ORDER"

definition detect_draft_pattern :: "wt_settings \<Rightarrow> draft_version option" where
  "detect_draft_pattern w = find (advertises_draft_version w) DRAFT_SELECTION_ORDER"

definition is_webtransport_enabled :: "h3_settings \<Rightarrow> bool" where
  "is_webtransport_enabled s = is_some_and (wt_part s) advertises_any_draft_version"

definition declares_flow_control :: "wt_settings \<Rightarrow> bool" where
  "declares_flow_control w =
    (let sends_wt_enabled = vget (wt_enabled w) \<noteq> 0 \<or> vget (wt_enabled_draft17 w) \<noteq> 0;
         draft14_max_sessions_declaration =
           \<not> sends_wt_enabled \<and> is_some_and (wt_max_sessions_draft14 w) (\<lambda>v. 1 < vget v)
     in draft14_max_sessions_declaration
        \<or> vget (wt_initial_max_streams_uni w) \<noteq> 0
        \<or> vget (wt_initial_max_streams_bidi w) \<noteq> 0
        \<or> vget (wt_initial_max_data w) \<noteq> 0)"

definition flow_control_enabled_with_peer :: "wt_settings \<Rightarrow> wt_settings \<Rightarrow> bool" where
  "flow_control_enabled_with_peer w peer \<longleftrightarrow> declares_flow_control w \<and> declares_flow_control peer"

fun for_draft_versions :: "draft_version list \<Rightarrow> varint \<Rightarrow> wt_settings \<Rightarrow> wt_settings" where
  "for_draft_versions [] m w = w"
| "for_draft_versions (v # vs) m w = for_draft_versions vs m
    (case v of
       Draft02 \<Rightarrow> w\<lparr>enable_webtransport_draft02 := Some True\<rparr>
     | Draft07 \<Rightarrow> w\<lparr>webtransport_max_sessions_draft07 := then_some (m \<noteq> VARINT_ZERO) m\<rparr>
     | Draft14 \<Rightarrow> w\<lparr>wt_max_sessions_draft14 := then_some (m \<noteq> VARINT_ZERO) m\<rparr>
     | Draft15 \<Rightarrow> w\<lparr>wt_enabled := varint_from_static 1\<rparr>
     | Draft17 \<Rightarrow> w\<lparr>wt_enabled_draft17 := varint_from_static 1\<rparr>)"

lemma first_mutual_draft_commute: "first_mutual_draft w p = first_mutual_draft p w"
  by (simp add: first_mutual_draft_def conj_commute)

lemma find_eq_hd_filter:
  "find P xs = (case filter P xs of [] \<Rightarrow> None | x # _ \<Rightarrow> Some x)"
  by (induction xs) auto

lemma for_draft_versions_advertises:
  assumes "m \<noteq> VARINT_ZERO"
  shows "advertises_draft_version (for_draft_versions vs m w) v \<longleftrightarrow>
    v \<in> set vs \<or> advertises_draft_version w v"
proof (induction vs arbitrary: w)
  case (Cons u us)
  have "0 < vget m" using assms by (simp add: varint_eq_ZERO)
  with Cons assms show ?case
    by (cases u; cases v) (auto simp: is_some_and_def then_some_def)
qed simp

section \<open>Properties of the version choice\<close>

lemma find_SomeD:
  "find P xs = Some v \<Longrightarrow> P v \<and> (\<forall>u \<in> set (takeWhile (\<lambda>x. x \<noteq> v) xs). \<not> P u)"
  by (induction xs) (auto split: if_splits)

lemma set_DRAFT_SELECTION_ORDER: "v \<in> set DRAFT_SELECTION_ORDER"
  by (cases v) (simp_all add: DRAFT_SELECTION_ORDER_def)

text \<open>
  Both ends choose the same draft version, without exchanging anything but SETTINGS: the
  choice is symmetric, it is a version that both advertise, no version that both advertise comes
  before it in the order of preference, and there is none only when nothing is shared.
\<close>

theorem draft_choice_agrees:
  "first_mutual_draft a b = first_mutual_draft b a \<and>
   (case first_mutual_draft a b of
      None \<Rightarrow> \<forall>v. \<not> (advertises_draft_version a v \<and> advertises_draft_version b v)
    | Some v \<Rightarrow> advertises_draft_version a v \<and> advertises_draft_version b v \<and>
        filter (\<lambda>u. advertises_draft_version a u \<and> advertises_draft_version b u)
          (takeWhile (\<lambda>x. x \<noteq> v) DRAFT_SELECTION_ORDER) = [])"
proof (cases "first_mutual_draft a b")
  case None
  then show ?thesis
    using set_DRAFT_SELECTION_ORDER
    by (simp add: first_mutual_draft_commute [of b a])
      (auto simp: first_mutual_draft_def find_None_iff)
next
  case (Some v)
  from find_SomeD [OF this [unfolded first_mutual_draft_def]] Some show ?thesis
    by (simp add: first_mutual_draft_commute [of b a] filter_empty_conv)
qed

end
