(* ===== verification/Errors.thy ===== *)
theory Errors
  imports Settings
begin

text \<open>
  The error types of \<^verbatim>\<open>src/error.rs\<close>: HTTP/3 error codes with their numbers, the errors of the
  frame decoder and of QPACK, and the error type of the connection's operations.
\<close>

datatype error_code =
    NoError | GeneralProtocolError | InternalError | StreamCreationError
  | ClosedCriticalStream | FrameUnexpected | FrameError | ExcessiveLoad | IdError
  | SettingsError | MissingSettings | RequestRejected | RequestCancelled | RequestIncomplete
  | MessageError | QpackDecompressionFailed | QpackEncoderStreamError
  | QpackDecoderStreamError | H3DatagramError

fun code :: "error_code \<Rightarrow> u64" where
  "code NoError = 0x100"
| "code GeneralProtocolError = 0x101"
| "code InternalError = 0x102"
| "code StreamCreationError = 0x103"
| "code ClosedCriticalStream = 0x104"
| "code FrameUnexpected = 0x105"
| "code FrameError = 0x106"
| "code ExcessiveLoad = 0x107"
| "code IdError = 0x108"
| "code SettingsError = 0x109"
| "code MissingSettings = 0x10a"
| "code RequestRejected = 0x10b"
| "code RequestCancelled = 0x10c"
| "code RequestIncomplete = 0x10d"
| "code MessageError = 0x10e"
| "code QpackDecompressionFailed = 0x200"
| "code QpackEncoderStreamError = 0x201"
| "code QpackDecoderStreamError = 0x202"
| "code H3DatagramError = 0x33"

definition from_code :: "u64 \<Rightarrow> error_code option" where
  "from_code c =
    (if c = 0x100 then Some NoError
     else if c = 0x101 then Some GeneralProtocolError
     else if c = 0x102 then Some InternalError
     else if c = 0x103 then Some StreamCreationError
     else if c = 0x104 then Some ClosedCriticalStream
     else if c = 0x105 then Some FrameUnexpected
     else if c = 0x106 then Some FrameError
     else if c = 0x107 then Some ExcessiveLoad
     else if c = 0x108 then Some IdError
     else if c = 0x109 then Some SettingsError
     else if c = 0x10a then Some MissingSettings
     else if c = 0x10b then Some RequestRejected
     else if c = 0x10c then Some RequestCancelled
     else if c = 0x10d then Some RequestIncomplete
     else if c = 0x10e then Some MessageError
     else if c = 0x200 then Some QpackDecompressionFailed
     else if c = 0x201 then Some QpackEncoderStreamError
     else if c = 0x202 then Some QpackDecoderStreamError
     else if c = 0x33 then Some H3DatagramError
     else None)"

datatype wt_setup_error =
    PeerSettingsNotReceived | WebTransportNotEnabled | UnknownDraftVersion
  | EnableConnectProtocolMissing | H3DatagramNotEnabled | TransportNotVerified
  | ResetStreamAtNotSupported | ProtocolMismatch

datatype frame_decode_error =
    BufferTooShort
  | InvalidLength
  | InvalidSetting setting_error
  | Http2Frame varint
  | ServerPushNotSupported varint

datatype qpack_error =
    QBufferTooShort
  | InvalidIndex u64
  | InvalidHuffman
  | DecodeFailed
  | DynamicTableDisabled
  | CapacityExceeded

datatype h3_error =
    ConnectionError error_code
  | StreamError error_code
  | StreamNotFound u64
  | StreamClosed u64
  | FrameDecode frame_decode_error
  | Qpack qpack_error
  | WtSessionDraining u64
  | WtSetup wt_setup_error

lemma from_code_code: "from_code (code e) = Some e"
  by (cases e) (simp_all add: from_code_def)

lemma code_from_code: "from_code c = Some e \<Longrightarrow> code e = c"
  by (auto simp: from_code_def split: if_splits)

end
