(* ===== verification/Frame.thy ===== *)
theory Frame
  imports Errors
begin

text \<open>
  HTTP/3 frames (\<^verbatim>\<open>src/frame/mod.rs\<close>, \<^verbatim>\<open>src/frame/decoder.rs\<close>, \<^verbatim>\<open>src/frame/encoder.rs\<close>):
  the frame type, the header, the encoder into a slice and the decoder.  The payload structures
  that wrap one byte vector are represented by that vector.
\<close>

section \<open>Frame types and frames\<close>

datatype frame_type = FtData | FtHeaders | FtCancelPush | FtSettings | FtPushPromise | FtGoaway | FtMaxPushId

fun frame_type_code :: "frame_type \<Rightarrow> u64" where
  "frame_type_code FtData = 0x00"
| "frame_type_code FtHeaders = 0x01"
| "frame_type_code FtCancelPush = 0x03"
| "frame_type_code FtSettings = 0x04"
| "frame_type_code FtPushPromise = 0x05"
| "frame_type_code FtGoaway = 0x07"
| "frame_type_code FtMaxPushId = 0x0d"

definition frame_type_from_type :: "u64 \<Rightarrow> frame_type option" where
  "frame_type_from_type t =
    (if t = 0x00 then Some FtData
     else if t = 0x01 then Some FtHeaders
     else if t = 0x03 then Some FtCancelPush
     else if t = 0x04 then Some FtSettings
     else if t = 0x05 then Some FtPushPromise
     else if t = 0x07 then Some FtGoaway
     else if t = 0x0d then Some FtMaxPushId
     else None)"

definition is_http2_only :: "u64 \<Rightarrow> bool" where
  "is_http2_only t \<longleftrightarrow> t = 0x02 \<or> t = 0x06 \<or> t = 0x08 \<or> t = 0x09"

record unknown_frame =
  uf_type :: varint
  uf_payload :: bytes

datatype unknown_frame_error = KnownFrameType varint | Http2OnlyFrameType varint

definition unknown_frame_new :: "varint \<Rightarrow> bytes \<Rightarrow> unknown_frame_error + unknown_frame" where
  "unknown_frame_new ft payload =
    (let t = vget ft in
     if frame_type_from_type t \<noteq> None then Inl (KnownFrameType ft)
     else if is_http2_only t then Inl (Http2OnlyFrameType ft)
     else Inr \<lparr>uf_type = ft, uf_payload = payload\<rparr>)"

datatype frame =
    DataFrame bytes
  | HeadersFrame bytes
  | SettingsFrame settings_payload
  | GoawayFrame varint
  | MaxPushIdFrame varint
  | UnknownFrame unknown_frame

fun frame_type_of :: "frame \<Rightarrow> varint" where
  "frame_type_of (DataFrame _) = varint_from_static (frame_type_code FtData)"
| "frame_type_of (HeadersFrame _) = varint_from_static (frame_type_code FtHeaders)"
| "frame_type_of (SettingsFrame _) = varint_from_static (frame_type_code FtSettings)"
| "frame_type_of (GoawayFrame _) = varint_from_static (frame_type_code FtGoaway)"
| "frame_type_of (MaxPushIdFrame _) = varint_from_static (frame_type_code FtMaxPushId)"
| "frame_type_of (UnknownFrame p) = uf_type p"

record frame_header =
  fh_type :: varint
  fh_payload_len :: varint
  fh_header_len :: usize

text \<open>
  \<^verbatim>\<open>FrameHeader::total_len\<close>: \<^verbatim>\<open>None\<close> when the payload length does not fit a \<^verbatim>\<open>usize\<close> or the sum
  overflows.
\<close>

definition total_len :: "frame_header \<Rightarrow> usize option" where
  "total_len h =
    (if vget (fh_payload_len h) \<le> usize_max
     then checked_add (fh_header_len h) (vget (fh_payload_len h)) else None)"

section \<open>Decoding\<close>

definition decode_frame_type :: "bytes \<Rightarrow> varint option" where
  "decode_frame_type buf = map_option fst (result_ok (varint_decode buf))"

definition decode_frame_header :: "bytes \<Rightarrow> frame_decode_error + frame_header" where
  "decode_frame_header buf =
    (if buf = [] then Inl BufferTooShort
     else
       bindR (map_err (\<lambda>_. BufferTooShort) (varint_decode buf)) (\<lambda>(ft, type_len).
       if length buf < type_len then Inl BufferTooShort
       else
         bindR (map_err (\<lambda>_. BufferTooShort) (varint_decode (drop type_len buf)))
           (\<lambda>(payload_len, len_len).
         if is_http2_only (vget ft) then Inl (Http2Frame ft)
         else Inr \<lparr>fh_type = ft, fh_payload_len = payload_len,
                fh_header_len = type_len + len_len\<rparr>)))"

function decode_settings_loop ::
    "bytes \<Rightarrow> usize \<Rightarrow> settings_payload \<Rightarrow> frame_decode_error + settings_payload" where
  "decode_settings_loop payload offset settings =
    (if offset < length payload then
       bindR (map_err (\<lambda>_. InvalidLength) (varint_decode (drop offset payload))) (\<lambda>(i, id_len).
       bindR (map_err (\<lambda>_. InvalidLength) (varint_decode (drop (offset + id_len) payload)))
         (\<lambda>(value, value_len).
       bindR (map_err InvalidSetting (setting_from_wire i value)) (\<lambda>setting.
       bindR (map_err InvalidSetting (payload_add settings setting)) (\<lambda>settings'.
         decode_settings_loop payload (offset + id_len + value_len) settings'))))
     else Inr settings)"
  by pat_completeness auto
termination
  by (relation "measure (\<lambda>(payload, offset, _). length payload - offset)")
    (auto dest: varint_decode_sound)

declare decode_settings_loop.simps [simp del]

definition decode_settings_frame :: "bytes \<Rightarrow> frame_decode_error + frame" where
  "decode_settings_frame payload =
    bindR (decode_settings_loop payload 0 payload_new) (\<lambda>s. Inr (SettingsFrame s))"

definition decode_goaway_frame :: "bytes \<Rightarrow> frame_decode_error + frame" where
  "decode_goaway_frame payload =
    bindR (map_err (\<lambda>_. InvalidLength) (varint_decode payload)) (\<lambda>(i, consumed).
    if consumed \<noteq> length payload then Inl InvalidLength else Inr (GoawayFrame i))"

definition decode_max_push_id_frame :: "bytes \<Rightarrow> frame_decode_error + frame" where
  "decode_max_push_id_frame payload =
    bindR (map_err (\<lambda>_. InvalidLength) (varint_decode payload)) (\<lambda>(i, consumed).
    if consumed \<noteq> length payload then Inl InvalidLength else Inr (MaxPushIdFrame i))"

text \<open>
  The \<^verbatim>\<open>expect\<close> on \<^verbatim>\<open>UnknownFrame::new\<close> cannot fire: the type is neither known nor reserved
  for HTTP/2 there, which \<open>decode_frame_unknown_total\<close> proves of the \<open>undefined\<close> branch.
\<close>

definition decode_frame :: "bytes \<Rightarrow> frame_decode_error + frame \<times> usize" where
  "decode_frame buf =
    bindR (decode_frame_header buf) (\<lambda>header.
    bindR (ok_or (total_len header) InvalidLength) (\<lambda>total.
    if length buf < total then Inl BufferTooShort
    else
      let payload = drop (fh_header_len header) (take total buf) in
      bindR
        (case frame_type_from_type (vget (fh_type header)) of
           Some FtData \<Rightarrow> Inr (DataFrame payload)
         | Some FtHeaders \<Rightarrow> Inr (HeadersFrame payload)
         | Some FtSettings \<Rightarrow> decode_settings_frame payload
         | Some FtGoaway \<Rightarrow> decode_goaway_frame payload
         | Some FtMaxPushId \<Rightarrow> decode_max_push_id_frame payload
         | Some FtCancelPush \<Rightarrow> Inl (ServerPushNotSupported (fh_type header))
         | Some FtPushPromise \<Rightarrow> Inl (ServerPushNotSupported (fh_type header))
         | None \<Rightarrow>
            (case unknown_frame_new (fh_type header) payload of
               Inr u \<Rightarrow> Inr (UnknownFrame u)
             | Inl e \<Rightarrow> undefined))
        (\<lambda>frame. Inr (frame, total))))"

section \<open>Encoding\<close>

definition encode_frame_header :: "bytes \<Rightarrow> varint \<Rightarrow> varint \<Rightarrow> (bytes \<times> usize) option" where
  "encode_frame_header buf ft payload_len =
    (let total = encoded_len ft + encoded_len payload_len in
     if length buf < total then None
     else do {
       (buf, n) \<leftarrow> result_ok (varint_encode buf ft);
       (sub, m) \<leftarrow> result_ok (varint_encode (drop n buf) payload_len);
       Some (splice buf n sub, n + m)
     })"

fun settings_len_loop :: "setting list \<Rightarrow> usize \<Rightarrow> usize option" where
  "settings_len_loop [] tot = Some tot"
| "settings_len_loop (s # ss) tot =
    (case as_wire s of (i, value) \<Rightarrow> do {
       tot \<leftarrow> checked_add tot (encoded_len i);
       tot \<leftarrow> checked_add tot (encoded_len value);
       settings_len_loop ss tot
     })"

definition encoded_settings_payload_len :: "settings_payload \<Rightarrow> varint option" where
  "encoded_settings_payload_len p = do {
     tot \<leftarrow> settings_len_loop (sp_settings p) 0;
     result_ok (varint_new tot)
   }"

fun frame_lens :: "frame \<Rightarrow> (varint \<times> varint) option" where
  "frame_lens (DataFrame p) = do {
     n \<leftarrow> result_ok (varint_new (length p));
     Some (varint_from_static (frame_type_code FtData), n) }"
| "frame_lens (HeadersFrame p) = do {
     n \<leftarrow> result_ok (varint_new (length p));
     Some (varint_from_static (frame_type_code FtHeaders), n) }"
| "frame_lens (SettingsFrame p) = do {
     n \<leftarrow> encoded_settings_payload_len p;
     Some (varint_from_static (frame_type_code FtSettings), n) }"
| "frame_lens (GoawayFrame i) =
     Some (varint_from_static (frame_type_code FtGoaway), varint_from_static (encoded_len i))"
| "frame_lens (MaxPushIdFrame i) =
     Some (varint_from_static (frame_type_code FtMaxPushId), varint_from_static (encoded_len i))"
| "frame_lens (UnknownFrame p) = do {
     n \<leftarrow> result_ok (varint_new (length (uf_payload p)));
     Some (uf_type p, n) }"

definition encoded_frame_len :: "frame \<Rightarrow> usize option" where
  "encoded_frame_len frame = do {
     (ft, payload_len) \<leftarrow> frame_lens frame;
     (if vget payload_len \<le> usize_max
      then checked_add (encoded_len ft + encoded_len payload_len) (vget payload_len) else None)
   }"

text \<open>Writers of one frame: the header, then the payload at the offset behind it.\<close>

definition encode_payload_frame :: "bytes \<Rightarrow> varint \<Rightarrow> bytes \<Rightarrow> (bytes \<times> usize) option" where
  "encode_payload_frame buf ft payload = do {
     payload_len \<leftarrow> result_ok (varint_new (length payload));
     (buf, offset) \<leftarrow> encode_frame_header buf ft payload_len;
     Some (copy_at buf offset payload, offset + length payload)
   }"

definition encode_data_frame :: "bytes \<Rightarrow> bytes \<Rightarrow> (bytes \<times> usize) option" where
  "encode_data_frame buf payload =
    encode_payload_frame buf (varint_from_static (frame_type_code FtData)) payload"

definition encode_headers_frame :: "bytes \<Rightarrow> bytes \<Rightarrow> (bytes \<times> usize) option" where
  "encode_headers_frame buf payload =
    encode_payload_frame buf (varint_from_static (frame_type_code FtHeaders)) payload"

fun encode_settings_loop :: "setting list \<Rightarrow> bytes \<Rightarrow> usize \<Rightarrow> (bytes \<times> usize) option" where
  "encode_settings_loop [] buf offset = Some (buf, offset)"
| "encode_settings_loop (s # ss) buf offset =
    (case as_wire s of (i, value) \<Rightarrow> do {
       (sub, n) \<leftarrow> result_ok (varint_encode (drop offset buf) i);
       let buf = splice buf offset sub;
       let offset = offset + n;
       (sub, n) \<leftarrow> result_ok (varint_encode (drop offset buf) value);
       encode_settings_loop ss (splice buf offset sub) (offset + n)
     })"

definition encode_settings_frame :: "bytes \<Rightarrow> settings_payload \<Rightarrow> (bytes \<times> usize) option" where
  "encode_settings_frame buf p = do {
     payload_len \<leftarrow> encoded_settings_payload_len p;
     (buf, offset) \<leftarrow> encode_frame_header buf (varint_from_static (frame_type_code FtSettings)) payload_len;
     encode_settings_loop (sp_settings p) buf offset
   }"

definition encode_goaway_frame :: "bytes \<Rightarrow> varint \<Rightarrow> (bytes \<times> usize) option" where
  "encode_goaway_frame buf i = do {
     (buf, offset) \<leftarrow> encode_frame_header buf (varint_from_static (frame_type_code FtGoaway))
       (varint_from_static (encoded_len i));
     (sub, n) \<leftarrow> result_ok (varint_encode (drop offset buf) i);
     Some (splice buf offset sub, offset + n)
   }"

definition encode_max_push_id_frame :: "bytes \<Rightarrow> varint \<Rightarrow> (bytes \<times> usize) option" where
  "encode_max_push_id_frame buf i = do {
     (buf, offset) \<leftarrow> encode_frame_header buf (varint_from_static (frame_type_code FtMaxPushId))
       (varint_from_static (encoded_len i));
     (sub, n) \<leftarrow> result_ok (varint_encode (drop offset buf) i);
     Some (splice buf offset sub, offset + n)
   }"

definition encode_unknown_frame :: "bytes \<Rightarrow> unknown_frame \<Rightarrow> (bytes \<times> usize) option" where
  "encode_unknown_frame buf p =
    (if vget (uf_type p) = 0x41 then None
     else encode_payload_frame buf (uf_type p) (uf_payload p))"

definition encode_frame :: "bytes \<Rightarrow> frame \<Rightarrow> (bytes \<times> usize) option" where
  "encode_frame buf frame = do {
     required \<leftarrow> encoded_frame_len frame;
     (if length buf < required then None
      else case frame of
        DataFrame p \<Rightarrow> encode_data_frame buf p
      | HeadersFrame p \<Rightarrow> encode_headers_frame buf p
      | SettingsFrame p \<Rightarrow> encode_settings_frame buf p
      | GoawayFrame p \<Rightarrow> encode_goaway_frame buf p
      | MaxPushIdFrame v \<Rightarrow> encode_max_push_id_frame buf v
      | UnknownFrame p \<Rightarrow> encode_unknown_frame buf p)
   }"

section \<open>The wire format\<close>

text \<open>The bytes of a frame: type, length and payload.\<close>

definition setting_bytes :: "setting \<Rightarrow> bytes" where
  "setting_bytes s = varint_bytes (fst (as_wire s)) @ varint_bytes (snd (as_wire s))"

definition settings_bytes :: "setting list \<Rightarrow> bytes" where
  "settings_bytes ss = concat (map setting_bytes ss)"

fun payload_bytes :: "frame \<Rightarrow> bytes" where
  "payload_bytes (DataFrame p) = p"
| "payload_bytes (HeadersFrame p) = p"
| "payload_bytes (SettingsFrame p) = settings_bytes (sp_settings p)"
| "payload_bytes (GoawayFrame i) = varint_bytes i"
| "payload_bytes (MaxPushIdFrame i) = varint_bytes i"
| "payload_bytes (UnknownFrame p) = uf_payload p"

definition header_bytes :: "varint \<Rightarrow> nat \<Rightarrow> bytes" where
  "header_bytes ft n = varint_bytes ft @ varint_bytes (VarInt n)"

definition frame_bytes :: "frame \<Rightarrow> bytes" where
  "frame_bytes f = header_bytes (frame_type_of f) (length (payload_bytes f)) @ payload_bytes f"

text \<open>
  The frames that exist: \<^verbatim>\<open>VarInt\<close> fields in range, a valid SETTINGS payload, an unknown frame
  only of a type that \<^verbatim>\<open>UnknownFrame::new\<close> accepts, and a payload whose length is a \<^verbatim>\<open>VarInt\<close>.
\<close>

definition unknown_type_ok :: "varint \<Rightarrow> bool" where
  "unknown_type_ok ft \<longleftrightarrow>
    varint_ok ft \<and> frame_type_from_type (vget ft) = None \<and> \<not> is_http2_only (vget ft)"

fun wf_fields :: "frame \<Rightarrow> bool" where
  "wf_fields (DataFrame p) = True"
| "wf_fields (HeadersFrame p) = True"
| "wf_fields (SettingsFrame p) = wf_payload p"
| "wf_fields (GoawayFrame i) = varint_ok i"
| "wf_fields (MaxPushIdFrame i) = varint_ok i"
| "wf_fields (UnknownFrame p) = unknown_type_ok (uf_type p)"

definition wf_frame :: "frame \<Rightarrow> bool" where
  "wf_frame f \<longleftrightarrow> wf_fields f \<and> length (payload_bytes f) < 2 ^ 62"

text \<open>WT_STREAM (0x41) is the one type the encoder refuses.\<close>

definition sendable :: "frame \<Rightarrow> bool" where
  "sendable f \<longleftrightarrow> vget (frame_type_of f) \<noteq> 0x41"

lemma frame_type_from_code [simp]: "frame_type_from_type (frame_type_code t) = Some t"
  by (cases t) (simp_all add: frame_type_from_type_def)

lemma frame_type_code_from: "frame_type_from_type c = Some t \<Longrightarrow> c = frame_type_code t"
  by (auto simp: frame_type_from_type_def split: if_splits)

lemma frame_type_code_small [simp]: "frame_type_code t < 64" "\<not> is_http2_only (frame_type_code t)"
  by (cases t; simp add: is_http2_only_def)+

lemma unknown_frame_new_ok:
  "unknown_type_ok ft \<Longrightarrow> unknown_frame_new ft p = Inr \<lparr>uf_type = ft, uf_payload = p\<rparr>"
  by (simp add: unknown_frame_new_def unknown_type_ok_def)

lemma wf_frame_type_ok: "wf_fields f \<Longrightarrow> varint_ok (frame_type_of f)"
proof (cases f)
  case (UnknownFrame p)
  then show "wf_fields f \<Longrightarrow> varint_ok (frame_type_of f)" by (simp add: unknown_type_ok_def)
qed simp_all

lemma length_header_bytes [simp]:
  "length (header_bytes ft n) = encoded_len ft + encoded_len (VarInt n)"
  by (simp add: header_bytes_def)

lemma setting_bytes_nonempty [simp]: "setting_bytes s \<noteq> []"
  by (simp add: setting_bytes_def)

lemma settings_bytes_simps [simp]:
  "settings_bytes [] = []"
  "settings_bytes (s # ss) = setting_bytes s @ settings_bytes ss"
  by (simp_all add: settings_bytes_def)

section \<open>The encoder writes the wire format\<close>

lemma varint_encode_at:
  assumes "varint_ok v" "length as + encoded_len v \<le> length buf"
  shows "\<exists>sub. varint_encode (drop (length as) (written buf as)) v = Inr (sub, encoded_len v) \<and>
    splice (written buf as) (length as) sub = written buf (as @ varint_bytes v)"
  using assms
  by (simp add: varint_encode_written splice_written)

lemma encode_frame_header_written:
  assumes "varint_ok ft" "n < 2 ^ 62"
  shows "encode_frame_header buf ft (VarInt n) =
    (if length buf < length (header_bytes ft n) then None
     else Some (written buf (header_bytes ft n), length (header_bytes ft n)))"
proof (cases "length buf < length (header_bytes ft n)")
  case True
  then show ?thesis by (simp add: encode_frame_header_def)
next
  case False
  have n: "varint_ok (VarInt n)" using assms(2) by (simp add: varint_ok_iff)
  from False have "varint_encode buf ft = Inr (written buf (varint_bytes ft), encoded_len ft)"
    by (simp add: varint_encode_written [OF assms(1)])
  moreover obtain sub where
    "varint_encode (drop (encoded_len ft) (written buf (varint_bytes ft))) (VarInt n)
      = Inr (sub, encoded_len (VarInt n))"
    "splice (written buf (varint_bytes ft)) (encoded_len ft) sub = written buf (header_bytes ft n)"
    using varint_encode_at [OF n, of "varint_bytes ft" buf] False
    by (auto simp: header_bytes_def)
  ultimately show ?thesis using False by (simp add: encode_frame_header_def)
qed

lemma varint_new_small: "n < 2 ^ 62 \<Longrightarrow> varint_new n = Inr (VarInt n)"
  by (simp add: varint_new_def VARINT_MAX_def)

lemma encode_payload_frame_written:
  assumes "varint_ok ft" "length p < 2 ^ 62"
    "length (header_bytes ft (length p)) + length p \<le> length buf"
  shows "encode_payload_frame buf ft p =
    Some (written buf (header_bytes ft (length p) @ p), length (header_bytes ft (length p) @ p))"
proof -
  have "copy_at (written buf (header_bytes ft (length p))) (length (header_bytes ft (length p))) p
      = written buf (header_bytes ft (length p) @ p)"
    by (rule copy_at_written)
  with assms(3) show ?thesis
    by (simp add: encode_payload_frame_def varint_new_small [OF assms(2)]
        encode_frame_header_written [OF assms(1,2)])
qed

lemma settings_len_loop_sum:
  assumes "t + length (settings_bytes ss) \<le> u64_max"
  shows "settings_len_loop ss t = Some (t + length (settings_bytes ss))"
  using assms
proof (induction ss arbitrary: t)
  case (Cons s ss)
  obtain i v where iv: "as_wire s = (i, v)" by fastforce
  then have "length (setting_bytes s) = encoded_len i + encoded_len v"
    by (simp add: setting_bytes_def)
  with Cons.prems Cons.IH [of "t + length (setting_bytes s)"] iv show ?case
    by (simp add: checked_add_def add.assoc)
qed simp

lemma encoded_settings_payload_len_ok:
  assumes "length (settings_bytes (sp_settings p)) < 2 ^ 62"
  shows "encoded_settings_payload_len p = Some (VarInt (length (settings_bytes (sp_settings p))))"
  using assms settings_len_loop_sum [of 0 "sp_settings p"]
  by (simp add: encoded_settings_payload_len_def varint_new_small)

lemma encode_settings_loop_written:
  assumes "\<forall>s \<in> set ss. wf_setting s" "length as + length (settings_bytes ss) \<le> length buf"
  shows "encode_settings_loop ss (written buf as) (length as) =
    Some (written buf (as @ settings_bytes ss), length (as @ settings_bytes ss))"
  using assms
proof (induction ss arbitrary: as)
  case Nil
  then show ?case by simp
next
  case (Cons s ss)
  obtain i v where iv: "as_wire s = (i, v)" by fastforce
  with Cons.prems have ok: "varint_ok i" "varint_ok v" by (auto simp: wf_setting_def)
  have sb: "setting_bytes s = varint_bytes i @ varint_bytes v"
    by (simp add: setting_bytes_def iv)
  with Cons.prems have room: "length as + encoded_len i \<le> length buf"
    "length (as @ varint_bytes i) + encoded_len v \<le> length buf" by simp_all
  obtain sub where sub: "varint_encode (drop (length as) (written buf as)) i = Inr (sub, encoded_len i)"
    "splice (written buf as) (length as) sub = written buf (as @ varint_bytes i)"
    using varint_encode_at [OF ok(1) room(1)] by auto
  obtain sub' where
    "varint_encode (drop (length as + encoded_len i) (written buf (as @ varint_bytes i))) v
      = Inr (sub', encoded_len v)"
    "splice (written buf (as @ varint_bytes i)) (length as + encoded_len i) sub'
      = written buf (as @ setting_bytes s)"
    using varint_encode_at [OF ok(2) room(2)] by (auto simp: sb)
  with sub Cons.IH [of "as @ setting_bytes s"] Cons.prems iv show ?case
    by (simp add: sb add.assoc)
qed

lemma encode_id_frame:
  assumes "varint_ok i"
    "length (header_bytes (varint_from_static (frame_type_code t)) (encoded_len i)) + encoded_len i
      \<le> length buf"
  shows "do {
     (buf, offset) \<leftarrow> encode_frame_header buf (varint_from_static (frame_type_code t))
       (varint_from_static (encoded_len i));
     (sub, n) \<leftarrow> result_ok (varint_encode (drop offset buf) i);
     Some (splice buf offset sub, offset + n) } =
    Some (written buf (header_bytes (varint_from_static (frame_type_code t)) (encoded_len i) @
        varint_bytes i),
      length (header_bytes (varint_from_static (frame_type_code t)) (encoded_len i) @ varint_bytes i))"
proof -
  let ?ft = "varint_from_static (frame_type_code t)"
  let ?h = "header_bytes ?ft (encoded_len i)"
  have ft: "varint_ok ?ft"
    using frame_type_code_small(1) [of t] by (simp del: frame_type_code_small)
  have n: "encoded_len i < 2 ^ 62" using encoded_len_le_8 [of i] by simp
  obtain sub where "varint_encode (drop (length ?h) (written buf ?h)) i = Inr (sub, encoded_len i)"
    "splice (written buf ?h) (length ?h) sub = written buf (?h @ varint_bytes i)"
    using varint_encode_at [OF assms(1), of ?h buf] assms(2) by auto
  moreover have "encode_frame_header buf ?ft (varint_from_static (encoded_len i)) =
      Some (written buf ?h, length ?h)"
    using encode_frame_header_written [OF ft n, of buf] assms(2)
    by (simp add: varint_from_static_def)
  ultimately show ?thesis by simp
qed

lemma frame_lens_ok:
  assumes "wf_frame f"
  shows "frame_lens f = Some (frame_type_of f, VarInt (length (payload_bytes f)))"
  using assms
  by (cases f) (auto simp: wf_frame_def varint_new_small encoded_settings_payload_len_ok
      varint_from_static_def)

lemma encoded_frame_len_ok:
  assumes "wf_frame f"
  shows "encoded_frame_len f = Some (length (frame_bytes f))"
  using assms encoded_len_le_8 [of "frame_type_of f"]
    encoded_len_le_8 [of "VarInt (length (payload_bytes f))"]
  by (simp add: encoded_frame_len_def frame_lens_ok frame_bytes_def checked_add_def wf_frame_def)

lemma encode_frame_written:
  assumes "wf_frame f" "sendable f"
  shows "encode_frame buf f =
    (if length buf < length (frame_bytes f) then None
     else Some (written buf (frame_bytes f), length (frame_bytes f)))"
proof (cases "length buf < length (frame_bytes f)")
  case True
  with assms show ?thesis by (simp add: encode_frame_def encoded_frame_len_ok)
next
  case False
  then have room: "length (header_bytes (frame_type_of f) (length (payload_bytes f))) +
      length (payload_bytes f) \<le> length buf"
    by (simp add: frame_bytes_def)
  have e: "encode_frame buf f = (case f of
        DataFrame p \<Rightarrow> encode_data_frame buf p
      | HeadersFrame p \<Rightarrow> encode_headers_frame buf p
      | SettingsFrame p \<Rightarrow> encode_settings_frame buf p
      | GoawayFrame p \<Rightarrow> encode_goaway_frame buf p
      | MaxPushIdFrame v \<Rightarrow> encode_max_push_id_frame buf v
      | UnknownFrame p \<Rightarrow> encode_unknown_frame buf p)"
    using False by (simp add: encode_frame_def encoded_frame_len_ok [OF assms(1)])
  have wf: "wf_fields f" "length (payload_bytes f) < 2 ^ 62" "varint_ok (frame_type_of f)"
    using assms(1) wf_frame_type_ok by (auto simp: wf_frame_def)
  show ?thesis
  proof (cases f)
    case (SettingsFrame p)
    with wf room have "encode_settings_frame buf p = Some (written buf (frame_bytes f), length (frame_bytes f))"
      using encode_settings_loop_written [of "sp_settings p"
          "header_bytes (frame_type_of f) (length (payload_bytes f))" buf]
      by (simp add: encode_settings_frame_def encoded_settings_payload_len_ok frame_bytes_def
          encode_frame_header_written wf_payload_def)
    with False e show ?thesis by (simp add: SettingsFrame)
  next
    case (UnknownFrame p)
    with wf room assms(2) False encode_payload_frame_written [of "uf_type p" "uf_payload p" buf]
    show ?thesis unfolding e by (simp add: encode_unknown_frame_def frame_bytes_def sendable_def)
  next
    case (DataFrame p)
    with wf room False encode_payload_frame_written [of "frame_type_of f" p buf]
    show ?thesis unfolding e by (simp add: encode_data_frame_def frame_bytes_def)
  next
    case (HeadersFrame p)
    with wf room False encode_payload_frame_written [of "frame_type_of f" p buf]
    show ?thesis unfolding e by (simp add: encode_headers_frame_def frame_bytes_def)
  next
    case (GoawayFrame i)
    with wf room False encode_id_frame [of i FtGoaway buf]
    show ?thesis unfolding e by (simp add: encode_goaway_frame_def frame_bytes_def)
  next
    case (MaxPushIdFrame i)
    with wf room False encode_id_frame [of i FtMaxPushId buf]
    show ?thesis unfolding e by (simp add: encode_max_push_id_frame_def frame_bytes_def)
  qed
qed

section \<open>The decoder reads the wire format\<close>

lemma decode_header_bytes:
  assumes "varint_ok ft" "n < 2 ^ 62"
  shows "decode_frame_header (header_bytes ft n @ rest) =
    (if is_http2_only (vget ft) then Inl (Http2Frame ft)
     else Inr \<lparr>fh_type = ft, fh_payload_len = VarInt n,
            fh_header_len = length (header_bytes ft n)\<rparr>)"
proof -
  have "varint_ok (VarInt n)" using assms(2) by (simp add: varint_ok_iff)
  then show ?thesis
    by (simp add: decode_frame_header_def header_bytes_def varint_decode_encode [OF assms(1)]
        varint_decode_encode)
qed

lemma decode_settings_loop_step:
  assumes "wf_setting s"
  shows "decode_settings_loop (p @ setting_bytes s @ q) (length p) acc =
    bindR (map_err InvalidSetting (payload_add acc s))
      (decode_settings_loop ((p @ setting_bytes s) @ q) (length (p @ setting_bytes s)))"
proof -
  obtain i v where iv: "as_wire s = (i, v)" by fastforce
  with assms have ok: "varint_ok i" "varint_ok v" by (auto simp: wf_setting_def)
  have w: "setting_from_wire i v = Inr s"
    using from_wire_as_wire [OF assms] iv by simp
  let ?b = "p @ varint_bytes i @ varint_bytes v @ q"
  have "varint_decode (drop (length p) ?b) = Inr (i, encoded_len i)"
    by (simp add: varint_decode_encode ok)
  moreover have "varint_decode (drop (length p + encoded_len i) ?b) = Inr (v, encoded_len v)"
    by (simp add: varint_decode_encode ok)
  ultimately show ?thesis
    by (subst decode_settings_loop.simps)
      (simp add: setting_bytes_def iv w add.assoc)
qed

lemma decode_settings_loop_bytes:
  assumes "\<forall>s \<in> set ss. wf_setting s"
  shows "decode_settings_loop (p @ settings_bytes ss) (length p) acc =
    map_err InvalidSetting (payload_add_all acc ss)"
  using assms
proof (induction ss arbitrary: p acc)
  case Nil
  then show ?case by (simp add: decode_settings_loop.simps)
next
  case (Cons s ss)
  have "decode_settings_loop (p @ settings_bytes (s # ss)) (length p) acc =
      bindR (map_err InvalidSetting (payload_add acc s))
        (decode_settings_loop ((p @ setting_bytes s) @ settings_bytes ss)
          (length (p @ setting_bytes s)))"
    using decode_settings_loop_step [of s p "settings_bytes ss" acc] Cons.prems by simp
  moreover have "decode_settings_loop ((p @ setting_bytes s) @ settings_bytes ss)
      (length (p @ setting_bytes s)) a = map_err InvalidSetting (payload_add_all a ss)" for a
    by (rule Cons.IH) (use Cons.prems in simp)
  ultimately show ?case
    by (cases "payload_add acc s") simp_all
qed

lemma payload_eqI:
  assumes "wf_payload p" "wf_payload q" "sp_settings p = sp_settings q"
  shows "p = q"
  using assms by (cases p; cases q) (simp add: wf_payload_def)

lemma decode_settings_frame_bytes:
  assumes "wf_payload p"
  shows "decode_settings_frame (settings_bytes (sp_settings p)) = Inr (SettingsFrame p)"
proof -
  obtain q where q: "payload_add_all payload_new (sp_settings p) = Inr q" "wf_payload q"
    "sp_settings q = sp_settings p"
    using payload_add_all_distinct [OF wf_payload_new, of "sp_settings p"] assms
    by (auto simp: wf_payload_def)
  then have "q = p" using assms payload_eqI by blast
  with q(1) assms show ?thesis
    using decode_settings_loop_bytes [of "sp_settings p" "[]" payload_new]
    by (simp add: decode_settings_frame_def wf_payload_def)
qed

section \<open>What the decoder guarantees on any input\<close>

lemma decode_settings_loop_sound:
  assumes "decode_settings_loop payload offset acc = Inr p" "wf_payload acc"
    "length (settings_bytes (sp_settings acc)) \<le> offset" "offset \<le> length payload"
  shows "wf_payload p \<and> length (settings_bytes (sp_settings p)) \<le> length payload"
  using assms
proof (induction payload offset acc rule: decode_settings_loop.induct)
  case (1 payload offset acc)
  show ?case
  proof (cases "offset < length payload")
    case False
    with 1(2) have "p = acc" by (simp add: decode_settings_loop.simps)
    with 1 show ?thesis by simp
  next
    case True
    with 1(2) obtain i n v m s acc' where st:
      "varint_decode (drop offset payload) = Inr (i, n)"
      "varint_decode (drop (offset + n) payload) = Inr (v, m)"
      "setting_from_wire i v = Inr s" "payload_add acc s = Inr acc'"
      "decode_settings_loop payload (offset + n + m) acc' = Inr p"
      by (subst (asm) decode_settings_loop.simps) (auto simp: bindR_Inr_iff)
    note i = varint_decode_sound [OF st(1)] and v = varint_decode_sound [OF st(2)]
    have s: "wf_setting s" using wf_from_wire [OF st(3)] i v by simp
    note acc' = wf_payload_add [OF 1(3) s st(4)]
    have "length (setting_bytes s) \<le> n + m"
      using i v as_wire_from_wire [OF st(3)] by (simp add: setting_bytes_def)
    then have "length (settings_bytes (sp_settings acc')) \<le> offset + n + m"
      using acc' 1(4) by (simp add: settings_bytes_def)
    moreover have "offset + n + m \<le> length payload" using v True by auto
    ultimately show ?thesis
      using 1(1) [OF True _ _ _ _ _ _ st(5)] st acc' by simp
  qed
qed

lemma decode_header_sound:
  assumes "decode_frame_header buf = Inr h"
  shows "varint_ok (fh_type h) \<and> varint_ok (fh_payload_len h) \<and> \<not> is_http2_only (vget (fh_type h)) \<and>
    0 < fh_header_len h \<and> fh_header_len h \<le> length buf \<and> fh_header_len h \<le> 16 \<and>
    encoded_len (fh_type h) + encoded_len (fh_payload_len h) \<le> fh_header_len h"
proof -
  from assms obtain ft n pl m where st: "varint_decode buf = Inr (ft, n)"
    "varint_decode (drop n buf) = Inr (pl, m)" "\<not> is_http2_only (vget ft)"
    "h = \<lparr>fh_type = ft, fh_payload_len = pl, fh_header_len = n + m\<rparr>"
    by (auto simp: decode_frame_header_def bindR_Inr_iff split: if_splits)
  from varint_decode_sound [OF st(1)] varint_decode_sound [OF st(2)] st(3,4)
  show ?thesis by auto
qed

lemma decode_header_stable:
  assumes "decode_frame_header buf \<noteq> Inl BufferTooShort"
  shows "decode_frame_header (buf @ rest) = decode_frame_header buf"
proof -
  from assms obtain ft n pl m where st: "varint_decode buf = Inr (ft, n)"
    "varint_decode (drop n buf) = Inr (pl, m)" "buf \<noteq> []" "n \<le> length buf"
    by (cases "varint_decode buf"; cases "varint_decode (drop (snd (projr (varint_decode buf))) buf)")
      (auto simp: decode_frame_header_def split: if_splits)
  with varint_decode_prefix [OF st(1), of rest] varint_decode_prefix [OF st(2), of rest]
  show ?thesis by (simp add: decode_frame_header_def)
qed

text \<open>The body of the decoder, once the header is known: a function of the payload alone.\<close>

definition decode_body :: "varint \<Rightarrow> bytes \<Rightarrow> frame_decode_error + frame" where
  "decode_body ft payload =
    (case frame_type_from_type (vget ft) of
       Some FtData \<Rightarrow> Inr (DataFrame payload)
     | Some FtHeaders \<Rightarrow> Inr (HeadersFrame payload)
     | Some FtSettings \<Rightarrow> decode_settings_frame payload
     | Some FtGoaway \<Rightarrow> decode_goaway_frame payload
     | Some FtMaxPushId \<Rightarrow> decode_max_push_id_frame payload
     | Some FtCancelPush \<Rightarrow> Inl (ServerPushNotSupported ft)
     | Some FtPushPromise \<Rightarrow> Inl (ServerPushNotSupported ft)
     | None \<Rightarrow> Inr (UnknownFrame \<lparr>uf_type = ft, uf_payload = payload\<rparr>))"

lemma decode_frame_unknown_total:
  assumes "decode_frame_header buf = Inr h" "frame_type_from_type (vget (fh_type h)) = None"
  shows "unknown_frame_new (fh_type h) p = Inr \<lparr>uf_type = fh_type h, uf_payload = p\<rparr>"
  using decode_header_sound [OF assms(1)] assms(2) by (simp add: unknown_frame_new_def)

lemma total_len_ok:
  assumes "decode_frame_header buf = Inr h"
  shows "total_len h = Some (fh_header_len h + vget (fh_payload_len h))"
  using decode_header_sound [OF assms] by (simp add: total_len_def checked_add_def varint_ok_iff)

lemma decode_frame_by_header:
  assumes "decode_frame_header buf = Inr h"
  shows "decode_frame buf =
    (let total = fh_header_len h + vget (fh_payload_len h) in
     if length buf < total then Inl BufferTooShort
     else bindR (decode_body (fh_type h) (drop (fh_header_len h) (take total buf)))
        (\<lambda>f. Inr (f, total)))"
proof -
  have "(case frame_type_from_type (vget (fh_type h)) of
       Some FtData \<Rightarrow> Inr (DataFrame payload)
     | Some FtHeaders \<Rightarrow> Inr (HeadersFrame payload)
     | Some FtSettings \<Rightarrow> decode_settings_frame payload
     | Some FtGoaway \<Rightarrow> decode_goaway_frame payload
     | Some FtMaxPushId \<Rightarrow> decode_max_push_id_frame payload
     | Some FtCancelPush \<Rightarrow> Inl (ServerPushNotSupported (fh_type h))
     | Some FtPushPromise \<Rightarrow> Inl (ServerPushNotSupported (fh_type h))
     | None \<Rightarrow> (case unknown_frame_new (fh_type h) payload of
               Inr u \<Rightarrow> Inr (UnknownFrame u)
             | Inl e \<Rightarrow> undefined)) = decode_body (fh_type h) payload" for payload
    using decode_frame_unknown_total [OF assms]
    by (cases "frame_type_from_type (vget (fh_type h))") (simp_all add: decode_body_def)
  then show ?thesis
    by (simp add: decode_frame_def assms total_len_ok [OF assms] Let_def)
qed

lemma decode_frame_header_error:
  "decode_frame_header buf = Inl e \<Longrightarrow> decode_frame buf = Inl e"
  by (simp add: decode_frame_def)

lemma decode_frame_stable:
  assumes "decode_frame buf \<noteq> Inl BufferTooShort"
  shows "decode_frame (buf @ rest) = decode_frame buf"
proof (cases "decode_frame_header buf")
  case (Inl e)
  with assms have "decode_frame_header buf \<noteq> Inl BufferTooShort"
    by (auto simp: decode_frame_header_error)
  from decode_header_stable [OF this] Inl show ?thesis
    by (simp add: decode_frame_header_error)
next
  case (Inr h)
  then have "decode_frame_header (buf @ rest) = Inr h"
    using decode_header_stable [of buf rest] by simp
  with Inr assms show ?thesis
    by (simp add: decode_frame_by_header Let_def split: if_splits)
qed

lemma decode_body_sound:
  assumes "decode_body ft payload = Inr f" "varint_ok ft" "\<not> is_http2_only (vget ft)"
  shows "wf_fields f \<and> frame_type_of f = ft \<and> length (payload_bytes f) \<le> length payload"
proof -
  have ft: "varint_from_static (vget ft) = ft" by (cases ft) (simp add: varint_from_static_def)
  have loop: "wf_payload p \<and> length (settings_bytes (sp_settings p)) \<le> length payload"
    if "decode_settings_loop payload 0 payload_new = Inr p" for p
    using decode_settings_loop_sound [OF that] by simp
  show ?thesis
  proof (cases "frame_type_from_type (vget ft)")
    case None
    with assms show ?thesis by (auto simp: decode_body_def unknown_type_ok_def)
  next
    case (Some t)
    note c = frame_type_code_from [OF Some]
    show ?thesis
      using assms(1) Some ft loop c varint_decode_sound [of payload]
      by (cases t) (auto simp: decode_body_def decode_settings_frame_def decode_goaway_frame_def
          decode_max_push_id_frame_def bindR_Inr_iff split: if_splits)
  qed
qed

lemma decode_frame_sound:
  assumes "decode_frame buf = Inr (f, n)"
  shows "wf_frame f \<and> 0 < n \<and> n \<le> length buf \<and> length (frame_bytes f) \<le> n + 8"
proof -
  obtain h where h: "decode_frame_header buf = Inr h"
    using assms decode_frame_header_error by (cases "decode_frame_header buf") auto
  note hs = decode_header_sound [OF h]
  let ?t = "fh_header_len h + vget (fh_payload_len h)"
  from assms have body: "decode_body (fh_type h) (drop (fh_header_len h) (take ?t buf)) = Inr f"
    and n: "n = ?t" "n \<le> length buf"
    by (auto simp: decode_frame_by_header [OF h] Let_def bindR_Inr_iff split: if_splits)
  from decode_body_sound [OF body] hs
  have f: "wf_fields f" "frame_type_of f = fh_type h"
    "length (payload_bytes f) \<le> vget (fh_payload_len h)" by auto
  with hs n have "wf_frame f" by (simp add: wf_frame_def varint_ok_iff)
  moreover have "length (frame_bytes f) \<le> n + 8"
    using f hs n encoded_len_le_8 [of "VarInt (length (payload_bytes f))"]
    by (simp add: frame_bytes_def)
  ultimately show ?thesis using hs n by simp
qed

text \<open>The frame's own bytes are decoded back, whatever follows.\<close>

lemma decode_body_bytes:
  assumes "wf_fields f"
  shows "decode_body (frame_type_of f) (payload_bytes f) = Inr f"
proof (cases f)
  case (UnknownFrame u)
  with assms show ?thesis by (cases u) (simp add: decode_body_def unknown_type_ok_def)
qed (use assms vi.dec_enc_exact in \<open>simp_all add: decode_body_def frame_type_from_type_def
      decode_settings_frame_bytes decode_goaway_frame_def decode_max_push_id_frame_def\<close>)

lemma wf_fields_not_http2: "wf_fields f \<Longrightarrow> \<not> is_http2_only (vget (frame_type_of f))"
  by (cases f) (simp_all add: unknown_type_ok_def is_http2_only_def)

lemma decode_frame_bytes:
  assumes "wf_frame f"
  shows "decode_frame (frame_bytes f @ rest) = Inr (f, length (frame_bytes f))"
proof -
  let ?n = "length (payload_bytes f)" and ?ft = "frame_type_of f"
  have wf: "wf_fields f" "?n < 2 ^ 62" "varint_ok ?ft"
    using assms wf_frame_type_ok by (auto simp: wf_frame_def)
  then have "decode_frame_header (frame_bytes f @ rest) =
      Inr \<lparr>fh_type = ?ft, fh_payload_len = VarInt ?n, fh_header_len = length (header_bytes ?ft ?n)\<rparr>"
    using decode_header_bytes [OF wf(3,2), of "payload_bytes f @ rest"] wf_fields_not_http2
    by (simp add: frame_bytes_def)
  from decode_frame_by_header [OF this] show ?thesis
    by (simp add: decode_body_bytes [OF wf(1)] frame_bytes_def)
qed

lemma frame_bytes_nonempty [simp]: "frame_bytes f \<noteq> []"
  by (simp add: frame_bytes_def header_bytes_def)

interpretation fr: incremental wf_frame frame_bytes decode_frame BufferTooShort
  by unfold_locales (auto simp: decode_frame_bytes decode_frame_stable dest: decode_frame_sound)

lemma decode_settings_loop_valid:
  assumes "decode_frame buf = Inr (SettingsFrame p, n)"
  shows "wf_payload p"
  using decode_frame_sound [OF assms] by (simp add: wf_frame_def)

text \<open>
  A decoded frame can be sent again, and reading it back gives the same frame: decoding
  normalises the integers of a frame but loses nothing else.
\<close>

lemma encode_frame_room:
  assumes "wf_frame f" "sendable f" "length (frame_bytes f) \<le> length buf"
  shows "encode_frame buf f = Some (written buf (frame_bytes f), length (frame_bytes f))"
  using encode_frame_written [OF assms(1,2), of buf] assms(3) by simp

section \<open>Properties of the frame layer\<close>

text \<open>
  C23: Encoding and decoding agree.  A valid frame of any type but WT_STREAM that fits the buffer
  is written at its start, in as many bytes as \<open>encoded_frame_len\<close> announced, the rest of the
  buffer is left as it was, and the decoder reads the same frame and the same length back.
\<close>

theorem frame_roundtrip:
  assumes "wf_frame f" "sendable f" "encoded_frame_len f = Some n" "n \<le> length buf"
  shows "\<exists>buf'. encode_frame buf f = Some (buf', n) \<and> length buf' = length buf \<and>
    drop n buf' = drop n buf \<and> decode_frame buf' = Inr (f, n)"
proof -
  have n: "n = length (frame_bytes f)" using assms(3) encoded_frame_len_ok [OF assms(1)] by simp
  with encode_frame_room [OF assms(1,2), of buf] assms(4) fr.dec_enc [OF assms(1)] show ?thesis
    by (simp add: written_def)
qed

theorem frame_roundtrip_witness:
  "\<exists>buf'. encode_frame [0, 0, 0, 0, 9, 9] (GoawayFrame (VarInt 300)) = Some (buf', 4) \<and>
    drop 4 buf' = [9, 9] \<and> decode_frame buf' = Inr (GoawayFrame (VarInt 300), 4)"
proof -
  have "wf_frame (GoawayFrame (VarInt 300))" "sendable (GoawayFrame (VarInt 300))"
    "encoded_frame_len (GoawayFrame (VarInt 300)) = Some 4"
    by (simp_all add: wf_frame_def varint_ok_iff sendable_def encoded_frame_len_def encoded_len_def
        checked_add_def varint_from_static_def)
  from frame_roundtrip [OF this, of "[0, 0, 0, 0, 9, 9]"] show ?thesis by auto
qed

text \<open>The size of the frame at the front of a buffer, once its header is there.\<close>

definition announced_len :: "bytes \<Rightarrow> nat option" where
  "announced_len buf =
    (case varint_decode buf of
       Inl _ \<Rightarrow> None
     | Inr (_, n) \<Rightarrow>
         (case varint_decode (drop n buf) of
            Inl _ \<Rightarrow> None
          | Inr (payload_len, m) \<Rightarrow> Some (n + m + vget payload_len)))"

definition refused_type :: "bytes \<Rightarrow> bool" where
  "refused_type buf \<longleftrightarrow> (case varint_decode buf of Inl _ \<Rightarrow> False | Inr (ft, _) \<Rightarrow> is_http2_only (vget ft))"

lemma settings_loop_not_short: "decode_settings_loop payload offset acc \<noteq> Inl BufferTooShort"
proof (induction payload offset acc rule: decode_settings_loop.induct)
  case (1 payload offset acc)
  then show ?case
    by (subst decode_settings_loop.simps) (auto simp: bindR_def map_err_def split: sum.splits)
qed

lemma body_not_short: "decode_body ft payload \<noteq> Inl BufferTooShort"
  using settings_loop_not_short [of payload 0 payload_new]
  by (auto simp: decode_body_def decode_settings_frame_def decode_goaway_frame_def decode_max_push_id_frame_def
      bindR_def map_err_def split: sum.splits option.splits frame_type.splits)

lemma header_total:
  assumes "decode_frame_header buf = Inr h"
  shows "announced_len buf = Some (fh_header_len h + vget (fh_payload_len h))" "\<not> refused_type buf"
  using assms
  by (auto simp: announced_len_def refused_type_def decode_frame_header_def bindR_Inr_iff split: if_splits)

lemma header_missing:
  assumes "decode_frame_header buf = Inl e"
  shows "e = BufferTooShort \<longleftrightarrow> announced_len buf = None" "announced_len buf \<noteq> None \<Longrightarrow> refused_type buf"
  using assms varint_decode_sound [of buf]
  by (auto simp: announced_len_def refused_type_def decode_frame_header_def map_err_def bindR_def
      split: if_splits sum.splits prod.splits)

lemma waits_exactly:
  "decode_frame buf = Inl BufferTooShort \<longleftrightarrow>
    (case announced_len buf of None \<Rightarrow> True | Some n \<Rightarrow> length buf < n \<and> \<not> refused_type buf)"
proof (cases "decode_frame_header buf")
  case (Inl e)
  with header_missing [OF Inl] show ?thesis by (auto simp: decode_frame_header_error split: option.split)
next
  case (Inr h)
  with header_total [OF Inr] body_not_short show ?thesis
    by (auto simp: decode_frame_by_header Let_def bindR_def split: sum.split)
qed

lemma consumes_announced:
  assumes "decode_frame buf = Inr (f, n)"
  shows "announced_len buf = Some n"
proof (cases "decode_frame_header buf")
  case (Inl e)
  with assms show ?thesis by (simp add: decode_frame_header_error)
next
  case (Inr h)
  with assms header_total [OF Inr] show ?thesis
    by (auto simp: decode_frame_by_header Let_def bindR_Inr_iff split: if_splits)
qed

text \<open>
  C31: The frame decoder waits exactly while the frame is incomplete.  The answer is \<open>BufferTooShort\<close> if
  and only if type and length are not there, or (unless the type is one reserved for HTTP/2, which is
  refused at once) the buffer has fewer bytes than they announce; an accepted frame consumes exactly
  the announced bytes.  So every valid frame is answered by itself as soon as its last byte is there,
  and not earlier; any answer but waiting is final: it is the same for every continuation of the input.
\<close>

theorem frame_decode_incremental:
  "(decode_frame buf = Inl BufferTooShort \<longleftrightarrow>
      (case announced_len buf of None \<Rightarrow> True | Some n \<Rightarrow> length buf < n \<and> \<not> refused_type buf)) \<and>
   (decode_frame buf = Inr (g, m) \<longrightarrow> announced_len buf = Some m \<and> m \<le> length buf) \<and>
   (wf_frame f \<longrightarrow> decode_frame (take k (frame_bytes f @ rest)) =
      (if k < length (frame_bytes f) then Inl BufferTooShort else Inr (f, length (frame_bytes f)))) \<and>
   (decode_frame buf \<noteq> Inl BufferTooShort \<longrightarrow> decode_frame (buf @ rest) = decode_frame buf)"
proof (intro conjI impI)
  show "decode_frame (take k (frame_bytes f @ rest)) =
      (if k < length (frame_bytes f) then Inl BufferTooShort else Inr (f, length (frame_bytes f)))" if "wf_frame f"
    using fr.partial_short [OF that, of k] decode_frame_bytes [OF that] by simp
qed (use waits_exactly consumes_announced decode_frame_sound fr.dec_stable in blast)+

theorem frame_decode_incremental_witness:
  "decode_frame (take 2 (frame_bytes (DataFrame [7, 8, 9]))) = Inl BufferTooShort \<and>
   decode_frame (take 5 (frame_bytes (DataFrame [7, 8, 9]) @ [1])) = Inr (DataFrame [7, 8, 9], 5) \<and>
   announced_len [0x00, 0x03, 7] = Some 5 \<and> decode_frame [0x00, 0x03, 7] = Inl BufferTooShort \<and>
   decode_frame ([0x02, 0x00] @ [1]) = decode_frame [0x02, 0x00]"
proof -
  have f: "wf_frame (DataFrame [7, 8, 9])" "length (frame_bytes (DataFrame [7, 8, 9])) = 5"
    by (simp_all add: wf_frame_def frame_bytes_def encoded_len_def)
  have a: "announced_len [0x00, 0x03, 7] = Some 5" "\<not> refused_type [0x00, 0x03, 7]"
    by (simp_all add: announced_len_def refused_type_def varint_decode_def is_http2_only_def)
  have "decode_frame_header [0x02, 0x00] = Inl (Http2Frame (VarInt 2))"
    by (simp add: decode_frame_header_def varint_decode_def is_http2_only_def)
  then have h: "decode_frame [0x02, 0x00] \<noteq> Inl BufferTooShort"
    by (simp add: decode_frame_header_error)
  note inc = frame_decode_incremental [of _ "DataFrame []" 0 "DataFrame [7, 8, 9]"]
  have "decode_frame (take 2 (frame_bytes (DataFrame [7, 8, 9]) @ [])) = Inl BufferTooShort"
    "decode_frame (take 5 (frame_bytes (DataFrame [7, 8, 9]) @ [1])) = Inr (DataFrame [7, 8, 9], 5)"
    using inc [of _ 2 "[]"] inc [of _ 5 "[1]"] f by auto
  moreover have "decode_frame [0x00, 0x03, 7] = Inl BufferTooShort"
    using inc [of "[0x00, 0x03, 7]" 0 "[]"] a by simp
  moreover have "decode_frame ([0x02, 0x00] @ [1]) = decode_frame [0x02, 0x00]"
    using inc [of "[0x02, 0x00]" 0 "[1]"] h by blast
  ultimately show ?thesis using a(1) by simp
qed

text \<open>
  Whatever the peer sends, an accepted frame is well formed: its integers are in range, its
  type is one the connection may receive, a SETTINGS payload has no duplicate and no HTTP/2
  identifier, an unknown frame never hides a known type; at least one byte and no more than the
  buffer is consumed.
\<close>

theorem frame_decode_wellformed:
  assumes "decode_frame buf = Inr (f, n)"
  shows "wf_frame f \<and> \<not> is_http2_only (vget (frame_type_of f)) \<and> 0 < n \<and> n \<le> length buf \<and>
    (\<forall>p. f = SettingsFrame p \<longrightarrow> distinct (map setting_id (sp_settings p)) \<and>
       (\<forall>s \<in> set (sp_settings p). \<not> is_http2_only_id (vget (setting_id s))))"
proof -
  note sound = decode_frame_sound [OF assms]
  have "\<not> is_http2_only_id (vget (setting_id s))" if "wf_setting s" for s
    using that by (cases s) (simp_all add: wf_setting_def setting_id_def is_http2_only_id_def)
  with sound wf_fields_not_http2 [of f] show ?thesis
    by (auto simp: wf_frame_def wf_payload_def)
qed

theorem frame_decode_wellformed_witness:
  "wf_frame (DataFrame [5]) \<and> (3 :: nat) \<le> length ([0x00, 0x01, 0x05, 0x00] :: bytes)"
proof -
  have "decode_frame_header [0x00, 0x01, 0x05, 0x00] =
      Inr \<lparr>fh_type = VarInt 0, fh_payload_len = VarInt 1, fh_header_len = 2\<rparr>"
    by (simp add: decode_frame_header_def varint_decode_def is_http2_only_def)
  from decode_frame_by_header [OF this]
  have "decode_frame [0x00, 0x01, 0x05, 0x00] = Inr (DataFrame [5], 3)"
    by (simp add: decode_body_def frame_type_from_type_def)
  from frame_decode_wellformed [OF this] show ?thesis by simp
qed

text \<open>
  C36: A configuration survives the wire.  The SETTINGS frame built from a valid configuration,
  sent and decoded by the peer, gives the configuration back, except that a WebTransport part in
  which nothing is set is not transmitted.
\<close>

theorem settings_end_to_end:
  assumes "wf_h3_settings s" "payload_from_settings s = Inr p"
    "length (frame_bytes (SettingsFrame p)) \<le> length buf" "length buf < 2 ^ 62"
  shows "\<exists>buf' n q. encode_frame buf (SettingsFrame p) = Some (buf', n) \<and>
    decode_frame buf' = Inr (SettingsFrame q, n) \<and>
    settings_from_payload q =
      (if wt_part s = Some wt_settings_new then s\<lparr>wt_part := None\<rparr> else s)"
proof -
  have p: "wf_payload p" "sp_settings p = all_settings s"
    using payload_from_settings_total [OF assms(1)] assms(2) by auto
  have "wf_frame (SettingsFrame p)"
    using assms(3,4) p by (simp add: wf_frame_def frame_bytes_def)
  moreover have "sendable (SettingsFrame p)" by (simp add: sendable_def)
  ultimately show ?thesis
    using encode_frame_room [OF _ _ assms(3)] fr.dec_enc settings_from_payload_all [OF p(2)]
    by (auto simp: written_def)
qed

theorem settings_end_to_end_witness:
  "\<exists>p. payload_from_settings (h3_settings_new\<lparr>h3_datagram := Some True\<rparr>) = Inr p \<and>
    (\<exists>buf' n q. encode_frame (replicate 20 0) (SettingsFrame p) = Some (buf', n) \<and>
      decode_frame buf' = Inr (SettingsFrame q, n) \<and>
      settings_from_payload q = h3_settings_new\<lparr>h3_datagram := Some True\<rparr>)"
proof -
  let ?s = "h3_settings_new\<lparr>h3_datagram := Some True\<rparr>"
  have wf: "wf_h3_settings ?s" by (simp add: wf_h3_settings_def h3_settings_new_def)
  then obtain p where p: "payload_from_settings ?s = Inr p" "sp_settings p = all_settings ?s"
    using payload_from_settings_total by blast
  have "length (frame_bytes (SettingsFrame p)) \<le> length (replicate 20 (0 :: u8))"
    by (simp add: frame_bytes_def p(2) all_settings_def settings_iter_def h3_settings_new_def
        settings_bytes_def setting_bytes_def grease_setting_def bool_v_def encoded_len_def
        VARINT_ZERO_def)
  from settings_end_to_end [OF wf p(1) this] p(1) show ?thesis
    by (auto simp: h3_settings_new_def)
qed

end
