(* ===== verification/Prefix_Integer.thy ===== *)
theory Prefix_Integer
  imports Errors
begin

text \<open>
  Prefix integers (\<^verbatim>\<open>src/qpack/integer.rs\<close>, RFC 7541 Section 5.1): the integers of QPACK, which
  share their first byte with the flags of an instruction.  \<open>int_bytes\<close> is the encoding as a
  list; both encoders of the module produce it, and the decoder, whose accumulator never leaves
  the 64 bits, recovers every value below \<open>2 ^ 62\<close>.
\<close>

section \<open>Encoding\<close>

function encode_integer_loop :: "bytes \<Rightarrow> usize \<Rightarrow> u64 \<Rightarrow> (bytes \<times> usize) option" where
  "encode_integer_loop buf offset remaining =
    (if 128 \<le> remaining then
       if length buf \<le> offset then None
       else encode_integer_loop (buf[offset := 0x80 OR as_u8 (remaining AND 0x7f)]) (offset + 1)
         (drop_bit 7 remaining)
     else if length buf \<le> offset then None
     else Some (buf[offset := as_u8 remaining], offset + 1))"
  by pat_completeness auto
termination
  by (relation "measure (\<lambda>(_, _, remaining). remaining)") (auto simp: drop_bit_eq_div)

declare encode_integer_loop.simps [simp del]

definition encode_integer :: "bytes \<Rightarrow> u64 \<Rightarrow> nat \<Rightarrow> u8 \<Rightarrow> (bytes \<times> usize) option" where
  "encode_integer buf value prefix_bits prefix =
    (if prefix_bits = 0 \<or> 8 < prefix_bits then None
     else
       let max_prefix = 2 ^ prefix_bits - 1 in
       if value < max_prefix then
         if buf = [] then None
         else Some (buf[0 := prefix OR as_u8 value], 1)
       else if buf = [] then None
       else encode_integer_loop (buf[0 := prefix OR as_u8 max_prefix]) 1 (value - max_prefix))"

function encode_integer_to_vec_loop :: "bytes \<Rightarrow> u64 \<Rightarrow> bytes" where
  "encode_integer_to_vec_loop buf remaining =
    (if 128 \<le> remaining then
       encode_integer_to_vec_loop (buf @ [0x80 OR as_u8 (remaining AND 0x7f)]) (drop_bit 7 remaining)
     else buf @ [as_u8 remaining])"
  by pat_completeness auto
termination
  by (relation "measure (\<lambda>(_, remaining). remaining)") (auto simp: drop_bit_eq_div)

declare encode_integer_to_vec_loop.simps [simp del]

definition encode_integer_to_vec :: "bytes \<Rightarrow> u64 \<Rightarrow> nat \<Rightarrow> u8 \<Rightarrow> bytes" where
  "encode_integer_to_vec buf value prefix_bits prefix =
    (if prefix_bits = 0 \<or> 8 < prefix_bits then buf
     else
       let max_prefix = 2 ^ prefix_bits - 1 in
       if value < max_prefix then buf @ [prefix OR as_u8 value]
       else encode_integer_to_vec_loop (buf @ [prefix OR as_u8 max_prefix]) (value - max_prefix))"

section \<open>Decoding\<close>

function decode_integer_loop :: "bytes \<Rightarrow> u64 \<Rightarrow> u32 \<Rightarrow> usize \<Rightarrow> qpack_error + u64 \<times> usize" where
  "decode_integer_loop data value shift offset =
    (if length data \<le> offset then Inl QBufferTooShort
     else
       let byte = data ! offset;
           value = value + take_bit 64 (push_bit shift (unat (byte AND 0x7f)));
           offset = offset + 1 in
       if byte AND 0x80 = 0 then Inr (value, offset)
       else
         let shift = shift + 7 in
         if 56 < shift then Inl DecodeFailed
         else decode_integer_loop data value shift offset)"
  by pat_completeness auto
termination
  by (relation "measure (\<lambda>(data, _, _, offset). length data - offset)") auto

declare decode_integer_loop.simps [simp del]

definition decode_integer :: "bytes \<Rightarrow> nat \<Rightarrow> qpack_error + u64 \<times> usize" where
  "decode_integer data prefix_bits =
    (if data = [] then Inl QBufferTooShort
     else if prefix_bits = 0 \<or> 8 < prefix_bits then Inl DecodeFailed
     else
       let mask = as_u8 (2 ^ prefix_bits - 1);
           prefix_value = data ! 0 AND mask in
       if prefix_value < mask then Inr (unat prefix_value, 1)
       else
         bindR (decode_integer_loop data (unat prefix_value) 0 1) (\<lambda>(value, offset).
         if vget VARINT_MAX < value then Inl DecodeFailed else Inr (value, offset)))"

section \<open>The bytes of an encoding\<close>

fun cont_bytes :: "nat \<Rightarrow> bytes" where
  "cont_bytes r = (if 128 \<le> r then as_u8 (128 + r mod 128) # cont_bytes (r div 128) else [as_u8 r])"

declare cont_bytes.simps [simp del]

definition int_bytes :: "u64 \<Rightarrow> nat \<Rightarrow> u8 \<Rightarrow> bytes" where
  "int_bytes value p tag =
    (if value < 2 ^ p - 1 then [tag OR as_u8 value]
     else (tag OR as_u8 (2 ^ p - 1)) # cont_bytes (value - (2 ^ p - 1)))"

lemma cont_bytes_nonempty [simp]: "cont_bytes r \<noteq> []"
  by (subst cont_bytes.simps) simp

lemma int_bytes_nonempty [simp]: "int_bytes v p tag \<noteq> []"
  by (simp add: int_bytes_def)

lemma length_int_bytes_pos [simp]: "0 < length (int_bytes v p tag)"
  by simp

lemma nat_and_7f: "r AND 0x7f = r mod (128 :: nat)"
  using nat_and_mask [of r 7] by simp

lemma or_80: "0x80 OR as_u8 (r mod 128) = as_u8 (128 + r mod 128)"
proof -
  have "r mod 128 OR 1 * 2 ^ 7 = r mod 128 + 1 * 2 ^ 7"
    by (rule nat_or_tag) simp
  moreover have "unat (0x80 :: u8) = 128" by simp
  ultimately have "unat (0x80 OR as_u8 (r mod 128)) = 128 + r mod 128"
    by (simp only: unsigned_or_eq unat_as_u8) (simp add: or.commute add.commute)
  then show ?thesis by (simp add: word_unat_eq_iff)
qed

lemma encode_integer_loop_written:
  assumes "length as \<le> length buf"
  shows "encode_integer_loop (written buf as) (length as) r =
    (if length buf < length (as @ cont_bytes r) then None
     else Some (written buf (as @ cont_bytes r), length (as @ cont_bytes r)))"
  using assms
proof (induction r arbitrary: as rule: less_induct)
  case (less r)
  note upd = written_update [of as buf]
  show ?case
  proof (cases "128 \<le> r")
    case True
    let ?b = "as_u8 (128 + r mod 128)"
    have cont: "cont_bytes r = ?b # cont_bytes (r div 128)"
      using True by (subst cont_bytes.simps) simp
    show ?thesis
    proof (cases "length as < length buf")
      case room: True
      have "encode_integer_loop (written buf as) (length as) r =
          encode_integer_loop (written buf (as @ [?b])) (length (as @ [?b])) (r div 128)"
        using True room less.prems upd [OF room]
        by (subst encode_integer_loop.simps)
          (simp add: nat_and_7f or_80 drop_bit_eq_div)
      also have "\<dots> = (if length buf < length ((as @ [?b]) @ cont_bytes (r div 128)) then None
          else Some (written buf ((as @ [?b]) @ cont_bytes (r div 128)),
            length ((as @ [?b]) @ cont_bytes (r div 128))))"
        by (rule less.IH) (use True room in simp_all)
      finally show ?thesis by (simp add: cont)
    next
      case False
      with True less.prems show ?thesis
        by (subst encode_integer_loop.simps) (simp add: cont)
    qed
  next
    case False
    then have "cont_bytes r = [as_u8 r]" by (subst cont_bytes.simps) simp
    with False less.prems upd show ?thesis
      by (subst encode_integer_loop.simps) simp
  qed
qed

lemma encode_integer_written:
  assumes "0 < p" "p \<le> 8"
  shows "encode_integer buf v p tag =
    (if length buf < length (int_bytes v p tag) then None
     else Some (written buf (int_bytes v p tag), length (int_bytes v p tag)))"
proof (cases buf)
  case Nil
  with assms show ?thesis by (simp add: encode_integer_def Let_def)
next
  case (Cons b bs)
  have "written (b # bs) [x] = x # bs" for x by (simp add: written_def)
  with assms Cons show ?thesis
    using encode_integer_loop_written [of "[tag OR as_u8 (2 ^ p - 1)]" "b # bs" "v - (2 ^ p - 1)"]
    by (auto simp: encode_integer_def int_bytes_def Let_def)
qed

lemma encode_integer_to_vec_loop_append:
  "encode_integer_to_vec_loop buf r = buf @ cont_bytes r"
proof (induction buf r rule: encode_integer_to_vec_loop.induct)
  case (1 buf r)
  then show ?case
    by (subst encode_integer_to_vec_loop.simps, subst cont_bytes.simps)
      (simp add: nat_and_7f or_80 drop_bit_eq_div)
qed

lemma encode_integer_to_vec_append:
  assumes "0 < p" "p \<le> 8"
  shows "encode_integer_to_vec buf v p tag = buf @ int_bytes v p tag"
  using assms
  by (simp add: encode_integer_to_vec_def int_bytes_def Let_def encode_integer_to_vec_loop_append)

section \<open>Reading the bytes back\<close>

lemma unat_and_mask8:
  assumes "p \<le> 8"
  shows "unat (b AND as_u8 (2 ^ p - 1)) = unat b mod 2 ^ p"
proof -
  have "(2 :: nat) ^ p \<le> 2 ^ 8" using assms by (rule power_increasing) simp
  then have "(2 ^ p - 1 :: nat) mod 256 = 2 ^ p - 1" by simp
  then show ?thesis by (simp only: unsigned_and_eq unat_as_u8 nat_and_mask)
qed

lemma unat_mask8:
  assumes "p \<le> 8"
  shows "unat (as_u8 (2 ^ p - 1)) = 2 ^ p - 1"
proof -
  have "(2 :: nat) ^ p \<le> 2 ^ 8" using assms by (rule power_increasing) simp
  then show ?thesis by simp
qed

lemma byte_low: "unat (b AND 0x7f :: u8) = unat b mod 128"
proof -
  have "unat (b AND 0x7f) = unat b AND (2 ^ 7 - 1)" by (simp add: unsigned_and_eq)
  then show ?thesis by (simp only: nat_and_mask) simp
qed

lemma div_128_byte: "n < 256 \<Longrightarrow> n div 128 \<noteq> 1 \<longleftrightarrow> n < (128 :: nat)"
proof (cases "n < 128")
  case False
  moreover assume "n < 256"
  ultimately have "n div 128 = 1" by (intro div_nat_eqI) simp_all
  with False show ?thesis by simp
qed simp

lemma byte_high: "b AND 0x80 = (0 :: u8) \<longleftrightarrow> unat b < 128"
proof -
  have "unat (b AND 0x80) = unat b AND 2 ^ 7"
    by (simp only: unsigned_and_eq) simp
  then have "b AND 0x80 = (0 :: u8) \<longleftrightarrow> \<not> bit (unat b) 7"
    by (simp only: word_unat_eq_iff unsigned_0 and_exp_eq_0_iff_not_bit)
  also have "\<dots> \<longleftrightarrow> \<not> odd (unat b div 128)"
    by (simp add: bit_iff_odd)
  also have "\<dots> \<longleftrightarrow> \<not> unat b div 128 = 1"
  proof -
    have "unat b div 128 < 2" using unat_u8_lt [of b] by (simp add: less_mult_imp_div_less)
    then have "unat b div 128 = 0 \<or> unat b div 128 = 1" by linarith
    then show ?thesis by auto
  qed
  also have "\<dots> \<longleftrightarrow> unat b < 128"
    using div_128_byte [OF unat_u8_lt] .
  finally show ?thesis .
qed

text \<open>One round of the loop, and the loop on the continuation bytes of a acc.\<close>

lemma decode_integer_loop_eq:
  assumes "shift \<le> 56" "offset < length data"
  shows "decode_integer_loop data acc shift offset =
    (let b = unat (data ! offset); acc' = acc + (b mod 128) * 2 ^ shift in
     if b < 128 then Inr (acc', offset + 1)
     else if 49 < shift then Inl DecodeFailed
     else decode_integer_loop data acc' (shift + 7) (offset + 1))"
proof -
  have "(unat (data ! offset) mod 128) * 2 ^ shift < (2 :: nat) ^ 64"
  proof -
    have "(unat (data ! offset) mod 128) * 2 ^ shift < 128 * (2 :: nat) ^ shift" by simp
    also have "\<dots> \<le> 128 * 2 ^ 56" using assms(1) by (intro mult_le_mono2 power_increasing) simp_all
    finally show ?thesis by simp
  qed
  then have "take_bit 64 (push_bit shift (unat (data ! offset AND 0x7f))) =
      (unat (data ! offset) mod 128) * 2 ^ shift"
    by (simp add: byte_low push_bit_eq_mult take_bit_nat_eq_self)
  with assms show ?thesis
    by (subst decode_integer_loop.simps) (simp add: byte_high Let_def)
qed

lemma decode_integer_loop_cont:
  assumes "j \<le> 8" "r < 2 ^ (63 - 7 * j)"
  shows "decode_integer_loop (pre @ cont_bytes r @ rest) acc (7 * j) (length pre) =
    Inr (acc + r * 2 ^ (7 * j), length (pre @ cont_bytes r))"
  using assms
proof (induction r arbitrary: j pre acc rule: less_induct)
  case (less r)
  show ?case
  proof (cases "128 \<le> r")
    case False
    then have "cont_bytes r = [as_u8 r]" by (subst cont_bytes.simps) simp
    with False less.prems show ?thesis
      by (subst decode_integer_loop_eq) simp_all
  next
    case True
    let ?b = "as_u8 (128 + r mod 128)" and ?r = "r div 128"
    have cont: "cont_bytes r = ?b # cont_bytes ?r"
      using True by (subst cont_bytes.simps) simp
    have "r mod 128 < 128" by simp
    then have b: "unat ?b = 128 + r mod 128" by (simp del: mod_less_divisor)
    have j: "j \<le> 7"
    proof (rule ccontr)
      assume "\<not> j \<le> 7"
      with less.prems(1) have "j = 8" by simp
      with less.prems(2) True show False by simp
    qed
    then have e: "63 - 7 * j = 7 + (63 - 7 * Suc j)" by simp
    have r: "?r < 2 ^ (63 - 7 * Suc j)"
    proof (rule less_mult_imp_div_less)
      show "r < 2 ^ (63 - 7 * Suc j) * 128"
        using less.prems(2) unfolding e power_add by (simp add: mult.commute)
    qed
    have "decode_integer_loop (pre @ cont_bytes r @ rest) acc (7 * j) (length pre) =
        decode_integer_loop ((pre @ [?b]) @ cont_bytes ?r @ rest)
          (acc + (r mod 128) * 2 ^ (7 * j)) (7 * Suc j) (length (pre @ [?b]))"
      using j b by (subst decode_integer_loop_eq) (simp_all add: cont add.commute)
    also have "\<dots> = Inr (acc + (r mod 128) * 2 ^ (7 * j) + ?r * 2 ^ (7 * Suc j),
        length ((pre @ [?b]) @ cont_bytes ?r))"
      by (rule less.IH) (use True j r in simp_all)
    also have "acc + (r mod 128) * 2 ^ (7 * j) + ?r * 2 ^ (7 * Suc j) = acc + r * 2 ^ (7 * j)"
    proof -
      have "acc + y * 2 ^ (7 * j) + x * 2 ^ (7 * Suc j) = acc + (x * 128 + y) * 2 ^ (7 * j)" for x y
        by (simp add: power_add algebra_simps)
      from this [of "r mod 128" ?r] show ?thesis by simp
    qed
    finally show ?thesis by (simp add: cont)
  qed
qed

lemma decode_integer_eq:
  assumes "0 < p" "p \<le> 8" "data \<noteq> []"
  shows "decode_integer data p =
    (let v = unat (data ! 0) mod 2 ^ p in
     if v < 2 ^ p - 1 then Inr (v, 1)
     else bindR (decode_integer_loop data (2 ^ p - 1) 0 1) (\<lambda>(v, n).
       if 2 ^ 62 \<le> v then Inl DecodeFailed else Inr (v, n)))"
proof -
  note masks8 = unat_and_mask8 [OF assms(2), unfolded One_nat_def]
    unat_mask8 [OF assms(2), unfolded One_nat_def]
  have "unat (data ! 0) mod 2 ^ p < 2 ^ p" by simp
  then have "unat (data ! 0) mod 2 ^ p = 2 ^ p - Suc 0"
    if "2 ^ p - Suc 0 \<le> unat (data ! 0) mod 2 ^ p"
    using that by linarith
  with assms show ?thesis
    by (auto simp: decode_integer_def Let_def word_less_nat_alt
        masks8
        VARINT_MAX_def not_less simp del: unat_as_u8 intro!: arg_cong2 [where f = bindR] ext)
qed

text \<open>\<open>tag_ok p tag\<close>: the flags leave the \<open>p\<close> bits of the prefix free.\<close>

definition tag_ok :: "nat \<Rightarrow> u8 \<Rightarrow> bool" where
  "tag_ok p tag \<longleftrightarrow> 0 < p \<and> p \<le> 8 \<and> unat tag mod 2 ^ p = 0"

lemma unat_tag_or:
  assumes "tag_ok p tag" "v < 2 ^ p"
  shows "unat (tag OR as_u8 v) = unat tag + v"
proof -
  have p: "p \<le> 8" "unat tag mod 2 ^ p = 0" using assms(1) by (simp_all add: tag_ok_def)
  have "(2 :: nat) ^ p \<le> 2 ^ 8" using p(1) by (rule power_increasing) simp
  with assms(2) have v: "v mod 256 = v" by simp
  have t: "unat tag = (unat tag div 2 ^ p) * 2 ^ p" using p(2) by auto
  have "v OR (unat tag div 2 ^ p) * 2 ^ p = v + (unat tag div 2 ^ p) * 2 ^ p"
    by (rule nat_or_tag) (rule assms(2))
  then have "v OR unat tag = v + unat tag" using t by simp
  then show ?thesis by (simp only: unsigned_or_eq unat_as_u8 v) (simp add: or.commute add.commute)
qed

lemma tag_or_mod:
  assumes "tag_ok p tag" "v < 2 ^ p"
  shows "unat (tag OR as_u8 v) mod 2 ^ p = v"
proof -
  have "unat tag mod 2 ^ p = 0" using assms(1) by (simp add: tag_ok_def)
  then have "(unat tag + v) mod 2 ^ p = v mod 2 ^ p" by (simp add: mod_add_left_eq [symmetric])
  with assms show ?thesis by (simp add: unat_tag_or)
qed

lemma decode_int_bytes:
  assumes "tag_ok p tag" "v < 2 ^ 62"
  shows "decode_integer (int_bytes v p tag @ rest) p = Inr (v, length (int_bytes v p tag))"
proof -
  have p: "0 < p" "p \<le> 8" using assms(1) by (simp_all add: tag_ok_def)
  show ?thesis
  proof (cases "v < 2 ^ p - 1")
    case True
    then have "unat (tag OR as_u8 v) mod 2 ^ p = v"
      using tag_or_mod [OF assms(1), of v] by simp
    with True p show ?thesis
      by (simp add: decode_integer_eq int_bytes_def)
  next
    case False
    let ?m = "2 ^ p - 1 :: nat"
    have m: "unat (tag OR as_u8 ?m) mod 2 ^ p = ?m"
      using tag_or_mod [OF assms(1), of ?m] by simp
    have "decode_integer_loop ([tag OR as_u8 ?m] @ cont_bytes (v - ?m) @ rest) ?m (7 * 0)
        (length [tag OR as_u8 ?m]) =
        Inr (?m + (v - ?m) * 2 ^ (7 * 0), length ([tag OR as_u8 ?m] @ cont_bytes (v - ?m)))"
      by (rule decode_integer_loop_cont) (use assms(2) in simp_all)
    then have "decode_integer_loop ((tag OR as_u8 ?m) # cont_bytes (v - ?m) @ rest) ?m 0 1 =
        Inr (v, Suc (length (cont_bytes (v - ?m))))"
      using False by simp
    with False p m assms(2) show ?thesis
      by (simp add: decode_integer_eq int_bytes_def)
  qed
qed

section \<open>What the decoder guarantees on any input\<close>

lemma decode_integer_loop_sound:
  assumes "decode_integer_loop data acc shift offset = Inr (v, n)" "shift \<le> 56"
    "acc \<le> 254 + 2 ^ shift"
  shows "offset < n \<and> n \<le> length data \<and> 7 * n + shift \<le> 7 * offset + 63 \<and> v \<le> 254 + 2 ^ 63"
  using assms
proof (induction "length data - offset" arbitrary: acc shift offset rule: less_induct)
  case less
  have off: "offset < length data"
    using less.prems(1) by (subst (asm) decode_integer_loop.simps) (simp split: if_splits)
  let ?b = "unat (data ! offset)"
  let ?v = "acc + (?b mod 128) * 2 ^ shift"
  have "?b mod 128 \<le> 127" by simp
  then have "(?b mod 128) * 2 ^ shift \<le> 127 * 2 ^ shift" by (rule mult_le_mono1)
  moreover have "(2 :: nat) ^ (shift + 7) = 128 * 2 ^ shift" by (simp add: power_add)
  ultimately have v: "?v \<le> 254 + 2 ^ (shift + 7)"
    using less.prems(3) by linarith
  show ?case
  proof (cases "?b < 128")
    case True
    with less.prems off have "v = ?v" "n = offset + 1"
      by (simp_all add: decode_integer_loop_eq)
    moreover have "(2 :: nat) ^ (shift + 7) \<le> 2 ^ 63"
      using less.prems(2) by (intro power_increasing) simp_all
    ultimately show ?thesis using v off less.prems(2) by simp
  next
    case False
    with less.prems off have "decode_integer_loop data ?v (shift + 7) (offset + 1) = Inr (v, n)"
      "shift \<le> 49"
      by (auto simp: decode_integer_loop_eq Let_def split: if_splits)
    moreover from this(2) have "shift + 7 \<le> 56" by simp
    moreover from off have "length data - (offset + 1) < length data - offset" by simp
    ultimately have "offset + 1 < n \<and> n \<le> length data \<and>
        7 * n + (shift + 7) \<le> 7 * (offset + 1) + 63 \<and> v \<le> 254 + 2 ^ 63"
      using less.hyps v by blast
    then show ?thesis by simp
  qed
qed

lemma decode_integer_loop_stable:
  assumes "decode_integer_loop data acc shift offset \<noteq> Inl QBufferTooShort" "shift \<le> 56"
  shows "decode_integer_loop (data @ rest) acc shift offset =
    decode_integer_loop data acc shift offset"
  using assms
proof (induction "length data - offset" arbitrary: acc shift offset rule: less_induct)
  case less
  have off: "offset < length data"
    using less.prems(1) by (subst (asm) decode_integer_loop.simps) (simp split: if_splits)
  then have d: "(data @ rest) ! offset = data ! offset" by (simp add: nth_append)
  show ?case
  proof (cases "unat (data ! offset) < 128 \<or> 49 < shift")
    case True
    with less.prems off d show ?thesis by (auto simp: decode_integer_loop_eq Let_def)
  next
    case False
    let ?v = "acc + (unat (data ! offset) mod 128) * 2 ^ shift"
    have "decode_integer_loop data ?v (shift + 7) (offset + 1) \<noteq> Inl QBufferTooShort"
      using less.prems off False by (simp add: decode_integer_loop_eq Let_def)
    from less.hyps [OF _ this] False off d less.prems show ?thesis
      by (simp add: decode_integer_loop_eq Let_def)
  qed
qed

lemma decode_integer_sound:
  assumes "decode_integer data p = Inr (v, n)"
  shows "v < 2 ^ 62 \<and> 0 < n \<and> n \<le> length data \<and> n \<le> 10"
proof -
  have p: "0 < p" "p \<le> 8" "data \<noteq> []"
    using assms by (auto simp: decode_integer_def split: if_splits)
  have b: "unat (data ! 0) mod 2 ^ p < 256"
    using unat_u8_lt [of "data ! 0"] by (rule le_less_trans [OF mod_less_eq_dividend])
  have m: "(2 :: nat) ^ p \<le> 2 ^ 8" using p(2) by (rule power_increasing) simp
  show ?thesis
  proof (cases "unat (data ! 0) mod 2 ^ p < 2 ^ p - 1")
    case True
    with assms p b show ?thesis by (cases data) (auto simp: decode_integer_eq Let_def)
  next
    case False
    with assms p have "decode_integer_loop data (2 ^ p - 1) 0 1 = Inr (v, n)" "v < 2 ^ 62"
      by (auto simp: decode_integer_eq Let_def bindR_Inr_iff not_less split: if_splits)
    moreover from m have "(2 :: nat) ^ p - 1 \<le> 254 + 2 ^ 0" by simp
    ultimately show ?thesis using decode_integer_loop_sound [of data "2 ^ p - 1" 0 1 v n] by simp
  qed
qed

lemma decode_integer_stable:
  assumes "decode_integer data p \<noteq> Inl QBufferTooShort"
  shows "decode_integer (data @ rest) p = decode_integer data p"
proof (cases "0 < p \<and> p \<le> 8 \<and> data \<noteq> []")
  case True
  have "decode_integer_loop (data @ rest) (2 ^ p - 1) 0 1 = decode_integer_loop data (2 ^ p - 1) 0 1"
    if "\<not> unat (data ! 0) mod 2 ^ p < 2 ^ p - 1"
  proof (rule decode_integer_loop_stable)
    show "decode_integer_loop data (2 ^ p - 1) 0 1 \<noteq> Inl QBufferTooShort"
      using assms True that by (auto simp: decode_integer_eq Let_def)
  qed simp
  with True show ?thesis by (simp add: decode_integer_eq nth_append Let_def)
next
  case False
  with assms show ?thesis by (auto simp: decode_integer_def)
qed

lemma incremental_integer:
  assumes "tag_ok p tag"
  shows "incremental (\<lambda>v. v < 2 ^ 62) (\<lambda>v. int_bytes v p tag) (\<lambda>b. decode_integer b p) QBufferTooShort"
  by unfold_locales
    (auto simp: decode_int_bytes [OF assms] decode_integer_stable dest: decode_integer_sound)

text \<open>The string length, the most frequent prefix integer of QPACK.\<close>

interpretation pi7: incremental "\<lambda>v. v < 2 ^ 62" "\<lambda>v. int_bytes v 7 0" "\<lambda>b. decode_integer b 7"
  QBufferTooShort
  by (rule incremental_integer) (simp add: tag_ok_def)

section \<open>Properties of the integer coding\<close>

text \<open>
  Prefix integers survive the wire.  For every prefix length and flags that leave the prefix
  free, a value below \<open>2 ^ 62\<close> is written into any buffer of ten bytes, the vector encoder
  produces the same bytes, the decoder recovers the value and the length from them whatever
  follows, and the decoder asks for more input while any byte is missing.
\<close>

theorem prefix_integer_roundtrip:
  assumes "tag_ok p tag" "v < 2 ^ 62" "10 \<le> length buf"
  shows "\<exists>buf' n. encode_integer buf v p tag = Some (buf', n) \<and> n \<le> 10 \<and>
    encode_integer_to_vec [] v p tag = take n buf' \<and> drop n buf' = drop n buf \<and>
    decode_integer buf' p = Inr (v, n) \<and>
    (\<forall>k < n. decode_integer (take k buf') p = Inl QBufferTooShort)"
proof -
  note pi = incremental_integer [OF assms(1)]
  have p: "0 < p" "p \<le> 8" using assms(1) by (simp_all add: tag_ok_def)
  let ?bs = "int_bytes v p tag"
  have len: "length ?bs \<le> 10"
    using decode_integer_sound [of ?bs p v "length ?bs"] decode_int_bytes [OF assms(1,2), of "[]"]
    by simp
  with assms(3) have enc: "encode_integer buf v p tag = Some (written buf ?bs, length ?bs)"
    by (simp add: encode_integer_written p)
  have "decode_integer (take k (written buf ?bs)) p = Inl QBufferTooShort" if "k < length ?bs" for k
    using incremental.partial_short [OF pi, of v k] assms(2) that by (simp add: written_def)
  with enc len show ?thesis
    using decode_int_bytes [OF assms(1,2)]
    by (simp add: encode_integer_to_vec_append p written_def)
qed

theorem prefix_integer_roundtrip_witness:
  "\<exists>buf' n. encode_integer (replicate 10 7) 1337 5 0x20 = Some (buf', n) \<and>
    decode_integer buf' 5 = Inr (1337, n)"
  using prefix_integer_roundtrip [of 5 "0x20" 1337 "replicate 10 7"] by (auto simp: tag_ok_def)

end
