(* ===== verification/Huffman_Table.thy ===== *)
theory Huffman_Table
  imports Errors
begin

text \<open>
  The code table of \<^verbatim>\<open>src/qpack/huffman.rs\<close> (RFC 7541 Appendix B): for every byte and for EOS
  the length of its code word and the word itself, left-aligned in 32 bits, in the order of the
  source.  The table is written in eight parts.  Read as intervals of 32-bit numbers the code
  words tile the whole range without a gap or an overlap; this one fact, \<open>huffman_unique\<close>, is what
  the correctness of the coding rests on.
\<close>

section \<open>The table\<close>

datatype huffman_sym = HuffmanSym (hs_bits: nat) (hs_code: u32)

definition HUFFMAN_TABLE_0 :: "huffman_sym list" where
  "HUFFMAN_TABLE_0 =
    [HuffmanSym 13 0xffc00000, HuffmanSym 23 0xffffb000, HuffmanSym 28 0xfffffe20,
     HuffmanSym 28 0xfffffe30, HuffmanSym 28 0xfffffe40, HuffmanSym 28 0xfffffe50,
     HuffmanSym 28 0xfffffe60, HuffmanSym 28 0xfffffe70, HuffmanSym 28 0xfffffe80,
     HuffmanSym 24 0xffffea00, HuffmanSym 30 0xfffffff0, HuffmanSym 28 0xfffffe90,
     HuffmanSym 28 0xfffffea0, HuffmanSym 30 0xfffffff4, HuffmanSym 28 0xfffffeb0,
     HuffmanSym 28 0xfffffec0, HuffmanSym 28 0xfffffed0, HuffmanSym 28 0xfffffee0,
     HuffmanSym 28 0xfffffef0, HuffmanSym 28 0xffffff00, HuffmanSym 28 0xffffff10,
     HuffmanSym 28 0xffffff20, HuffmanSym 30 0xfffffff8, HuffmanSym 28 0xffffff30,
     HuffmanSym 28 0xffffff40, HuffmanSym 28 0xffffff50, HuffmanSym 28 0xffffff60,
     HuffmanSym 28 0xffffff70, HuffmanSym 28 0xffffff80, HuffmanSym 28 0xffffff90,
     HuffmanSym 28 0xffffffa0, HuffmanSym 28 0xffffffb0]"

definition HUFFMAN_TABLE_1 :: "huffman_sym list" where
  "HUFFMAN_TABLE_1 =
    [HuffmanSym 6 0x50000000, HuffmanSym 10 0xfe000000, HuffmanSym 10 0xfe400000,
     HuffmanSym 12 0xffa00000, HuffmanSym 13 0xffc80000, HuffmanSym 6 0x54000000,
     HuffmanSym 8 0xf8000000, HuffmanSym 11 0xff400000, HuffmanSym 10 0xfe800000,
     HuffmanSym 10 0xfec00000, HuffmanSym 8 0xf9000000, HuffmanSym 11 0xff600000,
     HuffmanSym 8 0xfa000000, HuffmanSym 6 0x58000000, HuffmanSym 6 0x5c000000,
     HuffmanSym 6 0x60000000, HuffmanSym 5 0x00000000, HuffmanSym 5 0x08000000,
     HuffmanSym 5 0x10000000, HuffmanSym 6 0x64000000, HuffmanSym 6 0x68000000,
     HuffmanSym 6 0x6c000000, HuffmanSym 6 0x70000000, HuffmanSym 6 0x74000000,
     HuffmanSym 6 0x78000000, HuffmanSym 6 0x7c000000, HuffmanSym 7 0xb8000000,
     HuffmanSym 8 0xfb000000, HuffmanSym 15 0xfff80000, HuffmanSym 6 0x80000000,
     HuffmanSym 12 0xffb00000, HuffmanSym 10 0xff000000]"

definition HUFFMAN_TABLE_2 :: "huffman_sym list" where
  "HUFFMAN_TABLE_2 =
    [HuffmanSym 13 0xffd00000, HuffmanSym 6 0x84000000, HuffmanSym 7 0xba000000,
     HuffmanSym 7 0xbc000000, HuffmanSym 7 0xbe000000, HuffmanSym 7 0xc0000000,
     HuffmanSym 7 0xc2000000, HuffmanSym 7 0xc4000000, HuffmanSym 7 0xc6000000,
     HuffmanSym 7 0xc8000000, HuffmanSym 7 0xca000000, HuffmanSym 7 0xcc000000,
     HuffmanSym 7 0xce000000, HuffmanSym 7 0xd0000000, HuffmanSym 7 0xd2000000,
     HuffmanSym 7 0xd4000000, HuffmanSym 7 0xd6000000, HuffmanSym 7 0xd8000000,
     HuffmanSym 7 0xda000000, HuffmanSym 7 0xdc000000, HuffmanSym 7 0xde000000,
     HuffmanSym 7 0xe0000000, HuffmanSym 7 0xe2000000, HuffmanSym 7 0xe4000000,
     HuffmanSym 8 0xfc000000, HuffmanSym 7 0xe6000000, HuffmanSym 8 0xfd000000,
     HuffmanSym 13 0xffd80000, HuffmanSym 19 0xfffe0000, HuffmanSym 13 0xffe00000,
     HuffmanSym 14 0xfff00000, HuffmanSym 6 0x88000000]"

definition HUFFMAN_TABLE_3 :: "huffman_sym list" where
  "HUFFMAN_TABLE_3 =
    [HuffmanSym 15 0xfffa0000, HuffmanSym 5 0x18000000, HuffmanSym 6 0x8c000000,
     HuffmanSym 5 0x20000000, HuffmanSym 6 0x90000000, HuffmanSym 5 0x28000000,
     HuffmanSym 6 0x94000000, HuffmanSym 6 0x98000000, HuffmanSym 6 0x9c000000,
     HuffmanSym 5 0x30000000, HuffmanSym 7 0xe8000000, HuffmanSym 7 0xea000000,
     HuffmanSym 6 0xa0000000, HuffmanSym 6 0xa4000000, HuffmanSym 6 0xa8000000,
     HuffmanSym 5 0x38000000, HuffmanSym 6 0xac000000, HuffmanSym 7 0xec000000,
     HuffmanSym 6 0xb0000000, HuffmanSym 5 0x40000000, HuffmanSym 5 0x48000000,
     HuffmanSym 6 0xb4000000, HuffmanSym 7 0xee000000, HuffmanSym 7 0xf0000000,
     HuffmanSym 7 0xf2000000, HuffmanSym 7 0xf4000000, HuffmanSym 7 0xf6000000,
     HuffmanSym 15 0xfffc0000, HuffmanSym 11 0xff800000, HuffmanSym 14 0xfff40000,
     HuffmanSym 13 0xffe80000, HuffmanSym 28 0xffffffc0]"

definition HUFFMAN_TABLE_4 :: "huffman_sym list" where
  "HUFFMAN_TABLE_4 =
    [HuffmanSym 20 0xfffe6000, HuffmanSym 22 0xffff4800, HuffmanSym 20 0xfffe7000,
     HuffmanSym 20 0xfffe8000, HuffmanSym 22 0xffff4c00, HuffmanSym 22 0xffff5000,
     HuffmanSym 22 0xffff5400, HuffmanSym 23 0xffffb200, HuffmanSym 22 0xffff5800,
     HuffmanSym 23 0xffffb400, HuffmanSym 23 0xffffb600, HuffmanSym 23 0xffffb800,
     HuffmanSym 23 0xffffba00, HuffmanSym 23 0xffffbc00, HuffmanSym 24 0xffffeb00,
     HuffmanSym 23 0xffffbe00, HuffmanSym 24 0xffffec00, HuffmanSym 24 0xffffed00,
     HuffmanSym 22 0xffff5c00, HuffmanSym 23 0xffffc000, HuffmanSym 24 0xffffee00,
     HuffmanSym 23 0xffffc200, HuffmanSym 23 0xffffc400, HuffmanSym 23 0xffffc600,
     HuffmanSym 23 0xffffc800, HuffmanSym 21 0xfffee000, HuffmanSym 22 0xffff6000,
     HuffmanSym 23 0xffffca00, HuffmanSym 22 0xffff6400, HuffmanSym 23 0xffffcc00,
     HuffmanSym 23 0xffffce00, HuffmanSym 24 0xffffef00]"

definition HUFFMAN_TABLE_5 :: "huffman_sym list" where
  "HUFFMAN_TABLE_5 =
    [HuffmanSym 22 0xffff6800, HuffmanSym 21 0xfffee800, HuffmanSym 20 0xfffe9000,
     HuffmanSym 22 0xffff6c00, HuffmanSym 22 0xffff7000, HuffmanSym 23 0xffffd000,
     HuffmanSym 23 0xffffd200, HuffmanSym 21 0xfffef000, HuffmanSym 23 0xffffd400,
     HuffmanSym 22 0xffff7400, HuffmanSym 22 0xffff7800, HuffmanSym 24 0xfffff000,
     HuffmanSym 21 0xfffef800, HuffmanSym 22 0xffff7c00, HuffmanSym 23 0xffffd600,
     HuffmanSym 23 0xffffd800, HuffmanSym 21 0xffff0000, HuffmanSym 21 0xffff0800,
     HuffmanSym 22 0xffff8000, HuffmanSym 21 0xffff1000, HuffmanSym 23 0xffffda00,
     HuffmanSym 22 0xffff8400, HuffmanSym 23 0xffffdc00, HuffmanSym 23 0xffffde00,
     HuffmanSym 20 0xfffea000, HuffmanSym 22 0xffff8800, HuffmanSym 22 0xffff8c00,
     HuffmanSym 22 0xffff9000, HuffmanSym 23 0xffffe000, HuffmanSym 22 0xffff9400,
     HuffmanSym 22 0xffff9800, HuffmanSym 23 0xffffe200]"

definition HUFFMAN_TABLE_6 :: "huffman_sym list" where
  "HUFFMAN_TABLE_6 =
    [HuffmanSym 26 0xfffff800, HuffmanSym 26 0xfffff840, HuffmanSym 20 0xfffeb000,
     HuffmanSym 19 0xfffe2000, HuffmanSym 22 0xffff9c00, HuffmanSym 23 0xffffe400,
     HuffmanSym 22 0xffffa000, HuffmanSym 25 0xfffff600, HuffmanSym 26 0xfffff880,
     HuffmanSym 26 0xfffff8c0, HuffmanSym 26 0xfffff900, HuffmanSym 27 0xfffffbc0,
     HuffmanSym 27 0xfffffbe0, HuffmanSym 26 0xfffff940, HuffmanSym 24 0xfffff100,
     HuffmanSym 25 0xfffff680, HuffmanSym 19 0xfffe4000, HuffmanSym 21 0xffff1800,
     HuffmanSym 26 0xfffff980, HuffmanSym 27 0xfffffc00, HuffmanSym 27 0xfffffc20,
     HuffmanSym 26 0xfffff9c0, HuffmanSym 27 0xfffffc40, HuffmanSym 24 0xfffff200,
     HuffmanSym 21 0xffff2000, HuffmanSym 21 0xffff2800, HuffmanSym 26 0xfffffa00,
     HuffmanSym 26 0xfffffa40, HuffmanSym 28 0xffffffd0, HuffmanSym 27 0xfffffc60,
     HuffmanSym 27 0xfffffc80, HuffmanSym 27 0xfffffca0]"

definition HUFFMAN_TABLE_7 :: "huffman_sym list" where
  "HUFFMAN_TABLE_7 =
    [HuffmanSym 20 0xfffec000, HuffmanSym 24 0xfffff300, HuffmanSym 20 0xfffed000,
     HuffmanSym 21 0xffff3000, HuffmanSym 22 0xffffa400, HuffmanSym 21 0xffff3800,
     HuffmanSym 21 0xffff4000, HuffmanSym 23 0xffffe600, HuffmanSym 22 0xffffa800,
     HuffmanSym 22 0xffffac00, HuffmanSym 25 0xfffff700, HuffmanSym 25 0xfffff780,
     HuffmanSym 24 0xfffff400, HuffmanSym 24 0xfffff500, HuffmanSym 26 0xfffffa80,
     HuffmanSym 23 0xffffe800, HuffmanSym 26 0xfffffac0, HuffmanSym 27 0xfffffcc0,
     HuffmanSym 26 0xfffffb00, HuffmanSym 26 0xfffffb40, HuffmanSym 27 0xfffffce0,
     HuffmanSym 27 0xfffffd00, HuffmanSym 27 0xfffffd20, HuffmanSym 27 0xfffffd40,
     HuffmanSym 27 0xfffffd60, HuffmanSym 28 0xffffffe0, HuffmanSym 27 0xfffffd80,
     HuffmanSym 27 0xfffffda0, HuffmanSym 27 0xfffffdc0, HuffmanSym 27 0xfffffde0,
     HuffmanSym 27 0xfffffe00, HuffmanSym 26 0xfffffb80, HuffmanSym 30 0xfffffffc]"

definition HUFFMAN_TABLE :: "huffman_sym list" where
  "HUFFMAN_TABLE =
    HUFFMAN_TABLE_0 @ HUFFMAN_TABLE_1 @ HUFFMAN_TABLE_2 @ HUFFMAN_TABLE_3 @
    HUFFMAN_TABLE_4 @ HUFFMAN_TABLE_5 @ HUFFMAN_TABLE_6 @ HUFFMAN_TABLE_7"

section \<open>Reading the table\<close>

lemma length_table_0 [simp]: "length HUFFMAN_TABLE_0 = 32"
  by (simp add: HUFFMAN_TABLE_0_def)

lemma length_table_1 [simp]: "length HUFFMAN_TABLE_1 = 32"
  by (simp add: HUFFMAN_TABLE_1_def)

lemma length_table_2 [simp]: "length HUFFMAN_TABLE_2 = 32"
  by (simp add: HUFFMAN_TABLE_2_def)

lemma length_table_3 [simp]: "length HUFFMAN_TABLE_3 = 32"
  by (simp add: HUFFMAN_TABLE_3_def)

lemma length_table_4 [simp]: "length HUFFMAN_TABLE_4 = 32"
  by (simp add: HUFFMAN_TABLE_4_def)

lemma length_table_5 [simp]: "length HUFFMAN_TABLE_5 = 32"
  by (simp add: HUFFMAN_TABLE_5_def)

lemma length_table_6 [simp]: "length HUFFMAN_TABLE_6 = 32"
  by (simp add: HUFFMAN_TABLE_6_def)

lemma length_table_7 [simp]: "length HUFFMAN_TABLE_7 = 33"
  by (simp add: HUFFMAN_TABLE_7_def)

lemma length_HUFFMAN_TABLE [simp]: "length HUFFMAN_TABLE = 257"
  by (simp add: HUFFMAN_TABLE_def)

named_theorems huffman_nth \<open>the entries of the code table\<close>

lemma table_nth_0 [huffman_nth]:
  "HUFFMAN_TABLE ! 0 = HuffmanSym 13 0xffc00000"
  "HUFFMAN_TABLE ! Suc 0 = HuffmanSym 23 0xffffb000"
  "HUFFMAN_TABLE ! 2 = HuffmanSym 28 0xfffffe20"
  "HUFFMAN_TABLE ! 3 = HuffmanSym 28 0xfffffe30"
  "HUFFMAN_TABLE ! 4 = HuffmanSym 28 0xfffffe40"
  "HUFFMAN_TABLE ! 5 = HuffmanSym 28 0xfffffe50"
  "HUFFMAN_TABLE ! 6 = HuffmanSym 28 0xfffffe60"
  "HUFFMAN_TABLE ! 7 = HuffmanSym 28 0xfffffe70"
  "HUFFMAN_TABLE ! 8 = HuffmanSym 28 0xfffffe80"
  "HUFFMAN_TABLE ! 9 = HuffmanSym 24 0xffffea00"
  "HUFFMAN_TABLE ! 10 = HuffmanSym 30 0xfffffff0"
  "HUFFMAN_TABLE ! 11 = HuffmanSym 28 0xfffffe90"
  "HUFFMAN_TABLE ! 12 = HuffmanSym 28 0xfffffea0"
  "HUFFMAN_TABLE ! 13 = HuffmanSym 30 0xfffffff4"
  "HUFFMAN_TABLE ! 14 = HuffmanSym 28 0xfffffeb0"
  "HUFFMAN_TABLE ! 15 = HuffmanSym 28 0xfffffec0"
  "HUFFMAN_TABLE ! 16 = HuffmanSym 28 0xfffffed0"
  "HUFFMAN_TABLE ! 17 = HuffmanSym 28 0xfffffee0"
  "HUFFMAN_TABLE ! 18 = HuffmanSym 28 0xfffffef0"
  "HUFFMAN_TABLE ! 19 = HuffmanSym 28 0xffffff00"
  "HUFFMAN_TABLE ! 20 = HuffmanSym 28 0xffffff10"
  "HUFFMAN_TABLE ! 21 = HuffmanSym 28 0xffffff20"
  "HUFFMAN_TABLE ! 22 = HuffmanSym 30 0xfffffff8"
  "HUFFMAN_TABLE ! 23 = HuffmanSym 28 0xffffff30"
  "HUFFMAN_TABLE ! 24 = HuffmanSym 28 0xffffff40"
  "HUFFMAN_TABLE ! 25 = HuffmanSym 28 0xffffff50"
  "HUFFMAN_TABLE ! 26 = HuffmanSym 28 0xffffff60"
  "HUFFMAN_TABLE ! 27 = HuffmanSym 28 0xffffff70"
  "HUFFMAN_TABLE ! 28 = HuffmanSym 28 0xffffff80"
  "HUFFMAN_TABLE ! 29 = HuffmanSym 28 0xffffff90"
  "HUFFMAN_TABLE ! 30 = HuffmanSym 28 0xffffffa0"
  "HUFFMAN_TABLE ! 31 = HuffmanSym 28 0xffffffb0"
  by (simp_all add: HUFFMAN_TABLE_def nth_append) (simp_all add: HUFFMAN_TABLE_0_def)

lemma table_nth_1 [huffman_nth]:
  "HUFFMAN_TABLE ! 32 = HuffmanSym 6 0x50000000"
  "HUFFMAN_TABLE ! 33 = HuffmanSym 10 0xfe000000"
  "HUFFMAN_TABLE ! 34 = HuffmanSym 10 0xfe400000"
  "HUFFMAN_TABLE ! 35 = HuffmanSym 12 0xffa00000"
  "HUFFMAN_TABLE ! 36 = HuffmanSym 13 0xffc80000"
  "HUFFMAN_TABLE ! 37 = HuffmanSym 6 0x54000000"
  "HUFFMAN_TABLE ! 38 = HuffmanSym 8 0xf8000000"
  "HUFFMAN_TABLE ! 39 = HuffmanSym 11 0xff400000"
  "HUFFMAN_TABLE ! 40 = HuffmanSym 10 0xfe800000"
  "HUFFMAN_TABLE ! 41 = HuffmanSym 10 0xfec00000"
  "HUFFMAN_TABLE ! 42 = HuffmanSym 8 0xf9000000"
  "HUFFMAN_TABLE ! 43 = HuffmanSym 11 0xff600000"
  "HUFFMAN_TABLE ! 44 = HuffmanSym 8 0xfa000000"
  "HUFFMAN_TABLE ! 45 = HuffmanSym 6 0x58000000"
  "HUFFMAN_TABLE ! 46 = HuffmanSym 6 0x5c000000"
  "HUFFMAN_TABLE ! 47 = HuffmanSym 6 0x60000000"
  "HUFFMAN_TABLE ! 48 = HuffmanSym 5 0x00000000"
  "HUFFMAN_TABLE ! 49 = HuffmanSym 5 0x08000000"
  "HUFFMAN_TABLE ! 50 = HuffmanSym 5 0x10000000"
  "HUFFMAN_TABLE ! 51 = HuffmanSym 6 0x64000000"
  "HUFFMAN_TABLE ! 52 = HuffmanSym 6 0x68000000"
  "HUFFMAN_TABLE ! 53 = HuffmanSym 6 0x6c000000"
  "HUFFMAN_TABLE ! 54 = HuffmanSym 6 0x70000000"
  "HUFFMAN_TABLE ! 55 = HuffmanSym 6 0x74000000"
  "HUFFMAN_TABLE ! 56 = HuffmanSym 6 0x78000000"
  "HUFFMAN_TABLE ! 57 = HuffmanSym 6 0x7c000000"
  "HUFFMAN_TABLE ! 58 = HuffmanSym 7 0xb8000000"
  "HUFFMAN_TABLE ! 59 = HuffmanSym 8 0xfb000000"
  "HUFFMAN_TABLE ! 60 = HuffmanSym 15 0xfff80000"
  "HUFFMAN_TABLE ! 61 = HuffmanSym 6 0x80000000"
  "HUFFMAN_TABLE ! 62 = HuffmanSym 12 0xffb00000"
  "HUFFMAN_TABLE ! 63 = HuffmanSym 10 0xff000000"
  by (simp_all add: HUFFMAN_TABLE_def nth_append) (simp_all add: HUFFMAN_TABLE_1_def)

lemma table_nth_2 [huffman_nth]:
  "HUFFMAN_TABLE ! 64 = HuffmanSym 13 0xffd00000"
  "HUFFMAN_TABLE ! 65 = HuffmanSym 6 0x84000000"
  "HUFFMAN_TABLE ! 66 = HuffmanSym 7 0xba000000"
  "HUFFMAN_TABLE ! 67 = HuffmanSym 7 0xbc000000"
  "HUFFMAN_TABLE ! 68 = HuffmanSym 7 0xbe000000"
  "HUFFMAN_TABLE ! 69 = HuffmanSym 7 0xc0000000"
  "HUFFMAN_TABLE ! 70 = HuffmanSym 7 0xc2000000"
  "HUFFMAN_TABLE ! 71 = HuffmanSym 7 0xc4000000"
  "HUFFMAN_TABLE ! 72 = HuffmanSym 7 0xc6000000"
  "HUFFMAN_TABLE ! 73 = HuffmanSym 7 0xc8000000"
  "HUFFMAN_TABLE ! 74 = HuffmanSym 7 0xca000000"
  "HUFFMAN_TABLE ! 75 = HuffmanSym 7 0xcc000000"
  "HUFFMAN_TABLE ! 76 = HuffmanSym 7 0xce000000"
  "HUFFMAN_TABLE ! 77 = HuffmanSym 7 0xd0000000"
  "HUFFMAN_TABLE ! 78 = HuffmanSym 7 0xd2000000"
  "HUFFMAN_TABLE ! 79 = HuffmanSym 7 0xd4000000"
  "HUFFMAN_TABLE ! 80 = HuffmanSym 7 0xd6000000"
  "HUFFMAN_TABLE ! 81 = HuffmanSym 7 0xd8000000"
  "HUFFMAN_TABLE ! 82 = HuffmanSym 7 0xda000000"
  "HUFFMAN_TABLE ! 83 = HuffmanSym 7 0xdc000000"
  "HUFFMAN_TABLE ! 84 = HuffmanSym 7 0xde000000"
  "HUFFMAN_TABLE ! 85 = HuffmanSym 7 0xe0000000"
  "HUFFMAN_TABLE ! 86 = HuffmanSym 7 0xe2000000"
  "HUFFMAN_TABLE ! 87 = HuffmanSym 7 0xe4000000"
  "HUFFMAN_TABLE ! 88 = HuffmanSym 8 0xfc000000"
  "HUFFMAN_TABLE ! 89 = HuffmanSym 7 0xe6000000"
  "HUFFMAN_TABLE ! 90 = HuffmanSym 8 0xfd000000"
  "HUFFMAN_TABLE ! 91 = HuffmanSym 13 0xffd80000"
  "HUFFMAN_TABLE ! 92 = HuffmanSym 19 0xfffe0000"
  "HUFFMAN_TABLE ! 93 = HuffmanSym 13 0xffe00000"
  "HUFFMAN_TABLE ! 94 = HuffmanSym 14 0xfff00000"
  "HUFFMAN_TABLE ! 95 = HuffmanSym 6 0x88000000"
  by (simp_all add: HUFFMAN_TABLE_def nth_append) (simp_all add: HUFFMAN_TABLE_2_def)

lemma table_nth_3 [huffman_nth]:
  "HUFFMAN_TABLE ! 96 = HuffmanSym 15 0xfffa0000"
  "HUFFMAN_TABLE ! 97 = HuffmanSym 5 0x18000000"
  "HUFFMAN_TABLE ! 98 = HuffmanSym 6 0x8c000000"
  "HUFFMAN_TABLE ! 99 = HuffmanSym 5 0x20000000"
  "HUFFMAN_TABLE ! 100 = HuffmanSym 6 0x90000000"
  "HUFFMAN_TABLE ! 101 = HuffmanSym 5 0x28000000"
  "HUFFMAN_TABLE ! 102 = HuffmanSym 6 0x94000000"
  "HUFFMAN_TABLE ! 103 = HuffmanSym 6 0x98000000"
  "HUFFMAN_TABLE ! 104 = HuffmanSym 6 0x9c000000"
  "HUFFMAN_TABLE ! 105 = HuffmanSym 5 0x30000000"
  "HUFFMAN_TABLE ! 106 = HuffmanSym 7 0xe8000000"
  "HUFFMAN_TABLE ! 107 = HuffmanSym 7 0xea000000"
  "HUFFMAN_TABLE ! 108 = HuffmanSym 6 0xa0000000"
  "HUFFMAN_TABLE ! 109 = HuffmanSym 6 0xa4000000"
  "HUFFMAN_TABLE ! 110 = HuffmanSym 6 0xa8000000"
  "HUFFMAN_TABLE ! 111 = HuffmanSym 5 0x38000000"
  "HUFFMAN_TABLE ! 112 = HuffmanSym 6 0xac000000"
  "HUFFMAN_TABLE ! 113 = HuffmanSym 7 0xec000000"
  "HUFFMAN_TABLE ! 114 = HuffmanSym 6 0xb0000000"
  "HUFFMAN_TABLE ! 115 = HuffmanSym 5 0x40000000"
  "HUFFMAN_TABLE ! 116 = HuffmanSym 5 0x48000000"
  "HUFFMAN_TABLE ! 117 = HuffmanSym 6 0xb4000000"
  "HUFFMAN_TABLE ! 118 = HuffmanSym 7 0xee000000"
  "HUFFMAN_TABLE ! 119 = HuffmanSym 7 0xf0000000"
  "HUFFMAN_TABLE ! 120 = HuffmanSym 7 0xf2000000"
  "HUFFMAN_TABLE ! 121 = HuffmanSym 7 0xf4000000"
  "HUFFMAN_TABLE ! 122 = HuffmanSym 7 0xf6000000"
  "HUFFMAN_TABLE ! 123 = HuffmanSym 15 0xfffc0000"
  "HUFFMAN_TABLE ! 124 = HuffmanSym 11 0xff800000"
  "HUFFMAN_TABLE ! 125 = HuffmanSym 14 0xfff40000"
  "HUFFMAN_TABLE ! 126 = HuffmanSym 13 0xffe80000"
  "HUFFMAN_TABLE ! 127 = HuffmanSym 28 0xffffffc0"
  by (simp_all add: HUFFMAN_TABLE_def nth_append) (simp_all add: HUFFMAN_TABLE_3_def)

lemma table_nth_4 [huffman_nth]:
  "HUFFMAN_TABLE ! 128 = HuffmanSym 20 0xfffe6000"
  "HUFFMAN_TABLE ! 129 = HuffmanSym 22 0xffff4800"
  "HUFFMAN_TABLE ! 130 = HuffmanSym 20 0xfffe7000"
  "HUFFMAN_TABLE ! 131 = HuffmanSym 20 0xfffe8000"
  "HUFFMAN_TABLE ! 132 = HuffmanSym 22 0xffff4c00"
  "HUFFMAN_TABLE ! 133 = HuffmanSym 22 0xffff5000"
  "HUFFMAN_TABLE ! 134 = HuffmanSym 22 0xffff5400"
  "HUFFMAN_TABLE ! 135 = HuffmanSym 23 0xffffb200"
  "HUFFMAN_TABLE ! 136 = HuffmanSym 22 0xffff5800"
  "HUFFMAN_TABLE ! 137 = HuffmanSym 23 0xffffb400"
  "HUFFMAN_TABLE ! 138 = HuffmanSym 23 0xffffb600"
  "HUFFMAN_TABLE ! 139 = HuffmanSym 23 0xffffb800"
  "HUFFMAN_TABLE ! 140 = HuffmanSym 23 0xffffba00"
  "HUFFMAN_TABLE ! 141 = HuffmanSym 23 0xffffbc00"
  "HUFFMAN_TABLE ! 142 = HuffmanSym 24 0xffffeb00"
  "HUFFMAN_TABLE ! 143 = HuffmanSym 23 0xffffbe00"
  "HUFFMAN_TABLE ! 144 = HuffmanSym 24 0xffffec00"
  "HUFFMAN_TABLE ! 145 = HuffmanSym 24 0xffffed00"
  "HUFFMAN_TABLE ! 146 = HuffmanSym 22 0xffff5c00"
  "HUFFMAN_TABLE ! 147 = HuffmanSym 23 0xffffc000"
  "HUFFMAN_TABLE ! 148 = HuffmanSym 24 0xffffee00"
  "HUFFMAN_TABLE ! 149 = HuffmanSym 23 0xffffc200"
  "HUFFMAN_TABLE ! 150 = HuffmanSym 23 0xffffc400"
  "HUFFMAN_TABLE ! 151 = HuffmanSym 23 0xffffc600"
  "HUFFMAN_TABLE ! 152 = HuffmanSym 23 0xffffc800"
  "HUFFMAN_TABLE ! 153 = HuffmanSym 21 0xfffee000"
  "HUFFMAN_TABLE ! 154 = HuffmanSym 22 0xffff6000"
  "HUFFMAN_TABLE ! 155 = HuffmanSym 23 0xffffca00"
  "HUFFMAN_TABLE ! 156 = HuffmanSym 22 0xffff6400"
  "HUFFMAN_TABLE ! 157 = HuffmanSym 23 0xffffcc00"
  "HUFFMAN_TABLE ! 158 = HuffmanSym 23 0xffffce00"
  "HUFFMAN_TABLE ! 159 = HuffmanSym 24 0xffffef00"
  by (simp_all add: HUFFMAN_TABLE_def nth_append) (simp_all add: HUFFMAN_TABLE_4_def)

lemma table_nth_5 [huffman_nth]:
  "HUFFMAN_TABLE ! 160 = HuffmanSym 22 0xffff6800"
  "HUFFMAN_TABLE ! 161 = HuffmanSym 21 0xfffee800"
  "HUFFMAN_TABLE ! 162 = HuffmanSym 20 0xfffe9000"
  "HUFFMAN_TABLE ! 163 = HuffmanSym 22 0xffff6c00"
  "HUFFMAN_TABLE ! 164 = HuffmanSym 22 0xffff7000"
  "HUFFMAN_TABLE ! 165 = HuffmanSym 23 0xffffd000"
  "HUFFMAN_TABLE ! 166 = HuffmanSym 23 0xffffd200"
  "HUFFMAN_TABLE ! 167 = HuffmanSym 21 0xfffef000"
  "HUFFMAN_TABLE ! 168 = HuffmanSym 23 0xffffd400"
  "HUFFMAN_TABLE ! 169 = HuffmanSym 22 0xffff7400"
  "HUFFMAN_TABLE ! 170 = HuffmanSym 22 0xffff7800"
  "HUFFMAN_TABLE ! 171 = HuffmanSym 24 0xfffff000"
  "HUFFMAN_TABLE ! 172 = HuffmanSym 21 0xfffef800"
  "HUFFMAN_TABLE ! 173 = HuffmanSym 22 0xffff7c00"
  "HUFFMAN_TABLE ! 174 = HuffmanSym 23 0xffffd600"
  "HUFFMAN_TABLE ! 175 = HuffmanSym 23 0xffffd800"
  "HUFFMAN_TABLE ! 176 = HuffmanSym 21 0xffff0000"
  "HUFFMAN_TABLE ! 177 = HuffmanSym 21 0xffff0800"
  "HUFFMAN_TABLE ! 178 = HuffmanSym 22 0xffff8000"
  "HUFFMAN_TABLE ! 179 = HuffmanSym 21 0xffff1000"
  "HUFFMAN_TABLE ! 180 = HuffmanSym 23 0xffffda00"
  "HUFFMAN_TABLE ! 181 = HuffmanSym 22 0xffff8400"
  "HUFFMAN_TABLE ! 182 = HuffmanSym 23 0xffffdc00"
  "HUFFMAN_TABLE ! 183 = HuffmanSym 23 0xffffde00"
  "HUFFMAN_TABLE ! 184 = HuffmanSym 20 0xfffea000"
  "HUFFMAN_TABLE ! 185 = HuffmanSym 22 0xffff8800"
  "HUFFMAN_TABLE ! 186 = HuffmanSym 22 0xffff8c00"
  "HUFFMAN_TABLE ! 187 = HuffmanSym 22 0xffff9000"
  "HUFFMAN_TABLE ! 188 = HuffmanSym 23 0xffffe000"
  "HUFFMAN_TABLE ! 189 = HuffmanSym 22 0xffff9400"
  "HUFFMAN_TABLE ! 190 = HuffmanSym 22 0xffff9800"
  "HUFFMAN_TABLE ! 191 = HuffmanSym 23 0xffffe200"
  by (simp_all add: HUFFMAN_TABLE_def nth_append) (simp_all add: HUFFMAN_TABLE_5_def)

lemma table_nth_6 [huffman_nth]:
  "HUFFMAN_TABLE ! 192 = HuffmanSym 26 0xfffff800"
  "HUFFMAN_TABLE ! 193 = HuffmanSym 26 0xfffff840"
  "HUFFMAN_TABLE ! 194 = HuffmanSym 20 0xfffeb000"
  "HUFFMAN_TABLE ! 195 = HuffmanSym 19 0xfffe2000"
  "HUFFMAN_TABLE ! 196 = HuffmanSym 22 0xffff9c00"
  "HUFFMAN_TABLE ! 197 = HuffmanSym 23 0xffffe400"
  "HUFFMAN_TABLE ! 198 = HuffmanSym 22 0xffffa000"
  "HUFFMAN_TABLE ! 199 = HuffmanSym 25 0xfffff600"
  "HUFFMAN_TABLE ! 200 = HuffmanSym 26 0xfffff880"
  "HUFFMAN_TABLE ! 201 = HuffmanSym 26 0xfffff8c0"
  "HUFFMAN_TABLE ! 202 = HuffmanSym 26 0xfffff900"
  "HUFFMAN_TABLE ! 203 = HuffmanSym 27 0xfffffbc0"
  "HUFFMAN_TABLE ! 204 = HuffmanSym 27 0xfffffbe0"
  "HUFFMAN_TABLE ! 205 = HuffmanSym 26 0xfffff940"
  "HUFFMAN_TABLE ! 206 = HuffmanSym 24 0xfffff100"
  "HUFFMAN_TABLE ! 207 = HuffmanSym 25 0xfffff680"
  "HUFFMAN_TABLE ! 208 = HuffmanSym 19 0xfffe4000"
  "HUFFMAN_TABLE ! 209 = HuffmanSym 21 0xffff1800"
  "HUFFMAN_TABLE ! 210 = HuffmanSym 26 0xfffff980"
  "HUFFMAN_TABLE ! 211 = HuffmanSym 27 0xfffffc00"
  "HUFFMAN_TABLE ! 212 = HuffmanSym 27 0xfffffc20"
  "HUFFMAN_TABLE ! 213 = HuffmanSym 26 0xfffff9c0"
  "HUFFMAN_TABLE ! 214 = HuffmanSym 27 0xfffffc40"
  "HUFFMAN_TABLE ! 215 = HuffmanSym 24 0xfffff200"
  "HUFFMAN_TABLE ! 216 = HuffmanSym 21 0xffff2000"
  "HUFFMAN_TABLE ! 217 = HuffmanSym 21 0xffff2800"
  "HUFFMAN_TABLE ! 218 = HuffmanSym 26 0xfffffa00"
  "HUFFMAN_TABLE ! 219 = HuffmanSym 26 0xfffffa40"
  "HUFFMAN_TABLE ! 220 = HuffmanSym 28 0xffffffd0"
  "HUFFMAN_TABLE ! 221 = HuffmanSym 27 0xfffffc60"
  "HUFFMAN_TABLE ! 222 = HuffmanSym 27 0xfffffc80"
  "HUFFMAN_TABLE ! 223 = HuffmanSym 27 0xfffffca0"
  by (simp_all add: HUFFMAN_TABLE_def nth_append) (simp_all add: HUFFMAN_TABLE_6_def)

lemma table_nth_7 [huffman_nth]:
  "HUFFMAN_TABLE ! 224 = HuffmanSym 20 0xfffec000"
  "HUFFMAN_TABLE ! 225 = HuffmanSym 24 0xfffff300"
  "HUFFMAN_TABLE ! 226 = HuffmanSym 20 0xfffed000"
  "HUFFMAN_TABLE ! 227 = HuffmanSym 21 0xffff3000"
  "HUFFMAN_TABLE ! 228 = HuffmanSym 22 0xffffa400"
  "HUFFMAN_TABLE ! 229 = HuffmanSym 21 0xffff3800"
  "HUFFMAN_TABLE ! 230 = HuffmanSym 21 0xffff4000"
  "HUFFMAN_TABLE ! 231 = HuffmanSym 23 0xffffe600"
  "HUFFMAN_TABLE ! 232 = HuffmanSym 22 0xffffa800"
  "HUFFMAN_TABLE ! 233 = HuffmanSym 22 0xffffac00"
  "HUFFMAN_TABLE ! 234 = HuffmanSym 25 0xfffff700"
  "HUFFMAN_TABLE ! 235 = HuffmanSym 25 0xfffff780"
  "HUFFMAN_TABLE ! 236 = HuffmanSym 24 0xfffff400"
  "HUFFMAN_TABLE ! 237 = HuffmanSym 24 0xfffff500"
  "HUFFMAN_TABLE ! 238 = HuffmanSym 26 0xfffffa80"
  "HUFFMAN_TABLE ! 239 = HuffmanSym 23 0xffffe800"
  "HUFFMAN_TABLE ! 240 = HuffmanSym 26 0xfffffac0"
  "HUFFMAN_TABLE ! 241 = HuffmanSym 27 0xfffffcc0"
  "HUFFMAN_TABLE ! 242 = HuffmanSym 26 0xfffffb00"
  "HUFFMAN_TABLE ! 243 = HuffmanSym 26 0xfffffb40"
  "HUFFMAN_TABLE ! 244 = HuffmanSym 27 0xfffffce0"
  "HUFFMAN_TABLE ! 245 = HuffmanSym 27 0xfffffd00"
  "HUFFMAN_TABLE ! 246 = HuffmanSym 27 0xfffffd20"
  "HUFFMAN_TABLE ! 247 = HuffmanSym 27 0xfffffd40"
  "HUFFMAN_TABLE ! 248 = HuffmanSym 27 0xfffffd60"
  "HUFFMAN_TABLE ! 249 = HuffmanSym 28 0xffffffe0"
  "HUFFMAN_TABLE ! 250 = HuffmanSym 27 0xfffffd80"
  "HUFFMAN_TABLE ! 251 = HuffmanSym 27 0xfffffda0"
  "HUFFMAN_TABLE ! 252 = HuffmanSym 27 0xfffffdc0"
  "HUFFMAN_TABLE ! 253 = HuffmanSym 27 0xfffffde0"
  "HUFFMAN_TABLE ! 254 = HuffmanSym 27 0xfffffe00"
  "HUFFMAN_TABLE ! 255 = HuffmanSym 26 0xfffffb80"
  "HUFFMAN_TABLE ! 256 = HuffmanSym 30 0xfffffffc"
  by (simp_all add: HUFFMAN_TABLE_def nth_append) (simp_all add: HUFFMAN_TABLE_7_def)

section \<open>The code words tile the range\<close>

text \<open>The symbols in the order of their code words.\<close>

definition code_order :: "nat list" where
  "code_order =
    [48, 49, 50, 97, 99, 101, 105, 111, 115, 116, 32, 37, 45, 46, 47, 51, 52, 53, 54, 55, 56,
     57, 61, 65, 95, 98, 100, 102, 103, 104, 108, 109, 110, 112, 114, 117, 58, 66, 67, 68, 69,
     70, 71, 72, 73, 74, 75, 76, 77, 78, 79, 80, 81, 82, 83, 84, 85, 86, 87, 89, 106, 107, 113,
     118, 119, 120, 121, 122, 38, 42, 44, 59, 88, 90, 33, 34, 40, 41, 63, 39, 43, 124, 35, 62,
     0, 36, 64, 91, 93, 126, 94, 125, 60, 96, 123, 92, 195, 208, 128, 130, 131, 162, 184, 194,
     224, 226, 153, 161, 167, 172, 176, 177, 179, 209, 216, 217, 227, 229, 230, 129, 132, 133,
     134, 136, 146, 154, 156, 160, 163, 164, 169, 170, 173, 178, 181, 185, 186, 187, 189, 190,
     196, 198, 228, 232, 233, 1, 135, 137, 138, 139, 140, 141, 143, 147, 149, 150, 151, 152,
     155, 157, 158, 165, 166, 168, 174, 175, 180, 182, 183, 188, 191, 197, 231, 239, 9, 142,
     144, 145, 148, 159, 171, 206, 215, 225, 236, 237, 199, 207, 234, 235, 192, 193, 200, 201,
     202, 205, 210, 213, 218, 219, 238, 240, 242, 243, 255, 203, 204, 211, 212, 214, 221, 222,
     223, 241, 244, 245, 246, 247, 248, 250, 251, 252, 253, 254, 2, 3, 4, 5, 6, 7, 8, 11, 12,
     14, 15, 16, 17, 18, 19, 20, 21, 23, 24, 25, 26, 27, 28, 29, 30, 31, 127, 220, 249, 10, 13,
     22, 256]"

definition sym_lo :: "nat \<Rightarrow> nat" where
  "sym_lo i = hs_code (HUFFMAN_TABLE ! i)"

definition sym_width :: "nat \<Rightarrow> nat" where
  "sym_width i = 2 ^ (32 - hs_bits (HUFFMAN_TABLE ! i))"

fun tiles :: "nat \<Rightarrow> nat list \<Rightarrow> nat \<Rightarrow> bool" where
  "tiles start [] stop \<longleftrightarrow> start = stop"
| "tiles start (i # is) stop \<longleftrightarrow> sym_lo i = start \<and> tiles (start + sym_width i) is stop"

lemma code_order_tiles: "tiles 0 code_order (2 ^ 32)"
  by (simp add: code_order_def sym_lo_def sym_width_def huffman_nth)

lemma tiles_bounds: "tiles start is stop \<Longrightarrow> start \<le> stop \<and> (\<forall>i \<in> set is. start \<le> sym_lo i \<and> sym_lo i + sym_width i \<le> stop)"
proof (induction "is" arbitrary: start)
  case (Cons i rest)
  then have "start + sym_width i \<le> stop"
    "\<forall>j \<in> set rest. start + sym_width i \<le> sym_lo j \<and> sym_lo j + sym_width j \<le> stop" by auto
  with Cons.prems show ?case by auto
qed simp

lemma tiles_cover: "tiles start is stop \<Longrightarrow> start \<le> x \<Longrightarrow> x < stop \<Longrightarrow>
  \<exists>i \<in> set is. sym_lo i \<le> x \<and> x < sym_lo i + sym_width i"
proof (induction "is" arbitrary: start)
  case (Cons i rest)
  show ?case
  proof (cases "x < start + sym_width i")
    case True
    with Cons.prems show ?thesis by auto
  next
    case False
    with Cons.prems Cons.IH [of "start + sym_width i"] show ?thesis by auto
  qed
qed simp

lemma sym_width_pos [simp]: "0 < sym_width i"
  by (simp add: sym_width_def)

lemma tiles_distinct: "tiles start is stop \<Longrightarrow> distinct is"
proof (induction "is" arbitrary: start)
  case (Cons i rest)
  then have "\<forall>j \<in> set rest. start + sym_width i \<le> sym_lo j" using tiles_bounds by auto
  moreover have "sym_lo i = start" "0 < sym_width i" using Cons.prems by simp_all
  ultimately have "i \<notin> set rest" by (metis add_le_same_cancel1 not_less)
  with Cons show ?case by auto
qed simp

lemma tiles_disjoint: "tiles start is stop \<Longrightarrow> i \<in> set is \<Longrightarrow> j \<in> set is \<Longrightarrow>
  sym_lo i \<le> x \<Longrightarrow> x < sym_lo i + sym_width i \<Longrightarrow>
  sym_lo j \<le> x \<Longrightarrow> x < sym_lo j + sym_width j \<Longrightarrow> i = j"
proof (induction "is" arbitrary: start)
  case (Cons k rest)
  then have b: "\<forall>j \<in> set rest. start + sym_width k \<le> sym_lo j" "sym_lo k = start"
    using tiles_bounds by auto
  show ?case
  proof (cases "i = k")
    case True
    with b Cons.prems show ?thesis by (cases "j = k") fastforce+
  next
    case False
    with b Cons show ?thesis by (cases "j = k") fastforce+
  qed
qed simp

lemma set_code_order: "set code_order = {..<257}"
proof (rule card_subset_eq)
  have "list_all (\<lambda>i. i < 257) code_order" by (simp add: code_order_def)
  then show "set code_order \<subseteq> {..<257}" by (auto simp: list_all_iff)
  have "length code_order = 257" by (simp add: code_order_def)
  then show "card (set code_order) = card {..<257 :: nat}"
    using tiles_distinct [OF code_order_tiles] by (simp add: distinct_card)
qed simp

lemma huffman_unique:
  assumes "x < 2 ^ 32"
  shows "\<exists>!i. i < 257 \<and> sym_lo i \<le> x \<and> x < sym_lo i + sym_width i"
  using tiles_cover [OF code_order_tiles _ assms] tiles_disjoint [OF code_order_tiles]
  by (auto simp: set_code_order)

text \<open>Every length is between 5 and 30 bits, and a word has no bits beyond its length.\<close>

lemma sym_wellformed:
  assumes "i < 257"
  shows "5 \<le> hs_bits (HUFFMAN_TABLE ! i) \<and> hs_bits (HUFFMAN_TABLE ! i) \<le> 30 \<and>
    sym_lo i mod sym_width i = 0 \<and> sym_lo i < 2 ^ 32"
proof -
  have "list_all (\<lambda>s. 5 \<le> hs_bits s \<and> hs_bits s \<le> 30 \<and> hs_code s mod 2 ^ (32 - hs_bits s) = 0 \<and>
      hs_code s < 2 ^ 32) HUFFMAN_TABLE"
    by (simp add: HUFFMAN_TABLE_def HUFFMAN_TABLE_0_def HUFFMAN_TABLE_1_def HUFFMAN_TABLE_2_def
        HUFFMAN_TABLE_3_def HUFFMAN_TABLE_4_def HUFFMAN_TABLE_5_def HUFFMAN_TABLE_6_def
        HUFFMAN_TABLE_7_def)
  with assms show ?thesis
    by (simp add: list_all_length sym_lo_def sym_width_def)
qed

end
