(* ===== verification/Huffman.thy ===== *)
theory Huffman
  imports Huffman_Table "HOL-Library.Sublist"
begin

text \<open>
  Huffman coding of strings (\<^verbatim>\<open>src/qpack/huffman.rs\<close>).  The encoder shifts code words into a
  64-bit accumulator from the left and takes bytes off it; the decoder shifts bytes in from the
  right and takes code words off the front.  Both are related to bit lists: \<open>codeword i\<close> is the
  word of symbol \<open>i\<close>, \<open>byte_bits\<close> the bits of a byte string.  The encoder produces the bytes of
  the concatenated words padded with ones, and the decoder accepts exactly these strings.
\<close>

section \<open>The encoder\<close>

definition huffman_encoded_len :: "bytes \<Rightarrow> usize" where
  "huffman_encoded_len data =
    (sum_list (map (\<lambda>b. hs_bits (HUFFMAN_TABLE ! unat b)) data) + 7) div 8"

text \<open>The accumulator is 64 bits wide: a left shift drops what leaves it.\<close>

function huffman_flush :: "bytes \<Rightarrow> u64 \<Rightarrow> u32 \<Rightarrow> usize \<Rightarrow> bytes \<times> u64 \<times> u32 \<times> usize" where
  "huffman_flush buf acc acc_bits offset =
    (if 8 \<le> acc_bits then
       huffman_flush (buf[offset := as_u8 (drop_bit 56 acc)]) (take_bit 64 (push_bit 8 acc))
         (acc_bits - 8) (offset + 1)
     else (buf, acc, acc_bits, offset))"
  by pat_completeness auto
termination
  by (relation "measure (\<lambda>(_, _, acc_bits, _). acc_bits)") auto

declare huffman_flush.simps [simp del]

fun huffman_encode_loop ::
    "bytes \<Rightarrow> bytes \<Rightarrow> u64 \<Rightarrow> u32 \<Rightarrow> usize \<Rightarrow> bytes \<times> u64 \<times> u32 \<times> usize" where
  "huffman_encode_loop [] buf acc acc_bits offset = (buf, acc, acc_bits, offset)"
| "huffman_encode_loop (byte # data) buf acc acc_bits offset =
    (let entry = HUFFMAN_TABLE ! unat byte;
         code_64 = take_bit 64 (push_bit 32 (hs_code entry));
         acc = acc OR drop_bit acc_bits code_64;
         acc_bits = acc_bits + hs_bits entry in
     case huffman_flush buf acc acc_bits offset of (buf, acc, acc_bits, offset) \<Rightarrow>
       huffman_encode_loop data buf acc acc_bits offset)"

definition huffman_encode :: "bytes \<Rightarrow> bytes \<Rightarrow> (bytes \<times> usize) option" where
  "huffman_encode buf data =
    (let required = huffman_encoded_len data in
     if length buf < required then None
     else
       case huffman_encode_loop data buf 0 0 0 of (buf, acc, acc_bits, offset) \<Rightarrow>
         if 0 < acc_bits then
           let padding_bits = 8 - acc_bits;
               padding_mask = take_bit 64 (push_bit padding_bits 1) - 1;
               byte = as_u8 (drop_bit 56 acc) OR as_u8 padding_mask in
           Some (buf[offset := byte], offset + 1)
         else Some (buf, offset))"

section \<open>The decoder\<close>

text \<open>The search through the table for the word at the front of the accumulator.\<close>

definition sym_mask :: "nat \<Rightarrow> u32" where
  "sym_mask bits = (if 32 \<le> bits then 0xffffffff else (2 ^ 32 - 1) - (2 ^ (32 - bits) - 1))"

definition huffman_match :: "u32 \<Rightarrow> u32 \<Rightarrow> (nat \<times> huffman_sym) option" where
  "huffman_match current acc_bits =
    find (\<lambda>(sym_idx, entry). hs_bits entry \<le> acc_bits \<and> current AND sym_mask (hs_bits entry) = hs_code entry)
      (enumerate 0 HUFFMAN_TABLE)"

definition huffman_current :: "u64 \<Rightarrow> u32 \<Rightarrow> u32" where
  "huffman_current acc acc_bits =
    (if 32 \<le> acc_bits then take_bit 32 (drop_bit (acc_bits - 32) acc)
     else take_bit 32 (take_bit 64 (push_bit (32 - acc_bits) acc)))"

lemma huffman_match_Some:
  "huffman_match current acc_bits = Some (i, s) \<Longrightarrow>
    i < 257 \<and> s = HUFFMAN_TABLE ! i \<and> hs_bits s \<le> acc_bits \<and>
    current AND sym_mask (hs_bits s) = hs_code s"
  by (auto simp: huffman_match_def find_Some_iff in_set_enumerate_eq nth_enumerate_eq)

function huffman_symbols :: "u64 \<Rightarrow> u32 \<Rightarrow> bytes \<Rightarrow> qpack_error + u64 \<times> u32 \<times> bytes" where
  "huffman_symbols acc acc_bits result =
    (if 5 \<le> acc_bits then
       case huffman_match (huffman_current acc acc_bits) acc_bits of
         None \<Rightarrow> Inr (acc, acc_bits, result)
       | Some (sym_idx, entry) \<Rightarrow>
           if sym_idx = 256 then Inl InvalidHuffman
           else
             let result = result @ [as_u8 sym_idx];
                 acc_bits = acc_bits - hs_bits entry;
                 acc = (if 0 < acc_bits then acc AND (2 ^ acc_bits - 1) else 0) in
             huffman_symbols acc acc_bits result
     else Inr (acc, acc_bits, result))"
  by pat_completeness auto
termination
  by (relation "measure (\<lambda>(_, acc_bits, _). acc_bits)")
    (auto dest!: huffman_match_Some dest: sym_wellformed)

declare huffman_symbols.simps [simp del]

fun huffman_decode_loop :: "bytes \<Rightarrow> u64 \<Rightarrow> u32 \<Rightarrow> bytes \<Rightarrow> qpack_error + u64 \<times> u32 \<times> bytes" where
  "huffman_decode_loop [] acc acc_bits result = Inr (acc, acc_bits, result)"
| "huffman_decode_loop (byte # data) acc acc_bits result =
    bindR (huffman_symbols (take_bit 64 (push_bit 8 acc) OR unat byte) (acc_bits + 8) result)
      (\<lambda>(acc, acc_bits, result). huffman_decode_loop data acc acc_bits result)"

definition huffman_decode :: "bytes \<Rightarrow> qpack_error + bytes" where
  "huffman_decode data =
    bindR (huffman_decode_loop data 0 0 []) (\<lambda>(acc, acc_bits, result).
    if 0 < acc_bits \<and> acc_bits \<le> 7 then
      let mask = 2 ^ acc_bits - 1 in
      if acc AND mask = mask then Inr result else Inl InvalidHuffman
    else if 7 < acc_bits then Inl InvalidHuffman
    else Inr result)"

section \<open>Bit lists\<close>

text \<open>The low \<open>n\<close> bits of a number, most significant first.\<close>

fun bits_of :: "nat \<Rightarrow> nat \<Rightarrow> bool list" where
  "bits_of 0 v = []"
| "bits_of (Suc n) v = odd (v div 2 ^ n) # bits_of n v"

definition byte_bits :: "bytes \<Rightarrow> bool list" where
  "byte_bits bs = concat (map (\<lambda>b. bits_of 8 (unat b)) bs)"

lemma length_bits_of [simp]: "length (bits_of n v) = n"
  by (induction n) auto

lemma byte_bits_simps [simp]:
  "byte_bits [] = []"
  "byte_bits (b # bs) = bits_of 8 (unat b) @ byte_bits bs"
  "byte_bits (xs @ ys) = byte_bits xs @ byte_bits ys"
  by (simp_all add: byte_bits_def)

lemma length_byte_bits [simp]: "length (byte_bits bs) = 8 * length bs"
  by (induction bs) auto

lemma bits_of_append:
  assumes "w < 2 ^ m"
  shows "bits_of (n + m) (v * 2 ^ m + w) = bits_of n v @ bits_of m w"
proof (induction n)
  case 0
  have "bits_of k (v * 2 ^ m + w) = bits_of k w" if "k \<le> m" for k
    using that
  proof (induction k)
    case (Suc k)
    then obtain d where "m = Suc k + d" by (metis le_Suc_ex)
    then have "v * 2 ^ m + w = (v * 2 ^ d * 2) * 2 ^ k + w" by (simp add: power_add algebra_simps)
    then have "(v * 2 ^ m + w) div 2 ^ k = v * 2 ^ d * 2 + w div 2 ^ k"
      by (simp only: div_mult_self3) simp
    with Suc show ?case by simp
  qed simp
  then show ?case by simp
next
  case (Suc n)
  have "(v * 2 ^ m + w) div 2 ^ (n + m) = v div 2 ^ n"
    using assms by (simp add: power_add mult.commute [of "2 ^ n"] div_mult2_eq)
  with Suc show ?case by simp
qed

lemma bits_of_split:
  "bits_of (n + m) v = bits_of n (v div 2 ^ m) @ bits_of m (v mod 2 ^ m)"
  using bits_of_append [of "v mod 2 ^ m" m n "v div 2 ^ m"] by (simp add: div_mult_mod_eq)

lemma bits_of_inj:
  assumes "bits_of n v = bits_of n w" "v < 2 ^ n" "w < 2 ^ n"
  shows "v = w"
  using assms
proof (induction n arbitrary: v w)
  case (Suc n)
  have s: "bits_of (Suc n) x = bits_of n (x div 2) @ bits_of 1 (x mod 2)" for x
    using bits_of_split [of n 1 x] by simp
  from Suc.prems have "bits_of n (v div 2) = bits_of n (w div 2)" "odd (v mod 2) = odd (w mod 2)"
    unfolding s by simp_all
  moreover from this(2) have "v mod 2 = w mod 2" by (simp add: mod2_eq_if split: if_splits)
  ultimately have "v div 2 = w div 2" "v mod 2 = w mod 2"
    using Suc.IH [of "v div 2" "w div 2"] Suc.prems(2,3) by simp_all
  then show ?case by (metis div_mult_mod_eq)
qed simp

lemma bits_of_ones: "bits_of n (2 ^ n - 1) = replicate n True"
proof (induction n)
  case (Suc n)
  have "2 ^ Suc n - 1 = 1 * 2 ^ n + (2 ^ n - 1 :: nat)" by simp
  then have "bits_of (1 + n) (2 ^ Suc n - 1) = bits_of 1 1 @ bits_of n (2 ^ n - 1)"
    by (simp only:) (rule bits_of_append, simp)
  with Suc show ?case by simp
qed simp

lemma bits_of_8_nonempty [simp]: "bits_of 8 v \<noteq> []"
  by (metis length_bits_of list.size(3) zero_neq_numeral)

lemma byte_bits_inj: "byte_bits xs = byte_bits ys \<Longrightarrow> xs = ys"
proof (induction xs arbitrary: ys)
  case Nil
  then show ?case by (cases ys) auto
next
  case (Cons x xs)
  then obtain y ys' where ys: "ys = y # ys'" by (cases ys) auto
  with Cons.prems have "bits_of 8 (unat x) = bits_of 8 (unat y)" "byte_bits xs = byte_bits ys'"
    by simp_all
  with Cons.IH bits_of_inj [of 8 "unat x" "unat y"] ys show ?case
    by (simp add: word_unat_eq_iff)
qed

section \<open>Code words\<close>

definition sym_bits :: "nat \<Rightarrow> nat" where
  "sym_bits i = hs_bits (HUFFMAN_TABLE ! i)"

definition sym_word :: "nat \<Rightarrow> nat" where
  "sym_word i = sym_lo i div sym_width i"

definition codeword :: "nat \<Rightarrow> bool list" where
  "codeword i = bits_of (sym_bits i) (sym_word i)"

abbreviation huffman_bits :: "bytes \<Rightarrow> bool list" where
  "huffman_bits data \<equiv> concat (map (\<lambda>b. codeword (unat b)) data)"

lemma unat_u8_257 [simp]: "unat (b :: u8) < 257"
  by (rule less_trans [OF unat_u8_lt]) simp

lemma sym_bits_bounds: "i < 257 \<Longrightarrow> 5 \<le> sym_bits i \<and> sym_bits i \<le> 30"
  using sym_wellformed by (simp add: sym_bits_def)

lemma sym_lo_word:
  assumes "i < 257"
  shows "sym_lo i = sym_word i * 2 ^ (32 - sym_bits i)" "sym_word i < 2 ^ sym_bits i"
proof -
  show lo: "sym_lo i = sym_word i * 2 ^ (32 - sym_bits i)"
    using sym_wellformed [OF assms] by (auto simp: sym_word_def sym_width_def sym_bits_def)
  have "sym_bits i + (32 - sym_bits i) = 32" using sym_bits_bounds [OF assms] by simp
  then have "sym_word i * 2 ^ (32 - sym_bits i) < 2 ^ sym_bits i * 2 ^ (32 - sym_bits i)"
    using sym_wellformed [OF assms] lo by (simp only: power_add [symmetric])
  then show "sym_word i < 2 ^ sym_bits i" by simp
qed

lemma length_codeword [simp]: "length (codeword i) = sym_bits i"
  by (simp add: codeword_def)

section \<open>The encoder writes the code words\<close>

lemma flush_step:
  assumes "8 \<le> n" "n \<le> 64" "r < 2 ^ n"
  shows "as_u8 (drop_bit 56 (r * 2 ^ (64 - n))) = as_u8 (r div 2 ^ (n - 8))"
    "take_bit 64 (push_bit 8 (r * 2 ^ (64 - n))) = (r mod 2 ^ (n - 8)) * 2 ^ (64 - (n - 8))"
    "bits_of n r = bits_of 8 (unat (as_u8 (r div 2 ^ (n - 8)))) @ bits_of (n - 8) (r mod 2 ^ (n - 8))"
proof -
  have p56: "(2 :: nat) ^ 56 = 2 ^ (n - 8) * 2 ^ (64 - n)"
    using assms(1,2) by (simp add: power_add [symmetric])
  show "as_u8 (drop_bit 56 (r * 2 ^ (64 - n))) = as_u8 (r div 2 ^ (n - 8))"
    unfolding drop_bit_eq_div p56 by simp
  have e: "64 - (n - 8) = 8 + (64 - n)" using assms(1,2) by simp
  have "(2 :: nat) ^ 64 = 2 ^ (n - 8) * 2 ^ (64 - (n - 8))"
    using assms(1,2) by (simp add: power_add [symmetric])
  moreover have "push_bit 8 (r * 2 ^ (64 - n)) = r * 2 ^ (64 - (n - 8))"
    by (simp add: push_bit_eq_mult e power_add)
  ultimately show "take_bit 64 (push_bit 8 (r * 2 ^ (64 - n))) = (r mod 2 ^ (n - 8)) * 2 ^ (64 - (n - 8))"
    by (simp only: take_bit_eq_mod mult_mod_left)
  have "(2 :: nat) ^ n = 2 ^ 8 * 2 ^ (n - 8)"
    using assms(1) by (metis le_add_diff_inverse power_add)
  with assms(3) have "r div 2 ^ (n - 8) < 256" by (simp add: less_mult_imp_div_less)
  then show "bits_of n r = bits_of 8 (unat (as_u8 (r div 2 ^ (n - 8)))) @ bits_of (n - 8) (r mod 2 ^ (n - 8))"
    using bits_of_split [of 8 "n - 8" r] assms(1) by simp
qed

lemma huffman_flush_bits:
  assumes "n \<le> 64" "r < 2 ^ n" "length as + n div 8 \<le> length buf"
  shows "\<exists>bs r'. huffman_flush (written buf as) (r * 2 ^ (64 - n)) n (length as) =
      (written buf (as @ bs), r' * 2 ^ (64 - n mod 8), n mod 8, length (as @ bs)) \<and>
    r' < 2 ^ (n mod 8) \<and> length bs = n div 8 \<and> byte_bits bs @ bits_of (n mod 8) r' = bits_of n r"
  using assms
proof (induction n arbitrary: r as rule: less_induct)
  case (less n)
  show ?case
  proof (cases "8 \<le> n")
    case False
    with less.prems show ?thesis by (subst huffman_flush.simps) simp
  next
    case True
    note st = flush_step [OF True less.prems(1,2)]
    let ?b = "as_u8 (r div 2 ^ (n - 8))" and ?r = "r mod 2 ^ (n - 8)"
    have d: "n div 8 = Suc ((n - 8) div 8)" "n mod 8 = (n - 8) mod 8"
      using True by (simp_all add: le_div_geq le_mod_geq)
    have ih_prems: "n - 8 < n" "n - 8 \<le> 64" "?r < 2 ^ (n - 8)"
      "length (as @ [?b]) + (n - 8) div 8 \<le> length buf"
      using True less.prems d by simp_all
    obtain bs r' where ih: "huffman_flush (written buf (as @ [?b])) (?r * 2 ^ (64 - (n - 8))) (n - 8)
        (length (as @ [?b])) = (written buf ((as @ [?b]) @ bs), r' * 2 ^ (64 - (n - 8) mod 8),
          (n - 8) mod 8, length ((as @ [?b]) @ bs))"
      "r' < 2 ^ ((n - 8) mod 8)" "length bs = (n - 8) div 8"
      "byte_bits bs @ bits_of ((n - 8) mod 8) r' = bits_of (n - 8) ?r"
      using less.IH [OF ih_prems] by blast
    have "huffman_flush (written buf as) (r * 2 ^ (64 - n)) n (length as) =
        huffman_flush (written buf (as @ [?b])) (?r * 2 ^ (64 - (n - 8))) (n - 8) (length (as @ [?b]))"
      using True less.prems d st(1,2) written_update [of as buf ?b]
      by (subst huffman_flush.simps) simp
    with ih st(3) d show ?thesis by (intro exI [of _ "?b # bs"] exI [of _ r']) simp
  qed
qed

lemma add_code:
  assumes "i < 257" "n < 8" "r < 2 ^ n"
  shows "r * 2 ^ (64 - n) OR drop_bit n (take_bit 64 (push_bit 32 (hs_code (HUFFMAN_TABLE ! i)))) =
      (r * 2 ^ sym_bits i + sym_word i) * 2 ^ (64 - (n + sym_bits i))"
    "r * 2 ^ sym_bits i + sym_word i < 2 ^ (n + sym_bits i)"
    "bits_of (n + sym_bits i) (r * 2 ^ sym_bits i + sym_word i) = bits_of n r @ codeword i"
proof -
  let ?b = "sym_bits i" and ?c = "sym_word i"
  note b = sym_bits_bounds [OF assms(1)] and c = sym_lo_word [OF assms(1)]
  have e: "64 - ?b = n + (64 - (n + ?b))" "32 + (32 - ?b) = 64 - ?b" "64 - n = ?b + (64 - (n + ?b))"
    using b assms(2) by simp_all
  have lo: "hs_code (HUFFMAN_TABLE ! i) = sym_lo i" by (simp add: sym_lo_def)
  have "push_bit 32 (sym_lo i) < 2 ^ 64"
    using sym_wellformed [OF assms(1)] by (simp add: push_bit_eq_mult)
  then have "take_bit 64 (push_bit 32 (sym_lo i)) = ?c * (2 ^ (32 - ?b) * 2 ^ 32)"
    using c(1) by (simp add: take_bit_nat_eq_self push_bit_eq_mult)
  also have "(2 :: nat) ^ (32 - ?b) * 2 ^ 32 = 2 ^ n * 2 ^ (64 - (n + ?b))"
    using b assms(2) by (simp only: power_add [symmetric]) simp
  finally have code: "drop_bit n (take_bit 64 (push_bit 32 (sym_lo i))) = ?c * 2 ^ (64 - (n + ?b))"
    by (simp add: drop_bit_eq_div)
  have "?c * 2 ^ (64 - (n + ?b)) < 2 ^ ?b * 2 ^ (64 - (n + ?b))" using c(2) by simp
  then have "?c * 2 ^ (64 - (n + ?b)) < 2 ^ (64 - n)" by (simp only: e(3) power_add)
  then have or: "?c * 2 ^ (64 - (n + ?b)) OR r * 2 ^ (64 - n) = ?c * 2 ^ (64 - (n + ?b)) + r * 2 ^ (64 - n)"
    by (rule nat_or_tag)
  have r: "r * 2 ^ (64 - n) = r * 2 ^ ?b * 2 ^ (64 - (n + ?b))"
    by (simp only: e(3) power_add mult.assoc)
  show "r * 2 ^ (64 - n) OR drop_bit n (take_bit 64 (push_bit 32 (hs_code (HUFFMAN_TABLE ! i)))) =
      (r * 2 ^ ?b + ?c) * 2 ^ (64 - (n + ?b))"
    unfolding lo code or.commute [of "r * 2 ^ (64 - n)"] or distrib_right
    by (simp only: r add.commute)
  have "(r + 1) * 2 ^ ?b \<le> 2 ^ n * 2 ^ ?b" using assms(3) by (intro mult_le_mono1) simp
  with c(2) show "r * 2 ^ ?b + ?c < 2 ^ (n + ?b)" by (simp add: power_add)
  show "bits_of (n + ?b) (r * 2 ^ ?b + ?c) = bits_of n r @ codeword i"
    unfolding codeword_def by (rule bits_of_append) (rule c(2))
qed

lemma huffman_encode_loop_bits:
  assumes "n < 8" "r < 2 ^ n" "length as + (n + length (huffman_bits data)) div 8 \<le> length buf"
  shows "\<exists>bs r' n'. huffman_encode_loop data (written buf as) (r * 2 ^ (64 - n)) n (length as) =
      (written buf (as @ bs), r' * 2 ^ (64 - n'), n', length (as @ bs)) \<and>
    n' < 8 \<and> r' < 2 ^ n' \<and> byte_bits bs @ bits_of n' r' = bits_of n r @ huffman_bits data"
  using assms
proof (induction data arbitrary: as n r)
  case Nil
  then show ?case by (intro exI [of _ "[]"] exI [of _ r] exI [of _ n]) simp
next
  case (Cons b data)
  let ?i = "unat b" and ?m = "n + sym_bits (unat b)"
  let ?r = "r * 2 ^ sym_bits ?i + sym_word ?i"
  note ac = add_code [OF unat_u8_257 [of b] Cons.prems(1,2)]
  have m: "?m \<le> 64" using sym_bits_bounds [OF unat_u8_257 [of b]] Cons.prems(1) by simp
  have tot: "n + length (huffman_bits (b # data)) = ?m + length (huffman_bits data)" by simp
  have dv: "(x + y) div 8 = x div 8 + (x mod 8 + y) div 8" for x y :: nat
  proof -
    have "x + y = (x mod 8 + y) + (x div 8) * 8" by simp
    then have "(x + y) div 8 = ((x mod 8 + y) + (x div 8) * 8) div 8" by (simp only:)
    then show ?thesis by (simp only: div_mult_self1 add.commute)
  qed
  have room: "length as + ?m div 8 \<le> length buf"
    using Cons.prems(3) unfolding tot dv [of ?m] by simp
  obtain bs r' where fl: "huffman_flush (written buf as) (?r * 2 ^ (64 - ?m)) ?m (length as) =
      (written buf (as @ bs), r' * 2 ^ (64 - ?m mod 8), ?m mod 8, length (as @ bs))"
    "r' < 2 ^ (?m mod 8)" "length bs = ?m div 8" "byte_bits bs @ bits_of (?m mod 8) r' = bits_of ?m ?r"
    using huffman_flush_bits [OF m ac(2) room] by blast
  have room': "length (as @ bs) + (?m mod 8 + length (huffman_bits data)) div 8 \<le> length buf"
    using Cons.prems(3) fl(3) unfolding tot dv [of ?m] by simp
  have "?m mod 8 < 8" by simp
  from Cons.IH [OF this fl(2) room'] obtain bs' r'' n'' where ih:
    "huffman_encode_loop data (written buf (as @ bs)) (r' * 2 ^ (64 - ?m mod 8)) (?m mod 8) (length (as @ bs))
      = (written buf ((as @ bs) @ bs'), r'' * 2 ^ (64 - n''), n'', length ((as @ bs) @ bs'))"
    "n'' < 8" "r'' < 2 ^ n''" "byte_bits bs' @ bits_of n'' r'' = bits_of (?m mod 8) r' @ huffman_bits data"
    by blast
  have "huffman_encode_loop (b # data) (written buf as) (r * 2 ^ (64 - n)) n (length as) =
      (written buf (as @ bs @ bs'), r'' * 2 ^ (64 - n''), n'', length (as @ bs @ bs'))"
    using ac(1) fl(1) ih(1) by (simp add: sym_bits_def [symmetric])
  moreover have "byte_bits (bs @ bs') @ bits_of n'' r'' = bits_of n r @ huffman_bits (b # data)"
    using ih(4) fl(4) ac(3) by simp
  ultimately show ?case using ih(2,3) by blast
qed

lemma padded_byte:
  assumes "0 < n" "n < 8" "r < 2 ^ n"
  shows "bits_of 8 (unat (as_u8 (drop_bit 56 (r * 2 ^ (64 - n))) OR
      as_u8 (take_bit 64 (push_bit (8 - n) 1) - 1))) = bits_of n r @ replicate (8 - n) True"
proof -
  have p64: "(2 :: nat) ^ (64 - n) = 2 ^ (8 - n) * 2 ^ 56" and p8: "(2 :: nat) ^ 8 = 2 ^ n * 2 ^ (8 - n)"
    using assms(2) by (simp_all only: power_add [symmetric]) simp_all
  have top: "drop_bit 56 (r * 2 ^ (64 - n)) = r * 2 ^ (8 - n)"
    unfolding drop_bit_eq_div p64 by simp
  have "(2 :: nat) ^ (8 - n) \<le> 2 ^ 8" by (rule power_increasing) simp_all
  then have pad: "take_bit 64 (push_bit (8 - n) 1) - 1 = (2 ^ (8 - n) - 1 :: nat)"
    "(2 ^ (8 - n) - 1) mod 256 = (2 ^ (8 - n) - 1 :: nat)"
    by (simp_all add: push_bit_eq_mult take_bit_nat_eq_self)
  have "r * 2 ^ (8 - n) < 2 ^ n * 2 ^ (8 - n)" using assms(3) by simp
  then have r: "r * 2 ^ (8 - n) mod 256 = r * 2 ^ (8 - n)" unfolding p8 [symmetric] by simp
  have "unat (as_u8 (r * 2 ^ (8 - n)) OR as_u8 (2 ^ (8 - n) - 1)) =
      (2 ^ (8 - n) - 1) OR r * 2 ^ (8 - n)"
    by (simp only: unsigned_or_eq unat_as_u8 r pad(2) or.commute)
  also have "\<dots> = r * 2 ^ (8 - n) + (2 ^ (8 - n) - 1)"
    by (subst nat_or_tag) (simp_all only: add.commute diff_less zero_less_one zero_less_power zero_less_numeral)
  finally show ?thesis
    using bits_of_append [of "2 ^ (8 - n) - 1" "8 - n" n r] assms(2)
    unfolding top pad(1) by (simp only: bits_of_ones) simp
qed

lemma length_huffman_bits:
  "length (huffman_bits data) = sum_list (map (\<lambda>b. hs_bits (HUFFMAN_TABLE ! unat b)) data)"
  by (induction data) (auto simp: sym_bits_def)

lemma huffman_encode_bits:
  assumes "huffman_encoded_len data \<le> length buf"
  shows "\<exists>bs k. huffman_encode buf data = Some (written buf bs, length bs) \<and> k < 8 \<and>
    length bs = huffman_encoded_len data \<and> byte_bits bs = huffman_bits data @ replicate k True"
proof -
  let ?L = "length (huffman_bits data)"
  have len: "huffman_encoded_len data = (?L + 7) div 8"
    by (simp add: huffman_encoded_len_def length_huffman_bits)
  then have "length ([] :: bytes) + (0 + ?L) div 8 \<le> length buf" using assms by simp
  from huffman_encode_loop_bits [OF _ _ this] obtain bs r n where
    loop: "huffman_encode_loop data buf 0 0 0 = (written buf bs, r * 2 ^ (64 - n), n, length bs)"
    and st: "n < 8" "r < 2 ^ n" "byte_bits bs @ bits_of n r = huffman_bits data"
    by auto
  have L: "?L = 8 * length bs + n" by (simp add: st(3) [symmetric])
  show ?thesis
  proof (cases "n = 0")
    case True
    with loop st L len assms show ?thesis
      by (intro exI [of _ bs] exI [of _ 0]) (simp add: huffman_encode_def)
  next
    case False
    let ?b = "as_u8 (drop_bit 56 (r * 2 ^ (64 - n))) OR as_u8 (take_bit 64 (push_bit (8 - n) 1) - 1)"
    have room: "huffman_encoded_len data = Suc (length bs)" using False st(1) L len by simp
    have "byte_bits (bs @ [?b]) = huffman_bits data @ replicate (8 - n) True"
      using padded_byte [OF _ st(1,2)] False st(3) by simp
    moreover have "huffman_encode buf data = Some (written buf (bs @ [?b]), length (bs @ [?b]))"
      using loop False assms room
      by (simp add: huffman_encode_def Let_def written_update)
    ultimately show ?thesis using room False
      by (intro exI [of _ "bs @ [?b]"] exI [of _ "8 - n"]) simp
  qed
qed

text \<open>The encoding of a string, as a list: the one the encoder writes.\<close>

definition huffman_bytes :: "bytes \<Rightarrow> bytes" where
  "huffman_bytes data =
    (case huffman_encode (replicate (huffman_encoded_len data) 0) data of
       Some (buf, n) \<Rightarrow> buf | None \<Rightarrow> [])"

lemma huffman_bytes_bits:
  "length (huffman_bytes data) = huffman_encoded_len data"
  "\<exists>k < 8. byte_bits (huffman_bytes data) = huffman_bits data @ replicate k True"
  using huffman_encode_bits [of data "replicate (huffman_encoded_len data) 0"]
  by (auto simp: huffman_bytes_def written_def)

lemma huffman_encode_written:
  "huffman_encode buf data =
    (if length buf < huffman_encoded_len data then None
     else Some (written buf (huffman_bytes data), length (huffman_bytes data)))"
proof (cases "length buf < huffman_encoded_len data")
  case True
  then show ?thesis by (simp add: huffman_encode_def)
next
  case False
  then obtain bs k where bs: "huffman_encode buf data = Some (written buf bs, length bs)"
    "length bs = huffman_encoded_len data" "k < 8" "byte_bits bs = huffman_bits data @ replicate k True"
    using huffman_encode_bits [of data buf] by auto
  obtain k' where k': "k' < 8" "byte_bits (huffman_bytes data) = huffman_bits data @ replicate k' True"
    using huffman_bytes_bits(2) by blast
  have "length (byte_bits bs) = length (byte_bits (huffman_bytes data))"
    by (simp only: length_byte_bits bs(2) huffman_bytes_bits(1))
  then have "k = k'" unfolding bs(4) k'(2) by simp
  with bs(4) k'(2) have "bs = huffman_bytes data" by (intro byte_bits_inj) simp
  with False bs(1) show ?thesis by simp
qed

section \<open>Prefix codes\<close>

text \<open>Unique decomposition, for any prefix code; the decoder rests on its instance below.\<close>

locale prefix_code =
  fixes dom :: "'a set" and word :: "'a \<Rightarrow> bool list"
  assumes word_nonempty: "a \<in> dom \<Longrightarrow> word a \<noteq> []"
    and prefix_unique: "a \<in> dom \<Longrightarrow> b \<in> dom \<Longrightarrow> prefix (word a) p \<Longrightarrow> prefix (word b) p \<Longrightarrow> a = b"
begin

definition stuck :: "bool list \<Rightarrow> bool" where
  "stuck p \<longleftrightarrow> (\<forall>a \<in> dom. \<not> prefix (word a) p)"

lemma words_prefix:
  assumes "set xs \<subseteq> dom" "set ys \<subseteq> dom" "stuck q"
    "concat (map word xs) @ p = concat (map word ys) @ q"
  shows "prefix xs ys"
  using assms
proof (induction xs arbitrary: ys)
  case (Cons x xs)
  show ?case
  proof (cases ys)
    case Nil
    with Cons.prems have "prefix (word x) q" by (auto intro: prefixI)
    with Cons.prems show ?thesis by (auto simp: stuck_def)
  next
    case (Cons y ys')
    let ?all = "word x @ concat (map word xs) @ p"
    have "prefix (word x) ?all" by simp
    moreover have "?all = word y @ concat (map word ys') @ q" using Cons Cons.prems(4) by simp
    then have "prefix (word y) ?all" by simp
    ultimately have "x = y" using prefix_unique [of x y ?all] Cons Cons.prems by simp
    with Cons Cons.IH [of ys'] Cons.prems show ?thesis by simp
  qed
qed simp

lemma words_unique:
  assumes "set xs \<subseteq> dom" "set ys \<subseteq> dom" "stuck p" "stuck q"
    "concat (map word xs) @ p = concat (map word ys) @ q"
  shows "xs = ys \<and> p = q"
proof -
  have "prefix xs ys" "prefix ys xs"
    using words_prefix [OF assms(1,2,4,5)] words_prefix [OF assms(2,1,3)] assms(5) by simp_all
  then have "xs = ys" by (rule prefix_order.antisym)
  with assms(5) show ?thesis by simp
qed

end

section \<open>The table is a complete prefix code\<close>

lemma bits_of_surj: "\<exists>v < 2 ^ length bs. bits_of (length bs) v = bs"
proof (induction bs rule: rev_induct)
  case (snoc b bs)
  then obtain v where v: "v < 2 ^ length bs" "bits_of (length bs) v = bs" by blast
  let ?d = "of_bool b :: nat"
  have "bits_of (length bs + 1) (v * 2 ^ 1 + ?d) = bs @ bits_of 1 ?d"
    using bits_of_append [of ?d 1 "length bs" v] v(2) by simp
  moreover have "bits_of 1 ?d = [b]" by simp
  moreover have "v * 2 ^ 1 + ?d < 2 ^ length (bs @ [b])" using v(1) by simp
  ultimately show ?case by (metis length_append_singleton Suc_eq_plus1)
qed simp

lemma take_bits_of:
  "b \<le> n \<Longrightarrow> take b (bits_of n v) = bits_of b (v div 2 ^ (n - b))"
  using bits_of_split [of b "n - b" v] by simp

lemma codeword_at:
  assumes "i < 257" "v < 2 ^ n" "sym_bits i \<le> n"
  shows "prefix (codeword i) (bits_of n v) \<longleftrightarrow> v div 2 ^ (n - sym_bits i) = sym_word i"
proof -
  have "prefix (codeword i) (bits_of n v) \<longleftrightarrow> take (sym_bits i) (bits_of n v) = codeword i"
    by (metis append_eq_conv_conj append_take_drop_id length_codeword prefix_def)
  also have "\<dots> \<longleftrightarrow> bits_of (sym_bits i) (v div 2 ^ (n - sym_bits i)) = bits_of (sym_bits i) (sym_word i)"
    using assms(3) by (simp add: take_bits_of codeword_def)
  also have "\<dots> \<longleftrightarrow> v div 2 ^ (n - sym_bits i) = sym_word i"
  proof -
    have "(2 :: nat) ^ n = 2 ^ sym_bits i * 2 ^ (n - sym_bits i)"
      using assms(3) by (metis le_add_diff_inverse power_add)
    with assms(2) have "v div 2 ^ (n - sym_bits i) < 2 ^ sym_bits i"
      by (simp add: less_mult_imp_div_less)
    with sym_lo_word(2) [OF assms(1)] show ?thesis by (metis bits_of_inj)
  qed
  finally show ?thesis .
qed

lemma sym_interval:
  assumes "i < 257"
  shows "sym_lo i \<le> x \<and> x < sym_lo i + sym_width i \<longleftrightarrow> x div 2 ^ (32 - sym_bits i) = sym_word i"
proof -
  let ?w = "2 ^ (32 - sym_bits i) :: nat"
  have w: "sym_width i = ?w" "0 < ?w" by (simp_all add: sym_width_def sym_bits_def)
  have "sym_word i * ?w \<le> x \<and> x < sym_word i * ?w + ?w \<longleftrightarrow> x div ?w = sym_word i"
    using w(2) by (metis add.commute div_nat_eqI dividend_less_times_div le_add1 mult.commute
        mult_Suc_right div_times_less_eq_dividend)
  then show ?thesis unfolding sym_lo_word(1) [OF assms] w(1) .
qed

lemma codeword_32:
  "i < 257 \<Longrightarrow> v < 2 ^ 32 \<Longrightarrow>
    prefix (codeword i) (bits_of 32 v) \<longleftrightarrow> sym_lo i \<le> v \<and> v < sym_lo i + sym_width i"
  using sym_bits_bounds [of i] by (simp add: codeword_at sym_interval)

lemma codewords_unique:
  assumes "i < 257" "j < 257" "prefix (codeword i) p" "prefix (codeword j) p"
  shows "i = j"
proof -
  let ?q = "take 32 (p @ replicate 32 False)"
  have "prefix (codeword k) ?q" if k: "k < 257" "prefix (codeword k) p" for k
  proof -
    from k(2) obtain t where "p = codeword k @ t" by (auto simp: prefix_def)
    moreover have "sym_bits k \<le> 32" using sym_bits_bounds [OF k(1)] by simp
    ultimately show ?thesis by simp
  qed
  moreover have "length ?q = 32" by simp
  then obtain v where "v < 2 ^ 32" "bits_of 32 v = ?q" using bits_of_surj [of ?q] by metis
  ultimately show ?thesis
    using assms huffman_unique [of v] codeword_32 [of i v] codeword_32 [of j v] by auto
qed

lemma codeword_exists:
  assumes "30 \<le> length p"
  shows "\<exists>i < 257. prefix (codeword i) p"
proof -
  let ?q = "take 32 (p @ replicate 32 False)"
  have "length ?q = 32" by simp
  then obtain v where v: "v < 2 ^ 32" "bits_of 32 v = ?q" using bits_of_surj [of ?q] by metis
  then obtain i where i: "i < 257" "prefix (codeword i) ?q"
    using huffman_unique [of v] codeword_32 [of _ v] by (metis (no_types, lifting))
  have b: "sym_bits i \<le> 30" using sym_bits_bounds [OF i(1)] by simp
  have "prefix ?q (p @ replicate 32 False)" by (rule take_is_prefix)
  with i(2) have "prefix (codeword i) (p @ replicate 32 False)" by (rule prefix_order.trans)
  then have "prefix (codeword i) p"
    by (rule prefix_length_prefix) (use b assms in auto)
  with i(1) show ?thesis by blast
qed

interpretation pc: prefix_code "{..<257}" codeword
proof
  show "codeword a \<noteq> []" if "a \<in> {..<257}" for a
    using sym_bits_bounds [of a] that by (metis length_codeword lessThan_iff list.size(3) not_numeral_le_zero)
qed (use codewords_unique in auto)

section \<open>The decoder reads the code words\<close>

lemma and_sym_mask:
  assumes "x < 2 ^ 32" "0 < b" "b < 32"
  shows "x AND sym_mask b = (x div 2 ^ (32 - b)) * 2 ^ (32 - b)"
proof -
  have "(2 :: nat) ^ 32 = 2 ^ b * 2 ^ (32 - b)"
    using assms(3) by (simp add: power_add [symmetric])
  then have m: "sym_mask b = push_bit (32 - b) (mask b)"
    using assms(3) by (simp add: sym_mask_def push_bit_eq_mult mask_eq_exp_minus_1 diff_mult_distrib)
  have "x AND sym_mask b = push_bit (32 - b) (drop_bit (32 - b) x)"
  proof (rule bit_eqI)
    fix n
    have "bit x n \<Longrightarrow> n < 32"
      using assms(1) by (metis bit_take_bit_iff take_bit_nat_eq_self)
    then show "bit (x AND sym_mask b) n = bit (push_bit (32 - b) (drop_bit (32 - b) x)) n"
      using assms(2,3) by (auto simp: m bit_simps)
  qed
  then show ?thesis by (simp add: push_bit_eq_mult drop_bit_eq_div)
qed

lemma huffman_current_div:
  assumes "acc < 2 ^ n" "b \<le> n" "0 < b" "b < 32"
  shows "huffman_current acc n < 2 ^ 32"
    "huffman_current acc n div 2 ^ (32 - b) = acc div 2 ^ (n - b)"
proof -
  show "huffman_current acc n < 2 ^ 32"
    using take_bit_nat_less_exp by (simp only: huffman_current_def split: if_split) simp
  show "huffman_current acc n div 2 ^ (32 - b) = acc div 2 ^ (n - b)"
  proof (cases "32 \<le> n")
    case True
    have "(2 :: nat) ^ n = 2 ^ 32 * 2 ^ (n - 32)" using True by (metis le_add_diff_inverse power_add)
    with assms(1) have "acc div 2 ^ (n - 32) < 2 ^ 32" by (simp add: less_mult_imp_div_less)
    then have "huffman_current acc n = acc div 2 ^ (n - 32)"
      using True by (simp add: huffman_current_def drop_bit_eq_div take_bit_nat_eq_self)
    moreover have "(2 :: nat) ^ (n - b) = 2 ^ (n - 32) * 2 ^ (32 - b)"
      using True assms(4) by (simp add: power_add [symmetric])
    ultimately show ?thesis by (simp add: div_mult2_eq)
  next
    case False
    have "acc * 2 ^ (32 - n) < 2 ^ n * 2 ^ (32 - n)" using assms(1) by simp
    also have "(2 :: nat) ^ n * 2 ^ (32 - n) = 2 ^ 32" using False by (simp only: power_add [symmetric]) simp
    finally have "huffman_current acc n = acc * 2 ^ (32 - n)"
      using False by (simp add: huffman_current_def push_bit_eq_mult take_bit_nat_eq_self)
    moreover have "(2 :: nat) ^ (32 - b) = 2 ^ (n - b) * 2 ^ (32 - n)"
      using False assms(2) by (simp add: power_add [symmetric])
    ultimately show ?thesis by simp
  qed
qed

lemma huffman_match_iff:
  assumes "i < 257" "acc < 2 ^ n"
  shows "hs_bits (HUFFMAN_TABLE ! i) \<le> n \<and>
      huffman_current acc n AND sym_mask (hs_bits (HUFFMAN_TABLE ! i)) = hs_code (HUFFMAN_TABLE ! i)
    \<longleftrightarrow> prefix (codeword i) (bits_of n acc)"
proof (cases "sym_bits i \<le> n")
  case True
  have b: "0 < sym_bits i" "sym_bits i < 32" using sym_bits_bounds [OF assms(1)] by simp_all
  note c = huffman_current_div [OF assms(2) True b]
  have "huffman_current acc n AND sym_mask (sym_bits i) = sym_lo i \<longleftrightarrow>
      (acc div 2 ^ (n - sym_bits i)) * 2 ^ (32 - sym_bits i) = sym_word i * 2 ^ (32 - sym_bits i)"
    by (simp only: and_sym_mask [OF c(1) b] c(2) sym_lo_word(1) [OF assms(1)])
  also have "\<dots> \<longleftrightarrow> prefix (codeword i) (bits_of n acc)"
    using codeword_at [OF assms(1,2) True] by simp
  finally show ?thesis using True by (simp add: sym_bits_def sym_lo_def)
next
  case False
  then have "\<not> prefix (codeword i) (bits_of n acc)"
    by (metis length_bits_of length_codeword prefix_length_le)
  with False show ?thesis by (simp add: sym_bits_def)
qed

lemma huffman_match_prefix:
  assumes "acc < 2 ^ n"
  shows "(case huffman_match (huffman_current acc n) n of
      Some (i, s) \<Rightarrow> i < 257 \<and> s = HUFFMAN_TABLE ! i \<and> prefix (codeword i) (bits_of n acc)
    | None \<Rightarrow> pc.stuck (bits_of n acc))"
proof (cases "huffman_match (huffman_current acc n) n")
  case None
  have "\<not> prefix (codeword i) (bits_of n acc)" if "i < 257" for i
  proof -
    have "(i, HUFFMAN_TABLE ! i) \<in> set (enumerate 0 HUFFMAN_TABLE)"
      using that by (simp add: in_set_enumerate_eq)
    with None have "\<not> (hs_bits (HUFFMAN_TABLE ! i) \<le> n \<and>
        huffman_current acc n AND sym_mask (hs_bits (HUFFMAN_TABLE ! i)) = hs_code (HUFFMAN_TABLE ! i))"
      by (force simp: huffman_match_def find_None_iff)
    then show ?thesis using huffman_match_iff [OF that assms] by blast
  qed
  with None show ?thesis by (simp add: pc.stuck_def)
next
  case (Some r)
  then show ?thesis
    using huffman_match_iff [OF _ assms] by (cases r) (auto dest!: huffman_match_Some)
qed

abbreviation sym_words :: "nat list \<Rightarrow> bool list" where
  "sym_words xs \<equiv> concat (map codeword xs)"

lemma huffman_bits_words: "huffman_bits data = sym_words (map unat data)"
  by (induction data) auto

lemma short_stuck: "length p < 5 \<Longrightarrow> pc.stuck p"
  using sym_bits_bounds by (fastforce simp: pc.stuck_def dest!: prefix_length_le)

lemma stuck_length: "pc.stuck p \<Longrightarrow> length p < 30"
  using codeword_exists [of p] by (auto simp: pc.stuck_def not_le [symmetric])

lemma drop_codeword:
  assumes "i < 257" "acc < 2 ^ n" "prefix (codeword i) (bits_of n acc)"
  shows "bits_of n acc = codeword i @ bits_of (n - sym_bits i) (acc mod 2 ^ (n - sym_bits i))"
    "sym_bits i \<le> n"
proof -
  show b: "sym_bits i \<le> n" using prefix_length_le [OF assms(3)] by simp
  have "acc div 2 ^ (n - sym_bits i) = sym_word i"
    using codeword_at [OF assms(1,2) b] assms(3) by simp
  with bits_of_split [of "sym_bits i" "n - sym_bits i" acc] b
  show "bits_of n acc = codeword i @ bits_of (n - sym_bits i) (acc mod 2 ^ (n - sym_bits i))"
    by (simp add: codeword_def)
qed

text \<open>
  \<open>symbols_spec bits base r\<close>: what a run over the pending bits \<open>bits\<close> may answer when \<open>base\<close> has
  been decoded before: either symbols were taken off and the rest holds no further word, or the
  EOS word was met.
\<close>

definition symbols_spec ::
    "bool list \<Rightarrow> bytes \<Rightarrow> qpack_error + u64 \<times> u32 \<times> bytes \<Rightarrow> bool" where
  "symbols_spec bits base r =
    (case r of
       Inr (acc, n, res) \<Rightarrow> acc < 2 ^ n \<and> pc.stuck (bits_of n acc) \<and>
         (\<exists>xs. res = base @ xs \<and> bits = huffman_bits xs @ bits_of n acc)
     | Inl e \<Rightarrow> e = InvalidHuffman \<and>
         (\<exists>xs rest. bits = huffman_bits xs @ codeword 256 @ rest))"

lemma symbols_spec_shift:
  assumes "symbols_spec bits (base @ xs) r"
  shows "symbols_spec (huffman_bits xs @ bits) base r"
proof (cases r)
  case (Inl e)
  with assms obtain ys rest where "e = InvalidHuffman" "bits = huffman_bits ys @ codeword 256 @ rest"
    by (auto simp: symbols_spec_def)
  then have "huffman_bits xs @ bits = huffman_bits (xs @ ys) @ codeword 256 @ rest" by simp
  with \<open>e = InvalidHuffman\<close> Inl show ?thesis unfolding symbols_spec_def by (simp only: sum.case) blast
next
  case (Inr t)
  then obtain acc n res where r: "r = Inr (acc, n, res)" by (cases t) auto
  with assms obtain ys where "res = base @ xs @ ys" "bits = huffman_bits ys @ bits_of n acc"
    "acc < 2 ^ n" "pc.stuck (bits_of n acc)"
    by (auto simp: symbols_spec_def)
  then show ?thesis
    unfolding symbols_spec_def r by (auto intro!: exI [of _ "xs @ ys"])
qed

lemma huffman_symbols_spec:
  assumes "acc < 2 ^ n"
  shows "symbols_spec (bits_of n acc) base (huffman_symbols acc n base)"
  using assms
proof (induction n arbitrary: acc base rule: less_induct)
  case (less n)
  have stop: "symbols_spec (bits_of n acc) base (Inr (acc, n, base))" if "pc.stuck (bits_of n acc)"
    using that less.prems by (simp add: symbols_spec_def)
  note m = huffman_match_prefix [OF less.prems]
  show ?case
  proof (cases "5 \<le> n")
    case False
    then have "pc.stuck (bits_of n acc)" by (intro short_stuck) simp
    with False stop show ?thesis by (subst huffman_symbols.simps) simp
  next
    case True
    show ?thesis
    proof (cases "huffman_match (huffman_current acc n) n")
      case None
      with True m stop show ?thesis by (subst huffman_symbols.simps) simp
    next
      case (Some t)
      then obtain i where t: "huffman_match (huffman_current acc n) n = Some (i, HUFFMAN_TABLE ! i)"
        and i: "i < 257" "prefix (codeword i) (bits_of n acc)"
        using m by (cases t) auto
      note d = drop_codeword [OF i(1) less.prems i(2)]
      show ?thesis
      proof (cases "i = 256")
        case True
        obtain rest where "bits_of n acc = codeword 256 @ rest"
          using i(2) True by (auto simp: prefix_def)
        then have "bits_of n acc = huffman_bits [] @ codeword 256 @ rest" by simp
        then have "\<exists>xs rest. bits_of n acc = huffman_bits xs @ codeword 256 @ rest" by blast
        with True t \<open>5 \<le> n\<close> show ?thesis
          by (subst huffman_symbols.simps) (simp add: symbols_spec_def)
      next
        case False
        let ?n = "n - sym_bits i" and ?b = "as_u8 i"
        have b: "unat ?b = i" using False i(1) by simp
        have step: "huffman_symbols acc n base = huffman_symbols (acc mod 2 ^ ?n) ?n (base @ [?b])"
          using True False t
          by (subst huffman_symbols.simps)
            (simp add: sym_bits_def Let_def nat_and_mask [unfolded One_nat_def])
        have "?n < n" using True sym_bits_bounds [OF i(1)] by simp
        from less.IH [OF this, of "acc mod 2 ^ ?n" "base @ [?b]"]
        have "symbols_spec (huffman_bits [?b] @ bits_of ?n (acc mod 2 ^ ?n)) base
            (huffman_symbols (acc mod 2 ^ ?n) ?n (base @ [?b]))"
          by (intro symbols_spec_shift) simp
        with d(1) b step show ?thesis by simp
      qed
    qed
  qed
qed

lemma huffman_decode_loop_spec:
  assumes "acc < 2 ^ n" "pc.stuck (bits_of n acc)"
  shows "symbols_spec (bits_of n acc @ byte_bits data) base (huffman_decode_loop data acc n base)"
  using assms
proof (induction data arbitrary: acc n base)
  case Nil
  then show ?case by (simp add: symbols_spec_def)
next
  case (Cons b data)
  have n: "n < 30" using stuck_length [OF Cons.prems(2)] by simp
  have "acc * 2 ^ 8 < 2 ^ n * 2 ^ 8" using Cons.prems(1) by simp
  also have "(2 :: nat) ^ n * 2 ^ 8 \<le> 2 ^ 30 * 2 ^ 8"
    using n by (intro mult_le_mono1 power_increasing) simp_all
  finally have "take_bit 64 (push_bit 8 acc) = acc * 2 ^ 8"
    by (simp add: push_bit_eq_mult take_bit_nat_eq_self)
  moreover have "unat b OR acc * 2 ^ 8 = unat b + acc * 2 ^ 8"
    by (rule nat_or_tag) simp
  ultimately have acc: "take_bit 64 (push_bit 8 acc) OR unat b = acc * 2 ^ 8 + unat b" (is "?acc = _")
    by (simp only: or.commute add.commute)
  have b: "unat b < 2 ^ 8" by simp
  have bits: "bits_of (n + 8) ?acc = bits_of n acc @ bits_of 8 (unat b)"
    unfolding acc by (rule bits_of_append) (rule b)
  have "(acc + 1) * 2 ^ 8 \<le> 2 ^ n * 2 ^ 8" using Cons.prems(1) by (intro mult_le_mono1) simp
  then have "acc * 2 ^ 8 + 2 ^ 8 \<le> 2 ^ (n + 8)" by (simp add: power_add)
  with b have lt: "?acc < 2 ^ (n + 8)" unfolding acc by linarith
  note sp = huffman_symbols_spec [OF lt, of base]
  show ?case
  proof (cases "huffman_symbols ?acc (n + 8) base")
    case (Inl e)
    with sp obtain xs rest where "e = InvalidHuffman" and
      "bits_of n acc @ bits_of 8 (unat b) = huffman_bits xs @ codeword 256 @ rest"
      unfolding bits by (auto simp: symbols_spec_def)
    then have "bits_of n acc @ byte_bits (b # data) =
        huffman_bits xs @ codeword 256 @ (rest @ byte_bits data)"
      by (metis append.assoc byte_bits_simps(2))
    then have "\<exists>xs rest. bits_of n acc @ byte_bits (b # data) = huffman_bits xs @ codeword 256 @ rest"
      by blast
    with Inl \<open>e = InvalidHuffman\<close> show ?thesis by (simp add: symbols_spec_def)
  next
    case (Inr t)
    then obtain acc' n' res where r: "huffman_symbols ?acc (n + 8) base = Inr (acc', n', res)"
      by (cases t) auto
    with sp obtain xs where x: "acc' < 2 ^ n'" "pc.stuck (bits_of n' acc')" "res = base @ xs"
      "bits_of n acc @ bits_of 8 (unat b) = huffman_bits xs @ bits_of n' acc'"
      unfolding bits by (auto simp: symbols_spec_def)
    have "symbols_spec (huffman_bits xs @ (bits_of n' acc' @ byte_bits data)) base
        (huffman_decode_loop data acc' n' res)"
      using Cons.IH [OF x(1,2), of "base @ xs"] x(3) by (intro symbols_spec_shift) simp
    moreover have "huffman_bits xs @ (bits_of n' acc' @ byte_bits data) =
        bits_of n acc @ byte_bits (b # data)"
      by (metis append.assoc byte_bits_simps(2) x(4))
    ultimately show ?thesis using r by simp
  qed
qed

text \<open>All-ones paddings of up to seven bits hold no word: they are a strict prefix of EOS.\<close>

lemma codeword_eos: "codeword 256 = replicate 30 True"
proof -
  have "sym_bits 256 = 30" "sym_word 256 = 2 ^ 30 - 1"
    by (simp_all add: sym_bits_def sym_word_def sym_lo_def sym_width_def huffman_nth)
  then show ?thesis using bits_of_ones [of 30] by (simp only: codeword_def)
qed

lemma padding_stuck:
  assumes "k < 30"
  shows "pc.stuck (replicate k True)"
proof -
  have "\<not> prefix (codeword i) (replicate k True)" if i: "i < 257" for i
  proof
    assume p: "prefix (codeword i) (replicate k True)"
    have "codeword 256 = replicate k True @ replicate (30 - k) True"
      using assms by (simp only: codeword_eos replicate_add [symmetric]) simp
    then have "prefix (replicate k True) (codeword 256)" by simp
    with p have "prefix (codeword i) (codeword 256)" by (rule prefix_order.trans)
    with i have "i = 256" using codewords_unique [of i 256 "codeword 256"] by simp
    with p have "length (codeword 256) \<le> k" using prefix_length_le by fastforce
    with assms show False unfolding codeword_eos by simp
  qed
  then show ?thesis by (simp add: pc.stuck_def)
qed

lemma huffman_decode_exact:
  "huffman_decode data = Inr r \<longleftrightarrow>
    (\<exists>k \<le> 7. byte_bits data = huffman_bits r @ replicate k True)"
proof -
  have "pc.stuck (bits_of 0 0)" by (rule short_stuck) simp
  from huffman_decode_loop_spec [OF _ this, of data "[]"]
  have sp: "symbols_spec (byte_bits data) [] (huffman_decode_loop data 0 0 [])" by simp
  show ?thesis
  proof (cases "huffman_decode_loop data 0 0 []")
    case (Inl e)
    with sp obtain xs rest where eos: "byte_bits data = huffman_bits xs @ codeword 256 @ rest"
      by (auto simp: symbols_spec_def)
    have "byte_bits data \<noteq> huffman_bits r @ replicate k True" if k: "k \<le> 7" for k
    proof
      assume "byte_bits data = huffman_bits r @ replicate k True"
      with eos have "sym_words (map unat xs @ [256]) @ rest = sym_words (map unat r) @ replicate k True"
        by (simp add: huffman_bits_words del: map_map)
      then have "prefix (map unat xs @ [256]) (map unat r)"
        by (intro pc.words_prefix) (use padding_stuck k in auto)
      then have "256 \<in> set (map unat r)" by (auto dest!: set_mono_prefix)
      then obtain b where "256 = unat (b :: u8)" by auto
      with unat_u8_lt [of b] show False by simp
    qed
    with Inl show ?thesis by (auto simp: huffman_decode_def)
  next
    case (Inr t)
    then obtain acc n res where t: "huffman_decode_loop data 0 0 [] = Inr (acc, n, res)"
      by (cases t) auto
    with sp have x: "acc < 2 ^ n" "pc.stuck (bits_of n acc)"
      "byte_bits data = huffman_bits res @ bits_of n acc"
      by (auto simp: symbols_spec_def)
    have dec: "huffman_decode data = Inr r \<longleftrightarrow> r = res \<and> n \<le> 7 \<and> acc = 2 ^ n - 1"
      using x(1) by (auto simp: huffman_decode_def t Let_def nat_and_mask [unfolded One_nat_def])
    have ones: "bits_of n acc = replicate k True \<longleftrightarrow> n = k \<and> acc = 2 ^ n - 1" for k
      using x(1) bits_of_ones [of n] bits_of_inj [of n acc "2 ^ n - 1"]
      by (metis diff_less length_bits_of length_replicate zero_less_numeral zero_less_one zero_less_power)
    have "byte_bits data = huffman_bits r @ replicate k True \<longleftrightarrow>
        res = r \<and> bits_of n acc = replicate k True" if k: "k \<le> 7" for k
    proof
      assume "byte_bits data = huffman_bits r @ replicate k True"
      then have "sym_words (map unat res) @ bits_of n acc = sym_words (map unat r) @ replicate k True"
        using x(3) by (simp add: huffman_bits_words del: map_map)
      moreover have "set (map unat bs) \<subseteq> {..<257}" for bs :: bytes by auto
      moreover have "k < 30" using k by simp
      ultimately have "map unat res = map unat r \<and> bits_of n acc = replicate k True"
        using pc.words_unique [OF _ _ x(2) padding_stuck, of "map unat res" "map unat r" k]
        by blast
      moreover have "inj (unat :: u8 \<Rightarrow> nat)" by (simp add: inj_def word_unat_eq_iff)
      ultimately show "res = r \<and> bits_of n acc = replicate k True"
        by (metis inj_map_eq_map)
    qed (use x(3) in simp)
    then have "(\<exists>k \<le> 7. byte_bits data = huffman_bits r @ replicate k True) \<longleftrightarrow>
        (\<exists>k \<le> 7. res = r \<and> bits_of n acc = replicate k True)"
      by (simp cong: conj_cong)
    then show ?thesis unfolding dec ones by auto
  qed
qed

text \<open>Decoding what was encoded, and the only error there is.\<close>

lemma huffman_decode_bytes: "huffman_decode (huffman_bytes data) = Inr data"
  using huffman_bytes_bits(2) [of data] by (auto simp: huffman_decode_exact less_Suc_eq_le numeral_eq_Suc)

lemma huffman_decode_error: "huffman_decode data = Inl e \<Longrightarrow> e = InvalidHuffman"
proof -
  have "pc.stuck (bits_of 0 0)" by (rule short_stuck) simp
  from huffman_decode_loop_spec [OF _ this, of data "[]"]
  show "huffman_decode data = Inl e \<Longrightarrow> e = InvalidHuffman"
    by (cases "huffman_decode_loop data 0 0 []")
      (auto simp: huffman_decode_def symbols_spec_def Let_def split: if_splits)
qed

section \<open>Properties of the Huffman coding\<close>

text \<open>
  C37: Huffman coding is lossless.  Every string whose encoding fits the buffer is written at its
  start, in the announced length, without touching the rest, and decoding these bytes gives the
  string back; a buffer that is too small is refused.
\<close>

theorem huffman_roundtrip:
  "if length buf < huffman_encoded_len data then huffman_encode buf data = None
   else \<exists>buf'. huffman_encode buf data = Some (buf', huffman_encoded_len data) \<and>
     drop (huffman_encoded_len data) buf' = drop (huffman_encoded_len data) buf \<and>
     huffman_decode (take (huffman_encoded_len data) buf') = Inr data"
  by (simp add: huffman_encode_written written_def huffman_bytes_bits(1) huffman_decode_bytes)

text \<open>
  C35: The decoder accepts exactly the encodings of RFC 7541: the concatenated code words of the
  result, followed by at most seven one bits.  A padding with a zero bit or of a whole byte and
  the EOS symbol are refused, with no other error than \<open>InvalidHuffman\<close>; the accumulator of 64
  bits never loses a bit.
\<close>

theorem huffman_decode_characterised:
  "(huffman_decode data = Inr r \<longleftrightarrow>
     (\<exists>k. k \<le> 7 \<and> byte_bits data = concat (map (\<lambda>b. codeword (unat b)) r) @ replicate k True)) \<and>
   ((\<exists>x. huffman_decode data = Inr x) \<or> huffman_decode data = Inl InvalidHuffman)"
  using huffman_decode_error [of data] huffman_decode_exact [of data r]
  by (cases "huffman_decode data") simp_all

text \<open>
  C38: The code table is a complete prefix code: the words of any two of the 257 symbols, EOS
  included, are never prefixes of one another, and every sequence of 30 bits starts with a word.
\<close>

theorem huffman_table_complete_prefix_code:
  "(prefix (codeword i) (codeword j @ p) \<and> i < 257 \<and> j < 257 \<longrightarrow> i = j) \<and>
   (30 \<le> length p \<longrightarrow> (\<exists>k. k < 257 \<and> prefix (codeword k) p))"
  using codewords_unique [of i j "codeword j @ p"] codeword_exists [of p] by auto

theorem huffman_table_complete_prefix_code_witness:
  "\<exists>k. k < 257 \<and> prefix (codeword k) (replicate 32 True)"
  using huffman_table_complete_prefix_code [of 0 0 "replicate 32 True"] by simp

end
