(* ===== verification/Header.thy ===== *)
theory Header
  imports Errors
begin

text \<open>
  Header fields (\<^verbatim>\<open>src/qpack/header.rs\<close>).  A \<open>header\<close> can only be built from a name and a value
  that passed \<open>check_header\<close>; \<open>field_grammar\<close> states declaratively what that means, and
  \<open>header_new_grammar\<close> shows that the byte-wise checks of the source accept exactly this.
\<close>

section \<open>Bytes\<close>

definition is_ascii_uppercase :: "u8 \<Rightarrow> bool" where
  "is_ascii_uppercase b \<longleftrightarrow> 0x41 \<le> b \<and> b \<le> 0x5a"

definition is_ascii_lowercase :: "u8 \<Rightarrow> bool" where
  "is_ascii_lowercase b \<longleftrightarrow> 0x61 \<le> b \<and> b \<le> 0x7a"

definition is_ascii_digit :: "u8 \<Rightarrow> bool" where
  "is_ascii_digit b \<longleftrightarrow> 0x30 \<le> b \<and> b \<le> 0x39"

definition is_ascii_alphabetic :: "u8 \<Rightarrow> bool" where
  "is_ascii_alphabetic b \<longleftrightarrow> is_ascii_uppercase b \<or> is_ascii_lowercase b"

definition token_punctuation :: "u8 list" where
  "token_punctuation =
    [0x21, 0x23, 0x24, 0x25, 0x26, 0x27, 0x2a, 0x2b, 0x2d, 0x2e, 0x5e, 0x5f, 0x60, 0x7c, 0x7e]"

definition is_lowercase_token_byte :: "u8 \<Rightarrow> bool" where
  "is_lowercase_token_byte b \<longleftrightarrow>
    b \<in> set token_punctuation \<or> is_ascii_digit b \<or> is_ascii_lowercase b"

definition is_field_vchar :: "u8 \<Rightarrow> bool" where
  "is_field_vchar b \<longleftrightarrow> (0x21 \<le> b \<and> b \<le> 0x7e) \<or> 0x80 \<le> b"

definition is_tchar :: "u8 \<Rightarrow> bool" where
  "is_tchar b \<longleftrightarrow>
    b \<in> set token_punctuation \<or> is_ascii_digit b \<or> is_ascii_uppercase b \<or> is_ascii_lowercase b"

section \<open>The checks\<close>

datatype check_result =
    CkOk
  | CkEmptyFieldName
  | CkUppercaseFieldName
  | CkInvalidFieldNameByte u8
  | CkInvalidFieldValueByte u8
  | CkFieldValueLeadingOrTrailingWhitespace
  | CkUnknownPseudoHeader
  | CkInvalidPseudoHeaderValue

definition KNOWN_PSEUDO_HEADERS :: "bytes list" where
  "KNOWN_PSEUDO_HEADERS =
    [ascii '':method'', ascii '':scheme'', ascii '':authority'', ascii '':path'', ascii '':status'',
     ascii '':protocol'']"

fun is_known_pseudo_header :: "bytes list \<Rightarrow> bytes \<Rightarrow> bool" where
  "is_known_pseudo_header [] name = False"
| "is_known_pseudo_header (k # ks) name = (if k = name then True else is_known_pseudo_header ks name)"

definition check_upgrade_token :: "bytes \<Rightarrow> check_result" where
  "check_upgrade_token v =
    (if v = [] then CkInvalidPseudoHeaderValue
     else
       let slash = length (takeWhile (\<lambda>b. b \<noteq> 0x2f) v) in
       if slash = length v then
         if list_all is_tchar v then CkOk else CkInvalidPseudoHeaderValue
       else if slash = 0 then CkInvalidPseudoHeaderValue
       else if \<not> list_all is_tchar (take slash v) then CkInvalidPseudoHeaderValue
       else if length v \<le> slash + 1 then CkInvalidPseudoHeaderValue
       else if \<not> list_all is_tchar (drop (slash + 1) v) then CkInvalidPseudoHeaderValue
       else CkOk)"

definition check_pseudo_value :: "bytes \<Rightarrow> bytes \<Rightarrow> check_result" where
  "check_pseudo_value name v =
    (if name = ascii '':method'' then
       if v = [] then CkInvalidPseudoHeaderValue
       else if list_all is_tchar v then CkOk else CkInvalidPseudoHeaderValue
     else if name = ascii '':scheme'' then
       if v = [] then CkInvalidPseudoHeaderValue
       else if \<not> is_ascii_alphabetic (v ! 0) then CkInvalidPseudoHeaderValue
       else if list_all (\<lambda>b. is_ascii_alphabetic b \<or> is_ascii_digit b \<or> b = 0x2b \<or> b = 0x2d \<or> b = 0x2e)
         (drop 1 v) then CkOk
       else CkInvalidPseudoHeaderValue
     else if name = ascii '':status'' then
       if length v \<noteq> 3 then CkInvalidPseudoHeaderValue
       else if list_all is_ascii_digit v then CkOk else CkInvalidPseudoHeaderValue
     else if name = ascii '':protocol'' then check_upgrade_token v
     else CkOk)"

fun check_name_bytes :: "bytes \<Rightarrow> check_result" where
  "check_name_bytes [] = CkOk"
| "check_name_bytes (b # bs) =
    (if is_ascii_uppercase b then CkUppercaseFieldName
     else if \<not> is_lowercase_token_byte b then CkInvalidFieldNameByte b
     else check_name_bytes bs)"

fun check_value_bytes :: "bytes \<Rightarrow> check_result" where
  "check_value_bytes [] = CkOk"
| "check_value_bytes (b # bs) =
    (if \<not> (is_field_vchar b \<or> b = 0x20 \<or> b = 0x09) then CkInvalidFieldValueByte b
     else check_value_bytes bs)"

definition check_header :: "bytes \<Rightarrow> bytes \<Rightarrow> check_result" where
  "check_header name v =
    (if name = [] then CkEmptyFieldName
     else
       let is_pseudo = (name ! 0 = 0x3a); name_start = (if is_pseudo then 1 else 0);
           checked = check_name_bytes (drop name_start name) in
       if checked \<noteq> CkOk then checked
       else if is_pseudo \<and> length name = 1 then CkUnknownPseudoHeader
       else if is_pseudo \<and> \<not> is_known_pseudo_header KNOWN_PSEUDO_HEADERS name then CkUnknownPseudoHeader
       else
         let checked = check_value_bytes v in
         if checked \<noteq> CkOk then checked
         else if v \<noteq> [] \<and> (\<not> is_field_vchar (v ! 0) \<or> \<not> is_field_vchar (v ! (length v - 1)))
         then CkFieldValueLeadingOrTrailingWhitespace
         else if is_pseudo then check_pseudo_value name v
         else CkOk)"

section \<open>Header fields\<close>

record header =
  h_name :: bytes
  h_value :: bytes
  never_indexed :: bool

datatype header_error =
    EmptyFieldName
  | UppercaseFieldName bytes
  | InvalidFieldNameByte bytes u8
  | InvalidFieldValueByte bytes u8
  | FieldValueLeadingOrTrailingWhitespace bytes
  | UnknownPseudoHeader bytes
  | InvalidPseudoHeaderValue bytes bytes

definition header_new :: "bytes \<Rightarrow> bytes \<Rightarrow> header_error + header" where
  "header_new name v =
    (case check_header name v of
       CkOk \<Rightarrow> Inr \<lparr>h_name = name, h_value = v, never_indexed = False\<rparr>
     | CkEmptyFieldName \<Rightarrow> Inl EmptyFieldName
     | CkUppercaseFieldName \<Rightarrow> Inl (UppercaseFieldName name)
     | CkInvalidFieldNameByte b \<Rightarrow> Inl (InvalidFieldNameByte name b)
     | CkInvalidFieldValueByte b \<Rightarrow> Inl (InvalidFieldValueByte name b)
     | CkFieldValueLeadingOrTrailingWhitespace \<Rightarrow> Inl (FieldValueLeadingOrTrailingWhitespace name)
     | CkUnknownPseudoHeader \<Rightarrow> Inl (UnknownPseudoHeader name)
     | CkInvalidPseudoHeaderValue \<Rightarrow> Inl (InvalidPseudoHeaderValue name v))"

text \<open>
  \<^verbatim>\<open>Header::from_static\<close> panics on a malformed literal: the \<open>undefined\<close> branch, that no literal of
  the program takes (\<open>STATIC_TABLE_parts\<close> for the static table).
\<close>

definition header_from_static :: "bytes \<Rightarrow> bytes \<Rightarrow> header" where
  "header_from_static name v =
    (if check_header name v = CkOk then \<lparr>h_name = name, h_value = v, never_indexed = False\<rparr>
     else undefined)"

definition header_from_validated_parts :: "bytes \<Rightarrow> bytes \<Rightarrow> header" where
  "header_from_validated_parts name v = \<lparr>h_name = name, h_value = v, never_indexed = False\<rparr>"

definition header_size :: "header \<Rightarrow> usize" where
  "header_size h = length (h_name h) + length (h_value h) + 32"

definition with_never_indexed :: "header \<Rightarrow> bool \<Rightarrow> header" where
  "with_never_indexed h b = h\<lparr>never_indexed := b\<rparr>"

definition SENSITIVE_HEADER_NAMES :: "bytes list" where
  "SENSITIVE_HEADER_NAMES =
    [ascii ''authorization'', ascii ''proxy-authorization'', ascii ''cookie'', ascii ''set-cookie'']"

definition is_sensitive_header_name :: "bytes \<Rightarrow> bool" where
  "is_sensitive_header_name name \<longleftrightarrow> name \<in> set SENSITIVE_HEADER_NAMES"

section \<open>The grammar of header fields\<close>

definition value_grammar :: "bytes \<Rightarrow> bool" where
  "value_grammar v \<longleftrightarrow>
    (\<forall>b \<in> set v. is_field_vchar b \<or> b = 0x20 \<or> b = 0x09) \<and>
    (v \<noteq> [] \<longrightarrow> is_field_vchar (hd v) \<and> is_field_vchar (last v))"

definition token :: "bytes \<Rightarrow> bool" where
  "token v \<longleftrightarrow> v \<noteq> [] \<and> (\<forall>b \<in> set v. is_tchar b)"

definition upgrade_token :: "bytes \<Rightarrow> bool" where
  "upgrade_token v \<longleftrightarrow> token v \<or> (\<exists>n p. v = n @ 0x2f # p \<and> token n \<and> token p)"

definition scheme_grammar :: "bytes \<Rightarrow> bool" where
  "scheme_grammar v \<longleftrightarrow>
    (\<exists>b bs. v = b # bs \<and> is_ascii_alphabetic b \<and>
      (\<forall>c \<in> set bs. is_ascii_alphabetic c \<or> is_ascii_digit c \<or> c \<in> {0x2b, 0x2d, 0x2e}))"

definition status_grammar :: "bytes \<Rightarrow> bool" where
  "status_grammar v \<longleftrightarrow> length v = 3 \<and> (\<forall>b \<in> set v. is_ascii_digit b)"

text \<open>A field: a lowercase token with any value, or one of the six pseudo headers.\<close>

definition field_grammar :: "bytes \<Rightarrow> bytes \<Rightarrow> bool" where
  "field_grammar n v \<longleftrightarrow> value_grammar v \<and>
    ((n \<noteq> [] \<and> (\<forall>b \<in> set n. is_lowercase_token_byte b))
     \<or> n = ascii '':method'' \<and> token v
     \<or> n = ascii '':scheme'' \<and> scheme_grammar v
     \<or> n = ascii '':status'' \<and> status_grammar v
     \<or> n = ascii '':protocol'' \<and> upgrade_token v
     \<or> n = ascii '':authority'' \<or> n = ascii '':path'')"

definition wf_header :: "header \<Rightarrow> bool" where
  "wf_header h \<longleftrightarrow> field_grammar (h_name h) (h_value h)"

lemma check_name_bytes_Ok: "check_name_bytes bs = CkOk \<longleftrightarrow> (\<forall>b \<in> set bs. is_lowercase_token_byte b)"
proof -
  have "is_lowercase_token_byte b \<Longrightarrow> \<not> is_ascii_uppercase b" for b
    by (auto simp: is_lowercase_token_byte_def token_punctuation_def is_ascii_uppercase_def
        is_ascii_digit_def is_ascii_lowercase_def word_le_nat_alt)
  then show ?thesis by (induction bs) auto
qed

lemma check_value_bytes_Ok:
  "check_value_bytes bs = CkOk \<longleftrightarrow> (\<forall>b \<in> set bs. is_field_vchar b \<or> b = 0x20 \<or> b = 0x09)"
  by (induction bs) auto

lemma is_known_pseudo_header_mem: "is_known_pseudo_header ks n \<longleftrightarrow> n \<in> set ks"
  by (induction ks) auto

lemma slash_not_tchar: "\<not> is_tchar 0x2f"
  by (simp add: is_tchar_def token_punctuation_def is_ascii_digit_def is_ascii_uppercase_def
      is_ascii_lowercase_def)

lemma check_upgrade_token_Ok: "check_upgrade_token v = CkOk \<longleftrightarrow> upgrade_token v"
proof -
  let ?n = "takeWhile (\<lambda>b. b \<noteq> 0x2f) v"
  show ?thesis
  proof (cases "0x2f \<in> set v")
    case False
    then have n: "?n = v" by (auto simp: takeWhile_eq_all_conv)
    from False have "\<not> (\<exists>n p. v = n @ 0x2f # p)" by auto
    then have "upgrade_token v \<longleftrightarrow> token v" by (auto simp: upgrade_token_def)
    moreover have "check_upgrade_token v = CkOk \<longleftrightarrow> token v"
      by (simp only: check_upgrade_token_def Let_def n refl if_True) (simp add: token_def list_all_iff)
    ultimately show ?thesis by simp
  next
    case True
    then obtain a p where v: "v = a @ 0x2f # p" and a: "0x2f \<notin> set a"
      using split_list_first by metis
    then have n: "?n = a" unfolding v by (subst takeWhile_append2) auto
    have "\<not> token v" using True slash_not_tchar by (auto simp: token_def)
    moreover have "(\<exists>n p. v = n @ 0x2f # p \<and> token n \<and> token p) \<longleftrightarrow> token a \<and> token p"
    proof
      assume "\<exists>n p. v = n @ 0x2f # p \<and> token n \<and> token p"
      then obtain n' p' where v': "v = n' @ 0x2f # p'" "token n'" "token p'" by blast
      then have "0x2f \<notin> set n'" using slash_not_tchar by (auto simp: token_def)
      then have "?n = n'" unfolding v'(1) by (subst takeWhile_append2) auto
      with n have "n' = a" by simp
      with v v' show "token a \<and> token p" by simp
    qed (use v in blast)
    moreover have "check_upgrade_token v = CkOk \<longleftrightarrow> token a \<and> token p"
      unfolding check_upgrade_token_def Let_def n by (simp add: v token_def list_all_iff)
    ultimately show ?thesis by (simp add: upgrade_token_def)
  qed
qed

lemma check_pseudo_value_Ok:
  assumes "n \<in> set KNOWN_PSEUDO_HEADERS"
  shows "check_pseudo_value n v = CkOk \<longleftrightarrow>
     (n = ascii '':method'' \<and> token v
      \<or> n = ascii '':scheme'' \<and> scheme_grammar v
      \<or> n = ascii '':status'' \<and> status_grammar v
      \<or> n = ascii '':protocol'' \<and> upgrade_token v
      \<or> n = ascii '':authority'' \<or> n = ascii '':path'')"
proof -
  have scheme: "v \<noteq> [] \<and> is_ascii_alphabetic (v ! 0) \<and>
      list_all (\<lambda>b. is_ascii_alphabetic b \<or> is_ascii_digit b \<or> b = 0x2b \<or> b = 0x2d \<or> b = 0x2e) (drop 1 v)
      \<longleftrightarrow> scheme_grammar v"
    by (cases v) (auto simp: scheme_grammar_def list_all_iff)
  from assms show ?thesis
    using scheme
    by (auto simp: KNOWN_PSEUDO_HEADERS_def check_pseudo_value_def ascii_inject token_def
        status_grammar_def list_all_iff check_upgrade_token_Ok)
qed

lemma known_pseudo_colon:
  assumes "n \<in> set KNOWN_PSEUDO_HEADERS"
  shows "n \<noteq> []" "n ! 0 = 0x3a" "length n \<noteq> 1" "check_name_bytes (drop 1 n) = CkOk"
  using assms unfolding check_name_bytes_Ok
  by (auto simp: KNOWN_PSEUDO_HEADERS_def ascii_def is_lowercase_token_byte_def
      is_ascii_lowercase_def)

lemma colon_not_token: "\<not> is_lowercase_token_byte 0x3a"
  by (simp add: is_lowercase_token_byte_def token_punctuation_def is_ascii_digit_def
      is_ascii_lowercase_def)

lemma value_ok:
  "check_value_bytes v = CkOk \<and>
    \<not> (v \<noteq> [] \<and> (\<not> is_field_vchar (v ! 0) \<or> \<not> is_field_vchar (v ! (length v - 1)))) \<longleftrightarrow>
   value_grammar v"
  by (auto simp: check_value_bytes_Ok value_grammar_def hd_conv_nth last_conv_nth)

lemma value_checks:
  "(if check_value_bytes v \<noteq> CkOk then check_value_bytes v
    else if v \<noteq> [] \<and> (\<not> is_field_vchar (v ! 0) \<or> \<not> is_field_vchar (v ! (length v - 1)))
    then CkFieldValueLeadingOrTrailingWhitespace else r) = CkOk \<longleftrightarrow> value_grammar v \<and> r = CkOk"
  by (simp only: value_ok [symmetric] split: if_split) simp

lemma check_header_Ok: "check_header n v = CkOk \<longleftrightarrow> field_grammar n v"
proof (cases "n = []")
  case True
  then show ?thesis by (simp add: check_header_def field_grammar_def ascii_def)
next
  case ne: False
  let ?known = "n \<in> set KNOWN_PSEUDO_HEADERS"
  have grammar: "field_grammar n v \<longleftrightarrow> value_grammar v \<and>
      ((\<forall>b \<in> set n. is_lowercase_token_byte b) \<or> ?known \<and> check_pseudo_value n v = CkOk)"
  proof (cases ?known)
    case True
    with check_pseudo_value_Ok [OF True, of v] ne show ?thesis by (simp add: field_grammar_def)
  next
    case False
    with ne show ?thesis by (auto simp: field_grammar_def KNOWN_PSEUDO_HEADERS_def)
  qed
  show ?thesis
  proof (cases "n ! 0 = 0x3a")
    case True
    then have "0x3a \<in> set n" using ne by (metis length_greater_0_conv nth_mem)
    then have "\<not> (\<forall>b \<in> set n. is_lowercase_token_byte b)" using colon_not_token by blast
    moreover have "check_header n v = CkOk \<longleftrightarrow> ?known \<and> value_grammar v \<and> check_pseudo_value n v = CkOk"
    proof (cases ?known)
      case k: True
      note c = known_pseudo_colon [OF k]
      have "check_header n v =
          (if check_value_bytes v \<noteq> CkOk then check_value_bytes v
           else if v \<noteq> [] \<and> (\<not> is_field_vchar (v ! 0) \<or> \<not> is_field_vchar (v ! (length v - 1)))
           then CkFieldValueLeadingOrTrailingWhitespace else check_pseudo_value n v)"
        using True ne c k by (simp add: check_header_def Let_def is_known_pseudo_header_mem)
      with k value_checks show ?thesis by simp
    next
      case False
      then have "check_header n v \<noteq> CkOk"
        using True ne
        by (simp only: check_header_def Let_def is_known_pseudo_header_mem) (simp split del: if_split, simp)
      with False show ?thesis by simp
    qed
    ultimately show ?thesis unfolding grammar by blast
  next
    case False
    then have "\<not> ?known" using known_pseudo_colon by blast
    moreover have "check_header n v = CkOk \<longleftrightarrow> check_name_bytes n = CkOk \<and> value_grammar v"
    proof (cases "check_name_bytes n = CkOk")
      case True
      then have "check_header n v =
          (if check_value_bytes v \<noteq> CkOk then check_value_bytes v
           else if v \<noteq> [] \<and> (\<not> is_field_vchar (v ! 0) \<or> \<not> is_field_vchar (v ! (length v - 1)))
           then CkFieldValueLeadingOrTrailingWhitespace else CkOk)"
        using False ne by (simp add: check_header_def Let_def)
      with True value_checks show ?thesis by simp
    qed (use False ne in \<open>simp add: check_header_def Let_def\<close>)
    ultimately show ?thesis unfolding grammar check_name_bytes_Ok by blast
  qed
qed

lemma header_new_Ok:
  "header_new n v = Inr h \<longleftrightarrow>
    field_grammar n v \<and> h = \<lparr>h_name = n, h_value = v, never_indexed = False\<rparr>"
  unfolding check_header_Ok [symmetric] by (cases "check_header n v") (auto simp: header_new_def)

section \<open>Properties of header fields\<close>

text \<open>
  C40: A header field is accepted exactly when it follows the grammar of RFC 9110 and RFC 9114,
  and then carries its two parts unchanged.  In particular no accepted name or value contains
  NUL, CR or LF, no name contains an uppercase letter, and a name that starts with a colon is one
  of the six pseudo headers.
\<close>

theorem header_new_grammar:
  "(header_new n v = Inr h \<longleftrightarrow>
      field_grammar n v \<and> h = \<lparr>h_name = n, h_value = v, never_indexed = False\<rparr>) \<and>
   (header_new n v = Inr h \<longrightarrow>
      set (h_name h @ h_value h) \<inter> {0x00, 0x0d, 0x0a} = {} \<and>
      (\<forall>b. b \<in> set (h_name h) \<longrightarrow> \<not> is_ascii_uppercase b) \<and>
      (h_name h ! 0 = 0x3a \<longrightarrow> h_name h \<in> set KNOWN_PSEUDO_HEADERS))"
proof -
  have bad: "\<not> is_lowercase_token_byte b" "\<not> is_field_vchar b" "b \<noteq> 0x20" "b \<noteq> 0x09"
    if "b \<in> {0x00, 0x0d, 0x0a}" for b
    using that by (auto simp: is_lowercase_token_byte_def token_punctuation_def
        is_ascii_digit_def is_ascii_lowercase_def is_field_vchar_def)
  have up: "is_lowercase_token_byte b \<Longrightarrow> \<not> is_ascii_uppercase b" for b
    by (auto simp: is_lowercase_token_byte_def token_punctuation_def is_ascii_uppercase_def
        is_ascii_digit_def is_ascii_lowercase_def word_le_nat_alt)
  have known: "set n \<inter> {0x00, 0x0d, 0x0a} = {} \<and> (\<forall>b \<in> set n. \<not> is_ascii_uppercase b)"
    if "n \<in> set KNOWN_PSEUDO_HEADERS" for n
    using that by (auto simp: KNOWN_PSEUDO_HEADERS_def ascii_def is_ascii_uppercase_def)
  have name: "n \<in> set KNOWN_PSEUDO_HEADERS \<or> n \<noteq> [] \<and> (\<forall>b \<in> set n. is_lowercase_token_byte b)"
    if "field_grammar n v" for n v
    using that by (auto simp: field_grammar_def KNOWN_PSEUDO_HEADERS_def)
  have colon: "n ! 0 \<noteq> 0x3a" if "n \<noteq> []" "\<forall>b \<in> set n. is_lowercase_token_byte b" for n
    using that colon_not_token nth_mem [of 0 n] by force
  have "set (n @ v) \<inter> {0x00, 0x0d, 0x0a} = {} \<and> (\<forall>b \<in> set n. \<not> is_ascii_uppercase b) \<and>
      (n ! 0 = 0x3a \<longrightarrow> n \<in> set KNOWN_PSEUDO_HEADERS)" if f: "field_grammar n v"
  proof -
    have "is_field_vchar b \<or> b = 0x20 \<or> b = 0x09" if "b \<in> set v" for b
      using f that by (simp add: field_grammar_def value_grammar_def)
    then have "set v \<inter> {0x00, 0x0d, 0x0a} = {}" using bad(2-4) by blast
    moreover have "set n \<inter> {0x00, 0x0d, 0x0a} = {} \<and> (\<forall>b \<in> set n. \<not> is_ascii_uppercase b)"
      using name [OF f] known [of n] bad(1) up by blast
    ultimately have "set (n @ v) \<inter> {0x00, 0x0d, 0x0a} = {}" "\<forall>b \<in> set n. \<not> is_ascii_uppercase b"
      by (simp_all add: Int_Un_distrib2)
    with name [OF f] colon [of n] show ?thesis by blast
  qed
  moreover note header_new_Ok [of n v h]
  moreover have "h_name \<lparr>h_name = n, h_value = v, never_indexed = False\<rparr> = n"
    "h_value \<lparr>h_name = n, h_value = v, never_indexed = False\<rparr> = v" by simp_all
  ultimately show ?thesis by metis
qed

theorem header_new_grammar_witness:
  "set (ascii ''x-a'' @ ascii ''1'') \<inter> {0x00, 0x0d, 0x0a} = {}"
proof -
  have "value_grammar (ascii ''1'')"
    by (simp add: value_grammar_def ascii_def is_field_vchar_def)
  moreover have "ascii ''x-a'' \<noteq> [] \<and> (\<forall>b \<in> set (ascii ''x-a''). is_lowercase_token_byte b)"
    by (simp add: ascii_def is_lowercase_token_byte_def is_ascii_lowercase_def token_punctuation_def)
  ultimately have "field_grammar (ascii ''x-a'') (ascii ''1'')"
    unfolding field_grammar_def by blast
  then have h: "header_new (ascii ''x-a'') (ascii ''1'') =
      Inr \<lparr>h_name = ascii ''x-a'', h_value = ascii ''1'', never_indexed = False\<rparr>"
    by (simp add: header_new_Ok)
  have "set (h_name \<lparr>h_name = ascii ''x-a'', h_value = ascii ''1'', never_indexed = False\<rparr> @
      h_value \<lparr>h_name = ascii ''x-a'', h_value = ascii ''1'', never_indexed = False\<rparr>) \<inter>
      {0x00, 0x0d, 0x0a} = {}"
    using header_new_grammar [of "ascii ''x-a''" "ascii ''1''"] h by blast
  then show ?thesis by (simp only: header.simps)
qed

end
