(* ===== verification/Static_Table.thy ===== *)
theory Static_Table
  imports Header
begin

text \<open>
  The static table (\<^verbatim>\<open>src/qpack/table.rs\<close>, RFC 9204 Appendix A), in two halves, and the search
  that the encoder makes in it.  The search loop is the same for the dynamic table, so it is
  defined here once, over triples of index, name and value.
\<close>

section \<open>The table\<close>

definition STATIC_TABLE_0 :: "header list" where
  "STATIC_TABLE_0 =
    [header_from_static (ascii '':authority'') (ascii ''''),
     header_from_static (ascii '':path'') (ascii ''/''),
     header_from_static (ascii ''age'') (ascii ''0''),
     header_from_static (ascii ''content-disposition'') (ascii ''''),
     header_from_static (ascii ''content-length'') (ascii ''0''),
     header_from_static (ascii ''cookie'') (ascii ''''),
     header_from_static (ascii ''date'') (ascii ''''),
     header_from_static (ascii ''etag'') (ascii ''''),
     header_from_static (ascii ''if-modified-since'') (ascii ''''),
     header_from_static (ascii ''if-none-match'') (ascii ''''),
     header_from_static (ascii ''last-modified'') (ascii ''''),
     header_from_static (ascii ''link'') (ascii ''''),
     header_from_static (ascii ''location'') (ascii ''''),
     header_from_static (ascii ''referer'') (ascii ''''),
     header_from_static (ascii ''set-cookie'') (ascii ''''),
     header_from_static (ascii '':method'') (ascii ''CONNECT''),
     header_from_static (ascii '':method'') (ascii ''DELETE''),
     header_from_static (ascii '':method'') (ascii ''GET''),
     header_from_static (ascii '':method'') (ascii ''HEAD''),
     header_from_static (ascii '':method'') (ascii ''OPTIONS''),
     header_from_static (ascii '':method'') (ascii ''POST''),
     header_from_static (ascii '':method'') (ascii ''PUT''),
     header_from_static (ascii '':scheme'') (ascii ''http''),
     header_from_static (ascii '':scheme'') (ascii ''https''),
     header_from_static (ascii '':status'') (ascii ''103''),
     header_from_static (ascii '':status'') (ascii ''200''),
     header_from_static (ascii '':status'') (ascii ''304''),
     header_from_static (ascii '':status'') (ascii ''404''),
     header_from_static (ascii '':status'') (ascii ''503''),
     header_from_static (ascii ''accept'') (ascii ''*/*''),
     header_from_static (ascii ''accept'') (ascii ''application/dns-message''),
     header_from_static (ascii ''accept-encoding'') (ascii ''gzip, deflate, br''),
     header_from_static (ascii ''accept-ranges'') (ascii ''bytes''),
     header_from_static (ascii ''access-control-allow-headers'') (ascii ''cache-control''),
     header_from_static (ascii ''access-control-allow-headers'') (ascii ''content-type''),
     header_from_static (ascii ''access-control-allow-origin'') (ascii ''*''),
     header_from_static (ascii ''cache-control'') (ascii ''max-age=0''),
     header_from_static (ascii ''cache-control'') (ascii ''max-age=2592000''),
     header_from_static (ascii ''cache-control'') (ascii ''max-age=604800''),
     header_from_static (ascii ''cache-control'') (ascii ''no-cache''),
     header_from_static (ascii ''cache-control'') (ascii ''no-store''),
     header_from_static (ascii ''cache-control'') (ascii ''public, max-age=31536000''),
     header_from_static (ascii ''content-encoding'') (ascii ''br''),
     header_from_static (ascii ''content-encoding'') (ascii ''gzip''),
     header_from_static (ascii ''content-type'') (ascii ''application/dns-message''),
     header_from_static (ascii ''content-type'') (ascii ''application/javascript''),
     header_from_static (ascii ''content-type'') (ascii ''application/json''),
     header_from_static (ascii ''content-type'') (ascii ''application/x-www-form-urlencoded''),
     header_from_static (ascii ''content-type'') (ascii ''image/gif''),
     header_from_static (ascii ''content-type'') (ascii ''image/jpeg'')]"

definition STATIC_TABLE_1 :: "header list" where
  "STATIC_TABLE_1 =
    [header_from_static (ascii ''content-type'') (ascii ''image/png''),
     header_from_static (ascii ''content-type'') (ascii ''text/css''),
     header_from_static (ascii ''content-type'') (ascii ''text/html; charset=utf-8''),
     header_from_static (ascii ''content-type'') (ascii ''text/plain''),
     header_from_static (ascii ''content-type'') (ascii ''text/plain;charset=utf-8''),
     header_from_static (ascii ''range'') (ascii ''bytes=0-''),
     header_from_static (ascii ''strict-transport-security'') (ascii ''max-age=31536000''),
     header_from_static (ascii ''strict-transport-security'') (ascii ''max-age=31536000; includesubdomains''),
     header_from_static (ascii ''strict-transport-security'') (ascii ''max-age=31536000; includesubdomains; preload''),
     header_from_static (ascii ''vary'') (ascii ''accept-encoding''),
     header_from_static (ascii ''vary'') (ascii ''origin''),
     header_from_static (ascii ''x-content-type-options'') (ascii ''nosniff''),
     header_from_static (ascii ''x-xss-protection'') (ascii ''1; mode=block''),
     header_from_static (ascii '':status'') (ascii ''100''),
     header_from_static (ascii '':status'') (ascii ''204''),
     header_from_static (ascii '':status'') (ascii ''206''),
     header_from_static (ascii '':status'') (ascii ''302''),
     header_from_static (ascii '':status'') (ascii ''400''),
     header_from_static (ascii '':status'') (ascii ''403''),
     header_from_static (ascii '':status'') (ascii ''421''),
     header_from_static (ascii '':status'') (ascii ''425''),
     header_from_static (ascii '':status'') (ascii ''500''),
     header_from_static (ascii ''accept-language'') (ascii ''''),
     header_from_static (ascii ''access-control-allow-credentials'') (ascii ''FALSE''),
     header_from_static (ascii ''access-control-allow-credentials'') (ascii ''TRUE''),
     header_from_static (ascii ''access-control-allow-headers'') (ascii ''*''),
     header_from_static (ascii ''access-control-allow-methods'') (ascii ''get''),
     header_from_static (ascii ''access-control-allow-methods'') (ascii ''get, post, options''),
     header_from_static (ascii ''access-control-allow-methods'') (ascii ''options''),
     header_from_static (ascii ''access-control-expose-headers'') (ascii ''content-length''),
     header_from_static (ascii ''access-control-request-headers'') (ascii ''content-type''),
     header_from_static (ascii ''access-control-request-method'') (ascii ''get''),
     header_from_static (ascii ''access-control-request-method'') (ascii ''post''),
     header_from_static (ascii ''alt-svc'') (ascii ''clear''),
     header_from_static (ascii ''authorization'') (ascii ''''),
     header_from_static (ascii ''content-security-policy'') (ascii (''script-src '' @ [CHR 0x27] @ ''none'' @ [CHR 0x27] @ ''; object-src '' @ [CHR 0x27] @ ''none'' @ [CHR 0x27] @ ''; base-uri '' @ [CHR 0x27] @ ''none'' @ [CHR 0x27] @ '''')),
     header_from_static (ascii ''early-data'') (ascii ''1''),
     header_from_static (ascii ''expect-ct'') (ascii ''''),
     header_from_static (ascii ''forwarded'') (ascii ''''),
     header_from_static (ascii ''if-range'') (ascii ''''),
     header_from_static (ascii ''origin'') (ascii ''''),
     header_from_static (ascii ''purpose'') (ascii ''prefetch''),
     header_from_static (ascii ''server'') (ascii ''''),
     header_from_static (ascii ''timing-allow-origin'') (ascii ''*''),
     header_from_static (ascii ''upgrade-insecure-requests'') (ascii ''1''),
     header_from_static (ascii ''user-agent'') (ascii ''''),
     header_from_static (ascii ''x-forwarded-for'') (ascii ''''),
     header_from_static (ascii ''x-frame-options'') (ascii ''deny''),
     header_from_static (ascii ''x-frame-options'') (ascii ''sameorigin'')]"

definition STATIC_TABLE :: "header list" where
  "STATIC_TABLE = STATIC_TABLE_0 @ STATIC_TABLE_1"

definition STATIC_TABLE_LEN :: usize where
  "STATIC_TABLE_LEN = 99"

definition get_static_entry :: "usize \<Rightarrow> header option" where
  "get_static_entry index = (if index < length STATIC_TABLE then Some (STATIC_TABLE ! index) else None)"

section \<open>Searching\<close>

fun best_match :: "(nat \<times> bytes \<times> bytes) list \<Rightarrow> bytes \<Rightarrow> bytes \<Rightarrow> nat option \<Rightarrow> nat option \<times> nat option" where
  "best_match [] name v name_match = (None, name_match)"
| "best_match ((index, entry_name, entry_value) # es) name v name_match =
    (if entry_name = name then
       if entry_value = v then (Some index, Some index)
       else best_match es name v (if name_match = None then Some index else name_match)
     else best_match es name v name_match)"

definition find_static_entry :: "bytes \<Rightarrow> bytes \<Rightarrow> usize option \<times> usize option" where
  "find_static_entry name v =
    best_match (map (\<lambda>(index, h). (index, h_name h, h_value h)) (enumerate 0 STATIC_TABLE)) name v None"

text \<open>
  What a search answers: an exact match is an entry with this name and value, a name match one
  with this name, and a miss means there is none.
\<close>

lemma best_match_spec:
  "case best_match es n v nm of (ex, nm') \<Rightarrow>
    (ex = None \<longrightarrow> (\<forall>i. (i, n, v) \<notin> set es)) \<and>
    (\<forall>i. ex = Some i \<longrightarrow> (i, n, v) \<in> set es \<and> nm' = Some i) \<and>
    (nm' = None \<longrightarrow> nm = None \<and> (\<forall>i w. (i, n, w) \<notin> set es)) \<and>
    (\<forall>i. nm' = Some i \<longrightarrow> nm = Some i \<or> (\<exists>w. (i, n, w) \<in> set es))"
proof (induction es arbitrary: nm)
  case (Cons e es)
  obtain i m w where e: "e = (i, m, w)" by (cases e) auto
  show ?case
    using Cons.IH [of nm] Cons.IH [of "if nm = None then Some i else nm"]
    by (auto simp: e split: prod.splits if_splits)
qed simp

section \<open>Every literal of the table is a valid field\<close>

lemma length_STATIC_TABLE [simp]: "length STATIC_TABLE = 99"
  by (simp add: STATIC_TABLE_def STATIC_TABLE_0_def STATIC_TABLE_1_def)

lemma header_from_static_ok:
  "check_header n v = CkOk \<Longrightarrow>
    header_from_static n v = \<lparr>h_name = n, h_value = v, never_indexed = False\<rparr>"
  by (simp add: header_from_static_def)


text \<open>
  The checks on literals, character by character: \<open>name_char\<close>, \<open>value_char\<close> and \<open>tok_char\<close> are the
  byte classes on characters, tabulated for the characters that occur.
\<close>

definition name_char :: "char \<Rightarrow> bool" where
  "name_char c = is_lowercase_token_byte (word_of_nat (of_char c))"

definition value_char :: "char \<Rightarrow> bool" where
  "value_char c = is_field_vchar (word_of_nat (of_char c))"

definition tok_char :: "char \<Rightarrow> bool" where
  "tok_char c = is_tchar (word_of_nat (of_char c))"

definition digit_char :: "char \<Rightarrow> bool" where
  "digit_char c = is_ascii_digit (word_of_nat (of_char c))"

definition value_string :: "string \<Rightarrow> bool" where
  "value_string s \<longleftrightarrow> list_all (\<lambda>c. value_char c \<or> c = CHR 0x20) s \<and>
    (s = [] \<or> value_char (hd s) \<and> value_char (last s))"

lemma value_string_grammar:
  assumes "value_string s"
  shows "value_grammar (ascii s)"
proof -
  have "is_field_vchar b \<or> b = 0x20 \<or> b = 0x09" if "b \<in> set (ascii s)" for b
  proof -
    from that obtain c where c: "c \<in> set s" "b = word_of_nat (of_char c)" by (auto simp: ascii_def)
    with assms have "value_char c \<or> c = CHR 0x20" by (auto simp: value_string_def list_all_iff)
    with c show ?thesis by (auto simp: value_char_def)
  qed
  moreover have "is_field_vchar (hd (ascii s)) \<and> is_field_vchar (last (ascii s))" if "ascii s \<noteq> []"
    using that assms by (auto simp: value_string_def value_char_def ascii_def hd_map last_map)
  ultimately show ?thesis by (simp add: value_grammar_def)
qed

lemma ascii_all: "(\<forall>b \<in> set (ascii s). P b) \<longleftrightarrow> list_all (\<lambda>c. P (word_of_nat (of_char c))) s"
  by (simp add: ascii_def list_all_iff)

lemma ascii_eq_Nil [simp]: "ascii s = [] \<longleftrightarrow> s = []"
  by (simp add: ascii_def)

lemma literal_ok:
  "value_string t \<Longrightarrow> s \<noteq> [] \<Longrightarrow> list_all name_char s \<Longrightarrow> check_header (ascii s) (ascii t) = CkOk"
  "value_string t \<Longrightarrow> t \<noteq> [] \<Longrightarrow> list_all tok_char t \<Longrightarrow>
    check_header (ascii '':method'') (ascii t) = CkOk"
  "value_string t \<Longrightarrow> length t = 3 \<Longrightarrow> list_all digit_char t \<Longrightarrow>
    check_header (ascii '':status'') (ascii t) = CkOk"
  "value_string t \<Longrightarrow> check_header (ascii '':path'') (ascii t) = CkOk"
  "value_string t \<Longrightarrow> check_header (ascii '':authority'') (ascii t) = CkOk"
  unfolding check_header_Ok field_grammar_def token_def status_grammar_def ascii_all ascii_eq_Nil length_ascii
    name_char_def tok_char_def digit_char_def
  by (simp_all add: value_string_grammar)

lemma scheme_ok:
  "check_header (ascii '':scheme'') (ascii ''http'') = CkOk"
  "check_header (ascii '':scheme'') (ascii ''https'') = CkOk"
proof -
  have "value_grammar (ascii ''http'')" "value_grammar (ascii ''https'')"
    "scheme_grammar (ascii ''http'')" "scheme_grammar (ascii ''https'')"
    by (simp_all add: ascii_def value_grammar_def scheme_grammar_def is_field_vchar_def
        is_ascii_alphabetic_def is_ascii_lowercase_def)
  then show "check_header (ascii '':scheme'') (ascii ''http'') = CkOk"
    "check_header (ascii '':scheme'') (ascii ''https'') = CkOk"
    unfolding check_header_Ok field_grammar_def by blast+
qed

lemma char_classes:
  "name_char CHR 0x2d"
  "\<not> name_char CHR 0x3a"
  "name_char CHR 0x61"
  "name_char CHR 0x63"
  "name_char CHR 0x64"
  "name_char CHR 0x65"
  "name_char CHR 0x66"
  "name_char CHR 0x67"
  "name_char CHR 0x68"
  "name_char CHR 0x69"
  "name_char CHR 0x6b"
  "name_char CHR 0x6c"
  "name_char CHR 0x6d"
  "name_char CHR 0x6e"
  "name_char CHR 0x6f"
  "name_char CHR 0x70"
  "name_char CHR 0x71"
  "name_char CHR 0x72"
  "name_char CHR 0x73"
  "name_char CHR 0x74"
  "name_char CHR 0x75"
  "name_char CHR 0x76"
  "name_char CHR 0x77"
  "name_char CHR 0x78"
  "name_char CHR 0x79"
  "name_char CHR 0x7a"
  "\<not> value_char CHR 0x20"
  "value_char CHR 0x27"
  "value_char CHR 0x2a"
  "value_char CHR 0x2c"
  "value_char CHR 0x2d"
  "value_char CHR 0x2f"
  "value_char CHR 0x30"
  "value_char CHR 0x31"
  "value_char CHR 0x32"
  "value_char CHR 0x33"
  "value_char CHR 0x34"
  "value_char CHR 0x35"
  "value_char CHR 0x36"
  "value_char CHR 0x38"
  "value_char CHR 0x39"
  "value_char CHR 0x3b"
  "value_char CHR 0x3d"
  "value_char CHR 0x41"
  "value_char CHR 0x43"
  "value_char CHR 0x44"
  "value_char CHR 0x45"
  "value_char CHR 0x46"
  "value_char CHR 0x47"
  "value_char CHR 0x48"
  "value_char CHR 0x49"
  "value_char CHR 0x4c"
  "value_char CHR 0x4e"
  "value_char CHR 0x4f"
  "value_char CHR 0x50"
  "value_char CHR 0x52"
  "value_char CHR 0x53"
  "value_char CHR 0x54"
  "value_char CHR 0x55"
  "value_char CHR 0x61"
  "value_char CHR 0x62"
  "value_char CHR 0x63"
  "value_char CHR 0x64"
  "value_char CHR 0x65"
  "value_char CHR 0x66"
  "value_char CHR 0x67"
  "value_char CHR 0x68"
  "value_char CHR 0x69"
  "value_char CHR 0x6a"
  "value_char CHR 0x6b"
  "value_char CHR 0x6c"
  "value_char CHR 0x6d"
  "value_char CHR 0x6e"
  "value_char CHR 0x6f"
  "value_char CHR 0x70"
  "value_char CHR 0x72"
  "value_char CHR 0x73"
  "value_char CHR 0x74"
  "value_char CHR 0x75"
  "value_char CHR 0x76"
  "value_char CHR 0x77"
  "value_char CHR 0x78"
  "value_char CHR 0x79"
  "value_char CHR 0x7a"
  "tok_char CHR 0x41"
  "tok_char CHR 0x43"
  "tok_char CHR 0x44"
  "tok_char CHR 0x45"
  "tok_char CHR 0x47"
  "tok_char CHR 0x48"
  "tok_char CHR 0x49"
  "tok_char CHR 0x4c"
  "tok_char CHR 0x4e"
  "tok_char CHR 0x4f"
  "tok_char CHR 0x50"
  "tok_char CHR 0x53"
  "tok_char CHR 0x54"
  "tok_char CHR 0x55"
  "digit_char CHR 0x30"
  "digit_char CHR 0x31"
  "digit_char CHR 0x32"
  "digit_char CHR 0x33"
  "digit_char CHR 0x34"
  "digit_char CHR 0x35"
  "digit_char CHR 0x36"
  "digit_char CHR 0x37"
  "digit_char CHR 0x38"
  "digit_char CHR 0x39"
  by (simp_all add: name_char_def value_char_def tok_char_def digit_char_def is_lowercase_token_byte_def is_field_vchar_def
      is_tchar_def token_punctuation_def is_ascii_digit_def is_ascii_lowercase_def is_ascii_uppercase_def)

lemma STATIC_TABLE_0_parts:
  "STATIC_TABLE_0 =
    map (\<lambda>(n, v). \<lparr>h_name = n, h_value = v, never_indexed = False\<rparr>)
    [(ascii '':authority'', ascii ''''),
     (ascii '':path'', ascii ''/''),
     (ascii ''age'', ascii ''0''),
     (ascii ''content-disposition'', ascii ''''),
     (ascii ''content-length'', ascii ''0''),
     (ascii ''cookie'', ascii ''''),
     (ascii ''date'', ascii ''''),
     (ascii ''etag'', ascii ''''),
     (ascii ''if-modified-since'', ascii ''''),
     (ascii ''if-none-match'', ascii ''''),
     (ascii ''last-modified'', ascii ''''),
     (ascii ''link'', ascii ''''),
     (ascii ''location'', ascii ''''),
     (ascii ''referer'', ascii ''''),
     (ascii ''set-cookie'', ascii ''''),
     (ascii '':method'', ascii ''CONNECT''),
     (ascii '':method'', ascii ''DELETE''),
     (ascii '':method'', ascii ''GET''),
     (ascii '':method'', ascii ''HEAD''),
     (ascii '':method'', ascii ''OPTIONS''),
     (ascii '':method'', ascii ''POST''),
     (ascii '':method'', ascii ''PUT''),
     (ascii '':scheme'', ascii ''http''),
     (ascii '':scheme'', ascii ''https''),
     (ascii '':status'', ascii ''103''),
     (ascii '':status'', ascii ''200''),
     (ascii '':status'', ascii ''304''),
     (ascii '':status'', ascii ''404''),
     (ascii '':status'', ascii ''503''),
     (ascii ''accept'', ascii ''*/*''),
     (ascii ''accept'', ascii ''application/dns-message''),
     (ascii ''accept-encoding'', ascii ''gzip, deflate, br''),
     (ascii ''accept-ranges'', ascii ''bytes''),
     (ascii ''access-control-allow-headers'', ascii ''cache-control''),
     (ascii ''access-control-allow-headers'', ascii ''content-type''),
     (ascii ''access-control-allow-origin'', ascii ''*''),
     (ascii ''cache-control'', ascii ''max-age=0''),
     (ascii ''cache-control'', ascii ''max-age=2592000''),
     (ascii ''cache-control'', ascii ''max-age=604800''),
     (ascii ''cache-control'', ascii ''no-cache''),
     (ascii ''cache-control'', ascii ''no-store''),
     (ascii ''cache-control'', ascii ''public, max-age=31536000''),
     (ascii ''content-encoding'', ascii ''br''),
     (ascii ''content-encoding'', ascii ''gzip''),
     (ascii ''content-type'', ascii ''application/dns-message''),
     (ascii ''content-type'', ascii ''application/javascript''),
     (ascii ''content-type'', ascii ''application/json''),
     (ascii ''content-type'', ascii ''application/x-www-form-urlencoded''),
     (ascii ''content-type'', ascii ''image/gif''),
     (ascii ''content-type'', ascii ''image/jpeg'')]"
  unfolding STATIC_TABLE_0_def list.map prod.case
  by (intro arg_cong2 [where f = Cons] refl header_from_static_ok)
    (simp_all add: literal_ok scheme_ok char_classes value_string_def)

lemma STATIC_TABLE_1_parts:
  "STATIC_TABLE_1 =
    map (\<lambda>(n, v). \<lparr>h_name = n, h_value = v, never_indexed = False\<rparr>)
    [(ascii ''content-type'', ascii ''image/png''),
     (ascii ''content-type'', ascii ''text/css''),
     (ascii ''content-type'', ascii ''text/html; charset=utf-8''),
     (ascii ''content-type'', ascii ''text/plain''),
     (ascii ''content-type'', ascii ''text/plain;charset=utf-8''),
     (ascii ''range'', ascii ''bytes=0-''),
     (ascii ''strict-transport-security'', ascii ''max-age=31536000''),
     (ascii ''strict-transport-security'', ascii ''max-age=31536000; includesubdomains''),
     (ascii ''strict-transport-security'', ascii ''max-age=31536000; includesubdomains; preload''),
     (ascii ''vary'', ascii ''accept-encoding''),
     (ascii ''vary'', ascii ''origin''),
     (ascii ''x-content-type-options'', ascii ''nosniff''),
     (ascii ''x-xss-protection'', ascii ''1; mode=block''),
     (ascii '':status'', ascii ''100''),
     (ascii '':status'', ascii ''204''),
     (ascii '':status'', ascii ''206''),
     (ascii '':status'', ascii ''302''),
     (ascii '':status'', ascii ''400''),
     (ascii '':status'', ascii ''403''),
     (ascii '':status'', ascii ''421''),
     (ascii '':status'', ascii ''425''),
     (ascii '':status'', ascii ''500''),
     (ascii ''accept-language'', ascii ''''),
     (ascii ''access-control-allow-credentials'', ascii ''FALSE''),
     (ascii ''access-control-allow-credentials'', ascii ''TRUE''),
     (ascii ''access-control-allow-headers'', ascii ''*''),
     (ascii ''access-control-allow-methods'', ascii ''get''),
     (ascii ''access-control-allow-methods'', ascii ''get, post, options''),
     (ascii ''access-control-allow-methods'', ascii ''options''),
     (ascii ''access-control-expose-headers'', ascii ''content-length''),
     (ascii ''access-control-request-headers'', ascii ''content-type''),
     (ascii ''access-control-request-method'', ascii ''get''),
     (ascii ''access-control-request-method'', ascii ''post''),
     (ascii ''alt-svc'', ascii ''clear''),
     (ascii ''authorization'', ascii ''''),
     (ascii ''content-security-policy'', ascii (''script-src '' @ [CHR 0x27] @ ''none'' @ [CHR 0x27] @ ''; object-src '' @ [CHR 0x27] @ ''none'' @ [CHR 0x27] @ ''; base-uri '' @ [CHR 0x27] @ ''none'' @ [CHR 0x27] @ '''')),
     (ascii ''early-data'', ascii ''1''),
     (ascii ''expect-ct'', ascii ''''),
     (ascii ''forwarded'', ascii ''''),
     (ascii ''if-range'', ascii ''''),
     (ascii ''origin'', ascii ''''),
     (ascii ''purpose'', ascii ''prefetch''),
     (ascii ''server'', ascii ''''),
     (ascii ''timing-allow-origin'', ascii ''*''),
     (ascii ''upgrade-insecure-requests'', ascii ''1''),
     (ascii ''user-agent'', ascii ''''),
     (ascii ''x-forwarded-for'', ascii ''''),
     (ascii ''x-frame-options'', ascii ''deny''),
     (ascii ''x-frame-options'', ascii ''sameorigin'')]"
  unfolding STATIC_TABLE_1_def list.map prod.case
  by (intro arg_cong2 [where f = Cons] refl header_from_static_ok)
    (simp_all add: literal_ok scheme_ok char_classes value_string_def)

lemma STATIC_TABLE_0_valid: "list_all wf_header STATIC_TABLE_0"
  unfolding STATIC_TABLE_0_parts wf_header_def check_header_Ok [symmetric]
  by (simp add: literal_ok scheme_ok char_classes value_string_def)

lemma STATIC_TABLE_1_valid: "list_all wf_header STATIC_TABLE_1"
  unfolding STATIC_TABLE_1_parts wf_header_def check_header_Ok [symmetric]
  by (simp add: literal_ok scheme_ok char_classes value_string_def)

lemma STATIC_TABLE_valid: "h \<in> set STATIC_TABLE \<Longrightarrow> wf_header h"
  using STATIC_TABLE_0_valid STATIC_TABLE_1_valid by (auto simp: STATIC_TABLE_def list_all_iff)

lemma STATIC_TABLE_0_never: "list_all (\<lambda>h. \<not> never_indexed h) STATIC_TABLE_0"
  unfolding STATIC_TABLE_0_parts by simp

lemma STATIC_TABLE_1_never: "list_all (\<lambda>h. \<not> never_indexed h) STATIC_TABLE_1"
  unfolding STATIC_TABLE_1_parts by simp

lemma STATIC_TABLE_never: "h \<in> set STATIC_TABLE \<Longrightarrow> \<not> never_indexed h"
  using STATIC_TABLE_0_never STATIC_TABLE_1_never by (auto simp: STATIC_TABLE_def list_all_iff)

lemma get_static_entry_Some:
  "get_static_entry i = Some h \<longleftrightarrow> i < 99 \<and> STATIC_TABLE ! i = h"
  by (auto simp: get_static_entry_def)

lemma static_triples:
  "(i, n, v) \<in> set (map (\<lambda>(index, h). (index, h_name h, h_value h)) (enumerate 0 STATIC_TABLE)) \<longleftrightarrow>
    (\<exists>h. get_static_entry i = Some h \<and> h_name h = n \<and> h_value h = v)"
  by (auto simp: get_static_entry_Some in_set_enumerate_eq image_iff
      intro!: bexI [of _ "(i, STATIC_TABLE ! i)"])

lemma find_static_entry_spec:
  assumes "find_static_entry n v = (ex, nm)"
  shows "ex = None \<Longrightarrow> get_static_entry i = Some h \<Longrightarrow> h_name h = n \<Longrightarrow> h_value h \<noteq> v"
    "ex = Some i \<Longrightarrow> \<exists>h. get_static_entry i = Some h \<and> h_name h = n \<and> h_value h = v \<and> nm = Some i"
    "nm = None \<Longrightarrow> get_static_entry i = Some h \<Longrightarrow> h_name h \<noteq> n"
    "nm = Some i \<Longrightarrow> \<exists>h. get_static_entry i = Some h \<and> h_name h = n"
  using assms best_match_spec [of n v "map (\<lambda>(index, h). (index, h_name h, h_value h)) (enumerate 0 STATIC_TABLE)" None]
  unfolding find_static_entry_def static_triples by force+

section \<open>Properties of the static table\<close>

text \<open>
  The search in the static table is sound and complete: an exact index names an entry with
  this name and value, a name index one with this name, and \<open>None\<close> means that the table of 99
  valid fields has no such entry.
\<close>

theorem static_search_correct:
  "(case fst (find_static_entry n v) of
      Some i \<Rightarrow> map_option (\<lambda>h. (h_name h, h_value h)) (get_static_entry i) = Some (n, v) \<and>
        snd (find_static_entry n v) = Some i
    | None \<Rightarrow> (n, v) \<notin> (\<lambda>h. (h_name h, h_value h)) ` set STATIC_TABLE) \<and>
   (case snd (find_static_entry n v) of
      Some i \<Rightarrow> map_option h_name (get_static_entry i) = Some n
    | None \<Rightarrow> n \<notin> h_name ` set STATIC_TABLE) \<and>
   length STATIC_TABLE = STATIC_TABLE_LEN \<and> list_all wf_header STATIC_TABLE"
proof -
  obtain ex nm where f: "find_static_entry n v = (ex, nm)" by fastforce
  have mem: "h \<in> set STATIC_TABLE \<longleftrightarrow> (\<exists>i. get_static_entry i = Some h)" for h
    by (auto simp: get_static_entry_Some in_set_conv_nth)
  note spec = find_static_entry_spec [OF f]
  have "case ex of
      Some i \<Rightarrow> map_option (\<lambda>h. (h_name h, h_value h)) (get_static_entry i) = Some (n, v) \<and> nm = Some i
    | None \<Rightarrow> (n, v) \<notin> (\<lambda>h. (h_name h, h_value h)) ` set STATIC_TABLE"
  proof (cases ex)
    case None
    have False if "h \<in> set STATIC_TABLE" "(n, v) = (h_name h, h_value h)" for h
      using that mem spec(1) [OF None] by auto
    with None show ?thesis by auto
  qed (use spec(2) in auto)
  moreover have "case nm of Some i \<Rightarrow> map_option h_name (get_static_entry i) = Some n
    | None \<Rightarrow> n \<notin> h_name ` set STATIC_TABLE"
  proof (cases nm)
    case None
    have False if "h \<in> set STATIC_TABLE" "n = h_name h" for h
      using that mem spec(3) [OF None] by auto
    with None show ?thesis by auto
  qed (use spec(4) in auto)
  moreover have "list_all wf_header STATIC_TABLE"
    using STATIC_TABLE_valid by (simp add: list_all_iff)
  ultimately show ?thesis unfolding f fst_conv snd_conv by (simp add: STATIC_TABLE_LEN_def)
qed

end
