(* ===== verification/Dynamic_Table.thy ===== *)
theory Dynamic_Table
  imports Static_Table
begin

text \<open>
  The dynamic table (\<^verbatim>\<open>src/qpack/dynamic_table.rs\<close>, RFC 9204 Section 3.2).  Its abstract view is
  a log: the list of all fields ever inserted, of which a suffix is still stored.
  \<open>dt_repr t H\<close> says that the table \<open>t\<close> holds the end of the log \<open>H\<close>; every operation is shown to
  act on the log as its contract says, and every way of indexing is a lookup in the log.
\<close>

section \<open>The table\<close>

record dynamic_entry =
  de_name :: bytes
  de_value :: bytes
  de_index :: u64

definition ENTRY_OVERHEAD :: u64 where
  "ENTRY_OVERHEAD = 32"

definition entry_new :: "bytes \<Rightarrow> bytes \<Rightarrow> u64 \<Rightarrow> dynamic_entry" where
  "entry_new name v absolute_index = \<lparr>de_name = name, de_value = v, de_index = absolute_index\<rparr>"

definition entry_size :: "dynamic_entry \<Rightarrow> u64" where
  "entry_size e = ENTRY_OVERHEAD + length (de_name e) + length (de_value e)"

text \<open>\<open>dt_entries\<close>: the newest entry first.\<close>

record dynamic_table =
  dt_entries :: "dynamic_entry list"
  dt_max_capacity :: u64
  dt_current_size :: u64
  dt_insert_count :: u64
  dt_dropped_count :: u64
  dt_eviction_limit :: u64

definition dt_with_capacity :: "u64 \<Rightarrow> dynamic_table" where
  "dt_with_capacity capacity =
    \<lparr>dt_entries = [], dt_max_capacity = capacity, dt_current_size = 0, dt_insert_count = 0,
     dt_dropped_count = 0, dt_eviction_limit = 0\<rparr>"

definition dt_new :: dynamic_table where
  "dt_new = dt_with_capacity 0"

definition dt_set_eviction_limit :: "dynamic_table \<Rightarrow> u64 \<Rightarrow> dynamic_table" where
  "dt_set_eviction_limit t limit = t\<lparr>dt_eviction_limit := limit\<rparr>"

function evict_to_fit :: "dynamic_table \<Rightarrow> u64 \<Rightarrow> dynamic_table" where
  "evict_to_fit t required_size =
    (if dt_max_capacity t < dt_current_size t + required_size then
       if dt_entries t = [] then t
       else
         let entry = last (dt_entries t) in
         if de_index entry < dt_eviction_limit t then t
         else
           evict_to_fit
             (t\<lparr>dt_entries := butlast (dt_entries t),
                dt_current_size := dt_current_size t - entry_size entry,
                dt_dropped_count := dt_dropped_count t + 1\<rparr>) required_size
     else t)"
  by pat_completeness auto
termination
  by (relation "measure (\<lambda>(t, _). length (dt_entries t))") auto

declare evict_to_fit.simps [simp del]

definition dt_set_capacity :: "dynamic_table \<Rightarrow> u64 \<Rightarrow> dynamic_table" where
  "dt_set_capacity t capacity = evict_to_fit (t\<lparr>dt_max_capacity := capacity\<rparr>) 0"

definition dt_insert :: "dynamic_table \<Rightarrow> bytes \<Rightarrow> bytes \<Rightarrow> dynamic_table \<times> u64 option" where
  "dt_insert t name v =
    (let size = ENTRY_OVERHEAD + length name + length v in
     if dt_max_capacity t < size then (t, None)
     else
       let t = evict_to_fit t size in
       if dt_max_capacity t < dt_current_size t + size then (t, None)
       else
         let absolute_index = dt_insert_count t;
             entry = entry_new name v absolute_index in
         (t\<lparr>dt_current_size := dt_current_size t + entry_size entry,
            dt_insert_count := dt_insert_count t + 1,
            dt_entries := entry # dt_entries t\<rparr>, Some absolute_index))"

definition get_by_absolute_index :: "dynamic_table \<Rightarrow> u64 \<Rightarrow> dynamic_entry option" where
  "get_by_absolute_index t absolute_index =
    (if absolute_index < dt_dropped_count t then None
     else if dt_insert_count t \<le> absolute_index then None
     else
       let offset = dt_insert_count t - 1 - absolute_index in
       if offset < length (dt_entries t) then Some (dt_entries t ! offset) else None)"

definition get_by_relative_index_encoder :: "dynamic_table \<Rightarrow> u64 \<Rightarrow> dynamic_entry option" where
  "get_by_relative_index_encoder t relative_index =
    (if relative_index < length (dt_entries t) then Some (dt_entries t ! relative_index) else None)"

definition get_by_relative_index_repr :: "dynamic_table \<Rightarrow> u64 \<Rightarrow> u64 \<Rightarrow> dynamic_entry option" where
  "get_by_relative_index_repr t relative_index base =
    (if base \<le> relative_index then None
     else get_by_absolute_index t (base - relative_index - 1))"

definition get_by_post_base_index :: "dynamic_table \<Rightarrow> u64 \<Rightarrow> u64 \<Rightarrow> dynamic_entry option" where
  "get_by_post_base_index t post_base_index base =
    (case checked_add base post_base_index of
       None \<Rightarrow> None
     | Some absolute_index \<Rightarrow> get_by_absolute_index t absolute_index)"

definition dt_duplicate :: "dynamic_table \<Rightarrow> u64 \<Rightarrow> dynamic_table \<times> u64 option" where
  "dt_duplicate t relative_index =
    (case get_by_relative_index_encoder t relative_index of
       None \<Rightarrow> (t, None)
     | Some entry \<Rightarrow> dt_insert t (de_name entry) (de_value entry))"

definition dt_find_entry :: "dynamic_table \<Rightarrow> bytes \<Rightarrow> bytes \<Rightarrow> u64 option \<times> u64 option" where
  "dt_find_entry t name v =
    best_match (map (\<lambda>e. (de_index e, de_name e, de_value e)) (dt_entries t)) name v None"

definition dt_clear :: "dynamic_table \<Rightarrow> dynamic_table" where
  "dt_clear t =
    t\<lparr>dt_dropped_count := dt_dropped_count t + length (dt_entries t), dt_entries := [],
      dt_current_size := 0\<rparr>"

section \<open>The log\<close>

type_synonym field_log = "(bytes \<times> bytes) list"

definition log_entry :: "field_log \<Rightarrow> nat \<Rightarrow> dynamic_entry" where
  "log_entry H i = entry_new (fst (H ! i)) (snd (H ! i)) i"

definition dt_repr :: "dynamic_table \<Rightarrow> field_log \<Rightarrow> bool" where
  "dt_repr t H \<longleftrightarrow>
    dt_dropped_count t \<le> length H \<and> dt_insert_count t = length H \<and>
    dt_entries t = rev (map (log_entry H) [dt_dropped_count t..<length H]) \<and>
    dt_current_size t = sum_list (map entry_size (dt_entries t))"

definition dt_fits :: "dynamic_table \<Rightarrow> bool" where
  "dt_fits t \<longleftrightarrow> dt_current_size t \<le> dt_max_capacity t"

lemma log_entry_simps [simp]:
  "de_name (log_entry H i) = fst (H ! i)"
  "de_value (log_entry H i) = snd (H ! i)"
  "de_index (log_entry H i) = i"
  by (simp_all add: log_entry_def entry_new_def)

lemma log_entry_append: "i < length H \<Longrightarrow> log_entry (H @ G) i = log_entry H i"
  by (simp add: log_entry_def nth_append)

lemma dt_repr_new [simp]: "dt_repr (dt_with_capacity c) []"
  by (simp add: dt_repr_def dt_with_capacity_def)

lemma dt_repr_length:
  "dt_repr t H \<Longrightarrow> length (dt_entries t) = length H - dt_dropped_count t"
  by (simp add: dt_repr_def)

lemma dt_repr_nth:
  assumes "dt_repr t H" "k < length (dt_entries t)"
  shows "dt_entries t ! k = log_entry H (length H - 1 - k)"
proof -
  have "k < length H - dt_dropped_count t" using assms dt_repr_length by simp
  with assms(1) show ?thesis by (simp add: dt_repr_def rev_nth nth_append)
qed

lemma dt_repr_last:
  assumes "dt_repr t H" "dt_entries t \<noteq> []"
  shows "last (dt_entries t) = log_entry H (dt_dropped_count t)" "dt_dropped_count t < length H"
    "butlast (dt_entries t) = rev (map (log_entry H) [dt_dropped_count t + 1..<length H])"
    "dt_current_size t = sum_list (map entry_size (butlast (dt_entries t))) + entry_size (last (dt_entries t))"
proof -
  show lt: "dt_dropped_count t < length H" using assms by (auto simp: dt_repr_def)
  then have e: "dt_entries t =
      rev (map (log_entry H) [dt_dropped_count t + 1..<length H]) @ [log_entry H (dt_dropped_count t)]"
    using assms(1) by (simp add: dt_repr_def upt_conv_Cons)
  then show "last (dt_entries t) = log_entry H (dt_dropped_count t)"
    "butlast (dt_entries t) = rev (map (log_entry H) [dt_dropped_count t + 1..<length H])"
    by simp_all
  have "dt_current_size t = sum_list (map entry_size (dt_entries t))"
    using assms(1) by (simp add: dt_repr_def)
  then show "dt_current_size t =
      sum_list (map entry_size (butlast (dt_entries t))) + entry_size (last (dt_entries t))"
    using e by simp
qed

text \<open>
  Eviction drops the oldest entries only, stops as soon as the entry fits, and never touches an
  entry below the limit.
\<close>

definition same_settings :: "dynamic_table \<Rightarrow> dynamic_table \<Rightarrow> bool" where
  "same_settings t t' \<longleftrightarrow>
    dt_max_capacity t' = dt_max_capacity t \<and> dt_eviction_limit t' = dt_eviction_limit t \<and>
    dt_insert_count t' = dt_insert_count t"

lemma evict_to_fit_repr:
  assumes "dt_repr t H"
  shows "dt_repr (evict_to_fit t r) H \<and> same_settings t (evict_to_fit t r) \<and>
    dt_dropped_count t \<le> dt_dropped_count (evict_to_fit t r) \<and>
    dt_current_size (evict_to_fit t r) \<le> dt_current_size t \<and>
    (\<forall>i < length H. dt_dropped_count t \<le> i \<longrightarrow> i < dt_eviction_limit t \<longrightarrow>
      dt_dropped_count (evict_to_fit t r) \<le> i) \<and>
    (dt_current_size (evict_to_fit t r) + r \<le> dt_max_capacity t \<or>
     dt_entries (evict_to_fit t r) = [] \<or>
     dt_dropped_count (evict_to_fit t r) < dt_eviction_limit t)"
  using assms
proof (induction t r rule: evict_to_fit.induct)
  case (1 t r)
  show ?case
  proof (cases "dt_max_capacity t < dt_current_size t + r \<and> dt_entries t \<noteq> [] \<and>
      dt_eviction_limit t \<le> de_index (last (dt_entries t))")
    case False
    then have "evict_to_fit t r = t"
      by (subst evict_to_fit.simps) (auto simp: Let_def)
    with False 1(2) dt_repr_last(1) [OF 1(2)] show ?thesis
      by (cases "dt_entries t = []") (auto simp: same_settings_def)
  next
    case True
    then have ne: "dt_entries t \<noteq> []" by simp
    note l = dt_repr_last [OF 1(2) ne]
    let ?t = "t\<lparr>dt_entries := butlast (dt_entries t),
        dt_current_size := dt_current_size t - entry_size (last (dt_entries t)),
        dt_dropped_count := dt_dropped_count t + 1\<rparr>"
    have step: "evict_to_fit t r = evict_to_fit ?t r"
      using True by (subst evict_to_fit.simps) (simp add: Let_def)
    have "dt_insert_count t = length H" using 1(2) by (simp add: dt_repr_def)
    moreover have "dt_current_size t - entry_size (last (dt_entries t)) =
        sum_list (map entry_size (butlast (dt_entries t)))" using l(4) by simp
    ultimately have "dt_repr ?t H" using l(2,3) unfolding dt_repr_def by simp
    with 1(1) True have ih: "dt_repr (evict_to_fit ?t r) H \<and> same_settings ?t (evict_to_fit ?t r) \<and>
      dt_dropped_count ?t \<le> dt_dropped_count (evict_to_fit ?t r) \<and>
      dt_current_size (evict_to_fit ?t r) \<le> dt_current_size ?t \<and>
      (\<forall>i < length H. dt_dropped_count ?t \<le> i \<longrightarrow> i < dt_eviction_limit ?t \<longrightarrow>
        dt_dropped_count (evict_to_fit ?t r) \<le> i) \<and>
      (dt_current_size (evict_to_fit ?t r) + r \<le> dt_max_capacity ?t \<or>
       dt_entries (evict_to_fit ?t r) = [] \<or>
       dt_dropped_count (evict_to_fit ?t r) < dt_eviction_limit ?t)"
      by auto
    moreover have "dt_eviction_limit t \<le> dt_dropped_count t" using True l(1) by simp
    ultimately show ?thesis unfolding step by (auto simp: same_settings_def)
  qed
qed

lemmas evict_to_fit_facts =
  evict_to_fit_repr [THEN conjunct1]
  evict_to_fit_repr [THEN conjunct2, THEN conjunct1]
  evict_to_fit_repr [THEN conjunct2, THEN conjunct2, THEN conjunct1]
  evict_to_fit_repr [THEN conjunct2, THEN conjunct2, THEN conjunct2, THEN conjunct1]
  evict_to_fit_repr [THEN conjunct2, THEN conjunct2, THEN conjunct2, THEN conjunct2, THEN conjunct1]
  evict_to_fit_repr [THEN conjunct2, THEN conjunct2, THEN conjunct2, THEN conjunct2, THEN conjunct2]

text \<open>
  \<open>keeps_protected t t'\<close>: between the two states only entries that are not below the limit were
  dropped.
\<close>

definition keeps_protected :: "dynamic_table \<Rightarrow> dynamic_table \<Rightarrow> bool" where
  "keeps_protected t t' \<longleftrightarrow>
    dt_dropped_count t \<le> dt_dropped_count t' \<and>
    (\<forall>i < dt_insert_count t. dt_dropped_count t \<le> i \<longrightarrow> i < dt_eviction_limit t \<longrightarrow>
      dt_dropped_count t' \<le> i)"

lemma evict_keeps_protected: "dt_repr t H \<Longrightarrow> keeps_protected t (evict_to_fit t r)"
  using evict_to_fit_facts(3,5) [of t H r] by (simp add: keeps_protected_def dt_repr_def)

lemma evict_unlimited:
  assumes "dt_repr t H" "dt_eviction_limit t = 0" "r \<le> dt_max_capacity t"
  shows "dt_current_size (evict_to_fit t r) + r \<le> dt_max_capacity t"
proof -
  have "dt_current_size (evict_to_fit t r) = 0" if "dt_entries (evict_to_fit t r) = []"
    using that evict_to_fit_facts(1) [OF assms(1), of r] by (simp add: dt_repr_def)
  with evict_to_fit_facts(6) [OF assms(1), of r] assms(2,3) show ?thesis by auto
qed

lemma dt_insert_repr:
  assumes "dt_repr t H" "dt_insert t n v = (t', r)"
  shows "(case r of
      None \<Rightarrow> dt_repr t' H
    | Some i \<Rightarrow> i = length H \<and> dt_repr t' (H @ [(n, v)]) \<and> dt_fits t') \<and>
    dt_max_capacity t' = dt_max_capacity t \<and> dt_eviction_limit t' = dt_eviction_limit t \<and>
    keeps_protected t t'"
proof -
  let ?s = "ENTRY_OVERHEAD + length n + length v"
  let ?u = "evict_to_fit t ?s"
  note ev = evict_to_fit_facts(1,2) [OF assms(1), of ?s] evict_keeps_protected [OF assms(1), of ?s]
  show ?thesis
  proof (cases "dt_max_capacity t < ?s \<or> dt_max_capacity ?u < dt_current_size ?u + ?s")
    case True
    with assms ev show ?thesis
      by (auto simp: dt_insert_def Let_def same_settings_def keeps_protected_def split: if_splits)
  next
    case False
    let ?t = "?u\<lparr>dt_current_size := dt_current_size ?u + entry_size (entry_new n v (dt_insert_count ?u)),
        dt_insert_count := dt_insert_count ?u + 1,
        dt_entries := entry_new n v (dt_insert_count ?u) # dt_entries ?u\<rparr>"
    have t': "t' = ?t" "r = Some (dt_insert_count ?u)"
      using False assms(2) by (auto simp: dt_insert_def Let_def)
    have u: "dt_dropped_count ?u \<le> length H" "dt_insert_count ?u = length H"
      using ev(1) by (simp_all add: dt_repr_def)
    have "map (log_entry (H @ [(n, v)])) [dt_dropped_count ?u..<length H] =
        map (log_entry H) [dt_dropped_count ?u..<length H]"
      by (rule map_cong) (simp_all add: log_entry_append)
    moreover have "log_entry (H @ [(n, v)]) (length H) = entry_new n v (length H)"
      by (simp add: log_entry_def)
    ultimately have "dt_repr ?t (H @ [(n, v)])"
      using ev(1) u by (simp add: dt_repr_def)
    moreover have "dt_fits ?t"
      using False ev(2) by (simp add: dt_fits_def entry_size_def entry_new_def same_settings_def)
    ultimately show ?thesis
      using t' u ev(2,3) by (simp add: same_settings_def keeps_protected_def)
  qed
qed

lemma dt_insert_unlimited:
  assumes "dt_repr t H" "dt_eviction_limit t = 0"
  shows "snd (dt_insert t n v) \<noteq> None \<longleftrightarrow> 32 + length n + length v \<le> dt_max_capacity t"
proof (cases "32 + length n + length v \<le> dt_max_capacity t")
  case True
  let ?u = "evict_to_fit t (32 + length n + length v)"
  have "dt_current_size ?u + (32 + length n + length v) \<le> dt_max_capacity ?u"
    using evict_unlimited [OF assms True] evict_to_fit_facts(2) [OF assms(1)]
    by (simp add: same_settings_def)
  with True show ?thesis by (simp add: dt_insert_def Let_def ENTRY_OVERHEAD_def)
qed (simp add: dt_insert_def ENTRY_OVERHEAD_def)

lemma dt_set_capacity_repr:
  assumes "dt_repr t H"
  shows "dt_repr (dt_set_capacity t c) H" "dt_max_capacity (dt_set_capacity t c) = c"
    "dt_eviction_limit (dt_set_capacity t c) = dt_eviction_limit t"
    "keeps_protected t (dt_set_capacity t c)"
    "dt_eviction_limit t = 0 \<Longrightarrow> dt_fits (dt_set_capacity t c)"
proof -
  let ?t = "t\<lparr>dt_max_capacity := c\<rparr>"
  have r: "dt_repr ?t H" using assms by (simp add: dt_repr_def)
  show "dt_repr (dt_set_capacity t c) H" "dt_max_capacity (dt_set_capacity t c) = c"
    "dt_eviction_limit (dt_set_capacity t c) = dt_eviction_limit t"
    "keeps_protected t (dt_set_capacity t c)"
    using evict_to_fit_facts(1,2) [OF r, of 0] evict_keeps_protected [OF r, of 0]
    by (simp_all add: dt_set_capacity_def same_settings_def keeps_protected_def)
  show "dt_fits (dt_set_capacity t c)" if "dt_eviction_limit t = 0"
    using evict_unlimited [OF r, of 0] that evict_to_fit_facts(2) [OF r, of 0]
    by (simp add: dt_set_capacity_def dt_fits_def same_settings_def)
qed

lemma dt_clear_repr: "dt_repr t H \<Longrightarrow> dt_repr (dt_clear t) H"
  using dt_repr_length [of t H] by (simp add: dt_repr_def dt_clear_def)

section \<open>Lookups are lookups in the log\<close>

lemma get_by_absolute_index_log:
  assumes "dt_repr t H"
  shows "get_by_absolute_index t i =
    (if dt_dropped_count t \<le> i \<and> i < length H then Some (log_entry H i) else None)"
proof -
  have c: "dt_insert_count t = length H" using assms by (simp add: dt_repr_def)
  show ?thesis
  proof (cases "dt_dropped_count t \<le> i \<and> i < length H")
    case True
    then have "length H - 1 - i < length (dt_entries t)"
      using dt_repr_length [OF assms] by linarith
    from dt_repr_nth [OF assms this] this True c show ?thesis
      by (simp add: get_by_absolute_index_def)
  next
    case False
    with c show ?thesis by (auto simp: get_by_absolute_index_def)
  qed
qed

lemma get_by_relative_index_encoder_log:
  assumes "dt_repr t H"
  shows "get_by_relative_index_encoder t k =
    (if k < length H - dt_dropped_count t then Some (log_entry H (length H - 1 - k)) else None)"
  using dt_repr_nth [OF assms, of k] dt_repr_length [OF assms]
  by (simp add: get_by_relative_index_encoder_def)

lemma dt_duplicate_insert:
  assumes "dt_repr t H" "k < length H - dt_dropped_count t"
  shows "dt_duplicate t k = dt_insert t (fst (H ! (length H - 1 - k))) (snd (H ! (length H - 1 - k)))"
  using assms by (simp add: dt_duplicate_def get_by_relative_index_encoder_log)

lemma dt_triples:
  assumes "dt_repr t H"
  shows "(i, n, v) \<in> set (map (\<lambda>e. (de_index e, de_name e, de_value e)) (dt_entries t)) \<longleftrightarrow>
    dt_dropped_count t \<le> i \<and> i < length H \<and> H ! i = (n, v)"
proof -
  have "set (dt_entries t) = log_entry H ` {dt_dropped_count t..<length H}"
    using assms by (simp add: dt_repr_def)
  then show ?thesis by (auto simp: image_iff prod_eq_iff)
qed

lemma dt_find_entry_spec:
  assumes "dt_repr t H" "dt_find_entry t n v = (ex, nm)"
  shows "ex = None \<Longrightarrow> dt_dropped_count t \<le> i \<Longrightarrow> i < length H \<Longrightarrow> H ! i \<noteq> (n, v)"
    "ex = Some i \<Longrightarrow> dt_dropped_count t \<le> i \<and> i < length H \<and> H ! i = (n, v) \<and> nm = Some i"
    "nm = None \<Longrightarrow> dt_dropped_count t \<le> i \<Longrightarrow> i < length H \<Longrightarrow> fst (H ! i) \<noteq> n"
    "nm = Some i \<Longrightarrow> dt_dropped_count t \<le> i \<and> i < length H \<and> fst (H ! i) = n"
proof -
  have spec: "(ex = None \<longrightarrow> (\<forall>i. \<not> (dt_dropped_count t \<le> i \<and> i < length H \<and> H ! i = (n, v)))) \<and>
    (\<forall>i. ex = Some i \<longrightarrow> (dt_dropped_count t \<le> i \<and> i < length H \<and> H ! i = (n, v)) \<and> nm = Some i) \<and>
    (nm = None \<longrightarrow> (\<forall>i w. \<not> (dt_dropped_count t \<le> i \<and> i < length H \<and> H ! i = (n, w)))) \<and>
    (\<forall>i. nm = Some i \<longrightarrow> (\<exists>w. dt_dropped_count t \<le> i \<and> i < length H \<and> H ! i = (n, w)))"
    using best_match_spec [of n v "map (\<lambda>e. (de_index e, de_name e, de_value e)) (dt_entries t)" None]
      assms(2)
    unfolding dt_find_entry_def dt_triples [OF assms(1)] by simp
  then show "ex = None \<Longrightarrow> dt_dropped_count t \<le> i \<Longrightarrow> i < length H \<Longrightarrow> H ! i \<noteq> (n, v)"
    "ex = Some i \<Longrightarrow> dt_dropped_count t \<le> i \<and> i < length H \<and> H ! i = (n, v) \<and> nm = Some i"
    by blast+
  show "nm = None \<Longrightarrow> dt_dropped_count t \<le> i \<Longrightarrow> i < length H \<Longrightarrow> fst (H ! i) \<noteq> n"
    using spec by (metis prod.collapse)
  show "nm = Some i \<Longrightarrow> dt_dropped_count t \<le> i \<and> i < length H \<and> fst (H ! i) = n"
    using spec by (metis fst_conv)
qed

section \<open>The interface of a table\<close>

text \<open>
  What the encoder and the decoder of field sections rely on: inserting appends to the log, and a
  lookup by absolute index reads the log inside the stored window.  Two tables with the same log
  then agree on every index that both store, whatever their capacities and evictions.
\<close>

locale log_table =
  fixes repr :: "'t \<Rightarrow> field_log \<Rightarrow> bool"
    and ins :: "'t \<Rightarrow> bytes \<Rightarrow> bytes \<Rightarrow> 't \<times> u64 option"
    and get :: "'t \<Rightarrow> u64 \<Rightarrow> dynamic_entry option"
    and lo :: "'t \<Rightarrow> u64"
  assumes ins_Some: "repr t H \<Longrightarrow> ins t n v = (t', Some i) \<Longrightarrow> i = length H \<and> repr t' (H @ [(n, v)])"
    and ins_None: "repr t H \<Longrightarrow> ins t n v = (t', None) \<Longrightarrow> repr t' H"
    and get_log: "repr t H \<Longrightarrow> get t i = (if lo t \<le> i \<and> i < length H then Some (log_entry H i) else None)"
begin

lemma get_new:
  assumes "repr t H" "ins t n v = (t', Some i)" "lo t' \<le> i"
  shows "get t' i = Some (entry_new n v i)"
  using ins_Some [OF assms(1,2)] get_log [of t' "H @ [(n, v)]" i] assms(3)
  by (simp add: log_entry_def)

lemma agree:
  assumes "repr t H" "repr u (H @ G)" "get t i = Some e" "get u i = Some e'"
  shows "e = e'"
  using assms get_log [OF assms(1), of i] get_log [OF assms(2), of i]
  by (auto simp: log_entry_append split: if_splits)

fun ins_all :: "'t \<Rightarrow> field_log \<Rightarrow> 't option" where
  "ins_all t [] = Some t"
| "ins_all t (f # fs) =
    (case ins t (fst f) (snd f) of (t', Some i) \<Rightarrow> ins_all t' fs | (t', None) \<Rightarrow> None)"

lemma ins_all_log: "repr t H \<Longrightarrow> ins_all t fs = Some t' \<Longrightarrow> repr t' (H @ fs)"
proof (induction fs arbitrary: t H)
  case (Cons f fs)
  then obtain u i where u: "ins t (fst f) (snd f) = (u, Some i)" "ins_all u fs = Some t'"
    by (auto split: prod.splits option.splits)
  with Cons.IH [of u "H @ [(fst f, snd f)]"] ins_Some [OF Cons.prems(1) u(1)] show ?case by simp
qed simp

end

interpretation dt: log_table dt_repr dt_insert get_by_absolute_index dt_dropped_count
proof
  fix t t' :: dynamic_table and H :: field_log and n v :: bytes and i :: u64
  show "dt_repr t H \<Longrightarrow> dt_insert t n v = (t', Some i) \<Longrightarrow> i = length H \<and> dt_repr t' (H @ [(n, v)])"
    using dt_insert_repr [of t H n v t' "Some i"] by simp
  show "dt_repr t H \<Longrightarrow> dt_insert t n v = (t', None) \<Longrightarrow> dt_repr t' H"
    using dt_insert_repr [of t H n v t' None] by simp
  show "dt_repr t H \<Longrightarrow> get_by_absolute_index t i =
      (if dt_dropped_count t \<le> i \<and> i < length H then Some (log_entry H i) else None)"
    by (rule get_by_absolute_index_log)
qed

section \<open>Reachable tables\<close>

text \<open>
  The steps of a table.  \<open>StLimit\<close> is the encoder's: the decoder never sets a limit, so its tables
  are reached by the other steps alone (\<open>limited = False\<close>).
\<close>

inductive table_step :: "bool \<Rightarrow> dynamic_table \<Rightarrow> dynamic_table \<Rightarrow> bool" where
  StInsert: "table_step limited t (fst (dt_insert t n v))"
| StDuplicate: "table_step limited t (fst (dt_duplicate t k))"
| StCapacity: "table_step limited t (dt_set_capacity t c)"
| StClear: "table_step limited t (dt_clear t)"
| StLimit: "table_step True t (dt_set_eviction_limit t l)"

inductive table_reach :: "bool \<Rightarrow> u64 \<Rightarrow> dynamic_table \<Rightarrow> bool" where
  init: "table_reach limited c (dt_with_capacity c)"
| step: "table_reach limited c t \<Longrightarrow> table_step limited t t' \<Longrightarrow> table_reach limited c t'"

definition table_inv :: "bool \<Rightarrow> dynamic_table \<Rightarrow> bool" where
  "table_inv limited t \<longleftrightarrow> (\<exists>H. dt_repr t H) \<and>
    (limited \<or> dt_eviction_limit t = 0 \<and> dt_fits t)"

lemma dt_insert_inv:
  assumes "table_inv limited t"
  shows "table_inv limited (fst (dt_insert t n v))"
proof -
  from assms obtain H where H: "dt_repr t H" and lim: "limited \<or> dt_eviction_limit t = 0 \<and> dt_fits t"
    by (auto simp: table_inv_def)
  obtain t' r where i: "dt_insert t n v = (t', r)" by fastforce
  note sp = dt_insert_repr [OF H i]
  show ?thesis
  proof (cases r)
    case (Some k)
    with sp lim i show ?thesis by (auto simp: table_inv_def)
  next
    case None
    have "dt_fits (evict_to_fit t x)" if "dt_fits t" for x
      using that evict_to_fit_facts(2,4) [OF H, of x] by (simp add: dt_fits_def same_settings_def)
    with i None have "dt_fits t \<Longrightarrow> dt_fits t'"
      by (auto simp: dt_insert_def Let_def split: if_splits)
    with None sp lim i show ?thesis by (auto simp: table_inv_def)
  qed
qed

lemma table_step_inv:
  assumes "table_step limited t t'" "table_inv limited t"
  shows "table_inv limited t'"
  using assms(1)
proof (cases rule: table_step.cases)
  case (StInsert n v)
  with dt_insert_inv [OF assms(2)] show ?thesis by simp
next
  case (StDuplicate k)
  then show ?thesis
    using dt_insert_inv [OF assms(2)] assms(2)
    by (auto simp: dt_duplicate_def split: option.splits)
next
  case (StCapacity c)
  with assms(2) dt_set_capacity_repr show ?thesis by (auto simp: table_inv_def)
next
  case StClear
  with assms(2) dt_clear_repr show ?thesis
    by (auto simp: table_inv_def dt_fits_def dt_clear_def)
next
  case (StLimit l)
  with assms(2) show ?thesis
    by (auto simp: table_inv_def dt_repr_def dt_set_eviction_limit_def)
qed

section \<open>Properties of the dynamic table\<close>

text \<open>
  C34: The dynamic table refines a log of all inserted fields.  Inserting appends to the log or
  changes nothing but evictions; the new index is the length of the log; no entry below the
  eviction limit is dropped; and each of the four ways of indexing reads the log at the absolute
  index that RFC 9204 computes, inside the stored window.
\<close>

theorem dynamic_table_refines_log:
  assumes "dt_repr t H"
  shows "(case dt_insert t n v of
      (t', None) \<Rightarrow> dt_repr t' H \<and> keeps_protected t t'
    | (t', Some i) \<Rightarrow> i = length H \<and> dt_repr t' (H @ [(n, v)]) \<and> dt_fits t' \<and> keeps_protected t t') \<and>
    get_by_absolute_index t k =
      (if dt_dropped_count t \<le> k \<and> k < length H then Some (log_entry H k) else None) \<and>
    get_by_relative_index_encoder t k =
      (if k + dt_dropped_count t < length H then Some (log_entry H (length H - 1 - k)) else None) \<and>
    get_by_relative_index_repr t k base =
      (if k < base \<and> dt_dropped_count t \<le> base - 1 - k \<and> base - 1 - k < length H
       then Some (log_entry H (base - 1 - k)) else None) \<and>
    get_by_post_base_index t k base =
      (if base + k \<le> u64_max \<and> dt_dropped_count t \<le> base + k \<and> base + k < length H
       then Some (log_entry H (base + k)) else None)"
proof -
  obtain t' r where i: "dt_insert t n v = (t', r)" by fastforce
  have "case dt_insert t n v of
      (t', None) \<Rightarrow> dt_repr t' H \<and> keeps_protected t t'
    | (t', Some i) \<Rightarrow> i = length H \<and> dt_repr t' (H @ [(n, v)]) \<and> dt_fits t' \<and> keeps_protected t t'"
    using dt_insert_repr [OF assms i] unfolding i by (cases r) simp_all
  moreover note get_by_absolute_index_log [OF assms] get_by_relative_index_encoder_log [OF assms]
  ultimately show ?thesis
    by (simp add: get_by_relative_index_repr_def get_by_post_base_index_def checked_add_def
        less_diff_conv)
qed

theorem dynamic_table_refines_log_witness:
  "get_by_absolute_index (dt_with_capacity 100) 0 = None \<and>
   dt_repr (dt_with_capacity 100) ([] :: field_log)"
  using dynamic_table_refines_log [of "dt_with_capacity 100" "[]" "[1]" "[2]" 0 0] by simp

text \<open>
  Every reachable table is consistent.  After any sequence of inserts, duplications, capacity
  changes, clears and limit changes the entries are consecutively numbered up to the insert count
  and the recorded size is the sum of the entry sizes; as long as no eviction limit is ever set,
  as in the decoder, the size never exceeds the capacity and an insert fails only when the entry
  alone is larger than the capacity.
\<close>

theorem dynamic_table_reachable:
  assumes "table_reach limited c t"
  shows "(\<exists>H. dt_repr t H) \<and>
    (limited \<or> dt_fits t \<and>
      (snd (dt_insert t n v) \<noteq> None \<longleftrightarrow> 32 + length n + length v \<le> dt_max_capacity t))"
proof -
  have "table_inv limited t"
    using assms
  proof (induction rule: table_reach.induct)
    case (init limited c)
    have "dt_repr (dt_with_capacity c) []" by simp
    then show ?case by (auto simp: table_inv_def dt_with_capacity_def dt_fits_def)
  qed (rule table_step_inv)
  then obtain H where "dt_repr t H" "limited \<or> dt_eviction_limit t = 0 \<and> dt_fits t"
    by (auto simp: table_inv_def)
  then show ?thesis using dt_insert_unlimited [of t H n v] by blast
qed

theorem dynamic_table_reachable_witness:
  "dt_fits (fst (dt_insert (dt_with_capacity 40) [1] [2]))"
  using dynamic_table_reachable [OF table_reach.step [OF table_reach.init StInsert [of False]]]
  by blast

end
