(* ===== verification/Qpack_Wire.thy ===== *)
theory Qpack_Wire
  imports Prefix_Integer Huffman Dynamic_Table
begin

text \<open>
  QPACK string literals (\<^verbatim>\<open>src/qpack/wire.rs\<close>): a prefix integer with the length and an H flag,
  then the octets, Huffman coded when that is shorter.  \<open>string_bytes\<close> is the encoding as a list.
\<close>

section \<open>Encoding\<close>

definition encode_string_with_prefix ::
    "bytes \<Rightarrow> bytes \<Rightarrow> nat \<Rightarrow> u8 \<Rightarrow> bool \<Rightarrow> (bytes \<times> usize) option" where
  "encode_string_with_prefix buf data prefix_bits flags use_huffman =
    (let huffman_len = huffman_encoded_len data in
     if use_huffman \<and> huffman_len < length data then do {
       let h_bit = as_u8 (2 ^ prefix_bits);
       (buf, offset) \<leftarrow> encode_integer buf huffman_len prefix_bits (flags OR h_bit);
       (sub, n) \<leftarrow> huffman_encode (drop offset buf) data;
       Some (splice buf offset sub, offset + huffman_len)
     }
     else do {
       (buf, offset) \<leftarrow> encode_integer buf (length data) prefix_bits flags;
       if length buf < offset + length data then None
       else Some (copy_at buf offset data, offset + length data)
     })"

definition encode_string :: "bytes \<Rightarrow> bytes \<Rightarrow> bool \<Rightarrow> (bytes \<times> usize) option" where
  "encode_string buf data use_huffman =
    (let huffman_len = huffman_encoded_len data in
     if use_huffman \<and> huffman_len < length data then do {
       (buf, offset) \<leftarrow> encode_integer buf huffman_len 7 0x80;
       (sub, n) \<leftarrow> huffman_encode (drop offset buf) data;
       Some (splice buf offset sub, offset + huffman_len)
     }
     else do {
       (buf, offset) \<leftarrow> encode_integer buf (length data) 7 0x00;
       if length buf < offset + length data then None
       else Some (copy_at buf offset data, offset + length data)
     })"

section \<open>Decoding\<close>

definition decode_string :: "bytes \<Rightarrow> qpack_error + bytes \<times> usize" where
  "decode_string data =
    (if data = [] then Inl QBufferTooShort
     else
       let is_huffman = (data ! 0 AND 0x80 \<noteq> 0) in
       bindR (decode_integer data 7) (\<lambda>(len, prefix_len).
       let total_len = prefix_len + len in
       if length data < total_len then Inl QBufferTooShort
       else
         let encoded = drop prefix_len (take total_len data) in
         bindR (if is_huffman then huffman_decode encoded else Inr encoded) (\<lambda>decoded.
           Inr (decoded, total_len))))"

definition decode_string_with_len :: "bytes \<Rightarrow> usize \<Rightarrow> bool \<Rightarrow> qpack_error + bytes \<times> usize" where
  "decode_string_with_len data len is_huffman =
    (if length data < len then Inl QBufferTooShort
     else
       let encoded = take len data in
       bindR (if is_huffman then huffman_decode encoded else Inr encoded) (\<lambda>decoded.
         Inr (decoded, len)))"

section \<open>The bytes of a string\<close>

definition uses_huffman :: "bytes \<Rightarrow> bool \<Rightarrow> bool" where
  "uses_huffman data uh \<longleftrightarrow> uh \<and> huffman_encoded_len data < length data"

definition string_octets :: "bytes \<Rightarrow> bool \<Rightarrow> bytes" where
  "string_octets data uh = (if uses_huffman data uh then huffman_bytes data else data)"

definition string_tag :: "bytes \<Rightarrow> nat \<Rightarrow> u8 \<Rightarrow> bool \<Rightarrow> u8" where
  "string_tag data p tag uh = (if uses_huffman data uh then tag OR as_u8 (2 ^ p) else tag)"

definition string_bytes :: "bytes \<Rightarrow> nat \<Rightarrow> u8 \<Rightarrow> bool \<Rightarrow> bytes" where
  "string_bytes data p tag uh =
    int_bytes (length (string_octets data uh)) p (string_tag data p tag uh) @ string_octets data uh"

lemma string_octets_le: "length (string_octets data uh) \<le> length data"
  by (simp add: string_octets_def uses_huffman_def huffman_bytes_bits(1))

lemma string_bytes_nonempty [simp]: "string_bytes data p tag uh \<noteq> []"
  by (simp add: string_bytes_def)

lemma huffman_encode_at:
  assumes "length as + huffman_encoded_len data \<le> length buf"
  shows "\<exists>sub. huffman_encode (drop (length as) (written buf as)) data = Some (sub, huffman_encoded_len data) \<and>
    splice (written buf as) (length as) sub = written buf (as @ huffman_bytes data)"
  using assms by (simp add: huffman_encode_written huffman_bytes_bits(1) splice_written)

lemma huffman_encode_at_None:
  assumes "length as \<le> length buf" "length buf < length as + huffman_encoded_len data"
  shows "huffman_encode (drop (length as) (written buf as)) data = None"
  using assms by (simp add: huffman_encode_written)

lemma encode_string_with_prefix_written:
  assumes "0 < p" "p \<le> 8"
  shows "encode_string_with_prefix buf data p tag uh =
    (if length buf < length (string_bytes data p tag uh) then None
     else Some (written buf (string_bytes data p tag uh), length (string_bytes data p tag uh)))"
proof (cases "uses_huffman data uh")
  case True
  let ?i = "int_bytes (huffman_encoded_len data) p (tag OR as_u8 (2 ^ p))"
  have sb: "string_bytes data p tag uh = ?i @ huffman_bytes data"
    using True by (simp add: string_bytes_def string_octets_def string_tag_def huffman_bytes_bits(1))
  have e: "encode_string_with_prefix buf data p tag uh =
      (encode_integer buf (huffman_encoded_len data) p (tag OR as_u8 (2 ^ p)) \<bind> (\<lambda>(buf, offset).
       huffman_encode (drop offset buf) data \<bind> (\<lambda>(sub, n).
       Some (splice buf offset sub, offset + huffman_encoded_len data))))"
    using True by (simp add: encode_string_with_prefix_def uses_huffman_def Let_def)
  consider "length buf < length ?i" | "length ?i \<le> length buf" "length buf < length (?i @ huffman_bytes data)"
    | "length (?i @ huffman_bytes data) \<le> length buf" by linarith
  then show ?thesis
  proof cases
    case 1
    then show ?thesis by (simp add: e sb encode_integer_written [OF assms])
  next
    case 2
    with huffman_encode_at_None [of ?i buf data] show ?thesis
      by (simp add: e sb encode_integer_written [OF assms] huffman_bytes_bits(1))
  next
    case 3
    with huffman_encode_at [of ?i data buf] show ?thesis
      by (auto simp: e sb encode_integer_written [OF assms] huffman_bytes_bits(1))
  qed
next
  case False
  then have sb: "string_bytes data p tag uh = int_bytes (length data) p tag @ data"
    by (simp add: string_bytes_def string_octets_def string_tag_def)
  from False have "(uh \<and> huffman_encoded_len data < length data) = False"
    by (simp add: uses_huffman_def)
  then have "encode_string_with_prefix buf data p tag uh =
      (encode_integer buf (length data) p tag \<bind> (\<lambda>(buf, offset).
       if length buf < offset + length data then None
       else Some (copy_at buf offset data, offset + length data)))"
    by (simp only: encode_string_with_prefix_def Let_def if_False)
  then show ?thesis
    by (simp add: sb encode_integer_written [OF assms] copy_at_written)
qed

lemma encode_string_prefix: "encode_string buf data uh = encode_string_with_prefix buf data 7 0 uh"
  by (simp add: encode_string_def encode_string_with_prefix_def as_u8_def Let_def)

section \<open>Reading the bytes back\<close>

lemma first_byte_high:
  assumes "unat tag = 0 \<or> unat tag = 128"
  shows "(int_bytes v 7 tag @ rest) ! 0 AND 0x80 \<noteq> 0 \<longleftrightarrow> unat tag = 128"
proof -
  have "tag_ok 7 tag" using assms by (auto simp: tag_ok_def)
  then have "unat (tag OR as_u8 x) = unat tag + x" if "x < 128" for x
    using unat_tag_or [of 7 tag x] that by simp
  with assms show ?thesis
    by (auto simp: byte_high int_bytes_def)
qed

lemma string_tag_7: "string_tag data 7 0 uh = (if uses_huffman data uh then 0x80 else 0)"
  by (simp add: string_tag_def as_u8_def)

lemma decode_octets:
  "(if uses_huffman data uh then huffman_decode (string_octets data uh) else Inr (string_octets data uh))
    = Inr data"
  by (simp add: string_octets_def huffman_decode_bytes)

lemma decode_string_bytes:
  assumes "length data < 2 ^ 62"
  shows "decode_string (string_bytes data 7 0 uh @ rest) = Inr (data, length (string_bytes data 7 0 uh))"
proof -
  let ?t = "string_tag data 7 0 uh" and ?o = "string_octets data uh"
  have t: "tag_ok 7 ?t" "unat ?t = 0 \<or> unat ?t = 128" "unat ?t = 128 \<longleftrightarrow> uses_huffman data uh"
    by (auto simp: tag_ok_def string_tag_7)
  have len: "length ?o < 2 ^ 62" using string_octets_le [of data uh] assms by simp
  have b: "string_bytes data 7 0 uh @ rest = int_bytes (length ?o) 7 ?t @ (?o @ rest)"
    by (simp add: string_bytes_def)
  have h: "(string_bytes data 7 0 uh @ rest) ! 0 AND 0x80 \<noteq> 0 \<longleftrightarrow> uses_huffman data uh"
    unfolding b using first_byte_high [OF t(2)] t(3) by simp
  have i: "decode_integer (string_bytes data 7 0 uh @ rest) 7 =
      Inr (length ?o, length (int_bytes (length ?o) 7 ?t))"
    unfolding b by (rule decode_int_bytes [OF t(1) len])
  have oc: "drop (length (int_bytes (length ?o) 7 ?t))
      (take (length (int_bytes (length ?o) 7 ?t) + length ?o) (string_bytes data 7 0 uh @ rest)) = ?o"
    unfolding b by simp
  have tot: "\<not> length (string_bytes data 7 0 uh @ rest) < length (int_bytes (length ?o) 7 ?t) + length ?o"
    "string_bytes data 7 0 uh @ rest \<noteq> []"
    unfolding b by simp_all
  show ?thesis
    unfolding decode_string_def Let_def h
    by (simp only: i bindR_simps prod.case oc decode_octets tot if_False) (simp add: string_bytes_def)
qed

lemma decode_string_sound:
  assumes "decode_string data = Inr (s, n)"
  shows "0 < n \<and> n \<le> length data"
  using assms decode_integer_sound [of data 7]
  by (auto simp: decode_string_def Let_def bindR_Inr_iff split: if_splits)

lemma decode_string_stable:
  assumes "decode_string data \<noteq> Inl QBufferTooShort"
  shows "decode_string (data @ rest) = decode_string data"
proof -
  have ne: "data \<noteq> []" using assms by (auto simp: decode_string_def)
  have i: "decode_integer data 7 \<noteq> Inl QBufferTooShort"
    using assms ne by (auto simp: decode_string_def)
  then have st: "decode_integer (data @ rest) 7 = decode_integer data 7"
    by (rule decode_integer_stable)
  show ?thesis
  proof (cases "decode_integer data 7")
    case (Inl e)
    with ne st show ?thesis by (simp add: decode_string_def)
  next
    case (Inr r)
    then obtain l n where r: "decode_integer data 7 = Inr (l, n)" by (cases r) auto
    with assms ne have "n + l \<le> length data" by (auto simp: decode_string_def Let_def split: if_splits)
    with ne st r show ?thesis by (simp add: decode_string_def Let_def nth_append)
  qed
qed

interpretation str: incremental "\<lambda>s. length s < 2 ^ 62" "\<lambda>s. string_bytes s 7 0 uh" decode_string
  QBufferTooShort for uh
  by unfold_locales
    (auto simp: decode_string_bytes decode_string_stable dest: decode_string_sound)

lemma decode_string_with_len_octets:
  "decode_string_with_len (string_octets data uh @ rest) (length (string_octets data uh))
      (uses_huffman data uh) = Inr (data, length (string_octets data uh))"
  by (simp add: decode_string_with_len_def Let_def decode_octets)

end
