(* ===== verification/Field_Line.thy ===== *)
theory Field_Line
  imports Qpack_Wire
begin

text \<open>
  The abstract syntax of QPACK field sections (RFC 9204 Section 4.5): the seven kinds of field
  line, their wire form and the field that a line stands for, given the state of the dynamic
  table.  The encoder and the decoder are both related to this view.
\<close>

section \<open>Field lines\<close>

datatype field_line =
    LineStatic nat
  | LineDynamic nat
  | LinePostBase nat
  | LineNameStatic bool nat bytes
  | LineNameDynamic bool nat bytes
  | LineNamePostBase bool nat bytes
  | LineLiteral bool bytes bytes

fun line_bytes :: "bool \<Rightarrow> field_line \<Rightarrow> bytes" where
  "line_bytes uh (LineStatic i) = int_bytes i 6 0xc0"
| "line_bytes uh (LineDynamic k) = int_bytes k 6 0x80"
| "line_bytes uh (LinePostBase k) = int_bytes k 4 0x10"
| "line_bytes uh (LineNameStatic nv i v) =
    int_bytes i 4 (if nv then 0x70 else 0x50) @ string_bytes v 7 0 uh"
| "line_bytes uh (LineNameDynamic nv k v) =
    int_bytes k 4 (if nv then 0x60 else 0x40) @ string_bytes v 7 0 uh"
| "line_bytes uh (LineNamePostBase nv k v) =
    int_bytes k 3 (if nv then 0x08 else 0x00) @ string_bytes v 7 0 uh"
| "line_bytes uh (LineLiteral nv n v) =
    string_bytes n 3 (if nv then 0x30 else 0x20) uh @ string_bytes v 7 0 uh"

fun wf_line :: "field_line \<Rightarrow> bool" where
  "wf_line (LineStatic i) \<longleftrightarrow> i < 2 ^ 62"
| "wf_line (LineDynamic k) \<longleftrightarrow> k < 2 ^ 62"
| "wf_line (LinePostBase k) \<longleftrightarrow> k < 2 ^ 62"
| "wf_line (LineNameStatic nv i v) \<longleftrightarrow> i < 2 ^ 62 \<and> length v < 2 ^ 62"
| "wf_line (LineNameDynamic nv k v) \<longleftrightarrow> k < 2 ^ 62 \<and> length v < 2 ^ 62"
| "wf_line (LineNamePostBase nv k v) \<longleftrightarrow> k < 2 ^ 62 \<and> length v < 2 ^ 62"
| "wf_line (LineLiteral nv n v) \<longleftrightarrow> length n < 2 ^ 62 \<and> length v < 2 ^ 62"

lemma line_bytes_nonempty [simp]: "line_bytes uh l \<noteq> []"
  by (cases l) simp_all

text \<open>The field of a line: a lookup by absolute index that must be below the Required Insert Count.\<close>

definition static_field :: "nat \<Rightarrow> qpack_error + header" where
  "static_field i = ok_or (get_static_entry i) (InvalidIndex i)"

definition relative_field :: "dynamic_table \<Rightarrow> u64 \<Rightarrow> u64 \<Rightarrow> nat \<Rightarrow> qpack_error + dynamic_entry" where
  "relative_field t base ric k =
    (if k < base \<and> ric \<le> base - k - 1 then Inl DecodeFailed
     else ok_or (get_by_relative_index_repr t k base) (InvalidIndex k))"

definition post_base_field :: "dynamic_table \<Rightarrow> u64 \<Rightarrow> u64 \<Rightarrow> nat \<Rightarrow> qpack_error + dynamic_entry" where
  "post_base_field t base ric k =
    (case checked_add base k of
       None \<Rightarrow> Inl DecodeFailed
     | Some i \<Rightarrow>
         if ric \<le> i then Inl DecodeFailed
         else ok_or (get_by_post_base_index t k base) (InvalidIndex k))"

definition entry_header :: "dynamic_entry \<Rightarrow> header" where
  "entry_header e = header_from_validated_parts (de_name e) (de_value e)"

fun line_field :: "dynamic_table \<Rightarrow> u64 \<Rightarrow> u64 \<Rightarrow> field_line \<Rightarrow> qpack_error + header" where
  "line_field t base ric (LineStatic i) = static_field i"
| "line_field t base ric (LineDynamic k) =
    bindR (relative_field t base ric k) (\<lambda>e. Inr (entry_header e))"
| "line_field t base ric (LinePostBase k) =
    bindR (post_base_field t base ric k) (\<lambda>e. Inr (entry_header e))"
| "line_field t base ric (LineNameStatic nv i v) =
    bindR (static_field i) (\<lambda>h. Inr (header_from_validated_parts (h_name h) v))"
| "line_field t base ric (LineNameDynamic nv k v) =
    bindR (relative_field t base ric k) (\<lambda>e. Inr (header_from_validated_parts (de_name e) v))"
| "line_field t base ric (LineNamePostBase nv k v) =
    bindR (post_base_field t base ric k) (\<lambda>e. Inr (header_from_validated_parts (de_name e) v))"
| "line_field t base ric (LineLiteral nv n v) = Inr (header_from_validated_parts n v)"

section \<open>The flags of the first byte\<close>

lemma first_byte_flags:
  assumes "tag_ok p tag" "unat m mod 2 ^ p = 0"
  shows "(int_bytes v p tag @ rest) ! 0 AND m = tag AND m"
proof -
  have p: "p \<le> 8" using assms(1) by (simp add: tag_ok_def)
  have "(2 :: nat) ^ p \<le> 2 ^ 8" using p by (rule power_increasing) simp
  then have p8: "(2 :: nat) ^ p \<le> 256" by simp
  have low: "(tag OR as_u8 x) AND m = tag AND m" if "x < 2 ^ p" for x
  proof -
    have "x mod 256 = x" using that p8 by simp
    then have "unat (as_u8 x AND m) = x AND unat m" by (simp only: unsigned_and_eq unat_as_u8)
    also have "unat m = (unat m div 2 ^ p) * 2 ^ p" using assms(2) by auto
    finally have "unat (as_u8 x AND m) = 0" using nat_and_tag [OF that] by simp
    then have "as_u8 x AND m = 0" by (simp add: word_unat_eq_iff)
    then show ?thesis by (simp add: bit.conj_disj_distrib2)
  qed
  show ?thesis
    using low [of v] low [of "2 ^ p - 1"] by (auto simp: int_bytes_def)
qed

lemma length_octets_62: "length v < 2 ^ 62 \<Longrightarrow> length (string_octets v uh) < 2 ^ 62"
  using string_octets_le [of v uh] by simp

text \<open>A name literal: the integer with its flags, then the octets.\<close>

lemma decode_name_literal:
  assumes "tag_ok p tag" "tag_ok p (tag OR as_u8 (2 ^ p))" "length v < 2 ^ 62"
  shows "decode_integer (string_bytes v p tag uh @ rest) p =
      Inr (length (string_octets v uh),
        length (int_bytes (length (string_octets v uh)) p (string_tag v p tag uh)))"
    "drop (length (int_bytes (length (string_octets v uh)) p (string_tag v p tag uh)))
      (string_bytes v p tag uh @ rest) = string_octets v uh @ rest"
proof -
  have t: "tag_ok p (string_tag v p tag uh)" using assms(1,2) by (simp add: string_tag_def)
  have e: "string_bytes v p tag uh @ rest =
      int_bytes (length (string_octets v uh)) p (string_tag v p tag uh) @ (string_octets v uh @ rest)"
    by (simp add: string_bytes_def)
  show "decode_integer (string_bytes v p tag uh @ rest) p =
      Inr (length (string_octets v uh),
        length (int_bytes (length (string_octets v uh)) p (string_tag v p tag uh)))"
    unfolding e by (rule decode_int_bytes [OF t length_octets_62 [OF assms(3)]])
  show "drop (length (int_bytes (length (string_octets v uh)) p (string_tag v p tag uh)))
      (string_bytes v p tag uh @ rest) = string_octets v uh @ rest"
    unfolding e by simp
qed

lemma tags_ok:
  "tag_ok 6 0xc0" "tag_ok 6 0x80" "tag_ok 4 0x10" "tag_ok 4 0x70" "tag_ok 4 0x50" "tag_ok 4 0x60"
  "tag_ok 4 0x40" "tag_ok 3 0x08" "tag_ok 3 0x00" "tag_ok 3 0x30" "tag_ok 3 0x20" "tag_ok 3 0x38"
  "tag_ok 3 0x28" "tag_ok 5 0x40" "tag_ok 5 0x60" "tag_ok 6 0x00" "tag_ok 6 0x40" "tag_ok 5 0x20"
  "tag_ok 5 0x00" "tag_ok 7 0x80" "tag_ok 7 0x00" "tag_ok 8 0x00"
  by (simp_all add: tag_ok_def)

end
