(* ===== verification/Qpack_Encoder.thy ===== *)
theory Qpack_Encoder
  imports Field_Line "HOL-Library.AList"
begin

text \<open>
  The QPACK encoder (\<^verbatim>\<open>src/qpack/encoder.rs\<close>): the choice of a field line for every header, the
  writers of the lines, the field section and the bookkeeping of unacknowledged sections, which
  determines what the dynamic table may evict.  Every writer is shown to write the bytes of the
  line it stands for.
\<close>

section \<open>State\<close>

text \<open>\<open>qe_unacked\<close>: the \<^verbatim>\<open>HashMap\<close> from streams to the queue of Required Insert Counts.\<close>

record dynamic_encoder =
  qe_table :: dynamic_table
  qe_use_huffman :: bool
  qe_max_table_capacity :: u64
  qe_known_received_count :: u64
  qe_last_ric :: u64
  qe_peer_max_blocked_streams :: u64
  qe_unacked :: "(u64 \<times> u64 list) list"

definition qe_new :: dynamic_encoder where
  "qe_new =
    \<lparr>qe_table = dt_new, qe_use_huffman = True, qe_max_table_capacity = 0,
     qe_known_received_count = 0, qe_last_ric = 0, qe_peer_max_blocked_streams = 0,
     qe_unacked = []\<rparr>"

definition qe_set_max_table_capacity :: "dynamic_encoder \<Rightarrow> u64 \<Rightarrow> dynamic_encoder" where
  "qe_set_max_table_capacity e capacity = e\<lparr>qe_max_table_capacity := capacity\<rparr>"

definition qe_set_peer_max_blocked_streams :: "dynamic_encoder \<Rightarrow> u64 \<Rightarrow> dynamic_encoder" where
  "qe_set_peer_max_blocked_streams e m = e\<lparr>qe_peer_max_blocked_streams := m\<rparr>"

definition qe_set_table_capacity :: "dynamic_encoder \<Rightarrow> u64 \<Rightarrow> dynamic_encoder \<times> (qpack_error + unit)" where
  "qe_set_table_capacity e capacity =
    (if qe_max_table_capacity e < capacity then (e, Inl CapacityExceeded)
     else (e\<lparr>qe_table := dt_set_capacity (qe_table e) capacity\<rparr>, Inr ()))"

definition qe_insert :: "dynamic_encoder \<Rightarrow> bytes \<Rightarrow> bytes \<Rightarrow> dynamic_encoder \<times> u64 option" where
  "qe_insert e name v =
    (case dt_insert (qe_table e) name v of (t, r) \<Rightarrow> (e\<lparr>qe_table := t\<rparr>, r))"

section \<open>Unacknowledged sections\<close>

definition max_ric :: "(u64 \<times> u64 list) list \<Rightarrow> u64" where
  "max_ric unacked = foldr max (concat (map snd unacked)) 0"

definition update_eviction_limit :: "dynamic_encoder \<Rightarrow> dynamic_encoder" where
  "update_eviction_limit e =
    e\<lparr>qe_table := dt_set_eviction_limit (qe_table e) (max_ric (qe_unacked e))\<rparr>"

definition qe_acknowledge :: "dynamic_encoder \<Rightarrow> u64 \<Rightarrow> dynamic_encoder" where
  "qe_acknowledge e count =
    update_eviction_limit
      (if qe_known_received_count e < count then e\<lparr>qe_known_received_count := count\<rparr> else e)"

definition qe_track_section :: "dynamic_encoder \<Rightarrow> u64 \<Rightarrow> u64 \<Rightarrow> dynamic_encoder" where
  "qe_track_section e stream_id ric =
    (if 0 < ric then
       let rics = (case map_of (qe_unacked e) stream_id of None \<Rightarrow> [] | Some rs \<Rightarrow> rs) in
       update_eviction_limit (e\<lparr>qe_unacked := AList.update stream_id (rics @ [ric]) (qe_unacked e)\<rparr>)
     else e)"

definition qe_ack_section :: "dynamic_encoder \<Rightarrow> u64 \<Rightarrow> dynamic_encoder \<times> (qpack_error + unit)" where
  "qe_ack_section e stream_id =
    (case map_of (qe_unacked e) stream_id of
       None \<Rightarrow> (e, Inl DecodeFailed)
     | Some [] \<Rightarrow> (e, Inl DecodeFailed)
     | Some (ric # rics) \<Rightarrow>
         let e = e\<lparr>qe_unacked :=
               (if rics = [] then AList.delete stream_id (qe_unacked e)
                else AList.update stream_id rics (qe_unacked e))\<rparr>;
             e = (if qe_known_received_count e < ric then e\<lparr>qe_known_received_count := ric\<rparr> else e) in
         (update_eviction_limit e, Inr ()))"

definition qe_cancel_stream :: "dynamic_encoder \<Rightarrow> u64 \<Rightarrow> dynamic_encoder" where
  "qe_cancel_stream e stream_id =
    update_eviction_limit (e\<lparr>qe_unacked := AList.delete stream_id (qe_unacked e)\<rparr>)"

definition qe_blocked_streams_count :: "dynamic_encoder \<Rightarrow> usize" where
  "qe_blocked_streams_count e = length (qe_unacked e)"

section \<open>Encoding a field line\<close>

definition encode_indexed_field_static :: "bytes \<Rightarrow> usize \<Rightarrow> (bytes \<times> usize) option" where
  "encode_indexed_field_static buf index = encode_integer buf index 6 0xc0"

definition encode_indexed_field_dynamic :: "bytes \<Rightarrow> u64 \<Rightarrow> u64 \<Rightarrow> (bytes \<times> usize) option" where
  "encode_indexed_field_dynamic buf absolute_index base =
    (let relative_index = base - absolute_index - 1 in encode_integer buf relative_index 6 0x80)"

definition encode_literal_with_name_ref_static ::
    "dynamic_encoder \<Rightarrow> bytes \<Rightarrow> usize \<Rightarrow> bytes \<Rightarrow> bool \<Rightarrow> (bytes \<times> usize) option" where
  "encode_literal_with_name_ref_static e buf index v never = do {
     (buf, offset) \<leftarrow> encode_integer buf index 4 (if never then 0x70 else 0x50);
     (sub, n) \<leftarrow> encode_string (drop offset buf) v (qe_use_huffman e);
     Some (splice buf offset sub, offset + n)
   }"

definition encode_literal_with_name_ref_dynamic ::
    "dynamic_encoder \<Rightarrow> bytes \<Rightarrow> u64 \<Rightarrow> bytes \<Rightarrow> u64 \<Rightarrow> bool \<Rightarrow> (bytes \<times> usize) option" where
  "encode_literal_with_name_ref_dynamic e buf absolute_index v base never = do {
     (buf, offset) \<leftarrow> encode_integer buf (base - absolute_index - 1) 4 (if never then 0x60 else 0x40);
     (sub, n) \<leftarrow> encode_string (drop offset buf) v (qe_use_huffman e);
     Some (splice buf offset sub, offset + n)
   }"

definition encode_literal_with_literal_name ::
    "dynamic_encoder \<Rightarrow> bytes \<Rightarrow> bytes \<Rightarrow> bytes \<Rightarrow> bool \<Rightarrow> (bytes \<times> usize) option" where
  "encode_literal_with_literal_name e buf name v never = do {
     (buf, offset) \<leftarrow> encode_string_with_prefix buf name 3 (if never then 0x30 else 0x20) (qe_use_huffman e);
     (sub, n) \<leftarrow> encode_string (drop offset buf) v (qe_use_huffman e);
     Some (splice buf offset sub, offset + n)
   }"

definition encode_header_static_only ::
    "dynamic_encoder \<Rightarrow> header \<Rightarrow> bytes \<Rightarrow> (bytes \<times> usize) option" where
  "encode_header_static_only e h buf =
    (case find_static_entry (h_name h) (h_value h) of
       (Some index, _) \<Rightarrow> encode_indexed_field_static buf index
     | (None, Some index) \<Rightarrow>
         encode_literal_with_name_ref_static e buf index (h_value h) (never_indexed h)
     | (None, None) \<Rightarrow>
         encode_literal_with_literal_name e buf (h_name h) (h_value h) (never_indexed h))"

definition encode_header_with_dynamic ::
    "dynamic_encoder \<Rightarrow> u64 \<Rightarrow> header \<Rightarrow> bytes \<Rightarrow> (bytes \<times> usize) option" where
  "encode_header_with_dynamic e base h buf =
    (case (dt_find_entry (qe_table e) (h_name h) (h_value h), find_static_entry (h_name h) (h_value h)) of
       ((Some abs_index, _), _) \<Rightarrow> encode_indexed_field_dynamic buf abs_index base
     | ((None, _), (Some index, _)) \<Rightarrow> encode_indexed_field_static buf index
     | ((None, Some abs_index), (None, _)) \<Rightarrow>
         encode_literal_with_name_ref_dynamic e buf abs_index (h_value h) base (never_indexed h)
     | ((None, None), (None, Some index)) \<Rightarrow>
         encode_literal_with_name_ref_static e buf index (h_value h) (never_indexed h)
     | ((None, None), (None, None)) \<Rightarrow>
         encode_literal_with_literal_name e buf (h_name h) (h_value h) (never_indexed h))"

section \<open>Encoding a field section\<close>

definition encode_required_insert_count :: "dynamic_encoder \<Rightarrow> u64 \<Rightarrow> u64" where
  "encode_required_insert_count e ric =
    (if ric = 0 then 0
     else
       let max_entries = qe_max_table_capacity e div 32 in
       if max_entries = 0 then 0
       else ric mod (2 * max_entries) + 1)"

definition encode_static_only :: "dynamic_encoder \<Rightarrow> bytes \<Rightarrow> header list \<Rightarrow> (bytes \<times> usize) option" where
  "encode_static_only e buf headers =
    (if buf = [] then None
     else
       let buf = buf[0 := 0x00] in
       if length buf \<le> 1 then None
       else write_all (encode_header_static_only e) headers (buf[1 := 0x00]) 2)"

definition ric_step :: "dynamic_table \<Rightarrow> header \<Rightarrow> u64 \<Rightarrow> u64" where
  "ric_step t h ric =
    (case dt_find_entry t (h_name h) (h_value h) of
       (Some idx, _) \<Rightarrow> if ric < idx + 1 then idx + 1 else ric
     | (None, Some idx) \<Rightarrow> if ric < idx + 1 then idx + 1 else ric
     | (None, None) \<Rightarrow> ric)"

definition encode_with_dynamic ::
    "dynamic_encoder \<Rightarrow> bytes \<Rightarrow> header list \<Rightarrow> dynamic_encoder \<times> (bytes \<times> usize) option" where
  "encode_with_dynamic e buf headers =
    (let ric = fold (ric_step (qe_table e)) headers 0;
         e = e\<lparr>qe_last_ric := ric\<rparr> in
     (e, do {
        (buf, offset) \<leftarrow> encode_integer buf (encode_required_insert_count e ric) 8 0x00;
        if length buf \<le> offset then None
        else write_all (encode_header_with_dynamic e ric) headers (buf[offset := 0x00]) (offset + 1)
      }))"

definition qe_encode ::
    "dynamic_encoder \<Rightarrow> bytes \<Rightarrow> header list \<Rightarrow> usize \<Rightarrow> dynamic_encoder \<times> (bytes \<times> usize) option" where
  "qe_encode e buf headers blocked_streams_count =
    (if dt_entries (qe_table e) = [] then
       (e\<lparr>qe_last_ric := 0\<rparr>, encode_static_only e buf headers)
     else if qe_max_table_capacity e = 0 then
       (e\<lparr>qe_last_ric := 0\<rparr>, encode_static_only e buf headers)
     else if qe_peer_max_blocked_streams e \<le> blocked_streams_count then
       (e\<lparr>qe_last_ric := 0\<rparr>, encode_static_only e buf headers)
     else encode_with_dynamic e buf headers)"

section \<open>The size estimate\<close>

function encoded_integer_len_loop :: "u64 \<Rightarrow> usize \<Rightarrow> usize" where
  "encoded_integer_len_loop remaining len =
    (if 128 \<le> remaining then encoded_integer_len_loop (drop_bit 7 remaining) (len + 1) else len + 1)"
  by pat_completeness auto
termination
  by (relation "measure fst") (auto simp: drop_bit_eq_div)

declare encoded_integer_len_loop.simps [simp del]

definition encoded_integer_len :: "u64 \<Rightarrow> nat \<Rightarrow> usize" where
  "encoded_integer_len value prefix_bits =
    (let max_prefix = 2 ^ prefix_bits - 1 in
     if value < max_prefix then 1 else encoded_integer_len_loop (value - max_prefix) 1)"

definition encoded_string_len :: "usize \<Rightarrow> nat \<Rightarrow> usize" where
  "encoded_string_len data_len prefix_bits = encoded_integer_len data_len prefix_bits + data_len"

definition estimate_step :: "header \<Rightarrow> usize \<Rightarrow> usize" where
  "estimate_step h sz =
    (case find_static_entry (h_name h) (h_value h) of
       (Some index, _) \<Rightarrow> sz + encoded_integer_len index 6
     | (None, Some index) \<Rightarrow>
         sz + encoded_integer_len index 4 + encoded_string_len (length (h_value h)) 7
     | (None, None) \<Rightarrow>
         sz + encoded_string_len (length (h_name h)) 3 + encoded_string_len (length (h_value h)) 7)"

definition estimate_encoded_size :: "header list \<Rightarrow> usize" where
  "estimate_encoded_size headers = fold estimate_step headers 2"

section \<open>What the writers write\<close>

lemma writes_integer [writers]:
  "0 < p \<Longrightarrow> p \<le> 8 \<Longrightarrow> writes (\<lambda>buf. encode_integer buf v p tag) (int_bytes v p tag)"
  by (simp add: writes_def encode_integer_written)

lemma writes_string_with_prefix [writers]:
  "0 < p \<Longrightarrow> p \<le> 8 \<Longrightarrow>
    writes (\<lambda>buf. encode_string_with_prefix buf data p tag uh) (string_bytes data p tag uh)"
  by (simp add: writes_def encode_string_with_prefix_written)

lemma writes_string [writers]:
  "writes (\<lambda>buf. encode_string buf data uh) (string_bytes data 7 0 uh)"
  by (simp add: encode_string_prefix writes_string_with_prefix)

lemma writes_lines:
  "writes (\<lambda>buf. encode_indexed_field_static buf i) (line_bytes (qe_use_huffman e) (LineStatic i))"
  "writes (\<lambda>buf. encode_indexed_field_dynamic buf a base)
    (line_bytes (qe_use_huffman e) (LineDynamic (base - a - 1)))"
  "writes (\<lambda>buf. encode_literal_with_name_ref_static e buf i v nv)
    (line_bytes (qe_use_huffman e) (LineNameStatic nv i v))"
  "writes (\<lambda>buf. encode_literal_with_name_ref_dynamic e buf a v base nv)
    (line_bytes (qe_use_huffman e) (LineNameDynamic nv (base - a - 1) v))"
  "writes (\<lambda>buf. encode_literal_with_literal_name e buf n v nv)
    (line_bytes (qe_use_huffman e) (LineLiteral nv n v))"
  unfolding encode_indexed_field_static_def encode_indexed_field_dynamic_def Let_def
    encode_literal_with_name_ref_static_def encode_literal_with_name_ref_dynamic_def
    encode_literal_with_literal_name_def line_bytes.simps
  by (intro writes_then writers; simp)+

text \<open>The line that the encoder chooses for a header.\<close>

definition static_line :: "header \<Rightarrow> field_line" where
  "static_line h =
    (case find_static_entry (h_name h) (h_value h) of
       (Some index, _) \<Rightarrow> LineStatic index
     | (None, Some index) \<Rightarrow> LineNameStatic (never_indexed h) index (h_value h)
     | (None, None) \<Rightarrow> LineLiteral (never_indexed h) (h_name h) (h_value h))"

definition dynamic_line :: "dynamic_table \<Rightarrow> u64 \<Rightarrow> header \<Rightarrow> field_line" where
  "dynamic_line t base h =
    (case (dt_find_entry t (h_name h) (h_value h), find_static_entry (h_name h) (h_value h)) of
       ((Some a, _), _) \<Rightarrow> LineDynamic (base - a - 1)
     | ((None, _), (Some index, _)) \<Rightarrow> LineStatic index
     | ((None, Some a), (None, _)) \<Rightarrow> LineNameDynamic (never_indexed h) (base - a - 1) (h_value h)
     | ((None, None), (None, Some index)) \<Rightarrow> LineNameStatic (never_indexed h) index (h_value h)
     | ((None, None), (None, None)) \<Rightarrow> LineLiteral (never_indexed h) (h_name h) (h_value h))"

lemma writes_header_static:
  "writes (encode_header_static_only e h) (line_bytes (qe_use_huffman e) (static_line h))"
proof -
  obtain se sn where f: "find_static_entry (h_name h) (h_value h) = (se, sn)" by fastforce
  show ?thesis
    unfolding encode_header_static_only_def [abs_def] static_line_def f
    by (cases se; cases sn) (simp_all only: option.case prod.case writes_lines)
qed

lemma writes_header_dynamic:
  "writes (encode_header_with_dynamic e base h)
    (line_bytes (qe_use_huffman e) (dynamic_line (qe_table e) base h))"
proof -
  obtain de dn se sn where f: "dt_find_entry (qe_table e) (h_name h) (h_value h) = (de, dn)"
    "find_static_entry (h_name h) (h_value h) = (se, sn)" by fastforce
  show ?thesis
    unfolding encode_header_with_dynamic_def [abs_def] dynamic_line_def f
    by (cases de; cases dn; cases se; cases sn) (simp_all only: option.case prod.case writes_lines)
qed

text \<open>The two field sections.\<close>

definition static_section :: "dynamic_encoder \<Rightarrow> header list \<Rightarrow> bytes" where
  "static_section e headers =
    [0x00, 0x00] @ concat (map (\<lambda>h. line_bytes (qe_use_huffman e) (static_line h)) headers)"

definition dynamic_section :: "dynamic_encoder \<Rightarrow> u64 \<Rightarrow> header list \<Rightarrow> bytes" where
  "dynamic_section e ric headers =
    int_bytes (encode_required_insert_count e ric) 8 0x00 @ [0x00] @
    concat (map (\<lambda>h. line_bytes (qe_use_huffman e) (dynamic_line (qe_table e) ric h)) headers)"

lemma update_at_0: "buf \<noteq> [] \<Longrightarrow> buf[0 := b] = written buf [b]"
  using written_update [of "[]" buf b] by simp

lemma writes_static_only: "writes (\<lambda>buf. encode_static_only e buf headers) (static_section e headers)"
proof -
  have "encode_static_only e buf headers =
      (if length buf < length (static_section e headers) then None
       else Some (written buf (static_section e headers), length (static_section e headers)))" for buf
  proof (cases "length buf < 2")
    case True
    then show ?thesis
      by (cases buf) (auto simp: encode_static_only_def static_section_def Let_def)
  next
    case False
    then have "encode_static_only e buf headers =
        write_all (encode_header_static_only e) headers (written buf [0x00, 0x00])
          (length [0x00 :: u8, 0x00])"
      using written_update [of "[0x00]" buf "0x00"]
      by (cases "buf = []") (auto simp: encode_static_only_def Let_def update_at_0 numeral_2_eq_2)
    also have "\<dots> = (if length buf < length (static_section e headers) then None
        else Some (written buf (static_section e headers), length (static_section e headers)))"
      unfolding static_section_def
      by (rule write_all_at) (use False writes_header_static in auto)
    finally show ?thesis .
  qed
  then show ?thesis by (simp add: writes_def)
qed

lemma encode_with_dynamic_written:
  fixes e headers
  defines "ric \<equiv> fold (ric_step (qe_table e)) headers 0"
  shows "encode_with_dynamic e buf headers =
    (e\<lparr>qe_last_ric := ric\<rparr>,
     if length buf < length (dynamic_section e ric headers) then None
     else Some (written buf (dynamic_section e ric headers), length (dynamic_section e ric headers)))"
proof -
  let ?e = "e\<lparr>qe_last_ric := ric\<rparr>"
  let ?i = "int_bytes (encode_required_insert_count e ric) 8 0x00"
  have enc: "encode_required_insert_count ?e ric = encode_required_insert_count e ric"
    by (simp add: encode_required_insert_count_def)
  have hdr: "writes (encode_header_with_dynamic ?e ric h)
      (line_bytes (qe_use_huffman e) (dynamic_line (qe_table e) ric h))" for h
    using writes_header_dynamic [of ?e ric h] by simp
  show ?thesis
  proof (cases "length buf < length (?i @ [0x00 :: u8])")
    case True
    then show ?thesis
      by (auto simp: encode_with_dynamic_def Let_def ric_def [symmetric] enc encode_integer_written
          dynamic_section_def not_less)
  next
    case False
    have "encode_with_dynamic e buf headers =
        (?e, write_all (encode_header_with_dynamic ?e ric) headers (written buf (?i @ [0x00]))
          (length (?i @ [0x00 :: u8])))"
      using False written_update [of ?i buf "0x00"]
      by (simp add: encode_with_dynamic_def Let_def ric_def [symmetric] enc encode_integer_written)
    also have "write_all (encode_header_with_dynamic ?e ric) headers (written buf (?i @ [0x00]))
          (length (?i @ [0x00 :: u8])) =
        (if length buf < length (dynamic_section e ric headers) then None
         else Some (written buf (dynamic_section e ric headers),
           length (dynamic_section e ric headers)))"
      using write_all_at [of headers "encode_header_with_dynamic ?e ric"
          "\<lambda>h. line_bytes (qe_use_huffman e) (dynamic_line (qe_table e) ric h)" "?i @ [0x00]" buf]
        False hdr
      by (simp add: dynamic_section_def)
    finally show ?thesis .
  qed
qed

section \<open>The estimate bounds the static section\<close>

lemma encoded_integer_len_loop_cont:
  "encoded_integer_len_loop r len = len + length (cont_bytes r)"
proof (induction r len rule: encoded_integer_len_loop.induct)
  case (1 r len)
  then show ?case
    by (subst encoded_integer_len_loop.simps, subst cont_bytes.simps) (simp add: drop_bit_eq_div)
qed

lemma encoded_integer_len_bytes: "encoded_integer_len v p = length (int_bytes v p tag)"
  by (simp add: encoded_integer_len_def int_bytes_def Let_def encoded_integer_len_loop_cont)

lemma cont_bytes_mono: "x \<le> y \<Longrightarrow> length (cont_bytes x) \<le> length (cont_bytes y)"
proof (induction x arbitrary: y rule: less_induct)
  case (less x)
  show ?case
  proof (cases "128 \<le> x")
    case True
    then have "length (cont_bytes (x div 128)) \<le> length (cont_bytes (y div 128))"
      using less by (intro less.IH div_le_mono) simp_all
    with True less.prems show ?thesis
      by (subst (2) cont_bytes.simps, subst cont_bytes.simps) simp
  next
    case False
    then have "length (cont_bytes x) = 1" by (subst cont_bytes.simps) simp
    moreover have "0 < length (cont_bytes y)" by simp
    ultimately show ?thesis by linarith
  qed
qed

lemma int_bytes_mono: "x \<le> y \<Longrightarrow> length (int_bytes x p t) \<le> length (int_bytes y p u)"
  using cont_bytes_mono [of "x - (2 ^ p - 1)" "y - (2 ^ p - 1)"]
  by (auto simp: int_bytes_def)

lemma string_bytes_len: "length (string_bytes data p tag uh) \<le> encoded_string_len (length data) p"
proof -
  have "length (int_bytes (length (string_octets data uh)) p (string_tag data p tag uh)) \<le>
      length (int_bytes (length data) p 0)"
    by (rule int_bytes_mono) (rule string_octets_le)
  then show ?thesis
    using string_octets_le [of data uh]
    by (simp add: string_bytes_def encoded_string_len_def encoded_integer_len_bytes [where tag = 0] add_mono)
qed

lemma estimate_step_line:
  "sz + length (line_bytes uh (static_line h)) \<le> estimate_step h sz"
proof -
  obtain se sn where f: "find_static_entry (h_name h) (h_value h) = (se, sn)" by fastforce
  note b = string_bytes_len [of "h_value h" 7 0 uh] string_bytes_len [of "h_name h" 3 _ uh]
  show ?thesis
  proof (cases se)
    case (Some i)
    then show ?thesis
      by (simp add: estimate_step_def static_line_def f encoded_integer_len_bytes [where tag = "0xc0"])
  next
    case None
    show ?thesis
    proof (cases sn)
      case (Some i)
      with None b(1) encoded_integer_len_bytes [of i 4] show ?thesis
        by (simp add: estimate_step_def static_line_def f)
    next
      case n: None
      with None add_mono [OF b(2) b(1)] show ?thesis
        by (simp add: estimate_step_def static_line_def f)
    qed
  qed
qed

lemma estimate_fold:
  "sz + length (concat (map (\<lambda>h. line_bytes uh (static_line h)) hs)) \<le> fold estimate_step hs sz"
proof (induction hs arbitrary: sz)
  case (Cons h hs)
  have "sz + length (concat (map (\<lambda>h. line_bytes uh (static_line h)) (h # hs))) \<le>
      estimate_step h sz + length (concat (map (\<lambda>h. line_bytes uh (static_line h)) hs))"
    using estimate_step_line [of sz uh h] by simp
  also have "\<dots> \<le> fold estimate_step (h # hs) sz"
    using Cons.IH [of "estimate_step h sz"] by simp
  finally show ?case .
qed simp

section \<open>The Required Insert Count covers what is referenced\<close>

lemma ric_step_mono: "r \<le> ric_step t h r"
  by (auto simp: ric_step_def split: prod.splits option.splits)

lemma ric_fold_mono: "r \<le> fold (ric_step t) hs r"
proof (induction hs arbitrary: r)
  case (Cons h hs)
  then show ?case using order_trans [OF ric_step_mono Cons.IH] by simp
qed simp

lemma ric_step_bound: "dt_repr t H \<Longrightarrow> r \<le> length H \<Longrightarrow> ric_step t h r \<le> length H"
  using dt_find_entry_spec(2,4) [of t H "h_name h" "h_value h"]
  by (fastforce simp: ric_step_def split: prod.splits option.splits)

lemma ric_fold_bound: "dt_repr t H \<Longrightarrow> r \<le> length H \<Longrightarrow> fold (ric_step t) hs r \<le> length H"
  by (induction hs arbitrary: r) (simp_all add: ric_step_bound)

lemma ric_covers:
  assumes "h \<in> set hs" "dt_find_entry t (h_name h) (h_value h) = (ex, nm)"
    "ex = Some i \<or> ex = None \<and> nm = Some i"
  shows "i < fold (ric_step t) hs r"
  using assms(1)
proof (induction hs arbitrary: r)
  case (Cons g hs)
  show ?case
  proof (cases "g = h")
    case True
    have "i < ric_step t h r" using assms(2,3) by (auto simp: ric_step_def)
    with True ric_fold_mono [of "ric_step t h r" t hs] show ?thesis by simp
  next
    case False
    with Cons show ?thesis by simp
  qed
qed simp

section \<open>Unacknowledged sections protect their entries\<close>

definition pending_rics :: "dynamic_encoder \<Rightarrow> u64 set" where
  "pending_rics e = set (concat (map snd (qe_unacked e)))"

lemma foldr_max_ge: "x \<in> set xs \<Longrightarrow> x \<le> foldr max xs (0 :: nat)"
  by (induction xs) (auto simp: max_def)

lemma max_ric_ge: "r \<in> pending_rics e \<Longrightarrow> r \<le> max_ric (qe_unacked e)"
  unfolding pending_rics_def max_ric_def by (rule foldr_max_ge)

text \<open>
  The encoder's invariant: a consistent table whose eviction limit is the largest Required Insert
  Count that is still unacknowledged, and one queue per stream, never empty.
\<close>

definition qe_inv :: "dynamic_encoder \<Rightarrow> field_log \<Rightarrow> bool" where
  "qe_inv e H \<longleftrightarrow>
    dt_repr (qe_table e) H \<and> dt_eviction_limit (qe_table e) = max_ric (qe_unacked e) \<and>
    distinct (map fst (qe_unacked e)) \<and> [] \<notin> set (map snd (qe_unacked e))"

lemma qe_inv_new: "qe_inv qe_new []"
  by (simp add: qe_inv_def qe_new_def dt_new_def max_ric_def dt_repr_def dt_with_capacity_def)

lemma dt_repr_limit [simp]: "dt_repr (dt_set_eviction_limit t l) H \<longleftrightarrow> dt_repr t H"
  by (simp add: dt_repr_def dt_set_eviction_limit_def)

lemma update_eviction_limit_inv:
  assumes "dt_repr (qe_table e) H" "distinct (map fst (qe_unacked e))" "[] \<notin> set (map snd (qe_unacked e))"
  shows "qe_inv (update_eviction_limit e) H"
  using assms by (simp add: qe_inv_def update_eviction_limit_def) (simp add: dt_set_eviction_limit_def)

lemma snd_update: "[] \<notin> set (map snd al) \<Longrightarrow> v \<noteq> [] \<Longrightarrow> [] \<notin> set (map snd (AList.update k v al))"
  by (induction al) auto

lemma snd_delete: "[] \<notin> set (map snd al) \<Longrightarrow> [] \<notin> set (map snd (AList.delete k al))"
  by (induction al) auto

lemma qe_track_section_inv:
  assumes "qe_inv e H"
  shows "qe_inv (qe_track_section e sid r) H"
proof (cases "0 < r")
  case True
  then show ?thesis
    using assms unfolding qe_track_section_def Let_def
    by (simp del: set_map, intro update_eviction_limit_inv)
      (simp_all add: qe_inv_def distinct_update snd_update del: set_map)
qed (use assms in \<open>simp add: qe_track_section_def\<close>)

lemma qe_acknowledge_inv: "qe_inv e H \<Longrightarrow> qe_inv (qe_acknowledge e c) H"
  unfolding qe_acknowledge_def
  by (intro update_eviction_limit_inv) (simp_all add: qe_inv_def)

lemma qe_cancel_stream_inv: "qe_inv e H \<Longrightarrow> qe_inv (qe_cancel_stream e sid) H"
  unfolding qe_cancel_stream_def
  by (intro update_eviction_limit_inv) (simp_all add: qe_inv_def distinct_delete snd_delete del: set_map)

lemma qe_ack_section_inv: "qe_inv e H \<Longrightarrow> qe_inv (fst (qe_ack_section e sid)) H"
  unfolding qe_ack_section_def Let_def
  by (auto split: option.splits list.splits simp del: set_map intro!: update_eviction_limit_inv)
    (simp_all add: qe_inv_def distinct_delete snd_delete distinct_update snd_update del: set_map)


lemma qe_insert_inv:
  assumes "qe_inv e H"
  shows "\<exists>G. qe_inv (fst (qe_insert e n v)) (H @ G)"
    "keeps_protected (qe_table e) (qe_table (fst (qe_insert e n v)))"
proof -
  obtain t r where i: "dt_insert (qe_table e) n v = (t, r)" by fastforce
  note sp = dt_insert_repr [OF _ i, of H]
  have "\<exists>G. dt_repr t (H @ G)"
  proof (cases r)
    case None
    with sp assms have "dt_repr t (H @ [])" by (simp add: qe_inv_def)
    then show ?thesis ..
  qed (use sp assms in \<open>auto simp: qe_inv_def\<close>)
  moreover have "dt_eviction_limit t = dt_eviction_limit (qe_table e)" "keeps_protected (qe_table e) t"
    using sp assms by (simp_all add: qe_inv_def)
  ultimately show "\<exists>G. qe_inv (fst (qe_insert e n v)) (H @ G)"
    "keeps_protected (qe_table e) (qe_table (fst (qe_insert e n v)))"
    using assms by (auto simp: qe_insert_def i qe_inv_def)
qed

lemma qe_set_table_capacity_inv:
  assumes "qe_inv e H"
  shows "qe_inv (fst (qe_set_table_capacity e c)) H"
    "keeps_protected (qe_table e) (qe_table (fst (qe_set_table_capacity e c)))"
  using assms dt_set_capacity_repr [of "qe_table e" H c]
  by (simp_all add: qe_set_table_capacity_def qe_inv_def keeps_protected_def)

lemma qe_encode_frame:
  "fst (qe_encode e buf hs n) = e\<lparr>qe_last_ric := qe_last_ric (fst (qe_encode e buf hs n))\<rparr>"
  by (simp add: qe_encode_def encode_with_dynamic_def Let_def)

text \<open>The operations of an encoder, as the connection calls them.\<close>

inductive qe_step :: "dynamic_encoder \<Rightarrow> dynamic_encoder \<Rightarrow> bool" where
  EsMaxCapacity: "qe_step e (qe_set_max_table_capacity e c)"
| EsMaxBlocked: "qe_step e (qe_set_peer_max_blocked_streams e m)"
| EsCapacity: "qe_step e (fst (qe_set_table_capacity e c))"
| EsInsert: "qe_step e (fst (qe_insert e n v))"
| EsAcknowledge: "qe_step e (qe_acknowledge e c)"
| EsTrack: "qe_step e (qe_track_section e sid ric)"
| EsAckSection: "qe_step e (fst (qe_ack_section e sid))"
| EsCancel: "qe_step e (qe_cancel_stream e sid)"
| EsEncode: "qe_step e (fst (qe_encode e buf hs blocked))"

inductive_cases qe_stepE: "qe_step e e'"

inductive qe_reach :: "dynamic_encoder \<Rightarrow> bool" where
  init: "qe_reach (qe_new\<lparr>qe_use_huffman := uh\<rparr>)"
| step: "qe_reach e \<Longrightarrow> qe_step e e' \<Longrightarrow> qe_reach e'"

lemma keeps_protected_refl [simp]: "keeps_protected t t" "keeps_protected t (dt_set_eviction_limit t l)"
  by (simp_all add: keeps_protected_def dt_set_eviction_limit_def)

lemma update_keeps [simp]: "keeps_protected (qe_table e) (qe_table (update_eviction_limit e))"
  by (simp add: update_eviction_limit_def)

lemma qe_step_inv:
  assumes "qe_step e e'" "qe_inv e H"
  shows "(\<exists>G. qe_inv e' (H @ G)) \<and> keeps_protected (qe_table e) (qe_table e')"
proof -
  have same: ?thesis if "qe_inv e' H" "keeps_protected (qe_table e) (qe_table e')"
    using that by (metis append_Nil2)
  show ?thesis
    using assms(1)
  proof (cases rule: qe_step.cases)
    case (EsMaxCapacity c)
    then show ?thesis using assms(2)
      by (intro same) (simp_all add: qe_set_max_table_capacity_def qe_inv_def)
  next
    case (EsMaxBlocked m)
    then show ?thesis using assms(2)
      by (intro same) (simp_all add: qe_set_peer_max_blocked_streams_def qe_inv_def)
  next
    case (EsCapacity c)
    then show ?thesis using qe_set_table_capacity_inv [OF assms(2)] same by blast
  next
    case (EsInsert n v)
    then show ?thesis using qe_insert_inv [OF assms(2)] by blast
  next
    case (EsAcknowledge c)
    have "keeps_protected (qe_table e) (qe_table (qe_acknowledge e c))"
      by (simp add: qe_acknowledge_def update_eviction_limit_def)
    with EsAcknowledge show ?thesis using qe_acknowledge_inv [OF assms(2)] same by blast
  next
    case (EsTrack sid r)
    have "keeps_protected (qe_table e) (qe_table (qe_track_section e sid r))"
      by (simp add: qe_track_section_def Let_def update_eviction_limit_def)
    with EsTrack show ?thesis using qe_track_section_inv [OF assms(2)] same by blast
  next
    case (EsAckSection sid)
    have "keeps_protected (qe_table e) (qe_table (fst (qe_ack_section e sid)))"
      by (auto simp: qe_ack_section_def Let_def update_eviction_limit_def split: option.splits list.splits)
    with EsAckSection show ?thesis using qe_ack_section_inv [OF assms(2)] same by blast
  next
    case (EsCancel sid)
    have "keeps_protected (qe_table e) (qe_table (qe_cancel_stream e sid))"
      by (simp add: qe_cancel_stream_def update_eviction_limit_def)
    with EsCancel show ?thesis using qe_cancel_stream_inv [OF assms(2)] same by blast
  next
    case (EsEncode buf hs blocked)
    let ?e = "fst (qe_encode e buf hs blocked)"
    have "qe_table ?e = qe_table e" "qe_unacked ?e = qe_unacked e"
      by (subst qe_encode_frame, simp)+
    then have "qe_inv ?e H \<and> keeps_protected (qe_table e) (qe_table ?e)"
      using assms(2) by (simp add: qe_inv_def)
    with EsEncode same show ?thesis by blast
  qed
qed

lemma qe_reach_inv: "qe_reach e \<Longrightarrow> \<exists>H. qe_inv e H"
proof (induction rule: qe_reach.induct)
  case (init uh)
  have "qe_inv (qe_new\<lparr>qe_use_huffman := uh\<rparr>) []" using qe_inv_new by (simp add: qe_inv_def)
  then show ?case ..
qed (use qe_step_inv in blast)

section \<open>Properties of the encoder\<close>

text \<open>
  C19: No entry that an unacknowledged field section may refer to is ever evicted.  In every
  reachable state of the encoder, if a section with Required Insert Count \<open>r\<close> is pending, an entry
  below \<open>r\<close> that is stored stays stored through any single operation, and is still found under
  its absolute index with the same name and value.
\<close>

theorem pending_sections_protected:
  assumes "qe_reach e" "qe_step e e'" "r \<in> pending_rics e" "i < r"
    and "get_by_absolute_index (qe_table e) i = Some entry"
  shows "get_by_absolute_index (qe_table e') i = Some entry"
proof -
  from qe_reach_inv [OF assms(1)] obtain H where H: "qe_inv e H" by blast
  from qe_step_inv [OF assms(2) H] obtain G where G: "qe_inv e' (H @ G)"
    and k: "keeps_protected (qe_table e) (qe_table e')" by blast
  have repr: "dt_repr (qe_table e) H" "dt_repr (qe_table e') (H @ G)"
    using H G by (simp_all add: qe_inv_def)
  have i: "dt_dropped_count (qe_table e) \<le> i" "i < length H" "entry = log_entry H i"
    using assms(5) by (simp_all add: get_by_absolute_index_log [OF repr(1)] split: if_splits)
  moreover have "dt_insert_count (qe_table e) = length H" using repr(1) unfolding dt_repr_def by blast
  moreover have "i < dt_eviction_limit (qe_table e)"
    using max_ric_ge [OF assms(3)] assms(4) H by (simp add: qe_inv_def)
  ultimately have "dt_dropped_count (qe_table e') \<le> i" using k by (simp add: keeps_protected_def)
  with i show ?thesis by (simp add: get_by_absolute_index_log [OF repr(2)] log_entry_append)
qed

definition example_encoder :: dynamic_encoder where
  "example_encoder =
    qe_track_section
      (fst (qe_insert (fst (qe_set_table_capacity (qe_set_max_table_capacity qe_new 64) 64)) [1] [2])) 4 1"

lemma example_encoder_reach: "qe_reach example_encoder"
proof -
  have "qe_reach (qe_new\<lparr>qe_use_huffman := True\<rparr>)" by (rule qe_reach.init)
  then have "qe_reach qe_new" by (simp add: qe_new_def)
  then show ?thesis
    unfolding example_encoder_def
    by (intro qe_reach.step [OF _ EsTrack] qe_reach.step [OF _ EsInsert]
        qe_reach.step [OF _ EsCapacity] qe_reach.step [OF _ EsMaxCapacity])
qed

lemmas encoder_eval =
  qe_new_def dt_new_def dt_with_capacity_def qe_set_max_table_capacity_def qe_set_table_capacity_def
  dt_set_capacity_def evict_to_fit.simps qe_insert_def dt_insert_def ENTRY_OVERHEAD_def entry_new_def
  entry_size_def qe_track_section_def update_eviction_limit_def dt_set_eviction_limit_def max_ric_def

lemma example_encoder_eval:
  "pending_rics example_encoder = {1}"
  "get_by_absolute_index (qe_table example_encoder) 0 = Some (entry_new [1] [2] 0)"
  by (simp_all add: example_encoder_def encoder_eval pending_rics_def get_by_absolute_index_def)

theorem pending_sections_protected_witness:
  "get_by_absolute_index (qe_table (fst (qe_insert example_encoder [3, 4] [5]))) 0 =
    Some (entry_new [1] [2] 0)"
  by (rule pending_sections_protected [OF example_encoder_reach EsInsert, of 1])
    (simp_all add: example_encoder_eval)

text \<open>
  The size estimate is an upper bound.  Encoding with the static table succeeds in every
  buffer of at least the estimated size, whether or not Huffman coding is used.
\<close>

theorem estimate_suffices:
  assumes "estimate_encoded_size headers \<le> length buf"
  shows "\<exists>buf' n. encode_static_only e buf headers = Some (buf', n) \<and>
    n \<le> estimate_encoded_size headers"
proof -
  have "length (static_section e headers) \<le> estimate_encoded_size headers"
    using estimate_fold [of 2 "qe_use_huffman e" headers]
    by (simp add: static_section_def estimate_encoded_size_def)
  with assms writesD [OF writes_static_only [of e headers], of buf] show ?thesis by auto
qed


theorem estimate_suffices_witness:
  "\<exists>buf' n. encode_static_only qe_new
      (replicate (estimate_encoded_size [header_from_validated_parts [0x61] [0x62]]) 0)
      [header_from_validated_parts [0x61] [0x62]] = Some (buf', n) \<and>
    n \<le> estimate_encoded_size [header_from_validated_parts [0x61] [0x62]]"
  by (rule estimate_suffices) simp

end
