(* ===== verification/Qpack_Decoder.thy ===== *)
theory Qpack_Decoder
  imports Qpack_Encoder
begin

text \<open>
  The QPACK decoders (\<^verbatim>\<open>src/qpack/decoder.rs\<close>): \<open>sd_\<dots>\<close> is the \<^verbatim>\<open>Decoder\<close> that only knows the static
  table, \<open>dd_\<dots>\<close> the \<^verbatim>\<open>DynamicDecoder\<close>.  Both are shown to read the field lines of
  \<open>Field_Line\<close>; together with the encoder this gives the round trip of a field section between
  two peers whose dynamic tables are at different points of the same log.
\<close>

section \<open>Types\<close>

datatype decode_output = Decoded "header list" | Blocked

definition header_from_decoded :: "bytes \<Rightarrow> bytes \<Rightarrow> header" where
  "header_from_decoded name v = header_from_validated_parts name v"

record static_decoder =
  sd_max_field_section_size :: u64

definition sd_new :: static_decoder where
  "sd_new = \<lparr>sd_max_field_section_size = 16 * 1024\<rparr>"

definition sd_set_max_field_section_size :: "static_decoder \<Rightarrow> u64 \<Rightarrow> static_decoder" where
  "sd_set_max_field_section_size d sz = d\<lparr>sd_max_field_section_size := sz\<rparr>"

record dynamic_decoder =
  dd_table :: dynamic_table
  dd_max_field_section_size :: u64
  dd_max_table_capacity :: u64
  dd_last_ric :: u64

definition dd_new :: dynamic_decoder where
  "dd_new =
    \<lparr>dd_table = dt_new, dd_max_field_section_size = 16 * 1024, dd_max_table_capacity = 0,
     dd_last_ric = 0\<rparr>"

definition dd_set_max_field_section_size :: "dynamic_decoder \<Rightarrow> u64 \<Rightarrow> dynamic_decoder" where
  "dd_set_max_field_section_size d sz = d\<lparr>dd_max_field_section_size := sz\<rparr>"

definition dd_set_max_table_capacity :: "dynamic_decoder \<Rightarrow> u64 \<Rightarrow> dynamic_decoder" where
  "dd_set_max_table_capacity d capacity = d\<lparr>dd_max_table_capacity := capacity\<rparr>"

definition dd_set_table_capacity :: "dynamic_decoder \<Rightarrow> u64 \<Rightarrow> dynamic_decoder" where
  "dd_set_table_capacity d capacity = d\<lparr>dd_table := dt_set_capacity (dd_table d) capacity\<rparr>"

definition dd_insert :: "dynamic_decoder \<Rightarrow> bytes \<Rightarrow> bytes \<Rightarrow> dynamic_decoder \<times> u64 option" where
  "dd_insert d name v =
    (case dt_insert (dd_table d) name v of (t, r) \<Rightarrow> (d\<lparr>dd_table := t\<rparr>, r))"

section \<open>Decoding a field line with the static table\<close>

definition sd_decode_indexed_field :: "bytes \<Rightarrow> qpack_error + header \<times> usize" where
  "sd_decode_indexed_field data =
    (let is_static = (data ! 0 AND 0x40 \<noteq> 0) in
     if \<not> is_static then Inl DecodeFailed
     else
       bindR (decode_integer data 6) (\<lambda>(index, consumed).
       if STATIC_TABLE_LEN \<le> index then Inl (InvalidIndex index)
       else bindR (ok_or (get_static_entry index) (InvalidIndex index)) (\<lambda>entry.
         Inr (entry, consumed))))"

definition sd_decode_literal_with_name_ref :: "bytes \<Rightarrow> qpack_error + header \<times> usize" where
  "sd_decode_literal_with_name_ref data =
    (let is_static = (data ! 0 AND 0x10 \<noteq> 0) in
     if \<not> is_static then Inl DecodeFailed
     else
       bindR (decode_integer data 4) (\<lambda>(index, index_len).
       if STATIC_TABLE_LEN \<le> index then Inl (InvalidIndex index)
       else
         bindR (ok_or (get_static_entry index) (InvalidIndex index)) (\<lambda>entry.
         bindR (decode_string (drop index_len data)) (\<lambda>(v, value_len).
         Inr (header_from_decoded (h_name entry) v, index_len + value_len)))))"

definition sd_decode_literal_with_literal_name :: "bytes \<Rightarrow> qpack_error + header \<times> usize" where
  "sd_decode_literal_with_literal_name data =
    bindR (decode_integer data 3) (\<lambda>(name_len_value, prefix_len).
    let is_huffman = (data ! 0 AND 0x08 \<noteq> 0) in
    bindR (decode_string_with_len (drop prefix_len data) name_len_value is_huffman) (\<lambda>(name, name_bytes).
    let offset = prefix_len + name_bytes in
    bindR (decode_string (drop offset data)) (\<lambda>(v, value_len).
    Inr (header_from_decoded name v, offset + value_len))))"

definition sd_decode_header :: "bytes \<Rightarrow> qpack_error + header \<times> usize" where
  "sd_decode_header data =
    (if data = [] then Inl QBufferTooShort
     else
       let first = data ! 0 in
       if first AND 0x80 \<noteq> 0 then sd_decode_indexed_field data
       else if first AND 0x40 \<noteq> 0 then sd_decode_literal_with_name_ref data
       else if first AND 0x20 \<noteq> 0 then sd_decode_literal_with_literal_name data
       else if first AND 0x10 \<noteq> 0 then Inl DecodeFailed
       else Inl DecodeFailed)"

section \<open>Decoding a field line with both tables\<close>

definition dd_decode_indexed_field ::
    "dynamic_decoder \<Rightarrow> bytes \<Rightarrow> u64 \<Rightarrow> u64 \<Rightarrow> qpack_error + header \<times> usize" where
  "dd_decode_indexed_field d data base ric =
    (let is_static = (data ! 0 AND 0x40 \<noteq> 0) in
     bindR (decode_integer data 6) (\<lambda>(index, consumed).
     if is_static then
       if STATIC_TABLE_LEN \<le> index then Inl (InvalidIndex index)
       else bindR (ok_or (get_static_entry index) (InvalidIndex index)) (\<lambda>entry.
         Inr (entry, consumed))
     else if index < base \<and> ric \<le> base - index - 1 then Inl DecodeFailed
     else
       bindR (ok_or (get_by_relative_index_repr (dd_table d) index base) (InvalidIndex index)) (\<lambda>entry.
       Inr (header_from_decoded (de_name entry) (de_value entry), consumed))))"

definition dd_decode_indexed_field_post_base ::
    "dynamic_decoder \<Rightarrow> bytes \<Rightarrow> u64 \<Rightarrow> u64 \<Rightarrow> qpack_error + header \<times> usize" where
  "dd_decode_indexed_field_post_base d data base ric =
    bindR (decode_integer data 4) (\<lambda>(post_base_index, consumed).
    bindR (ok_or (checked_add base post_base_index) DecodeFailed) (\<lambda>absolute_index.
    if ric \<le> absolute_index then Inl DecodeFailed
    else
      bindR (ok_or (get_by_post_base_index (dd_table d) post_base_index base)
          (InvalidIndex post_base_index)) (\<lambda>entry.
      Inr (header_from_decoded (de_name entry) (de_value entry), consumed))))"

definition dd_decode_literal_with_name_ref ::
    "dynamic_decoder \<Rightarrow> bytes \<Rightarrow> u64 \<Rightarrow> u64 \<Rightarrow> qpack_error + header \<times> usize" where
  "dd_decode_literal_with_name_ref d data base ric =
    (let is_static = (data ! 0 AND 0x10 \<noteq> 0) in
     bindR (decode_integer data 4) (\<lambda>(index, index_len).
     bindR
       (if is_static then
          if STATIC_TABLE_LEN \<le> index then Inl (InvalidIndex index)
          else bindR (ok_or (get_static_entry index) (InvalidIndex index)) (\<lambda>entry. Inr (h_name entry))
        else if index < base \<and> ric \<le> base - index - 1 then Inl DecodeFailed
        else
          bindR (ok_or (get_by_relative_index_repr (dd_table d) index base) (InvalidIndex index))
            (\<lambda>entry. Inr (de_name entry))) (\<lambda>name.
     bindR (decode_string (drop index_len data)) (\<lambda>(v, value_len).
     Inr (header_from_decoded name v, index_len + value_len)))))"

definition dd_decode_literal_with_post_base_name_ref ::
    "dynamic_decoder \<Rightarrow> bytes \<Rightarrow> u64 \<Rightarrow> u64 \<Rightarrow> qpack_error + header \<times> usize" where
  "dd_decode_literal_with_post_base_name_ref d data base ric =
    bindR (decode_integer data 3) (\<lambda>(post_base_index, index_len).
    bindR (ok_or (checked_add base post_base_index) DecodeFailed) (\<lambda>absolute_index.
    if ric \<le> absolute_index then Inl DecodeFailed
    else
      bindR (ok_or (get_by_post_base_index (dd_table d) post_base_index base)
          (InvalidIndex post_base_index)) (\<lambda>entry.
      bindR (decode_string (drop index_len data)) (\<lambda>(v, value_len).
      Inr (header_from_decoded (de_name entry) v, index_len + value_len)))))"

definition dd_decode_literal_with_literal_name :: "bytes \<Rightarrow> qpack_error + header \<times> usize" where
  "dd_decode_literal_with_literal_name data =
    bindR (decode_integer data 3) (\<lambda>(name_len_value, prefix_len).
    let is_huffman = (data ! 0 AND 0x08 \<noteq> 0) in
    bindR (decode_string_with_len (drop prefix_len data) name_len_value is_huffman) (\<lambda>(name, name_bytes).
    let offset = prefix_len + name_bytes in
    bindR (decode_string (drop offset data)) (\<lambda>(v, value_len).
    Inr (header_from_decoded name v, offset + value_len))))"

definition dd_decode_header ::
    "dynamic_decoder \<Rightarrow> bytes \<Rightarrow> u64 \<Rightarrow> u64 \<Rightarrow> qpack_error + header \<times> usize" where
  "dd_decode_header d data base ric =
    (if data = [] then Inl QBufferTooShort
     else
       let first = data ! 0 in
       if first AND 0x80 \<noteq> 0 then dd_decode_indexed_field d data base ric
       else if first AND 0x40 \<noteq> 0 then dd_decode_literal_with_name_ref d data base ric
       else if first AND 0x20 \<noteq> 0 then dd_decode_literal_with_literal_name data
       else if first AND 0x10 \<noteq> 0 then dd_decode_indexed_field_post_base d data base ric
       else dd_decode_literal_with_post_base_name_ref d data base ric)"

section \<open>The Required Insert Count\<close>

definition dd_decode_required_insert_count :: "dynamic_decoder \<Rightarrow> u64 \<Rightarrow> qpack_error + u64" where
  "dd_decode_required_insert_count d enc =
    (if enc = 0 then Inr 0
     else
       let max_entries = dd_max_table_capacity d div 32 in
       if max_entries = 0 then Inl DecodeFailed
       else
         let full_range = 2 * max_entries in
         if full_range < enc then Inl DecodeFailed
         else
           let max_value = dt_insert_count (dd_table d) + max_entries;
               max_wrapped = (max_value div full_range) * full_range;
               ric = max_wrapped + enc - 1 in
           bindR
             (if max_value < ric then
                if ric \<le> full_range then Inl DecodeFailed else Inr (ric - full_range)
              else Inr ric) (\<lambda>ric.
           if ric = 0 then Inl DecodeFailed else Inr ric))"

section \<open>Decoding a field section\<close>

text \<open>Every field line consumes at least one byte of the data, so the loops over a section end.\<close>

lemma sd_decode_header_bound:
  "sd_decode_header data = Inr (h, n) \<Longrightarrow> 0 < n \<and> n \<le> length data"
  by (auto simp: sd_decode_header_def sd_decode_indexed_field_def sd_decode_literal_with_name_ref_def
      sd_decode_literal_with_literal_name_def decode_string_with_len_def Let_def bindR_Inr_iff
      split: if_splits dest!: decode_integer_sound decode_string_sound)

lemma dd_decode_header_bound:
  "dd_decode_header d data base ric = Inr (h, n) \<Longrightarrow> 0 < n \<and> n \<le> length data"
  unfolding dd_decode_header_def Let_def
  by (auto simp: dd_decode_indexed_field_def dd_decode_literal_with_name_ref_def
      dd_decode_literal_with_literal_name_def decode_string_with_len_def Let_def bindR_Inr_iff
      dd_decode_indexed_field_post_base_def dd_decode_literal_with_post_base_name_ref_def
      split: if_splits dest!: decode_integer_sound decode_string_sound)

function sd_decode_loop ::
    "static_decoder \<Rightarrow> bytes \<Rightarrow> usize \<Rightarrow> header list \<Rightarrow> u64 \<Rightarrow> qpack_error + header list" where
  "sd_decode_loop d data offset headers total_size =
    (if offset < length data then
       bindR (sd_decode_header (drop offset data)) (\<lambda>(h, consumed).
       let total_size = total_size + (length (h_name h) + length (h_value h) + 32) in
       if sd_max_field_section_size d < total_size then Inl DecodeFailed
       else sd_decode_loop d data (offset + consumed) (headers @ [h]) total_size)
     else Inr headers)"
  by pat_completeness auto
termination
  by (relation "measure (\<lambda>(d, data, offset, _). length data - offset)")
    (auto dest!: sd_decode_header_bound)

definition sd_decode :: "static_decoder \<Rightarrow> bytes \<Rightarrow> qpack_error + header list" where
  "sd_decode d data =
    (if length data < 2 then Inl QBufferTooShort
     else
       bindR (decode_integer data 8) (\<lambda>(ric, ric_len).
       if ric \<noteq> 0 then Inl DecodeFailed
       else if length data \<le> ric_len then Inl QBufferTooShort
       else
         bindR (decode_integer (drop ric_len data) 7) (\<lambda>(_, delta_len).
         sd_decode_loop d data (ric_len + delta_len) [] 0)))"

function dd_decode_loop ::
    "dynamic_decoder \<Rightarrow> bytes \<Rightarrow> u64 \<Rightarrow> u64 \<Rightarrow> usize \<Rightarrow> header list \<Rightarrow> u64 \<Rightarrow>
      qpack_error + header list" where
  "dd_decode_loop d data base ric offset headers total_size =
    (if offset < length data then
       bindR (dd_decode_header d (drop offset data) base ric) (\<lambda>(h, consumed).
       let total_size = total_size + (length (h_name h) + length (h_value h) + 32) in
       if dd_max_field_section_size d < total_size then Inl DecodeFailed
       else dd_decode_loop d data base ric (offset + consumed) (headers @ [h]) total_size)
     else Inr headers)"
  by pat_completeness auto
termination
  by (relation "measure (\<lambda>(d, data, base, ric, offset, _). length data - offset)")
    (auto dest!: dd_decode_header_bound)

declare sd_decode_loop.simps [simp del] dd_decode_loop.simps [simp del]

text \<open>The decoder remembers the Required Insert Count as soon as it is known, also when it fails later.\<close>

definition dd_decode ::
    "dynamic_decoder \<Rightarrow> bytes \<Rightarrow> dynamic_decoder \<times> (qpack_error + decode_output)" where
  "dd_decode d data =
    (if length data < 2 then (d, Inl QBufferTooShort)
     else
       case decode_integer data 8 of
         Inl err \<Rightarrow> (d, Inl err)
       | Inr (enc, ric_len) \<Rightarrow>
           case dd_decode_required_insert_count d enc of
             Inl err \<Rightarrow> (d, Inl err)
           | Inr ric \<Rightarrow>
               let d = d\<lparr>dd_last_ric := ric\<rparr> in
               (d,
                if 0 < ric \<and> dt_insert_count (dd_table d) < ric then Inr Blocked
                else if length data \<le> ric_len then Inl QBufferTooShort
                else
                  let sign = (data ! ric_len AND 0x80 \<noteq> 0) in
                  bindR (decode_integer (drop ric_len data) 7) (\<lambda>(delta_base, delta_len).
                  bindR
                    (if sign then
                       if ric \<le> delta_base then Inl DecodeFailed else Inr (ric - delta_base - 1)
                     else ok_or (checked_add ric delta_base) DecodeFailed) (\<lambda>base.
                  bindR (dd_decode_loop d data base ric (ric_len + delta_len) [] 0) (\<lambda>headers.
                  Inr (Decoded headers))))))"

section \<open>The decoders read field lines\<close>

lemma get_static_entry_len: "STATIC_TABLE_LEN \<le> i \<Longrightarrow> get_static_entry i = None"
  by (simp add: get_static_entry_def STATIC_TABLE_LEN_def)

lemma static_guard:
  "(if STATIC_TABLE_LEN \<le> i then Inl (InvalidIndex i)
    else bindR (ok_or (get_static_entry i) (InvalidIndex i)) f) = bindR (static_field i) f"
  by (auto simp: static_field_def get_static_entry_len)

lemma relative_guard:
  "(if k < base \<and> ric \<le> base - Suc k then Inl DecodeFailed
    else bindR (ok_or (get_by_relative_index_repr t k base) (InvalidIndex k)) f) =
   bindR (relative_field t base ric k) f"
  by (auto simp: relative_field_def)

lemma post_base_guard:
  "bindR (ok_or (checked_add base k) DecodeFailed) (\<lambda>a.
    if ric \<le> a then Inl DecodeFailed
    else bindR (ok_or (get_by_post_base_index t k base) (InvalidIndex k)) f) =
   bindR (post_base_field t base ric k) f"
  by (auto simp: post_base_field_def split: option.splits)

lemma literal_name_flags:
  assumes "tag_ok 3 tag" "tag_ok 3 (tag OR 8)" "unat m mod 8 = 0"
  shows "(string_bytes n 3 tag uh @ rest) ! 0 AND m =
    (if uses_huffman n uh then tag OR 8 else tag) AND m"
proof -
  have t: "string_tag n 3 tag uh = (if uses_huffman n uh then tag OR 8 else tag)"
    by (simp add: string_tag_def as_u8_def)
  have "tag_ok 3 (string_tag n 3 tag uh)" using assms(1,2) t by simp
  then have "(int_bytes (length (string_octets n uh)) 3 (string_tag n 3 tag uh) @ (string_octets n uh @ rest)) ! 0 AND m =
      string_tag n 3 tag uh AND m"
    by (rule first_byte_flags) (use assms(3) in simp)
  then show ?thesis using t by (simp add: string_bytes_def)
qed

lemma decode_literal_line:
  assumes "length n < 2 ^ 62" "length v < 2 ^ 62"
  shows "dd_decode_literal_with_literal_name (line_bytes uh (LineLiteral nv n v) @ rest) =
    Inr (header_from_validated_parts n v, length (line_bytes uh (LineLiteral nv n v)))"
proof -
  let ?t = "if nv then 0x30 else 0x20 :: u8"
  let ?d = "string_bytes n 3 ?t uh @ (string_bytes v 7 0 uh @ rest)"
  let ?p = "length (int_bytes (length (string_octets n uh)) 3 (string_tag n 3 ?t uh))"
  have tags: "tag_ok 3 ?t" "tag_ok 3 (?t OR 8)" "tag_ok 3 (?t OR as_u8 (2 ^ 3))"
    using tags_ok by (auto simp: as_u8_def)
  have d: "line_bytes uh (LineLiteral nv n v) @ rest = ?d" by simp
  note i = decode_name_literal [OF tags(1,3) assms(1), of uh "string_bytes v 7 0 uh @ rest"]
  have f: "(?d ! 0 AND 8 \<noteq> 0) = uses_huffman n uh"
    using literal_name_flags [OF tags(1,2), of 8 n uh "string_bytes v 7 0 uh @ rest"] by simp
  have dr: "drop (?p + length (string_octets n uh)) ?d = string_bytes v 7 0 uh @ rest"
    by (simp add: string_bytes_def)
  show ?thesis
    unfolding dd_decode_literal_with_literal_name_def d
    by (simp only: i bindR_simps prod.case Let_def f decode_string_with_len_octets dr
        decode_string_bytes [OF assms(2)] header_from_decoded_def)
      (simp add: string_bytes_def)
qed

lemma dd_decode_header_line:
  assumes "wf_line l"
  shows "dd_decode_header d (line_bytes uh l @ rest) base ric =
    bindR (line_field (dd_table d) base ric l) (\<lambda>h. Inr (h, length (line_bytes uh l)))"
  using assms
proof (cases l)
  case (LineStatic i)
  have fl: "(int_bytes i 6 0xc0 @ rest) ! 0 AND 0x80 \<noteq> 0" "(int_bytes i 6 0xc0 @ rest) ! 0 AND 0x40 \<noteq> 0"
    using first_byte_flags [OF tags_ok(1), of "0x80" i rest] first_byte_flags [OF tags_ok(1), of "0x40" i rest]
    by simp_all
  have i: "i < 2 ^ 62" using assms LineStatic by simp
  show ?thesis
    unfolding LineStatic line_bytes.simps line_field.simps
    by (simp add: dd_decode_header_def dd_decode_indexed_field_def Let_def fl static_guard
        decode_int_bytes [OF tags_ok(1) i])
next
  case (LineDynamic k)
  have fl: "(int_bytes k 6 0x80 @ rest) ! 0 AND 0x80 \<noteq> 0" "(int_bytes k 6 0x80 @ rest) ! 0 AND 0x40 = 0"
    using first_byte_flags [OF tags_ok(2), of "0x80" k rest] first_byte_flags [OF tags_ok(2), of "0x40" k rest]
    by simp_all
  have k: "k < 2 ^ 62" using assms LineDynamic by simp
  show ?thesis
    unfolding LineDynamic line_bytes.simps line_field.simps
    by (cases "relative_field (dd_table d) base ric k")
      (simp_all add: dd_decode_header_def dd_decode_indexed_field_def Let_def fl relative_guard
        decode_int_bytes [OF tags_ok(2) k] entry_header_def header_from_decoded_def)
next
  case (LinePostBase k)
  have fl: "(int_bytes k 4 0x10 @ rest) ! 0 AND m = 0x10 AND m" if "unat m mod 16 = 0" for m
    using first_byte_flags [OF tags_ok(3), of m k rest] that by simp
  have k: "k < 2 ^ 62" using assms LinePostBase by simp
  show ?thesis
    unfolding LinePostBase line_bytes.simps line_field.simps
    by (cases "post_base_field (dd_table d) base ric k")
      (simp_all add: dd_decode_header_def dd_decode_indexed_field_post_base_def Let_def fl
        decode_int_bytes [OF tags_ok(3) k] post_base_guard entry_header_def header_from_decoded_def)
next
  case (LineNameStatic nv i v)
  let ?t = "if nv then 0x70 else 0x50 :: u8"
  have t: "tag_ok 4 ?t" using tags_ok by simp
  have fl: "(int_bytes i 4 ?t @ string_bytes v 7 0 uh @ rest) ! 0 AND m = ?t AND m"
    if "unat m mod 16 = 0" for m
    using first_byte_flags [OF t, of m i] that by simp
  have i: "i < 2 ^ 62" and v: "length v < 2 ^ 62" using assms LineNameStatic by simp_all
  show ?thesis
    unfolding LineNameStatic line_bytes.simps line_field.simps append_assoc
    by (cases "static_field i")
      (simp_all add: dd_decode_header_def dd_decode_literal_with_name_ref_def Let_def fl static_guard
        decode_int_bytes [OF t i] decode_string_bytes [OF v] header_from_decoded_def)
next
  case (LineNameDynamic nv k v)
  let ?t = "if nv then 0x60 else 0x40 :: u8"
  have t: "tag_ok 4 ?t" using tags_ok by simp
  have fl: "(int_bytes k 4 ?t @ string_bytes v 7 0 uh @ rest) ! 0 AND m = ?t AND m"
    if "unat m mod 16 = 0" for m
    using first_byte_flags [OF t, of m k] that by simp
  have k: "k < 2 ^ 62" and v: "length v < 2 ^ 62" using assms LineNameDynamic by simp_all
  show ?thesis
    unfolding LineNameDynamic line_bytes.simps line_field.simps append_assoc
    by (cases "relative_field (dd_table d) base ric k")
      (simp_all add: dd_decode_header_def dd_decode_literal_with_name_ref_def Let_def fl relative_guard
        decode_int_bytes [OF t k] decode_string_bytes [OF v] header_from_decoded_def)
next
  case (LineNamePostBase nv k v)
  obtain t :: u8 where t: "(if nv then 0x08 else 0x00) = t" "tag_ok 3 t"
    and m: "t AND 0x80 = 0" "t AND 0x40 = 0" "t AND 0x20 = 0" "t AND 0x10 = 0"
    by (cases nv) (auto simp: tags_ok)
  have fl: "(int_bytes k 3 t @ string_bytes v 7 0 uh @ rest) ! 0 AND m = t AND m"
    if "unat m mod 8 = 0" for m
    using first_byte_flags [OF t(2), of m k] that by simp
  have k: "k < 2 ^ 62" and v: "length v < 2 ^ 62" using assms LineNamePostBase by simp_all
  show ?thesis
    unfolding LineNamePostBase line_bytes.simps line_field.simps append_assoc t(1)
    by (cases "post_base_field (dd_table d) base ric k")
      (simp_all add: dd_decode_header_def dd_decode_literal_with_post_base_name_ref_def Let_def fl m
        post_base_guard decode_int_bytes [OF t(2) k] decode_string_bytes [OF v] header_from_decoded_def)
next
  case (LineLiteral nv n v)
  have fl: "(line_bytes uh l @ rest) ! 0 AND m =
      (if uses_huffman n uh then (if nv then 0x30 else 0x20) OR 8 else (if nv then 0x30 else 0x20)) AND m"
    if "unat m mod 8 = 0" for m
    using literal_name_flags [of "if nv then 0x30 else 0x20" m n uh "string_bytes v 7 0 uh @ rest"]
      that tags_ok LineLiteral by simp
  have "dd_decode_header d (line_bytes uh l @ rest) base ric =
      dd_decode_literal_with_literal_name (line_bytes uh l @ rest)"
    by (simp add: dd_decode_header_def Let_def fl)
  then show ?thesis using decode_literal_line assms LineLiteral by simp
qed

text \<open>The static decoder is the dynamic one restricted to the lines without dynamic references.\<close>

definition static_first :: "u8 \<Rightarrow> bool" where
  "static_first b \<longleftrightarrow>
    (if b AND 0x80 \<noteq> 0 then b AND 0x40 \<noteq> 0
     else if b AND 0x40 \<noteq> 0 then b AND 0x10 \<noteq> 0
     else b AND 0x20 \<noteq> 0)"

lemma sd_decode_header_eq:
  assumes "data \<noteq> []"
  shows "sd_decode_header data =
    (if static_first (data ! 0) then dd_decode_header d data base ric else Inl DecodeFailed)"
proof -
  have l: "sd_decode_literal_with_literal_name = dd_decode_literal_with_literal_name"
    by (simp add: fun_eq_iff sd_decode_literal_with_literal_name_def
        dd_decode_literal_with_literal_name_def)
  have i: "dd_decode_indexed_field d data base ric = sd_decode_indexed_field data"
    if "data ! 0 AND 0x40 \<noteq> 0"
    using that by (simp add: dd_decode_indexed_field_def sd_decode_indexed_field_def)
  have n: "dd_decode_literal_with_name_ref d data base ric = sd_decode_literal_with_name_ref data"
    if "data ! 0 AND 0x10 \<noteq> 0"
    using that
    by (simp add: dd_decode_literal_with_name_ref_def sd_decode_literal_with_name_ref_def static_guard)
      (simp add: bindR_def split: sum.splits)
  have ni: "sd_decode_indexed_field data = Inl DecodeFailed" if "data ! 0 AND 0x40 = 0"
    using that by (simp add: sd_decode_indexed_field_def)
  have nn: "sd_decode_literal_with_name_ref data = Inl DecodeFailed" if "data ! 0 AND 0x10 = 0"
    using that by (simp add: sd_decode_literal_with_name_ref_def)
  show ?thesis
    using assms by (simp add: sd_decode_header_def dd_decode_header_def static_first_def l i n ni nn)
qed

text \<open>The loops, over the lines of a section that all stand for a field.\<close>

definition section_size :: "header list \<Rightarrow> u64" where
  "section_size hs = sum_list (map header_size hs)"

abbreviation lines_bytes :: "bool \<Rightarrow> field_line list \<Rightarrow> bytes" where
  "lines_bytes uh ls \<equiv> concat (map (line_bytes uh) ls)"

lemma dd_decode_loop_lines:
  assumes "list_all wf_line ls"
    "map (line_field (dd_table d) base ric) ls = map Inr hs"
    "total_size \<le> dd_max_field_section_size d"
  shows "dd_decode_loop d (as @ lines_bytes uh ls) base ric (length as) acc total_size =
    (if total_size + section_size hs \<le> dd_max_field_section_size d then Inr (acc @ hs)
     else Inl DecodeFailed)"
  using assms
proof (induction ls arbitrary: as acc hs total_size)
  case Nil
  then show ?case by (simp add: dd_decode_loop.simps section_size_def)
next
  case (Cons l ls)
  from Cons.prems(2) obtain h hs' where hs: "hs = h # hs'"
    and h: "line_field (dd_table d) base ric l = Inr h"
    and rest: "map (line_field (dd_table d) base ric) ls = map Inr hs'"
    by (cases hs) auto
  have wl: "wf_line l" "list_all wf_line ls" using Cons.prems(1) by simp_all
  have lt: "length as < length (as @ lines_bytes uh (l # ls))"
    using line_bytes_nonempty [of uh l] by simp
  have hd: "dd_decode_header d (drop (length as) (as @ lines_bytes uh (l # ls))) base ric =
      Inr (h, length (line_bytes uh l))"
    using dd_decode_header_line [OF wl(1), of d uh "lines_bytes uh ls" base ric] h by simp
  show ?case
  proof (cases "total_size + header_size h \<le> dd_max_field_section_size d")
    case True
    have "dd_decode_loop d (as @ lines_bytes uh (l # ls)) base ric (length as) acc total_size =
        dd_decode_loop d ((as @ line_bytes uh l) @ lines_bytes uh ls) base ric
          (length (as @ line_bytes uh l)) (acc @ [h]) (total_size + header_size h)"
      using lt hd True
      by (subst dd_decode_loop.simps) (simp add: Let_def header_size_def)
    also have "\<dots> = (if total_size + header_size h + section_size hs' \<le> dd_max_field_section_size d
        then Inr ((acc @ [h]) @ hs') else Inl DecodeFailed)"
      by (rule Cons.IH [OF wl(2) rest True])
    finally show ?thesis by (simp add: hs section_size_def add.assoc)
  next
    case False
    then show ?thesis
      using lt hd by (subst dd_decode_loop.simps) (simp add: Let_def header_size_def hs section_size_def)
  qed
qed

lemma sd_decode_loop_agrees:
  assumes "sd_decode_loop s data offset acc total_size = Inr hs"
    "dd_max_field_section_size d = sd_max_field_section_size s"
  shows "dd_decode_loop d data base ric offset acc total_size = Inr hs"
  using assms
proof (induction s data offset acc total_size rule: sd_decode_loop.induct)
  case (1 s data offset acc total_size)
  show ?case
  proof (cases "offset < length data")
    case True
    with 1(2) obtain h n where h: "sd_decode_header (drop offset data) = Inr (h, n)"
      by (cases "sd_decode_header (drop offset data)") (auto simp: sd_decode_loop.simps)
    with True have d: "dd_decode_header d (drop offset data) base ric = Inr (h, n)"
      using sd_decode_header_eq [of "drop offset data" d base ric] by (simp split: if_splits)
    let ?t = "total_size + (length (h_name h) + length (h_value h) + 32)"
    have ok: "\<not> sd_max_field_section_size s < ?t"
      "sd_decode_loop s data (offset + n) (acc @ [h]) ?t = Inr hs"
      using 1(2) True h by (simp_all add: sd_decode_loop.simps [of s data offset] Let_def split: if_splits)
    have "dd_decode_loop d data base ric (offset + n) (acc @ [h]) ?t = Inr hs"
      using 1(1) [OF True h refl refl] ok 1(3) by simp
    with True d ok(1) 1(3) show ?thesis
      by (subst dd_decode_loop.simps) (simp add: Let_def)
  next
    case False
    with 1(2) show ?thesis by (simp add: sd_decode_loop.simps dd_decode_loop.simps)
  qed
qed

section \<open>The Required Insert Count round trip\<close>

lemma ric_arith:
  fixes ric m t :: nat
  assumes "0 < m" "0 < ric" "ric \<le> t + m" "t < ric + m"
  defines "w \<equiv> ((t + m) div (2 * m)) * (2 * m)"
  defines "r \<equiv> w + ric mod (2 * m)"
  shows "if t + m < r then 2 * m < r \<and> r - 2 * m = ric else r = ric"
proof -
  let ?F = "2 * m"
  have F: "0 < ?F" using assms(1) by simp
  have w: "w \<le> t + m" "t + m < w + ?F"
    using div_mult_mod_eq [of "t + m" ?F] mod_less_divisor [OF F, of "t + m"]
    unfolding w_def by linarith+
  let ?v = "(ric div ?F) * ?F"
  have ric: "ric = ?v + ric mod ?F" "ric mod ?F < ?F"
    using F by (simp_all only: div_mult_mod_eq mod_less_divisor)
  show ?thesis
  proof (cases "w = ?v")
    case True
    with ric assms(3) show ?thesis unfolding r_def by simp
  next
    case False
    have "ric div ?F \<le> (t + m) div ?F" using assms(3) by (rule div_le_mono)
    with False have "ric div ?F + 1 \<le> (t + m) div ?F" unfolding w_def by (metis Suc_eq_plus1 le_neq_implies_less less_eq_Suc_le)
    then have lo: "?v + ?F \<le> w" unfolding w_def by (metis add_mult_distrib mult_1 mult_le_mono1)
    have "(t + m) div ?F \<le> (ric + ?F) div ?F" using assms(4) by (intro div_le_mono) linarith
    then have "(t + m) div ?F \<le> ric div ?F + 1" using div_add_self2 [of ?F ric] F by linarith
    then have hi: "w \<le> ?v + ?F" unfolding w_def by (metis add_mult_distrib mult_1 mult_le_mono1)
    from lo hi have "r = ric + ?F" unfolding r_def using ric(1) by linarith
    with assms(2,4) show ?thesis by auto
  qed
qed

lemma required_insert_count_decodes:
  assumes "dd_max_table_capacity d = qe_max_table_capacity e"
    "0 < qe_max_table_capacity e div 32"
    "ric \<le> dt_insert_count (dd_table d) + qe_max_table_capacity e div 32"
    "dt_insert_count (dd_table d) < ric + qe_max_table_capacity e div 32"
  shows "dd_decode_required_insert_count d (encode_required_insert_count e ric) = Inr ric"
proof (cases "ric = 0")
  case False
  let ?m = "qe_max_table_capacity e div 32" and ?t = "dt_insert_count (dd_table d)"
  have "ric mod (2 * ?m) < 2 * ?m" using assms(2) by simp
  then have "\<not> 2 * ?m < ric mod (2 * ?m) + 1" by simp
  then show ?thesis
    using ric_arith [OF assms(2) _ assms(3,4)] False assms(1,2)
    by (auto simp: dd_decode_required_insert_count_def encode_required_insert_count_def Let_def
        split: if_splits)
qed (simp add: dd_decode_required_insert_count_def encode_required_insert_count_def)

section \<open>Sections of field lines\<close>

text \<open>A field section with the Base at the Required Insert Count, as the encoder writes it.\<close>

definition section_bytes :: "bool \<Rightarrow> u64 \<Rightarrow> field_line list \<Rightarrow> bytes" where
  "section_bytes uh enc ls = int_bytes enc 8 0x00 @ [0x00] @ lines_bytes uh ls"

lemma int_bytes_0: "int_bytes 0 8 0 = [0]" "int_bytes 0 7 0 = [0]"
  by (simp_all add: int_bytes_def as_u8_def)

lemma static_section_lines:
  "static_section e hs = section_bytes (qe_use_huffman e) 0 (map static_line hs)"
  by (simp add: static_section_def section_bytes_def int_bytes_0 comp_def)

lemma dynamic_section_lines:
  "dynamic_section e ric hs =
    section_bytes (qe_use_huffman e) (encode_required_insert_count e ric)
      (map (dynamic_line (qe_table e) ric) hs)"
  by (simp add: dynamic_section_def section_bytes_def comp_def)

lemma section_prefix:
  assumes "enc < 2 ^ 62"
  shows "\<not> length (section_bytes uh enc ls) < 2"
    "decode_integer (section_bytes uh enc ls) 8 = Inr (enc, length (int_bytes enc 8 0))"
    "\<not> length (section_bytes uh enc ls) \<le> length (int_bytes enc 8 0)"
    "section_bytes uh enc ls ! length (int_bytes enc 8 0) = 0"
    "decode_integer (drop (length (int_bytes enc 8 0)) (section_bytes uh enc ls)) 7 = Inr (0, 1)"
proof -
  have "0 < length (int_bytes enc 8 0)" by simp
  then show "\<not> length (section_bytes uh enc ls) < 2"
    unfolding section_bytes_def length_append list.size by linarith
  show "decode_integer (section_bytes uh enc ls) 8 = Inr (enc, length (int_bytes enc 8 0))"
    unfolding section_bytes_def by (rule decode_int_bytes [OF _ assms]) (simp add: tag_ok_def)
  show "\<not> length (section_bytes uh enc ls) \<le> length (int_bytes enc 8 0)"
    "section_bytes uh enc ls ! length (int_bytes enc 8 0) = 0"
    by (simp_all add: section_bytes_def nth_append)
  show "decode_integer (drop (length (int_bytes enc 8 0)) (section_bytes uh enc ls)) 7 = Inr (0, 1)"
    using decode_int_bytes [of 7 0 0 "lines_bytes uh ls"]
    by (simp add: section_bytes_def int_bytes_0 tag_ok_def)
qed

lemma dd_decode_section:
  assumes "enc < 2 ^ 62" "ric < 2 ^ 64"
    and "dd_decode_required_insert_count d enc = Inr ric"
    and "list_all wf_line ls"
    and "ric \<le> dt_insert_count (dd_table d) \<Longrightarrow>
      map (line_field (dd_table d) ric ric) ls = map Inr hs"
  shows "dd_decode d (section_bytes uh enc ls) =
    (d\<lparr>dd_last_ric := ric\<rparr>,
     if dt_insert_count (dd_table d) < ric then Inr Blocked
     else if section_size hs \<le> dd_max_field_section_size d then Inr (Decoded hs)
     else Inl DecodeFailed)"
proof (cases "dt_insert_count (dd_table d) < ric")
  case True
  then show ?thesis
    using section_prefix [OF assms(1)] by (simp add: dd_decode_def assms(3) Let_def)
next
  case False
  let ?d = "d\<lparr>dd_last_ric := ric\<rparr>"
  have "map (line_field (dd_table ?d) ric ric) ls = map Inr hs"
    using assms(5) False by simp
  from dd_decode_loop_lines [OF assms(4) this, of 0 "int_bytes enc 8 0 @ [0]" uh "[]"]
  have "dd_decode_loop ?d (section_bytes uh enc ls) ric ric (length (int_bytes enc 8 0) + 1) [] 0 =
      (if section_size hs \<le> dd_max_field_section_size d then Inr hs else Inl DecodeFailed)"
    by (simp add: section_bytes_def)
  moreover have "checked_add ric 0 = Some ric" using assms(2) by (simp add: checked_add_def)
  ultimately show ?thesis
    using section_prefix [OF assms(1)] False by (simp add: dd_decode_def assms(3) Let_def)
qed

lemma sd_decode_loop_lines:
  assumes "list_all (\<lambda>l. wf_line l \<and> (\<forall>rest. static_first ((line_bytes uh l @ rest) ! 0))) ls"
    "map (line_field dt_new 0 0) ls = map Inr hs" "total_size \<le> sd_max_field_section_size s"
  shows "sd_decode_loop s (as @ lines_bytes uh ls) (length as) acc total_size =
    (if total_size + section_size hs \<le> sd_max_field_section_size s then Inr (acc @ hs)
     else Inl DecodeFailed)"
  using assms
proof (induction ls arbitrary: as acc hs total_size)
  case Nil
  then show ?case by (simp add: sd_decode_loop.simps section_size_def)
next
  case (Cons l ls)
  from Cons.prems(2) obtain h hs' where hs: "hs = h # hs'"
    and h: "line_field dt_new 0 0 l = Inr h" and rest: "map (line_field dt_new 0 0) ls = map Inr hs'"
    by (cases hs) auto
  have wl: "wf_line l" "static_first ((line_bytes uh l @ lines_bytes uh ls) ! 0)"
    "list_all (\<lambda>l. wf_line l \<and> (\<forall>rest. static_first ((line_bytes uh l @ rest) ! 0))) ls"
    using Cons.prems(1) by simp_all
  have lt: "length as < length (as @ lines_bytes uh (l # ls))"
    using line_bytes_nonempty [of uh l] by simp
  have hd: "sd_decode_header (drop (length as) (as @ lines_bytes uh (l # ls))) =
      Inr (h, length (line_bytes uh l))"
    using sd_decode_header_eq [of "line_bytes uh l @ lines_bytes uh ls" dd_new 0 0]
      dd_decode_header_line [OF wl(1), of dd_new uh "lines_bytes uh ls" 0 0] h wl(2)
    by (simp add: dd_new_def)
  show ?case
  proof (cases "total_size + header_size h \<le> sd_max_field_section_size s")
    case True
    have "sd_decode_loop s (as @ lines_bytes uh (l # ls)) (length as) acc total_size =
        sd_decode_loop s ((as @ line_bytes uh l) @ lines_bytes uh ls)
          (length (as @ line_bytes uh l)) (acc @ [h]) (total_size + header_size h)"
      using lt hd True by (subst sd_decode_loop.simps) (simp add: Let_def header_size_def)
    also have "\<dots> = (if total_size + header_size h + section_size hs' \<le> sd_max_field_section_size s
        then Inr ((acc @ [h]) @ hs') else Inl DecodeFailed)"
      by (rule Cons.IH [OF wl(3) rest True])
    finally show ?thesis by (simp add: hs section_size_def add.assoc)
  next
    case False
    then show ?thesis
      using lt hd by (subst sd_decode_loop.simps) (simp add: Let_def header_size_def hs section_size_def)
  qed
qed

section \<open>The lines that the encoder chooses\<close>

definition received :: "header \<Rightarrow> header" where
  "received h = header_from_validated_parts (h_name h) (h_value h)"

definition sendable :: "header \<Rightarrow> bool" where
  "sendable h \<longleftrightarrow> length (h_name h) < 2 ^ 62 \<and> length (h_value h) < 2 ^ 62"

lemma section_size_received [simp]: "section_size (map received hs) = section_size hs"
proof -
  have "header_size (received h) = header_size h" for h
    by (simp add: received_def header_size_def header_from_validated_parts_def)
  then show ?thesis by (simp add: section_size_def comp_def)
qed

lemma static_field_entry:
  assumes "get_static_entry i = Some h"
  shows "static_field i = Inr (received h)" "i < 99"
proof -
  from assms have i: "i < 99" "STATIC_TABLE ! i = h" by (simp_all add: get_static_entry_Some)
  then have "h \<in> set STATIC_TABLE"
    using nth_mem [of i STATIC_TABLE] by simp
  then have "received h = h"
    using STATIC_TABLE_never by (simp add: received_def header_from_validated_parts_def)
  with assms show "static_field i = Inr (received h)" by (simp add: static_field_def)
  show "i < 99" by (rule i)
qed

lemma static_line_field:
  assumes "sendable h"
  shows "wf_line (static_line h)" "line_field t base ric (static_line h) = Inr (received h)"
proof -
  obtain se sn where f: "find_static_entry (h_name h) (h_value h) = (se, sn)" by fastforce
  note sp = find_static_entry_spec [OF f]
  have "wf_line (static_line h) \<and> line_field t base ric (static_line h) = Inr (received h)"
  proof (cases se)
    case (Some i)
    from sp(2) [OF this] obtain g where g: "get_static_entry i = Some g" "h_name g = h_name h"
      "h_value g = h_value h" by blast
    with static_field_entry [OF g(1)] Some show ?thesis
      by (simp add: static_line_def f received_def)
  next
    case se: None
    show ?thesis
    proof (cases sn)
      case (Some i)
      from sp(4) [OF this] obtain g where g: "get_static_entry i = Some g" "h_name g = h_name h"
        by blast
      with static_field_entry [OF g(1)] Some se assms show ?thesis
        by (simp add: static_line_def f received_def sendable_def header_from_validated_parts_def)
    next
      case None
      with se assms show ?thesis by (simp add: static_line_def f received_def sendable_def)
    qed
  qed
  then show "wf_line (static_line h)" "line_field t base ric (static_line h) = Inr (received h)"
    by simp_all
qed

lemma static_line_first: "static_first ((line_bytes uh (static_line h) @ rest) ! 0)"
proof -
  obtain se sn where f: "find_static_entry (h_name h) (h_value h) = (se, sn)" by fastforce
  consider i where "static_line h = LineStatic i"
    | i where "static_line h = LineNameStatic (never_indexed h) i (h_value h)"
    | "static_line h = LineLiteral (never_indexed h) (h_name h) (h_value h)"
    by (cases se; cases sn) (auto simp: static_line_def f)
  then show ?thesis
  proof cases
    case (1 i)
    have "(int_bytes i 6 0xc0 @ rest) ! 0 AND m = 0xc0 AND m" if "unat m mod 64 = 0" for m
      using first_byte_flags [OF tags_ok(1), of m i rest] that by simp
    with 1 show ?thesis by (simp add: static_first_def)
  next
    case (2 i)
    let ?t = "if never_indexed h then 0x70 else 0x50 :: u8"
    have "(int_bytes i 4 ?t @ string_bytes (h_value h) 7 0 uh @ rest) ! 0 AND m = ?t AND m"
      if "unat m mod 16 = 0" for m
      using first_byte_flags [of 4 ?t m i] tags_ok that by simp
    with 2 show ?thesis by (simp add: static_first_def)
  next
    case 3
    have "(line_bytes uh (static_line h) @ rest) ! 0 AND m =
        (if uses_huffman (h_name h) uh then (if never_indexed h then 0x30 else 0x20) OR 8
         else (if never_indexed h then 0x30 else 0x20)) AND m"
      if "unat m mod 8 = 0" for m
      using literal_name_flags [of "if never_indexed h then 0x30 else 0x20" m "h_name h" uh
          "string_bytes (h_value h) 7 0 uh @ rest"] that tags_ok 3 by simp
    then show ?thesis by (simp add: static_first_def)
  qed
qed

text \<open>
  Two peers: the decoder's table is at an earlier point of the encoder's log, stores every entry
  that the encoder still stores as far as it has arrived, and both agreed on the maximum capacity.
\<close>

definition peers :: "dynamic_encoder \<Rightarrow> field_log \<Rightarrow> dynamic_decoder \<Rightarrow> bool" where
  "peers e H d \<longleftrightarrow>
    length H < 2 ^ 62 \<and> dt_repr (qe_table e) H \<and>
    dt_repr (dd_table d) (take (dt_insert_count (dd_table d)) H) \<and>
    dt_dropped_count (dd_table d) \<le> dt_dropped_count (qe_table e) \<and>
    dt_fits (dd_table d) \<and> dt_max_capacity (dd_table d) \<le> dd_max_table_capacity d \<and>
    dd_max_table_capacity d = qe_max_table_capacity e"

lemma dt_repr_take_count:
  assumes "dt_repr t (take (dt_insert_count t) H)"
  shows "dt_insert_count t \<le> length H"
proof -
  have "dt_insert_count t = length (take (dt_insert_count t) H)"
    using assms unfolding dt_repr_def by blast
  then show ?thesis unfolding length_take by linarith
qed

lemma dt_repr_size: "dt_repr t H \<Longrightarrow> dt_current_size t = sum_list (map entry_size (dt_entries t))"
  unfolding dt_repr_def by blast

lemma log_entry_take: "i < k \<Longrightarrow> log_entry (take k H) i = log_entry H i"
  by (simp add: log_entry_def)

lemma peers_lookup:
  assumes "peers e H d" "dt_dropped_count (qe_table e) \<le> a" "a < ric"
    "ric \<le> dt_insert_count (dd_table d)"
  shows "relative_field (dd_table d) ric ric (ric - a - 1) = Inr (log_entry H a)"
proof -
  let ?k = "dt_insert_count (dd_table d)"
  have r: "dt_repr (dd_table d) (take ?k H)" using assms(1) by (simp add: peers_def)
  then have "?k \<le> length H" by (rule dt_repr_take_count)
  moreover have "dt_dropped_count (dd_table d) \<le> a" using assms(1,2) by (simp add: peers_def)
  ultimately have "get_by_absolute_index (dd_table d) a = Some (log_entry H a)"
    using get_by_absolute_index_log [OF r] assms(3,4) by (simp add: log_entry_take)
  with assms(3) show ?thesis
    by (simp add: relative_field_def get_by_relative_index_repr_def)
qed

lemma dynamic_line_field:
  assumes "peers e H d" "sendable h" "h \<in> set hs"
  defines "ric \<equiv> fold (ric_step (qe_table e)) hs 0"
  shows "wf_line (dynamic_line (qe_table e) ric h)"
    "ric \<le> dt_insert_count (dd_table d) \<Longrightarrow>
      line_field (dd_table d) ric ric (dynamic_line (qe_table e) ric h) = Inr (received h)"
proof -
  obtain de dn se sn where f: "dt_find_entry (qe_table e) (h_name h) (h_value h) = (de, dn)"
    "find_static_entry (h_name h) (h_value h) = (se, sn)" by fastforce
  have H: "dt_repr (qe_table e) H" "length H < 2 ^ 62" using assms(1) by (simp_all add: peers_def)
  note sp = dt_find_entry_spec [OF H(1) f(1)]
  have "ric < 2 ^ 62" using ric_fold_bound [OF H(1), of 0 hs] H(2) by (simp add: ric_def)
  then have small: "ric - a - 1 < 2 ^ 62" for a by simp
  have covers: "a < ric" if "de = Some a \<or> de = None \<and> dn = Some a" for a
    unfolding ric_def by (rule ric_covers [OF assms(3) f(1) that])
  have "wf_line (dynamic_line (qe_table e) ric h) \<and> (ric \<le> dt_insert_count (dd_table d) \<longrightarrow>
      line_field (dd_table d) ric ric (dynamic_line (qe_table e) ric h) = Inr (received h))"
  proof (cases de)
    case (Some a)
    with sp(2) [of a] have "dt_dropped_count (qe_table e) \<le> a" "H ! a = (h_name h, h_value h)" by auto
    with peers_lookup [OF assms(1), of a ric] covers [of a] Some small [of a] show ?thesis
      by (simp add: dynamic_line_def f entry_header_def received_def)
  next
    case de: None
    show ?thesis
    proof (cases "se = None \<and> dn \<noteq> None")
      case True
      then obtain a where a: "dn = Some a" by auto
      with sp(4) [of a] have "dt_dropped_count (qe_table e) \<le> a" "fst (H ! a) = h_name h" by auto
      with peers_lookup [OF assms(1), of a ric] covers [of a] de True a small [of a] assms(2)
      show ?thesis by (simp add: dynamic_line_def f received_def sendable_def)
    next
      case False
      then have "dynamic_line (qe_table e) ric h = static_line h"
        using de by (auto simp: dynamic_line_def static_line_def f split: option.splits)
      with static_line_field [OF assms(2)] show ?thesis by simp
    qed
  qed
  then show "wf_line (dynamic_line (qe_table e) ric h)"
    "ric \<le> dt_insert_count (dd_table d) \<Longrightarrow>
      line_field (dd_table d) ric ric (dynamic_line (qe_table e) ric h) = Inr (received h)"
    by simp_all
qed

text \<open>A Required Insert Count that names a stored entry lies in the window of the decoder.\<close>

lemma stored_entries_bound:
  assumes "peers e H d"
  shows "dt_insert_count (dd_table d) \<le>
    dt_dropped_count (dd_table d) + qe_max_table_capacity e div 32"
proof -
  let ?t = "dd_table d"
  have r: "dt_repr ?t (take (dt_insert_count ?t) H)" using assms by (simp add: peers_def)
  have "32 * length xs \<le> sum_list (map entry_size xs)" for xs
    by (induction xs) (simp_all add: entry_size_def ENTRY_OVERHEAD_def)
  then have "32 * length (dt_entries ?t) \<le> dt_current_size ?t" unfolding dt_repr_size [OF r] .
  also have "\<dots> \<le> qe_max_table_capacity e" using assms by (simp add: peers_def dt_fits_def)
  finally have "length (dt_entries ?t) \<le> qe_max_table_capacity e div 32" by simp
  moreover have "length (dt_entries ?t) = dt_insert_count ?t - dt_dropped_count ?t"
    using dt_repr_length [OF r] dt_repr_take_count [OF r] by simp
  ultimately show ?thesis by linarith
qed

lemma ric_names_entry:
  assumes "dt_repr t H"
  shows "fold (ric_step t) hs r = r \<or> dt_dropped_count t < fold (ric_step t) hs r"
proof (induction hs arbitrary: r)
  case (Cons h hs)
  obtain de dn where f: "dt_find_entry t (h_name h) (h_value h) = (de, dn)" by fastforce
  have "ric_step t h r = r \<or> dt_dropped_count t < ric_step t h r"
    using dt_find_entry_spec(2,4) [OF assms f]
    by (fastforce simp: ric_step_def f split: option.splits)
  with Cons.IH [of "ric_step t h r"] ric_fold_mono [of "ric_step t h r" t hs] show ?case
    by auto
qed simp

section \<open>Properties of the field section codec\<close>

text \<open>
  The Required Insert Count survives its encoding modulo twice the maximum number of entries:
  the decoder recovers it whenever it is within that number of its own insert count, on either side.
\<close>

theorem required_insert_count_roundtrip:
  assumes "dd_max_table_capacity d = qe_max_table_capacity e" "32 \<le> qe_max_table_capacity e"
    and "ric \<le> dt_insert_count (dd_table d) + qe_max_table_capacity e div 32"
    and "dt_insert_count (dd_table d) < ric + qe_max_table_capacity e div 32"
  shows "dd_decode_required_insert_count d (encode_required_insert_count e ric) = Inr ric \<and>
    encode_required_insert_count e ric \<le> 2 * (qe_max_table_capacity e div 32)"
proof -
  have m: "0 < qe_max_table_capacity e div 32" using assms(2) by (simp add: div_greater_zero_iff)
  then have "ric mod (2 * (qe_max_table_capacity e div 32)) < 2 * (qe_max_table_capacity e div 32)"
    by simp
  then have "encode_required_insert_count e ric \<le> 2 * (qe_max_table_capacity e div 32)"
    by (simp add: encode_required_insert_count_def Let_def Suc_le_eq)
  with required_insert_count_decodes [OF assms(1) m assms(3,4)] show ?thesis by simp
qed

theorem required_insert_count_roundtrip_witness:
  "dd_decode_required_insert_count (dd_new\<lparr>dd_max_table_capacity := 100\<rparr>)
    (encode_required_insert_count (qe_new\<lparr>qe_max_table_capacity := 100\<rparr>) 2) = Inr 2"
  using required_insert_count_roundtrip [of "dd_new\<lparr>dd_max_table_capacity := 100\<rparr>"
      "qe_new\<lparr>qe_max_table_capacity := 100\<rparr>" 2]
  by (simp add: dd_new_def qe_new_def dt_new_def dt_with_capacity_def)

lemma section_decodes:
  assumes "peers e H d" "list_all sendable hs"
    and "length H \<le> dt_insert_count (dd_table d) + qe_max_table_capacity e div 32"
    and "dt_entries (qe_table e) \<noteq> [] \<Longrightarrow> 32 \<le> qe_max_table_capacity e"
    and "qe_max_table_capacity e < 2 ^ 62"
    and "qe_encode e buf hs blocked = (e', Some (buf', n))"
  shows "dd_decode d (take n buf') =
    (d\<lparr>dd_last_ric := qe_last_ric e'\<rparr>,
     if dt_insert_count (dd_table d) < qe_last_ric e' then Inr Blocked
     else if section_size hs \<le> dd_max_field_section_size d then Inr (Decoded (map received hs))
     else Inl DecodeFailed)"
proof (cases "dt_entries (qe_table e) = [] \<or> qe_max_table_capacity e = 0 \<or>
    qe_peer_max_blocked_streams e \<le> blocked")
  case True
  then have "e' = e\<lparr>qe_last_ric := 0\<rparr>" and enc: "encode_static_only e buf hs = Some (buf', n)"
    using assms(6) by (auto simp: qe_encode_def split: if_splits)
  moreover have "take n buf' = section_bytes (qe_use_huffman e) 0 (map static_line hs)"
    using enc writesD [OF writes_static_only [of e hs], of buf]
    by (auto simp: static_section_lines [symmetric] split: if_splits)
  moreover have "list_all wf_line (map static_line hs)"
    "map (line_field (dd_table d) 0 0) (map static_line hs) = map Inr (map received hs)"
    using assms(2) static_line_field by (auto simp: list_all_iff)
  ultimately show ?thesis
    using dd_decode_section [of 0 0 d "map static_line hs" "map received hs" "qe_use_huffman e"]
    by (simp add: dd_decode_required_insert_count_def)
next
  case False
  define ric where "ric = fold (ric_step (qe_table e)) hs 0"
  let ?m = "qe_max_table_capacity e div 32"
  let ?enc = "encode_required_insert_count e ric"
  let ?ls = "map (dynamic_line (qe_table e) ric) hs"
  have "encode_with_dynamic e buf hs = (e', Some (buf', n))"
    using False assms(6) by (simp add: qe_encode_def)
  then have e': "e' = e\<lparr>qe_last_ric := ric\<rparr>"
    and take: "take n buf' = section_bytes (qe_use_huffman e) ?enc ?ls"
    using encode_with_dynamic_written [of e buf hs]
    by (auto simp: ric_def [symmetric] dynamic_section_lines [symmetric] split: if_splits)
  have H: "dt_repr (qe_table e) H" "length H < 2 ^ 62"
    and cap: "dd_max_table_capacity d = qe_max_table_capacity e"
    and drop: "dt_dropped_count (dd_table d) \<le> dt_dropped_count (qe_table e)"
    using assms(1) by (simp_all add: peers_def)
  have le: "ric \<le> length H" unfolding ric_def by (rule ric_fold_bound [OF H(1)]) simp
  have m: "0 < ?m" using False assms(4) by (simp add: div_greater_zero_iff)
  have "dd_decode_required_insert_count d ?enc = Inr ric"
  proof (cases "ric = 0")
    case True
    then show ?thesis
      by (simp add: dd_decode_required_insert_count_def encode_required_insert_count_def)
  next
    case False
    with ric_names_entry [OF H(1), of hs 0] have "dt_dropped_count (qe_table e) < ric"
      by (simp add: ric_def)
    with stored_entries_bound [OF assms(1)] drop have "dt_insert_count (dd_table d) < ric + ?m"
      by linarith
    moreover have "ric \<le> dt_insert_count (dd_table d) + ?m" using le assms(3) by linarith
    ultimately show ?thesis using required_insert_count_decodes [OF cap m] by blast
  qed
  moreover have "?enc < 2 ^ 62"
  proof -
    have "ric mod (2 * ?m) < 2 * ?m" using m by simp
    then have "?enc \<le> 2 * ?m" by (simp add: encode_required_insert_count_def Let_def)
    moreover have "2 * ?m \<le> qe_max_table_capacity e" by linarith
    ultimately show ?thesis using assms(5) by linarith
  qed
  moreover have "list_all wf_line ?ls"
    using assms(2) dynamic_line_field(1) [OF assms(1), of _ hs]
    by (auto simp: list_all_iff ric_def)
  moreover have "map (line_field (dd_table d) ric ric) ?ls = map Inr (map received hs)"
    if "ric \<le> dt_insert_count (dd_table d)"
    using assms(2) dynamic_line_field(2) [OF assms(1), of _ hs] that
    by (auto simp: list_all_iff ric_def)
  moreover have "ric < 2 ^ 64" using le H(2) by simp
  ultimately show ?thesis
    using dd_decode_section [of ?enc ric d ?ls "map received hs" "qe_use_huffman e"]
    by (simp add: take e')
qed

text \<open>
  C33: A field section encoded against the dynamic table decodes to the same fields.  The table of the
  decoder is one that lags behind: it represents a prefix of the insertions of the encoder, and has
  dropped no more of them, and at most \<open>capacity div 32\<close> insertions are missing (with more, the Required Insert
  Count is ambiguous).  If the section needs an insertion that is missing, the decoder reports that it is
  blocked; otherwise it returns the names and values in order, unless the section exceeds the size
  limit that it enforces, which is \<open>DecodeFailed\<close>.
\<close>

theorem field_section_roundtrip:
  assumes "peers e H d" "list_all sendable hs"
    and "length H \<le> dt_insert_count (dd_table d) + qe_max_table_capacity e div 32"
    and "dt_entries (qe_table e) \<noteq> [] \<Longrightarrow> 32 \<le> qe_max_table_capacity e"
    and "qe_max_table_capacity e < 2 ^ 62"
    and "qe_encode e buf hs blocked = (e', Some (buf', n))"
  shows "dd_decode d (take n buf') =
    (d\<lparr>dd_last_ric := qe_last_ric e'\<rparr>,
     if dt_insert_count (dd_table d) < qe_last_ric e' then Inr Blocked
     else if section_size hs \<le> dd_max_field_section_size d then Inr (Decoded (map received hs))
     else Inl DecodeFailed)"
  using assms by (rule section_decodes)

definition example_decoder :: dynamic_decoder where
  "example_decoder =
    fst (dd_insert (dd_set_table_capacity (dd_set_max_table_capacity dd_new 64) 64) [1] [2])"

lemma example_peers:
  "peers (example_encoder\<lparr>qe_peer_max_blocked_streams := 1\<rparr>) [([1], [2])] example_decoder"
  by (simp add: peers_def example_encoder_def example_decoder_def encoder_eval dt_repr_def dt_fits_def
      dd_new_def dd_set_max_table_capacity_def dd_set_table_capacity_def dd_insert_def log_entry_def)

lemma example_section:
  "\<exists>e' buf'. qe_encode (example_encoder\<lparr>qe_peer_max_blocked_streams := 1\<rparr>) (replicate 3 0)
      [header_from_validated_parts [1] [2]] 0 = (e', Some (buf', 3)) \<and> qe_last_ric e' = 1"
  (is "\<exists>e' buf'. qe_encode ?e _ [?h] 0 = _ \<and> _")
proof -
  have f: "dt_find_entry (qe_table ?e) (h_name ?h) (h_value ?h) = (Some 0, Some 0)"
    by (simp add: example_encoder_def encoder_eval dt_find_entry_def header_from_validated_parts_def)
  then have ric: "fold (ric_step (qe_table ?e)) [?h] 0 = 1" by (simp add: ric_step_def)
  have "dt_entries (qe_table ?e) \<noteq> []" "qe_max_table_capacity ?e = 64"
    "qe_peer_max_blocked_streams ?e = 1"
    by (simp_all add: example_encoder_def encoder_eval)
  moreover from this(2) have "encode_required_insert_count ?e 1 = 2"
    by (simp add: encode_required_insert_count_def)
  then have "length (dynamic_section ?e 1 [?h]) = 3"
    using f by (simp add: dynamic_section_def dynamic_line_def int_bytes_def)
  ultimately show ?thesis
    using encode_with_dynamic_written [of ?e "replicate 3 0" "[?h]"] unfolding ric
    by (auto simp: qe_encode_def)
qed

theorem field_section_roundtrip_witness:
  "\<exists>e' buf'. qe_encode (example_encoder\<lparr>qe_peer_max_blocked_streams := 1\<rparr>) (replicate 3 0)
      [header_from_validated_parts [1] [2]] 0 = (e', Some (buf', 3)) \<and>
    snd (dd_decode example_decoder (take 3 buf')) =
      Inr (Decoded [header_from_validated_parts [1] [2]])"
proof -
  let ?h = "header_from_validated_parts [1] [2]"
  have d: "dt_insert_count (dd_table example_decoder) = 1" "dd_max_field_section_size example_decoder = 16384"
    "qe_max_table_capacity (example_encoder\<lparr>qe_peer_max_blocked_streams := 1\<rparr>) = 64"
    by (simp_all add: example_decoder_def example_encoder_def encoder_eval dd_new_def
        dd_set_max_table_capacity_def dd_set_table_capacity_def dd_insert_def)
  have h: "list_all sendable [?h]" "section_size [?h] = 34" "map received [?h] = [?h]"
    by (simp_all add: sendable_def section_size_def header_size_def received_def
        header_from_validated_parts_def)
  obtain e' buf' where enc: "qe_encode (example_encoder\<lparr>qe_peer_max_blocked_streams := 1\<rparr>)
      (replicate 3 0) [?h] 0 = (e', Some (buf', 3))" and r: "qe_last_ric e' = 1"
    using example_section by blast
  have "snd (dd_decode example_decoder (take 3 buf')) = Inr (Decoded [?h])"
    using field_section_roundtrip [OF example_peers h(1) _ _ _ enc] d h r by simp
  with enc show ?thesis by blast
qed

lemma sd_decode_static_section:
  assumes "list_all sendable hs"
  shows "sd_decode s (static_section e hs) =
    (if section_size hs \<le> sd_max_field_section_size s then Inr (map received hs)
     else Inl DecodeFailed)"
proof -
  let ?uh = "qe_use_huffman e" and ?ls = "map static_line hs"
  have ls: "list_all (\<lambda>l. wf_line l \<and> (\<forall>rest. static_first ((line_bytes ?uh l @ rest) ! 0))) ?ls"
    "map (line_field dt_new 0 0) ?ls = map Inr (map received hs)"
    using assms(1) static_line_field static_line_first by (auto simp: list_all_iff)
  from sd_decode_loop_lines [OF ls, of 0 s "[0, 0]" "[]"]
  have "sd_decode_loop s (section_bytes ?uh 0 ?ls) 2 [] 0 =
      (if section_size hs \<le> sd_max_field_section_size s then Inr (map received hs)
       else Inl DecodeFailed)"
    by (simp add: section_bytes_def int_bytes_0 numeral_2_eq_2)
  with section_prefix [of 0 ?uh ?ls] show ?thesis
    by (simp add: static_section_lines sd_decode_def int_bytes_0 numeral_2_eq_2)
qed

text \<open>
  A section encoded with the static table alone is read by the static decoder: the same names
  and values in the same order, or the size error when the section exceeds the limit.
\<close>

theorem static_section_roundtrip:
  assumes "list_all sendable hs" "encode_static_only e buf hs = Some (buf', n)"
  shows "sd_decode s (take n buf') =
    (if section_size hs \<le> sd_max_field_section_size s then Inr (map received hs)
     else Inl DecodeFailed)"
proof -
  have "take n buf' = static_section e hs"
    using assms(2) writesD [OF writes_static_only [of e hs], of buf] by (auto split: if_splits)
  with sd_decode_static_section [OF assms(1)] show ?thesis by simp
qed

theorem static_section_roundtrip_witness:
  "\<exists>buf' n. encode_static_only qe_new
      (replicate (estimate_encoded_size [header_from_validated_parts [0x61] [0x62]]) 0)
      [header_from_validated_parts [0x61] [0x62]] = Some (buf', n) \<and>
    sd_decode sd_new (take n buf') = Inr [header_from_validated_parts [0x61] [0x62]]"
proof -
  let ?h = "header_from_validated_parts [0x61] [0x62]"
  have h: "list_all sendable [?h]" "section_size [?h] = 34" "map received [?h] = [?h]"
    by (simp_all add: sendable_def section_size_def header_size_def received_def
        header_from_validated_parts_def)
  have "length (static_section qe_new [?h]) \<le> estimate_encoded_size [?h]"
    using estimate_fold [of 2 "qe_use_huffman qe_new" "[?h]"]
    by (simp add: static_section_def estimate_encoded_size_def)
  with writesD [OF writes_static_only [of qe_new "[?h]"]]
  obtain buf' n where "encode_static_only qe_new (replicate (estimate_encoded_size [?h]) 0) [?h] =
      Some (buf', n)" by fastforce
  with static_section_roundtrip [OF h(1) this, of sd_new] h show ?thesis
    by (auto simp: sd_new_def)
qed

text \<open>
  The two decoders agree.  Whatever the static decoder accepts, the dynamic decoder with the
  same size limit decodes to the same fields, in every state of its table; the only difference is
  a negative Base, which the static decoder ignores and the dynamic one rejects.
\<close>

theorem static_dynamic_decoders_agree:
  assumes "sd_decode s data = Inr hs"
    and "dd_max_field_section_size d = sd_max_field_section_size s"
  shows "snd (dd_decode d data) = Inr (Decoded hs) \<or>
    data ! snd (projr (decode_integer data 8)) AND 0x80 \<noteq> 0 \<and>
    snd (dd_decode d data) = Inl DecodeFailed"
proof -
  from assms(1) obtain n k x where p: "\<not> length data < 2" "decode_integer data 8 = Inr (0, n)"
    "\<not> length data \<le> n" "decode_integer (drop n data) 7 = Inr (x, k)"
    "sd_decode_loop s data (n + k) [] 0 = Inr hs"
    by (auto simp: sd_decode_def bindR_Inr_iff split: if_splits)
  have "x < 2 ^ 62" using decode_integer_sound [OF p(4)] by blast
  then have x: "checked_add 0 x = Some x" by (simp add: checked_add_def)
  have "dd_decode_loop (d\<lparr>dd_last_ric := 0\<rparr>) data base ric (n + k) [] 0 = Inr hs" for base ric
    by (rule sd_decode_loop_agrees [OF p(5)]) (simp add: assms(2))
  then show ?thesis
    using p x by (simp add: dd_decode_def dd_decode_required_insert_count_def Let_def)
qed

theorem static_dynamic_decoders_agree_witness:
  "snd (dd_decode dd_new (static_section qe_new [header_from_validated_parts [0x61] [0x62]])) =
    Inr (Decoded [header_from_validated_parts [0x61] [0x62]])"
proof -
  let ?h = "header_from_validated_parts [0x61] [0x62]" and ?s = "static_section qe_new"
  have h: "list_all sendable [?h]" "section_size [?h] = 34" "map received [?h] = [?h]"
    by (simp_all add: sendable_def section_size_def header_size_def received_def
        header_from_validated_parts_def)
  have "sd_decode sd_new (?s [?h]) = Inr [?h]"
    using sd_decode_static_section [OF h(1), of sd_new qe_new] h by (simp add: sd_new_def)
  moreover have "dd_max_field_section_size dd_new = sd_max_field_section_size sd_new"
    by (simp add: dd_new_def sd_new_def)
  moreover have "?s [?h] ! snd (projr (decode_integer (?s [?h]) 8)) AND 0x80 = 0"
    using section_prefix [of 0 True "[static_line ?h]"]
    by (simp add: static_section_lines qe_new_def int_bytes_0)
  ultimately show ?thesis using static_dynamic_decoders_agree [of sd_new "?s [?h]" "[?h]" dd_new] by blast
qed

end
