(* ===== verification/Encoder_Stream.thy ===== *)
theory Encoder_Stream
  imports Qpack_Decoder
begin

text \<open>
  The QPACK encoder stream (\<^verbatim>\<open>src/qpack/encoder_stream.rs\<close>, RFC 9204 Section 4.3): the instructions
  that update the decoder's dynamic table, their encoding into a send buffer and the receiver that
  takes them out of a byte stream.  \<open>instr_bytes\<close> is the wire form of an instruction and
  \<open>instr_effect\<close> what it does to a table; the receiver is shown to be the composition of the two.
\<close>

section \<open>Instructions\<close>

datatype encoder_instruction =
    SetDynamicTableCapacity u64
  | InsertWithNameReference bool u64 bytes
  | InsertWithLiteralName bytes bytes
  | Duplicate u64

section \<open>Sending\<close>

record encoder_stream =
  es_send_buffer :: bytes
  es_max_table_capacity :: u64

definition es_new :: encoder_stream where
  "es_new = \<lparr>es_send_buffer = [], es_max_table_capacity = 0\<rparr>"

definition es_write_stream_type :: "encoder_stream \<Rightarrow> encoder_stream" where
  "es_write_stream_type s = s\<lparr>es_send_buffer := es_send_buffer s @ [0x02]\<rparr>"

definition es_set_max_table_capacity :: "encoder_stream \<Rightarrow> u64 \<Rightarrow> encoder_stream" where
  "es_set_max_table_capacity s capacity = s\<lparr>es_max_table_capacity := capacity\<rparr>"

text \<open>
  The vector is extended by zeros that the Huffman encoder overwrites; the encoder's result is not
  looked at (it cannot fail on a slice of that length).
\<close>

definition es_encode_string_with_prefix :: "bytes \<Rightarrow> bytes \<Rightarrow> nat \<Rightarrow> u8 \<Rightarrow> bytes" where
  "es_encode_string_with_prefix buf data prefix_bits base =
    (let huffman_len = huffman_encoded_len data in
     if huffman_len < length data then
       let huffman_flag = as_u8 (2 ^ prefix_bits);
           buf = encode_integer_to_vec buf huffman_len prefix_bits (base OR huffman_flag);
           start = length buf;
           buf = buf @ replicate huffman_len 0 in
       (case huffman_encode (drop start buf) data of
          None \<Rightarrow> buf
        | Some (sub, _) \<Rightarrow> splice buf start sub)
     else encode_integer_to_vec buf (length data) prefix_bits base @ data)"

definition es_encode_string :: "bytes \<Rightarrow> bytes \<Rightarrow> bytes" where
  "es_encode_string buf data = es_encode_string_with_prefix buf data 7 0x00"

definition encode_set_capacity :: "encoder_stream \<Rightarrow> u64 \<Rightarrow> encoder_stream \<times> (qpack_error + unit)" where
  "encode_set_capacity s capacity =
    (if es_max_table_capacity s = 0 then (s, Inl DynamicTableDisabled)
     else if es_max_table_capacity s < capacity then (s, Inl CapacityExceeded)
     else (s\<lparr>es_send_buffer := encode_integer_to_vec (es_send_buffer s) capacity 5 0x20\<rparr>, Inr ()))"

definition encode_insert_with_name_ref ::
    "encoder_stream \<Rightarrow> bool \<Rightarrow> u64 \<Rightarrow> bytes \<Rightarrow> encoder_stream \<times> (qpack_error + unit)" where
  "encode_insert_with_name_ref s is_static name_index v =
    (if es_max_table_capacity s = 0 then (s, Inl DynamicTableDisabled)
     else
       let pre = (if is_static then 0xc0 else 0x80);
           buf = encode_integer_to_vec (es_send_buffer s) name_index 6 pre in
       (s\<lparr>es_send_buffer := es_encode_string buf v\<rparr>, Inr ()))"

definition encode_insert_with_literal_name ::
    "encoder_stream \<Rightarrow> bytes \<Rightarrow> bytes \<Rightarrow> encoder_stream \<times> (qpack_error + unit)" where
  "encode_insert_with_literal_name s name v =
    (if es_max_table_capacity s = 0 then (s, Inl DynamicTableDisabled)
     else
       let buf = es_encode_string_with_prefix (es_send_buffer s) name 5 0x40 in
       (s\<lparr>es_send_buffer := es_encode_string buf v\<rparr>, Inr ()))"

definition encode_duplicate :: "encoder_stream \<Rightarrow> u64 \<Rightarrow> encoder_stream \<times> (qpack_error + unit)" where
  "encode_duplicate s relative_index =
    (if es_max_table_capacity s = 0 then (s, Inl DynamicTableDisabled)
     else (s\<lparr>es_send_buffer := encode_integer_to_vec (es_send_buffer s) relative_index 5 0x00\<rparr>, Inr ()))"

definition es_consume_data :: "encoder_stream \<Rightarrow> usize \<Rightarrow> encoder_stream" where
  "es_consume_data s len =
    (if length (es_send_buffer s) \<le> len then s\<lparr>es_send_buffer := []\<rparr>
     else s\<lparr>es_send_buffer := drop len (es_send_buffer s)\<rparr>)"

definition es_has_pending :: "encoder_stream \<Rightarrow> bool" where
  "es_has_pending s \<longleftrightarrow> es_send_buffer s \<noteq> []"

section \<open>Receiving\<close>

record encoder_stream_receiver =
  esr_recv_buffer :: bytes
  esr_max_table_capacity :: u64

definition esr_new :: encoder_stream_receiver where
  "esr_new = \<lparr>esr_recv_buffer = [], esr_max_table_capacity = 0\<rparr>"

definition esr_set_max_table_capacity :: "encoder_stream_receiver \<Rightarrow> u64 \<Rightarrow> encoder_stream_receiver" where
  "esr_set_max_table_capacity r capacity = r\<lparr>esr_max_table_capacity := capacity\<rparr>"

definition esr_receive :: "encoder_stream_receiver \<Rightarrow> bytes \<Rightarrow> encoder_stream_receiver" where
  "esr_receive r data = r\<lparr>esr_recv_buffer := esr_recv_buffer r @ data\<rparr>"

definition esr_drain :: "encoder_stream_receiver \<Rightarrow> usize \<Rightarrow> encoder_stream_receiver" where
  "esr_drain r n = r\<lparr>esr_recv_buffer := drop n (esr_recv_buffer r)\<rparr>"

definition es_decode_string_with_prefix :: "bytes \<Rightarrow> nat \<Rightarrow> qpack_error + bytes \<times> usize" where
  "es_decode_string_with_prefix data prefix_bits =
    (if data = [] then Inl QBufferTooShort
     else
       let huffman_flag = as_u8 (2 ^ prefix_bits);
           is_huffman = (data ! 0 AND huffman_flag \<noteq> 0) in
       bindR (decode_integer data prefix_bits) (\<lambda>(len, prefix_len).
       let total_len = prefix_len + len in
       if length data < total_len then Inl QBufferTooShort
       else
         let encoded = drop prefix_len (take total_len data) in
         bindR (if is_huffman then huffman_decode encoded else Inr encoded) (\<lambda>decoded.
           Inr (decoded, total_len))))"

definition es_decode_string :: "bytes \<Rightarrow> qpack_error + bytes \<times> usize" where
  "es_decode_string data = es_decode_string_with_prefix data 7"

type_synonym receiver_result =
  "encoder_stream_receiver \<times> dynamic_table \<times> (qpack_error + encoder_instruction option)"

definition decode_set_capacity :: "encoder_stream_receiver \<Rightarrow> dynamic_table \<Rightarrow> receiver_result" where
  "decode_set_capacity r t =
    (case decode_integer (esr_recv_buffer r) 5 of
       Inl e \<Rightarrow> (r, t, Inl e)
     | Inr (capacity, consumed) \<Rightarrow>
         if esr_max_table_capacity r < capacity then (r, t, Inl DecodeFailed)
         else
           (esr_drain r consumed, dt_set_capacity t capacity,
            Inr (Some (SetDynamicTableCapacity capacity))))"

definition decode_insert_with_name_ref :: "encoder_stream_receiver \<Rightarrow> dynamic_table \<Rightarrow> receiver_result" where
  "decode_insert_with_name_ref r t =
    (let is_static = (esr_recv_buffer r ! 0 AND 0x40 \<noteq> 0) in
     case decode_integer (esr_recv_buffer r) 6 of
       Inl e \<Rightarrow> (r, t, Inl e)
     | Inr (name_index, consumed) \<Rightarrow>
         (case es_decode_string (drop consumed (esr_recv_buffer r)) of
            Inl e \<Rightarrow> (r, t, Inl e)
          | Inr (v, value_len) \<Rightarrow>
              let consumed = consumed + value_len in
              (case (if is_static then
                       (if name_index < length STATIC_TABLE then Some (h_name (STATIC_TABLE ! name_index))
                        else None)
                     else map_option de_name (get_by_relative_index_encoder t name_index)) of
                 None \<Rightarrow> (r, t, Inl (InvalidIndex name_index))
               | Some name \<Rightarrow>
                   (case dt_insert t name v of
                      (t, None) \<Rightarrow> (esr_drain r consumed, t, Inl DecodeFailed)
                    | (t, Some _) \<Rightarrow>
                        (esr_drain r consumed, t,
                         Inr (Some (InsertWithNameReference is_static name_index v)))))))"

definition decode_insert_with_literal_name :: "encoder_stream_receiver \<Rightarrow> dynamic_table \<Rightarrow> receiver_result" where
  "decode_insert_with_literal_name r t =
    (case es_decode_string_with_prefix (esr_recv_buffer r) 5 of
       Inl e \<Rightarrow> (r, t, Inl e)
     | Inr (name, consumed) \<Rightarrow>
         (case es_decode_string (drop consumed (esr_recv_buffer r)) of
            Inl e \<Rightarrow> (r, t, Inl e)
          | Inr (v, value_len) \<Rightarrow>
              let consumed = consumed + value_len in
              (case dt_insert t name v of
                 (t, None) \<Rightarrow> (esr_drain r consumed, t, Inl DecodeFailed)
               | (t, Some _) \<Rightarrow>
                   (esr_drain r consumed, t, Inr (Some (InsertWithLiteralName name v))))))"

definition decode_duplicate :: "encoder_stream_receiver \<Rightarrow> dynamic_table \<Rightarrow> receiver_result" where
  "decode_duplicate r t =
    (case decode_integer (esr_recv_buffer r) 5 of
       Inl e \<Rightarrow> (r, t, Inl e)
     | Inr (relative_index, consumed) \<Rightarrow>
         (case dt_duplicate t relative_index of
            (t, None) \<Rightarrow> (esr_drain r consumed, t, Inl (InvalidIndex relative_index))
          | (t, Some _) \<Rightarrow> (esr_drain r consumed, t, Inr (Some (Duplicate relative_index)))))"

definition esr_process :: "encoder_stream_receiver \<Rightarrow> dynamic_table \<Rightarrow> receiver_result" where
  "esr_process r t =
    (if esr_recv_buffer r = [] then (r, t, Inr None)
     else
       let first = esr_recv_buffer r ! 0 in
       case (if first AND 0x80 \<noteq> 0 then decode_insert_with_name_ref r t
             else if first AND 0x40 \<noteq> 0 then decode_insert_with_literal_name r t
             else if first AND 0x20 \<noteq> 0 then decode_set_capacity r t
             else decode_duplicate r t) of
         (r, t, Inl QBufferTooShort) \<Rightarrow> (r, t, Inr None)
       | (r, t, other) \<Rightarrow> (r, t, other))"

section \<open>The wire form of an instruction\<close>

fun instr_bytes :: "encoder_instruction \<Rightarrow> bytes" where
  "instr_bytes (SetDynamicTableCapacity c) = int_bytes c 5 0x20"
| "instr_bytes (InsertWithNameReference is_static i v) =
    int_bytes i 6 (if is_static then 0xc0 else 0x80) @ string_bytes v 7 0 True"
| "instr_bytes (InsertWithLiteralName n v) = string_bytes n 5 0x40 True @ string_bytes v 7 0 True"
| "instr_bytes (Duplicate k) = int_bytes k 5 0x00"

fun wf_instr :: "encoder_instruction \<Rightarrow> bool" where
  "wf_instr (SetDynamicTableCapacity c) \<longleftrightarrow> c < 2 ^ 62"
| "wf_instr (InsertWithNameReference is_static i v) \<longleftrightarrow> i < 2 ^ 62 \<and> length v < 2 ^ 62"
| "wf_instr (InsertWithLiteralName n v) \<longleftrightarrow> length n < 2 ^ 62 \<and> length v < 2 ^ 62"
| "wf_instr (Duplicate k) \<longleftrightarrow> k < 2 ^ 62"

lemma instr_bytes_nonempty [simp]: "instr_bytes i \<noteq> []"
  by (cases i) simp_all

lemma es_encode_string_with_prefix_append:
  assumes "0 < p" "p \<le> 8"
  shows "es_encode_string_with_prefix buf data p base = buf @ string_bytes data p base True"
proof (cases "huffman_encoded_len data < length data")
  case True
  let ?i = "int_bytes (huffman_encoded_len data) p (base OR as_u8 (2 ^ p))"
  have "huffman_encode (replicate (huffman_encoded_len data) 0) data =
      Some (huffman_bytes data, huffman_encoded_len data)"
    by (simp add: huffman_encode_written huffman_bytes_bits(1) written_def)
  then have "es_encode_string_with_prefix buf data p base = buf @ ?i @ huffman_bytes data"
    using True
    by (simp add: es_encode_string_with_prefix_def Let_def encode_integer_to_vec_append assms splice_def)
  then show ?thesis
    using True
    by (simp add: string_bytes_def string_octets_def string_tag_def uses_huffman_def huffman_bytes_bits(1))
next
  case False
  then show ?thesis
    by (simp add: es_encode_string_with_prefix_def encode_integer_to_vec_append assms
        string_bytes_def string_octets_def string_tag_def uses_huffman_def)
qed

lemma es_encode_string_append: "es_encode_string buf data = buf @ string_bytes data 7 0 True"
  by (simp add: es_encode_string_def es_encode_string_with_prefix_append)

text \<open>What the sender appends for an instruction that it does not refuse.\<close>

definition send_instr :: "encoder_stream \<Rightarrow> encoder_instruction \<Rightarrow> encoder_stream \<times> (qpack_error + unit)" where
  "send_instr s i =
    (case i of
       SetDynamicTableCapacity c \<Rightarrow> encode_set_capacity s c
     | InsertWithNameReference st k v \<Rightarrow> encode_insert_with_name_ref s st k v
     | InsertWithLiteralName n v \<Rightarrow> encode_insert_with_literal_name s n v
     | Duplicate k \<Rightarrow> encode_duplicate s k)"

definition may_send :: "encoder_stream \<Rightarrow> encoder_instruction \<Rightarrow> bool" where
  "may_send s i \<longleftrightarrow> es_max_table_capacity s \<noteq> 0 \<and>
    (\<forall>c. i = SetDynamicTableCapacity c \<longrightarrow> c \<le> es_max_table_capacity s)"

lemma send_instr_bytes:
  "may_send s i \<Longrightarrow> send_instr s i = (s\<lparr>es_send_buffer := es_send_buffer s @ instr_bytes i\<rparr>, Inr ())"
  by (cases i)
    (simp_all add: may_send_def send_instr_def encode_set_capacity_def encode_insert_with_name_ref_def
      encode_insert_with_literal_name_def encode_duplicate_def Let_def es_encode_string_append
      es_encode_string_with_prefix_append encode_integer_to_vec_append)

lemma send_instr_refused:
  "\<not> may_send s i \<Longrightarrow> send_instr s i =
    (s, Inl (if es_max_table_capacity s = 0 then DynamicTableDisabled else CapacityExceeded))"
  by (cases i)
    (auto simp: may_send_def send_instr_def encode_set_capacity_def encode_insert_with_name_ref_def
      encode_insert_with_literal_name_def encode_duplicate_def)

section \<open>Reading an instruction\<close>

lemma es_decode_string_7: "es_decode_string data = decode_string data"
  by (simp add: es_decode_string_def es_decode_string_with_prefix_def decode_string_def as_u8_def Let_def)

lemma name_flag:
  "(string_bytes n 5 0x40 uh @ rest) ! 0 AND m =
    (if uses_huffman n uh then 0x60 else 0x40) AND m" if "unat m mod 32 = 0"
proof -
  have t: "string_tag n 5 0x40 uh = (if uses_huffman n uh then 0x60 else 0x40)"
    by (simp add: string_tag_def as_u8_def)
  then have "tag_ok 5 (string_tag n 5 0x40 uh)" using tags_ok by simp
  then have "(int_bytes (length (string_octets n uh)) 5 (string_tag n 5 0x40 uh) @
      (string_octets n uh @ rest)) ! 0 AND m = string_tag n 5 0x40 uh AND m"
    by (rule first_byte_flags) (use that in simp)
  then show ?thesis using t by (simp add: string_bytes_def)
qed

lemma es_decode_string_with_prefix_bytes:
  assumes "length n < 2 ^ 62"
  shows "es_decode_string_with_prefix (string_bytes n 5 0x40 uh @ rest) 5 =
    Inr (n, length (string_bytes n 5 0x40 uh))"
proof -
  let ?t = "string_tag n 5 0x40 uh" and ?o = "string_octets n uh"
  let ?d = "string_bytes n 5 0x40 uh @ rest"
  have b: "?d = int_bytes (length ?o) 5 ?t @ (?o @ rest)" by (simp add: string_bytes_def)
  have f: "(?d ! 0 AND as_u8 (2 ^ 5) \<noteq> 0) = uses_huffman n uh"
    using name_flag [of 32 n uh rest] by (simp add: as_u8_def)
  have "tag_ok 5 (0x40 OR as_u8 (2 ^ 5))" by (simp add: as_u8_def tags_ok)
  note i = decode_name_literal(1) [OF tags_ok(14) this assms, of uh rest]
  have oc: "drop (length (int_bytes (length ?o) 5 ?t))
      (take (length (int_bytes (length ?o) 5 ?t) + length ?o) ?d) = ?o"
    unfolding b by simp
  have tot: "\<not> length ?d < length (int_bytes (length ?o) 5 ?t) + length ?o" "?d \<noteq> []"
    unfolding b by simp_all
  show ?thesis
    unfolding es_decode_string_with_prefix_def Let_def f
    by (simp only: i bindR_simps prod.case oc decode_octets tot if_False) (simp add: string_bytes_def)
qed

lemma stable_integer: "stable_dec QBufferTooShort (\<lambda>b. decode_integer b p)"
  by (rule stableI) (auto simp: decode_integer_stable dest: decode_integer_sound)

lemma stable_string_with_prefix: "stable_dec QBufferTooShort (\<lambda>b. es_decode_string_with_prefix b p)"
proof (rule stableI)
  fix data r
  assume a: "es_decode_string_with_prefix data p \<noteq> Inl QBufferTooShort"
  then have ne: "data \<noteq> []" by (auto simp: es_decode_string_with_prefix_def)
  have i: "decode_integer data p \<noteq> Inl QBufferTooShort"
    using a ne by (auto simp: es_decode_string_with_prefix_def Let_def)
  then have st: "decode_integer (data @ r) p = decode_integer data p"
    by (simp add: decode_integer_stable)
  show "es_decode_string_with_prefix (data @ r) p = es_decode_string_with_prefix data p"
  proof (cases "decode_integer data p")
    case (Inl e)
    with ne st show ?thesis by (simp add: es_decode_string_with_prefix_def)
  next
    case (Inr x)
    then obtain l n where x: "decode_integer data p = Inr (l, n)" by (cases x) auto
    with a ne have "n + l \<le> length data"
      by (auto simp: es_decode_string_with_prefix_def Let_def split: if_splits)
    with ne st x show ?thesis by (simp add: es_decode_string_with_prefix_def Let_def nth_append)
  qed
qed (auto simp: es_decode_string_with_prefix_def Let_def bindR_Inr_iff split: if_splits)

lemma stable_string: "stable_dec QBufferTooShort es_decode_string"
  unfolding es_decode_string_def by (rule stable_string_with_prefix)

text \<open>The reading part of the receiver, without its effects.\<close>

definition parse_instr :: "bytes \<Rightarrow> qpack_error + encoder_instruction \<times> usize" where
  "parse_instr b =
    (if b = [] then Inl QBufferTooShort
     else if b ! 0 AND 0x80 \<noteq> 0 then
       bindR (decode_integer b 6) (\<lambda>(i, n).
       bindR (es_decode_string (drop n b)) (\<lambda>(v, m).
       Inr (InsertWithNameReference (b ! 0 AND 0x40 \<noteq> 0) i v, n + m)))
     else if b ! 0 AND 0x40 \<noteq> 0 then
       bindR (es_decode_string_with_prefix b 5) (\<lambda>(name, n).
       bindR (es_decode_string (drop n b)) (\<lambda>(v, m).
       Inr (InsertWithLiteralName name v, n + m)))
     else if b ! 0 AND 0x20 \<noteq> 0 then
       bindR (decode_integer b 5) (\<lambda>(c, n). Inr (SetDynamicTableCapacity c, n))
     else bindR (decode_integer b 5) (\<lambda>(k, n). Inr (Duplicate k, n)))"

lemma stable_if: "stable_dec s D \<Longrightarrow> stable_dec s E \<Longrightarrow> stable_dec s (\<lambda>b. if c then D b else E b)"
  by (cases c) simp_all

lemma stable_parse_instr: "stable_dec QBufferTooShort parse_instr"
  unfolding parse_instr_def [abs_def]
  by (rule stable_first [where D = "\<lambda>c b. if c AND 0x80 \<noteq> 0 then _ c b else _ c b"])
    (intro stable_if stable_seq stable_map stable_integer stable_string stable_string_with_prefix)

lemma parse_instr_bytes:
  assumes "wf_instr i"
  shows "parse_instr (instr_bytes i @ rest) = Inr (i, length (instr_bytes i))"
  using assms
proof (cases i)
  case (SetDynamicTableCapacity c)
  have "(int_bytes c 5 0x20 @ rest) ! 0 AND m = 0x20 AND m" if "unat m mod 32 = 0" for m
    using first_byte_flags [of 5 "0x20" m c rest] tags_ok that by simp
  with assms SetDynamicTableCapacity decode_int_bytes [of 5 "0x20" c rest] show ?thesis
    by (simp add: parse_instr_def tags_ok)
next
  case (InsertWithNameReference is_static k v)
  obtain t :: u8 where t: "(if is_static then 0xc0 else 0x80) = t" "tag_ok 6 t"
    and m: "t AND 0x80 \<noteq> 0" "t AND 0x40 \<noteq> 0 \<longleftrightarrow> is_static"
    by (cases is_static) (auto simp: tags_ok)
  have fl: "(int_bytes k 6 t @ string_bytes v 7 0 True @ rest) ! 0 AND m = t AND m"
    if "unat m mod 64 = 0" for m
    using first_byte_flags [OF t(2), of m k] that by simp
  have k: "k < 2 ^ 62" and v: "length v < 2 ^ 62" using assms InsertWithNameReference by simp_all
  show ?thesis
    unfolding InsertWithNameReference instr_bytes.simps t(1) append_assoc
    by (simp add: parse_instr_def fl m decode_int_bytes [OF t(2) k] es_decode_string_7
        decode_string_bytes [OF v])
next
  case (InsertWithLiteralName n v)
  then have n: "length n < 2 ^ 62" and v: "length v < 2 ^ 62" using assms by simp_all
  show ?thesis
    unfolding InsertWithLiteralName instr_bytes.simps append_assoc
    by (simp add: parse_instr_def name_flag es_decode_string_with_prefix_bytes [OF n]
        es_decode_string_7 decode_string_bytes [OF v])
next
  case (Duplicate k)
  have "(int_bytes k 5 0 @ rest) ! 0 AND m = 0" if "unat m mod 32 = 0" for m
    using first_byte_flags [of 5 0 m k rest] tags_ok that by simp
  with assms Duplicate decode_int_bytes [of 5 0 k rest] show ?thesis
    by (simp add: parse_instr_def tags_ok)
qed

interpretation ei: incremental wf_instr instr_bytes parse_instr QBufferTooShort
  by unfold_locales
    (auto simp: parse_instr_bytes stableD(1) [OF stable_parse_instr] dest: stableD(2) [OF stable_parse_instr])

section \<open>The effect of an instruction\<close>

text \<open>
  The new table, whether the instruction is removed from the buffer, and the error.  An instruction
  that the table refuses is removed, so that it is not tried again; one that is invalid by itself
  stays (the error closes the connection).
\<close>

definition referenced_name :: "dynamic_table \<Rightarrow> bool \<Rightarrow> u64 \<Rightarrow> bytes option" where
  "referenced_name t is_static k =
    (if is_static then map_option h_name (get_static_entry k)
     else map_option de_name (get_by_relative_index_encoder t k))"

fun instr_effect ::
    "u64 \<Rightarrow> dynamic_table \<Rightarrow> encoder_instruction \<Rightarrow> dynamic_table \<times> bool \<times> qpack_error option" where
  "instr_effect max_capacity t (SetDynamicTableCapacity c) =
    (if max_capacity < c then (t, False, Some DecodeFailed) else (dt_set_capacity t c, True, None))"
| "instr_effect max_capacity t (InsertWithNameReference is_static k v) =
    (case referenced_name t is_static k of
       None \<Rightarrow> (t, False, Some (InvalidIndex k))
     | Some name \<Rightarrow>
         (case dt_insert t name v of
            (t, None) \<Rightarrow> (t, True, Some DecodeFailed)
          | (t, Some _) \<Rightarrow> (t, True, None)))"
| "instr_effect max_capacity t (InsertWithLiteralName name v) =
    (case dt_insert t name v of
       (t, None) \<Rightarrow> (t, True, Some DecodeFailed)
     | (t, Some _) \<Rightarrow> (t, True, None))"
| "instr_effect max_capacity t (Duplicate k) =
    (case dt_duplicate t k of
       (t, None) \<Rightarrow> (t, True, Some (InvalidIndex k))
     | (t, Some _) \<Rightarrow> (t, True, None))"

lemma instr_effect_error: "instr_effect m t i = (t', c, Some e) \<Longrightarrow> e \<noteq> QBufferTooShort"
  by (cases i) (auto split: if_splits option.splits prod.splits)

definition receiver_step :: "encoder_stream_receiver \<Rightarrow> dynamic_table \<Rightarrow> receiver_result" where
  "receiver_step r t =
    (case parse_instr (esr_recv_buffer r) of
       Inl QBufferTooShort \<Rightarrow> (r, t, Inr None)
     | Inl e \<Rightarrow> (r, t, Inl e)
     | Inr (i, n) \<Rightarrow>
         (case instr_effect (esr_max_table_capacity r) t i of
            (t, consumed, err) \<Rightarrow>
              (if consumed then esr_drain r n else r, t,
               case err of None \<Rightarrow> Inr (Some i) | Some e \<Rightarrow> Inl e)))"

lemma receiver_branches:
  defines "lift \<equiv> \<lambda>r t (p :: qpack_error + encoder_instruction \<times> usize). (case p of
       Inl e \<Rightarrow> (r, t, Inl e)
     | Inr (i, n) \<Rightarrow>
         (case instr_effect (esr_max_table_capacity r) t i of
            (t, consumed, err) \<Rightarrow>
              (if consumed then esr_drain r n else r, t,
               case err of None \<Rightarrow> Inr (Some i) | Some e \<Rightarrow> Inl e)))"
  shows "decode_set_capacity r t =
      lift r t (bindR (decode_integer (esr_recv_buffer r) 5) (\<lambda>(c, n). Inr (SetDynamicTableCapacity c, n)))"
    "decode_duplicate r t =
      lift r t (bindR (decode_integer (esr_recv_buffer r) 5) (\<lambda>(k, n). Inr (Duplicate k, n)))"
    "decode_insert_with_literal_name r t =
      lift r t (bindR (es_decode_string_with_prefix (esr_recv_buffer r) 5) (\<lambda>(name, n).
        bindR (es_decode_string (drop n (esr_recv_buffer r))) (\<lambda>(v, m).
        Inr (InsertWithLiteralName name v, n + m))))"
    "decode_insert_with_name_ref r t =
      lift r t (bindR (decode_integer (esr_recv_buffer r) 6) (\<lambda>(i, n).
        bindR (es_decode_string (drop n (esr_recv_buffer r))) (\<lambda>(v, m).
        Inr (InsertWithNameReference (esr_recv_buffer r ! 0 AND 0x40 \<noteq> 0) i v, n + m))))"
proof -
  let ?b = "esr_recv_buffer r"
  show "decode_set_capacity r t =
      lift r t (bindR (decode_integer ?b 5) (\<lambda>(c, n). Inr (SetDynamicTableCapacity c, n)))"
    by (cases "decode_integer ?b 5") (auto simp: lift_def decode_set_capacity_def split: prod.splits)
  show "decode_duplicate r t =
      lift r t (bindR (decode_integer ?b 5) (\<lambda>(k, n). Inr (Duplicate k, n)))"
    by (cases "decode_integer ?b 5")
      (auto simp: lift_def decode_duplicate_def split: prod.splits option.splits)
  show "decode_insert_with_literal_name r t =
      lift r t (bindR (es_decode_string_with_prefix ?b 5) (\<lambda>(name, n).
        bindR (es_decode_string (drop n ?b)) (\<lambda>(v, m). Inr (InsertWithLiteralName name v, n + m))))"
  proof (cases "es_decode_string_with_prefix ?b 5")
    case (Inr p)
    then obtain name n where "es_decode_string_with_prefix ?b 5 = Inr (name, n)" by (cases p) auto
    then show ?thesis
      by (cases "es_decode_string (drop n ?b)")
        (auto simp: lift_def decode_insert_with_literal_name_def Let_def split: prod.splits option.splits)
  qed (simp add: lift_def decode_insert_with_literal_name_def)
  show "decode_insert_with_name_ref r t =
      lift r t (bindR (decode_integer ?b 6) (\<lambda>(i, n).
        bindR (es_decode_string (drop n ?b)) (\<lambda>(v, m).
        Inr (InsertWithNameReference (?b ! 0 AND 0x40 \<noteq> 0) i v, n + m))))"
  proof (cases "decode_integer ?b 6")
    case (Inr p)
    then obtain k n where "decode_integer ?b 6 = Inr (k, n)" by (cases p) auto
    then show ?thesis
      by (cases "es_decode_string (drop n ?b)")
        (auto simp: lift_def decode_insert_with_name_ref_def Let_def referenced_name_def
          get_static_entry_def split: prod.splits option.splits)
  qed (simp add: lift_def decode_insert_with_name_ref_def Let_def)
qed

lemma esr_process_step: "esr_process r t = receiver_step r t"
proof (cases "esr_recv_buffer r = []")
  case False
  show ?thesis
  proof (cases "parse_instr (esr_recv_buffer r)")
    case (Inl e)
    with False show ?thesis
      unfolding esr_process_def receiver_step_def receiver_branches parse_instr_def
      by (auto simp: Let_def split: if_splits qpack_error.splits)
  next
    case (Inr p)
    obtain i n where p: "p = (i, n)" by fastforce
    obtain t' c err where ef: "instr_effect (esr_max_table_capacity r) t i = (t', c, err)"
      by (cases "instr_effect (esr_max_table_capacity r) t i") auto
    show ?thesis
    proof (cases err)
      case None
      with False Inr p ef show ?thesis
        unfolding esr_process_def receiver_step_def receiver_branches parse_instr_def
        by (auto simp: Let_def split: if_splits)
    next
      case (Some e)
      with False Inr p ef instr_effect_error [of "esr_max_table_capacity r" t i t' c e] show ?thesis
        unfolding esr_process_def receiver_step_def receiver_branches parse_instr_def
        by (auto simp: Let_def split: if_splits qpack_error.splits)
    qed
  qed
qed (simp add: esr_process_def receiver_step_def parse_instr_def)

section \<open>Properties of the encoder stream\<close>

text \<open>
  C39: Instructions survive the encoder stream.  The bytes that the sender emits for an instruction
  make the receiver, whatever follows them, perform exactly the effect of that instruction on the
  table and remove exactly these bytes (unless the instruction itself is invalid); while any part
  of them is missing, the receiver waits and changes nothing.
\<close>

theorem encoder_stream_roundtrip:
  assumes "wf_instr i" "may_send s i" "es_send_buffer s = []"
  shows "snd (send_instr s i) = Inr () \<and>
    esr_process (r\<lparr>esr_recv_buffer := es_send_buffer (fst (send_instr s i)) @ rest\<rparr>) t =
      (case instr_effect (esr_max_table_capacity r) t i of
         (t', consumed, err) \<Rightarrow>
           (r\<lparr>esr_recv_buffer :=
               (if consumed then rest else es_send_buffer (fst (send_instr s i)) @ rest)\<rparr>,
            t', case err of None \<Rightarrow> Inr (Some i) | Some e \<Rightarrow> Inl e)) \<and>
    (k < length (es_send_buffer (fst (send_instr s i))) \<longrightarrow>
      esr_process (r\<lparr>esr_recv_buffer := take k (es_send_buffer (fst (send_instr s i)))\<rparr>) t =
        (r\<lparr>esr_recv_buffer := take k (es_send_buffer (fst (send_instr s i)))\<rparr>, t, Inr None))"
proof -
  have send: "send_instr s i = (s\<lparr>es_send_buffer := instr_bytes i\<rparr>, Inr ())"
    using send_instr_bytes [OF assms(2)] assms(3) by simp
  then have sent: "es_send_buffer (fst (send_instr s i)) = instr_bytes i" "snd (send_instr s i) = Inr ()"
    by simp_all
  have "esr_process (r\<lparr>esr_recv_buffer := take k (instr_bytes i)\<rparr>) t =
      (r\<lparr>esr_recv_buffer := take k (instr_bytes i)\<rparr>, t, Inr None)" if "k < length (instr_bytes i)"
    using ei.partial_short [OF assms(1) that] by (simp add: esr_process_step receiver_step_def)
  moreover have "esr_process (r\<lparr>esr_recv_buffer := instr_bytes i @ rest\<rparr>) t =
      (case instr_effect (esr_max_table_capacity r) t i of
         (t', consumed, err) \<Rightarrow>
           (r\<lparr>esr_recv_buffer := (if consumed then rest else instr_bytes i @ rest)\<rparr>,
            t', case err of None \<Rightarrow> Inr (Some i) | Some e \<Rightarrow> Inl e))"
    using ei.dec_enc [OF assms(1)]
    by (auto simp: esr_process_step receiver_step_def esr_drain_def split: prod.splits)
  ultimately show ?thesis unfolding sent by blast
qed

theorem encoder_stream_roundtrip_witness:
  "esr_process \<lparr>esr_recv_buffer =
        es_send_buffer (fst (encode_set_capacity \<lparr>es_send_buffer = [], es_max_table_capacity = 64\<rparr> 50)) @ [7],
        esr_max_table_capacity = 64\<rparr> dt_new =
    (\<lparr>esr_recv_buffer = [7], esr_max_table_capacity = 64\<rparr>, dt_with_capacity 50,
     Inr (Some (SetDynamicTableCapacity 50)))"
proof -
  have "dt_set_capacity dt_new 50 = dt_with_capacity 50"
    by (simp add: dt_set_capacity_def dt_new_def dt_with_capacity_def evict_to_fit.simps)
  then show ?thesis
    using encoder_stream_roundtrip [where i = "SetDynamicTableCapacity 50"
        and s = "\<lparr>es_send_buffer = [], es_max_table_capacity = 64\<rparr>"
        and r = "\<lparr>esr_recv_buffer = [], esr_max_table_capacity = 64\<rparr>" and rest = "[7]" and t = dt_new]
    by (simp add: may_send_def send_instr_def)
qed

end
