(* ===== verification/Decoder_Stream.thy ===== *)
theory Decoder_Stream
  imports Encoder_Stream
begin

text \<open>
  The QPACK decoder stream (\<^verbatim>\<open>src/qpack/decoder_stream.rs\<close>, RFC 9204 Section 4.4): the three
  acknowledgement instructions, the sender on the decoder's side and the receiver on the encoder's
  side, which keeps the Known Received Count.
\<close>

section \<open>Instructions\<close>

datatype decoder_instruction =
    SectionAcknowledgment u64
  | StreamCancellation u64
  | InsertCountIncrement u64

section \<open>Sending\<close>

record decoder_stream =
  ds_send_buffer :: bytes

definition ds_new :: decoder_stream where
  "ds_new = \<lparr>ds_send_buffer = []\<rparr>"

definition ds_write_stream_type :: "decoder_stream \<Rightarrow> decoder_stream" where
  "ds_write_stream_type s = s\<lparr>ds_send_buffer := ds_send_buffer s @ [0x03]\<rparr>"

definition encode_section_acknowledgment :: "decoder_stream \<Rightarrow> u64 \<Rightarrow> decoder_stream" where
  "encode_section_acknowledgment s stream_id =
    s\<lparr>ds_send_buffer := encode_integer_to_vec (ds_send_buffer s) stream_id 7 0x80\<rparr>"

definition encode_stream_cancellation :: "decoder_stream \<Rightarrow> u64 \<Rightarrow> decoder_stream" where
  "encode_stream_cancellation s stream_id =
    s\<lparr>ds_send_buffer := encode_integer_to_vec (ds_send_buffer s) stream_id 6 0x40\<rparr>"

definition encode_insert_count_increment :: "decoder_stream \<Rightarrow> u64 \<Rightarrow> decoder_stream" where
  "encode_insert_count_increment s increment =
    s\<lparr>ds_send_buffer := encode_integer_to_vec (ds_send_buffer s) increment 6 0x00\<rparr>"

definition ds_consume_data :: "decoder_stream \<Rightarrow> usize \<Rightarrow> decoder_stream" where
  "ds_consume_data s len =
    (if length (ds_send_buffer s) \<le> len then s\<lparr>ds_send_buffer := []\<rparr>
     else s\<lparr>ds_send_buffer := drop len (ds_send_buffer s)\<rparr>)"

definition ds_has_pending :: "decoder_stream \<Rightarrow> bool" where
  "ds_has_pending s \<longleftrightarrow> ds_send_buffer s \<noteq> []"

section \<open>Receiving\<close>

record decoder_stream_receiver =
  dsr_recv_buffer :: bytes
  dsr_known_received_count :: u64

definition dsr_new :: decoder_stream_receiver where
  "dsr_new = \<lparr>dsr_recv_buffer = [], dsr_known_received_count = 0\<rparr>"

definition dsr_receive :: "decoder_stream_receiver \<Rightarrow> bytes \<Rightarrow> decoder_stream_receiver" where
  "dsr_receive r data = r\<lparr>dsr_recv_buffer := dsr_recv_buffer r @ data\<rparr>"

definition dsr_drain :: "decoder_stream_receiver \<Rightarrow> usize \<Rightarrow> decoder_stream_receiver" where
  "dsr_drain r n = r\<lparr>dsr_recv_buffer := drop n (dsr_recv_buffer r)\<rparr>"

type_synonym dsr_result = "decoder_stream_receiver \<times> (qpack_error + decoder_instruction option)"

definition decode_section_acknowledgment :: "decoder_stream_receiver \<Rightarrow> dsr_result" where
  "decode_section_acknowledgment r =
    (case decode_integer (dsr_recv_buffer r) 7 of
       Inl e \<Rightarrow> (r, Inl e)
     | Inr (stream_id, consumed) \<Rightarrow>
         (dsr_drain r consumed, Inr (Some (SectionAcknowledgment stream_id))))"

definition decode_stream_cancellation :: "decoder_stream_receiver \<Rightarrow> dsr_result" where
  "decode_stream_cancellation r =
    (case decode_integer (dsr_recv_buffer r) 6 of
       Inl e \<Rightarrow> (r, Inl e)
     | Inr (stream_id, consumed) \<Rightarrow>
         (dsr_drain r consumed, Inr (Some (StreamCancellation stream_id))))"

definition decode_insert_count_increment :: "decoder_stream_receiver \<Rightarrow> u64 \<Rightarrow> dsr_result" where
  "decode_insert_count_increment r total_insert_count =
    (case decode_integer (dsr_recv_buffer r) 6 of
       Inl e \<Rightarrow> (r, Inl e)
     | Inr (increment, consumed) \<Rightarrow>
         if increment = 0 then (r, Inl DecodeFailed)
         else
           let new_known = dsr_known_received_count r + increment in
           if total_insert_count < new_known then (r, Inl DecodeFailed)
           else
             ((dsr_drain r consumed)\<lparr>dsr_known_received_count := new_known\<rparr>,
              Inr (Some (InsertCountIncrement increment))))"

definition dsr_process :: "decoder_stream_receiver \<Rightarrow> u64 \<Rightarrow> dsr_result" where
  "dsr_process r total_insert_count =
    (if dsr_recv_buffer r = [] then (r, Inr None)
     else
       let first = dsr_recv_buffer r ! 0 in
       case (if first AND 0x80 \<noteq> 0 then decode_section_acknowledgment r
             else if first AND 0x40 \<noteq> 0 then decode_stream_cancellation r
             else decode_insert_count_increment r total_insert_count) of
         (r, Inl QBufferTooShort) \<Rightarrow> (r, Inr None)
       | (r, other) \<Rightarrow> (r, other))"

section \<open>The wire form of an acknowledgement\<close>

fun ack_bytes :: "decoder_instruction \<Rightarrow> bytes" where
  "ack_bytes (SectionAcknowledgment i) = int_bytes i 7 0x80"
| "ack_bytes (StreamCancellation i) = int_bytes i 6 0x40"
| "ack_bytes (InsertCountIncrement n) = int_bytes n 6 0x00"

fun wf_ack :: "decoder_instruction \<Rightarrow> bool" where
  "wf_ack (SectionAcknowledgment i) \<longleftrightarrow> i < 2 ^ 62"
| "wf_ack (StreamCancellation i) \<longleftrightarrow> i < 2 ^ 62"
| "wf_ack (InsertCountIncrement n) \<longleftrightarrow> n < 2 ^ 62"

fun send_ack :: "decoder_stream \<Rightarrow> decoder_instruction \<Rightarrow> decoder_stream" where
  "send_ack s (SectionAcknowledgment i) = encode_section_acknowledgment s i"
| "send_ack s (StreamCancellation i) = encode_stream_cancellation s i"
| "send_ack s (InsertCountIncrement n) = encode_insert_count_increment s n"

lemma send_ack_bytes: "send_ack s a = s\<lparr>ds_send_buffer := ds_send_buffer s @ ack_bytes a\<rparr>"
  by (cases a)
    (simp_all add: encode_section_acknowledgment_def encode_stream_cancellation_def
      encode_insert_count_increment_def encode_integer_to_vec_append)

definition parse_ack :: "bytes \<Rightarrow> qpack_error + decoder_instruction \<times> usize" where
  "parse_ack b =
    (if b = [] then Inl QBufferTooShort
     else if b ! 0 AND 0x80 \<noteq> 0 then
       bindR (decode_integer b 7) (\<lambda>(i, n). Inr (SectionAcknowledgment i, n))
     else if b ! 0 AND 0x40 \<noteq> 0 then
       bindR (decode_integer b 6) (\<lambda>(i, n). Inr (StreamCancellation i, n))
     else bindR (decode_integer b 6) (\<lambda>(n, m). Inr (InsertCountIncrement n, m)))"

lemma stable_parse_ack: "stable_dec QBufferTooShort parse_ack"
  unfolding parse_ack_def [abs_def]
  by (rule stable_first [where D = "\<lambda>c b. if c AND 0x80 \<noteq> 0 then _ c b else _ c b"])
    (intro stable_if stable_map stable_integer)

lemma parse_ack_bytes: "wf_ack a \<Longrightarrow> parse_ack (ack_bytes a @ rest) = Inr (a, length (ack_bytes a))"
proof (cases a)
  case (SectionAcknowledgment i)
  assume "wf_ack a"
  then show ?thesis
    using SectionAcknowledgment decode_int_bytes [of 7 "0x80" i rest]
      first_byte_flags [of 7 "0x80" "0x80" i rest] tags_ok
    by (simp add: parse_ack_def)
next
  case (StreamCancellation i)
  assume "wf_ack a"
  then show ?thesis
    using StreamCancellation decode_int_bytes [of 6 "0x40" i rest]
      first_byte_flags [of 6 "0x40" "0x80" i rest] first_byte_flags [of 6 "0x40" "0x40" i rest] tags_ok
    by (simp add: parse_ack_def)
next
  case (InsertCountIncrement n)
  assume "wf_ack a"
  then show ?thesis
    using InsertCountIncrement decode_int_bytes [of 6 0 n rest]
      first_byte_flags [of 6 0 "0x80" n rest] first_byte_flags [of 6 0 "0x40" n rest] tags_ok
    by (simp add: parse_ack_def)
qed

interpretation di: incremental wf_ack ack_bytes parse_ack QBufferTooShort
proof unfold_locales
  show "ack_bytes a \<noteq> []" for a by (cases a) simp_all
qed (auto simp: parse_ack_bytes stableD(1) [OF stable_parse_ack] dest: stableD(2) [OF stable_parse_ack])

text \<open>The effect of an acknowledgement on the receiver's count.\<close>

fun ack_effect :: "u64 \<Rightarrow> u64 \<Rightarrow> decoder_instruction \<Rightarrow> u64 option" where
  "ack_effect ins known (InsertCountIncrement n) =
    (if n = 0 \<or> ins < known + n then None else Some (known + n))"
| "ack_effect ins known a = Some known"

lemma dsr_process_parse:
  "dsr_process r ins =
    (case parse_ack (dsr_recv_buffer r) of
       Inl QBufferTooShort \<Rightarrow> (r, Inr None)
     | Inl e \<Rightarrow> (r, Inl e)
     | Inr (a, n) \<Rightarrow>
         (case ack_effect ins (dsr_known_received_count r) a of
            None \<Rightarrow> (r, Inl DecodeFailed)
          | Some known \<Rightarrow>
              ((dsr_drain r n)\<lparr>dsr_known_received_count := known\<rparr>, Inr (Some a))))"
proof (cases "dsr_recv_buffer r = []")
  case False
  let ?b = "dsr_recv_buffer r"
  have k: "(dsr_drain r n)\<lparr>dsr_known_received_count := dsr_known_received_count r\<rparr> = dsr_drain r n" for n
    by (simp add: dsr_drain_def)
  show ?thesis
    using False
    by (cases "decode_integer ?b 7"; cases "decode_integer ?b 6")
      (auto simp: dsr_process_def parse_ack_def decode_section_acknowledgment_def k
        decode_stream_cancellation_def decode_insert_count_increment_def Let_def
        split: if_splits qpack_error.splits)
qed (simp add: dsr_process_def parse_ack_def)

section \<open>Properties of the decoder stream\<close>

text \<open>
  Acknowledgements survive the decoder stream, in any fragmentation.  The emitted bytes make
  the receiver return the instruction and remove them; an Insert Count Increment is accepted
  exactly when it is positive and does not pass the number of insertions sent, and then advances
  the Known Received Count by its value; nothing happens while bytes are missing.
\<close>

theorem decoder_stream_roundtrip:
  assumes "wf_ack a" "dsr_known_received_count r \<le> ins"
  shows "dsr_process (r\<lparr>dsr_recv_buffer := ds_send_buffer (send_ack ds_new a) @ rest\<rparr>) ins =
      (case a of
         InsertCountIncrement n \<Rightarrow>
           if 0 < n \<and> dsr_known_received_count r + n \<le> ins
           then (r\<lparr>dsr_recv_buffer := rest,
                   dsr_known_received_count := dsr_known_received_count r + n\<rparr>, Inr (Some a))
           else (r\<lparr>dsr_recv_buffer := ds_send_buffer (send_ack ds_new a) @ rest\<rparr>, Inl DecodeFailed)
       | _ \<Rightarrow> (r\<lparr>dsr_recv_buffer := rest\<rparr>, Inr (Some a))) \<and>
    dsr_known_received_count
      (fst (dsr_process (r\<lparr>dsr_recv_buffer := ds_send_buffer (send_ack ds_new a) @ rest\<rparr>) ins)) \<le> ins \<and>
    (k < length (ds_send_buffer (send_ack ds_new a)) \<longrightarrow>
      dsr_process (r\<lparr>dsr_recv_buffer := take k (ds_send_buffer (send_ack ds_new a))\<rparr>) ins =
        (r\<lparr>dsr_recv_buffer := take k (ds_send_buffer (send_ack ds_new a))\<rparr>, Inr None))"
proof -
  have sent: "ds_send_buffer (send_ack ds_new a) = ack_bytes a"
    by (simp add: send_ack_bytes ds_new_def)
  have "dsr_process (r\<lparr>dsr_recv_buffer := take k (ack_bytes a)\<rparr>) ins =
      (r\<lparr>dsr_recv_buffer := take k (ack_bytes a)\<rparr>, Inr None)" if "k < length (ack_bytes a)"
    using di.partial_short [OF assms(1) that] by (simp add: dsr_process_parse)
  moreover have "dsr_process (r\<lparr>dsr_recv_buffer := ack_bytes a @ rest\<rparr>) ins =
      (case a of
         InsertCountIncrement n \<Rightarrow>
           if 0 < n \<and> dsr_known_received_count r + n \<le> ins
           then (r\<lparr>dsr_recv_buffer := rest,
                   dsr_known_received_count := dsr_known_received_count r + n\<rparr>, Inr (Some a))
           else (r\<lparr>dsr_recv_buffer := ack_bytes a @ rest\<rparr>, Inl DecodeFailed)
       | _ \<Rightarrow> (r\<lparr>dsr_recv_buffer := rest\<rparr>, Inr (Some a)))"
    using di.dec_enc [OF assms(1), of rest]
    by (cases a) (auto simp: dsr_process_parse dsr_drain_def)
  ultimately show ?thesis using assms(2) unfolding sent
    by (cases a) (auto split: if_splits)
qed

theorem decoder_stream_roundtrip_witness:
  "dsr_process \<lparr>dsr_recv_buffer = ds_send_buffer (encode_insert_count_increment ds_new 3) @ [9],
      dsr_known_received_count = 2\<rparr> 5 =
    (\<lparr>dsr_recv_buffer = [9], dsr_known_received_count = 5\<rparr>, Inr (Some (InsertCountIncrement 3)))"
  using decoder_stream_roundtrip [where a = "InsertCountIncrement 3" and ins = 5 and rest = "[9]"
      and r = "\<lparr>dsr_recv_buffer = [], dsr_known_received_count = 2\<rparr>"]
  by simp

end
