(* ===== verification/Qpack_Sync.thy ===== *)
theory Qpack_Sync
  imports Decoder_Stream
begin

text \<open>
  The two dynamic tables of a QPACK connection kept in step over a byte stream: the encoder's table
  and encoder stream on one side, the receiver and the decoder's table on the other, bytes arriving
  in any fragmentation.  The invariant of this system is the \<open>peers\<close> relation under which field
  sections survive.
\<close>

section \<open>Equal logs under different evictions\<close>

definition suffix_size :: "field_log \<Rightarrow> nat \<Rightarrow> u64" where
  "suffix_size H k = sum_list (map entry_size (map (log_entry H) [k..<length H]))"

lemma dt_repr_current: "dt_repr t H \<Longrightarrow> dt_current_size t = suffix_size H (dt_dropped_count t)"
  by (simp add: dt_repr_def suffix_size_def rev_map [symmetric] sum_list_rev)

text \<open>Eviction stops at the first window that fits.\<close>

lemma evict_to_fit_least:
  assumes "dt_repr t H" "dt_dropped_count t \<le> k" "suffix_size H k + r \<le> dt_max_capacity t"
  shows "dt_dropped_count (evict_to_fit t r) \<le> k"
  using assms
proof (induction t r rule: evict_to_fit.induct)
  case (1 t r)
  show ?case
  proof (cases "dt_max_capacity t < dt_current_size t + r \<and> dt_entries t \<noteq> [] \<and>
      dt_eviction_limit t \<le> de_index (last (dt_entries t))")
    case False
    then have "evict_to_fit t r = t" by (subst evict_to_fit.simps) (auto simp: Let_def)
    with 1 show ?thesis by simp
  next
    case True
    then have ne: "dt_entries t \<noteq> []" by simp
    note l = dt_repr_last [OF 1(2) ne]
    let ?t = "t\<lparr>dt_entries := butlast (dt_entries t),
        dt_current_size := dt_current_size t - entry_size (last (dt_entries t)),
        dt_dropped_count := dt_dropped_count t + 1\<rparr>"
    have step: "evict_to_fit t r = evict_to_fit ?t r"
      using True by (subst evict_to_fit.simps) (simp add: Let_def)
    have "dt_insert_count t = length H" using 1(2) by (simp add: dt_repr_def)
    moreover have "dt_current_size t - entry_size (last (dt_entries t)) =
        sum_list (map entry_size (butlast (dt_entries t)))" using l(4) by simp
    ultimately have r: "dt_repr ?t H" using l(2,3) unfolding dt_repr_def by simp
    have "k \<noteq> dt_dropped_count t" using True 1(4) dt_repr_current [OF 1(2)] by auto
    with 1(3) have k: "dt_dropped_count ?t \<le> k" by simp
    show ?thesis
      unfolding step by (rule 1(1)) (use True r k 1(4) in auto)
  qed
qed

definition synced :: "dynamic_table \<Rightarrow> dynamic_table \<Rightarrow> field_log \<Rightarrow> bool" where
  "synced te td H \<longleftrightarrow>
    dt_repr te H \<and> dt_repr td H \<and> dt_max_capacity td = dt_max_capacity te \<and>
    dt_eviction_limit td = 0 \<and> dt_fits td \<and> dt_dropped_count td \<le> dt_dropped_count te"

lemma dt_insert_dropped:
  "dt_insert t n v = (t', Some i) \<Longrightarrow>
    dt_dropped_count t' = dt_dropped_count (evict_to_fit t (32 + length n + length v)) \<and>
    dt_current_size (evict_to_fit t (32 + length n + length v)) + (32 + length n + length v) \<le>
      dt_max_capacity (evict_to_fit t (32 + length n + length v)) \<and>
    32 + length n + length v \<le> dt_max_capacity t"
  by (auto simp: dt_insert_def Let_def ENTRY_OVERHEAD_def split: if_splits)

lemma dt_insert_synced:
  assumes "synced te td H" "dt_insert te n v = (te', Some i)"
  shows "\<exists>td'. dt_insert td n v = (td', Some i) \<and> synced te' td' (H @ [(n, v)])"
proof -
  let ?s = "32 + length n + length v"
  have r: "dt_repr te H" "dt_repr td H" and c: "dt_max_capacity td = dt_max_capacity te"
    and lim: "dt_eviction_limit td = 0" and d: "dt_dropped_count td \<le> dt_dropped_count te"
    using assms(1) by (simp_all add: synced_def)
  note ins = dt_insert_dropped [OF assms(2)]
  note spe = dt_insert_repr [OF r(1) assms(2)]
  from dt_insert_unlimited [OF r(2) lim, of n v] c ins
  obtain td' j where td': "dt_insert td n v = (td', Some j)"
    by (cases "dt_insert td n v") auto
  note spd = dt_insert_repr [OF r(2) td']
  have ev: "dt_repr (evict_to_fit te ?s) H" "dt_dropped_count te \<le> dt_dropped_count (evict_to_fit te ?s)"
    "dt_max_capacity (evict_to_fit te ?s) = dt_max_capacity te"
    using evict_to_fit_facts(1,2,3) [OF r(1), of ?s] by (simp_all add: same_settings_def)
  have "dt_dropped_count (evict_to_fit td ?s) \<le> dt_dropped_count (evict_to_fit te ?s)"
    by (rule evict_to_fit_least [OF r(2)]) (use ev ins d c dt_repr_current [OF ev(1)] in auto)
  with dt_insert_dropped [OF td'] ins have "dt_dropped_count td' \<le> dt_dropped_count te'" by simp
  with spe spd td' c lim have "synced te' td' (H @ [(n, v)])" "j = i"
    by (simp_all add: synced_def)
  with td' show ?thesis by blast
qed

lemma dt_set_capacity_synced:
  assumes "synced te td H" "dt_fits (dt_set_capacity te c)"
  shows "synced (dt_set_capacity te c) (dt_set_capacity td c) H"
proof -
  have r: "dt_repr te H" "dt_repr td H" and lim: "dt_eviction_limit td = 0"
    and d: "dt_dropped_count td \<le> dt_dropped_count te"
    using assms(1) by (simp_all add: synced_def)
  note e = dt_set_capacity_repr [OF r(1), of c] and s = dt_set_capacity_repr [OF r(2), of c]
  have "dt_repr (td\<lparr>dt_max_capacity := c\<rparr>) H" using r(2) by (simp add: dt_repr_def)
  then have "dt_dropped_count (dt_set_capacity td c) \<le> dt_dropped_count (dt_set_capacity te c)"
    unfolding dt_set_capacity_def [of td]
    by (rule evict_to_fit_least)
      (use d e assms(2) dt_repr_current [OF e(1)] in \<open>simp_all add: keeps_protected_def dt_fits_def\<close>)
  with e s lim show ?thesis by (simp add: synced_def)
qed

lemma synced_lookup:
  assumes "synced te td H" "get_by_relative_index_encoder te k = Some en"
  shows "get_by_relative_index_encoder td k = Some en"
  using assms by (auto simp: synced_def get_by_relative_index_encoder_log split: if_splits)

section \<open>Emitting instructions\<close>

text \<open>
  An operation of the encoder's table together with the instruction that announces it.  A new
  capacity may only be announced when the table fits it: see \<open>capacity_below_protected\<close> below.
\<close>

inductive emit :: "dynamic_encoder \<Rightarrow> encoder_instruction \<Rightarrow> dynamic_encoder \<Rightarrow> bool" where
  EmLiteral: "qe_insert e n v = (e', Some i) \<Longrightarrow> emit e (InsertWithLiteralName n v) e'"
| EmStaticName: "get_static_entry k = Some h \<Longrightarrow> qe_insert e (h_name h) v = (e', Some i) \<Longrightarrow>
    emit e (InsertWithNameReference True k v) e'"
| EmDynamicName: "get_by_relative_index_encoder (qe_table e) k = Some en \<Longrightarrow>
    qe_insert e (de_name en) v = (e', Some i) \<Longrightarrow> emit e (InsertWithNameReference False k v) e'"
| EmDuplicate: "dt_duplicate (qe_table e) k = (t, Some i) \<Longrightarrow>
    emit e (Duplicate k) (e\<lparr>qe_table := t\<rparr>)"
| EmCapacity: "qe_set_table_capacity e c = (e', Inr ()) \<Longrightarrow> dt_fits (qe_table e') \<Longrightarrow>
    emit e (SetDynamicTableCapacity c) e'"

fun effect_log :: "dynamic_table \<Rightarrow> encoder_instruction \<Rightarrow> field_log" where
  "effect_log t (SetDynamicTableCapacity c) = []"
| "effect_log t (InsertWithNameReference is_static k v) = [(the (referenced_name t is_static k), v)]"
| "effect_log t (InsertWithLiteralName n v) = [(n, v)]"
| "effect_log t (Duplicate k) =
    [(de_name (the (get_by_relative_index_encoder t k)), de_value (the (get_by_relative_index_encoder t k)))]"

lemma qe_insert_table:
  "qe_insert e n v = (e', Some i) \<Longrightarrow> dt_insert (qe_table e) n v = (qe_table e', Some i) \<and>
    qe_max_table_capacity e' = qe_max_table_capacity e"
  by (auto simp: qe_insert_def split: prod.splits)

lemma emit_synced:
  assumes "emit e i e'" "synced (qe_table e) td H" "qe_max_table_capacity e = M"
  shows "(\<exists>td'. instr_effect M td i = (td', True, None) \<and>
      synced (qe_table e') td' (H @ effect_log td i)) \<and> qe_max_table_capacity e' = M"
  using assms(1)
proof cases
  case (EmLiteral n v i')
  with dt_insert_synced [OF assms(2)] qe_insert_table [OF EmLiteral(2)] assms(3)
  show ?thesis by fastforce
next
  case (EmStaticName k h v i')
  with dt_insert_synced [OF assms(2)] qe_insert_table [OF EmStaticName(3)] assms(3)
  show ?thesis by (fastforce simp: referenced_name_def)
next
  case (EmDynamicName k en v i')
  with dt_insert_synced [OF assms(2)] qe_insert_table [OF EmDynamicName(3)] assms(3)
    synced_lookup [OF assms(2)]
  show ?thesis by (fastforce simp: referenced_name_def)
next
  case (EmDuplicate k t i')
  then obtain en where en: "get_by_relative_index_encoder (qe_table e) k = Some en"
    and ins: "dt_insert (qe_table e) (de_name en) (de_value en) = (t, Some i')"
    by (auto simp: dt_duplicate_def split: option.splits)
  from dt_insert_synced [OF assms(2) ins] synced_lookup [OF assms(2) en] EmDuplicate assms(3)
  show ?thesis by (auto simp: dt_duplicate_def)
next
  case (EmCapacity c)
  then have "qe_table e' = dt_set_capacity (qe_table e) c" "c \<le> M"
    "qe_max_table_capacity e' = M"
    using assms(3) by (auto simp: qe_set_table_capacity_def split: if_splits)
  with EmCapacity dt_set_capacity_synced [OF assms(2)] show ?thesis by simp
qed

section \<open>Instructions in flight\<close>

fun run_instrs :: "u64 \<Rightarrow> dynamic_table \<Rightarrow> encoder_instruction list \<Rightarrow> (dynamic_table \<times> field_log) option" where
  "run_instrs M t [] = Some (t, [])"
| "run_instrs M t (i # q) =
    (case instr_effect M t i of
       (t', True, None) \<Rightarrow> map_option (\<lambda>(u, X). (u, effect_log t i @ X)) (run_instrs M t' q)
     | _ \<Rightarrow> None)"

lemma run_instrs_snoc:
  "run_instrs M t q = Some (u, X) \<Longrightarrow> instr_effect M u i = (u', True, None) \<Longrightarrow>
    run_instrs M t (q @ [i]) = Some (u', X @ effect_log u i)"
  by (induction q arbitrary: t X) (auto split: prod.splits bool.splits option.splits)

text \<open>The decoder's own invariant and what an instruction does to it.\<close>

definition decoder_table :: "u64 \<Rightarrow> dynamic_table \<Rightarrow> field_log \<Rightarrow> bool" where
  "decoder_table M t G \<longleftrightarrow>
    dt_repr t G \<and> dt_fits t \<and> dt_eviction_limit t = 0 \<and> dt_max_capacity t \<le> M"

lemma dt_insert_decoder:
  assumes "decoder_table M t G" "dt_insert t n v = (t', Some i)"
  shows "decoder_table M t' (G @ [(n, v)]) \<and> dt_dropped_count t \<le> dt_dropped_count t'"
  using assms dt_insert_repr [of t G n v t' "Some i"]
  by (simp add: decoder_table_def keeps_protected_def)

lemma effect_decoder:
  assumes "decoder_table M t G" "instr_effect M t i = (t', True, None)"
  shows "decoder_table M t' (G @ effect_log t i) \<and> dt_dropped_count t \<le> dt_dropped_count t'"
proof (cases i)
  case (SetDynamicTableCapacity c)
  with assms dt_set_capacity_repr [of t G c] show ?thesis
    by (auto simp: decoder_table_def keeps_protected_def split: if_splits)
next
  case (InsertWithNameReference st k v)
  with assms(2) obtain n j where "referenced_name t st k = Some n" "dt_insert t n v = (t', Some j)"
    by (auto split: option.splits prod.splits)
  with dt_insert_decoder [OF assms(1)] InsertWithNameReference show ?thesis by simp
next
  case (InsertWithLiteralName n v)
  with assms(2) obtain j where "dt_insert t n v = (t', Some j)"
    by (auto split: option.splits prod.splits)
  with dt_insert_decoder [OF assms(1)] InsertWithLiteralName show ?thesis by simp
next
  case (Duplicate k)
  with assms(2) obtain j en where "get_by_relative_index_encoder t k = Some en"
    "dt_insert t (de_name en) (de_value en) = (t', Some j)"
    by (auto simp: dt_duplicate_def split: option.splits prod.splits)
  with dt_insert_decoder [OF assms(1)] Duplicate show ?thesis by simp
qed

lemma run_decoder:
  "decoder_table M t G \<Longrightarrow> run_instrs M t q = Some (u, X) \<Longrightarrow>
    decoder_table M u (G @ X) \<and> dt_dropped_count t \<le> dt_dropped_count u"
proof (induction q arbitrary: t G X)
  case (Cons i q)
  obtain t' X' where i: "instr_effect M t i = (t', True, None)"
    and run: "run_instrs M t' q = Some (u, X')" and X: "X = effect_log t i @ X'"
    using Cons.prems(2) by (auto split: prod.splits bool.splits option.splits)
  note e = effect_decoder [OF Cons.prems(1) i]
  from Cons.IH [OF _ run] e have "decoder_table M u ((G @ effect_log t i) @ X') \<and>
      dt_dropped_count t' \<le> dt_dropped_count u" by blast
  with e X show ?case by auto
qed simp

section \<open>The system\<close>

text \<open>
  One direction of the QPACK exchange: the encoder with its encoder stream, the receiver of that
  stream and the decoder whose table it updates.
\<close>

record qpack_link =
  ql_encoder :: dynamic_encoder
  ql_stream :: encoder_stream
  ql_receiver :: encoder_stream_receiver
  ql_decoder :: dynamic_decoder

definition ql_init :: "u64 \<Rightarrow> bool \<Rightarrow> u64 \<Rightarrow> qpack_link" where
  "ql_init M uh blocked =
    \<lparr>ql_encoder = qe_set_peer_max_blocked_streams
        (qe_set_max_table_capacity (qe_new\<lparr>qe_use_huffman := uh\<rparr>) M) blocked,
     ql_stream = es_set_max_table_capacity es_new M,
     ql_receiver = esr_set_max_table_capacity esr_new M,
     ql_decoder = dd_set_max_table_capacity dd_new M\<rparr>"

text \<open>
  The steps: the encoder changes its table and announces it (\<open>LkEmit\<close>), or does bookkeeping
  that leaves the table alone (\<open>LkEncoder\<close>); some bytes of the stream arrive (\<open>LkArrive\<close>); the
  receiver processes what it has (\<open>LkProcess\<close>); the decoder decodes a section (\<open>LkDecode\<close>).
\<close>

inductive link_step :: "qpack_link \<Rightarrow> qpack_link \<Rightarrow> bool" where
  LkEmit: "emit (ql_encoder l) i e' \<Longrightarrow> wf_instr i \<Longrightarrow> send_instr (ql_stream l) i = (s', Inr ()) \<Longrightarrow>
    link_step l (l\<lparr>ql_encoder := e', ql_stream := s'\<rparr>)"
| LkEncoder: "qe_step (ql_encoder l) e' \<Longrightarrow>
    qe_table e' = dt_set_eviction_limit (qe_table (ql_encoder l)) lim \<Longrightarrow>
    qe_max_table_capacity e' = qe_max_table_capacity (ql_encoder l) \<Longrightarrow>
    link_step l (l\<lparr>ql_encoder := e'\<rparr>)"
| LkArrive: "link_step l
    (l\<lparr>ql_receiver := esr_receive (ql_receiver l) (take n (es_send_buffer (ql_stream l))),
       ql_stream := es_consume_data (ql_stream l) n\<rparr>)"
| LkProcess: "esr_process (ql_receiver l) (dd_table (ql_decoder l)) = (r', t', res) \<Longrightarrow>
    link_step l (l\<lparr>ql_receiver := r', ql_decoder := (ql_decoder l)\<lparr>dd_table := t'\<rparr>\<rparr>)"
| LkDecode: "link_step l (l\<lparr>ql_decoder := fst (dd_decode (ql_decoder l) data)\<rparr>)"

inductive link_reach :: "u64 \<Rightarrow> qpack_link \<Rightarrow> bool" where
  init: "link_reach M (ql_init M uh blocked)"
| step: "link_reach M l \<Longrightarrow> link_step l l' \<Longrightarrow> link_reach M l'"

definition link_inv :: "u64 \<Rightarrow> qpack_link \<Rightarrow> encoder_instruction list \<Rightarrow> dynamic_table \<Rightarrow> field_log \<Rightarrow> field_log \<Rightarrow> bool" where
  "link_inv M l q td G X \<longleftrightarrow>
    esr_recv_buffer (ql_receiver l) @ es_send_buffer (ql_stream l) = concat (map instr_bytes q) \<and>
    list_all wf_instr q \<and>
    run_instrs M (dd_table (ql_decoder l)) q = Some (td, X) \<and>
    decoder_table M (dd_table (ql_decoder l)) G \<and>
    synced (qe_table (ql_encoder l)) td (G @ X) \<and>
    qe_max_table_capacity (ql_encoder l) = M \<and> es_max_table_capacity (ql_stream l) = M \<and>
    esr_max_table_capacity (ql_receiver l) = M \<and> dd_max_table_capacity (ql_decoder l) = M"

lemma link_inv_init: "link_inv M (ql_init M uh blocked) [] dt_new [] []"
  by (simp add: link_inv_def ql_init_def es_new_def es_set_max_table_capacity_def esr_new_def
      esr_set_max_table_capacity_def dd_new_def dd_set_max_table_capacity_def decoder_table_def
      synced_def qe_new_def qe_set_max_table_capacity_def qe_set_peer_max_blocked_streams_def
      dt_new_def dt_fits_def) (simp add: dt_with_capacity_def)

lemma send_instr_ok:
  assumes "send_instr s i = (s', Inr ())"
  shows "s' = s\<lparr>es_send_buffer := es_send_buffer s @ instr_bytes i\<rparr>"
  using assms send_instr_bytes [of s i] send_instr_refused [of s i] by (cases "may_send s i") auto

lemma es_consume_take_drop: "take n (es_send_buffer s) @ es_send_buffer (es_consume_data s n) = es_send_buffer s"
  by (simp add: es_consume_data_def)

lemma process_next:
  assumes "wf_instr i" "esr_recv_buffer r = instr_bytes i @ rest"
    "instr_effect (esr_max_table_capacity r) t i = (t', True, None)"
  shows "esr_process r t = (r\<lparr>esr_recv_buffer := rest\<rparr>, t', Inr (Some i))"
  using ei.dec_enc [OF assms(1), of rest] assms(2,3)
  by (simp add: esr_process_step receiver_step_def esr_drain_def)

text \<open>What the receiver can do: nothing, or exactly the next instruction in flight.\<close>

lemma process_in_flight:
  assumes "link_inv M l q td G X"
  shows "esr_process (ql_receiver l) (dd_table (ql_decoder l)) =
      (ql_receiver l, dd_table (ql_decoder l), Inr None) \<or>
    (\<exists>i q' rest t'. q = i # q' \<and> esr_recv_buffer (ql_receiver l) = instr_bytes i @ rest \<and>
      instr_effect M (dd_table (ql_decoder l)) i = (t', True, None) \<and>
      esr_process (ql_receiver l) (dd_table (ql_decoder l)) =
        ((ql_receiver l)\<lparr>esr_recv_buffer := rest\<rparr>, t', Inr (Some i)))"
proof -
  let ?r = "ql_receiver l" and ?t = "dd_table (ql_decoder l)"
  let ?b = "esr_recv_buffer ?r"
  have bytes: "?b @ es_send_buffer (ql_stream l) = concat (map instr_bytes q)"
    and wf: "list_all wf_instr q" and run: "run_instrs M ?t q = Some (td, X)"
    and M: "esr_max_table_capacity ?r = M"
    using assms by (simp_all add: link_inv_def)
  show ?thesis
  proof (cases q)
    case Nil
    with bytes show ?thesis by (simp add: esr_process_def)
  next
    case (Cons i q')
    then have i: "wf_instr i" using wf by simp
    from run Cons obtain t' where ef: "instr_effect M ?t i = (t', True, None)"
      by (auto split: prod.splits bool.splits option.splits)
    have b: "?b @ es_send_buffer (ql_stream l) = instr_bytes i @ concat (map instr_bytes q')"
      using bytes Cons by simp
    show ?thesis
    proof (cases "length ?b < length (instr_bytes i)")
      case True
      with b have "?b = take (length ?b) (instr_bytes i)"
        by (metis append_eq_append_conv_if less_imp_le_nat not_less)
      with ei.partial_short [OF i True] have "parse_instr ?b = Inl QBufferTooShort" by simp
      then show ?thesis by (simp add: esr_process_step receiver_step_def)
    next
      case False
      with b have "?b = instr_bytes i @ drop (length (instr_bytes i)) ?b"
        by (metis append_eq_conv_conj append_eq_append_conv_if append_take_drop_id not_less)
      then obtain rest where rest: "?b = instr_bytes i @ rest" by blast
      then have "esr_process ?r ?t = (?r\<lparr>esr_recv_buffer := rest\<rparr>, t', Inr (Some i))"
        using process_next [OF i] ef M by simp
      with rest ef Cons show ?thesis by blast
    qed
  qed
qed

lemma link_step_inv:
  assumes "link_step l l'" "link_inv M l q td G X"
  shows "\<exists>q td G X. link_inv M l' q td G X"
  using assms(1)
proof cases
  case (LkEmit i e' s')
  have sy: "synced (qe_table (ql_encoder l)) td (G @ X)" "qe_max_table_capacity (ql_encoder l) = M"
    and run: "run_instrs M (dd_table (ql_decoder l)) q = Some (td, X)"
    using assms(2) by (simp_all add: link_inv_def)
  from emit_synced [OF LkEmit(2) sy] obtain td' where
    ef: "instr_effect M td i = (td', True, None)" and
    sy': "synced (qe_table e') td' ((G @ X) @ effect_log td i)" and M: "qe_max_table_capacity e' = M"
    by blast
  have "link_inv M l' (q @ [i]) td' G (X @ effect_log td i)"
    using assms(2) LkEmit(1,3) sy' M run_instrs_snoc [OF run ef] send_instr_ok [OF LkEmit(4)]
    by (simp add: link_inv_def)
  then show ?thesis by blast
next
  case (LkEncoder e' lim)
  have "link_inv M l' q td G X"
    using assms(2) LkEncoder(1,3,4)
    by (simp add: link_inv_def synced_def) (simp add: dt_set_eviction_limit_def)
  then show ?thesis by blast
next
  case (LkArrive n)
  have "link_inv M l' q td G X"
    using assms(2) LkArrive es_consume_take_drop [of n "ql_stream l"]
    by (simp add: link_inv_def esr_receive_def es_consume_data_def)
  then show ?thesis by blast
next
  case (LkProcess r' t' res)
  from process_in_flight [OF assms(2)] show ?thesis
  proof (elim disjE exE conjE)
    assume "esr_process (ql_receiver l) (dd_table (ql_decoder l)) =
      (ql_receiver l, dd_table (ql_decoder l), Inr None)"
    with LkProcess have "l' = l" by simp
    with assms(2) show ?thesis by blast
  next
    fix i q' rest u
    assume q: "q = i # q'" and b: "esr_recv_buffer (ql_receiver l) = instr_bytes i @ rest"
      and ef: "instr_effect M (dd_table (ql_decoder l)) i = (u, True, None)"
      and p: "esr_process (ql_receiver l) (dd_table (ql_decoder l)) =
        ((ql_receiver l)\<lparr>esr_recv_buffer := rest\<rparr>, u, Inr (Some i))"
    have "decoder_table M (dd_table (ql_decoder l)) G" using assms(2) by (simp add: link_inv_def)
    note dec = effect_decoder [OF this ef]
    from assms(2) q ef obtain X' where X': "run_instrs M u q' = Some (td, X')"
      "X = effect_log (dd_table (ql_decoder l)) i @ X'"
      by (auto simp: link_inv_def)
    from LkProcess p have r': "r' = (ql_receiver l)\<lparr>esr_recv_buffer := rest\<rparr>" "t' = u" by simp_all
    have "link_inv M l' q' td (G @ effect_log (dd_table (ql_decoder l)) i) X'"
      using assms(2) q b X' dec unfolding LkProcess(1) r' by (simp add: link_inv_def)
    then show ?thesis by blast
  qed
next
  case (LkDecode data)
  have "dd_table (fst (dd_decode d data)) = dd_table d \<and>
      dd_max_table_capacity (fst (dd_decode d data)) = dd_max_table_capacity d" for d
    by (simp add: dd_decode_def Let_def split: sum.splits prod.splits)
  then have "link_inv M l' q td G X" using assms(2) LkDecode by (simp add: link_inv_def)
  then show ?thesis by blast
qed

lemma link_reach_inv: "link_reach M l \<Longrightarrow> \<exists>q td G X. link_inv M l q td G X"
proof (induction rule: link_reach.induct)
  case (init M uh blocked)
  then show ?case using link_inv_init by blast
qed (use link_step_inv in blast)

lemma link_peers:
  assumes "link_inv M l q td G X" "dt_insert_count (qe_table (ql_encoder l)) < 2 ^ 62"
  shows "peers (ql_encoder l) (G @ X) (ql_decoder l)"
    "length (G @ X) = dt_insert_count (qe_table (ql_encoder l))"
    "dt_insert_count (dd_table (ql_decoder l)) \<le> dt_insert_count (qe_table (ql_encoder l))"
proof -
  have sy: "synced (qe_table (ql_encoder l)) td (G @ X)"
    and d: "decoder_table M (dd_table (ql_decoder l)) G"
    and run: "run_instrs M (dd_table (ql_decoder l)) q = Some (td, X)"
    and M: "qe_max_table_capacity (ql_encoder l) = M" "dd_max_table_capacity (ql_decoder l) = M"
    using assms(1) by (simp_all add: link_inv_def)
  from sy have r: "dt_repr (qe_table (ql_encoder l)) (G @ X)" by (simp add: synced_def)
  then show len: "length (G @ X) = dt_insert_count (qe_table (ql_encoder l))"
    unfolding dt_repr_def by (elim conjE) (rule sym)
  have g: "dt_insert_count (dd_table (ql_decoder l)) = length G"
    using d unfolding decoder_table_def dt_repr_def by blast
  with len show "dt_insert_count (dd_table (ql_decoder l)) \<le> dt_insert_count (qe_table (ql_encoder l))"
    by simp
  have "dt_dropped_count (dd_table (ql_decoder l)) \<le> dt_dropped_count (qe_table (ql_encoder l))"
    using run_decoder [OF d run] sy by (simp add: synced_def)
  with assms(2) len r d M g show "peers (ql_encoder l) (G @ X) (ql_decoder l)"
    by (simp add: peers_def decoder_table_def)
qed

section \<open>Where the tables can part\<close>

text \<open>
  The two restrictions above are needed.  A capacity below the size of the protected entries is
  accepted by the encoder, which keeps them, while the decoder evicts them on receipt of the
  announcement.
\<close>

lemma capacity_below_protected:
  "snd (qe_set_table_capacity example_encoder 10) = Inr () \<and>
   \<not> dt_fits (qe_table (fst (qe_set_table_capacity example_encoder 10))) \<and>
   get_by_absolute_index (qe_table (fst (qe_set_table_capacity example_encoder 10))) 0 =
     Some (entry_new [1] [2] 0) \<and>
   get_by_absolute_index
     (fst (instr_effect 64 (dd_table example_decoder) (SetDynamicTableCapacity 10))) 0 = None"
  by (simp add: example_encoder_def example_decoder_def encoder_eval dt_fits_def dd_new_def
      dd_set_max_table_capacity_def dd_set_table_capacity_def dd_insert_def get_by_absolute_index_def)

text \<open>
  The encoder evicts entries whose insertion was never acknowledged (the eviction limit only
  counts sections), so more insertions can be in flight than the table holds.  Then the Required
  Insert Count is ambiguous: a decoder that has received one of five insertions takes 5 for 1.
\<close>

definition five_insertions :: dynamic_encoder where
  "five_insertions =
    (let e = fst (qe_set_table_capacity (qe_set_max_table_capacity qe_new 64) 64);
         ins = (\<lambda>e n. fst (qe_insert e [n] [])) in
     ins (ins (ins (ins (ins e 1) 2) 3) 4) 5)"

lemma unacknowledged_eviction:
  "qe_known_received_count five_insertions = 0 \<and> dt_insert_count (qe_table five_insertions) = 5 \<and>
   dt_dropped_count (qe_table five_insertions) = 4 \<and>
   dd_decode_required_insert_count example_decoder (encode_required_insert_count five_insertions 5) = Inr 1"
proof -
  have ins: "fst (qe_insert e [n] []) = e\<lparr>qe_table := \<lparr>dt_entries = [entry_new [n] [] k], dt_max_capacity = 64,
      dt_current_size = 33, dt_insert_count = k + 1, dt_dropped_count = d + 1, dt_eviction_limit = 0\<rparr>\<rparr>"
    if "qe_table e = \<lparr>dt_entries = [x], dt_max_capacity = 64, dt_current_size = 33,
      dt_insert_count = k, dt_dropped_count = d, dt_eviction_limit = 0\<rparr>" "entry_size x = 33" for e n k d x
    using that
    by (simp add: qe_insert_def dt_insert_def evict_to_fit.simps ENTRY_OVERHEAD_def entry_new_def entry_size_def)
  have first: "fst (qe_insert (fst (qe_set_table_capacity (qe_set_max_table_capacity qe_new 64) 64)) [n] []) =
      qe_new\<lparr>qe_max_table_capacity := 64, qe_table := \<lparr>dt_entries = [entry_new [n] [] 0], dt_max_capacity = 64,
      dt_current_size = 33, dt_insert_count = 1, dt_dropped_count = 0, dt_eviction_limit = 0\<rparr>\<rparr>" for n
    by (simp add: encoder_eval)
  have sz: "entry_size (entry_new [n] [] k) = 33" for n k
    by (simp add: entry_size_def entry_new_def ENTRY_OVERHEAD_def)
  have e: "five_insertions = qe_new\<lparr>qe_max_table_capacity := 64, qe_table := \<lparr>dt_entries = [entry_new [5] [] 4],
      dt_max_capacity = 64, dt_current_size = 33, dt_insert_count = 5, dt_dropped_count = 4,
      dt_eviction_limit = 0\<rparr>\<rparr>"
    by (simp add: five_insertions_def Let_def first ins sz) (simp add: eval_nat_numeral)
  have "dt_insert_count (dd_table example_decoder) = 1" "dd_max_table_capacity example_decoder = 64"
    by (simp_all add: example_decoder_def encoder_eval dd_new_def dd_set_max_table_capacity_def
        dd_set_table_capacity_def dd_insert_def)
  then show ?thesis
    by (simp add: e encode_required_insert_count_def dd_decode_required_insert_count_def)
      (simp add: qe_new_def)
qed

section \<open>Properties of the synchronised tables\<close>

text \<open>What the encoder still stores and the decoder has received, the decoder still stores.\<close>

lemma received_entries_kept:
  assumes "link_inv M l q td G X" "get_by_absolute_index (qe_table (ql_encoder l)) i = Some en"
    "i < dt_insert_count (dd_table (ql_decoder l))"
  shows "get_by_absolute_index (dd_table (ql_decoder l)) i = Some en"
proof -
  have d: "decoder_table M (dd_table (ql_decoder l)) G"
    and run: "run_instrs M (dd_table (ql_decoder l)) q = Some (td, X)"
    and sy: "synced (qe_table (ql_encoder l)) td (G @ X)"
    using assms(1) by (simp_all add: link_inv_def)
  have "dt_dropped_count (dd_table (ql_decoder l)) \<le> dt_dropped_count (qe_table (ql_encoder l))"
    using run_decoder [OF d run] sy by (simp add: synced_def)
  moreover have r: "dt_repr (dd_table (ql_decoder l)) G" "dt_repr (qe_table (ql_encoder l)) (G @ X)"
    using d sy by (simp_all add: decoder_table_def synced_def)
  moreover have "dt_insert_count (dd_table (ql_decoder l)) = length G" using r(1) unfolding dt_repr_def by blast
  ultimately show ?thesis
    using assms(2,3) dt.get_log [OF r(1), of i] dt.get_log [OF r(2), of i]
    by (auto simp: log_entry_append split: if_splits)
qed

text \<open>
  C18: The two dynamic tables stay in step over any fragmentation of the encoder stream, as long as the
  encoder announces no capacity below the size of the entries that it must keep (the steps exclude this:
  the code allows it, and then the tables part, \<open>capacity_below_protected\<close>).  In every state that is
  reached so, the receiver can process what has arrived without an error: it either waits for more
  bytes, changing nothing, or performs the next instruction; the decoder never knows more insertions
  than the encoder made; an entry that both store under some index is the same entry; and what the
  encoder still stores, and the decoder has received, the decoder still stores.
\<close>

theorem tables_stay_in_step:
  assumes "link_reach M l"
  shows "(\<exists>r' t' res. esr_process (ql_receiver l) (dd_table (ql_decoder l)) = (r', t', Inr res) \<and>
      (res = None \<longrightarrow> r' = ql_receiver l \<and> t' = dd_table (ql_decoder l))) \<and>
    dt_insert_count (dd_table (ql_decoder l)) \<le> dt_insert_count (qe_table (ql_encoder l)) \<and>
    (get_by_absolute_index (dd_table (ql_decoder l)) i = Some en \<and>
     get_by_absolute_index (qe_table (ql_encoder l)) i = Some en' \<longrightarrow> en = en') \<and>
    (get_by_absolute_index (qe_table (ql_encoder l)) i = Some en' \<and>
     i < dt_insert_count (dd_table (ql_decoder l)) \<longrightarrow>
     get_by_absolute_index (dd_table (ql_decoder l)) i = Some en')"
proof -
  from link_reach_inv [OF assms] obtain q td G X where inv: "link_inv M l q td G X" by blast
  then have d: "dt_repr (dd_table (ql_decoder l)) G" and e: "dt_repr (qe_table (ql_encoder l)) (G @ X)"
    by (simp_all add: link_inv_def decoder_table_def synced_def)
  have "\<exists>r' t' res. esr_process (ql_receiver l) (dd_table (ql_decoder l)) = (r', t', Inr res) \<and>
      (res = None \<longrightarrow> r' = ql_receiver l \<and> t' = dd_table (ql_decoder l))"
    using process_in_flight [OF inv] by auto
  moreover have "dt_insert_count (dd_table (ql_decoder l)) = length G"
    "dt_insert_count (qe_table (ql_encoder l)) = length (G @ X)"
    using d e unfolding dt_repr_def by blast+
  moreover have "get_by_absolute_index (dd_table (ql_decoder l)) i = Some en \<and>
     get_by_absolute_index (qe_table (ql_encoder l)) i = Some en' \<longrightarrow> en = en'"
    using dt.agree [OF d e] by blast
  ultimately show ?thesis using received_entries_kept [OF inv] by simp
qed

text \<open>
  C3: A field section that the encoder produces in a state of the exchange which is reached without
  such a capacity, and in which at most \<open>M div 32\<close> insertions are in flight (the table has the maximum
  capacity \<open>M\<close>; the code allows more, and then the decoder reads a wrong Required Insert Count,
  \<open>unacknowledged_eviction\<close>), is decoded to the same names and values; or it is reported as blocked,
  exactly if insertions that it refers to have not arrived; or it is refused, exactly if it exceeds the
  size that the decoder allows.
\<close>

theorem reachable_sections_roundtrip:
  assumes "link_reach M l" "32 \<le> M" "M < 2 ^ 62"
    and "dt_insert_count (qe_table (ql_encoder l)) < 2 ^ 62"
    and "dt_insert_count (qe_table (ql_encoder l)) \<le> dt_insert_count (dd_table (ql_decoder l)) + M div 32"
    and "list_all sendable hs"
    and "qe_encode (ql_encoder l) buf hs blocked = (e', Some (buf', n))"
  shows "snd (dd_decode (ql_decoder l) (take n buf')) =
    (if dt_insert_count (dd_table (ql_decoder l)) < qe_last_ric e' then Inr Blocked
     else if section_size hs \<le> dd_max_field_section_size (ql_decoder l)
       then Inr (Decoded (map received hs))
     else Inl DecodeFailed)"
proof -
  from link_reach_inv [OF assms(1)] obtain q td G X where inv: "link_inv M l q td G X" by blast
  then have M: "qe_max_table_capacity (ql_encoder l) = M" by (simp add: link_inv_def)
  note p = link_peers [OF inv assms(4)]
  show ?thesis
    using section_decodes [OF p(1) assms(6) _ _ _ assms(7)] p(2) assms(2,3,5) M by simp
qed

text \<open>
  Examples: the encoder announced a capacity and inserted an entry; the decoder has processed the
  capacity and has the bytes of the insertion (\<open>flying_link\<close>), or has processed both (\<open>settled_link\<close>).
\<close>

definition flying_link :: qpack_link where
  "flying_link =
    \<lparr>ql_encoder = example_encoder\<lparr>qe_peer_max_blocked_streams := 1\<rparr>,
     ql_stream = ql_stream (ql_init 64 True 1),
     ql_receiver = (ql_receiver (ql_init 64 True 1))\<lparr>esr_recv_buffer := instr_bytes (InsertWithLiteralName [1] [2])\<rparr>,
     ql_decoder = dd_set_table_capacity (dd_set_max_table_capacity dd_new 64) 64\<rparr>"

definition settled_link :: qpack_link where
  "settled_link = flying_link\<lparr>ql_receiver := ql_receiver (ql_init 64 True 1), ql_decoder := example_decoder\<rparr>"

lemma example_steps:
  "link_reach 64 flying_link" "link_reach 64 settled_link"
proof -
  let ?l = "ql_init 64 True 1"
  let ?i = "SetDynamicTableCapacity 64" and ?j = "InsertWithLiteralName [1] [2]"
  let ?e1 = "fst (qe_set_table_capacity (ql_encoder ?l) 64)"
  let ?e2 = "fst (qe_insert ?e1 [1] [2])"
  let ?e = "example_encoder\<lparr>qe_peer_max_blocked_streams := 1\<rparr>"
  let ?s1 = "(ql_stream ?l)\<lparr>es_send_buffer := instr_bytes ?i\<rparr>"
  let ?s2 = "(ql_stream ?l)\<lparr>es_send_buffer := instr_bytes ?i @ instr_bytes ?j\<rparr>"
  let ?r = "ql_receiver ?l"
  have e1: "qe_set_table_capacity (ql_encoder ?l) 64 = (?e1, Inr ())" "dt_fits (qe_table ?e1)"
    by (simp_all add: ql_init_def encoder_eval qe_set_peer_max_blocked_streams_def dt_fits_def)
  have e2: "qe_insert ?e1 [1] [2] = (?e2, Some 0)"
    by (simp add: ql_init_def encoder_eval qe_set_peer_max_blocked_streams_def)
  have e: "?e = qe_track_section ?e2 4 1" "qe_table ?e = dt_set_eviction_limit (qe_table ?e2) 1"
    "qe_max_table_capacity ?e = qe_max_table_capacity ?e2"
    by (simp_all add: ql_init_def example_encoder_def encoder_eval qe_set_peer_max_blocked_streams_def)
  have buf: "es_send_buffer (ql_stream ?l) = []" "esr_recv_buffer ?r = []" "es_max_table_capacity (ql_stream ?l) = 64"
    by (simp_all add: ql_init_def es_new_def es_set_max_table_capacity_def esr_new_def esr_set_max_table_capacity_def)
  have s1: "send_instr (ql_stream ?l) ?i = (?s1, Inr ())"
    using send_instr_bytes [of "ql_stream ?l" ?i] buf by (simp add: may_send_def)
  have s2: "send_instr ?s1 ?j = (?s2, Inr ())"
    using send_instr_bytes [of ?s1 ?j] buf by (simp add: may_send_def)
  let ?l1 = "?l\<lparr>ql_encoder := ?e1, ql_stream := ?s1\<rparr>"
  let ?l2 = "?l\<lparr>ql_encoder := ?e2, ql_stream := ?s2\<rparr>"
  let ?l3 = "?l\<lparr>ql_encoder := ?e, ql_stream := ?s2\<rparr>"
  let ?l4 = "?l\<lparr>ql_encoder := ?e, ql_receiver := ?r\<lparr>esr_recv_buffer := instr_bytes ?i @ instr_bytes ?j\<rparr>\<rparr>"
  have 1: "link_reach 64 ?l1"
    by (rule link_reach.step [OF link_reach.init LkEmit [OF EmCapacity [OF e1] _ s1]]) simp
  have "link_step ?l1 (?l1\<lparr>ql_encoder := ?e2, ql_stream := ?s2\<rparr>)"
    by (rule LkEmit [where i = ?j]) (use e2 s2 in \<open>auto intro: EmLiteral\<close>)
  with link_reach.step [OF 1] have 2: "link_reach 64 ?l2" by simp
  have l3: "?l3 = ?l2\<lparr>ql_encoder := ?e\<rparr>" by simp
  have st: "qe_step (ql_encoder ?l2) ?e" unfolding e(1) using EsTrack [of ?e2 4 1] by simp
  have 3: "link_reach 64 ?l3"
    unfolding l3 by (rule link_reach.step [OF 2 LkEncoder [OF st, of 1]]) (use e(2,3) in simp_all)
  have "link_step ?l3 ?l4"
    using LkArrive [of ?l3 "length (instr_bytes ?i @ instr_bytes ?j)"] buf
    by (simp add: esr_receive_def es_consume_data_def del: instr_bytes.simps)
      (simp add: ql_init_def es_new_def es_set_max_table_capacity_def)
  with link_reach.step [OF 3] have 4: "link_reach 64 ?l4" by simp
  let ?t = "dd_table (ql_decoder ?l)"
  have cap: "esr_max_table_capacity ?r = 64"
    by (simp add: ql_init_def esr_set_max_table_capacity_def)
  have p5: "esr_process (ql_receiver ?l4) ?t =
      (?r\<lparr>esr_recv_buffer := instr_bytes ?j\<rparr>, dt_set_capacity ?t 64, Inr (Some ?i))"
    using process_next [of ?i "ql_receiver ?l4" "instr_bytes ?j" ?t "dt_set_capacity ?t 64"] cap
    by (simp del: instr_bytes.simps)
  have l5: "flying_link = ?l4\<lparr>ql_receiver := ?r\<lparr>esr_recv_buffer := instr_bytes ?j\<rparr>,
      ql_decoder := (ql_decoder ?l4)\<lparr>dd_table := dt_set_capacity ?t 64\<rparr>\<rparr>"
    by (simp add: flying_link_def ql_init_def dd_set_table_capacity_def)
  have "link_step ?l4 flying_link" unfolding l5 by (rule LkProcess) (use p5 in simp)
  with link_reach.step [OF 4] show 5: "link_reach 64 flying_link" by simp
  obtain u k where u: "dt_insert (dd_table (ql_decoder flying_link)) [1] [2] = (u, Some k)"
    "example_decoder = (ql_decoder flying_link)\<lparr>dd_table := u\<rparr>"
    by (simp add: flying_link_def example_decoder_def encoder_eval dd_new_def dd_set_max_table_capacity_def
        dd_set_table_capacity_def dd_insert_def)
  have p6: "esr_process (ql_receiver flying_link) (dd_table (ql_decoder flying_link)) = (?r, u, Inr (Some ?j))"
    using process_next [of ?j "ql_receiver flying_link" "[]" "dd_table (ql_decoder flying_link)" u] u(1) cap buf(2)
    by (simp add: flying_link_def del: instr_bytes.simps)
  have "link_step flying_link settled_link"
    using LkProcess [OF p6] u(2) by (simp add: settled_link_def)
  with link_reach.step [OF 5] show "link_reach 64 settled_link" by simp
qed

lemma example_links:
  "ql_encoder flying_link = example_encoder\<lparr>qe_peer_max_blocked_streams := 1\<rparr>"
  "ql_encoder settled_link = example_encoder\<lparr>qe_peer_max_blocked_streams := 1\<rparr>"
  "dt_insert_count (qe_table example_encoder) = 1" "dt_insert_count (dd_table (ql_decoder flying_link)) = 0"
  "dt_insert_count (dd_table example_decoder) = 1" "ql_decoder settled_link = example_decoder"
  "dd_max_field_section_size example_decoder = 16384"
  by (simp_all add: flying_link_def settled_link_def example_encoder_def example_decoder_def encoder_eval
      dd_new_def dd_set_max_table_capacity_def dd_set_table_capacity_def dd_insert_def)

theorem tables_stay_in_step_witness:
  "link_reach 64 settled_link \<and>
    get_by_absolute_index (qe_table (ql_encoder settled_link)) 0 = Some (entry_new [1] [2] 0) \<and>
    get_by_absolute_index (dd_table (ql_decoder settled_link)) 0 = Some (entry_new [1] [2] 0) \<and>
    dt_insert_count (dd_table (ql_decoder flying_link)) = 0 \<and>
    dt_insert_count (qe_table (ql_encoder flying_link)) = 1 \<and>
    (\<exists>r' t' res. esr_process (ql_receiver flying_link) (dd_table (ql_decoder flying_link)) = (r', t', Inr res))"
proof -
  have e: "get_by_absolute_index (qe_table (ql_encoder settled_link)) 0 = Some (entry_new [1] [2] 0)"
    using example_encoder_eval(2) by (simp add: example_links)
  moreover have "get_by_absolute_index (dd_table (ql_decoder settled_link)) 0 = Some (entry_new [1] [2] 0)"
    using tables_stay_in_step [OF example_steps(2)] e by (simp add: example_links)
  moreover have "\<exists>r' t' res. esr_process (ql_receiver flying_link) (dd_table (ql_decoder flying_link)) = (r', t', Inr res)"
    using tables_stay_in_step [OF example_steps(1)] by blast
  ultimately show ?thesis using example_steps(2) by (simp add: example_links)
qed

theorem reachable_sections_roundtrip_witness:
  "\<exists>e' buf'. qe_encode (ql_encoder settled_link) (replicate 3 0) [header_from_validated_parts [1] [2]] 0 =
      (e', Some (buf', 3)) \<and> qe_last_ric e' = 1 \<and>
    snd (dd_decode (ql_decoder flying_link) (take 3 buf')) = Inr Blocked \<and>
    snd (dd_decode (ql_decoder settled_link) (take 3 buf')) = Inr (Decoded [header_from_validated_parts [1] [2]])"
proof -
  let ?h = "header_from_validated_parts [1] [2]"
  have h: "list_all sendable [?h]" "section_size [?h] = 34" "map received [?h] = [?h]"
    by (simp_all add: sendable_def section_size_def header_size_def received_def
        header_from_validated_parts_def)
  obtain e' buf' where enc: "qe_encode (example_encoder\<lparr>qe_peer_max_blocked_streams := 1\<rparr>)
      (replicate 3 0) [?h] 0 = (e', Some (buf', 3))" and r: "qe_last_ric e' = 1"
    using example_section by blast
  have "snd (dd_decode (ql_decoder flying_link) (take 3 buf')) = Inr Blocked"
    using reachable_sections_roundtrip [OF example_steps(1) _ _ _ _ h(1), of "replicate 3 0" 0 e' buf' 3] enc r
    by (simp add: example_links)
  moreover have "snd (dd_decode (ql_decoder settled_link) (take 3 buf')) = Inr (Decoded [?h])"
    using reachable_sections_roundtrip [OF example_steps(2) _ _ _ _ h(1), of "replicate 3 0" 0 e' buf' 3] enc r h
    by (simp add: example_links)
  ultimately show ?thesis using enc r by (auto simp: example_links)
qed

end
