(* ===== verification/Streams.thy ===== *)
theory Streams
  imports Frame
begin

text \<open>
  Stream kinds, stream states and the two byte buffers of a stream (\<^verbatim>\<open>src/stream/mod.rs\<close>), and the
  roles of a connection.  Both buffers implement the interface \<open>byte_queue\<close>: bytes come out in the
  order in which they went in, whatever the buffer does with its storage.
\<close>

section \<open>Kinds of streams\<close>

datatype role = Client | Server

datatype uni_stream_type = UniControl | UniPush | UniQpackEncoder | UniQpackDecoder | UniWebTransport

definition uni_stream_type_from_type :: "u64 \<Rightarrow> uni_stream_type option" where
  "uni_stream_type_from_type t =
    (if t = 0x00 then Some UniControl
     else if t = 0x01 then Some UniPush
     else if t = 0x02 then Some UniQpackEncoder
     else if t = 0x03 then Some UniQpackDecoder
     else if t = 0x54 then Some UniWebTransport
     else None)"

definition uni_type_is_reserved :: "u64 \<Rightarrow> bool" where
  "uni_type_is_reserved t \<longleftrightarrow> 0x21 \<le> t \<and> (t - 0x21) mod 0x1f = 0"

datatype stream_kind = ClientBidi | ServerBidi | ClientUni | ServerUni

definition kind_from_stream_id :: "u64 \<Rightarrow> stream_kind" where
  "kind_from_stream_id stream_id =
    (let b = stream_id AND 0x03 in
     if b = 0x00 then ClientBidi
     else if b = 0x01 then ServerBidi
     else if b = 0x02 then ClientUni
     else ServerUni)"

fun kind_is_bidirectional :: "stream_kind \<Rightarrow> bool" where
  "kind_is_bidirectional k \<longleftrightarrow> k = ClientBidi \<or> k = ServerBidi"

fun kind_is_unidirectional :: "stream_kind \<Rightarrow> bool" where
  "kind_is_unidirectional k \<longleftrightarrow> k = ClientUni \<or> k = ServerUni"

fun kind_is_client_initiated :: "stream_kind \<Rightarrow> bool" where
  "kind_is_client_initiated k \<longleftrightarrow> k = ClientBidi \<or> k = ClientUni"

fun kind_is_server_initiated :: "stream_kind \<Rightarrow> bool" where
  "kind_is_server_initiated k \<longleftrightarrow> k = ServerBidi \<or> k = ServerUni"

lemma and_3: "n AND 3 = n mod (4 :: nat)"
  using nat_and_mask [of n 2] by simp

lemma kind_from_stream_id_mod:
  "kind_from_stream_id n =
    (if n mod 4 = 0 then ClientBidi else if n mod 4 = 1 then ServerBidi
     else if n mod 4 = 2 then ClientUni else ServerUni)"
  by (simp add: kind_from_stream_id_def and_3)

lemma kind_from_stream_id_range:
  "\<exists>r < 4. n AND 0x03 = (r :: nat)" "n AND 0x03 \<notin> {0, 1, 2} \<Longrightarrow> n AND 0x03 = (3 :: nat)"
  unfolding and_3 by auto

section \<open>Stream states\<close>

datatype stream_state = SsOpen | SsLocalClosed | SsRemoteClosed | SsClosed | SsReset

fun close_local :: "stream_state \<Rightarrow> stream_state" where
  "close_local SsOpen = SsLocalClosed"
| "close_local SsRemoteClosed = SsClosed"
| "close_local other = other"

fun close_remote :: "stream_state \<Rightarrow> stream_state" where
  "close_remote SsOpen = SsRemoteClosed"
| "close_remote SsLocalClosed = SsClosed"
| "close_remote other = other"

definition state_reset :: "stream_state \<Rightarrow> stream_state" where
  "state_reset s = SsReset"

definition is_reset :: "stream_state \<Rightarrow> bool" where
  "is_reset s \<longleftrightarrow> s = SsReset"

definition can_send :: "stream_state \<Rightarrow> bool" where
  "can_send s \<longleftrightarrow> s = SsOpen \<or> s = SsRemoteClosed"

definition can_receive :: "stream_state \<Rightarrow> bool" where
  "can_receive s \<longleftrightarrow> s = SsOpen \<or> s = SsLocalClosed"

lemma close_commute: "close_local (close_remote s) = close_remote (close_local s)"
  by (cases s) simp_all

lemma close_cannot [simp]:
  "\<not> can_send (close_local s)" "\<not> can_receive (close_remote s)"
  "can_send (close_remote s) \<longleftrightarrow> can_send s" "can_receive (close_local s) \<longleftrightarrow> can_receive s"
  by (cases s; simp add: can_send_def can_receive_def)+

section \<open>Buffers\<close>

text \<open>
  A panic of \<^verbatim>\<open>drain\<close> (more bytes consumed than there are) is \<open>None\<close>.
\<close>

record send_buffer =
  sb_data :: bytes
  sb_consumed :: usize
  sb_fin :: bool
  sb_fin_sent :: bool

definition sb_new :: send_buffer where
  "sb_new = \<lparr>sb_data = [], sb_consumed = 0, sb_fin = False, sb_fin_sent = False\<rparr>"

definition sb_push :: "send_buffer \<Rightarrow> bytes \<Rightarrow> send_buffer" where
  "sb_push b data = b\<lparr>sb_data := sb_data b @ data\<rparr>"

definition sb_set_fin :: "send_buffer \<Rightarrow> send_buffer" where
  "sb_set_fin b = b\<lparr>sb_fin := True\<rparr>"

definition sb_peek :: "send_buffer \<Rightarrow> bytes" where
  "sb_peek b = drop (sb_consumed b) (sb_data b)"

definition sb_consume :: "send_buffer \<Rightarrow> usize \<Rightarrow> send_buffer option" where
  "sb_consume b len =
    (let b = b\<lparr>sb_consumed := sb_consumed b + len\<rparr> in
     if length (sb_data b) div 2 \<le> sb_consumed b then
       if length (sb_data b) < sb_consumed b then None
       else Some (b\<lparr>sb_data := drop (sb_consumed b) (sb_data b), sb_consumed := 0\<rparr>)
     else Some b)"

definition sb_discard :: "send_buffer \<Rightarrow> send_buffer" where
  "sb_discard b = b\<lparr>sb_data := [], sb_consumed := 0, sb_fin := False, sb_fin_sent := False\<rparr>"

definition sb_has_pending :: "send_buffer \<Rightarrow> bool" where
  "sb_has_pending b \<longleftrightarrow> sb_consumed b < length (sb_data b) \<or> (sb_fin b \<and> \<not> sb_fin_sent b)"

definition sb_is_data_consumed :: "send_buffer \<Rightarrow> bool" where
  "sb_is_data_consumed b \<longleftrightarrow> length (sb_data b) \<le> sb_consumed b"

definition sb_mark_fin_sent :: "send_buffer \<Rightarrow> send_buffer" where
  "sb_mark_fin_sent b = b\<lparr>sb_fin_sent := True\<rparr>"

definition sb_is_complete :: "send_buffer \<Rightarrow> bool" where
  "sb_is_complete b \<longleftrightarrow> length (sb_data b) \<le> sb_consumed b \<and> sb_fin b \<and> sb_fin_sent b"

record recv_buffer =
  rb_data :: bytes
  rb_consumed :: usize
  rb_fin :: bool

definition rb_new :: recv_buffer where
  "rb_new = \<lparr>rb_data = [], rb_consumed = 0, rb_fin = False\<rparr>"

definition rb_push :: "recv_buffer \<Rightarrow> bytes \<Rightarrow> recv_buffer" where
  "rb_push b data = b\<lparr>rb_data := rb_data b @ data\<rparr>"

definition rb_set_fin :: "recv_buffer \<Rightarrow> recv_buffer" where
  "rb_set_fin b = b\<lparr>rb_fin := True\<rparr>"

definition rb_peek :: "recv_buffer \<Rightarrow> bytes" where
  "rb_peek b = drop (rb_consumed b) (rb_data b)"

definition rb_consume :: "recv_buffer \<Rightarrow> usize \<Rightarrow> recv_buffer option" where
  "rb_consume b len =
    (let b = b\<lparr>rb_consumed := rb_consumed b + len\<rparr> in
     if length (rb_data b) div 2 \<le> rb_consumed b then
       if length (rb_data b) < rb_consumed b then None
       else Some (b\<lparr>rb_data := drop (rb_consumed b) (rb_data b), rb_consumed := 0\<rparr>)
     else Some b)"

definition rb_has_data :: "recv_buffer \<Rightarrow> bool" where
  "rb_has_data b \<longleftrightarrow> rb_consumed b < length (rb_data b)"

definition rb_is_complete :: "recv_buffer \<Rightarrow> bool" where
  "rb_is_complete b \<longleftrightarrow> \<not> rb_has_data b \<and> rb_fin b"

section \<open>The interface of a byte queue\<close>

locale byte_queue =
  fixes inv :: "'q \<Rightarrow> bool"
    and view :: "'q \<Rightarrow> bytes"
    and push :: "'q \<Rightarrow> bytes \<Rightarrow> 'q"
    and consume :: "'q \<Rightarrow> usize \<Rightarrow> 'q option"
  assumes push_inv: "inv q \<Longrightarrow> inv (push q bs)"
    and push_view: "inv q \<Longrightarrow> view (push q bs) = view q @ bs"
    and consume_Some: "inv q \<Longrightarrow> n \<le> length (view q) \<Longrightarrow>
      \<exists>q'. consume q n = Some q' \<and> inv q' \<and> view q' = drop n (view q)"
    and consume_None: "inv q \<Longrightarrow> length (view q) < n \<Longrightarrow> consume q n = None"
begin

lemma consume_the:
  assumes "inv q" "n \<le> length (view q)"
  shows "consume q n = Some (the (consume q n))" "inv (the (consume q n))"
    "view (the (consume q n)) = drop n (view q)"
  using consume_Some [OF assms] by auto

lemma consume_iff: "inv q \<Longrightarrow> consume q n = None \<longleftrightarrow> length (view q) < n"
  using consume_Some [of q n] consume_None [of q n] by (cases "length (view q) < n") auto

fun push_all :: "'q \<Rightarrow> bytes list \<Rightarrow> 'q" where
  "push_all q [] = q"
| "push_all q (b # bs) = push_all (push q b) bs"

lemma push_all_view: "inv q \<Longrightarrow> inv (push_all q bs) \<and> view (push_all q bs) = view q @ concat bs"
  by (induction bs arbitrary: q) (simp_all add: push_inv push_view)

text \<open>Only the bytes matter: pushing in pieces and consuming in pieces commute.\<close>

lemma consume_consume:
  assumes "inv q" "consume q n = Some q1" "consume q1 m = Some q2"
  shows "inv q2 \<and> view q2 = drop (n + m) (view q) \<and> n + m \<le> length (view q)"
proof -
  have n: "n \<le> length (view q)" using assms(2) consume_iff [OF assms(1), of n] by auto
  with consume_Some [OF assms(1) n] assms(2) have q1: "inv q1" "view q1 = drop n (view q)" by auto
  then have m: "m \<le> length (view q1)" using assms(3) consume_iff [OF q1(1), of m] by auto
  with consume_Some [OF q1(1) m] assms(3) q1 n show ?thesis by (auto simp: add.commute)
qed

lemma push_consume:
  assumes "inv q" "n \<le> length (view q)"
  shows "view (the (consume (push q bs) n)) = view (push (the (consume q n)) bs)"
  using assms consume_the [of "push q bs" n] consume_the [OF assms] push_inv push_view by simp

end

definition sb_inv :: "send_buffer \<Rightarrow> bool" where
  "sb_inv b \<longleftrightarrow> sb_consumed b \<le> length (sb_data b)"

definition rb_inv :: "recv_buffer \<Rightarrow> bool" where
  "rb_inv b \<longleftrightarrow> rb_consumed b \<le> length (rb_data b)"

interpretation sbq: byte_queue sb_inv sb_peek sb_push sb_consume
  by unfold_locales
    (auto simp: sb_inv_def sb_peek_def sb_push_def sb_consume_def Let_def add.commute)

interpretation rbq: byte_queue rb_inv rb_peek rb_push rb_consume
  by unfold_locales
    (auto simp: rb_inv_def rb_peek_def rb_push_def rb_consume_def Let_def add.commute)

lemma buffer_new [simp]: "sb_inv sb_new" "sb_peek sb_new = []" "rb_inv rb_new" "rb_peek rb_new = []"
  "\<not> sb_fin sb_new" "\<not> rb_fin rb_new"
  by (simp_all add: sb_inv_def sb_peek_def sb_new_def rb_inv_def rb_peek_def rb_new_def)

lemma buffer_frame [simp]:
  "rb_fin (rb_push b d) = rb_fin b" "sb_fin (sb_push c d) = sb_fin c" "sb_fin_sent (sb_push c d) = sb_fin_sent c"
  "rb_peek (rb_set_fin b) = rb_peek b" "rb_inv (rb_set_fin b) = rb_inv b" "rb_fin (rb_set_fin b)"
  "sb_peek (sb_set_fin c) = sb_peek c" "sb_inv (sb_set_fin c) = sb_inv c" "sb_fin (sb_set_fin c)"
  "sb_fin_sent (sb_set_fin c) = sb_fin_sent c"
  by (simp_all add: rb_push_def sb_push_def rb_set_fin_def sb_set_fin_def rb_peek_def sb_peek_def
      rb_inv_def sb_inv_def)

lemma consume_fin:
  "rb_consume b n = Some b' \<Longrightarrow> rb_fin b' = rb_fin b"
  "sb_consume c n = Some c' \<Longrightarrow> sb_fin c' = sb_fin c \<and> sb_fin_sent c' = sb_fin_sent c"
  by (auto simp: rb_consume_def sb_consume_def Let_def split: if_splits)

lemma buffer_tests:
  "rb_has_data b \<longleftrightarrow> rb_peek b \<noteq> []"
  "sb_is_data_consumed c \<longleftrightarrow> sb_peek c = []"
  "sb_has_pending c \<longleftrightarrow> sb_peek c \<noteq> [] \<or> sb_fin c \<and> \<not> sb_fin_sent c"
  "sb_is_complete c \<longleftrightarrow> sb_peek c = [] \<and> sb_fin c \<and> sb_fin_sent c"
  by (auto simp: rb_has_data_def rb_peek_def sb_is_data_consumed_def sb_peek_def sb_has_pending_def
      sb_is_complete_def)

lemma sb_discard_facts [simp]:
  "sb_inv (sb_discard c)" "sb_peek (sb_discard c) = []" "\<not> sb_has_pending (sb_discard c)"
  by (simp_all add: sb_discard_def sb_inv_def sb_peek_def sb_has_pending_def)

section \<open>Properties of the buffers\<close>

text \<open>
  A send buffer is a byte queue.  After any pushes, what is offered is what was there followed
  by the pushed bytes in order; consuming \<open>n\<close> bytes fails exactly when there are fewer, and
  otherwise leaves exactly the rest, with the FIN marks untouched.
\<close>

lemma send_buffer_is_queue:
  assumes "sb_inv b"
  shows "sb_peek (fold (\<lambda>d b. sb_push b d) ds b) = sb_peek b @ concat ds \<and>
    (case sb_consume b n of
       None \<Rightarrow> length (sb_peek b) < n
     | Some b' \<Rightarrow> n \<le> length (sb_peek b) \<and> sb_inv b' \<and> sb_peek b' = drop n (sb_peek b) \<and>
         sb_fin b' = sb_fin b \<and> sb_fin_sent b' = sb_fin_sent b)"
proof -
  have "sb_peek (fold (\<lambda>d b. sb_push b d) ds b) = sb_peek b @ concat ds" if "sb_inv b" for b
    using that by (induction ds arbitrary: b) (simp_all add: sbq.push_inv sbq.push_view)
  moreover have "case sb_consume b n of
       None \<Rightarrow> length (sb_peek b) < n
     | Some b' \<Rightarrow> n \<le> length (sb_peek b) \<and> sb_inv b' \<and> sb_peek b' = drop n (sb_peek b) \<and>
         sb_fin b' = sb_fin b \<and> sb_fin_sent b' = sb_fin_sent b"
    using sbq.consume_iff [OF assms, of n] sbq.consume_the [OF assms, of n] consume_fin(2) [of b n]
    by (cases "sb_consume b n") (auto simp: not_less)
  ultimately show ?thesis using assms by blast
qed

end
