(* ===== verification/Utf8.thy ===== *)
theory Utf8
  imports Prelude
begin

text \<open>
  The part of the standard library's UTF-8 that the program uses: \<^verbatim>\<open>String::from_utf8\<close> as a test
  of well-formed byte sequences (Unicode, Table 3-7) and \<^verbatim>\<open>str::is_char_boundary\<close>.  A string of the
  program is modelled by its bytes, which are well formed.
\<close>

definition is_cont :: "u8 \<Rightarrow> bool" where
  "is_cont b \<longleftrightarrow> 0x80 \<le> b \<and> b \<le> 0xbf"

text \<open>The second byte is restricted further after some first bytes.\<close>

definition second_ok :: "u8 \<Rightarrow> u8 \<Rightarrow> bool" where
  "second_ok b c \<longleftrightarrow>
    (if b = 0xe0 then 0xa0 \<le> c \<and> c \<le> 0xbf
     else if b = 0xed then 0x80 \<le> c \<and> c \<le> 0x9f
     else if b = 0xf0 then 0x90 \<le> c \<and> c \<le> 0xbf
     else if b = 0xf4 then 0x80 \<le> c \<and> c \<le> 0x8f
     else is_cont c)"

text \<open>The number of bytes of the first character.\<close>

fun char_len :: "bytes \<Rightarrow> nat option" where
  "char_len [] = None"
| "char_len (b # bs) =
    (if b < 0x80 then Some 1
     else if 0xc2 \<le> b \<and> b \<le> 0xdf then
       (case bs of c # _ \<Rightarrow> if is_cont c then Some 2 else None | _ \<Rightarrow> None)
     else if 0xe0 \<le> b \<and> b \<le> 0xef then
       (case bs of c # d # _ \<Rightarrow> if second_ok b c \<and> is_cont d then Some 3 else None | _ \<Rightarrow> None)
     else if 0xf0 \<le> b \<and> b \<le> 0xf4 then
       (case bs of c # d # e # _ \<Rightarrow> if second_ok b c \<and> is_cont d \<and> is_cont e then Some 4 else None
        | _ \<Rightarrow> None)
     else None)"

lemma second_ok_cont: "second_ok b c \<Longrightarrow> is_cont c"
  by (auto simp: second_ok_def is_cont_def word_le_nat_alt split: if_splits)

lemma char_len_bounds: "char_len bs = Some n \<Longrightarrow> 1 \<le> n \<and> n \<le> 4 \<and> n \<le> length bs"
  by (cases bs) (auto split: if_splits list.splits)

function utf8_valid :: "bytes \<Rightarrow> bool" where
  "utf8_valid bs =
    (if bs = [] then True
     else case char_len bs of None \<Rightarrow> False | Some n \<Rightarrow> utf8_valid (drop n bs))"
  by pat_completeness auto
termination
  by (relation "measure length") (use char_len_bounds in fastforce)+

declare utf8_valid.simps [simp del]

definition is_char_boundary :: "bytes \<Rightarrow> nat \<Rightarrow> bool" where
  "is_char_boundary s i \<longleftrightarrow>
    (if i = 0 then True
     else if length s \<le> i then i = length s
     else s ! i < 0x80 \<or> 0xc0 \<le> s ! i)"

lemma cont_no_boundary: "is_cont b \<Longrightarrow> \<not> (b < 0x80 \<or> 0xc0 \<le> b)"
  by (auto simp: is_cont_def word_le_nat_alt word_less_nat_alt)

lemma char_len_inner:
  "char_len bs = Some n \<Longrightarrow> 0 < i \<Longrightarrow> i < n \<Longrightarrow> is_cont (bs ! i)"
  using second_ok_cont
  by (cases bs)
    (auto split: if_splits list.splits simp: numeral_eq_Suc less_Suc_eq nth_Cons')

lemma char_len_take: "char_len bs = Some n \<Longrightarrow> n \<le> k \<Longrightarrow> char_len (take k bs) = Some n"
  by (cases bs)
    (auto split: if_splits list.splits simp: numeral_eq_Suc take_Cons' Suc_le_eq not_less_eq_eq)

lemma utf8_valid_Nil [simp]: "utf8_valid []"
  by (simp add: utf8_valid.simps)

lemma utf8_valid_first:
  assumes "utf8_valid bs" "bs \<noteq> []"
  obtains n where "char_len bs = Some n" "utf8_valid (drop n bs)"
  using assms by (subst (asm) (1) utf8_valid.simps) (auto split: option.splits)

lemma char_len_append: "char_len bs = Some n \<Longrightarrow> char_len (bs @ cs) = Some n"
  by (cases bs) (auto split: if_splits list.splits)

lemma utf8_valid_append: "utf8_valid bs \<Longrightarrow> utf8_valid cs \<Longrightarrow> utf8_valid (bs @ cs)"
proof (induction bs rule: utf8_valid.induct)
  case (1 bs)
  show ?case
  proof (cases "bs = []")
    case False
    from utf8_valid_first [OF 1(2) this] obtain n where n: "char_len bs = Some n" "utf8_valid (drop n bs)" .
    have "utf8_valid (drop n bs @ cs)" by (rule "1.IH" [OF False n(1) n(2) 1(3)])
    then show ?thesis using char_len_append [OF n(1), of cs] char_len_bounds [OF n(1)] False
      by (subst utf8_valid.simps) simp
  qed (use 1 in simp)
qed

lemma utf8_valid_ascii: "\<forall>b \<in> set bs. b < 0x80 \<Longrightarrow> utf8_valid bs"
proof (induction bs)
  case (Cons b bs)
  then show ?case by (subst utf8_valid.simps) simp
qed simp

text \<open>A well-formed string cut at a character boundary is well formed.\<close>

lemma utf8_valid_take:
  assumes "utf8_valid bs" "k \<le> length bs" "is_char_boundary bs k"
  shows "utf8_valid (take k bs)"
  using assms
proof (induction "length bs" arbitrary: bs k rule: less_induct)
  case less
  show ?case
  proof (cases "k = 0 \<or> bs = []")
    case False
    then obtain n where n: "char_len bs = Some n" "utf8_valid (drop n bs)"
      using utf8_valid_first [OF less.prems(1)] by blast
    note b = char_len_bounds [OF n(1)]
    have nk: "n \<le> k"
    proof (rule ccontr)
      assume "\<not> n \<le> k"
      with False b have "is_cont (bs ! k)" "k < length bs" using char_len_inner [OF n(1), of k] by auto
      with cont_no_boundary less.prems(3) False show False by (auto simp: is_char_boundary_def)
    qed
    have "is_char_boundary (drop n bs) (k - n)"
      using less.prems(2,3) nk False b by (auto simp: is_char_boundary_def)
    moreover have "length (drop n bs) < length bs" "k - n \<le> length (drop n bs)"
      using b less.prems(2) nk by auto
    ultimately have "utf8_valid (take (k - n) (drop n bs))" using less.hyps n(2) by blast
    with char_len_take [OF n(1) nk] False show ?thesis
      by (subst utf8_valid.simps) (simp add: take_drop nk)
  qed auto
qed

text \<open>A boundary is never more than three bytes away.\<close>

lemma boundary_near:
  assumes "utf8_valid bs" "k \<le> length bs"
  shows "\<exists>j. j \<le> k \<and> k \<le> j + 3 \<and> is_char_boundary bs j"
  using assms
proof (induction "length bs" arbitrary: bs k rule: less_induct)
  case less
  show ?case
  proof (cases "k = 0 \<or> bs = []")
    case True
    then show ?thesis using less.prems(2) by (intro exI [of _ 0]) (auto simp: is_char_boundary_def)
  next
    case False
    then obtain n where n: "char_len bs = Some n" "utf8_valid (drop n bs)"
      using utf8_valid_first [OF less.prems(1)] by blast
    note b = char_len_bounds [OF n(1)]
    show ?thesis
    proof (cases "k < n")
      case True
      with b show ?thesis by (intro exI [of _ 0]) (auto simp: is_char_boundary_def)
    next
      case nk: False
      have "length (drop n bs) < length bs" "k - n \<le> length (drop n bs)"
        using b less.prems(2) nk by auto
      with less.hyps n(2) obtain j where j: "j \<le> k - n" "k - n \<le> j + 3" "is_char_boundary (drop n bs) j"
        by blast
      show ?thesis
      proof (cases "j = 0")
        case True
        have "is_char_boundary bs n"
        proof (cases "n = length bs")
          case False
          then obtain m where "char_len (drop n bs) = Some m"
            using n(2) b by (auto simp: utf8_valid.simps [of "drop n bs"] split: option.splits)
          then have "(drop n bs) ! 0 < 0x80 \<or> 0xc0 \<le> (drop n bs) ! 0"
            by (cases "drop n bs") (auto split: if_splits simp: word_le_nat_alt)
          with b False show ?thesis by (auto simp: is_char_boundary_def)
        qed (simp add: is_char_boundary_def)
        with j nk True show ?thesis by (intro exI [of _ n]) auto
      next
        case False
        with j nk b less.prems(2) show ?thesis
          by (intro exI [of _ "n + j"]) (auto simp: is_char_boundary_def split: if_splits)
      qed
    qed
  qed
qed

end
