(* ===== verification/Capsule.thy ===== *)
theory Capsule
  imports Streams Utf8
begin

text \<open>
  The capsules of a WebTransport session (\<^verbatim>\<open>src/webtransport/capsule.rs\<close>).  A panic of the
  encoder on a value outside the range of a variable-length integer is \<open>None\<close>; \<open>wf_capsule\<close> is the
  range that rules it out.
\<close>

section \<open>Capsules\<close>

definition MAX_STREAMS_LIMIT :: u64 where
  "MAX_STREAMS_LIMIT = 2 ^ 60"

definition MAX_CLOSE_SESSION_MESSAGE_LEN :: usize where
  "MAX_CLOSE_SESSION_MESSAGE_LEN = 1024"

datatype capsule_decode_error = Malformed

datatype capsule_validation_error =
  MaxStreamsExceedsLimit | MaxStreamsDecreased | MaxDataExceedsLimit | MaxDataDecreased

definition PROHIBITED_WT_MAX_STREAM_DATA_CAPSULE_TYPE :: u64 where
  "PROHIBITED_WT_MAX_STREAM_DATA_CAPSULE_TYPE = 0x190B4D3E"

definition PROHIBITED_WT_STREAM_DATA_BLOCKED_CAPSULE_TYPE :: u64 where
  "PROHIBITED_WT_STREAM_DATA_BLOCKED_CAPSULE_TYPE = 0x190B4D42"

datatype capsule_type =
  CtCloseSession | CtDrainSession | CtMaxData | CtMaxStreamsBidi | CtMaxStreamsUni | CtDataBlocked
| CtStreamsBlockedBidi | CtStreamsBlockedUni

fun capsule_type_code :: "capsule_type \<Rightarrow> u64" where
  "capsule_type_code CtCloseSession = 0x2843"
| "capsule_type_code CtDrainSession = 0x78ae"
| "capsule_type_code CtMaxData = 0x190B4D3D"
| "capsule_type_code CtMaxStreamsBidi = 0x190B4D3F"
| "capsule_type_code CtMaxStreamsUni = 0x190B4D40"
| "capsule_type_code CtDataBlocked = 0x190B4D41"
| "capsule_type_code CtStreamsBlockedBidi = 0x190B4D43"
| "capsule_type_code CtStreamsBlockedUni = 0x190B4D44"

definition capsule_type_from_type :: "u64 \<Rightarrow> capsule_type option" where
  "capsule_type_from_type t =
    (if t = 0x2843 then Some CtCloseSession
     else if t = 0x78ae then Some CtDrainSession
     else if t = 0x190B4D3D then Some CtMaxData
     else if t = 0x190B4D3F then Some CtMaxStreamsBidi
     else if t = 0x190B4D40 then Some CtMaxStreamsUni
     else if t = 0x190B4D41 then Some CtDataBlocked
     else if t = 0x190B4D43 then Some CtStreamsBlockedBidi
     else if t = 0x190B4D44 then Some CtStreamsBlockedUni
     else None)"

text \<open>The message of \<open>CloseSession\<close> is a string, given by its bytes.\<close>

datatype capsule =
    CloseSession u32 bytes
  | DrainSession
  | MaxData u64
  | MaxStreams bool u64
  | DataBlocked u64
  | StreamsBlocked bool u64
  | UnknownCapsule u64 bytes

fun capsule_type_of :: "capsule \<Rightarrow> u64" where
  "capsule_type_of (CloseSession _ _) = capsule_type_code CtCloseSession"
| "capsule_type_of DrainSession = capsule_type_code CtDrainSession"
| "capsule_type_of (MaxData _) = capsule_type_code CtMaxData"
| "capsule_type_of (MaxStreams bidirectional _) =
    (if bidirectional then capsule_type_code CtMaxStreamsBidi else capsule_type_code CtMaxStreamsUni)"
| "capsule_type_of (DataBlocked _) = capsule_type_code CtDataBlocked"
| "capsule_type_of (StreamsBlocked bidirectional _) =
    (if bidirectional then capsule_type_code CtStreamsBlockedBidi else capsule_type_code CtStreamsBlockedUni)"
| "capsule_type_of (UnknownCapsule t _) = t"

definition is_prohibited_in_http3_type :: "u64 \<Rightarrow> bool" where
  "is_prohibited_in_http3_type t \<longleftrightarrow>
    t = PROHIBITED_WT_MAX_STREAM_DATA_CAPSULE_TYPE \<or> t = PROHIBITED_WT_STREAM_DATA_BLOCKED_CAPSULE_TYPE"

definition is_prohibited_in_http3 :: "capsule \<Rightarrow> bool" where
  "is_prohibited_in_http3 c = is_prohibited_in_http3_type (capsule_type_of c)"

fun is_flow_control :: "capsule \<Rightarrow> bool" where
  "is_flow_control (MaxData _) = True"
| "is_flow_control (MaxStreams _ _) = True"
| "is_flow_control (DataBlocked _) = True"
| "is_flow_control (StreamsBlocked _ _) = True"
| "is_flow_control _ = False"

definition validate_max_streams :: "u64 \<Rightarrow> u64 \<Rightarrow> capsule_validation_error + unit" where
  "validate_max_streams maximum current_max =
    (if MAX_STREAMS_LIMIT < maximum then Inl MaxStreamsExceedsLimit
     else if maximum \<le> current_max then Inl MaxStreamsDecreased
     else Inr ())"

definition validate_max_data :: "u64 \<Rightarrow> u64 \<Rightarrow> capsule_validation_error + unit" where
  "validate_max_data maximum current_max =
    (if vget VARINT_MAX < maximum then Inl MaxDataExceedsLimit
     else if maximum \<le> current_max then Inl MaxDataDecreased
     else Inr ())"

section \<open>Encoding\<close>

definition capsule_encode_varint :: "bytes \<Rightarrow> u64 \<Rightarrow> bytes option" where
  "capsule_encode_varint buf v = map_option (encode_into_vec buf) (result_ok (varint_new v))"

definition capsule_varint_encoded_len :: "u64 \<Rightarrow> usize option" where
  "capsule_varint_encoded_len v = map_option encoded_len (result_ok (varint_new v))"

definition encode_capsule_header :: "bytes \<Rightarrow> u64 \<Rightarrow> usize \<Rightarrow> bytes option" where
  "encode_capsule_header buf t n = do {
     buf \<leftarrow> capsule_encode_varint buf t;
     capsule_encode_varint buf n
   }"

text \<open>The loop of \<^verbatim>\<open>truncate_close_session_message\<close>.\<close>

fun boundary_before :: "bytes \<Rightarrow> nat \<Rightarrow> nat" where
  "boundary_before message 0 = 0"
| "boundary_before message (Suc n) =
    (if \<not> is_char_boundary message (Suc n) then boundary_before message n else Suc n)"

definition truncate_close_session_message :: "bytes \<Rightarrow> bytes" where
  "truncate_close_session_message message =
    (if length message \<le> MAX_CLOSE_SESSION_MESSAGE_LEN then message
     else take (boundary_before message MAX_CLOSE_SESSION_MESSAGE_LEN) message)"

definition encode_maximum :: "bytes \<Rightarrow> u64 \<Rightarrow> u64 \<Rightarrow> bytes option" where
  "encode_maximum buf t maximum = do {
     payload_len \<leftarrow> capsule_varint_encoded_len maximum;
     buf \<leftarrow> encode_capsule_header buf t payload_len;
     capsule_encode_varint buf maximum
   }"

fun capsule_encode :: "capsule \<Rightarrow> bytes \<Rightarrow> bytes option" where
  "capsule_encode (CloseSession error_code message) buf =
    (let message_bytes = truncate_close_session_message message in do {
       buf \<leftarrow> encode_capsule_header buf (capsule_type_code CtCloseSession) (4 + length message_bytes);
       let buf = buf @ to_be_bytes 4 error_code;
       Some (buf @ message_bytes)
     })"
| "capsule_encode DrainSession buf = encode_capsule_header buf (capsule_type_code CtDrainSession) 0"
| "capsule_encode (MaxData maximum) buf = encode_maximum buf (capsule_type_code CtMaxData) maximum"
| "capsule_encode (MaxStreams bidirectional maximum) buf =
    encode_maximum buf
      (if bidirectional then capsule_type_code CtMaxStreamsBidi else capsule_type_code CtMaxStreamsUni) maximum"
| "capsule_encode (DataBlocked maximum) buf = encode_maximum buf (capsule_type_code CtDataBlocked) maximum"
| "capsule_encode (StreamsBlocked bidirectional maximum) buf =
    encode_maximum buf
      (if bidirectional then capsule_type_code CtStreamsBlockedBidi else capsule_type_code CtStreamsBlockedUni)
      maximum"
| "capsule_encode (UnknownCapsule t payload) buf =
    map_option (\<lambda>buf. buf @ payload) (encode_capsule_header buf t (length payload))"

definition encode_as_data_frame :: "capsule \<Rightarrow> bytes \<Rightarrow> bytes option" where
  "encode_as_data_frame c buf = do {
     capsule_bytes \<leftarrow> capsule_encode c [];
     let buf = encode_into_vec buf VARINT_ZERO;
     buf \<leftarrow> capsule_encode_varint buf (length capsule_bytes);
     Some (buf @ capsule_bytes)
   }"

section \<open>Decoding\<close>

definition capsule_decode_varint :: "bytes \<Rightarrow> (u64 \<times> usize) option" where
  "capsule_decode_varint buf = map_option (\<lambda>(v, n). (vget v, n)) (result_ok (varint_decode buf))"

definition decode_exact_varint :: "bytes \<Rightarrow> capsule_decode_error + u64" where
  "decode_exact_varint payload =
    bindR (ok_or (capsule_decode_varint payload) Malformed) (\<lambda>(v, consumed).
      if consumed \<noteq> length payload then Inl Malformed else Inr v)"

definition decode_payload :: "u64 \<Rightarrow> bytes \<Rightarrow> capsule_decode_error + capsule" where
  "decode_payload t payload =
    (case capsule_type_from_type t of
       Some CtCloseSession \<Rightarrow>
         if length payload < 4 then Inl Malformed
         else
           let error_code = from_be_bytes (take 4 payload); message_bytes = drop 4 payload in
           if MAX_CLOSE_SESSION_MESSAGE_LEN < length message_bytes then Inl Malformed
           else if utf8_valid message_bytes then Inr (CloseSession error_code message_bytes)
           else Inl Malformed
     | Some CtDrainSession \<Rightarrow> if payload \<noteq> [] then Inl Malformed else Inr DrainSession
     | Some CtMaxData \<Rightarrow> bindR (decode_exact_varint payload) (\<lambda>m. Inr (MaxData m))
     | Some CtMaxStreamsBidi \<Rightarrow> bindR (decode_exact_varint payload) (\<lambda>m. Inr (MaxStreams True m))
     | Some CtMaxStreamsUni \<Rightarrow> bindR (decode_exact_varint payload) (\<lambda>m. Inr (MaxStreams False m))
     | Some CtDataBlocked \<Rightarrow> bindR (decode_exact_varint payload) (\<lambda>m. Inr (DataBlocked m))
     | Some CtStreamsBlockedBidi \<Rightarrow> bindR (decode_exact_varint payload) (\<lambda>m. Inr (StreamsBlocked True m))
     | Some CtStreamsBlockedUni \<Rightarrow> bindR (decode_exact_varint payload) (\<lambda>m. Inr (StreamsBlocked False m))
     | None \<Rightarrow> Inr (UnknownCapsule t payload))"

text \<open>\<open>Inr None\<close> is \<^verbatim>\<open>Ok(None)\<close>: more bytes are needed.\<close>

definition capsule_decode :: "bytes \<Rightarrow> capsule_decode_error + (capsule \<times> usize) option" where
  "capsule_decode buf =
    (case capsule_decode_varint (drop 0 buf) of
       None \<Rightarrow> Inr None
     | Some (t, len) \<Rightarrow>
         let offset = 0 + len in
         case capsule_decode_varint (drop offset buf) of
           None \<Rightarrow> Inr None
         | Some (n, len) \<Rightarrow>
             let offset = offset + len in
             case checked_add offset n of
               None \<Rightarrow> Inr None
             | Some stop \<Rightarrow>
                 if length buf < stop then Inr None
                 else bindR (decode_payload t (drop offset (take stop buf)))
                   (\<lambda>c. Inr (Some (c, stop))))"

section \<open>The wire format\<close>

fun capsule_payload :: "capsule \<Rightarrow> bytes" where
  "capsule_payload (CloseSession e m) = to_be_bytes 4 e @ m"
| "capsule_payload DrainSession = []"
| "capsule_payload (MaxData m) = varint_bytes (VarInt m)"
| "capsule_payload (MaxStreams _ m) = varint_bytes (VarInt m)"
| "capsule_payload (DataBlocked m) = varint_bytes (VarInt m)"
| "capsule_payload (StreamsBlocked _ m) = varint_bytes (VarInt m)"
| "capsule_payload (UnknownCapsule _ p) = p"

definition capsule_wire :: "capsule \<Rightarrow> bytes" where
  "capsule_wire c =
    varint_bytes (VarInt (capsule_type_of c)) @ varint_bytes (VarInt (length (capsule_payload c))) @ capsule_payload c"

fun wf_capsule :: "capsule \<Rightarrow> bool" where
  "wf_capsule (CloseSession e m) \<longleftrightarrow> e < 2 ^ 32 \<and> utf8_valid m \<and> length m \<le> 1024"
| "wf_capsule DrainSession \<longleftrightarrow> True"
| "wf_capsule (MaxData m) \<longleftrightarrow> m < 2 ^ 62"
| "wf_capsule (MaxStreams _ m) \<longleftrightarrow> m < 2 ^ 62"
| "wf_capsule (DataBlocked m) \<longleftrightarrow> m < 2 ^ 62"
| "wf_capsule (StreamsBlocked _ m) \<longleftrightarrow> m < 2 ^ 62"
| "wf_capsule (UnknownCapsule t p) \<longleftrightarrow> t < 2 ^ 62 \<and> capsule_type_from_type t = None \<and> length p < 2 ^ 62"

lemma capsule_type_from_code [simp]: "capsule_type_from_type (capsule_type_code t) = Some t"
  by (cases t) (simp_all add: capsule_type_from_type_def)

lemma capsule_type_code_from: "capsule_type_from_type t = Some k \<Longrightarrow> t = capsule_type_code k"
  by (auto simp: capsule_type_from_type_def split: if_splits)

lemma capsule_type_small: "wf_capsule c \<Longrightarrow> capsule_type_of c < 2 ^ 62"
  by (cases c) auto

lemma capsule_payload_small: "wf_capsule c \<Longrightarrow> length (capsule_payload c) < 2 ^ 62"
proof -
  have "encoded_len v < 2 ^ 62" for v using encoded_len_le_8 [of v] by simp
  then show "wf_capsule c \<Longrightarrow> length (capsule_payload c) < 2 ^ 62" by (cases c) simp_all
qed

lemma capsule_encode_varint_ok: "n < 2 ^ 62 \<Longrightarrow> capsule_encode_varint buf n = Some (buf @ varint_bytes (VarInt n))"
  by (simp add: capsule_encode_varint_def varint_new_def VARINT_MAX_def result_ok_def
      encode_into_vec_append varint_ok_iff)

lemma encode_capsule_header_ok:
  "t < 2 ^ 62 \<Longrightarrow> n < 2 ^ 62 \<Longrightarrow>
    encode_capsule_header buf t n = Some (buf @ varint_bytes (VarInt t) @ varint_bytes (VarInt n))"
  by (simp add: encode_capsule_header_def capsule_encode_varint_ok)

lemma encode_maximum_ok:
  "t < 2 ^ 62 \<Longrightarrow> m < 2 ^ 62 \<Longrightarrow>
    encode_maximum buf t m = Some (buf @ varint_bytes (VarInt t) @
      varint_bytes (VarInt (length (varint_bytes (VarInt m)))) @ varint_bytes (VarInt m))"
  using encoded_len_le_8 [of "VarInt m"]
  by (simp add: encode_maximum_def capsule_varint_encoded_len_def varint_new_def VARINT_MAX_def result_ok_def
      encode_capsule_header_ok capsule_encode_varint_ok)

text \<open>What the encoder sends: the message of a close capsule is cut to its limit.\<close>

fun as_sent :: "capsule \<Rightarrow> capsule" where
  "as_sent (CloseSession e m) = CloseSession e (truncate_close_session_message m)"
| "as_sent c = c"

fun sendable_capsule :: "capsule \<Rightarrow> bool" where
  "sendable_capsule (CloseSession e m) \<longleftrightarrow> e < 2 ^ 32 \<and> utf8_valid m"
| "sendable_capsule c \<longleftrightarrow> wf_capsule c"

lemma boundary_before_is: "boundary_before m k \<le> k \<and> is_char_boundary m (boundary_before m k) \<and>
    (\<forall>j. j \<le> k \<longrightarrow> is_char_boundary m j \<longrightarrow> j \<le> boundary_before m k)"
proof (induction k)
  case 0
  then show ?case by (simp add: is_char_boundary_def)
next
  case (Suc k)
  then show ?case by (auto simp: le_Suc_eq)
qed

lemma truncate_facts:
  assumes "utf8_valid m"
  shows "utf8_valid (truncate_close_session_message m)"
    "length (truncate_close_session_message m) \<le> 1024"
    "\<exists>r. m = truncate_close_session_message m @ r"
    "1024 < length m \<longrightarrow> 1021 \<le> length (truncate_close_session_message m)"
proof -
  let ?k = "boundary_before m 1024"
  note k = boundary_before_is [of m 1024]
  have v: "utf8_valid (take ?k m)" if "1024 < length m"
    using utf8_valid_take [OF assms, of ?k] k that by linarith
  then show "utf8_valid (truncate_close_session_message m)"
    using assms by (simp add: truncate_close_session_message_def MAX_CLOSE_SESSION_MESSAGE_LEN_def)
  show "length (truncate_close_session_message m) \<le> 1024"
    using k by (simp add: truncate_close_session_message_def MAX_CLOSE_SESSION_MESSAGE_LEN_def)
  show "\<exists>r. m = truncate_close_session_message m @ r"
    by (metis append_Nil2 append_take_drop_id truncate_close_session_message_def)
  show "1024 < length m \<longrightarrow> 1021 \<le> length (truncate_close_session_message m)"
  proof
    assume l: "1024 < length m"
    then obtain j where "j \<le> 1024" "1024 \<le> j + 3" "is_char_boundary m j"
      using boundary_near [OF assms, of 1024] by auto
    with k have "1021 \<le> ?k" by fastforce
    with l show "1021 \<le> length (truncate_close_session_message m)"
      by (simp add: truncate_close_session_message_def MAX_CLOSE_SESSION_MESSAGE_LEN_def)
  qed
qed

lemma wf_as_sent: "sendable_capsule c \<Longrightarrow> wf_capsule (as_sent c)"
  using truncate_facts by (cases c) simp_all

lemma capsule_encode_ok:
  assumes "sendable_capsule c"
  shows "capsule_encode c buf = Some (buf @ capsule_wire (as_sent c))"
proof (cases c)
  case (CloseSession e m)
  have "length (truncate_close_session_message m) \<le> 1024"
    using truncate_facts(2) assms CloseSession by simp
  then show ?thesis
    using CloseSession by (simp add: capsule_wire_def encode_capsule_header_ok Let_def)
qed (use assms in \<open>simp_all add: capsule_wire_def encode_capsule_header_ok encode_maximum_ok\<close>)

section \<open>Decoding what was sent\<close>

lemma capsule_decode_varint_bytes:
  "n < 2 ^ 62 \<Longrightarrow> capsule_decode_varint (varint_bytes (VarInt n) @ r) = Some (n, encoded_len (VarInt n))"
  using vi.dec_enc [of "VarInt n" r] by (simp add: capsule_decode_varint_def varint_ok_iff result_ok_def)

lemma decode_exact_varint_bytes: "n < 2 ^ 62 \<Longrightarrow> decode_exact_varint (varint_bytes (VarInt n)) = Inr n"
  using capsule_decode_varint_bytes [of n "[]"] by (simp add: decode_exact_varint_def ok_or_def)

lemma decode_payload_wire: "wf_capsule c \<Longrightarrow> decode_payload (capsule_type_of c) (capsule_payload c) = Inr c"
proof (cases c)
  case (CloseSession e m)
  assume "wf_capsule c"
  with CloseSession show ?thesis
    by (simp add: decode_payload_def from_to_be_bytes MAX_CLOSE_SESSION_MESSAGE_LEN_def Let_def
        del: to_be_bytes.simps capsule_type_code.simps)
qed (simp_all add: decode_payload_def decode_exact_varint_bytes del: capsule_type_code.simps)

lemma capsule_decode_varint_cases:
  "capsule_decode_varint b = Some (i, n) \<longleftrightarrow> varint_decode b = Inr (VarInt i, n)"
proof (cases "varint_decode b")
  case (Inr p)
  then show ?thesis by (cases p; cases "fst p") (auto simp: capsule_decode_varint_def result_ok_def)
qed (simp add: capsule_decode_varint_def result_ok_def)

lemma capsule_decode_varint_stable:
  assumes "capsule_decode_varint b = Some (i, n)"
  shows "capsule_decode_varint (b @ r) = Some (i, n)" "n \<le> length b" "n \<le> 8" "0 < n" "i < 2 ^ 62"
proof -
  from assms have d: "varint_decode b = Inr (VarInt i, n)" by (simp add: capsule_decode_varint_cases)
  show "capsule_decode_varint (b @ r) = Some (i, n)" "n \<le> length b"
    using vi.dec_stable [of b r] vi.dec_bound [OF d] d by (simp_all add: capsule_decode_varint_cases)
  show "n \<le> 8" "0 < n" "i < 2 ^ 62"
    using varint_decode_sound [OF d] by (auto simp: varint_ok_iff)
qed

text \<open>The decoder answered with the two fields of the header.\<close>

lemma capsule_decode_header:
  assumes "capsule_decode_varint b = Some (t, k)" "capsule_decode_varint (drop k b) = Some (n, m)"
  shows "capsule_decode b =
    (if length b < k + m + n then Inr None
     else bindR (decode_payload t (drop (k + m) (take (k + m + n) b))) (\<lambda>c. Inr (Some (c, k + m + n))))"
  using assms capsule_decode_varint_stable(3,5) [OF assms(1)] capsule_decode_varint_stable(3,5) [OF assms(2)]
  by (simp add: capsule_decode_def checked_add_def Let_def)

lemma capsule_decode_no_header:
  "capsule_decode_varint b = None \<Longrightarrow> capsule_decode b = Inr None"
  "capsule_decode_varint b = Some (t, k) \<Longrightarrow> capsule_decode_varint (drop k b) = None \<Longrightarrow> capsule_decode b = Inr None"
  by (simp_all add: capsule_decode_def Let_def)

definition capsule_dec :: "bytes \<Rightarrow> capsule_decode_error option + capsule \<times> usize" where
  "capsule_dec b =
    (case capsule_decode b of
       Inl e \<Rightarrow> Inl (Some e)
     | Inr None \<Rightarrow> Inl None
     | Inr (Some x) \<Rightarrow> Inr x)"

lemma capsule_decode_stable:
  assumes "capsule_decode b \<noteq> Inr None"
  shows "capsule_decode (b @ r) = capsule_decode b"
proof -
  obtain t k where t: "capsule_decode_varint b = Some (t, k)"
    using assms capsule_decode_no_header(1) by fastforce
  obtain n m where n: "capsule_decode_varint (drop k b) = Some (n, m)"
    using assms capsule_decode_no_header(2) [OF t] by fastforce
  note t' = capsule_decode_varint_stable(1) [OF t, of r] capsule_decode_varint_stable(2) [OF t]
    and n' = capsule_decode_varint_stable(1) [OF n, of r]
  have "\<not> length b < k + m + n" using assms capsule_decode_header [OF t n] by auto
  moreover have "capsule_decode_varint (drop k (b @ r)) = Some (n, m)" using n' t'(2) by simp
  ultimately show ?thesis
    using capsule_decode_header [OF t n] capsule_decode_header [OF t'(1)] by simp
qed

lemma decode_payload_sound:
  assumes "decode_payload t p = Inr c" "t < 2 ^ 62" "length p < 2 ^ 62"
  shows "wf_capsule c \<and> capsule_type_of c = t"
proof -
  have x: "m < 2 ^ 62" if "decode_exact_varint p = Inr m" for m
    using that capsule_decode_varint_stable(5)
    by (auto simp: decode_exact_varint_def ok_or_def bindR_Inr_iff split: option.splits if_splits)
  have "from_be_bytes (take 4 p) < 2 ^ 32" if "4 \<le> length p"
    using from_be_bytes_bound [of "take 4 p"] that by simp
  with assms x show ?thesis
    using capsule_type_code_from [of t]
    by (cases "capsule_type_from_type t"; cases "the (capsule_type_from_type t)")
      (auto simp: decode_payload_def bindR_Inr_iff MAX_CLOSE_SESSION_MESSAGE_LEN_def Let_def split: if_splits)
qed

lemma capsule_decode_sound:
  assumes "capsule_decode b = Inr (Some (c, n))"
  shows "wf_capsule c \<and> 0 < n \<and> n \<le> length b"
proof -
  obtain t k where t: "capsule_decode_varint b = Some (t, k)"
    using assms capsule_decode_no_header(1) by fastforce
  obtain l m where l: "capsule_decode_varint (drop k b) = Some (l, m)"
    using assms capsule_decode_no_header(2) [OF t] by fastforce
  from assms capsule_decode_header [OF t l] have
    "decode_payload t (drop (k + m) (take (k + m + l) b)) = Inr c" "n = k + m + l" "k + m + l \<le> length b"
    by (auto simp: bindR_Inr_iff split: if_splits)
  with decode_payload_sound [of t "drop (k + m) (take (k + m + l) b)" c]
    capsule_decode_varint_stable(4,5) [OF t] capsule_decode_varint_stable(4,5) [OF l]
  show ?thesis by simp
qed

lemma capsule_decode_wire:
  assumes "wf_capsule c"
  shows "capsule_decode (capsule_wire c @ r) = Inr (Some (c, length (capsule_wire c)))"
proof -
  let ?t = "capsule_type_of c" and ?n = "length (capsule_payload c)"
  let ?h = "varint_bytes (VarInt ?t)" and ?l = "varint_bytes (VarInt ?n)"
  have "capsule_decode_varint (capsule_wire c @ r) = Some (?t, length ?h)"
    using capsule_decode_varint_bytes [OF capsule_type_small [OF assms]] by (simp add: capsule_wire_def)
  moreover have "capsule_decode_varint (drop (length ?h) (capsule_wire c @ r)) = Some (?n, length ?l)"
    using capsule_decode_varint_bytes [OF capsule_payload_small [OF assms]] by (simp add: capsule_wire_def)
  moreover have "drop (length ?h + length ?l) (take (length ?h + length ?l + ?n) (capsule_wire c @ r)) = capsule_payload c"
    by (simp add: capsule_wire_def)
  ultimately show ?thesis
    using decode_payload_wire [OF assms] capsule_decode_header [of "capsule_wire c @ r" ?t "length ?h" ?n "length ?l"]
    by (simp add: capsule_wire_def)
qed

interpretation ca: incremental wf_capsule capsule_wire capsule_dec None
proof
  show "capsule_dec (capsule_wire c @ r) = Inr (c, length (capsule_wire c))" if "wf_capsule c" for c r
    using capsule_decode_wire [OF that] by (simp add: capsule_dec_def)
  show "capsule_wire c \<noteq> []" for c by (simp add: capsule_wire_def)
  show "capsule_dec (b @ r) = capsule_dec b" if "capsule_dec b \<noteq> Inl None" for b r
  proof -
    have "capsule_decode b \<noteq> Inr None" using that by (auto simp: capsule_dec_def)
    from capsule_decode_stable [OF this, of r] show ?thesis by (simp add: capsule_dec_def)
  qed
  show "n \<le> length b" if "capsule_dec b = Inr (c, n)" for b c n
    using that capsule_decode_sound [of b c n] by (auto simp: capsule_dec_def split: sum.splits option.splits)
qed

section \<open>Properties of capsules\<close>

text \<open>
  C27: Capsules survive the CONNECT stream.  Every capsule whose integers are in range is encoded
  without a panic; as a DATA frame it is what the frame decoder returns, and the capsule decoder
  reads it back exactly, whatever follows, and asks for more while it is incomplete.  Only the
  message of a close capsule may change: it is cut to a prefix of at most 1024 bytes, at most three
  bytes short of that, which is still well-formed UTF-8.
\<close>

theorem capsule_roundtrip:
  assumes "sendable_capsule c"
  shows "\<exists>w. capsule_encode c buf = Some (buf @ w) \<and>
    capsule_decode (w @ rest) = Inr (Some (as_sent c, length w)) \<and>
    (\<forall>k < length w. capsule_decode (take k w) = Inr None) \<and>
    (length w < 2 ^ 62 \<longrightarrow> encode_as_data_frame c buf = Some (buf @ frame_bytes (DataFrame w)) \<and>
      decode_frame (frame_bytes (DataFrame w) @ rest) = Inr (DataFrame w, length (frame_bytes (DataFrame w)))) \<and>
    (case c of
       CloseSession e m \<Rightarrow> \<exists>m' r. as_sent c = CloseSession e m' \<and> m = m' @ r \<and> utf8_valid m' \<and>
         length m' \<le> 1024 \<and> (if length m \<le> 1024 then r = [] else 1021 \<le> length m')
     | _ \<Rightarrow> as_sent c = c)"
proof -
  let ?w = "capsule_wire (as_sent c)"
  note wf = wf_as_sent [OF assms]
  have part: "capsule_decode (take k ?w) = Inr None" if "k < length ?w" for k
    using ca.partial_short [OF wf that] by (auto simp: capsule_dec_def split: sum.splits option.splits)
  have data: "encode_as_data_frame c buf = Some (buf @ frame_bytes (DataFrame ?w)) \<and>
      decode_frame (frame_bytes (DataFrame ?w) @ rest) =
        Inr (DataFrame ?w, length (frame_bytes (DataFrame ?w)))" if "length ?w < 2 ^ 62"
    using that capsule_encode_ok [OF assms, of "[]"] decode_frame_bytes [of "DataFrame ?w" rest]
    by (simp add: encode_as_data_frame_def encode_into_vec_append capsule_encode_varint_ok frame_bytes_def
        header_bytes_def wf_frame_def VARINT_ZERO_def varint_from_static_def varint_ok_iff)
  have close: "\<exists>m' r. as_sent c = CloseSession e m' \<and> m = m' @ r \<and> utf8_valid m' \<and>
      length m' \<le> 1024 \<and> (if length m \<le> 1024 then r = [] else 1021 \<le> length m')"
    if "c = CloseSession e m" for e m
  proof -
    have v: "utf8_valid m" using assms that by simp
    define t where "t = truncate_close_session_message m"
    note f = truncate_facts [OF v, folded t_def]
    obtain r where r: "m = t @ r" using f(3) by blast
    have "t = m" if "length m \<le> 1024"
      using that by (simp add: t_def truncate_close_session_message_def MAX_CLOSE_SESSION_MESSAGE_LEN_def)
    then have "if length m \<le> 1024 then r = [] else 1021 \<le> length t"
      using r f(4) by simp
    moreover have "as_sent c = CloseSession e t" using that by (simp add: t_def)
    ultimately show ?thesis using r f(1,2) by blast
  qed
  have "case c of
       CloseSession e m \<Rightarrow> \<exists>m' r. as_sent c = CloseSession e m' \<and> m = m' @ r \<and> utf8_valid m' \<and>
         length m' \<le> 1024 \<and> (if length m \<le> 1024 then r = [] else 1021 \<le> length m')
     | _ \<Rightarrow> as_sent c = c"
    using close by (cases c) simp_all
  with capsule_encode_ok [OF assms, of buf] capsule_decode_wire [OF wf, of rest] part data show ?thesis
    by (intro exI [of _ ?w] conjI allI impI) (simp_all only:)
qed

theorem capsule_roundtrip_witness:
  "\<exists>w. capsule_encode (CloseSession 7 [0x62, 0x79, 0x65]) [] = Some w \<and>
    capsule_decode (w @ [1]) = Inr (Some (CloseSession 7 [0x62, 0x79, 0x65], length w))"
proof -
  have "utf8_valid [0x62, 0x79, 0x65]" by (simp add: utf8_valid.simps)
  with capsule_roundtrip [of "CloseSession 7 [0x62, 0x79, 0x65]" "[]" "[1]"] show ?thesis
    by (auto simp: truncate_close_session_message_def MAX_CLOSE_SESSION_MESSAGE_LEN_def)
qed

text \<open>
  Whatever bytes arrive, a decoded capsule is well formed - its integers in range, a close
  message valid UTF-8 of at most 1024 bytes, an unknown type really unknown - and at least one and
  at most all bytes are consumed; an answer is final; and what is not exactly the fields is refused.
\<close>

theorem capsule_decode_wellformed:
  "(capsule_decode b = Inr (Some (c, n)) \<longrightarrow> wf_capsule c \<and> 0 < n \<and> n \<le> length b) \<and>
    (capsule_decode b \<noteq> Inr None \<longrightarrow> capsule_decode (b @ r) = capsule_decode b) \<and>
    (m < 2 ^ 62 \<longrightarrow> extra \<noteq> [] \<longrightarrow> length extra < 2 ^ 60 \<longrightarrow>
      capsule_decode (varint_bytes (VarInt (capsule_type_code CtMaxData)) @
        varint_bytes (VarInt (encoded_len (VarInt m) + length extra)) @ varint_bytes (VarInt m) @ extra) = Inl Malformed)"
proof (intro conjI impI)
  assume m: "m < 2 ^ 62" "extra \<noteq> []" "length extra < 2 ^ 60"
  let ?t = "capsule_type_code CtMaxData" and ?n = "encoded_len (VarInt m) + length extra"
  let ?h = "varint_bytes (VarInt ?t)" and ?l = "varint_bytes (VarInt ?n)"
  let ?b = "?h @ ?l @ varint_bytes (VarInt m) @ extra"
  have n: "?n < 2 ^ 62" using m(3) encoded_len_le_8 [of "VarInt m"] by simp
  have "capsule_decode_varint ?b = Some (?t, length ?h)"
    using capsule_decode_varint_bytes [of ?t "?l @ varint_bytes (VarInt m) @ extra"] by simp
  moreover have "capsule_decode_varint (drop (length ?h) ?b) = Some (?n, length ?l)"
    using capsule_decode_varint_bytes [OF n, of "varint_bytes (VarInt m) @ extra"] by simp
  moreover have "decode_exact_varint (varint_bytes (VarInt m) @ extra) = Inl Malformed"
    using capsule_decode_varint_bytes [OF m(1), of extra] m(2) by (simp add: decode_exact_varint_def ok_or_def)
  ultimately show "capsule_decode ?b = Inl Malformed"
    using capsule_decode_header [of ?b ?t "length ?h" ?n "length ?l"]
    by (simp add: decode_payload_def del: capsule_type_code.simps)
qed (use capsule_decode_sound capsule_decode_stable in blast)+

theorem capsule_decode_wellformed_witness:
  "wf_capsule DrainSession \<and>
    capsule_decode (capsule_wire DrainSession @ [1]) = capsule_decode (capsule_wire DrainSession)"
proof -
  have "capsule_decode (capsule_wire DrainSession) = Inr (Some (DrainSession, length (capsule_wire DrainSession)))"
    using capsule_decode_wire [of DrainSession "[]"] by simp
  then show ?thesis using capsule_decode_wellformed [of "capsule_wire DrainSession" DrainSession
      "length (capsule_wire DrainSession)" "[1]"] by simp
qed

end
