(* ===== verification/Wt_Error.thy ===== *)
theory Wt_Error
  imports Capsule
begin

text \<open>
  WebTransport errors (\<^verbatim>\<open>src/webtransport/error.rs\<close>): the protocol's codes, and the mapping of
  32-bit application codes into a range of HTTP/3 codes that skips the reserved code points.
\<close>

section \<open>Error codes\<close>

datatype wt_error_code =
  BufferedStreamRejected | SessionGone | FlowControlError | AlpnError | RequirementsNotMet

fun wt_code :: "wt_error_code \<Rightarrow> u64" where
  "wt_code BufferedStreamRejected = 0x3994bd84"
| "wt_code SessionGone = 0x170d7b68"
| "wt_code FlowControlError = 0x045d4487"
| "wt_code AlpnError = 0x0817b3dd"
| "wt_code RequirementsNotMet = 0x212c0d48"

definition wt_from_code :: "u64 \<Rightarrow> wt_error_code option" where
  "wt_from_code c =
    (if c = 0x3994bd84 then Some BufferedStreamRejected
     else if c = 0x170d7b68 then Some SessionGone
     else if c = 0x045d4487 then Some FlowControlError
     else if c = 0x0817b3dd then Some AlpnError
     else if c = 0x212c0d48 then Some RequirementsNotMet
     else None)"

section \<open>Application error codes\<close>

definition APP_FIRST :: u64 where
  "APP_FIRST = 0x52e4a40fa8db"

definition APP_LAST :: u64 where
  "APP_LAST = 0x52e5ac983162"

definition app_to_http3_code :: "u32 \<Rightarrow> u64" where
  "app_to_http3_code app_code = (let n = app_code in APP_FIRST + n + n div 0x1e)"

text \<open>\<^verbatim>\<open>wrapping_sub\<close> does not wrap here: the code is at least \<open>APP_FIRST\<close>.\<close>

definition app_from_http3_code :: "u64 \<Rightarrow> u32 option" where
  "app_from_http3_code http3_code =
    (if \<not> (APP_FIRST \<le> http3_code \<and> http3_code \<le> APP_LAST) then None
     else if (http3_code - 0x21) mod 0x1f = 0 then None
     else
       let shifted = http3_code - APP_FIRST; app_code = shifted - shifted div 0x1f in
       if app_code < 2 ^ 32 then Some app_code else None)"

definition is_application_error :: "u64 \<Rightarrow> bool" where
  "is_application_error http3_code \<longleftrightarrow> APP_FIRST \<le> http3_code \<and> http3_code \<le> APP_LAST"

section \<open>Errors\<close>

datatype wt_error = WtProtocol wt_error_code | WtApplication u32 bytes | WtUnknown u64

definition wt_application :: "u32 \<Rightarrow> bytes \<Rightarrow> wt_error" where
  "wt_application c message =
    (let msg = (if 1024 < length message then take (boundary_before message 1024) message else message) in
     WtApplication c msg)"

definition wt_error_from_http3_code :: "u64 \<Rightarrow> wt_error" where
  "wt_error_from_http3_code c =
    (case wt_from_code c of
       Some e \<Rightarrow> WtProtocol e
     | None \<Rightarrow>
         (case app_from_http3_code c of
            Some app_code \<Rightarrow> WtApplication app_code []
          | None \<Rightarrow> WtUnknown c))"

fun is_out_of_range_reset :: "wt_error \<Rightarrow> bool" where
  "is_out_of_range_reset (WtUnknown _) = True"
| "is_out_of_range_reset _ = False"

fun wt_error_to_http3_code :: "wt_error \<Rightarrow> u64" where
  "wt_error_to_http3_code (WtProtocol c) = wt_code c"
| "wt_error_to_http3_code (WtApplication c _) = app_to_http3_code c"
| "wt_error_to_http3_code (WtUnknown c) = c"

section \<open>Properties of the code mapping\<close>

lemma wt_from_code_code: "wt_from_code (wt_code e) = Some e"
  by (cases e) (simp_all add: wt_from_code_def)

lemma wt_code_from_code: "wt_from_code c = Some e \<Longrightarrow> wt_code e = c"
  by (auto simp: wt_from_code_def split: if_splits)

lemma wt_code_not_application: "\<not> is_application_error (wt_code e)"
  by (cases e) (simp_all add: is_application_error_def APP_FIRST_def)

text \<open>Thirty of every thirty-one code points are used; the last one of each group is reserved.\<close>

lemma app_code_shift: "n + n div 30 = 31 * (n div 30) + n mod (30 :: nat)"
  using div_mult_mod_eq [of n 30] by linarith

lemma app_code_reserved: "(APP_FIRST + (31 * q + r) - 0x21) mod 0x1f = (r + 1) mod 31"
proof -
  have "APP_FIRST + (31 * q + r) - 0x21 = (r + 1) + 31 * (q + 2940063177767)"
    by (simp add: APP_FIRST_def)
  then show ?thesis by (simp only: mod_mult_self2)
qed

lemma app_to_from:
  assumes "n < 2 ^ 32"
  shows "app_from_http3_code (app_to_http3_code n) = Some n"
    "(app_to_http3_code n - 0x21) mod 0x1f \<noteq> 0" "is_application_error (app_to_http3_code n)"
proof -
  let ?q = "n div 30" and ?r = "n mod 30"
  have c: "app_to_http3_code n = APP_FIRST + (31 * ?q + ?r)"
    using app_code_shift [of n] by (simp add: app_to_http3_code_def Let_def)
  have r: "?r < 30" by simp
  show res: "(app_to_http3_code n - 0x21) mod 0x1f \<noteq> 0"
    using r unfolding c app_code_reserved by simp
  have "n div 30 \<le> 0xffffffff div 30" by (rule div_le_mono) (use assms in simp)
  with assms have "n + n div 30 \<le> 0xffffffff + 0xffffffff div 30" by simp
  then show range: "is_application_error (app_to_http3_code n)"
    by (simp add: is_application_error_def app_to_http3_code_def APP_FIRST_def APP_LAST_def Let_def)
  have "(31 * ?q + ?r) div 31 = ?q" using r by simp
  then have "(31 * ?q + ?r) - (31 * ?q + ?r) div 31 = n"
    using div_mult_mod_eq [of n 30] by linarith
  with res range c assms show "app_from_http3_code (app_to_http3_code n) = Some n"
    by (simp add: app_from_http3_code_def is_application_error_def Let_def)
qed

lemma app_from_to:
  assumes "app_from_http3_code c = Some n"
  shows "app_to_http3_code n = c" "n < 2 ^ 32"
proof -
  let ?s = "c - APP_FIRST"
  from assms have a: "APP_FIRST \<le> c" "(c - 0x21) mod 0x1f \<noteq> 0" "n = ?s - ?s div 31" "n < 2 ^ 32"
    by (auto simp: app_from_http3_code_def Let_def split: if_splits)
  let ?q = "?s div 31" and ?r = "?s mod 31"
  have c: "c = APP_FIRST + (31 * ?q + ?r)" using a(1) by simp
  have "(?r + 1) mod 31 \<noteq> 0" using a(2) app_code_reserved [of ?q ?r] c by metis
  then have r: "?r < 30" using mod_less_divisor [of 31 ?s] by (cases "?r = 30") auto
  have n: "n = 30 * ?q + ?r" using a(3) div_mult_mod_eq [of ?s 31] by linarith
  then have "n div 30 = ?q" using r by simp
  with n c show "app_to_http3_code n = c" by (simp add: app_to_http3_code_def Let_def)
  show "n < 2 ^ 32" by (rule a(4))
qed

text \<open>
  Application error codes travel intact.  Every 32-bit code is mapped into the application range
  and off the reserved code points, and mapped back to itself; conversely a code that is read as an
  application error is the image of exactly that application code, and an error made from an HTTP/3
  code has that code again.
\<close>

theorem application_code_bijection:
  "(n < 2 ^ 32 \<longrightarrow>
      app_from_http3_code (app_to_http3_code n) = Some n \<and> is_application_error (app_to_http3_code n) \<and>
      (app_to_http3_code n - 0x21) mod 0x1f \<noteq> 0) \<and>
    (app_from_http3_code c = Some m \<longrightarrow> app_to_http3_code m = c \<and> m < 2 ^ 32) \<and>
    wt_error_to_http3_code (wt_error_from_http3_code c) = c"
  using app_to_from app_from_to wt_code_from_code
  by (auto simp: wt_error_from_http3_code_def split: option.splits)

theorem application_code_bijection_witness:
  "app_from_http3_code (app_to_http3_code 4294967295) = Some 4294967295 \<and>
    app_to_http3_code 30 = 0x52e4a40fa8fa \<and> (30 :: nat) < 2 ^ 32"
  using application_code_bijection [of 4294967295 "0x52e4a40fa8fa" 30]
    application_code_bijection [of 30 "0x52e4a40fa8fa" 30]
  by (simp add: app_to_http3_code_def APP_FIRST_def Let_def)

end
