(* ===== verification/Wt_Stream.thy ===== *)
theory Wt_Stream
  imports Streams
begin

text \<open>
  WebTransport streams (\<^verbatim>\<open>src/webtransport/stream.rs\<close>): the test for a WT_STREAM frame, the stream
  headers that carry the session identifier, the classification of a unidirectional stream by its
  first bytes and the per-stream byte counters.
\<close>

section \<open>Signal values\<close>

definition UNIDIRECTIONAL_STREAM_TYPE :: u64 where
  "UNIDIRECTIONAL_STREAM_TYPE = 0x54"

definition BIDIRECTIONAL_SIGNAL_VALUE :: u64 where
  "BIDIRECTIONAL_SIGNAL_VALUE = 0x41"

definition UNI_TYPE_VARINT :: varint where
  "UNI_TYPE_VARINT = varint_from_static UNIDIRECTIONAL_STREAM_TYPE"

definition BIDI_SIGNAL_VARINT :: varint where
  "BIDI_SIGNAL_VARINT = varint_from_static BIDIRECTIONAL_SIGNAL_VALUE"

definition is_wt_stream_frame_type :: "bytes \<Rightarrow> bool" where
  "is_wt_stream_frame_type buf =
    (case decode_frame_type buf of
       None \<Rightarrow> False
     | Some frame_type \<Rightarrow> vget frame_type = BIDIRECTIONAL_SIGNAL_VALUE)"

definition wt_decode_varint :: "bytes \<Rightarrow> (u64 \<times> usize) option" where
  "wt_decode_varint buf = map_option (\<lambda>(v, n). (vget v, n)) (result_ok (varint_decode buf))"

text \<open>The \<^verbatim>\<open>expect\<close> of \<^verbatim>\<open>session_id_to_varint\<close> is \<open>None\<close>.\<close>

definition session_id_to_varint :: "u64 \<Rightarrow> varint option" where
  "session_id_to_varint session_id = result_ok (varint_new session_id)"

section \<open>Stream headers\<close>

record stream_header =
  sh_session_id :: u64

datatype stream_header_decode_error =
  ShBufferTooShort | ShInvalidFormat | ShInvalidSessionId | ShSessionIdOutOfRange

definition stream_header_new :: "u64 \<Rightarrow> stream_header_decode_error + stream_header" where
  "stream_header_new session_id =
    (if result_ok (varint_new session_id) = None then Inl ShSessionIdOutOfRange
     else if session_id mod 4 \<noteq> 0 then Inl ShInvalidSessionId
     else Inr \<lparr>sh_session_id = session_id\<rparr>)"

definition encode_unidirectional :: "stream_header \<Rightarrow> bytes \<Rightarrow> bytes option" where
  "encode_unidirectional h buf = do {
     let buf = encode_into_vec buf UNI_TYPE_VARINT;
     v \<leftarrow> session_id_to_varint (sh_session_id h);
     Some (encode_into_vec buf v)
   }"

definition encode_bidirectional :: "stream_header \<Rightarrow> bytes \<Rightarrow> bytes option" where
  "encode_bidirectional h buf = do {
     let buf = encode_into_vec buf BIDI_SIGNAL_VARINT;
     v \<leftarrow> session_id_to_varint (sh_session_id h);
     Some (encode_into_vec buf v)
   }"

text \<open>The two decoders differ in the value they expect.\<close>

definition decode_unidirectional_checked :: "bytes \<Rightarrow> stream_header_decode_error + stream_header \<times> usize" where
  "decode_unidirectional_checked buf =
    bindR (ok_or (wt_decode_varint (drop 0 buf)) ShBufferTooShort) (\<lambda>(stream_type, len).
      let offset = 0 + len in
      if stream_type \<noteq> UNIDIRECTIONAL_STREAM_TYPE then Inl ShInvalidFormat
      else bindR (ok_or (wt_decode_varint (drop offset buf)) ShBufferTooShort) (\<lambda>(session_id, len).
        let offset = offset + len in
        if session_id mod 4 \<noteq> 0 then Inl ShInvalidSessionId
        else Inr (\<lparr>sh_session_id = session_id\<rparr>, offset)))"

definition decode_bidirectional_checked :: "bytes \<Rightarrow> stream_header_decode_error + stream_header \<times> usize" where
  "decode_bidirectional_checked buf =
    bindR (ok_or (wt_decode_varint (drop 0 buf)) ShBufferTooShort) (\<lambda>(signal_value, len).
      let offset = 0 + len in
      if signal_value \<noteq> BIDIRECTIONAL_SIGNAL_VALUE then Inl ShInvalidFormat
      else bindR (ok_or (wt_decode_varint (drop offset buf)) ShBufferTooShort) (\<lambda>(session_id, len).
        let offset = offset + len in
        if session_id mod 4 \<noteq> 0 then Inl ShInvalidSessionId
        else Inr (\<lparr>sh_session_id = session_id\<rparr>, offset)))"

definition decode_unidirectional :: "bytes \<Rightarrow> (stream_header \<times> usize) option" where
  "decode_unidirectional buf = result_ok (decode_unidirectional_checked buf)"

definition decode_bidirectional :: "bytes \<Rightarrow> (stream_header \<times> usize) option" where
  "decode_bidirectional buf = result_ok (decode_bidirectional_checked buf)"

definition encoded_size :: "stream_header \<Rightarrow> usize option" where
  "encoded_size h = do {
     v \<leftarrow> session_id_to_varint (sh_session_id h);
     Some (encoded_len BIDI_SIGNAL_VARINT + encoded_len v)
   }"

section \<open>Streams of a session\<close>

record wt_stream =
  ws_stream_id :: u64
  ws_session_id :: u64
  ws_bidirectional :: bool
  ws_bytes_sent :: u64
  ws_bytes_received :: u64

definition wt_stream_new :: "u64 \<Rightarrow> u64 \<Rightarrow> bool \<Rightarrow> wt_stream" where
  "wt_stream_new stream_id session_id bidirectional =
    \<lparr>ws_stream_id = stream_id, ws_session_id = session_id, ws_bidirectional = bidirectional,
     ws_bytes_sent = 0, ws_bytes_received = 0\<rparr>"

definition add_bytes_sent :: "wt_stream \<Rightarrow> u64 \<Rightarrow> wt_stream" where
  "add_bytes_sent s bytes = s\<lparr>ws_bytes_sent := sat_add (ws_bytes_sent s) bytes\<rparr>"

definition add_bytes_received :: "wt_stream \<Rightarrow> u64 \<Rightarrow> wt_stream" where
  "add_bytes_received s bytes = s\<lparr>ws_bytes_received := sat_add (ws_bytes_received s) bytes\<rparr>"

section \<open>Classification of unidirectional streams\<close>

datatype classified_uni_stream = CuWebTransport u64 usize | CuHttp3 u64 usize

definition classify_uni_stream_checked :: "bytes \<Rightarrow> stream_header_decode_error + classified_uni_stream" where
  "classify_uni_stream_checked buf =
    bindR (map_err (\<lambda>_. ShBufferTooShort) (varint_decode buf)) (\<lambda>(stream_type, type_len).
      if vget stream_type = UNIDIRECTIONAL_STREAM_TYPE then
        bindR (map_err (\<lambda>_. ShBufferTooShort) (varint_decode (drop type_len buf))) (\<lambda>(session_id, session_id_len).
          let session_id = vget session_id in
          if session_id mod 4 \<noteq> 0 then Inl ShInvalidSessionId
          else Inr (CuWebTransport session_id (type_len + session_id_len)))
      else Inr (CuHttp3 (vget stream_type) type_len))"

text \<open>The helpers of the module \<^verbatim>\<open>stream_type\<close>.\<close>

definition id_is_client_initiated :: "u64 \<Rightarrow> bool" where
  "id_is_client_initiated stream_id \<longleftrightarrow> stream_id AND 0x01 = 0"

definition id_is_server_initiated :: "u64 \<Rightarrow> bool" where
  "id_is_server_initiated stream_id \<longleftrightarrow> stream_id AND 0x01 \<noteq> 0"

definition id_is_bidirectional :: "u64 \<Rightarrow> bool" where
  "id_is_bidirectional stream_id \<longleftrightarrow> stream_id AND 0x02 = 0"

definition id_is_unidirectional :: "u64 \<Rightarrow> bool" where
  "id_is_unidirectional stream_id \<longleftrightarrow> stream_id AND 0x02 \<noteq> 0"

section \<open>Lemmas\<close>

text \<open>Two ways of reading a stream identifier agree.\<close>

lemma id_tests_kind:
  "id_is_client_initiated i \<longleftrightarrow> kind_is_client_initiated (kind_from_stream_id i)"
  "id_is_server_initiated i \<longleftrightarrow> kind_is_server_initiated (kind_from_stream_id i)"
  "id_is_bidirectional i \<longleftrightarrow> kind_is_bidirectional (kind_from_stream_id i)"
  "id_is_unidirectional i \<longleftrightarrow> kind_is_unidirectional (kind_from_stream_id i)"
proof -
  have 1: "i AND 1 = i mod 2" using nat_and_mask [of i 1] by simp
  have 2: "i AND 2 = 0 \<longleftrightarrow> i mod 4 < 2"
  proof -
    have "i AND 2 = 0 \<longleftrightarrow> \<not> bit i 1" by (metis and_exp_eq_0_iff_not_bit power_one_right)
    moreover have "bit i 1 \<longleftrightarrow> i mod 4 \<ge> 2"
      by (simp add: bit_iff_odd) presburger
    ultimately show ?thesis by linarith
  qed
  show "id_is_client_initiated i \<longleftrightarrow> kind_is_client_initiated (kind_from_stream_id i)"
    "id_is_server_initiated i \<longleftrightarrow> kind_is_server_initiated (kind_from_stream_id i)"
    unfolding id_is_client_initiated_def id_is_server_initiated_def kind_from_stream_id_mod 1
    by (auto split: if_splits) presburger+
  have "i mod 4 < 4" by simp
  with 2 show "id_is_bidirectional i \<longleftrightarrow> kind_is_bidirectional (kind_from_stream_id i)"
    "id_is_unidirectional i \<longleftrightarrow> kind_is_unidirectional (kind_from_stream_id i)"
    unfolding id_is_bidirectional_def id_is_unidirectional_def kind_from_stream_id_mod
    by auto
qed

text \<open>Both header decoders are one function of the expected first value.\<close>

definition tagged_decode :: "u64 \<Rightarrow> bytes \<Rightarrow> stream_header_decode_error + stream_header \<times> usize" where
  "tagged_decode t buf =
    bindR (ok_or (wt_decode_varint buf) ShBufferTooShort) (\<lambda>(tag, n).
      if tag \<noteq> t then Inl ShInvalidFormat
      else bindR (ok_or (wt_decode_varint (drop n buf)) ShBufferTooShort) (\<lambda>(i, m).
        if i mod 4 \<noteq> 0 then Inl ShInvalidSessionId else Inr (\<lparr>sh_session_id = i\<rparr>, n + m)))"

lemma decode_is_tagged:
  "decode_unidirectional_checked = tagged_decode UNIDIRECTIONAL_STREAM_TYPE"
  "decode_bidirectional_checked = tagged_decode BIDIRECTIONAL_SIGNAL_VALUE"
  unfolding fun_eq_iff decode_unidirectional_checked_def decode_bidirectional_checked_def
    tagged_decode_def Let_def add_0_left drop_0 by simp_all

definition wf_stream_header :: "stream_header \<Rightarrow> bool" where
  "wf_stream_header h \<longleftrightarrow> sh_session_id h < 2 ^ 62 \<and> sh_session_id h mod 4 = 0"

definition header_wire :: "u64 \<Rightarrow> stream_header \<Rightarrow> bytes" where
  "header_wire t h = varint_bytes (VarInt t) @ varint_bytes (VarInt (sh_session_id h))"

lemma wt_decode_varint_bytes: "n < 2 ^ 62 \<Longrightarrow> wt_decode_varint (varint_bytes (VarInt n) @ r) = Some (n, encoded_len (VarInt n))"
  using vi.dec_enc [of "VarInt n" r] by (simp add: wt_decode_varint_def varint_ok_iff result_ok_def)

lemma wt_decode_varint_cases:
  "wt_decode_varint b = None \<longleftrightarrow> varint_decode b = Inl DecodeBufferTooShort"
  "wt_decode_varint b = Some (i, n) \<longleftrightarrow> varint_decode b = Inr (VarInt i, n)"
proof -
  have e: "e = DecodeBufferTooShort" for e by (cases e)
  show "wt_decode_varint b = None \<longleftrightarrow> varint_decode b = Inl DecodeBufferTooShort"
    by (cases "varint_decode b") (auto simp: wt_decode_varint_def result_ok_def e)
  show "wt_decode_varint b = Some (i, n) \<longleftrightarrow> varint_decode b = Inr (VarInt i, n)"
  proof (cases "varint_decode b")
    case (Inr p)
    then show ?thesis by (cases p; cases "fst p") (auto simp: wt_decode_varint_def result_ok_def)
  qed (simp add: wt_decode_varint_def result_ok_def)
qed

lemma wt_decode_varint_stable:
  "wt_decode_varint b = Some (i, n) \<Longrightarrow> wt_decode_varint (b @ r) = Some (i, n) \<and> n \<le> length b \<and> i < 2 ^ 62"
  using vi.dec_stable [of b r] vi.dec_bound [of b "VarInt i" n] varint_decode_sound [of b "VarInt i" n]
  by (simp add: wt_decode_varint_cases varint_ok_iff)

lemma tagged_stable: "stable_dec ShBufferTooShort (tagged_decode t)"
proof (rule stableI)
  fix b r
  assume s: "tagged_decode t b \<noteq> Inl ShBufferTooShort"
  then obtain tag n where d: "wt_decode_varint b = Some (tag, n)"
    by (cases "wt_decode_varint b") (auto simp: tagged_decode_def ok_or_def)
  note d' = wt_decode_varint_stable [OF d, of r]
  show "tagged_decode t (b @ r) = tagged_decode t b"
  proof (cases "tag = t")
    case True
    with s d obtain i m where e: "wt_decode_varint (drop n b) = Some (i, m)"
      by (cases "wt_decode_varint (drop n b)") (auto simp: tagged_decode_def ok_or_def)
    from True d d' e wt_decode_varint_stable [OF e, of r] show ?thesis
      by (simp add: tagged_decode_def ok_or_def)
  qed (use d d' in \<open>simp add: tagged_decode_def ok_or_def\<close>)
next
  fix b h n
  assume "tagged_decode t b = Inr (h, n)"
  then obtain tag k i m where "wt_decode_varint b = Some (tag, k)" "wt_decode_varint (drop k b) = Some (i, m)"
    "n = k + m"
    by (auto simp: tagged_decode_def ok_or_def bindR_Inr_iff split: option.splits if_splits)
  with wt_decode_varint_stable [of b tag k] wt_decode_varint_stable [of "drop k b" i m] show "n \<le> length b"
    by fastforce
qed

lemma tagged_decode_bytes:
  "t < 2 ^ 62 \<Longrightarrow> wf_stream_header h \<Longrightarrow>
    tagged_decode t (header_wire t h @ r) = Inr (h, length (header_wire t h))"
  by (simp add: tagged_decode_def header_wire_def wt_decode_varint_bytes ok_or_def wf_stream_header_def)

interpretation uh: incremental wf_stream_header "header_wire UNIDIRECTIONAL_STREAM_TYPE"
    decode_unidirectional_checked ShBufferTooShort
  by unfold_locales
    (use tagged_decode_bytes [of UNIDIRECTIONAL_STREAM_TYPE] in \<open>auto simp: decode_is_tagged
      header_wire_def UNIDIRECTIONAL_STREAM_TYPE_def dest: stableD [OF tagged_stable]\<close>)

interpretation bh: incremental wf_stream_header "header_wire BIDIRECTIONAL_SIGNAL_VALUE"
    decode_bidirectional_checked ShBufferTooShort
  by unfold_locales
    (use tagged_decode_bytes [of BIDIRECTIONAL_SIGNAL_VALUE] in \<open>auto simp: decode_is_tagged
      header_wire_def BIDIRECTIONAL_SIGNAL_VALUE_def dest: stableD [OF tagged_stable]\<close>)

lemma stream_header_new_ok: "stream_header_new i = Inr h \<Longrightarrow> wf_stream_header h \<and> sh_session_id h = i"
  by (auto simp: stream_header_new_def result_ok_def varint_new_def VARINT_MAX_def wf_stream_header_def
      split: if_splits)

lemma encode_header:
  assumes "wf_stream_header h"
  shows "encode_unidirectional h buf = Some (buf @ header_wire UNIDIRECTIONAL_STREAM_TYPE h)"
    "encode_bidirectional h buf = Some (buf @ header_wire BIDIRECTIONAL_SIGNAL_VALUE h)"
    "encoded_size h = Some (length (header_wire UNIDIRECTIONAL_STREAM_TYPE h))"
    "encoded_size h = Some (length (header_wire BIDIRECTIONAL_SIGNAL_VALUE h))"
proof -
  have "session_id_to_varint (sh_session_id h) = Some (VarInt (sh_session_id h))"
    using assms by (simp add: session_id_to_varint_def varint_new_def VARINT_MAX_def wf_stream_header_def result_ok_def)
  moreover have "varint_ok (VarInt (sh_session_id h))" using assms by (simp add: wf_stream_header_def varint_ok_iff)
  ultimately show "encode_unidirectional h buf = Some (buf @ header_wire UNIDIRECTIONAL_STREAM_TYPE h)"
    "encode_bidirectional h buf = Some (buf @ header_wire BIDIRECTIONAL_SIGNAL_VALUE h)"
    "encoded_size h = Some (length (header_wire UNIDIRECTIONAL_STREAM_TYPE h))"
    "encoded_size h = Some (length (header_wire BIDIRECTIONAL_SIGNAL_VALUE h))"
    by (simp_all add: encode_unidirectional_def encode_bidirectional_def encoded_size_def header_wire_def
        encode_into_vec_append UNI_TYPE_VARINT_def BIDI_SIGNAL_VARINT_def varint_from_static_def
        UNIDIRECTIONAL_STREAM_TYPE_def BIDIRECTIONAL_SIGNAL_VALUE_def varint_ok_iff encoded_len_def)
qed

section \<open>Properties of the stream headers\<close>

text \<open>
  Opening a WebTransport stream.  Every session identifier that \<open>stream_header_new\<close> accepts is
  written without a panic, in \<open>encoded_size\<close> bytes, behind what was in the buffer; the peer reads the
  same session back at the same offset whatever data follows, classifies a unidirectional stream as
  WebTransport, and waits while only a part of the header has arrived.
\<close>

theorem stream_header_roundtrip:
  assumes "stream_header_new i = Inr h"
  shows "\<exists>u b n. encode_unidirectional h buf = Some (buf @ u) \<and> encode_bidirectional h buf = Some (buf @ b) \<and>
    encoded_size h = Some n \<and> length u = n \<and> length b = n \<and>
    decode_unidirectional_checked (u @ data) = Inr (h, n) \<and>
    decode_bidirectional_checked (b @ data) = Inr (h, n) \<and>
    classify_uni_stream_checked (u @ data) = Inr (CuWebTransport i n) \<and>
    (\<forall>k < n. decode_unidirectional_checked (take k u) = Inl ShBufferTooShort \<and>
      decode_bidirectional_checked (take k b) = Inl ShBufferTooShort \<and>
      classify_uni_stream_checked (take k u) = Inl ShBufferTooShort)"
proof -
  have wf: "wf_stream_header h" and i: "sh_session_id h = i" using stream_header_new_ok [OF assms] by simp_all
  let ?u = "header_wire UNIDIRECTIONAL_STREAM_TYPE h" and ?b = "header_wire BIDIRECTIONAL_SIGNAL_VALUE h"
  have c: "classify_uni_stream_checked b =
    (case decode_unidirectional_checked b of
       Inr (h, n) \<Rightarrow> Inr (CuWebTransport (sh_session_id h) n)
     | Inl ShInvalidFormat \<Rightarrow> classify_uni_stream_checked b
     | Inl e \<Rightarrow> Inl e)" for b
    by (auto simp: classify_uni_stream_checked_def decode_is_tagged tagged_decode_def wt_decode_varint_def
        bindR_def map_err_def ok_or_def result_ok_def Let_def split: sum.splits)
  have "classify_uni_stream_checked (?u @ data) = Inr (CuWebTransport i (length ?u))"
    using c [of "?u @ data"] uh.dec_enc [OF wf, of data] i by simp
  moreover have "classify_uni_stream_checked (take k ?u) = Inl ShBufferTooShort" if "k < length ?u" for k
    using c [of "take k ?u"] uh.partial_short [OF wf that] by simp
  ultimately show ?thesis
    using encode_header [OF wf] uh.dec_enc [OF wf, of data] bh.dec_enc [OF wf, of data]
      uh.partial_short [OF wf] bh.partial_short [OF wf]
    by (intro exI [of _ ?u] exI [of _ ?b] exI [of _ "length ?u"]) auto
qed

theorem stream_header_roundtrip_witness:
  "\<exists>u n. encode_unidirectional \<lparr>sh_session_id = 8\<rparr> [9] = Some (9 # u) \<and>
    decode_unidirectional_checked (u @ [1, 2]) = Inr (\<lparr>sh_session_id = 8\<rparr>, n)"
proof -
  have "stream_header_new 8 = Inr \<lparr>sh_session_id = 8\<rparr>"
    by (simp add: stream_header_new_def result_ok_def varint_new_def VARINT_MAX_def)
  from stream_header_roundtrip [OF this, of "[9]" "[1, 2]"] show ?thesis by auto
qed

end
