(* ===== verification/Flow_Control.thy ===== *)
theory Flow_Control
  imports Capsule
begin

text \<open>
  Flow control of a WebTransport session (\<^verbatim>\<open>src/webtransport/session/flow_control.rs\<close>): the
  windows for streams and for data that this side grants to its peer, and the counters of both
  directions.
\<close>

section \<open>Limits and counters\<close>

record flow_control_limits =
  fl_max_streams_uni :: u64
  fl_max_streams_bidi :: u64
  fl_max_data :: u64

definition flow_control_limits_new :: flow_control_limits where
  "flow_control_limits_new = \<lparr>fl_max_streams_uni = 0, fl_max_streams_bidi = 0, fl_max_data = 0\<rparr>"

record flow_control_state =
  fs_streams_uni_opened :: u64
  fs_streams_bidi_opened :: u64
  fs_data_sent :: u64
  fs_streams_uni_received :: u64
  fs_streams_bidi_received :: u64
  fs_data_received :: u64
  fs_datagrams_received :: u64

definition flow_control_state_new :: flow_control_state where
  "flow_control_state_new =
    \<lparr>fs_streams_uni_opened = 0, fs_streams_bidi_opened = 0, fs_data_sent = 0,
     fs_streams_uni_received = 0, fs_streams_bidi_received = 0, fs_data_received = 0,
     fs_datagrams_received = 0\<rparr>"

text \<open>The memory of what was last reported as blocked.\<close>

record send_blocked_state =
  last_streams_blocked_uni :: "u64 option"
  last_streams_blocked_bidi :: "u64 option"
  last_data_blocked :: "u64 option"

definition send_blocked_default :: send_blocked_state where
  "send_blocked_default =
    \<lparr>last_streams_blocked_uni = None, last_streams_blocked_bidi = None, last_data_blocked = None\<rparr>"

section \<open>The window for streams of one direction\<close>

record stream_flow_control =
  sf_concurrent_limit :: u64
  sf_advertised_max :: u64
  sf_total_closed :: u64
  sf_total_received :: u64

definition sf_new :: "u64 \<Rightarrow> stream_flow_control" where
  "sf_new concurrent_limit =
    \<lparr>sf_concurrent_limit = concurrent_limit, sf_advertised_max = concurrent_limit,
     sf_total_closed = 0, sf_total_received = 0\<rparr>"

definition sf_check_received :: "stream_flow_control \<Rightarrow> bool" where
  "sf_check_received f \<longleftrightarrow> sf_total_received f < sf_advertised_max f"

definition sf_on_stream_received :: "stream_flow_control \<Rightarrow> stream_flow_control" where
  "sf_on_stream_received f = f\<lparr>sf_total_received := sat_add (sf_total_received f) 1\<rparr>"

definition sf_on_stream_closed :: "stream_flow_control \<Rightarrow> stream_flow_control \<times> u64 option" where
  "sf_on_stream_closed f =
    (let f = f\<lparr>sf_total_closed := sat_add (sf_total_closed f) 1\<rparr> in
     if sf_concurrent_limit f = 0 then (f, None)
     else
       let remaining = sat_sub (sf_advertised_max f) (sf_total_received f);
           threshold = sf_concurrent_limit f div 2 in
       if remaining \<le> threshold then
         let new_max = min (sat_add (sf_total_closed f) (sf_concurrent_limit f)) MAX_STREAMS_LIMIT in
         if sf_advertised_max f < new_max then (f\<lparr>sf_advertised_max := new_max\<rparr>, Some new_max)
         else (f, None)
       else (f, None))"

section \<open>The window for data\<close>

record data_flow_control =
  df_initial_window :: u64
  df_advertised_max :: u64
  df_total_consumed :: u64
  df_total_received :: u64

definition df_new :: "u64 \<Rightarrow> data_flow_control" where
  "df_new initial_window =
    \<lparr>df_initial_window = initial_window, df_advertised_max = initial_window,
     df_total_consumed = 0, df_total_received = 0\<rparr>"

definition df_check_received :: "data_flow_control \<Rightarrow> u64 \<Rightarrow> bool" where
  "df_check_received f bytes \<longleftrightarrow> bytes \<le> sat_sub (df_advertised_max f) (df_total_received f)"

definition df_on_data_received :: "data_flow_control \<Rightarrow> u64 \<Rightarrow> data_flow_control" where
  "df_on_data_received f bytes = f\<lparr>df_total_received := sat_add (df_total_received f) bytes\<rparr>"

definition df_on_data_consumed :: "data_flow_control \<Rightarrow> u64 \<Rightarrow> data_flow_control \<times> u64 option" where
  "df_on_data_consumed f bytes =
    (let f = f\<lparr>df_total_consumed := sat_add (df_total_consumed f) bytes\<rparr> in
     if df_initial_window f = 0 then (f, None)
     else
       let remaining = sat_sub (df_advertised_max f) (df_total_received f);
           threshold = df_initial_window f div 2 in
       if remaining \<le> threshold then
         let new_max = sat_add (df_total_consumed f) (df_initial_window f) in
         if df_advertised_max f < new_max then (f\<lparr>df_advertised_max := new_max\<rparr>, Some new_max)
         else (f, None)
       else (f, None))"

section \<open>A window in use\<close>

text \<open>
  Both windows are used the same way: something arrives only after the check, and is consumed only
  after it arrived.  The abstract window grants \<open>size\<close> beyond what was consumed; the code grants
  it late, when at most half of the window is left.
\<close>

datatype 'a window_step = Arrive 'a | Consume 'a

fun df_step :: "data_flow_control \<Rightarrow> nat window_step \<Rightarrow> data_flow_control option" where
  "df_step f (Arrive n) = (if df_check_received f n then Some (df_on_data_received f n) else None)"
| "df_step f (Consume n) =
    (if df_total_consumed f + n \<le> df_total_received f then Some (fst (df_on_data_consumed f n)) else None)"

fun sf_step :: "stream_flow_control \<Rightarrow> unit window_step \<Rightarrow> stream_flow_control option" where
  "sf_step f (Arrive _) = (if sf_check_received f then Some (sf_on_stream_received f) else None)"
| "sf_step f (Consume _) =
    (if sf_total_closed f < sf_total_received f then Some (fst (sf_on_stream_closed f)) else None)"

text \<open>The interface of a window: what the consumer of either one relies on.\<close>

locale window =
  fixes cap :: nat and size_of advertised arrived consumed :: "'w \<Rightarrow> nat"
    and step :: "'w \<Rightarrow> 'x window_step \<Rightarrow> 'w option"
    and amount :: "'x \<Rightarrow> nat"
  assumes cap: "cap \<le> u64_max"
    and arrive: "step w (Arrive n) = Some w' \<Longrightarrow> arrived w \<le> advertised w \<Longrightarrow> advertised w \<le> u64_max \<Longrightarrow>
      arrived w' = arrived w + amount n \<and> arrived w' \<le> advertised w \<and> consumed w' = consumed w \<and>
      advertised w' = advertised w \<and> size_of w' = size_of w"
    and consume: "step w (Consume n) = Some w' \<Longrightarrow> arrived w \<le> u64_max \<Longrightarrow>
      consumed w' = consumed w + amount n \<and> consumed w' \<le> arrived w \<and> arrived w' = arrived w \<and>
      size_of w' = size_of w \<and>
      advertised w' =
        (if advertised w - arrived w \<le> size_of w div 2 \<and> size_of w \<noteq> 0
         then max (advertised w) (min (consumed w' + size_of w) cap) else advertised w)"
begin

definition good :: "'w \<Rightarrow> bool" where
  "good w \<longleftrightarrow> consumed w \<le> arrived w \<and> arrived w \<le> advertised w \<and> size_of w \<le> advertised w \<and>
    size_of w \<le> u64_max \<and> advertised w \<le> max (size_of w) (min (consumed w + size_of w) cap)"

lemma good_bound: "good w \<Longrightarrow> advertised w \<le> u64_max \<and> arrived w \<le> u64_max"
  using cap by (auto simp: good_def)

fun steps :: "'w \<Rightarrow> 'x window_step list \<Rightarrow> 'w option" where
  "steps w [] = Some w"
| "steps w (x # xs) = (case step w x of None \<Rightarrow> None | Some v \<Rightarrow> steps v xs)"

lemma step_good:
  assumes "step w x = Some w'" "good w"
  shows "good w' \<and> size_of w' = size_of w \<and> advertised w \<le> advertised w'"
proof (cases x)
  case (Arrive n)
  with arrive [of w n w'] assms good_bound [of w] show ?thesis by (auto simp: good_def)
next
  case (Consume n)
  with consume [of w n w'] assms good_bound [of w] show ?thesis by (auto simp: good_def)
qed

lemma steps_good: "steps w xs = Some w' \<Longrightarrow> good w \<Longrightarrow> good w' \<and> size_of w' = size_of w \<and> advertised w \<le> advertised w'"
proof (induction xs arbitrary: w)
  case (Cons x xs)
  then obtain v where v: "step w x = Some v" "steps v xs = Some w'" by (auto split: option.splits)
  from step_good [OF v(1) Cons.prems(2)] Cons.IH [OF v(2)] show ?case by auto
qed simp

text \<open>
  A consumer that keeps up never blocks its peer: after a consumption, when everything that
  arrived is consumed, more than half of the window is open (below the cap).
\<close>

lemma window_open:
  assumes "step w (Consume n) = Some w'" "good w" "consumed w' = arrived w'"
    "consumed w' + size_of w \<le> cap" "size_of w \<noteq> 0"
  shows "size_of w div 2 < advertised w' - arrived w'"
proof -
  from consume [OF assms(1)] good_bound [OF assms(2)] assms(2-5) show ?thesis
    by (auto simp: good_def max_def min_def split: if_splits)
qed

end

text \<open>Data is capped only by the range of the counters.\<close>

definition DATA_CAP :: nat where
  "DATA_CAP = u64_max"

interpretation dw: window DATA_CAP df_initial_window df_advertised_max df_total_received df_total_consumed df_step id
proof
  fix w w' n
  show "df_total_received w' = df_total_received w + id n \<and> df_total_received w' \<le> df_advertised_max w \<and>
      df_total_consumed w' = df_total_consumed w \<and> df_advertised_max w' = df_advertised_max w \<and>
      df_initial_window w' = df_initial_window w"
    if "df_step w (Arrive n) = Some w'" "df_total_received w \<le> df_advertised_max w" "df_advertised_max w \<le> u64_max"
    using that by (auto simp: df_check_received_def df_on_data_received_def sat_add_def sat_sub_def split: if_splits)
  show "df_total_consumed w' = df_total_consumed w + id n \<and> df_total_consumed w' \<le> df_total_received w \<and>
      df_total_received w' = df_total_received w \<and> df_initial_window w' = df_initial_window w \<and>
      df_advertised_max w' =
        (if df_advertised_max w - df_total_received w \<le> df_initial_window w div 2 \<and> df_initial_window w \<noteq> 0
         then max (df_advertised_max w) (min (df_total_consumed w' + df_initial_window w) DATA_CAP)
         else df_advertised_max w)"
    if "df_step w (Consume n) = Some w'" "df_total_received w \<le> u64_max"
    using that by (auto simp: df_on_data_consumed_def sat_add_def sat_sub_def Let_def DATA_CAP_def split: if_splits)
qed (simp add: DATA_CAP_def)

interpretation sw: window MAX_STREAMS_LIMIT sf_concurrent_limit sf_advertised_max sf_total_received
    sf_total_closed sf_step "\<lambda>_. 1"
proof
  fix w w' n
  show "sf_total_received w' = sf_total_received w + 1 \<and> sf_total_received w' \<le> sf_advertised_max w \<and>
      sf_total_closed w' = sf_total_closed w \<and> sf_advertised_max w' = sf_advertised_max w \<and>
      sf_concurrent_limit w' = sf_concurrent_limit w"
    if "sf_step w (Arrive n) = Some w'" "sf_total_received w \<le> sf_advertised_max w" "sf_advertised_max w \<le> u64_max"
    using that by (auto simp: sf_check_received_def sf_on_stream_received_def sat_add_def split: if_splits)
  show "sf_total_closed w' = sf_total_closed w + 1 \<and> sf_total_closed w' \<le> sf_total_received w \<and>
      sf_total_received w' = sf_total_received w \<and> sf_concurrent_limit w' = sf_concurrent_limit w \<and>
      sf_advertised_max w' =
        (if sf_advertised_max w - sf_total_received w \<le> sf_concurrent_limit w div 2 \<and> sf_concurrent_limit w \<noteq> 0
         then max (sf_advertised_max w) (min (sf_total_closed w' + sf_concurrent_limit w) MAX_STREAMS_LIMIT)
         else sf_advertised_max w)"
    if "sf_step w (Consume n) = Some w'" "sf_total_received w \<le> u64_max"
    using that by (auto simp: sf_on_stream_closed_def sat_add_def sat_sub_def MAX_STREAMS_LIMIT_def Let_def
        split: if_splits)
qed (simp add: MAX_STREAMS_LIMIT_def)

lemma df_new_good: "n \<le> u64_max \<Longrightarrow> dw.good (df_new n)"
  by (simp add: dw.good_def df_new_def)

lemma sf_new_good: "n \<le> u64_max \<Longrightarrow> sw.good (sf_new n)"
  by (simp add: sw.good_def sf_new_def)

lemma df_consumed_result:
  "snd (df_on_data_consumed f n) =
    (let f' = fst (df_on_data_consumed f n) in
     if df_advertised_max f < df_advertised_max f' then Some (df_advertised_max f') else None)"
  by (auto simp: df_on_data_consumed_def Let_def)

lemma sf_closed_result:
  "snd (sf_on_stream_closed f) =
    (let f' = fst (sf_on_stream_closed f) in
     if sf_advertised_max f < sf_advertised_max f' then Some (sf_advertised_max f') else None)"
  by (auto simp: sf_on_stream_closed_def Let_def)

section \<open>Properties of flow control\<close>

text \<open>
  C28: The data window is safe and live.  After any sequence of checked arrivals and consumptions the
  peer has sent no more than it was granted, it was never granted more than the configured window
  beyond what the application consumed, the grant never shrinks and a WT_MAX_DATA value is issued
  exactly when it grows; and when the application has consumed everything, more than half of the
  window is open, so the peer is never stuck.
\<close>

theorem data_window:
  assumes "n \<le> u64_max" "dw.steps (df_new n) xs = Some f" "df_step f (Consume k) = Some g"
  shows "df_total_consumed g \<le> df_total_received g \<and> df_total_received g \<le> df_advertised_max g \<and>
    df_advertised_max g \<le> df_total_consumed g + n \<and> df_advertised_max f \<le> df_advertised_max g \<and>
    snd (df_on_data_consumed f k) =
      (if df_advertised_max f < df_advertised_max g then Some (df_advertised_max g) else None) \<and>
    (0 < n \<and> df_total_consumed g = df_total_received g \<and> df_total_consumed g + n \<le> u64_max \<longrightarrow>
      df_check_received g (n div 2 + 1))"
proof -
  have f: "dw.good f" "df_initial_window f = n"
    using dw.steps_good [OF assms(2) df_new_good [OF assms(1)]] by (simp_all add: df_new_def)
  have g: "dw.good g" "df_initial_window g = n" "df_advertised_max f \<le> df_advertised_max g"
    using dw.step_good [OF assms(3) f(1)] f(2) by simp_all
  have "g = fst (df_on_data_consumed f k)" using assms(3) by (auto split: if_splits)
  moreover have "df_check_received g (n div 2 + 1)"
    if "0 < n" "df_total_consumed g = df_total_received g" "df_total_consumed g + n \<le> u64_max"
    using dw.window_open [OF assms(3) f(1)] that f(2)
    by (simp add: df_check_received_def sat_sub_def DATA_CAP_def)
  ultimately show ?thesis
    using g df_consumed_result [of f k] by (auto simp: dw.good_def Let_def)
qed

theorem data_window_witness:
  "df_advertised_max (fst (df_on_data_consumed ((df_new 10)\<lparr>df_total_received := 6\<rparr>) 6)) = 16 \<and>
    df_check_received (fst (df_on_data_consumed ((df_new 10)\<lparr>df_total_received := 6\<rparr>) 6)) 6"
proof -
  let ?f = "(df_new 10)\<lparr>df_total_received := 6\<rparr>"
  have "dw.steps (df_new 10) [Arrive 6] = Some ?f"
    by (simp add: df_check_received_def df_on_data_received_def df_new_def sat_sub_def sat_add_def)
  moreover have "df_step ?f (Consume 6) = Some (fst (df_on_data_consumed ?f 6))" by (simp add: df_new_def)
  ultimately show ?thesis
    using data_window [of 10 "[Arrive 6]" ?f 6 "fst (df_on_data_consumed ?f 6)"]
    by (simp add: df_on_data_consumed_def df_new_def sat_sub_def sat_add_def Let_def)
qed

text \<open>
  The window for streams is safe and live in the same sense: never more streams at once than the
  configured number, grants only grow, WT_MAX_STREAMS is issued exactly when they do and never
  exceeds \<open>2 ^ 60\<close> when the limit does not, and when all streams are closed the peer may open new ones.
\<close>

theorem stream_window:
  assumes "n \<le> MAX_STREAMS_LIMIT" "sw.steps (sf_new n) xs = Some f" "sf_step f (Consume u) = Some g"
  shows "sf_total_received g - sf_total_closed g \<le> n \<and> sf_total_closed g \<le> sf_total_received g \<and>
    sf_total_received g \<le> sf_advertised_max g \<and> sf_advertised_max f \<le> sf_advertised_max g \<and>
    sf_advertised_max g \<le> MAX_STREAMS_LIMIT \<and>
    snd (sf_on_stream_closed f) =
      (if sf_advertised_max f < sf_advertised_max g then Some (sf_advertised_max g) else None) \<and>
    (0 < n \<and> sf_total_closed g = sf_total_received g \<and> sf_total_closed g + n \<le> MAX_STREAMS_LIMIT \<longrightarrow>
      sf_check_received g)"
proof -
  have n: "n \<le> u64_max" using assms(1) by (simp add: MAX_STREAMS_LIMIT_def)
  have f: "sw.good f" "sf_concurrent_limit f = n"
    using sw.steps_good [OF assms(2) sf_new_good [OF n]] by (simp_all add: sf_new_def)
  have g: "sw.good g" "sf_concurrent_limit g = n" "sf_advertised_max f \<le> sf_advertised_max g"
    using sw.step_good [OF assms(3) f(1)] f(2) by simp_all
  have "g = fst (sf_on_stream_closed f)" using assms(3) by (auto split: if_splits)
  moreover have "sf_check_received g"
    if "0 < n" "sf_total_closed g = sf_total_received g" "sf_total_closed g + n \<le> MAX_STREAMS_LIMIT"
    using sw.window_open [OF assms(3) f(1)] that f(2) by (simp add: sf_check_received_def)
  ultimately show ?thesis
    using g assms(1) sf_closed_result [of f] by (auto simp: sw.good_def Let_def)
qed

theorem stream_window_witness:
  "sf_check_received (fst (sf_on_stream_closed ((sf_new 1)\<lparr>sf_total_received := 1\<rparr>)))"
proof -
  let ?f = "(sf_new 1)\<lparr>sf_total_received := 1\<rparr>"
  have "sw.steps (sf_new 1) [Arrive ()] = Some ?f"
    by (simp add: sf_check_received_def sf_on_stream_received_def sf_new_def sat_add_def)
  moreover have "sf_step ?f (Consume ()) = Some (fst (sf_on_stream_closed ?f))" by (simp add: sf_new_def)
  ultimately show ?thesis
    using stream_window [of 1 "[Arrive ()]" ?f "()" "fst (sf_on_stream_closed ?f)"]
    by (simp add: sf_on_stream_closed_def sf_new_def sat_sub_def sat_add_def MAX_STREAMS_LIMIT_def Let_def)
qed

end
