(* ===== verification/Session.thy ===== *)
theory Session
  imports Wt_Error Wt_Stream Flow_Control
begin

text \<open>
  A WebTransport session (\<^verbatim>\<open>src/webtransport/session/mod.rs\<close>): its life cycle, its streams, the
  flow control of both directions, the capsules it sends and what the capsules of the peer do.  The
  order in which a hash map lists its keys is unspecified; here the keys come in ascending order,
  and what is proved depends on their set only.
\<close>

section \<open>State\<close>

definition MAX_BUFFERED_STREAMS :: usize where
  "MAX_BUFFERED_STREAMS = 100"

definition MAX_BUFFERED_DATAGRAMS :: usize where
  "MAX_BUFFERED_DATAGRAMS = 100"

record buffered_stream =
  bs_stream_id :: u64
  bs_is_bidirectional :: bool

datatype session_state = SePending | SeConnecting | SeEstablished | SeDraining | SeClosed

definition se_can_create_stream :: "session_state \<Rightarrow> bool" where
  "se_can_create_stream s \<longleftrightarrow> s = SeEstablished \<or> s = SeDraining"

definition se_can_send :: "session_state \<Rightarrow> bool" where
  "se_can_send s \<longleftrightarrow> s = SeEstablished \<or> s = SeDraining"

definition se_can_receive :: "session_state \<Rightarrow> bool" where
  "se_can_receive s \<longleftrightarrow> s = SeEstablished \<or> s = SeDraining"

datatype capsule_process_error = SessionError wt_error

record session =
  se_session_id :: u64
  se_state :: session_state
  se_streams :: "u64 \<rightharpoonup> wt_stream"
  se_remote_limits :: flow_control_limits
  se_local_limits :: flow_control_limits
  se_flow_state :: flow_control_state
  se_flow_control_enabled :: bool
  se_pending_capsules :: "capsule list"
  se_pending_stream_resets :: "u64 list"
  se_close_error :: "wt_error option"
  se_buffered_streams :: "buffered_stream list"
  se_buffered_datagrams :: "bytes list"
  se_goaway_received :: bool
  se_close_session_received :: bool
  se_close_session_sent :: bool
  se_recv_stream_fc_uni :: stream_flow_control
  se_recv_stream_fc_bidi :: stream_flow_control
  se_recv_data_fc :: data_flow_control
  se_send_blocked :: send_blocked_state

definition session_new :: "u64 \<Rightarrow> session" where
  "session_new session_id =
    \<lparr>se_session_id = session_id, se_state = SePending, se_streams = Map.empty,
     se_remote_limits = flow_control_limits_new, se_local_limits = flow_control_limits_new,
     se_flow_state = flow_control_state_new, se_flow_control_enabled = True,
     se_pending_capsules = [], se_pending_stream_resets = [], se_close_error = None,
     se_buffered_streams = [], se_buffered_datagrams = [], se_goaway_received = False,
     se_close_session_received = False, se_close_session_sent = False,
     se_recv_stream_fc_uni = sf_new 0, se_recv_stream_fc_bidi = sf_new 0, se_recv_data_fc = df_new 0,
     se_send_blocked = send_blocked_default\<rparr>"

definition se_is_established :: "session \<Rightarrow> bool" where
  "se_is_established s \<longleftrightarrow> se_state s = SeEstablished"

definition se_is_closed :: "session \<Rightarrow> bool" where
  "se_is_closed s \<longleftrightarrow> se_state s = SeClosed"

section \<open>Life cycle\<close>

definition se_set_connecting :: "session \<Rightarrow> session" where
  "se_set_connecting s = (if se_state s = SePending then s\<lparr>se_state := SeConnecting\<rparr> else s)"

definition se_set_established :: "session \<Rightarrow> session" where
  "se_set_established s =
    (if se_state s = SePending \<or> se_state s = SeConnecting then s\<lparr>se_state := SeEstablished\<rparr> else s)"

definition se_set_draining :: "session \<Rightarrow> session" where
  "se_set_draining s = (if se_state s = SeEstablished then s\<lparr>se_state := SeDraining\<rparr> else s)"

definition stream_ids_to_reset :: "session \<Rightarrow> u64 list" where
  "stream_ids_to_reset s = sorted_list_of_set (dom (se_streams s))"

definition se_close :: "session \<Rightarrow> wt_error option \<Rightarrow> session" where
  "se_close s error =
    (let s = (if se_state s \<noteq> SeClosed then s\<lparr>se_pending_stream_resets := stream_ids_to_reset s\<rparr> else s) in
     s\<lparr>se_state := SeClosed, se_close_error := error\<rparr>)"

definition try_add_stream :: "session \<Rightarrow> wt_stream \<Rightarrow> session \<times> bool" where
  "try_add_stream s stream =
    (if se_is_closed s then (s, False)
     else (s\<lparr>se_streams := (se_streams s)(ws_stream_id stream \<mapsto> stream)\<rparr>, True))"

definition se_add_stream :: "session \<Rightarrow> wt_stream \<Rightarrow> session" where
  "se_add_stream s stream = fst (try_add_stream s stream)"

definition se_remove_stream :: "session \<Rightarrow> u64 \<Rightarrow> session \<times> wt_stream option" where
  "se_remove_stream s stream_id =
    (s\<lparr>se_streams := (se_streams s)(stream_id := None)\<rparr>, se_streams s stream_id)"

definition set_flow_control_enabled :: "session \<Rightarrow> bool \<Rightarrow> session" where
  "set_flow_control_enabled s enabled = s\<lparr>se_flow_control_enabled := enabled\<rparr>"

definition initialize_local_limits :: "session \<Rightarrow> flow_control_limits \<Rightarrow> session" where
  "initialize_local_limits s limits =
    s\<lparr>se_local_limits := limits,
      se_recv_stream_fc_uni := sf_new (fl_max_streams_uni limits),
      se_recv_stream_fc_bidi := sf_new (fl_max_streams_bidi limits),
      se_recv_data_fc := df_new (fl_max_data limits)\<rparr>"

definition initialize_remote_limits :: "session \<Rightarrow> flow_control_limits \<Rightarrow> session" where
  "initialize_remote_limits s limits = s\<lparr>se_remote_limits := limits\<rparr>"

definition push_capsule :: "session \<Rightarrow> capsule \<Rightarrow> session" where
  "push_capsule s c = s\<lparr>se_pending_capsules := se_pending_capsules s @ [c]\<rparr>"

definition queue_initial_flow_control_capsules :: "session \<Rightarrow> flow_control_limits \<Rightarrow> session" where
  "queue_initial_flow_control_capsules s limits =
    (let s = initialize_local_limits s limits;
         s = (if 0 < fl_max_streams_bidi limits then push_capsule s (MaxStreams True (fl_max_streams_bidi limits)) else s);
         s = (if 0 < fl_max_streams_uni limits then push_capsule s (MaxStreams False (fl_max_streams_uni limits)) else s)
     in if 0 < fl_max_data limits then push_capsule s (MaxData (fl_max_data limits)) else s)"

section \<open>Sending under flow control\<close>

definition can_create_unidirectional_stream :: "session \<Rightarrow> bool" where
  "can_create_unidirectional_stream s \<longleftrightarrow>
    se_can_create_stream (se_state s) \<and>
    (fs_streams_uni_opened (se_flow_state s) < fl_max_streams_uni (se_remote_limits s) \<or> \<not> se_flow_control_enabled s)"

definition can_create_bidirectional_stream :: "session \<Rightarrow> bool" where
  "can_create_bidirectional_stream s \<longleftrightarrow>
    se_can_create_stream (se_state s) \<and>
    (fs_streams_bidi_opened (se_flow_state s) < fl_max_streams_bidi (se_remote_limits s) \<or> \<not> se_flow_control_enabled s)"

definition can_send_data :: "session \<Rightarrow> u64 \<Rightarrow> bool" where
  "can_send_data s bytes \<longleftrightarrow>
    se_can_send (se_state s) \<and>
    (bytes \<le> sat_sub (fl_max_data (se_remote_limits s)) (fs_data_sent (se_flow_state s)) \<or> \<not> se_flow_control_enabled s)"

text \<open>The places that \<^verbatim>\<open>try_open_stream\<close> borrows, by direction.\<close>

definition opened_of :: "session \<Rightarrow> bool \<Rightarrow> u64" where
  "opened_of s bidirectional =
    (if bidirectional then fs_streams_bidi_opened (se_flow_state s) else fs_streams_uni_opened (se_flow_state s))"

definition set_opened :: "session \<Rightarrow> bool \<Rightarrow> u64 \<Rightarrow> session" where
  "set_opened s bidirectional n =
    s\<lparr>se_flow_state :=
      (if bidirectional then (se_flow_state s)\<lparr>fs_streams_bidi_opened := n\<rparr>
       else (se_flow_state s)\<lparr>fs_streams_uni_opened := n\<rparr>)\<rparr>"

definition limit_of :: "session \<Rightarrow> bool \<Rightarrow> u64" where
  "limit_of s bidirectional =
    (if bidirectional then fl_max_streams_bidi (se_remote_limits s) else fl_max_streams_uni (se_remote_limits s))"

definition last_blocked_of :: "session \<Rightarrow> bool \<Rightarrow> u64 option" where
  "last_blocked_of s bidirectional =
    (if bidirectional then last_streams_blocked_bidi (se_send_blocked s)
     else last_streams_blocked_uni (se_send_blocked s))"

definition set_last_blocked :: "session \<Rightarrow> bool \<Rightarrow> u64 option \<Rightarrow> session" where
  "set_last_blocked s bidirectional m =
    s\<lparr>se_send_blocked :=
      (if bidirectional then (se_send_blocked s)\<lparr>last_streams_blocked_bidi := m\<rparr>
       else (se_send_blocked s)\<lparr>last_streams_blocked_uni := m\<rparr>)\<rparr>"

definition try_open_stream :: "session \<Rightarrow> bool \<Rightarrow> session \<times> bool" where
  "try_open_stream s bidirectional =
    (if \<not> se_can_create_stream (se_state s) then (s, False)
     else
       let opened = opened_of s bidirectional; limit = limit_of s bidirectional;
           last_blocked = last_blocked_of s bidirectional in
       if \<not> se_flow_control_enabled s then (set_opened s bidirectional (sat_add opened 1), True)
       else if opened < limit then (set_opened s bidirectional (sat_add opened 1), True)
       else if se_flow_control_enabled s \<and> last_blocked \<noteq> Some limit then
         (push_capsule (set_last_blocked s bidirectional (Some limit)) (StreamsBlocked bidirectional limit), False)
       else (s, False))"

definition try_send_data :: "session \<Rightarrow> u64 \<Rightarrow> session \<times> bool" where
  "try_send_data s bytes =
    (let sent = s\<lparr>se_flow_state := (se_flow_state s)\<lparr>fs_data_sent := sat_add (fs_data_sent (se_flow_state s)) bytes\<rparr>\<rparr> in
     if \<not> se_can_send (se_state s) then (s, False)
     else if \<not> se_flow_control_enabled s then (sent, True)
     else if bytes \<le> sat_sub (fl_max_data (se_remote_limits s)) (fs_data_sent (se_flow_state s)) then (sent, True)
     else if se_flow_control_enabled s then
       let limit = fl_max_data (se_remote_limits s) in
       if last_data_blocked (se_send_blocked s) \<noteq> Some limit then
         (push_capsule (s\<lparr>se_send_blocked := (se_send_blocked s)\<lparr>last_data_blocked := Some limit\<rparr>\<rparr>)
            (DataBlocked limit), False)
       else (s, False)
     else (s, False))"

section \<open>Receiving under flow control\<close>

definition check_received_data :: "session \<Rightarrow> u64 \<Rightarrow> bool" where
  "check_received_data s bytes \<longleftrightarrow>
    (if \<not> se_flow_control_enabled s then True else df_check_received (se_recv_data_fc s) bytes)"

definition add_received_data :: "session \<Rightarrow> u64 \<Rightarrow> session" where
  "add_received_data s bytes =
    s\<lparr>se_flow_state := (se_flow_state s)\<lparr>fs_data_received := sat_add (fs_data_received (se_flow_state s)) bytes\<rparr>,
      se_recv_data_fc := df_on_data_received (se_recv_data_fc s) bytes\<rparr>"

definition recv_stream_fc :: "session \<Rightarrow> bool \<Rightarrow> stream_flow_control" where
  "recv_stream_fc s bidirectional = (if bidirectional then se_recv_stream_fc_bidi s else se_recv_stream_fc_uni s)"

definition set_recv_stream_fc :: "session \<Rightarrow> bool \<Rightarrow> stream_flow_control \<Rightarrow> session" where
  "set_recv_stream_fc s bidirectional fc =
    (if bidirectional then s\<lparr>se_recv_stream_fc_bidi := fc\<rparr> else s\<lparr>se_recv_stream_fc_uni := fc\<rparr>)"

definition check_received_stream :: "session \<Rightarrow> bool \<Rightarrow> bool" where
  "check_received_stream s bidirectional \<longleftrightarrow>
    (if \<not> se_flow_control_enabled s then True
     else if bidirectional then sf_check_received (se_recv_stream_fc_bidi s)
     else sf_check_received (se_recv_stream_fc_uni s))"

definition add_received_stream :: "session \<Rightarrow> bool \<Rightarrow> session" where
  "add_received_stream s bidirectional =
    (if bidirectional then
       s\<lparr>se_flow_state := (se_flow_state s)\<lparr>fs_streams_bidi_received :=
            sat_add (fs_streams_bidi_received (se_flow_state s)) 1\<rparr>,
         se_recv_stream_fc_bidi := sf_on_stream_received (se_recv_stream_fc_bidi s)\<rparr>
     else
       s\<lparr>se_flow_state := (se_flow_state s)\<lparr>fs_streams_uni_received :=
            sat_add (fs_streams_uni_received (se_flow_state s)) 1\<rparr>,
         se_recv_stream_fc_uni := sf_on_stream_received (se_recv_stream_fc_uni s)\<rparr>)"

definition on_remote_stream_closed :: "session \<Rightarrow> bool \<Rightarrow> session" where
  "on_remote_stream_closed s bidirectional =
    (if \<not> se_flow_control_enabled s \<or> se_is_closed s then s
     else
       case sf_on_stream_closed (recv_stream_fc s bidirectional) of (fc, update) \<Rightarrow>
         let s = set_recv_stream_fc s bidirectional fc in
         case update of
           None \<Rightarrow> s
         | Some new_max \<Rightarrow>
             let s = push_capsule s (MaxStreams bidirectional new_max) in
             s\<lparr>se_local_limits :=
               (if bidirectional then (se_local_limits s)\<lparr>fl_max_streams_bidi := new_max\<rparr>
                else (se_local_limits s)\<lparr>fl_max_streams_uni := new_max\<rparr>)\<rparr>)"

definition se_on_data_consumed :: "session \<Rightarrow> u64 \<Rightarrow> session" where
  "se_on_data_consumed s bytes =
    (if \<not> se_flow_control_enabled s \<or> se_is_closed s then s
     else
       case df_on_data_consumed (se_recv_data_fc s) bytes of (fc, update) \<Rightarrow>
         let s = s\<lparr>se_recv_data_fc := fc\<rparr> in
         case update of
           None \<Rightarrow> s
         | Some new_max \<Rightarrow>
             let s = push_capsule s (MaxData new_max) in
             s\<lparr>se_local_limits := (se_local_limits s)\<lparr>fl_max_data := new_max\<rparr>\<rparr>)"

definition add_received_datagram :: "session \<Rightarrow> session" where
  "add_received_datagram s =
    s\<lparr>se_flow_state := (se_flow_state s)\<lparr>fs_datagrams_received := sat_add (fs_datagrams_received (se_flow_state s)) 1\<rparr>\<rparr>"

section \<open>Capsules and the end of a session\<close>

definition queue_capsule :: "session \<Rightarrow> capsule \<Rightarrow> session" where
  "queue_capsule s c = (if se_is_closed s then s else push_capsule s c)"

definition take_pending_capsules :: "session \<Rightarrow> session \<times> capsule list" where
  "take_pending_capsules s = (s\<lparr>se_pending_capsules := []\<rparr>, se_pending_capsules s)"

definition close_with_error :: "session \<Rightarrow> u32 \<Rightarrow> bytes \<Rightarrow> session" where
  "close_with_error s c message =
    (if se_is_closed s then s
     else
       let message =
             (if MAX_CLOSE_SESSION_MESSAGE_LEN < length message
              then take (boundary_before message MAX_CLOSE_SESSION_MESSAGE_LEN) message else message);
           application_error = wt_application c message;
           s = queue_capsule s (CloseSession c message);
           s = s\<lparr>se_close_session_sent := True\<rparr>
       in se_close s (Some application_error))"

definition se_drain :: "session \<Rightarrow> session" where
  "se_drain s = (if se_state s = SeEstablished then se_set_draining (queue_capsule s DrainSession) else s)"

definition buffer_incoming_stream :: "session \<Rightarrow> u64 \<Rightarrow> bool \<Rightarrow> session \<times> bool" where
  "buffer_incoming_stream s stream_id is_bidirectional =
    (if MAX_BUFFERED_STREAMS \<le> length (se_buffered_streams s) then (s, False)
     else
       (s\<lparr>se_buffered_streams := se_buffered_streams s @
            [\<lparr>bs_stream_id = stream_id, bs_is_bidirectional = is_bidirectional\<rparr>]\<rparr>, True))"

definition take_buffered_streams :: "session \<Rightarrow> session \<times> buffered_stream list" where
  "take_buffered_streams s = (s\<lparr>se_buffered_streams := []\<rparr>, se_buffered_streams s)"

definition buffer_datagram :: "session \<Rightarrow> bytes \<Rightarrow> session \<times> bool" where
  "buffer_datagram s data =
    (if MAX_BUFFERED_DATAGRAMS \<le> length (se_buffered_datagrams s) then (s, False)
     else (s\<lparr>se_buffered_datagrams := se_buffered_datagrams s @ [data]\<rparr>, True))"

definition take_buffered_datagrams :: "session \<Rightarrow> session \<times> bytes list" where
  "take_buffered_datagrams s = (s\<lparr>se_buffered_datagrams := []\<rparr>, se_buffered_datagrams s)"

definition se_handle_goaway :: "session \<Rightarrow> session" where
  "se_handle_goaway s = se_set_draining (s\<lparr>se_goaway_received := True\<rparr>)"

definition take_pending_stream_resets :: "session \<Rightarrow> session \<times> u64 list" where
  "take_pending_stream_resets s = (s\<lparr>se_pending_stream_resets := []\<rparr>, se_pending_stream_resets s)"

definition on_connect_stream_closed :: "session \<Rightarrow> session" where
  "on_connect_stream_closed s =
    (if \<not> se_close_session_received s then
       se_close (s\<lparr>se_close_session_received := True\<rparr>) (Some (wt_application 0 []))
     else s)"

definition flow_control_error :: capsule_process_error where
  "flow_control_error = SessionError (WtProtocol FlowControlError)"

definition process_capsule :: "session \<Rightarrow> capsule \<Rightarrow> session \<times> (capsule_process_error + unit)" where
  "process_capsule s c =
    (if is_prohibited_in_http3 c then
       (s, Inl (SessionError (wt_application 0 (ascii ''prohibited capsule received''))))
     else if \<not> se_flow_control_enabled s \<and> is_flow_control c then (s, Inr ())
     else
       case c of
         CloseSession error_code message \<Rightarrow>
           (se_close (s\<lparr>se_close_session_received := True\<rparr>) (Some (wt_application error_code message)), Inr ())
       | DrainSession \<Rightarrow> (se_set_draining s, Inr ())
       | MaxData maximum \<Rightarrow>
           if maximum \<le> fl_max_data (se_remote_limits s) then (s, Inl flow_control_error)
           else
             (s\<lparr>se_remote_limits := (se_remote_limits s)\<lparr>fl_max_data := maximum\<rparr>,
                se_send_blocked := (se_send_blocked s)\<lparr>last_data_blocked := None\<rparr>\<rparr>, Inr ())
       | MaxStreams bidirectional maximum \<Rightarrow>
           if MAX_STREAMS_LIMIT < maximum then (s, Inl flow_control_error)
           else if bidirectional then
             if maximum \<le> fl_max_streams_bidi (se_remote_limits s) then (s, Inl flow_control_error)
             else
               (s\<lparr>se_remote_limits := (se_remote_limits s)\<lparr>fl_max_streams_bidi := maximum\<rparr>,
                  se_send_blocked := (se_send_blocked s)\<lparr>last_streams_blocked_bidi := None\<rparr>\<rparr>, Inr ())
           else if maximum \<le> fl_max_streams_uni (se_remote_limits s) then (s, Inl flow_control_error)
           else
             (s\<lparr>se_remote_limits := (se_remote_limits s)\<lparr>fl_max_streams_uni := maximum\<rparr>,
                se_send_blocked := (se_send_blocked s)\<lparr>last_streams_blocked_uni := None\<rparr>\<rparr>, Inr ())
       | DataBlocked maximum \<Rightarrow> (s, Inr ())
       | StreamsBlocked bidirectional maximum \<Rightarrow>
           if MAX_STREAMS_LIMIT < maximum then (s, Inl flow_control_error) else (s, Inr ())
       | UnknownCapsule t payload \<Rightarrow> (s, Inr ()))"

section \<open>Steps of a session\<close>

text \<open>Every public operation, as a step of the session's state machine.\<close>

datatype session_op =
    OpConnecting | OpEstablished | OpDraining | OpClose "wt_error option" | OpAddStream wt_stream
  | OpRemoveStream u64 | OpFlowControlEnabled bool | OpInitLocal flow_control_limits
  | OpInitRemote flow_control_limits | OpQueueInitial flow_control_limits | OpOpenStream bool
  | OpSendData u64 | OpReceivedData u64 | OpReceivedStream bool | OpRemoteStreamClosed bool
  | OpDataConsumed u64 | OpReceivedDatagram | OpQueueCapsule capsule | OpTakeCapsules
  | OpCloseWithError u32 bytes | OpDrain | OpBufferStream u64 bool | OpTakeStreams
  | OpBufferDatagram bytes | OpTakeDatagrams | OpGoaway | OpTakeResets | OpConnectStreamClosed
  | OpProcessCapsule capsule

fun session_step :: "session \<Rightarrow> session_op \<Rightarrow> session" where
  "session_step s OpConnecting = se_set_connecting s"
| "session_step s OpEstablished = se_set_established s"
| "session_step s OpDraining = se_set_draining s"
| "session_step s (OpClose e) = se_close s e"
| "session_step s (OpAddStream x) = fst (try_add_stream s x)"
| "session_step s (OpRemoveStream i) = fst (se_remove_stream s i)"
| "session_step s (OpFlowControlEnabled b) = set_flow_control_enabled s b"
| "session_step s (OpInitLocal l) = initialize_local_limits s l"
| "session_step s (OpInitRemote l) = initialize_remote_limits s l"
| "session_step s (OpQueueInitial l) = queue_initial_flow_control_capsules s l"
| "session_step s (OpOpenStream b) = fst (try_open_stream s b)"
| "session_step s (OpSendData n) = fst (try_send_data s n)"
| "session_step s (OpReceivedData n) = add_received_data s n"
| "session_step s (OpReceivedStream b) = add_received_stream s b"
| "session_step s (OpRemoteStreamClosed b) = on_remote_stream_closed s b"
| "session_step s (OpDataConsumed n) = se_on_data_consumed s n"
| "session_step s OpReceivedDatagram = add_received_datagram s"
| "session_step s (OpQueueCapsule c) = queue_capsule s c"
| "session_step s OpTakeCapsules = fst (take_pending_capsules s)"
| "session_step s (OpCloseWithError c m) = close_with_error s c m"
| "session_step s OpDrain = se_drain s"
| "session_step s (OpBufferStream i b) = fst (buffer_incoming_stream s i b)"
| "session_step s OpTakeStreams = fst (take_buffered_streams s)"
| "session_step s (OpBufferDatagram d) = fst (buffer_datagram s d)"
| "session_step s OpTakeDatagrams = fst (take_buffered_datagrams s)"
| "session_step s OpGoaway = se_handle_goaway s"
| "session_step s OpTakeResets = fst (take_pending_stream_resets s)"
| "session_step s OpConnectStreamClosed = on_connect_stream_closed s"
| "session_step s (OpProcessCapsule c) = fst (process_capsule s c)"

text \<open>The states are passed in order.\<close>

fun rank :: "session_state \<Rightarrow> nat" where
  "rank SePending = 0"
| "rank SeConnecting = 1"
| "rank SeEstablished = 2"
| "rank SeDraining = 3"
| "rank SeClosed = 4"

lemma push_capsule_frame [simp]:
  "se_state (push_capsule s c) = se_state s" "se_streams (push_capsule s c) = se_streams s"
  "se_buffered_streams (push_capsule s c) = se_buffered_streams s"
  "se_buffered_datagrams (push_capsule s c) = se_buffered_datagrams s"
  "se_pending_stream_resets (push_capsule s c) = se_pending_stream_resets s"
  "se_flow_state (push_capsule s c) = se_flow_state s" "se_remote_limits (push_capsule s c) = se_remote_limits s"
  "se_recv_data_fc (push_capsule s c) = se_recv_data_fc s"
  "se_recv_stream_fc_uni (push_capsule s c) = se_recv_stream_fc_uni s"
  "se_recv_stream_fc_bidi (push_capsule s c) = se_recv_stream_fc_bidi s"
  "se_local_limits (push_capsule s c) = se_local_limits s"
  "se_flow_control_enabled (push_capsule s c) = se_flow_control_enabled s"
  "se_send_blocked (push_capsule s c) = se_send_blocked s"
  "se_pending_capsules (push_capsule s c) = se_pending_capsules s @ [c]"
  by (simp_all add: push_capsule_def)

section \<open>Properties of the life cycle\<close>

lemma set_stream_ids: "finite (dom (se_streams s)) \<Longrightarrow> set (stream_ids_to_reset s) = dom (se_streams s)"
  by (simp add: stream_ids_to_reset_def)

lemmas session_simps =
  se_set_connecting_def se_set_established_def se_set_draining_def se_close_def try_add_stream_def
  se_remove_stream_def set_flow_control_enabled_def initialize_local_limits_def initialize_remote_limits_def
  queue_initial_flow_control_capsules_def try_open_stream_def try_send_data_def add_received_data_def
  add_received_stream_def on_remote_stream_closed_def se_on_data_consumed_def add_received_datagram_def
  queue_capsule_def take_pending_capsules_def close_with_error_def se_drain_def buffer_incoming_stream_def
  take_buffered_streams_def buffer_datagram_def take_buffered_datagrams_def se_handle_goaway_def
  take_pending_stream_resets_def on_connect_stream_closed_def process_capsule_def set_opened_def
  set_last_blocked_def set_recv_stream_fc_def Let_def

lemma session_step_state:
  "rank (se_state s) \<le> rank (se_state (session_step s x))"
  by (cases x; cases "se_state s")
    (auto simp: session_simps se_is_closed_def se_can_create_stream_def se_can_send_def
      split: if_splits option.splits prod.splits capsule.splits)

lemma session_step_closes:
  assumes "finite (dom (se_streams s))" "se_state s \<noteq> SeClosed" "se_state (session_step s x) = SeClosed"
  shows "set (se_pending_stream_resets (session_step s x)) = dom (se_streams s)"
  using assms set_stream_ids
  by (cases x; cases "se_state s")
    (auto simp: session_simps se_is_closed_def se_can_create_stream_def se_can_send_def stream_ids_to_reset_def
      split: if_splits option.splits prod.splits capsule.splits)

lemma session_step_streams:
  "se_state s = SeClosed \<Longrightarrow> dom (se_streams (session_step s x)) \<subseteq> dom (se_streams s)"
  "finite (dom (se_streams s)) \<Longrightarrow> finite (dom (se_streams (session_step s x)))"
  by (cases x; auto simp: session_simps se_is_closed_def split: if_splits option.splits prod.splits capsule.splits)+

lemma session_step_buffers:
  "length (se_buffered_streams s) \<le> MAX_BUFFERED_STREAMS \<Longrightarrow>
    length (se_buffered_streams (session_step s x)) \<le> MAX_BUFFERED_STREAMS"
  "length (se_buffered_datagrams s) \<le> MAX_BUFFERED_DATAGRAMS \<Longrightarrow>
    length (se_buffered_datagrams (session_step s x)) \<le> MAX_BUFFERED_DATAGRAMS"
  by (cases x; auto simp: session_simps split: if_splits option.splits prod.splits capsule.splits)+

lemma session_step_silent:
  "se_state s = SeClosed \<Longrightarrow> \<forall>l. x \<noteq> OpQueueInitial l \<Longrightarrow>
    set (se_pending_capsules (session_step s x)) \<subseteq> set (se_pending_capsules s)"
  by (cases x) (auto simp: session_simps se_is_closed_def se_can_create_stream_def se_can_send_def
      split: if_splits option.splits prod.splits capsule.splits)

text \<open>
  C29: The life of a session.  Whatever operations are called in whatever order, the state only moves
  forward, at most 100 streams and 100 datagrams wait for a session, and the step that closes it
  schedules exactly its streams for a reset.  A closed session stays closed, takes no new stream
  and - apart from the initial announcement of limits - queues no capsule.
\<close>

theorem session_lifecycle:
  assumes "s = fold (\<lambda>x s. session_step s x) xs (session_new i)"
  shows "rank (se_state s) \<le> rank (se_state (session_step s x)) \<and>
    length (se_buffered_streams s) \<le> MAX_BUFFERED_STREAMS \<and>
    length (se_buffered_datagrams s) \<le> MAX_BUFFERED_DATAGRAMS \<and>
    (se_state s \<noteq> SeClosed \<and> se_state (session_step s x) = SeClosed \<longrightarrow>
      set (se_pending_stream_resets (session_step s x)) = dom (se_streams s)) \<and>
    (se_state s = SeClosed \<longrightarrow>
      se_state (session_step s x) = SeClosed \<and>
      dom (se_streams (session_step s x)) \<subseteq> dom (se_streams s) \<and>
      ((\<forall>l. x \<noteq> OpQueueInitial l) \<longrightarrow>
        set (se_pending_capsules (session_step s x)) \<subseteq> set (se_pending_capsules s)))"
proof -
  have inv: "finite (dom (se_streams s)) \<and> length (se_buffered_streams s) \<le> MAX_BUFFERED_STREAMS \<and>
      length (se_buffered_datagrams s) \<le> MAX_BUFFERED_DATAGRAMS"
    unfolding assms
    by (induction xs rule: rev_induct)
      (simp_all add: session_new_def session_step_streams(2) session_step_buffers)
  moreover have "se_state (session_step s x) = SeClosed" if "se_state s = SeClosed"
    using session_step_state [of s x] that by (cases "se_state (session_step s x)") simp_all
  ultimately show ?thesis
    using session_step_state [of s x] session_step_closes [of s x] session_step_streams(1) [of s x]
      session_step_silent [of s x] by blast
qed

theorem session_lifecycle_witness:
  "set (se_pending_stream_resets
      (session_step (fold (\<lambda>x s. session_step s x)
        [OpConnecting, OpEstablished, OpAddStream (wt_stream_new 4 0 True)] (session_new 0)) (OpCloseWithError 1 []))) = {4}"
  (is "set (se_pending_stream_resets (session_step ?s ?x)) = _")
proof -
  have s: "se_streams ?s = [4 \<mapsto> wt_stream_new 4 0 True]" "se_state ?s = SeEstablished"
    by (simp_all add: session_new_def session_simps se_is_closed_def wt_stream_new_def)
  have "se_state (session_step ?s ?x) = SeClosed"
    using s(2) by (simp add: close_with_error_def se_is_closed_def se_close_def Let_def)
  with session_lifecycle [OF refl, where i = 0 and x = ?x and
      xs = "[OpConnecting, OpEstablished, OpAddStream (wt_stream_new 4 0 True)]"] s
  show ?thesis by simp
qed

end
