(* ===== verification/Session_Link.thy ===== *)
theory Session_Link
  imports Session
begin

text \<open>
  Two sessions connected by the network: \<open>la\<close> sends data and opens streams, \<open>lb\<close> grants the
  limits.  Data and streams travel on their own streams, in any order relative to the capsules of
  the CONNECT stream, which arrive in order.  Three things are limited the same way - data and the
  streams of the two directions - and are handled together as \<open>channel\<close>s.
\<close>

section \<open>Channels\<close>

datatype channel = ChData | ChStreams bool

definition granted :: "session \<Rightarrow> channel \<Rightarrow> nat" where
  "granted s k = (case k of ChData \<Rightarrow> fl_max_data (se_remote_limits s) | ChStreams d \<Rightarrow> limit_of s d)"

definition sent :: "session \<Rightarrow> channel \<Rightarrow> nat" where
  "sent s k = (case k of ChData \<Rightarrow> fs_data_sent (se_flow_state s) | ChStreams d \<Rightarrow> opened_of s d)"

definition advertised :: "session \<Rightarrow> channel \<Rightarrow> nat" where
  "advertised s k =
    (case k of ChData \<Rightarrow> df_advertised_max (se_recv_data_fc s)
     | ChStreams d \<Rightarrow> sf_advertised_max (recv_stream_fc s d))"

definition arrived :: "session \<Rightarrow> channel \<Rightarrow> nat" where
  "arrived s k =
    (case k of ChData \<Rightarrow> df_total_received (se_recv_data_fc s)
     | ChStreams d \<Rightarrow> sf_total_received (recv_stream_fc s d))"

definition consumed :: "session \<Rightarrow> channel \<Rightarrow> nat" where
  "consumed s k =
    (case k of ChData \<Rightarrow> df_total_consumed (se_recv_data_fc s)
     | ChStreams d \<Rightarrow> sf_total_closed (recv_stream_fc s d))"

fun amount :: "channel \<Rightarrow> nat \<Rightarrow> nat" where
  "amount ChData n = n"
| "amount (ChStreams _) n = 1"

fun ch_send :: "channel \<Rightarrow> nat \<Rightarrow> session \<Rightarrow> session \<times> bool" where
  "ch_send ChData n s = try_send_data s n"
| "ch_send (ChStreams d) n s = try_open_stream s d"

fun ch_check :: "channel \<Rightarrow> nat \<Rightarrow> session \<Rightarrow> bool" where
  "ch_check ChData n s = check_received_data s n"
| "ch_check (ChStreams d) n s = check_received_stream s d"

fun ch_add :: "channel \<Rightarrow> nat \<Rightarrow> session \<Rightarrow> session" where
  "ch_add ChData n s = add_received_data s n"
| "ch_add (ChStreams d) n s = add_received_stream s d"

fun ch_consume :: "channel \<Rightarrow> nat \<Rightarrow> session \<Rightarrow> session" where
  "ch_consume ChData n s = se_on_data_consumed s n"
| "ch_consume (ChStreams d) n s = on_remote_stream_closed s d"

fun ch_capsule :: "channel \<Rightarrow> nat \<Rightarrow> capsule" where
  "ch_capsule ChData m = MaxData m"
| "ch_capsule (ChStreams d) m = MaxStreams d m"

section \<open>The connected sessions\<close>

record session_link =
  la :: session
  lb :: session
  l_capsules :: "capsule list"
  l_flying :: "channel \<Rightarrow> nat"
  l_accused :: bool

definition slink_start :: "flow_control_limits \<Rightarrow> u64 \<Rightarrow> session_link" where
  "slink_start limits i =
    \<lparr>la = se_set_established (initialize_remote_limits (session_new i) limits),
     lb = se_set_established (initialize_local_limits (session_new i) limits),
     l_capsules = [], l_flying = (\<lambda>_. 0), l_accused = False\<rparr>"

text \<open>
  The limited side tries to send; what it sent arrives in any portions; the other side checks and
  records it, consumes it and sends its capsules; a failed check or a refused capsule accuses the peer.
\<close>

inductive slink_step :: "session_link \<Rightarrow> session_link \<Rightarrow> bool" where
  send: "ch_send k n (la l) = (s, ok) \<Longrightarrow>
    slink_step l (l\<lparr>la := s, l_flying := (if ok then (l_flying l)(k := l_flying l k + amount k n) else l_flying l)\<rparr>)"
| arrive: "amount k n \<le> l_flying l k \<Longrightarrow>
    slink_step l
      (if ch_check k n (lb l)
       then l\<lparr>lb := ch_add k n (lb l), l_flying := (l_flying l)(k := l_flying l k - amount k n)\<rparr>
       else l\<lparr>l_accused := True\<rparr>)"
| consume: "consumed (lb l) k + amount k n \<le> arrived (lb l) k \<Longrightarrow> slink_step l (l\<lparr>lb := ch_consume k n (lb l)\<rparr>)"
| flush: "take_pending_capsules (lb l) = (s, cs) \<Longrightarrow> slink_step l (l\<lparr>lb := s, l_capsules := l_capsules l @ cs\<rparr>)"
| deliver: "l_capsules l = c # cs \<Longrightarrow> process_capsule (la l) c = (s, r) \<Longrightarrow>
    slink_step l (l\<lparr>la := s, l_capsules := cs, l_accused := (l_accused l \<or> r \<noteq> Inr ())\<rparr>)"

inductive_cases slink_stepE: "slink_step l l'"

inductive slink_reachable :: "flow_control_limits \<Rightarrow> u64 \<Rightarrow> session_link \<Rightarrow> bool" for limits i where
  start: "slink_reachable limits i (slink_start limits i)"
| step: "slink_reachable limits i l \<Longrightarrow> slink_step l l' \<Longrightarrow> slink_reachable limits i l'"

section \<open>What the operations do to the channels\<close>

definition on :: "session \<Rightarrow> bool" where
  "on s \<longleftrightarrow> se_flow_control_enabled s \<and> se_state s = SeEstablished"

text \<open>The granting side is well formed.\<close>

definition granter :: "session \<Rightarrow> bool" where
  "granter s \<longleftrightarrow> on s \<and> dw.good (se_recv_data_fc s) \<and>
    (\<forall>d. sw.good (recv_stream_fc s d) \<and> sf_concurrent_limit (recv_stream_fc s d) \<le> MAX_STREAMS_LIMIT)"

lemmas channel_simps = granted_def sent_def advertised_def arrived_def consumed_def

lemma recv_stream_fc_add:
  "recv_stream_fc (add_received_data s n) = recv_stream_fc s"
  "recv_stream_fc (add_received_stream s d) = (recv_stream_fc s)(d := sf_on_stream_received (recv_stream_fc s d))"
  "se_recv_data_fc (add_received_data s n) = df_on_data_received (se_recv_data_fc s) n"
  "se_recv_data_fc (add_received_stream s d) = se_recv_data_fc s"
  "on (add_received_data s n) = on s" "on (add_received_stream s d) = on s"
  "se_pending_capsules (add_received_data s n) = se_pending_capsules s"
  "se_pending_capsules (add_received_stream s d) = se_pending_capsules s"
  by (auto simp: recv_stream_fc_def add_received_data_def add_received_stream_def on_def fun_eq_iff)

lemma ch_send_effect:
  assumes "ch_send k n s = (s', ok)" "on s" "granted s k \<le> u64_max" "sent s k \<le> granted s k"
  shows "on s' \<and> granted s' = granted s \<and>
    sent s' = (if ok then (sent s)(k := sent s k + amount k n) else sent s) \<and> sent s' k \<le> granted s k"
proof (cases k)
  case ChData
  with assms show ?thesis
    by (auto simp: try_send_data_def on_def se_can_send_def channel_simps limit_of_def opened_of_def sat_add_def sat_sub_def fun_eq_iff Let_def
        split: if_splits channel.splits)
next
  case (ChStreams d)
  with assms show ?thesis
    by (cases d) (auto simp: try_open_stream_def on_def se_can_create_stream_def channel_simps limit_of_def opened_of_def sat_add_def
        set_opened_def set_last_blocked_def fun_eq_iff Let_def split: if_splits channel.splits)
qed

lemma granter_bounds:
  assumes "granter s"
  shows "advertised s k \<le> u64_max" "arrived s k \<le> advertised s k" "consumed s k \<le> arrived s k"
    "advertised s (ChStreams d) \<le> MAX_STREAMS_LIMIT"
proof -
  have dw: "dw.good (se_recv_data_fc s)" using assms by (simp add: granter_def)
  have sw: "sw.good (recv_stream_fc s d)" "sf_concurrent_limit (recv_stream_fc s d) \<le> MAX_STREAMS_LIMIT" for d
    using assms by (simp_all add: granter_def)
  show "advertised s k \<le> u64_max" "arrived s k \<le> advertised s k" "consumed s k \<le> arrived s k"
    using dw.good_bound [OF dw] sw.good_bound [OF sw(1)] dw sw(1)
    by (cases k; auto simp: advertised_def arrived_def consumed_def dw.good_def sw.good_def)+
  show "advertised s (ChStreams d) \<le> MAX_STREAMS_LIMIT"
    using sw [of d] by (auto simp: advertised_def sw.good_def)
qed

lemma ch_check_passes:
  assumes "on s" "arrived s k + amount k n \<le> advertised s k"
  shows "ch_check k n s"
  using assms by (cases k) (auto simp: on_def check_received_data_def check_received_stream_def
      df_check_received_def sf_check_received_def sat_sub_def channel_simps recv_stream_fc_def split: if_splits)

lemma ch_add_effect:
  assumes "granter s" "arrived s k + amount k n \<le> advertised s k"
  shows "granter (ch_add k n s) \<and> advertised (ch_add k n s) = advertised s \<and>
    arrived (ch_add k n s) = (arrived s)(k := arrived s k + amount k n) \<and>
    se_pending_capsules (ch_add k n s) = se_pending_capsules s"
proof (cases k)
  case ChData
  let ?f = "se_recv_data_fc s" and ?g = "df_on_data_received (se_recv_data_fc s) n"
  have "df_step ?f (Arrive n) = Some ?g"
    using assms ChData by (simp add: df_check_received_def sat_sub_def channel_simps)
  moreover have "dw.good ?f" using assms(1) by (simp add: granter_def)
  ultimately have "dw.good ?g" using dw.step_good by blast
  moreover have "sat_add (df_total_received ?f) n = df_total_received ?f + n"
    using assms granter_bounds(1) [OF assms(1), of k] ChData by (simp add: sat_add_def channel_simps)
  ultimately show ?thesis
    using assms(1) ChData
    by (auto simp: granter_def recv_stream_fc_add channel_simps df_on_data_received_def fun_eq_iff
        split: channel.splits)
next
  case (ChStreams d)
  let ?f = "recv_stream_fc s d" and ?g = "sf_on_stream_received (recv_stream_fc s d)"
  have "sf_step ?f (Arrive ()) = Some ?g"
    using assms ChStreams by (simp add: sf_check_received_def channel_simps)
  moreover have "sw.good ?f" using assms(1) by (simp add: granter_def)
  ultimately have "sw.good ?g" using sw.step_good by blast
  moreover have "sat_add (sf_total_received ?f) 1 = sf_total_received ?f + 1"
    using assms granter_bounds(1) [OF assms(1), of k] ChStreams by (simp add: sat_add_def channel_simps)
  ultimately show ?thesis
    using assms(1) ChStreams
    by (auto simp: granter_def recv_stream_fc_add channel_simps sf_on_stream_received_def fun_eq_iff
        split: channel.splits)
qed

lemma ch_consume_effect:
  assumes "granter s" "consumed s k + amount k n \<le> arrived s k" "s' = ch_consume k n s"
  shows "granter s' \<and> arrived s' = arrived s \<and> advertised s k \<le> advertised s' k \<and>
    advertised s' = (advertised s)(k := advertised s' k) \<and>
    se_pending_capsules s' = se_pending_capsules s @
      (if advertised s k < advertised s' k then [ch_capsule k (advertised s' k)] else [])"
proof (cases k)
  case ChData
  let ?f = "se_recv_data_fc s" and ?g = "fst (df_on_data_consumed (se_recv_data_fc s) n)"
  have st: "df_step ?f (Consume n) = Some ?g" using assms(2) ChData by (simp add: channel_simps)
  have f: "dw.good ?f" using assms(1) by (simp add: granter_def)
  note g = dw.step_good [OF st f] and c = dw.consume [OF st] and r = df_consumed_result [of ?f n]
  have "df_total_received ?g = df_total_received ?f"
    using c dw.good_bound [OF f] by auto
  moreover have "se_recv_data_fc s' = ?g" "se_flow_control_enabled s'" "se_state s' = SeEstablished"
    "recv_stream_fc s' = recv_stream_fc s"
    "se_pending_capsules s' = se_pending_capsules s @
      (case snd (df_on_data_consumed ?f n) of None \<Rightarrow> [] | Some m \<Rightarrow> [MaxData m])"
    using assms(1,3) ChData
    by (auto simp: granter_def on_def se_on_data_consumed_def se_is_closed_def recv_stream_fc_def fun_eq_iff Let_def
        split: prod.splits option.splits)
  ultimately show ?thesis
    using g r ChData assms(1)
    by (auto simp: granter_def on_def advertised_def arrived_def fun_eq_iff Let_def split: channel.splits)
next
  case (ChStreams d)
  let ?f = "recv_stream_fc s d" and ?g = "fst (sf_on_stream_closed (recv_stream_fc s d))"
  have st: "sf_step ?f (Consume ()) = Some ?g" using assms(2) ChStreams by (simp add: channel_simps)
  have f: "sw.good ?f" using assms(1) by (simp add: granter_def)
  note g = sw.step_good [OF st f] and c = sw.consume [OF st] and r = sf_closed_result [of ?f]
  have "sf_total_received ?g = sf_total_received ?f"
    using c sw.good_bound [OF f] by auto
  moreover have "recv_stream_fc s' = (recv_stream_fc s)(d := ?g)" "se_flow_control_enabled s'"
    "se_state s' = SeEstablished" "se_recv_data_fc s' = se_recv_data_fc s"
    "se_pending_capsules s' = se_pending_capsules s @
      (case snd (sf_on_stream_closed ?f) of None \<Rightarrow> [] | Some m \<Rightarrow> [MaxStreams d m])"
    using assms(1,3) ChStreams
    by (auto simp: granter_def on_def on_remote_stream_closed_def se_is_closed_def recv_stream_fc_def
        set_recv_stream_fc_def push_capsule_def fun_eq_iff Let_def split: prod.splits option.splits)
  ultimately show ?thesis
    using g r ChStreams assms(1)
    by (auto simp: granter_def on_def advertised_def arrived_def fun_eq_iff Let_def split: channel.splits)
qed

text \<open>A capsule that raises a limit.\<close>

lemma process_update:
  assumes "on s" "c = ch_capsule k m" "granted s k < m" "\<forall>d. k = ChStreams d \<longrightarrow> m \<le> MAX_STREAMS_LIMIT"
  shows "\<exists>s'. process_capsule s c = (s', Inr ()) \<and> on s' \<and> granted s' = (granted s)(k := m) \<and> sent s' = sent s"
  using assms
  by (cases k)
    (auto simp: process_capsule_def on_def channel_simps limit_of_def opened_of_def fun_eq_iff
      is_prohibited_in_http3_def is_prohibited_in_http3_type_def PROHIBITED_WT_MAX_STREAM_DATA_CAPSULE_TYPE_def
      PROHIBITED_WT_STREAM_DATA_BLOCKED_CAPSULE_TYPE_def split: channel.splits if_splits)

text \<open>The limits of one channel that are on their way.\<close>

fun update_of :: "capsule \<Rightarrow> (channel \<times> nat) option" where
  "update_of (MaxData m) = Some (ChData, m)"
| "update_of (MaxStreams d m) = Some (ChStreams d, m)"
| "update_of _ = None"

fun updates :: "channel \<Rightarrow> capsule list \<Rightarrow> nat list" where
  "updates k [] = []"
| "updates k (c # cs) =
    (case update_of c of
       Some (j, m) \<Rightarrow> if j = k then m # updates k cs else updates k cs
     | None \<Rightarrow> updates k cs)"

lemma update_of_capsule [simp]: "update_of (ch_capsule k m) = Some (k, m)"
  by (cases k) simp_all

lemma update_of_Some: "update_of c = Some (k, m) \<longleftrightarrow> c = ch_capsule k m"
  by (cases c; cases k) auto

lemma updates_append: "updates k (xs @ ys) = updates k xs @ updates k ys"
  by (induction xs) (auto split: option.splits)

text \<open>
  The invariant of one channel: everything sent has arrived or is under way, the sender stays below
  what it was granted, and the limits under way increase up to the one advertised last.
\<close>

definition channel_inv :: "session_link \<Rightarrow> channel \<Rightarrow> bool" where
  "channel_inv l k \<longleftrightarrow>
    sent (la l) k = arrived (lb l) k + l_flying l k \<and> sent (la l) k \<le> granted (la l) k \<and>
    sorted_wrt (<) (granted (la l) k # updates k (l_capsules l @ se_pending_capsules (lb l))) \<and>
    last (granted (la l) k # updates k (l_capsules l @ se_pending_capsules (lb l))) = advertised (lb l) k"

definition slink_inv :: "session_link \<Rightarrow> bool" where
  "slink_inv l \<longleftrightarrow>
    on (la l) \<and> granter (lb l) \<and> \<not> l_accused l \<and> (\<forall>k. channel_inv l k) \<and>
    (\<forall>c \<in> set (l_capsules l @ se_pending_capsules (lb l)). update_of c \<noteq> None)"

lemma sorted_last_max: "sorted_wrt (<) (x # xs) \<Longrightarrow> y \<in> set (x # xs) \<Longrightarrow> y \<le> (last (x # xs) :: nat)"
proof (induction xs arbitrary: x y)
  case (Cons z zs)
  have "z \<le> last (z # zs)" using Cons.IH [of z z] Cons.prems(1) by simp
  then show ?case using Cons.IH [of z y] Cons.prems by auto
qed simp

lemma channel_granted:
  assumes "channel_inv l k"
  shows "granted (la l) k \<le> advertised (lb l) k"
proof -
  let ?u = "updates k (l_capsules l @ se_pending_capsules (lb l))"
  have "sorted_wrt (<) (granted (la l) k # ?u)" "last (granted (la l) k # ?u) = advertised (lb l) k"
    using assms by (simp_all only: channel_inv_def)
  with sorted_last_max [of "granted (la l) k" ?u "granted (la l) k"] show ?thesis by simp
qed

lemma send_keeps:
  assumes "slink_inv l" "ch_send k n (la l) = (s, ok)"
  shows "slink_inv (l\<lparr>la := s, l_flying := (if ok then (l_flying l)(k := l_flying l k + amount k n) else l_flying l)\<rparr>)"
proof -
  have i: "on (la l)" "channel_inv l j" for j using assms(1) by (simp_all add: slink_inv_def)
  have "granted (la l) k \<le> u64_max"
    using channel_granted [OF i(2), of k] granter_bounds(1) [of "lb l" k] assms(1) by (simp add: slink_inv_def)
  moreover have "sent (la l) k \<le> granted (la l) k" using i(2) [of k] by (simp add: channel_inv_def)
  ultimately have e: "on s" "granted s = granted (la l)"
    "sent s = (if ok then (sent (la l))(k := sent (la l) k + amount k n) else sent (la l))"
    "sent s k \<le> granted (la l) k"
    using ch_send_effect [OF assms(2) i(1)] by blast+
  have "channel_inv (l\<lparr>la := s, l_flying := (if ok then (l_flying l)(k := l_flying l k + amount k n) else l_flying l)\<rparr>) j" for j
    using i(2) [of j] e by (cases "j = k"; cases ok) (simp_all add: channel_inv_def)
  with assms(1) e(1) show ?thesis by (simp add: slink_inv_def)
qed

lemma arrive_keeps:
  assumes "slink_inv l" "amount k n \<le> l_flying l k"
  shows "ch_check k n (lb l) \<and>
    slink_inv (l\<lparr>lb := ch_add k n (lb l), l_flying := (l_flying l)(k := l_flying l k - amount k n)\<rparr>)"
proof -
  have i: "granter (lb l)" "channel_inv l j" for j using assms(1) by (simp_all add: slink_inv_def)
  have le: "arrived (lb l) k + amount k n \<le> advertised (lb l) k"
    using i(2) [of k] channel_granted [OF i(2), of k] assms(2) by (simp add: channel_inv_def)
  have "on (lb l)" using i(1) by (simp add: granter_def)
  note ok = ch_check_passes [OF this le] and e = ch_add_effect [OF i(1) le]
  have "channel_inv (l\<lparr>lb := ch_add k n (lb l), l_flying := (l_flying l)(k := l_flying l k - amount k n)\<rparr>) j" for j
    using i(2) [of j] e assms(2) by (cases "j = k") (simp_all add: channel_inv_def)
  with assms(1) e ok show ?thesis by (simp add: slink_inv_def)
qed

lemma consume_keeps:
  assumes "slink_inv l" "consumed (lb l) k + amount k n \<le> arrived (lb l) k"
  shows "slink_inv (l\<lparr>lb := ch_consume k n (lb l)\<rparr>)"
proof -
  let ?b = "ch_consume k n (lb l)"
  have i: "granter (lb l)" "channel_inv l j" for j using assms(1) by (simp_all add: slink_inv_def)
  note e = ch_consume_effect [OF i(1) assms(2) refl]
  have adv: "advertised ?b j = advertised (lb l) j" if "j \<noteq> k" for j using e that by (metis fun_upd_other)
  have "channel_inv (l\<lparr>lb := ?b\<rparr>) j" for j
  proof (cases "j = k \<and> advertised (lb l) k < advertised ?b k")
    case True
    let ?u = "granted (la l) k # updates k (l_capsules l @ se_pending_capsules (lb l))"
    have u: "sorted_wrt (<) ?u" "last ?u = advertised (lb l) k" using i(2) [of k] by (simp_all add: channel_inv_def)
    have "\<forall>y \<in> set ?u. y < advertised ?b k"
      using sorted_last_max [OF u(1)] u(2) True by fastforce
    then have "sorted_wrt (<) (?u @ [advertised ?b k])" using u(1) by (simp add: sorted_wrt_append)
    moreover have "updates k (l_capsules l @ se_pending_capsules ?b) =
        updates k (l_capsules l @ se_pending_capsules (lb l)) @ [advertised ?b k]"
      using e True by (simp add: updates_append)
    ultimately show ?thesis using i(2) [of k] e True by (simp add: channel_inv_def)
  next
    case False
    then have "updates j (se_pending_capsules ?b) = updates j (se_pending_capsules (lb l))"
      using e by (auto simp: updates_append)
    moreover have "advertised ?b j = advertised (lb l) j" using False e adv by (cases "j = k") auto
    ultimately show ?thesis using i(2) [of j] e by (simp add: channel_inv_def updates_append)
  qed
  with assms(1) e show ?thesis by (auto simp: slink_inv_def)
qed

lemma flush_keeps:
  assumes "slink_inv l" "take_pending_capsules (lb l) = (s, cs)"
  shows "slink_inv (l\<lparr>lb := s, l_capsules := l_capsules l @ cs\<rparr>)"
proof -
  have s: "s = (lb l)\<lparr>se_pending_capsules := []\<rparr>" "cs = se_pending_capsules (lb l)"
    using assms(2) by (simp_all add: take_pending_capsules_def)
  have same: "granter s = granter (lb l)" "arrived s = arrived (lb l)" "advertised s = advertised (lb l)"
    by (auto simp: s granter_def on_def recv_stream_fc_def channel_simps fun_eq_iff split: channel.splits)
  then have "channel_inv (l\<lparr>lb := s, l_capsules := l_capsules l @ cs\<rparr>) k = channel_inv l k" for k
    by (simp add: channel_inv_def s)
  with assms(1) s same(1) show ?thesis by (simp add: slink_inv_def)
qed

lemma deliver_keeps:
  assumes "slink_inv l" "l_capsules l = c # cs" "process_capsule (la l) c = (s, r)"
  shows "r = Inr () \<and> slink_inv (l\<lparr>la := s, l_capsules := cs, l_accused := (l_accused l \<or> r \<noteq> Inr ())\<rparr>)"
proof -
  have i: "on (la l)" "granter (lb l)" "channel_inv l j" for j using assms(1) by (simp_all add: slink_inv_def)
  obtain k m where k: "update_of c = Some (k, m)" using assms(1,2) by (auto simp: slink_inv_def)
  then have c: "c = ch_capsule k m" by (simp add: update_of_Some)
  let ?u = "granted (la l) k # updates k (l_capsules l @ se_pending_capsules (lb l))"
  have u: "sorted_wrt (<) ?u" "last ?u = advertised (lb l) k" "?u = granted (la l) k # m # updates k (cs @ se_pending_capsules (lb l))"
    using i(3) [of k] assms(2) k by (simp_all add: channel_inv_def)
  then have lt: "granted (la l) k < m" by simp
  have "m \<le> advertised (lb l) k" using sorted_last_max [OF u(1), of m] u(2,3) by simp
  then have "\<forall>d. k = ChStreams d \<longrightarrow> m \<le> MAX_STREAMS_LIMIT"
    using granter_bounds(4) [OF i(2)] order_trans by blast
  from process_update [OF i(1) c lt this] assms(3)
  have e: "r = Inr ()" "on s" "granted s = (granted (la l))(k := m)" "sent s = sent (la l)" by auto
  have "channel_inv (l\<lparr>la := s, l_capsules := cs, l_accused := (l_accused l \<or> r \<noteq> Inr ())\<rparr>) j" for j
  proof (cases "j = k")
    case True
    with u lt e i(3) [of k] show ?thesis by (auto simp: channel_inv_def)
  next
    case False
    with e i(3) [of j] assms(2) k show ?thesis by (simp add: channel_inv_def)
  qed
  with assms(1,2) e show ?thesis by (auto simp: slink_inv_def)
qed

lemma slink_step_inv:
  assumes "slink_step l l'" "slink_inv l"
  shows "slink_inv l'"
  using assms(1)
proof (cases rule: slink_step.cases)
  case (send k n s ok)
  with send_keeps [OF assms(2) send(2)] show ?thesis by simp
next
  case (arrive k n)
  with arrive_keeps [OF assms(2) arrive(2)] show ?thesis by simp
next
  case (consume k n)
  with consume_keeps [OF assms(2) consume(2)] show ?thesis by simp
next
  case (flush s cs)
  with flush_keeps [OF assms(2) flush(2)] show ?thesis by simp
next
  case (deliver c cs s r)
  from deliver_keeps [OF assms(2) deliver(2,3)] show ?thesis unfolding deliver(1) by (rule conjunct2)
qed

lemma slink_start_inv:
  assumes "fl_max_data limits \<le> u64_max" "fl_max_streams_uni limits \<le> MAX_STREAMS_LIMIT"
    "fl_max_streams_bidi limits \<le> MAX_STREAMS_LIMIT"
  shows "slink_inv (slink_start limits i)"
proof -
  have "n \<le> u64_max" if "n \<le> MAX_STREAMS_LIMIT" for n using that by (simp add: MAX_STREAMS_LIMIT_def)
  then have "sw.good (sf_new (fl_max_streams_uni limits))" "sw.good (sf_new (fl_max_streams_bidi limits))"
    "dw.good (df_new (fl_max_data limits))"
    using assms sf_new_good df_new_good by simp_all
  then have "granter (lb (slink_start limits i))" "on (la (slink_start limits i))"
    using assms(2,3)
    by (simp_all add: granter_def on_def slink_start_def se_set_established_def initialize_local_limits_def
        initialize_remote_limits_def session_new_def recv_stream_fc_def sf_new_def)
  moreover have "channel_inv (slink_start limits i) k" for k
    by (cases k)
      (auto simp: channel_inv_def slink_start_def channel_simps limit_of_def opened_of_def se_set_established_def
        initialize_local_limits_def initialize_remote_limits_def session_new_def recv_stream_fc_def sf_new_def
        df_new_def flow_control_state_new_def)
  ultimately show ?thesis
    by (simp add: slink_inv_def) (simp add: slink_start_def se_set_established_def initialize_local_limits_def session_new_def)
qed

lemma slink_reachable_inv:
  assumes "slink_reachable limits i l" "fl_max_data limits \<le> u64_max"
    "fl_max_streams_uni limits \<le> MAX_STREAMS_LIMIT" "fl_max_streams_bidi limits \<le> MAX_STREAMS_LIMIT"
  shows "slink_inv l"
  using assms(1) by induction (use slink_start_inv [OF assms(2-4)] slink_step_inv in auto)

section \<open>Properties of the connected sessions\<close>

text \<open>
  C6: A session that obeys its limits is never accused.  Two sessions that start with the same
  initial limits, in every interleaving of sending, arrival in any portions, consumption and capsule
  delivery: no check of received data or streams fails and no WT_MAX_DATA or WT_MAX_STREAMS capsule
  is refused; the sender never believes in more than what was advertised, and what it has sent is
  what arrived and what is under way.
\<close>

theorem compliant_peer_never_accused:
  assumes "slink_reachable limits i l" "fl_max_data limits < 2 ^ 62"
    "fl_max_streams_uni limits \<le> MAX_STREAMS_LIMIT" "fl_max_streams_bidi limits \<le> MAX_STREAMS_LIMIT"
  shows "\<not> l_accused l \<and>
    (\<forall>k. sent (la l) k = arrived (lb l) k + l_flying l k \<and> sent (la l) k \<le> granted (la l) k \<and>
      granted (la l) k \<le> advertised (lb l) k) \<and>
    (\<forall>k n. amount k n \<le> l_flying l k \<longrightarrow> ch_check k n (lb l))"
proof -
  have inv: "slink_inv l" using slink_reachable_inv [OF assms(1)] assms(2-4) by simp
  then have "channel_inv l k" for k by (simp add: slink_inv_def)
  with channel_granted arrive_keeps [OF inv] inv show ?thesis by (simp add: slink_inv_def channel_inv_def)
qed

theorem compliant_peer_never_accused_witness:
  "\<exists>l. slink_reachable \<lparr>fl_max_streams_uni = 1, fl_max_streams_bidi = 2, fl_max_data = 10\<rparr> 0 l \<and>
    l_flying l ChData = 7 \<and> ch_check ChData 7 (lb l) \<and> \<not> l_accused l"
proof -
  define limits where "limits = \<lparr>fl_max_streams_uni = 1, fl_max_streams_bidi = 2, fl_max_data = 10\<rparr>"
  let ?l = "slink_start limits 0"
  obtain s where s: "ch_send ChData 7 (la ?l) = (s, True)"
    by (simp add: try_send_data_def slink_start_def limits_def se_set_established_def initialize_remote_limits_def
        session_new_def se_can_send_def flow_control_state_new_def sat_sub_def Let_def)
  let ?m = "?l\<lparr>la := s, l_flying := (l_flying ?l)(ChData := 7)\<rparr>"
  have "slink_step ?l ?m" using slink_step.send [OF s] by (simp add: slink_start_def)
  then have m: "slink_reachable limits 0 ?m" using slink_reachable.intros by blast
  have "fl_max_data limits < 2 ^ 62" "fl_max_streams_uni limits \<le> MAX_STREAMS_LIMIT"
    "fl_max_streams_bidi limits \<le> MAX_STREAMS_LIMIT" by (simp_all add: limits_def MAX_STREAMS_LIMIT_def)
  note t = compliant_peer_never_accused [OF m this]
  have "amount ChData 7 \<le> l_flying ?m ChData" by simp
  with t have "ch_check ChData 7 (lb ?m)" "\<not> l_accused ?m" by blast+
  with m show ?thesis unfolding limits_def by (intro exI [of _ ?m]) (simp_all add: limits_def)
qed

end
