(* ===== verification/Receivers.thy ===== *)
theory Receivers
  imports Prelude
begin

text \<open>
  Receiving from a byte stream in pieces.  The receivers of the program (control stream, request
  stream, QPACK streams, capsules) share a contract: bytes are appended to a buffer and a process
  operation is called until it answers that it needs more.  The interface \<open>byte_machine\<close> states
  this contract over a control state and the pending bytes; its main fact is that the events, the
  error and the final state only depend on the bytes, not on how they were cut into pieces.
\<close>

locale byte_machine =
  fixes live :: "'c \<Rightarrow> bool"
    and step :: "'c \<Rightarrow> bytes \<Rightarrow> 'c \<times> bytes \<times> ('e + 'ev option)"
  assumes step_final: "live c \<Longrightarrow> step c b = (c', b', r) \<Longrightarrow> r \<noteq> Inr None \<Longrightarrow>
      step c (b @ d) = (c', b' @ d, r)"
    and step_wait: "live c \<Longrightarrow> step c b = (c', b', Inr None) \<Longrightarrow> step c (b @ d) = step c' (b' @ d)"
    and step_live: "live c \<Longrightarrow> step c b = (c', b', Inr x) \<Longrightarrow> live c'"
    and step_progress: "live c \<Longrightarrow> step c b = (c', b', Inr (Some ev)) \<Longrightarrow> length b' < length b"
begin

text \<open>
  \<open>drain\<close> is the loop that processes until nothing more is complete; every event takes at least
  one byte, so the number of pending bytes is enough fuel (\<open>drain_fuel\<close>).
\<close>

fun drain_n :: "nat \<Rightarrow> 'c \<Rightarrow> bytes \<Rightarrow> 'ev list \<times> 'c \<times> bytes \<times> 'e option" where
  "drain_n 0 c b = ([], c, b, None)"
| "drain_n (Suc n) c b =
    (case step c b of
       (c', b', Inl e) \<Rightarrow> ([], c', b', Some e)
     | (c', b', Inr None) \<Rightarrow> ([], c', b', None)
     | (c', b', Inr (Some ev)) \<Rightarrow> (case drain_n n c' b' of (evs, rest) \<Rightarrow> (ev # evs, rest)))"

definition drain :: "'c \<Rightarrow> bytes \<Rightarrow> 'ev list \<times> 'c \<times> bytes \<times> 'e option" where
  "drain c b = drain_n (Suc (length b)) c b"

lemma drain_fuel: "live c \<Longrightarrow> length b < n \<Longrightarrow> drain_n n c b = drain c b"
proof (induction "length b" arbitrary: n c b rule: less_induct)
  case less
  then obtain m where n: "n = Suc m" by (cases n) auto
  obtain c' b' r where s: "step c b = (c', b', r)" by (cases "step c b") auto
  show ?case
  proof (cases "\<exists>ev. r = Inr (Some ev)")
    case False
    with n s show ?thesis by (cases r) (auto simp: drain_def split: option.splits)
  next
    case True
    then obtain ev where r: "r = Inr (Some ev)" by blast
    have lt: "length b' < length b" using step_progress [OF less.prems(1)] s r by blast
    have l: "live c'" using step_live [OF less.prems(1)] s r by blast
    have "drain_n m c' b' = drain c' b'" "drain_n (length b) c' b' = drain c' b'"
      using less.hyps [OF lt l] lt less.prems(2) n by auto
    with n s r show ?thesis by (simp add: drain_def)
  qed
qed

lemma drain_step:
  assumes "live c"
  shows "drain c b =
    (case step c b of
       (c', b', Inl e) \<Rightarrow> ([], c', b', Some e)
     | (c', b', Inr None) \<Rightarrow> ([], c', b', None)
     | (c', b', Inr (Some ev)) \<Rightarrow> (case drain c' b' of (evs, rest) \<Rightarrow> (ev # evs, rest)))"
proof -
  have "drain_n (length b) c' b' = drain c' b'" if "step c b = (c', b', Inr (Some ev))" for c' b' ev
    using drain_fuel [OF step_live [OF assms that] step_progress [OF assms that]] .
  then show ?thesis
    by (auto simp: drain_def split: prod.splits sum.splits option.splits)
qed

lemma drain_live: "live c \<Longrightarrow> drain c b = (evs, c', b', None) \<Longrightarrow> live c'"
proof (induction "length b" arbitrary: c b evs rule: less_induct)
  case less
  from less.prems show ?case
    by (auto simp: drain_step [of c b] split: prod.splits sum.splits option.splits
        dest: step_live intro: less.hyps [OF step_progress])
qed

text \<open>Draining a longer buffer resumes where draining the shorter one stopped.\<close>

lemma drain_append:
  assumes "live c" "drain c b = (evs, c', b', err)"
  shows "drain c (b @ d) =
    (case err of
       Some e \<Rightarrow> (evs, c', b' @ d, Some e)
     | None \<Rightarrow> (case drain c' (b' @ d) of (evs2, rest) \<Rightarrow> (evs @ evs2, rest)))"
  using assms
proof (induction "length b" arbitrary: c b evs rule: less_induct)
  case less
  obtain c1 b1 r where s: "step c b = (c1, b1, r)" by (cases "step c b") auto
  consider (err) e where "r = Inl e" | (wait) "r = Inr None" | (event) ev where "r = Inr (Some ev)"
    by (cases r) (metis option.exhaust)+
  then show ?case
  proof cases
    case err
    then have "drain c b = ([], c1, b1, Some e)" using s by (simp add: drain_step [OF less.prems(1)])
    moreover have "step c (b @ d) = (c1, b1 @ d, Inl e)"
      using step_final [OF less.prems(1) s] err by simp
    ultimately show ?thesis using less.prems by (simp add: drain_step [of c "b @ d"])
  next
    case wait
    then have d: "drain c b = ([], c1, b1, None)" using s by (simp add: drain_step [OF less.prems(1)])
    have "step c (b @ d) = step c1 (b1 @ d)" using step_wait [OF less.prems(1)] s wait by blast
    moreover have "live c1" using step_live [OF less.prems(1)] s wait by blast
    ultimately have "drain c (b @ d) = drain c1 (b1 @ d)"
      using less.prems(1) by (simp add: drain_step)
    with d less.prems(2) show ?thesis by (auto split: prod.splits)
  next
    case event
    have lt: "length b1 < length b" using step_progress [OF less.prems(1)] s event by blast
    have l: "live c1" using step_live [OF less.prems(1)] s event by blast
    obtain evs1 where evs: "evs = ev # evs1" and d: "drain c1 b1 = (evs1, c', b', err)"
      using less.prems s event by (auto simp: drain_step [OF less.prems(1)] split: prod.splits)
    have "step c (b @ d) = (c1, b1 @ d, Inr (Some ev))"
      using step_final [OF less.prems(1) s] event by simp
    then show ?thesis
      using less.hyps [OF lt l d] less.prems(1) evs
      by (simp add: drain_step [of c "b @ d"] split: option.splits prod.splits)
  qed
qed

text \<open>Pieces arrive one after the other and are drained; an error ends the reception.\<close>

fun feed :: "'c \<Rightarrow> bytes \<Rightarrow> bytes list \<Rightarrow> 'ev list \<times> 'c \<times> bytes \<times> 'e option" where
  "feed c b [] = ([], c, b, None)"
| "feed c b (d # ds) =
    (case drain c (b @ d) of
       (evs, c', b', Some e) \<Rightarrow> (evs, c', b' @ concat ds, Some e)
     | (evs, c', b', None) \<Rightarrow> (case feed c' b' ds of (evs2, rest) \<Rightarrow> (evs @ evs2, rest)))"

theorem feed_concat:
  assumes "live c" "ds \<noteq> []"
  shows "feed c b ds = drain c (b @ concat ds)"
  using assms
proof (induction ds arbitrary: c b)
  case (Cons d ds)
  obtain evs c' b' err where dr: "drain c (b @ d) = (evs, c', b', err)"
    by (cases "drain c (b @ d)") auto
  note app = drain_append [OF Cons.prems(1) dr, of "concat ds"]
  show ?case
  proof (cases err)
    case None
    show ?thesis
    proof (cases "ds = []")
      case True
      then show ?thesis using dr None by simp
    next
      case False
      have "live c'" using drain_live [OF Cons.prems(1)] dr None by blast
      from Cons.IH [OF this False, of b'] app dr None show ?thesis by simp
    qed
  qed (use app dr in simp)
qed simp

end

text \<open>
  A receiver of the program is an object: \<open>push\<close> appends what arrived and \<open>process\<close> answers one
  question.  Seen through its control state \<open>ctl\<close> and its pending bytes it is a byte machine.
\<close>

locale byte_receiver = byte_machine live step
  for live :: "'c \<Rightarrow> bool" and step :: "'c \<Rightarrow> bytes \<Rightarrow> 'c \<times> bytes \<times> ('e + 'ev option)" +
  fixes inv :: "'s \<Rightarrow> bool"
    and ctl :: "'s \<Rightarrow> 'c"
    and pending :: "'s \<Rightarrow> bytes"
    and push :: "'s \<Rightarrow> bytes \<Rightarrow> 's"
    and process :: "'s \<Rightarrow> 's \<times> ('e + 'ev option)"
  assumes push_keeps: "inv s \<Longrightarrow> inv (push s d) \<and> ctl (push s d) = ctl s \<and> pending (push s d) = pending s @ d"
    and process_is_step: "inv s \<Longrightarrow> process s = (s', r) \<Longrightarrow>
      step (ctl s) (pending s) = (ctl s', pending s', r) \<and> (\<forall>x. r = Inr x \<longrightarrow> inv s')"
begin

text \<open>The caller processes until nothing is left to do, for every piece that arrives.\<close>

fun poll :: "nat \<Rightarrow> 's \<Rightarrow> 'ev list \<times> 's \<times> 'e option" where
  "poll 0 s = ([], s, None)"
| "poll (Suc n) s =
    (case process s of
       (s', Inl e) \<Rightarrow> ([], s', Some e)
     | (s', Inr None) \<Rightarrow> ([], s', None)
     | (s', Inr (Some ev)) \<Rightarrow> (case poll n s' of (evs, rest) \<Rightarrow> (ev # evs, rest)))"

fun deliver :: "'s \<Rightarrow> bytes list \<Rightarrow> 'ev list \<times> 's \<times> 'e option" where
  "deliver s [] = ([], s, None)"
| "deliver s (d # ds) =
    (case poll (Suc (length (pending (push s d)))) (push s d) of
       (evs, s', Some e) \<Rightarrow> (evs, s', Some e)
     | (evs, s', None) \<Rightarrow> (case deliver s' ds of (evs2, rest) \<Rightarrow> (evs @ evs2, rest)))"

lemma poll_is_drain:
  "inv s \<Longrightarrow> poll n s = (evs, s', err) \<Longrightarrow>
    drain_n n (ctl s) (pending s) = (evs, ctl s', pending s', err) \<and> (err = None \<longrightarrow> inv s')"
proof (induction n arbitrary: s s' evs err)
  case (Suc n)
  obtain t r where p: "process s = (t, r)" by (cases "process s") auto
  note st = process_is_step [OF Suc.prems(1) p]
  consider (err) e where "r = Inl e" | (wait) "r = Inr None" | (event) ev where "r = Inr (Some ev)"
    by (cases r) (metis option.exhaust)+
  then show ?case
  proof cases
    case event
    obtain evs1 s1 err1 where q: "poll n t = (evs1, s1, err1)" by (cases "poll n t") auto
    from Suc.IH [OF _ q] st event Suc.prems(2) p q show ?thesis by auto
  qed (use Suc.prems p st in auto)
qed auto

theorem deliver_is_feed:
  "inv s \<Longrightarrow> deliver s ds = (evs, s', err) \<Longrightarrow>
    \<exists>b. feed (ctl s) (pending s) ds = (evs, ctl s', b, err) \<and>
      (err = None \<longrightarrow> b = pending s' \<and> inv s')"
proof (induction ds arbitrary: s s' evs err)
  case (Cons d ds)
  let ?s = "push s d"
  note k = push_keeps [OF Cons.prems(1), of d]
  obtain evs1 s1 err1 where p: "poll (Suc (length (pending ?s))) ?s = (evs1, s1, err1)"
    by (cases "poll (Suc (length (pending ?s))) ?s") auto
  have d: "drain (ctl s) (pending s @ d) = (evs1, ctl s1, pending s1, err1)" "err1 = None \<longrightarrow> inv s1"
    using poll_is_drain [OF _ p] k by (simp_all add: drain_def)
  show ?case
  proof (cases err1)
    case None
    obtain evs2 s2 err2 where q: "deliver s1 ds = (evs2, s2, err2)" by (cases "deliver s1 ds") auto
    from Cons.IH [OF _ q] d None Cons.prems(2) p q show ?thesis by auto
  next
    case (Some e)
    with Cons.prems(2) p d show ?thesis by auto
  qed
qed auto

text \<open>Cutting the stream differently changes neither the events nor the error nor the state.\<close>

corollary deliver_drain:
  assumes "inv s" "live (ctl s)" "pending s = []" "ds \<noteq> []" "drain (ctl s) (concat ds) = (evs, c, b, err)"
  shows "\<exists>s'. deliver s ds = (evs, s', err) \<and> ctl s' = c \<and> (err = None \<longrightarrow> inv s' \<and> pending s' = b)"
proof -
  obtain evs' s' err' where d: "deliver s ds = (evs', s', err')" by (cases "deliver s ds") auto
  then obtain b' where "feed (ctl s) [] ds = (evs', ctl s', b', err')"
      "err' = None \<longrightarrow> b' = pending s' \<and> inv s'"
    using deliver_is_feed [OF assms(1)] assms(3) by metis
  with feed_concat [OF assms(2,4), of "[]"] assms(5) d show ?thesis by auto
qed

corollary deliver_pieces:
  assumes "inv s" "live (ctl s)" "pending s = []" "ds \<noteq> []" "es \<noteq> []" "concat ds = concat es"
    "deliver s ds = (evs, s', err)" "deliver s es = (evs2, s2, err2)"
  shows "evs2 = evs \<and> err2 = err \<and> ctl s2 = ctl s'"
proof -
  obtain evs0 c b err0 where "drain (ctl s) (concat ds) = (evs0, c, b, err0)"
    by (cases "drain (ctl s) (concat ds)") auto
  with deliver_drain [OF assms(1-4)] deliver_drain [OF assms(1-3,5)] assms(6-8) show ?thesis by auto
qed

end

text \<open>
  The end of a stream.  \<open>fin\<close> marks the control state; an answer that did not depend on further
  bytes is unchanged, and what was still waiting is decided once.
\<close>

locale ending_machine = byte_machine live step
  for live :: "'c \<Rightarrow> bool" and step :: "'c \<Rightarrow> bytes \<Rightarrow> 'c \<times> bytes \<times> ('e + 'ev option)" +
  fixes fin :: "'c \<Rightarrow> 'c"
  assumes fin_final: "live c \<Longrightarrow> step c b = (c', b', r) \<Longrightarrow> r \<noteq> Inr None \<Longrightarrow> step (fin c) b = (fin c', b', r)"
    and fin_wait: "live c \<Longrightarrow> step c b = (c', b', Inr None) \<Longrightarrow> step (fin c) b = step (fin c') b'"
    and fin_once: "live c \<Longrightarrow> step c b = (c, b, Inr None) \<Longrightarrow> step (fin c) b = (c2, b2, Inr (Some ev)) \<Longrightarrow>
      step c2 b2 = (c2, b2, Inr None)"
    and wait_again: "live c \<Longrightarrow> step c b = (c', b', Inr None) \<Longrightarrow> step c' b' = (c', b', Inr None)"
begin

definition ending :: "'c \<Rightarrow> bytes \<Rightarrow> 'ev list \<times> 'c \<times> bytes \<times> 'e option" where
  "ending c b =
    (case step (fin c) b of
       (c', b', Inl e) \<Rightarrow> ([], c', b', Some e)
     | (c', b', Inr None) \<Rightarrow> ([], c', b', None)
     | (c', b', Inr (Some ev)) \<Rightarrow> ([ev], c', b', None))"

theorem fin_drain:
  assumes "live c" "drain c b = (evs, c', b', err)" "length b + 1 < n"
  shows "drain_n n (fin c) b =
    (case err of
       Some e \<Rightarrow> (evs, fin c', b', Some e)
     | None \<Rightarrow> (case ending c' b' of (evs2, rest) \<Rightarrow> (evs @ evs2, rest)))"
  using assms
proof (induction "length b" arbitrary: c b evs n rule: less_induct)
  case less
  obtain m where n: "n = Suc (Suc m)" using less.prems(3) by (cases n; cases "n - 1") auto
  obtain c1 b1 r where s: "step c b = (c1, b1, r)" by (cases "step c b") auto
  consider (err) e where "r = Inl e" | (wait) "r = Inr None" | (event) ev where "r = Inr (Some ev)"
    by (cases r) (metis option.exhaust)+
  then show ?case
  proof cases
    case err
    then have "drain c b = ([], c1, b1, Some e)" using s by (simp add: drain_step [OF less.prems(1)])
    with fin_final [OF less.prems(1) s] err less.prems n show ?thesis by auto
  next
    case wait
    then have d: "drain c b = ([], c1, b1, None)" using s by (simp add: drain_step [OF less.prems(1)])
    have w: "step (fin c) b = step (fin c1) b1" using fin_wait [OF less.prems(1)] s wait by blast
    have l: "live c1" using step_live [OF less.prems(1)] s wait by blast
    have a: "step c1 b1 = (c1, b1, Inr None)" using wait_again [OF less.prems(1)] s wait by blast
    obtain c2 b2 r2 where f: "step (fin c1) b1 = (c2, b2, r2)" by (cases "step (fin c1) b1") auto
    have "step c2 b2 = (c2, b2, Inr None)" if "r2 = Inr (Some ev)" for ev
      using fin_once [OF l a] f that by simp
    with d w f n less.prems(2) show ?thesis
      by (cases r2) (auto simp: ending_def split: option.splits)
  next
    case event
    have lt: "length b1 < length b" using step_progress [OF less.prems(1)] s event by blast
    have l: "live c1" using step_live [OF less.prems(1)] s event by blast
    obtain evs1 where evs: "evs = ev # evs1" and d: "drain c1 b1 = (evs1, c', b', err)"
      using less.prems s event by (auto simp: drain_step [OF less.prems(1)] split: prod.splits)
    have "step (fin c) b = (fin c1, b1, Inr (Some ev))" using fin_final [OF less.prems(1) s] event by simp
    moreover have "length b1 + 1 < Suc m" using lt less.prems(3) n by simp
    ultimately show ?thesis
      using less.hyps [OF lt l d, of "Suc m"] evs n by (auto split: option.splits prod.splits)
  qed
qed

end

locale ending_receiver =
    byte_receiver live step inv ctl pending push process + ending_machine live step fin
  for live :: "'c \<Rightarrow> bool" and step :: "'c \<Rightarrow> bytes \<Rightarrow> 'c \<times> bytes \<times> ('e + 'ev option)"
    and inv :: "'s \<Rightarrow> bool" and ctl :: "'s \<Rightarrow> 'c" and pending :: "'s \<Rightarrow> bytes"
    and push :: "'s \<Rightarrow> bytes \<Rightarrow> 's" and process :: "'s \<Rightarrow> 's \<times> ('e + 'ev option)"
    and fin :: "'c \<Rightarrow> 'c" +
  fixes push_fin :: "'s \<Rightarrow> bytes \<Rightarrow> 's"
  assumes push_fin_keeps: "inv s \<Longrightarrow> inv (push_fin s d) \<and> ctl (push_fin s d) = fin (ctl s) \<and>
      pending (push_fin s d) = pending s @ d"
begin

text \<open>A whole stream: pieces without FIN, then the last piece with it.\<close>

definition receive_all :: "'s \<Rightarrow> bytes list \<Rightarrow> bytes \<Rightarrow> 'ev list \<times> 's \<times> 'e option" where
  "receive_all s ds d =
    (case deliver s ds of
       (evs, s', Some e) \<Rightarrow> (evs, s', Some e)
     | (evs, s', None) \<Rightarrow>
         (let t = push_fin s' d in
          case poll (length (pending t) + 2) t of (evs2, rest) \<Rightarrow> (evs @ evs2, rest)))"

theorem receive_all_drain:
  assumes "inv s" "live (ctl s)" "pending s = []" "drain (ctl s) (concat ds @ d) = (evs, c, b, err)"
  shows "\<exists>s'. receive_all s ds d =
    (case err of
       Some e \<Rightarrow> (evs, s', Some e)
     | None \<Rightarrow> (evs @ fst (ending c b), s', snd (snd (snd (ending c b))))) \<and>
    (err = None \<longrightarrow> ctl s' = fst (snd (ending c b))) \<and>
    (err \<noteq> None \<longrightarrow> ctl s' = c \<or> ctl s' = fin c)"
proof -
  obtain evs1 s1 err1 where dl: "deliver s ds = (evs1, s1, err1)" by (cases "deliver s ds") auto
  obtain b1 where f: "feed (ctl s) [] ds = (evs1, ctl s1, b1, err1)"
    "err1 = None \<longrightarrow> b1 = pending s1 \<and> inv s1"
    using deliver_is_feed [OF assms(1) dl] assms(3) by auto
  have l1: "live (ctl s1)" if "err1 = None"
    using f that drain_live [OF assms(2)] feed_concat [OF assms(2), of ds "[]"] assms(2)
    by (cases "ds = []") auto
  have app: "drain (ctl s) (concat ds @ d) =
    (case err1 of
       Some e \<Rightarrow> (evs1, ctl s1, b1 @ d, Some e)
     | None \<Rightarrow> (case drain (ctl s1) (b1 @ d) of (evs2, rest) \<Rightarrow> (evs1 @ evs2, rest)))"
  proof (cases "ds = []")
    case True
    with f show ?thesis by auto
  next
    case False
    with drain_append [OF assms(2), of "concat ds" evs1 "ctl s1" b1 err1 d] f
      feed_concat [OF assms(2) False, of "[]"] show ?thesis by simp
  qed
  show ?thesis
  proof (cases err1)
    case (Some e)
    with app dl assms(4) show ?thesis by (auto simp: receive_all_def)
  next
    case None
    let ?t = "push_fin s1 d"
    have t: "inv ?t" "ctl ?t = fin (ctl s1)" "pending ?t = b1 @ d"
      using push_fin_keeps f(2) None by auto
    obtain evs2 where e: "evs = evs1 @ evs2" "drain (ctl s1) (b1 @ d) = (evs2, c, b, err)"
      using app None assms(4) by (auto split: prod.splits)
    obtain evs3 s3 err3 where p: "poll (length (pending ?t) + 2) ?t = (evs3, s3, err3)"
      by (cases "poll (length (pending ?t) + 2) ?t") auto
    have "drain_n (length (pending ?t) + 2) (fin (ctl s1)) (b1 @ d) = (evs3, ctl s3, pending s3, err3)"
      using poll_is_drain [OF t(1) p] t by simp
    with fin_drain [OF l1 [OF None] e(2), of "length (pending ?t) + 2"] t(3)
    have "(evs3, ctl s3, pending s3, err3) =
      (case err of
         Some e \<Rightarrow> (evs2, fin c, b, Some e)
       | None \<Rightarrow> (case ending c b of (evs2', rest) \<Rightarrow> (evs2 @ evs2', rest)))" by simp
    with dl None p e(1) show ?thesis
      by (cases err) (auto simp: receive_all_def Let_def split: prod.splits)
  qed
qed

end

end
