(* ===== verification/Control_Stream.thy ===== *)
theory Control_Stream
  imports Wt_Stream Receivers
begin

text \<open>
  The control stream (\<^verbatim>\<open>src/stream/control.rs\<close>): SETTINGS first, then GOAWAY and other control
  frames.  The receiver implements the interface \<open>byte_machine\<close>, so that the frames it returns do
  not depend on how the stream was cut into pieces; the rules about which frame may come when are
  stated as the automaton \<open>control_accept\<close>.
\<close>

section \<open>Sending\<close>

datatype control_send_state = CsInitial | CsReady

record control_send =
  cs_stream_id :: "u64 option"
  cs_send_buf :: send_buffer
  cs_send_state :: control_send_state

definition cs_new :: control_send where
  "cs_new = \<lparr>cs_stream_id = None, cs_send_buf = sb_new, cs_send_state = CsInitial\<rparr>"

definition cs_set_stream_id :: "control_send \<Rightarrow> u64 \<Rightarrow> control_send" where
  "cs_set_stream_id s stream_id = s\<lparr>cs_stream_id := Some stream_id\<rparr>"

text \<open>
  \<^verbatim>\<open>SettingsPayload::from_settings\<close>, \<^verbatim>\<open>encoded_frame_len\<close> and \<^verbatim>\<open>encode_frame\<close> are unwrapped with
  \<^verbatim>\<open>expect\<close>; a panic there is \<open>None\<close>.
\<close>

definition cs_send_settings :: "control_send \<Rightarrow> h3_settings \<Rightarrow> control_send option" where
  "cs_send_settings s settings =
    (if cs_send_state s \<noteq> CsInitial then Some s
     else do {
       payload \<leftarrow> result_ok (payload_from_settings settings);
       let frame = SettingsFrame payload;
       frame_len \<leftarrow> encoded_frame_len frame;
       let buf = [0x00] @ replicate frame_len 0;
       (sub, n) \<leftarrow> encode_frame (drop 1 buf) frame;
       let buf = splice buf 1 sub;
       Some (s\<lparr>cs_send_buf := sb_push (cs_send_buf s) buf, cs_send_state := CsReady\<rparr>)
     })"

definition cs_send_goaway :: "control_send \<Rightarrow> varint \<Rightarrow> (control_send \<times> (h3_error + unit)) option" where
  "cs_send_goaway s i =
    (if cs_send_state s \<noteq> CsReady then Some (s, Inl (ConnectionError ClosedCriticalStream))
     else do {
       let frame = GoawayFrame i;
       frame_len \<leftarrow> encoded_frame_len frame;
       (buf, n) \<leftarrow> encode_frame (replicate frame_len 0) frame;
       Some (s\<lparr>cs_send_buf := sb_push (cs_send_buf s) buf\<rparr>, Inr ())
     })"

definition cs_get_data :: "control_send \<Rightarrow> bytes" where
  "cs_get_data s = sb_peek (cs_send_buf s)"

definition cs_consume_data :: "control_send \<Rightarrow> usize \<Rightarrow> control_send option" where
  "cs_consume_data s len = map_option (\<lambda>b. s\<lparr>cs_send_buf := b\<rparr>) (sb_consume (cs_send_buf s) len)"

definition cs_has_pending :: "control_send \<Rightarrow> bool" where
  "cs_has_pending s \<longleftrightarrow> sb_has_pending (cs_send_buf s)"

section \<open>Receiving\<close>

datatype control_recv_state = CrWaitingType | CrWaitingSettings | CrReady

record control_recv =
  cr_stream_id :: "u64 option"
  cr_recv_buf :: recv_buffer
  cr_recv_state :: control_recv_state

definition cr_new :: control_recv where
  "cr_new = \<lparr>cr_stream_id = None, cr_recv_buf = rb_new, cr_recv_state = CrWaitingType\<rparr>"

definition cr_set_stream_id :: "control_recv \<Rightarrow> u64 \<Rightarrow> control_recv" where
  "cr_set_stream_id r stream_id = r\<lparr>cr_stream_id := Some stream_id\<rparr>"

definition cr_skip_stream_type :: "control_recv \<Rightarrow> control_recv" where
  "cr_skip_stream_type r =
    (if cr_recv_state r = CrWaitingType then r\<lparr>cr_recv_state := CrWaitingSettings\<rparr> else r)"

definition cr_receive :: "control_recv \<Rightarrow> bytes \<Rightarrow> control_recv" where
  "cr_receive r data = r\<lparr>cr_recv_buf := rb_push (cr_recv_buf r) data\<rparr>"

definition cr_has_pending_data :: "control_recv \<Rightarrow> bool" where
  "cr_has_pending_data r \<longleftrightarrow> rb_peek (cr_recv_buf r) \<noteq> []"

text \<open>\<^verbatim>\<open>map_err\<close> on the result of the frame decoder.\<close>

fun control_decode_error :: "frame_decode_error \<Rightarrow> h3_error" where
  "control_decode_error (ServerPushNotSupported _) = ConnectionError FrameUnexpected"
| "control_decode_error (InvalidSetting _) = ConnectionError SettingsError"
| "control_decode_error InvalidLength = ConnectionError FrameError"
| "control_decode_error e = FrameDecode e"

text \<open>
  The loop runs at most twice: once to skip the stream type.  \<open>the\<close> stands for the consumption of
  bytes that are in the buffer, which cannot panic (\<open>rbq.consume_Some\<close>).
\<close>

function cr_process :: "control_recv \<Rightarrow> control_recv \<times> (h3_error + frame option)" where
  "cr_process r =
    (let data = rb_peek (cr_recv_buf r) in
     if data = [] then (r, Inr None)
     else if cr_recv_state r = CrWaitingType then
       if data ! 0 \<noteq> 0x00 then (r, Inl (ConnectionError StreamCreationError))
       else
         cr_process
           (r\<lparr>cr_recv_buf := the (rb_consume (cr_recv_buf r) 1), cr_recv_state := CrWaitingSettings\<rparr>)
     else if is_wt_stream_frame_type data then
       (r, Inl (ConnectionError
         (if cr_recv_state r = CrWaitingSettings then MissingSettings else FrameUnexpected)))
     else
       case decode_frame_header data of
         Inl BufferTooShort \<Rightarrow> (r, Inr None)
       | Inl (Http2Frame _) \<Rightarrow> (r, Inl (ConnectionError FrameUnexpected))
       | Inl InvalidLength \<Rightarrow> (r, Inl (ConnectionError FrameError))
       | Inl e \<Rightarrow> (r, Inl (FrameDecode e))
       | Inr header \<Rightarrow>
           (case total_len header of
              None \<Rightarrow> (r, Inl (ConnectionError FrameError))
            | Some needed \<Rightarrow>
                if length data < needed then (r, Inr None)
                else
                  case map_err control_decode_error (decode_frame data) of
                    Inl e \<Rightarrow> (r, Inl e)
                  | Inr (frame, consumed) \<Rightarrow>
                      let r = r\<lparr>cr_recv_buf := the (rb_consume (cr_recv_buf r) consumed)\<rparr> in
                      if cr_recv_state r = CrWaitingSettings then
                        (case frame of
                           SettingsFrame _ \<Rightarrow> (r\<lparr>cr_recv_state := CrReady\<rparr>, Inr (Some frame))
                         | _ \<Rightarrow> (r, Inl (ConnectionError MissingSettings)))
                      else
                        (case frame of
                           SettingsFrame _ \<Rightarrow> (r, Inl (ConnectionError FrameUnexpected))
                         | DataFrame _ \<Rightarrow> (r, Inl (ConnectionError FrameUnexpected))
                         | HeadersFrame _ \<Rightarrow> (r, Inl (ConnectionError FrameUnexpected))
                         | _ \<Rightarrow> (r, Inr (Some frame)))))"
  by pat_completeness auto
termination
  by (relation "measure (\<lambda>r. if cr_recv_state r = CrWaitingType then 1 else 0)") auto

declare cr_process.simps [simp del]

section \<open>The receiver as a machine over bytes\<close>

text \<open>Which frame may come in which state, and the state after it.\<close>

fun control_accept :: "control_recv_state \<Rightarrow> frame \<Rightarrow> h3_error + control_recv_state" where
  "control_accept CrReady (SettingsFrame _) = Inl (ConnectionError FrameUnexpected)"
| "control_accept CrReady (DataFrame _) = Inl (ConnectionError FrameUnexpected)"
| "control_accept CrReady (HeadersFrame _) = Inl (ConnectionError FrameUnexpected)"
| "control_accept CrReady _ = Inr CrReady"
| "control_accept _ (SettingsFrame _) = Inr CrReady"
| "control_accept _ _ = Inl (ConnectionError MissingSettings)"

definition control_frame_step ::
    "control_recv_state \<Rightarrow> bytes \<Rightarrow> control_recv_state \<times> bytes \<times> (h3_error + frame option)" where
  "control_frame_step c b =
    (if is_wt_stream_frame_type b then
       (c, b, Inl (ConnectionError (if c = CrWaitingSettings then MissingSettings else FrameUnexpected)))
     else
       case decode_frame b of
         Inl BufferTooShort \<Rightarrow> (c, b, Inr None)
       | Inl (Http2Frame _) \<Rightarrow> (c, b, Inl (ConnectionError FrameUnexpected))
       | Inl e \<Rightarrow> (c, b, Inl (control_decode_error e))
       | Inr (f, n) \<Rightarrow>
           (case control_accept c f of
              Inl e \<Rightarrow> (c, drop n b, Inl e)
            | Inr c' \<Rightarrow> (c', drop n b, Inr (Some f))))"

definition control_step ::
    "control_recv_state \<Rightarrow> bytes \<Rightarrow> control_recv_state \<times> bytes \<times> (h3_error + frame option)" where
  "control_step c b =
    (case cr_process \<lparr>cr_stream_id = None, cr_recv_buf = rb_push rb_new b, cr_recv_state = c\<rparr> of
       (r, res) \<Rightarrow> (cr_recv_state r, rb_peek (cr_recv_buf r), res))"

definition control_view_step ::
    "control_recv_state \<Rightarrow> bytes \<Rightarrow> control_recv_state \<times> bytes \<times> (h3_error + frame option)" where
  "control_view_step c b =
    (if b = [] then (c, b, Inr None)
     else if c = CrWaitingType then
       if b ! 0 \<noteq> 0x00 then (c, b, Inl (ConnectionError StreamCreationError))
       else if tl b = [] then (CrWaitingSettings, [], Inr None)
       else control_frame_step CrWaitingSettings (tl b)
     else control_frame_step c b)"

lemma decode_header_errors:
  "decode_frame_header b = Inl e \<Longrightarrow> e = BufferTooShort \<or> (\<exists>t. e = Http2Frame t)"
  by (auto simp: decode_frame_header_def bindR_def map_err_def split: if_splits sum.splits)

lemma decode_settings_errors:
  "decode_settings_loop p off s = Inl e \<Longrightarrow> e = InvalidLength \<or> (\<exists>x. e = InvalidSetting x)"
proof (induction p off s rule: decode_settings_loop.induct)
  case (1 payload offset settings)
  show ?case
  proof (rule ccontr)
    assume n: "\<not> ?thesis"
    then have off: "offset < length payload"
      using 1(2) by (subst (asm) decode_settings_loop.simps) (auto split: if_splits)
    from n 1(2) off obtain i n v m s s' where st: "varint_decode (drop offset payload) = Inr (i, n)"
      "varint_decode (drop (offset + n) payload) = Inr (v, m)" "setting_from_wire i v = Inr s"
      "payload_add settings s = Inr s'" "decode_settings_loop payload (offset + n + m) s' = Inl e"
      by (subst (asm) decode_settings_loop.simps)
        (auto simp: bindR_def map_err_def split: sum.splits)
    from 1(1) [OF off, of "(i, n)" i n "(v, m)" v m s s'] st n show False by simp
  qed
qed

lemma decode_body_errors:
  "decode_body ft p = Inl e \<Longrightarrow> e = InvalidLength \<or> (\<exists>x. e = InvalidSetting x) \<or> (\<exists>t. e = ServerPushNotSupported t)"
  using decode_settings_errors [of p 0 payload_new]
  by (auto simp: decode_body_def decode_settings_frame_def decode_goaway_frame_def
      decode_max_push_id_frame_def bindR_def map_err_def split: option.splits frame_type.splits
      sum.splits if_splits)

text \<open>What \<open>decode_frame\<close> answers, by the header.\<close>

lemma decode_frame_cases:
  obtains (short) "decode_frame b = Inl BufferTooShort" "decode_frame_header b = Inl BufferTooShort"
  | (http2) t where "decode_frame b = Inl (Http2Frame t)" "decode_frame_header b = Inl (Http2Frame t)"
  | (incomplete) h n where "decode_frame b = Inl BufferTooShort" "decode_frame_header b = Inr h"
      "total_len h = Some n" "length b < n"
  | (body) h n e where "decode_frame b = Inl e" "decode_frame_header b = Inr h" "total_len h = Some n"
      "n \<le> length b"
      "e = InvalidLength \<or> (\<exists>x. e = InvalidSetting x) \<or> (\<exists>t. e = ServerPushNotSupported t)"
  | (frame) h n f where "decode_frame b = Inr (f, n)" "decode_frame_header b = Inr h"
      "total_len h = Some n" "n \<le> length b" "0 < n"
proof (cases "decode_frame_header b")
  case (Inl e)
  with decode_header_errors [OF Inl] decode_frame_header_error [OF Inl] short http2 show ?thesis by blast
next
  case (Inr h)
  note t = total_len_ok [OF Inr] and d = decode_frame_by_header [OF Inr]
  let ?n = "fh_header_len h + vget (fh_payload_len h)"
  show ?thesis
  proof (cases "length b < ?n")
    case True
    with d t incomplete [OF _ Inr t] show ?thesis by simp
  next
    case False
    show ?thesis
    proof (cases "decode_body (fh_type h) (drop (fh_header_len h) (take ?n b))")
      case (Inl e)
      with d False have "decode_frame b = Inl e" by (simp add: Let_def)
      with body [OF this \<open>decode_frame_header b = Inr h\<close> t] False decode_body_errors [OF Inl]
      show ?thesis by simp
    next
      case (Inr f)
      with d False have f: "decode_frame b = Inr (f, ?n)" by (simp add: Let_def)
      from frame [OF f \<open>decode_frame_header b = Inr h\<close> t] False decode_frame_sound [OF f]
      show ?thesis by simp
    qed
  qed
qed

lemma cr_process_frame:
  assumes "rb_inv (cr_recv_buf r)" "cr_recv_state r \<noteq> CrWaitingType" "rb_peek (cr_recv_buf r) = b" "b \<noteq> []"
  shows "\<exists>q c. cr_process r = (r\<lparr>cr_recv_buf := q, cr_recv_state := c\<rparr>,
      snd (snd (control_frame_step (cr_recv_state r) b))) \<and>
    rb_inv q \<and> rb_fin q = rb_fin (cr_recv_buf r) \<and>
    c = fst (control_frame_step (cr_recv_state r) b) \<and>
    rb_peek q = fst (snd (control_frame_step (cr_recv_state r) b))"
proof -
  have same: "r = r\<lparr>cr_recv_buf := cr_recv_buf r, cr_recv_state := cr_recv_state r\<rparr>" by simp
  show ?thesis
  proof (cases "is_wt_stream_frame_type b")
    case True
    with assms show ?thesis
      by (intro exI [of _ "cr_recv_buf r"] exI [of _ "cr_recv_state r"], subst cr_process.simps)
        (simp add: Let_def control_frame_step_def)
  next
    case nwt: False
    show ?thesis
    proof (cases b rule: decode_frame_cases)
      case (frame h n f)
      let ?q = "the (rb_consume (cr_recv_buf r) n)"
      have "n \<le> length (rb_peek (cr_recv_buf r))" using frame assms(3) by simp
      note q = rbq.consume_the [OF assms(1) this]
      have fin: "rb_fin ?q = rb_fin (cr_recv_buf r)" by (rule consume_fin(1) [OF q(1)])
      show ?thesis
        by (intro exI [of _ ?q] exI [of _ "fst (control_frame_step (cr_recv_state r) b)"], subst cr_process.simps)
          (use assms nwt frame q fin in \<open>cases "cr_recv_state r"; cases f;
            simp add: Let_def control_frame_step_def\<close>)
    next
      case (body h n e)
      with assms nwt show ?thesis
        by (intro exI [of _ "cr_recv_buf r"] exI [of _ "cr_recv_state r"], subst cr_process.simps)
          (auto simp: Let_def control_frame_step_def)
    qed (use assms nwt in \<open>intro exI [of _ "cr_recv_buf r"] exI [of _ "cr_recv_state r"],
        subst cr_process.simps, simp add: Let_def control_frame_step_def\<close>)+
  qed
qed

text \<open>The process operation on the record is the machine on its view.\<close>

lemma cr_process_view:
  assumes "rb_inv (cr_recv_buf r)" "cr_process r = (r', res)"
  shows "control_view_step (cr_recv_state r) (rb_peek (cr_recv_buf r)) =
      (cr_recv_state r', rb_peek (cr_recv_buf r'), res) \<and>
    rb_inv (cr_recv_buf r') \<and> rb_fin (cr_recv_buf r') = rb_fin (cr_recv_buf r) \<and>
    cr_stream_id r' = cr_stream_id r"
proof (cases "rb_peek (cr_recv_buf r) = []")
  case True
  with assms show ?thesis by (subst (asm) cr_process.simps) (auto simp: control_view_step_def Let_def)
next
  case ne: False
  let ?b = "rb_peek (cr_recv_buf r)"
  show ?thesis
  proof (cases "cr_recv_state r = CrWaitingType")
    case False
    from cr_process_frame [OF assms(1) False refl ne] assms(2) ne False show ?thesis
      by (auto simp: control_view_step_def prod_eq_iff)
  next
    case True
    show ?thesis
    proof (cases "?b ! 0 = 0")
      case False
      with True ne assms show ?thesis
        by (subst (asm) cr_process.simps) (auto simp: control_view_step_def Let_def)
    next
      case z: True
      let ?q = "the (rb_consume (cr_recv_buf r) 1)"
      let ?r = "r\<lparr>cr_recv_buf := ?q, cr_recv_state := CrWaitingSettings\<rparr>"
      have "1 \<le> length ?b" using ne by (cases ?b) simp_all
      note q = rbq.consume_the [OF assms(1) this]
      have fin: "rb_fin ?q = rb_fin (cr_recv_buf r)" by (rule consume_fin(1) [OF q(1)])
      have p: "cr_process r = cr_process ?r"
        using True z ne by (subst cr_process.simps) (simp add: Let_def)
      show ?thesis
      proof (cases "tl ?b = []")
        case empty: True
        then have "rb_peek ?q = []" using q(3) by (simp add: drop_Suc)
        then have "cr_process ?r = (?r, Inr None)" by (subst cr_process.simps) simp
        with p assms(2) True z ne empty q(2) fin \<open>rb_peek ?q = []\<close> show ?thesis
          by (auto simp: control_view_step_def)
      next
        case False
        have "rb_inv (cr_recv_buf ?r)" "cr_recv_state ?r \<noteq> CrWaitingType"
          "rb_peek (cr_recv_buf ?r) = tl ?b" using q by (simp_all add: drop_Suc)
        from cr_process_frame [OF this False] p assms(2) True z ne False fin show ?thesis
          by (auto simp: control_view_step_def prod_eq_iff)
      qed
    qed
  qed
qed

lemma control_step_view: "control_step c b = control_view_step c b"
proof -
  let ?r = "\<lparr>cr_stream_id = None, cr_recv_buf = rb_push rb_new b, cr_recv_state = c\<rparr>"
  have "rb_inv (cr_recv_buf ?r)" "rb_peek (cr_recv_buf ?r) = b"
    using rbq.push_inv [of rb_new b] rbq.push_view [of rb_new b] by simp_all
  then show ?thesis
    using cr_process_view [of ?r] unfolding control_step_def by (cases "cr_process ?r") auto
qed

lemma frame_type_stable:
  assumes "decode_frame_type b \<noteq> None"
  shows "decode_frame_type (b @ d) = decode_frame_type b"
proof (cases "varint_decode b")
  case (Inr r)
  then show ?thesis using varint_decode_stable [of b d] by (simp add: decode_frame_type_def)
qed (use assms in \<open>simp add: decode_frame_type_def\<close>)

lemma frame_type_known:
  assumes "decode_frame b \<noteq> Inl BufferTooShort"
  shows "decode_frame_type b \<noteq> None"
proof -
  have "decode_frame_header b \<noteq> Inl BufferTooShort"
    using assms decode_frame_header_error by blast
  then have "\<exists>r. varint_decode b = Inr r"
    by (cases "varint_decode b") (auto simp: decode_frame_header_def split: if_splits)
  then show ?thesis by (auto simp: decode_frame_type_def)
qed

lemma wt_type_stable:
  "is_wt_stream_frame_type b \<Longrightarrow> is_wt_stream_frame_type (b @ d)"
  "decode_frame b \<noteq> Inl BufferTooShort \<Longrightarrow> is_wt_stream_frame_type (b @ d) = is_wt_stream_frame_type b"
  using frame_type_stable [of b d] frame_type_known [of b]
  by (auto simp: is_wt_stream_frame_type_def split: option.splits)

lemma control_frame_step_final:
  assumes "control_frame_step c b = (c', b', r)" "r \<noteq> Inr None"
  shows "control_frame_step c (b @ d) = (c', b' @ d, r)"
proof (cases "is_wt_stream_frame_type b")
  case True
  with assms wt_type_stable(1) show ?thesis by (auto simp: control_frame_step_def)
next
  case False
  with assms have ns: "decode_frame b \<noteq> Inl BufferTooShort" by (auto simp: control_frame_step_def)
  with False have "\<not> is_wt_stream_frame_type (b @ d)" using wt_type_stable(2) by simp
  moreover note fr.dec_stable [OF ns, of d]
  moreover have "n \<le> length b" if "decode_frame b = Inr (f, n)" for f n using fr.dec_bound that .
  ultimately show ?thesis
    using False assms
    by (auto simp: control_frame_step_def split: sum.splits frame_decode_error.splits)
qed

lemma control_frame_step_wait:
  assumes "control_frame_step c b = (c', b', Inr None)"
  shows "c' = c" "b' = b"
  using assms
  by (auto simp: control_frame_step_def split: if_splits sum.splits frame_decode_error.splits)

lemma control_frame_step_progress:
  assumes "control_frame_step c b = (c', b', Inr (Some f))"
  shows "\<exists>n. decode_frame b = Inr (f, n) \<and> control_accept c f = Inr c' \<and> b' = drop n b"
  using assms
  by (auto simp: control_frame_step_def split: if_splits sum.splits frame_decode_error.splits)

interpretation cm: byte_machine "\<lambda>_. True" control_step
proof
  fix c b c' b' r d and ev :: frame and x :: "frame option"
  show "control_step c (b @ d) = (c', b' @ d, r)" if "control_step c b = (c', b', r)" "r \<noteq> Inr None"
  proof (cases "b = []")
    case False
    then have "(b @ d) ! 0 = b ! 0" "tl (b @ d) = tl b @ d" by (simp_all add: nth_append)
    with that False control_frame_step_final [of c b c' b' r d]
      control_frame_step_final [of CrWaitingSettings "tl b" c' b' r d]
    show ?thesis by (auto simp: control_step_view control_view_step_def split: if_splits)
  qed (use that in \<open>auto simp: control_step_view control_view_step_def\<close>)
  show "control_step c (b @ d) = control_step c' (b' @ d)" if "control_step c b = (c', b', Inr None)"
  proof (cases "c = CrWaitingType \<and> b \<noteq> []")
    case False
    with that have "c' = c" "b' = b"
      using control_frame_step_wait [of c b c' b']
      by (auto simp: control_step_view control_view_step_def split: if_splits)
    then show ?thesis by simp
  next
    case True
    with that control_frame_step_wait [of CrWaitingSettings "tl b" c' b']
    have "c' = CrWaitingSettings" "b' = tl b" "b ! 0 = 0"
      by (auto simp: control_step_view control_view_step_def split: if_splits)
    with True show ?thesis
      by (cases b) (auto simp: control_step_view control_view_step_def)
  qed
  show "length b' < length b" if "control_step c b = (c', b', Inr (Some ev))"
  proof -
    have "length q < length p" if "control_frame_step a p = (c', q, Inr (Some ev))" for a p q
      using control_frame_step_progress [OF that] decode_frame_sound [of p ev] by auto
    with that show ?thesis
      by (cases b) (fastforce simp: control_step_view control_view_step_def split: if_splits)+
  qed
qed simp

text \<open>A complete frame at the front of the buffer.\<close>

lemma control_step_frame:
  assumes "wf_frame f" "Frame.sendable f" "c \<noteq> CrWaitingType"
  shows "control_step c (frame_bytes f @ rest) =
    (case control_accept c f of
       Inl e \<Rightarrow> (c, rest, Inl e)
     | Inr c' \<Rightarrow> (c', rest, Inr (Some f)))"
proof -
  have "varint_ok (frame_type_of f)" using assms(1) wf_frame_type_ok by (auto simp: wf_frame_def)
  then have "decode_frame_type (frame_bytes f @ rest) = Some (frame_type_of f)"
    using vi.dec_enc [of "frame_type_of f"]
    by (simp add: decode_frame_type_def frame_bytes_def header_bytes_def)
  then have "\<not> is_wt_stream_frame_type (frame_bytes f @ rest)"
    using assms(2) by (simp add: is_wt_stream_frame_type_def Frame.sendable_def BIDIRECTIONAL_SIGNAL_VALUE_def)
  then show ?thesis
    using assms(3) fr.dec_enc [OF assms(1), of rest]
    by (simp add: control_step_view control_view_step_def control_frame_step_def split: sum.splits)
qed

text \<open>What the automaton makes of a list of frames: the accepted ones, then perhaps an error.\<close>

fun control_run :: "control_recv_state \<Rightarrow> frame list \<Rightarrow> frame list \<times> control_recv_state \<times> frame list \<times> h3_error option" where
  "control_run c [] = ([], c, [], None)"
| "control_run c (f # fs) =
    (case control_accept c f of
       Inl e \<Rightarrow> ([], c, fs, Some e)
     | Inr c' \<Rightarrow> (case control_run c' fs of (gs, rest) \<Rightarrow> (f # gs, rest)))"

lemma control_accept_ready: "control_accept c f = Inr c' \<Longrightarrow> c' = CrReady"
  by (cases c; cases f) auto

lemma control_drain_frames:
  assumes "\<forall>f \<in> set fs. wf_frame f \<and> Frame.sendable f" "c \<noteq> CrWaitingType"
  shows "cm.drain c (concat (map frame_bytes fs)) =
    (case control_run c fs of (gs, c', rest, err) \<Rightarrow> (gs, c', concat (map frame_bytes rest), err))"
  using assms
proof (induction fs arbitrary: c)
  case Nil
  have "control_step c [] = (c, [], Inr None)" by (simp add: control_step_view control_view_step_def)
  then show ?case using cm.drain_step [of c "[]"] by simp
next
  case (Cons f fs)
  have f: "wf_frame f" "Frame.sendable f" using Cons.prems(1) by simp_all
  note st = control_step_frame [OF f Cons.prems(2), of "concat (map frame_bytes fs)"]
  show ?case
  proof (cases "control_accept c f")
    case (Inl e)
    with st show ?thesis
      using cm.drain_step [of c "frame_bytes f @ concat (map frame_bytes fs)"] by simp
  next
    case (Inr c')
    have "c' \<noteq> CrWaitingType" using control_accept_ready [OF Inr] by simp
    with Cons.IH [of c'] Cons.prems(1) st Inr show ?thesis
      using cm.drain_step [of c "frame_bytes f @ concat (map frame_bytes fs)"]
      by (simp split: prod.splits)
  qed
qed

section \<open>What the sender puts on the wire\<close>

lemma splice_behind: "length (xs :: bytes) = n \<Longrightarrow> splice (a # replicate n 0) (Suc 0) xs = a # xs"
  by (simp add: splice_def)

lemma cs_send_settings_sends:
  assumes "wf_h3_settings s" "payload_from_settings s = Inr p" "wf_frame (SettingsFrame p)"
    "cs_send_state c = CsInitial"
  shows "cs_send_settings c s =
    Some (c\<lparr>cs_send_buf := sb_push (cs_send_buf c) (0 # frame_bytes (SettingsFrame p)),
      cs_send_state := CsReady\<rparr>)"
proof -
  let ?n = "length (frame_bytes (SettingsFrame p))"
  have "Frame.sendable (SettingsFrame p)" by (simp add: Frame.sendable_def)
  from encode_frame_room [OF assms(3) this, of "replicate ?n 0"]
  show ?thesis
    using assms encoded_frame_len_ok [OF assms(3)]
    by (simp add: cs_send_settings_def written_def splice_behind)
qed

lemma goaway_frame_wf: "varint_ok i \<Longrightarrow> wf_frame (GoawayFrame i) \<and> Frame.sendable (GoawayFrame i)"
  using encoded_len_le_8 [of i] by (simp add: wf_frame_def Frame.sendable_def)

lemma cs_send_goaway_sends:
  assumes "varint_ok i" "cs_send_state c = CsReady"
  shows "cs_send_goaway c i =
    Some (c\<lparr>cs_send_buf := sb_push (cs_send_buf c) (frame_bytes (GoawayFrame i))\<rparr>, Inr ())"
proof -
  let ?n = "length (frame_bytes (GoawayFrame i))"
  have wf: "wf_frame (GoawayFrame i)" and "Frame.sendable (GoawayFrame i)"
    using goaway_frame_wf [OF assms(1)] by simp_all
  from encode_frame_room [OF this, of "replicate ?n 0"]
  show ?thesis
    using assms encoded_frame_len_ok [OF wf] by (simp add: cs_send_goaway_def written_def)
qed

text \<open>The receiver object on its view.\<close>

definition cr_inv :: "control_recv \<Rightarrow> bool" where
  "cr_inv r \<longleftrightarrow> rb_inv (cr_recv_buf r)"

definition cr_pending :: "control_recv \<Rightarrow> bytes" where
  "cr_pending r = rb_peek (cr_recv_buf r)"

interpretation cr: byte_receiver "\<lambda>_. True" control_step cr_inv cr_recv_state cr_pending cr_receive cr_process
proof
  fix r r' :: control_recv and d :: bytes and res :: "h3_error + frame option"
  show "cr_inv (cr_receive r d) \<and> cr_recv_state (cr_receive r d) = cr_recv_state r \<and>
      cr_pending (cr_receive r d) = cr_pending r @ d" if "cr_inv r"
    using that rbq.push_inv rbq.push_view by (simp add: cr_inv_def cr_pending_def cr_receive_def)
  show "control_step (cr_recv_state r) (cr_pending r) = (cr_recv_state r', cr_pending r', res) \<and>
      (\<forall>x. res = Inr x \<longrightarrow> cr_inv r')" if "cr_inv r" "cr_process r = (r', res)"
    using cr_process_view [of r r' res] that by (simp add: cr_inv_def cr_pending_def control_step_view)
qed

text \<open>The SETTINGS frame built from a valid configuration is always small enough to be sent.\<close>

lemma length_opt_lists: "length (concat (map opt_list ms)) \<le> length ms"
proof (induction ms)
  case (Cons m ms)
  have "length (opt_list m) \<le> 1" by (cases m) simp_all
  with Cons show ?case by simp
qed simp

lemma length_all_settings: "length (all_settings s) \<le> 14"
proof -
  have "length (settings_iter s) \<le> 5" unfolding settings_iter_def
    by (rule order_trans [OF length_opt_lists]) simp
  moreover have "length (wt_iter w) \<le> 8" for w unfolding wt_iter_def
    by (rule order_trans [OF length_opt_lists]) simp
  then have "length (case wt_part s of None \<Rightarrow> [] | Some wt \<Rightarrow> wt_iter wt) \<le> 8"
    by (cases "wt_part s") simp_all
  ultimately show ?thesis by (simp add: all_settings_def)
qed

lemma length_settings_bytes: "length (settings_bytes ss) \<le> 16 * length ss"
proof (induction ss)
  case (Cons x ss)
  have "length (setting_bytes x) \<le> 16"
    using encoded_len_le_8 [of "fst (as_wire x)"] encoded_len_le_8 [of "snd (as_wire x)"]
    by (simp add: setting_bytes_def)
  with Cons show ?case by simp
qed simp

lemma settings_frame_wf:
  assumes "wf_h3_settings s" "payload_from_settings s = Inr p"
  shows "wf_frame (SettingsFrame p)"
proof -
  have p: "wf_payload p" "sp_settings p = all_settings s"
    using payload_from_settings_total [OF assms(1)] assms(2) by auto
  then have "length (settings_bytes (sp_settings p)) \<le> 16 * 14"
    using order_trans [OF length_settings_bytes] length_all_settings [of s] by (metis mult_le_mono2)
  with p show ?thesis by (simp add: wf_frame_def)
qed

section \<open>Properties of the control stream\<close>

text \<open>A run of the sender: SETTINGS, then any GOAWAY frames.\<close>

fun cs_send_goaways :: "control_send \<Rightarrow> varint list \<Rightarrow> control_send option" where
  "cs_send_goaways s [] = Some s"
| "cs_send_goaways s (i # is) =
    (case cs_send_goaway s i of
       Some (s', Inr _) \<Rightarrow> cs_send_goaways s' is
     | _ \<Rightarrow> None)"

lemma cs_send_goaways_sends:
  assumes "\<forall>i \<in> set is. varint_ok i" "cs_send_state c = CsReady" "sb_inv (cs_send_buf c)"
  shows "\<exists>c'. cs_send_goaways c is = Some c' \<and>
    cs_get_data c' = cs_get_data c @ concat (map frame_bytes (map GoawayFrame is))"
  using assms
proof (induction "is" arbitrary: c)
  case (Cons i "is")
  let ?c = "c\<lparr>cs_send_buf := sb_push (cs_send_buf c) (frame_bytes (GoawayFrame i))\<rparr>"
  have s: "cs_send_goaway c i = Some (?c, Inr ())"
    using cs_send_goaway_sends [of i c] Cons.prems by simp
  have "cs_send_state ?c = CsReady" "sb_inv (cs_send_buf ?c)"
    "cs_get_data ?c = cs_get_data c @ frame_bytes (GoawayFrame i)"
    using Cons.prems sbq.push_inv sbq.push_view by (simp_all add: cs_get_data_def)
  with Cons.IH [of ?c] Cons.prems(1) obtain c' where "cs_send_goaways ?c is = Some c'"
    "cs_get_data c' = cs_get_data c @ frame_bytes (GoawayFrame i) @ concat (map frame_bytes (map GoawayFrame is))"
    by (auto simp del: frame_bytes_def)
  with s show ?case by (simp del: map_map)
qed simp

lemma control_run_goaways: "control_run CrReady (map GoawayFrame is) = (map GoawayFrame is, CrReady, [], None)"
  by (induction "is") simp_all

lemma cr_new_facts [simp]: "cr_inv cr_new" "cr_pending cr_new = []" "cr_recv_state cr_new = CrWaitingType"
  by (simp_all add: cr_inv_def cr_pending_def cr_new_def)

lemma control_type_frames:
  assumes "\<forall>f \<in> set fs. wf_frame f \<and> Frame.sendable f" "fs \<noteq> []"
  shows "cm.drain CrWaitingType (0 # concat (map frame_bytes fs)) =
    (case control_run CrWaitingSettings fs of
       (gs, c', rest, err) \<Rightarrow> (gs, c', concat (map frame_bytes rest), err))"
proof -
  let ?b = "concat (map frame_bytes fs)"
  have "?b \<noteq> []" using assms(2) by (cases fs) simp_all
  then have "control_step CrWaitingType (0 # ?b) = control_step CrWaitingSettings ?b"
    by (simp add: control_step_view control_view_step_def)
  then have "cm.drain CrWaitingType (0 # ?b) = cm.drain CrWaitingSettings ?b"
    using cm.drain_step [of CrWaitingType "0 # ?b"] cm.drain_step [of CrWaitingSettings ?b] by simp
  with control_drain_frames [OF assms(1), of CrWaitingSettings] show ?thesis by simp
qed

text \<open>
  C25: The two ends of a control stream agree.  Sending never fails; whatever way the transport cuts
  the bytes of the stream into pieces, the receiver returns exactly the SETTINGS frame and then the
  GOAWAY frames in the order in which they were sent, with no error, and is ready for more.
\<close>

theorem control_stream_end_to_end:
  assumes "wf_h3_settings s" "\<forall>i \<in> set is. varint_ok i"
  shows "\<exists>p c c'. payload_from_settings s = Inr p \<and> cs_send_settings cs_new s = Some c \<and>
    cs_send_goaways c is = Some c' \<and>
    (\<forall>ds. concat ds = cs_get_data c' \<longrightarrow>
      (\<exists>r. cr.deliver cr_new ds = (SettingsFrame p # map GoawayFrame is, r, None) \<and>
        cr_recv_state r = CrReady))"
proof -
  obtain p where p: "payload_from_settings s = Inr p"
    using payload_from_settings_total [OF assms(1)] by blast
  note wf = settings_frame_wf [OF assms(1) p]
  let ?fs = "SettingsFrame p # map GoawayFrame is"
  obtain c where c: "cs_send_settings cs_new s = Some c" "cs_send_state c = CsReady"
    "sb_inv (cs_send_buf c)" "cs_get_data c = 0 # frame_bytes (SettingsFrame p)"
    using cs_send_settings_sends [OF assms(1) p wf, of cs_new] sbq.push_inv sbq.push_view
    by (simp add: cs_new_def cs_get_data_def)
  obtain c' where c': "cs_send_goaways c is = Some c'"
    "cs_get_data c' = 0 # concat (map frame_bytes ?fs)"
    using cs_send_goaways_sends [OF assms(2) c(2,3)] c(4) by auto
  have "cm.drain CrWaitingType (concat ds) = (?fs, CrReady, [], None)" if "concat ds = cs_get_data c'" for ds
    using control_type_frames [of ?fs] that c'(2) wf goaway_frame_wf assms(2) control_run_goaways [of "is"]
    by (simp add: Frame.sendable_def)
  then have "\<exists>r. cr.deliver cr_new ds = (?fs, r, None) \<and> cr_recv_state r = CrReady"
    if "concat ds = cs_get_data c'" for ds
    using cr.deliver_drain [of cr_new ds] cr_new_facts that c'(2) by fastforce
  with p c(1) c'(1) show ?thesis by blast
qed

theorem control_stream_end_to_end_witness:
  "\<exists>p c c'. payload_from_settings h3_settings_new = Inr p \<and>
    cs_send_settings cs_new h3_settings_new = Some c \<and>
    cs_send_goaways c [VarInt 8, VarInt 4] = Some c' \<and>
    (\<exists>r. cr.deliver cr_new (map (\<lambda>x. [x]) (cs_get_data c')) =
        ([SettingsFrame p, GoawayFrame (VarInt 8), GoawayFrame (VarInt 4)], r, None))"
proof -
  have "wf_h3_settings h3_settings_new" by (simp add: wf_h3_settings_def h3_settings_new_def)
  moreover have "\<forall>i \<in> set [VarInt 8, VarInt 4]. varint_ok i" by (simp add: varint_ok_iff)
  ultimately obtain p c c' where c: "payload_from_settings h3_settings_new = Inr p"
    "cs_send_settings cs_new h3_settings_new = Some c" "cs_send_goaways c [VarInt 8, VarInt 4] = Some c'"
    and d: "\<And>ds. concat ds = cs_get_data c' \<Longrightarrow>
      \<exists>r. cr.deliver cr_new ds = (SettingsFrame p # map GoawayFrame [VarInt 8, VarInt 4], r, None)"
    using control_stream_end_to_end [of h3_settings_new "[VarInt 8, VarInt 4]"] by blast
  have "concat (map (\<lambda>x. [x]) xs) = xs" for xs :: bytes by (induction xs) simp_all
  from d [OF this] c show ?thesis by auto
qed





text \<open>The error for a rest that will never be a frame.\<close>

definition bad_frame :: "error_code \<Rightarrow> bytes \<Rightarrow> error_code option" where
  "bad_frame wt b =
    (if is_wt_stream_frame_type b then Some wt
     else case decode_frame b of
       Inl (Http2Frame _) \<Rightarrow> Some FrameUnexpected
     | Inl (ServerPushNotSupported _) \<Rightarrow> Some FrameUnexpected
     | Inl (InvalidSetting _) \<Rightarrow> Some SettingsError
     | Inl InvalidLength \<Rightarrow> Some FrameError
     | _ \<Rightarrow> None)"

lemma bad_frame_Nil [simp]: "bad_frame e [] = None"
  by (simp add: bad_frame_def is_wt_stream_frame_type_def decode_frame_type_def decode_frame_def decode_frame_header_def)








end
