(* ===== verification/Request_Stream.thy ===== *)
theory Request_Stream
  imports Control_Stream Header
begin

text \<open>
  The request stream (\<^verbatim>\<open>src/stream/request.rs\<close>): sending HEADERS, DATA and trailers, and turning
  the bytes of the peer back into them.  As for the control stream, the receiver is shown to be a
  machine over bytes; its control state is the whole record without the receive buffer.
\<close>

section \<open>State\<close>

datatype request_send_state =
  RsInitial | RsInterimResponseSent | RsHeadersSent | RsSendingBody | RsTrailersSent | RsSendComplete

datatype request_recv_state = RrWaitingHeaders | RrReceivingBody | RrTrailersReceived | RrComplete

record request_stream =
  rs_stream_id :: u64
  rs_send_buf :: send_buffer
  rs_recv_buf :: recv_buffer
  rs_send_state :: request_send_state
  rs_recv_state :: request_recv_state
  rs_state :: stream_state
  rs_recv_headers :: "header list"
  rs_recv_body :: bytes
  rs_max_received_body_size :: u64
  rs_is_head_request :: bool
  rs_is_connect_request :: bool
  rs_is_connect :: bool
  rs_qpack_blocked :: bool
  rs_qpack_ricnt :: u64
  rs_qpack_blocked_header :: "(bytes \<times> bool) option"
  rs_is_wt_connect :: bool
  rs_role :: role
  rs_first_frame_processed :: bool

definition DEFAULT_MAX_RECEIVED_BODY_SIZE :: u64 where
  "DEFAULT_MAX_RECEIVED_BODY_SIZE = 16 * 1024 * 1024"

definition rs_new :: "u64 \<Rightarrow> role \<Rightarrow> request_stream" where
  "rs_new stream_id role =
    \<lparr>rs_stream_id = stream_id, rs_send_buf = sb_new, rs_recv_buf = rb_new,
     rs_send_state = RsInitial, rs_recv_state = RrWaitingHeaders, rs_state = SsOpen,
     rs_recv_headers = [], rs_recv_body = [],
     rs_max_received_body_size = DEFAULT_MAX_RECEIVED_BODY_SIZE,
     rs_is_head_request = False, rs_is_connect_request = False, rs_is_connect = False,
     rs_qpack_blocked = False, rs_qpack_ricnt = 0, rs_qpack_blocked_header = None,
     rs_is_wt_connect = False, rs_role = role, rs_first_frame_processed = False\<rparr>"

definition rs_set_max_received_body_size :: "request_stream \<Rightarrow> u64 \<Rightarrow> request_stream" where
  "rs_set_max_received_body_size r n = r\<lparr>rs_max_received_body_size := n\<rparr>"

definition rs_set_recv_headers :: "request_stream \<Rightarrow> header list \<Rightarrow> request_stream" where
  "rs_set_recv_headers r headers = r\<lparr>rs_recv_headers := headers\<rparr>"

definition rs_set_is_head_request :: "request_stream \<Rightarrow> bool \<Rightarrow> request_stream" where
  "rs_set_is_head_request r v = r\<lparr>rs_is_head_request := v\<rparr>"

definition rs_set_connect_request :: "request_stream \<Rightarrow> request_stream" where
  "rs_set_connect_request r = r\<lparr>rs_is_connect_request := True\<rparr>"

definition rs_set_connect :: "request_stream \<Rightarrow> request_stream" where
  "rs_set_connect r = r\<lparr>rs_is_connect := True\<rparr>"

definition rs_set_wt_connect :: "request_stream \<Rightarrow> request_stream" where
  "rs_set_wt_connect r = r\<lparr>rs_is_wt_connect := True\<rparr>"

definition rs_set_qpack_blocked ::
    "request_stream \<Rightarrow> bool \<Rightarrow> u64 \<Rightarrow> (bytes \<times> bool) option \<Rightarrow> request_stream" where
  "rs_set_qpack_blocked r blocked ricnt blocked_header =
    r\<lparr>rs_qpack_blocked := blocked, rs_qpack_ricnt := ricnt, rs_qpack_blocked_header := blocked_header\<rparr>"

definition rs_take_qpack_blocked_header :: "request_stream \<Rightarrow> request_stream \<times> (bytes \<times> bool) option" where
  "rs_take_qpack_blocked_header r = (r\<lparr>rs_qpack_blocked_header := None\<rparr>, rs_qpack_blocked_header r)"

section \<open>Sending\<close>

text \<open>
  The state after a HEADERS frame; \<^verbatim>\<open>unreachable!()\<close> and the two \<^verbatim>\<open>expect\<close>s are panics (\<open>None\<close>).
\<close>

definition headers_sent_state :: "request_send_state \<Rightarrow> bool \<Rightarrow> request_send_state option" where
  "headers_sent_state s is_interim =
    (case s of
       RsInitial \<Rightarrow> Some (if is_interim then RsInterimResponseSent else RsHeadersSent)
     | RsInterimResponseSent \<Rightarrow> Some (if is_interim then RsInterimResponseSent else RsHeadersSent)
     | RsHeadersSent \<Rightarrow> Some RsTrailersSent
     | RsSendingBody \<Rightarrow> Some RsTrailersSent
     | _ \<Rightarrow> None)"

definition headers_check :: "request_stream \<Rightarrow> bool \<Rightarrow> h3_error option" where
  "headers_check r is_interim =
    (case rs_send_state r of
       RsInitial \<Rightarrow> None
     | RsInterimResponseSent \<Rightarrow> None
     | RsHeadersSent \<Rightarrow>
         if rs_is_connect r then Some (StreamError FrameUnexpected)
         else if is_interim then Some (StreamError FrameUnexpected) else None
     | RsSendingBody \<Rightarrow>
         if rs_is_connect r then Some (StreamError FrameUnexpected)
         else if is_interim then Some (StreamError FrameUnexpected) else None
     | _ \<Rightarrow> Some (StreamError FrameUnexpected))"

definition rs_finish_sending :: "request_stream \<Rightarrow> bool \<Rightarrow> request_stream" where
  "rs_finish_sending r fin =
    (if fin then
       r\<lparr>rs_send_buf := sb_set_fin (rs_send_buf r), rs_state := close_local (rs_state r),
         rs_send_state := RsSendComplete\<rparr>
     else r)"

definition rs_push_frame :: "request_stream \<Rightarrow> frame \<Rightarrow> request_stream option" where
  "rs_push_frame r frame = do {
     frame_len \<leftarrow> encoded_frame_len frame;
     (frame_buf, n) \<leftarrow> encode_frame (replicate frame_len 0) frame;
     Some (r\<lparr>rs_send_buf := sb_push (rs_send_buf r) frame_buf\<rparr>)
   }"

definition send_encoded_headers ::
    "request_stream \<Rightarrow> bytes \<Rightarrow> bool \<Rightarrow> bool \<Rightarrow> (request_stream \<times> (h3_error + unit)) option" where
  "send_encoded_headers r encoded fin is_interim =
    (if \<not> can_send (rs_state r) then Some (r, Inl (StreamClosed (rs_stream_id r)))
     else case headers_check r is_interim of
       Some e \<Rightarrow> Some (r, Inl e)
     | None \<Rightarrow>
         if is_interim \<and> fin then Some (r, Inl (StreamError MessageError))
         else do {
           r \<leftarrow> rs_push_frame r (HeadersFrame encoded);
           s \<leftarrow> headers_sent_state (rs_send_state r) is_interim;
           let r = r\<lparr>rs_send_state := s\<rparr>;
           Some (rs_finish_sending r fin, Inr ())
         })"

definition send_body :: "request_stream \<Rightarrow> bytes \<Rightarrow> bool \<Rightarrow> (request_stream \<times> (h3_error + unit)) option" where
  "send_body r data fin =
    (if \<not> can_send (rs_state r) then Some (r, Inl (StreamClosed (rs_stream_id r)))
     else if rs_send_state r \<noteq> RsHeadersSent \<and> rs_send_state r \<noteq> RsSendingBody then
       Some (r, Inl (StreamError FrameUnexpected))
     else do {
       r \<leftarrow> (if data \<noteq> [] then
               map_option (\<lambda>r. r\<lparr>rs_send_state := RsSendingBody\<rparr>) (rs_push_frame r (DataFrame data))
             else Some r);
       Some (rs_finish_sending r fin, Inr ())
     })"

definition has_fin_pending :: "request_stream \<Rightarrow> bool" where
  "has_fin_pending r \<longleftrightarrow>
    sb_fin (rs_send_buf r) \<and> sb_is_data_consumed (rs_send_buf r) \<and> \<not> sb_fin_sent (rs_send_buf r)"

definition get_send_data :: "request_stream \<Rightarrow> bytes \<times> bool" where
  "get_send_data r = (sb_peek (rs_send_buf r), has_fin_pending r)"

definition is_send_complete :: "request_stream \<Rightarrow> bool" where
  "is_send_complete r \<longleftrightarrow>
    (if sb_fin (rs_send_buf r) then sb_fin_sent (rs_send_buf r) else sb_is_data_consumed (rs_send_buf r))"

definition consume_send_data :: "request_stream \<Rightarrow> usize \<Rightarrow> request_stream option" where
  "consume_send_data r len = map_option (\<lambda>b. r\<lparr>rs_send_buf := b\<rparr>) (sb_consume (rs_send_buf r) len)"

definition discard_send_data :: "request_stream \<Rightarrow> request_stream" where
  "discard_send_data r = r\<lparr>rs_send_buf := sb_discard (rs_send_buf r)\<rparr>"

definition mark_fin_sent :: "request_stream \<Rightarrow> request_stream" where
  "mark_fin_sent r = r\<lparr>rs_send_buf := sb_mark_fin_sent (rs_send_buf r)\<rparr>"

definition has_pending_send :: "request_stream \<Rightarrow> bool" where
  "has_pending_send r \<longleftrightarrow> sb_has_pending (rs_send_buf r)"

section \<open>Receiving\<close>

datatype raw_received_data = RawHeaders bytes | RawTrailers bytes | RawData bytes | RawStreamEnd

definition rs_receive :: "request_stream \<Rightarrow> bytes \<Rightarrow> bool \<Rightarrow> request_stream" where
  "rs_receive r data fin =
    (let r = r\<lparr>rs_recv_buf := rb_push (rs_recv_buf r) data\<rparr> in
     if fin then r\<lparr>rs_recv_buf := rb_set_fin (rs_recv_buf r)\<rparr> else r)"

text \<open>
  The match on the frame at the end of the loop of \<^verbatim>\<open>process_raw\<close>; \<open>None\<close> continues the loop.
\<close>

fun process_frame ::
    "request_stream \<Rightarrow> frame \<Rightarrow> request_stream \<times> (h3_error + raw_received_data option) option" where
  "process_frame r (HeadersFrame payload) =
    (if rs_recv_state r = RrTrailersReceived then (r, Some (Inl (ConnectionError FrameUnexpected)))
     else if rs_recv_state r = RrReceivingBody then
       if rs_is_connect r then (r, Some (Inl (ConnectionError FrameUnexpected)))
       else (r\<lparr>rs_recv_state := RrTrailersReceived\<rparr>, Some (Inr (Some (RawTrailers payload))))
     else (r\<lparr>rs_recv_state := RrReceivingBody\<rparr>, Some (Inr (Some (RawHeaders payload)))))"
| "process_frame r (DataFrame data) =
    (if rs_recv_state r = RrWaitingHeaders \<or> rs_recv_state r = RrTrailersReceived then
       (r, Some (Inl (ConnectionError FrameUnexpected)))
     else if \<not> rs_is_wt_connect r then
       let new_len = sat_add (length (rs_recv_body r)) (length data) in
       if rs_max_received_body_size r < new_len then (r, Some (Inl (ConnectionError ExcessiveLoad)))
       else (r\<lparr>rs_recv_body := rs_recv_body r @ data\<rparr>, Some (Inr (Some (RawData data))))
     else (r, Some (Inr (Some (RawData data)))))"
| "process_frame r (UnknownFrame _) = (r, None)"
| "process_frame r _ = (r, Some (Inl (ConnectionError FrameUnexpected)))"

fun request_decode_error :: "frame_decode_error \<Rightarrow> h3_error" where
  "request_decode_error (ServerPushNotSupported _) = ConnectionError FrameUnexpected"
| "request_decode_error e = FrameDecode e"

definition server_first_frame :: "request_stream \<Rightarrow> bool" where
  "server_first_frame r \<longleftrightarrow>
    rs_role r = Server \<and> \<not> rs_first_frame_processed r \<and> kind_from_stream_id (rs_stream_id r) = ClientBidi"

text \<open>One pass of the loop.\<close>

definition process_once ::
    "request_stream \<Rightarrow> request_stream \<times> (h3_error + raw_received_data option) option" where
  "process_once r =
    (let data = rb_peek (rs_recv_buf r); fin = rb_fin (rs_recv_buf r) in
     if data = [] then
       if fin \<and> rs_recv_state r \<noteq> RrComplete then
         if rs_recv_state r = RrWaitingHeaders then (r, Some (Inl (StreamError MessageError)))
         else
           (r\<lparr>rs_state := close_remote (rs_state r), rs_recv_state := RrComplete\<rparr>,
            Some (Inr (Some RawStreamEnd)))
       else (r, Some (Inr None))
     else if \<not> server_first_frame r \<and> is_wt_stream_frame_type data then
       (r, Some (Inl (ConnectionError FrameUnexpected)))
     else
       case decode_frame_header data of
         Inl BufferTooShort \<Rightarrow> (r, Some (if fin then Inl (ConnectionError FrameError) else Inr None))
       | Inl (Http2Frame _) \<Rightarrow> (r, Some (Inl (ConnectionError FrameUnexpected)))
       | Inl InvalidLength \<Rightarrow> (r, Some (Inl (ConnectionError FrameError)))
       | Inl e \<Rightarrow> (r, Some (Inl (FrameDecode e)))
       | Inr header \<Rightarrow>
           (case total_len header of
              None \<Rightarrow> (r, Some (Inl (ConnectionError FrameError)))
            | Some needed \<Rightarrow>
                if length data < needed then
                  (r, Some (if fin then Inl (ConnectionError FrameError) else Inr None))
                else if vget (fh_type header) = 0x04 then
                  (r, Some (Inl (ConnectionError FrameUnexpected)))
                else
                  case map_err request_decode_error (decode_frame data) of
                    Inl e \<Rightarrow> (r, Some (Inl e))
                  | Inr (frame, consumed) \<Rightarrow>
                      process_frame
                        (r\<lparr>rs_recv_buf := the (rb_consume (rs_recv_buf r) consumed),
                           rs_first_frame_processed := True\<rparr>)
                        frame))"

lemma process_frame_buf: "process_frame r f = (r', x) \<Longrightarrow> rs_recv_buf r' = rs_recv_buf r"
  by (cases f) (auto simp: Let_def split: if_splits)

text \<open>Only an unknown frame continues the loop, and it takes bytes off the buffer.\<close>

lemma process_once_continue:
  assumes "process_once r = (r', None)"
  shows "length (rb_peek (rs_recv_buf r')) < length (rb_peek (rs_recv_buf r))"
proof -
  let ?b = "rb_peek (rs_recv_buf r)"
  from assms have ne: "?b \<noteq> []" by (auto simp: process_once_def Let_def split: if_splits)
  then have inv: "rb_inv (rs_recv_buf r)" by (cases "rb_consumed (rs_recv_buf r) \<le> length (rb_data (rs_recv_buf r))")
      (simp_all add: rb_inv_def rb_peek_def)
  from assms ne obtain f n where d: "decode_frame ?b = Inr (f, n)"
    and p: "process_frame (r\<lparr>rs_recv_buf := the (rb_consume (rs_recv_buf r) n),
      rs_first_frame_processed := True\<rparr>) f = (r', None)"
    by (auto simp: process_once_def Let_def map_err_def
        split: if_splits sum.splits option.splits frame_decode_error.splits)
  have "0 < n" "n \<le> length ?b" using decode_frame_sound [OF d] by simp_all
  with process_frame_buf [OF p] rbq.consume_the [OF inv, of n] show ?thesis by simp
qed

function process_raw :: "request_stream \<Rightarrow> request_stream \<times> (h3_error + raw_received_data option)" where
  "process_raw r =
    (case process_once r of
       (r', None) \<Rightarrow> process_raw r'
     | (r', Some res) \<Rightarrow> (r', res))"
  by pat_completeness auto
termination
  by (relation "measure (\<lambda>r. length (rb_peek (rs_recv_buf r)))")
    (simp_all add: process_once_continue [OF sym])

declare process_raw.simps [simp del]

text \<open>The connection answers a 1xx response with this: another HEADERS frame may follow.\<close>

definition notify_informational :: "request_stream \<Rightarrow> request_stream" where
  "notify_informational r =
    (if rs_recv_state r = RrReceivingBody then r\<lparr>rs_recv_state := RrWaitingHeaders\<rparr> else r)"

section \<open>The receiver on its view\<close>

text \<open>
  The record without its receive buffer (only the FIN mark is kept) is the control state; the
  pending bytes are the rest of the view.
\<close>

definition strip :: "request_stream \<Rightarrow> request_stream" where
  "strip r = r\<lparr>rs_recv_buf := \<lparr>rb_data = [], rb_consumed = 0, rb_fin = rb_fin (rs_recv_buf r)\<rparr>\<rparr>"

definition rs_pending :: "request_stream \<Rightarrow> bytes" where
  "rs_pending r = rb_peek (rs_recv_buf r)"

definition rs_inv :: "request_stream \<Rightarrow> bool" where
  "rs_inv r \<longleftrightarrow> rb_inv (rs_recv_buf r)"

definition is_settings_type :: "bytes \<Rightarrow> bool" where
  "is_settings_type b = (case decode_frame_type b of None \<Rightarrow> False | Some t \<Rightarrow> vget t = 0x04)"

definition request_view ::
    "request_stream \<Rightarrow> bytes \<Rightarrow> request_stream \<times> bytes \<times> (h3_error + raw_received_data option) option" where
  "request_view c b =
    (if b = [] then
       if rb_fin (rs_recv_buf c) \<and> rs_recv_state c \<noteq> RrComplete then
         if rs_recv_state c = RrWaitingHeaders then (c, b, Some (Inl (StreamError MessageError)))
         else
           (c\<lparr>rs_state := close_remote (rs_state c), rs_recv_state := RrComplete\<rparr>, b,
            Some (Inr (Some RawStreamEnd)))
       else (c, b, Some (Inr None))
     else if \<not> server_first_frame c \<and> is_wt_stream_frame_type b then
       (c, b, Some (Inl (ConnectionError FrameUnexpected)))
     else
       case decode_frame b of
         Inl BufferTooShort \<Rightarrow>
           (c, b, Some (if rb_fin (rs_recv_buf c) then Inl (ConnectionError FrameError) else Inr None))
       | Inl (Http2Frame _) \<Rightarrow> (c, b, Some (Inl (ConnectionError FrameUnexpected)))
       | Inl e \<Rightarrow>
           (c, b, Some (Inl (if is_settings_type b then ConnectionError FrameUnexpected
                             else request_decode_error e)))
       | Inr (f, n) \<Rightarrow>
           if is_settings_type b then (c, b, Some (Inl (ConnectionError FrameUnexpected)))
           else
             case process_frame (c\<lparr>rs_first_frame_processed := True\<rparr>) f of
               (c', x) \<Rightarrow> (c', drop n b, x))"

definition view3 :: "request_stream \<times> 'x \<Rightarrow> request_stream \<times> bytes \<times> 'x" where
  "view3 p = (strip (fst p), rs_pending (fst p), snd p)"

lemma strip_simps [simp]:
  "rs_role (strip r) = rs_role r" "rs_stream_id (strip r) = rs_stream_id r"
  "rs_first_frame_processed (strip r) = rs_first_frame_processed r"
  "rs_recv_state (strip r) = rs_recv_state r" "rb_fin (rs_recv_buf (strip r)) = rb_fin (rs_recv_buf r)"
  "server_first_frame (strip r) = server_first_frame r"
  by (simp_all add: strip_def server_first_frame_def)

lemma process_frame_strip:
  "rb_fin q = rb_fin (rs_recv_buf r) \<Longrightarrow>
    process_frame ((strip r)\<lparr>rs_first_frame_processed := b\<rparr>) f =
      (case process_frame (r\<lparr>rs_recv_buf := q, rs_first_frame_processed := b\<rparr>) f of (r', x) \<Rightarrow> (strip r', x))"
  by (cases f) (simp_all add: strip_def Let_def)

lemma decode_frame_type_header:
  assumes "decode_frame_header b = Inr h"
  shows "decode_frame_type b = Some (fh_type h)"
  using assms
  by (auto simp: decode_frame_header_def decode_frame_type_def bindR_def map_err_def split: if_splits sum.splits)

lemma process_once_view:
  assumes "rs_inv r"
  shows "view3 (process_once r) = request_view (strip r) (rs_pending r) \<and> rs_inv (fst (process_once r))"
proof (cases "rs_pending r = []")
  case True
  then show ?thesis
    using assms by (simp add: process_once_def request_view_def rs_pending_def view3_def rs_inv_def)
      (simp add: strip_def)
next
  case ne: False
  let ?b = "rs_pending r"
  show ?thesis
  proof (cases "\<not> server_first_frame r \<and> is_wt_stream_frame_type ?b")
    case True
    with ne assms show ?thesis
      by (simp add: process_once_def request_view_def rs_pending_def view3_def rs_inv_def)
  next
    case nwt: False
    note s = process_once_def request_view_def rs_pending_def view3_def rs_inv_def Let_def
    show ?thesis
    proof (cases ?b rule: decode_frame_cases)
      case (frame h n f)
      let ?q = "the (rb_consume (rs_recv_buf r) n)"
      have inv: "rb_inv (rs_recv_buf r)" using assms by (simp add: rs_inv_def)
      have "n \<le> length (rb_peek (rs_recv_buf r))" using frame by (simp add: rs_pending_def)
      note q = rbq.consume_the [OF inv this]
      note fin = consume_fin(1) [OF q(1)]
      show ?thesis
      proof (cases "vget (fh_type h) = 4")
        case True
        with frame nwt ne assms show ?thesis
          by (simp add: s is_settings_type_def decode_frame_type_header)
      next
        case False
        obtain r' x where p: "process_frame (r\<lparr>rs_recv_buf := ?q, rs_first_frame_processed := True\<rparr>) f = (r', x)"
          by (cases "process_frame (r\<lparr>rs_recv_buf := ?q, rs_first_frame_processed := True\<rparr>) f") auto
        note sp = process_frame_strip [OF fin, of True f]
        have "process_once r = (r', x)" using False frame nwt ne p by (auto simp: s)
        moreover have "request_view (strip r) ?b = (strip r', drop n ?b, x)"
          using False frame nwt ne p sp
          by (auto simp: request_view_def is_settings_type_def decode_frame_type_header)
        moreover have "rs_recv_buf r' = ?q" using process_frame_buf [OF p] by simp
        ultimately show ?thesis using q by (simp add: view3_def rs_inv_def rs_pending_def)
      qed
    next
      case (body h n e)
      have "is_settings_type ?b \<longleftrightarrow> vget (fh_type h) = 4"
        using body by (simp add: is_settings_type_def decode_frame_type_header)
      with body nwt ne assms show ?thesis
        by (auto simp: s map_err_def)
    qed (use nwt ne assms in \<open>auto simp: s\<close>)
  qed
qed

lemma request_view_continue:
  assumes "request_view c b = (c', b', None)"
  shows "length b' < length b"
proof -
  from assms obtain f n where "decode_frame b = Inr (f, n)" "b' = drop n b" "b \<noteq> []"
    by (auto simp: request_view_def Let_def split: if_splits sum.splits frame_decode_error.splits prod.splits)
  with decode_frame_sound [of b f n] show ?thesis by simp
qed

function request_run ::
    "request_stream \<Rightarrow> bytes \<Rightarrow> request_stream \<times> bytes \<times> (h3_error + raw_received_data option)" where
  "request_run c b =
    (case request_view c b of
       (c', b', None) \<Rightarrow> request_run c' b'
     | (c', b', Some res) \<Rightarrow> (c', b', res))"
  by pat_completeness auto
termination
  by (relation "measure (\<lambda>(c, b). length b)") (auto simp: request_view_continue [OF sym])

declare request_run.simps [simp del]

lemma process_raw_run:
  assumes "rs_inv r"
  shows "view3 (process_raw r) = request_run (strip r) (rs_pending r) \<and> rs_inv (fst (process_raw r))"
  using assms
proof (induction r rule: process_raw.induct)
  case (1 r)
  obtain r' x where p: "process_once r = (r', x)" by (cases "process_once r") auto
  note v = process_once_view [OF 1(2)]
  show ?case
  proof (cases x)
    case None
    with p v have "rs_inv r'" "request_view (strip r) (rs_pending r) = (strip r', rs_pending r', None)"
      by (simp_all add: view3_def)
    moreover have "process_raw r = process_raw r'" using p None by (subst process_raw.simps) simp
    moreover note 1(1) [OF p [symmetric] None]
    ultimately show ?thesis by (subst request_run.simps) simp
  next
    case (Some res)
    with p v have "rs_inv r'" "request_view (strip r) (rs_pending r) = (strip r', rs_pending r', Some res)"
      by (simp_all add: view3_def)
    moreover have "process_raw r = (r', res)" using p Some by (subst process_raw.simps) simp
    ultimately show ?thesis by (subst request_run.simps) (simp add: view3_def)
  qed
qed

text \<open>Before FIN, an answer does not change when more bytes follow.\<close>

lemma settings_type_stable:
  "decode_frame b \<noteq> Inl BufferTooShort \<Longrightarrow> is_settings_type (b @ d) = is_settings_type b"
  using frame_type_stable [of b d] frame_type_known [of b] by (simp add: is_settings_type_def)

lemma request_view_stable:
  assumes "request_view c b = (c', b', x)" "x \<noteq> Some (Inr None)" "\<not> rb_fin (rs_recv_buf c)"
  shows "request_view c (b @ d) = (c', b' @ d, x)"
proof -
  from assms have ne: "b \<noteq> []" by (auto simp: request_view_def)
  show ?thesis
  proof (cases "\<not> server_first_frame c \<and> is_wt_stream_frame_type b")
    case True
    with assms ne wt_type_stable(1) show ?thesis by (auto simp: request_view_def)
  next
    case False
    have ns: "decode_frame b \<noteq> Inl BufferTooShort"
    proof
      assume "decode_frame b = Inl BufferTooShort"
      then show False using False assms ne by (auto simp: request_view_def split: if_splits)
    qed
    have n: "n \<le> length b" if "decode_frame b = Inr (f, n)" for f n using fr.dec_bound that .
    have w: "is_wt_stream_frame_type (b @ d) = is_wt_stream_frame_type b" by (rule wt_type_stable(2) [OF ns])
    show ?thesis
    proof (cases "decode_frame b")
      case (Inl e)
      with ns assms(1) False ne w fr.dec_stable [OF ns, of d] settings_type_stable [OF ns, of d] show ?thesis
        by (cases e) (auto simp: request_view_def split: if_splits)
    next
      case (Inr p)
      then obtain f k where "decode_frame b = Inr (f, k)" by (cases p) auto
      with assms(1) False ne w n fr.dec_stable [OF ns, of d] settings_type_stable [OF ns, of d] show ?thesis
        by (auto simp: request_view_def split: if_splits prod.splits)
    qed
  qed
qed

lemma request_view_wait:
  assumes "request_view c b = (c', b', Some (Inr None))"
  shows "c' = c \<and> b' = b"
proof -
  have "x \<noteq> Some (Inr None)" if "process_frame r f = (r', x)" for r f r' x
    using that by (cases f) (auto simp: Let_def split: if_splits)
  with assms show ?thesis
    by (auto simp: request_view_def split: if_splits sum.splits frame_decode_error.splits prod.splits)
qed

lemma request_view_fin:
  assumes "request_view c b = (c', b', x)"
  shows "rb_fin (rs_recv_buf c') = rb_fin (rs_recv_buf c)"
  using assms process_frame_buf
  by (fastforce simp: request_view_def split: if_splits sum.splits frame_decode_error.splits prod.splits)

lemma request_view_progress:
  assumes "request_view c b = (c', b', Some (Inr (Some ev)))" "\<not> rb_fin (rs_recv_buf c)"
  shows "length b' < length b"
proof -
  from assms obtain f n where "decode_frame b = Inr (f, n)" "b' = drop n b" "b \<noteq> []"
    by (auto simp: request_view_def Let_def split: if_splits sum.splits frame_decode_error.splits prod.splits)
  with decode_frame_sound [of b f n] show ?thesis by simp
qed

lemma request_run_fin: "request_run c b = (c', b', r) \<Longrightarrow> rb_fin (rs_recv_buf c') = rb_fin (rs_recv_buf c)"
proof (induction c b rule: request_run.induct)
  case (1 c b)
  obtain c1 b1 x where v: "request_view c b = (c1, b1, x)" by (cases "request_view c b") auto
  from 1 v request_view_fin [OF v] show ?case
    by (cases x) (auto simp: request_run.simps [of c b])
qed

lemma request_run_final:
  assumes "request_run c b = (c', b', r)" "r \<noteq> Inr None" "\<not> rb_fin (rs_recv_buf c)"
  shows "request_run c (b @ d) = (c', b' @ d, r)"
  using assms
proof (induction c b rule: request_run.induct)
  case (1 c b)
  obtain c1 b1 x where v: "request_view c b = (c1, b1, x)" by (cases "request_view c b") auto
  from 1 v request_view_stable [OF v, of d] request_view_fin [OF v] show ?case
    by (cases x) (auto simp: request_run.simps [of c b] request_run.simps [of c "b @ d"])
qed

lemma request_run_wait:
  assumes "request_run c b = (c', b', Inr None)" "\<not> rb_fin (rs_recv_buf c)"
  shows "request_run c (b @ d) = request_run c' (b' @ d)"
  using assms
proof (induction c b rule: request_run.induct)
  case (1 c b)
  obtain c1 b1 x where v: "request_view c b = (c1, b1, x)" by (cases "request_view c b") auto
  show ?case
  proof (cases x)
    case None
    with 1 v request_view_stable [OF v, of d] request_view_fin [OF v] show ?thesis
      by (simp add: request_run.simps [of c b] request_run.simps [of c "b @ d"])
  next
    case (Some y)
    with 1(2) v have "x = Some (Inr None)" "c' = c1" "b' = b1" by (auto simp: request_run.simps [of c b])
    with v request_view_wait [of c b c1 b1] show ?thesis by simp
  qed
qed

lemma request_run_progress:
  assumes "request_run c b = (c', b', Inr (Some ev))" "\<not> rb_fin (rs_recv_buf c)"
  shows "length b' < length b"
  using assms
proof (induction c b rule: request_run.induct)
  case (1 c b)
  obtain c1 b1 x where v: "request_view c b = (c1, b1, x)" by (cases "request_view c b") auto
  show ?case
  proof (cases x)
    case None
    with 1 v request_view_continue [of c b c1 b1] request_view_fin [OF v] show ?thesis
      by (fastforce simp: request_run.simps [of c b])
  next
    case (Some y)
    with 1(2,3) v request_view_progress [of c b c1 b1 ev] show ?thesis
      by (simp add: request_run.simps [of c b])
  qed
qed

section \<open>The receiver as a machine over bytes\<close>

text \<open>
  \<open>interim\<close> says which header blocks are 1xx responses; the connection, which decodes them, calls
  \<open>notify_informational\<close> for those before it processes on.
\<close>

definition notify_if ::
    "(bytes \<Rightarrow> bool) \<Rightarrow> request_stream \<Rightarrow> h3_error + raw_received_data option \<Rightarrow> request_stream" where
  "notify_if interim r res =
    (case res of
       Inr (Some (RawHeaders p)) \<Rightarrow> if interim p then notify_informational r else r
     | _ \<Rightarrow> r)"

definition process_interim ::
    "(bytes \<Rightarrow> bool) \<Rightarrow> request_stream \<Rightarrow> request_stream \<times> (h3_error + raw_received_data option)" where
  "process_interim interim r = (case process_raw r of (r', res) \<Rightarrow> (notify_if interim r' res, res))"

definition request_step ::
    "(bytes \<Rightarrow> bool) \<Rightarrow> request_stream \<Rightarrow> bytes \<Rightarrow>
      request_stream \<times> bytes \<times> (h3_error + raw_received_data option)" where
  "request_step interim c b =
    (case request_run c b of (c', b', res) \<Rightarrow> (notify_if interim c' res, b', res))"

definition rs_open :: "request_stream \<Rightarrow> bool" where
  "rs_open c \<longleftrightarrow> \<not> rb_fin (rs_recv_buf c)"

lemma notify_if_facts [simp]:
  "rs_recv_buf (notify_if interim r res) = rs_recv_buf r"
  "notify_if interim r (Inl e) = r" "notify_if interim r (Inr None) = r"
  "strip (notify_if interim r res) = notify_if interim (strip r) res"
  by (auto simp: notify_if_def notify_informational_def strip_def split: sum.split option.split raw_received_data.split)

lemma process_interim_step:
  assumes "rs_inv r" "process_interim interim r = (r', res)"
  shows "request_step interim (strip r) (rs_pending r) = (strip r', rs_pending r', res) \<and> rs_inv r'"
proof -
  obtain r1 res1 where p: "process_raw r = (r1, res1)" by (cases "process_raw r") auto
  with process_raw_run [OF assms(1)] have "request_run (strip r) (rs_pending r) = (strip r1, rs_pending r1, res1)"
    "rs_inv r1" by (simp_all add: view3_def)
  with p assms(2) show ?thesis
    by (auto simp: process_interim_def request_step_def rs_pending_def rs_inv_def)
qed

interpretation rm: byte_machine rs_open "request_step interim" for interim
proof
  fix c b c' b' r d and ev :: raw_received_data and x :: "raw_received_data option"
  assume o: "rs_open c"
  show "request_step interim c (b @ d) = (c', b' @ d, r)"
    if "request_step interim c b = (c', b', r)" "r \<noteq> Inr None"
    using that o request_run_final [of c b _ b' r d]
    by (auto simp: request_step_def rs_open_def split: prod.splits)
  show "request_step interim c (b @ d) = request_step interim c' (b' @ d)"
    if "request_step interim c b = (c', b', Inr None)"
    using that o request_run_wait [of c b c' b' d]
    by (auto simp: request_step_def rs_open_def split: prod.splits)
  show "rs_open c'" if "request_step interim c b = (c', b', Inr x)"
    using that o request_run_fin [of c b] by (auto simp: request_step_def rs_open_def split: prod.splits)
  show "length b' < length b" if "request_step interim c b = (c', b', Inr (Some ev))"
    using that o request_run_progress [of c b _ b' ev]
    by (auto simp: request_step_def rs_open_def split: prod.splits)
qed

interpretation rr: byte_receiver rs_open "request_step interim" rs_inv strip rs_pending
    "\<lambda>r d. rs_receive r d False" "process_interim interim" for interim
proof
  fix r r' :: request_stream and d and res :: "h3_error + raw_received_data option"
  show "rs_inv (rs_receive r d False) \<and> strip (rs_receive r d False) = strip r \<and>
      rs_pending (rs_receive r d False) = rs_pending r @ d" if "rs_inv r"
    using that rbq.push_inv rbq.push_view
    by (simp add: rs_receive_def rs_inv_def rs_pending_def strip_def)
  show "request_step interim (strip r) (rs_pending r) = (strip r', rs_pending r', res) \<and>
      (\<forall>x. res = Inr x \<longrightarrow> rs_inv r')" if "rs_inv r" "process_interim interim r = (r', res)"
    using process_interim_step [OF that] by simp
qed

section \<open>FIN\<close>

text \<open>The FIN mark changes no answer but the one to an empty or incomplete buffer.\<close>

definition with_fin :: "request_stream \<Rightarrow> request_stream" where
  "with_fin c = c\<lparr>rs_recv_buf := rb_set_fin (rs_recv_buf c)\<rparr>"

lemma with_fin_simps [simp]:
  "rs_recv_state (with_fin c) = rs_recv_state c" "server_first_frame (with_fin c) = server_first_frame c"
  "rb_fin (rs_recv_buf (with_fin c))" "rs_state (with_fin c) = rs_state c"
  by (simp_all add: with_fin_def server_first_frame_def)

lemma process_frame_with_fin:
  "process_frame ((with_fin c)\<lparr>rs_first_frame_processed := b\<rparr>) f =
    (case process_frame (c\<lparr>rs_first_frame_processed := b\<rparr>) f of (c', x) \<Rightarrow> (with_fin c', x))"
  by (cases f) (simp_all add: with_fin_def Let_def)

lemma request_view_with_fin:
  assumes "request_view c b = (c', b', x)" "x \<noteq> Some (Inr None)" "\<not> rb_fin (rs_recv_buf c)"
  shows "request_view (with_fin c) b = (with_fin c', b', x)"
proof -
  from assms have ne: "b \<noteq> []" by (auto simp: request_view_def)
  from assms have ns: "\<not> server_first_frame c \<and> is_wt_stream_frame_type b \<or> decode_frame b \<noteq> Inl BufferTooShort"
    by (auto simp: request_view_def split: if_splits)
  show ?thesis
  proof (cases "decode_frame b")
    case (Inl e)
    with assms(1) ne ns show ?thesis
      by (cases e) (auto simp: request_view_def split: if_splits)
  next
    case (Inr p)
    then obtain f n where "decode_frame b = Inr (f, n)" by (cases p) auto
    with assms(1) ne process_frame_with_fin [where c = c and b = True and f = f] show ?thesis
      by (auto simp: request_view_def split: if_splits prod.splits)
  qed
qed

lemma request_run_with_fin:
  assumes "request_run c b = (c', b', r)" "\<not> rb_fin (rs_recv_buf c)"
  shows "request_run (with_fin c) b =
    (if r = Inr None then request_run (with_fin c') b' else (with_fin c', b', r))"
  using assms
proof (induction c b rule: request_run.induct)
  case (1 c b)
  obtain c1 b1 x where v: "request_view c b = (c1, b1, x)" by (cases "request_view c b") auto
  show ?case
  proof (cases "x = Some (Inr None)")
    case True
    with 1(2) v request_view_wait [of c b c1 b1] show ?thesis by (auto simp: request_run.simps [of c b])
  next
    case False
    with 1 v request_view_with_fin [OF v] request_view_fin [OF v] show ?thesis
      by (cases x) (auto simp: request_run.simps [of c b] request_run.simps [of "with_fin c" b])
  qed
qed

lemma request_run_waits: "request_run c b = (c', b', Inr None) \<Longrightarrow> request_view c' b' = (c', b', Some (Inr None))"
proof (induction c b rule: request_run.induct)
  case (1 c b)
  obtain c1 b1 x where v: "request_view c b = (c1, b1, x)" by (cases "request_view c b") auto
  from 1 v request_view_wait [of c b c1 b1] show ?case
    by (cases x) (auto simp: request_run.simps [of c b])
qed

text \<open>What FIN makes of a receiver that was waiting.\<close>

lemma request_fin_waiting:
  assumes "request_view c b = (c, b, Some (Inr None))" "\<not> rb_fin (rs_recv_buf c)"
  shows "request_step interim (with_fin c) b =
    (if b \<noteq> [] then (with_fin c, b, Inl (ConnectionError FrameError))
     else if rs_recv_state c = RrComplete then (with_fin c, b, Inr None)
     else if rs_recv_state c = RrWaitingHeaders then (with_fin c, b, Inl (StreamError MessageError))
     else ((with_fin c)\<lparr>rs_state := close_remote (rs_state c), rs_recv_state := RrComplete\<rparr>, b,
       Inr (Some RawStreamEnd)))"
proof -
  have "decode_frame b = Inl BufferTooShort \<and> (server_first_frame c \<or> \<not> is_wt_stream_frame_type b)"
    if "b \<noteq> []"
  proof -
    have "x \<noteq> Some (Inr None)" if "process_frame r f = (r', x)" for r f r' x
      using that by (cases f) (auto simp: Let_def split: if_splits)
    with assms that show ?thesis
      by (auto simp: request_view_def split: if_splits sum.splits frame_decode_error.splits prod.splits)
  qed
  then have "request_view (with_fin c) b =
    (if b \<noteq> [] then (with_fin c, b, Some (Inl (ConnectionError FrameError)))
     else if rs_recv_state c = RrComplete then (with_fin c, b, Some (Inr None))
     else if rs_recv_state c = RrWaitingHeaders then (with_fin c, b, Some (Inl (StreamError MessageError)))
     else ((with_fin c)\<lparr>rs_state := close_remote (rs_state c), rs_recv_state := RrComplete\<rparr>, b,
       Some (Inr (Some RawStreamEnd))))"
    by (auto simp: request_view_def)
  then have "request_run (with_fin c) b =
    (if b \<noteq> [] then (with_fin c, b, Inl (ConnectionError FrameError))
     else if rs_recv_state c = RrComplete then (with_fin c, b, Inr None)
     else if rs_recv_state c = RrWaitingHeaders then (with_fin c, b, Inl (StreamError MessageError))
     else ((with_fin c)\<lparr>rs_state := close_remote (rs_state c), rs_recv_state := RrComplete\<rparr>, b,
       Inr (Some RawStreamEnd)))"
    by (subst request_run.simps) (simp only: split: if_split, simp)
  then show ?thesis by (simp add: request_step_def notify_if_def split: if_split)
qed

lemma notify_if_with_fin: "notify_if interim (with_fin c) res = with_fin (notify_if interim c res)"
  by (auto simp: notify_if_def notify_informational_def with_fin_def
      split: sum.split option.split raw_received_data.split)

lemma request_run_done: "request_view c b = (c', b', Some res) \<Longrightarrow> request_run c b = (c', b', res)"
  by (subst request_run.simps) simp

lemma request_step_waits:
  assumes "request_step interim c b = (c', b', Inr None)"
  shows "request_view c' b' = (c', b', Some (Inr None))" "request_run c b = (c', b', Inr None)"
  using assms request_run_waits [of c b c' b'] by (auto simp: request_step_def split: prod.splits)

interpretation rq: ending_receiver rs_open "request_step interim" rs_inv strip rs_pending
    "\<lambda>r d. rs_receive r d False" "process_interim interim" with_fin "\<lambda>r d. rs_receive r d True" for interim
proof
  fix c b c' b' and r :: "h3_error + raw_received_data option" and c2 b2 ev
  assume o: "rs_open c"
  show "request_step interim (with_fin c) b = (with_fin c', b', r)"
    if "request_step interim c b = (c', b', r)" "r \<noteq> Inr None"
    using that o request_run_with_fin [of c b] notify_if_with_fin
    by (auto simp: request_step_def rs_open_def split: prod.splits)
  show "request_step interim (with_fin c) b = request_step interim (with_fin c') b'"
    if "request_step interim c b = (c', b', Inr None)"
    using request_run_with_fin [OF request_step_waits(2) [OF that]] o
    by (simp only: request_step_def rs_open_def if_True simp_thms)
  show "request_step interim c' b' = (c', b', Inr None)" if "request_step interim c b = (c', b', Inr None)"
    using request_run_done [OF request_step_waits(1) [OF that]] by (simp add: request_step_def)
  show "request_step interim c2 b2 = (c2, b2, Inr None)"
    if "request_step interim c b = (c, b, Inr None)"
      "request_step interim (with_fin c) b = (c2, b2, Inr (Some ev))"
  proof -
    have "b2 = [] \<and> rs_recv_state c2 = RrComplete"
      using that(2) request_fin_waiting [OF request_step_waits(1) [OF that(1)], of interim] o
      by (auto simp: rs_open_def split: if_splits)
    then have "request_view c2 b2 = (c2, b2, Some (Inr None))" by (simp add: request_view_def)
    from request_run_done [OF this] show ?thesis by (simp add: request_step_def)
  qed
next
  fix r d
  show "rs_inv (rs_receive r d True) \<and> strip (rs_receive r d True) = with_fin (strip r) \<and>
      rs_pending (rs_receive r d True) = rs_pending r @ d" if "rs_inv r"
    using that rbq.push_inv [of "rs_recv_buf r" d] rbq.push_view [of "rs_recv_buf r" d]
    by (simp add: rs_receive_def rs_inv_def rs_pending_def strip_def with_fin_def)
      (simp add: rb_set_fin_def)
qed

text \<open>
  The end of a request stream: \<open>RawStreamEnd\<close> after a complete message, an error when no HEADERS
  came or when a frame is cut off.
\<close>

lemma request_ending:
  assumes "rm.drain interim c b = (evs, c', b', None)" "rs_open c"
  shows "rq.ending interim c' b' =
    (if b' \<noteq> [] then ([], with_fin c', b', Some (ConnectionError FrameError))
     else if rs_recv_state c' = RrComplete then ([], with_fin c', b', None)
     else if rs_recv_state c' = RrWaitingHeaders then ([], with_fin c', b', Some (StreamError MessageError))
     else ([RawStreamEnd],
       (with_fin c')\<lparr>rs_state := close_remote (rs_state c'), rs_recv_state := RrComplete\<rparr>, b', None))"
proof -
  have "request_view c' b' = (c', b', Some (Inr None))"
    using assms
  proof (induction "length b" arbitrary: c b evs rule: less_induct)
    case less
    obtain c1 b1 r where s: "request_step interim c b = (c1, b1, r)" by (cases "request_step interim c b") auto
    show ?case
    proof (cases "\<exists>ev. r = Inr (Some ev)")
      case False
      with s less.prems rm.drain_step [OF less.prems(2), of interim b]
      have "request_step interim c b = (c', b', Inr None)"
        by (cases r) (auto split: option.splits)
      from request_step_waits(1) [OF this] show ?thesis .
    next
      case True
      then obtain ev where r: "r = Inr (Some ev)" by blast
      with s less.prems rm.drain_step [OF less.prems(2), of interim b]
      obtain evs1 where d: "rm.drain interim c1 b1 = (evs1, c', b', None)" by (auto split: prod.splits)
      show ?thesis
        using less.hyps [OF rm.step_progress [OF less.prems(2)] d rm.step_live [OF less.prems(2)]] s r by blast
    qed
  qed
  moreover have "\<not> rb_fin (rs_recv_buf c')"
    using rm.drain_live [OF assms(2,1)] by (simp add: rs_open_def)
  ultimately show ?thesis
    using request_fin_waiting [of c' b' interim] by (simp add: rq.ending_def)
qed

section \<open>Sending and receiving\<close>

lemma request_frame_wf:
  "length p < 2 ^ 62 \<Longrightarrow> wf_frame (HeadersFrame p) \<and> Frame.sendable (HeadersFrame p)"
  "length p < 2 ^ 62 \<Longrightarrow> wf_frame (DataFrame p) \<and> Frame.sendable (DataFrame p)"
  by (simp_all add: wf_frame_def Frame.sendable_def)

lemma rs_push_frame_sends:
  assumes "wf_frame f" "Frame.sendable f"
  shows "rs_push_frame r f = Some (r\<lparr>rs_send_buf := sb_push (rs_send_buf r) (frame_bytes f)\<rparr>)"
  using encode_frame_room [OF assms, of "replicate (length (frame_bytes f)) 0"] encoded_frame_len_ok [OF assms(1)]
  by (simp add: rs_push_frame_def written_def)

text \<open>A complete HEADERS or DATA frame at the front is processed.\<close>

lemma request_step_frame:
  assumes "wf_frame f" "f = HeadersFrame p \<or> f = DataFrame p"
    "process_frame (c\<lparr>rs_first_frame_processed := True\<rparr>) f = (c', Some res)"
  shows "request_step interim c (frame_bytes f @ rest) = (notify_if interim c' res, rest, res)"
proof -
  have "varint_ok (frame_type_of f)" using assms(1) wf_frame_type_ok by (auto simp: wf_frame_def)
  then have "decode_frame_type (frame_bytes f @ rest) = Some (frame_type_of f)"
    using vi.dec_enc [of "frame_type_of f"]
    by (simp add: decode_frame_type_def frame_bytes_def header_bytes_def)
  then have "\<not> is_wt_stream_frame_type (frame_bytes f @ rest)" "\<not> is_settings_type (frame_bytes f @ rest)"
    using assms(2) by (auto simp: is_wt_stream_frame_type_def is_settings_type_def BIDIRECTIONAL_SIGNAL_VALUE_def)
  then have "request_view c (frame_bytes f @ rest) = (c', rest, Some res)"
    using assms(3) fr.dec_enc [OF assms(1), of rest] by (simp add: request_view_def)
  from request_run_done [OF this] show ?thesis by (simp add: request_step_def)
qed

lemma request_step_empty: "rs_open c \<Longrightarrow> request_step interim c [] = (c, [], Inr None)"
  using request_run_done [of c "[]" c "[]" "Inr None"]
  by (simp add: request_step_def request_view_def rs_open_def)

lemma request_drain_empty: "rs_open c \<Longrightarrow> rm.drain interim c [] = ([], c, [], None)"
  using rm.drain_step [of c interim "[]"] request_step_empty [of c interim] by simp

lemma request_drain_frame:
  assumes "wf_frame f" "f = HeadersFrame p \<or> f = DataFrame p" "rs_open c" "rs_open c'"
    "process_frame (c\<lparr>rs_first_frame_processed := True\<rparr>) f = (c', Some (Inr (Some ev)))"
  shows "rm.drain interim c (frame_bytes f) = ([ev], notify_if interim c' (Inr (Some ev)), [], None)"
proof -
  have "rs_open (notify_if interim c' (Inr (Some ev)))" using assms(4) by (simp add: rs_open_def)
  from request_drain_empty [OF this, of interim] show ?thesis
    using rm.drain_step [OF assms(3), of interim "frame_bytes f"]
      request_step_frame [OF assms(1,2,5), of interim "[]"] by simp
qed

text \<open>Calls of the sender, and the events that the peer should see for an accepted one.\<close>

datatype send_op = SendHeaders bytes bool bool | SendBody bytes bool

fun apply_op :: "request_stream \<Rightarrow> send_op \<Rightarrow> (request_stream \<times> (h3_error + unit)) option" where
  "apply_op s (SendHeaders p fin is_interim) = send_encoded_headers s p fin is_interim"
| "apply_op s (SendBody p fin) = send_body s p fin"

fun op_events :: "request_send_state \<Rightarrow> send_op \<Rightarrow> raw_received_data list" where
  "op_events st (SendHeaders p _ _) =
    [if st = RsInitial \<or> st = RsInterimResponseSent then RawHeaders p else RawTrailers p]"
| "op_events st (SendBody p _) = (if p = [] then [] else [RawData p])"

fun run_ops :: "request_stream \<Rightarrow> send_op list \<Rightarrow> (request_stream \<times> raw_received_data list) option" where
  "run_ops s [] = Some (s, [])"
| "run_ops s (x # xs) = do {
     (s', res) \<leftarrow> apply_op s x;
     (s'', evs) \<leftarrow> run_ops s' xs;
     Some (s'', (case res of Inl _ \<Rightarrow> [] | Inr _ \<Rightarrow> op_events (rs_send_state s) x) @ evs)
   }"

fun body_of :: "raw_received_data list \<Rightarrow> bytes" where
  "body_of [] = []"
| "body_of (RawData d # evs) = d @ body_of evs"
| "body_of (_ # evs) = body_of evs"

fun ops_body :: "send_op list \<Rightarrow> nat" where
  "ops_body [] = 0"
| "ops_body (SendBody p _ # xs) = length p + ops_body xs"
| "ops_body (_ # xs) = ops_body xs"

text \<open>The calls are admissible: lengths fit a frame, and the interim flag agrees with the block.\<close>

fun op_ok :: "(bytes \<Rightarrow> bool) \<Rightarrow> send_op \<Rightarrow> bool" where
  "op_ok interim (SendHeaders p _ is_interim) \<longleftrightarrow> length p < 2 ^ 62 \<and> is_interim = interim p"
| "op_ok interim (SendBody p _) \<longleftrightarrow> length p < 2 ^ 62"

text \<open>The sender and a receiver that has seen everything sent so far are in step.\<close>

definition in_step :: "request_stream \<Rightarrow> request_stream \<Rightarrow> bool" where
  "in_step s c \<longleftrightarrow>
    rs_is_connect c = rs_is_connect s \<and> \<not> rs_is_wt_connect c \<and> rs_open c \<and> sb_inv (rs_send_buf s) \<and>
    (rs_send_state s = RsSendComplete \<longleftrightarrow> sb_fin (rs_send_buf s)) \<and>
    (case rs_send_state s of
       RsInitial \<Rightarrow> rs_recv_state c = RrWaitingHeaders
     | RsInterimResponseSent \<Rightarrow> rs_recv_state c = RrWaitingHeaders
     | RsHeadersSent \<Rightarrow> rs_recv_state c = RrReceivingBody
     | RsSendingBody \<Rightarrow> rs_recv_state c = RrReceivingBody
     | RsTrailersSent \<Rightarrow> rs_recv_state c = RrTrailersReceived
     | RsSendComplete \<Rightarrow> rs_recv_state c = RrReceivingBody \<or> rs_recv_state c = RrTrailersReceived)"

lemma in_step_finish:
  assumes "in_step s c" "rs_send_state s \<in> {RsHeadersSent, RsSendingBody, RsTrailersSent} \<or> \<not> fin"
  shows "in_step (rs_finish_sending s fin) c \<and>
    sb_peek (rs_send_buf (rs_finish_sending s fin)) = sb_peek (rs_send_buf s)"
  using assms by (cases "rs_send_state s") (auto simp: in_step_def rs_finish_sending_def)

text \<open>What one accepted or rejected call does to the pair.\<close>

definition op_effect ::
    "(bytes \<Rightarrow> bool) \<Rightarrow> request_stream \<Rightarrow> request_stream \<Rightarrow> request_stream \<Rightarrow> request_stream \<Rightarrow>
      raw_received_data list \<Rightarrow> bool" where
  "op_effect interim s c s' c' evs \<longleftrightarrow>
    (\<exists>bs. sb_peek (rs_send_buf s') = sb_peek (rs_send_buf s) @ bs \<and>
      rm.drain interim c bs = (evs, c', [], None)) \<and>
    in_step s' c' \<and> rs_recv_body c' = rs_recv_body c @ body_of evs \<and>
    rs_max_received_body_size c' = rs_max_received_body_size c"

lemma op_effect_none: "in_step s c \<Longrightarrow> op_effect interim s c s c []"
  using request_drain_empty [of c interim] by (simp add: op_effect_def in_step_def)

lemma op_effect_trans:
  assumes "op_effect interim s c s1 c1 evs1" "op_effect interim s1 c1 s2 c2 evs2" "in_step s c"
    "body_of (evs1 @ evs2) = body_of evs1 @ body_of evs2"
  shows "op_effect interim s c s2 c2 (evs1 @ evs2)"
proof -
  from assms(1,2) obtain b1 b2 where
    b: "sb_peek (rs_send_buf s1) = sb_peek (rs_send_buf s) @ b1" "rm.drain interim c b1 = (evs1, c1, [], None)"
      "sb_peek (rs_send_buf s2) = sb_peek (rs_send_buf s1) @ b2" "rm.drain interim c1 b2 = (evs2, c2, [], None)"
    by (auto simp: op_effect_def)
  have "rm.drain interim c (b1 @ b2) = (evs1 @ evs2, c2, [], None)"
    using rm.drain_append [of c interim b1 evs1 c1 "[]" None b2] b assms(3) by (simp add: in_step_def)
  with b assms show ?thesis by (auto simp: op_effect_def)
qed

lemma body_of_append: "body_of (xs @ ys) = body_of xs @ body_of ys"
  by (induction xs rule: body_of.induct) simp_all

lemma push_effect:
  assumes "in_step s c" "wf_frame f" "Frame.sendable f" "f = HeadersFrame p \<or> f = DataFrame p"
    "process_frame (c\<lparr>rs_first_frame_processed := True\<rparr>) f = (c1, Some (Inr (Some ev)))"
    "c' = notify_if interim c1 (Inr (Some ev))" "rs_open c1"
    "s' = rs_finish_sending (s\<lparr>rs_send_buf := sb_push (rs_send_buf s) (frame_bytes f), rs_send_state := st\<rparr>) fin"
    "in_step (s\<lparr>rs_send_buf := sb_push (rs_send_buf s) (frame_bytes f), rs_send_state := st\<rparr>) c'"
    "st \<in> {RsHeadersSent, RsSendingBody, RsTrailersSent} \<or> \<not> fin"
    "rs_recv_body c' = rs_recv_body c @ body_of [ev]" "rs_max_received_body_size c' = rs_max_received_body_size c"
  shows "op_effect interim s c s' c' [ev]"
proof -
  have "rs_open c" "sb_inv (rs_send_buf s)" using assms(1) by (simp_all add: in_step_def)
  with request_drain_frame [OF assms(2,4) _ assms(7,5), of interim] assms in_step_finish [OF assms(9), of fin]
    sbq.push_view [of "rs_send_buf s" "frame_bytes f"]
  show ?thesis unfolding op_effect_def by (intro conjI exI [of _ "frame_bytes f"]) auto
qed

lemma headers_effect:
  assumes "in_step s c" "op_ok interim (SendHeaders p fin is_interim)"
  shows "\<exists>s' res c'. send_encoded_headers s p fin is_interim = Some (s', res) \<and>
    op_effect interim s c s' c'
      (case res of Inl _ \<Rightarrow> [] | Inr _ \<Rightarrow> op_events (rs_send_state s) (SendHeaders p fin is_interim))"
proof (cases "can_send (rs_state s) \<and> headers_check s is_interim = None \<and> \<not> (is_interim \<and> fin)")
  case False
  then have "\<exists>e. send_encoded_headers s p fin is_interim = Some (s, Inl e)"
    by (cases "headers_check s is_interim") (auto simp: send_encoded_headers_def)
  then show ?thesis using op_effect_none [OF assms(1)] by fastforce
next
  case True
  let ?f = "HeadersFrame p"
  let ?s = "\<lambda>st. s\<lparr>rs_send_buf := sb_push (rs_send_buf s) (frame_bytes ?f), rs_send_state := st\<rparr>"
  have wf: "wf_frame ?f" "Frame.sendable ?f" using request_frame_wf(1) [of p] assms(2) by simp_all
  have i: "sb_inv (sb_push (rs_send_buf s) (frame_bytes ?f))" using assms(1) sbq.push_inv by (simp add: in_step_def)
  have sent: "send_encoded_headers s p fin is_interim = Some (rs_finish_sending (?s st) fin, Inr ())"
    if "headers_sent_state (rs_send_state s) is_interim = Some st" for st
    using True that by (simp add: send_encoded_headers_def rs_push_frame_sends [OF wf])
  consider (first) "rs_send_state s = RsInitial \<or> rs_send_state s = RsInterimResponseSent"
    | (trailers) "rs_send_state s = RsHeadersSent \<or> rs_send_state s = RsSendingBody"
    using True by (cases "rs_send_state s") (auto simp: headers_check_def)
  then show ?thesis
  proof cases
    case first
    let ?st = "if is_interim then RsInterimResponseSent else RsHeadersSent"
    let ?c1 = "c\<lparr>rs_first_frame_processed := True, rs_recv_state := RrReceivingBody\<rparr>"
    let ?c = "notify_if interim ?c1 (Inr (Some (RawHeaders p)))"
    have "op_effect interim s c (rs_finish_sending (?s ?st) fin) ?c [RawHeaders p]"
      by (rule push_effect [where f = ?f and ?c1.0 = ?c1 and st = ?st and p = p])
        (use assms wf i first True in \<open>auto simp: in_step_def rs_open_def notify_if_def notify_informational_def\<close>)
    moreover have "headers_sent_state (rs_send_state s) is_interim = Some ?st"
      using first by (auto simp: headers_sent_state_def)
    ultimately show ?thesis using sent first by (intro exI conjI) auto
  next
    case trailers
    let ?c = "c\<lparr>rs_first_frame_processed := True, rs_recv_state := RrTrailersReceived\<rparr>"
    have nc: "\<not> rs_is_connect s" "\<not> is_interim" using True trailers by (auto simp: headers_check_def split: if_splits)
    have "op_effect interim s c (rs_finish_sending (?s RsTrailersSent) fin) ?c [RawTrailers p]"
      by (rule push_effect [where f = ?f and ?c1.0 = ?c and st = RsTrailersSent and p = p])
        (use assms wf i trailers nc in \<open>auto simp: in_step_def rs_open_def notify_if_def\<close>)
    moreover have "headers_sent_state (rs_send_state s) is_interim = Some RsTrailersSent"
      using trailers by (auto simp: headers_sent_state_def)
    ultimately show ?thesis using sent trailers by (intro exI conjI) auto
  qed
qed

lemma body_effect:
  assumes "in_step s c" "length p < 2 ^ 62" "length (rs_recv_body c) + length p \<le> rs_max_received_body_size c"
    "length (rs_recv_body c) + length p < 2 ^ 64"
  shows "\<exists>s' res c'. send_body s p fin = Some (s', res) \<and>
    op_effect interim s c s' c' (case res of Inl _ \<Rightarrow> [] | Inr _ \<Rightarrow> op_events (rs_send_state s) (SendBody p fin))"
proof (cases "can_send (rs_state s) \<and> (rs_send_state s = RsHeadersSent \<or> rs_send_state s = RsSendingBody)")
  case False
  then have "\<exists>e. send_body s p fin = Some (s, Inl e)" by (auto simp: send_body_def)
  then show ?thesis using op_effect_none [OF assms(1)] by fastforce
next
  case True
  show ?thesis
  proof (cases "p = []")
    case empty: True
    have "send_body s p fin = Some (rs_finish_sending s fin, Inr ())"
      using True empty by (auto simp: send_body_def)
    moreover have "op_effect interim s c (rs_finish_sending s fin) c []"
      using in_step_finish [OF assms(1), of fin] True request_drain_empty [of c interim] assms(1)
      by (auto simp: op_effect_def in_step_def)
    ultimately show ?thesis using empty by (intro exI conjI) auto
  next
    case False
    let ?f = "DataFrame p"
    let ?s = "s\<lparr>rs_send_buf := sb_push (rs_send_buf s) (frame_bytes ?f), rs_send_state := RsSendingBody\<rparr>"
    let ?c = "c\<lparr>rs_first_frame_processed := True, rs_recv_body := rs_recv_body c @ p\<rparr>"
    have wf: "wf_frame ?f" "Frame.sendable ?f" using request_frame_wf(2) [of p] assms(2) by simp_all
    have i: "sb_inv (sb_push (rs_send_buf s) (frame_bytes ?f))" using assms(1) sbq.push_inv by (simp add: in_step_def)
    have "send_body s p fin = Some (rs_finish_sending ?s fin, Inr ())"
      using True False by (auto simp: send_body_def rs_push_frame_sends [OF wf])
    moreover have "op_effect interim s c (rs_finish_sending ?s fin) ?c [RawData p]"
      by (rule push_effect [where f = ?f and ?c1.0 = ?c and st = RsSendingBody and p = p])
        (use assms wf i True in \<open>auto simp: in_step_def rs_open_def notify_if_def sat_add_def Let_def\<close>)
    ultimately show ?thesis using False by (intro exI conjI) auto
  qed
qed

lemma op_body_bound: "length (body_of (op_events st x)) \<le> ops_body [x]"
  by (cases x) simp_all

lemma ops_body_Cons: "ops_body (x # xs) = ops_body [x] + ops_body xs"
  by (cases x) simp_all

lemma op_effect_apply:
  assumes "in_step s c" "op_ok interim x" "length (rs_recv_body c) + ops_body [x] \<le> rs_max_received_body_size c"
    "length (rs_recv_body c) + ops_body [x] < 2 ^ 64"
  shows "\<exists>s' res c'. apply_op s x = Some (s', res) \<and>
    op_effect interim s c s' c' (case res of Inl _ \<Rightarrow> [] | Inr _ \<Rightarrow> op_events (rs_send_state s) x)"
proof (cases x)
  case (SendHeaders p fin i)
  show ?thesis
    using headers_effect [OF assms(1) assms(2) [unfolded SendHeaders]] unfolding SendHeaders by simp
next
  case (SendBody p fin)
  have "length p < 2 ^ 62" "length (rs_recv_body c) + length p \<le> rs_max_received_body_size c"
    "length (rs_recv_body c) + length p < 2 ^ 64" using assms(2-4) SendBody by simp_all
  from body_effect [OF assms(1) this, of fin interim] show ?thesis unfolding SendBody by simp
qed

lemma run_ops_effect:
  assumes "in_step s c" "\<forall>x \<in> set ops. op_ok interim x"
    "length (rs_recv_body c) + ops_body ops \<le> rs_max_received_body_size c"
    "length (rs_recv_body c) + ops_body ops < 2 ^ 64"
  shows "\<exists>s' evs c'. run_ops s ops = Some (s', evs) \<and> op_effect interim s c s' c' evs"
  using assms
proof (induction ops arbitrary: s c)
  case Nil
  then show ?case using op_effect_none by auto
next
  case (Cons x xs)
  note c = ops_body_Cons [of x xs]
  obtain s1 res c1 where x: "apply_op s x = Some (s1, res)"
    and e: "op_effect interim s c s1 c1 (case res of Inl _ \<Rightarrow> [] | Inr _ \<Rightarrow> op_events (rs_send_state s) x)"
      (is "op_effect _ _ _ _ _ ?evs")
    using op_effect_apply [OF Cons.prems(1), of interim x] Cons.prems(2,3,4) c by auto
  have "length (body_of ?evs) \<le> ops_body [x]" using op_body_bound by (cases res) auto
  with e Cons.prems(3,4) c
  have b: "length (rs_recv_body c1) + ops_body xs \<le> rs_max_received_body_size c1"
    "length (rs_recv_body c1) + ops_body xs < 2 ^ 64" by (simp_all add: op_effect_def)
  have "in_step s1 c1" using e by (simp add: op_effect_def)
  from Cons.IH [OF this _ b] Cons.prems(2) obtain s2 evs2 c2 where
    "run_ops s1 xs = Some (s2, evs2)" "op_effect interim s1 c1 s2 c2 evs2" by auto
  with x e op_effect_trans [OF e _ Cons.prems(1) body_of_append] show ?case by auto
qed

section \<open>Properties of the request stream\<close>

text \<open>A fresh stream; plain CONNECT streams refuse trailers on both sides.\<close>

definition fresh :: "u64 \<Rightarrow> role \<Rightarrow> bool \<Rightarrow> request_stream" where
  "fresh i a connect = (if connect then rs_set_connect (rs_new i a) else rs_new i a)"

lemma fresh_facts [simp]:
  "rs_inv (fresh i a k)" "rs_pending (fresh i a k) = []" "rs_open (strip (fresh i a k))"
  "rs_recv_state (fresh i a k) = RrWaitingHeaders" "rs_recv_body (fresh i a k) = []"
  "rs_send_state (fresh i a k) = RsInitial" "rs_is_connect (fresh i a k) = k"
  "\<not> rs_is_wt_connect (fresh i a k)" "sb_inv (rs_send_buf (fresh i a k))"
  "sb_peek (rs_send_buf (fresh i a k)) = []" "\<not> sb_fin (rs_send_buf (fresh i a k))"
  "rs_max_received_body_size (fresh i a k) = DEFAULT_MAX_RECEIVED_BODY_SIZE"
  by (simp_all add: fresh_def rs_set_connect_def rs_new_def rs_inv_def rs_pending_def rs_open_def strip_def)

lemma strip_fields [simp]:
  "rs_recv_body (strip r) = rs_recv_body r" "rs_is_connect (strip r) = rs_is_connect r"
  "rs_is_wt_connect (strip r) = rs_is_wt_connect r"
  "rs_max_received_body_size (strip r) = rs_max_received_body_size r"
  by (simp_all add: strip_def)

lemma fresh_run:
  assumes "\<forall>x \<in> set ops. op_ok interim x" "ops_body ops \<le> DEFAULT_MAX_RECEIVED_BODY_SIZE"
  obtains s evs c where "run_ops (fresh i a k) ops = Some (s, evs)"
    "rm.drain interim (strip (fresh j b k)) (fst (get_send_data s)) = (evs, c, [], None)"
    "in_step s c" "rs_recv_body c = body_of evs" "rs_open c"
proof -
  have "in_step (fresh i a k) (strip (fresh j b k))" by (simp add: in_step_def)
  from run_ops_effect [OF this assms(1)] assms(2) obtain s evs c where
    "run_ops (fresh i a k) ops = Some (s, evs)"
    "op_effect interim (fresh i a k) (strip (fresh j b k)) s c evs"
    by (auto simp: DEFAULT_MAX_RECEIVED_BODY_SIZE_def)
  with that show ?thesis by (auto simp: op_effect_def get_send_data_def in_step_def)
qed

text \<open>
  C7: The two ends of a request stream agree.  Whatever calls the application makes, in whatever
  order and with whatever of them refused, sending does not panic, and a peer that gets the bytes in
  any pieces, agrees on which header blocks are interim, and accepts bodies of the size sent (16 MiB),
  sees exactly the header blocks, bodies and trailers of the accepted calls in order and no error; with FIN it sees the end of the stream, and the body it keeps is the concatenation.
\<close>

theorem request_stream_end_to_end:
  assumes "\<forall>x \<in> set ops. op_ok interim x" "ops_body ops \<le> DEFAULT_MAX_RECEIVED_BODY_SIZE"
  shows "\<exists>s evs. run_ops (fresh i a k) ops = Some (s, evs) \<and>
    (\<forall>ds. ds \<noteq> [] \<longrightarrow> concat ds = fst (get_send_data s) \<longrightarrow>
      (\<exists>r. rr.deliver interim (fresh j b k) ds = (evs, r, None))) \<and>
    (sb_fin (rs_send_buf s) \<longrightarrow> (\<forall>ds d. concat ds @ d = fst (get_send_data s) \<longrightarrow>
      (\<exists>r. rq.receive_all interim (fresh j b k) ds d = (evs @ [RawStreamEnd], r, None) \<and>
        rs_recv_body r = body_of evs \<and> rs_recv_state r = RrComplete)))"
proof -
  obtain s evs c where r: "run_ops (fresh i a k) ops = Some (s, evs)"
    and d: "rm.drain interim (strip (fresh j b k)) (fst (get_send_data s)) = (evs, c, [], None)"
    and c: "in_step s c" "rs_recv_body c = body_of evs" "rs_open c"
    using fresh_run [OF assms] by blast
  have "\<exists>r. rr.deliver interim (fresh j b k) ds = (evs, r, None)"
    if "ds \<noteq> []" "concat ds = fst (get_send_data s)" for ds
    using rr.deliver_drain [of "fresh j b k" ds interim evs c "[]" None] d that by auto
  moreover have "\<exists>r. rq.receive_all interim (fresh j b k) ds e = (evs @ [RawStreamEnd], r, None) \<and>
      rs_recv_body r = body_of evs \<and> rs_recv_state r = RrComplete"
    if fin: "sb_fin (rs_send_buf s)" and bytes: "concat ds @ e = fst (get_send_data s)" for ds e
  proof -
    have "rs_recv_state c = RrReceivingBody \<or> rs_recv_state c = RrTrailersReceived"
      using c(1) fin by (auto simp: in_step_def)
    then have e: "rq.ending interim c [] = ([RawStreamEnd],
        (with_fin c)\<lparr>rs_state := close_remote (rs_state c), rs_recv_state := RrComplete\<rparr>, [], None)"
      using request_ending [OF d] by auto
    obtain r where "rq.receive_all interim (fresh j b k) ds e = (evs @ [RawStreamEnd], r, None)"
      "strip r = (with_fin c)\<lparr>rs_state := close_remote (rs_state c), rs_recv_state := RrComplete\<rparr>"
      using rq.receive_all_drain [of "fresh j b k" interim ds e evs c "[]" None] d bytes e by auto
    moreover from this(2) have "rs_recv_body r = rs_recv_body c" "rs_recv_state r = RrComplete"
      using strip_fields(1) [of r] strip_simps(4) [of r] by (simp_all add: with_fin_def)
    ultimately show ?thesis using c(2) by auto
  qed
  ultimately show ?thesis using r by blast
qed

lemma example_run:
  "\<exists>s. run_ops (fresh 0 Client False)
      [SendHeaders [1] False False, SendBody [5, 6] False, SendHeaders [2] True False, SendBody [7] False] =
    Some (s, [RawHeaders [1], RawData [5, 6], RawTrailers [2]]) \<and> sb_fin (rs_send_buf s)"
  by (simp add: fresh_def rs_new_def send_encoded_headers_def send_body_def headers_check_def can_send_def
      rs_push_frame_sends request_frame_wf headers_sent_state_def rs_finish_sending_def sb_set_fin_def)

theorem request_stream_end_to_end_witness:
  "\<exists>s. run_ops (fresh 0 Client False)
      [SendHeaders [1] False False, SendBody [5, 6] False, SendHeaders [2] True False, SendBody [7] False] =
      Some (s, [RawHeaders [1], RawData [5, 6], RawTrailers [2]]) \<and>
    (\<exists>r. rq.receive_all (\<lambda>_. False) (fresh 0 Server False) [] (fst (get_send_data s)) =
        ([RawHeaders [1], RawData [5, 6], RawTrailers [2], RawStreamEnd], r, None))"
proof -
  define ops where "ops =
    [SendHeaders [1] False False, SendBody [5, 6] False, SendHeaders [2] True False, SendBody [7] False]"
  have "\<forall>x \<in> set ops. op_ok (\<lambda>_. False) x" "ops_body ops \<le> DEFAULT_MAX_RECEIVED_BODY_SIZE"
    by (simp_all add: ops_def DEFAULT_MAX_RECEIVED_BODY_SIZE_def)
  from request_stream_end_to_end [OF this, of 0 Client False 0 Server] obtain s evs where
    r: "run_ops (fresh 0 Client False) ops = Some (s, evs)" and
    f: "sb_fin (rs_send_buf s) \<longrightarrow> (\<forall>ds d. concat ds @ d = fst (get_send_data s) \<longrightarrow>
      (\<exists>r. rq.receive_all (\<lambda>_. False) (fresh 0 Server False) ds d = (evs @ [RawStreamEnd], r, None) \<and>
        rs_recv_body r = body_of evs \<and> rs_recv_state r = RrComplete))"
    by (elim exE conjE) (rule that)
  from r example_run [folded ops_def] have e: "evs = [RawHeaders [1], RawData [5, 6], RawTrailers [2]]"
    "sb_fin (rs_send_buf s)" by auto
  with r f [rule_format, of "[]" "fst (get_send_data s)"] show ?thesis
    unfolding ops_def [symmetric] by auto
qed

text \<open>
  The transport takes what is offered in chunks of its own choice, and marks the FIN when it has
  taken it.
\<close>

fun pump :: "nat \<Rightarrow> (bytes \<Rightarrow> nat) \<Rightarrow> request_stream \<Rightarrow> ((bytes \<times> bool) list \<times> request_stream) option" where
  "pump 0 chunk s = Some ([], s)"
| "pump (Suc n) chunk s =
    (case get_send_data s of (data, fin) \<Rightarrow>
       if data \<noteq> [] then do {
         let len = max 1 (min (chunk data) (length data));
         s' \<leftarrow> consume_send_data s len;
         (outs, s'') \<leftarrow> pump n chunk s';
         Some ((take len data, fin) # outs, s'')
       }
       else if fin then do {
         (outs, s'') \<leftarrow> pump n chunk (mark_fin_sent s);
         Some (([], True) # outs, s'')
       }
       else Some ([], s))"

lemma get_send_data_view:
  "get_send_data s = (sb_peek (rs_send_buf s),
    sb_fin (rs_send_buf s) \<and> sb_peek (rs_send_buf s) = [] \<and> \<not> sb_fin_sent (rs_send_buf s))"
  by (auto simp: get_send_data_def has_fin_pending_def buffer_tests)

text \<open>
  C26: Everything that was sent gets out, and FIN exactly once.  However the transport cuts the data
  into chunks, it gets all bytes in order, then - if the stream was finished - one empty FIN, which
  is not offered before the data is taken and not offered again; then nothing is left to send.
\<close>

theorem send_side_drains:
  assumes "sb_inv (rs_send_buf s)" "length (fst (get_send_data s)) + 1 < n"
  shows "\<exists>outs s'. pump n chunk s = Some (outs @ (if sb_fin (rs_send_buf s) \<and> \<not> sb_fin_sent (rs_send_buf s)
        then [([], True)] else []), s') \<and>
    concat (map fst outs) = fst (get_send_data s) \<and> (\<forall>x \<in> set outs. fst x \<noteq> [] \<and> \<not> snd x) \<and>
    is_send_complete s' \<and> \<not> has_pending_send s' \<and> get_send_data s' = ([], False)"
  using assms
proof (induction n arbitrary: s)
  case (Suc n)
  let ?d = "sb_peek (rs_send_buf s)"
  show ?case
  proof (cases "?d = []")
    case True
    show ?thesis
    proof (cases "sb_fin (rs_send_buf s) \<and> \<not> sb_fin_sent (rs_send_buf s)")
      case False
      with True show ?thesis
        by (auto simp: get_send_data_view is_send_complete_def has_pending_send_def buffer_tests)
    next
      case fin: True
      let ?s = "mark_fin_sent s"
      obtain m where m: "n = Suc m" using Suc.prems(2) by (cases n) auto
      have "sb_peek (rs_send_buf ?s) = []" "sb_fin (rs_send_buf ?s)" "sb_fin_sent (rs_send_buf ?s)"
        using True fin by (simp_all add: mark_fin_sent_def sb_mark_fin_sent_def sb_peek_def)
      then show ?thesis using True fin m
        by (auto simp: get_send_data_view is_send_complete_def has_pending_send_def buffer_tests)
    qed
  next
    case False
    define len where "len = max 1 (min (chunk ?d) (length ?d))"
    have le: "len \<le> length ?d" and pos: "0 < len" using False by (cases ?d; auto simp: len_def)+
    let ?b = "the (sb_consume (rs_send_buf s) len)"
    let ?s = "s\<lparr>rs_send_buf := ?b\<rparr>"
    note b = sbq.consume_the [OF Suc.prems(1) le]
    note fin = consume_fin(2) [OF b(1)]
    have c: "consume_send_data s len = Some ?s" by (subst consume_send_data_def, subst b(1)) simp
    have "length (fst (get_send_data ?s)) + 1 < n"
      using Suc.prems(2) b(3) le pos by (simp add: get_send_data_view)
    from Suc.IH [of ?s, OF _ this] b(2) obtain outs s' where
      p: "pump n chunk ?s = Some (outs @ (if sb_fin (rs_send_buf ?s) \<and> \<not> sb_fin_sent (rs_send_buf ?s)
        then [([], True)] else []), s')" "concat (map fst outs) = fst (get_send_data ?s)"
      "\<forall>x \<in> set outs. fst x \<noteq> [] \<and> \<not> snd x" "is_send_complete s'" "\<not> has_pending_send s'"
      "get_send_data s' = ([], False)" by auto
    have u: "pump (Suc n) chunk s =
      (case pump n chunk ?s of None \<Rightarrow> None | Some (outs, s') \<Rightarrow> Some ((take len ?d, False) # outs, s'))"
      unfolding pump.simps get_send_data_view Let_def prod.case len_def [symmetric]
      using c False by (simp split: option.splits)
    have "pump (Suc n) chunk s = Some (((take len ?d, False) # outs) @
        (if sb_fin (rs_send_buf s) \<and> \<not> sb_fin_sent (rs_send_buf s) then [([], True)] else []), s')"
      unfolding u using p(1) fin by simp
    moreover have "concat (map fst ((take len ?d, False) # outs)) = fst (get_send_data s)"
      using p(2) b(3) by (simp add: get_send_data_view)
    moreover have "\<forall>x \<in> set ((take len ?d, False) # outs). fst x \<noteq> [] \<and> \<not> snd x"
      using p(3) False pos by simp
    ultimately show ?thesis using p(4-6) by blast
  qed
qed simp

theorem send_side_drains_witness:
  "\<exists>outs s'. pump 10 (\<lambda>_. 2) ((rs_new 0 Client)\<lparr>rs_send_buf := sb_set_fin (sb_push sb_new [1, 2, 3])\<rparr>) =
      Some (outs @ [([], True)], s') \<and> concat (map fst outs) = [1, 2, 3] \<and> is_send_complete s'"
proof -
  let ?s = "(rs_new 0 Client)\<lparr>rs_send_buf := sb_set_fin (sb_push sb_new [1, 2, 3])\<rparr>"
  have "sb_inv (rs_send_buf ?s)" "fst (get_send_data ?s) = [1, 2, 3]"
    "sb_fin (rs_send_buf ?s)" "\<not> sb_fin_sent (rs_send_buf ?s)"
    using sbq.push_inv [of sb_new] sbq.push_view [of sb_new]
    by (simp_all add: get_send_data_view) (simp add: sb_new_def)
  with send_side_drains [of ?s 10 "\<lambda>_. 2"] show ?thesis by auto
qed

text \<open>The order of events on a request stream (RFC 9114, Section 4.1), as an automaton.\<close>

fun message_grammar ::
    "(bytes \<Rightarrow> bool) \<Rightarrow> bool \<Rightarrow> request_recv_state \<Rightarrow> raw_received_data list \<Rightarrow> request_recv_state option" where
  "message_grammar interim connect st [] = Some st"
| "message_grammar interim connect RrWaitingHeaders (RawHeaders p # evs) =
    message_grammar interim connect (if interim p then RrWaitingHeaders else RrReceivingBody) evs"
| "message_grammar interim connect RrReceivingBody (RawData d # evs) =
    message_grammar interim connect RrReceivingBody evs"
| "message_grammar interim connect RrReceivingBody (RawTrailers p # evs) =
    (if connect then None else message_grammar interim connect RrTrailersReceived evs)"
| "message_grammar interim connect RrReceivingBody (RawStreamEnd # evs) =
    message_grammar interim connect RrComplete evs"
| "message_grammar interim connect RrTrailersReceived (RawStreamEnd # evs) =
    message_grammar interim connect RrComplete evs"
| "message_grammar interim connect _ _ = None"

text \<open>One event follows the grammar, keeps the body below its limit and the flags as they are.\<close>

definition event_ok :: "(bytes \<Rightarrow> bool) \<Rightarrow> request_stream \<Rightarrow> request_stream \<Rightarrow> raw_received_data list \<Rightarrow> bool" where
  "event_ok interim c c' evs \<longleftrightarrow>
    message_grammar interim (rs_is_connect c) (rs_recv_state c) evs = Some (rs_recv_state c') \<and>
    rs_recv_body c' = rs_recv_body c @ (if rs_is_wt_connect c then [] else body_of evs) \<and>
    rs_is_connect c' = rs_is_connect c \<and> rs_is_wt_connect c' = rs_is_wt_connect c \<and>
    rs_max_received_body_size c' = rs_max_received_body_size c \<and>
    (length (rs_recv_body c) \<le> rs_max_received_body_size c \<longrightarrow> rs_max_received_body_size c < u64_max \<longrightarrow>
      length (rs_recv_body c') \<le> rs_max_received_body_size c)"

lemma event_ok_refl: "event_ok interim c c []"
  by (simp add: event_ok_def)

lemma message_grammar_append:
  "message_grammar interim k st (xs @ ys) =
    (case message_grammar interim k st xs of None \<Rightarrow> None | Some st' \<Rightarrow> message_grammar interim k st' ys)"
  by (induction interim k st xs rule: message_grammar.induct) simp_all

lemma event_ok_trans:
  "event_ok interim c c1 xs \<Longrightarrow> event_ok interim c1 c2 ys \<Longrightarrow> event_ok interim c c2 (xs @ ys)"
  by (auto simp: event_ok_def message_grammar_append body_of_append split: if_splits)

fun res_events :: "'e + 'x option \<Rightarrow> 'x list" where
  "res_events (Inr (Some ev)) = [ev]"
| "res_events _ = []"

lemma process_frame_event_ok:
  assumes "process_frame c f = (c', x)" "rs_recv_state c \<noteq> RrComplete"
  shows "case x of
      None \<Rightarrow> event_ok interim c c' []
    | Some (Inl e) \<Rightarrow> event_ok interim c c' []
    | Some (Inr ev) \<Rightarrow> event_ok interim c (notify_if interim c' (Inr ev)) (res_events (Inr ev :: h3_error + _))"
  using assms
  by (cases "rs_recv_state c"; cases f)
    (auto simp: event_ok_def Let_def notify_if_def notify_informational_def sat_add_def split: if_splits)

text \<open>The receiver is complete only after FIN and with nothing pending.\<close>

definition complete_ok :: "request_stream \<Rightarrow> bytes \<Rightarrow> bool" where
  "complete_ok c b \<longleftrightarrow> (rs_recv_state c = RrComplete \<longrightarrow> rb_fin (rs_recv_buf c) \<and> b = [])"

lemma event_ok_first [simp]: "event_ok interim (c\<lparr>rs_first_frame_processed := x\<rparr>) c' evs = event_ok interim c c' evs"
  by (simp add: event_ok_def)

lemma process_frame_not_complete:
  "process_frame c f = (c', x) \<Longrightarrow> rs_recv_state c \<noteq> RrComplete \<Longrightarrow> rs_recv_state c' \<noteq> RrComplete"
  by (cases f) (auto simp: Let_def split: if_splits)

lemma notify_not_complete [simp]:
  "rs_recv_state (notify_if interim c res) = RrComplete \<longleftrightarrow> rs_recv_state c = RrComplete"
  by (auto simp: notify_if_def notify_informational_def split: sum.split option.split raw_received_data.split)

lemma request_view_event:
  assumes "request_view c b = (c', b', x)" "complete_ok c b"
  shows "case x of
      None \<Rightarrow> event_ok interim c c' [] \<and> complete_ok c' b'
    | Some res \<Rightarrow> event_ok interim c (notify_if interim c' res) (res_events res) \<and>
        complete_ok (notify_if interim c' res) b'"
proof (cases "b = []")
  case True
  with assms show ?thesis
    by (auto simp: request_view_def complete_ok_def event_ok_refl split: if_splits)
      (cases "rs_recv_state c"; auto simp: event_ok_def notify_if_def)+
next
  case ne: False
  then have nc: "rs_recv_state c \<noteq> RrComplete" using assms(2) by (simp add: complete_ok_def)
  show ?thesis
  proof (cases "\<exists>e. x = Some (Inl e) \<and> c' = c \<or> x = Some (Inr None) \<and> c' = c")
    case True
    with nc show ?thesis by (auto simp: event_ok_refl complete_ok_def)
  next
    case False
    with assms(1) ne obtain f n where
      "process_frame (c\<lparr>rs_first_frame_processed := True\<rparr>) f = (c', x)"
      by (auto simp: request_view_def split: if_splits sum.splits frame_decode_error.splits prod.splits)
    with process_frame_event_ok [OF this, of interim] process_frame_not_complete [OF this] nc show ?thesis
      by (auto simp: complete_ok_def split: option.splits sum.splits)
  qed
qed

lemma request_run_event:
  assumes "request_run c b = (c', b', res)" "complete_ok c b"
  shows "event_ok interim c (notify_if interim c' res) (res_events res) \<and>
    complete_ok (notify_if interim c' res) b'"
  using assms
proof (induction c b rule: request_run.induct)
  case (1 c b)
  obtain c1 b1 x where v: "request_view c b = (c1, b1, x)" by (cases "request_view c b") auto
  note e = request_view_event [OF v 1(3), of interim]
  show ?case
  proof (cases x)
    case None
    with v 1(2) have "request_run c1 b1 = (c', b', res)" by (simp add: request_run.simps [of c b])
    with 1(1) [OF v [symmetric] refl None] e None event_ok_trans [of interim c c1 "[]"] show ?thesis by auto
  next
    case (Some y)
    with v 1(2) e show ?thesis by (simp add: request_run.simps [of c b])
  qed
qed

lemma request_drain_event:
  assumes "rm.drain interim c b = (evs, c', b', err)" "rs_open c" "complete_ok c b"
  shows "event_ok interim c c' evs \<and> complete_ok c' b'"
  using assms
proof (induction "length b" arbitrary: c b evs rule: less_induct)
  case less
  obtain c1 b1 r where s: "request_step interim c b = (c1, b1, r)" by (cases "request_step interim c b") auto
  then have e: "event_ok interim c c1 (res_events r)" "complete_ok c1 b1"
    using request_run_event [OF _ less.prems(3), of _ _ r interim]
    by (auto simp: request_step_def split: prod.splits)
  note d = rm.drain_step [OF less.prems(2), of interim b]
  show ?case
  proof (cases "\<exists>ev. r = Inr (Some ev)")
    case False
    with s d e less.prems(1) show ?thesis by (cases r) (auto split: option.splits)
  next
    case True
    then obtain ev where r: "r = Inr (Some ev)" by blast
    with s d less.prems(1) obtain evs1 where d1: "evs = ev # evs1" "rm.drain interim c1 b1 = (evs1, c', b', err)"
      by (auto split: prod.splits)
    from less.hyps [OF rm.step_progress [OF less.prems(2)] d1(2) rm.step_live [OF less.prems(2)] e(2)] s r
      event_ok_trans [OF e(1)] d1(1) show ?thesis by fastforce
  qed
qed

text \<open>What a whole stream makes of a receiver that has seen nothing yet.\<close>

lemma event_ok_with_fin:
  "event_ok interim c c' evs \<Longrightarrow> event_ok interim c (with_fin c') evs"
  "event_ok interim c (strip r) evs = event_ok interim c r evs"
  by (auto simp: event_ok_def with_fin_def strip_def)

lemma receive_all_event:
  assumes "rs_inv r0" "rs_open (strip r0)" "rs_pending r0 = []" "rs_recv_state r0 \<noteq> RrComplete"
    "rq.receive_all interim r0 ds d = (evs, r, err)"
  shows "event_ok interim (strip r0) r evs \<and>
    (err = None \<longrightarrow> rs_recv_state r = RrComplete \<and> (\<exists>evs'. evs = evs' @ [RawStreamEnd]))"
proof -
  obtain evs0 c b err0 where dr: "rm.drain interim (strip r0) (concat ds @ d) = (evs0, c, b, err0)"
    by (cases "rm.drain interim (strip r0) (concat ds @ d)") auto
  have "complete_ok (strip r0) (concat ds @ d)" using assms(4) by (simp add: complete_ok_def)
  note e = request_drain_event [OF dr assms(2) this]
  from rq.receive_all_drain [OF assms(1-3) dr] assms(5) have ra:
    "(evs, err) = (case err0 of Some e \<Rightarrow> (evs0, Some e)
      | None \<Rightarrow> (evs0 @ fst (rq.ending interim c b), snd (snd (snd (rq.ending interim c b)))))"
    "err0 = None \<Longrightarrow> strip r = fst (snd (rq.ending interim c b))"
    "err0 \<noteq> None \<Longrightarrow> strip r = c \<or> strip r = with_fin c"
    by (auto split: option.splits)
  show ?thesis
  proof (cases err0)
    case (Some x)
    with ra e event_ok_with_fin(2) [of interim "strip r0" r evs] event_ok_with_fin(1) show ?thesis by auto
  next
    case None
    have o: "rs_open c" using rm.drain_live [OF assms(2)] dr None by blast
    with e have nc: "rs_recv_state c \<noteq> RrComplete" by (simp add: complete_ok_def rs_open_def)
    note en = request_ending [OF dr [unfolded None] assms(2)]
    show ?thesis
    proof (cases "b \<noteq> [] \<or> rs_recv_state c = RrWaitingHeaders")
      case True
      with en nc ra None have "evs = evs0" "err \<noteq> None" "strip r = with_fin c" by (auto split: if_splits)
      with e event_ok_with_fin(2) [of interim "strip r0" r evs] event_ok_with_fin(1) show ?thesis by auto
    next
      case False
      let ?c = "(with_fin c)\<lparr>rs_state := close_remote (rs_state c), rs_recv_state := RrComplete\<rparr>"
      from False en nc ra None have r: "evs = evs0 @ [RawStreamEnd]" "err = None" "strip r = ?c" by auto
      have "event_ok interim c ?c [RawStreamEnd]"
        using False nc by (cases "rs_recv_state c") (auto simp: event_ok_def with_fin_def)
      with event_ok_trans [of interim "strip r0" c evs0] e r event_ok_with_fin(2) [of interim "strip r0" r evs]
        strip_simps(4) [of r] show ?thesis by auto
    qed
  qed
qed

text \<open>
  C12: Whatever bytes the peer sends and however they are cut, what the application is told follows
  the message grammar - interim headers, headers, body, at most one trailer section (none on a
  CONNECT stream), the end - and once FIN has arrived the stream is decided: it ends with
  \<open>RawStreamEnd\<close> or with an error.
\<close>

theorem received_events_grammatical:
  assumes "rq.receive_all interim (fresh j b k) ds d = (evs, r, err)"
  shows "message_grammar interim k RrWaitingHeaders evs = Some (rs_recv_state r) \<and>
    (err = None \<longrightarrow> rs_recv_state r = RrComplete \<and> (\<exists>evs'. evs = evs' @ [RawStreamEnd]))"
  using receive_all_event [OF _ _ _ _ assms] by (simp add: event_ok_def)

lemma triple_eta: "x = (fst x, fst (snd x), snd (snd x))"
  by simp

theorem received_events_grammatical_witness:
  "let res = rq.receive_all (\<lambda>_. False) (fresh 0 Server False) [[0x01]] [0x01, 0x05] in
    message_grammar (\<lambda>_. False) False RrWaitingHeaders (fst res) = Some (rs_recv_state (fst (snd res)))"
  unfolding Let_def
  by (rule received_events_grammatical [OF triple_eta, THEN conjunct1])

text \<open>
  The body kept for the application is the concatenation of the DATA payloads returned and never
  exceeds the configured limit, whatever the peer sends; on a WebTransport CONNECT stream nothing is kept.
\<close>

theorem received_body_bounded:
  assumes "m < u64_max"
    "rq.receive_all interim (rs_set_max_received_body_size (fresh j b k) m) ds d = (evs, r, err)"
    "rq.receive_all interim (rs_set_wt_connect (fresh j b k)) ds d = (evs', r', err')"
  shows "rs_recv_body r = body_of evs \<and> length (rs_recv_body r) \<le> m \<and> rs_recv_body r' = []"
proof -
  have "event_ok interim (strip (rs_set_max_received_body_size (fresh j b k) m)) r evs"
    by (rule receive_all_event [OF _ _ _ _ assms(2), THEN conjunct1])
      (simp_all add: rs_set_max_received_body_size_def fresh_def rs_set_connect_def rs_new_def rs_inv_def
        rs_pending_def rs_open_def strip_def)
  moreover have "event_ok interim (strip (rs_set_wt_connect (fresh j b k))) r' evs'"
    by (rule receive_all_event [OF _ _ _ _ assms(3), THEN conjunct1])
      (simp_all add: rs_set_wt_connect_def fresh_def rs_set_connect_def rs_new_def rs_inv_def
        rs_pending_def rs_open_def strip_def)
  moreover have "rs_recv_body (rs_set_max_received_body_size (fresh j b k) m) = []"
    "rs_max_received_body_size (rs_set_max_received_body_size (fresh j b k) m) = m"
    "\<not> rs_is_wt_connect (rs_set_max_received_body_size (fresh j b k) m)"
    "rs_is_wt_connect (rs_set_wt_connect (fresh j b k))" "rs_recv_body (rs_set_wt_connect (fresh j b k)) = []"
    by (simp_all add: rs_set_max_received_body_size_def rs_set_wt_connect_def fresh_def rs_set_connect_def rs_new_def)
  ultimately show ?thesis using assms(1) by (auto simp: event_ok_def)
qed

theorem received_body_bounded_witness:
  "let res = rq.receive_all (\<lambda>_. False) (rs_set_max_received_body_size (fresh 0 Server False) 3) []
      [0x01, 0x01, 0x05, 0x00, 0x02, 0x07, 0x08] in
    length (rs_recv_body (fst (snd res))) \<le> 3"
  unfolding Let_def
  by (rule received_body_bounded [OF _ triple_eta triple_eta, THEN conjunct2, THEN conjunct1]) simp

lemma partial_frame_waits:
  assumes "wf_frame f" "Frame.sendable f" "0 < n" "n < length (frame_bytes f)" "rs_open c"
  shows "rm.drain interim c (take n (frame_bytes f)) = ([], c, take n (frame_bytes f), None)"
proof -
  let ?b = "take n (frame_bytes f)"
  have short: "decode_frame ?b = Inl BufferTooShort" by (rule fr.partial_short [OF assms(1,4)])
  have "\<not> is_wt_stream_frame_type ?b"
  proof
    assume wt: "is_wt_stream_frame_type ?b"
    have "is_wt_stream_frame_type (frame_bytes f)"
      using wt_type_stable(1) [OF wt, of "drop n (frame_bytes f)"] by simp
    moreover have "varint_ok (frame_type_of f)" using assms(1) wf_frame_type_ok by (auto simp: wf_frame_def)
    then have "decode_frame_type (frame_bytes f) = Some (frame_type_of f)"
      using vi.dec_enc [of "frame_type_of f"]
      by (simp add: decode_frame_type_def frame_bytes_def header_bytes_def)
    ultimately show False
      using assms(2) by (simp add: is_wt_stream_frame_type_def Frame.sendable_def BIDIRECTIONAL_SIGNAL_VALUE_def)
  qed
  moreover have "?b \<noteq> []" using assms(3,4) by auto
  ultimately have "request_view c ?b = (c, ?b, Some (Inr None))"
    using short assms(5) by (simp add: request_view_def rs_open_def)
  from request_run_done [OF this] have "request_step interim c ?b = (c, ?b, Inr None)"
    by (simp add: request_step_def)
  then show ?thesis using rm.drain_step [OF assms(5), of interim ?b] by simp
qed

text \<open>
  A stream that ends inside a frame is an error.  If FIN comes when only a part of the next frame
  has arrived, the events of the complete frames are reported and then H3_FRAME_ERROR closes the
  connection; a truncated message is never taken for a complete one.
\<close>

theorem truncated_stream_refused:
  assumes "\<forall>x \<in> set ops. op_ok interim x" "ops_body ops \<le> DEFAULT_MAX_RECEIVED_BODY_SIZE"
    "run_ops (fresh i a k) ops = Some (s, evs)"
    "wf_frame f" "Frame.sendable f" "0 < n" "n < length (frame_bytes f)"
    "concat ds @ d = fst (get_send_data s) @ take n (frame_bytes f)"
  shows "\<exists>r. rq.receive_all interim (fresh j b k) ds d = (evs, r, Some (ConnectionError FrameError))"
proof -
  let ?t = "take n (frame_bytes f)"
  obtain c where dr: "rm.drain interim (strip (fresh j b k)) (fst (get_send_data s)) = (evs, c, [], None)"
    and o: "rs_open c"
    using fresh_run [OF assms(1,2), of i a k j b] assms(3) by auto
  have "rm.drain interim (strip (fresh j b k)) (concat ds @ d) = (evs, c, ?t, None)"
    using rm.drain_append [OF _ dr, of ?t] partial_frame_waits [OF assms(4-7) o, of interim] assms(8) by simp
  moreover from this have "rq.ending interim c ?t = ([], with_fin c, ?t, Some (ConnectionError FrameError))"
    using request_ending [of interim "strip (fresh j b k)" "concat ds @ d" evs c ?t] assms(6,7) by auto
  ultimately show ?thesis
    using rq.receive_all_drain [of "fresh j b k" interim ds d evs c ?t None] by auto
qed

theorem truncated_stream_refused_witness:
  "\<exists>s. run_ops (fresh 0 Client False)
      [SendHeaders [1] False False, SendBody [5, 6] False, SendHeaders [2] True False, SendBody [7] False] =
      Some (s, [RawHeaders [1], RawData [5, 6], RawTrailers [2]]) \<and>
    (\<exists>r. rq.receive_all (\<lambda>_. False) (fresh 0 Server False)
        [fst (get_send_data s)] (take 1 (frame_bytes (DataFrame [7]))) =
      ([RawHeaders [1], RawData [5, 6], RawTrailers [2]], r, Some (ConnectionError FrameError)))"
proof -
  define ops where "ops =
    [SendHeaders [1] False False, SendBody [5, 6] False, SendHeaders [2] True False, SendBody [7] False]"
  obtain s where s: "run_ops (fresh 0 Client False) ops = Some (s, [RawHeaders [1], RawData [5, 6], RawTrailers [2]])"
    using example_run [folded ops_def] by blast
  have "\<forall>x \<in> set ops. op_ok (\<lambda>_. False) x" "ops_body ops \<le> DEFAULT_MAX_RECEIVED_BODY_SIZE"
    by (simp_all add: ops_def DEFAULT_MAX_RECEIVED_BODY_SIZE_def)
  from truncated_stream_refused [OF this s, of "DataFrame [7]" 1] show ?thesis
    unfolding ops_def [symmetric] using s request_frame_wf(2) [of "[7]"]
    by (auto simp: frame_bytes_def header_bytes_def)
qed

text \<open>
  C24: The cut does not matter.  For any bytes at all, valid or not, two ways of cutting the stream
  give the application the same events and the same error or the same end.
\<close>

theorem request_pieces_irrelevant:
  assumes "concat ds @ d = concat es @ e"
    "rq.receive_all interim (fresh j b k) ds d = (evs, r, err)"
    "rq.receive_all interim (fresh j b k) es e = (evs', r', err')"
  shows "evs' = evs \<and> err' = err \<and> rs_recv_body r' = rs_recv_body r \<and> rs_recv_state r' = rs_recv_state r"
proof -
  have ra: "event_ok interim (strip (fresh j b k)) r evs" "event_ok interim (strip (fresh j b k)) r' evs'"
    using receive_all_event [OF _ _ _ _ assms(2)] receive_all_event [OF _ _ _ _ assms(3)] by simp_all
  obtain evs0 c q err0 where "rm.drain interim (strip (fresh j b k)) (concat ds @ d) = (evs0, c, q, err0)"
    by (cases "rm.drain interim (strip (fresh j b k)) (concat ds @ d)") auto
  with rq.receive_all_drain [of "fresh j b k" interim ds d evs0 c q err0]
    rq.receive_all_drain [of "fresh j b k" interim es e evs0 c q err0] assms
  have "evs' = evs \<and> err' = err" by (auto split: option.splits)
  with ra show ?thesis by (simp add: event_ok_def)
qed

theorem request_pieces_irrelevant_witness:
  "fst (rq.receive_all (\<lambda>_. False) (fresh 0 Server False) [[0x01], [0x01]] [0x05]) =
    fst (rq.receive_all (\<lambda>_. False) (fresh 0 Server False) [] [0x01, 0x01, 0x05])"
  by (rule request_pieces_irrelevant [OF _ triple_eta triple_eta, THEN conjunct1]) simp

end
