(* ===== verification/Datagram.thy ===== *)
theory Datagram
  imports Streams
begin

text \<open>
  WebTransport datagrams (\<^verbatim>\<open>src/webtransport/datagram.rs\<close>): a session identifier, carried as the
  quarter stream identifier, and a payload that extends to the end of the QUIC datagram.
\<close>

datatype datagram_error = DgInvalidSessionId | DgSessionIdOutOfRange

record datagram =
  dg_session_id :: u64
  dg_payload :: bytes

datatype datagram_decode_error = DgBufferTooShort | DgInvalidQuarterStreamId

definition datagram_new :: "u64 \<Rightarrow> bytes \<Rightarrow> datagram_error + datagram" where
  "datagram_new session_id payload =
    (if result_ok (varint_new session_id) = None then Inl DgSessionIdOutOfRange
     else if session_id mod 4 \<noteq> 0 then Inl DgInvalidSessionId
     else Inr \<lparr>dg_session_id = session_id, dg_payload = payload\<rparr>)"

definition quarter_stream_id :: "datagram \<Rightarrow> u64" where
  "quarter_stream_id d = dg_session_id d div 4"

text \<open>\<open>None\<close> is the panic of \<^verbatim>\<open>expect\<close>.\<close>

definition datagram_encode :: "datagram \<Rightarrow> bytes \<Rightarrow> bytes option" where
  "datagram_encode d buf = do {
     qsi \<leftarrow> result_ok (varint_new (quarter_stream_id d));
     let buf = encode_into_vec buf qsi;
     Some (buf @ dg_payload d)
   }"

definition datagram_decode :: "bytes \<Rightarrow> datagram_decode_error + datagram \<times> usize" where
  "datagram_decode buf =
    bindR (map_err (\<lambda>_. DgBufferTooShort) (varint_decode buf)) (\<lambda>(qsi, varint_len).
      let qsi = vget qsi in
      if qsi > 2 ^ 60 - 1 then Inl DgInvalidQuarterStreamId
      else bindR (ok_or (checked_mul qsi 4) DgInvalidQuarterStreamId) (\<lambda>session_id.
        let payload = drop varint_len buf; consumed = length buf in
        Inr (\<lparr>dg_session_id = session_id, dg_payload = payload\<rparr>, consumed)))"

section \<open>Properties of datagrams\<close>

lemma datagram_new_ok:
  "datagram_new i p = Inr d \<longleftrightarrow>
    i < 2 ^ 62 \<and> i mod 4 = 0 \<and> d = \<lparr>dg_session_id = i, dg_payload = p\<rparr>"
  by (auto simp: datagram_new_def result_ok_def varint_new_def VARINT_MAX_def)

text \<open>
  Datagrams keep their session and payload, and only valid sessions are ever named.  A datagram
  that \<open>datagram_new\<close> accepts is encoded without a panic and decoded to itself by consuming
  everything; conversely whatever the peer sends, a decoded datagram is one that \<open>datagram_new\<close>
  accepts, and its quarter stream identifier was in the range of RFC 9297.
\<close>

theorem datagram_roundtrip:
  "(datagram_new i p = Inr d \<longrightarrow>
      (\<exists>w. datagram_encode d buf = Some (buf @ w) \<and> datagram_decode w = Inr (d, length w))) \<and>
    (datagram_decode b = Inr (e, n) \<longrightarrow>
      n = length b \<and> datagram_new (dg_session_id e) (dg_payload e) = Inr e)"
proof (intro conjI impI)
  assume "datagram_new i p = Inr d"
  then have d: "i < 2 ^ 62" "i mod 4 = 0" "d = \<lparr>dg_session_id = i, dg_payload = p\<rparr>"
    by (simp_all add: datagram_new_ok)
  have q: "i div 4 < 2 ^ 60" "i div 4 * 4 = i" using d by auto
  then have ok: "varint_ok (VarInt (i div 4))" by (simp add: varint_ok_iff)
  let ?w = "varint_bytes (VarInt (i div 4)) @ p"
  have "datagram_encode d buf = Some (buf @ ?w)"
    using d q encode_into_vec_append [OF ok]
    by (simp add: datagram_encode_def quarter_stream_id_def varint_new_def VARINT_MAX_def result_ok_def)
  moreover have "datagram_decode ?w = Inr (d, length ?w)"
    using d q vi.dec_enc [OF ok, of p]
    by (simp add: datagram_decode_def map_err_def checked_mul_def ok_or_def Let_def)
  ultimately show "\<exists>w. datagram_encode d buf = Some (buf @ w) \<and> datagram_decode w = Inr (d, length w)" by blast
next
  assume a: "datagram_decode b = Inr (e, n)"
  then show "n = length b"
    by (auto simp: datagram_decode_def bindR_Inr_iff Let_def split: if_splits)
  from a obtain q where "q \<le> 2 ^ 60 - 1" "dg_session_id e = q * 4"
    by (auto simp: datagram_decode_def bindR_Inr_iff checked_mul_def ok_or_def Let_def
        split: if_splits option.splits)
  then show "datagram_new (dg_session_id e) (dg_payload e) = Inr e"
    by (simp add: datagram_new_ok)
qed

theorem datagram_roundtrip_witness:
  "\<exists>w. datagram_encode \<lparr>dg_session_id = 4, dg_payload = [7, 8]\<rparr> [0] = Some (0 # w) \<and>
    datagram_decode w = Inr (\<lparr>dg_session_id = 4, dg_payload = [7, 8]\<rparr>, length w)"
  using datagram_roundtrip [of 4 "[7, 8]" "\<lparr>dg_session_id = 4, dg_payload = [7, 8]\<rparr>" "[0]"]
  by (auto simp: datagram_new_ok)

end
