(* ===== verification/Sf_Parser.thy ===== *)
theory Sf_Parser
  imports Utf8
begin

text \<open>
  Structured fields, as far as WebTransport needs them (\<^verbatim>\<open>src/webtransport/connect/sf_parser.rs\<close>): lists
  and items of quoted strings.  A \<^verbatim>\<open>str\<close> is its bytes; the string operations of the standard library that
  the parser uses (\<open>trim\<close>, \<open>split\<close>, \<open>replace\<close>) come first.  \<open>quoted\<close> is the form in which the requests
  and responses print a string, and \<open>parse_quoted\<close> and \<open>parse_list_quoted\<close> show that it is read back.
\<close>

section \<open>Strings of the standard library\<close>

text \<open>The characters with the Unicode property \<open>White_Space\<close>, by their UTF-8 encodings.\<close>

definition whitespace :: "bytes list" where
  "whitespace =
    [[0x09], [0x0a], [0x0b], [0x0c], [0x0d], [0x20], [0xc2, 0x85], [0xc2, 0xa0], [0xe1, 0x9a, 0x80],
     [0xe2, 0x80, 0x80], [0xe2, 0x80, 0x81], [0xe2, 0x80, 0x82], [0xe2, 0x80, 0x83], [0xe2, 0x80, 0x84],
     [0xe2, 0x80, 0x85], [0xe2, 0x80, 0x86], [0xe2, 0x80, 0x87], [0xe2, 0x80, 0x88], [0xe2, 0x80, 0x89],
     [0xe2, 0x80, 0x8a], [0xe2, 0x80, 0xa8], [0xe2, 0x80, 0xa9], [0xe2, 0x80, 0xaf], [0xe2, 0x81, 0x9f],
     [0xe3, 0x80, 0x80]]"

lemma whitespace_nonempty: "w \<in> set whitespace \<Longrightarrow> w \<noteq> []"
  by (auto simp: whitespace_def)

definition str_prefix :: "bytes \<Rightarrow> bytes \<Rightarrow> bool" where
  "str_prefix p v \<longleftrightarrow> take (length p) v = p"

definition str_suffix :: "bytes \<Rightarrow> bytes \<Rightarrow> bool" where
  "str_suffix p v \<longleftrightarrow> length p \<le> length v \<and> drop (length v - length p) v = p"

function trim_start :: "bytes \<Rightarrow> bytes" where
  "trim_start v =
    (case find (\<lambda>w. str_prefix w v) whitespace of
       None \<Rightarrow> v
     | Some w \<Rightarrow> trim_start (drop (length w) v))"
  by pat_completeness auto
termination
proof (relation "measure length", goal_cases)
  case (2 v w)
  then have "w \<in> set whitespace" "str_prefix w v" by (auto simp: find_Some_iff)
  then show ?case using whitespace_nonempty [of w] by (cases v) (auto simp: str_prefix_def)
qed simp

function trim_end :: "bytes \<Rightarrow> bytes" where
  "trim_end v =
    (case find (\<lambda>w. str_suffix w v) whitespace of
       None \<Rightarrow> v
     | Some w \<Rightarrow> trim_end (take (length v - length w) v))"
  by pat_completeness auto
termination
proof (relation "measure length", goal_cases)
  case (2 v w)
  then have "w \<in> set whitespace" "str_suffix w v" by (auto simp: find_Some_iff)
  then show ?case using whitespace_nonempty [of w] by (cases v) (auto simp: str_suffix_def)
qed simp

declare trim_start.simps [simp del] trim_end.simps [simp del]

definition trim :: "bytes \<Rightarrow> bytes" where
  "trim v = trim_end (trim_start v)"

fun split_on :: "u8 \<Rightarrow> bytes \<Rightarrow> bytes list" where
  "split_on d [] = [[]]"
| "split_on d (b # bs) =
    (if b = d then [] # split_on d bs
     else case split_on d bs of [] \<Rightarrow> [[b]] | x # xs \<Rightarrow> (b # x) # xs)"

text \<open>\<open>replace_all p r v\<close>: every match of the nonempty \<open>p\<close>, from the left and without overlaps.\<close>

function replace_all :: "bytes \<Rightarrow> bytes \<Rightarrow> bytes \<Rightarrow> bytes" where
  "replace_all p r v =
    (if v = [] then []
     else if p \<noteq> [] \<and> str_prefix p v then r @ replace_all p r (drop (length p) v)
     else hd v # replace_all p r (tl v))"
  by pat_completeness auto
termination
proof (relation "measure (\<lambda>(_, _, v). length v)", goal_cases)
  case (2 p r v)
  then show ?case by (cases p) auto
qed auto

declare replace_all.simps [simp del]

section \<open>The parser\<close>

fun strip_parameters_loop :: "bool \<Rightarrow> bool \<Rightarrow> bytes \<Rightarrow> bytes" where
  "strip_parameters_loop in_string escaped [] = []"
| "strip_parameters_loop in_string escaped (b # bs) =
    (if escaped then b # strip_parameters_loop in_string False bs
     else if b = 0x22 then b # strip_parameters_loop (\<not> in_string) escaped bs
     else if b = 0x5c \<and> in_string then b # strip_parameters_loop in_string True bs
     else if b = 0x3b \<and> \<not> in_string then []
     else b # strip_parameters_loop in_string escaped bs)"

definition strip_sf_parameters :: "bytes \<Rightarrow> bytes" where
  "strip_sf_parameters v = strip_parameters_loop False False v"

definition parse_sf_item_string :: "bytes \<Rightarrow> bytes option" where
  "parse_sf_item_string v =
    (let v = trim v; v = strip_sf_parameters v; v = trim v in
     if str_prefix [0x22] v \<and> str_suffix [0x22] v \<and> 2 \<le> length v then
       let inner = drop 1 (take (length v - 1) v) in
       Some (replace_all [0x00] [0x5c] (replace_all [0x5c, 0x22] [0x22] (replace_all [0x5c, 0x5c] [0x00] inner)))
     else None)"

definition MAX_SF_INPUT_LEN :: usize where "MAX_SF_INPUT_LEN = 8192"

definition MAX_SF_ELEMENTS :: usize where "MAX_SF_ELEMENTS = 256"

fun sf_list_loop :: "bytes list \<Rightarrow> bytes list \<Rightarrow> bytes list" where
  "sf_list_loop result [] = result"
| "sf_list_loop result (item # items) =
    (if MAX_SF_ELEMENTS \<le> length result then []
     else
       let item = trim item in
       if item = [] then sf_list_loop result items
       else case parse_sf_item_string item of
         Some s \<Rightarrow> sf_list_loop (result @ [s]) items
       | None \<Rightarrow> [])"

definition parse_sf_list_strings :: "bytes \<Rightarrow> bytes list" where
  "parse_sf_list_strings v =
    (if MAX_SF_INPUT_LEN < length v then []
     else if list_ex (\<lambda>b. b < 0x20 \<or> b = 0x7f) v then []
     else sf_list_loop [] (split_on 0x2c v))"

section \<open>Quoted strings\<close>

text \<open>
  The form \<^verbatim>\<open>"\"{}\""\<close> with backslashes and quotes escaped, which requests and responses use, and
  the joined list.
\<close>

definition quoted :: "bytes \<Rightarrow> bytes" where
  "quoted p = 0x22 # replace_all [0x22] [0x5c, 0x22] (replace_all [0x5c] [0x5c, 0x5c] p) @ [0x22]"

fun join :: "bytes \<Rightarrow> bytes list \<Rightarrow> bytes" where
  "join sep [] = []"
| "join sep [x] = x"
| "join sep (x # y # ys) = x @ sep @ join sep (y # ys)"

definition quoted_char :: "u8 \<Rightarrow> bytes" where
  "quoted_char b = (if b = 0x5c then [0x5c, 0x5c] else if b = 0x22 then [0x5c, 0x22] else [b])"

lemma replace_single: "replace_all [c] r v = concat (map (\<lambda>b. if b = c then r else [b]) v)"
  by (induction v) (subst replace_all.simps; simp add: str_prefix_def)+

lemma quoted_chars: "quoted p = 0x22 # concat (map quoted_char p) @ [0x22]"
proof -
  have "concat (map (\<lambda>b. if b = 0x22 then [0x5c, 0x22] else [b])
      (concat (map (\<lambda>b. if b = 0x5c then [0x5c, 0x5c] else [b]) p))) = concat (map quoted_char p)"
    by (induction p) (simp_all add: quoted_char_def)
  then show ?thesis by (simp add: quoted_def replace_single)
qed

lemma unquote:
  assumes "0x00 \<notin> set p"
  shows "replace_all [0x00] [0x5c] (replace_all [0x5c, 0x22] [0x22] (replace_all [0x5c, 0x5c] [0x00]
    (concat (map quoted_char p)))) = p"
proof -
  let ?q = "\<lambda>b :: u8. if b = 0x5c then [0x00] else if b = 0x22 then [0x5c, 0x22] else [b]"
  let ?r = "\<lambda>b :: u8. if b = 0x5c then [0x00] else [b]"
  have "replace_all [0x5c, 0x5c] [0x00] (concat (map quoted_char p)) = concat (map ?q p)"
  proof (induction p)
    case (Cons b p)
    then show ?case
      by (subst replace_all.simps; simp add: str_prefix_def quoted_char_def; subst replace_all.simps; simp add: str_prefix_def)
  qed (simp add: replace_all.simps)
  moreover have "replace_all [0x5c, 0x22] [0x22] (concat (map ?q p)) = concat (map ?r p)"
  proof (induction p)
    case (Cons b p)
    then show ?case by (subst replace_all.simps; simp add: str_prefix_def)
  qed (simp add: replace_all.simps)
  moreover have "concat (map (\<lambda>b. if b = 0x00 then [0x5c] else [b]) (concat (map ?r p))) = p"
    using assms by (induction p) auto
  ultimately show ?thesis by (simp add: replace_single)
qed

lemma strip_quoted_inner:
  "strip_parameters_loop True False (concat (map quoted_char p) @ 0x22 # rest) =
    concat (map quoted_char p) @ 0x22 # strip_parameters_loop False False rest"
  by (induction p) (simp_all add: quoted_char_def)

lemma strip_quoted: "strip_sf_parameters (quoted p) = quoted p"
  by (simp add: strip_sf_parameters_def quoted_chars strip_quoted_inner)

lemma trim_start_quote: "trim_start (0x22 # v) = 0x22 # v"
  by (subst trim_start.simps) (simp add: whitespace_def str_prefix_def)

lemma trim_end_quote: "trim_end (v @ [0x22]) = v @ [0x22]"
proof -
  have "\<not> str_suffix w (v @ [0x22])" if "w \<in> set whitespace" for w
  proof
    assume "str_suffix w (v @ [0x22])"
    then have "last (drop (length v + 1 - length w) (v @ [0x22])) = last w"
      by (simp add: str_suffix_def)
    moreover have "length v + 1 - length w < length (v @ [0x22])"
      using whitespace_nonempty [OF that] by (cases w) auto
    ultimately have "last w = 0x22" by (simp add: last_drop)
    then show False using that by (auto simp: whitespace_def)
  qed
  then have "find (\<lambda>w. str_suffix w (v @ [0x22])) whitespace = None" by (auto simp: find_None_iff)
  then show ?thesis by (subst trim_end.simps) simp
qed

lemma trim_quoted: "trim (quoted p) = quoted p" "trim (0x20 # quoted p) = quoted p"
proof -
  have "trim_start (0x20 # 0x22 # v) = 0x22 # v" for v
    by (subst trim_start.simps) (simp add: whitespace_def str_prefix_def trim_start_quote)
  moreover have "quoted p = (0x22 # concat (map quoted_char p)) @ [0x22]" by (simp add: quoted_chars)
  ultimately show "trim (quoted p) = quoted p" "trim (0x20 # quoted p) = quoted p"
    unfolding trim_def by (metis append_Cons trim_end_quote trim_start_quote)+
qed

text \<open>An item that was quoted is read back, with any parameters behind it.\<close>

lemma parse_quoted:
  assumes "0x00 \<notin> set p"
  shows "parse_sf_item_string (quoted p) = Some p"
proof -
  have "drop 1 (take (length (quoted p) - 1) (quoted p)) = concat (map quoted_char p)"
    by (simp add: quoted_chars)
  moreover have "str_prefix [0x22] (quoted p)" "str_suffix [0x22] (quoted p)" "2 \<le> length (quoted p)"
    by (simp_all add: quoted_chars str_prefix_def str_suffix_def)
  ultimately show ?thesis using unquote [OF assms]
    by (simp add: parse_sf_item_string_def trim_quoted strip_quoted Let_def)
qed

section \<open>Lists of quoted strings\<close>

text \<open>The strings that survive in a list: no control characters and, since the list is split first, no comma.\<close>

definition sf_string :: "bytes \<Rightarrow> bool" where
  "sf_string p \<longleftrightarrow> (\<forall>b \<in> set p. 0x20 \<le> b \<and> b \<noteq> 0x7f \<and> b \<noteq> 0x2c)"

lemma split_on_none: "d \<notin> set v \<Longrightarrow> split_on d v = [v]"
  by (induction v) auto

lemma split_on_first: "d \<notin> set v \<Longrightarrow> split_on d (v @ d # w) = v # split_on d w"
  by (induction v) auto

lemma quoted_no_comma: "sf_string p \<Longrightarrow> 0x2c \<notin> set (quoted p)"
  by (auto simp: quoted_chars quoted_char_def sf_string_def)

lemma split_joined:
  assumes "\<forall>p \<in> set ps. sf_string p" "ps \<noteq> []"
  shows "split_on 0x2c (join [0x2c, 0x20] (map quoted ps)) = quoted (hd ps) # map (\<lambda>p. 0x20 # quoted p) (tl ps)"
  using assms
proof (induction ps rule: induct_list012)
  case (3 p q ps)
  have split: "split_on 0x2c (join [0x2c, 0x20] (map quoted (q # ps))) =
      quoted q # map (\<lambda>p. 0x20 # quoted p) ps" using 3 by simp
  then show ?case using split_on_first [OF quoted_no_comma [of p]] 3(3) by simp
qed (simp_all add: split_on_none quoted_no_comma)

lemma quoted_nonempty [simp]: "quoted p \<noteq> []"
  by (simp add: quoted_chars)

lemma sf_list_quoted:
  assumes "\<forall>p \<in> set ps. sf_string p" "length result + length ps \<le> MAX_SF_ELEMENTS"
  shows "sf_list_loop result (map (\<lambda>p. 0x20 # quoted p) ps) = result @ ps"
  using assms
proof (induction ps arbitrary: result)
  case (Cons p ps)
  have "0x00 \<notin> set p" using Cons.prems(1) by (auto simp: sf_string_def)
  with Cons show ?case by (simp add: trim_quoted parse_quoted Let_def)
qed simp

lemma joined_chars:
  assumes "\<forall>p \<in> set ps. sf_string p" "b \<in> set (join [0x2c, 0x20] (map quoted ps))"
  shows "0x20 \<le> b \<and> b \<noteq> 0x7f"
  using assms
  by (induction ps rule: induct_list012)
    (auto simp: quoted_chars quoted_char_def sf_string_def split: if_splits)

lemma parse_list_quoted:
  assumes "\<forall>p \<in> set ps. sf_string p" "length ps \<le> MAX_SF_ELEMENTS" "ps \<noteq> []"
    and "length (join [0x2c, 0x20] (map quoted ps)) \<le> MAX_SF_INPUT_LEN"
  shows "parse_sf_list_strings (join [0x2c, 0x20] (map quoted ps)) = ps"
proof -
  obtain p qs where ps: "ps = p # qs" using assms(3) by (cases ps) auto
  have "0x00 \<notin> set p" using assms(1) by (auto simp: sf_string_def ps)
  moreover have "MAX_SF_ELEMENTS \<noteq> 0" by (simp add: MAX_SF_ELEMENTS_def)
  ultimately have "sf_list_loop [] (split_on 0x2c (join [0x2c, 0x20] (map quoted ps))) = ps"
    using split_joined [OF assms(1,3)] sf_list_quoted [of qs "[p]"] assms(1,2)
    by (simp add: trim_quoted parse_quoted Let_def ps)
  moreover have "\<not> list_ex (\<lambda>b. b < 0x20 \<or> b = 0x7f) (join [0x2c, 0x20] (map quoted ps))"
    using joined_chars [OF assms(1)] by (auto simp: list_ex_iff not_less)
  ultimately show ?thesis using assms(4) by (simp add: parse_sf_list_strings_def)
qed

text \<open>
  A comma inside a quoted string does split it: the list is then dropped as a whole, although
  the string is well formed (RFC 9651) and the printer emits it.
\<close>

lemma comma_drops_list: "parse_sf_list_strings (join [0x2c, 0x20] (map quoted [[0x61, 0x2c, 0x62]])) = []"
proof -
  have j: "join [0x2c, 0x20] (map quoted [[0x61, 0x2c, 0x62]]) = [0x22, 0x61, 0x2c, 0x62, 0x22]"
    by (simp add: quoted_chars quoted_char_def)
  have "trim_end [0x22, 0x61] = [0x22, 0x61]"
    by (subst trim_end.simps) (simp add: whitespace_def str_suffix_def)
  then have t: "trim [0x22, 0x61] = [0x22, 0x61]" by (simp add: trim_def trim_start_quote)
  have "parse_sf_item_string [0x22, 0x61] = None"
    by (simp add: parse_sf_item_string_def t strip_sf_parameters_def str_suffix_def)
  then show ?thesis unfolding j
    by (simp add: parse_sf_list_strings_def MAX_SF_INPUT_LEN_def MAX_SF_ELEMENTS_def t)
qed

section \<open>Well-formedness\<close>

lemma char_len_multibyte:
  assumes "char_len (b # bs) = Some n" "\<not> b < 0x80"
  shows "\<forall>c \<in> set (take n (b # bs)). 0x80 \<le> c"
proof
  fix c assume "c \<in> set (take n (b # bs))"
  then obtain i where i: "i < n" "c = (b # bs) ! i" "i < length (b # bs)" by (auto simp: in_set_conv_nth)
  show "0x80 \<le> c"
  proof (cases "i = 0")
    case True
    then show ?thesis using i assms(2) by (simp add: not_less)
  next
    case False
    then show ?thesis using char_len_inner [OF assms(1), of i] i by (simp add: is_cont_def)
  qed
qed

lemma utf8_valid_quoted_chars: "utf8_valid p \<Longrightarrow> utf8_valid (concat (map quoted_char p))"
proof (induction p rule: utf8_valid.induct)
  case (1 p)
  show ?case
  proof (cases p)
    case (Cons b bs)
    then obtain n where n: "char_len p = Some n" "utf8_valid (drop n p)"
      using utf8_valid_first [OF 1(2)] by blast
    have "utf8_valid (concat (map quoted_char (drop n p)))" using 1 Cons n by simp
    moreover have "utf8_valid (concat (map quoted_char (take n p)))"
    proof (cases "b < 0x80")
      case True
      then have "n = 1" using n(1) by (simp add: Cons)
      moreover have "utf8_valid (quoted_char b)" using True by (intro utf8_valid_ascii) (auto simp: quoted_char_def)
      ultimately show ?thesis by (simp add: Cons)
    next
      case False
      have "\<forall>c \<in> set (take n p). 0x80 \<le> c" using char_len_multibyte [of b bs n] n(1) False by (simp add: Cons)
      moreover have "\<not> 0x80 \<le> (0x5c :: u8)" "\<not> 0x80 \<le> (0x22 :: u8)" by simp_all
      ultimately have "\<forall>c \<in> set (take n p). quoted_char c = [c]" by (auto simp: quoted_char_def)
      then have "concat (map quoted_char (take n p)) = take n p"
        by (simp cong: map_cong)
      moreover have "char_len (take n p) = Some n" "length (take n p) = n"
        using char_len_take [OF n(1), of n] char_len_bounds [OF n(1)] by simp_all
      ultimately show ?thesis using Cons by (subst utf8_valid.simps) simp
    qed
    ultimately have "utf8_valid (concat (map quoted_char (take n p)) @ concat (map quoted_char (drop n p)))"
      by (simp add: utf8_valid_append)
    then show ?thesis by (simp flip: concat_append map_append)
  qed simp
qed

lemma utf8_valid_quoted: "utf8_valid p \<Longrightarrow> utf8_valid (quoted p)"
proof -
  assume "utf8_valid p"
  moreover have "utf8_valid [0x22]" by (rule utf8_valid_ascii) simp
  ultimately have "utf8_valid ([0x22] @ concat (map quoted_char p) @ [0x22])"
    by (intro utf8_valid_append utf8_valid_quoted_chars)
  then show ?thesis by (simp add: quoted_chars)
qed

lemma utf8_valid_join:
  "\<forall>v \<in> set vs. utf8_valid v \<Longrightarrow> utf8_valid (join [0x2c, 0x20] vs)"
proof (induction vs rule: induct_list012)
  case (3 x y vs)
  have "utf8_valid (x @ [0x2c, 0x20] @ join [0x2c, 0x20] (y # vs))"
  proof (intro utf8_valid_append)
    show "utf8_valid [0x2c, 0x20]" by (rule utf8_valid_ascii) simp
  qed (use 3 in auto)
  then show ?case by simp
qed simp_all

end
