(* ===== verification/Uri_Syntax.thy ===== *)
theory Uri_Syntax
  imports Header
begin

text \<open>
  The byte-level checks of \<^verbatim>\<open>src/validation.rs\<close>: methods, schemes, upgrade tokens, paths, queries
  and authorities.  The scanning loops run over an index as in the source; \<open>escaped\<close> is the
  language they accept (characters of a class, and \<open>%\<close> with two hexadecimal digits), and each
  check is characterised by a grammar.
\<close>

section \<open>Searching in slices\<close>

definition position :: "('a \<Rightarrow> bool) \<Rightarrow> 'a list \<Rightarrow> nat option" where
  "position P xs =
    (let n = length (takeWhile (\<lambda>b. \<not> P b) xs) in if n < length xs then Some n else None)"

definition rposition :: "('a \<Rightarrow> bool) \<Rightarrow> 'a list \<Rightarrow> nat option" where
  "rposition P xs = map_option (\<lambda>n. length xs - 1 - n) (position P (rev xs))"

lemma is_some_and_simps [simp]: "\<not> is_some_and None P" "is_some_and (Some v) P \<longleftrightarrow> P v"
  by (simp_all add: is_some_and_def)

lemma position_Some:
  "position P xs = Some n \<longleftrightarrow>
    n < length xs \<and> P (xs ! n) \<and> (\<forall>b \<in> set (take n xs). \<not> P b)"
proof
  assume "position P xs = Some n"
  then have n: "n = length (takeWhile (\<lambda>b. \<not> P b) xs)" "n < length xs"
    by (auto simp: position_def Let_def split: if_splits)
  then have "P (xs ! n)" using nth_length_takeWhile [of "\<lambda>b. \<not> P b" xs] by simp
  moreover have "take n xs = takeWhile (\<lambda>b. \<not> P b) xs" using n takeWhile_eq_take by metis
  ultimately show "n < length xs \<and> P (xs ! n) \<and> (\<forall>b \<in> set (take n xs). \<not> P b)"
    using n by (auto dest: set_takeWhileD)
next
  assume a: "n < length xs \<and> P (xs ! n) \<and> (\<forall>b \<in> set (take n xs). \<not> P b)"
  then have "takeWhile (\<lambda>b. \<not> P b) (take n xs @ xs ! n # drop (Suc n) xs) = take n xs"
    by (subst takeWhile_append2) auto
  with a show "position P xs = Some n" by (simp add: id_take_nth_drop [symmetric] position_def Let_def)
qed

lemma position_None: "position P xs = None \<longleftrightarrow> (\<forall>b \<in> set xs. \<not> P b)"
  by (induction xs) (auto simp: position_def Let_def)

text \<open>What the searches find, as a split of the list.\<close>

lemma position_split:
  "(\<exists>n. position P xs = Some n \<and> Q (take n xs) (xs ! n) (drop (n + 1) xs)) \<longleftrightarrow>
    (\<exists>us b vs. xs = us @ b # vs \<and> P b \<and> (\<forall>c \<in> set us. \<not> P c) \<and> Q us b vs)"
  (is "?L \<longleftrightarrow> ?R")
proof
  assume ?L
  then obtain n where "position P xs = Some n" "Q (take n xs) (xs ! n) (drop (n + 1) xs)" by blast
  then show ?R using id_take_nth_drop [of n xs] unfolding position_Some by fastforce
next
  assume ?R
  then obtain us b vs where x: "xs = us @ b # vs" "P b" "\<forall>c \<in> set us. \<not> P c" "Q us b vs" by blast
  then have "position P xs = Some (length us)" by (simp add: position_Some nth_append)
  then show ?L using x by (auto simp: nth_append)
qed

lemma rposition_Some:
  "rposition P xs = Some n \<longleftrightarrow>
    n < length xs \<and> P (xs ! n) \<and> (\<forall>b \<in> set (drop (n + 1) xs). \<not> P b)"
proof
  assume "rposition P xs = Some n"
  then obtain m where m: "position P (rev xs) = Some m" "n = length xs - 1 - m"
    by (auto simp: rposition_def)
  then have "m < length xs" "P (rev xs ! m)" "\<forall>b \<in> set (take m (rev xs)). \<not> P b"
    by (simp_all add: position_Some)
  moreover from this have "length xs - m = n + 1" using m by simp
  ultimately show "n < length xs \<and> P (xs ! n) \<and> (\<forall>b \<in> set (drop (n + 1) xs). \<not> P b)"
    using m by (auto simp: rev_nth take_rev)
next
  assume a: "n < length xs \<and> P (xs ! n) \<and> (\<forall>b \<in> set (drop (n + 1) xs). \<not> P b)"
  then have "position P (rev xs) = Some (length xs - 1 - n)"
    by (auto simp: position_Some rev_nth take_rev)
  with a show "rposition P xs = Some n" by (simp add: rposition_def)
qed

lemma rposition_None: "rposition P xs = None \<longleftrightarrow> (\<forall>b \<in> set xs. \<not> P b)"
  by (simp add: rposition_def position_None)

lemma position_at: "b \<notin> set us \<Longrightarrow> position (\<lambda>c. c = b) (us @ b # vs) = Some (length us)"
  by (auto simp: position_Some nth_append)

lemma rposition_at: "b \<notin> set vs \<Longrightarrow> rposition (\<lambda>c. c = b) (us @ b # vs) = Some (length us)"
  by (auto simp: rposition_Some nth_append)

lemma split_at_first:
  assumes "us @ b # vs = us' @ b # vs'" "b \<notin> set us" "b \<notin> set us'"
  shows "us = us' \<and> vs = vs'"
  using position_at [OF assms(2), of vs] position_at [OF assms(3), of vs'] assms(1) by simp

lemma split_at_last:
  assumes "us @ b # vs = us' @ b # vs'" "b \<notin> set vs" "b \<notin> set vs'"
  shows "us = us' \<and> vs = vs'"
  using rposition_at [OF assms(2), of us] rposition_at [OF assms(3), of us'] assms(1) by simp

section \<open>Tokens\<close>

definition is_ascii_hexdigit :: "u8 \<Rightarrow> bool" where
  "is_ascii_hexdigit b \<longleftrightarrow>
    is_ascii_digit b \<or> (0x41 \<le> b \<and> b \<le> 0x46) \<or> (0x61 \<le> b \<and> b \<le> 0x66)"

definition is_ascii_alphanumeric :: "u8 \<Rightarrow> bool" where
  "is_ascii_alphanumeric b \<longleftrightarrow> is_ascii_alphabetic b \<or> is_ascii_digit b"

definition vd_is_tchar :: "u8 \<Rightarrow> bool" where
  "vd_is_tchar b \<longleftrightarrow>
    b \<in> {0x21, 0x23, 0x24, 0x25, 0x26, 0x27, 0x2a, 0x2b, 0x2d, 0x2e, 0x5e, 0x5f, 0x60, 0x7c, 0x7e} \<or>
    (0x30 \<le> b \<and> b \<le> 0x39) \<or> (0x41 \<le> b \<and> b \<le> 0x5a) \<or> (0x61 \<le> b \<and> b \<le> 0x7a)"

definition is_valid_method :: "bytes \<Rightarrow> bool" where
  "is_valid_method meth \<longleftrightarrow> meth \<noteq> [] \<and> list_all vd_is_tchar meth"

definition is_valid_scheme :: "bytes \<Rightarrow> bool" where
  "is_valid_scheme scheme \<longleftrightarrow>
    (if scheme = [] then False
     else if \<not> is_ascii_alphabetic (scheme ! 0) then False
     else list_all (\<lambda>b. is_ascii_alphanumeric b \<or> b = 0x2b \<or> b = 0x2d \<or> b = 0x2e) (drop 1 scheme))"

text \<open>\<^verbatim>\<open>splitn(2, ..)\<close>: what is before the first \<^verbatim>\<open>/\<close>, and the rest if there is one.\<close>

definition is_valid_protocol :: "bytes \<Rightarrow> bool" where
  "is_valid_protocol v \<longleftrightarrow>
    (if v = [] then False
     else
       let (name, version) =
             (case position (\<lambda>b. b = 0x2f) v of
                None \<Rightarrow> (v, None)
              | Some n \<Rightarrow> (take n v, Some (drop (n + 1) v))) in
       if name = [] \<or> \<not> list_all vd_is_tchar name then False
       else \<not> is_some_and version (\<lambda>version. version = [] \<or> \<not> list_all vd_is_tchar version))"

lemma vd_is_tchar: "vd_is_tchar = is_tchar"
  by (auto simp: fun_eq_iff vd_is_tchar_def is_tchar_def token_punctuation_def is_ascii_digit_def
      is_ascii_uppercase_def is_ascii_lowercase_def)

lemma is_valid_method_token: "is_valid_method v \<longleftrightarrow> token v"
  by (simp add: is_valid_method_def token_def vd_is_tchar list_all_iff)

lemma is_valid_scheme_grammar: "is_valid_scheme v \<longleftrightarrow> scheme_grammar v"
  by (cases v) (auto simp: is_valid_scheme_def scheme_grammar_def list_all_iff is_ascii_alphanumeric_def)

lemma is_valid_protocol_grammar: "is_valid_protocol v \<longleftrightarrow> upgrade_token v"
proof -
  have no: "0x2f \<notin> set n" if "token n" for n using that slash_not_tchar by (auto simp: token_def)
  have "is_valid_protocol v \<longleftrightarrow> (0x2f \<notin> set v \<and> token v) \<or>
      (\<exists>n. position (\<lambda>b. b = 0x2f) v = Some n \<and> token (take n v) \<and> token (drop (n + 1) v))"
    using position_None [of "\<lambda>b. b = 0x2f" v]
    by (auto simp: is_valid_protocol_def token_def vd_is_tchar list_all_iff Let_def split: option.splits)
  also have "\<dots> \<longleftrightarrow> (0x2f \<notin> set v \<and> token v) \<or>
      (\<exists>us b vs. v = us @ b # vs \<and> b = 0x2f \<and> (\<forall>c \<in> set us. c \<noteq> 0x2f) \<and> token us \<and> token vs)"
    using position_split [of "\<lambda>b. b = 0x2f" v "\<lambda>us b vs. token us \<and> token vs"] by simp
  also have "\<dots> \<longleftrightarrow> upgrade_token v" using no by (auto simp: upgrade_token_def)
  finally show ?thesis .
qed

section \<open>Paths and queries\<close>

definition is_pchar :: "u8 \<Rightarrow> bool" where
  "is_pchar b \<longleftrightarrow>
    (0x41 \<le> b \<and> b \<le> 0x5a) \<or> (0x61 \<le> b \<and> b \<le> 0x7a) \<or> (0x30 \<le> b \<and> b \<le> 0x39) \<or>
    b \<in> {0x2d, 0x2e, 0x5f, 0x7e} \<or>
    b \<in> {0x21, 0x24, 0x26, 0x27, 0x28, 0x29, 0x2a, 0x2b, 0x2c, 0x3b, 0x3d} \<or> b \<in> {0x3a, 0x40}"

definition is_valid_pct_encoded :: "bytes \<Rightarrow> usize \<Rightarrow> bool" where
  "is_valid_pct_encoded bytes pos \<longleftrightarrow>
    pos + 3 \<le> length bytes \<and> is_ascii_hexdigit (bytes ! (pos + 1)) \<and> is_ascii_hexdigit (bytes ! (pos + 2))"

text \<open>The loops over a path and over a query differ in the delimiters that they allow.\<close>

function path_chars_loop :: "(u8 \<Rightarrow> bool) \<Rightarrow> bytes \<Rightarrow> usize \<Rightarrow> bool" where
  "path_chars_loop delimiter path i =
    (if i < length path then
       let b = path ! i in
       if delimiter b then path_chars_loop delimiter path (i + 1)
       else if b = 0x25 then
         if \<not> is_valid_pct_encoded path i then False else path_chars_loop delimiter path (i + 3)
       else if \<not> is_pchar b then False
       else path_chars_loop delimiter path (i + 1)
     else True)"
  by pat_completeness auto
termination
  by (relation "measure (\<lambda>(_, path, i). length path - i)") auto

declare path_chars_loop.simps [simp del]

definition is_valid_path_chars :: "bytes \<Rightarrow> bool" where
  "is_valid_path_chars path = path_chars_loop (\<lambda>b. b = 0x2f) path 0"

definition is_valid_query_chars :: "bytes \<Rightarrow> bool" where
  "is_valid_query_chars query = path_chars_loop (\<lambda>b. b = 0x2f \<or> b = 0x3f) query 0"

definition is_valid_http_path :: "bytes \<Rightarrow> bytes \<Rightarrow> bool" where
  "is_valid_http_path path meth \<longleftrightarrow>
    (if path = [] then False
     else if meth = ascii ''OPTIONS'' \<and> path = ascii ''*'' then True
     else if path ! 0 \<noteq> 0x2f then False
     else if 0x23 \<in> set path then False
     else
       let (path_part, query_part) =
             (case position (\<lambda>b. b = 0x3f) path of
                Some pos \<Rightarrow> (take pos path, Some (drop (pos + 1) path))
              | None \<Rightarrow> (path, None)) in
       if \<not> is_valid_path_chars path_part then False
       else if is_some_and query_part (\<lambda>query. \<not> is_valid_query_chars query) then False
       else True)"

text \<open>Strings over a class of characters with percent-encoded bytes (RFC 3986 Section 2.1).\<close>

inductive escaped :: "(u8 \<Rightarrow> bool) \<Rightarrow> bytes \<Rightarrow> bool" for C where
  Nil: "escaped C []"
| Char: "C b \<Longrightarrow> b \<noteq> 0x25 \<Longrightarrow> escaped C bs \<Longrightarrow> escaped C (b # bs)"
| Pct: "is_ascii_hexdigit h \<Longrightarrow> is_ascii_hexdigit l \<Longrightarrow> escaped C bs \<Longrightarrow> escaped C (0x25 # h # l # bs)"

inductive_simps escaped_Nil [simp]: "escaped C []"
inductive_simps escaped_Cons: "escaped C (b # bs)"

lemma escaped_append: "escaped C us \<Longrightarrow> escaped C vs \<Longrightarrow> escaped C (us @ vs)"
  by (induction rule: escaped.induct) (auto intro: escaped.intros)

lemma escaped_chars: "escaped C bs \<Longrightarrow> b \<in> set bs \<Longrightarrow> C b \<or> b = 0x25 \<or> is_ascii_hexdigit b"
  by (induction rule: escaped.induct) auto

lemma escaped_mono: "escaped C bs \<Longrightarrow> (\<And>b. C b \<Longrightarrow> D b) \<Longrightarrow> escaped D bs"
  by (induction rule: escaped.induct) (auto intro: escaped.intros)

text \<open>What a scan does at index \<open>i\<close> is what the grammar says of the rest.\<close>

lemma escaped_at:
  assumes "i < length path"
  shows "escaped C (drop i path) \<longleftrightarrow>
    (if path ! i = 0x25 then is_valid_pct_encoded path i \<and> escaped C (drop (i + 3) path)
     else C (path ! i) \<and> escaped C (drop (i + 1) path))"
proof -
  have d: "drop i path = path ! i # drop (i + 1) path" using assms by (simp add: Cons_nth_drop_Suc)
  show ?thesis
  proof (cases "i + 3 \<le> length path")
    case True
    then have "drop (i + 1) path = path ! (i + 1) # path ! (i + 2) # drop (i + 3) path"
      by (simp add: Cons_nth_drop_Suc numeral_eq_Suc)
    then show ?thesis using True unfolding d
      by (auto simp: escaped_Cons is_valid_pct_encoded_def)
  next
    case False
    then have "length (drop (i + 1) path) < 2" using assms by simp
    then have "drop (i + 1) path \<noteq> h # l # bs" for h l bs by (metis length_Cons not_less_eq not_less_zero numeral_2_eq_2)
    then show ?thesis using False unfolding d
      by (auto simp: escaped_Cons is_valid_pct_encoded_def)
  qed
qed

lemma path_chars_loop_escaped:
  assumes "\<not> delimiter 0x25"
  shows "path_chars_loop delimiter path i \<longleftrightarrow> escaped (\<lambda>b. delimiter b \<or> is_pchar b) (drop i path)"
  using assms
proof (induction delimiter path i rule: path_chars_loop.induct)
  case (1 delimiter path i)
  show ?case
  proof (cases "i < length path")
    case True
    then show ?thesis using 1 escaped_at [OF True, of "\<lambda>b. delimiter b \<or> is_pchar b"]
      by (subst path_chars_loop.simps) (auto simp: Let_def)
  next
    case False
    then show ?thesis by (subst path_chars_loop.simps) simp
  qed
qed

text \<open>\<open>path-absolute [ "?" query ]\<close>, or the asterisk of OPTIONS.\<close>

definition path_grammar :: "bytes \<Rightarrow> bytes \<Rightarrow> bool" where
  "path_grammar meth v \<longleftrightarrow>
    (meth = ascii ''OPTIONS'' \<and> v = ascii ''*'') \<or>
    (\<exists>p. escaped (\<lambda>b. b = 0x2f \<or> is_pchar b) p \<and>
      (v = 0x2f # p \<or>
       (\<exists>q. v = 0x2f # p @ 0x3f # q \<and> escaped (\<lambda>b. b \<in> {0x2f, 0x3f} \<or> is_pchar b) q)))"

lemma not_in_paths:
  "\<not> is_pchar 0x25" "\<not> is_pchar 0x3f" "\<not> is_pchar 0x23"
  "\<not> is_ascii_hexdigit 0x3f" "\<not> is_ascii_hexdigit 0x23"
  by (simp_all add: is_pchar_def is_ascii_hexdigit_def is_ascii_digit_def)

lemma is_valid_http_path_grammar: "is_valid_http_path v meth \<longleftrightarrow> path_grammar meth v"
proof -
  let ?p = "escaped (\<lambda>b. b = 0x2f \<or> is_pchar b)" and ?q = "escaped (\<lambda>b. b \<in> {0x2f, 0x3f} \<or> is_pchar b)"
  have path: "is_valid_path_chars v \<longleftrightarrow> ?p v" for v
    by (simp add: is_valid_path_chars_def path_chars_loop_escaped)
  have "(\<lambda>b. (b = 0x2f \<or> b = 0x3f) \<or> is_pchar b) = (\<lambda>b. b \<in> {0x2f, 0x3f} \<or> is_pchar b)" by auto
  then have query: "is_valid_query_chars v \<longleftrightarrow> ?q v" for v
    by (simp add: is_valid_query_chars_def path_chars_loop_escaped)
  have slash: "?p (0x2f # v) \<longleftrightarrow> ?p v" for v by (auto simp: escaped_Cons)
  have no: "0x3f \<notin> set v" "0x23 \<notin> set v" if "?p v" for v
    using escaped_chars [OF that, where b = "0x3f"] escaped_chars [OF that, where b = "0x23"] not_in_paths by auto
  have noq: "0x23 \<notin> set v" if "?q v" for v
    using escaped_chars [OF that, where b = "0x23"] not_in_paths by auto
  have star: "is_valid_http_path v meth" if "meth = ascii ''OPTIONS''" "v = ascii ''*''"
    using that by (simp add: is_valid_http_path_def ascii_def)
  have tail: "is_valid_http_path v meth \<longleftrightarrow> path_grammar meth v" if v: "v = 0x2f # w" for w
  proof (cases "position (\<lambda>b. b = 0x3f) w")
    case None
    then have q: "0x3f \<notin> set w" by (auto simp: position_None)
    then have "position (\<lambda>b. b = 0x3f) v = None" by (auto simp: position_None v)
    then have "is_valid_http_path v meth \<longleftrightarrow> 0x23 \<notin> set w \<and> ?p w"
      by (simp add: is_valid_http_path_def v ascii_def path slash)
    also have "\<dots> \<longleftrightarrow> path_grammar meth v" using q no by (auto simp: path_grammar_def v ascii_def)
    finally show ?thesis .
  next
    case (Some n)
    then obtain p q where w: "w = p @ 0x3f # q" "0x3f \<notin> set p"
      using position_split [of "\<lambda>b. b = 0x3f" w "\<lambda>_ _ _. True"] by auto
    then have "position (\<lambda>b. b = 0x3f) v = Some (length p + 1)" by (auto simp: position_Some v nth_append)
    then have "is_valid_http_path v meth \<longleftrightarrow> 0x23 \<notin> set w \<and> ?p p \<and> ?q q"
      by (simp add: is_valid_http_path_def v ascii_def path slash query w)
    also have "\<dots> \<longleftrightarrow> ?p p \<and> ?q q" using no [of p] noq [of q] w by auto
    also have "\<dots> \<longleftrightarrow> path_grammar meth v"
    proof
      assume "path_grammar meth v"
      then obtain p' where p': "?p p'" "w = p' \<or> (\<exists>q'. w = p' @ 0x3f # q' \<and> ?q q')"
        by (auto simp: path_grammar_def v ascii_def)
      with no [of p'] w have "w \<noteq> p'" by auto
      with p' obtain q' where q': "w = p' @ 0x3f # q'" "?q q'" by blast
      then have "p @ 0x3f # q = p' @ 0x3f # q'" using w(1) by metis
      from split_at_first [OF this w(2) no(1) [OF p'(1)]] have "p = p' \<and> q = q'" .
      with p'(1) q'(2) show "?p p \<and> ?q q" by simp
    qed (use w in \<open>auto simp: path_grammar_def v\<close>)
    finally show ?thesis .
  qed
  show ?thesis
  proof (cases "meth = ascii ''OPTIONS'' \<and> v = ascii ''*''")
    case True
    then show ?thesis using star by (simp add: path_grammar_def)
  next
    case False
    show ?thesis
    proof (cases "\<exists>w. v = 0x2f # w")
      case True
      then show ?thesis using tail by blast
    next
      case no: False
      then have "v = [] \<or> v ! 0 \<noteq> 0x2f" by (cases v) auto
      then show ?thesis using no False by (auto simp: is_valid_http_path_def path_grammar_def)
    qed
  qed
qed

section \<open>Authorities\<close>

definition is_reg_name_char :: "u8 \<Rightarrow> bool" where
  "is_reg_name_char b \<longleftrightarrow>
    is_ascii_alphanumeric b \<or>
    b \<in> {0x2d, 0x2e, 0x5f, 0x7e, 0x21, 0x24, 0x26, 0x27, 0x28, 0x29, 0x2a, 0x2b, 0x2c, 0x3b, 0x3d, 0x25}"

function reg_name_loop :: "bytes \<Rightarrow> usize \<Rightarrow> bool" where
  "reg_name_loop host i =
    (if i < length host then
       if host ! i = 0x25 then
         if length host \<le> i + 2 \<or> \<not> is_ascii_hexdigit (host ! (i + 1)) \<or> \<not> is_ascii_hexdigit (host ! (i + 2))
         then False
         else reg_name_loop host (i + 3)
       else if is_reg_name_char (host ! i) then reg_name_loop host (i + 1)
       else False
     else True)"
  by pat_completeness auto
termination
  by (relation "measure (\<lambda>(host, i). length host - i)") auto

declare reg_name_loop.simps [simp del]

definition is_valid_reg_name :: "bytes \<Rightarrow> bool" where
  "is_valid_reg_name host = reg_name_loop host 0"

definition is_valid_ip_literal_content :: "bytes \<Rightarrow> bool" where
  "is_valid_ip_literal_content content \<longleftrightarrow>
    (if content = [] then False
     else if content ! 0 = 0x76 then
       4 \<le> length content \<and> 0x2e \<in> set (drop 1 content) \<and>
       list_all
         (\<lambda>b. is_ascii_hexdigit b \<or> b = 0x2e \<or> b = 0x3a \<or> b = 0x2d \<or> b = 0x5f \<or> b = 0x7e \<or>
           b \<in> {0x21, 0x24, 0x26, 0x27, 0x28, 0x29, 0x2a, 0x2b, 0x2c, 0x3b, 0x3d})
         (drop 1 content)
     else list_all (\<lambda>b. is_ascii_hexdigit b \<or> b = 0x3a \<or> b = 0x2e) content)"

definition is_valid_authority :: "bytes \<Rightarrow> bool" where
  "is_valid_authority v \<longleftrightarrow>
    (if v = [] then False
     else if v ! 0 = 0x5b then
       (case position (\<lambda>b. b = 0x5d) v of
          None \<Rightarrow> False
        | Some bracket_end \<Rightarrow>
            let literal_content = drop 1 (take bracket_end v) in
            if \<not> is_valid_ip_literal_content literal_content then False
            else
              let rest = drop (bracket_end + 1) v in
              if rest = [] then True
              else if rest ! 0 \<noteq> 0x3a then False
              else
                let port = drop 1 rest in
                list_all is_ascii_digit port)
     else
       case rposition (\<lambda>b. b = 0x3a) v of
         Some colon_pos \<Rightarrow>
           let host = take colon_pos v; port = drop (colon_pos + 1) v in
           if port \<noteq> [] \<and> list_all is_ascii_digit port then host \<noteq> [] \<and> is_valid_reg_name host
           else is_valid_reg_name v
       | None \<Rightarrow> is_valid_reg_name v)"

definition is_valid_connect_authority :: "bytes \<Rightarrow> bool" where
  "is_valid_connect_authority v \<longleftrightarrow>
    (if v = [] then False
     else if v ! 0 = 0x5b then
       (case position (\<lambda>b. b = 0x5d) v of
          None \<Rightarrow> False
        | Some bracket_end \<Rightarrow>
            if length v \<le> bracket_end + 1 \<or> v ! (bracket_end + 1) \<noteq> 0x3a then False
            else
              let literal_content = drop 1 (take bracket_end v) in
              if \<not> is_valid_ip_literal_content literal_content then False
              else
                let port = drop (bracket_end + 2) v in
                port \<noteq> [] \<and> list_all is_ascii_digit port)
     else
       case rposition (\<lambda>b. b = 0x3a) v of
         None \<Rightarrow> False
       | Some colon_pos \<Rightarrow>
           let host = take colon_pos v; port = drop (colon_pos + 1) v in
           host \<noteq> [] \<and> port \<noteq> [] \<and> is_valid_reg_name host \<and> list_all is_ascii_digit port)"

subsection \<open>Their grammar\<close>

definition reg_name :: "bytes \<Rightarrow> bool" where
  "reg_name = escaped is_reg_name_char"

definition digits :: "bytes \<Rightarrow> bool" where
  "digits v \<longleftrightarrow> (\<forall>b \<in> set v. is_ascii_digit b)"

definition ip_literal :: "bytes \<Rightarrow> bool" where
  "ip_literal v \<longleftrightarrow> (\<exists>c. v = 0x5b # c @ [0x5d] \<and> 0x5d \<notin> set c \<and> is_valid_ip_literal_content c)"

text \<open>
  A host with an optional port.  Behind a literal address the port may be empty, behind a name it
  may not.
\<close>

definition authority_grammar :: "bytes \<Rightarrow> bool" where
  "authority_grammar v \<longleftrightarrow>
    v \<noteq> [] \<and> reg_name v \<or>
    (\<exists>host port. v = host @ 0x3a # port \<and> host \<noteq> [] \<and> reg_name host \<and> port \<noteq> [] \<and> digits port) \<or>
    ip_literal v \<or> (\<exists>host port. v = host @ 0x3a # port \<and> ip_literal host \<and> digits port)"

text \<open>The target of a CONNECT request always names a port.\<close>

definition authority_form :: "bytes \<Rightarrow> bool" where
  "authority_form v \<longleftrightarrow>
    (\<exists>host port. v = host @ 0x3a # port \<and> (host \<noteq> [] \<and> reg_name host \<or> ip_literal host) \<and>
      port \<noteq> [] \<and> digits port)"

lemma reg_name_loop_escaped: "reg_name_loop host i \<longleftrightarrow> reg_name (drop i host)"
proof (induction host i rule: reg_name_loop.induct)
  case (1 host i)
  show ?case
  proof (cases "i < length host")
    case True
    have "is_valid_pct_encoded host i \<longleftrightarrow>
        \<not> (length host \<le> i + 2 \<or> \<not> is_ascii_hexdigit (host ! (i + 1)) \<or> \<not> is_ascii_hexdigit (host ! (i + 2)))"
      by (auto simp: is_valid_pct_encoded_def)
    then show ?thesis using 1 True escaped_at [OF True, of is_reg_name_char] unfolding reg_name_def
      by (subst reg_name_loop.simps) (auto simp: Let_def)
  next
    case False
    then show ?thesis by (subst reg_name_loop.simps) (simp add: reg_name_def)
  qed
qed

lemma is_valid_reg_name: "is_valid_reg_name = reg_name"
  by (auto simp: fun_eq_iff is_valid_reg_name_def reg_name_loop_escaped)

lemma reg_name_excludes: "reg_name v \<Longrightarrow> b \<in> {0x3a, 0x40, 0x5b} \<Longrightarrow> b \<notin> set v"
  unfolding reg_name_def using escaped_chars [of is_reg_name_char v b]
  by (auto simp: is_reg_name_char_def is_ascii_alphanumeric_def is_ascii_alphabetic_def is_ascii_digit_def
      is_ascii_lowercase_def is_ascii_uppercase_def is_ascii_hexdigit_def)

lemma digits_excludes: "digits v \<Longrightarrow> b \<in> {0x3a, 0x40} \<Longrightarrow> b \<notin> set v"
  by (auto simp: digits_def is_ascii_digit_def)

lemma list_all_digits: "list_all is_ascii_digit v \<longleftrightarrow> digits v"
  by (simp add: digits_def list_all_iff)

lemma ip_literal_at:
  assumes "v = 0x5b # c @ 0x5d # rest" "0x5d \<notin> set c"
  shows "(\<exists>host tail. v = host @ tail \<and> ip_literal host \<and> Q tail) \<longleftrightarrow> is_valid_ip_literal_content c \<and> Q rest"
proof
  assume "\<exists>host tail. v = host @ tail \<and> ip_literal host \<and> Q tail"
  then obtain c' tail where "v = 0x5b # c' @ 0x5d # tail" "0x5d \<notin> set c'" "is_valid_ip_literal_content c'" "Q tail"
    by (auto simp: ip_literal_def)
  with split_at_first [of c "0x5d" rest c' tail] assms show "is_valid_ip_literal_content c \<and> Q rest" by simp
next
  assume "is_valid_ip_literal_content c \<and> Q rest"
  with assms show "\<exists>host tail. v = host @ tail \<and> ip_literal host \<and> Q tail"
    by (intro exI [of _ "0x5b # c @ [0x5d]"] exI [of _ rest]) (auto simp: ip_literal_def)
qed

lemma name_at:
  assumes "v = us @ 0x3a # vs" "0x3a \<notin> set vs"
  shows "(\<exists>host port. v = host @ 0x3a # port \<and> P host \<and> digits port) \<longleftrightarrow> P us \<and> digits vs"
  using assms split_at_last [of us "0x3a" vs] digits_excludes by fastforce

text \<open>The two shapes of an authority, by their first byte.\<close>

lemma bracketed:
  assumes "v ! 0 = 0x5b" "v \<noteq> []"
  shows "\<not> reg_name v" "v = host @ 0x3a # port \<Longrightarrow> host \<noteq> [] \<Longrightarrow> \<not> reg_name host"
  using assms reg_name_excludes [of v "0x5b"] reg_name_excludes [of host "0x5b"] nth_mem [of 0 v] nth_mem [of 0 host]
  by (auto simp: nth_append split: if_splits)

lemma unbracketed:
  assumes "v ! 0 \<noteq> 0x5b"
  shows "\<not> ip_literal v" "v = host @ rest \<Longrightarrow> \<not> ip_literal host"
  using assms by (auto simp: ip_literal_def)

lemma is_valid_authority_grammar: "is_valid_authority v \<longleftrightarrow> authority_grammar v"
proof (cases "v \<noteq> [] \<and> v ! 0 = 0x5b")
  case True
  then have name: "authority_grammar v \<longleftrightarrow>
      (\<exists>host tail. v = host @ tail \<and> ip_literal host \<and> (tail = [] \<or> (\<exists>port. tail = 0x3a # port \<and> digits port)))"
    using bracketed by (auto simp: authority_grammar_def)
  obtain w where v: "v = 0x5b # w" using True by (cases v) auto
  show ?thesis
  proof (cases "0x5d \<in> set w")
    case False
    then have "position (\<lambda>b. b = 0x5d) v = None" by (auto simp: position_None v)
    then show ?thesis using False unfolding name by (auto simp: is_valid_authority_def v ip_literal_def)
  next
    case True
    then obtain c rest where w: "w = c @ 0x5d # rest" "0x5d \<notin> set c" by (meson split_list_first)
    then have "position (\<lambda>b. b = 0x5d) v = Some (length c + 1)"
      using position_at [of "0x5d" "0x5b # c" rest] by (simp add: v)
    then have "is_valid_authority v \<longleftrightarrow>
        is_valid_ip_literal_content c \<and> (rest = [] \<or> (\<exists>port. rest = 0x3a # port \<and> digits port))"
      by (cases rest) (auto simp: is_valid_authority_def v w list_all_digits)
    then show ?thesis unfolding name
      using ip_literal_at [of v c rest "\<lambda>tail. tail = [] \<or> (\<exists>port. tail = 0x3a # port \<and> digits port)"] v w
      by simp
  qed
next
  case False
  have g: "authority_grammar v \<longleftrightarrow> v \<noteq> [] \<and> (reg_name v \<or>
      (\<exists>host port. v = host @ 0x3a # port \<and> (host \<noteq> [] \<and> reg_name host) \<and> port \<noteq> [] \<and> digits port))"
    using False unbracketed by (auto simp: authority_grammar_def ip_literal_def)
  show ?thesis
  proof (cases "0x3a \<in> set v")
    case no: False
    then have "rposition (\<lambda>b. b = 0x3a) v = None" by (auto simp: rposition_None)
    then show ?thesis using False no unfolding g by (auto simp: is_valid_authority_def is_valid_reg_name)
  next
    case True
    then obtain us vs where w: "v = us @ 0x3a # vs" "0x3a \<notin> set vs" by (meson split_list_last)
    have "\<not> reg_name v" using reg_name_excludes [of v "0x3a"] True by auto
    moreover have "is_valid_authority v \<longleftrightarrow> (us \<noteq> [] \<and> reg_name us) \<and> vs \<noteq> [] \<and> digits vs \<or> reg_name v"
      using False rposition_at [OF w(2), of us] True \<open>\<not> reg_name v\<close>
      by (auto simp: is_valid_authority_def is_valid_reg_name list_all_digits w(1))
    moreover have "(\<exists>host port. v = host @ 0x3a # port \<and> (host \<noteq> [] \<and> reg_name host) \<and> port \<noteq> [] \<and> digits port) \<longleftrightarrow>
        (us \<noteq> [] \<and> reg_name us) \<and> vs \<noteq> [] \<and> digits vs"
      using w split_at_last [of us "0x3a" vs] digits_excludes by fastforce
    ultimately show ?thesis unfolding g using w by auto
  qed
qed

lemma is_valid_connect_authority_form: "is_valid_connect_authority v \<longleftrightarrow> authority_form v"
proof (cases "v \<noteq> [] \<and> v ! 0 = 0x5b")
  case True
  then have name: "authority_form v \<longleftrightarrow>
      (\<exists>host tail. v = host @ tail \<and> ip_literal host \<and> (\<exists>port. tail = 0x3a # port \<and> port \<noteq> [] \<and> digits port))"
    unfolding authority_form_def using bracketed(2) by blast
  obtain w where v: "v = 0x5b # w" using True by (cases v) auto
  show ?thesis
  proof (cases "0x5d \<in> set w")
    case False
    then have "position (\<lambda>b. b = 0x5d) v = None" by (auto simp: position_None v)
    then show ?thesis using False unfolding name by (auto simp: is_valid_connect_authority_def v ip_literal_def)
  next
    case True
    then obtain c rest where w: "w = c @ 0x5d # rest" "0x5d \<notin> set c" by (meson split_list_first)
    then have "position (\<lambda>b. b = 0x5d) v = Some (length c + 1)"
      using position_at [of "0x5d" "0x5b # c" rest] by (simp add: v)
    then have "is_valid_connect_authority v \<longleftrightarrow>
        is_valid_ip_literal_content c \<and> (\<exists>port. rest = 0x3a # port \<and> port \<noteq> [] \<and> digits port)"
      by (cases rest) (auto simp: is_valid_connect_authority_def v w list_all_digits nth_append)
    then show ?thesis unfolding name
      using ip_literal_at [of v c rest "\<lambda>tail. \<exists>port. tail = 0x3a # port \<and> port \<noteq> [] \<and> digits port"] v w
      by simp
  qed
next
  case False
  have g: "authority_form v \<longleftrightarrow>
      (\<exists>host port. v = host @ 0x3a # port \<and> (host \<noteq> [] \<and> reg_name host) \<and> port \<noteq> [] \<and> digits port)"
    using False unbracketed(2) by (auto simp: authority_form_def)
  show ?thesis
  proof (cases "0x3a \<in> set v")
    case no: False
    then have "rposition (\<lambda>b. b = 0x3a) v = None" by (auto simp: rposition_None)
    then show ?thesis using False no unfolding g by (auto simp: is_valid_connect_authority_def)
  next
    case True
    then obtain us vs where w: "v = us @ 0x3a # vs" "0x3a \<notin> set vs" by (meson split_list_last)
    then show ?thesis using False rposition_at [OF w(2), of us] split_at_last [of us "0x3a" vs] digits_excludes
      unfolding g by (auto simp: is_valid_connect_authority_def is_valid_reg_name list_all_digits)
  qed
qed

text \<open>No accepted authority contains user information.\<close>

lemma ip_literal_no_at: "is_valid_ip_literal_content c \<Longrightarrow> 0x40 \<notin> set c"
  by (cases c) (auto simp: is_valid_ip_literal_content_def list_all_iff is_ascii_hexdigit_def is_ascii_digit_def
      split: if_splits)

lemma authority_no_userinfo: "authority_grammar v \<Longrightarrow> 0x40 \<notin> set v"
  using reg_name_excludes [of _ "0x40"] digits_excludes [of _ "0x40"] ip_literal_no_at
  by (auto simp: authority_grammar_def ip_literal_def)

end
