(* ===== verification/Validation.thy ===== *)
theory Validation
  imports Uri_Syntax Streams Utf8
begin

text \<open>
  The rules for messages (\<^verbatim>\<open>src/validation.rs\<close>): the header sections of requests and responses,
  trailers, Content-Length and the size of a section.  \<open>request_grammar\<close> and \<open>response_grammar\<close> state
  declaratively which sections are well formed; every violation is the stream error
  H3_MESSAGE_ERROR.
\<close>

section \<open>Fields\<close>

abbreviation malformed :: h3_error where
  "malformed \<equiv> StreamError MessageError"

definition CONNECTION_SPECIFIC_FIELDS :: "bytes list" where
  "CONNECTION_SPECIFIC_FIELDS =
    [ascii ''connection'', ascii ''keep-alive'', ascii ''proxy-connection'', ascii ''transfer-encoding'',
     ascii ''upgrade'']"

definition is_valid_field_name_byte :: "u8 \<Rightarrow> bool" where
  "is_valid_field_name_byte b \<longleftrightarrow>
    b \<in> {0x21, 0x23, 0x24, 0x25, 0x26, 0x27, 0x2a, 0x2b, 0x2d, 0x2e, 0x5e, 0x5f, 0x60, 0x7c, 0x7e} \<or>
    (0x30 \<le> b \<and> b \<le> 0x39) \<or> (0x61 \<le> b \<and> b \<le> 0x7a)"

definition is_valid_field_name :: "bytes \<Rightarrow> bool" where
  "is_valid_field_name name \<longleftrightarrow> name \<noteq> [] \<and> list_all is_valid_field_name_byte name"

definition is_valid_field_value :: "bytes \<Rightarrow> bool" where
  "is_valid_field_value v \<longleftrightarrow>
    (if v = [] then True
     else
       let is_field_vchar = (\<lambda>b. (0x21 \<le> b \<and> b \<le> 0x7e) \<or> (0x80 \<le> b \<and> b \<le> 0xff)) in
       if \<not> is_field_vchar (v ! 0) \<or> \<not> is_field_vchar (v ! (length v - 1)) then False
       else list_all (\<lambda>b. is_field_vchar b \<or> b = 0x20 \<or> b = 0x09) v)"

definition starts_with :: "bytes \<Rightarrow> bytes \<Rightarrow> bool" where
  "starts_with v p \<longleftrightarrow> take (length p) v = p"

lemma is_valid_field_name_lower:
  "is_valid_field_name n \<longleftrightarrow> n \<noteq> [] \<and> (\<forall>b \<in> set n. is_lowercase_token_byte b)"
proof -
  have "is_valid_field_name_byte = is_lowercase_token_byte"
    by (auto simp: fun_eq_iff is_valid_field_name_byte_def is_lowercase_token_byte_def token_punctuation_def
        is_ascii_digit_def is_ascii_lowercase_def)
  then show ?thesis by (simp add: is_valid_field_name_def list_all_iff)
qed

lemma is_valid_field_value_grammar: "is_valid_field_value v \<longleftrightarrow> value_grammar v"
proof -
  have "(b :: u8) \<le> 0xff" for b by (simp add: word_le_nat_alt) (use unat_u8_lt [of b] in linarith)
  then have "(\<lambda>b :: u8. (0x21 \<le> b \<and> b \<le> 0x7e) \<or> (0x80 \<le> b \<and> b \<le> 0xff)) = is_field_vchar"
    by (auto simp: fun_eq_iff is_field_vchar_def)
  then show ?thesis
    by (auto simp: is_valid_field_value_def value_grammar_def list_all_iff hd_conv_nth last_conv_nth Let_def)
qed

section \<open>Requests\<close>

record request_fields =
  rf_method :: "bytes option"
  rf_scheme :: "bytes option"
  rf_path :: "bytes option"
  rf_authority :: "bytes option"
  rf_protocol :: "bytes option"
  rf_host :: "bytes option"
  rf_pseudo_done :: bool

definition request_fields_none :: request_fields where
  "request_fields_none =
    \<lparr>rf_method = None, rf_scheme = None, rf_path = None, rf_authority = None, rf_protocol = None,
     rf_host = None, rf_pseudo_done = False\<rparr>"

text \<open>The body of the loop over the fields.\<close>

definition request_field :: "request_fields \<Rightarrow> header \<Rightarrow> h3_error + request_fields" where
  "request_field f h =
    (if starts_with (h_name h) (ascii '':'') then
       if rf_pseudo_done f then Inl malformed
       else if \<not> is_valid_field_value (h_value h) then Inl malformed
       else if h_name h = ascii '':method'' then
         if rf_method f \<noteq> None then Inl malformed else Inr (f\<lparr>rf_method := Some (h_value h)\<rparr>)
       else if h_name h = ascii '':scheme'' then
         if rf_scheme f \<noteq> None then Inl malformed else Inr (f\<lparr>rf_scheme := Some (h_value h)\<rparr>)
       else if h_name h = ascii '':path'' then
         if rf_path f \<noteq> None then Inl malformed else Inr (f\<lparr>rf_path := Some (h_value h)\<rparr>)
       else if h_name h = ascii '':authority'' then
         if rf_authority f \<noteq> None then Inl malformed else Inr (f\<lparr>rf_authority := Some (h_value h)\<rparr>)
       else if h_name h = ascii '':protocol'' then
         if rf_protocol f \<noteq> None then Inl malformed else Inr (f\<lparr>rf_protocol := Some (h_value h)\<rparr>)
       else Inl malformed
     else
       let f = f\<lparr>rf_pseudo_done := True\<rparr> in
       if \<not> is_valid_field_name (h_name h) then Inl malformed
       else if h_name h \<in> set CONNECTION_SPECIFIC_FIELDS then Inl malformed
       else if h_name h = ascii ''te'' \<and> h_value h \<noteq> ascii ''trailers'' then Inl malformed
       else if \<not> is_valid_field_value (h_value h) then Inl malformed
       else if h_name h = ascii ''host'' then
         if rf_host f \<noteq> None then Inl malformed else Inr (f\<lparr>rf_host := Some (h_value h)\<rparr>)
       else Inr f)"

fun request_fields_of :: "request_fields \<Rightarrow> header list \<Rightarrow> h3_error + request_fields" where
  "request_fields_of f [] = Inr f"
| "request_fields_of f (h # hs) = bindR (request_field f h) (\<lambda>f. request_fields_of f hs)"

definition is_http_scheme :: "bytes option \<Rightarrow> bool" where
  "is_http_scheme scheme \<longleftrightarrow> is_some_and scheme (\<lambda>s. s = ascii ''http'' \<or> s = ascii ''https'')"

definition authority_differs :: "request_fields \<Rightarrow> bool" where
  "authority_differs f \<longleftrightarrow> is_some_and (rf_authority f) (\<lambda>a. is_some_and (rf_host f) (\<lambda>h. a \<noteq> h))"

text \<open>The three arms by the kind of request.\<close>

definition check_extended_connect :: "request_fields \<Rightarrow> bytes \<Rightarrow> h3_error + unit" where
  "check_extended_connect f meth =
    (if rf_scheme f = None \<or> rf_path f = None then Inl malformed
     else if is_some_and (rf_protocol f) (\<lambda>p. \<not> is_valid_protocol p) then Inl malformed
     else if is_some_and (rf_scheme f) (\<lambda>s. \<not> is_valid_scheme s) then Inl malformed
     else if is_some_and (rf_path f) (\<lambda>p. \<not> is_valid_http_path p meth) then Inl malformed
     else if is_http_scheme (rf_scheme f) \<and> rf_authority f = None \<and> rf_host f = None then Inl malformed
     else if authority_differs f then Inl malformed
     else if is_some_and (rf_authority f) (\<lambda>a. a = []) then Inl malformed
     else if is_some_and (rf_host f) (\<lambda>h. h = []) then Inl malformed
     else Inr ())"

definition check_plain_connect :: "request_fields \<Rightarrow> h3_error + unit" where
  "check_plain_connect f =
    (if rf_scheme f \<noteq> None \<or> rf_path f \<noteq> None then Inl malformed
     else
       case rf_authority f of
         None \<Rightarrow> Inl malformed
       | Some [] \<Rightarrow> Inl malformed
       | Some v \<Rightarrow> if \<not> is_valid_connect_authority v then Inl malformed else Inr ())"

definition check_ordinary :: "request_fields \<Rightarrow> bytes \<Rightarrow> h3_error + unit" where
  "check_ordinary f meth =
    (if rf_protocol f \<noteq> None then Inl malformed
     else if rf_scheme f = None \<or> rf_path f = None then Inl malformed
     else if is_some_and (rf_scheme f) (\<lambda>s. \<not> is_valid_scheme s) then Inl malformed
     else if is_some_and (rf_path f)
       (\<lambda>p. p = [] \<or> (is_http_scheme (rf_scheme f) \<and> \<not> is_valid_http_path p meth)) then Inl malformed
     else if is_http_scheme (rf_scheme f) \<and> rf_authority f = None \<and> rf_host f = None then Inl malformed
     else Inr ())"

text \<open>The checks behind the arms, on every request.\<close>

definition check_authority :: "request_fields \<Rightarrow> bytes \<Rightarrow> h3_error + unit" where
  "check_authority f meth =
    (if authority_differs f then Inl malformed
     else if is_some_and (rf_authority f) (\<lambda>a. a = [] \<and> meth \<noteq> ascii ''CONNECT'') then Inl malformed
     else if is_some_and (rf_host f) (\<lambda>h. h = []) then Inl malformed
     else if rf_authority f = None \<and> is_some_and (rf_host f) (\<lambda>h. \<not> is_valid_authority h) then Inl malformed
     else if is_http_scheme (rf_scheme f) \<and> is_some_and (rf_authority f) (\<lambda>a. 0x40 \<in> set a) then Inl malformed
     else if (meth \<noteq> ascii ''CONNECT'' \<or> rf_protocol f \<noteq> None) \<and>
       is_some_and (rf_authority f) (\<lambda>a. \<not> is_valid_authority a) then Inl malformed
     else Inr ())"

definition validate_request_headers :: "header list \<Rightarrow> h3_error + unit" where
  "validate_request_headers headers =
    bindR (request_fields_of request_fields_none headers) (\<lambda>f.
    bindR (ok_or (rf_method f) malformed) (\<lambda>meth.
    if \<not> is_valid_method meth then Inl malformed
    else
      bindR
        (if meth = ascii ''CONNECT'' \<and> rf_protocol f \<noteq> None then check_extended_connect f meth
         else if meth = ascii ''CONNECT'' then check_plain_connect f
         else check_ordinary f meth) (\<lambda>_.
      check_authority f meth)))"

section \<open>Responses and trailers\<close>

definition response_field :: "bytes option \<times> bool \<Rightarrow> header \<Rightarrow> h3_error + bytes option \<times> bool" where
  "response_field st h =
    (case st of (status, pseudo_done) \<Rightarrow>
      if starts_with (h_name h) (ascii '':'') then
        if pseudo_done then Inl malformed
        else if h_name h = ascii '':status'' then
          if status \<noteq> None then Inl malformed
          else if length (h_value h) \<noteq> 3 \<or> \<not> list_all is_ascii_digit (h_value h) then Inl malformed
          else if h_value h = ascii ''101'' then Inl malformed
          else Inr (Some (h_value h), pseudo_done)
        else Inl malformed
      else
        if \<not> is_valid_field_name (h_name h) then Inl malformed
        else if h_name h \<in> set CONNECTION_SPECIFIC_FIELDS then Inl malformed
        else if h_name h = ascii ''te'' then Inl malformed
        else if \<not> is_valid_field_value (h_value h) then Inl malformed
        else Inr (status, True))"

fun response_fields_of :: "bytes option \<times> bool \<Rightarrow> header list \<Rightarrow> h3_error + bytes option \<times> bool" where
  "response_fields_of st [] = Inr st"
| "response_fields_of st (h # hs) = bindR (response_field st h) (\<lambda>st. response_fields_of st hs)"

definition validate_response_headers :: "header list \<Rightarrow> h3_error + unit" where
  "validate_response_headers headers =
    bindR (response_fields_of (None, False) headers) (\<lambda>(status, _).
    bindR (ok_or status malformed) (\<lambda>_. Inr ()))"

fun validate_headers :: "header list \<Rightarrow> role \<Rightarrow> h3_error + unit" where
  "validate_headers headers Server = validate_request_headers headers"
| "validate_headers headers Client = validate_response_headers headers"

fun validate_trailer_headers :: "header list \<Rightarrow> h3_error + unit" where
  "validate_trailer_headers [] = Inr ()"
| "validate_trailer_headers (h # hs) =
    (if starts_with (h_name h) (ascii '':'') then Inl malformed
     else if \<not> is_valid_field_name (h_name h) then Inl malformed
     else if h_name h \<in> set CONNECTION_SPECIFIC_FIELDS then Inl malformed
     else if h_name h = ascii ''te'' then Inl malformed
     else if \<not> is_valid_field_value (h_value h) then Inl malformed
     else validate_trailer_headers hs)"

section \<open>Content-Length and section size\<close>

text \<open>\<^verbatim>\<open>str::parse::<u64>\<close> of the standard library: an optional plus sign, then digits, all checked.\<close>

fun parse_digits :: "nat \<Rightarrow> bytes \<Rightarrow> nat option" where
  "parse_digits n [] = Some n"
| "parse_digits n (b # bs) =
    (if \<not> is_ascii_digit b then None
     else Option.bind (checked_mul n 10) (\<lambda>n. Option.bind (checked_add n (unat b - 0x30)) (\<lambda>n. parse_digits n bs)))"

definition parse_u64 :: "bytes \<Rightarrow> u64 option" where
  "parse_u64 v =
    (if v = [] then None
     else if v ! 0 = 0x2b then if drop 1 v = [] then None else parse_digits 0 (drop 1 v)
     else parse_digits 0 v)"

definition content_length_field :: "u64 option \<Rightarrow> header \<Rightarrow> h3_error + u64 option" where
  "content_length_field content_length h =
    (if h_name h \<noteq> ascii ''content-length'' then Inr content_length
     else if content_length \<noteq> None then Inl malformed
     else if \<not> utf8_valid (h_value h) then Inl malformed
     else if \<not> list_all is_ascii_digit (h_value h) then Inl malformed
     else bindR (ok_or (parse_u64 (h_value h)) malformed) (\<lambda>v. Inr (Some v)))"

fun content_length_of :: "u64 option \<Rightarrow> header list \<Rightarrow> h3_error + u64 option" where
  "content_length_of n [] = Inr n"
| "content_length_of n (h # hs) = bindR (content_length_field n h) (\<lambda>n. content_length_of n hs)"

definition validate_content_length :: "header list \<Rightarrow> u64 \<Rightarrow> bool \<Rightarrow> h3_error + unit" where
  "validate_content_length headers received_body_size skip_body_check =
    bindR (content_length_of None headers) (\<lambda>content_length.
    case content_length of
      None \<Rightarrow> Inr ()
    | Some expected \<Rightarrow>
        if skip_body_check then Inr ()
        else if expected \<noteq> received_body_size then Inl malformed
        else Inr ())"

text \<open>
  The sum of the sizes; a section in memory is far below \<open>2^64\<close> bytes, so that the sum of the source
  cannot overflow.
\<close>

definition calculate_field_section_size :: "header list \<Rightarrow> u64" where
  "calculate_field_section_size headers = sum_list (map header_size headers)"

definition check_field_section_size :: "header list \<Rightarrow> u64 option \<Rightarrow> h3_error + unit" where
  "check_field_section_size headers peer_max =
    (case peer_max of
       Some max_size \<Rightarrow>
         if max_size < calculate_field_section_size headers then Inl (ConnectionError InternalError) else Inr ()
     | None \<Rightarrow> Inr ())"

section \<open>Well-formed sections\<close>

definition is_pseudo :: "header \<Rightarrow> bool" where
  "is_pseudo h \<longleftrightarrow> (\<exists>n. h_name h = 0x3a # n)"

definition regular_field :: "header \<Rightarrow> bool" where
  "regular_field h \<longleftrightarrow>
    h_name h \<noteq> [] \<and> (\<forall>b \<in> set (h_name h). is_lowercase_token_byte b) \<and>
    h_name h \<notin> set CONNECTION_SPECIFIC_FIELDS \<and> value_grammar (h_value h)"

definition lookup :: "header list \<Rightarrow> bytes \<Rightarrow> bytes option" where
  "lookup hs = map_of (map (\<lambda>h. (h_name h, h_value h)) hs)"

text \<open>Pseudo headers first and each at most once, then regular fields, with at most one Host.\<close>

definition request_section :: "header list \<Rightarrow> bool" where
  "request_section hs \<longleftrightarrow>
    (\<exists>ps rs. hs = ps @ rs \<and> distinct (map h_name ps) \<and>
      (\<forall>h \<in> set ps. h_name h \<in> {ascii '':method'', ascii '':scheme'', ascii '':path'', ascii '':authority'',
        ascii '':protocol''} \<and> value_grammar (h_value h)) \<and>
      (\<forall>h \<in> set rs. regular_field h \<and> (h_name h = ascii ''te'' \<longrightarrow> h_value h = ascii ''trailers'')) \<and>
      distinct (filter (\<lambda>n. n = ascii ''host'') (map h_name rs)))"

text \<open>
  The target of a request.  A plain CONNECT names an authority with a port and nothing else; any
  other request has a scheme and a path, and an authority where the scheme demands one; an extended
  CONNECT also has a protocol.
\<close>

definition target_grammar :: "(bytes \<Rightarrow> bytes option) \<Rightarrow> bool" where
  "target_grammar m \<longleftrightarrow>
    (\<exists>meth. m (ascii '':method'') = Some meth \<and> token meth \<and>
      (\<forall>a h. m (ascii '':authority'') = Some a \<and> m (ascii ''host'') = Some h \<longrightarrow> a = h) \<and>
      (if meth = ascii ''CONNECT'' \<and> m (ascii '':protocol'') = None then
         m (ascii '':scheme'') = None \<and> m (ascii '':path'') = None \<and>
         (\<exists>a. m (ascii '':authority'') = Some a \<and> authority_form a)
       else
         (\<forall>p. m (ascii '':protocol'') = Some p \<longrightarrow> meth = ascii ''CONNECT'' \<and> upgrade_token p) \<and>
         (\<forall>a. m (ascii '':authority'') = Some a \<or> m (ascii ''host'') = Some a \<longrightarrow> authority_grammar a) \<and>
         (\<exists>s p. m (ascii '':scheme'') = Some s \<and> m (ascii '':path'') = Some p \<and> scheme_grammar s \<and> p \<noteq> [] \<and>
           (s \<in> {ascii ''http'', ascii ''https''} \<longrightarrow>
             m (ascii '':authority'') \<noteq> None \<or> m (ascii ''host'') \<noteq> None) \<and>
           (s \<in> {ascii ''http'', ascii ''https''} \<or> m (ascii '':protocol'') \<noteq> None \<longrightarrow> path_grammar meth p))))"

definition request_grammar :: "header list \<Rightarrow> bool" where
  "request_grammar hs \<longleftrightarrow> request_section hs \<and> target_grammar (lookup hs)"

definition response_grammar :: "header list \<Rightarrow> bool" where
  "response_grammar hs \<longleftrightarrow>
    (\<exists>s rs. hs = s # rs \<and> h_name s = ascii '':status'' \<and> status_grammar (h_value s) \<and>
      h_value s \<noteq> ascii ''101'' \<and> (\<forall>h \<in> set rs. regular_field h \<and> h_name h \<noteq> ascii ''te''))"

definition regular_section :: "header list \<Rightarrow> bool" where
  "regular_section hs \<longleftrightarrow> (\<forall>h \<in> set hs. regular_field h \<and> h_name h \<noteq> ascii ''te'')"

lemma starts_with_colon: "starts_with (h_name h) (ascii '':'') \<longleftrightarrow> is_pseudo h"
  by (cases "h_name h") (auto simp: starts_with_def is_pseudo_def ascii_def)

lemma regular_field_checks:
  "regular_field h \<longleftrightarrow> is_valid_field_name (h_name h) \<and> h_name h \<notin> set CONNECTION_SPECIFIC_FIELDS \<and>
    is_valid_field_value (h_value h)"
  by (auto simp: regular_field_def is_valid_field_name_lower is_valid_field_value_grammar)

lemma regular_not_pseudo: "regular_field h \<Longrightarrow> \<not> is_pseudo h"
  using colon_not_token by (auto simp: regular_field_def is_pseudo_def)

lemma lookup_snoc:
  "lookup (hs @ [h]) k = (if lookup hs k = None \<and> k = h_name h then Some (h_value h) else lookup hs k)"
  by (auto simp: lookup_def map_add_def split: option.splits)

lemma lookup_None: "lookup hs k = None \<longleftrightarrow> k \<notin> h_name ` set hs"
  by (simp add: lookup_def map_of_eq_None_iff image_image)

lemma lookup_Nil [simp]: "lookup [] k = None" by (simp add: lookup_def)

lemma request_section_Nil [simp]: "request_section []"
  by (simp add: request_section_def)

lemma distinct_filter_eq: "distinct (filter (\<lambda>n. n = k) (ns @ [m])) \<longleftrightarrow>
    distinct (filter (\<lambda>n. n = k) ns) \<and> (m = k \<longrightarrow> k \<notin> set ns)"
  by auto

lemma request_section_snoc:
  "request_section (hs @ [h]) \<longleftrightarrow> request_section hs \<and>
    (if is_pseudo h then
       (\<forall>h' \<in> set hs. is_pseudo h') \<and> value_grammar (h_value h) \<and> lookup hs (h_name h) = None \<and>
       h_name h \<in> {ascii '':method'', ascii '':scheme'', ascii '':path'', ascii '':authority'', ascii '':protocol''}
     else
       regular_field h \<and> (h_name h = ascii ''te'' \<longrightarrow> h_value h = ascii ''trailers'') \<and>
       (h_name h = ascii ''host'' \<longrightarrow> lookup hs (ascii ''host'') = None))" (is "?L \<longleftrightarrow> request_section hs \<and> ?R")
proof -
  let ?pn = "{ascii '':method'', ascii '':scheme'', ascii '':path'', ascii '':authority'', ascii '':protocol''}"
  let ?P = "\<lambda>ps. distinct (map h_name ps) \<and> (\<forall>h \<in> set ps. h_name h \<in> ?pn \<and> value_grammar (h_value h))"
  let ?Q = "\<lambda>rs. (\<forall>h \<in> set rs. regular_field h \<and> (h_name h = ascii ''te'' \<longrightarrow> h_value h = ascii ''trailers'')) \<and>
    distinct (filter (\<lambda>n. n = ascii ''host'') (map h_name rs))"
  have sec: "request_section xs \<longleftrightarrow> (\<exists>ps rs. xs = ps @ rs \<and> ?P ps \<and> ?Q rs)" for xs
    unfolding request_section_def by blast
  have pseudo: "is_pseudo h" if "h_name h \<in> ?pn" for h using that by (auto simp: is_pseudo_def ascii_def)
  have no_host: "ascii ''host'' \<notin> h_name ` set ps" if "?P ps" for ps
    using that by (fastforce simp: ascii_inject)
  show ?thesis
  proof (cases "is_pseudo h")
    case True
    have "?L \<longleftrightarrow> ?P (hs @ [h])"
    proof
      assume ?L
      then obtain ps rs where x: "hs @ [h] = ps @ rs" "?P ps" "?Q rs" unfolding sec by blast
      have "rs = []"
      proof (rule ccontr)
        assume "rs \<noteq> []"
        then have "h \<in> set rs" using x(1) by (metis last_appendR last_in_set last_snoc)
        then show False using x(3) True regular_not_pseudo by blast
      qed
      with x show "?P (hs @ [h])" by simp
    next
      assume "?P (hs @ [h])"
      then show ?L unfolding sec by (intro exI [of _ "hs @ [h]"] exI [of _ "[]"]) simp
    qed
    moreover have "request_section hs \<and> (\<forall>h' \<in> set hs. is_pseudo h') \<longleftrightarrow> ?P hs"
    proof
      assume a: "request_section hs \<and> (\<forall>h' \<in> set hs. is_pseudo h')"
      then obtain ps rs where x: "hs = ps @ rs" "?P ps" "?Q rs" unfolding sec by blast
      with a regular_not_pseudo have "rs = []" by (cases rs) auto
      with x show "?P hs" by simp
    next
      assume "?P hs"
      then show "request_section hs \<and> (\<forall>h' \<in> set hs. is_pseudo h')" unfolding sec using pseudo
        by (intro conjI exI [of _ hs] exI [of _ "[]"]) auto
    qed
    ultimately show ?thesis using True by (auto simp: lookup_None)
  next
    case False
    show ?thesis
    proof
      assume ?L
      then obtain ps rs where x: "hs @ [h] = ps @ rs" "?P ps" "?Q rs" unfolding sec by blast
      have "rs \<noteq> []" using x False pseudo by (metis append_Nil2 in_set_conv_decomp)
      then obtain rs' where rs: "rs = rs' @ [h]" "hs = ps @ rs'" using x(1) by (cases rs rule: rev_cases) auto
      then show "request_section hs \<and> ?R" unfolding sec using x False no_host [OF x(2)]
        by (auto simp: lookup_None)
    next
      assume a: "request_section hs \<and> ?R"
      then obtain ps rs where x: "hs = ps @ rs" "?P ps" "?Q rs" unfolding sec by blast
      with a False have "?Q (rs @ [h])" by (auto simp: lookup_None)
      with x show ?L unfolding sec by (intro exI [of _ ps] exI [of _ "rs @ [h]"]) simp
    qed
  qed
qed

section \<open>The loop collects the section\<close>

definition collected :: "header list \<Rightarrow> request_fields" where
  "collected hs =
    \<lparr>rf_method = lookup hs (ascii '':method''), rf_scheme = lookup hs (ascii '':scheme''),
     rf_path = lookup hs (ascii '':path''), rf_authority = lookup hs (ascii '':authority''),
     rf_protocol = lookup hs (ascii '':protocol''), rf_host = lookup hs (ascii ''host''),
     rf_pseudo_done = (\<exists>h \<in> set hs. \<not> is_pseudo h)\<rparr>"

lemma request_fields_of_append:
  "request_fields_of f (hs @ hs') = bindR (request_fields_of f hs) (\<lambda>f. request_fields_of f hs')"
  by (induction hs arbitrary: f) (auto simp: bindR_def split: sum.splits)

lemma request_field_collected:
  assumes "request_section hs"
  shows "request_field (collected hs) h =
    (if request_section (hs @ [h]) then Inr (collected (hs @ [h])) else Inl malformed)"
proof (cases "is_pseudo h")
  case True
  then have "h_name h \<noteq> ascii ''host''" by (auto simp: is_pseudo_def ascii_def)
  then show ?thesis using assms True
    by (auto simp: request_field_def starts_with_colon collected_def request_section_snoc lookup_snoc
        is_valid_field_value_grammar ascii_inject)
next
  case False
  then have "h_name h \<notin> {ascii '':method'', ascii '':scheme'', ascii '':path'', ascii '':authority'',
      ascii '':protocol''}" by (auto simp: is_pseudo_def ascii_def)
  then show ?thesis using assms False
    by (auto simp: request_field_def starts_with_colon collected_def request_section_snoc lookup_snoc
        regular_field_checks ascii_inject Let_def)
qed

lemma request_fields_of_collected:
  "request_fields_of request_fields_none hs =
    (if request_section hs then Inr (collected hs) else Inl malformed)"
proof (induction hs rule: rev_induct)
  case Nil
  then show ?case by (simp add: request_fields_none_def collected_def)
next
  case (snoc h hs)
  then show ?case using request_field_collected [of hs h] request_section_snoc [of hs h]
    by (auto simp: request_fields_of_append)
qed

section \<open>Requests\<close>

lemma authority_form_nonempty: "authority_form a \<Longrightarrow> a \<noteq> []"
  by (auto simp: authority_form_def)

lemma authority_grammar_nonempty: "authority_grammar a \<Longrightarrow> a \<noteq> []"
  by (auto simp: authority_grammar_def ip_literal_def)

lemma path_grammar_nonempty: "path_grammar meth p \<Longrightarrow> p \<noteq> []"
  by (auto simp: path_grammar_def ascii_def)

lemmas validity_checks =
  is_valid_method_token is_valid_scheme_grammar is_valid_protocol_grammar is_valid_http_path_grammar
  is_valid_authority_grammar is_valid_connect_authority_form

lemma check_plain_connect_form:
  "check_plain_connect f = (if rf_scheme f = None \<and> rf_path f = None \<and> (\<exists>a. rf_authority f = Some a \<and> authority_form a)
     then Inr () else Inl malformed)"
  using authority_form_nonempty
  by (auto simp: check_plain_connect_def validity_checks split: option.splits list.splits)

lemma check_results:
  "check_extended_connect f meth \<in> {Inr (), Inl malformed}" "check_ordinary f meth \<in> {Inr (), Inl malformed}"
  "check_authority f meth \<in> {Inr (), Inl malformed}"
  by (simp_all add: check_extended_connect_def check_ordinary_def check_authority_def)

lemma check_extended_connect_ok:
  "check_extended_connect f meth = Inr () \<longleftrightarrow>
    (\<exists>s p. rf_scheme f = Some s \<and> rf_path f = Some p \<and> scheme_grammar s \<and> path_grammar meth p \<and>
      (s \<in> {ascii ''http'', ascii ''https''} \<longrightarrow> rf_authority f \<noteq> None \<or> rf_host f \<noteq> None)) \<and>
    (\<forall>p. rf_protocol f = Some p \<longrightarrow> upgrade_token p) \<and>
    (\<forall>a h. rf_authority f = Some a \<and> rf_host f = Some h \<longrightarrow> a = h) \<and>
    rf_authority f \<noteq> Some [] \<and> rf_host f \<noteq> Some []"
  by (auto simp: check_extended_connect_def validity_checks is_http_scheme_def authority_differs_def
      is_some_and_def split: option.splits)

lemma check_ordinary_ok:
  "check_ordinary f meth = Inr () \<longleftrightarrow> rf_protocol f = None \<and>
    (\<exists>s p. rf_scheme f = Some s \<and> rf_path f = Some p \<and> scheme_grammar s \<and> p \<noteq> [] \<and>
      (s \<in> {ascii ''http'', ascii ''https''} \<longrightarrow>
        path_grammar meth p \<and> (rf_authority f \<noteq> None \<or> rf_host f \<noteq> None)))"
  by (auto simp: check_ordinary_def validity_checks is_http_scheme_def is_some_and_def split: option.splits)

lemma check_authority_ok:
  "check_authority f meth = Inr () \<longleftrightarrow>
    (\<forall>a h. rf_authority f = Some a \<and> rf_host f = Some h \<longrightarrow> a = h) \<and> rf_host f \<noteq> Some [] \<and>
    (\<forall>a. rf_authority f = Some a \<longrightarrow>
      (meth \<noteq> ascii ''CONNECT'' \<or> rf_protocol f \<noteq> None \<longrightarrow> authority_grammar a) \<and>
      (is_http_scheme (rf_scheme f) \<longrightarrow> 0x40 \<notin> set a)) \<and>
    (\<forall>h. rf_authority f = None \<and> rf_host f = Some h \<longrightarrow> authority_grammar h)"
  using authority_grammar_nonempty
  by (auto simp: check_authority_def validity_checks authority_differs_def is_some_and_def split: option.splits)

lemma target_checks:
  assumes f: "f = collected hs" and m: "rf_method f = Some meth" "token meth"
  shows "bindR
      (if meth = ascii ''CONNECT'' \<and> rf_protocol f \<noteq> None then check_extended_connect f meth
       else if meth = ascii ''CONNECT'' then check_plain_connect f
       else check_ordinary f meth) (\<lambda>_. check_authority f meth) =
    (if target_grammar (lookup hs) then Inr () else Inl malformed)" (is "bindR ?c _ = _")
proof -
  have c: "?c \<in> {Inr (), Inl malformed}" using check_results [of f meth] by (auto simp: check_plain_connect_form)
  then have "bindR ?c (\<lambda>_. check_authority f meth) =
      (if ?c = Inr () \<and> check_authority f meth = Inr () then Inr () else Inl malformed)"
    using check_results(3) [of f meth] by auto
  moreover have "?c = Inr () \<and> check_authority f meth = Inr () \<longleftrightarrow> target_grammar (lookup hs)"
  proof -
    have fields: "rf_method f = lookup hs (ascii '':method'')" "rf_scheme f = lookup hs (ascii '':scheme'')"
      "rf_path f = lookup hs (ascii '':path'')" "rf_authority f = lookup hs (ascii '':authority'')"
      "rf_protocol f = lookup hs (ascii '':protocol'')" "rf_host f = lookup hs (ascii ''host'')"
      by (simp_all add: f collected_def)
    have t: "target_grammar (lookup hs) \<longleftrightarrow>
      (\<forall>a h. rf_authority f = Some a \<and> rf_host f = Some h \<longrightarrow> a = h) \<and>
      (if meth = ascii ''CONNECT'' \<and> rf_protocol f = None then
         rf_scheme f = None \<and> rf_path f = None \<and> (\<exists>a. rf_authority f = Some a \<and> authority_form a)
       else
         (\<forall>p. rf_protocol f = Some p \<longrightarrow> meth = ascii ''CONNECT'' \<and> upgrade_token p) \<and>
         (\<forall>a. rf_authority f = Some a \<or> rf_host f = Some a \<longrightarrow> authority_grammar a) \<and>
         (\<exists>s p. rf_scheme f = Some s \<and> rf_path f = Some p \<and> scheme_grammar s \<and> p \<noteq> [] \<and>
           (s \<in> {ascii ''http'', ascii ''https''} \<longrightarrow> rf_authority f \<noteq> None \<or> rf_host f \<noteq> None) \<and>
           (s \<in> {ascii ''http'', ascii ''https''} \<or> rf_protocol f \<noteq> None \<longrightarrow> path_grammar meth p)))"
      using m unfolding target_grammar_def fields by simp
    consider (plain) "meth = ascii ''CONNECT''" "rf_protocol f = None"
      | (extended) p where "meth = ascii ''CONNECT''" "rf_protocol f = Some p"
      | (ordinary) "meth \<noteq> ascii ''CONNECT''" by (cases "rf_protocol f") auto
    then show ?thesis
    proof cases
      case plain
      then show ?thesis unfolding t
        by (auto simp: check_plain_connect_form check_authority_ok is_http_scheme_def dest: authority_form_nonempty)
    next
      case extended
      then show ?thesis unfolding t
        by (auto simp: check_extended_connect_ok check_authority_ok
            dest: authority_grammar_nonempty path_grammar_nonempty authority_no_userinfo)
    next
      case ordinary
      then show ?thesis unfolding t
        by (auto simp: check_ordinary_ok check_authority_ok
            dest: authority_grammar_nonempty authority_no_userinfo)
    qed
  qed
  ultimately show ?thesis by simp
qed

lemma validate_request_eq:
  "validate_request_headers hs = (if request_grammar hs then Inr () else Inl malformed)"
proof (cases "request_section hs")
  case True
  then have v: "validate_request_headers hs =
      bindR (ok_or (rf_method (collected hs)) malformed) (\<lambda>meth.
        if \<not> is_valid_method meth then Inl malformed
        else bindR
        (if meth = ascii ''CONNECT'' \<and> rf_protocol (collected hs) \<noteq> None then check_extended_connect (collected hs) meth
         else if meth = ascii ''CONNECT'' then check_plain_connect (collected hs)
         else check_ordinary (collected hs) meth) (\<lambda>_. check_authority (collected hs) meth))"
    by (simp add: validate_request_headers_def request_fields_of_collected)
  show ?thesis
  proof (cases "\<exists>meth. rf_method (collected hs) = Some meth \<and> token meth")
    case t: True
    then obtain meth where m: "rf_method (collected hs) = Some meth" "token meth" by blast
    show ?thesis unfolding v using target_checks [OF refl m] True m
      by (simp add: is_valid_method_token request_grammar_def)
  next
    case False
    then have "\<not> target_grammar (lookup hs)" by (auto simp: target_grammar_def collected_def)
    then show ?thesis using False unfolding v
      by (cases "rf_method (collected hs)") (auto simp: is_valid_method_token request_grammar_def)
  qed
next
  case False
  then show ?thesis
    by (simp add: validate_request_headers_def request_fields_of_collected request_grammar_def)
qed

text \<open>
  C16: A request is accepted exactly when its header section is well formed: pseudo headers first,
  each at most once and each known, then regular fields that are lowercase tokens, not specific to a
  connection, with clean values and at most one Host; and a target of one of the three kinds (plain
  CONNECT, extended CONNECT, any other method), whose scheme, path and authority follow the grammars
  of RFC 3986 and agree with the Host field.  Everything else is the error H3_MESSAGE_ERROR.
\<close>

theorem request_validation_grammar:
  "validate_request_headers hs = (if request_grammar hs then Inr () else Inl malformed)"
  by (rule validate_request_eq)

section \<open>Responses and trailers\<close>

lemma response_field_regular:
  "response_field (st, d) h =
    (if is_pseudo h then
       if \<not> d \<and> h_name h = ascii '':status'' \<and> st = None \<and> status_grammar (h_value h) \<and> h_value h \<noteq> ascii ''101''
       then Inr (Some (h_value h), d) else Inl malformed
     else if regular_field h \<and> h_name h \<noteq> ascii ''te'' then Inr (st, True) else Inl malformed)"
  by (auto simp: response_field_def starts_with_colon regular_field_checks status_grammar_def list_all_iff)

lemma response_fields_of_regular:
  "response_fields_of (st, d) hs =
    (if \<forall>h \<in> set hs. regular_field h \<and> h_name h \<noteq> ascii ''te'' then Inr (st, d \<or> hs \<noteq> []) else Inl malformed)"
  if "d \<or> st \<noteq> None"
  using that
proof (induction hs arbitrary: d)
  case (Cons h hs)
  then show ?case using regular_not_pseudo [of h] by (auto simp: response_field_regular)
qed simp

lemma response_fields_regular_only:
  "\<forall>h \<in> set hs. regular_field h \<and> h_name h \<noteq> ascii ''te'' \<Longrightarrow> response_fields_of (None, False) hs = Inr (None, hs \<noteq> [])"
  using response_fields_of_regular [of True None "tl hs"] regular_not_pseudo
  by (cases hs) (auto simp: response_field_regular)

lemma validate_trailer_eq:
  "validate_trailer_headers hs =
     (if \<forall>h \<in> set hs. regular_field h \<and> h_name h \<noteq> ascii ''te'' then Inr () else Inl malformed)"
  using regular_not_pseudo by (induction hs) (auto simp: starts_with_colon regular_field_checks)

lemma validate_response_eq:
  "validate_response_headers hs = (if response_grammar hs then Inr () else Inl malformed)"
proof (cases hs)
  case Nil
  then show ?thesis by (simp add: validate_response_headers_def response_grammar_def)
next
  case (Cons h rs)
  have name: "is_pseudo h" if "h_name h = ascii '':status''" using that by (auto simp: is_pseudo_def ascii_def)
  show ?thesis
  proof (cases "is_pseudo h")
    case True
    then show ?thesis using name response_fields_of_regular [of False "Some (h_value h)" rs]
      by (auto simp: Cons validate_response_headers_def response_grammar_def response_field_regular)
  next
    case False
    then show ?thesis using name response_fields_of_regular [of True None rs]
      by (auto simp: Cons validate_response_headers_def response_grammar_def response_field_regular)
  qed
qed

text \<open>
  A response is accepted exactly when its section is one \<open>:status\<close> of three digits other than
  101, followed by regular fields without TE.  Everything else is H3_MESSAGE_ERROR, and trailers are
  accepted exactly when they are such regular fields.
\<close>

theorem response_validation_grammar:
  "validate_response_headers hs = (if response_grammar hs then Inr () else Inl malformed) \<and>
   validate_trailer_headers hs = (if regular_section hs then Inr () else Inl malformed)"
  by (simp only: validate_response_eq validate_trailer_eq regular_section_def conj_absorb simp_thms)

section \<open>Agreement with the construction of fields\<close>

lemma regular_grammar: "regular_field h \<Longrightarrow> field_grammar (h_name h) (h_value h)"
  by (simp add: regular_field_def field_grammar_def)

lemma digits_value: "status_grammar v \<Longrightarrow> value_grammar v"
proof -
  have d: "is_ascii_digit b \<Longrightarrow> is_field_vchar b" for b
    by (auto simp: is_ascii_digit_def is_field_vchar_def word_le_nat_alt)
  assume "status_grammar v"
  then have "v \<noteq> []" "\<forall>b \<in> set v. is_field_vchar b" using d by (auto simp: status_grammar_def)
  then show ?thesis by (auto simp: value_grammar_def)
qed

lemma pseudo_fields:
  assumes "request_section hs" "h \<in> set hs" "is_pseudo h"
  shows "lookup hs (h_name h) = Some (h_value h) \<and> value_grammar (h_value h) \<and>
    h_name h \<in> {ascii '':method'', ascii '':scheme'', ascii '':path'', ascii '':authority'', ascii '':protocol''}"
  using assms by (induction hs rule: rev_induct) (auto simp: request_section_snoc lookup_snoc)

lemma regular_fields:
  assumes "request_section hs" "h \<in> set hs" "\<not> is_pseudo h"
  shows "regular_field h"
  using assms by (induction hs rule: rev_induct) (auto simp: request_section_snoc)

lemma response_field_grammar:
  assumes "response_grammar hs" "h \<in> set hs"
  shows "field_grammar (h_name h) (h_value h)"
proof -
  from assms consider "h_name h = ascii '':status''" "status_grammar (h_value h)" | "regular_field h"
    by (auto simp: response_grammar_def)
  then show ?thesis
  proof cases
    case 1
    then show ?thesis using digits_value by (simp add: field_grammar_def)
  next
    case 2
    then show ?thesis by (rule regular_grammar)
  qed
qed

lemma request_field_grammar:
  assumes "request_grammar hs" "h \<in> set hs"
  shows "field_grammar (h_name h) (h_value h)"
proof (cases "is_pseudo h")
  case True
  from assms have g: "request_section hs" "target_grammar (lookup hs)" by (simp_all add: request_grammar_def)
  note p = pseudo_fields [OF g(1) assms(2) True]
  then have "h_name h = ascii '':method'' \<Longrightarrow> token (h_value h)"
    "h_name h = ascii '':scheme'' \<Longrightarrow> scheme_grammar (h_value h)"
    "h_name h = ascii '':protocol'' \<Longrightarrow> upgrade_token (h_value h)"
    using g(2) by (auto simp: target_grammar_def split: if_splits)
  with p show ?thesis unfolding field_grammar_def by blast
next
  case False
  with assms regular_fields show ?thesis by (auto simp: request_grammar_def intro: regular_grammar)
qed

text \<open>
  C32: What the validation of a received section lets through could also have been built by
  \<open>Header::new\<close>, whose checks the section skipped when it was decoded: every field of an accepted
  request, response or trailer section passes them unchanged.  For a regular field the two sets of
  checks are the same, but for the names specific to a connection.
\<close>

theorem validation_agrees_with_construction:
  assumes "h \<in> set hs"
  shows "(validate_headers hs role = Inr () \<or> validate_trailer_headers hs = Inr () \<longrightarrow>
      header_new (h_name h) (h_value h) = Inr (h\<lparr>never_indexed := False\<rparr>)) \<and>
    (\<not> is_pseudo h \<longrightarrow>
      (is_valid_field_name (h_name h) \<and> is_valid_field_value (h_value h) \<longleftrightarrow>
        header_new (h_name h) (h_value h) = Inr (h\<lparr>never_indexed := False\<rparr>)))"
proof -
  have new: "header_new (h_name h) (h_value h) = Inr (h\<lparr>never_indexed := False\<rparr>) \<longleftrightarrow>
      field_grammar (h_name h) (h_value h)"
    by (cases h) (simp add: header_new_Ok)
  have "field_grammar (h_name h) (h_value h)" if "validate_headers hs role = Inr ()"
    using that assms request_field_grammar response_field_grammar
    by (cases role) (auto simp: validate_request_eq validate_response_eq split: if_splits)
  moreover have "field_grammar (h_name h) (h_value h)" if "validate_trailer_headers hs = Inr ()"
    using that assms by (auto simp: validate_trailer_eq intro: regular_grammar split: if_splits)
  moreover have "is_valid_field_name (h_name h) \<and> is_valid_field_value (h_value h) \<longleftrightarrow>
      field_grammar (h_name h) (h_value h)" if "\<not> is_pseudo h"
    using that by (auto simp: is_valid_field_name_lower is_valid_field_value_grammar field_grammar_def
        is_pseudo_def ascii_def)
  ultimately show ?thesis unfolding new by blast
qed

theorem validation_agrees_with_construction_witness:
  "\<exists>h. header_new (ascii ''x-a'') (ascii ''1'') = Inr h"
proof -
  let ?h = "\<lparr>h_name = ascii ''x-a'', h_value = ascii ''1'', never_indexed = True\<rparr>"
  have "validate_trailer_headers [?h] = Inr ()"
    by (simp add: starts_with_def is_valid_field_name_def is_valid_field_name_byte_def is_valid_field_value_def
        CONNECTION_SPECIFIC_FIELDS_def ascii_def)
  then show ?thesis using validation_agrees_with_construction [of ?h "[?h]" Server] by auto
qed

section \<open>Content-Length\<close>

definition decimal :: "bytes \<Rightarrow> nat" where
  "decimal v = foldl (\<lambda>n b. n * 10 + (unat b - 0x30)) 0 v"

definition content_lengths :: "header list \<Rightarrow> bytes list" where
  "content_lengths hs = map h_value (filter (\<lambda>h. h_name h = ascii ''content-length'') hs)"

lemma foldl_decimal_ge: "n \<le> foldl (\<lambda>n b. n * 10 + (unat (b :: u8) - 0x30)) n v"
proof (induction v arbitrary: n)
  case (Cons b v)
  show ?case using Cons [of "n * 10 + (unat b - 0x30)"] by simp
qed simp

lemma parse_digits_decimal:
  assumes "digits v" "n \<le> u64_max"
  shows "parse_digits n v =
    (let m = foldl (\<lambda>n b. n * 10 + (unat b - 0x30)) n v in if m \<le> u64_max then Some m else None)"
  using assms
proof (induction v arbitrary: n)
  case (Cons b v)
  let ?n = "n * 10 + (unat b - 0x30)"
  note ge = foldl_decimal_ge [of ?n v]
  show ?case
  proof (cases "?n \<le> u64_max")
    case True
    then show ?thesis using Cons by (simp add: digits_def checked_mul_def checked_add_def)
  next
    case False
    then show ?thesis using Cons.prems ge by (auto simp: digits_def checked_mul_def checked_add_def Let_def)
  qed
qed simp

lemma digits_utf8: "digits v \<Longrightarrow> utf8_valid v"
proof (induction v)
  case (Cons b v)
  then have "b < 0x80" by (auto simp: digits_def is_ascii_digit_def word_le_nat_alt word_less_nat_alt)
  then show ?case using Cons by (subst utf8_valid.simps) (simp add: digits_def)
qed simp

lemma content_length_field_ok:
  "content_length_field n h =
    (if h_name h \<noteq> ascii ''content-length'' then Inr n
     else if n = None \<and> h_value h \<noteq> [] \<and> digits (h_value h) \<and> decimal (h_value h) \<le> u64_max
     then Inr (Some (decimal (h_value h))) else Inl malformed)"
proof (cases "h_value h \<noteq> [] \<and> digits (h_value h)")
  case True
  then have "h_value h ! 0 \<noteq> 0x2b" by (cases "h_value h") (auto simp: digits_def is_ascii_digit_def)
  then have "parse_u64 (h_value h) = (if decimal (h_value h) \<le> u64_max then Some (decimal (h_value h)) else None)"
    using True parse_digits_decimal [of "h_value h" 0] by (simp add: parse_u64_def decimal_def Let_def)
  then show ?thesis using True digits_utf8 by (simp add: content_length_field_def list_all_digits)
next
  case False
  then show ?thesis by (auto simp: content_length_field_def list_all_digits parse_u64_def)
qed

lemma content_length_of_ok:
  "content_length_of n hs =
    (case content_lengths hs of
       [] \<Rightarrow> Inr n
     | [v] \<Rightarrow> if n = None \<and> v \<noteq> [] \<and> digits v \<and> decimal v \<le> u64_max then Inr (Some (decimal v)) else Inl malformed
     | _ \<Rightarrow> Inl malformed)"
  by (induction hs arbitrary: n)
    (auto simp: content_lengths_def content_length_field_ok split: list.splits)

text \<open>
  C30: Content-Length is checked exactly: a section passes if it has no such field, or a single one
  that is a nonempty string of digits whose decimal value fits 64 bits and, unless the message is of a
  kind that has no body, equals the number of body bytes received.  In particular no value is accepted
  after an overflow, a sign or white space.
\<close>

theorem content_length_exact:
  "validate_content_length hs received skip =
    (if content_lengths hs = [] \<or>
       (\<exists>v. content_lengths hs = [v] \<and> v \<noteq> [] \<and> digits v \<and> decimal v < 2 ^ 64 \<and>
         (skip \<or> decimal v = received))
     then Inr () else Inl malformed)"
  by (auto simp: validate_content_length_def content_length_of_ok split: list.splits)

end
