(* ===== verification/Connect.thy ===== *)
theory Connect
  imports Sf_Parser Validation
begin

text \<open>
  The extended CONNECT of WebTransport (\<^verbatim>\<open>src/webtransport/connect/\<close>): draft versions and the
  SETTINGS each side sends for them (\<^verbatim>\<open>draft.rs\<close>, the rest of \<^verbatim>\<open>webtransport/settings.rs\<close>), the
  request (\<^verbatim>\<open>request.rs\<close>), the response (\<^verbatim>\<open>response.rs\<close>) and the capabilities of the transport
  (\<^verbatim>\<open>connect_error.rs\<close>).  The properties: a request survives its headers, the answer selects only
  what was offered, and the SETTINGS built for a draft version select that version.
\<close>

section \<open>Protocol tokens\<close>

definition PROTOCOL_WEBTRANSPORT_H3 :: bytes where
  "PROTOCOL_WEBTRANSPORT_H3 = ascii ''webtransport-h3''"

definition PROTOCOL_WEBTRANSPORT_DRAFT02 :: bytes where
  "PROTOCOL_WEBTRANSPORT_DRAFT02 = ascii ''webtransport''"

datatype protocol_token = WebTransportH3Token | WebTransportToken

fun token_as_str :: "protocol_token \<Rightarrow> bytes" where
  "token_as_str WebTransportH3Token = PROTOCOL_WEBTRANSPORT_H3"
| "token_as_str WebTransportToken = PROTOCOL_WEBTRANSPORT_DRAFT02"

definition token_from_bytes :: "bytes \<Rightarrow> protocol_token option" where
  "token_from_bytes v =
    (if v = PROTOCOL_WEBTRANSPORT_H3 then Some WebTransportH3Token
     else if v = PROTOCOL_WEBTRANSPORT_DRAFT02 then Some WebTransportToken
     else None)"

fun token_from_draft_version :: "draft_version \<Rightarrow> protocol_token" where
  "token_from_draft_version Draft02 = WebTransportToken"
| "token_from_draft_version Draft07 = WebTransportToken"
| "token_from_draft_version Draft14 = WebTransportToken"
| "token_from_draft_version Draft15 = WebTransportH3Token"
| "token_from_draft_version Draft17 = WebTransportH3Token"

definition protocol_value :: "draft_version \<Rightarrow> bytes" where
  "protocol_value v = token_as_str (token_from_draft_version v)"

section \<open>SETTINGS of a draft version\<close>

record server_settings_params =
  sp_max_sessions :: varint
  sp_initial_max_streams_uni :: varint
  sp_initial_max_streams_bidi :: varint
  sp_initial_max_data :: varint

definition server_settings_params_default :: server_settings_params where
  "server_settings_params_default =
    \<lparr>sp_max_sessions = varint_from_static 1, sp_initial_max_streams_uni = varint_from_static 100,
     sp_initial_max_streams_bidi = varint_from_static 100,
     sp_initial_max_data = varint_from_static (8 * 1024 * 1024)\<rparr>"

definition set_wt_enabled :: "wt_settings \<Rightarrow> varint \<Rightarrow> wt_settings" where
  "set_wt_enabled s v = s\<lparr>wt_enabled := v\<rparr>"

definition set_wt_enabled_draft17 :: "wt_settings \<Rightarrow> varint \<Rightarrow> wt_settings" where
  "set_wt_enabled_draft17 s v = s\<lparr>wt_enabled_draft17 := v\<rparr>"

definition set_wt_initial_max_streams_uni :: "wt_settings \<Rightarrow> varint \<Rightarrow> wt_settings" where
  "set_wt_initial_max_streams_uni s v = s\<lparr>wt_initial_max_streams_uni := v\<rparr>"

definition set_wt_initial_max_streams_bidi :: "wt_settings \<Rightarrow> varint \<Rightarrow> wt_settings" where
  "set_wt_initial_max_streams_bidi s v = s\<lparr>wt_initial_max_streams_bidi := v\<rparr>"

definition set_wt_initial_max_data :: "wt_settings \<Rightarrow> varint \<Rightarrow> wt_settings" where
  "set_wt_initial_max_data s v = s\<lparr>wt_initial_max_data := v\<rparr>"

definition set_enable_webtransport_draft02 :: "wt_settings \<Rightarrow> bool \<Rightarrow> wt_settings" where
  "set_enable_webtransport_draft02 s v = s\<lparr>enable_webtransport_draft02 := Some v\<rparr>"

definition set_webtransport_max_sessions_draft07 :: "wt_settings \<Rightarrow> varint \<Rightarrow> wt_settings" where
  "set_webtransport_max_sessions_draft07 s v = s\<lparr>webtransport_max_sessions_draft07 := Some v\<rparr>"

definition set_wt_max_sessions_draft14 :: "wt_settings \<Rightarrow> varint \<Rightarrow> wt_settings" where
  "set_wt_max_sessions_draft14 s v = s\<lparr>wt_max_sessions_draft14 := Some v\<rparr>"

definition with_initial_limits :: "wt_settings \<Rightarrow> server_settings_params \<Rightarrow> wt_settings" where
  "with_initial_limits s params =
    set_wt_initial_max_data
      (set_wt_initial_max_streams_bidi
        (set_wt_initial_max_streams_uni s (sp_initial_max_streams_uni params))
        (sp_initial_max_streams_bidi params))
      (sp_initial_max_data params)"

fun build_server_settings :: "draft_version \<Rightarrow> server_settings_params \<Rightarrow> wt_settings" where
  "build_server_settings Draft17 params =
    with_initial_limits (set_wt_enabled_draft17 wt_settings_new (varint_from_static 1)) params"
| "build_server_settings Draft15 params =
    with_initial_limits (set_wt_enabled wt_settings_new (varint_from_static 1)) params"
| "build_server_settings Draft14 params =
    set_webtransport_max_sessions_draft07
      (set_wt_max_sessions_draft14 wt_settings_new (sp_max_sessions params)) (sp_max_sessions params)"
| "build_server_settings Draft07 params =
    set_webtransport_max_sessions_draft07 wt_settings_new (sp_max_sessions params)"
| "build_server_settings Draft02 params = set_enable_webtransport_draft02 wt_settings_new True"

fun build_client_settings :: "draft_version \<Rightarrow> server_settings_params \<Rightarrow> wt_settings" where
  "build_client_settings Draft17 params =
    with_initial_limits (set_wt_enabled_draft17 wt_settings_new (varint_from_static 1)) params"
| "build_client_settings Draft15 params =
    with_initial_limits (set_wt_enabled wt_settings_new (varint_from_static 1)) params"
| "build_client_settings Draft14 params =
    with_initial_limits (set_wt_max_sessions_draft14 wt_settings_new (sp_max_sessions params)) params"
| "build_client_settings Draft07 params =
    set_webtransport_max_sessions_draft07 wt_settings_new (sp_max_sessions params)"
| "build_client_settings Draft02 params = set_enable_webtransport_draft02 wt_settings_new True"

definition requires_initial_capsule_flow_control :: "draft_version \<Rightarrow> bool" where
  "requires_initial_capsule_flow_control v \<longleftrightarrow> v = Draft14"

definition requires_enable_connect_protocol :: "draft_version \<Rightarrow> bool" where
  "requires_enable_connect_protocol v \<longleftrightarrow> v \<in> {Draft07, Draft14, Draft15, Draft17}"

definition requires_reset_stream_at :: "draft_version \<Rightarrow> bool" where
  "requires_reset_stream_at v \<longleftrightarrow> v \<in> {Draft14, Draft15, Draft17}"

definition advertises_wt_enabled :: "wt_settings \<Rightarrow> bool" where
  "advertises_wt_enabled s \<longleftrightarrow> 0 < vget (wt_enabled s) \<or> 0 < vget (wt_enabled_draft17 s)"

definition wt_is_enabled :: "wt_settings \<Rightarrow> bool" where
  "wt_is_enabled s = advertises_any_draft_version s"

definition requires_initial_capsule_flow_control_compat :: "wt_settings \<Rightarrow> bool" where
  "requires_initial_capsule_flow_control_compat s \<longleftrightarrow>
    (case detect_draft_pattern s of
       Some Draft14 \<Rightarrow> True
     | Some Draft07 \<Rightarrow>
         vget (wt_initial_max_streams_uni s) \<noteq> 0 \<or> vget (wt_initial_max_streams_bidi s) \<noteq> 0 \<or>
         vget (wt_initial_max_data s) \<noteq> 0
     | _ \<Rightarrow> False)"

section \<open>Capabilities\<close>

datatype connect_error =
  InvalidScheme | MissingAuthority | MissingPath | InvalidMethod | InvalidProtocol | InvalidEncoding

datatype capability_error =
  MissingWebTransportSetting | MissingEnableConnectProtocol | MissingH3Datagram | MissingQuicDatagram |
  MissingResetStreamAt

record transport_capabilities =
  tc_wt_enabled :: bool
  tc_enable_connect_protocol :: bool
  tc_h3_datagram :: bool
  tc_max_datagram_frame_size :: bool
  tc_reset_stream_at :: bool

definition transport_capabilities_new :: transport_capabilities where
  "transport_capabilities_new =
    \<lparr>tc_wt_enabled = False, tc_enable_connect_protocol = False, tc_h3_datagram = False,
     tc_max_datagram_frame_size = False, tc_reset_stream_at = False\<rparr>"

definition capabilities_validate :: "transport_capabilities \<Rightarrow> capability_error + unit" where
  "capabilities_validate c =
    (if \<not> tc_wt_enabled c then Inl MissingWebTransportSetting
     else if \<not> tc_enable_connect_protocol c then Inl MissingEnableConnectProtocol
     else if \<not> tc_h3_datagram c then Inl MissingH3Datagram
     else if \<not> tc_max_datagram_frame_size c then Inl MissingQuicDatagram
     else if \<not> tc_reset_stream_at c then Inl MissingResetStreamAt
     else Inr ())"

section \<open>Requests\<close>

record connect_request =
  cq_protocol_token :: protocol_token
  cq_scheme :: bytes
  cq_authority :: bytes
  cq_path :: bytes
  cq_origin :: "bytes option"
  cq_available_protocols :: "bytes list"

definition connect_request_new :: "bytes \<Rightarrow> bytes \<Rightarrow> bytes \<Rightarrow> connect_request" where
  "connect_request_new scheme authority path =
    \<lparr>cq_protocol_token = WebTransportH3Token, cq_scheme = scheme, cq_authority = authority, cq_path = path,
     cq_origin = None, cq_available_protocols = []\<rparr>"

definition set_draft_version :: "connect_request \<Rightarrow> draft_version \<Rightarrow> connect_request" where
  "set_draft_version r v = r\<lparr>cq_protocol_token := token_from_draft_version v\<rparr>"

definition set_origin :: "connect_request \<Rightarrow> bytes \<Rightarrow> connect_request" where
  "set_origin r origin = r\<lparr>cq_origin := Some origin\<rparr>"

definition set_available_protocols :: "connect_request \<Rightarrow> bytes list \<Rightarrow> connect_request" where
  "set_available_protocols r protocols = r\<lparr>cq_available_protocols := protocols\<rparr>"

definition parse_available_protocols :: "bytes \<Rightarrow> bytes list" where
  "parse_available_protocols v = parse_sf_list_strings v"

text \<open>The variables of the loop in \<^verbatim>\<open>from_headers\<close>.\<close>

record connect_fields =
  cf_method :: "bytes option"
  cf_protocol :: "bytes option"
  cf_scheme :: "bytes option"
  cf_authority :: "bytes option"
  cf_path :: "bytes option"
  cf_origin :: "bytes option"
  cf_wt_available_protocols :: "bytes option"
  cf_seen_regular :: bool

definition connect_fields_none :: connect_fields where
  "connect_fields_none =
    \<lparr>cf_method = None, cf_protocol = None, cf_scheme = None, cf_authority = None, cf_path = None,
     cf_origin = None, cf_wt_available_protocols = None, cf_seen_regular = False\<rparr>"

definition str_from_utf8 :: "bytes \<Rightarrow> connect_error + bytes" where
  "str_from_utf8 v = (if utf8_valid v then Inr v else Inl InvalidEncoding)"

definition connect_field :: "connect_fields \<Rightarrow> bytes \<times> bytes \<Rightarrow> connect_error + connect_fields" where
  "connect_field f nv =
    (case nv of (name, v) \<Rightarrow>
      let is_pseudo = starts_with name (ascii '':'') in
      if is_pseudo \<and> cf_seen_regular f then Inl InvalidEncoding
      else
        let f = (if \<not> is_pseudo then f\<lparr>cf_seen_regular := True\<rparr> else f) in
        if name = ascii '':method'' then
          if cf_method f \<noteq> None then Inl InvalidEncoding else Inr (f\<lparr>cf_method := Some v\<rparr>)
        else if name = ascii '':protocol'' then
          if cf_protocol f \<noteq> None then Inl InvalidEncoding else Inr (f\<lparr>cf_protocol := Some v\<rparr>)
        else if name = ascii '':scheme'' then
          if cf_scheme f \<noteq> None then Inl InvalidEncoding
          else bindR (str_from_utf8 v) (\<lambda>v. Inr (f\<lparr>cf_scheme := Some v\<rparr>))
        else if name = ascii '':authority'' then
          if cf_authority f \<noteq> None then Inl InvalidEncoding
          else bindR (str_from_utf8 v) (\<lambda>v. Inr (f\<lparr>cf_authority := Some v\<rparr>))
        else if name = ascii '':path'' then
          if cf_path f \<noteq> None then Inl InvalidEncoding
          else bindR (str_from_utf8 v) (\<lambda>v. Inr (f\<lparr>cf_path := Some v\<rparr>))
        else if name = ascii ''origin'' then
          bindR (str_from_utf8 v) (\<lambda>v. Inr (f\<lparr>cf_origin := Some v\<rparr>))
        else if name = ascii ''wt-available-protocols'' then
          bindR (str_from_utf8 v) (\<lambda>v. Inr (f\<lparr>cf_wt_available_protocols := Some v\<rparr>))
        else Inr f)"

fun connect_fields_of :: "connect_fields \<Rightarrow> (bytes \<times> bytes) list \<Rightarrow> connect_error + connect_fields" where
  "connect_fields_of f [] = Inr f"
| "connect_fields_of f (nv # nvs) = bindR (connect_field f nv) (\<lambda>f. connect_fields_of f nvs)"

definition unwrap_or_default :: "bytes option \<Rightarrow> bytes" where
  "unwrap_or_default x = (case x of None \<Rightarrow> [] | Some v \<Rightarrow> v)"

definition from_headers :: "(bytes \<times> bytes) list \<Rightarrow> connect_error + connect_request" where
  "from_headers headers =
    bindR (connect_fields_of connect_fields_none headers) (\<lambda>f.
    if cf_method f \<noteq> Some (ascii ''CONNECT'') then Inl InvalidMethod
    else
      bindR
        (case cf_protocol f of
           Some p \<Rightarrow> ok_or (token_from_bytes p) InvalidProtocol
         | None \<Rightarrow> Inl InvalidProtocol) (\<lambda>protocol_token.
      let req =
            \<lparr>cq_protocol_token = protocol_token, cq_scheme = unwrap_or_default (cf_scheme f),
             cq_authority = unwrap_or_default (cf_authority f), cq_path = unwrap_or_default (cf_path f),
             cq_origin = cf_origin f, cq_available_protocols = []\<rparr> in
      case cf_wt_available_protocols f of
        Some wt_ap \<Rightarrow> Inr (req\<lparr>cq_available_protocols := parse_available_protocols wt_ap\<rparr>)
      | None \<Rightarrow> Inr req))"

definition request_to_headers :: "connect_request \<Rightarrow> header_error + header list" where
  "request_to_headers r =
    bindR (header_new (ascii '':method'') (ascii ''CONNECT'')) (\<lambda>m.
    bindR (header_new (ascii '':protocol'') (token_as_str (cq_protocol_token r))) (\<lambda>p.
    bindR (header_new (ascii '':scheme'') (cq_scheme r)) (\<lambda>s.
    bindR (header_new (ascii '':authority'') (cq_authority r)) (\<lambda>a.
    bindR (header_new (ascii '':path'') (cq_path r)) (\<lambda>t.
    let headers = [m, p, s, a, t] in
    bindR
      (case cq_origin r of
         Some origin \<Rightarrow> bindR (header_new (ascii ''origin'') origin) (\<lambda>h. Inr (headers @ [h]))
       | None \<Rightarrow> Inr headers) (\<lambda>headers.
    if cq_available_protocols r \<noteq> [] then
      let v = join [0x2c, 0x20] (map quoted (cq_available_protocols r)) in
      bindR (header_new (ascii ''wt-available-protocols'') v) (\<lambda>h. Inr (headers @ [h]))
    else Inr headers))))))"

definition request_validate :: "connect_request \<Rightarrow> connect_error + unit" where
  "request_validate r =
    (if cq_scheme r \<noteq> ascii ''https'' then Inl InvalidScheme
     else if cq_authority r = [] then Inl MissingAuthority
     else if cq_path r = [] then Inl MissingPath
     else Inr ())"

section \<open>Responses\<close>

record connect_response =
  cp_status :: u16
  cp_selected_protocol :: "bytes option"

definition connect_response_new :: "u16 \<Rightarrow> connect_response" where
  "connect_response_new status = \<lparr>cp_status = status, cp_selected_protocol = None\<rparr>"

definition with_protocol :: "connect_response \<Rightarrow> bytes \<Rightarrow> connect_response" where
  "with_protocol r protocol = r\<lparr>cp_selected_protocol := Some protocol\<rparr>"

text \<open>\<^verbatim>\<open>to_string\<close> of a number.\<close>

fun nat_to_string :: "nat \<Rightarrow> bytes" where
  "nat_to_string n =
    (if n < 10 then [word_of_nat (0x30 + n)] else nat_to_string (n div 10) @ [word_of_nat (0x30 + n mod 10)])"

declare nat_to_string.simps [simp del]

definition response_to_headers :: "connect_response \<Rightarrow> header_error + header list" where
  "response_to_headers r =
    bindR (header_new (ascii '':status'') (nat_to_string (cp_status r))) (\<lambda>s.
    let headers = [s] in
    case cp_selected_protocol r of
      Some proto \<Rightarrow> bindR (header_new (ascii ''wt-protocol'') (quoted proto)) (\<lambda>h. Inr (headers @ [h]))
    | None \<Rightarrow> Inr headers)"

definition response_is_success :: "connect_response \<Rightarrow> bool" where
  "response_is_success r \<longleftrightarrow> cp_status r div 100 = 2"

definition is_protocol_valid :: "connect_response \<Rightarrow> connect_request \<Rightarrow> bool" where
  "is_protocol_valid r request =
    (case cp_selected_protocol r of
       None \<Rightarrow> cq_available_protocols request = []
     | Some proto \<Rightarrow>
         if cq_available_protocols request = [] then False
         else proto \<in> set (cq_available_protocols request))"

definition parse_protocol :: "bytes \<Rightarrow> bytes option" where
  "parse_protocol header_value = parse_sf_item_string header_value"

section \<open>The settings of a version select it\<close>

lemma token_from_as_str: "token_from_bytes (token_as_str t) = Some t"
  by (cases t) (simp_all add: token_from_bytes_def PROTOCOL_WEBTRANSPORT_H3_def
      PROTOCOL_WEBTRANSPORT_DRAFT02_def ascii_inject)

lemma vget_one: "vget (varint_from_static 1) = 1"
  by (simp add: vget_from_static)

lemmas draft_builders =
  with_initial_limits_def set_wt_enabled_def set_wt_enabled_draft17_def set_wt_initial_max_streams_uni_def
  set_wt_initial_max_streams_bidi_def set_wt_initial_max_data_def set_enable_webtransport_draft02_def
  set_webtransport_max_sessions_draft07_def set_wt_max_sessions_draft14_def wt_settings_new_def

text \<open>
  Choosing a draft version works end to end.  When client and server build their SETTINGS for
  the same version (and allow a session at all), both select exactly this version from what they
  advertise, the request carries the token of this version, and the token is read back; the
  server of draft 14 also answers clients of draft 07.
\<close>

theorem draft_settings_select_version:
  assumes "0 < vget (sp_max_sessions p)" "0 < vget (sp_max_sessions q)"
  shows "first_mutual_draft (build_client_settings v p) (build_server_settings v q) = Some v \<and>
    first_mutual_draft (build_server_settings v q) (build_client_settings v p) = Some v \<and>
    first_mutual_draft (build_client_settings Draft07 p) (build_server_settings Draft14 q) = Some Draft07 \<and>
    token_from_bytes (token_as_str (cq_protocol_token (set_draft_version r v))) =
      Some (token_from_draft_version v)"
proof -
  note w = vget_one vget_ZERO
  have c: "advertises_draft_version (build_client_settings v p) u \<longleftrightarrow> u = v" for u
    using assms(1) by (cases u; cases v) (simp_all add: draft_builders w)
  have s: "advertises_draft_version (build_server_settings v q) u \<longleftrightarrow> u = v \<or> u = Draft07 \<and> v = Draft14" for u v
    using assms(2) by (cases u; cases v) (simp_all add: draft_builders w)
  have c7: "advertises_draft_version (build_client_settings Draft07 p) u \<longleftrightarrow> u = Draft07" for u
    using assms(1) by (cases u) (simp_all add: draft_builders w)
  show ?thesis unfolding first_mutual_draft_def c s c7
    by (cases v) (simp_all add: DRAFT_SELECTION_ORDER_def set_draft_version_def token_from_as_str
        del: token_as_str.simps)
qed

theorem draft_settings_select_version_witness:
  "first_mutual_draft (build_client_settings Draft14 server_settings_params_default)
     (build_server_settings Draft14 server_settings_params_default) = Some Draft14"
  using draft_settings_select_version [of server_settings_params_default server_settings_params_default Draft14]
  by (simp add: server_settings_params_default_def vget_from_static)

section \<open>A request survives its headers\<close>

lemma starts_with_ascii: "starts_with (ascii s) (ascii t) \<longleftrightarrow> take (length t) s = t"
proof -
  have "take (length t) (ascii s) = ascii (take (length t) s)" by (simp add: ascii_def take_map)
  then show ?thesis by (simp add: starts_with_def ascii_inject)
qed

definition header_pair :: "header \<Rightarrow> bytes \<times> bytes" where
  "header_pair h = (h_name h, h_value h)"

text \<open>The header list that a successful \<^verbatim>\<open>to_headers\<close> produces.\<close>

definition request_pairs :: "connect_request \<Rightarrow> (bytes \<times> bytes) list" where
  "request_pairs r =
    [(ascii '':method'', ascii ''CONNECT''), (ascii '':protocol'', token_as_str (cq_protocol_token r)),
     (ascii '':scheme'', cq_scheme r), (ascii '':authority'', cq_authority r), (ascii '':path'', cq_path r)] @
    (case cq_origin r of None \<Rightarrow> [] | Some origin \<Rightarrow> [(ascii ''origin'', origin)]) @
    (if cq_available_protocols r = [] then []
     else [(ascii ''wt-available-protocols'', join [0x2c, 0x20] (map quoted (cq_available_protocols r)))])"

lemma request_to_headers_pairs:
  assumes "request_to_headers r = Inr hs"
  shows "map header_pair hs = request_pairs r \<and> (\<forall>h \<in> set hs. field_grammar (h_name h) (h_value h))"
  using assms
  by (auto simp: request_to_headers_def bindR_Inr_iff header_new_Ok header_pair_def request_pairs_def Let_def
      split: option.splits if_splits)

text \<open>The Rust type \<^verbatim>\<open>String\<close>, and the protocols that fit a list.\<close>

definition wf_connect_request :: "connect_request \<Rightarrow> bool" where
  "wf_connect_request r \<longleftrightarrow>
    utf8_valid (cq_scheme r) \<and> utf8_valid (cq_authority r) \<and> utf8_valid (cq_path r) \<and>
    pred_option utf8_valid (cq_origin r) \<and> (\<forall>p \<in> set (cq_available_protocols r). utf8_valid p \<and> sf_string p) \<and>
    length (cq_available_protocols r) \<le> MAX_SF_ELEMENTS \<and>
    length (join [0x2c, 0x20] (map quoted (cq_available_protocols r))) \<le> MAX_SF_INPUT_LEN"

lemma connect_fields_of_append:
  "connect_fields_of f (xs @ ys) = bindR (connect_fields_of f xs) (\<lambda>f. connect_fields_of f ys)"
  by (induction xs arbitrary: f) (auto simp: bindR_def split: sum.splits)

lemma connect_fields_pseudo:
  assumes "utf8_valid s" "utf8_valid a" "utf8_valid t"
  shows "connect_fields_of connect_fields_none
      [(ascii '':method'', m), (ascii '':protocol'', p), (ascii '':scheme'', s), (ascii '':authority'', a),
       (ascii '':path'', t)] =
    Inr \<lparr>cf_method = Some m, cf_protocol = Some p, cf_scheme = Some s, cf_authority = Some a, cf_path = Some t,
      cf_origin = None, cf_wt_available_protocols = None, cf_seen_regular = False\<rparr>"
  using assms
  by (simp add: connect_field_def connect_fields_none_def starts_with_ascii ascii_inject str_from_utf8_def Let_def)

lemma connect_field_regular:
  assumes "utf8_valid v"
  shows "connect_field f (ascii ''origin'', v) = Inr (f\<lparr>cf_seen_regular := True, cf_origin := Some v\<rparr>)"
    "connect_field f (ascii ''wt-available-protocols'', v) =
      Inr (f\<lparr>cf_seen_regular := True, cf_wt_available_protocols := Some v\<rparr>)"
  using assms
  by (simp_all add: connect_field_def starts_with_ascii ascii_inject str_from_utf8_def Let_def)

lemma from_headers_pairs:
  assumes "wf_connect_request r"
  shows "from_headers (request_pairs r) = Inr r"
proof -
  let ?j = "join [0x2c, 0x20] (map quoted (cq_available_protocols r))"
  have j: "utf8_valid ?j" "cq_available_protocols r \<noteq> [] \<Longrightarrow> parse_sf_list_strings ?j = cq_available_protocols r"
    using assms by (auto simp: wf_connect_request_def utf8_valid_quoted
        intro!: utf8_valid_join parse_list_quoted)
  define f where "f = \<lparr>cf_method = Some (ascii ''CONNECT''), cf_protocol = Some (token_as_str (cq_protocol_token r)),
    cf_scheme = Some (cq_scheme r), cf_authority = Some (cq_authority r), cf_path = Some (cq_path r),
    cf_origin = cq_origin r,
    cf_wt_available_protocols = (if cq_available_protocols r = [] then None else Some ?j),
    cf_seen_regular = (cq_origin r \<noteq> None \<or> cq_available_protocols r \<noteq> [])\<rparr>"
  have "connect_fields_of connect_fields_none (request_pairs r) = Inr f"
    unfolding request_pairs_def connect_fields_of_append
    using assms j(1) connect_fields_pseudo [of "cq_scheme r" "cq_authority r" "cq_path r"]
    by (cases "cq_origin r") (simp_all add: wf_connect_request_def connect_field_regular f_def)
  then show ?thesis using j(2)
    by (simp add: from_headers_def f_def token_from_as_str unwrap_or_default_def parse_available_protocols_def
        del: token_as_str.simps)
qed

lemma connect_names_regular:
  assumes "n \<in> {ascii ''origin'', ascii ''wt-available-protocols''}"
  shows "n \<noteq> []" "\<forall>b \<in> set n. is_lowercase_token_byte b" "n \<notin> set CONNECTION_SPECIFIC_FIELDS"
    "n \<noteq> ascii ''te''" "n \<noteq> ascii ''host''"
  using assms
  by (auto simp: ascii_inject CONNECTION_SPECIFIC_FIELDS_def)
    (auto simp: ascii_def is_lowercase_token_byte_def token_punctuation_def is_ascii_digit_def
      is_ascii_lowercase_def)

lemma request_pairs_section:
  assumes pairs: "map header_pair hs = request_pairs r"
    and fields: "\<forall>h \<in> set hs. field_grammar (h_name h) (h_value h)"
  shows "request_section hs"
proof -
  let ?five = "[(ascii '':method'', ascii ''CONNECT''), (ascii '':protocol'', token_as_str (cq_protocol_token r)),
     (ascii '':scheme'', cq_scheme r), (ascii '':authority'', cq_authority r), (ascii '':path'', cq_path r)]"
  define ps rs where "ps = take 5 hs" and "rs = drop 5 hs"
  then have hs: "hs = ps @ rs" "map header_pair ps = ?five" and rs: "map header_pair rs = drop 5 (request_pairs r)"
    by (simp_all add: take_map [symmetric] drop_map [symmetric] pairs) (simp add: request_pairs_def)
  have names: "map h_name xs = map fst (map header_pair xs)" for xs by (simp add: header_pair_def)
  have v: "value_grammar (h_value h)" if "h \<in> set hs" for h
    using fields that by (auto simp: field_grammar_def)
  have "\<forall>h \<in> set ps. h_name h \<in> {ascii '':method'', ascii '':scheme'', ascii '':path'', ascii '':authority'',
      ascii '':protocol''} \<and> value_grammar (h_value h)"
  proof
    fix h assume h: "h \<in> set ps"
    then have "header_pair h \<in> set ?five" using hs(2) by (metis image_eqI set_map)
    then show "h_name h \<in> {ascii '':method'', ascii '':scheme'', ascii '':path'', ascii '':authority'',
      ascii '':protocol''} \<and> value_grammar (h_value h)" using v [of h] h hs(1) by (auto simp: header_pair_def)
  qed
  moreover have "distinct (map h_name ps)" unfolding names hs(2) by (simp add: ascii_inject)
  moreover have reg: "h_name h \<in> {ascii ''origin'', ascii ''wt-available-protocols''}" if "h \<in> set rs" for h
  proof -
    have "header_pair h \<in> set (drop 5 (request_pairs r))" using rs that by (metis image_eqI set_map)
    then show ?thesis by (auto simp: request_pairs_def header_pair_def split: option.splits if_splits)
  qed
  moreover have "regular_field h \<and> (h_name h = ascii ''te'' \<longrightarrow> h_value h = ascii ''trailers'')"
    if "h \<in> set rs" for h
    using connect_names_regular [OF reg [OF that]] v [of h] that hs(1) by (auto simp: regular_field_def)
  moreover have "filter (\<lambda>n. n = ascii ''host'') (map h_name rs) = []"
    using reg by (fastforce simp: filter_empty_conv ascii_inject)
  ultimately show ?thesis unfolding request_section_def using hs(1) by (intro exI [of _ ps] exI [of _ rs]) auto
qed

lemma token_upgrade: "upgrade_token (token_as_str t)"
proof -
  have "token (token_as_str t)"
    by (cases t) (auto simp: token_def PROTOCOL_WEBTRANSPORT_H3_def PROTOCOL_WEBTRANSPORT_DRAFT02_def ascii_def
        is_tchar_def token_punctuation_def is_ascii_digit_def is_ascii_lowercase_def)
  then show ?thesis by (simp add: upgrade_token_def)
qed

lemma request_pairs_target:
  assumes "map header_pair hs = request_pairs r"
    and "\<forall>h \<in> set hs. field_grammar (h_name h) (h_value h)" "request_validate r = Inr ()"
  shows "target_grammar (lookup hs) \<longleftrightarrow>
    authority_grammar (cq_authority r) \<and> path_grammar (ascii ''CONNECT'') (cq_path r)"
proof -
  have "lookup hs = map_of (request_pairs r)" unfolding lookup_def assms(1) [symmetric] by (simp add: header_pair_def [abs_def])
  then have l: "lookup hs (ascii '':method'') = Some (ascii ''CONNECT'')"
    "lookup hs (ascii '':protocol'') = Some (token_as_str (cq_protocol_token r))"
    "lookup hs (ascii '':scheme'') = Some (cq_scheme r)"
    "lookup hs (ascii '':authority'') = Some (cq_authority r)"
    "lookup hs (ascii '':path'') = Some (cq_path r)" "lookup hs (ascii ''host'') = None"
    by (auto simp: request_pairs_def ascii_inject split: option.splits)
  have s: "cq_scheme r = ascii ''https''" "cq_path r \<noteq> []"
    using assms(3) by (auto simp: request_validate_def split: if_splits)
  have "token (ascii ''CONNECT'')" "scheme_grammar (ascii ''https'')"
    by (auto simp: token_def scheme_grammar_def ascii_def is_tchar_def token_punctuation_def is_ascii_digit_def
        is_ascii_uppercase_def is_ascii_lowercase_def is_ascii_alphabetic_def)
  then show ?thesis using s token_upgrade [of "cq_protocol_token r"]
    by (simp add: target_grammar_def l del: token_as_str.simps)
qed

text \<open>
  C20: A CONNECT request survives.  Whenever its headers can be built, the other side reads back the same request -
  token, scheme, authority, path, origin and the offered protocols in their order, whatever quotes and backslashes
  they contain - provided no offered protocol contains a comma; and if the request is valid by
  the rules of WebTransport, its header section passes the validation of requests exactly when authority and
  path follow their grammars.
\<close>

theorem connect_request_roundtrip:
  assumes "request_to_headers r = Inr hs" "wf_connect_request r"
  shows "from_headers (map header_pair hs) = Inr r \<and>
    (request_validate r = Inr () \<longrightarrow>
      (validate_request_headers hs = Inr () \<longleftrightarrow>
        authority_grammar (cq_authority r) \<and> path_grammar (ascii ''CONNECT'') (cq_path r)))"
proof -
  note p = request_to_headers_pairs [OF assms(1)]
  have "from_headers (map header_pair hs) = Inr r" using p from_headers_pairs [OF assms(2)] by simp
  moreover have "validate_request_headers hs = Inr () \<longleftrightarrow> target_grammar (lookup hs)"
    using request_pairs_section p by (auto simp: validate_request_eq request_grammar_def)
  ultimately show ?thesis using request_pairs_target p by blast
qed

theorem connect_request_roundtrip_witness:
  "\<exists>hs. request_to_headers (set_available_protocols (connect_request_new (ascii ''https'') (ascii ''h'') (ascii ''/''))
      [[0x22, 0x5c]]) = Inr hs \<and>
    from_headers (map header_pair hs) =
      Inr (set_available_protocols (connect_request_new (ascii ''https'') (ascii ''h'') (ascii ''/'')) [[0x22, 0x5c]])"
proof -
  let ?r = "set_available_protocols (connect_request_new (ascii ''https'') (ascii ''h'') (ascii ''/'')) [[0x22, 0x5c]]"
  have v: "value_grammar (ascii ''CONNECT'')" "value_grammar (ascii ''https'')" "value_grammar (ascii ''h'')"
    "value_grammar (ascii ''/'')" "value_grammar (ascii ''webtransport-h3'')"
    "value_grammar (quoted [0x22, 0x5c])"
    by (simp_all add: value_grammar_def ascii_def is_field_vchar_def quoted_chars quoted_char_def)
  have t: "token (ascii ''CONNECT'')" "scheme_grammar (ascii ''https'')"
    by (auto simp: token_def scheme_grammar_def ascii_def is_tchar_def token_punctuation_def is_ascii_digit_def
        is_ascii_uppercase_def is_ascii_lowercase_def is_ascii_alphabetic_def)
  have u: "upgrade_token (ascii ''webtransport-h3'')" using token_upgrade [of WebTransportH3Token]
    by (simp add: PROTOCOL_WEBTRANSPORT_H3_def)
  obtain hs where "request_to_headers ?r = Inr hs"
    using v t u connect_names_regular [of "ascii ''wt-available-protocols''"]
    by (simp add: request_to_headers_def header_new_Ok bindR_Inr_iff field_grammar_def
        set_available_protocols_def connect_request_new_def PROTOCOL_WEBTRANSPORT_H3_def)
  moreover have "wf_connect_request ?r"
    by (auto simp: wf_connect_request_def set_available_protocols_def connect_request_new_def sf_string_def
        ascii_def quoted_chars quoted_char_def MAX_SF_ELEMENTS_def MAX_SF_INPUT_LEN_def intro!: utf8_valid_ascii)
  ultimately show ?thesis using connect_request_roundtrip by blast
qed

section \<open>Answers\<close>

lemma nat_to_string_digits: "digits (nat_to_string n) \<and> nat_to_string n \<noteq> [] \<and> decimal (nat_to_string n) = n"
proof (induction n rule: nat_to_string.induct)
  case (1 n)
  have d: "is_ascii_digit (word_of_nat (0x30 + m)) \<and> unat (word_of_nat (0x30 + m) :: u8) = 0x30 + m" if "m < 10" for m
  proof -
    have "unat (word_of_nat (0x30 + m) :: u8) = 0x30 + m"
      using that by (simp only: unsigned_of_nat) (simp add: take_bit_nat_eq_self)
    with that show ?thesis by (simp add: is_ascii_digit_def word_le_nat_alt)
  qed
  show ?case
  proof (cases "n < 10")
    case True
    then show ?thesis using d [of n] by (subst (1 2 3) nat_to_string.simps) (simp add: digits_def decimal_def)
  next
    case False
    then show ?thesis using 1 d [of "n mod 10"]
      by (subst (1 2 3) nat_to_string.simps) (simp add: digits_def decimal_def)
  qed
qed

lemma nat_to_string_length: "length (nat_to_string n) = 3 \<longleftrightarrow> 100 \<le> n \<and> n < 1000"
proof -
  have l: "length (nat_to_string n) = (if n < 10 then 1 else length (nat_to_string (n div 10)) + 1)" for n
    by (subst nat_to_string.simps) simp
  have p: "0 < length (nat_to_string n)" for n using nat_to_string_digits [of n] by simp
  show ?thesis
    by (subst l, subst l, subst l) (use p [of "n div 10 div 10 div 10"] in \<open>auto simp: div_mult2_eq [symmetric]\<close>)
qed

lemma nat_to_string_inject: "nat_to_string m = nat_to_string n \<longleftrightarrow> m = n"
  using nat_to_string_digits [of m] nat_to_string_digits [of n] by metis

lemma quoted_clean:
  assumes "value_grammar (quoted p)"
  shows "0x00 \<notin> set p"
proof
  assume "0x00 \<in> set p"
  then have "0x00 \<in> set (quoted p)" by (auto simp: quoted_chars quoted_char_def intro!: bexI [of _ "0x00"])
  then show False using assms by (auto simp: value_grammar_def is_field_vchar_def)
qed

text \<open>
  The answer to a CONNECT request is understood.  Headers can be built exactly for a status of three
  digits; they pass the validation of responses except for 101; the protocol in them is read back
  as it was chosen, and the client accepts it exactly if it was offered; an answer
  without a protocol is accepted exactly if none was offered.
\<close>

theorem connect_response_understood:
  assumes "response_to_headers resp = Inr hs"
  shows "100 \<le> cp_status resp \<and> cp_status resp < 1000 \<and>
    (validate_response_headers hs = Inr () \<longleftrightarrow> cp_status resp \<noteq> 101) \<and>
    h_value (hd hs) = nat_to_string (cp_status resp) \<and> decimal (h_value (hd hs)) = cp_status resp \<and>
    (case cp_selected_protocol resp of
       None \<Rightarrow> length hs = 1 \<and> is_protocol_valid resp req = (cq_available_protocols req = [])
     | Some proto \<Rightarrow> parse_protocol (h_value (last hs)) = Some proto \<and>
         is_protocol_valid resp req = (proto \<in> set (cq_available_protocols req)))"
proof -
  from assms obtain s rest where hs: "hs = s # rest" "field_grammar (ascii '':status'') (nat_to_string (cp_status resp))"
      "s = \<lparr>h_name = ascii '':status'', h_value = nat_to_string (cp_status resp), never_indexed = False\<rparr>"
    and rest: "case cp_selected_protocol resp of None \<Rightarrow> rest = []
      | Some proto \<Rightarrow> field_grammar (ascii ''wt-protocol'') (quoted proto) \<and>
          rest = [\<lparr>h_name = ascii ''wt-protocol'', h_value = quoted proto, never_indexed = False\<rparr>]"
    by (auto simp: response_to_headers_def bindR_Inr_iff header_new_Ok Let_def split: option.splits)
  have "\<not> (\<forall>b \<in> set (ascii '':status''). is_lowercase_token_byte b)" using colon_not_token by (simp add: ascii_def)
  then have st: "status_grammar (nat_to_string (cp_status resp))"
    using hs(2) by (auto simp: field_grammar_def ascii_inject)
  then have range: "100 \<le> cp_status resp" "cp_status resp < 1000"
    using nat_to_string_length [of "cp_status resp"] by (auto simp: status_grammar_def)
  have "ascii ''101'' = nat_to_string 101"
    by (subst nat_to_string.simps, simp, subst nat_to_string.simps, simp, subst nat_to_string.simps, simp add: ascii_def)
  then have not101: "nat_to_string (cp_status resp) = ascii ''101'' \<longleftrightarrow> cp_status resp = 101"
    by (simp add: nat_to_string_inject)
  have name: "regular_field \<lparr>h_name = ascii ''wt-protocol'', h_value = v, never_indexed = False\<rparr>"
    if "value_grammar v" for v
    using that by (auto simp: regular_field_def CONNECTION_SPECIFIC_FIELDS_def ascii_inject)
      (auto simp: ascii_def is_lowercase_token_byte_def token_punctuation_def is_ascii_digit_def is_ascii_lowercase_def)
  have "\<forall>h \<in> set rest. regular_field h \<and> h_name h \<noteq> ascii ''te''"
    using rest name by (auto simp: field_grammar_def ascii_inject split: option.splits)
  then have resp: "validate_response_headers hs = Inr () \<longleftrightarrow> cp_status resp \<noteq> 101"
    using st not101 by (auto simp: validate_response_eq response_grammar_def hs(1,3))
  have "parse_protocol (h_value (last hs)) = Some proto" if "cp_selected_protocol resp = Some proto" for proto
    using rest that quoted_clean [of proto]
    by (simp add: hs(1) parse_protocol_def parse_quoted field_grammar_def)
  then show ?thesis using range resp nat_to_string_digits [of "cp_status resp"] rest
    by (auto simp: hs(1,3) is_protocol_valid_def split: option.splits)
qed

theorem connect_response_understood_witness:
  "\<exists>hs. response_to_headers (with_protocol (connect_response_new 200) (ascii ''a,b'')) = Inr hs \<and>
    parse_protocol (h_value (last hs)) = Some (ascii ''a,b'')"
proof -
  let ?r = "with_protocol (connect_response_new 200) (ascii ''a,b'')"
  have "status_grammar (nat_to_string 200)"
    using nat_to_string_digits [of 200] nat_to_string_length [of 200] by (simp add: status_grammar_def digits_def)
  moreover have "value_grammar (quoted (ascii ''a,b''))"
    by (simp add: value_grammar_def ascii_def is_field_vchar_def quoted_chars quoted_char_def)
  moreover have "\<forall>b \<in> set (ascii ''wt-protocol''). is_lowercase_token_byte b"
    by (auto simp: ascii_def is_lowercase_token_byte_def token_punctuation_def is_ascii_digit_def is_ascii_lowercase_def)
  ultimately obtain hs where "response_to_headers ?r = Inr hs"
    using digits_value by (auto simp: response_to_headers_def header_new_Ok bindR_Inr_iff field_grammar_def
        with_protocol_def connect_response_new_def ascii_inject) (simp add: ascii_def)
  with connect_response_understood [of ?r hs] show ?thesis by (auto simp: with_protocol_def)
qed

end
