(* ===== verification/Event.thy ===== *)
theory Event
  imports Capsule Settings
begin

text \<open>
  The events that a connection reports to the application (\<^verbatim>\<open>src/event.rs\<close>).  A \<^verbatim>\<open>String\<close> is the
  list of its bytes.  The \<^verbatim>\<open>Debug\<close> output, which hides sensitive values, is not modelled.
\<close>

record wt_stream_reset =
  wr_stream_id :: u64
  wr_reliable_size :: u64

datatype web_transport_event =
    WtBidiStreamOpen u64 u64
  | WtBidiStreamData u64 bytes
  | WtBidiStreamEnd u64
  | WtUniStreamOpen u64 u64
  | WtUniStreamData u64 bytes
  | WtUniStreamEnd u64
  | WtSessionClosed u64 "wt_stream_reset list" u64 u32 bytes
  | WtSessionEstablished u64 bool
  | WtDraining u64
  | WtCapsule u64 capsule
  | WtDatagram u64 bytes
  | WtStreamReset u64 u64 u64 u64
  | WtStreamStopSending u64 u64 u64
  | WtBufferedStreamRejected u64 u64

fun wt_event_stream_id :: "web_transport_event \<Rightarrow> u64 option" where
  "wt_event_stream_id (WtBidiStreamOpen stream_id _) = Some stream_id"
| "wt_event_stream_id (WtBidiStreamData stream_id _) = Some stream_id"
| "wt_event_stream_id (WtBidiStreamEnd stream_id) = Some stream_id"
| "wt_event_stream_id (WtUniStreamOpen stream_id _) = Some stream_id"
| "wt_event_stream_id (WtUniStreamData stream_id _) = Some stream_id"
| "wt_event_stream_id (WtUniStreamEnd stream_id) = Some stream_id"
| "wt_event_stream_id (WtStreamReset _ stream_id _ _) = Some stream_id"
| "wt_event_stream_id (WtStreamStopSending _ stream_id _) = Some stream_id"
| "wt_event_stream_id (WtBufferedStreamRejected stream_id _) = Some stream_id"
| "wt_event_stream_id (WtSessionClosed session_id _ _ _ _) = Some session_id"
| "wt_event_stream_id (WtSessionEstablished session_id _) = Some session_id"
| "wt_event_stream_id (WtDraining session_id) = Some session_id"
| "wt_event_stream_id (WtCapsule session_id _) = Some session_id"
| "wt_event_stream_id (WtDatagram session_id _) = Some session_id"

datatype event =
    SettingsReceived h3_settings "wt_settings option"
  | HeadersBegin u64
  | HeaderField u64 bytes bytes
  | HeadersEnd u64
  | DataReceived u64 bytes
  | StreamEnd u64
  | StreamResetReceived u64 u64
  | StopSendingReceived u64 u64
  | GoawayReceived varint
  | WebTransport web_transport_event

fun event_stream_id :: "event \<Rightarrow> u64 option" where
  "event_stream_id (SettingsReceived _ _) = None"
| "event_stream_id (GoawayReceived _) = None"
| "event_stream_id (HeadersBegin stream_id) = Some stream_id"
| "event_stream_id (HeaderField stream_id _ _) = Some stream_id"
| "event_stream_id (HeadersEnd stream_id) = Some stream_id"
| "event_stream_id (DataReceived stream_id _) = Some stream_id"
| "event_stream_id (StreamEnd stream_id) = Some stream_id"
| "event_stream_id (StreamResetReceived stream_id _) = Some stream_id"
| "event_stream_id (StopSendingReceived stream_id _) = Some stream_id"
| "event_stream_id (WebTransport e) = wt_event_stream_id e"

end
