(* ===== verification/Wt_Types.thy ===== *)
theory Wt_Types
  imports Session Settings
begin

text \<open>
  The record that a connection keeps of a WebTransport session (\<^verbatim>\<open>src/connection/wt_types.rs\<close>):
  the streams that belong to it, what arrived before it was established, and the receive windows.
  A \<^verbatim>\<open>HashSet\<close> is a set and a \<^verbatim>\<open>HashMap\<close> a map; where their order of iteration can be seen, it is a
  parameter of the operation.
\<close>

section \<open>State\<close>

datatype assoc_outcome = AssocEstablished | AssocBuffered | AssocBufferOverflow

definition WT_MAX_PENDING_SESSIONS :: usize where
  "WT_MAX_PENDING_SESSIONS = 16"

definition WT_MAX_BUFFERED_STREAM_BYTES :: usize where
  "WT_MAX_BUFFERED_STREAM_BYTES = 64 * 1024"

record buffered_stream_entry =
  be_is_bidi :: bool
  be_data :: bytes
  be_fin :: bool

definition buffered_stream_entry_new :: "bool \<Rightarrow> buffered_stream_entry" where
  "buffered_stream_entry_new is_bidi = \<lparr>be_is_bidi = is_bidi, be_data = [], be_fin = False\<rparr>"

datatype wt_session_state = WsPending | WsEstablished | WsDraining | WsClosed

record wt_session =
  ws_state :: wt_session_state
  ws_associated_streams :: "u64 set"
  ws_buffered_streams :: "u64 list"
  ws_buffered_stream_entries :: "u64 \<rightharpoonup> buffered_stream_entry"
  ws_buffered_datagrams :: "bytes list"
  ws_capsule_buf :: bytes
  ws_available_protocols :: "bytes list"
  ws_flow_control_enabled :: bool
  ws_recv_stream_fc_uni :: "stream_flow_control option"
  ws_recv_stream_fc_bidi :: "stream_flow_control option"
  ws_recv_data_fc :: "data_flow_control option"
  ws_stream_received_data :: "u64 \<rightharpoonup> u64"
  ws_pending_capsules :: "capsule list"

definition wt_session_new :: wt_session where
  "wt_session_new =
    \<lparr>ws_state = WsPending, ws_associated_streams = {}, ws_buffered_streams = [],
     ws_buffered_stream_entries = Map.empty, ws_buffered_datagrams = [], ws_capsule_buf = [],
     ws_available_protocols = [], ws_flow_control_enabled = False,
     ws_recv_stream_fc_uni = None, ws_recv_stream_fc_bidi = None, ws_recv_data_fc = None,
     ws_stream_received_data = Map.empty, ws_pending_capsules = []\<rparr>"

section \<open>Flow control\<close>

definition ws_push_capsule :: "wt_session \<Rightarrow> capsule \<Rightarrow> wt_session" where
  "ws_push_capsule s capsule = s\<lparr>ws_pending_capsules := ws_pending_capsules s @ [capsule]\<rparr>"

definition ws_initialize_flow_control :: "wt_session \<Rightarrow> wt_settings \<Rightarrow> bool \<Rightarrow> wt_session" where
  "ws_initialize_flow_control s local_wt queue_initial_capsules =
    (if \<not> ws_flow_control_enabled s then s
     else
       let uni = vget (wt_initial_max_streams_uni local_wt);
           bidi = vget (wt_initial_max_streams_bidi local_wt);
           data = vget (wt_initial_max_data local_wt);
           s = s\<lparr>ws_recv_stream_fc_uni := Some (sf_new uni), ws_recv_stream_fc_bidi := Some (sf_new bidi),
                 ws_recv_data_fc := Some (df_new data)\<rparr> in
       if \<not> queue_initial_capsules then s
       else
         let s = (if 0 < bidi then ws_push_capsule s (MaxStreams True bidi) else s);
             s = (if 0 < uni then ws_push_capsule s (MaxStreams False uni) else s) in
         if 0 < data then ws_push_capsule s (MaxData data) else s)"

definition ws_stream_fc :: "wt_session \<Rightarrow> bool \<Rightarrow> stream_flow_control option" where
  "ws_stream_fc s bidirectional =
    (if bidirectional then ws_recv_stream_fc_bidi s else ws_recv_stream_fc_uni s)"

definition ws_set_stream_fc :: "wt_session \<Rightarrow> bool \<Rightarrow> stream_flow_control option \<Rightarrow> wt_session" where
  "ws_set_stream_fc s bidirectional fc =
    (if bidirectional then s\<lparr>ws_recv_stream_fc_bidi := fc\<rparr> else s\<lparr>ws_recv_stream_fc_uni := fc\<rparr>)"

definition ws_check_received_stream :: "wt_session \<Rightarrow> bool \<Rightarrow> bool" where
  "ws_check_received_stream s bidirectional \<longleftrightarrow>
    \<not> ws_flow_control_enabled s \<or>
    (case ws_stream_fc s bidirectional of None \<Rightarrow> True | Some fc \<Rightarrow> sf_check_received fc)"

definition ws_add_received_stream :: "wt_session \<Rightarrow> bool \<Rightarrow> wt_session" where
  "ws_add_received_stream s bidirectional =
    ws_set_stream_fc s bidirectional (map_option sf_on_stream_received (ws_stream_fc s bidirectional))"

definition ws_check_received_data :: "wt_session \<Rightarrow> u64 \<Rightarrow> bool" where
  "ws_check_received_data s n \<longleftrightarrow>
    \<not> ws_flow_control_enabled s \<or>
    (case ws_recv_data_fc s of None \<Rightarrow> True | Some fc \<Rightarrow> df_check_received fc n)"

definition ws_add_received_data :: "wt_session \<Rightarrow> u64 \<Rightarrow> wt_session" where
  "ws_add_received_data s n =
    s\<lparr>ws_recv_data_fc := map_option (\<lambda>fc. df_on_data_received fc n) (ws_recv_data_fc s)\<rparr>"

definition ws_on_remote_stream_closed :: "wt_session \<Rightarrow> bool \<Rightarrow> wt_session" where
  "ws_on_remote_stream_closed s bidirectional =
    (if \<not> ws_flow_control_enabled s then s
     else case ws_stream_fc s bidirectional of
       None \<Rightarrow> s
     | Some fc \<Rightarrow>
         (case sf_on_stream_closed fc of
            (fc, None) \<Rightarrow> ws_set_stream_fc s bidirectional (Some fc)
          | (fc, Some new_max) \<Rightarrow>
              ws_push_capsule (ws_set_stream_fc s bidirectional (Some fc)) (MaxStreams bidirectional new_max)))"

definition ws_on_data_consumed :: "wt_session \<Rightarrow> u64 \<Rightarrow> wt_session" where
  "ws_on_data_consumed s n =
    (if \<not> ws_flow_control_enabled s then s
     else case ws_recv_data_fc s of
       None \<Rightarrow> s
     | Some fc \<Rightarrow>
         (case df_on_data_consumed fc n of
            (fc, None) \<Rightarrow> s\<lparr>ws_recv_data_fc := Some fc\<rparr>
          | (fc, Some new_max) \<Rightarrow> ws_push_capsule (s\<lparr>ws_recv_data_fc := Some fc\<rparr>) (MaxData new_max)))"

definition ws_take_pending_capsules :: "wt_session \<Rightarrow> wt_session \<times> capsule list" where
  "ws_take_pending_capsules s = (s\<lparr>ws_pending_capsules := []\<rparr>, ws_pending_capsules s)"

definition ws_get_stream_received_data :: "wt_session \<Rightarrow> u64 \<Rightarrow> u64" where
  "ws_get_stream_received_data s stream_id =
    (case ws_stream_received_data s stream_id of None \<Rightarrow> 0 | Some n \<Rightarrow> n)"

definition ws_add_stream_received_data :: "wt_session \<Rightarrow> u64 \<Rightarrow> u64 \<Rightarrow> wt_session" where
  "ws_add_stream_received_data s stream_id n =
    s\<lparr>ws_stream_received_data :=
       (ws_stream_received_data s)(stream_id \<mapsto> sat_add (ws_get_stream_received_data s stream_id) n)\<rparr>"

definition ws_add_received_data_and_track :: "wt_session \<Rightarrow> u64 \<Rightarrow> u64 \<Rightarrow> wt_session" where
  "ws_add_received_data_and_track s stream_id n =
    ws_add_stream_received_data (ws_add_received_data s n) stream_id n"

definition ws_remove_stream_received_data :: "wt_session \<Rightarrow> u64 \<Rightarrow> wt_session" where
  "ws_remove_stream_received_data s stream_id =
    s\<lparr>ws_stream_received_data := (ws_stream_received_data s)(stream_id := None)\<rparr>"

section \<open>Streams and datagrams\<close>

definition ws_associate_stream :: "wt_session \<Rightarrow> u64 \<Rightarrow> wt_session" where
  "ws_associate_stream s stream_id =
    s\<lparr>ws_associated_streams := insert stream_id (ws_associated_streams s)\<rparr>"

definition ws_disassociate_stream :: "wt_session \<Rightarrow> u64 \<Rightarrow> wt_session" where
  "ws_disassociate_stream s stream_id =
    s\<lparr>ws_associated_streams := ws_associated_streams s - {stream_id}\<rparr>"

definition ws_buffer_stream :: "wt_session \<Rightarrow> u64 \<Rightarrow> bool \<Rightarrow> wt_session \<times> bool" where
  "ws_buffer_stream s stream_id is_bidi =
    (if MAX_BUFFERED_STREAMS \<le> length (ws_buffered_streams s) then (s, False)
     else
       (s\<lparr>ws_buffered_streams := ws_buffered_streams s @ [stream_id],
          ws_buffered_stream_entries :=
            (ws_buffered_stream_entries s)(stream_id \<mapsto> buffered_stream_entry_new is_bidi)\<rparr>, True))"

definition ws_append_buffered_stream_data :: "wt_session \<Rightarrow> u64 \<Rightarrow> bytes \<Rightarrow> wt_session \<times> bool" where
  "ws_append_buffered_stream_data s stream_id data =
    (case ws_buffered_stream_entries s stream_id of
       None \<Rightarrow> (s, False)
     | Some entry \<Rightarrow>
         if WT_MAX_BUFFERED_STREAM_BYTES < sat_add (length (be_data entry)) (length data) then (s, False)
         else
           (s\<lparr>ws_buffered_stream_entries :=
               (ws_buffered_stream_entries s)(stream_id \<mapsto> entry\<lparr>be_data := be_data entry @ data\<rparr>)\<rparr>, True))"

definition ws_mark_buffered_stream_fin :: "wt_session \<Rightarrow> u64 \<Rightarrow> wt_session" where
  "ws_mark_buffered_stream_fin s stream_id =
    (case ws_buffered_stream_entries s stream_id of
       None \<Rightarrow> s
     | Some entry \<Rightarrow>
         s\<lparr>ws_buffered_stream_entries :=
            (ws_buffered_stream_entries s)(stream_id \<mapsto> entry\<lparr>be_fin := True\<rparr>)\<rparr>)"

definition ws_take_buffered_streams :: "wt_session \<Rightarrow> wt_session \<times> u64 list" where
  "ws_take_buffered_streams s = (s\<lparr>ws_buffered_streams := []\<rparr>, ws_buffered_streams s)"

definition ws_take_buffered_stream_entry ::
    "wt_session \<Rightarrow> u64 \<Rightarrow> wt_session \<times> buffered_stream_entry option" where
  "ws_take_buffered_stream_entry s stream_id =
    (s\<lparr>ws_buffered_stream_entries := (ws_buffered_stream_entries s)(stream_id := None)\<rparr>,
     ws_buffered_stream_entries s stream_id)"

definition ws_remove_buffered_stream :: "wt_session \<Rightarrow> u64 \<Rightarrow> wt_session \<times> bool" where
  "ws_remove_buffered_stream s stream_id =
    (let s = s\<lparr>ws_buffered_streams := filter (\<lambda>i. i \<noteq> stream_id) (ws_buffered_streams s)\<rparr> in
     case ws_take_buffered_stream_entry s stream_id of (s, entry) \<Rightarrow> (s, entry \<noteq> None))"

definition ws_restore_buffered_stream :: "wt_session \<Rightarrow> u64 \<Rightarrow> buffered_stream_entry \<Rightarrow> wt_session" where
  "ws_restore_buffered_stream s stream_id entry =
    s\<lparr>ws_buffered_streams := ws_buffered_streams s @ [stream_id],
      ws_buffered_stream_entries := (ws_buffered_stream_entries s)(stream_id \<mapsto> entry)\<rparr>"

definition ws_buffer_datagram :: "wt_session \<Rightarrow> bytes \<Rightarrow> wt_session \<times> bool" where
  "ws_buffer_datagram s data =
    (if MAX_BUFFERED_DATAGRAMS \<le> length (ws_buffered_datagrams s) then (s, False)
     else (s\<lparr>ws_buffered_datagrams := ws_buffered_datagrams s @ [data]\<rparr>, True))"

definition ws_take_buffered_datagrams :: "wt_session \<Rightarrow> wt_session \<times> bytes list" where
  "ws_take_buffered_datagrams s = (s\<lparr>ws_buffered_datagrams := []\<rparr>, ws_buffered_datagrams s)"

section \<open>Invariant\<close>

text \<open>
  What holds of every session in the table of a connection: what was buffered before the session was
  established is bounded, no window was ever exceeded, and there are windows only if flow control is
  enabled.
\<close>

definition ws_buffers :: "wt_session \<Rightarrow> bool" where
  "ws_buffers s \<longleftrightarrow>
    length (ws_buffered_streams s) \<le> MAX_BUFFERED_STREAMS \<and>
    dom (ws_buffered_stream_entries s) \<subseteq> set (ws_buffered_streams s) \<and>
    (\<forall>e \<in> ran (ws_buffered_stream_entries s). length (be_data e) \<le> WT_MAX_BUFFERED_STREAM_BYTES) \<and>
    length (ws_buffered_datagrams s) \<le> MAX_BUFFERED_DATAGRAMS"

fun df_within :: "data_flow_control option \<Rightarrow> bool" where
  "df_within None = True"
| "df_within (Some fc) \<longleftrightarrow> df_total_received fc \<le> df_advertised_max fc"

fun sf_within :: "stream_flow_control option \<Rightarrow> bool" where
  "sf_within None = True"
| "sf_within (Some fc) \<longleftrightarrow> sf_total_received fc \<le> sf_advertised_max fc"

definition ws_windows :: "wt_session \<Rightarrow> bool" where
  "ws_windows s \<longleftrightarrow>
    df_within (ws_recv_data_fc s) \<and> sf_within (ws_recv_stream_fc_uni s) \<and> sf_within (ws_recv_stream_fc_bidi s) \<and>
    (ws_flow_control_enabled s \<or>
      ws_recv_data_fc s = None \<and> ws_recv_stream_fc_uni s = None \<and> ws_recv_stream_fc_bidi s = None)"

definition ws_inv :: "wt_session \<Rightarrow> bool" where
  "ws_inv s \<longleftrightarrow> ws_buffers s \<and> ws_windows s \<and> finite (ws_associated_streams s) \<and> ws_state s \<noteq> WsClosed \<and>
    (ws_state s = WsPending \<longrightarrow> \<not> ws_flow_control_enabled s)"

named_theorems ws_defs "the operations on a session"

lemmas [ws_defs] =
  ws_push_capsule_def ws_stream_fc_def ws_set_stream_fc_def ws_check_received_stream_def
  ws_add_received_stream_def ws_check_received_data_def ws_add_received_data_def
  ws_on_remote_stream_closed_def ws_on_data_consumed_def ws_take_pending_capsules_def
  ws_get_stream_received_data_def ws_add_stream_received_data_def ws_add_received_data_and_track_def
  ws_remove_stream_received_data_def ws_associate_stream_def ws_disassociate_stream_def
  ws_buffer_stream_def ws_append_buffered_stream_data_def ws_mark_buffered_stream_fin_def
  ws_take_buffered_streams_def ws_take_buffered_stream_entry_def ws_remove_buffered_stream_def
  ws_restore_buffered_stream_def ws_buffer_datagram_def ws_take_buffered_datagrams_def

lemma ws_inv_new [simp]: "ws_inv wt_session_new"
  by (simp add: ws_inv_def ws_buffers_def ws_windows_def wt_session_new_def)

lemma ws_state_new [simp]: "ws_state wt_session_new = WsPending"
  by (simp add: wt_session_new_def)

lemma sf_within_closed:
  "sf_within (Some fc) \<Longrightarrow> sf_on_stream_closed fc = (fc', x) \<Longrightarrow> sf_within (Some fc')"
  by (auto simp: sf_on_stream_closed_def Let_def split: if_splits)

lemma df_within_consumed:
  "df_within (Some fc) \<Longrightarrow> df_on_data_consumed fc n = (fc', x) \<Longrightarrow> df_within (Some fc')"
  by (auto simp: df_on_data_consumed_def Let_def split: if_splits)

lemma sf_within_received:
  "sf_check_received fc \<Longrightarrow> sf_within (Some (sf_on_stream_received fc))"
  by (simp add: sf_check_received_def sf_on_stream_received_def sat_add_def)

lemma df_within_received:
  "df_check_received fc n \<Longrightarrow> df_within (Some fc) \<Longrightarrow> df_within (Some (df_on_data_received fc n))"
  by (simp add: df_check_received_def df_on_data_received_def sat_add_def sat_sub_def)

text \<open>Two sessions with the same state, buffers and set of streams differ in their windows only.\<close>

lemma ws_inv_cong:
  "ws_state s' = ws_state s \<Longrightarrow> ws_flow_control_enabled s' = ws_flow_control_enabled s \<Longrightarrow>
   ws_buffers s' = ws_buffers s \<Longrightarrow> finite (ws_associated_streams s') \<Longrightarrow> ws_windows s' \<Longrightarrow>
   ws_inv s \<Longrightarrow> ws_inv s'"
  by (simp add: ws_inv_def)

lemma ws_add_received_stream_inv:
  assumes "ws_inv s" "ws_check_received_stream s b"
  shows "ws_inv (ws_add_received_stream s b)"
proof (rule ws_inv_cong [OF _ _ _ _ _ assms(1)])
  show "ws_windows (ws_add_received_stream s b)"
    using assms sf_within_received
    by (auto simp: ws_inv_def ws_windows_def ws_defs split: option.splits)
qed (use assms(1) in \<open>simp_all add: ws_inv_def ws_buffers_def ws_defs\<close>)

lemma ws_add_received_data_inv:
  assumes "ws_inv s" "ws_check_received_data s n"
  shows "ws_inv (ws_add_received_data s n)"
proof (rule ws_inv_cong [OF _ _ _ _ _ assms(1)])
  show "ws_windows (ws_add_received_data s n)"
    using assms df_within_received
    by (cases "ws_recv_data_fc s") (auto simp: ws_inv_def ws_windows_def ws_defs)
qed (use assms(1) in \<open>simp_all add: ws_inv_def ws_buffers_def ws_defs\<close>)

lemma ws_add_received_data_and_track_inv:
  assumes "ws_inv s" "ws_check_received_data s n"
  shows "ws_inv (ws_add_received_data_and_track s i n)"
  using ws_add_received_data_inv [OF assms]
  by (simp add: ws_inv_def ws_buffers_def ws_windows_def ws_add_received_data_and_track_def
      ws_add_stream_received_data_def)

lemma ws_on_remote_stream_closed_inv: "ws_inv s \<Longrightarrow> ws_inv (ws_on_remote_stream_closed s b)"
proof -
  assume s: "ws_inv s"
  show "ws_inv (ws_on_remote_stream_closed s b)"
  proof (rule ws_inv_cong [OF _ _ _ _ _ s])
    show "ws_windows (ws_on_remote_stream_closed s b)"
    proof (cases "ws_flow_control_enabled s \<and> ws_stream_fc s b \<noteq> None")
      case True
      then obtain fc fc' x where fc: "ws_stream_fc s b = Some fc" "sf_on_stream_closed fc = (fc', x)"
        by (cases "sf_on_stream_closed (the (ws_stream_fc s b))") auto
      have "sf_within (Some fc)" using s fc(1)
        by (cases b) (auto simp: ws_inv_def ws_windows_def ws_stream_fc_def)
      from sf_within_closed [OF this fc(2)] show ?thesis
        using s True fc by (cases b) (auto simp: ws_inv_def ws_windows_def ws_defs split: option.splits)
    qed (use s in \<open>auto simp: ws_on_remote_stream_closed_def ws_inv_def\<close>)
  qed (use s in \<open>auto simp: ws_on_remote_stream_closed_def ws_push_capsule_def ws_set_stream_fc_def
      ws_inv_def ws_buffers_def split: option.splits prod.splits\<close>)
qed

lemma ws_on_data_consumed_inv: "ws_inv s \<Longrightarrow> ws_inv (ws_on_data_consumed s n)"
proof -
  assume s: "ws_inv s"
  show "ws_inv (ws_on_data_consumed s n)"
  proof (rule ws_inv_cong [OF _ _ _ _ _ s])
    show "ws_windows (ws_on_data_consumed s n)"
      using s df_within_consumed
      by (auto simp: ws_inv_def ws_windows_def ws_on_data_consumed_def ws_push_capsule_def
          split: option.splits prod.splits)
  qed (use s in \<open>auto simp: ws_on_data_consumed_def ws_push_capsule_def ws_inv_def ws_buffers_def
      split: option.splits prod.splits\<close>)
qed

lemma ws_small_inv:
  "ws_inv s \<Longrightarrow> ws_inv (ws_remove_stream_received_data s i)"
  "ws_inv s \<Longrightarrow> ws_inv (ws_associate_stream s i)"
  "ws_inv s \<Longrightarrow> ws_inv (ws_disassociate_stream s i)"
  "ws_inv s \<Longrightarrow> ws_inv (fst (ws_take_pending_capsules s))"
  "ws_inv s \<Longrightarrow> ws_inv (fst (ws_take_buffered_datagrams s))"
  "ws_inv s \<Longrightarrow> ws_inv (s\<lparr>ws_capsule_buf := b\<rparr>)"
  "ws_inv s \<Longrightarrow> ws_inv (s\<lparr>ws_available_protocols := ps\<rparr>)"
  "ws_inv s \<Longrightarrow> ws_inv (s\<lparr>ws_state := WsDraining\<rparr>)"
  by (simp_all add: ws_inv_def ws_buffers_def ws_windows_def ws_defs)

lemma ws_buffer_stream_inv: "ws_inv s \<Longrightarrow> ws_inv (fst (ws_buffer_stream s i b))"
  by (auto simp: ws_inv_def ws_buffers_def ws_windows_def ws_buffer_stream_def ran_def
      buffered_stream_entry_new_def split: if_splits)

lemma ran_updE: "e \<in> ran (m(k \<mapsto> v)) \<Longrightarrow> e = v \<or> e \<in> ran m"
  by (auto simp: ran_def split: if_splits)

lemma ran_removeE: "e \<in> ran (m(k := None)) \<Longrightarrow> e \<in> ran m"
  by (auto simp: ran_def split: if_splits)

lemma ws_append_inv: "ws_inv s \<Longrightarrow> ws_inv (fst (ws_append_buffered_stream_data s i data))"
  by (auto simp: ws_inv_def ws_buffers_def ws_windows_def ws_append_buffered_stream_data_def
      sat_add_def WT_MAX_BUFFERED_STREAM_BYTES_def dest!: ran_updE split: option.splits)

lemma ws_mark_fin_inv: "ws_inv s \<Longrightarrow> ws_inv (ws_mark_buffered_stream_fin s i)"
  by (auto simp: ws_inv_def ws_buffers_def ws_windows_def ws_mark_buffered_stream_fin_def
      dest!: ran_updE intro: ranI split: option.splits)

lemma ws_take_entry_inv: "ws_inv s \<Longrightarrow> ws_inv (fst (ws_take_buffered_stream_entry s i))"
  by (auto simp: ws_inv_def ws_buffers_def ws_windows_def ws_take_buffered_stream_entry_def dest!: ran_removeE)

lemma ws_remove_buffered_inv: "ws_inv s \<Longrightarrow> ws_inv (fst (ws_remove_buffered_stream s i))"
  by (auto simp: ws_inv_def ws_buffers_def ws_windows_def ws_remove_buffered_stream_def Let_def
      ws_take_buffered_stream_entry_def dest!: ran_removeE intro: le_trans [OF length_filter_le])

lemma ws_buffer_datagram_inv: "ws_inv s \<Longrightarrow> ws_inv (fst (ws_buffer_datagram s d))"
  by (auto simp: ws_inv_def ws_buffers_def ws_windows_def ws_buffer_datagram_def)

lemma ws_establish_inv:
  "ws_inv s \<Longrightarrow> ws_state s = WsPending \<Longrightarrow>
    ws_inv ((ws_initialize_flow_control (s\<lparr>ws_flow_control_enabled := fc\<rparr>) wt q)\<lparr>ws_state := WsEstablished\<rparr>)"
  by (auto simp: ws_inv_def ws_buffers_def ws_windows_def ws_initialize_flow_control_def Let_def
      ws_push_capsule_def sf_new_def df_new_def)

lemmas ws_invs [intro] =
  ws_add_received_stream_inv ws_add_received_data_inv ws_add_received_data_and_track_inv
  ws_on_remote_stream_closed_inv ws_on_data_consumed_inv ws_small_inv ws_buffer_stream_inv
  ws_append_inv ws_mark_fin_inv ws_take_entry_inv ws_remove_buffered_inv ws_buffer_datagram_inv

text \<open>Only establishing, draining and closing change the state, and only establishing the flow control.\<close>

lemma ws_keep_state [simp]:
  "ws_state (ws_add_received_stream s b) = ws_state s"
  "ws_state (ws_add_received_data s n) = ws_state s"
  "ws_state (ws_add_received_data_and_track s i n) = ws_state s"
  "ws_state (ws_on_remote_stream_closed s b) = ws_state s"
  "ws_state (ws_on_data_consumed s n) = ws_state s"
  "ws_state (ws_remove_stream_received_data s i) = ws_state s"
  "ws_state (ws_associate_stream s i) = ws_state s"
  "ws_state (ws_disassociate_stream s i) = ws_state s"
  "ws_state (fst (ws_buffer_stream s i b)) = ws_state s"
  "ws_state (fst (ws_append_buffered_stream_data s i d)) = ws_state s"
  "ws_state (ws_mark_buffered_stream_fin s i) = ws_state s"
  "ws_state (fst (ws_take_buffered_stream_entry s i)) = ws_state s"
  "ws_state (fst (ws_remove_buffered_stream s i)) = ws_state s"
  "ws_state (fst (ws_buffer_datagram s p)) = ws_state s"
  "ws_state (fst (ws_take_buffered_datagrams s)) = ws_state s"
  "ws_state (fst (ws_take_pending_capsules s)) = ws_state s"
  by (simp_all add: ws_defs Let_def split: option.splits prod.splits)

lemma ws_keep_enabled [simp]:
  "ws_flow_control_enabled (ws_add_received_stream s b) = ws_flow_control_enabled s"
  "ws_flow_control_enabled (ws_add_received_data s n) = ws_flow_control_enabled s"
  "ws_flow_control_enabled (ws_add_received_data_and_track s i n) = ws_flow_control_enabled s"
  "ws_flow_control_enabled (ws_on_remote_stream_closed s b) = ws_flow_control_enabled s"
  "ws_flow_control_enabled (ws_on_data_consumed s n) = ws_flow_control_enabled s"
  "ws_flow_control_enabled (ws_remove_stream_received_data s i) = ws_flow_control_enabled s"
  "ws_flow_control_enabled (ws_associate_stream s i) = ws_flow_control_enabled s"
  "ws_flow_control_enabled (ws_disassociate_stream s i) = ws_flow_control_enabled s"
  "ws_flow_control_enabled (fst (ws_buffer_stream s i b)) = ws_flow_control_enabled s"
  "ws_flow_control_enabled (fst (ws_append_buffered_stream_data s i d)) = ws_flow_control_enabled s"
  "ws_flow_control_enabled (ws_mark_buffered_stream_fin s i) = ws_flow_control_enabled s"
  "ws_flow_control_enabled (fst (ws_take_buffered_stream_entry s i)) = ws_flow_control_enabled s"
  "ws_flow_control_enabled (fst (ws_remove_buffered_stream s i)) = ws_flow_control_enabled s"
  "ws_flow_control_enabled (fst (ws_buffer_datagram s p)) = ws_flow_control_enabled s"
  "ws_flow_control_enabled (fst (ws_take_buffered_datagrams s)) = ws_flow_control_enabled s"
  "ws_flow_control_enabled (fst (ws_take_pending_capsules s)) = ws_flow_control_enabled s"
  by (simp_all add: ws_defs Let_def split: option.splits prod.splits)

end
