(* ===== verification/Conn_State.thy ===== *)
theory Conn_State
  imports Event Wt_Types Qpack_Sync Request_Stream Connect "HOL-Library.Product_Lexorder"
begin

text \<open>
  The state of a connection (\<^verbatim>\<open>src/connection/mod.rs\<close>), its construction, the set-up of its critical
  streams and the small functions that classify streams and header sections.

  An operation that can fail gives \<open>Some (c, r)\<close> with the state after it and its result, or \<open>None\<close>
  where the code panics (an \<^verbatim>\<open>expect\<close> that fails, an index out of range) or runs forever.  That \<open>None\<close> does
  not happen is a theorem (\<open>Connection_Inv\<close>).

  Where a hash table is iterated and the order can be seen, the order of this call is the argument
  \<open>ord\<close>; \<open>enumerates\<close> says what the standard library promises of it, and every theorem holds for
  all such orders.
\<close>

section \<open>Results of operations\<close>

definition bindC ::
    "('c \<times> ('e + 'a)) option \<Rightarrow> ('c \<Rightarrow> 'a \<Rightarrow> ('c \<times> ('e + 'b)) option) \<Rightarrow> ('c \<times> ('e + 'b)) option" where
  "bindC m f =
    (case m of None \<Rightarrow> None | Some (c, Inl e) \<Rightarrow> Some (c, Inl e) | Some (c, Inr x) \<Rightarrow> f c x)"

definition tryC :: "'c \<Rightarrow> 'e + 'a \<Rightarrow> ('a \<Rightarrow> ('c \<times> ('e + 'b)) option) \<Rightarrow> ('c \<times> ('e + 'b)) option" where
  "tryC c r f = (case r of Inl e \<Rightarrow> Some (c, Inl e) | Inr x \<Rightarrow> f x)"

definition returns :: "('x \<Rightarrow> bool) \<Rightarrow> 'x option \<Rightarrow> bool" where
  "returns Q m \<longleftrightarrow> (\<exists>x. m = Some x \<and> Q x)"

lemma returns_simps [simp]: "returns Q (Some x) = Q x" "returns Q None = False"
  by (simp_all add: returns_def)

lemma returns_mono: "returns P m \<Longrightarrow> (\<And>x. P x \<Longrightarrow> Q x) \<Longrightarrow> returns Q m"
  by (auto simp: returns_def)

lemma returns_bind: "returns Q (Option.bind m f) = returns (\<lambda>x. returns Q (f x)) m"
  by (cases m) auto

lemma returns_bindC:
  "returns Q (bindC m f) =
    returns (\<lambda>(c, r). case r of Inl e \<Rightarrow> Q (c, Inl e) | Inr x \<Rightarrow> returns Q (f c x)) m"
  by (cases m) (auto simp: bindC_def split: sum.splits)

lemma returns_tryC:
  "returns Q (tryC c r f) = (case r of Inl e \<Rightarrow> Q (c, Inl e) | Inr x \<Rightarrow> returns Q (f x))"
  by (simp add: tryC_def split: sum.splits)

lemma returns_map_option: "returns Q (map_option f m) = returns (\<lambda>x. Q (f x)) m"
  by (cases m) auto

definition enumerates :: "(u64 set \<Rightarrow> u64 list) \<Rightarrow> bool" where
  "enumerates ord \<longleftrightarrow> (\<forall>S. finite S \<longrightarrow> set (ord S) = S \<and> distinct (ord S))"

definition entries :: "(u64 set \<Rightarrow> u64 list) \<Rightarrow> (u64 \<rightharpoonup> 'v) \<Rightarrow> (u64 \<times> 'v) list" where
  "entries ord m = map (\<lambda>k. (k, the (m k))) (ord (dom m))"

section \<open>State\<close>

record h3_init_data =
  hi_control_stream_id :: u64
  hi_control_data :: bytes
  hi_encoder_stream_id :: u64
  hi_encoder_data :: bytes
  hi_decoder_stream_id :: u64
  hi_decoder_data :: bytes

record pending_wt_bidi =
  pw_data :: bytes
  pw_fin :: bool

record connection =
  cn_role :: role
  cn_local_settings :: h3_settings
  cn_peer_settings :: "h3_settings option"
  cn_limits :: limits
  cn_control_send :: control_send
  cn_control_recv :: control_recv
  cn_streams :: "u64 \<rightharpoonup> request_stream"
  cn_next_stream_id :: u64
  cn_qpack_encoder :: dynamic_encoder
  cn_qpack_decoder :: dynamic_decoder
  cn_encoder_stream :: encoder_stream
  cn_encoder_stream_id :: "u64 option"
  cn_decoder_stream :: decoder_stream
  cn_decoder_stream_id :: "u64 option"
  cn_encoder_stream_recv :: encoder_stream_receiver
  cn_peer_encoder_stream_id :: "u64 option"
  cn_decoder_stream_recv :: decoder_stream_receiver
  cn_peer_decoder_stream_id :: "u64 option"
  cn_events :: "event list"
  cn_error :: "h3_error option"
  cn_peer_goaway_last_id :: "varint option"
  cn_last_sent_goaway_id :: "varint option"
  cn_max_push_id :: "varint option"
  cn_blocked_by_ricnt :: "(u64 \<times> u64) list"
  cn_ignored_uni_streams :: "u64 set"
  cn_pending_uni_streams :: "u64 \<rightharpoonup> bytes"
  cn_wt_uni_streams :: "u64 \<rightharpoonup> u64"
  cn_pending_wt_uni_streams :: "u64 \<rightharpoonup> bytes"
  cn_wt_bidi_streams :: "u64 \<rightharpoonup> u64"
  cn_pending_wt_bidi_streams :: "u64 \<rightharpoonup> bytes"
  cn_pending_bidi_dispatch :: "u64 \<rightharpoonup> bytes"
  cn_wt_sessions :: "u64 \<rightharpoonup> wt_session"
  cn_closed_wt_sessions :: "u64 set"
  cn_wt_transport_verified :: bool
  cn_previous_wt_settings :: "wt_settings option"
  cn_wt_reset_stream_at_supported :: bool
  cn_deferred_encoder_set_capacity :: "u64 option"
  cn_deferred_section_acks :: "u64 list"
  cn_deferred_stream_cancellations :: "u64 list"
  cn_deferred_wt_connects :: "u64 \<rightharpoonup> header list"
  cn_pending_pre_negotiation :: "u64 \<rightharpoonup> pending_wt_bidi"
  cn_ignored_pre_negotiation :: "u64 set"

type_synonym 'a outcome = "(connection \<times> (h3_error + 'a)) option"

abbreviation conn_err :: "error_code \<Rightarrow> h3_error + 'a" where
  "conn_err e \<equiv> Inl (ConnectionError e)"

abbreviation stream_err :: "error_code \<Rightarrow> h3_error + 'a" where
  "stream_err e \<equiv> Inl (StreamError e)"

section \<open>Construction\<close>

definition merge_settings :: "h3_settings \<Rightarrow> h3_settings \<Rightarrow> h3_settings" where
  "merge_settings base given =
    (let pick = (\<lambda>f. case f given of None \<Rightarrow> f base | v \<Rightarrow> v);
         pickb = (\<lambda>f. case f given of None \<Rightarrow> f base | v \<Rightarrow> v) in
     base
       \<lparr>enable_connect_protocol := pickb enable_connect_protocol,
        h3_datagram := pickb h3_datagram,
        wt_part := (case wt_part given of None \<Rightarrow> wt_part base | wt \<Rightarrow> wt),
        qpack_max_table_capacity := pick qpack_max_table_capacity,
        qpack_blocked_streams := pick qpack_blocked_streams,
        max_field_section_size := pick max_field_section_size\<rparr>)"

definition sync_limits :: "limits \<Rightarrow> h3_settings \<Rightarrow> limits" where
  "sync_limits l s =
    (let pick = (\<lambda>v old. case v of None \<Rightarrow> old | Some x \<Rightarrow> vget x) in
     l\<lparr>lim_qpack_max_table_capacity := pick (qpack_max_table_capacity s) (lim_qpack_max_table_capacity l),
       lim_qpack_blocked_streams := pick (qpack_blocked_streams s) (lim_qpack_blocked_streams l),
       lim_max_field_section_size := pick (max_field_section_size s) (lim_max_field_section_size l)\<rparr>)"

definition connection_new :: "role \<Rightarrow> h3_settings \<Rightarrow> connection option" where
  "connection_new role settings = do {
     base \<leftarrow> result_ok (settings_from_limits limits_default);
     let local_settings = merge_settings base settings;
     let limits = sync_limits limits_default local_settings;
     control_send \<leftarrow> cs_send_settings cs_new local_settings;
     let max_table_capacity = (case qpack_max_table_capacity local_settings of None \<Rightarrow> 0 | Some v \<Rightarrow> vget v);
     let decoder = dd_set_max_table_capacity dd_new max_table_capacity;
     Some
       \<lparr>cn_role = role, cn_local_settings = local_settings, cn_peer_settings = None, cn_limits = limits,
        cn_control_send = control_send, cn_control_recv = cr_new, cn_streams = Map.empty,
        cn_next_stream_id = (case role of Client \<Rightarrow> 0 | Server \<Rightarrow> 1),
        cn_qpack_encoder = qe_new,
        cn_qpack_decoder =
          (case max_field_section_size local_settings of None \<Rightarrow> decoder
           | Some m \<Rightarrow> dd_set_max_field_section_size decoder (vget m)),
        cn_encoder_stream = es_new, cn_encoder_stream_id = None,
        cn_decoder_stream = ds_new, cn_decoder_stream_id = None,
        cn_encoder_stream_recv = esr_set_max_table_capacity esr_new max_table_capacity,
        cn_peer_encoder_stream_id = None,
        cn_decoder_stream_recv = dsr_new, cn_peer_decoder_stream_id = None,
        cn_events = [], cn_error = None, cn_peer_goaway_last_id = None,
        cn_last_sent_goaway_id = None, cn_max_push_id = None, cn_blocked_by_ricnt = [],
        cn_ignored_uni_streams = {}, cn_pending_uni_streams = Map.empty,
        cn_wt_uni_streams = Map.empty, cn_pending_wt_uni_streams = Map.empty,
        cn_wt_bidi_streams = Map.empty, cn_pending_wt_bidi_streams = Map.empty,
        cn_pending_bidi_dispatch = Map.empty, cn_wt_sessions = Map.empty,
        cn_closed_wt_sessions = {}, cn_wt_transport_verified = False,
        cn_previous_wt_settings = None, cn_wt_reset_stream_at_supported = False,
        cn_deferred_encoder_set_capacity = None, cn_deferred_section_acks = [],
        cn_deferred_stream_cancellations = [], cn_deferred_wt_connects = Map.empty,
        cn_pending_pre_negotiation = Map.empty, cn_ignored_pre_negotiation = {}\<rparr>
   }"

definition peer_goaway_request_boundary :: "connection \<Rightarrow> varint option" where
  "peer_goaway_request_boundary c = (if cn_role c = Client then cn_peer_goaway_last_id c else None)"

section \<open>Critical streams\<close>

definition validate_self_initiated_uni_stream_id :: "connection \<Rightarrow> u64 \<Rightarrow> h3_error + unit" where
  "validate_self_initiated_uni_stream_id c stream_id =
    (let expected = (case cn_role c of Client \<Rightarrow> 0x2 | Server \<Rightarrow> 0x3) in
     if stream_id AND 0x3 \<noteq> expected then conn_err StreamCreationError else Inr ())"

definition set_control_stream_id :: "connection \<Rightarrow> u64 \<Rightarrow> unit outcome" where
  "set_control_stream_id c stream_id =
    tryC c (validate_self_initiated_uni_stream_id c stream_id) (\<lambda>_.
     if cs_stream_id (cn_control_send c) \<noteq> None then Some (c, conn_err StreamCreationError)
     else if cn_encoder_stream_id c = Some stream_id \<or> cn_decoder_stream_id c = Some stream_id then
       Some (c, conn_err StreamCreationError)
     else Some (c\<lparr>cn_control_send := cs_set_stream_id (cn_control_send c) stream_id\<rparr>, Inr ()))"

definition conn_encode_set_capacity :: "connection \<Rightarrow> u64 \<Rightarrow> unit outcome" where
  "conn_encode_set_capacity c capacity =
    (case encode_set_capacity (cn_encoder_stream c) capacity of
       (s, r) \<Rightarrow> Some (c\<lparr>cn_encoder_stream := s\<rparr>, map_err Qpack r))"

definition set_encoder_stream_id :: "connection \<Rightarrow> u64 \<Rightarrow> unit outcome" where
  "set_encoder_stream_id c stream_id =
    tryC c (validate_self_initiated_uni_stream_id c stream_id) (\<lambda>_.
     if cn_encoder_stream_id c \<noteq> None then Some (c, conn_err StreamCreationError)
     else if cs_stream_id (cn_control_send c) = Some stream_id \<or> cn_decoder_stream_id c = Some stream_id then
       Some (c, conn_err StreamCreationError)
     else
       let c = c\<lparr>cn_encoder_stream_id := Some stream_id,
                 cn_encoder_stream := es_write_stream_type (cn_encoder_stream c)\<rparr> in
       case cn_deferred_encoder_set_capacity c of
         None \<Rightarrow> Some (c, Inr ())
       | Some capacity \<Rightarrow> conn_encode_set_capacity (c\<lparr>cn_deferred_encoder_set_capacity := None\<rparr>) capacity)"

definition set_decoder_stream_id :: "connection \<Rightarrow> u64 \<Rightarrow> unit outcome" where
  "set_decoder_stream_id c stream_id =
    tryC c (validate_self_initiated_uni_stream_id c stream_id) (\<lambda>_.
     if cn_decoder_stream_id c \<noteq> None then Some (c, conn_err StreamCreationError)
     else if cs_stream_id (cn_control_send c) = Some stream_id \<or> cn_encoder_stream_id c = Some stream_id then
       Some (c, conn_err StreamCreationError)
     else
       let s = ds_write_stream_type (cn_decoder_stream c);
           s = foldl encode_section_acknowledgment s (cn_deferred_section_acks c);
           s = foldl encode_stream_cancellation s (cn_deferred_stream_cancellations c) in
       Some (c\<lparr>cn_decoder_stream_id := Some stream_id, cn_decoder_stream := s,
               cn_deferred_section_acks := [], cn_deferred_stream_cancellations := []\<rparr>, Inr ()))"

definition set_max_received_body_size :: "connection \<Rightarrow> u64 \<Rightarrow> connection" where
  "set_max_received_body_size c n =
    c\<lparr>cn_limits := (cn_limits c)\<lparr>lim_max_received_body_size := n\<rparr>,
      cn_streams := (\<lambda>i. map_option (\<lambda>s. rs_set_max_received_body_size s n) (cn_streams c i))\<rparr>"

section \<open>Errors\<close>

definition check_error_state :: "connection \<Rightarrow> h3_error + unit" where
  "check_error_state c = (case cn_error c of None \<Rightarrow> Inr () | Some e \<Rightarrow> Inl e)"

definition remember_connection_error :: "'a outcome \<Rightarrow> 'a outcome" where
  "remember_connection_error m =
    (case m of
       Some (c, Inl (ConnectionError e)) \<Rightarrow>
         Some (c\<lparr>cn_error := Some (ConnectionError e)\<rparr>, Inl (ConnectionError e))
     | other \<Rightarrow> other)"

section \<open>Small steps\<close>

definition push_event :: "connection \<Rightarrow> event \<Rightarrow> connection" where
  "push_event c e = c\<lparr>cn_events := cn_events c @ [e]\<rparr>"

definition update_stream :: "connection \<Rightarrow> u64 \<Rightarrow> (request_stream \<Rightarrow> request_stream) \<Rightarrow> connection" where
  "update_stream c stream_id f =
    (case cn_streams c stream_id of
       None \<Rightarrow> c
     | Some s \<Rightarrow> c\<lparr>cn_streams := (cn_streams c)(stream_id \<mapsto> f s)\<rparr>)"

definition update_session :: "connection \<Rightarrow> u64 \<Rightarrow> (wt_session \<Rightarrow> wt_session) \<Rightarrow> connection" where
  "update_session c session_id f =
    (case cn_wt_sessions c session_id of
       None \<Rightarrow> c
     | Some s \<Rightarrow> c\<lparr>cn_wt_sessions := (cn_wt_sessions c)(session_id \<mapsto> f s)\<rparr>)"

definition push_header_events :: "connection \<Rightarrow> u64 \<Rightarrow> header list \<Rightarrow> connection" where
  "push_header_events c stream_id headers =
    c\<lparr>cn_events := cn_events c @ [HeadersBegin stream_id] @
        map (\<lambda>h. HeaderField stream_id (h_name h) (h_value h)) headers @ [HeadersEnd stream_id]\<rparr>"

definition remove_stream_if_done :: "connection \<Rightarrow> u64 \<Rightarrow> connection" where
  "remove_stream_if_done c stream_id =
    (let done = is_some_and (cn_streams c stream_id)
           (\<lambda>s. rs_state s = SsReset \<or> (rs_state s = SsClosed \<and> is_send_complete s)) in
     if done \<or> stream_id \<in> cn_closed_wt_sessions c then
       c\<lparr>cn_streams := (cn_streams c)(stream_id := None)\<rparr>
     else c)"

definition clear_qpack_blocked :: "connection \<Rightarrow> u64 \<Rightarrow> connection" where
  "clear_qpack_blocked c stream_id =
    (case cn_streams c stream_id of
       None \<Rightarrow> c
     | Some s \<Rightarrow>
         let c = (if rs_qpack_blocked s then
               c\<lparr>cn_blocked_by_ricnt := remove1 (rs_qpack_ricnt s, stream_id) (cn_blocked_by_ricnt c)\<rparr>
             else c) in
         update_stream c stream_id (\<lambda>s. rs_set_qpack_blocked s False 0 None))"

definition acknowledge_section :: "connection \<Rightarrow> u64 \<Rightarrow> connection" where
  "acknowledge_section c stream_id =
    (if 0 < dd_last_ric (cn_qpack_decoder c) then
       if cn_decoder_stream_id c \<noteq> None then
         c\<lparr>cn_decoder_stream := encode_section_acknowledgment (cn_decoder_stream c) stream_id\<rparr>
       else c\<lparr>cn_deferred_section_acks := cn_deferred_section_acks c @ [stream_id]\<rparr>
     else c)"

definition send_stream_cancellation_if_needed :: "connection \<Rightarrow> u64 \<Rightarrow> connection" where
  "send_stream_cancellation_if_needed c stream_id =
    (let max_capacity =
           (case qpack_max_table_capacity (cn_local_settings c) of None \<Rightarrow> 0 | Some v \<Rightarrow> vget v) in
     if max_capacity = 0 then c
     else if kind_is_bidirectional (kind_from_stream_id stream_id) then
       if cn_decoder_stream_id c \<noteq> None then
         c\<lparr>cn_decoder_stream := encode_stream_cancellation (cn_decoder_stream c) stream_id\<rparr>
       else c\<lparr>cn_deferred_stream_cancellations := cn_deferred_stream_cancellations c @ [stream_id]\<rparr>
     else c)"

section \<open>Classification\<close>

definition is_local_initiated_bidi :: "connection \<Rightarrow> stream_kind \<Rightarrow> bool" where
  "is_local_initiated_bidi c kind \<longleftrightarrow>
    (case cn_role c of Client \<Rightarrow> kind = ClientBidi | Server \<Rightarrow> kind = ServerBidi)"

definition is_local_initiated_uni :: "connection \<Rightarrow> stream_kind \<Rightarrow> bool" where
  "is_local_initiated_uni c kind \<longleftrightarrow>
    (case cn_role c of Client \<Rightarrow> kind = ClientUni | Server \<Rightarrow> kind = ServerUni)"

definition has_header :: "header list \<Rightarrow> string \<Rightarrow> bool" where
  "has_header headers name \<longleftrightarrow> (\<exists>h \<in> set headers. h_name h = ascii name)"

definition has_header_value :: "header list \<Rightarrow> string \<Rightarrow> bytes \<Rightarrow> bool" where
  "has_header_value headers name v \<longleftrightarrow> (\<exists>h \<in> set headers. h_name h = ascii name \<and> h_value h = v)"

definition find_header :: "header list \<Rightarrow> string \<Rightarrow> header option" where
  "find_header headers name = find (\<lambda>h. h_name h = ascii name) headers"

definition is_webtransport_connect :: "header list \<Rightarrow> bool" where
  "is_webtransport_connect headers \<longleftrightarrow>
    has_header_value headers '':method'' (ascii ''CONNECT'') \<and>
    (has_header_value headers '':protocol'' (ascii ''webtransport-h3'') \<or>
     has_header_value headers '':protocol'' (ascii ''webtransport''))"

definition is_plain_connect :: "header list \<Rightarrow> bool" where
  "is_plain_connect headers \<longleftrightarrow>
    has_header_value headers '':method'' (ascii ''CONNECT'') \<and> \<not> has_header headers '':protocol''"

text \<open>\<^verbatim>\<open>str::parse::<u16>\<close>: what fits \<^verbatim>\<open>u64\<close> is cut down to the smaller range.\<close>

definition parse_u16 :: "bytes \<Rightarrow> u16 option" where
  "parse_u16 v = (case parse_u64 v of None \<Rightarrow> None | Some n \<Rightarrow> if n < 2 ^ 16 then Some n else None)"

definition status_code :: "header list \<Rightarrow> u16 option" where
  "status_code headers =
    (case find_header headers '':status'' of
       None \<Rightarrow> None
     | Some h \<Rightarrow> if utf8_valid (h_value h) then parse_u16 (h_value h) else None)"

definition is_informational_status :: "header list \<Rightarrow> bool" where
  "is_informational_status headers \<longleftrightarrow> is_some_and (status_code headers) (\<lambda>code. code < 200 \<and> code \<noteq> 101)"

definition is_success_status :: "header list \<Rightarrow> bool" where
  "is_success_status headers \<longleftrightarrow> is_some_and (status_code headers) (\<lambda>code. 200 \<le> code \<and> code < 300)"

definition is_no_body_status :: "header list \<Rightarrow> bool" where
  "is_no_body_status headers \<longleftrightarrow>
    is_some_and (status_code headers) (\<lambda>code. code < 200 \<or> code = 204 \<or> code = 304)"

end
