(* ===== verification/Conn_Wt_Session.thy ===== *)
theory Conn_Wt_Session
  imports Conn_State
begin

text \<open>
  WebTransport sessions in a connection (\<^verbatim>\<open>src/connection/wt_session.rs\<close>): when WebTransport is
  negotiated, the life of the sessions, what a reset or STOP\_SENDING does to them, and the checks
  of CONNECT requests and responses.
\<close>

section \<open>Negotiation\<close>

definition has_forbidden_capsule_headers :: "header list \<Rightarrow> bool" where
  "has_forbidden_capsule_headers headers \<longleftrightarrow>
    has_header headers ''content-length'' \<or> has_header headers ''content-type''"

definition is_forbidden_capsule_status :: "header list \<Rightarrow> bool" where
  "is_forbidden_capsule_status headers \<longleftrightarrow>
    has_header_value headers '':status'' (ascii ''204'') \<or> has_header_value headers '':status'' (ascii ''205'') \<or>
    has_header_value headers '':status'' (ascii ''206'')"

definition peer_wt :: "connection \<Rightarrow> wt_settings option" where
  "peer_wt c = (case cn_peer_settings c of None \<Rightarrow> None | Some s \<Rightarrow> wt_part s)"

definition local_wt :: "connection \<Rightarrow> wt_settings option" where
  "local_wt c = wt_part (cn_local_settings c)"

definition peer_requires_initial_wt_capsules :: "connection \<Rightarrow> bool" where
  "peer_requires_initial_wt_capsules c \<longleftrightarrow>
    is_some_and (peer_wt c) requires_initial_capsule_flow_control_compat"

definition set_previous_wt_settings :: "connection \<Rightarrow> wt_settings \<Rightarrow> connection" where
  "set_previous_wt_settings c s = c\<lparr>cn_previous_wt_settings := Some s\<rparr>"

definition set_webtransport_transport_verified :: "connection \<Rightarrow> bool \<Rightarrow> bool \<Rightarrow> unit outcome" where
  "set_webtransport_transport_verified c max_datagram_frame_size_nonzero reset_stream_at_supported =
    (if \<not> max_datagram_frame_size_nonzero then Some (c, conn_err InternalError)
     else
       Some (c\<lparr>cn_wt_transport_verified := True,
               cn_wt_reset_stream_at_supported := reset_stream_at_supported\<rparr>, Inr ()))"

definition peer_wt_draft_version :: "connection \<Rightarrow> draft_version option" where
  "peer_wt_draft_version c = Option.bind (peer_wt c) detect_draft_pattern"

definition local_advertises_wt_enabled :: "connection \<Rightarrow> bool" where
  "local_advertises_wt_enabled c \<longleftrightarrow> is_some_and (local_wt c) advertises_wt_enabled"

definition select_wt_draft_version :: "connection \<Rightarrow> h3_settings option \<Rightarrow> draft_version option" where
  "select_wt_draft_version c peer_settings =
    (case local_wt c of
       None \<Rightarrow> None
     | Some local \<Rightarrow>
         (case cn_role c of
            Client \<Rightarrow>
              (case peer_settings of
                 None \<Rightarrow> None
               | Some ps \<Rightarrow>
                   (case wt_part ps of
                      None \<Rightarrow> None
                    | Some peer \<Rightarrow>
                        (case first_mutual_draft local peer of
                           Some draft \<Rightarrow> Some draft
                         | None \<Rightarrow>
                             then_some
                               (\<not> advertises_any_draft_version local \<and> advertises_draft_version peer Draft17)
                               Draft17)))
          | Server \<Rightarrow>
              (case peer_settings of
                 None \<Rightarrow> None
               | Some ps \<Rightarrow>
                   (case Option.bind (wt_part ps) (first_mutual_draft local) of
                      Some draft \<Rightarrow> Some draft
                    | None \<Rightarrow> then_some (advertises_draft_version local Draft17) Draft17))))"

definition negotiated_wt_draft_version :: "connection \<Rightarrow> draft_version option" where
  "negotiated_wt_draft_version c = select_wt_draft_version c (cn_peer_settings c)"

definition is_wt_fully_negotiated :: "connection \<Rightarrow> bool" where
  "is_wt_fully_negotiated c \<longleftrightarrow>
    (case local_wt c of
       None \<Rightarrow> False
     | Some local \<Rightarrow>
         if cn_role c = Server \<and> \<not> wt_is_enabled local then False
         else case cn_peer_settings c of
           None \<Rightarrow> False
         | Some peer \<Rightarrow>
             if h3_datagram peer \<noteq> Some True then False
             else if \<not> cn_wt_transport_verified c then False
             else case negotiated_wt_draft_version c of
               None \<Rightarrow> cn_role c = Server \<and> \<not> local_advertises_wt_enabled c
             | Some draft \<Rightarrow>
                 if cn_role c = Client \<and> requires_enable_connect_protocol draft \<and>
                   enable_connect_protocol peer \<noteq> Some True then False
                 else if requires_reset_stream_at draft \<and> \<not> cn_wt_reset_stream_at_supported c then False
                 else True)"

definition is_wt_flow_control_enabled :: "connection \<Rightarrow> bool" where
  "is_wt_flow_control_enabled c \<longleftrightarrow>
    (case (local_wt c, peer_wt c) of
       (Some local, Some peer) \<Rightarrow> flow_control_enabled_with_peer local peer
     | _ \<Rightarrow> False)"

section \<open>Life of a session\<close>

text \<open>\<^verbatim>\<open>VarInt::new(session_id).expect\<close> panics for an identifier of more than 62 bits.\<close>

definition wt_stream_header_len :: "connection \<Rightarrow> u64 \<Rightarrow> u64 option" where
  "wt_stream_header_len c stream_id =
    (case cn_wt_bidi_streams c stream_id of
       Some session_id \<Rightarrow>
         map_option (\<lambda>v. encoded_len (varint_from_static BIDIRECTIONAL_SIGNAL_VALUE) + encoded_len v)
           (result_ok (varint_new session_id))
     | None \<Rightarrow>
         (case cn_wt_uni_streams c stream_id of
            Some session_id \<Rightarrow>
              map_option (\<lambda>v. encoded_len (varint_from_static UNIDIRECTIONAL_STREAM_TYPE) + encoded_len v)
                (result_ok (varint_new session_id))
          | None \<Rightarrow> Some 0))"

definition stream_reset_of :: "connection \<Rightarrow> u64 \<Rightarrow> wt_stream_reset option" where
  "stream_reset_of c stream_id =
    map_option (\<lambda>n. \<lparr>wr_stream_id = stream_id, wr_reliable_size = n\<rparr>) (wt_stream_header_len c stream_id)"

definition terminate_wt_session_with ::
    "(u64 set \<Rightarrow> u64 list) \<Rightarrow> connection \<Rightarrow> u64 \<Rightarrow> u64 \<Rightarrow> u32 \<Rightarrow> bytes \<Rightarrow> connection option" where
  "terminate_wt_session_with ord c session_id error_code close_error_code close_message =
    (case cn_wt_sessions c session_id of
       None \<Rightarrow> Some c
     | Some session \<Rightarrow>
         if ws_state session = WsClosed then Some c
         else do {
           let associated = ord (ws_associated_streams session);
           let buffered = ws_buffered_streams session;
           resets \<leftarrow> those (map (stream_reset_of c) associated);
           let c = c\<lparr>cn_wt_uni_streams := cn_wt_uni_streams c |` (- set associated),
                     cn_wt_bidi_streams := cn_wt_bidi_streams c |` (- set associated)\<rparr>;
           let c = push_event c (WebTransport (WtSessionClosed session_id
                 (resets @ map (\<lambda>i. \<lparr>wr_stream_id = i, wr_reliable_size = 0\<rparr>) buffered)
                 error_code close_error_code close_message));
           Some (c\<lparr>cn_wt_sessions := (cn_wt_sessions c)(session_id := None),
                   cn_closed_wt_sessions := insert session_id (cn_closed_wt_sessions c)\<rparr>)
         })"

definition terminate_wt_session ::
    "(u64 set \<Rightarrow> u64 list) \<Rightarrow> connection \<Rightarrow> u64 \<Rightarrow> connection option" where
  "terminate_wt_session ord c session_id =
    terminate_wt_session_with ord c session_id (wt_code SessionGone) 0 []"

definition flow_control_violation ::
    "(u64 set \<Rightarrow> u64 list) \<Rightarrow> connection \<Rightarrow> u64 \<Rightarrow> connection option" where
  "flow_control_violation ord c session_id =
    terminate_wt_session_with ord c session_id (wt_code FlowControlError) 0 []"

definition reject_event :: "u64 \<Rightarrow> wt_error_code \<Rightarrow> event" where
  "reject_event stream_id e = WebTransport (WtBufferedStreamRejected stream_id (wt_code e))"

definition count_wt_sessions :: "connection \<Rightarrow> (wt_session_state \<Rightarrow> bool) \<Rightarrow> usize" where
  "count_wt_sessions c P = card {i \<in> dom (cn_wt_sessions c). P (ws_state (the (cn_wt_sessions c i)))}"

definition count_pending_wt_sessions :: "connection \<Rightarrow> usize" where
  "count_pending_wt_sessions c = count_wt_sessions c (\<lambda>s. s = WsPending)"

definition count_active_wt_sessions :: "connection \<Rightarrow> usize" where
  "count_active_wt_sessions c =
    count_wt_sessions c (\<lambda>s. s = WsPending \<or> s = WsEstablished \<or> s = WsDraining)"

definition associate_or_buffer_stream ::
    "connection \<Rightarrow> u64 \<Rightarrow> u64 \<Rightarrow> bool \<Rightarrow> connection \<times> (unit + assoc_outcome)" where
  "associate_or_buffer_stream c stream_id session_id is_bidi =
    (case cn_wt_sessions c session_id of
       Some session \<Rightarrow>
         (case ws_state session of
            WsEstablished \<Rightarrow>
              (update_session c session_id (\<lambda>s. ws_associate_stream s stream_id), Inr AssocEstablished)
          | WsPending \<Rightarrow>
              (case ws_buffer_stream session stream_id is_bidi of
                 (session, ok) \<Rightarrow>
                   (c\<lparr>cn_wt_sessions := (cn_wt_sessions c)(session_id \<mapsto> session)\<rparr>,
                    Inr (if ok then AssocBuffered else AssocBufferOverflow)))
          | WsDraining \<Rightarrow> (c, Inl ())
          | WsClosed \<Rightarrow> (c, Inl ()))
     | None \<Rightarrow>
         if cn_role c = Client then (c, Inl ())
         else if session_id \<in> cn_closed_wt_sessions c then (c, Inl ())
         else if is_some_and (cn_last_sent_goaway_id c) (\<lambda>last_id. vget last_id \<le> session_id) then (c, Inl ())
         else if WT_MAX_PENDING_SESSIONS \<le> count_pending_wt_sessions c then (c, Inr AssocBufferOverflow)
         else
           (case ws_buffer_stream wt_session_new stream_id is_bidi of
              (session, ok) \<Rightarrow>
                (c\<lparr>cn_wt_sessions := (cn_wt_sessions c)(session_id \<mapsto> session)\<rparr>,
                 Inr (if ok then AssocBuffered else AssocBufferOverflow))))"

section \<open>Delivery of what was buffered\<close>

definition open_event :: "bool \<Rightarrow> u64 \<Rightarrow> u64 \<Rightarrow> event" where
  "open_event is_bidi stream_id session_id =
    WebTransport (if is_bidi then WtBidiStreamOpen stream_id session_id else WtUniStreamOpen stream_id session_id)"

definition data_event :: "bool \<Rightarrow> u64 \<Rightarrow> bytes \<Rightarrow> event" where
  "data_event is_bidi stream_id data =
    WebTransport (if is_bidi then WtBidiStreamData stream_id data else WtUniStreamData stream_id data)"

definition end_event :: "bool \<Rightarrow> u64 \<Rightarrow> event" where
  "end_event is_bidi stream_id =
    WebTransport (if is_bidi then WtBidiStreamEnd stream_id else WtUniStreamEnd stream_id)"

definition restore_entry :: "wt_session \<Rightarrow> u64 \<Rightarrow> wt_session" where
  "restore_entry s stream_id =
    (case ws_take_buffered_stream_entry s stream_id of
       (s, None) \<Rightarrow> s
     | (s, Some entry) \<Rightarrow> ws_restore_buffered_stream s stream_id entry)"

definition behind :: "u64 list \<Rightarrow> u64 \<Rightarrow> u64 list" where
  "behind ids i = drop 1 (dropWhile (\<lambda>j. j \<noteq> i) ids)"

text \<open>The loop over the buffered streams: the session, the events, the streams that ended, and whether
  a limit was violated.\<close>

fun deliver_loop ::
    "u64 \<Rightarrow> u64 list \<Rightarrow> u64 list \<Rightarrow> wt_session \<Rightarrow> event list \<Rightarrow> (u64 \<times> bool) list \<Rightarrow>
      wt_session \<times> event list \<times> (u64 \<times> bool) list \<times> bool" where
  "deliver_loop session_id buffered [] s events closed = (s, events, closed, False)"
| "deliver_loop session_id buffered (i # ids) s events closed =
    (case ws_take_buffered_stream_entry s i of
       (s, None) \<Rightarrow> deliver_loop session_id buffered ids s events closed
     | (s, Some entry) \<Rightarrow>
         let is_bidi = be_is_bidi entry in
         if \<not> ws_check_received_stream s is_bidi then
           (foldl restore_entry (ws_restore_buffered_stream s i entry) (behind buffered i), events, closed, True)
         else
           let s = ws_associate_stream (ws_add_received_stream s is_bidi) i;
               events = events @ [open_event is_bidi i session_id];
               n = length (be_data entry) in
           if be_data entry \<noteq> [] \<and> \<not> ws_check_received_data s n then
             (ws_restore_buffered_stream (foldl restore_entry s (behind buffered i)) i
                \<lparr>be_is_bidi = is_bidi, be_data = be_data entry, be_fin = be_fin entry\<rparr>, events, closed, True)
           else
             let s = (if be_data entry \<noteq> [] then ws_add_received_data_and_track s i n else s);
                 events = (if be_data entry \<noteq> [] then events @ [data_event is_bidi i (be_data entry)] else events) in
             if be_fin entry then
               deliver_loop session_id buffered ids
                 (ws_remove_stream_received_data (ws_on_remote_stream_closed s is_bidi) i)
                 (events @ [end_event is_bidi i]) (closed @ [(i, is_bidi)])
             else deliver_loop session_id buffered ids s events closed)"

definition unregister_streams :: "connection \<Rightarrow> (u64 \<times> bool) list \<Rightarrow> connection" where
  "unregister_streams c closed =
    c\<lparr>cn_wt_bidi_streams := cn_wt_bidi_streams c |` (- {i. (i, True) \<in> set closed}),
      cn_wt_uni_streams := cn_wt_uni_streams c |` (- {i. (i, False) \<in> set closed})\<rparr>"

definition deliver_buffered_streams :: "connection \<Rightarrow> u64 \<Rightarrow> connection \<times> bool" where
  "deliver_buffered_streams c session_id =
    (case cn_wt_sessions c session_id of
       None \<Rightarrow> (c, False)
     | Some session \<Rightarrow>
         (case ws_take_buffered_streams session of (session, buffered) \<Rightarrow>
          case deliver_loop session_id buffered buffered session [] [] of (session, events, closed, fc_violation) \<Rightarrow>
          case (if fc_violation then (session, []) else ws_take_buffered_datagrams session) of
            (session, datagrams) \<Rightarrow>
            ((unregister_streams c closed)
               \<lparr>cn_events := cn_events c @ events @ map (\<lambda>d. WebTransport (WtDatagram session_id d)) datagrams,
                cn_wt_sessions := (cn_wt_sessions c)(session_id \<mapsto> session)\<rparr>,
             fc_violation)))"

section \<open>Flow control and capsules of the application\<close>

definition wt_data_consumed :: "connection \<Rightarrow> u64 \<Rightarrow> u64 \<Rightarrow> connection" where
  "wt_data_consumed c session_id n = update_session c session_id (\<lambda>s. ws_on_data_consumed s n)"

definition take_wt_pending_capsules :: "connection \<Rightarrow> u64 \<Rightarrow> connection \<times> capsule list" where
  "take_wt_pending_capsules c session_id =
    (case cn_wt_sessions c session_id of
       None \<Rightarrow> (c, [])
     | Some session \<Rightarrow>
         (case ws_take_pending_capsules session of (session, capsules) \<Rightarrow>
            (c\<lparr>cn_wt_sessions := (cn_wt_sessions c)(session_id \<mapsto> session)\<rparr>, capsules)))"

definition wt_session_flow_control_enabled :: "connection \<Rightarrow> u64 \<Rightarrow> bool" where
  "wt_session_flow_control_enabled c session_id \<longleftrightarrow>
    is_some_and (cn_wt_sessions c session_id) ws_flow_control_enabled"

section \<open>RESET\_STREAM and STOP\_SENDING\<close>

fun remove_buffered_in :: "connection \<Rightarrow> u64 list \<Rightarrow> u64 \<Rightarrow> connection \<times> bool" where
  "remove_buffered_in c [] stream_id = (c, False)"
| "remove_buffered_in c (sid # sids) stream_id =
    (case cn_wt_sessions c sid of
       None \<Rightarrow> remove_buffered_in c sids stream_id
     | Some session \<Rightarrow>
         (case ws_remove_buffered_stream session stream_id of
            (session, found) \<Rightarrow>
              let c = c\<lparr>cn_wt_sessions := (cn_wt_sessions c)(sid \<mapsto> session)\<rparr> in
              if found then (c, True) else remove_buffered_in c sids stream_id))"

definition wt_stream_session :: "connection \<Rightarrow> u64 \<Rightarrow> u64 option" where
  "wt_stream_session c stream_id =
    (case cn_wt_uni_streams c stream_id of
       Some session_id \<Rightarrow> Some session_id
     | None \<Rightarrow> cn_wt_bidi_streams c stream_id)"

definition account_wt_stream_reset ::
    "(u64 set \<Rightarrow> u64 list) \<Rightarrow> connection \<Rightarrow> u64 \<Rightarrow> u64 \<Rightarrow> u64 \<Rightarrow> (connection \<times> bool) option" where
  "account_wt_stream_reset ord c session_id stream_id final_size = do {
     header_len \<leftarrow>
       (if is_local_initiated_bidi c (kind_from_stream_id stream_id) then Some 0
        else wt_stream_header_len c stream_id);
     let accounted =
           (case cn_wt_sessions c session_id of None \<Rightarrow> 0 | Some s \<Rightarrow> ws_get_stream_received_data s stream_id);
     let residual = sat_sub (sat_sub final_size header_len) accounted;
     case cn_wt_sessions c session_id of
       None \<Rightarrow> Some (c, False)
     | Some session \<Rightarrow>
         if \<not> ws_check_received_data session residual then
           map_option (\<lambda>c. (c, True)) (flow_control_violation ord c session_id)
         else
           Some (c\<lparr>cn_wt_sessions := (cn_wt_sessions c)
                 (session_id \<mapsto> ws_on_data_consumed (ws_add_received_data session residual) residual)\<rparr>, False)
   }"

definition reset_data_stream ::
    "(u64 set \<Rightarrow> u64 list) \<Rightarrow> connection \<Rightarrow> u64 \<Rightarrow> u64 \<Rightarrow> u64 \<Rightarrow> (connection \<times> bool) option" where
  "reset_data_stream ord c stream_id error_code final_size =
    (case wt_stream_session c stream_id of
       None \<Rightarrow> Some (c, False)
     | Some session_id \<Rightarrow>
         let is_bidi = (cn_wt_bidi_streams c stream_id \<noteq> None); kind = kind_from_stream_id stream_id in
         if is_local_initiated_uni c kind then Some (c, True)
         else do {
           (c, violated) \<leftarrow> account_wt_stream_reset ord c session_id stream_id final_size;
           if violated then Some (c, True)
           else do {
             let local_initiated = is_local_initiated_bidi c kind;
             let c = update_session c session_id (\<lambda>s.
                   ws_disassociate_stream (ws_remove_stream_received_data
                     (if local_initiated then s else ws_on_remote_stream_closed s is_bidi) stream_id) stream_id);
             let c = c\<lparr>cn_wt_uni_streams := (cn_wt_uni_streams c)(stream_id := None),
                       cn_wt_bidi_streams := (cn_wt_bidi_streams c)(stream_id := None)\<rparr>;
             Some (push_event c (WebTransport (WtStreamReset session_id stream_id error_code final_size)), True)
           }
         })"

definition handle_wt_stream_reset ::
    "(u64 set \<Rightarrow> u64 list) \<Rightarrow> connection \<Rightarrow> u64 \<Rightarrow> u64 \<Rightarrow> u64 \<Rightarrow> (connection \<times> bool) option" where
  "handle_wt_stream_reset ord c stream_id error_code final_size =
    (if cn_wt_sessions c stream_id \<noteq> None then
       map_option (\<lambda>c. (c, True)) (terminate_wt_session ord c stream_id)
     else if stream_id \<in> cn_closed_wt_sessions c then Some (c, True)
     else if cn_deferred_wt_connects c stream_id \<noteq> None then
       Some (c\<lparr>cn_deferred_wt_connects := (cn_deferred_wt_connects c)(stream_id := None)\<rparr>, True)
     else if cn_pending_pre_negotiation c stream_id \<noteq> None then
       Some (c\<lparr>cn_pending_pre_negotiation := (cn_pending_pre_negotiation c)(stream_id := None),
               cn_ignored_pre_negotiation := insert stream_id (cn_ignored_pre_negotiation c)\<rparr>, True)
     else if stream_id \<in> cn_ignored_pre_negotiation c then Some (c, True)
     else
       case remove_buffered_in c (ord (dom (cn_wt_sessions c))) stream_id of
         (c, True) \<Rightarrow> Some (c, True)
       | (c, False) \<Rightarrow> reset_data_stream ord c stream_id error_code final_size)"

definition handle_wt_stop_sending ::
    "(u64 set \<Rightarrow> u64 list) \<Rightarrow> connection \<Rightarrow> u64 \<Rightarrow> u64 \<Rightarrow> (connection \<times> bool) option" where
  "handle_wt_stop_sending ord c stream_id error_code =
    (if cn_wt_sessions c stream_id \<noteq> None then
       map_option (\<lambda>c. (c, True)) (terminate_wt_session ord c stream_id)
     else if stream_id \<in> cn_closed_wt_sessions c then Some (c, True)
     else if cn_pending_pre_negotiation c stream_id \<noteq> None \<or> stream_id \<in> cn_ignored_pre_negotiation c then
       Some (c, True)
     else case wt_stream_session c stream_id of
       Some session_id \<Rightarrow>
         Some (push_event c (WebTransport (WtStreamStopSending session_id stream_id error_code)), True)
     | None \<Rightarrow> Some (c, False))"

section \<open>CONNECT\<close>

definition validate_wt_connect_request :: "connection \<Rightarrow> header list \<Rightarrow> h3_error + unit" where
  "validate_wt_connect_request c headers =
    (if \<not> is_webtransport_connect headers then Inr ()
     else if has_forbidden_capsule_headers headers then stream_err MessageError
     else
       bindR (ok_or (cn_peer_settings c) (WtSetup PeerSettingsNotReceived)) (\<lambda>peer.
       if \<not> is_webtransport_enabled peer then Inl (WtSetup WebTransportNotEnabled)
       else
         bindR (ok_or (negotiated_wt_draft_version c) (WtSetup UnknownDraftVersion)) (\<lambda>draft.
         if requires_enable_connect_protocol draft \<and> enable_connect_protocol peer \<noteq> Some True then
           Inl (WtSetup EnableConnectProtocolMissing)
         else if h3_datagram peer \<noteq> Some True then Inl (WtSetup H3DatagramNotEnabled)
         else if \<not> cn_wt_transport_verified c then Inl (WtSetup TransportNotVerified)
         else if requires_reset_stream_at draft \<and> \<not> cn_wt_reset_stream_at_supported c then
           Inl (WtSetup ResetStreamAtNotSupported)
         else if \<not> has_header_value headers '':protocol'' (protocol_value draft) then
           Inl (WtSetup ProtocolMismatch)
         else if \<not> is_wt_flow_control_enabled c \<and> 1 \<le> count_active_wt_sessions c then
           stream_err RequestRejected
         else Inr ())))"

definition other_session_active :: "connection \<Rightarrow> u64 \<Rightarrow> bool" where
  "other_session_active c stream_id \<longleftrightarrow>
    (let already_has_pending_for_this =
           is_some_and (cn_wt_sessions c stream_id) (\<lambda>s. ws_state s = WsPending);
         active = count_active_wt_sessions c;
         other_active = (if already_has_pending_for_this then sat_sub active 1 else active) in
     1 \<le> other_active)"

definition validate_wt_connect_request_server :: "connection \<Rightarrow> u64 \<Rightarrow> header list \<Rightarrow> h3_error + unit" where
  "validate_wt_connect_request_server c stream_id headers =
    (if cn_role c \<noteq> Server \<or> \<not> is_webtransport_connect headers then Inr ()
     else if has_forbidden_capsule_headers headers then stream_err MessageError
     else if \<not> is_webtransport_enabled (cn_local_settings c) then stream_err MessageError
     else case cn_peer_settings c of
       None \<Rightarrow> Inr ()
     | Some peer \<Rightarrow>
         let draft = negotiated_wt_draft_version c in
         if draft = None \<and> local_advertises_wt_enabled c then stream_err MessageError
         else if h3_datagram peer \<noteq> Some True then stream_err MessageError
         else if \<not> cn_wt_transport_verified c then stream_err MessageError
         else
           bindR
             (case draft of
                None \<Rightarrow> Inr ()
              | Some draft \<Rightarrow>
                  if requires_reset_stream_at draft \<and> \<not> cn_wt_reset_stream_at_supported c then
                    stream_err MessageError
                  else case find_header headers '':protocol'' of
                    None \<Rightarrow> stream_err MessageError
                  | Some h \<Rightarrow> if protocol_value draft \<noteq> h_value h then stream_err MessageError else Inr ())
             (\<lambda>_.
              if \<not> has_header_value headers '':scheme'' (ascii ''https'') then stream_err MessageError
              else if \<not> is_wt_flow_control_enabled c \<and> other_session_active c stream_id then
                stream_err RequestRejected
              else Inr ()))"

definition set_offered_protocols :: "header list \<Rightarrow> wt_session \<Rightarrow> wt_session" where
  "set_offered_protocols headers session =
    (case find_header headers ''wt-available-protocols'' of
       None \<Rightarrow> session
     | Some h \<Rightarrow>
         if utf8_valid (h_value h) then
           session\<lparr>ws_available_protocols := parse_available_protocols (h_value h)\<rparr>
         else session)"

definition register_wt_connect_session :: "connection \<Rightarrow> u64 \<Rightarrow> header list \<Rightarrow> connection" where
  "register_wt_connect_session c stream_id headers =
    (if cn_role c \<noteq> Server \<or> \<not> is_webtransport_connect headers then c
     else
       let session = (case cn_wt_sessions c stream_id of None \<Rightarrow> wt_session_new | Some s \<Rightarrow> s);
           session = set_offered_protocols headers session;
           c = c\<lparr>cn_wt_sessions := (cn_wt_sessions c)(stream_id \<mapsto> session)\<rparr> in
       update_stream c stream_id (\<lambda>s. rs_set_wt_connect (rs_set_connect s)))"

definition selected_protocol :: "header list \<Rightarrow> bytes option" where
  "selected_protocol headers =
    (case List.map_filter
        (\<lambda>h. if h_name h = ascii ''wt-protocol'' \<and> utf8_valid (h_value h) then parse_protocol (h_value h) else None)
        headers of
       [] \<Rightarrow> None
     | proto # _ \<Rightarrow> Some proto)"

definition protocol_refused :: "wt_session \<Rightarrow> header list \<Rightarrow> bool" where
  "protocol_refused session headers \<longleftrightarrow>
    (case selected_protocol headers of
       None \<Rightarrow> ws_available_protocols session \<noteq> []
     | Some proto \<Rightarrow> proto \<notin> set (ws_available_protocols session))"

definition establish_pending :: "connection \<Rightarrow> u64 \<Rightarrow> connection \<times> bool" where
  "establish_pending c stream_id =
    (let fc_enabled = is_wt_flow_control_enabled c;
         queue_initial_capsules = (fc_enabled \<and> peer_requires_initial_wt_capsules c) in
     case cn_wt_sessions c stream_id of
       None \<Rightarrow> (c, False)
     | Some session \<Rightarrow>
         if ws_state session \<noteq> WsPending then (c, False)
         else
           let session = session\<lparr>ws_flow_control_enabled := fc_enabled\<rparr>;
               session = (case local_wt c of
                   None \<Rightarrow> session
                 | Some wt \<Rightarrow> ws_initialize_flow_control session wt queue_initial_capsules);
               session = session\<lparr>ws_state := WsEstablished\<rparr> in
           (c\<lparr>cn_wt_sessions := (cn_wt_sessions c)(stream_id \<mapsto> session)\<rparr>, True))"

definition announce_session ::
    "(u64 set \<Rightarrow> u64 list) \<Rightarrow> connection \<Rightarrow> u64 \<Rightarrow> (connection \<times> bool) option" where
  "announce_session ord c stream_id =
    (let c = push_event c (WebTransport (WtSessionEstablished stream_id (is_wt_flow_control_enabled c))) in
     case deliver_buffered_streams c stream_id of
       (c, False) \<Rightarrow> Some (c, False)
     | (c, True) \<Rightarrow> map_option (\<lambda>c. (c, True)) (flow_control_violation ord c stream_id))"

definition handle_wt_connect_response ::
    "(u64 set \<Rightarrow> u64 list) \<Rightarrow> connection \<Rightarrow> u64 \<Rightarrow> header list \<Rightarrow> unit outcome" where
  "handle_wt_connect_response ord c stream_id headers =
    (if cn_role c \<noteq> Client \<or> \<not> is_success_status headers then Some (c, Inr ())
     else if cn_wt_sessions c stream_id \<noteq> None \<and> has_forbidden_capsule_headers headers then
       Some (c, stream_err MessageError)
     else if cn_wt_sessions c stream_id \<noteq> None \<and> is_forbidden_capsule_status headers then
       Some (c, stream_err MessageError)
     else if is_some_and (cn_wt_sessions c stream_id)
         (\<lambda>s. ws_state s = WsPending \<and> protocol_refused s headers) then
       map_option (\<lambda>c. (c, Inr ()))
         (terminate_wt_session_with ord c stream_id (wt_code AlpnError) 0 [])
     else
       case establish_pending c stream_id of
         (c, False) \<Rightarrow> Some (c, Inr ())
       | (c, True) \<Rightarrow>
           map_option (\<lambda>(c, _). (c, Inr ()))
             (announce_session ord (update_stream c stream_id rs_set_connect) stream_id))"

definition validate_wt_response_protocol :: "connection \<Rightarrow> u64 \<Rightarrow> header list \<Rightarrow> h3_error + unit" where
  "validate_wt_response_protocol c stream_id headers =
    (if \<not> is_success_status headers then Inr ()
     else case cn_wt_sessions c stream_id of
       None \<Rightarrow> Inr ()
     | Some session \<Rightarrow>
         if has_forbidden_capsule_headers headers then stream_err MessageError
         else if is_forbidden_capsule_status headers then stream_err MessageError
         else if protocol_refused session headers then conn_err InternalError
         else Inr ())"

fun process_deferred :: "connection \<Rightarrow> (u64 \<times> header list) list \<Rightarrow> unit outcome" where
  "process_deferred c [] = Some (c, Inr ())"
| "process_deferred c ((stream_id, headers) # rest) =
    (case validate_wt_connect_request_server c stream_id headers of
       Inl e \<Rightarrow> Some (c, Inl e)
     | Inr _ \<Rightarrow>
         let c = register_wt_connect_session c stream_id headers;
             c = (case cn_streams c stream_id of
                 None \<Rightarrow> c
               | Some stream \<Rightarrow>
                   if rs_recv_body stream \<noteq> [] then
                     update_session c stream_id
                       (\<lambda>s. s\<lparr>ws_capsule_buf := ws_capsule_buf s @ rs_recv_body stream\<rparr>)
                   else c) in
         process_deferred (push_header_events c stream_id headers) rest)"

definition process_deferred_wt_connects ::
    "(u64 set \<Rightarrow> u64 list) \<Rightarrow> connection \<Rightarrow> unit outcome" where
  "process_deferred_wt_connects ord c =
    process_deferred (c\<lparr>cn_deferred_wt_connects := Map.empty\<rparr>) (entries ord (cn_deferred_wt_connects c))"

end
