(* ===== verification/Conn_Wt_Capsule.thy ===== *)
theory Conn_Wt_Capsule
  imports Conn_Wt_Session
begin

text \<open>
  Capsules on the CONNECT stream of a session (\<^verbatim>\<open>src/connection/wt_capsule.rs\<close>), and the
  establishment of a session by the response of the server, which processes the capsules that came
  early (\<^verbatim>\<open>establish_wt_session_server\<close> of \<^verbatim>\<open>wt_session.rs\<close>).
\<close>

definition handle_wt_capsule ::
    "(u64 set \<Rightarrow> u64 list) \<Rightarrow> connection \<Rightarrow> u64 \<Rightarrow> capsule \<Rightarrow> connection option" where
  "handle_wt_capsule ord c session_id capsule =
    (case capsule of
       CloseSession error_code message \<Rightarrow>
         terminate_wt_session_with ord c session_id (wt_code SessionGone) error_code message
     | DrainSession \<Rightarrow>
         if is_some_and (cn_wt_sessions c session_id)
             (\<lambda>s. ws_state s = WsEstablished \<or> ws_state s = WsPending) then
           Some (push_event (update_session c session_id (\<lambda>s. s\<lparr>ws_state := WsDraining\<rparr>))
             (WebTransport (WtDraining session_id)))
         else Some c
     | UnknownCapsule _ _ \<Rightarrow>
         if is_prohibited_in_http3 capsule then
           terminate_wt_session_with ord c session_id (wt_code SessionGone) 0
             (ascii ''prohibited capsule received'')
         else Some c
     | _ \<Rightarrow>
         if wt_session_flow_control_enabled c session_id then
           Some (push_event c (WebTransport (WtCapsule session_id capsule)))
         else Some c)"

fun is_close_session :: "capsule \<Rightarrow> bool" where
  "is_close_session (CloseSession _ _) = True"
| "is_close_session _ = False"

definition drain_capsule_buf :: "connection \<Rightarrow> u64 \<Rightarrow> usize \<Rightarrow> connection" where
  "drain_capsule_buf c session_id n =
    update_session c session_id (\<lambda>s. s\<lparr>ws_capsule_buf := drop n (ws_capsule_buf s)\<rparr>)"

partial_function (option) process_capsules ::
    "(u64 set \<Rightarrow> u64 list) \<Rightarrow> connection \<Rightarrow> u64 \<Rightarrow> unit outcome" where
  "process_capsules ord c session_id =
    (case cn_wt_sessions c session_id of
       None \<Rightarrow> Some (c, Inr ())
     | Some session \<Rightarrow>
         if ws_capsule_buf session = [] then Some (c, Inr ())
         else case capsule_decode (ws_capsule_buf session) of
           Inl _ \<Rightarrow> Some (c, stream_err MessageError)
         | Inr None \<Rightarrow> Some (c, Inr ())
         | Inr (Some (capsule, consumed)) \<Rightarrow>
             (case handle_wt_capsule ord (drain_capsule_buf c session_id consumed) session_id capsule of
                None \<Rightarrow> None
              | Some c \<Rightarrow>
                  if is_close_session capsule \<and> consumed < length (ws_capsule_buf session) then
                    Some (c, stream_err MessageError)
                  else process_capsules ord c session_id))"

definition process_wt_capsule_data ::
    "(u64 set \<Rightarrow> u64 list) \<Rightarrow> connection \<Rightarrow> u64 \<Rightarrow> bytes \<Rightarrow> unit outcome" where
  "process_wt_capsule_data ord c session_id data =
    (if cn_wt_sessions c session_id = None then Some (c, Inr ())
     else
       process_capsules ord
         (update_session c session_id (\<lambda>s. s\<lparr>ws_capsule_buf := ws_capsule_buf s @ data\<rparr>)) session_id)"

definition MAX_DEFERRED_DATA_BYTES :: usize where
  "MAX_DEFERRED_DATA_BYTES = 64 * 1024"

definition PENDING_CAPSULE_BUF_LIMIT :: usize where
  "PENDING_CAPSULE_BUF_LIMIT = 64 * 1024"

text \<open>\<^verbatim>\<open>expect("deferred CONNECT stream must exist")\<close> is the first \<open>None\<close>.\<close>

definition handle_wt_data_frame ::
    "(u64 set \<Rightarrow> u64 list) \<Rightarrow> connection \<Rightarrow> u64 \<Rightarrow> bytes \<Rightarrow> bool outcome" where
  "handle_wt_data_frame ord c stream_id data =
    (if cn_deferred_wt_connects c stream_id \<noteq> None then
       (case cn_streams c stream_id of
          None \<Rightarrow> None
        | Some stream \<Rightarrow>
            if MAX_DEFERRED_DATA_BYTES < length (rs_recv_body stream) + length data then
              Some (c, stream_err MessageError)
            else Some (c, Inr True))
     else case cn_wt_sessions c stream_id of
       None \<Rightarrow>
         if stream_id \<in> cn_closed_wt_sessions c then Some (c, stream_err MessageError)
         else Some (c, Inr False)
     | Some session \<Rightarrow>
         if ws_state session = WsEstablished \<or> ws_state session = WsDraining then
           bindC (process_wt_capsule_data ord c stream_id data) (\<lambda>c _. Some (c, Inr True))
         else if ws_state session = WsPending then
           if peer_wt_draft_version c \<noteq> Some Draft02 then
             if cn_role c = Server then
               if PENDING_CAPSULE_BUF_LIMIT < length (ws_capsule_buf session) + length data then
                 Some (c, stream_err MessageError)
               else
                 Some (update_session c stream_id (\<lambda>s. s\<lparr>ws_capsule_buf := ws_capsule_buf s @ data\<rparr>), Inr True)
             else Some (c, stream_err MessageError)
           else Some (c, Inr True)
         else Some (c, stream_err MessageError))"

definition close_session_entry :: "connection \<Rightarrow> u64 \<Rightarrow> connection" where
  "close_session_entry c session_id =
    c\<lparr>cn_wt_sessions := (cn_wt_sessions c)(session_id := None),
      cn_closed_wt_sessions := insert session_id (cn_closed_wt_sessions c)\<rparr>"

definition handle_wt_stream_end :: "(u64 set \<Rightarrow> u64 list) \<Rightarrow> connection \<Rightarrow> u64 \<Rightarrow> bool outcome" where
  "handle_wt_stream_end ord c stream_id =
    (if cn_deferred_wt_connects c stream_id \<noteq> None then
       Some (c\<lparr>cn_deferred_wt_connects := (cn_deferred_wt_connects c)(stream_id := None)\<rparr>, Inr True)
     else case cn_wt_sessions c stream_id of
       Some session \<Rightarrow>
         if ws_state session = WsPending then Some (close_session_entry c stream_id, Inr True)
         else if ws_capsule_buf session \<noteq> [] then Some (c, stream_err MessageError)
         else map_option (\<lambda>c. (c, Inr True)) (terminate_wt_session ord c stream_id)
     | None \<Rightarrow> Some (c, Inr (stream_id \<in> cn_closed_wt_sessions c)))"

definition establish_wt_session_server ::
    "(u64 set \<Rightarrow> u64 list) \<Rightarrow> connection \<Rightarrow> u64 \<Rightarrow> header list \<Rightarrow> unit outcome" where
  "establish_wt_session_server ord c stream_id headers =
    (if cn_role c \<noteq> Server \<or> \<not> is_success_status headers then Some (c, Inr ())
     else
       case establish_pending c stream_id of
         (c, False) \<Rightarrow> Some (c, Inr ())
       | (c, True) \<Rightarrow>
           (case announce_session ord c stream_id of
              None \<Rightarrow> None
            | Some (c, True) \<Rightarrow> Some (c, Inr ())
            | Some (c, False) \<Rightarrow>
                if is_some_and (cn_wt_sessions c stream_id) (\<lambda>s. ws_capsule_buf s \<noteq> []) then
                  (case process_wt_capsule_data ord c stream_id [] of
                     None \<Rightarrow> None
                   | Some (c, Inr _) \<Rightarrow> Some (c, Inr ())
                   | Some (c, Inl e) \<Rightarrow>
                       map_option (\<lambda>c. (c, Inl e)) (terminate_wt_session ord c stream_id))
                else Some (c, Inr ())))"

end
