(* ===== verification/Conn_Wt_Stream.thy ===== *)
theory Conn_Wt_Stream
  imports Conn_Wt_Session Datagram
begin

text \<open>
  WebTransport data streams and datagrams in a connection (\<^verbatim>\<open>src/connection/wt_stream.rs\<close>).
\<close>

section \<open>Datagrams\<close>

definition feed_datagram :: "connection \<Rightarrow> bytes \<Rightarrow> unit outcome" where
  "feed_datagram c data =
    (case cn_error c of
       Some e \<Rightarrow> Some (c, Inl e)
     | None \<Rightarrow>
         if \<not> is_wt_fully_negotiated c then Some (c, Inr ())
         else case datagram_decode data of
           Inl _ \<Rightarrow> Some (c, conn_err H3DatagramError)
         | Inr (d, _) \<Rightarrow>
             let session_id = dg_session_id d in
             if session_id AND 0x03 \<noteq> 0x00 then Some (c, conn_err H3DatagramError)
             else case cn_wt_sessions c session_id of
               Some session \<Rightarrow>
                 if ws_state session = WsEstablished \<or> ws_state session = WsDraining then
                   Some (push_event c (WebTransport (WtDatagram session_id (dg_payload d))), Inr ())
                 else if ws_state session = WsPending then
                   Some (update_session c session_id (\<lambda>s. fst (ws_buffer_datagram s (dg_payload d))), Inr ())
                 else Some (c, Inr ())
             | None \<Rightarrow>
                 if session_id \<in> cn_closed_wt_sessions c then Some (c, Inr ())
                 else if cn_role c = Client then Some (c, Inr ())
                 else if is_some_and (cn_last_sent_goaway_id c) (\<lambda>last_id. vget last_id \<le> session_id) then
                   Some (c, Inr ())
                 else if WT_MAX_PENDING_SESSIONS \<le> count_pending_wt_sessions c then Some (c, Inr ())
                 else
                   Some (c\<lparr>cn_wt_sessions := (cn_wt_sessions c)
                         (session_id \<mapsto> fst (ws_buffer_datagram wt_session_new (dg_payload d)))\<rparr>, Inr ()))"

text \<open>\<^verbatim>\<open>send_datagram\<close> does not change the connection; \<open>None\<close> is the panic of the encoder.\<close>

definition send_datagram :: "connection \<Rightarrow> u64 \<Rightarrow> bytes \<Rightarrow> (h3_error + bytes) option" where
  "send_datagram c session_id payload =
    (let local_datagram = (h3_datagram (cn_local_settings c) = Some True);
         peer_datagram = is_some_and (cn_peer_settings c) (\<lambda>s. h3_datagram s = Some True) in
     if \<not> local_datagram \<or> \<not> peer_datagram then Some (conn_err GeneralProtocolError)
     else if session_id AND 0x03 \<noteq> 0x00 then Some (conn_err GeneralProtocolError)
     else case cn_wt_sessions c session_id of
       None \<Rightarrow> Some (conn_err GeneralProtocolError)
     | Some session \<Rightarrow>
         if ws_state session = WsDraining then Some (Inl (WtSessionDraining session_id))
         else if ws_state session \<noteq> WsEstablished then Some (conn_err GeneralProtocolError)
         else case datagram_new session_id payload of
           Inl _ \<Rightarrow> Some (conn_err InternalError)
         | Inr d \<Rightarrow> map_option Inr (datagram_encode d []))"

section \<open>Local streams\<close>

definition register_local_wt_stream :: "connection \<Rightarrow> u64 \<Rightarrow> u64 \<Rightarrow> unit outcome" where
  "register_local_wt_stream c session_id stream_id =
    (let kind = kind_from_stream_id stream_id;
         is_local_bidi = is_local_initiated_bidi c kind;
         is_local_uni = is_local_initiated_uni c kind in
     if \<not> is_local_bidi \<and> \<not> is_local_uni then Some (c, conn_err IdError)
     else if cn_wt_bidi_streams c stream_id \<noteq> None \<or> cn_wt_uni_streams c stream_id \<noteq> None then
       Some (c, conn_err StreamCreationError)
     else if cn_streams c stream_id \<noteq> None then Some (c, conn_err StreamCreationError)
     else case cn_wt_sessions c session_id of
       None \<Rightarrow> Some (c, conn_err GeneralProtocolError)
     | Some session \<Rightarrow>
         if ws_state session \<noteq> WsEstablished then Some (c, conn_err GeneralProtocolError)
         else
           let c = update_session c session_id (\<lambda>s. ws_associate_stream s stream_id) in
           if is_local_bidi then
             Some (c\<lparr>cn_wt_bidi_streams := (cn_wt_bidi_streams c)(stream_id \<mapsto> session_id)\<rparr>, Inr ())
           else
             Some (c\<lparr>cn_wt_uni_streams := (cn_wt_uni_streams c)(stream_id \<mapsto> session_id)\<rparr>, Inr ()))"

section \<open>Incoming streams\<close>

definition register_stream :: "connection \<Rightarrow> bool \<Rightarrow> u64 \<Rightarrow> u64 \<Rightarrow> connection" where
  "register_stream c is_bidi stream_id session_id =
    (if is_bidi then c\<lparr>cn_wt_bidi_streams := (cn_wt_bidi_streams c)(stream_id \<mapsto> session_id)\<rparr>
     else c\<lparr>cn_wt_uni_streams := (cn_wt_uni_streams c)(stream_id \<mapsto> session_id)\<rparr>)"

definition unregister_stream :: "connection \<Rightarrow> bool \<Rightarrow> u64 \<Rightarrow> connection" where
  "unregister_stream c is_bidi stream_id =
    (if is_bidi then c\<lparr>cn_wt_bidi_streams := (cn_wt_bidi_streams c)(stream_id := None)\<rparr>
     else c\<lparr>cn_wt_uni_streams := (cn_wt_uni_streams c)(stream_id := None)\<rparr>)"

definition reject_stream :: "connection \<Rightarrow> bool \<Rightarrow> u64 \<Rightarrow> wt_error_code \<Rightarrow> connection" where
  "reject_stream c is_bidi stream_id e =
    push_event (unregister_stream c is_bidi stream_id) (reject_event stream_id e)"

text \<open>Append to a buffered stream, and give the stream up when its buffer is full.\<close>

definition buffer_stream_data :: "connection \<Rightarrow> bool \<Rightarrow> u64 \<Rightarrow> u64 \<Rightarrow> bytes \<Rightarrow> connection \<times> bool" where
  "buffer_stream_data c is_bidi stream_id session_id data =
    (case cn_wt_sessions c session_id of
       None \<Rightarrow> (c, True)
     | Some session \<Rightarrow>
         (case ws_append_buffered_stream_data session stream_id data of
            (session, True) \<Rightarrow>
              (c\<lparr>cn_wt_sessions := (cn_wt_sessions c)(session_id \<mapsto> session)\<rparr>, True)
          | (session, False) \<Rightarrow>
              (reject_stream
                 (c\<lparr>cn_wt_sessions := (cn_wt_sessions c)
                     (session_id \<mapsto> fst (ws_take_buffered_stream_entry session stream_id))\<rparr>)
                 is_bidi stream_id BufferedStreamRejected, False)))"

text \<open>Data of a stream whose session is established: account for it and report it.\<close>

definition deliver_stream_data ::
    "(u64 set \<Rightarrow> u64 list) \<Rightarrow> connection \<Rightarrow> bool \<Rightarrow> u64 \<Rightarrow> u64 \<Rightarrow> bytes \<Rightarrow> (connection \<times> bool) option" where
  "deliver_stream_data ord c is_bidi stream_id session_id data =
    (case cn_wt_sessions c session_id of
       None \<Rightarrow> Some (push_event c (data_event is_bidi stream_id data), True)
     | Some session \<Rightarrow>
         if \<not> ws_check_received_data session (length data) then
           map_option (\<lambda>c. (c, False)) (flow_control_violation ord c session_id)
         else
           Some (push_event
             (c\<lparr>cn_wt_sessions := (cn_wt_sessions c)
                 (session_id \<mapsto> ws_add_received_data_and_track session stream_id (length data))\<rparr>)
             (data_event is_bidi stream_id data), True))"

text \<open>A stream whose session identifier has just been read.\<close>

definition open_wt_stream ::
    "(u64 set \<Rightarrow> u64 list) \<Rightarrow> connection \<Rightarrow> bool \<Rightarrow> u64 \<Rightarrow> u64 \<Rightarrow> bytes \<Rightarrow> unit outcome" where
  "open_wt_stream ord c is_bidi stream_id session_id payload =
    (case associate_or_buffer_stream (register_stream c is_bidi stream_id session_id) stream_id session_id is_bidi of
       (c, Inl _) \<Rightarrow> Some (reject_stream c is_bidi stream_id SessionGone, Inr ())
     | (c, Inr AssocBufferOverflow) \<Rightarrow> Some (reject_stream c is_bidi stream_id BufferedStreamRejected, Inr ())
     | (c, Inr AssocBuffered) \<Rightarrow>
         if payload = [] then Some (c, Inr ())
         else Some (fst (buffer_stream_data c is_bidi stream_id session_id payload), Inr ())
     | (c, Inr AssocEstablished) \<Rightarrow>
         if is_some_and (cn_wt_sessions c session_id) (\<lambda>s. \<not> ws_check_received_stream s is_bidi) then
           map_option (\<lambda>c. (c, Inr ()))
             (flow_control_violation ord (unregister_stream c is_bidi stream_id) session_id)
         else
           let c = update_session c session_id (\<lambda>s. ws_add_received_stream s is_bidi);
               c = push_event c (open_event is_bidi stream_id session_id) in
           if payload = [] then Some (c, Inr ())
           else
             map_option (\<lambda>(c, _). (c, Inr ()))
               (deliver_stream_data ord c is_bidi stream_id session_id payload))"

definition resolve_wt_uni_stream_session_id ::
    "(u64 set \<Rightarrow> u64 list) \<Rightarrow> connection \<Rightarrow> u64 \<Rightarrow> bytes \<Rightarrow> unit outcome" where
  "resolve_wt_uni_stream_session_id ord c stream_id data =
    (let (c, buf) = (case cn_pending_wt_uni_streams c stream_id of
           Some pending \<Rightarrow>
             (c\<lparr>cn_pending_wt_uni_streams := (cn_pending_wt_uni_streams c)(stream_id \<mapsto> pending @ data)\<rparr>,
              pending @ data)
         | None \<Rightarrow> (c, data)) in
     if buf = [] then
       Some (c\<lparr>cn_pending_wt_uni_streams := (cn_pending_wt_uni_streams c)(stream_id \<mapsto> [])\<rparr>, Inr ())
     else case varint_decode buf of
       Inl _ \<Rightarrow>
         Some (c\<lparr>cn_pending_wt_uni_streams := (cn_pending_wt_uni_streams c)(stream_id \<mapsto> buf)\<rparr>, Inr ())
     | Inr (session_id, id_len) \<Rightarrow>
         let session_id = vget session_id in
         if session_id AND 0x03 \<noteq> 0x00 then Some (c, conn_err IdError)
         else
           open_wt_stream ord
             (c\<lparr>cn_pending_wt_uni_streams := (cn_pending_wt_uni_streams c)(stream_id := None)\<rparr>)
             False stream_id session_id (drop id_len buf))"

definition resolve_wt_bidi_stream_header ::
    "(u64 set \<Rightarrow> u64 list) \<Rightarrow> connection \<Rightarrow> u64 \<Rightarrow> bytes \<Rightarrow> unit outcome" where
  "resolve_wt_bidi_stream_header ord c stream_id data =
    (let (c, buf) = (case cn_pending_wt_bidi_streams c stream_id of
           Some pending \<Rightarrow>
             (c\<lparr>cn_pending_wt_bidi_streams := (cn_pending_wt_bidi_streams c)(stream_id \<mapsto> pending @ data)\<rparr>,
              pending @ data)
         | None \<Rightarrow> (c, data));
         wait = c\<lparr>cn_pending_wt_bidi_streams := (cn_pending_wt_bidi_streams c)(stream_id \<mapsto> buf)\<rparr> in
     if buf = [] then Some (wait, Inr ())
     else case varint_decode buf of
       Inl _ \<Rightarrow> Some (wait, Inr ())
     | Inr (signal_value, signal_len) \<Rightarrow>
         if vget signal_value \<noteq> 0x41 then Some (c, conn_err FrameError)
         else case varint_decode (drop signal_len buf) of
           Inl _ \<Rightarrow> Some (wait, Inr ())
         | Inr (session_id, id_len) \<Rightarrow>
             let session_id = vget session_id in
             if session_id AND 0x03 \<noteq> 0x00 then Some (c, conn_err IdError)
             else
               open_wt_stream ord
                 (c\<lparr>cn_pending_wt_bidi_streams := (cn_pending_wt_bidi_streams c)(stream_id := None)\<rparr>)
                 True stream_id session_id (drop id_len (drop signal_len buf)))"

definition session_pending :: "connection \<Rightarrow> u64 \<Rightarrow> bool" where
  "session_pending c session_id \<longleftrightarrow>
    is_some_and (cn_wt_sessions c session_id) (\<lambda>s. ws_state s = WsPending)"

text \<open>The FIN of the peer on a stream that it opened: return the credit and forget the stream.\<close>

definition finish_remote_stream :: "connection \<Rightarrow> bool \<Rightarrow> u64 \<Rightarrow> u64 \<Rightarrow> connection" where
  "finish_remote_stream c is_bidi stream_id session_id =
    update_session (unregister_stream c is_bidi stream_id) session_id
      (\<lambda>s. ws_remove_stream_received_data (ws_on_remote_stream_closed s is_bidi) stream_id)"

definition known_wt_bidi_stream ::
    "(u64 set \<Rightarrow> u64 list) \<Rightarrow> connection \<Rightarrow> u64 \<Rightarrow> u64 \<Rightarrow> bytes \<Rightarrow> bool \<Rightarrow> unit outcome" where
  "known_wt_bidi_stream ord c stream_id session_id data fin =
    (if session_pending c session_id then
       case (if data = [] then (c, True) else buffer_stream_data c True stream_id session_id data) of
         (c, False) \<Rightarrow> Some (c, Inr ())
       | (c, True) \<Rightarrow>
           Some (if fin then update_session c session_id (\<lambda>s. ws_mark_buffered_stream_fin s stream_id) else c,
             Inr ())
     else
       case (if data = [] then Some (c, True) else deliver_stream_data ord c True stream_id session_id data) of
         None \<Rightarrow> None
       | Some (c, False) \<Rightarrow> Some (c, Inr ())
       | Some (c, True) \<Rightarrow>
           if fin then
             let c = (if is_local_initiated_bidi c (kind_from_stream_id stream_id) then c
                      else finish_remote_stream c True stream_id session_id) in
             Some (push_event c (end_event True stream_id), Inr ())
           else Some (c, Inr ()))"

definition handle_wt_bidi_stream ::
    "(u64 set \<Rightarrow> u64 list) \<Rightarrow> connection \<Rightarrow> u64 \<Rightarrow> bytes \<Rightarrow> bool \<Rightarrow> unit outcome" where
  "handle_wt_bidi_stream ord c stream_id data fin =
    (case cn_wt_bidi_streams c stream_id of
       Some session_id \<Rightarrow> known_wt_bidi_stream ord c stream_id session_id data fin
     | None \<Rightarrow>
         bindC (resolve_wt_bidi_stream_header ord c stream_id data) (\<lambda>c _.
         if \<not> fin then Some (c, Inr ())
         else
           let c = (case cn_wt_bidi_streams c stream_id of
                 None \<Rightarrow> c
               | Some session_id \<Rightarrow>
                   if session_pending c session_id then
                     update_session c session_id (\<lambda>s. ws_mark_buffered_stream_fin s stream_id)
                   else push_event (finish_remote_stream c True stream_id session_id) (end_event True stream_id)) in
           Some (c\<lparr>cn_pending_wt_bidi_streams := (cn_pending_wt_bidi_streams c)(stream_id := None)\<rparr>, Inr ())))"

definition handle_wt_uni_stream_data ::
    "(u64 set \<Rightarrow> u64 list) \<Rightarrow> connection \<Rightarrow> u64 \<Rightarrow> bytes \<Rightarrow> bool outcome" where
  "handle_wt_uni_stream_data ord c stream_id data =
    (case cn_wt_uni_streams c stream_id of
       None \<Rightarrow> Some (c, Inr False)
     | Some session_id \<Rightarrow>
         if is_local_initiated_uni c (kind_from_stream_id stream_id) then Some (c, Inr True)
         else if session_pending c session_id then
           Some (fst (buffer_stream_data c False stream_id session_id data), Inr True)
         else
           map_option (\<lambda>(c, _). (c, Inr True))
             (deliver_stream_data ord c False stream_id session_id data))"

definition handle_wt_uni_stream_fin :: "connection \<Rightarrow> u64 \<Rightarrow> connection \<times> bool" where
  "handle_wt_uni_stream_fin c stream_id =
    (case cn_wt_uni_streams c stream_id of
       None \<Rightarrow> (c, False)
     | Some session_id \<Rightarrow>
         if is_local_initiated_uni c (kind_from_stream_id stream_id) then (c, True)
         else if session_pending c session_id then
           (update_session c session_id (\<lambda>s. ws_mark_buffered_stream_fin s stream_id), True)
         else
           (push_event (finish_remote_stream c False stream_id session_id) (end_event False stream_id), True))"

end
