(* ===== verification/Connection.thy ===== *)
theory Connection
  imports Conn_Wt_Capsule Conn_Wt_Stream
begin

text \<open>
  The operations of a connection (\<^verbatim>\<open>src/connection/mod.rs\<close>): what arrives on a stream is dispatched to
  the critical streams, to WebTransport or to a request stream; what the application sends is
  validated, encoded and queued.
\<close>

section \<open>Headers received\<close>

definition MAX_DEFERRED_WT_CONNECTS :: usize where
  "MAX_DEFERRED_WT_CONNECTS = 16"

text \<open>A section of request or response headers (the branch of \<^verbatim>\<open>emit_header_events\<close> that is not for trailers):
  the flag tells that the request waits for the SETTINGS of the peer, so that no event is due yet.\<close>

definition receive_message_headers ::
    "(u64 set \<Rightarrow> u64 list) \<Rightarrow> connection \<Rightarrow> u64 \<Rightarrow> header list \<Rightarrow> bool outcome" where
  "receive_message_headers ord c stream_id headers =
    tryC c (validate_headers headers (cn_role c)) (\<lambda>_.
    tryC c (validate_wt_connect_request_server c stream_id headers) (\<lambda>_.
    if cn_role c = Server \<and> cn_peer_settings c = None \<and> is_webtransport_connect headers then
      if MAX_DEFERRED_WT_CONNECTS \<le> card (dom (cn_deferred_wt_connects c)) then
        Some (c, stream_err MessageError)
      else
        let c = c\<lparr>cn_deferred_wt_connects := (cn_deferred_wt_connects c)(stream_id \<mapsto> headers)\<rparr>;
            c = acknowledge_section c stream_id in
        Some (update_stream c stream_id (\<lambda>s. rs_set_recv_headers s headers), Inr True)
    else
      let c = register_wt_connect_session c stream_id headers;
          c = (if cn_role c = Server \<and> is_plain_connect headers then update_stream c stream_id rs_set_connect else c);
          c = (if cn_role c = Client \<and> is_informational_status headers then
                 update_stream c stream_id notify_informational else c);
          c = (if cn_role c = Client \<and> is_success_status headers \<and>
                 is_some_and (cn_streams c stream_id) rs_is_connect_request then
                 update_stream c stream_id rs_set_connect else c) in
      bindC (handle_wt_connect_response ord c stream_id headers) (\<lambda>c _. Some (c, Inr False))))"

definition emit_header_events ::
    "(u64 set \<Rightarrow> u64 list) \<Rightarrow> connection \<Rightarrow> u64 \<Rightarrow> header list \<Rightarrow> bool \<Rightarrow> unit outcome" where
  "emit_header_events ord c stream_id headers is_trailer =
    bindC
      (if is_trailer then tryC c (validate_trailer_headers headers) (\<lambda>_. Some (c, Inr False))
       else receive_message_headers ord c stream_id headers)
      (\<lambda>c is_deferred.
       if is_deferred then Some (c, Inr ())
       else
         let c = (if is_trailer then c else update_stream c stream_id (\<lambda>s. rs_set_recv_headers s headers));
             c = acknowledge_section c stream_id in
         Some (push_header_events c stream_id headers, Inr ()))"

section \<open>Frames of a request stream\<close>

definition block_stream :: "connection \<Rightarrow> u64 \<Rightarrow> bytes \<Rightarrow> bool \<Rightarrow> connection" where
  "block_stream c stream_id encoded is_trailer =
    (let ricnt = dd_last_ric (cn_qpack_decoder c);
         c = update_stream c stream_id (\<lambda>s. rs_set_qpack_blocked s True ricnt (Some (encoded, is_trailer))) in
     c\<lparr>cn_blocked_by_ricnt := insort_insert (ricnt, stream_id) (cn_blocked_by_ricnt c)\<rparr>)"

text \<open>The result \<open>True\<close> continues the loop over the frames, \<open>False\<close> leaves it.\<close>

definition receive_section ::
    "(u64 set \<Rightarrow> u64 list) \<Rightarrow> connection \<Rightarrow> u64 \<Rightarrow> bytes \<Rightarrow> bool \<Rightarrow> bool outcome" where
  "receive_section ord c stream_id encoded is_trailer =
    (case dd_decode (cn_qpack_decoder c) encoded of
       (d, res) \<Rightarrow>
         let c = c\<lparr>cn_qpack_decoder := d\<rparr> in
         case res of
           Inl e \<Rightarrow> Some (c, Inl (Qpack e))
         | Inr (Decoded headers) \<Rightarrow>
             bindC (emit_header_events ord c stream_id headers is_trailer) (\<lambda>c _. Some (c, Inr True))
         | Inr Blocked \<Rightarrow>
             if lim_qpack_blocked_streams (cn_limits c) \<le> length (cn_blocked_by_ricnt c) then
               Some (c, conn_err QpackDecompressionFailed)
             else Some (block_stream c stream_id encoded is_trailer, Inr False))"

definition skips_body_check :: "connection \<Rightarrow> request_stream \<Rightarrow> header list \<Rightarrow> bool" where
  "skips_body_check c stream headers \<longleftrightarrow>
    cn_role c = Client \<and> (rs_is_head_request stream \<or> is_no_body_status headers)"

definition receive_stream_end ::
    "(u64 set \<Rightarrow> u64 list) \<Rightarrow> connection \<Rightarrow> u64 \<Rightarrow> bool outcome" where
  "receive_stream_end ord c stream_id =
    tryC c
      (case cn_streams c stream_id of
         None \<Rightarrow> Inr ()
       | Some stream \<Rightarrow>
           let headers = rs_recv_headers stream in
           validate_content_length headers (length (rs_recv_body stream)) (skips_body_check c stream headers))
      (\<lambda>_.
       bindC (handle_wt_stream_end ord c stream_id) (\<lambda>c _.
       Some (if stream_id \<in> cn_closed_wt_sessions c then c else push_event c (StreamEnd stream_id), Inr True)))"

fun handle_received ::
    "(u64 set \<Rightarrow> u64 list) \<Rightarrow> connection \<Rightarrow> u64 \<Rightarrow> raw_received_data \<Rightarrow> bool outcome" where
  "handle_received ord c stream_id (RawHeaders encoded) = receive_section ord c stream_id encoded False"
| "handle_received ord c stream_id (RawTrailers encoded) = receive_section ord c stream_id encoded True"
| "handle_received ord c stream_id (RawData data) =
    bindC (handle_wt_data_frame ord c stream_id data) (\<lambda>c taken.
    Some (if taken then c else push_event c (DataReceived stream_id data), Inr True))"
| "handle_received ord c stream_id RawStreamEnd = receive_stream_end ord c stream_id"

text \<open>\<^verbatim>\<open>expect("stream must exist while processing frames")\<close> is the first \<open>None\<close>.\<close>

partial_function (option) process_stream_frames ::
    "(u64 set \<Rightarrow> u64 list) \<Rightarrow> connection \<Rightarrow> u64 \<Rightarrow> unit outcome" where
  "process_stream_frames ord c stream_id =
    (case cn_streams c stream_id of
       None \<Rightarrow> None
     | Some stream \<Rightarrow>
         (case process_raw stream of
            (stream, Inl e) \<Rightarrow> Some (c\<lparr>cn_streams := (cn_streams c)(stream_id \<mapsto> stream)\<rparr>, Inl e)
          | (stream, Inr None) \<Rightarrow>
              Some (remove_stream_if_done (c\<lparr>cn_streams := (cn_streams c)(stream_id \<mapsto> stream)\<rparr>) stream_id, Inr ())
          | (stream, Inr (Some raw)) \<Rightarrow>
              (case handle_received ord (c\<lparr>cn_streams := (cn_streams c)(stream_id \<mapsto> stream)\<rparr>) stream_id raw of
                 None \<Rightarrow> None
               | Some (c, Inl e) \<Rightarrow> Some (c, Inl e)
               | Some (c, Inr continues) \<Rightarrow>
                   if continues then process_stream_frames ord c stream_id
                   else Some (remove_stream_if_done c stream_id, Inr ()))))"

definition new_request_stream :: "connection \<Rightarrow> u64 \<Rightarrow> request_stream" where
  "new_request_stream c stream_id =
    rs_set_max_received_body_size (rs_new stream_id (cn_role c)) (lim_max_received_body_size (cn_limits c))"

definition handle_bidirectional_stream ::
    "(u64 set \<Rightarrow> u64 list) \<Rightarrow> connection \<Rightarrow> u64 \<Rightarrow> bytes \<Rightarrow> bool \<Rightarrow> unit outcome" where
  "handle_bidirectional_stream ord c stream_id data fin =
    (if stream_id \<in> cn_closed_wt_sessions c then
       if data = [] \<and> fin then Some (c, Inr ()) else Some (c, stream_err MessageError)
     else if cn_role c = Server \<and> cn_streams c stream_id = None \<and>
         is_some_and (cn_last_sent_goaway_id c) (\<lambda>goaway_id. vget goaway_id \<le> stream_id) then
       Some (c, stream_err RequestRejected)
     else
       let stream = (case cn_streams c stream_id of None \<Rightarrow> new_request_stream c stream_id | Some s \<Rightarrow> s);
           stream = rs_receive stream data fin;
           c = c\<lparr>cn_streams := (cn_streams c)(stream_id \<mapsto> stream)\<rparr> in
       if rs_qpack_blocked stream then Some (c, Inr ())
       else process_stream_frames ord c stream_id)"

section \<open>Blocked streams\<close>

definition unblock_stream ::
    "(u64 set \<Rightarrow> u64 list) \<Rightarrow> connection \<Rightarrow> u64 \<Rightarrow> header list \<Rightarrow> bool \<Rightarrow> unit outcome" where
  "unblock_stream ord c stream_id headers is_trailer =
    (let c = update_stream c stream_id (\<lambda>s. rs_set_qpack_blocked s False 0 None) in
     tryC c
       (case cn_streams c stream_id of
          None \<Rightarrow> Inr ()
        | Some stream \<Rightarrow>
            if \<not> is_trailer \<and> (rs_state stream = SsRemoteClosed \<or> rs_state stream = SsClosed) then
              validate_content_length headers (length (rs_recv_body stream)) (skips_body_check c stream headers)
            else Inr ())
       (\<lambda>_.
        bindC (emit_header_events ord c stream_id headers is_trailer) (\<lambda>c _.
        process_stream_frames ord c stream_id)))"

fun retry_streams :: "(u64 set \<Rightarrow> u64 list) \<Rightarrow> connection \<Rightarrow> (u64 \<times> u64) list \<Rightarrow> unit outcome" where
  "retry_streams ord c [] = Some (c, Inr ())"
| "retry_streams ord c ((_, stream_id) # rest) =
    (case Option.bind (cn_streams c stream_id) rs_qpack_blocked_header of
       None \<Rightarrow> retry_streams ord c rest
     | Some (encoded, is_trailer) \<Rightarrow>
         let c = update_stream c stream_id (\<lambda>s. fst (rs_take_qpack_blocked_header s)) in
         case dd_decode (cn_qpack_decoder c) encoded of
           (d, res) \<Rightarrow>
             let c = c\<lparr>cn_qpack_decoder := d\<rparr> in
             case res of
               Inl e \<Rightarrow> Some (c, Inl (Qpack e))
             | Inr (Decoded headers) \<Rightarrow>
                 bindC (unblock_stream ord c stream_id headers is_trailer) (\<lambda>c _. retry_streams ord c rest)
             | Inr Blocked \<Rightarrow> retry_streams ord (block_stream c stream_id encoded is_trailer) rest)"

definition retry_blocked_streams :: "(u64 set \<Rightarrow> u64 list) \<Rightarrow> connection \<Rightarrow> unit outcome" where
  "retry_blocked_streams ord c =
    (if cn_blocked_by_ricnt c = [] then Some (c, Inr ())
     else
       let insert_count = dt_insert_count (dd_table (cn_qpack_decoder c));
           unblockable = takeWhile (\<lambda>(ricnt, _). ricnt \<le> insert_count) (cn_blocked_by_ricnt c) in
       if unblockable = [] then Some (c, Inr ())
       else
         retry_streams ord
           (c\<lparr>cn_blocked_by_ricnt := foldl (\<lambda>bs x. remove1 x bs) (cn_blocked_by_ricnt c) unblockable\<rparr>)
           unblockable)"

section \<open>Critical streams\<close>

partial_function (option) process_encoder_stream :: "connection \<Rightarrow> unit outcome" where
  "process_encoder_stream c =
    (case esr_process (cn_encoder_stream_recv c) (dd_table (cn_qpack_decoder c)) of
       (r, t, res) \<Rightarrow>
         (case res of
            Inl _ \<Rightarrow>
              Some (c\<lparr>cn_encoder_stream_recv := r, cn_qpack_decoder := (cn_qpack_decoder c)\<lparr>dd_table := t\<rparr>\<rparr>,
                conn_err QpackEncoderStreamError)
          | Inr None \<Rightarrow>
              Some (c\<lparr>cn_encoder_stream_recv := r, cn_qpack_decoder := (cn_qpack_decoder c)\<lparr>dd_table := t\<rparr>\<rparr>,
                Inr ())
          | Inr (Some _) \<Rightarrow>
              process_encoder_stream
                (c\<lparr>cn_encoder_stream_recv := r, cn_qpack_decoder := (cn_qpack_decoder c)\<lparr>dd_table := t\<rparr>\<rparr>)))"

definition handle_decoder_instruction :: "connection \<Rightarrow> decoder_instruction \<Rightarrow> connection \<times> (h3_error + unit)" where
  "handle_decoder_instruction c instruction =
    (case instruction of
       InsertCountIncrement _ \<Rightarrow>
         (c\<lparr>cn_qpack_encoder :=
             qe_acknowledge (cn_qpack_encoder c) (dsr_known_received_count (cn_decoder_stream_recv c))\<rparr>, Inr ())
     | SectionAcknowledgment stream_id \<Rightarrow>
         (case qe_ack_section (cn_qpack_encoder c) stream_id of
            (e, r) \<Rightarrow>
              (c\<lparr>cn_qpack_encoder := e\<rparr>, map_err (\<lambda>_. ConnectionError QpackDecoderStreamError) r))
     | StreamCancellation stream_id \<Rightarrow>
         (c\<lparr>cn_qpack_encoder := qe_cancel_stream (cn_qpack_encoder c) stream_id\<rparr>, Inr ()))"

partial_function (option) process_decoder_loop :: "u64 \<Rightarrow> connection \<Rightarrow> unit outcome" where
  "process_decoder_loop total_insert_count c =
    (case dsr_process (cn_decoder_stream_recv c) total_insert_count of
       (r, Inl _) \<Rightarrow> Some (c\<lparr>cn_decoder_stream_recv := r\<rparr>, conn_err QpackDecoderStreamError)
     | (r, Inr None) \<Rightarrow> Some (c\<lparr>cn_decoder_stream_recv := r\<rparr>, Inr ())
     | (r, Inr (Some instruction)) \<Rightarrow>
         (case handle_decoder_instruction (c\<lparr>cn_decoder_stream_recv := r\<rparr>) instruction of
            (c, Inl e) \<Rightarrow> Some (c, Inl e)
          | (c, Inr _) \<Rightarrow> process_decoder_loop total_insert_count c))"

definition process_decoder_stream :: "connection \<Rightarrow> unit outcome" where
  "process_decoder_stream c =
    process_decoder_loop (dt_insert_count (qe_table (cn_qpack_encoder c))) c"

section \<open>Control stream\<close>

text \<open>\<^verbatim>\<open>expect("use_capacity is clamped to max_table_capacity")\<close> is the \<open>None\<close>.\<close>

definition apply_peer_capacity :: "connection \<Rightarrow> u64 \<Rightarrow> unit outcome" where
  "apply_peer_capacity c capacity =
    (let use_capacity = min capacity (lim_qpack_max_table_capacity (cn_limits c));
         c = c\<lparr>cn_encoder_stream := es_set_max_table_capacity (cn_encoder_stream c) capacity\<rparr> in
     case qe_set_table_capacity (qe_set_max_table_capacity (cn_qpack_encoder c) capacity) use_capacity of
       (e, Inl _) \<Rightarrow> None
     | (e, Inr _) \<Rightarrow>
         let c = c\<lparr>cn_qpack_encoder := e\<rparr> in
         if 0 < use_capacity then
           if cn_encoder_stream_id c \<noteq> None then conn_encode_set_capacity c use_capacity
           else Some (c\<lparr>cn_deferred_encoder_set_capacity := Some use_capacity\<rparr>, Inr ())
         else Some (c, Inr ()))"

definition applies_previous_settings :: "connection \<Rightarrow> h3_settings \<Rightarrow> bool" where
  "applies_previous_settings c settings \<longleftrightarrow>
    (case select_wt_draft_version c (Some settings) of
       Some Draft14 \<Rightarrow> True
     | Some Draft15 \<Rightarrow> True
     | Some _ \<Rightarrow> False
     | None \<Rightarrow>
         is_some_and (local_wt c) (\<lambda>wt.
           (advertises_draft_version wt Draft14 \<or> advertises_draft_version wt Draft15) \<and>
           \<not> advertises_draft_version wt Draft17) \<and>
         \<not> is_some_and (wt_part settings) (\<lambda>wt. advertises_draft_version wt Draft17))"

definition opt_vget :: "varint option \<Rightarrow> u64" where
  "opt_vget v = (case v of None \<Rightarrow> 0 | Some x \<Rightarrow> vget x)"

definition settings_reduced :: "connection \<Rightarrow> h3_settings \<Rightarrow> wt_settings \<Rightarrow> bool" where
  "settings_reduced c settings prev \<longleftrightarrow>
    (let selected_draft = select_wt_draft_version c (Some settings);
         limit = (\<lambda>f. case wt_part settings of None \<Rightarrow> 0 | Some wt \<Rightarrow> vget (f wt));
         compares_max_sessions =
           (selected_draft = Some Draft14 \<or>
            (selected_draft = None \<and> is_some_and (local_wt c) (\<lambda>wt. advertises_draft_version wt Draft14)));
         new_max_sessions = opt_vget (Option.bind (wt_part settings) wt_max_sessions_draft14);
         prev_max_sessions = opt_vget (wt_max_sessions_draft14 prev) in
     limit wt_initial_max_streams_uni < vget (wt_initial_max_streams_uni prev) \<or>
     limit wt_initial_max_streams_bidi < vget (wt_initial_max_streams_bidi prev) \<or>
     limit wt_initial_max_data < vget (wt_initial_max_data prev) \<or>
     (compares_max_sessions \<and> new_max_sessions < prev_max_sessions))"

fun redispatch_pending ::
    "(u64 set \<Rightarrow> u64 list) \<Rightarrow> bool \<Rightarrow> connection \<Rightarrow> (u64 \<times> pending_wt_bidi) list \<Rightarrow> unit outcome" where
  "redispatch_pending ord negotiated c [] = Some (c, Inr ())"
| "redispatch_pending ord negotiated c ((stream_id, entry) # rest) =
    (if negotiated then
       bindC (handle_wt_bidi_stream ord c stream_id (pw_data entry) (pw_fin entry)) (\<lambda>c _.
       redispatch_pending ord negotiated c rest)
     else
       redispatch_pending ord negotiated
         (push_event
           (c\<lparr>cn_ignored_pre_negotiation := insert stream_id (cn_ignored_pre_negotiation c)\<rparr>)
           (reject_event stream_id BufferedStreamRejected)) rest)"

definition process_pending_wt_bidi_pre_negotiation ::
    "(u64 set \<Rightarrow> u64 list) \<Rightarrow> connection \<Rightarrow> unit outcome" where
  "process_pending_wt_bidi_pre_negotiation ord c =
    redispatch_pending ord (is_wt_fully_negotiated c) (c\<lparr>cn_pending_pre_negotiation := Map.empty\<rparr>)
      (entries ord (cn_pending_pre_negotiation c))"

definition handle_settings_frame ::
    "(u64 set \<Rightarrow> u64 list) \<Rightarrow> connection \<Rightarrow> settings_payload \<Rightarrow> unit outcome" where
  "handle_settings_frame ord c payload =
    (let settings = settings_from_payload payload in
     bindC
       (case qpack_max_table_capacity settings of
          None \<Rightarrow> Some (c, Inr ())
        | Some capacity \<Rightarrow> apply_peer_capacity c (vget capacity))
       (\<lambda>c _.
        let c = (case qpack_blocked_streams settings of
              None \<Rightarrow> c
            | Some blocked \<Rightarrow>
                c\<lparr>cn_qpack_encoder := qe_set_peer_max_blocked_streams (cn_qpack_encoder c) (vget blocked)\<rparr>) in
        if cn_role c = Client \<and>
          is_some_and (wt_part settings) (\<lambda>wt. 1 < vget (wt_enabled wt) \<or> 1 < vget (wt_enabled_draft17 wt)) then
          Some (c, conn_err SettingsError)
        else if cn_role c = Client \<and> applies_previous_settings c settings \<and>
          is_some_and (cn_previous_wt_settings c) (settings_reduced c settings) then
          Some (c, conn_err SettingsError)
        else
          let c = push_event (c\<lparr>cn_peer_settings := Some settings\<rparr>)
                (SettingsReceived settings (wt_part settings)) in
          bindC (process_deferred_wt_connects ord c) (\<lambda>c _.
          process_pending_wt_bidi_pre_negotiation ord c)))"

definition start_draining :: "connection \<Rightarrow> u64 \<Rightarrow> connection" where
  "start_draining c session_id =
    push_event (update_session c session_id (\<lambda>s. s\<lparr>ws_state := WsDraining\<rparr>))
      (WebTransport (WtDraining session_id))"

definition draining_sessions :: "(u64 set \<Rightarrow> u64 list) \<Rightarrow> connection \<Rightarrow> u64 \<Rightarrow> u64 list" where
  "draining_sessions ord c goaway_id =
    filter
      (\<lambda>sid. goaway_id \<le> sid \<and>
        is_some_and (cn_wt_sessions c sid) (\<lambda>s. ws_state s = WsEstablished \<or> ws_state s = WsPending))
      (ord (dom (cn_wt_sessions c)))"

definition handle_goaway_frame ::
    "(u64 set \<Rightarrow> u64 list) \<Rightarrow> connection \<Rightarrow> varint \<Rightarrow> unit outcome" where
  "handle_goaway_frame ord c goaway_id =
    (if cn_role c = Client \<and> vget goaway_id mod 4 \<noteq> 0 then Some (c, conn_err IdError)
     else if is_some_and (cn_peer_goaway_last_id c) (\<lambda>prev_id. vget prev_id < vget goaway_id) then
       Some (c, conn_err IdError)
     else
       let c = push_event (c\<lparr>cn_peer_goaway_last_id := Some goaway_id\<rparr>) (GoawayReceived goaway_id) in
       if cn_role c = Client then
         Some (foldl start_draining c (draining_sessions ord c (vget goaway_id)), Inr ())
       else Some (c, Inr ()))"

definition handle_max_push_id_frame :: "connection \<Rightarrow> varint \<Rightarrow> unit outcome" where
  "handle_max_push_id_frame c v =
    (if cn_role c = Client then Some (c, conn_err FrameUnexpected)
     else if is_some_and (cn_max_push_id c) (\<lambda>prev. vget v < vget prev) then Some (c, conn_err IdError)
     else Some (c\<lparr>cn_max_push_id := Some v\<rparr>, Inr ()))"

definition handle_control_frame ::
    "(u64 set \<Rightarrow> u64 list) \<Rightarrow> connection \<Rightarrow> frame \<Rightarrow> unit outcome" where
  "handle_control_frame ord c frame =
    (case frame of
       SettingsFrame payload \<Rightarrow> handle_settings_frame ord c payload
     | GoawayFrame goaway_id \<Rightarrow> handle_goaway_frame ord c goaway_id
     | MaxPushIdFrame v \<Rightarrow> handle_max_push_id_frame c v
     | _ \<Rightarrow> Some (c, Inr ()))"

partial_function (option) process_control_stream ::
    "(u64 set \<Rightarrow> u64 list) \<Rightarrow> connection \<Rightarrow> unit outcome" where
  "process_control_stream ord c =
    (case cr_process (cn_control_recv c) of
       (r, Inl e) \<Rightarrow> Some (c\<lparr>cn_control_recv := r\<rparr>, Inl e)
     | (r, Inr None) \<Rightarrow> Some (c\<lparr>cn_control_recv := r\<rparr>, Inr ())
     | (r, Inr (Some frame)) \<Rightarrow>
         (case handle_control_frame ord (c\<lparr>cn_control_recv := r\<rparr>) frame of
            None \<Rightarrow> None
          | Some (c, Inl e) \<Rightarrow> Some (c, Inl e)
          | Some (c, Inr _) \<Rightarrow> process_control_stream ord c))"

section \<open>Unidirectional streams\<close>

text \<open>The critical streams, which may not end; for the control stream an incomplete frame comes first.\<close>

definition critical_fin :: "connection \<Rightarrow> u64 \<Rightarrow> h3_error + unit" where
  "critical_fin c stream_id =
    (if cr_stream_id (cn_control_recv c) = Some stream_id then
       if cr_has_pending_data (cn_control_recv c) then conn_err FrameError
       else conn_err ClosedCriticalStream
     else if cn_peer_encoder_stream_id c = Some stream_id \<or> cn_peer_decoder_stream_id c = Some stream_id then
       conn_err ClosedCriticalStream
     else Inr ())"

definition receive_control :: "(u64 set \<Rightarrow> u64 list) \<Rightarrow> connection \<Rightarrow> bytes \<Rightarrow> unit outcome" where
  "receive_control ord c data =
    process_control_stream ord (c\<lparr>cn_control_recv := cr_receive (cn_control_recv c) data\<rparr>)"

definition receive_encoder :: "connection \<Rightarrow> bytes \<Rightarrow> unit outcome" where
  "receive_encoder c data =
    process_encoder_stream (c\<lparr>cn_encoder_stream_recv := esr_receive (cn_encoder_stream_recv c) data\<rparr>)"

definition receive_decoder :: "connection \<Rightarrow> bytes \<Rightarrow> unit outcome" where
  "receive_decoder c data =
    process_decoder_stream (c\<lparr>cn_decoder_stream_recv := dsr_receive (cn_decoder_stream_recv c) data\<rparr>)"

definition open_uni_stream ::
    "(u64 set \<Rightarrow> u64 list) \<Rightarrow> connection \<Rightarrow> u64 \<Rightarrow> u64 \<Rightarrow> bytes \<Rightarrow> unit outcome" where
  "open_uni_stream ord c stream_id stream_type remaining =
    (if stream_type = 0x00 then
       if cr_stream_id (cn_control_recv c) \<noteq> None then Some (c, conn_err StreamCreationError)
       else
         let c = c\<lparr>cn_control_recv := cr_skip_stream_type (cr_set_stream_id (cn_control_recv c) stream_id)\<rparr> in
         if remaining = [] then Some (c, Inr ()) else receive_control ord c remaining
     else if stream_type = 0x02 then
       if cn_peer_encoder_stream_id c \<noteq> None then Some (c, conn_err StreamCreationError)
       else
         let c = c\<lparr>cn_peer_encoder_stream_id := Some stream_id\<rparr> in
         if remaining = [] then Some (c, Inr ()) else receive_encoder c remaining
     else if stream_type = 0x03 then
       if cn_peer_decoder_stream_id c \<noteq> None then Some (c, conn_err StreamCreationError)
       else
         let c = c\<lparr>cn_peer_decoder_stream_id := Some stream_id\<rparr> in
         if remaining = [] then Some (c, Inr ()) else receive_decoder c remaining
     else if stream_type = 0x01 then
       Some (c, conn_err (if cn_role c = Server then StreamCreationError else IdError))
     else if stream_type = 0x54 then
       if \<not> is_wt_fully_negotiated c then Some (c, stream_err StreamCreationError)
       else resolve_wt_uni_stream_session_id ord c stream_id remaining
     else Some (c\<lparr>cn_ignored_uni_streams := insert stream_id (cn_ignored_uni_streams c)\<rparr>, Inr ()))"

definition handle_new_unidirectional_stream ::
    "(u64 set \<Rightarrow> u64 list) \<Rightarrow> connection \<Rightarrow> u64 \<Rightarrow> bytes \<Rightarrow> bool \<Rightarrow> unit outcome" where
  "handle_new_unidirectional_stream ord c stream_id data fin =
    (let type_data = (case cn_pending_uni_streams c stream_id of None \<Rightarrow> data | Some buf \<Rightarrow> buf @ data);
         forget = c\<lparr>cn_pending_uni_streams := (cn_pending_uni_streams c)(stream_id := None)\<rparr> in
     case varint_decode type_data of
       Inl _ \<Rightarrow>
         if fin then Some (forget, Inr ())
         else
           Some (c\<lparr>cn_pending_uni_streams := (cn_pending_uni_streams c)(stream_id \<mapsto> type_data)\<rparr>, Inr ())
     | Inr (stream_type, type_len) \<Rightarrow>
         bindC (open_uni_stream ord forget stream_id (vget stream_type) (drop type_len type_data)) (\<lambda>c _.
         if \<not> fin then Some (c, Inr ())
         else tryC c (critical_fin c stream_id) (\<lambda>_.
           let c = (if cn_wt_uni_streams c stream_id \<noteq> None then
                 push_event (c\<lparr>cn_wt_uni_streams := (cn_wt_uni_streams c)(stream_id := None)\<rparr>)
                   (end_event False stream_id)
               else c) in
           Some (c\<lparr>cn_pending_wt_uni_streams := (cn_pending_wt_uni_streams c)(stream_id := None)\<rparr>, Inr ()))))"

text \<open>Data on a unidirectional stream whose type is known already.\<close>

definition known_uni_stream :: "connection \<Rightarrow> u64 \<Rightarrow> bool" where
  "known_uni_stream c stream_id \<longleftrightarrow>
    cr_stream_id (cn_control_recv c) = Some stream_id \<or> cn_peer_encoder_stream_id c = Some stream_id \<or>
    cn_peer_decoder_stream_id c = Some stream_id \<or> cn_wt_uni_streams c stream_id \<noteq> None \<or>
    cn_pending_wt_uni_streams c stream_id \<noteq> None"

definition known_uni_data ::
    "(u64 set \<Rightarrow> u64 list) \<Rightarrow> connection \<Rightarrow> u64 \<Rightarrow> bytes \<Rightarrow> unit outcome" where
  "known_uni_data ord c stream_id data =
    (if cr_stream_id (cn_control_recv c) = Some stream_id then receive_control ord c data
     else if cn_peer_encoder_stream_id c = Some stream_id then receive_encoder c data
     else if cn_peer_decoder_stream_id c = Some stream_id then receive_decoder c data
     else if cn_wt_uni_streams c stream_id \<noteq> None then
       bindC (handle_wt_uni_stream_data ord c stream_id data) (\<lambda>c _. Some (c, Inr ()))
     else resolve_wt_uni_stream_session_id ord c stream_id data)"

definition handle_unidirectional_stream ::
    "(u64 set \<Rightarrow> u64 list) \<Rightarrow> connection \<Rightarrow> u64 \<Rightarrow> bytes \<Rightarrow> bool \<Rightarrow> unit outcome" where
  "handle_unidirectional_stream ord c stream_id data fin =
    (if stream_id \<in> cn_ignored_uni_streams c then Some (c, Inr ())
     else if is_local_initiated_uni c (kind_from_stream_id stream_id) then Some (c, Inr ())
     else if data \<noteq> [] \<and> \<not> known_uni_stream c stream_id then
       handle_new_unidirectional_stream ord c stream_id data fin
     else
       bindC (if data \<noteq> [] then known_uni_data ord c stream_id data else Some (c, Inr ())) (\<lambda>c _.
       if \<not> fin then Some (c, Inr ())
       else tryC c (critical_fin c stream_id) (\<lambda>_.
         let c = fst (handle_wt_uni_stream_fin c stream_id) in
         Some (c\<lparr>cn_pending_wt_uni_streams := (cn_pending_wt_uni_streams c)(stream_id := None),
                 cn_pending_uni_streams := (cn_pending_uni_streams c)(stream_id := None)\<rparr>, Inr ()))))"

section \<open>Dispatch\<close>

definition reject_pre_negotiation :: "connection \<Rightarrow> u64 \<Rightarrow> connection" where
  "reject_pre_negotiation c stream_id =
    push_event (c\<lparr>cn_ignored_pre_negotiation := insert stream_id (cn_ignored_pre_negotiation c)\<rparr>)
      (reject_event stream_id BufferedStreamRejected)"

definition buffer_pre_negotiation_wt_bidi :: "connection \<Rightarrow> u64 \<Rightarrow> bytes \<Rightarrow> bool \<Rightarrow> unit outcome" where
  "buffer_pre_negotiation_wt_bidi c stream_id data fin =
    (if cn_pending_pre_negotiation c stream_id = None \<and>
       MAX_BUFFERED_STREAMS \<le> card (dom (cn_pending_pre_negotiation c)) then
       Some (reject_pre_negotiation c stream_id, Inr ())
     else
       let entry = (case cn_pending_pre_negotiation c stream_id of
             None \<Rightarrow> \<lparr>pw_data = [], pw_fin = False\<rparr> | Some entry \<Rightarrow> entry) in
       if WT_MAX_BUFFERED_STREAM_BYTES < sat_add (length (pw_data entry)) (length data) then
         Some (reject_pre_negotiation
           (c\<lparr>cn_pending_pre_negotiation := (cn_pending_pre_negotiation c)(stream_id := None)\<rparr>) stream_id, Inr ())
       else
         Some (c\<lparr>cn_pending_pre_negotiation := (cn_pending_pre_negotiation c)(stream_id \<mapsto>
             \<lparr>pw_data = pw_data entry @ data, pw_fin = (if fin then True else pw_fin entry)\<rparr>)\<rparr>, Inr ()))"

definition dispatch_wt_bidi ::
    "(u64 set \<Rightarrow> u64 list) \<Rightarrow> connection \<Rightarrow> u64 \<Rightarrow> bytes \<Rightarrow> bool \<Rightarrow> unit outcome" where
  "dispatch_wt_bidi ord c stream_id buf fin =
    (if is_wt_fully_negotiated c then handle_wt_bidi_stream ord c stream_id buf fin
     else if cn_peer_settings c \<noteq> None then Some (reject_pre_negotiation c stream_id, Inr ())
     else buffer_pre_negotiation_wt_bidi c stream_id buf fin)"

definition dispatch_client_bidi_stream ::
    "(u64 set \<Rightarrow> u64 list) \<Rightarrow> connection \<Rightarrow> u64 \<Rightarrow> bytes \<Rightarrow> bool \<Rightarrow> unit outcome" where
  "dispatch_client_bidi_stream ord c stream_id data fin =
    (let buf = (case cn_pending_bidi_dispatch c stream_id of None \<Rightarrow> data | Some pending \<Rightarrow> pending @ data);
         forget = c\<lparr>cn_pending_bidi_dispatch := (cn_pending_bidi_dispatch c)(stream_id := None)\<rparr>;
         wait = c\<lparr>cn_pending_bidi_dispatch := (cn_pending_bidi_dispatch c)(stream_id \<mapsto> buf)\<rparr> in
     if buf = [] then
       if fin then handle_bidirectional_stream ord forget stream_id [] fin else Some (wait, Inr ())
     else if drop_bit 6 (buf ! 0) = 0 then handle_bidirectional_stream ord forget stream_id buf fin
     else case varint_decode buf of
       Inr (v, _) \<Rightarrow>
         if vget v = BIDIRECTIONAL_SIGNAL_VALUE then dispatch_wt_bidi ord forget stream_id buf fin
         else handle_bidirectional_stream ord forget stream_id buf fin
     | Inl _ \<Rightarrow> if fin then Some (forget, conn_err FrameError) else Some (wait, Inr ()))"

definition dispatch_stream ::
    "(u64 set \<Rightarrow> u64 list) \<Rightarrow> connection \<Rightarrow> u64 \<Rightarrow> bytes \<Rightarrow> bool \<Rightarrow> unit outcome" where
  "dispatch_stream ord c stream_id data fin =
    (let kind = kind_from_stream_id stream_id in
     if kind_is_unidirectional kind then handle_unidirectional_stream ord c stream_id data fin
     else if cn_role c = Client \<and> kind_is_server_initiated kind then
       if is_wt_fully_negotiated c then handle_wt_bidi_stream ord c stream_id data fin
       else Some (c, conn_err StreamCreationError)
     else if cn_wt_bidi_streams c stream_id \<noteq> None \<or> cn_pending_wt_bidi_streams c stream_id \<noteq> None then
       handle_wt_bidi_stream ord c stream_id data fin
     else if cn_pending_bidi_dispatch c stream_id \<noteq> None then
       dispatch_client_bidi_stream ord c stream_id data fin
     else if stream_id \<in> cn_ignored_pre_negotiation c then Some (c, Inr ())
     else if cn_pending_pre_negotiation c stream_id \<noteq> None then
       buffer_pre_negotiation_wt_bidi c stream_id data fin
     else if cn_role c = Server \<and> kind_is_client_initiated kind \<and> cn_streams c stream_id = None then
       dispatch_client_bidi_stream ord c stream_id data fin
     else
       map_option (\<lambda>(c, r). (remove_stream_if_done c stream_id, r))
         (handle_bidirectional_stream ord c stream_id data fin))"

definition feed_stream ::
    "(u64 set \<Rightarrow> u64 list) \<Rightarrow> connection \<Rightarrow> u64 \<Rightarrow> bytes \<Rightarrow> bool \<Rightarrow> unit outcome" where
  "feed_stream ord c stream_id data fin =
    (case cn_error c of
       Some e \<Rightarrow> Some (c, Inl e)
     | None \<Rightarrow> remember_connection_error (dispatch_stream ord c stream_id data fin))"

section \<open>Events and data to send\<close>

definition poll_event :: "(u64 set \<Rightarrow> u64 list) \<Rightarrow> connection \<Rightarrow> event option outcome" where
  "poll_event ord c =
    remember_connection_error
      (tryC c (check_error_state c) (\<lambda>_.
       bindC (retry_blocked_streams ord c) (\<lambda>c _.
       case cn_events c of
         [] \<Rightarrow> Some (c, Inr None)
       | e # es \<Rightarrow> Some (c\<lparr>cn_events := es\<rparr>, Inr (Some e)))))"

definition drain_events :: "(u64 set \<Rightarrow> u64 list) \<Rightarrow> connection \<Rightarrow> event list outcome" where
  "drain_events ord c =
    remember_connection_error
      (tryC c (check_error_state c) (\<lambda>_.
       bindC (retry_blocked_streams ord c) (\<lambda>c _. Some (c\<lparr>cn_events := []\<rparr>, Inr (cn_events c)))))"

definition writable_streams :: "(u64 set \<Rightarrow> u64 list) \<Rightarrow> connection \<Rightarrow> u64 list" where
  "writable_streams ord c =
    opt_list (if cs_has_pending (cn_control_send c) then cs_stream_id (cn_control_send c) else None) @
    opt_list (if es_has_pending (cn_encoder_stream c) then cn_encoder_stream_id c else None) @
    opt_list (if ds_has_pending (cn_decoder_stream c) then cn_decoder_stream_id c else None) @
    filter (\<lambda>i. is_some_and (cn_streams c i) has_pending_send) (ord (dom (cn_streams c)))"

definition first_nonempty :: "bytes list \<Rightarrow> (bytes \<times> bool) option" where
  "first_nonempty candidates =
    (case filter (\<lambda>data. data \<noteq> []) candidates of [] \<Rightarrow> None | data # _ \<Rightarrow> Some (data, False))"

definition get_stream_data ::
    "(u64 set \<Rightarrow> u64 list) \<Rightarrow> connection \<Rightarrow> u64 \<Rightarrow> (connection \<times> (bytes \<times> bool) option) option" where
  "get_stream_data ord c stream_id =
    (if is_some_and (cn_streams c stream_id) has_fin_pending then do {
       let c = update_stream c stream_id mark_fin_sent;
       c \<leftarrow> (if cn_wt_sessions c stream_id \<noteq> None then terminate_wt_session ord c stream_id else Some c);
       Some (c, Some ([], True))
     }
     else
       Some (c, first_nonempty
         [if cs_stream_id (cn_control_send c) = Some stream_id then cs_get_data (cn_control_send c) else [],
          if cn_encoder_stream_id c = Some stream_id then es_send_buffer (cn_encoder_stream c) else [],
          if cn_decoder_stream_id c = Some stream_id then ds_send_buffer (cn_decoder_stream c) else [],
          case cn_streams c stream_id of None \<Rightarrow> [] | Some s \<Rightarrow> fst (get_send_data s)]))"

definition consume_stream_data :: "connection \<Rightarrow> u64 \<Rightarrow> usize \<Rightarrow> connection option" where
  "consume_stream_data c stream_id len =
    (if cs_stream_id (cn_control_send c) = Some stream_id then
       map_option (\<lambda>s. c\<lparr>cn_control_send := s\<rparr>) (cs_consume_data (cn_control_send c) len)
     else if cn_encoder_stream_id c = Some stream_id then
       Some (c\<lparr>cn_encoder_stream := es_consume_data (cn_encoder_stream c) len\<rparr>)
     else if cn_decoder_stream_id c = Some stream_id then
       Some (c\<lparr>cn_decoder_stream := ds_consume_data (cn_decoder_stream c) len\<rparr>)
     else case cn_streams c stream_id of
       None \<Rightarrow> Some c
     | Some s \<Rightarrow>
         map_option
           (\<lambda>s. remove_stream_if_done (c\<lparr>cn_streams := (cn_streams c)(stream_id \<mapsto> s)\<rparr>) stream_id)
           (consume_send_data s len))"

definition take_stream_data ::
    "(u64 set \<Rightarrow> u64 list) \<Rightarrow> connection \<Rightarrow> u64 \<Rightarrow> (connection \<times> (bytes \<times> bool) option) option" where
  "take_stream_data ord c stream_id =
    (case get_stream_data ord c stream_id of
       None \<Rightarrow> None
     | Some (c, None) \<Rightarrow> Some (c, None)
     | Some (c, Some (data, fin)) \<Rightarrow>
         if data = [] \<and> \<not> fin then Some (c, None)
         else map_option (\<lambda>c. (c, Some (data, fin))) (consume_stream_data c stream_id (length data)))"

definition initial_data ::
    "(u64 set \<Rightarrow> u64 list) \<Rightarrow> connection \<Rightarrow> u64 \<Rightarrow> (connection \<times> bytes) option" where
  "initial_data ord c stream_id =
    map_option (\<lambda>(c, r). (c, case r of None \<Rightarrow> [] | Some (data, _) \<Rightarrow> data)) (take_stream_data ord c stream_id)"

definition init_h3_streams ::
    "(u64 set \<Rightarrow> u64 list) \<Rightarrow> connection \<Rightarrow> u64 \<Rightarrow> u64 \<Rightarrow> u64 \<Rightarrow> h3_init_data outcome" where
  "init_h3_streams ord c control_id encoder_id decoder_id =
    bindC (set_control_stream_id c control_id) (\<lambda>c _.
    bindC (set_encoder_stream_id c encoder_id) (\<lambda>c _.
    bindC (set_decoder_stream_id c decoder_id) (\<lambda>c _.
      do {
        (c, control_data) \<leftarrow> initial_data ord c control_id;
        (c, encoder_data) \<leftarrow> initial_data ord c encoder_id;
        (c, decoder_data) \<leftarrow> initial_data ord c decoder_id;
        Some (c, Inr \<lparr>hi_control_stream_id = control_id, hi_control_data = control_data,
          hi_encoder_stream_id = encoder_id, hi_encoder_data = encoder_data,
          hi_decoder_stream_id = decoder_id, hi_decoder_data = decoder_data\<rparr>)
      })))"

section \<open>Sending\<close>

text \<open>The four attempts with buffers that double in size.\<close>

fun encode_attempts ::
    "nat \<Rightarrow> connection \<Rightarrow> usize \<Rightarrow> header list \<Rightarrow> usize \<Rightarrow> bytes outcome" where
  "encode_attempts 0 c buf_size headers blocked_count = Some (c, conn_err InternalError)"
| "encode_attempts (Suc n) c buf_size headers blocked_count =
    (case qe_encode (cn_qpack_encoder c) (replicate buf_size 0) headers blocked_count of
       (e, res) \<Rightarrow>
         let c = c\<lparr>cn_qpack_encoder := e\<rparr> in
         case res of
           Some (buf, len) \<Rightarrow> Some (c, Inr (take len buf))
         | None \<Rightarrow>
             (case checked_mul buf_size 2 of
                None \<Rightarrow> Some (c, conn_err InternalError)
              | Some buf_size \<Rightarrow> encode_attempts n c buf_size headers blocked_count))"

definition encode_qpack_headers :: "connection \<Rightarrow> header list \<Rightarrow> usize \<Rightarrow> bytes outcome" where
  "encode_qpack_headers c headers blocked_count =
    encode_attempts 4 c (estimate_encoded_size headers + 64) headers blocked_count"

definition peer_max_section :: "connection \<Rightarrow> u64 option" where
  "peer_max_section c =
    Option.bind (cn_peer_settings c) (\<lambda>s. map_option vget (max_field_section_size s))"

definition check_request :: "connection \<Rightarrow> header list \<Rightarrow> h3_error + unit" where
  "check_request c headers =
    bindR (check_error_state c) (\<lambda>_.
    if cn_role c \<noteq> Client then conn_err InternalError
    else if cs_stream_id (cn_control_send c) = None then conn_err InternalError
    else
      bindR (validate_request_headers headers) (\<lambda>_.
      bindR (check_field_section_size headers (peer_max_section c)) (\<lambda>_.
      bindR (validate_wt_connect_request c headers) (\<lambda>_.
      if is_some_and (peer_goaway_request_boundary c)
          (\<lambda>goaway_id. vget goaway_id \<le> cn_next_stream_id c) then
        stream_err RequestRejected
      else Inr ()))))"

definition request_stream_for :: "connection \<Rightarrow> u64 \<Rightarrow> header list \<Rightarrow> request_stream" where
  "request_stream_for c stream_id headers =
    (let stream = new_request_stream c stream_id;
         stream = (if is_webtransport_connect headers then rs_set_wt_connect stream else stream);
         stream = (if has_header_value headers '':method'' (ascii ''HEAD'') then
                     rs_set_is_head_request stream True else stream) in
     if is_plain_connect headers then rs_set_connect_request stream else stream)"

text \<open>The addition to the next identifier panics at the end of the range, the first \<open>None\<close>.\<close>

definition cn_send_request :: "connection \<Rightarrow> header list \<Rightarrow> bool \<Rightarrow> u64 outcome" where
  "cn_send_request c headers fin =
    tryC c (check_request c headers) (\<lambda>_.
    bindC (encode_qpack_headers c headers (qe_blocked_streams_count (cn_qpack_encoder c))) (\<lambda>c qpack_buf.
    let stream_id = cn_next_stream_id c in
    case checked_add stream_id 4 of
      None \<Rightarrow> None
    | Some next_id \<Rightarrow>
        let c = c\<lparr>cn_next_stream_id := next_id\<rparr> in
        if has_header_value headers '':method'' (ascii ''CONNECT'') \<and> fin then
          Some (c, stream_err MessageError)
        else
          (case send_encoded_headers (request_stream_for c stream_id headers) qpack_buf fin False of
             None \<Rightarrow> None
           | Some (_, Inl e) \<Rightarrow> Some (c, Inl e)
           | Some (stream, Inr _) \<Rightarrow>
               let ric = qe_last_ric (cn_qpack_encoder c);
                   c = c\<lparr>cn_qpack_encoder := qe_track_section (cn_qpack_encoder c) stream_id ric,
                         cn_streams := (cn_streams c)(stream_id \<mapsto> stream)\<rparr>;
                   c = (if is_webtransport_connect headers then
                          c\<lparr>cn_wt_sessions := (cn_wt_sessions c)
                             (stream_id \<mapsto> set_offered_protocols headers wt_session_new)\<rparr>
                        else c) in
               Some (c, Inr stream_id))))"

definition is_interim_response :: "header list \<Rightarrow> bool" where
  "is_interim_response headers \<longleftrightarrow>
    (\<exists>h \<in> set headers. h_name h = ascii '':status'' \<and> length (h_value h) = 3 \<and> h_value h ! 0 = 0x31 \<and>
      is_ascii_digit (h_value h ! 1) \<and> is_ascii_digit (h_value h ! 2) \<and> h_value h \<noteq> ascii ''101'')"

definition check_response :: "connection \<Rightarrow> u64 \<Rightarrow> header list \<Rightarrow> h3_error + unit" where
  "check_response c stream_id headers =
    bindR (check_error_state c) (\<lambda>_.
    if cn_role c \<noteq> Server then conn_err InternalError
    else
      bindR (validate_response_headers headers) (\<lambda>_.
      bindR (check_field_section_size headers (peer_max_section c)) (\<lambda>_.
      validate_wt_response_protocol c stream_id headers)))"

definition cn_send_response ::
    "(u64 set \<Rightarrow> u64 list) \<Rightarrow> connection \<Rightarrow> u64 \<Rightarrow> header list \<Rightarrow> bool \<Rightarrow> unit outcome" where
  "cn_send_response ord c stream_id headers fin =
    tryC c (check_response c stream_id headers) (\<lambda>_.
    bindC (encode_qpack_headers c headers (qe_blocked_streams_count (cn_qpack_encoder c))) (\<lambda>c qpack_buf.
    case cn_streams c stream_id of
      None \<Rightarrow> Some (c, Inl (StreamNotFound stream_id))
    | Some stream \<Rightarrow>
        let is_interim = is_interim_response headers in
        (case send_encoded_headers stream qpack_buf fin is_interim of
           None \<Rightarrow> None
         | Some (stream, Inl e) \<Rightarrow> Some (c\<lparr>cn_streams := (cn_streams c)(stream_id \<mapsto> stream)\<rparr>, Inl e)
         | Some (stream, Inr _) \<Rightarrow>
             let c = c\<lparr>cn_streams := (cn_streams c)(stream_id \<mapsto> stream)\<rparr>;
                 c = (if \<not> is_interim \<and> \<not> is_success_status headers \<and> session_pending c stream_id then
                        close_session_entry c stream_id else c) in
             bindC (establish_wt_session_server ord c stream_id headers) (\<lambda>c _.
             let ric = qe_last_ric (cn_qpack_encoder c) in
             Some (c\<lparr>cn_qpack_encoder := qe_track_section (cn_qpack_encoder c) stream_id ric\<rparr>, Inr ())))))"

definition cn_send_body :: "connection \<Rightarrow> u64 \<Rightarrow> bytes \<Rightarrow> bool \<Rightarrow> unit outcome" where
  "cn_send_body c stream_id data fin =
    remember_connection_error
      (tryC c (check_error_state c) (\<lambda>_.
       case cn_streams c stream_id of
         None \<Rightarrow> Some (c, Inl (StreamNotFound stream_id))
       | Some stream \<Rightarrow>
           map_option (\<lambda>(stream, r). (c\<lparr>cn_streams := (cn_streams c)(stream_id \<mapsto> stream)\<rparr>, r))
             (send_body stream data fin)))"

definition cn_send_goaway :: "connection \<Rightarrow> varint \<Rightarrow> unit outcome" where
  "cn_send_goaway c goaway_id =
    remember_connection_error
      (tryC c (check_error_state c) (\<lambda>_.
       if (case cn_role c of Server \<Rightarrow> vget goaway_id mod 4 \<noteq> 0 | Client \<Rightarrow> vget goaway_id \<noteq> 0) then
         Some (c, conn_err IdError)
       else if is_some_and (cn_last_sent_goaway_id c) (\<lambda>last_id. vget last_id < vget goaway_id) then
         Some (c, conn_err IdError)
       else
         (case cs_send_goaway (cn_control_send c) goaway_id of
            None \<Rightarrow> None
          | Some (s, Inl e) \<Rightarrow> Some (c\<lparr>cn_control_send := s\<rparr>, Inl e)
          | Some (s, Inr _) \<Rightarrow>
              Some (c\<lparr>cn_control_send := s, cn_last_sent_goaway_id := Some goaway_id\<rparr>, Inr ()))))"

section \<open>RESET\_STREAM and STOP\_SENDING\<close>

definition finish_reset ::
    "connection \<Rightarrow> u64 \<Rightarrow> event \<Rightarrow> (connection \<times> bool) option \<Rightarrow> unit outcome" where
  "finish_reset c stream_id e handled =
    map_option
      (\<lambda>(c, is_wt). (remove_stream_if_done (if is_wt then c else push_event c e) stream_id, Inr ())) handled"

definition stream_reset ::
    "(u64 set \<Rightarrow> u64 list) \<Rightarrow> connection \<Rightarrow> u64 \<Rightarrow> u64 \<Rightarrow> u64 \<Rightarrow> unit outcome" where
  "stream_reset ord c stream_id error_code final_size =
    remember_connection_error
      (tryC c (check_error_state c) (\<lambda>_.
       if cr_stream_id (cn_control_recv c) = Some stream_id \<or> cn_peer_encoder_stream_id c = Some stream_id \<or>
         cn_peer_decoder_stream_id c = Some stream_id then
         Some (c, conn_err ClosedCriticalStream)
       else
         let c = update_stream c stream_id (\<lambda>s. s\<lparr>rs_state := state_reset (rs_state s)\<rparr>);
             c = c\<lparr>cn_pending_bidi_dispatch := (cn_pending_bidi_dispatch c)(stream_id := None)\<rparr>;
             c = clear_qpack_blocked c stream_id;
             c = send_stream_cancellation_if_needed c stream_id in
         finish_reset c stream_id (StreamResetReceived stream_id error_code)
           (handle_wt_stream_reset ord c stream_id error_code final_size)))"

definition stop_sending ::
    "(u64 set \<Rightarrow> u64 list) \<Rightarrow> connection \<Rightarrow> u64 \<Rightarrow> u64 \<Rightarrow> unit outcome" where
  "stop_sending ord c stream_id error_code =
    remember_connection_error
      (tryC c (check_error_state c) (\<lambda>_.
       if cs_stream_id (cn_control_send c) = Some stream_id \<or> cn_encoder_stream_id c = Some stream_id \<or>
         cn_decoder_stream_id c = Some stream_id then
         Some (c, conn_err ClosedCriticalStream)
       else
         let c = update_stream c stream_id
               (\<lambda>s. discard_send_data (s\<lparr>rs_state := close_local (rs_state s)\<rparr>));
             c = clear_qpack_blocked c stream_id;
             c = send_stream_cancellation_if_needed c stream_id in
         finish_reset c stream_id (StopSendingReceived stream_id error_code)
           (handle_wt_stop_sending ord c stream_id error_code)))"

end
