(* ===== verification/Conn_Wt_Inv.thy ===== *)
theory Conn_Wt_Inv
  imports Conn_Wt_Capsule Conn_Wt_Stream
begin

text \<open>
  What every WebTransport operation of a connection does to the state: it leaves everything that is
  not about WebTransport alone (\<open>wt_core\<close>), keeps the invariant of the sessions and buffers (\<open>wt_inv\<close>),
  moves sessions only forward (\<open>progress\<close>) and, apart from the session it is about, leaves sessions
  that are still pending pending (\<open>untouched\<close>).  These four are one preorder, \<open>wt_step\<close>; small
  steps are proved to be in it once, the handlers are compositions of small steps.
\<close>

section \<open>The part that is not WebTransport\<close>

definition wt_core :: "connection \<Rightarrow> connection" where
  "wt_core c =
    c\<lparr>cn_events := [], cn_wt_uni_streams := Map.empty, cn_pending_wt_uni_streams := Map.empty,
      cn_wt_bidi_streams := Map.empty, cn_pending_wt_bidi_streams := Map.empty, cn_wt_sessions := Map.empty,
      cn_closed_wt_sessions := {}, cn_deferred_wt_connects := Map.empty,
      cn_pending_pre_negotiation := Map.empty, cn_ignored_pre_negotiation := {}\<rparr>"

lemma wt_core_simps [simp]:
  "wt_core (c\<lparr>cn_events := a\<rparr>) = wt_core c"
  "wt_core (c\<lparr>cn_wt_uni_streams := m\<rparr>) = wt_core c"
  "wt_core (c\<lparr>cn_wt_bidi_streams := m\<rparr>) = wt_core c"
  "wt_core (c\<lparr>cn_pending_wt_uni_streams := p\<rparr>) = wt_core c"
  "wt_core (c\<lparr>cn_pending_wt_bidi_streams := p\<rparr>) = wt_core c"
  "wt_core (c\<lparr>cn_wt_sessions := s\<rparr>) = wt_core c"
  "wt_core (c\<lparr>cn_closed_wt_sessions := t\<rparr>) = wt_core c"
  "wt_core (c\<lparr>cn_deferred_wt_connects := d\<rparr>) = wt_core c"
  "wt_core (c\<lparr>cn_pending_pre_negotiation := q\<rparr>) = wt_core c"
  "wt_core (c\<lparr>cn_ignored_pre_negotiation := t\<rparr>) = wt_core c"
  by (simp_all add: wt_core_def)

lemma wt_core_same:
  assumes "wt_core c' = wt_core c"
  shows "cn_role c' = cn_role c" "cn_local_settings c' = cn_local_settings c"
    "cn_peer_settings c' = cn_peer_settings c" "cn_limits c' = cn_limits c"
    "cn_control_send c' = cn_control_send c" "cn_control_recv c' = cn_control_recv c"
    "cn_streams c' = cn_streams c" "cn_next_stream_id c' = cn_next_stream_id c"
    "cn_qpack_encoder c' = cn_qpack_encoder c" "cn_qpack_decoder c' = cn_qpack_decoder c"
    "cn_encoder_stream c' = cn_encoder_stream c" "cn_encoder_stream_id c' = cn_encoder_stream_id c"
    "cn_decoder_stream c' = cn_decoder_stream c" "cn_decoder_stream_id c' = cn_decoder_stream_id c"
    "cn_encoder_stream_recv c' = cn_encoder_stream_recv c"
    "cn_peer_encoder_stream_id c' = cn_peer_encoder_stream_id c"
    "cn_decoder_stream_recv c' = cn_decoder_stream_recv c"
    "cn_peer_decoder_stream_id c' = cn_peer_decoder_stream_id c" "cn_error c' = cn_error c"
    "cn_peer_goaway_last_id c' = cn_peer_goaway_last_id c"
    "cn_last_sent_goaway_id c' = cn_last_sent_goaway_id c" "cn_max_push_id c' = cn_max_push_id c"
    "cn_blocked_by_ricnt c' = cn_blocked_by_ricnt c" "cn_ignored_uni_streams c' = cn_ignored_uni_streams c"
    "cn_pending_uni_streams c' = cn_pending_uni_streams c"
    "cn_pending_bidi_dispatch c' = cn_pending_bidi_dispatch c"
    "cn_wt_transport_verified c' = cn_wt_transport_verified c"
    "cn_wt_reset_stream_at_supported c' = cn_wt_reset_stream_at_supported c"
  using assms [THEN arg_cong, of cn_role] assms [THEN arg_cong, of cn_local_settings]
    assms [THEN arg_cong, of cn_peer_settings] assms [THEN arg_cong, of cn_limits]
    assms [THEN arg_cong, of cn_control_send] assms [THEN arg_cong, of cn_control_recv]
    assms [THEN arg_cong, of cn_streams] assms [THEN arg_cong, of cn_next_stream_id]
    assms [THEN arg_cong, of cn_qpack_encoder] assms [THEN arg_cong, of cn_qpack_decoder]
    assms [THEN arg_cong, of cn_encoder_stream] assms [THEN arg_cong, of cn_encoder_stream_id]
    assms [THEN arg_cong, of cn_decoder_stream] assms [THEN arg_cong, of cn_decoder_stream_id]
    assms [THEN arg_cong, of cn_encoder_stream_recv] assms [THEN arg_cong, of cn_peer_encoder_stream_id]
    assms [THEN arg_cong, of cn_decoder_stream_recv] assms [THEN arg_cong, of cn_peer_decoder_stream_id]
    assms [THEN arg_cong, of cn_error] assms [THEN arg_cong, of cn_peer_goaway_last_id]
    assms [THEN arg_cong, of cn_last_sent_goaway_id] assms [THEN arg_cong, of cn_max_push_id]
    assms [THEN arg_cong, of cn_blocked_by_ricnt] assms [THEN arg_cong, of cn_ignored_uni_streams]
    assms [THEN arg_cong, of cn_pending_uni_streams] assms [THEN arg_cong, of cn_pending_bidi_dispatch]
    assms [THEN arg_cong, of cn_wt_transport_verified] assms [THEN arg_cong, of cn_wt_reset_stream_at_supported]
  by (simp_all add: wt_core_def)

section \<open>Invariant\<close>

definition wt_quiet :: "connection \<Rightarrow> bool" where
  "wt_quiet c \<longleftrightarrow> cn_wt_sessions c = Map.empty \<and> cn_closed_wt_sessions c = {} \<and>
    cn_wt_uni_streams c = Map.empty \<and> cn_wt_bidi_streams c = Map.empty \<and>
    cn_pending_wt_uni_streams c = Map.empty \<and> cn_pending_wt_bidi_streams c = Map.empty"

text \<open>
  Sessions and what belongs to them; before the SETTINGS of the peer there are none, only CONNECT requests
  and streams that wait for it, in bounded number and of bounded size.
\<close>

definition wt_sessions_inv :: "connection \<Rightarrow> bool" where
  "wt_sessions_inv c \<longleftrightarrow>
    finite (dom (cn_wt_sessions c)) \<and>
    (\<forall>i s. cn_wt_sessions c i = Some s \<longrightarrow> ws_inv s \<and> i < 2 ^ 62 \<and> i \<notin> cn_closed_wt_sessions c) \<and>
    ran (cn_wt_uni_streams c) \<subseteq> {..<2 ^ 62} \<and> ran (cn_wt_bidi_streams c) \<subseteq> {..<2 ^ 62} \<and>
    (cn_peer_settings c = None \<longrightarrow> wt_quiet c) \<and>
    (cn_role c = Client \<longrightarrow> dom (cn_wt_sessions c) \<union> cn_closed_wt_sessions c \<subseteq> {..<cn_next_stream_id c})"

definition wt_waiting_inv :: "connection \<Rightarrow> bool" where
  "wt_waiting_inv c \<longleftrightarrow>
    finite (dom (cn_deferred_wt_connects c)) \<and> card (dom (cn_deferred_wt_connects c)) \<le> 16 \<and>
    (cn_deferred_wt_connects c \<noteq> Map.empty \<longrightarrow> cn_peer_settings c = None) \<and>
    dom (cn_deferred_wt_connects c) \<subseteq> {..<2 ^ 62} \<and>
    finite (dom (cn_pending_pre_negotiation c)) \<and>
    card (dom (cn_pending_pre_negotiation c)) \<le> MAX_BUFFERED_STREAMS \<and>
    (\<forall>e \<in> ran (cn_pending_pre_negotiation c). length (pw_data e) \<le> WT_MAX_BUFFERED_STREAM_BYTES)"

definition wt_inv :: "connection \<Rightarrow> bool" where
  "wt_inv c \<longleftrightarrow> wt_sessions_inv c \<and> wt_waiting_inv c"

fun stage :: "wt_session_state \<Rightarrow> nat" where
  "stage WsPending = 0"
| "stage WsEstablished = 1"
| "stage WsDraining = 2"
| "stage WsClosed = 3"

definition progress :: "connection \<Rightarrow> connection \<Rightarrow> bool" where
  "progress c c' \<longleftrightarrow>
    cn_closed_wt_sessions c \<subseteq> cn_closed_wt_sessions c' \<and>
    (\<forall>i s. cn_wt_sessions c i = Some s \<longrightarrow>
      (case cn_wt_sessions c' i of
         None \<Rightarrow> i \<in> cn_closed_wt_sessions c'
       | Some s' \<Rightarrow> stage (ws_state s) \<le> stage (ws_state s')))"

definition active :: "connection \<Rightarrow> u64 \<Rightarrow> bool" where
  "active c i \<longleftrightarrow> (\<exists>s. cn_wt_sessions c i = Some s \<and> ws_state s \<noteq> WsPending)"

definition untouched :: "connection \<Rightarrow> u64 \<Rightarrow> bool" where
  "untouched c i \<longleftrightarrow> i \<notin> cn_closed_wt_sessions c \<and> \<not> active c i"

definition wt_step :: "u64 set \<Rightarrow> u64 set \<Rightarrow> connection \<Rightarrow> connection \<Rightarrow> bool" where
  "wt_step X Y c c' \<longleftrightarrow> wt_core c' = wt_core c \<and> wt_inv c' \<and> progress c c' \<and>
    (\<forall>i. i \<notin> X \<longrightarrow> untouched c i \<longrightarrow> untouched c' i) \<and>
    (\<forall>i. i \<notin> Y \<longrightarrow> active c' i \<longrightarrow> active c i)"

lemma progress_refl [simp]: "progress c c"
  by (auto simp: progress_def)

lemma progress_session:
  "progress c c' \<Longrightarrow> cn_wt_sessions c i = Some s \<Longrightarrow>
    (case cn_wt_sessions c' i of
       None \<Rightarrow> i \<in> cn_closed_wt_sessions c'
     | Some s' \<Rightarrow> stage (ws_state s) \<le> stage (ws_state s'))"
  by (simp add: progress_def)

lemma progress_closed: "progress c c' \<Longrightarrow> cn_closed_wt_sessions c \<subseteq> cn_closed_wt_sessions c'"
  by (simp add: progress_def)

lemma progress_trans:
  assumes "progress c c1" "progress c1 c2" "wt_inv c2"
  shows "progress c c2"
  unfolding progress_def
proof (intro conjI allI impI)
  show "cn_closed_wt_sessions c \<subseteq> cn_closed_wt_sessions c2"
    using assms(1,2) [THEN progress_closed] by simp
  fix i s assume s: "cn_wt_sessions c i = Some s"
  from progress_session [OF assms(1) s] progress_session [OF assms(2), of i] progress_closed [OF assms(2)]
  show "case cn_wt_sessions c2 i of None \<Rightarrow> i \<in> cn_closed_wt_sessions c2
      | Some s' \<Rightarrow> stage (ws_state s) \<le> stage (ws_state s')"
    using assms(3) by (fastforce simp: wt_inv_def wt_sessions_inv_def split: option.splits)
qed

lemma wt_step_refl: "wt_inv c \<Longrightarrow> wt_step X Y c c"
  by (simp add: wt_step_def)

lemma wt_step_trans: "wt_step X Y c c1 \<Longrightarrow> wt_step X Y c1 c2 \<Longrightarrow> wt_step X Y c c2"
  by (auto simp: wt_step_def intro: progress_trans)

lemma wt_step_mono: "wt_step X Y c c' \<Longrightarrow> X \<subseteq> X' \<Longrightarrow> Y \<subseteq> Y' \<Longrightarrow> wt_step X' Y' c c'"
  by (auto simp: wt_step_def)

lemma wt_step_inv: "wt_step X Y c c' \<Longrightarrow> wt_inv c'"
  by (simp add: wt_step_def)

lemma wt_step_core: "wt_step X Y c c' \<Longrightarrow> wt_core c' = wt_core c"
  by (simp add: wt_step_def)

lemma wt_inv_session:
  "wt_inv c \<Longrightarrow> cn_wt_sessions c i = Some s \<Longrightarrow> ws_inv s \<and> i < 2 ^ 62 \<and> i \<notin> cn_closed_wt_sessions c"
  by (simp add: wt_inv_def wt_sessions_inv_def)

lemma wt_step_then: "wt_step X Y c c1 \<Longrightarrow> (wt_inv c1 \<Longrightarrow> wt_step X Y c1 c2) \<Longrightarrow> wt_step X Y c c2"
  by (blast intro: wt_step_trans wt_step_inv)

text \<open>A step of an operation that also returns a result.\<close>

abbreviation steps :: "u64 set \<Rightarrow> u64 set \<Rightarrow> connection \<Rightarrow> (connection \<times> 'r) option \<Rightarrow> bool" where
  "steps X Y c m \<equiv> returns (\<lambda>(c', _). wt_step X Y c c') m"

lemma steps_after: "wt_step X Y c c1 \<Longrightarrow> steps X Y c1 m \<Longrightarrow> steps X Y c m"
  by (auto elim!: returns_mono intro: wt_step_trans)

lemma steps_then: "wt_step X Y c c1 \<Longrightarrow> (wt_inv c1 \<Longrightarrow> steps X Y c1 m) \<Longrightarrow> steps X Y c m"
  by (blast intro: steps_after wt_step_inv)

lemma steps_mono: "steps X Y c m \<Longrightarrow> X \<subseteq> X' \<Longrightarrow> Y \<subseteq> Y' \<Longrightarrow> steps X' Y' c m"
  by (auto elim!: returns_mono intro: wt_step_mono)

lemma steps_bindC:
  "steps X Y c m \<Longrightarrow> (\<And>c' x. wt_step X Y c c' \<Longrightarrow> steps X Y c' (f c' x)) \<Longrightarrow> steps X Y c (bindC m f)"
  by (auto simp: returns_bindC elim!: returns_mono intro: steps_after split: sum.splits)

section \<open>Small steps\<close>

lemma step_event:
  assumes "wt_inv c"
  shows "wt_step X Y c (push_event c e)" "wt_step X Y c (c\<lparr>cn_events := es\<rparr>)"
  using assms
  by (simp_all add: wt_step_def push_event_def wt_inv_def wt_sessions_inv_def wt_waiting_inv_def wt_quiet_def
      progress_def untouched_def active_def split: option.split)

text \<open>A session is replaced by a later state of it.\<close>

lemma step_session:
  assumes "wt_inv c" "cn_wt_sessions c i = Some s" "ws_inv s'" "stage (ws_state s) \<le> stage (ws_state s')"
    "ws_state s = WsPending \<longrightarrow> ws_state s' = WsPending \<or> i \<in> X \<and> i \<in> Y"
  shows "wt_step X Y c (c\<lparr>cn_wt_sessions := (cn_wt_sessions c)(i \<mapsto> s')\<rparr>)"
proof -
  have "insert i (dom (cn_wt_sessions c)) = dom (cn_wt_sessions c)" using assms(2) by blast
  moreover have "\<not> wt_quiet c" using assms(2) by (auto simp: wt_quiet_def)
  ultimately show ?thesis
    using assms wt_inv_session [OF assms(1,2)]
    by (auto simp: wt_step_def wt_inv_def wt_sessions_inv_def wt_waiting_inv_def progress_def untouched_def active_def
        split: option.split)
qed

lemma step_update_session:
  assumes "wt_inv c"
    "\<And>s. cn_wt_sessions c i = Some s \<Longrightarrow> ws_inv s \<Longrightarrow> ws_inv (f s) \<and> stage (ws_state s) \<le> stage (ws_state (f s)) \<and>
      (ws_state s = WsPending \<longrightarrow> ws_state (f s) = WsPending \<or> i \<in> X \<and> i \<in> Y)"
  shows "wt_step X Y c (update_session c i f)"
  using assms step_session [OF assms(1)] wt_inv_session [OF assms(1)]
  by (auto simp: update_session_def wt_step_refl split: option.split)

text \<open>The usual case: the state of the session stays.\<close>

lemma step_keep_session:
  assumes "wt_inv c" "\<And>s. cn_wt_sessions c i = Some s \<Longrightarrow> ws_inv s \<Longrightarrow> ws_inv (f s) \<and> ws_state (f s) = ws_state s"
  shows "wt_step X Y c (update_session c i f)"
  using assms by (intro step_update_session) auto

lemma step_new_session:
  assumes "wt_inv c" "cn_role c = Server" "cn_peer_settings c \<noteq> None" "cn_wt_sessions c i = None"
    "i \<notin> cn_closed_wt_sessions c" "i < 2 ^ 62" "ws_inv s" "ws_state s = WsPending"
  shows "wt_step X Y c (c\<lparr>cn_wt_sessions := (cn_wt_sessions c)(i \<mapsto> s)\<rparr>)"
  using assms
  by (auto simp: wt_step_def wt_inv_def wt_sessions_inv_def wt_waiting_inv_def progress_def untouched_def active_def
      split: option.split)

lemma step_close_entry:
  assumes "wt_inv c" "cn_wt_sessions c i \<noteq> None" "i \<in> X \<or> \<not> untouched c i"
  shows "wt_step X Y c (c\<lparr>cn_wt_sessions := (cn_wt_sessions c)(i := None),
    cn_closed_wt_sessions := insert i (cn_closed_wt_sessions c)\<rparr>)"
proof -
  have "\<not> wt_quiet c" using assms(2) by (auto simp: wt_quiet_def)
  with assms show ?thesis
    by (auto simp: wt_step_def wt_inv_def wt_sessions_inv_def wt_waiting_inv_def progress_def untouched_def active_def
        split: option.split)
qed

lemma step_registrations:
  assumes "wt_inv c" "cn_peer_settings c \<noteq> None \<or> (u = Map.empty \<and> b = Map.empty)"
    "ran u \<subseteq> {..<2 ^ 62}" "ran b \<subseteq> {..<2 ^ 62}"
  shows "wt_step X Y c (c\<lparr>cn_wt_uni_streams := u, cn_wt_bidi_streams := b\<rparr>)"
  using assms
  by (auto simp: wt_step_def wt_inv_def wt_sessions_inv_def wt_waiting_inv_def wt_quiet_def progress_def
      untouched_def active_def split: option.split)

lemma step_pending:
  assumes "wt_inv c" "cn_peer_settings c \<noteq> None \<or> (u = Map.empty \<and> b = Map.empty)"
  shows "wt_step X Y c (c\<lparr>cn_pending_wt_uni_streams := u, cn_pending_wt_bidi_streams := b\<rparr>)"
  using assms
  by (auto simp: wt_step_def wt_inv_def wt_sessions_inv_def wt_waiting_inv_def wt_quiet_def progress_def
      untouched_def active_def split: option.split)

lemma step_waiting:
  assumes "wt_inv c" "finite (dom d)" "card (dom d) \<le> 16" "d \<noteq> Map.empty \<longrightarrow> cn_peer_settings c = None"
    "dom d \<subseteq> {..<2 ^ 62}" "finite (dom p)" "card (dom p) \<le> MAX_BUFFERED_STREAMS"
    "\<forall>e \<in> ran p. length (pw_data e) \<le> WT_MAX_BUFFERED_STREAM_BYTES"
  shows "wt_step X Y c (c\<lparr>cn_deferred_wt_connects := d, cn_pending_pre_negotiation := p,
    cn_ignored_pre_negotiation := t\<rparr>)"
  using assms
  by (auto simp: wt_step_def wt_inv_def wt_sessions_inv_def wt_waiting_inv_def wt_quiet_def progress_def
      untouched_def active_def split: option.split)

text \<open>The same with one field at a time.\<close>

lemma step_uni:
  "wt_inv c \<Longrightarrow> cn_peer_settings c \<noteq> None \<or> u = Map.empty \<Longrightarrow> ran u \<subseteq> {..<2 ^ 62} \<Longrightarrow>
    wt_step X Y c (c\<lparr>cn_wt_uni_streams := u\<rparr>)"
  using step_registrations [of c u "cn_wt_bidi_streams c" X Y]
  by (auto simp: wt_inv_def wt_sessions_inv_def wt_quiet_def)

lemma step_bidi:
  "wt_inv c \<Longrightarrow> cn_peer_settings c \<noteq> None \<or> u = Map.empty \<Longrightarrow> ran u \<subseteq> {..<2 ^ 62} \<Longrightarrow>
    wt_step X Y c (c\<lparr>cn_wt_bidi_streams := u\<rparr>)"
  using step_registrations [of c "cn_wt_uni_streams c" u X Y]
  by (auto simp: wt_inv_def wt_sessions_inv_def wt_quiet_def)

lemma step_pending_uni:
  "wt_inv c \<Longrightarrow> cn_peer_settings c \<noteq> None \<or> u = Map.empty \<Longrightarrow>
    wt_step X Y c (c\<lparr>cn_pending_wt_uni_streams := u\<rparr>)"
  using step_pending [of c u "cn_pending_wt_bidi_streams c" X Y]
  by (auto simp: wt_inv_def wt_sessions_inv_def wt_quiet_def)

lemma step_pending_bidi:
  "wt_inv c \<Longrightarrow> cn_peer_settings c \<noteq> None \<or> u = Map.empty \<Longrightarrow>
    wt_step X Y c (c\<lparr>cn_pending_wt_bidi_streams := u\<rparr>)"
  using step_pending [of c "cn_pending_wt_uni_streams c" u X Y]
  by (auto simp: wt_inv_def wt_sessions_inv_def wt_quiet_def)

text \<open>Registrations are only removed.\<close>

lemma ran_restrict: "ran (m |` S) \<subseteq> ran m"
  by (auto simp: ran_def restrict_map_def split: if_splits)

lemma ran_remove: "ran (m(k := None)) \<subseteq> ran m"
  by (auto simp: ran_def split: if_splits)

lemma wt_inv_ran:
  "wt_inv c \<Longrightarrow> ran (cn_wt_uni_streams c) \<subseteq> {..<2 ^ 62}"
  "wt_inv c \<Longrightarrow> ran (cn_wt_bidi_streams c) \<subseteq> {..<2 ^ 62}"
  by (simp_all add: wt_inv_def wt_sessions_inv_def)

lemma wt_inv_quiet:
  "wt_inv c \<Longrightarrow> cn_peer_settings c = None \<Longrightarrow> wt_quiet c"
  by (simp add: wt_inv_def wt_sessions_inv_def)

lemma session_peer: "wt_inv c \<Longrightarrow> cn_wt_sessions c j = Some s \<Longrightarrow> cn_peer_settings c \<noteq> None"
  using wt_inv_quiet [of c] by (cases "cn_peer_settings c") (simp_all add: wt_quiet_def)

lemma step_forget_registrations:
  assumes "wt_inv c" "u \<subseteq>\<^sub>m cn_wt_uni_streams c" "b \<subseteq>\<^sub>m cn_wt_bidi_streams c"
  shows "wt_step X Y c (c\<lparr>cn_wt_uni_streams := u, cn_wt_bidi_streams := b\<rparr>)"
proof (rule step_registrations [OF assms(1)])
  have "ran m \<subseteq> ran m'" if "m \<subseteq>\<^sub>m m'" for m m' :: "u64 \<rightharpoonup> u64"
    using that by (force simp: ran_def map_le_def dom_def)
  then show "ran u \<subseteq> {..<2 ^ 62}" "ran b \<subseteq> {..<2 ^ 62}"
    using assms(2,3) wt_inv_ran [OF assms(1)] by blast+
  show "cn_peer_settings c \<noteq> None \<or> (u = Map.empty \<and> b = Map.empty)"
    using assms(2,3) wt_inv_quiet [OF assms(1)]
    by (auto simp: wt_quiet_def dest: map_le_antisym [OF _ map_le_empty])
qed

lemma map_le_smaller [simp]: "m |` S \<subseteq>\<^sub>m m" "m(k := None) \<subseteq>\<^sub>m m" "m \<subseteq>\<^sub>m m"
  by (auto simp: map_le_def restrict_map_def split: if_splits)

lemma step_forget_uni: "wt_inv c \<Longrightarrow> wt_step X Y c (c\<lparr>cn_wt_uni_streams := (cn_wt_uni_streams c)(i := None)\<rparr>)"
  using step_forget_registrations [of c "(cn_wt_uni_streams c)(i := None)" "cn_wt_bidi_streams c" X Y] by simp

lemma step_forget_bidi: "wt_inv c \<Longrightarrow> wt_step X Y c (c\<lparr>cn_wt_bidi_streams := (cn_wt_bidi_streams c)(i := None)\<rparr>)"
  using step_forget_registrations [of c "cn_wt_uni_streams c" "(cn_wt_bidi_streams c)(i := None)" X Y] by simp

lemma step_forget_pending:
  "wt_inv c \<Longrightarrow> wt_step X Y c (c\<lparr>cn_pending_wt_uni_streams := (cn_pending_wt_uni_streams c)(i := None)\<rparr>)"
  "wt_inv c \<Longrightarrow> wt_step X Y c (c\<lparr>cn_pending_wt_bidi_streams := (cn_pending_wt_bidi_streams c)(i := None)\<rparr>)"
  using wt_inv_quiet [of c] by (auto simp: wt_quiet_def intro!: step_pending_uni step_pending_bidi)

section \<open>Sessions\<close>

lemma stream_header_len_some: "wt_inv c \<Longrightarrow> \<exists>n. wt_stream_header_len c i = Some n"
proof -
  assume c: "wt_inv c"
  have "m \<in> {..<2 ^ 62} \<Longrightarrow> \<exists>v. result_ok (varint_new m) = Some v" for m
    by (auto simp: varint_new_def result_ok_def VARINT_MAX_def)
  with wt_inv_ran [OF c, THEN subsetD] show ?thesis
    by (fastforce simp: wt_stream_header_len_def intro: ranI split: option.split)
qed

lemma stream_resets_some: "wt_inv c \<Longrightarrow> \<exists>rs. those (map (stream_reset_of c) is) = Some rs"
proof (induction "is")
  case (Cons i "is")
  with stream_header_len_some [of c i] show ?case by (auto simp: stream_reset_of_def)
qed simp

lemma terminate_steps:
  assumes "wt_inv c" "i \<in> X \<or> \<not> untouched c i"
  shows "returns (wt_step X Y c) (terminate_wt_session_with ord c i e k m)"
proof (cases "cn_wt_sessions c i")
  case None
  with assms show ?thesis by (simp add: terminate_wt_session_with_def wt_step_refl)
next
  case (Some s)
  have ws: "ws_state s \<noteq> WsClosed" using wt_inv_session [OF assms(1) Some] by (simp add: ws_inv_def)
  obtain rs where rs: "those (map (stream_reset_of c) (ord (ws_associated_streams s))) = Some rs"
    using stream_resets_some [OF assms(1)] by blast
  let ?A = "set (ord (ws_associated_streams s))"
  let ?c1 = "c\<lparr>cn_wt_uni_streams := cn_wt_uni_streams c |` (- ?A), cn_wt_bidi_streams := cn_wt_bidi_streams c |` (- ?A)\<rparr>"
  have 1: "wt_step X Y c ?c1" by (rule step_forget_registrations [OF assms(1)]) simp_all
  let ?e = "WebTransport (WtSessionClosed i
      (rs @ map (\<lambda>j. \<lparr>wr_stream_id = j, wr_reliable_size = 0\<rparr>) (ws_buffered_streams s)) e k m)"
  have 2: "wt_step X Y c (push_event ?c1 ?e)"
    using 1 step_event(1) by (rule wt_step_then)
  have "wt_step X Y (push_event ?c1 ?e) ((push_event ?c1 ?e)\<lparr>cn_wt_sessions := (cn_wt_sessions (push_event ?c1 ?e))(i := None),
      cn_closed_wt_sessions := insert i (cn_closed_wt_sessions (push_event ?c1 ?e))\<rparr>)"
    using Some assms(2) by (intro step_close_entry wt_step_inv [OF 2]) (simp_all add: push_event_def untouched_def active_def)
  with 2 have "wt_step X Y c ((push_event ?c1 ?e)\<lparr>cn_wt_sessions := (cn_wt_sessions (push_event ?c1 ?e))(i := None),
      cn_closed_wt_sessions := insert i (cn_closed_wt_sessions (push_event ?c1 ?e))\<rparr>)"
    by (rule wt_step_trans)
  then show ?thesis
    using Some ws rs by (simp add: terminate_wt_session_with_def Let_def)
qed

lemma terminate_own: "wt_inv c \<Longrightarrow> returns (wt_step {i} {} c) (terminate_wt_session ord c i)"
  unfolding terminate_wt_session_def by (rule terminate_steps) simp_all

lemma flow_control_steps:
  assumes "wt_inv c" "cn_wt_sessions c i = Some s" "ws_state s \<noteq> WsPending"
  shows "returns (wt_step X Y c) (flow_control_violation ord c i)"
  unfolding flow_control_violation_def
  by (rule terminate_steps [OF assms(1)]) (use assms(2,3) in \<open>simp add: untouched_def active_def\<close>)

text \<open>A session that is pending is never accused: its flow control is not enabled.\<close>

lemma check_pending:
  assumes "wt_inv c" "cn_wt_sessions c i = Some s"
  shows "\<not> ws_check_received_data s n \<Longrightarrow> ws_state s \<noteq> WsPending"
    "\<not> ws_check_received_stream s b \<Longrightarrow> ws_state s \<noteq> WsPending"
  using wt_inv_session [OF assms]
  by (auto simp: ws_inv_def ws_check_received_data_def ws_check_received_stream_def)

lemma associate_steps:
  assumes "wt_inv c" "cn_peer_settings c \<noteq> None" "j < 2 ^ 62"
    "associate_or_buffer_stream c i j b = (c', r)"
  shows "wt_step X Y c c'"
proof (cases "cn_wt_sessions c j")
  case (Some s)
  have ws: "ws_inv s" using wt_inv_session [OF assms(1) Some] by simp
  have "wt_step X Y c (update_session c j (\<lambda>s. ws_associate_stream s i))"
    by (rule step_keep_session [OF assms(1)]) auto
  moreover have "wt_step X Y c (c\<lparr>cn_wt_sessions := (cn_wt_sessions c)(j \<mapsto> fst (ws_buffer_stream s i b))\<rparr>)"
    by (rule step_session [OF assms(1) Some]) (use ws in auto)
  ultimately show ?thesis
    using Some assms(4) wt_step_refl [OF assms(1)]
    by (auto simp: associate_or_buffer_stream_def split: wt_session_state.splits prod.splits)
next
  case None
  have "wt_step X Y c (c\<lparr>cn_wt_sessions := (cn_wt_sessions c)(j \<mapsto> fst (ws_buffer_stream wt_session_new i b))\<rparr>)"
    if "cn_role c \<noteq> Client" "j \<notin> cn_closed_wt_sessions c"
    by (rule step_new_session [OF assms(1)]) (use that None assms(2,3) in \<open>auto intro: role.exhaust\<close>)
  then show ?thesis
    using None assms(4) wt_step_refl [OF assms(1)]
    by (auto simp: associate_or_buffer_stream_def split: prod.splits if_splits)
qed

lemma data_consumed_steps: "wt_inv c \<Longrightarrow> wt_step X Y c (wt_data_consumed c i n)"
  unfolding wt_data_consumed_def by (rule step_keep_session) auto

lemma take_capsules_steps: "wt_inv c \<Longrightarrow> wt_step X Y c (fst (take_wt_pending_capsules c i))"
proof -
  assume c: "wt_inv c"
  show ?thesis
  proof (cases "cn_wt_sessions c i")
    case (Some s)
    have "wt_step X Y c (c\<lparr>cn_wt_sessions := (cn_wt_sessions c)(i \<mapsto> fst (ws_take_pending_capsules s))\<rparr>)"
      by (rule step_session [OF c Some]) (use wt_inv_session [OF c Some] in auto)
    with Some show ?thesis by (simp add: take_wt_pending_capsules_def case_prod_unfold)
  qed (simp add: take_wt_pending_capsules_def wt_step_refl [OF c])
qed

section \<open>RESET\_STREAM and STOP\_SENDING\<close>

lemma remove_buffered_steps: "wt_inv c \<Longrightarrow> wt_step X Y c (fst (remove_buffered_in c sids i))"
proof (induction sids arbitrary: c)
  case (Cons j sids)
  show ?case
  proof (cases "cn_wt_sessions c j")
    case (Some s)
    let ?c = "c\<lparr>cn_wt_sessions := (cn_wt_sessions c)(j \<mapsto> fst (ws_remove_buffered_stream s i))\<rparr>"
    have 1: "wt_step X Y c ?c"
      by (rule step_session [OF Cons.prems Some]) (use wt_inv_session [OF Cons.prems Some] in auto)
    from 1 Cons.IH have "wt_step X Y c (fst (remove_buffered_in ?c sids i))" by (rule wt_step_then)
    with Some 1 show ?thesis by (simp add: Let_def case_prod_unfold)
  qed (use Cons in simp)
qed (simp add: wt_step_refl)

lemma account_reset_steps:
  assumes "wt_inv c"
  shows "steps X Y c (account_wt_stream_reset ord c j i n)"
proof -
  obtain k where "wt_stream_header_len c i = Some k" using stream_header_len_some [OF assms] by blast
  then obtain h where h: "(if is_local_initiated_bidi c (kind_from_stream_id i) then Some 0
      else wt_stream_header_len c i) = Some h" by (cases "is_local_initiated_bidi c (kind_from_stream_id i)") auto
  show ?thesis
  proof (cases "cn_wt_sessions c j")
    case None
    with h show ?thesis by (simp add: account_wt_stream_reset_def Let_def wt_step_refl [OF assms])
  next
    case (Some s)
    let ?r = "sat_sub (sat_sub n h) (ws_get_stream_received_data s i)"
    have ok: "wt_step X Y c (c\<lparr>cn_wt_sessions := (cn_wt_sessions c)
        (j \<mapsto> ws_on_data_consumed (ws_add_received_data s ?r) ?r)\<rparr>)" if "ws_check_received_data s ?r"
      by (rule step_session [OF assms Some]) (use wt_inv_session [OF assms Some] that in auto)
    have bad: "returns (wt_step X Y c) (flow_control_violation ord c j)" if "\<not> ws_check_received_data s ?r"
      by (rule flow_control_steps [OF assms Some check_pending(1) [OF assms Some that]])
    show ?thesis
      using ok bad h Some
      by (cases "ws_check_received_data s ?r") (simp_all add: account_wt_stream_reset_def Let_def returns_map_option)
  qed
qed

lemma reset_data_steps:
  assumes "wt_inv c"
  shows "steps X Y c (reset_data_stream ord c i e n)"
proof (cases "wt_stream_session c i")
  case None
  then show ?thesis by (simp add: reset_data_stream_def wt_step_refl [OF assms])
next
  case (Some j)
  have fin: "wt_step X Y c1 (push_event ((update_session c1 j (\<lambda>s.
        ws_disassociate_stream (ws_remove_stream_received_data
          (if l then s else ws_on_remote_stream_closed s b) i) i))
        \<lparr>cn_wt_uni_streams := (cn_wt_uni_streams (update_session c1 j (\<lambda>s.
          ws_disassociate_stream (ws_remove_stream_received_data
            (if l then s else ws_on_remote_stream_closed s b) i) i)))(i := None),
         cn_wt_bidi_streams := (cn_wt_bidi_streams (update_session c1 j (\<lambda>s.
          ws_disassociate_stream (ws_remove_stream_received_data
            (if l then s else ws_on_remote_stream_closed s b) i) i)))(i := None)\<rparr>) ev)"
    if c1: "wt_inv c1" for c1 l b ev
  proof -
    have "wt_step X Y c1 (update_session c1 j (\<lambda>s. ws_disassociate_stream (ws_remove_stream_received_data
        (if l then s else ws_on_remote_stream_closed s b) i) i))"
      by (rule step_keep_session [OF c1]) auto
    then show ?thesis
      by (rule wt_step_then) (blast intro: wt_step_then step_event step_forget_registrations map_le_smaller)
  qed
  from account_reset_steps [OF assms, where X = X and Y = Y and ord = ord and i = i and j = j and n = n] show ?thesis
    using Some wt_step_refl [OF assms] wt_step_trans [OF _ fin [OF wt_step_inv]]
    by (auto simp: reset_data_stream_def Let_def returns_bind elim!: returns_mono)
qed

lemma forget_deferred:
  assumes "wt_inv c"
  shows "wt_step X Y c (c\<lparr>cn_deferred_wt_connects := (cn_deferred_wt_connects c)(i := None)\<rparr>)"
proof -
  have "card (dom (cn_deferred_wt_connects c) - {i}) \<le> card (dom (cn_deferred_wt_connects c))"
    using assms by (intro card_mono) (auto simp: wt_inv_def wt_waiting_inv_def)
  then show ?thesis
    using assms step_waiting [of c "(cn_deferred_wt_connects c)(i := None)" "cn_pending_pre_negotiation c" X Y
        "cn_ignored_pre_negotiation c"]
    by (auto simp: wt_inv_def wt_waiting_inv_def)
qed

lemma forget_pre:
  assumes "wt_inv c"
  shows "wt_step X Y c (c\<lparr>cn_pending_pre_negotiation := (cn_pending_pre_negotiation c)(i := None),
    cn_ignored_pre_negotiation := t\<rparr>)"
proof -
  have "card (dom (cn_pending_pre_negotiation c) - {i}) \<le> card (dom (cn_pending_pre_negotiation c))"
    using assms by (intro card_mono) (auto simp: wt_inv_def wt_waiting_inv_def)
  then show ?thesis
    using assms step_waiting [of c "cn_deferred_wt_connects c" "(cn_pending_pre_negotiation c)(i := None)" X Y t]
    by (auto simp: wt_inv_def wt_waiting_inv_def dest!: ran_removeE)
qed

lemma reset_steps:
  assumes "wt_inv c"
  shows "steps {i} {} c (handle_wt_stream_reset ord c i e n)"
proof -
  let ?b = "remove_buffered_in c (ord (dom (cn_wt_sessions c))) i"
  have b: "wt_step {i} {} c (fst ?b)" by (rule remove_buffered_steps [OF assms])
  then have "steps {i} {} c (case ?b of (c, True) \<Rightarrow> Some (c, True)
      | (c, False) \<Rightarrow> reset_data_stream ord c i e n)"
    using steps_after [OF b reset_data_steps [OF wt_step_inv [OF b]]]
    by (auto split: prod.split bool.split)
  then show ?thesis
    using terminate_own [OF assms] forget_deferred [OF assms] forget_pre [OF assms] wt_step_refl [OF assms]
    by (simp add: handle_wt_stream_reset_def returns_map_option)
qed

lemma stop_sending_steps:
  assumes "wt_inv c"
  shows "steps {i} {} c (handle_wt_stop_sending ord c i e)"
proof -
  show ?thesis
    using terminate_own [OF assms] wt_step_refl [OF assms] step_event(1) [OF assms]
    by (simp add: handle_wt_stop_sending_def returns_map_option split: option.split)
qed

section \<open>Delivery of buffered streams\<close>

lemma ws_buffered_commute [simp]:
  "ws_add_received_stream (s\<lparr>ws_buffered_streams := xs\<rparr>) b = (ws_add_received_stream s b)\<lparr>ws_buffered_streams := xs\<rparr>"
  "ws_associate_stream (s\<lparr>ws_buffered_streams := xs\<rparr>) i = (ws_associate_stream s i)\<lparr>ws_buffered_streams := xs\<rparr>"
  "ws_add_received_data_and_track (s\<lparr>ws_buffered_streams := xs\<rparr>) i n =
    (ws_add_received_data_and_track s i n)\<lparr>ws_buffered_streams := xs\<rparr>"
  "ws_on_remote_stream_closed (s\<lparr>ws_buffered_streams := xs\<rparr>) b =
    (ws_on_remote_stream_closed s b)\<lparr>ws_buffered_streams := xs\<rparr>"
  "ws_remove_stream_received_data (s\<lparr>ws_buffered_streams := xs\<rparr>) i =
    (ws_remove_stream_received_data s i)\<lparr>ws_buffered_streams := xs\<rparr>"
  "ws_check_received_stream (s\<lparr>ws_buffered_streams := xs\<rparr>) b = ws_check_received_stream s b"
  "ws_check_received_data (s\<lparr>ws_buffered_streams := xs\<rparr>) n = ws_check_received_data s n"
  by (simp_all add: ws_defs Let_def split: option.split prod.split)

lemma ws_keep_buffered [simp]:
  "ws_buffered_streams (ws_add_received_stream s b) = ws_buffered_streams s"
  "ws_buffered_streams (ws_associate_stream s i) = ws_buffered_streams s"
  "ws_buffered_streams (ws_add_received_data_and_track s i n) = ws_buffered_streams s"
  "ws_buffered_streams (ws_on_remote_stream_closed s b) = ws_buffered_streams s"
  "ws_buffered_streams (ws_remove_stream_received_data s i) = ws_buffered_streams s"
  "ws_buffered_stream_entries (ws_add_received_stream s b) = ws_buffered_stream_entries s"
  "ws_buffered_stream_entries (ws_associate_stream s i) = ws_buffered_stream_entries s"
  "ws_buffered_stream_entries (ws_add_received_data_and_track s i n) = ws_buffered_stream_entries s"
  "ws_buffered_stream_entries (ws_on_remote_stream_closed s b) = ws_buffered_stream_entries s"
  "ws_buffered_stream_entries (ws_remove_stream_received_data s i) = ws_buffered_stream_entries s"
  by (simp_all add: ws_defs Let_def split: option.split prod.split)

lemma restore_entry_eq:
  "restore_entry s i =
    (if ws_buffered_stream_entries s i = None then s
     else s\<lparr>ws_buffered_streams := ws_buffered_streams s @ [i]\<rparr>)"
  by (simp add: restore_entry_def ws_take_buffered_stream_entry_def ws_restore_buffered_stream_def fun_upd_idem
      split: option.split)

lemma restore_entries:
  "foldl restore_entry s js =
    s\<lparr>ws_buffered_streams := ws_buffered_streams s @ filter (\<lambda>i. ws_buffered_stream_entries s i \<noteq> None) js\<rparr>"
  by (induction js arbitrary: s) (simp_all add: restore_entry_eq)

lemma behind_suffix:
  "set ids \<subseteq> set (behind (pre @ i # ids) i)" "length (behind (pre @ i # ids) i) < length (pre @ i # ids)"
proof -
  show "set ids \<subseteq> set (behind (pre @ i # ids) i)"
    by (induction pre) (auto simp: behind_def)
  show "length (behind (pre @ i # ids) i) < length (pre @ i # ids)"
    by (induction pre) (auto simp: behind_def)
qed

lemma ws_inv_buffered:
  "ws_inv (s\<lparr>ws_buffered_streams := xs\<rparr>) \<Longrightarrow> dom e \<subseteq> set ys \<Longrightarrow> length ys \<le> MAX_BUFFERED_STREAMS \<Longrightarrow>
    \<forall>x \<in> ran e. length (be_data x) \<le> WT_MAX_BUFFERED_STREAM_BYTES \<Longrightarrow>
    ws_inv (s\<lparr>ws_buffered_streams := ys, ws_buffered_stream_entries := e\<rparr>) \<and>
    ws_inv (s\<lparr>ws_buffered_stream_entries := e, ws_buffered_streams := ys\<rparr>)"
  by (simp add: ws_inv_def ws_buffers_def ws_windows_def)

lemma length_filter_bound: "length xs < n \<Longrightarrow> length (filter P xs) < n"
  by (rule le_less_trans [OF length_filter_le])

lemma deliver_loop_inv:
  assumes "buffered = pre @ ids" "ws_inv (s\<lparr>ws_buffered_streams := ids\<rparr>)" "ws_buffered_streams s = []"
    "length buffered \<le> MAX_BUFFERED_STREAMS"
    "deliver_loop j buffered ids s evs cl = (s', evs', cl', v)"
  shows "ws_inv s' \<and> ws_state s' = ws_state s"
  using assms
proof (induction ids arbitrary: pre s evs cl)
  case Nil
  then have "s\<lparr>ws_buffered_streams := []\<rparr> = s" by simp
  with Nil show ?case by simp
next
  case (Cons i ids)
  let ?e = "ws_buffered_stream_entries s"
  let ?s = "s\<lparr>ws_buffered_stream_entries := ?e(i := None)\<rparr>"
  have dom: "dom ?e \<subseteq> insert i (set ids)" and data: "\<forall>x \<in> ran ?e. length (be_data x) \<le> WT_MAX_BUFFERED_STREAM_BYTES"
    using Cons.prems(2) by (simp_all add: ws_inv_def ws_buffers_def)
  have len: "length ids \<le> MAX_BUFFERED_STREAMS" using Cons.prems(1,4) by simp
  have s: "ws_inv (?s\<lparr>ws_buffered_streams := ids\<rparr>)"
    using ws_inv_buffered [OF Cons.prems(2), of "?e(i := None)" ids] dom data len
    by (auto dest!: ran_removeE)
  show ?case
  proof (cases "?e i")
    case None
    then show ?thesis
      using Cons.IH [of "pre @ [i]" ?s] Cons.prems s by (simp add: ws_take_buffered_stream_entry_def)
  next
    case (Some en)
    let ?b = "be_is_bidi en" and ?n = "length (be_data en)" and ?j = "behind buffered i"
    let ?s1 = "ws_associate_stream (ws_add_received_stream ?s ?b) i"
    let ?s2 = "if be_data en \<noteq> [] then ws_add_received_data_and_track ?s1 i ?n else ?s1"
    let ?f = "\<lambda>e. filter (\<lambda>k. e k \<noteq> None) ?j"
    have bj: "set ids \<subseteq> set ?j" "length ?j < length buffered" using behind_suffix Cons.prems(1) by auto
    have restored: "ws_inv (r\<lparr>ws_buffered_streams := ys, ws_buffered_stream_entries := ?e\<rparr>)"
      if "ws_inv (r\<lparr>ws_buffered_streams := ids\<rparr>)" "set ys = insert i (set (?f g))" "length ys = Suc (length (?f g))"
        "\<forall>k \<in> dom ?e - {i}. g k \<noteq> None" for r ys g
    proof (rule ws_inv_buffered [OF that(1) _ _ data, THEN conjunct1])
      show "dom ?e \<subseteq> set ys" using that(2,4) dom bj(1) by auto
      show "length ys \<le> MAX_BUFFERED_STREAMS"
        using that(3) length_filter_bound [OF bj(2), of "\<lambda>k. g k \<noteq> None"] Cons.prems(4) by simp
    qed
    show ?thesis
    proof (cases "ws_check_received_stream ?s ?b")
      case False
      with Cons.prems(3,5) Some have "s' = ?s\<lparr>ws_buffered_streams := i # ?f ?e, ws_buffered_stream_entries := ?e\<rparr>"
        by (simp add: ws_take_buffered_stream_entry_def ws_restore_buffered_stream_def restore_entries fun_upd_idem Let_def)
      then show ?thesis using restored [OF s, of "i # ?f ?e" ?e] by auto
    next
      case chk: True
      have s1: "ws_inv (?s1\<lparr>ws_buffered_streams := ids\<rparr>)"
        using ws_small_inv(2) [OF ws_add_received_stream_inv [OF s]] chk by simp
      show ?thesis
      proof (cases "be_data en \<noteq> [] \<and> \<not> ws_check_received_data ?s1 ?n")
        case True
        with Cons.prems(3,5) Some chk have s': "s' = ?s1\<lparr>ws_buffered_streams := ?f (?e(i := None)) @ [i],
            ws_buffered_stream_entries := ?e\<rparr>"
          by (simp add: ws_take_buffered_stream_entry_def ws_restore_buffered_stream_def restore_entries fun_upd_idem Let_def)
        have "ws_inv s'" unfolding s' by (rule restored [OF s1, of _ "?e(i := None)"]) auto
        with s' show ?thesis by simp
      next
        case False
        have s2: "ws_inv (?s2\<lparr>ws_buffered_streams := ids\<rparr>)"
          using ws_add_received_data_and_track_inv [OF s1] False s1 by (cases "be_data en = []") simp_all
        let ?s3 = "ws_remove_stream_received_data (ws_on_remote_stream_closed ?s2 ?b) i"
        have s3: "ws_inv (?s3\<lparr>ws_buffered_streams := ids\<rparr>)"
          using ws_small_inv(1) [OF ws_on_remote_stream_closed_inv [OF s2]] by (simp split del: if_split)
        have "ws_buffered_streams ?s2 = []" "ws_state ?s2 = ws_state s" using Cons.prems(3) by simp_all
        with Cons.prems Some chk False Cons.IH [of "pre @ [i]" ?s2] Cons.IH [of "pre @ [i]" ?s3] s2 s3
        show ?thesis
          by (cases "be_fin en") (simp_all add: ws_take_buffered_stream_entry_def Let_def split del: if_split)
      qed
    qed
  qed
qed

text \<open>Whatever buffer the session has, delivery leaves it in order.\<close>

lemma deliver_steps:
  assumes "wt_inv c"
  shows "wt_step X Y c (fst (deliver_buffered_streams c i))"
proof (cases "cn_wt_sessions c i")
  case None
  then show ?thesis by (simp add: deliver_buffered_streams_def wt_step_refl [OF assms])
next
  case (Some s)
  let ?s = "s\<lparr>ws_buffered_streams := []\<rparr>" and ?b = "ws_buffered_streams s"
  obtain s1 evs cl v where d: "deliver_loop i ?b ?b ?s [] [] = (s1, evs, cl, v)"
    by (cases "deliver_loop i ?b ?b ?s [] []") auto
  have ws: "ws_inv s" using wt_inv_session [OF assms Some] by simp
  have "ws_inv (?s\<lparr>ws_buffered_streams := ?b\<rparr>)" using ws by simp
  from deliver_loop_inv [OF _ this _ _ d, of "[]"] ws have s1: "ws_inv s1" "ws_state s1 = ws_state s"
    by (simp_all add: ws_inv_def ws_buffers_def)
  obtain s2 ds where t: "(if v then (s1, []) else ws_take_buffered_datagrams s1) = (s2, ds)"
    by (cases "if v then (s1, []) else ws_take_buffered_datagrams s1") auto
  then have s2: "ws_inv s2" "ws_state s2 = ws_state s"
    using s1 ws_small_inv(5) [OF s1(1)] by (auto simp: ws_take_buffered_datagrams_def split: if_splits)
  let ?c1 = "unregister_streams c cl"
  have 1: "wt_step X Y c ?c1"
  proof -
    let ?u = "cn_wt_uni_streams c |` (- {i. (i, False) \<in> set cl})"
    let ?w = "cn_wt_bidi_streams c |` (- {i. (i, True) \<in> set cl})"
    have "?c1 = c\<lparr>cn_wt_uni_streams := ?u, cn_wt_bidi_streams := ?w\<rparr>" by (simp add: unregister_streams_def)
    with step_forget_registrations [OF assms, of ?u ?w X] show ?thesis by simp
  qed
  let ?c2 = "?c1\<lparr>cn_wt_sessions := (cn_wt_sessions ?c1)(i \<mapsto> s2)\<rparr>"
  have 2: "wt_step X Y c ?c2"
    by (rule wt_step_then [OF 1 step_session [where s = s]]) (use Some s2 in \<open>simp_all add: unregister_streams_def\<close>)
  let ?c3 = "?c2\<lparr>cn_events := cn_events c @ evs @ map (\<lambda>d. WebTransport (WtDatagram i d)) ds\<rparr>"
  have 3: "wt_step X Y c ?c3" by (rule wt_step_then [OF 2 step_event(2)])
  have "fst (deliver_buffered_streams c i) = ?c3"
    using Some d t by (simp add: deliver_buffered_streams_def ws_take_buffered_streams_def unregister_streams_def)
  with 3 show ?thesis by simp
qed

lemma deliver_violation:
  assumes "deliver_buffered_streams c i = (c', True)" "wt_inv c" "cn_wt_sessions c i = Some s" "ws_state s \<noteq> WsPending"
  shows "\<exists>s'. cn_wt_sessions c' i = Some s' \<and> ws_state s' \<noteq> WsPending"
proof -
  have "wt_step {} {} c c'" using deliver_steps [OF assms(2), of "{}" "{}" i] assms(1) by simp
  moreover have "i \<notin> cn_closed_wt_sessions c'"
    using assms(1,3) wt_inv_session [OF assms(2,3)]
    by (auto simp: deliver_buffered_streams_def unregister_streams_def split: prod.splits option.splits)
  ultimately show ?thesis
    using progress_session [of c c' i s] assms(3,4)
    by (cases "ws_state s") (auto simp: wt_step_def split: option.splits)
qed

section \<open>Establishment\<close>

lemma establish_steps:
  assumes "wt_inv c" "establish_pending c i = (c', b)"
  shows "wt_step {i} {i} c c'" "b \<Longrightarrow> \<exists>s. cn_wt_sessions c' i = Some s \<and> ws_state s = WsEstablished"
    "\<not> b \<Longrightarrow> c' = c"
proof -
  have "wt_step {i} {i} c c'" if "cn_wt_sessions c i = Some s" "ws_state s = WsPending" for s
  proof -
    have ws: "ws_inv s" using wt_inv_session [OF assms(1) that(1)] by simp
    let ?f = "is_wt_flow_control_enabled c"
    have inv: "ws_inv ((s\<lparr>ws_flow_control_enabled := ?f\<rparr>)\<lparr>ws_state := WsEstablished\<rparr>)"
      using ws that(2) by (auto simp: ws_inv_def ws_buffers_def ws_windows_def)
    show ?thesis
      using assms(2) that step_session [OF assms(1) that(1), where X = "{i}" and Y = "{i}"] inv ws_establish_inv [OF ws that(2), of ?f]
      by (auto simp: establish_pending_def Let_def split: option.splits)
  qed
  then show "wt_step {i} {i} c c'"
    using assms wt_step_refl [OF assms(1)] by (auto simp: establish_pending_def Let_def split: option.splits if_splits)
  show "b \<Longrightarrow> \<exists>s. cn_wt_sessions c' i = Some s \<and> ws_state s = WsEstablished" "\<not> b \<Longrightarrow> c' = c"
    using assms(2) by (auto simp: establish_pending_def Let_def split: option.splits if_splits)
qed

lemma announce_steps:
  assumes "wt_inv c" "cn_wt_sessions c i = Some s" "ws_state s \<noteq> WsPending"
  shows "steps X Y c (announce_session ord c i)"
proof -
  let ?c1 = "push_event c (WebTransport (WtSessionEstablished i (is_wt_flow_control_enabled c)))"
  have 1: "wt_step X Y c ?c1" by (rule step_event(1) [OF assms(1)])
  obtain c2 v where d: "deliver_buffered_streams ?c1 i = (c2, v)" by (cases "deliver_buffered_streams ?c1 i") auto
  have 2: "wt_step X Y c c2" using wt_step_then [OF 1 deliver_steps, of i] d by simp
  have "returns (wt_step X Y c) (flow_control_violation ord c2 i)" if v
  proof -
    from d that obtain s' where s': "cn_wt_sessions c2 i = Some s'" "ws_state s' \<noteq> WsPending"
      using deliver_violation [of ?c1 i c2 s] wt_step_inv [OF 1] assms(2,3) by (auto simp: push_event_def)
    have "returns (wt_step X Y c2) (flow_control_violation ord c2 i)"
      by (rule flow_control_steps [OF wt_step_inv [OF 2] s'])
    with 2 show ?thesis by (auto elim!: returns_mono intro: wt_step_trans)
  qed
  with d 2 show ?thesis by (cases v) (simp_all add: announce_session_def Let_def returns_map_option)
qed

section \<open>Capsules\<close>

lemma update_session_at [simp]:
  "cn_wt_sessions (update_session c i f) = (cn_wt_sessions c)(i := map_option f (cn_wt_sessions c i))"
  by (auto simp: update_session_def split: option.split)

lemma capsule_steps:
  assumes "wt_inv c" "\<forall>s. cn_wt_sessions c i = Some s \<longrightarrow> ws_state s \<noteq> WsPending"
  shows "returns (wt_step {i} {} c) (handle_wt_capsule ord c i k)"
proof -
  have t: "returns (wt_step {i} {} c) (terminate_wt_session_with ord c i e n m)" for e n m
    by (rule terminate_steps [OF assms(1)]) simp
  have d: "wt_step {i} {} c (push_event (update_session c i (\<lambda>s. s\<lparr>ws_state := WsDraining\<rparr>)) e)" for e
  proof -
    have "wt_step {i} {} c (update_session c i (\<lambda>s. s\<lparr>ws_state := WsDraining\<rparr>))"
    proof (rule step_update_session [OF assms(1)])
      fix s assume "cn_wt_sessions c i = Some s" and s: "ws_inv s"
      then have "stage (ws_state s) \<le> 2" "ws_state s \<noteq> WsPending"
        using assms(2) by (cases "ws_state s"; simp add: ws_inv_def)+
      with s show "ws_inv (s\<lparr>ws_state := WsDraining\<rparr>) \<and> stage (ws_state s) \<le> stage (ws_state (s\<lparr>ws_state := WsDraining\<rparr>)) \<and>
        (ws_state s = WsPending \<longrightarrow> ws_state (s\<lparr>ws_state := WsDraining\<rparr>) = WsPending \<or> i \<in> {i} \<and> i \<in> {})"
        by auto
    qed
    then show ?thesis by (rule wt_step_then) (rule step_event)
  qed
  show ?thesis
    using t d step_event(1) [OF assms(1)] wt_step_refl [OF assms(1)]
    by (cases k) (simp_all add: handle_wt_capsule_def)
qed

text \<open>The bytes still to be processed are not changed by what a capsule does.\<close>

lemma terminate_buffer:
  assumes "terminate_wt_session_with ord c i e n m = Some c'" "cn_wt_sessions c' i = Some s'"
  shows "\<exists>s. cn_wt_sessions c i = Some s \<and> ws_capsule_buf s' = ws_capsule_buf s"
  using assms by (auto simp: terminate_wt_session_with_def Let_def split: option.splits if_splits bind_splits)

lemma capsule_buffer:
  assumes "handle_wt_capsule ord c i k = Some c'" "cn_wt_sessions c' i = Some s'"
  shows "\<exists>s. cn_wt_sessions c i = Some s \<and> ws_capsule_buf s' = ws_capsule_buf s"
  using assms terminate_buffer [of ord c i]
  by (cases k) (auto simp: handle_wt_capsule_def push_event_def split: if_splits)

lemma wt_step_live:
  assumes "wt_step X Y c c'" "cn_wt_sessions c i = Some s" "ws_state s \<noteq> WsPending"
  shows "\<forall>s. cn_wt_sessions c' i = Some s \<longrightarrow> ws_state s \<noteq> WsPending"
  using assms progress_session [of c c' i s]
  by (cases "ws_state s") (auto simp: wt_step_def)

lemma process_capsules_steps:
  "wt_inv c \<Longrightarrow> \<forall>s. cn_wt_sessions c i = Some s \<longrightarrow> ws_state s \<noteq> WsPending \<Longrightarrow>
    steps {i} {} c (process_capsules ord c i)"
proof (induction "case cn_wt_sessions c i of None \<Rightarrow> 0 | Some s \<Rightarrow> length (ws_capsule_buf s)" arbitrary: c rule: less_induct)
  case less
  note refl = wt_step_refl [OF less.prems(1)]
  show ?case
  proof (cases "cn_wt_sessions c i")
    case None
    with refl show ?thesis by (subst process_capsules.simps) simp
  next
    case (Some s)
    show ?thesis
    proof (cases "ws_capsule_buf s = [] \<or> (\<forall>k n. capsule_decode (ws_capsule_buf s) \<noteq> Inr (Some (k, n)))")
      case True
      with refl Some show ?thesis by (subst process_capsules.simps) (auto split: sum.split option.split)
    next
      case False
      then obtain k n where d: "capsule_decode (ws_capsule_buf s) = Inr (Some (k, n))" "ws_capsule_buf s \<noteq> []" by auto
      have n: "0 < n" "n \<le> length (ws_capsule_buf s)" using capsule_decode_sound [OF d(1)] by simp_all
      let ?c1 = "drain_capsule_buf c i n"
      have 1: "wt_step {i} {} c ?c1"
        unfolding drain_capsule_buf_def by (rule step_keep_session [OF less.prems(1)]) auto
      have live: "\<forall>s. cn_wt_sessions c' i = Some s \<longrightarrow> ws_state s \<noteq> WsPending" if "wt_step {i} {} c c'" for c'
        using that less.prems(2) Some wt_step_live by blast
      obtain c2 where h: "handle_wt_capsule ord ?c1 i k = Some c2" and "wt_step {i} {} ?c1 c2"
        using capsule_steps [OF wt_step_inv [OF 1] live [OF 1], where ord = ord and k = k] by (auto simp: returns_def)
      with 1 have 2: "wt_step {i} {} c c2" by (auto intro: wt_step_trans)
      have len: "(case cn_wt_sessions c2 i of None \<Rightarrow> 0 | Some s \<Rightarrow> length (ws_capsule_buf s)) < length (ws_capsule_buf s)"
        using capsule_buffer [OF h] n Some by (auto simp: drain_capsule_buf_def split: option.split)
      have "steps {i} {} c2 (process_capsules ord c2 i)"
        by (rule less.hyps [OF _ wt_step_inv [OF 2] live [OF 2]]) (use len Some in simp)
      from steps_after [OF 2 this] 2 Some d h show ?thesis by (subst process_capsules.simps) simp
    qed
  qed
qed

lemma capsule_data_steps:
  assumes "wt_inv c" "\<forall>s. cn_wt_sessions c i = Some s \<longrightarrow> ws_state s \<noteq> WsPending"
  shows "steps {i} {} c (process_wt_capsule_data ord c i data)"
proof -
  have "wt_step {i} {} c (update_session c i (\<lambda>s. s\<lparr>ws_capsule_buf := ws_capsule_buf s @ data\<rparr>))"
    by (rule step_keep_session [OF assms(1)]) auto
  then have "steps {i} {} c (process_capsules ord (update_session c i (\<lambda>s. s\<lparr>ws_capsule_buf := ws_capsule_buf s @ data\<rparr>)) i)"
    by (rule steps_then) (rule process_capsules_steps, use assms(2) in auto)
  then show ?thesis using wt_step_refl [OF assms(1)] by (simp add: process_wt_capsule_data_def)
qed

lemma data_frame_steps:
  assumes "wt_inv c" "cn_streams c i \<noteq> None"
  shows "steps {i} {} c (handle_wt_data_frame ord c i data)"
proof -
  have "steps {i} {} c (bindC (process_wt_capsule_data ord c i data) (\<lambda>c _. Some (c, Inr True)))"
    if "\<forall>s. cn_wt_sessions c i = Some s \<longrightarrow> ws_state s \<noteq> WsPending"
    by (rule steps_bindC [OF capsule_data_steps [OF assms(1) that]]) (simp add: wt_step_refl wt_step_inv)
  moreover have "wt_step {i} {} c (update_session c i (\<lambda>s. s\<lparr>ws_capsule_buf := ws_capsule_buf s @ data\<rparr>))"
    by (rule step_keep_session [OF assms(1)]) auto
  moreover obtain r where "cn_streams c i = Some r" using assms(2) by blast
  ultimately show ?thesis
    using wt_step_refl [OF assms(1)] by (simp add: handle_wt_data_frame_def split: option.split)
qed

lemma close_entry_steps:
  assumes "wt_inv c" "cn_wt_sessions c i \<noteq> None"
  shows "wt_step {i} {} c (close_session_entry c i)"
  unfolding close_session_entry_def by (rule step_close_entry [OF assms]) simp

lemma stream_end_steps:
  assumes "wt_inv c"
  shows "steps {i} {} c (handle_wt_stream_end ord c i)"
proof -
  show ?thesis
    using terminate_own [OF assms] close_entry_steps [OF assms] forget_deferred [OF assms] wt_step_refl [OF assms]
    by (simp add: handle_wt_stream_end_def returns_map_option split: option.split)
qed

lemma establish_server_steps:
  assumes "wt_inv c"
  shows "steps {i} {i} c (establish_wt_session_server ord c i headers)"
proof -
  obtain c1 b where e: "establish_pending c i = (c1, b)" by (cases "establish_pending c i") auto
  have 1: "wt_step {i} {i} c c1" using establish_steps(1) [OF assms e] .
  have "steps {i} {i} c1 (case announce_session ord c1 i of
              None \<Rightarrow> None
            | Some (c, True) \<Rightarrow> Some (c, Inr ())
            | Some (c, False) \<Rightarrow>
                if is_some_and (cn_wt_sessions c i) (\<lambda>s. ws_capsule_buf s \<noteq> []) then
                  (case process_wt_capsule_data ord c i [] of
                     None \<Rightarrow> None
                   | Some (c, Inr _) \<Rightarrow> Some (c, Inr ())
                   | Some (c, Inl e) \<Rightarrow>
                       map_option (\<lambda>c. (c, Inl e)) (terminate_wt_session ord c i))
                else Some (c, Inr ()))" (is "steps {i} {i} c1 ?m") if v: b
  proof -
    obtain s where s: "cn_wt_sessions c1 i = Some s" "ws_state s = WsEstablished"
      using establish_steps(2) [OF assms e v] by blast
    then have "steps {i} {} c1 (announce_session ord c1 i)"
      by (intro announce_steps [OF wt_step_inv [OF 1], where s = s]) simp_all
    then obtain c2 v where a: "announce_session ord c1 i = Some (c2, v)" and 2: "wt_step {i} {} c1 c2"
      by (auto simp: returns_def)
    have live: "\<forall>s. cn_wt_sessions c2 i = Some s \<longrightarrow> ws_state s \<noteq> WsPending"
      by (rule wt_step_live [OF 2 s(1)]) (simp add: s(2))
    obtain c3 r where p: "process_wt_capsule_data ord c2 i [] = Some (c3, r)" and 3: "wt_step {i} {} c2 c3"
      using capsule_data_steps [OF wt_step_inv [OF 2] live, where ord = ord and data = "[]"]
      by (auto simp: returns_def)
    obtain c4 where t: "terminate_wt_session ord c3 i = Some c4" and 4: "wt_step {i} {} c3 c4"
      using terminate_own [OF wt_step_inv [OF 3], where i = i and ord = ord] unfolding returns_def by blast
    have "steps {i} {} c1 ?m"
      using a 2 p t wt_step_trans [OF 2 3] wt_step_trans [OF wt_step_trans [OF 2 3] 4] by (cases v; cases r) simp_all
    then show ?thesis by (rule steps_mono) simp_all
  qed
  with 1 e have "b \<Longrightarrow> steps {i} {i} c ?m" by (auto intro: steps_after)
  with e establish_steps(3) [OF assms e] wt_step_refl [OF assms] show ?thesis
    by (cases b) (simp_all add: establish_wt_session_server_def)
qed

section \<open>Datagrams and streams\<close>

lemma datagram_session_small: "datagram_decode b = Inr (d, n) \<Longrightarrow> dg_session_id d < 2 ^ 62"
  using datagram_roundtrip [of 0 "[]" d "[]" b d n] datagram_new_ok by blast

lemma feed_datagram_steps:
  assumes "wt_inv c"
  shows "steps X Y c (feed_datagram c data)"
proof (cases "is_wt_fully_negotiated c")
  case False
  with wt_step_refl [OF assms] show ?thesis by (simp add: feed_datagram_def split: option.split)
next
  case True
  then have peer: "cn_peer_settings c \<noteq> None" by (auto simp: is_wt_fully_negotiated_def split: option.splits if_splits)
  have new: "wt_step X Y c (c\<lparr>cn_wt_sessions := (cn_wt_sessions c)
      (i \<mapsto> fst (ws_buffer_datagram wt_session_new p))\<rparr>)"
    if "cn_role c \<noteq> Client" "cn_wt_sessions c i = None" "i \<notin> cn_closed_wt_sessions c" "i < 2 ^ 62" for i p
    by (rule step_new_session [OF assms]) (use that peer in \<open>auto intro: role.exhaust\<close>)
  have old: "wt_step X Y c (update_session c i (\<lambda>s. fst (ws_buffer_datagram s p)))" for i p
    by (rule step_keep_session [OF assms]) auto
  show ?thesis
    using wt_step_refl [OF assms] step_event(1) [OF assms] new old datagram_session_small
    by (auto simp: feed_datagram_def Let_def split: option.split sum.split)
qed

lemma local_stream_steps:
  assumes "wt_inv c"
  shows "steps X Y c (register_local_wt_stream c j i)"
proof (cases "cn_wt_sessions c j")
  case None
  with wt_step_refl [OF assms] show ?thesis by (simp add: register_local_wt_stream_def Let_def)
next
  case (Some s)
  have j: "j < 2 ^ 62" and peer: "cn_peer_settings c \<noteq> None"
    using wt_inv_session [OF assms Some] session_peer [OF assms Some] by simp_all
  let ?c = "update_session c j (\<lambda>s. ws_associate_stream s i)"
  have 1: "wt_step X Y c ?c" by (rule step_keep_session [OF assms]) auto
  have p: "cn_peer_settings ?c \<noteq> None" using peer wt_core_same(3) [OF wt_step_core [OF 1]] by simp
  have "wt_step X Y c (?c\<lparr>cn_wt_uni_streams := (cn_wt_uni_streams ?c)(i \<mapsto> j)\<rparr>)"
    by (rule wt_step_then [OF 1 step_uni]) (use p j wt_inv_ran [OF wt_step_inv [OF 1]] in \<open>auto dest!: ran_updE\<close>)
  moreover have "wt_step X Y c (?c\<lparr>cn_wt_bidi_streams := (cn_wt_bidi_streams ?c)(i \<mapsto> j)\<rparr>)"
    by (rule wt_step_then [OF 1 step_bidi]) (use p j wt_inv_ran [OF wt_step_inv [OF 1]] in \<open>auto dest!: ran_updE\<close>)
  ultimately show ?thesis
    using Some wt_step_refl [OF assms] by (simp add: register_local_wt_stream_def Let_def)
qed

lemma register_steps:
  assumes "wt_inv c" "cn_peer_settings c \<noteq> None" "j < 2 ^ 62"
  shows "wt_step X Y c (register_stream c b i j)"
  using assms step_uni [of c "(cn_wt_uni_streams c)(i \<mapsto> j)" X Y] step_bidi [of c "(cn_wt_bidi_streams c)(i \<mapsto> j)" X Y]
    wt_inv_ran [OF assms(1)]
  by (fastforce simp: register_stream_def dest!: ran_updE)

lemma unregister_steps: "wt_inv c \<Longrightarrow> wt_step X Y c (unregister_stream c b i)"
  by (simp add: unregister_stream_def step_forget_uni step_forget_bidi)

lemma reject_steps: "wt_inv c \<Longrightarrow> wt_step X Y c (reject_stream c b i e)"
  unfolding reject_stream_def by (rule wt_step_then [OF unregister_steps step_event(1)])

lemma buffer_data_steps:
  assumes "wt_inv c"
  shows "wt_step X Y c (fst (buffer_stream_data c b i j data))"
proof (cases "cn_wt_sessions c j")
  case None
  then show ?thesis by (simp add: buffer_stream_data_def wt_step_refl [OF assms])
next
  case (Some s)
  have ws: "ws_inv s" using wt_inv_session [OF assms Some] by simp
  have 1: "wt_step X Y c (c\<lparr>cn_wt_sessions := (cn_wt_sessions c)(j \<mapsto> fst (ws_append_buffered_stream_data s i data))\<rparr>)"
    by (rule step_session [OF assms Some]) (use ws in auto)
  let ?s = "fst (ws_append_buffered_stream_data s i data)"
  have s: "ws_inv ?s" "ws_state ?s = ws_state s" using ws by auto
  have "wt_step X Y c (c\<lparr>cn_wt_sessions := (cn_wt_sessions c)(j \<mapsto> fst (ws_take_buffered_stream_entry ?s i))\<rparr>)"
    by (rule step_session [OF assms Some]) (use s in auto)
  then have "wt_step X Y c (reject_stream (c\<lparr>cn_wt_sessions := (cn_wt_sessions c)
      (j \<mapsto> fst (ws_take_buffered_stream_entry ?s i))\<rparr>) b i BufferedStreamRejected)"
    by (rule wt_step_then) (rule reject_steps)
  with 1 Some show ?thesis
    by (cases "ws_append_buffered_stream_data s i data") (auto simp: buffer_stream_data_def split: bool.split)
qed

lemma deliver_data_steps:
  assumes "wt_inv c"
  shows "steps X Y c (deliver_stream_data ord c b i j data)"
proof (cases "cn_wt_sessions c j")
  case None
  then show ?thesis by (simp add: deliver_stream_data_def step_event(1) [OF assms])
next
  case (Some s)
  have bad: "returns (wt_step X Y c) (flow_control_violation ord c j)" if "\<not> ws_check_received_data s (length data)"
    by (rule flow_control_steps [OF assms Some check_pending(1) [OF assms Some that]])
  have ok: "wt_step X Y c (push_event (c\<lparr>cn_wt_sessions := (cn_wt_sessions c)
      (j \<mapsto> ws_add_received_data_and_track s i (length data))\<rparr>) e)" if "ws_check_received_data s (length data)" for e
    by (rule wt_step_then [OF step_session [OF assms Some] step_event(1)])
      (use that wt_inv_session [OF assms Some] in auto)
  show ?thesis using ok bad Some by (simp add: deliver_stream_data_def returns_map_option)
qed

lemma open_steps:
  assumes "wt_inv c" "cn_peer_settings c \<noteq> None" "j < 2 ^ 62"
  shows "steps X Y c (open_wt_stream ord c b i j payload)"
proof -
  let ?c = "register_stream c b i j"
  have 1: "wt_step X Y c ?c" by (rule register_steps [OF assms])
  obtain c1 r where a: "associate_or_buffer_stream ?c i j b = (c1, r)"
    by (cases "associate_or_buffer_stream ?c i j b") auto
  have "cn_peer_settings ?c \<noteq> None" using assms(2) wt_core_same(3) [OF wt_step_core [OF 1]] by simp
  from associate_steps [OF wt_step_inv [OF 1] this assms(3) a] 1 have 2: "wt_step X Y c c1"
    by (blast intro: wt_step_trans)
  note inv = wt_step_inv [OF 2]
  have rej: "wt_step X Y c (reject_stream c1 b i e)" for e by (rule wt_step_then [OF 2 reject_steps])
  have buf: "wt_step X Y c (fst (buffer_stream_data c1 b i j payload))" by (rule wt_step_then [OF 2 buffer_data_steps])
  have viol: "returns (wt_step X Y c) (flow_control_violation ord (unregister_stream c1 b i) j)"
    if "is_some_and (cn_wt_sessions c1 j) (\<lambda>s. \<not> ws_check_received_stream s b)"
  proof -
    from that obtain s where s: "cn_wt_sessions c1 j = Some s" "\<not> ws_check_received_stream s b"
      by (auto simp: is_some_and_def split: option.splits)
    have 3: "wt_step X Y c (unregister_stream c1 b i)" by (rule wt_step_then [OF 2 unregister_steps])
    have "cn_wt_sessions (unregister_stream c1 b i) j = Some s" using s(1) by (simp add: unregister_stream_def)
    from flow_control_steps [OF wt_step_inv [OF 3] this check_pending(2) [OF inv s], where X = X and Y = Y and ord = ord] 3
    show ?thesis by (auto elim!: returns_mono intro: wt_step_trans)
  qed
  let ?c2 = "push_event (update_session c1 j (\<lambda>s. ws_add_received_stream s b)) (open_event b i j)"
  have opened: "wt_step X Y c ?c2"
    if "\<not> is_some_and (cn_wt_sessions c1 j) (\<lambda>s. \<not> ws_check_received_stream s b)"
  proof -
    have "wt_step X Y c1 (update_session c1 j (\<lambda>s. ws_add_received_stream s b))"
      by (rule step_keep_session [OF inv]) (use that in \<open>auto simp: is_some_and_def\<close>)
    with 2 have "wt_step X Y c (update_session c1 j (\<lambda>s. ws_add_received_stream s b))" by (rule wt_step_trans)
    then show ?thesis by (rule wt_step_then) (rule step_event)
  qed
  have "steps X Y c (deliver_stream_data ord ?c2 b i j payload)"
    if "\<not> is_some_and (cn_wt_sessions c1 j) (\<lambda>s. \<not> ws_check_received_stream s b)"
    by (rule steps_then [OF opened [OF that] deliver_data_steps])
  then show ?thesis
    using a 2 rej buf viol opened
    by (auto simp: open_wt_stream_def Let_def returns_map_option case_prod_unfold split: sum.split assoc_outcome.split)
qed

lemma resolve_uni_steps:
  assumes "wt_inv c" "cn_peer_settings c \<noteq> None"
  shows "steps X Y c (resolve_wt_uni_stream_session_id ord c i data)"
proof -
  obtain c1 buf where b: "(case cn_pending_wt_uni_streams c i of
      Some pending \<Rightarrow> (c\<lparr>cn_pending_wt_uni_streams := (cn_pending_wt_uni_streams c)(i \<mapsto> pending @ data)\<rparr>, pending @ data)
    | None \<Rightarrow> (c, data)) = (c1, buf)" (is "?b = _") by (cases ?b) auto
  have 1: "wt_step X Y c c1"
    using b step_pending_uni [OF assms(1), where X = X and Y = Y] assms(2) wt_step_refl [OF assms(1)]
    by (auto split: option.splits)
  have p: "cn_peer_settings c1 \<noteq> None" using assms(2) wt_core_same(3) [OF wt_step_core [OF 1]] by simp
  have 2: "wt_step X Y c (c1\<lparr>cn_pending_wt_uni_streams := m\<rparr>)" for m
    by (rule wt_step_then [OF 1 step_pending_uni]) (use p in auto)
  have 3: "steps X Y c (open_wt_stream ord (c1\<lparr>cn_pending_wt_uni_streams := m\<rparr>) False i (vget v) pl)"
    if "varint_decode buf = Inr (v, n)" for m pl v n
    by (rule steps_then [OF 2 open_steps]) (use that p varint_decode_sound [OF that] in \<open>auto simp: varint_ok_iff\<close>)
  show ?thesis
    using b 1 2 3 by (auto simp: resolve_wt_uni_stream_session_id_def Let_def split: sum.split)
qed

lemma resolve_bidi_steps:
  assumes "wt_inv c" "cn_peer_settings c \<noteq> None"
  shows "steps X Y c (resolve_wt_bidi_stream_header ord c i data)"
proof -
  obtain c1 buf where b: "(case cn_pending_wt_bidi_streams c i of
      Some pending \<Rightarrow> (c\<lparr>cn_pending_wt_bidi_streams := (cn_pending_wt_bidi_streams c)(i \<mapsto> pending @ data)\<rparr>, pending @ data)
    | None \<Rightarrow> (c, data)) = (c1, buf)" (is "?b = _") by (cases ?b) auto
  have 1: "wt_step X Y c c1"
    using b step_pending_bidi [OF assms(1), where X = X and Y = Y] assms(2) wt_step_refl [OF assms(1)]
    by (auto split: option.splits)
  have p: "cn_peer_settings c1 \<noteq> None" using assms(2) wt_core_same(3) [OF wt_step_core [OF 1]] by simp
  have 2: "wt_step X Y c (c1\<lparr>cn_pending_wt_bidi_streams := m\<rparr>)" for m
    by (rule wt_step_then [OF 1 step_pending_bidi]) (use p in auto)
  have 3: "steps X Y c (open_wt_stream ord (c1\<lparr>cn_pending_wt_bidi_streams := m\<rparr>) True i (vget v) pl)"
    if "varint_decode q = Inr (v, n)" for m pl v n q
    by (rule steps_then [OF 2 open_steps]) (use that p varint_decode_sound [OF that] in \<open>auto simp: varint_ok_iff\<close>)
  show ?thesis
    using b 1 2 3 by (auto simp: resolve_wt_bidi_stream_header_def Let_def split: sum.split)
qed

lemma mark_fin_steps: "wt_inv c \<Longrightarrow> wt_step X Y c (update_session c j (\<lambda>s. ws_mark_buffered_stream_fin s i))"
  by (rule step_keep_session) auto

lemma finish_steps: "wt_inv c \<Longrightarrow> wt_step X Y c (finish_remote_stream c b i j)"
  unfolding finish_remote_stream_def
  by (rule wt_step_then [OF unregister_steps step_keep_session]) auto

lemma finish_event_steps: "wt_inv c \<Longrightarrow> wt_step X Y c (push_event (finish_remote_stream c b i j) e)"
  by (rule wt_step_then [OF finish_steps step_event(1)])

lemma known_bidi_steps:
  assumes "wt_inv c"
  shows "steps X Y c (known_wt_bidi_stream ord c i j data fin)"
proof (cases "session_pending c j")
  case True
  obtain c1 ok where b: "(if data = [] then (c, True) else buffer_stream_data c True i j data) = (c1, ok)"
    (is "?b = _") by (cases ?b) auto
  have 1: "wt_step X Y c c1"
    using b buffer_data_steps [OF assms, where X = X and Y = Y and b = True and i = i and j = j and data = data] wt_step_refl [OF assms]
    by (auto split: if_splits)
  with b True wt_step_then [OF 1 mark_fin_steps] show ?thesis
    by (cases ok) (simp_all add: known_wt_bidi_stream_def)
next
  case False
  obtain c1 ok where b: "(if data = [] then Some (c, True) else deliver_stream_data ord c True i j data) = Some (c1, ok)"
    and 1: "wt_step X Y c c1"
    using deliver_data_steps [OF assms, where X = X and Y = Y and ord = ord and b = True and i = i and j = j and data = data]
      wt_step_refl [OF assms]
    by (cases "data = []") (auto simp: returns_def)
  with False wt_step_then [OF 1 finish_event_steps] wt_step_then [OF 1 step_event(1)] show ?thesis
    by (cases ok) (simp_all add: known_wt_bidi_stream_def Let_def)
qed

lemma bidi_stream_steps:
  assumes "wt_inv c" "cn_peer_settings c \<noteq> None"
  shows "steps X Y c (handle_wt_bidi_stream ord c i data fin)"
proof (cases "cn_wt_bidi_streams c i")
  case (Some j)
  with known_bidi_steps [OF assms(1)] show ?thesis by (simp add: handle_wt_bidi_stream_def)
next
  case None
  have "steps X Y c1 (if \<not> fin then Some (c1, Inr ())
      else
        let c = (case cn_wt_bidi_streams c1 i of
              None \<Rightarrow> c1
            | Some session_id \<Rightarrow>
                if session_pending c1 session_id then
                  update_session c1 session_id (\<lambda>s. ws_mark_buffered_stream_fin s i)
                else push_event (finish_remote_stream c1 True i session_id) (end_event True i)) in
        Some (c\<lparr>cn_pending_wt_bidi_streams := (cn_pending_wt_bidi_streams c)(i := None)\<rparr>, Inr ()))"
    if "wt_inv c1" for c1
  proof -
    have "wt_step X Y c1 (case cn_wt_bidi_streams c1 i of
              None \<Rightarrow> c1
            | Some session_id \<Rightarrow>
                if session_pending c1 session_id then
                  update_session c1 session_id (\<lambda>s. ws_mark_buffered_stream_fin s i)
                else push_event (finish_remote_stream c1 True i session_id) (end_event True i))"
      using mark_fin_steps [OF that] finish_event_steps [OF that] wt_step_refl [OF that] by (simp split: option.split)
    from wt_step_then [OF this step_forget_pending(2)] wt_step_refl [OF that] show ?thesis
      by (simp add: Let_def)
  qed
  with None show ?thesis
    unfolding handle_wt_bidi_stream_def
    by (auto intro!: steps_bindC resolve_bidi_steps assms dest: wt_step_inv)
qed

lemma uni_data_steps:
  assumes "wt_inv c"
  shows "steps X Y c (handle_wt_uni_stream_data ord c i data)"
proof (cases "cn_wt_uni_streams c i")
  case (Some j)
  with wt_step_refl [OF assms] buffer_data_steps [OF assms] deliver_data_steps [OF assms] show ?thesis
    by (simp add: handle_wt_uni_stream_data_def returns_map_option case_prod_unfold)
qed (simp add: handle_wt_uni_stream_data_def wt_step_refl [OF assms])

lemma uni_fin_steps:
  assumes "wt_inv c"
  shows "wt_step X Y c (fst (handle_wt_uni_stream_fin c i))"
  using wt_step_refl [OF assms] mark_fin_steps [OF assms] finish_event_steps [OF assms]
  by (simp add: handle_wt_uni_stream_fin_def split: option.split)

section \<open>What is certainly over\<close>

lemma terminate_inactive:
  "wt_inv c \<Longrightarrow> terminate_wt_session_with ord c i e k m = Some c' \<Longrightarrow> \<not> active c' i"
  by (auto simp: terminate_wt_session_with_def active_def Let_def ws_inv_def dest: wt_inv_session
      split: option.splits if_splits bind_splits)

lemma step_inactive: "wt_step X {} c c' \<Longrightarrow> \<not> active c i \<Longrightarrow> \<not> active c' i"
  by (auto simp: wt_step_def)

lemma reset_inactive:
  assumes "wt_inv c" "handle_wt_stream_reset ord c i e n = Some (c', b)"
  shows "\<not> active c' i"
proof (cases "cn_wt_sessions c i")
  case None
  then have "\<not> active c i" by (simp add: active_def)
  moreover have "wt_step {i} {} c c'"
    using reset_steps [OF assms(1), where ord = ord and i = i and e = e and n = n] assms(2) by simp
  ultimately show ?thesis by (metis step_inactive)
next
  case (Some s)
  with assms(2) show ?thesis
    using terminate_inactive [OF assms(1)]
    by (auto simp: handle_wt_stream_reset_def terminate_wt_session_def)
qed

lemma stop_inactive:
  assumes "wt_inv c" "handle_wt_stop_sending ord c i e = Some (c', b)"
  shows "\<not> active c' i"
proof (cases "cn_wt_sessions c i")
  case None
  then have "\<not> active c i" by (simp add: active_def)
  moreover have "wt_step {i} {} c c'"
    using stop_sending_steps [OF assms(1), where ord = ord and i = i and e = e] assms(2) by simp
  ultimately show ?thesis by (metis step_inactive)
next
  case (Some s)
  with assms(2) show ?thesis
    using terminate_inactive [OF assms(1)]
    by (auto simp: handle_wt_stop_sending_def terminate_wt_session_def)
qed

end
