(* ===== verification/Connection_Inv.thy ===== *)
theory Connection_Inv
  imports Connection Conn_Wt_Inv
begin

text \<open>
  The invariant of a connection, and that every operation returns and keeps it.
\<close>

section \<open>One request stream\<close>

definition awaiting :: "request_stream \<Rightarrow> bool" where
  "awaiting r \<longleftrightarrow> rs_recv_state r = RrWaitingHeaders \<or> (\<exists>e. rs_qpack_blocked_header r = Some (e, False))"

text \<open>A stream that still has a direction to send on, or a FIN that was not handed out yet.\<close>

definition sending :: "request_stream \<Rightarrow> bool" where
  "sending r \<longleftrightarrow> rs_state r \<noteq> SsReset \<and>
    (can_send (rs_state r) \<or> sb_fin (rs_send_buf r) \<and> \<not> sb_fin_sent (rs_send_buf r))"

definition stream_inv :: "request_stream \<Rightarrow> bool" where
  "stream_inv r \<longleftrightarrow> rs_inv r \<and> sb_inv (rs_send_buf r) \<and>
    (rs_qpack_blocked_header r \<noteq> None \<longrightarrow> rs_qpack_blocked r) \<and>
    (\<forall>e. rs_qpack_blocked_header r = Some (e, False) \<longrightarrow> rs_recv_state r = RrReceivingBody) \<and>
    (\<forall>e. rs_qpack_blocked_header r = Some (e, True) \<longrightarrow> rs_recv_state r = RrTrailersReceived) \<and>
    (rs_recv_state r = RrComplete \<longrightarrow> rb_fin (rs_recv_buf r) \<and> rs_pending r = []) \<and>
    (can_send (rs_state r) \<longrightarrow> \<not> sb_fin (rs_send_buf r) \<and> \<not> sb_fin_sent (rs_send_buf r))"

text \<open>How much is left to do for the loop over the frames of a stream.\<close>

definition work :: "request_stream \<Rightarrow> nat" where
  "work r = 2 * length (rs_pending r) + (if rs_recv_state r = RrComplete then 0 else 1)"

text \<open>What processing leaves alone.\<close>

definition same_sending :: "request_stream \<Rightarrow> request_stream \<Rightarrow> bool" where
  "same_sending r r' \<longleftrightarrow> rs_send_buf r' = rs_send_buf r \<and> rs_send_state r' = rs_send_state r \<and>
    rs_qpack_blocked_header r' = rs_qpack_blocked_header r \<and> rs_qpack_blocked r' = rs_qpack_blocked r \<and>
    can_send (rs_state r') = can_send (rs_state r) \<and> (rs_state r' = SsReset) = (rs_state r = SsReset)"

lemma close_remote_reset [simp]: "close_remote s = SsReset \<longleftrightarrow> s = SsReset"
  by (cases s) simp_all

fun raw_result :: "request_recv_state \<Rightarrow> raw_received_data \<Rightarrow> request_recv_state \<Rightarrow> bool" where
  "raw_result s (RawHeaders _) s' \<longleftrightarrow> s = RrWaitingHeaders \<and> s' = RrReceivingBody"
| "raw_result s (RawTrailers _) s' \<longleftrightarrow> s' = RrTrailersReceived"
| "raw_result s (RawData _) s' \<longleftrightarrow> s' = RrReceivingBody"
| "raw_result s RawStreamEnd s' \<longleftrightarrow> s' = RrComplete"

definition recv_result :: "request_stream \<Rightarrow> request_stream \<Rightarrow> h3_error + raw_received_data option \<Rightarrow> bool" where
  "recv_result r r' res \<longleftrightarrow>
    (case res of
       Inr (Some raw) \<Rightarrow> raw_result (rs_recv_state r) raw (rs_recv_state r') \<and> work r' < work r
     | _ \<Rightarrow> rs_recv_state r' = rs_recv_state r)"

text \<open>One pass of the loop: nothing happens, the stream ends, or a frame is taken off the buffer.\<close>

lemma process_once_cases:
  assumes "process_once r = (r', x)"
  obtains
    (stay) "r' = r" "(\<exists>e. x = Some (Inl e)) \<or> x = Some (Inr None)"
  | (finish) "rs_pending r = []" "rb_fin (rs_recv_buf r)" "rs_recv_state r \<noteq> RrComplete"
      "r' = r\<lparr>rs_state := close_remote (rs_state r), rs_recv_state := RrComplete\<rparr>"
      "x = Some (Inr (Some RawStreamEnd))"
  | (frame) f n where "decode_frame (rs_pending r) = Inr (f, n)" "rs_pending r \<noteq> []"
      "process_frame (r\<lparr>rs_recv_buf := the (rb_consume (rs_recv_buf r) n), rs_first_frame_processed := True\<rparr>) f = (r', x)"
proof -
  have "(r' = r \<and> ((\<exists>e. x = Some (Inl e)) \<or> x = Some (Inr None))) \<or>
    (rs_pending r = [] \<and> rb_fin (rs_recv_buf r) \<and> rs_recv_state r \<noteq> RrComplete \<and>
      r' = r\<lparr>rs_state := close_remote (rs_state r), rs_recv_state := RrComplete\<rparr> \<and>
      x = Some (Inr (Some RawStreamEnd))) \<or>
    (\<exists>f n. decode_frame (rs_pending r) = Inr (f, n) \<and> rs_pending r \<noteq> [] \<and>
      process_frame (r\<lparr>rs_recv_buf := the (rb_consume (rs_recv_buf r) n), rs_first_frame_processed := True\<rparr>) f = (r', x))"
    using assms
    by (auto simp: process_once_def rs_pending_def Let_def map_err_def
        split: if_splits sum.splits option.splits frame_decode_error.splits)
  with that show thesis by blast
qed

lemma process_frame_same: "process_frame r f = (r', x) \<Longrightarrow> same_sending r r' \<and> rs_recv_buf r' = rs_recv_buf r \<and>
    rs_state r' = rs_state r"
  by (cases f) (auto simp: same_sending_def Let_def split: if_splits)

lemma process_once_same: "process_once r = (r', x) \<Longrightarrow> same_sending r r'"
  by (erule process_once_cases) (auto simp: same_sending_def dest!: process_frame_same)

lemma same_sending_trans: "same_sending r r1 \<Longrightarrow> same_sending r1 r2 \<Longrightarrow> same_sending r r2"
  by (simp add: same_sending_def)

text \<open>Before the end of the stream, a frame moves the state along and takes bytes.\<close>

lemma process_frame_result:
  assumes "process_frame r f = (r', x)" "rs_recv_state r \<noteq> RrComplete"
  shows "rs_recv_state r' \<noteq> RrComplete"
    "case x of Some (Inr (Some raw)) \<Rightarrow> raw_result (rs_recv_state r) raw (rs_recv_state r')
       | Some (Inr None) \<Rightarrow> False
       | _ \<Rightarrow> rs_recv_state r' = rs_recv_state r"
  using assms by (cases f; cases "rs_recv_state r"; auto simp: Let_def split: if_splits)+

definition ended_ok :: "request_stream \<Rightarrow> bool" where
  "ended_ok r \<longleftrightarrow> (rs_recv_state r = RrComplete \<longrightarrow> rb_fin (rs_recv_buf r) \<and> rs_pending r = [])"

lemma process_once_result:
  assumes "process_once r = (r', x)" "rs_inv r" "ended_ok r"
  shows "rs_inv r' \<and> ended_ok r' \<and>
    (case x of Some res \<Rightarrow> recv_result r r' res
     | None \<Rightarrow> rs_recv_state r' = rs_recv_state r \<and> work r' < work r)"
  using assms(1)
proof (cases rule: process_once_cases)
  case stay
  with assms show ?thesis by (auto simp: recv_result_def)
next
  case finish
  with assms show ?thesis by (auto simp: recv_result_def ended_ok_def rs_inv_def rs_pending_def work_def)
next
  case (frame f n)
  let ?r = "r\<lparr>rs_recv_buf := the (rb_consume (rs_recv_buf r) n), rs_first_frame_processed := True\<rparr>"
  have n: "0 < n" "n \<le> length (rs_pending r)" using decode_frame_sound [OF frame(1)] by simp_all
  note b = rbq.consume_the [OF _ n(2) [unfolded rs_pending_def]]
  have nc: "rs_recv_state ?r \<noteq> RrComplete" using frame(2) assms(3) by (auto simp: ended_ok_def)
  note pf = process_frame_same [OF frame(3)]
  have "rs_inv r'" "rs_pending r' = drop n (rs_pending r)"
    using pf b(2,3) assms(2) by (simp_all add: rs_inv_def rs_pending_def)
  then show ?thesis
    using process_frame_result [OF frame(3) nc] n
    by (cases x) (auto simp: recv_result_def ended_ok_def work_def split: sum.splits option.splits)
qed

lemma process_raw_result:
  assumes "process_raw r = (r', res)" "rs_inv r" "ended_ok r"
  shows "rs_inv r' \<and> ended_ok r' \<and> same_sending r r' \<and> recv_result r r' res"
  using assms
proof (induction r rule: process_raw.induct)
  case (1 r)
  obtain r1 x where p: "process_once r = (r1, x)" by (cases "process_once r") auto
  note o = process_once_result [OF p 1(3,4)] process_once_same [OF p]
  show ?case
  proof (cases x)
    case None
    with p 1(2) have "process_raw r1 = (r', res)" by (subst (asm) process_raw.simps) simp
    with 1(1) [OF p [symmetric] None] o None
    have "rs_inv r' \<and> ended_ok r' \<and> same_sending r1 r' \<and> recv_result r1 r' res" by simp
    with o None show ?thesis
      by (auto simp: recv_result_def intro: same_sending_trans split: sum.splits option.splits)
  next
    case (Some y)
    with p 1(2) o show ?thesis by (subst (asm) process_raw.simps) simp
  qed
qed

lemma process_raw_inv:
  assumes "process_raw r = (r', res)" "stream_inv r" "rs_qpack_blocked_header r = None"
  shows "stream_inv r'"
  using process_raw_result [OF assms(1)] assms(2,3)
  by (auto simp: stream_inv_def ended_ok_def same_sending_def)

section \<open>The invariant\<close>

definition streams_inv :: "connection \<Rightarrow> bool" where
  "streams_inv c \<longleftrightarrow>
    (\<forall>i r. cn_streams c i = Some r \<longrightarrow> i < 2 ^ 62 \<and> kind_is_bidirectional (kind_from_stream_id i) \<and> stream_inv r)"

text \<open>
  On a server: nothing was finished on a stream before its request is there, a stream whose headers wait
  for the dynamic table is not one of a closed session, and a session that was established has its
  CONNECT stream, answered and not given up.  \<open>X\<close> are exceptions while an operation is under way.
\<close>

definition server_inv :: "u64 set \<Rightarrow> connection \<Rightarrow> bool" where
  "server_inv X c \<longleftrightarrow> (cn_role c = Server \<longrightarrow>
    (\<forall>i r. cn_streams c i = Some r \<longrightarrow> awaiting r \<longrightarrow> \<not> sb_fin (rs_send_buf r)) \<and>
    (\<forall>i r e. cn_streams c i = Some r \<longrightarrow> rs_qpack_blocked_header r = Some (e, False) \<longrightarrow>
      i \<notin> cn_closed_wt_sessions c) \<and>
    (\<forall>i. i \<notin> X \<longrightarrow> active c i \<longrightarrow> (\<exists>r. cn_streams c i = Some r \<and> \<not> awaiting r \<and> sending r)))"

definition dispatch_inv :: "connection \<Rightarrow> bool" where
  "dispatch_inv c \<longleftrightarrow>
    (\<forall>i. cn_pending_bidi_dispatch c i \<noteq> None \<longrightarrow> cn_streams c i = None \<and> cn_role c = Server)"

definition critical_inv :: "connection \<Rightarrow> bool" where
  "critical_inv c \<longleftrightarrow> sb_inv (cs_send_buf (cn_control_send c)) \<and> cs_send_state (cn_control_send c) = CsReady \<and>
    cr_inv (cn_control_recv c) \<and>
    (cn_peer_settings c \<noteq> None \<longrightarrow> cr_recv_state (cn_control_recv c) = CrReady) \<and>
    (\<forall>i. i \<in> set (opt_list (cs_stream_id (cn_control_send c)) @ opt_list (cn_encoder_stream_id c) @
        opt_list (cn_decoder_stream_id c)) \<longrightarrow> kind_is_unidirectional (kind_from_stream_id i)) \<and>
    distinct (opt_list (cs_stream_id (cn_control_send c)) @ opt_list (cn_encoder_stream_id c) @
      opt_list (cn_decoder_stream_id c)) \<and>
    cn_next_stream_id c mod 4 = (case cn_role c of Client \<Rightarrow> 0 | Server \<Rightarrow> 1)"

definition conn_inv_ex :: "u64 set \<Rightarrow> connection \<Rightarrow> bool" where
  "conn_inv_ex X c \<longleftrightarrow> wt_inv c \<and> streams_inv c \<and> server_inv X c \<and> dispatch_inv c \<and> critical_inv c"

abbreviation conn_inv :: "connection \<Rightarrow> bool" where
  "conn_inv \<equiv> conn_inv_ex {}"

lemma conn_inv_wt: "conn_inv_ex X c \<Longrightarrow> wt_inv c"
  by (simp add: conn_inv_ex_def)

lemma conn_inv_stream:
  "conn_inv_ex X c \<Longrightarrow> cn_streams c i = Some r \<Longrightarrow>
    i < 2 ^ 62 \<and> kind_is_bidirectional (kind_from_stream_id i) \<and> stream_inv r"
  by (simp add: conn_inv_ex_def streams_inv_def)

lemma conn_inv_except: "conn_inv_ex {i} c \<Longrightarrow> \<not> active c i \<Longrightarrow> conn_inv c"
  by (auto simp: conn_inv_ex_def server_inv_def)

lemma conn_inv_weaken: "conn_inv_ex X c \<Longrightarrow> X \<subseteq> Y \<Longrightarrow> conn_inv_ex Y c"
  by (auto simp: conn_inv_ex_def server_inv_def)

section \<open>What operations on streams leave alone\<close>

definition frame_part :: "connection \<Rightarrow> connection" where
  "frame_part c =
    (wt_core c)\<lparr>cn_streams := Map.empty, cn_qpack_decoder := dd_new, cn_decoder_stream := ds_new,
      cn_blocked_by_ricnt := [], cn_deferred_section_acks := [], cn_deferred_stream_cancellations := [],
      cn_pending_bidi_dispatch := Map.empty, cn_pending_uni_streams := Map.empty,
      cn_ignored_uni_streams := {}\<rparr>"

text \<open>No request stream comes into being.\<close>

definition no_new_stream :: "connection \<Rightarrow> connection \<Rightarrow> bool" where
  "no_new_stream c c' \<longleftrightarrow> (\<forall>i. cn_streams c i = None \<longrightarrow> cn_streams c' i = None)"

lemma no_new_stream_same [simp]: "cn_streams c' = cn_streams c \<Longrightarrow> no_new_stream c c'"
  by (simp add: no_new_stream_def)

definition inner :: "connection \<Rightarrow> connection \<Rightarrow> bool" where
  "inner c c' \<longleftrightarrow> frame_part c' = frame_part c \<and> progress c c' \<and> no_new_stream c c'"

lemma frame_part_same:
  assumes "frame_part c' = frame_part c"
  shows "cn_role c' = cn_role c" "cn_local_settings c' = cn_local_settings c"
    "cn_peer_settings c' = cn_peer_settings c" "cn_limits c' = cn_limits c"
    "cn_control_send c' = cn_control_send c" "cn_control_recv c' = cn_control_recv c"
    "cn_next_stream_id c' = cn_next_stream_id c" "cn_qpack_encoder c' = cn_qpack_encoder c"
    "cn_encoder_stream c' = cn_encoder_stream c" "cn_encoder_stream_id c' = cn_encoder_stream_id c"
    "cn_decoder_stream_id c' = cn_decoder_stream_id c" "cn_encoder_stream_recv c' = cn_encoder_stream_recv c"
    "cn_peer_encoder_stream_id c' = cn_peer_encoder_stream_id c"
    "cn_decoder_stream_recv c' = cn_decoder_stream_recv c"
    "cn_peer_decoder_stream_id c' = cn_peer_decoder_stream_id c" "cn_error c' = cn_error c"
    "cn_peer_goaway_last_id c' = cn_peer_goaway_last_id c"
    "cn_last_sent_goaway_id c' = cn_last_sent_goaway_id c"
  using assms [THEN arg_cong, of cn_role] assms [THEN arg_cong, of cn_local_settings]
    assms [THEN arg_cong, of cn_peer_settings] assms [THEN arg_cong, of cn_limits]
    assms [THEN arg_cong, of cn_control_send] assms [THEN arg_cong, of cn_control_recv]
    assms [THEN arg_cong, of cn_next_stream_id] assms [THEN arg_cong, of cn_qpack_encoder]
    assms [THEN arg_cong, of cn_encoder_stream] assms [THEN arg_cong, of cn_encoder_stream_id]
    assms [THEN arg_cong, of cn_decoder_stream_id] assms [THEN arg_cong, of cn_encoder_stream_recv]
    assms [THEN arg_cong, of cn_peer_encoder_stream_id] assms [THEN arg_cong, of cn_decoder_stream_recv]
    assms [THEN arg_cong, of cn_peer_decoder_stream_id] assms [THEN arg_cong, of cn_error]
    assms [THEN arg_cong, of cn_peer_goaway_last_id] assms [THEN arg_cong, of cn_last_sent_goaway_id]
  by (simp_all add: frame_part_def wt_core_def)

lemma inner_refl [simp]: "inner c c"
  by (simp add: inner_def)

lemma inner_trans: "inner c c1 \<Longrightarrow> inner c1 c2 \<Longrightarrow> wt_inv c2 \<Longrightarrow> inner c c2"
  by (auto simp: inner_def no_new_stream_def intro: progress_trans)

lemma wt_step_inner: "wt_step X Y c c' \<Longrightarrow> inner c c'"
  using wt_core_same [of c' c] by (simp add: inner_def frame_part_def wt_step_def)

section \<open>Small steps\<close>

text \<open>WebTransport steps, when the streams they are about allow it.\<close>

lemma conn_wt_step:
  assumes "conn_inv_ex E c" "wt_step X Y c c'"
    "\<And>i r e. i \<in> X \<union> E \<Longrightarrow> cn_role c = Server \<Longrightarrow> cn_streams c i = Some r \<Longrightarrow> rs_qpack_blocked_header r \<noteq> Some (e, False)"
    "\<And>i. i \<in> Y \<Longrightarrow> cn_role c = Server \<Longrightarrow> \<exists>r. cn_streams c i = Some r \<and> \<not> awaiting r \<and> sending r"
  shows "conn_inv_ex E c' \<and> inner c c'"
proof -
  note same = wt_core_same [OF wt_step_core [OF assms(2)]]
  have "server_inv E c'"
    unfolding server_inv_def same
  proof (intro impI conjI allI)
    assume s: "cn_role c = Server"
    note server = assms(1) [unfolded conn_inv_ex_def server_inv_def, THEN conjunct2, THEN conjunct2, THEN conjunct1,
        rule_format, OF s]
    show "\<not> sb_fin (rs_send_buf r)" if "cn_streams c i = Some r" "awaiting r" for i r
      using server that by blast
    show "i \<notin> cn_closed_wt_sessions c'"
      if r: "cn_streams c i = Some r" "rs_qpack_blocked_header r = Some (e, False)" for i r e
    proof -
      have "i \<notin> X \<union> E" using assms(3) s r by blast
      moreover have "awaiting r" using r(2) by (auto simp: awaiting_def)
      ultimately have "untouched c i" "i \<notin> X" using server r by (auto simp: untouched_def)
      then show ?thesis using assms(2) by (auto simp: wt_step_def untouched_def)
    qed
    show "\<exists>r. cn_streams c i = Some r \<and> \<not> awaiting r \<and> sending r" if "i \<notin> E" "active c' i" for i
      using that server assms(2,4) s by (cases "i \<in> Y") (auto simp: wt_step_def)
  qed
  then show ?thesis
    using assms(1) same wt_step_inv [OF assms(2)] wt_step_inner [OF assms(2)]
    by (simp add: conn_inv_ex_def streams_inv_def dispatch_inv_def critical_inv_def)
qed

text \<open>A stream is replaced.\<close>

lemma wt_inv_streams [simp]: "wt_inv (c\<lparr>cn_streams := m\<rparr>) = wt_inv c"
  by (simp add: wt_inv_def wt_sessions_inv_def wt_waiting_inv_def wt_quiet_def)

lemma active_streams [simp]: "active (c\<lparr>cn_streams := m\<rparr>) i = active c i"
  by (simp add: active_def)

lemma progress_same: "cn_wt_sessions c' = cn_wt_sessions c \<Longrightarrow> cn_closed_wt_sessions c' = cn_closed_wt_sessions c \<Longrightarrow> progress c c'"
  by (auto simp: progress_def split: option.split)

lemma inner_streams [simp]: "(\<And>i. cn_streams c i = None \<Longrightarrow> m i = None) \<Longrightarrow> inner c (c\<lparr>cn_streams := m\<rparr>)"
  by (simp add: inner_def frame_part_def wt_core_def progress_same no_new_stream_def)

lemma inner_stream [simp]:
  "cn_streams c i = Some r \<Longrightarrow> inner c (c\<lparr>cn_streams := (cn_streams c)(i \<mapsto> r')\<rparr>)"
  "inner c (c\<lparr>cn_streams := (cn_streams c)(i := None)\<rparr>)"
  by (auto intro!: inner_streams split: if_splits)

lemma step_stream:
  assumes "conn_inv_ex E c" "i < 2 ^ 62" "kind_is_bidirectional (kind_from_stream_id i)" "stream_inv r"
    "cn_pending_bidi_dispatch c i = None"
    "\<And>e. cn_role c = Server \<Longrightarrow> rs_qpack_blocked_header r = Some (e, False) \<Longrightarrow> i \<notin> cn_closed_wt_sessions c"
    "cn_role c = Server \<Longrightarrow> i \<notin> E \<Longrightarrow> active c i \<Longrightarrow> \<not> awaiting r \<and> sending r"
    "cn_role c = Server \<Longrightarrow> awaiting r \<Longrightarrow> \<not> sb_fin (rs_send_buf r)"
  shows "conn_inv_ex E (c\<lparr>cn_streams := (cn_streams c)(i \<mapsto> r)\<rparr>)"
  using assms
  by (auto simp: conn_inv_ex_def streams_inv_def server_inv_def dispatch_inv_def critical_inv_def)

text \<open>A stream that is there is replaced by one that is no less ready.\<close>

definition no_worse :: "request_stream \<Rightarrow> request_stream \<Rightarrow> bool" where
  "no_worse r r' \<longleftrightarrow> stream_inv r' \<and> (sending r \<longrightarrow> sending r') \<and> (\<not> awaiting r \<longrightarrow> \<not> awaiting r') \<and>
    (sb_fin (rs_send_buf r') \<longrightarrow> sb_fin (rs_send_buf r)) \<and>
    (\<forall>e. rs_qpack_blocked_header r' = Some (e, False) \<longrightarrow> rs_qpack_blocked_header r = Some (e, False))"

lemma step_stream_no_worse:
  assumes "conn_inv_ex E c" "cn_streams c i = Some r" "no_worse r r'"
  shows "conn_inv_ex E (c\<lparr>cn_streams := (cn_streams c)(i \<mapsto> r')\<rparr>)"
proof (rule step_stream [OF assms(1)])
  note i = conn_inv_stream [OF assms(1,2)]
  show "i < 2 ^ 62" "kind_is_bidirectional (kind_from_stream_id i)" using i by simp_all
  show "stream_inv r'" using assms(3) by (simp add: no_worse_def)
  show "cn_pending_bidi_dispatch c i = None"
    using assms(1,2) by (auto simp: conn_inv_ex_def dispatch_inv_def)
qed (use assms in \<open>auto simp: no_worse_def conn_inv_ex_def server_inv_def\<close>)

lemma step_update_stream:
  assumes "conn_inv_ex E c" "\<And>r. cn_streams c i = Some r \<Longrightarrow> stream_inv r \<Longrightarrow> no_worse r (f r)"
  shows "conn_inv_ex E (update_stream c i f) \<and> inner c (update_stream c i f)"
  using assms step_stream_no_worse [OF assms(1)] conn_inv_stream [OF assms(1)]
  by (auto simp: update_stream_def split: option.split)

text \<open>Flags and contents that the invariant does not speak about.\<close>

lemma no_worse_flags [simp]:
  "stream_inv r \<Longrightarrow> no_worse r r"
  "stream_inv r \<Longrightarrow> no_worse r (rs_set_recv_headers r hs)"
  "stream_inv r \<Longrightarrow> no_worse r (rs_set_connect r)"
  "stream_inv r \<Longrightarrow> no_worse r (rs_set_wt_connect r)"
  "stream_inv r \<Longrightarrow> no_worse r (rs_set_wt_connect (rs_set_connect r))"
  "stream_inv r \<Longrightarrow> no_worse r (rs_set_max_received_body_size r n)"
  "stream_inv r \<Longrightarrow> no_worse r (fst (rs_take_qpack_blocked_header r))"
  "stream_inv r \<Longrightarrow> no_worse r (rs_set_qpack_blocked r False n None)"
  by (auto simp: no_worse_def stream_inv_def sending_def awaiting_def rs_inv_def rs_pending_def
      rs_set_recv_headers_def rs_set_connect_def rs_set_wt_connect_def rs_set_max_received_body_size_def
      rs_take_qpack_blocked_header_def rs_set_qpack_blocked_def)

text \<open>Removal of a stream that is done.\<close>

lemma step_remove_stream:
  assumes "conn_inv_ex E c" "cn_role c = Server \<Longrightarrow> i \<notin> E \<Longrightarrow> \<not> active c i"
  shows "conn_inv_ex E (c\<lparr>cn_streams := (cn_streams c)(i := None)\<rparr>)"
  using assms
  by (auto simp: conn_inv_ex_def streams_inv_def server_inv_def dispatch_inv_def critical_inv_def)

lemma closed_not_active: "wt_inv c \<Longrightarrow> i \<in> cn_closed_wt_sessions c \<Longrightarrow> \<not> active c i"
  by (auto simp: active_def dest: wt_inv_session)

lemma step_remove_if_done:
  assumes "conn_inv c"
  shows "conn_inv (remove_stream_if_done c i) \<and> inner c (remove_stream_if_done c i)"
proof -
  have "\<not> active c i" if "cn_role c = Server"
    "is_some_and (cn_streams c i) (\<lambda>s. rs_state s = SsReset \<or> (rs_state s = SsClosed \<and> is_send_complete s)) \<or>
      i \<in> cn_closed_wt_sessions c"
    using that(2)
  proof
    assume "i \<in> cn_closed_wt_sessions c"
    with closed_not_active [OF conn_inv_wt [OF assms]] show ?thesis by blast
  next
    assume d: "is_some_and (cn_streams c i) (\<lambda>s. rs_state s = SsReset \<or> (rs_state s = SsClosed \<and> is_send_complete s))"
    show ?thesis
    proof
      assume "active c i"
      with that(1) assms obtain r where "cn_streams c i = Some r" "sending r"
        by (auto simp: conn_inv_ex_def server_inv_def)
      with d show False by (auto simp: is_some_and_def sending_def is_send_complete_def can_send_def)
    qed
  qed
  then show ?thesis
    using assms step_remove_stream [OF assms] by (auto simp: remove_stream_if_done_def Let_def)
qed

text \<open>Fields that the invariant does not speak about.\<close>

lemma conn_inv_fields [simp]:
  "conn_inv_ex E (c\<lparr>cn_events := x0\<rparr>) = conn_inv_ex E c"
  "conn_inv_ex E (c\<lparr>cn_qpack_decoder := x1\<rparr>) = conn_inv_ex E c"
  "conn_inv_ex E (c\<lparr>cn_decoder_stream := x2\<rparr>) = conn_inv_ex E c"
  "conn_inv_ex E (c\<lparr>cn_blocked_by_ricnt := x3\<rparr>) = conn_inv_ex E c"
  "conn_inv_ex E (c\<lparr>cn_deferred_section_acks := x4\<rparr>) = conn_inv_ex E c"
  "conn_inv_ex E (c\<lparr>cn_deferred_stream_cancellations := x5\<rparr>) = conn_inv_ex E c"
  "conn_inv_ex E (c\<lparr>cn_qpack_encoder := x6\<rparr>) = conn_inv_ex E c"
  "conn_inv_ex E (c\<lparr>cn_encoder_stream := x7\<rparr>) = conn_inv_ex E c"
  "conn_inv_ex E (c\<lparr>cn_encoder_stream_recv := x8\<rparr>) = conn_inv_ex E c"
  "conn_inv_ex E (c\<lparr>cn_decoder_stream_recv := x9\<rparr>) = conn_inv_ex E c"
  "conn_inv_ex E (c\<lparr>cn_peer_encoder_stream_id := x10\<rparr>) = conn_inv_ex E c"
  "conn_inv_ex E (c\<lparr>cn_peer_decoder_stream_id := x11\<rparr>) = conn_inv_ex E c"
  "conn_inv_ex E (c\<lparr>cn_error := x12\<rparr>) = conn_inv_ex E c"
  "conn_inv_ex E (c\<lparr>cn_limits := x13\<rparr>) = conn_inv_ex E c"
  "conn_inv_ex E (c\<lparr>cn_peer_goaway_last_id := x14\<rparr>) = conn_inv_ex E c"
  "conn_inv_ex E (c\<lparr>cn_last_sent_goaway_id := x15\<rparr>) = conn_inv_ex E c"
  "conn_inv_ex E (c\<lparr>cn_max_push_id := x16\<rparr>) = conn_inv_ex E c"
  "conn_inv_ex E (c\<lparr>cn_ignored_uni_streams := x17\<rparr>) = conn_inv_ex E c"
  "conn_inv_ex E (c\<lparr>cn_pending_uni_streams := x18\<rparr>) = conn_inv_ex E c"
  "conn_inv_ex E (c\<lparr>cn_wt_transport_verified := x19\<rparr>) = conn_inv_ex E c"
  "conn_inv_ex E (c\<lparr>cn_previous_wt_settings := x20\<rparr>) = conn_inv_ex E c"
  "conn_inv_ex E (c\<lparr>cn_wt_reset_stream_at_supported := x21\<rparr>) = conn_inv_ex E c"
  "conn_inv_ex E (c\<lparr>cn_deferred_encoder_set_capacity := x22\<rparr>) = conn_inv_ex E c"
  by (simp_all add: conn_inv_ex_def streams_inv_def server_inv_def dispatch_inv_def critical_inv_def wt_inv_def
      wt_sessions_inv_def wt_waiting_inv_def wt_quiet_def active_def)

lemma inner_fields [simp]:
  "inner c (c\<lparr>cn_events := y0\<rparr>)"
  "inner c (c\<lparr>cn_qpack_decoder := y1\<rparr>)"
  "inner c (c\<lparr>cn_decoder_stream := y2\<rparr>)"
  "inner c (c\<lparr>cn_blocked_by_ricnt := y3\<rparr>)"
  "inner c (c\<lparr>cn_deferred_section_acks := y4\<rparr>)"
  "inner c (c\<lparr>cn_deferred_stream_cancellations := y5\<rparr>)"
  "inner c (c\<lparr>cn_ignored_uni_streams := y6\<rparr>)"
  "inner c (c\<lparr>cn_pending_uni_streams := y7\<rparr>)"
  "inner c (c\<lparr>cn_pending_bidi_dispatch := y8\<rparr>)"
  by (simp_all add: inner_def frame_part_def wt_core_def progress_same)

lemma push_event_keeps [simp]:
  "conn_inv_ex E (push_event c e) = conn_inv_ex E c" "inner c (push_event c e)"
  "cn_streams (push_event c e) = cn_streams c" "cn_role (push_event c e) = cn_role c"
  "cn_closed_wt_sessions (push_event c e) = cn_closed_wt_sessions c"
  by (simp_all add: push_event_def)

lemma push_header_events_keeps [simp]:
  "conn_inv_ex E (push_header_events c i hs) = conn_inv_ex E c" "inner c (push_header_events c i hs)"
  "cn_streams (push_header_events c i hs) = cn_streams c" "cn_role (push_header_events c i hs) = cn_role c"
  "cn_closed_wt_sessions (push_header_events c i hs) = cn_closed_wt_sessions c"
  "cn_wt_sessions (push_header_events c i hs) = cn_wt_sessions c"
  by (simp_all add: push_header_events_def)

lemma acknowledge_keeps [simp]:
  "conn_inv_ex E (acknowledge_section c i) = conn_inv_ex E c" "inner c (acknowledge_section c i)"
  "cn_streams (acknowledge_section c i) = cn_streams c" "cn_role (acknowledge_section c i) = cn_role c"
  by (simp_all add: acknowledge_section_def)

lemma cancellation_keeps [simp]:
  "conn_inv_ex E (send_stream_cancellation_if_needed c i) = conn_inv_ex E c"
  "inner c (send_stream_cancellation_if_needed c i)"
  "cn_streams (send_stream_cancellation_if_needed c i) = cn_streams c"
  by (simp_all add: send_stream_cancellation_if_needed_def Let_def)

lemma update_stream_at [simp]:
  "cn_streams (update_stream c i f) = (cn_streams c)(i := map_option f (cn_streams c i))"
  "cn_role (update_stream c i f) = cn_role c" "cn_wt_sessions (update_stream c i f) = cn_wt_sessions c"
  "cn_closed_wt_sessions (update_stream c i f) = cn_closed_wt_sessions c"
  "cn_peer_settings (update_stream c i f) = cn_peer_settings c"
  "cn_pending_bidi_dispatch (update_stream c i f) = cn_pending_bidi_dispatch c"
  "active (update_stream c i f) j = active c j"
  by (auto simp: update_stream_def active_def split: option.split)

section \<open>Steps of one stream\<close>

text \<open>The stream is there, its headers are not blocked, and at most \<open>n\<close> is left to do for it.\<close>

definition ready :: "u64 \<Rightarrow> nat \<Rightarrow> connection \<Rightarrow> bool" where
  "ready i n c \<longleftrightarrow>
    (\<exists>r. cn_streams c i = Some r \<and> rs_qpack_blocked_header r = None \<and> work r \<le> n \<and>
      (cn_role c = Server \<longrightarrow> rs_recv_state r \<noteq> RrWaitingHeaders))"

definition stream_step :: "u64 \<Rightarrow> nat \<Rightarrow> connection \<Rightarrow> connection \<Rightarrow> bool" where
  "stream_step i n c c' \<longleftrightarrow> conn_inv c' \<and> inner c c' \<and> ready i n c'"

lemma stream_step_refl: "conn_inv c \<Longrightarrow> ready i n c \<Longrightarrow> stream_step i n c c"
  by (simp add: stream_step_def)

lemma stream_stepD: "stream_step i n c c' \<Longrightarrow> conn_inv c' \<and> ready i n c' \<and> inner c c'"
  by (simp add: stream_step_def)

lemma stream_step_then:
  "stream_step i n c c1 \<Longrightarrow> (conn_inv c1 \<Longrightarrow> ready i n c1 \<Longrightarrow> stream_step i n c1 c2) \<Longrightarrow> stream_step i n c c2"
  by (auto simp: stream_step_def intro: inner_trans conn_inv_wt)

lemma ready_not_awaiting: "ready i n c \<Longrightarrow> cn_role c = Server \<Longrightarrow> \<exists>r. cn_streams c i = Some r \<and> \<not> awaiting r"
  by (auto simp: ready_def awaiting_def)

lemma stream_wt_step:
  assumes "conn_inv c" "ready i n c" "wt_step X Y c c'" "X \<subseteq> {i}" "Y = {} \<or> cn_role c = Client"
  shows "stream_step i n c c'"
proof -
  note same = wt_core_same [OF wt_step_core [OF assms(3)]]
  have "conn_inv c' \<and> inner c c'"
    by (rule conn_wt_step [OF assms(1,3)]) (use assms in \<open>auto simp: ready_def\<close>)
  with assms(2) same show ?thesis by (simp add: stream_step_def ready_def)
qed

lemma stream_update_step:
  assumes "conn_inv c" "ready i n c"
    "\<And>r. stream_inv r \<Longrightarrow> rs_qpack_blocked_header r = None \<Longrightarrow> no_worse r (f r) \<and>
      rs_recv_buf (f r) = rs_recv_buf r \<and> rs_recv_state (f r) = rs_recv_state r \<and> rs_qpack_blocked_header (f r) = None"
  shows "stream_step i n c (update_stream c i f)"
proof -
  obtain r where r: "cn_streams c i = Some r" "rs_qpack_blocked_header r = None" "work r \<le> n"
    "cn_role c = Server \<longrightarrow> rs_recv_state r \<noteq> RrWaitingHeaders"
    using assms(2) by (auto simp: ready_def)
  have f: "no_worse r (f r) \<and> rs_recv_buf (f r) = rs_recv_buf r \<and> rs_recv_state (f r) = rs_recv_state r \<and>
      rs_qpack_blocked_header (f r) = None"
    using assms(3) conn_inv_stream [OF assms(1) r(1)] r(2) by blast
  have "conn_inv (update_stream c i f) \<and> inner c (update_stream c i f)"
    by (rule step_update_stream [OF assms(1)]) (use f r(1) in simp)
  with f r show ?thesis by (simp add: stream_step_def ready_def work_def rs_pending_def)
qed

lemma stream_field_step:
  "conn_inv c \<Longrightarrow> ready i n c \<Longrightarrow> conn_inv c' \<Longrightarrow> inner c c' \<Longrightarrow> cn_streams c' = cn_streams c \<Longrightarrow>
    stream_step i n c c'"
  using frame_part_same(1) [of c' c] by (simp add: stream_step_def ready_def inner_def)

abbreviation stream_steps :: "u64 \<Rightarrow> nat \<Rightarrow> connection \<Rightarrow> (connection \<times> 'r) option \<Rightarrow> bool" where
  "stream_steps i n c m \<equiv> returns (\<lambda>(c', _). stream_step i n c c') m"

lemma stream_steps_then:
  "stream_step i n c c1 \<Longrightarrow> (conn_inv c1 \<Longrightarrow> ready i n c1 \<Longrightarrow> stream_steps i n c1 m) \<Longrightarrow> stream_steps i n c m"
  by (auto simp: stream_step_def elim!: returns_mono intro: inner_trans conn_inv_wt)

lemma stream_steps_bindC:
  "stream_steps i n c m \<Longrightarrow> (\<And>c' x. conn_inv c' \<Longrightarrow> ready i n c' \<Longrightarrow> inner c c' \<Longrightarrow> stream_steps i n c' (f c' x)) \<Longrightarrow>
    stream_steps i n c (bindC m f)"
  unfolding returns_bindC
proof (erule returns_mono, clarsimp split: sum.splits)
  fix c1 x
  assume f: "\<And>c' x. conn_inv c' \<Longrightarrow> ready i n c' \<Longrightarrow> inner c c' \<Longrightarrow> stream_steps i n c' (f c' x)"
    and c1: "stream_step i n c c1"
  show "stream_steps i n c (f c1 x)"
    by (rule stream_steps_then [OF c1]) (use f stream_stepD [OF c1] in blast)
qed

lemma wt_steps_stream:
  "conn_inv c \<Longrightarrow> ready i n c \<Longrightarrow> steps {i} {} c m \<Longrightarrow> stream_steps i n c m"
  by (auto elim!: returns_mono intro: stream_wt_step)

lemma flag_fields [simp]:
  "rs_recv_buf (rs_set_connect r) = rs_recv_buf r" "rs_recv_state (rs_set_connect r) = rs_recv_state r"
  "rs_qpack_blocked_header (rs_set_connect r) = rs_qpack_blocked_header r"
  "rs_recv_buf (rs_set_recv_headers r hs) = rs_recv_buf r" "rs_recv_state (rs_set_recv_headers r hs) = rs_recv_state r"
  "rs_qpack_blocked_header (rs_set_recv_headers r hs) = rs_qpack_blocked_header r"
  by (simp_all add: rs_set_connect_def rs_set_recv_headers_def)

section \<open>Header sections\<close>

lemma step_defer:
  assumes "wt_inv c" "cn_peer_settings c = None" "i < 2 ^ 62"
    "card (dom (cn_deferred_wt_connects c)) < MAX_DEFERRED_WT_CONNECTS"
  shows "wt_step X Y c (c\<lparr>cn_deferred_wt_connects := (cn_deferred_wt_connects c)(i \<mapsto> hs)\<rparr>)"
proof -
  have fin: "finite (dom (cn_deferred_wt_connects c))" using assms(1) by (simp add: wt_inv_def wt_waiting_inv_def)
  have "card (insert i (dom (cn_deferred_wt_connects c))) \<le> Suc (card (dom (cn_deferred_wt_connects c)))"
    using fin by (simp add: card_insert_if)
  also have "\<dots> \<le> 16" using assms(4) by (simp add: MAX_DEFERRED_WT_CONNECTS_def)
  finally show ?thesis
    using assms step_waiting [of c "(cn_deferred_wt_connects c)(i \<mapsto> hs)" "cn_pending_pre_negotiation c" X Y
        "cn_ignored_pre_negotiation c"]
    by (simp add: wt_inv_def wt_waiting_inv_def)
qed

lemma set_offered_keeps [simp]:
  "ws_state (set_offered_protocols hs s) = ws_state s" "ws_inv s \<Longrightarrow> ws_inv (set_offered_protocols hs s)"
  by (auto simp: set_offered_protocols_def split: option.split)

text \<open>A CONNECT request registers its session, unless it is there already.\<close>

lemma register_connect:
  assumes "conn_inv c" "cn_role c = Server \<Longrightarrow> is_webtransport_connect hs \<Longrightarrow> cn_peer_settings c \<noteq> None"
    "cn_role c = Server \<Longrightarrow> i \<notin> cn_closed_wt_sessions c" "i < 2 ^ 62"
  shows "conn_inv (register_wt_connect_session c i hs) \<and> inner c (register_wt_connect_session c i hs) \<and>
    cn_closed_wt_sessions (register_wt_connect_session c i hs) = cn_closed_wt_sessions c \<and>
    (ready i n c \<longrightarrow> ready i n (register_wt_connect_session c i hs))"
proof (cases "cn_role c = Server \<and> is_webtransport_connect hs")
  case False
  with assms(1) show ?thesis by (auto simp: register_wt_connect_session_def)
next
  case True
  let ?s = "set_offered_protocols hs (case cn_wt_sessions c i of None \<Rightarrow> wt_session_new | Some s \<Rightarrow> s)"
  let ?c = "c\<lparr>cn_wt_sessions := (cn_wt_sessions c)(i \<mapsto> ?s)\<rparr>"
  have w: "wt_step {} {} c ?c"
  proof (cases "cn_wt_sessions c i")
    case None
    with True assms show ?thesis by (intro step_new_session conn_inv_wt) auto
  next
    case (Some s)
    with wt_inv_session [OF conn_inv_wt [OF assms(1)] Some] show ?thesis
      by (intro step_session [where s = s] conn_inv_wt [OF assms(1)]) auto
  qed
  have 1: "conn_inv ?c \<and> inner c ?c" by (rule conn_wt_step [OF assms(1) w]) simp_all
  let ?d = "update_stream ?c i (\<lambda>s. rs_set_wt_connect (rs_set_connect s))"
  have 2: "conn_inv ?d \<and> inner ?c ?d" by (rule step_update_stream) (use 1 in simp_all)
  have "register_wt_connect_session c i hs = ?d"
    using True by (simp add: register_wt_connect_session_def Let_def)
  moreover have "ready i n ?d" if "ready i n c"
    using that by (auto simp: ready_def rs_set_wt_connect_def rs_set_connect_def work_def rs_pending_def)
  ultimately show ?thesis using 1 2 by (auto intro: inner_trans conn_inv_wt)
qed

text \<open>On a client the response may establish the session of its request.\<close>

lemma connect_response:
  assumes "conn_inv c" "ready i n c"
  shows "stream_steps i n c (handle_wt_connect_response ord c i hs)"
proof (cases "cn_role c = Client")
  case False
  then show ?thesis using stream_step_refl [OF assms] by (simp add: handle_wt_connect_response_def)
next
  case client: True
  note wt = conn_inv_wt [OF assms(1)]
  have t: "returns (stream_step i n c) (terminate_wt_session_with ord c i e k m)" for e k m
    by (rule returns_mono [OF terminate_steps [OF wt, where X = "{i}" and Y = "{}"]])
      (auto intro: stream_wt_step [OF assms])
  obtain c1 b where e: "establish_pending c i = (c1, b)" by (cases "establish_pending c i") auto
  have 1: "stream_step i n c c1"
    by (rule stream_wt_step [OF assms establish_steps(1) [OF wt e]]) (simp_all add: client)
  have "stream_steps i n c (announce_session ord (update_stream c1 i rs_set_connect) i)" if b: b
  proof -
    let ?c2 = "update_stream c1 i rs_set_connect"
    obtain s where s: "cn_wt_sessions ?c2 i = Some s" "ws_state s \<noteq> WsPending"
      using establish_steps(2) [OF wt e b] by auto
    have 2: "stream_step i n c ?c2"
      by (rule stream_step_then [OF 1 stream_update_step]) simp_all
    have "wt_inv ?c2" using stream_stepD [OF 2] conn_inv_wt by blast
    then show ?thesis
      by (intro stream_steps_then [OF 2 wt_steps_stream] announce_steps [where s = s] s)
  qed
  then show ?thesis
    using stream_step_refl [OF assms] t e 1 establish_steps(3) [OF wt e]
    by (cases b) (auto simp: handle_wt_connect_response_def returns_map_option case_prod_unfold split: option.splits)
qed

text \<open>On a client an interim response lets the stream wait for another header section.\<close>

lemma informational_step:
  assumes "conn_inv c" "ready i n c" "cn_role c = Client"
  shows "stream_step i n c (update_stream c i notify_informational)"
proof -
  obtain r where r: "cn_streams c i = Some r" "rs_qpack_blocked_header r = None" "work r \<le> n"
    using assms(2) by (auto simp: ready_def)
  note i = conn_inv_stream [OF assms(1) r(1)]
  let ?r = "notify_informational r"
  have f: "rs_recv_buf ?r = rs_recv_buf r" "rs_qpack_blocked_header ?r = None" "rs_send_buf ?r = rs_send_buf r"
    "rs_state ?r = rs_state r" "rs_recv_state ?r = RrComplete \<longleftrightarrow> rs_recv_state r = RrComplete"
    "rs_qpack_blocked ?r = rs_qpack_blocked r"
    using r(2) by (auto simp: notify_informational_def)
  have "stream_inv ?r" using i f r(2) by (simp add: stream_inv_def rs_inv_def rs_pending_def)
  moreover have "cn_pending_bidi_dispatch c i = None"
    using assms(1) r(1) by (auto simp: conn_inv_ex_def dispatch_inv_def)
  ultimately have "conn_inv (c\<lparr>cn_streams := (cn_streams c)(i \<mapsto> ?r)\<rparr>)"
    using i f assms(3) by (intro step_stream [OF assms(1)]) simp_all
  with r f assms(3) show ?thesis
    by (simp add: stream_step_def ready_def update_stream_def work_def rs_pending_def)
qed

lemma no_error_steps: "stream_step i n c c' \<Longrightarrow> stream_steps i n c (Some (c', x))"
  by simp

lemma message_headers:
  assumes "conn_inv c" "ready i n c" "i < 2 ^ 62" "cn_role c = Server \<Longrightarrow> i \<notin> cn_closed_wt_sessions c"
  shows "stream_steps i n c (receive_message_headers ord c i hs)"
proof -
  note refl = stream_step_refl [OF assms(1,2)]
  have deferred: "stream_step i n c (update_stream (acknowledge_section
      (c\<lparr>cn_deferred_wt_connects := (cn_deferred_wt_connects c)(i \<mapsto> hs)\<rparr>) i) i (\<lambda>s. rs_set_recv_headers s hs))"
    if "cn_peer_settings c = None" "card (dom (cn_deferred_wt_connects c)) < MAX_DEFERRED_WT_CONNECTS"
  proof -
    let ?c1 = "c\<lparr>cn_deferred_wt_connects := (cn_deferred_wt_connects c)(i \<mapsto> hs)\<rparr>"
    have 1: "stream_step i n c ?c1"
      by (rule stream_wt_step [OF assms(1,2) step_defer [OF conn_inv_wt [OF assms(1)] that(1) assms(3) that(2),
            where X = "{}" and Y = "{}"]]) simp_all
    have 2: "stream_step i n c (acknowledge_section ?c1 i)"
      by (rule stream_step_then [OF 1 stream_field_step]) (use stream_stepD [OF 1] in simp_all)
    show ?thesis by (rule stream_step_then [OF 2 stream_update_step]) simp_all
  qed
  have message: "stream_steps i n c
      (let c = register_wt_connect_session c i hs;
          c = (if cn_role c = Server \<and> is_plain_connect hs then update_stream c i rs_set_connect else c);
          c = (if cn_role c = Client \<and> is_informational_status hs then update_stream c i notify_informational else c);
          c = (if cn_role c = Client \<and> is_success_status hs \<and> is_some_and (cn_streams c i) rs_is_connect_request then
                 update_stream c i rs_set_connect else c) in
      bindC (handle_wt_connect_response ord c i hs) (\<lambda>c _. Some (c, Inr False)))"
    if "cn_role c = Server \<Longrightarrow> is_webtransport_connect hs \<Longrightarrow> cn_peer_settings c \<noteq> None"
  proof -
    let ?c1 = "register_wt_connect_session c i hs"
    let ?c2 = "if cn_role ?c1 = Server \<and> is_plain_connect hs then update_stream ?c1 i rs_set_connect else ?c1"
    let ?c3 = "if cn_role ?c2 = Client \<and> is_informational_status hs then update_stream ?c2 i notify_informational else ?c2"
    let ?c4 = "if cn_role ?c3 = Client \<and> is_success_status hs \<and> is_some_and (cn_streams ?c3 i) rs_is_connect_request then
        update_stream ?c3 i rs_set_connect else ?c3"
    have 1: "stream_step i n c ?c1"
      using register_connect [OF assms(1) that assms(4,3)] assms(2) by (simp add: stream_step_def)
    have 2: "stream_step i n c ?c2"
      by (rule stream_step_then [OF 1]) (auto intro: stream_step_refl stream_update_step)
    have 3: "stream_step i n c ?c3"
      by (rule stream_step_then [OF 2]) (auto intro: stream_step_refl informational_step)
    have 4: "stream_step i n c ?c4"
      by (rule stream_step_then [OF 3]) (auto intro: stream_step_refl stream_update_step)
    have "stream_steps i n c (bindC (handle_wt_connect_response ord ?c4 i hs) (\<lambda>c _. Some (c, Inr False)))"
      by (rule stream_steps_then [OF 4 stream_steps_bindC [OF connect_response]]) (auto intro: stream_step_refl)
    then show ?thesis by (simp only: Let_def)
  qed
  show ?thesis
    unfolding receive_message_headers_def returns_tryC
    using refl deferred message by (auto simp: Let_def split: sum.split)
qed

lemma acknowledged_events:
  "conn_inv c \<Longrightarrow> inner c (push_header_events (acknowledge_section c i) i hs)"
  by (rule inner_trans [OF acknowledge_keeps(2) push_header_events_keeps(2)]) (rule conn_inv_wt, simp)

lemma emit_headers:
  assumes "conn_inv c" "ready i n c" "i < 2 ^ 62" "cn_role c = Server \<Longrightarrow> \<not> is_trailer \<Longrightarrow> i \<notin> cn_closed_wt_sessions c"
  shows "stream_steps i n c (emit_header_events ord c i hs is_trailer)"
  unfolding emit_header_events_def
proof (rule stream_steps_bindC)
  show "stream_steps i n c
      (if is_trailer then tryC c (validate_trailer_headers hs) (\<lambda>_. Some (c, Inr False))
       else receive_message_headers ord c i hs)"
    using message_headers [OF assms(1-3)] assms(4) stream_step_refl [OF assms(1,2)]
    by (simp add: returns_tryC split: sum.split)
  fix c1 and deferred :: bool
  assume c1: "conn_inv c1" "ready i n c1"
  let ?c2 = "if is_trailer then c1 else update_stream c1 i (\<lambda>s. rs_set_recv_headers s hs)"
  have 2: "stream_step i n c1 ?c2"
    using stream_step_refl [OF c1] stream_update_step [OF c1, of "\<lambda>s. rs_set_recv_headers s hs"] by simp
  have "stream_step i n c1 (push_header_events (acknowledge_section ?c2 i) i hs)"
    by (rule stream_step_then [OF 2 stream_field_step])
      (simp_all add: acknowledged_events)
  with stream_step_refl [OF c1] show "stream_steps i n c1 (if deferred then Some (c1, Inr ())
        else
          let c = if is_trailer then c1 else update_stream c1 i (\<lambda>s. rs_set_recv_headers s hs);
              c = acknowledge_section c i in
          Some (push_header_events c i hs, Inr ()))"
    by (simp add: Let_def)
qed

section \<open>Frames\<close>

text \<open>
  Operations that keep the invariant and move the connection along a preorder compose.  The preorders
  are \<open>inner\<close> for what happens inside a request stream, and two for whole operations
  (\<open>Connection_Critical\<close>).
\<close>

locale moves =
  fixes R :: "connection \<Rightarrow> connection \<Rightarrow> bool"
  assumes R_refl: "R c c"
    and R_trans: "R c c1 \<Longrightarrow> R c1 c2 \<Longrightarrow> conn_inv c2 \<Longrightarrow> R c c2"
begin

lemma moves_then:
  "R c c1 \<Longrightarrow> returns (\<lambda>(c', _). conn_inv c' \<and> R c1 c') m \<Longrightarrow> returns (\<lambda>(c', _). conn_inv c' \<and> R c c') m"
  by (auto elim!: returns_mono intro: R_trans)

lemma moves_bindC:
  assumes "returns (\<lambda>(c', _). conn_inv c' \<and> R c c') m"
    "\<And>c' x. m = Some (c', Inr x) \<Longrightarrow> conn_inv c' \<Longrightarrow> R c c' \<Longrightarrow> returns (\<lambda>(c2, _). conn_inv c2 \<and> R c' c2) (f c' x)"
  shows "returns (\<lambda>(c', _). conn_inv c' \<and> R c c') (bindC m f)"
proof -
  obtain c1 r where m: "m = Some (c1, r)" "conn_inv c1" "R c c1" using assms(1) by (auto simp: returns_def)
  show ?thesis
  proof (cases r)
    case (Inr x)
    from moves_then [OF m(3) assms(2)] m Inr show ?thesis by (simp add: bindC_def)
  qed (use m in \<open>simp add: bindC_def\<close>)
qed

end

interpretation mi: moves inner
  by unfold_locales (auto intro: inner_trans conn_inv_wt)

abbreviation keeps :: "connection \<Rightarrow> (connection \<times> 'r) option \<Rightarrow> bool" where
  "keeps c m \<equiv> returns (\<lambda>(c', _). conn_inv c' \<and> inner c c') m"

lemma stream_steps_keeps: "stream_steps i n c m \<Longrightarrow> keeps c m"
  by (auto elim!: returns_mono simp: stream_step_def)

lemmas keeps_then = mi.moves_then

lemma keeps_bindC:
  "keeps c m \<Longrightarrow> (\<And>c' x. conn_inv c' \<Longrightarrow> inner c c' \<Longrightarrow> keeps c' (f c' x)) \<Longrightarrow> keeps c (bindC m f)"
  by (rule mi.moves_bindC)

text \<open>A section that refers to entries which are not there yet.\<close>

lemma block_keeps:
  assumes "conn_inv c" "cn_streams c i = Some r" "rs_recv_state r = (if t then RrTrailersReceived else RrReceivingBody)"
    "cn_role c = Server \<Longrightarrow> \<not> t \<Longrightarrow> untouched c i \<and> \<not> sb_fin (rs_send_buf r)"
  shows "conn_inv (block_stream c i e t) \<and> inner c (block_stream c i e t)"
proof -
  let ?r = "rs_set_qpack_blocked r True (dd_last_ric (cn_qpack_decoder c)) (Some (e, t))"
  note i = conn_inv_stream [OF assms(1,2)]
  have inv: "stream_inv ?r" using i assms(3)
    by (auto simp: stream_inv_def rs_set_qpack_blocked_def rs_inv_def rs_pending_def)
  have live: "\<not> awaiting ?r \<and> sending ?r" if "cn_role c = Server" "active c i"
  proof -
    have "t" using assms(4) that by (auto simp: untouched_def)
    moreover have "sending r" using assms(1,2) that by (auto simp: conn_inv_ex_def server_inv_def)
    ultimately show ?thesis using assms(3)
      by (simp add: awaiting_def sending_def rs_set_qpack_blocked_def)
  qed
  have "conn_inv (c\<lparr>cn_streams := (cn_streams c)(i \<mapsto> ?r)\<rparr>)"
  proof (rule step_stream [OF assms(1) _ _ inv])
    show "i < 2 ^ 62" "kind_is_bidirectional (kind_from_stream_id i)" using i by simp_all
    show "cn_pending_bidi_dispatch c i = None"
      using assms(1,2) by (auto simp: conn_inv_ex_def dispatch_inv_def)
    show "i \<notin> cn_closed_wt_sessions c"
      if "cn_role c = Server" "rs_qpack_blocked_header ?r = Some (e', False)" for e'
      using that assms(4) by (simp add: rs_set_qpack_blocked_def untouched_def)
    show "\<not> sb_fin (rs_send_buf ?r)" if "cn_role c = Server" "awaiting ?r"
      using that assms(3,4) by (auto simp: rs_set_qpack_blocked_def awaiting_def split: if_splits)
  qed (use live in simp)
  then show ?thesis
    using assms(2) inner_trans [OF inner_stream(1) [OF assms(2)] inner_fields(4)]
    by (simp add: block_stream_def Let_def update_stream_def conn_inv_wt)
qed

definition continues_ready :: "u64 \<Rightarrow> nat \<Rightarrow> connection \<times> (h3_error + bool) \<Rightarrow> bool" where
  "continues_ready i n = (\<lambda>(c', res). res = Inr True \<longrightarrow> ready i n c')"

abbreviation handled :: "u64 \<Rightarrow> nat \<Rightarrow> connection \<Rightarrow> bool outcome \<Rightarrow> bool" where
  "handled i n c m \<equiv> returns (\<lambda>x. conn_inv (fst x) \<and> inner c (fst x) \<and> continues_ready i n x) m"

lemma stream_steps_handled: "stream_steps i n c m \<Longrightarrow> handled i n c m"
  by (auto elim!: returns_mono simp: stream_step_def continues_ready_def)

lemma section_handled:
  assumes "conn_inv c" "ready i n c" "cn_streams c i = Some r"
    "rs_recv_state r = (if t then RrTrailersReceived else RrReceivingBody)"
    "cn_role c = Server \<Longrightarrow> \<not> t \<Longrightarrow> untouched c i \<and> \<not> sb_fin (rs_send_buf r)"
  shows "handled i n c (receive_section ord c i e t)"
proof -
  obtain d res where d: "dd_decode (cn_qpack_decoder c) e = (d, res)" by (cases "dd_decode (cn_qpack_decoder c) e") auto
  let ?c = "c\<lparr>cn_qpack_decoder := d\<rparr>"
  have c: "conn_inv ?c" "ready i n ?c" "cn_streams ?c i = Some r" "inner c ?c"
    using assms(1-3) by (simp_all add: ready_def)
  have i: "i < 2 ^ 62" using conn_inv_stream [OF assms(1,3)] by simp
  have step: "stream_step i n c ?c" using c by (simp add: stream_step_def)
  have dec: "stream_steps i n c (bindC (emit_header_events ord ?c i hs t) (\<lambda>c _. Some (c, Inr True)))" for hs
    by (rule stream_steps_then [OF step stream_steps_bindC [OF emit_headers]])
      (use i assms(5) in \<open>auto intro: stream_step_refl simp: untouched_def\<close>)
  have block: "conn_inv (block_stream ?c i e t) \<and> inner c (block_stream ?c i e t)"
  proof -
    have "conn_inv (block_stream ?c i e t) \<and> inner ?c (block_stream ?c i e t)"
      by (rule block_keeps [OF c(1,3) assms(4)]) (use assms(5) in \<open>simp add: untouched_def active_def\<close>)
    with inner_trans [OF c(4)] conn_inv_wt show ?thesis by blast
  qed
  show ?thesis
    using d c block stream_steps_handled [OF dec]
    by (auto simp: receive_section_def Let_def continues_ready_def split: sum.split decode_output.split)
qed

lemma handled_bindC:
  assumes "stream_steps i n c m" "\<And>c' x. conn_inv c' \<Longrightarrow> ready i n c' \<Longrightarrow> inner c c' \<Longrightarrow> stream_steps i n c' (f c' x)"
  shows "handled i n c (bindC m f)"
  by (rule stream_steps_handled [OF stream_steps_bindC]) (use assms in auto)

lemma received_handled:
  assumes "conn_inv c" "ready i n c" "cn_streams c i = Some r" "raw_result s raw (rs_recv_state r)"
    "cn_role c = Server \<Longrightarrow> s = RrWaitingHeaders \<Longrightarrow> untouched c i \<and> \<not> sb_fin (rs_send_buf r)"
  shows "handled i n c (handle_received ord c i raw)"
proof (cases raw)
  case (RawHeaders e)
  with assms show ?thesis by (auto intro: section_handled)
next
  case (RawTrailers e)
  with assms show ?thesis by (auto intro: section_handled)
next
  case (RawData data)
  have "steps {i} {} c (handle_wt_data_frame ord c i data)"
    by (rule data_frame_steps) (use assms(1,3) in \<open>auto intro: conn_inv_wt\<close>)
  from handled_bindC [OF wt_steps_stream [OF assms(1,2) this]] show ?thesis
    unfolding RawData handle_received.simps
    by (auto intro!: handled_bindC [OF wt_steps_stream [OF assms(1,2)]] stream_field_step stream_step_refl
        data_frame_steps conn_inv_wt [OF assms(1)] simp: assms(3))
next
  case RawStreamEnd
  have "stream_steps i n c (bindC (handle_wt_stream_end ord c i) (\<lambda>c _.
       Some (if i \<in> cn_closed_wt_sessions c then c else push_event c (StreamEnd i), Inr True)))"
    by (rule stream_steps_bindC [OF wt_steps_stream [OF assms(1,2) stream_end_steps [OF conn_inv_wt [OF assms(1)]]]])
      (auto intro: stream_field_step stream_step_refl)
  from stream_steps_handled [OF this] RawStreamEnd assms(1) show ?thesis
    by (auto simp: receive_stream_end_def returns_tryC continues_ready_def split: sum.split)
qed

end
