(* ===== verification/Connection_Recv.thy ===== *)
theory Connection_Recv
  imports Connection_Inv
begin

text \<open>
  What arrives on a stream: every operation of the receiving side returns, keeps the invariant of the
  connection and moves it forward.
\<close>

section \<open>The loop over the frames of a request stream\<close>

lemma raw_not_waiting: "raw_result s raw s' \<Longrightarrow> s' \<noteq> RrWaitingHeaders"
  by (cases raw) auto

lemma sending_same: "same_sending r r' \<Longrightarrow> sending r' = sending r"
  by (simp add: same_sending_def sending_def)

lemma stream_inv_ended: "stream_inv r \<Longrightarrow> rs_inv r \<and> ended_ok r"
  by (auto simp: stream_inv_def ended_ok_def)

text \<open>The stream after one step of the receiver is stored.\<close>

lemma step_processed:
  assumes "conn_inv c" "cn_streams c i = Some r" "rs_qpack_blocked_header r = None"
    "process_raw r = (r', res)"
  shows "conn_inv (c\<lparr>cn_streams := (cn_streams c)(i \<mapsto> r')\<rparr>)"
proof (rule step_stream [OF assms(1)])
  note i = conn_inv_stream [OF assms(1,2)]
  have p: "same_sending r r'" "recv_result r r' res"
    using process_raw_result [OF assms(4)] stream_inv_ended i by blast+
  show "i < 2 ^ 62" "kind_is_bidirectional (kind_from_stream_id i)" using i by simp_all
  show "stream_inv r'" using process_raw_inv [OF assms(4)] i assms(3) by simp
  show "cn_pending_bidi_dispatch c i = None"
    using assms(1,2) by (auto simp: conn_inv_ex_def dispatch_inv_def)
  show "\<not> awaiting r' \<and> sending r'" if "cn_role c = Server" "active c i"
  proof -
    have a: "\<not> awaiting r" "sending r" using assms(1,2) that by (auto simp: conn_inv_ex_def server_inv_def)
    have "rs_recv_state r' \<noteq> RrWaitingHeaders" using a(1) p(2)
      by (auto simp: recv_result_def awaiting_def dest: raw_not_waiting split: sum.splits option.splits)
    with a p(1) assms(3) show ?thesis by (simp add: sending_same awaiting_def) (simp add: same_sending_def)
  qed
  show "\<not> sb_fin (rs_send_buf r')" if "cn_role c = Server" "awaiting r'"
  proof -
    have "awaiting r" using that(2) p assms(3)
      by (auto simp: recv_result_def same_sending_def awaiting_def dest: raw_not_waiting split: sum.splits option.splits)
    then show ?thesis using assms(1,2) that(1) p(1) by (auto simp: conn_inv_ex_def server_inv_def same_sending_def)
  qed
qed (use process_raw_result [OF assms(4)] stream_inv_ended conn_inv_stream [OF assms(1,2)] assms(3)
      in \<open>auto simp: same_sending_def\<close>)

theorem frames_keeps:
  assumes "conn_inv c" "cn_streams c i = Some r" "rs_qpack_blocked_header r = None"
    "cn_role c = Server \<Longrightarrow> rs_recv_state r = RrWaitingHeaders \<Longrightarrow> i \<notin> cn_closed_wt_sessions c"
  shows "keeps c (process_stream_frames ord c i)"
  using assms
proof (induction "work r" arbitrary: c r rule: less_induct)
  case less
  obtain r1 res where p: "process_raw r = (r1, res)" by (cases "process_raw r") auto
  let ?c = "c\<lparr>cn_streams := (cn_streams c)(i \<mapsto> r1)\<rparr>"
  note c1 = step_processed [OF less.prems(1-3) p]
  have pr: "same_sending r r1" "recv_result r r1 res"
    using process_raw_result [OF p] stream_inv_ended conn_inv_stream [OF less.prems(1,2)] by blast+
  note unfold = process_stream_frames.simps [of ord c i]
  show ?case
  proof (cases "\<exists>raw. res = Inr (Some raw)")
    case False
    then show ?thesis
      using less.prems(2) p c1 step_remove_if_done [OF c1, of i] inner_trans [OF inner_stream(1) [OF less.prems(2)]]
        inner_stream(1) [OF less.prems(2)]
      by (subst unfold) (auto simp: conn_inv_wt split: sum.split option.split)
  next
    case True
    then obtain raw where raw: "res = Inr (Some raw)" by blast
    with pr have w: "raw_result (rs_recv_state r) raw (rs_recv_state r1)" "work r1 < work r"
      by (simp_all add: recv_result_def)
    have none: "rs_qpack_blocked_header r1 = None" using pr(1) less.prems(3) by (simp add: same_sending_def)
    have rd: "ready i (work r1) ?c" using none raw_not_waiting [OF w(1)] by (simp add: ready_def)
    have "untouched ?c i \<and> \<not> sb_fin (rs_send_buf r1)"
      if "cn_role ?c = Server" "rs_recv_state r = RrWaitingHeaders"
    proof -
      have "awaiting r" using that(2) by (simp add: awaiting_def)
      then have "\<not> active c i" "\<not> sb_fin (rs_send_buf r)"
        using less.prems(1,2) that(1) by (auto simp: conn_inv_ex_def server_inv_def)
      with less.prems(4) that pr(1) show ?thesis by (simp add: untouched_def same_sending_def)
    qed
    then have h: "handled i (work r1) ?c (handle_received ord ?c i raw)"
      by (intro received_handled [OF c1 rd _ w(1)]) simp_all
    then obtain c2 x where m: "handle_received ord ?c i raw = Some (c2, x)" and c2: "conn_inv c2"
      "inner ?c c2" "continues_ready i (work r1) (c2, x)"
      by (auto simp: returns_def)
    have in2: "inner c c2" using inner_trans [OF inner_stream(1) [OF less.prems(2)] c2(2)] c2(1) by (simp add: conn_inv_wt)
    have "keeps c2 (process_stream_frames ord c2 i)" if "x = Inr True"
    proof -
      have "ready i (work r1) c2" using c2(3) that by (simp add: continues_ready_def)
      then obtain r2 where r2: "cn_streams c2 i = Some r2" "rs_qpack_blocked_header r2 = None"
        "work r2 \<le> work r1" "cn_role c2 = Server \<longrightarrow> rs_recv_state r2 \<noteq> RrWaitingHeaders"
        by (auto simp: ready_def)
      show ?thesis
        by (rule less.hyps [OF _ c2(1) r2(1,2)]) (use r2 w(2) in auto)
    qed
    then have "keeps c (process_stream_frames ord c2 i)" if "x = Inr True"
      using that keeps_then [OF in2] by blast
    moreover have "conn_inv (remove_stream_if_done c2 i) \<and> inner c (remove_stream_if_done c2 i)"
      using step_remove_if_done [OF c2(1), of i] inner_trans [OF in2] by (auto simp: conn_inv_wt)
    ultimately show ?thesis
      using less.prems(2) p raw m c2(1) in2 by (subst unfold) (auto split: sum.split)
  qed
qed

section \<open>Data on a request stream\<close>

text \<open>QUIC does not deliver data behind the end of a stream.\<close>

definition honest_fin :: "connection \<Rightarrow> u64 \<Rightarrow> bytes \<Rightarrow> bool" where
  "honest_fin c i data \<longleftrightarrow> (\<forall>r. cn_streams c i = Some r \<longrightarrow> rb_fin (rs_recv_buf r) \<longrightarrow> data = [])"

lemma new_stream_inv: "stream_inv (new_request_stream c i)"
  by (simp add: new_request_stream_def rs_set_max_received_body_size_def rs_new_def stream_inv_def rs_inv_def
      sb_inv_def sb_new_def)

lemma new_stream_fin [simp]: "\<not> sb_fin (rs_send_buf (new_request_stream c i))"
  by (simp add: new_request_stream_def rs_set_max_received_body_size_def rs_new_def)

lemma receive_fields [simp]:
  "rs_qpack_blocked_header (rs_receive r d f) = rs_qpack_blocked_header r"
  "rs_qpack_blocked (rs_receive r d f) = rs_qpack_blocked r"
  "rs_recv_state (rs_receive r d f) = rs_recv_state r"
  "rs_send_buf (rs_receive r d f) = rs_send_buf r" "rs_state (rs_receive r d f) = rs_state r"
  "awaiting (rs_receive r d f) = awaiting r" "sending (rs_receive r d f) = sending r"
  by (simp_all add: rs_receive_def Let_def awaiting_def sending_def)

lemma receive_inv:
  assumes "stream_inv r" "rb_fin (rs_recv_buf r) \<Longrightarrow> data = []"
  shows "stream_inv (rs_receive r data fin)"
proof -
  let ?q = "rs_recv_buf (rs_receive r data fin)"
  have q: "rb_inv ?q = rb_inv (rb_push (rs_recv_buf r) data)"
    "rb_peek ?q = rb_peek (rb_push (rs_recv_buf r) data)" "rb_fin (rs_recv_buf r) \<longrightarrow> rb_fin ?q"
    by (simp_all add: rs_receive_def Let_def rb_push_def rb_set_fin_def rb_inv_def rb_peek_def)
  have "rb_inv ?q" "rb_peek ?q = rb_peek (rs_recv_buf r) @ data"
    using rbq.push_inv rbq.push_view assms(1) by (simp_all add: q(1,2) stream_inv_def rs_inv_def)
  then show ?thesis
    using assms q(3) by (auto simp: stream_inv_def rs_inv_def rs_pending_def)
qed

text \<open>A server opens no request stream at or above the identifier of a GOAWAY it sent.\<close>

definition admits :: "connection \<Rightarrow> u64 \<Rightarrow> bool" where
  "admits c i \<longleftrightarrow> cn_streams c i \<noteq> None \<or>
    (cn_role c = Server \<longrightarrow> (\<forall>g. cn_last_sent_goaway_id c = Some g \<longrightarrow> i < vget g))"

lemma bidirectional_keeps:
  assumes "conn_inv c" "i < 2 ^ 62" "kind_is_bidirectional (kind_from_stream_id i)"
    "cn_pending_bidi_dispatch c i = None" "honest_fin c i data"
  obtains (stay) "keeps c (handle_bidirectional_stream ord c i data fin)"
    | (stream) r where "admits c i" "keeps (c\<lparr>cn_streams := (cn_streams c)(i \<mapsto> r)\<rparr>) (handle_bidirectional_stream ord c i data fin)"
proof (cases "i \<in> cn_closed_wt_sessions c \<or> \<not> admits c i")
  case True
  with assms(1) have "keeps c (handle_bidirectional_stream ord c i data fin)"
    by (auto simp: handle_bidirectional_stream_def admits_def is_some_and_def not_less)
  then show ?thesis by (rule stay)
next
  case False
  let ?old = "case cn_streams c i of None \<Rightarrow> new_request_stream c i | Some s \<Rightarrow> s"
  let ?r = "rs_receive ?old data fin"
  let ?c = "c\<lparr>cn_streams := (cn_streams c)(i \<mapsto> ?r)\<rparr>"
  have "stream_inv ?old \<and> (rb_fin (rs_recv_buf ?old) \<longrightarrow> data = [])"
    using conn_inv_stream [OF assms(1)] assms(5) new_stream_inv
    by (auto simp: honest_fin_def new_request_stream_def rs_set_max_received_body_size_def rs_new_def rb_new_def
        split: option.split)
  then have inv: "stream_inv ?r" by (intro receive_inv) auto
  have c1: "conn_inv ?c"
    by (rule step_stream [OF assms(1,2,3) inv assms(4)])
      (use assms(1) False in \<open>auto simp: conn_inv_ex_def server_inv_def split: option.split\<close>)
  have "keeps ?c (process_stream_frames ord ?c i)" if "\<not> rs_qpack_blocked ?r"
    by (rule frames_keeps [OF c1]) (use that inv False in \<open>auto simp: stream_inv_def\<close>)
  then have "keeps ?c (handle_bidirectional_stream ord c i data fin)"
    using False c1
    by (auto simp: handle_bidirectional_stream_def Let_def admits_def is_some_and_def split: option.split)
  with False show ?thesis by (auto intro: stream)
qed

section \<open>Streams that waited for the dynamic table\<close>

lemma returns_bindC_rule:
  "returns P m \<Longrightarrow> (\<And>c e. P (c, Inl e) \<Longrightarrow> Q (c, Inl e)) \<Longrightarrow> (\<And>c x. P (c, Inr x) \<Longrightarrow> returns Q (f c x)) \<Longrightarrow>
    returns Q (bindC m f)"
  unfolding returns_bindC by (auto elim!: returns_mono split: sum.splits)

lemma stream_steps_keeps_bindC:
  assumes "stream_steps i n c m"
    "\<And>c' x. conn_inv c' \<Longrightarrow> ready i n c' \<Longrightarrow> inner c c' \<Longrightarrow> keeps c' (f c' x)"
  shows "keeps c (bindC m f)"
proof (rule returns_bindC_rule [OF assms(1)])
  show "keeps c (f c1 x)" if "case (c1, Inr x) of (c', _) \<Rightarrow> stream_step i n c c'" for c1 x
  proof -
    have c1: "conn_inv c1" "ready i n c1" "inner c c1" using that stream_stepD [of i n c c1] by auto
    show ?thesis by (rule keeps_then [OF c1(3) assms(2) [OF c1]])
  qed
qed (auto simp: stream_step_def)

lemma ready_frames: "conn_inv c \<Longrightarrow> ready i n c \<Longrightarrow> keeps c (process_stream_frames ord c i)"
  by (auto simp: ready_def intro: frames_keeps)

lemma unblock_keeps:
  assumes "conn_inv c" "cn_streams c i = Some r" "rs_qpack_blocked_header r = None"
    "rs_recv_state r \<noteq> RrWaitingHeaders" "cn_role c = Server \<Longrightarrow> \<not> t \<Longrightarrow> i \<notin> cn_closed_wt_sessions c"
  shows "keeps c (unblock_stream ord c i hs t)"
proof -
  let ?c = "update_stream c i (\<lambda>s. rs_set_qpack_blocked s False 0 None)"
  have c1: "conn_inv ?c" "inner c ?c" using step_update_stream [OF assms(1)] by simp_all
  have i: "i < 2 ^ 62" using conn_inv_stream [OF assms(1,2)] by simp
  have "ready i (work r) ?c"
    using assms(2,4) by (simp add: ready_def rs_set_qpack_blocked_def work_def rs_pending_def)
  then have "stream_steps i (work r) ?c (emit_header_events ord ?c i hs t)"
    by (intro emit_headers c1(1) i) (use assms(5) in simp_all)
  from stream_steps_keeps_bindC [OF this ready_frames]
  have "keeps ?c (bindC (emit_header_events ord ?c i hs t) (\<lambda>c _. process_stream_frames ord c i))" .
  from keeps_then [OF c1(2) this] c1 show ?thesis
    unfolding unblock_stream_def Let_def returns_tryC by (simp split: sum.split)
qed

lemma blocked_state:
  "stream_inv r \<Longrightarrow> rs_qpack_blocked_header r = Some (e, t) \<Longrightarrow>
    rs_recv_state r = (if t then RrTrailersReceived else RrReceivingBody)"
  by (cases t) (auto simp: stream_inv_def)

lemma update_stream_decoder [simp]: "cn_qpack_decoder (update_stream c i f) = cn_qpack_decoder c"
  by (simp add: update_stream_def split: option.split)

lemma retry_keeps: "conn_inv c \<Longrightarrow> keeps c (retry_streams ord c bs)"
proof (induction bs arbitrary: c)
  case (Cons b bs)
  obtain ricnt i where b: "b = (ricnt, i)" by fastforce
  show ?case
  proof (cases "Option.bind (cn_streams c i) rs_qpack_blocked_header")
    case None
    with Cons b show ?thesis by simp
  next
    case (Some et)
    then obtain r e t where r: "cn_streams c i = Some r" "rs_qpack_blocked_header r = Some (e, t)" "et = (e, t)"
      by (cases "cn_streams c i"; cases et) auto
    let ?r = "fst (rs_take_qpack_blocked_header r)"
    have st: "rs_recv_state r = (if t then RrTrailersReceived else RrReceivingBody)"
      using blocked_state [OF _ r(2)] conn_inv_stream [OF Cons.prems r(1)] by blast
    obtain d res where d: "dd_decode (cn_qpack_decoder c) e = (d, res)"
      by (cases "dd_decode (cn_qpack_decoder c) e") auto
    let ?c1 = "update_stream c i (\<lambda>s. fst (rs_take_qpack_blocked_header s))"
    let ?c = "?c1\<lparr>cn_qpack_decoder := d\<rparr>"
    have c1: "conn_inv ?c1" "inner c ?c1" using step_update_stream [OF Cons.prems] by simp_all
    have c: "conn_inv ?c" "inner c ?c" using c1 inner_trans [OF c1(2) inner_fields(2)] by (simp_all add: conn_inv_wt)
    have at: "cn_streams ?c i = Some ?r" "rs_qpack_blocked_header ?r = None" "rs_recv_state ?r = rs_recv_state r"
      using r(1) by (simp_all add: rs_take_qpack_blocked_header_def)
    have un: "untouched ?c i \<and> \<not> sb_fin (rs_send_buf ?r)" if "cn_role ?c = Server" "\<not> t"
    proof -
      have "awaiting r" using r(2) that(2) by (auto simp: awaiting_def)
      then show ?thesis using Cons.prems r(1,2) that
        by (auto simp: conn_inv_ex_def server_inv_def untouched_def active_def rs_take_qpack_blocked_header_def)
    qed
    have "keeps ?c (bindC (unblock_stream ord ?c i hs t) (\<lambda>c _. retry_streams ord c bs))" for hs
      by (rule keeps_bindC [OF unblock_keeps [OF c(1) at(1,2)] Cons.IH])
        (use at st un in \<open>auto simp: untouched_def split: if_splits\<close>)
    moreover have "keeps ?c (retry_streams ord (block_stream ?c i e t) bs)"
    proof -
      have bl: "conn_inv (block_stream ?c i e t) \<and> inner ?c (block_stream ?c i e t)"
        by (rule block_keeps [OF c(1) at(1)]) (use at st un in auto)
      then show ?thesis using keeps_then [OF _ Cons.IH] by blast
    qed
    ultimately show ?thesis
      using b Some r(3) d c keeps_then [OF c(2)]
      by (auto simp: Let_def split: sum.split decode_output.split)
  qed
qed simp

lemma retry_blocked_keeps: "conn_inv c \<Longrightarrow> keeps c (retry_blocked_streams ord c)"
  using keeps_then [OF inner_fields(4) retry_keeps]
  by (auto simp: retry_blocked_streams_def Let_def)

end
