(* ===== verification/Connection_Critical.thy ===== *)
theory Connection_Critical
  imports Connection_Recv
begin

text \<open>
  How a connection evolves, and the critical streams: the QPACK streams and the control stream with
  SETTINGS, GOAWAY and MAX\_PUSH\_ID.
\<close>

section \<open>Evolution\<close>

definition lowered :: "varint option \<Rightarrow> varint option \<Rightarrow> bool" where
  "lowered a b \<longleftrightarrow> (\<forall>x. a = Some x \<longrightarrow> (\<exists>y. b = Some y \<and> vget y \<le> vget x))"

lemma lowered_refl [simp]: "lowered a a"
  by (simp add: lowered_def)

lemma lowered_trans: "lowered a b \<Longrightarrow> lowered b c \<Longrightarrow> lowered a c"
  by (fastforce simp: lowered_def)

text \<open>
  What can only move in one direction: the settings of the peer are set once, identifiers of streams
  grow, those of GOAWAY shrink, an error stays, the own dynamic table stays empty (a connection never
  inserts an entry), sessions move forward, and a server that sent GOAWAY opens no request stream
  above it.
\<close>

definition refuses_above :: "connection \<Rightarrow> connection \<Rightarrow> bool" where
  "refuses_above c c' \<longleftrightarrow> (cn_role c = Server \<longrightarrow>
    (\<forall>i g. cn_last_sent_goaway_id c = Some g \<longrightarrow> vget g \<le> i \<longrightarrow> cn_streams c i = None \<longrightarrow> cn_streams c' i = None))"

lemma refuses_above_new [intro]: "no_new_stream c c' \<Longrightarrow> refuses_above c c'"
  by (simp add: no_new_stream_def refuses_above_def)

lemma refuses_above_trans:
  "refuses_above c c1 \<Longrightarrow> refuses_above c1 c2 \<Longrightarrow> cn_role c1 = cn_role c \<Longrightarrow>
    lowered (cn_last_sent_goaway_id c) (cn_last_sent_goaway_id c1) \<Longrightarrow> refuses_above c c2"
  by (fastforce simp: refuses_above_def lowered_def)

definition evolves :: "connection \<Rightarrow> connection \<Rightarrow> bool" where
  "evolves c c' \<longleftrightarrow> cn_role c' = cn_role c \<and> cn_local_settings c' = cn_local_settings c \<and>
    (cn_peer_settings c \<noteq> None \<longrightarrow> cn_peer_settings c' = cn_peer_settings c) \<and>
    cn_next_stream_id c \<le> cn_next_stream_id c' \<and>
    lowered (cn_peer_goaway_last_id c) (cn_peer_goaway_last_id c') \<and>
    lowered (cn_last_sent_goaway_id c) (cn_last_sent_goaway_id c') \<and>
    (cn_error c \<noteq> None \<longrightarrow> cn_error c' = cn_error c) \<and>
    (dt_entries (qe_table (cn_qpack_encoder c)) = [] \<longrightarrow> dt_entries (qe_table (cn_qpack_encoder c')) = []) \<and>
    progress c c' \<and> refuses_above c c'"

lemma refuses_same [simp]: "cn_streams c' = cn_streams c \<Longrightarrow> refuses_above c c'"
  by (simp add: refuses_above_new)

lemma evolves_refl [simp]: "evolves c c"
  by (simp add: evolves_def)

lemma evolves_trans: "evolves c c1 \<Longrightarrow> evolves c1 c2 \<Longrightarrow> wt_inv c2 \<Longrightarrow> evolves c c2"
  by (auto simp: evolves_def intro: progress_trans lowered_trans order_trans refuses_above_trans)

lemma inner_evolves: "inner c c' \<Longrightarrow> evolves c c'"
  using frame_part_same [of c' c] by (simp add: evolves_def inner_def refuses_above_new)

abbreviation runs :: "connection \<Rightarrow> (connection \<times> 'r) option \<Rightarrow> bool" where
  "runs c m \<equiv> returns (\<lambda>(c', _). conn_inv c' \<and> evolves c c') m"

lemma keeps_runs: "keeps c m \<Longrightarrow> runs c m"
  by (auto elim!: returns_mono intro: inner_evolves)

interpretation me: moves evolves
  by unfold_locales (auto intro: evolves_trans conn_inv_wt)

lemmas runs_then = me.moves_then
lemmas runs_bindC = me.moves_bindC

text \<open>The handlers of control frames leave the receiver of the control stream alone.\<close>

definition calmly :: "connection \<Rightarrow> connection \<Rightarrow> bool" where
  "calmly c c' \<longleftrightarrow> evolves c c' \<and> cn_control_recv c' = cn_control_recv c"

lemma calmly_evolves: "calmly c c' \<Longrightarrow> evolves c c'"
  by (simp add: calmly_def)

interpretation mc: moves calmly
  by unfold_locales (auto simp: calmly_def intro: evolves_trans conn_inv_wt)

abbreviation calms :: "connection \<Rightarrow> (connection \<times> 'r) option \<Rightarrow> bool" where
  "calms c m \<equiv> returns (\<lambda>(c', _). conn_inv c' \<and> calmly c c') m"

lemma calms_runs: "calms c m \<Longrightarrow> runs c m"
  by (auto elim!: returns_mono intro: calmly_evolves)

lemma inner_calmly: "inner c c' \<Longrightarrow> calmly c c'"
  using inner_evolves [of c c'] frame_part_same(6) [of c' c] by (simp add: calmly_def inner_def)

lemma keeps_calms: "keeps c m \<Longrightarrow> calms c m"
  by (auto elim!: returns_mono intro: inner_calmly)

text \<open>Fields that \<open>evolves\<close> does not look at.\<close>

lemma evolves_fields [simp]:
  "evolves c (c\<lparr>cn_events := x0\<rparr>)"
  "evolves c (c\<lparr>cn_limits := x1\<rparr>)"
  "evolves c (c\<lparr>cn_control_send := x2\<rparr>)"
  "evolves c (c\<lparr>cn_control_recv := x3\<rparr>)"
  "evolves c (c\<lparr>cn_qpack_decoder := x6\<rparr>)"
  "evolves c (c\<lparr>cn_encoder_stream := x7\<rparr>)"
  "evolves c (c\<lparr>cn_encoder_stream_id := x8\<rparr>)"
  "evolves c (c\<lparr>cn_decoder_stream := x9\<rparr>)"
  "evolves c (c\<lparr>cn_decoder_stream_id := x10\<rparr>)"
  "evolves c (c\<lparr>cn_encoder_stream_recv := x11\<rparr>)"
  "evolves c (c\<lparr>cn_peer_encoder_stream_id := x12\<rparr>)"
  "evolves c (c\<lparr>cn_decoder_stream_recv := x13\<rparr>)"
  "evolves c (c\<lparr>cn_peer_decoder_stream_id := x14\<rparr>)"
  "evolves c (c\<lparr>cn_max_push_id := x15\<rparr>)"
  "evolves c (c\<lparr>cn_blocked_by_ricnt := x16\<rparr>)"
  "evolves c (c\<lparr>cn_ignored_uni_streams := x17\<rparr>)"
  "evolves c (c\<lparr>cn_pending_uni_streams := x18\<rparr>)"
  "evolves c (c\<lparr>cn_pending_bidi_dispatch := x19\<rparr>)"
  "evolves c (c\<lparr>cn_wt_transport_verified := x20\<rparr>)"
  "evolves c (c\<lparr>cn_previous_wt_settings := x21\<rparr>)"
  "evolves c (c\<lparr>cn_deferred_encoder_set_capacity := x22\<rparr>)"
  "evolves c (c\<lparr>cn_wt_reset_stream_at_supported := x23\<rparr>)"
  by (simp_all add: evolves_def progress_same)

lemma evolves_encoder [simp]:
  "(dt_entries (qe_table (cn_qpack_encoder c)) = [] \<Longrightarrow> dt_entries (qe_table e) = []) \<Longrightarrow>
    evolves c (c\<lparr>cn_qpack_encoder := e\<rparr>)"
  by (simp add: evolves_def progress_same)

lemma evolves_streams [simp]:
  "(\<And>i. cn_streams c i = None \<Longrightarrow> m i = None) \<Longrightarrow> evolves c (c\<lparr>cn_streams := m\<rparr>)"
  "cn_role c = Client \<Longrightarrow> evolves c (c\<lparr>cn_streams := m\<rparr>)"
  by (simp_all add: evolves_def refuses_above_def progress_same)

lemma evolves_stream [simp]:
  "cn_streams c i = Some r \<Longrightarrow> evolves c (c\<lparr>cn_streams := (cn_streams c)(i \<mapsto> r')\<rparr>)"
  by (rule evolves_streams(1)) auto

lemma refuses_above_error [simp]: "refuses_above c (c'\<lparr>cn_error := e\<rparr>) = refuses_above c c'"
  by (simp add: refuses_above_def)

lemma admits_evolves: "admits c i \<Longrightarrow> evolves c (c\<lparr>cn_streams := (cn_streams c)(i \<mapsto> r)\<rparr>)"
  by (auto simp: evolves_def refuses_above_def admits_def progress_same)

text \<open>The operations of a connection on its encoder leave an empty table empty.\<close>

lemma empty_capacity [simp]: "dt_entries t = [] \<Longrightarrow> dt_entries (dt_set_capacity t n) = []"
  by (simp add: dt_set_capacity_def evict_to_fit.simps)

lemma empty_limit [simp]: "dt_entries (qe_table (update_eviction_limit e)) = dt_entries (qe_table e)"
  by (simp add: update_eviction_limit_def dt_set_eviction_limit_def)

lemma empty_table_operations [simp]:
  "dt_entries (qe_table (qe_acknowledge e n)) = dt_entries (qe_table e)"
  "dt_entries (qe_table (qe_track_section e i n)) = dt_entries (qe_table e)"
  "dt_entries (qe_table (qe_cancel_stream e i)) = dt_entries (qe_table e)"
  "dt_entries (qe_table (qe_set_max_table_capacity e n)) = dt_entries (qe_table e)"
  "dt_entries (qe_table (qe_set_peer_max_blocked_streams e n)) = dt_entries (qe_table e)"
  by (simp_all add: qe_acknowledge_def qe_track_section_def qe_cancel_stream_def qe_set_max_table_capacity_def
      qe_set_peer_max_blocked_streams_def Let_def)

lemma empty_ack: "qe_ack_section e i = (e', r) \<Longrightarrow> dt_entries (qe_table e') = dt_entries (qe_table e)"
  by (auto simp: qe_ack_section_def Let_def split: option.splits list.splits)

lemma empty_encode: "qe_encode e buf hs n = (e', r) \<Longrightarrow> dt_entries (qe_table e') = dt_entries (qe_table e)"
  using qe_encode_frame [of e buf hs n] by (auto dest!: arg_cong [of _ _ "\<lambda>e. dt_entries (qe_table e)"])

text \<open>A field of this kind is set before the rest.\<close>

lemma runs_field: "evolves c c1 \<Longrightarrow> conn_inv c1 \<Longrightarrow> (conn_inv c1 \<Longrightarrow> runs c1 m) \<Longrightarrow> runs c m"
  by (blast intro: runs_then)

lemma bidirectional_runs:
  assumes "conn_inv c" "i < 2 ^ 62" "kind_is_bidirectional (kind_from_stream_id i)"
    "cn_pending_bidi_dispatch c i = None" "honest_fin c i data"
  shows "runs c (handle_bidirectional_stream ord c i data fin)"
  using assms
proof (cases rule: bidirectional_keeps [where ord = ord and fin = fin])
  case stay
  then show ?thesis by (rule keeps_runs)
next
  case (stream r)
  show ?thesis by (rule runs_then [OF admits_evolves [OF stream(1)] keeps_runs [OF stream(2)]])
qed

section \<open>QPACK streams\<close>

lemma es_string_pos: "es_decode_string_with_prefix b p = Inr (s, n) \<Longrightarrow> 0 < n"
  by (auto simp: es_decode_string_with_prefix_def Let_def bindR_Inr_iff split: if_splits dest!: decode_integer_sound)

lemma parse_instr_pos: "parse_instr b = Inr (i, n) \<Longrightarrow> 0 < n"
  by (auto simp: parse_instr_def bindR_Inr_iff split: if_splits dest!: decode_integer_sound es_string_pos)

lemma parse_ack_pos: "parse_ack b = Inr (a, n) \<Longrightarrow> 0 < n"
  by (auto simp: parse_ack_def bindR_Inr_iff split: if_splits dest!: decode_integer_sound)

lemma instr_effect_consumes: "instr_effect m t i = (t', b, None) \<Longrightarrow> b"
  by (cases i) (auto split: if_splits option.splits prod.splits)

text \<open>An instruction takes bytes off the buffer.\<close>

lemma esr_progress:
  assumes "esr_process r t = (r', t', Inr (Some i))"
  shows "length (esr_recv_buffer r') < length (esr_recv_buffer r)"
proof -
  obtain n where n: "parse_instr (esr_recv_buffer r) = Inr (i, n)" "r' = esr_drain r n"
    using assms
    by (auto simp: esr_process_step receiver_step_def split: sum.splits qpack_error.splits prod.splits option.splits
        if_splits dest: instr_effect_consumes)
  then show ?thesis using parse_instr_pos [OF n(1)] ei.dec_bound [OF n(1)] by (simp add: esr_drain_def)
qed

lemma dsr_progress:
  assumes "dsr_process r k = (r', Inr (Some i))"
  shows "length (dsr_recv_buffer r') < length (dsr_recv_buffer r)"
proof -
  obtain n where n: "parse_ack (dsr_recv_buffer r) = Inr (i, n)" "dsr_recv_buffer r' = dsr_recv_buffer (dsr_drain r n)"
    using assms by (auto simp: dsr_process_parse split: sum.splits qpack_error.splits prod.splits option.splits)
  then show ?thesis using parse_ack_pos [OF n(1)] di.dec_bound [OF n(1)] by (simp add: dsr_drain_def)
qed

lemma encoder_stream_runs: "conn_inv c \<Longrightarrow> runs c (process_encoder_stream c)"
proof (induction "length (esr_recv_buffer (cn_encoder_stream_recv c))" arbitrary: c rule: less_induct)
  case less
  obtain r t res where p: "esr_process (cn_encoder_stream_recv c) (dd_table (cn_qpack_decoder c)) = (r, t, res)"
    by (cases "esr_process (cn_encoder_stream_recv c) (dd_table (cn_qpack_decoder c))") auto
  let ?c = "c\<lparr>cn_encoder_stream_recv := r, cn_qpack_decoder := (cn_qpack_decoder c)\<lparr>dd_table := t\<rparr>\<rparr>"
  have c1: "conn_inv ?c" "evolves c ?c" using less.prems by (simp_all add: evolves_def progress_same)
  have "runs c (process_encoder_stream ?c)" if "res = Inr (Some i)" for i
    by (rule runs_then [OF c1(2) less.hyps [OF _ c1(1)]]) (use esr_progress p that in simp)
  with c1 p show ?case
    by (subst process_encoder_stream.simps) (simp split: sum.split option.split)
qed

lemma instruction_keeps:
  assumes "conn_inv c" "handle_decoder_instruction c i = (c', r)"
  shows "conn_inv c' \<and> evolves c c' \<and> cn_decoder_stream_recv c' = cn_decoder_stream_recv c"
  using assms by (auto simp: handle_decoder_instruction_def empty_ack split: decoder_instruction.splits prod.splits)

lemma decoder_loop_runs: "conn_inv c \<Longrightarrow> runs c (process_decoder_loop k c)"
proof (induction "length (dsr_recv_buffer (cn_decoder_stream_recv c))" arbitrary: c rule: less_induct)
  case less
  obtain r res where p: "dsr_process (cn_decoder_stream_recv c) k = (r, res)"
    by (cases "dsr_process (cn_decoder_stream_recv c) k") auto
  let ?c = "c\<lparr>cn_decoder_stream_recv := r\<rparr>"
  have c1: "conn_inv ?c" "evolves c ?c" using less.prems by simp_all
  show ?case
  proof (cases "\<exists>i. res = Inr (Some i)")
    case False
    with c1 p show ?thesis
      by (subst process_decoder_loop.simps) (auto split: sum.split option.split)
  next
    case True
    then obtain i where i: "res = Inr (Some i)" by blast
    obtain c2 x where h: "handle_decoder_instruction ?c i = (c2, x)"
      by (cases "handle_decoder_instruction ?c i") auto
    note c2 = instruction_keeps [OF c1(1) h]
    have e: "evolves c c2" using evolves_trans [OF c1(2)] c2 conn_inv_wt by blast
    have "runs c (process_decoder_loop k c2)"
      by (rule runs_then [OF e less.hyps]) (use dsr_progress p i c2 in simp_all)
    with p i h c2 e show ?thesis
      by (subst process_decoder_loop.simps) (simp split: sum.split)
  qed
qed

lemma decoder_stream_runs: "conn_inv c \<Longrightarrow> runs c (process_decoder_stream c)"
  by (simp add: process_decoder_stream_def decoder_loop_runs)

section \<open>SETTINGS\<close>

lemma conn_encode_capacity_runs: "conn_inv c \<Longrightarrow> runs c (conn_encode_set_capacity c n)"
  by (simp add: conn_encode_set_capacity_def split: prod.split)

lemma apply_capacity_keeps:
  assumes "conn_inv c"
  shows "returns (\<lambda>(c', _). conn_inv c' \<and> calmly c c' \<and> cn_peer_settings c' = cn_peer_settings c)
    (apply_peer_capacity c n)"
proof -
  let ?u = "min n (lim_qpack_max_table_capacity (cn_limits c))"
  let ?e = "qe_set_max_table_capacity (cn_qpack_encoder c) n"
  have "\<not> qe_max_table_capacity ?e < ?u" by (simp add: qe_set_max_table_capacity_def)
  then have "qe_set_table_capacity ?e ?u = (?e\<lparr>qe_table := dt_set_capacity (qe_table ?e) ?u\<rparr>, Inr ())"
    by (simp add: qe_set_table_capacity_def)
  with assms show ?thesis
    by (simp add: apply_peer_capacity_def Let_def conn_encode_set_capacity_def calmly_def evolves_def progress_same split: prod.split)
qed

text \<open>The SETTINGS of the peer arrive: what waited for them is taken out.\<close>

lemma step_peer_settings:
  assumes "conn_inv c" "cn_peer_settings c = None" "cr_recv_state (cn_control_recv c) = CrReady"
  shows "conn_inv (c\<lparr>cn_peer_settings := Some st, cn_events := es, cn_deferred_wt_connects := Map.empty\<rparr>)"
    "calmly c (c\<lparr>cn_peer_settings := Some st, cn_events := es, cn_deferred_wt_connects := Map.empty\<rparr>)"
  using assms
  by (auto simp: conn_inv_ex_def streams_inv_def server_inv_def dispatch_inv_def critical_inv_def wt_inv_def
      wt_sessions_inv_def wt_waiting_inv_def wt_quiet_def active_def calmly_def evolves_def progress_same)

lemma deferred_keeps:
  assumes "conn_inv c" "cn_peer_settings c \<noteq> None" "cn_closed_wt_sessions c = {}" "\<forall>(i, _) \<in> set ds. i < 2 ^ 62"
  shows "keeps c (process_deferred c ds)"
  using assms
proof (induction ds arbitrary: c)
  case (Cons d ds)
  obtain i hs where d: "d = (i, hs)" by fastforce
  let ?c1 = "register_wt_connect_session c i hs"
  let ?f = "\<lambda>b s. s\<lparr>ws_capsule_buf := ws_capsule_buf s @ b\<rparr>"
  let ?c2 = "case cn_streams ?c1 i of None \<Rightarrow> ?c1
    | Some stream \<Rightarrow> if rs_recv_body stream \<noteq> [] then update_session ?c1 i (?f (rs_recv_body stream)) else ?c1"
  have c1: "conn_inv ?c1" "inner c ?c1" "cn_closed_wt_sessions ?c1 = {}"
    using register_connect [OF Cons.prems(1), of hs i] Cons.prems d by auto
  have u: "conn_inv (update_session ?c1 i (?f b)) \<and> inner ?c1 (update_session ?c1 i (?f b))" for b
    by (rule conn_wt_step [OF c1(1) step_keep_session [where X = "{}" and Y = "{}"]])
      (use conn_inv_wt [OF c1(1)] in \<open>simp_all add: ws_inv_def ws_buffers_def ws_windows_def\<close>)
  have "conn_inv ?c2 \<and> inner ?c1 ?c2" using u c1(1) by (simp split: option.split)
  then have c2: "conn_inv ?c2" "inner c ?c2" using inner_trans [OF c1(2)] conn_inv_wt by blast+
  have cl: "cn_closed_wt_sessions ?c2 = {}"
    using c1(3) by (simp add: update_session_def split: option.split)
  let ?c3 = "push_header_events ?c2 i hs"
  have c3: "conn_inv ?c3" "inner c ?c3" "cn_closed_wt_sessions ?c3 = {}"
    using c2 cl inner_trans [OF c2(2)] push_header_events_keeps by (simp_all add: conn_inv_wt)
  have "cn_peer_settings ?c3 \<noteq> None"
    using c3(2) frame_part_same(3) [of ?c3 c] Cons.prems(2) by (simp add: inner_def)
  from keeps_then [OF c3(2) Cons.IH [OF c3(1) this c3(3)]] Cons.prems d
  show ?case by (simp add: Let_def split: sum.split)
qed simp

lemma ignored_keeps [simp]:
  "conn_inv_ex E (c\<lparr>cn_ignored_pre_negotiation := t\<rparr>) = conn_inv_ex E c"
  "inner c (c\<lparr>cn_ignored_pre_negotiation := t\<rparr>)"
  by (simp_all add: conn_inv_ex_def streams_inv_def server_inv_def dispatch_inv_def critical_inv_def wt_inv_def
      wt_sessions_inv_def wt_waiting_inv_def wt_quiet_def active_def inner_def frame_part_def progress_same)

lemma redispatch_keeps:
  "conn_inv c \<Longrightarrow> cn_peer_settings c \<noteq> None \<Longrightarrow> keeps c (redispatch_pending ord b c ds)"
proof (induction ds arbitrary: c)
  case (Cons d ds)
  obtain i e where d: "d = (i, e)" by fastforce
  show ?case
  proof (cases b)
    case True
    have s: "keeps c (handle_wt_bidi_stream ord c i (pw_data e) (pw_fin e))"
      by (rule returns_mono [OF bidi_stream_steps [OF conn_inv_wt [OF Cons.prems(1)] Cons.prems(2),
            where X = "{}" and Y = "{}"]])
        (auto dest: conn_wt_step [OF Cons.prems(1)])
    show ?thesis
      unfolding d redispatch_pending.simps if_P [OF True]
    proof (rule keeps_bindC [OF s Cons.IH])
      show "cn_peer_settings c' \<noteq> None" if "inner c c'" for c'
        using that frame_part_same(3) [of c' c] Cons.prems(2) by (simp add: inner_def)
    qed
  next
    case False
    let ?c = "push_event (c\<lparr>cn_ignored_pre_negotiation := insert i (cn_ignored_pre_negotiation c)\<rparr>)
        (reject_event i BufferedStreamRejected)"
    have "conn_inv ?c \<and> inner c ?c"
      using Cons.prems inner_trans [OF ignored_keeps(2) push_event_keeps(2)] by (simp add: conn_inv_wt)
    then show ?thesis using False d keeps_then [OF _ Cons.IH, of c ?c] Cons.prems(2)
      by (simp add: push_event_def)
  qed
qed simp

text \<open>Streams that came before the SETTINGS are taken out and dispatched or refused.\<close>

lemma pending_pre_keeps:
  assumes "conn_inv c" "cn_peer_settings c \<noteq> None"
  shows "keeps c (process_pending_wt_bidi_pre_negotiation ord c)"
proof -
  let ?c = "c\<lparr>cn_pending_pre_negotiation := Map.empty\<rparr>"
  have wt: "wt_step {} {} c ?c"
    using step_waiting [of c "cn_deferred_wt_connects c" Map.empty "{}" "{}" "cn_ignored_pre_negotiation c"]
      conn_inv_wt [OF assms(1)] by (simp add: wt_inv_def wt_waiting_inv_def)
  have "conn_inv ?c \<and> inner c ?c" by (rule conn_wt_step [OF assms(1) wt]) simp_all
  then show ?thesis
    unfolding process_pending_wt_bidi_pre_negotiation_def
    using keeps_then [OF _ redispatch_keeps, of c ?c] assms(2) by simp
qed

lemma entries_below:
  assumes "enumerates ord" "finite (dom m)" "dom m \<subseteq> A"
  shows "\<forall>(i, _) \<in> set (entries ord m). i \<in> A"
  using assms by (auto simp: entries_def enumerates_def)

lemma settings_calms:
  assumes "conn_inv c" "cn_peer_settings c = None" "cr_recv_state (cn_control_recv c) = CrReady" "enumerates ord"
  shows "calms c (handle_settings_frame ord c p)"
proof -
  let ?st = "settings_from_payload p"
  obtain c1 r where a: "(case qpack_max_table_capacity ?st of None \<Rightarrow> Some (c, Inr ())
      | Some capacity \<Rightarrow> apply_peer_capacity c (vget capacity)) = Some (c1, r)"
    and c1: "conn_inv c1" "calmly c c1" "cn_peer_settings c1 = None"
    using assms(1,2) apply_capacity_keeps [OF assms(1)] mc.R_refl [of c]
    by (cases "qpack_max_table_capacity ?st") (fastforce simp: returns_def)+
  let ?c2 = "case qpack_blocked_streams ?st of None \<Rightarrow> c1
    | Some blocked \<Rightarrow> c1\<lparr>cn_qpack_encoder := qe_set_peer_max_blocked_streams (cn_qpack_encoder c1) (vget blocked)\<rparr>"
  have "calmly c1 ?c2" by (simp add: calmly_def split: option.split)
  with c1 mc.R_trans [OF c1(2)] have c2: "conn_inv ?c2" "calmly c ?c2" "cn_peer_settings ?c2 = None"
    by (auto split: option.split)
  define c2 where "c2 = ?c2"
  note c2 = c2 [folded c2_def]
  let ?c3 = "push_event (c2\<lparr>cn_peer_settings := Some ?st\<rparr>) (SettingsReceived ?st (wt_part ?st))"
  let ?c4 = "?c3\<lparr>cn_deferred_wt_connects := Map.empty\<rparr>"
  have q: "cn_closed_wt_sessions c2 = {}" "finite (dom (cn_deferred_wt_connects c2))"
    "dom (cn_deferred_wt_connects c2) \<subseteq> {..<2 ^ 62}"
    using c2(1,3) by (auto simp: conn_inv_ex_def wt_inv_def wt_sessions_inv_def wt_quiet_def wt_waiting_inv_def)
  have "cr_recv_state (cn_control_recv c2) = CrReady" using c2(2) assms(3) by (simp add: calmly_def)
  then have c4: "conn_inv ?c4" "calmly c2 ?c4"
    using step_peer_settings [OF c2(1,3), where st = ?st] by (simp_all add: push_event_def)
  have e4: "calmly c ?c4" using mc.R_trans [OF c2(2) c4(2,1)] .
  have "keeps ?c4 (process_deferred ?c4 (entries ord (cn_deferred_wt_connects c2)))"
    by (rule deferred_keeps [OF c4(1)])
      (use q entries_below [OF assms(4) q(2,3)] in \<open>simp_all add: push_event_def\<close>)
  then have d: "calms ?c4 (process_deferred_wt_connects ord ?c3)"
    by (simp add: process_deferred_wt_connects_def push_event_def keeps_calms)
  have "calms ?c4 (bindC (process_deferred_wt_connects ord ?c3) (\<lambda>c _. process_pending_wt_bidi_pre_negotiation ord c))"
  proof (rule mc.moves_bindC [OF d keeps_calms [OF pending_pre_keeps]])
    show "cn_peer_settings c' \<noteq> None" if "calmly ?c4 c'" for c'
      using that by (simp add: calmly_def evolves_def push_event_def)
  qed
  from mc.moves_then [OF e4 this] c1 c2 show ?thesis
    unfolding handle_settings_frame_def Let_def a c2_def [symmetric]
    by (cases r) (simp_all add: bindC_def [of "Some _"] Let_def c2_def [symmetric])
qed

section \<open>GOAWAY and MAX\_PUSH\_ID\<close>

lemma draining_keeps:
  assumes "conn_inv c" "cn_role c = Client"
  shows "conn_inv (start_draining c i) \<and> inner c (start_draining c i)"
proof (rule conn_wt_step [OF assms(1)])
  have "stage (ws_state s) \<le> 2" if "ws_inv s" for s
    using that by (cases "ws_state s") (simp_all add: ws_inv_def)
  then show "wt_step {i} {i} c (start_draining c i)"
    unfolding start_draining_def
    by (intro wt_step_then [OF step_update_session step_event(1)])
      (use conn_inv_wt [OF assms(1)] in \<open>auto simp: ws_inv_def ws_buffers_def ws_windows_def\<close>)
qed (use assms(2) in simp_all)

lemma drain_all_keeps:
  "conn_inv c \<Longrightarrow> cn_role c = Client \<Longrightarrow>
    conn_inv (foldl start_draining c is) \<and> inner c (foldl start_draining c is)"
proof (induction "is" arbitrary: c)
  case (Cons i "is")
  note 1 = draining_keeps [OF Cons.prems, of i]
  then have "cn_role (start_draining c i) = Client"
    using frame_part_same(1) [of "start_draining c i" c] Cons.prems(2) by (simp add: inner_def)
  with Cons.IH 1 show ?case by (auto intro: inner_trans conn_inv_wt)
qed simp

lemma goaway_calms:
  assumes "conn_inv c"
  shows "calms c (handle_goaway_frame ord c g)"
proof (cases "is_some_and (cn_peer_goaway_last_id c) (\<lambda>prev. vget prev < vget g)")
  case True
  with assms show ?thesis by (simp add: handle_goaway_frame_def mc.R_refl)
next
  case False
  let ?c = "push_event (c\<lparr>cn_peer_goaway_last_id := Some g\<rparr>) (GoawayReceived g)"
  have c1: "conn_inv ?c" "calmly c ?c"
    using assms False
    by (auto simp: calmly_def evolves_def lowered_def progress_same push_event_def is_some_and_def split: option.splits)
  have "calmly c (foldl start_draining ?c is) \<and> conn_inv (foldl start_draining ?c is)" if "cn_role c = Client" for "is"
    using drain_all_keeps [OF c1(1), of "is"] that mc.R_trans [OF c1(2) inner_calmly] by simp
  with c1 assms False show ?thesis by (simp add: handle_goaway_frame_def Let_def mc.R_refl)
qed

lemma max_push_calms: "conn_inv c \<Longrightarrow> calms c (handle_max_push_id_frame c v)"
  by (simp add: handle_max_push_id_frame_def calmly_def)

section \<open>The control stream\<close>

text \<open>SETTINGS come once: after them the receiver is ready and stays so.\<close>

lemma control_process_inv:
  assumes "cr_inv r" "cr_process r = (r', res)"
  shows "cr_inv r' \<and> (cr_recv_state r = CrReady \<longrightarrow> cr_recv_state r' = CrReady) \<and>
    (\<forall>p. res = Inr (Some (SettingsFrame p)) \<longrightarrow> cr_recv_state r \<noteq> CrReady \<and> cr_recv_state r' = CrReady) \<and>
    (\<forall>f. res = Inr (Some f) \<longrightarrow> length (cr_pending r') < length (cr_pending r))"
proof -
  have step: "control_step (cr_recv_state r) (cr_pending r) = (cr_recv_state r', cr_pending r', res)"
    using cr.process_is_step [OF assms] by simp
  have inv: "cr_inv r'" using cr_process_view [OF _ assms(2)] assms(1) by (simp add: cr_inv_def)
  have frame: "control_frame_step c b = (c', b', x) \<Longrightarrow>
      (c = CrReady \<longrightarrow> c' = CrReady) \<and> (\<forall>p. x = Inr (Some (SettingsFrame p)) \<longrightarrow> c \<noteq> CrReady \<and> c' = CrReady)" for c b c' b' x
    using control_accept_ready [of c]
    by (cases c) (auto simp: control_frame_step_def split: if_splits sum.splits frame_decode_error.splits)
  have "(cr_recv_state r = CrReady \<longrightarrow> cr_recv_state r' = CrReady) \<and>
    (\<forall>p. res = Inr (Some (SettingsFrame p)) \<longrightarrow> cr_recv_state r \<noteq> CrReady \<and> cr_recv_state r' = CrReady)"
    using step frame
    by (auto simp: control_step_view control_view_step_def split: if_splits)
  with inv cm.step_progress [of "cr_recv_state r" "cr_pending r" "cr_recv_state r'" "cr_pending r'"] step
  show ?thesis by auto
qed

lemma control_frame_calms:
  assumes "conn_inv c" "enumerates ord"
    "\<And>p. f = SettingsFrame p \<Longrightarrow> cn_peer_settings c = None \<and> cr_recv_state (cn_control_recv c) = CrReady"
  shows "calms c (handle_control_frame ord c f)"
  using assms settings_calms goaway_calms max_push_calms
  by (cases f) (auto simp: handle_control_frame_def mc.R_refl)

lemma step_control_recv:
  assumes "conn_inv c" "cr_inv r" "cn_peer_settings c \<noteq> None \<longrightarrow> cr_recv_state r = CrReady"
  shows "conn_inv (c\<lparr>cn_control_recv := r\<rparr>)"
  using assms
  by (simp add: conn_inv_ex_def streams_inv_def server_inv_def dispatch_inv_def critical_inv_def wt_inv_def
      wt_sessions_inv_def wt_waiting_inv_def wt_quiet_def active_def)

lemma control_recv_inv:
  "conn_inv c \<Longrightarrow> cr_inv (cn_control_recv c) \<and>
    (cn_peer_settings c \<noteq> None \<longrightarrow> cr_recv_state (cn_control_recv c) = CrReady)"
  by (simp add: conn_inv_ex_def critical_inv_def)

lemma control_stream_runs:
  assumes "conn_inv c" "enumerates ord"
  shows "runs c (process_control_stream ord c)"
  using assms
proof (induction "length (cr_pending (cn_control_recv c))" arbitrary: c rule: less_induct)
  case less
  obtain r res where p: "cr_process (cn_control_recv c) = (r, res)" by (cases "cr_process (cn_control_recv c)") auto
  note cr = control_recv_inv [OF less.prems(1)]
  note q = control_process_inv [OF _ p]
  let ?c = "c\<lparr>cn_control_recv := r\<rparr>"
  have c1: "conn_inv ?c" by (rule step_control_recv [OF less.prems(1)]) (use cr q in auto)
  show ?case
  proof (cases "\<exists>f. res = Inr (Some f)")
    case False
    with c1 p show ?thesis by (subst process_control_stream.simps) (auto split: sum.split option.split)
  next
    case True
    then obtain f where f: "res = Inr (Some f)" by blast
    have "calms ?c (handle_control_frame ord ?c f)"
      by (rule control_frame_calms [OF c1 less.prems(2)]) (use cr q f in auto)
    then obtain c2 x where h: "handle_control_frame ord ?c f = Some (c2, x)" and c2: "conn_inv c2" "calmly ?c c2"
      by (auto simp: returns_def)
    have e: "evolves c c2" using me.R_trans [OF evolves_fields(4) calmly_evolves] c2 by blast
    have "runs c (process_control_stream ord c2)"
      by (rule runs_then [OF e less.hyps [OF _ c2(1) less.prems(2)]]) (use q cr f c2(2) in \<open>simp add: calmly_def\<close>)
    with p f h c2 e show ?thesis by (subst process_control_stream.simps) (simp split: sum.split)
  qed
qed

lemma receive_control_runs:
  assumes "conn_inv c" "enumerates ord"
  shows "runs c (receive_control ord c data)"
proof -
  have "cr_inv (cr_receive (cn_control_recv c) data) \<and>
      cr_recv_state (cr_receive (cn_control_recv c) data) = cr_recv_state (cn_control_recv c)"
    using cr.push_keeps control_recv_inv [OF assms(1)] by simp
  then have "conn_inv (c\<lparr>cn_control_recv := cr_receive (cn_control_recv c) data\<rparr>)"
    using control_recv_inv [OF assms(1)] by (intro step_control_recv [OF assms(1)]) simp_all
  then show ?thesis
    unfolding receive_control_def by (rule runs_then [OF evolves_fields(4) control_stream_runs [OF _ assms(2)]])
qed

lemma receive_encoder_runs: "conn_inv c \<Longrightarrow> runs c (receive_encoder c data)"
  unfolding receive_encoder_def by (rule runs_then [OF evolves_fields(10) encoder_stream_runs]) simp

lemma receive_decoder_runs: "conn_inv c \<Longrightarrow> runs c (receive_decoder c data)"
  unfolding receive_decoder_def by (rule runs_then [OF evolves_fields(12) decoder_stream_runs]) simp

end
