(* ===== verification/Connection_Dispatch.thy ===== *)
theory Connection_Dispatch
  imports Connection_Critical
begin

text \<open>
  Unidirectional streams, the dispatch of all streams, and the operations that hand out events and
  data.
\<close>

section \<open>Unidirectional streams\<close>

lemma wt_step_keeps: "conn_inv c \<Longrightarrow> wt_step {} {} c c' \<Longrightarrow> conn_inv c' \<and> inner c c'"
  by (rule conn_wt_step [where X = "{}" and Y = "{}"]) auto

lemma wt_keeps: "conn_inv c \<Longrightarrow> steps {} {} c m \<Longrightarrow> keeps c m"
  by (auto elim!: returns_mono dest: wt_step_keeps)

lemma wt_runs: "conn_inv c \<Longrightarrow> steps {} {} c m \<Longrightarrow> runs c m"
  by (rule keeps_runs [OF wt_keeps])

lemma negotiated_peer: "is_wt_fully_negotiated c \<Longrightarrow> cn_peer_settings c \<noteq> None"
  by (auto simp: is_wt_fully_negotiated_def split: option.splits if_splits)

lemma registered_peer:
  assumes "conn_inv c"
    "cn_wt_uni_streams c i \<noteq> None \<or> cn_pending_wt_uni_streams c i \<noteq> None \<or>
      cn_wt_bidi_streams c i \<noteq> None \<or> cn_pending_wt_bidi_streams c i \<noteq> None"
  shows "cn_peer_settings c \<noteq> None"
proof
  assume "cn_peer_settings c = None"
  with wt_inv_quiet [OF conn_inv_wt [OF assms(1)]] assms(2) show False by (auto simp: wt_quiet_def)
qed

lemma open_uni_runs:
  assumes "conn_inv c" "enumerates ord"
  shows "runs c (open_uni_stream ord c i t data)"
proof -
  have "conn_inv (c\<lparr>cn_control_recv := cr_skip_stream_type (cr_set_stream_id (cn_control_recv c) i)\<rparr>)"
    using control_recv_inv [OF assms(1)]
    by (intro step_control_recv [OF assms(1)]) (auto simp: cr_skip_stream_type_def cr_set_stream_id_def cr_inv_def)
  note control = this runs_then [OF evolves_fields(4) receive_control_runs [OF this assms(2)]]
  have "runs c (receive_encoder (c\<lparr>cn_peer_encoder_stream_id := Some i\<rparr>) data)"
    "runs c (receive_decoder (c\<lparr>cn_peer_decoder_stream_id := Some i\<rparr>) data)"
    using runs_then [OF evolves_fields(11) receive_encoder_runs] runs_then [OF evolves_fields(13) receive_decoder_runs]
      assms(1) by simp_all
  moreover have "runs c (resolve_wt_uni_stream_session_id ord c i data)" if "is_wt_fully_negotiated c"
    by (rule wt_runs [OF assms(1) resolve_uni_steps [OF conn_inv_wt [OF assms(1)] negotiated_peer [OF that]]])
  ultimately show ?thesis
    using assms(1) control by (simp add: open_uni_stream_def Let_def)
qed

lemma new_uni_runs:
  assumes "conn_inv c" "enumerates ord"
  shows "runs c (handle_new_unidirectional_stream ord c i data fin)"
proof -
  let ?f = "c\<lparr>cn_pending_uni_streams := (cn_pending_uni_streams c)(i := None)\<rparr>"
  have fin: "runs c' (tryC c' (critical_fin c' i) (\<lambda>_.
           let c = (if cn_wt_uni_streams c' i \<noteq> None then
                 push_event (c'\<lparr>cn_wt_uni_streams := (cn_wt_uni_streams c')(i := None)\<rparr>) (end_event False i)
               else c') in
           Some (c\<lparr>cn_pending_wt_uni_streams := (cn_pending_wt_uni_streams c)(i := None)\<rparr>, Inr ())))"
    if c': "conn_inv c'" for c'
  proof -
    let ?c = "if cn_wt_uni_streams c' i \<noteq> None then
        push_event (c'\<lparr>cn_wt_uni_streams := (cn_wt_uni_streams c')(i := None)\<rparr>) (end_event False i) else c'"
    note wt = conn_inv_wt [OF c']
    have "wt_step {} {} c' ?c"
      using wt_step_then [OF step_forget_uni [OF wt] step_event(1)] wt_step_refl [OF wt] by simp
    then have "wt_step {} {} c' (?c\<lparr>cn_pending_wt_uni_streams := (cn_pending_wt_uni_streams ?c)(i := None)\<rparr>)"
      by (rule wt_step_then [OF _ step_forget_pending(1)])
    from wt_step_keeps [OF c' this] c' inner_evolves show ?thesis
      unfolding Let_def returns_tryC by (auto split: sum.split)
  qed
  have "runs c (bindC (open_uni_stream ord ?f i t rest)
      (\<lambda>c _. if \<not> fin then Some (c, Inr ()) else tryC c (critical_fin c i) (\<lambda>_.
           let c = (if cn_wt_uni_streams c i \<noteq> None then
                 push_event (c\<lparr>cn_wt_uni_streams := (cn_wt_uni_streams c)(i := None)\<rparr>) (end_event False i)
               else c) in
           Some (c\<lparr>cn_pending_wt_uni_streams := (cn_pending_wt_uni_streams c)(i := None)\<rparr>, Inr ()))))" for t rest
    by (rule runs_bindC [OF runs_then [OF evolves_fields(17) open_uni_runs [OF _ assms(2)]]])
      (use assms(1) fin in auto)
  with assms(1) show ?thesis
    by (cases fin) (simp_all add: handle_new_unidirectional_stream_def Let_def split: sum.split prod.split)
qed

lemma known_uni_runs:
  assumes "conn_inv c" "enumerates ord" "known_uni_stream c i"
  shows "runs c (known_uni_data ord c i data)"
proof -
  have "steps {} {} c (bindC (handle_wt_uni_stream_data ord c i data) (\<lambda>c _. Some (c, Inr ())))"
    by (rule steps_bindC [OF uni_data_steps [OF conn_inv_wt [OF assms(1)]]])
      (auto intro: wt_step_refl wt_step_inv)
  moreover have "steps {} {} c (resolve_wt_uni_stream_session_id ord c i data)" if "cn_pending_wt_uni_streams c i \<noteq> None"
    by (rule resolve_uni_steps [OF conn_inv_wt [OF assms(1)] registered_peer [OF assms(1), of i]]) (use that in simp)
  ultimately show ?thesis
    using assms receive_control_runs [OF assms(1,2)] receive_encoder_runs [OF assms(1)] receive_decoder_runs [OF assms(1)]
    by (auto simp: known_uni_data_def known_uni_stream_def wt_runs)
qed

lemma uni_runs:
  assumes "conn_inv c" "enumerates ord"
  shows "runs c (handle_unidirectional_stream ord c i data fin)"
proof -
  have fin: "runs c' (tryC c' (critical_fin c' i) (\<lambda>_.
         let c = fst (handle_wt_uni_stream_fin c' i) in
         Some (c\<lparr>cn_pending_wt_uni_streams := (cn_pending_wt_uni_streams c)(i := None),
                 cn_pending_uni_streams := (cn_pending_uni_streams c)(i := None)\<rparr>, Inr ())))"
    if c': "conn_inv c'" for c'
  proof -
    note wt = conn_inv_wt [OF c']
    let ?c = "fst (handle_wt_uni_stream_fin c' i)"
    let ?d = "?c\<lparr>cn_pending_wt_uni_streams := (cn_pending_wt_uni_streams ?c)(i := None)\<rparr>"
    have "wt_step {} {} c' ?d" by (rule wt_step_then [OF uni_fin_steps [OF wt] step_forget_pending(1)])
    then have "conn_inv ?d" "evolves c' ?d" using wt_step_keeps [OF c'] inner_evolves by blast+
    then have "conn_inv (?d\<lparr>cn_pending_uni_streams := (cn_pending_uni_streams ?c)(i := None)\<rparr>)"
      "evolves c' (?d\<lparr>cn_pending_uni_streams := (cn_pending_uni_streams ?c)(i := None)\<rparr>)"
      using me.R_trans [OF _ evolves_fields(17)] by simp_all
    with c' show ?thesis unfolding Let_def returns_tryC by (simp split: sum.split)
  qed
  have "runs c (bindC (if data \<noteq> [] then known_uni_data ord c i data else Some (c, Inr ())) (\<lambda>c _.
       if \<not> fin then Some (c, Inr ())
       else tryC c (critical_fin c i) (\<lambda>_.
         let c = fst (handle_wt_uni_stream_fin c i) in
         Some (c\<lparr>cn_pending_wt_uni_streams := (cn_pending_wt_uni_streams c)(i := None),
                 cn_pending_uni_streams := (cn_pending_uni_streams c)(i := None)\<rparr>, Inr ()))))"
    if "data = [] \<or> known_uni_stream c i"
    by (rule runs_bindC) (use that assms known_uni_runs fin in auto)
  with new_uni_runs [OF assms] assms(1) show ?thesis
    by (auto simp: handle_unidirectional_stream_def)
qed

section \<open>Dispatch\<close>

lemma reject_pre_keeps: "conn_inv c \<Longrightarrow> conn_inv (reject_pre_negotiation c i) \<and> inner c (reject_pre_negotiation c i)"
  using inner_trans [OF ignored_keeps(2) push_event_keeps(2)] by (simp add: reject_pre_negotiation_def conn_inv_wt)

lemma step_pre:
  assumes "conn_inv c" "card (dom p) \<le> MAX_BUFFERED_STREAMS" "finite (dom p)"
    "\<forall>e \<in> ran p. length (pw_data e) \<le> WT_MAX_BUFFERED_STREAM_BYTES"
  shows "conn_inv (c\<lparr>cn_pending_pre_negotiation := p\<rparr>) \<and> inner c (c\<lparr>cn_pending_pre_negotiation := p\<rparr>)"
proof (rule wt_step_keeps [OF assms(1)])
  show "wt_step {} {} c (c\<lparr>cn_pending_pre_negotiation := p\<rparr>)"
    using step_waiting [of c "cn_deferred_wt_connects c" p "{}" "{}" "cn_ignored_pre_negotiation c"]
      conn_inv_wt [OF assms(1)] assms(2-) by (simp add: wt_inv_def wt_waiting_inv_def)
qed

lemma buffer_pre_keeps:
  assumes "conn_inv c"
  shows "keeps c (buffer_pre_negotiation_wt_bidi c i data fin)"
proof -
  let ?p = "cn_pending_pre_negotiation c"
  have p: "finite (dom ?p)" "card (dom ?p) \<le> MAX_BUFFERED_STREAMS"
    "\<forall>e \<in> ran ?p. length (pw_data e) \<le> WT_MAX_BUFFERED_STREAM_BYTES"
    using conn_inv_wt [OF assms] by (simp_all add: wt_inv_def wt_waiting_inv_def)
  have "card (dom (?p(i := None))) \<le> card (dom ?p)" using p(1) by (auto intro: card_mono)
  then have less: "conn_inv (c\<lparr>cn_pending_pre_negotiation := ?p(i := None)\<rparr>) \<and>
      inner c (c\<lparr>cn_pending_pre_negotiation := ?p(i := None)\<rparr>)"
    using p by (intro step_pre [OF assms]) (auto simp: ran_def)
  have more: "conn_inv (c\<lparr>cn_pending_pre_negotiation := ?p(i \<mapsto> e)\<rparr>) \<and>
      inner c (c\<lparr>cn_pending_pre_negotiation := ?p(i \<mapsto> e)\<rparr>)"
    if "length (pw_data e) \<le> WT_MAX_BUFFERED_STREAM_BYTES"
      "\<not> (?p i = None \<and> MAX_BUFFERED_STREAMS \<le> card (dom ?p))" for e
  proof (rule step_pre [OF assms])
    show "card (dom (?p(i \<mapsto> e))) \<le> MAX_BUFFERED_STREAMS"
      using p(1,2) that(2) by (cases "?p i") (auto simp: card_insert_if domIff insert_absorb domI)
  qed (use p that(1) in \<open>auto simp: ran_def\<close>)
  have size: "length a + length data \<le> WT_MAX_BUFFERED_STREAM_BYTES"
    if "\<not> WT_MAX_BUFFERED_STREAM_BYTES < sat_add (length a) (length data)" for a :: bytes
    using that by (simp add: sat_add_def WT_MAX_BUFFERED_STREAM_BYTES_def split: if_splits)
  show ?thesis
    unfolding buffer_pre_negotiation_wt_bidi_def Let_def
    using assms less more size reject_pre_keeps [OF assms] reject_pre_keeps inner_trans conn_inv_wt
    by (simp split: option.split) (metis (no_types, lifting))
qed

lemma dispatch_wt_runs:
  assumes "conn_inv c"
  shows "runs c (dispatch_wt_bidi ord c i data fin)"
proof -
  have "runs c (handle_wt_bidi_stream ord c i data fin)" if "is_wt_fully_negotiated c"
    by (rule wt_runs [OF assms bidi_stream_steps [OF conn_inv_wt [OF assms] negotiated_peer [OF that]]])
  then show ?thesis
    using reject_pre_keeps [OF assms, of i] keeps_runs [OF buffer_pre_keeps [OF assms]]
    by (auto simp: dispatch_wt_bidi_def intro: inner_evolves)
qed

lemma step_dispatch:
  "conn_inv c \<Longrightarrow> conn_inv (c\<lparr>cn_pending_bidi_dispatch := (cn_pending_bidi_dispatch c)(i := None)\<rparr>)"
  "conn_inv c \<Longrightarrow> cn_streams c i = None \<Longrightarrow> cn_role c = Server \<Longrightarrow>
    conn_inv (c\<lparr>cn_pending_bidi_dispatch := (cn_pending_bidi_dispatch c)(i := b)\<rparr>)"
  by (simp_all add: conn_inv_ex_def streams_inv_def server_inv_def dispatch_inv_def critical_inv_def wt_inv_def
      wt_sessions_inv_def wt_waiting_inv_def wt_quiet_def active_def)

lemma dispatch_client_runs:
  assumes "conn_inv c" "i < 2 ^ 62" "kind_is_bidirectional (kind_from_stream_id i)"
    "cn_streams c i = None" "cn_role c = Server"
  shows "runs c (dispatch_client_bidi_stream ord c i data fin)"
proof -
  let ?f = "c\<lparr>cn_pending_bidi_dispatch := (cn_pending_bidi_dispatch c)(i := None)\<rparr>"
  have f: "conn_inv ?f" by (rule step_dispatch(1) [OF assms(1)])
  have w: "conn_inv (c\<lparr>cn_pending_bidi_dispatch := (cn_pending_bidi_dispatch c)(i := b)\<rparr>)" for b
    by (rule step_dispatch(2) [OF assms(1,4,5)])
  have h: "runs c (handle_bidirectional_stream ord ?f i b fin)" for b
    by (rule runs_then [OF evolves_fields(18) bidirectional_runs [OF f assms(2,3)]])
      (use assms(4) in \<open>simp_all add: honest_fin_def\<close>)
  have d: "runs c (dispatch_wt_bidi ord ?f i b fin)" for b
    by (rule runs_then [OF evolves_fields(18) dispatch_wt_runs [OF f]])
  show ?thesis
    using f h d w by (cases fin) (simp_all add: dispatch_client_bidi_stream_def Let_def split: sum.split)
qed

text \<open>
  What QUIC promises about the data it delivers: identifiers fit their range, and nothing comes
  behind the end of a stream.
\<close>

definition feed_ok :: "connection \<Rightarrow> u64 \<Rightarrow> bytes \<Rightarrow> bool" where
  "feed_ok c i data \<longleftrightarrow> i < 2 ^ 62 \<and> honest_fin c i data"

lemma dispatch_runs:
  assumes "conn_inv c" "enumerates ord" "feed_ok c i data"
  shows "runs c (dispatch_stream ord c i data fin)"
proof (cases "kind_is_unidirectional (kind_from_stream_id i)")
  case True
  with uni_runs [OF assms(1,2)] show ?thesis by (simp add: dispatch_stream_def)
next
  case False
  then have bidi: "kind_is_bidirectional (kind_from_stream_id i)" by (cases "kind_from_stream_id i") simp_all
  have i: "i < 2 ^ 62" "honest_fin c i data" using assms(3) by (simp_all add: feed_ok_def)
  have wt: "runs c (handle_wt_bidi_stream ord c i data fin)" if "cn_peer_settings c \<noteq> None"
    by (rule wt_runs [OF assms(1) bidi_stream_steps [OF conn_inv_wt [OF assms(1)] that]])
  have reg: "cn_peer_settings c \<noteq> None"
    if "cn_wt_bidi_streams c i \<noteq> None \<or> cn_pending_wt_bidi_streams c i \<noteq> None"
    by (rule registered_peer [OF assms(1), of i]) (use that in blast)
  have disp: "cn_streams c i = None \<and> cn_role c = Server" if "cn_pending_bidi_dispatch c i \<noteq> None"
    using assms(1) that by (simp add: conn_inv_ex_def dispatch_inv_def)
  have request: "runs c (map_option (\<lambda>(c, r). (remove_stream_if_done c i, r)) (handle_bidirectional_stream ord c i data fin))"
    if "cn_pending_bidi_dispatch c i = None"
  proof -
    have "runs c (handle_bidirectional_stream ord c i data fin)"
      by (rule bidirectional_runs [OF assms(1) i(1) bidi that i(2)])
    then obtain c1 r where 1: "handle_bidirectional_stream ord c i data fin = Some (c1, r)" "conn_inv c1" "evolves c c1"
      by (auto simp: returns_def)
    with step_remove_if_done [OF 1(2), of i] me.R_trans [OF 1(3) inner_evolves] show ?thesis by auto
  qed
  note client = dispatch_client_runs [OF assms(1) i(1) bidi]
  show ?thesis
    using False assms(1) wt reg disp request client negotiated_peer keeps_runs [OF buffer_pre_keeps [OF assms(1)]]
    unfolding dispatch_stream_def Let_def by (simp del: not_None_eq)
qed

text \<open>A connection error is remembered, and after it every operation gives it again.\<close>

lemma progress_error [simp]: "progress c (c'\<lparr>cn_error := e\<rparr>) = progress c c'"
  by (simp add: progress_def cong: option.case_cong)

lemma step_error:
  "conn_inv c' \<Longrightarrow> evolves c c' \<Longrightarrow> cn_error c = None \<or> cn_error c' = Some e \<Longrightarrow>
    conn_inv (c'\<lparr>cn_error := Some e\<rparr>) \<and> evolves c (c'\<lparr>cn_error := Some e\<rparr>)"
  by (auto simp: evolves_def)

lemma remember_result:
  assumes "cn_error c = None" "runs c m"
  shows "runs c (remember_connection_error m)"
proof -
  obtain c' r where m: "m = Some (c', r)" "conn_inv c'" "evolves c c'" using assms(2) by (auto simp: returns_def)
  then show ?thesis
    using step_error [OF m(2,3)] assms(1)
    by (auto simp: remember_connection_error_def split: sum.split h3_error.split)
qed

lemma remember_runs:
  assumes "conn_inv c" "cn_error c = None \<Longrightarrow> runs c m"
  shows "runs c (remember_connection_error (tryC c (check_error_state c) (\<lambda>_. m)))"
proof (cases "cn_error c")
  case None
  with remember_result [OF None] assms(2) show ?thesis by (simp add: check_error_state_def tryC_def)
next
  case (Some e)
  with assms(1) step_error [OF assms(1) evolves_refl] show ?thesis
    by (cases e) (auto simp: check_error_state_def tryC_def remember_connection_error_def)
qed

lemma feed_runs:
  assumes "conn_inv c" "enumerates ord" "feed_ok c i data"
  shows "runs c (feed_stream ord c i data fin)"
  using remember_result [OF _ dispatch_runs [OF assms]] assms(1)
  by (simp add: feed_stream_def split: option.split)

section \<open>Events\<close>

lemma poll_runs: "conn_inv c \<Longrightarrow> runs c (poll_event ord c)"
  unfolding poll_event_def
  by (rule remember_runs, assumption, rule runs_bindC [OF keeps_runs [OF retry_blocked_keeps]])
    (auto split: list.split)

lemma drain_events_runs: "conn_inv c \<Longrightarrow> runs c (drain_events ord c)"
  unfolding drain_events_def
  by (rule remember_runs, assumption, rule runs_bindC [OF keeps_runs [OF retry_blocked_keeps]]) auto

section \<open>Data to send\<close>

lemma step_control_send:
  assumes "conn_inv c" "sb_inv (cs_send_buf s)" "cs_send_state s = CsReady" "cs_stream_id s = cs_stream_id (cn_control_send c)"
  shows "conn_inv (c\<lparr>cn_control_send := s\<rparr>)"
  using assms
  by (simp add: conn_inv_ex_def streams_inv_def server_inv_def dispatch_inv_def critical_inv_def wt_inv_def
      wt_sessions_inv_def wt_waiting_inv_def wt_quiet_def active_def)

lemma fin_sent_keeps:
  assumes "conn_inv c" "cn_streams c i = Some r" "has_fin_pending r"
  shows "conn_inv_ex {i} (update_stream c i mark_fin_sent)"
proof -
  note i = conn_inv_stream [OF assms(1,2)]
  have fin: "sb_fin (rs_send_buf r)" "\<not> can_send (rs_state r)"
    using assms(3) i by (auto simp: has_fin_pending_def stream_inv_def)
  then have na: "\<not> awaiting r" if "cn_role c = Server"
    using assms(1,2) that by (auto simp: conn_inv_ex_def server_inv_def)
  have "conn_inv_ex {i} (c\<lparr>cn_streams := (cn_streams c)(i \<mapsto> mark_fin_sent r)\<rparr>)"
  proof (rule step_stream)
    show "conn_inv_ex {i} c" by (rule conn_inv_weaken [OF assms(1)]) simp
    show "i < 2 ^ 62" "kind_is_bidirectional (kind_from_stream_id i)" using i by simp_all
    show "stream_inv (mark_fin_sent r)"
      using i fin(2) by (simp add: stream_inv_def mark_fin_sent_def sb_mark_fin_sent_def rs_inv_def rs_pending_def sb_inv_def)
    show "cn_pending_bidi_dispatch c i = None"
      using assms(1,2) by (auto simp: conn_inv_ex_def dispatch_inv_def)
  qed (use na in \<open>auto simp: mark_fin_sent_def awaiting_def\<close>)
  with assms(2) show ?thesis by (simp add: update_stream_def)
qed

lemma get_data_runs:
  assumes "conn_inv c"
  shows "runs c (get_stream_data ord c i)"
proof (cases "is_some_and (cn_streams c i) has_fin_pending")
  case False
  with assms show ?thesis by (simp add: get_stream_data_def)
next
  case True
  then obtain r where r: "cn_streams c i = Some r" "has_fin_pending r"
    by (auto simp: is_some_and_def split: option.splits)
  let ?c = "update_stream c i mark_fin_sent"
  note c1 = fin_sent_keeps [OF assms r]
  have e1: "evolves c ?c" using r(1) by (simp add: update_stream_def)
  have nb: "rs_qpack_blocked_header (mark_fin_sent r) \<noteq> Some (e, False)" if "cn_role c = Server" for e
  proof
    assume "rs_qpack_blocked_header (mark_fin_sent r) = Some (e, False)"
    then have "awaiting r" by (simp add: awaiting_def mark_fin_sent_def)
    then have "\<not> sb_fin (rs_send_buf r)" using assms r(1) that by (auto simp: conn_inv_ex_def server_inv_def)
    with r(2) show False by (simp add: has_fin_pending_def)
  qed
  have t: "returns (\<lambda>c'. conn_inv c' \<and> evolves c c') (terminate_wt_session ord ?c i)"
  proof -
    obtain c2 where c2: "terminate_wt_session ord ?c i = Some c2" "wt_step {i} {} ?c c2"
      using terminate_own [OF conn_inv_wt [OF c1], where ord = ord and i = i] by (auto simp: returns_def)
    have "conn_inv_ex {i} c2 \<and> inner ?c c2"
      by (rule conn_wt_step [OF c1 c2(2)]) (use r(1) nb in auto)
    moreover have "\<not> active c2 i"
      using terminate_inactive [OF conn_inv_wt [OF c1]] c2(1) by (auto simp: terminate_wt_session_def)
    ultimately have "conn_inv c2" "inner ?c c2" using conn_inv_except by blast+
    with c2(1) me.R_trans [OF e1 inner_evolves] show ?thesis by simp
  qed
  have "conn_inv ?c" if "cn_wt_sessions ?c i = None"
    by (rule conn_inv_except [OF c1]) (use that in \<open>simp add: active_def\<close>)
  with True t e1 show ?thesis
    by (auto simp: get_stream_data_def Let_def returns_bind elim: returns_mono)
qed

definition consume_ok :: "connection \<Rightarrow> u64 \<Rightarrow> usize \<Rightarrow> bool" where
  "consume_ok c i n \<longleftrightarrow>
    (cs_stream_id (cn_control_send c) = Some i \<longrightarrow> n \<le> length (cs_get_data (cn_control_send c))) \<and>
    (\<forall>s. cn_streams c i = Some s \<longrightarrow> n \<le> length (fst (get_send_data s)))"

lemma consume_runs:
  assumes "conn_inv c" "consume_ok c i n"
  shows "returns (\<lambda>c'. conn_inv c' \<and> evolves c c') (consume_stream_data c i n)"
proof -
  have control: "returns (\<lambda>c'. conn_inv c' \<and> evolves c c')
      (map_option (\<lambda>s. c\<lparr>cn_control_send := s\<rparr>) (cs_consume_data (cn_control_send c) n))"
    if "cs_stream_id (cn_control_send c) = Some i"
  proof -
    let ?s = "cn_control_send c"
    have inv: "sb_inv (cs_send_buf ?s)" "cs_send_state ?s = CsReady"
      using assms(1) by (simp_all add: conn_inv_ex_def critical_inv_def)
    have "n \<le> length (sb_peek (cs_send_buf ?s))" using assms(2) that by (simp add: consume_ok_def cs_get_data_def)
    from sbq.consume_Some [OF inv(1) this] obtain q where q: "sb_consume (cs_send_buf ?s) n = Some q" "sb_inv q" by blast
    then have "conn_inv (c\<lparr>cn_control_send := ?s\<lparr>cs_send_buf := q\<rparr>\<rparr>)"
      using inv by (intro step_control_send [OF assms(1)]) simp_all
    with q show ?thesis by (simp add: cs_consume_data_def)
  qed
  have stream: "returns (\<lambda>c'. conn_inv c' \<and> evolves c c') (map_option
        (\<lambda>s. remove_stream_if_done (c\<lparr>cn_streams := (cn_streams c)(i \<mapsto> s)\<rparr>) i) (consume_send_data s n))"
    if s: "cn_streams c i = Some s" for s
  proof -
    have inv: "stream_inv s" using conn_inv_stream [OF assms(1) s] by simp
    then have sb: "sb_inv (rs_send_buf s)" by (simp add: stream_inv_def)
    have "n \<le> length (sb_peek (rs_send_buf s))" using assms(2) s by (simp add: consume_ok_def get_send_data_def)
    from sbq.consume_Some [OF sb this] obtain q where q: "sb_consume (rs_send_buf s) n = Some q" "sb_inv q" by blast
    note fin = consume_fin(2) [OF q(1)]
    let ?s = "s\<lparr>rs_send_buf := q\<rparr>"
    have "no_worse s ?s"
      using inv q(2) fin
      by (simp add: no_worse_def stream_inv_def sending_def awaiting_def rs_inv_def rs_pending_def)
    from step_stream_no_worse [OF assms(1) s this] have c1: "conn_inv (c\<lparr>cn_streams := (cn_streams c)(i \<mapsto> ?s)\<rparr>)" .
    from step_remove_if_done [OF c1, of i] q(1) show ?thesis
      by (auto simp: consume_send_data_def intro: me.R_trans [OF evolves_stream [OF s] inner_evolves])
  qed
  show ?thesis
    using assms(1) control stream by (simp add: consume_stream_data_def split: option.split)
qed

text \<open>What is offered can be consumed: a critical stream is no request stream, and no two are the same.\<close>

lemma critical_no_stream:
  assumes "conn_inv c"
    "cs_stream_id (cn_control_send c) = Some i \<or> cn_encoder_stream_id c = Some i \<or> cn_decoder_stream_id c = Some i"
  shows "cn_streams c i = None"
proof (rule ccontr)
  assume "cn_streams c i \<noteq> None"
  then have "kind_is_bidirectional (kind_from_stream_id i)" using conn_inv_stream [OF assms(1)] by blast
  moreover have "kind_is_unidirectional (kind_from_stream_id i)"
    using assms by (auto simp: conn_inv_ex_def critical_inv_def)
  ultimately show False by (cases "kind_from_stream_id i") simp_all
qed

lemma get_data_offered:
  assumes "conn_inv c" "get_stream_data ord c i = Some (c', Some (data, fin))"
  shows "consume_ok c' i (length data)"
proof (cases "is_some_and (cn_streams c i) has_fin_pending")
  case True
  with assms(2) have "data = []" by (auto simp: get_stream_data_def Let_def split: bind_splits)
  then show ?thesis by (simp add: consume_ok_def)
next
  case False
  let ?a = "if cs_stream_id (cn_control_send c) = Some i then cs_get_data (cn_control_send c) else []"
  let ?b = "if cn_encoder_stream_id c = Some i then es_send_buffer (cn_encoder_stream c) else []"
  let ?d = "if cn_decoder_stream_id c = Some i then ds_send_buffer (cn_decoder_stream c) else []"
  let ?e = "case cn_streams c i of None \<Rightarrow> [] | Some s \<Rightarrow> fst (get_send_data s)"
  have c': "c = c'" and first: "first_nonempty [?a, ?b, ?d, ?e] = Some (data, fin)"
    using assms(2) [unfolded get_stream_data_def if_not_P [OF False] option.inject prod.inject] by blast+
  have data: "data \<in> {?a, ?b, ?d, ?e} - {[]}"
    using first unfolding first_nonempty_def by (simp split: list.splits if_splits)
  have dist: "cn_encoder_stream_id c \<noteq> Some i" "cn_decoder_stream_id c \<noteq> Some i"
    if "cs_stream_id (cn_control_send c) = Some i"
    using assms(1) that by (auto simp: conn_inv_ex_def critical_inv_def)
  show ?thesis
    using data dist critical_no_stream [OF assms(1), of i] unfolding c' [symmetric] consume_ok_def
    by (auto split: if_splits option.splits)
qed

lemma take_runs:
  assumes "conn_inv c"
  shows "runs c (take_stream_data ord c i)"
proof -
  obtain c1 r where g: "get_stream_data ord c i = Some (c1, r)" "conn_inv c1" "evolves c c1"
    using get_data_runs [OF assms, of ord i] by (auto simp: returns_def)
  have "returns (\<lambda>c'. conn_inv c' \<and> evolves c c') (consume_stream_data c1 i (length data))" if "r = Some (data, fin)" for data fin
    by (rule returns_mono [OF consume_runs [OF g(2) get_data_offered [OF assms]]])
      (use g that in \<open>auto intro: me.R_trans\<close>)
  with g show ?thesis
    by (auto simp: take_stream_data_def returns_map_option split: option.split)
qed

lemma initial_data_runs: "conn_inv c \<Longrightarrow> runs c (initial_data ord c i)"
  using take_runs [of c ord i] by (auto simp: initial_data_def returns_map_option elim!: returns_mono)

end
