(* ===== verification/Connection_Send.thy ===== *)
theory Connection_Send
  imports Connection_Dispatch
begin

text \<open>
  The operations of the application and of the transport that do not deliver data: set-up of the
  critical streams, requests, responses, bodies, GOAWAY, RESET\_STREAM and STOP\_SENDING.
\<close>

section \<open>Set-up of the critical streams\<close>

lemma own_uni_kind: "validate_self_initiated_uni_stream_id c i = Inr () \<Longrightarrow> kind_is_unidirectional (kind_from_stream_id i)"
  by (auto simp: validate_self_initiated_uni_stream_id_def kind_from_stream_id_def Let_def split: role.splits if_splits)

text \<open>The three identifiers are those of own unidirectional streams, and different.\<close>

definition own_ids :: "u64 option \<Rightarrow> u64 option \<Rightarrow> u64 option \<Rightarrow> bool" where
  "own_ids x y z \<longleftrightarrow>
    (\<forall>j. x = Some j \<or> y = Some j \<or> z = Some j \<longrightarrow> kind_is_unidirectional (kind_from_stream_id j)) \<and>
    (x \<noteq> None \<longrightarrow> x \<noteq> y \<and> x \<noteq> z) \<and> (y \<noteq> None \<longrightarrow> y \<noteq> z)"

lemma own_ids_lists:
  "own_ids x y z \<longleftrightarrow>
    (\<forall>j. j \<in> set (opt_list x @ opt_list y @ opt_list z) \<longrightarrow> kind_is_unidirectional (kind_from_stream_id j)) \<and>
    distinct (opt_list x @ opt_list y @ opt_list z)"
  by (cases x; cases y; cases z) (auto simp: own_ids_def)

lemma critical_inv_ids:
  "critical_inv c \<longleftrightarrow> sb_inv (cs_send_buf (cn_control_send c)) \<and> cs_send_state (cn_control_send c) = CsReady \<and>
    cr_inv (cn_control_recv c) \<and> (cn_peer_settings c \<noteq> None \<longrightarrow> cr_recv_state (cn_control_recv c) = CrReady) \<and>
    own_ids (cs_stream_id (cn_control_send c)) (cn_encoder_stream_id c) (cn_decoder_stream_id c) \<and>
    cn_next_stream_id c mod 4 = (case cn_role c of Client \<Rightarrow> 0 | Server \<Rightarrow> 1)"
  unfolding critical_inv_def own_ids_lists by blast

lemma step_critical_ids:
  assumes "conn_inv c" "own_ids x y z"
  shows "conn_inv (c\<lparr>cn_control_send := (cn_control_send c)\<lparr>cs_stream_id := x\<rparr>, cn_encoder_stream_id := y,
    cn_decoder_stream_id := z\<rparr>)"
  using assms
  by (simp add: conn_inv_ex_def streams_inv_def server_inv_def dispatch_inv_def critical_inv_ids wt_inv_def
      wt_sessions_inv_def wt_waiting_inv_def wt_quiet_def active_def)

lemma critical_ids:
  "conn_inv c \<Longrightarrow> own_ids (cs_stream_id (cn_control_send c)) (cn_encoder_stream_id c) (cn_decoder_stream_id c)"
  by (simp add: conn_inv_ex_def critical_inv_ids)

lemma set_control_runs:
  assumes "conn_inv c"
  shows "runs c (set_control_stream_id c i)"
proof -
  let ?c = "c\<lparr>cn_control_send := cs_set_stream_id (cn_control_send c) i\<rparr>"
  have "conn_inv ?c" if "validate_self_initiated_uni_stream_id c i = Inr ()"
    "cs_stream_id (cn_control_send c) = None" "cn_encoder_stream_id c \<noteq> Some i" "cn_decoder_stream_id c \<noteq> Some i"
    using step_critical_ids [OF assms, of "Some i" "cn_encoder_stream_id c" "cn_decoder_stream_id c"]
      critical_ids [OF assms] own_uni_kind [OF that(1)] that(2-4)
    by (auto simp: cs_set_stream_id_def own_ids_def)
  with assms show ?thesis by (simp add: set_control_stream_id_def returns_tryC split: sum.split)
qed

lemma set_encoder_runs:
  assumes "conn_inv c"
  shows "runs c (set_encoder_stream_id c i)"
proof -
  let ?c = "c\<lparr>cn_encoder_stream_id := Some i, cn_encoder_stream := es_write_stream_type (cn_encoder_stream c)\<rparr>"
  have c1: "conn_inv ?c \<and> evolves c ?c" if "validate_self_initiated_uni_stream_id c i = Inr ()"
    "cn_encoder_stream_id c = None" "cs_stream_id (cn_control_send c) \<noteq> Some i" "cn_decoder_stream_id c \<noteq> Some i"
    using step_critical_ids [OF assms, of "cs_stream_id (cn_control_send c)" "Some i" "cn_decoder_stream_id c"]
      critical_ids [OF assms] own_uni_kind [OF that(1)] that(2-4)
    by (auto simp: evolves_def progress_same own_ids_def)
  have "runs c (conn_encode_set_capacity (?c\<lparr>cn_deferred_encoder_set_capacity := None\<rparr>) n)"
    if "conn_inv ?c" "evolves c ?c" for n
    by (rule runs_then [OF me.R_trans [OF that(2) evolves_fields(21)] conn_encode_capacity_runs]) (use that in simp_all)
  with assms c1 show ?thesis
    by (simp add: set_encoder_stream_id_def returns_tryC Let_def split: sum.split option.split)
qed

lemma set_decoder_runs:
  assumes "conn_inv c"
  shows "runs c (set_decoder_stream_id c i)"
proof -
  let ?c = "\<lambda>s. c\<lparr>cn_decoder_stream_id := Some i, cn_decoder_stream := s, cn_deferred_section_acks := [],
      cn_deferred_stream_cancellations := []\<rparr>"
  have "conn_inv (?c s) \<and> evolves c (?c s)" if "validate_self_initiated_uni_stream_id c i = Inr ()"
    "cn_decoder_stream_id c = None" "cs_stream_id (cn_control_send c) \<noteq> Some i" "cn_encoder_stream_id c \<noteq> Some i" for s
    using step_critical_ids [OF assms, of "cs_stream_id (cn_control_send c)" "cn_encoder_stream_id c" "Some i"]
      critical_ids [OF assms] own_uni_kind [OF that(1)] that(2-4)
    by (auto simp: evolves_def progress_same own_ids_def)
  with assms show ?thesis
    by (simp add: set_decoder_stream_id_def returns_tryC Let_def split: sum.split)
qed

lemma init_runs:
  assumes "conn_inv c"
  shows "runs c (init_h3_streams ord c i j k)"
proof -
  have data: "runs c' (do {
        (c, a) \<leftarrow> initial_data ord c' i;
        (c, b) \<leftarrow> initial_data ord c j;
        (c, d) \<leftarrow> initial_data ord c k;
        Some (c, Inr (f a b d))
      })" if c': "conn_inv c'" for c' and f :: "bytes \<Rightarrow> bytes \<Rightarrow> bytes \<Rightarrow> h3_init_data"
  proof -
    obtain c1 a where 1: "initial_data ord c' i = Some (c1, a)" "conn_inv c1" "evolves c' c1"
      using initial_data_runs [OF c', of ord i] by (auto simp: returns_def)
    obtain c2 b where 2: "initial_data ord c1 j = Some (c2, b)" "conn_inv c2" "evolves c1 c2"
      using initial_data_runs [OF 1(2), of ord j] by (auto simp: returns_def)
    obtain c3 d where 3: "initial_data ord c2 k = Some (c3, d)" "conn_inv c3" "evolves c2 c3"
      using initial_data_runs [OF 2(2), of ord k] by (auto simp: returns_def)
    have "evolves c' c3" using me.R_trans [OF me.R_trans [OF 1(3) 2(3)] 3(3)] 2(2) 3(2) by blast
    with 1 2 3 show ?thesis by simp
  qed
  show ?thesis
    unfolding init_h3_streams_def
    by (intro runs_bindC set_control_runs set_encoder_runs set_decoder_runs data assms)
qed

section \<open>Sending on a stream\<close>

lemma can_send_close [simp]: "\<not> can_send (close_local s)" "close_local s = SsReset \<longleftrightarrow> s = SsReset"
  by (cases s; simp add: can_send_def)+

text \<open>What is pushed on a stream keeps its invariant; FIN closes the sending side.\<close>

definition pushed :: "request_stream \<Rightarrow> request_stream \<Rightarrow> bool" where
  "pushed r r' \<longleftrightarrow> stream_inv r' \<and> rs_recv_buf r' = rs_recv_buf r \<and> rs_recv_state r' = rs_recv_state r \<and>
    rs_qpack_blocked_header r' = rs_qpack_blocked_header r \<and> (sending r \<longrightarrow> sending r')"

lemma finish_pushed:
  assumes "stream_inv r" "can_send (rs_state r)" "sb_inv b" "\<not> sb_fin b" "\<not> sb_fin_sent b"
  shows "pushed r (rs_finish_sending (r\<lparr>rs_send_buf := b, rs_send_state := s\<rparr>) fin)"
  using assms
  by (auto simp: pushed_def stream_inv_def rs_finish_sending_def rs_inv_def rs_pending_def sending_def can_send_def)

lemma send_headers_runs:
  assumes "stream_inv r" "length e < 2 ^ 62"
  shows "returns (\<lambda>(r', res). pushed r r' \<and> (res = Inr () \<longrightarrow> can_send (rs_state r))) (send_encoded_headers r e fin b)"
proof -
  have same: "pushed r r" using assms(1) by (simp add: pushed_def)
  have wf: "wf_frame (HeadersFrame e)" "Frame.sendable (HeadersFrame e)"
    using assms(2) by (simp_all add: wf_frame_def Frame.sendable_def)
  show ?thesis
  proof (cases "can_send (rs_state r) \<and> headers_check r b = None \<and> \<not> (b \<and> fin)")
    case False
    with same show ?thesis by (auto simp: send_encoded_headers_def split: option.split)
  next
    case True
    obtain s where s: "headers_sent_state (rs_send_state r) b = Some s"
      using True by (cases "rs_send_state r") (auto simp: headers_sent_state_def headers_check_def)
    let ?b = "sb_push (rs_send_buf r) (frame_bytes (HeadersFrame e))"
    have "pushed r (rs_finish_sending (r\<lparr>rs_send_buf := ?b, rs_send_state := s\<rparr>) fin)"
      by (rule finish_pushed [OF assms(1)]) (use True assms(1) sbq.push_inv in \<open>auto simp: stream_inv_def\<close>)
    with True s same show ?thesis by (simp add: send_encoded_headers_def rs_push_frame_sends [OF wf])
  qed
qed

lemma send_body_runs:
  assumes "stream_inv r" "length data < 2 ^ 62"
  shows "returns (\<lambda>(r', _). pushed r r') (send_body r data fin)"
proof -
  have same: "pushed r r" using assms(1) by (simp add: pushed_def)
  have wf: "wf_frame (DataFrame data)" "Frame.sendable (DataFrame data)"
    using assms(2) by (simp_all add: wf_frame_def Frame.sendable_def)
  show ?thesis
  proof (cases "can_send (rs_state r) \<and> (rs_send_state r = RsHeadersSent \<or> rs_send_state r = RsSendingBody)")
    case False
    with same show ?thesis by (auto simp: send_body_def)
  next
    case True
    let ?b = "if data = [] then rs_send_buf r else sb_push (rs_send_buf r) (frame_bytes (DataFrame data))"
    let ?s = "if data = [] then rs_send_state r else RsSendingBody"
    have "pushed r (rs_finish_sending (r\<lparr>rs_send_buf := ?b, rs_send_state := ?s\<rparr>) fin)"
      by (rule finish_pushed [OF assms(1)]) (use True assms(1) sbq.push_inv in \<open>auto simp: stream_inv_def\<close>)
    with True show ?thesis by (auto simp: send_body_def rs_push_frame_sends [OF wf] split: if_splits)
  qed
qed

text \<open>The stream is stored; on a server the request came before.\<close>

lemma pushed_step:
  assumes "conn_inv c" "cn_streams c i = Some r" "pushed r r'" "cn_role c = Server \<Longrightarrow> \<not> awaiting r"
  shows "conn_inv (c\<lparr>cn_streams := (cn_streams c)(i \<mapsto> r')\<rparr>)"
proof (rule step_stream [OF assms(1)])
  note i = conn_inv_stream [OF assms(1,2)]
  show "i < 2 ^ 62" "kind_is_bidirectional (kind_from_stream_id i)" using i by simp_all
  show "stream_inv r'" using assms(3) by (simp add: pushed_def)
  show "cn_pending_bidi_dispatch c i = None"
    using assms(1,2) by (auto simp: conn_inv_ex_def dispatch_inv_def)
  have same: "awaiting r' = awaiting r" using assms(3) by (simp add: pushed_def awaiting_def)
  show "i \<notin> cn_closed_wt_sessions c" if "cn_role c = Server" "rs_qpack_blocked_header r' = Some (e, False)" for e
    using assms(4) that same by (auto simp: awaiting_def)
  show "\<not> sb_fin (rs_send_buf r')" if "cn_role c = Server" "awaiting r'"
    using assms(4) that same by blast
  show "\<not> awaiting r' \<and> sending r'" if "cn_role c = Server" "active c i"
    using assms that same by (auto simp: conn_inv_ex_def server_inv_def pushed_def)
qed

section \<open>Header sections\<close>

text \<open>The buffers that are tried, eight times the estimate at most, stay in the range of a frame.\<close>

definition encodable :: "header list \<Rightarrow> bool" where
  "encodable hs \<longleftrightarrow> 8 * (estimate_encoded_size hs + 64) < 2 ^ 62"

lemma encode_length:
  "qe_encode e buf hs n = (e', Some (out, len)) \<Longrightarrow> length (take len out) \<le> length buf"
  by (auto simp: qe_encode_def encode_with_dynamic_written writesD [OF writes_static_only] split: if_splits)

definition encoded :: "connection \<Rightarrow> connection \<Rightarrow> bool" where
  "encoded c c' \<longleftrightarrow> (\<exists>e. c' = c\<lparr>cn_qpack_encoder := e\<rparr> \<and>
    dt_entries (qe_table e) = dt_entries (qe_table (cn_qpack_encoder c)))"

lemma encoded_refl [simp]: "encoded c c"
  unfolding encoded_def by (rule exI [of _ "cn_qpack_encoder c"]) simp

lemma encoded_trans: "encoded c c1 \<Longrightarrow> encoded c1 c2 \<Longrightarrow> encoded c c2"
  by (auto simp: encoded_def)

lemma attempts_runs:
  assumes "2 ^ k * n < 2 ^ 63" "conn_inv c"
  shows "returns (\<lambda>(c', res). conn_inv c' \<and> encoded c c' \<and>
      (\<forall>buf. res = Inr buf \<longrightarrow> 2 * length buf \<le> 2 ^ k * n)) (encode_attempts k c n hs b)"
  using assms
proof (induction k arbitrary: c n)
  case 0
  then show ?case by simp
next
  case (Suc k)
  obtain e res where q: "qe_encode (cn_qpack_encoder c) (replicate n 0) hs b = (e, res)"
    by (cases "qe_encode (cn_qpack_encoder c) (replicate n 0) hs b") auto
  let ?c = "c\<lparr>cn_qpack_encoder := e\<rparr>"
  have e: "encoded c ?c" using empty_encode [OF q] by (auto simp: encoded_def)
  show ?case
  proof (cases res)
    case None
    have "checked_mul n 2 = Some m \<Longrightarrow> m = 2 * n" for m
      by (auto simp: checked_mul_def split: if_splits)
    moreover have "returns (\<lambda>(c', res). conn_inv c' \<and> encoded c c' \<and>
      (\<forall>buf. res = Inr buf \<longrightarrow> 2 * length buf \<le> 2 ^ Suc k * n)) (encode_attempts k ?c (2 * n) hs b)"
      by (rule returns_mono [OF Suc.IH]) (use Suc.prems e encoded_trans [OF e] in \<open>auto simp: ac_simps\<close>)
    ultimately show ?thesis
      using q None e Suc.prems(2) by (auto simp: Let_def split: option.split)
  next
    case (Some p)
    obtain out len where p: "p = (out, len)" by fastforce
    have "length (take len out) \<le> n" using encode_length [of _ "replicate n 0"] q Some p by fastforce
    also have "2 * n \<le> 2 ^ Suc k * n" by simp
    ultimately have "2 * length (take len out) \<le> 2 ^ Suc k * n" by linarith
    with q Some p e Suc.prems(2) show ?thesis by (auto simp: Let_def)
  qed
qed

lemma encode_runs:
  assumes "encodable hs" "conn_inv c"
  shows "returns (\<lambda>(c', res). conn_inv c' \<and> encoded c c' \<and>
      (\<forall>buf. res = Inr buf \<longrightarrow> length buf < 2 ^ 62)) (encode_qpack_headers c hs b)"
  unfolding encode_qpack_headers_def
  by (rule returns_mono [OF attempts_runs [OF _ assms(2)]]) (use assms(1) in \<open>auto simp: encodable_def\<close>)

section \<open>Requests\<close>

lemma request_stream_inv: "stream_inv (request_stream_for c i hs)"
  using new_stream_inv [of c i]
  by (simp add: request_stream_for_def Let_def stream_inv_def rs_inv_def rs_pending_def rs_set_wt_connect_def
      rs_set_is_head_request_def rs_set_connect_request_def)

lemma check_request_ok:
  assumes "check_request c hs = Inr ()"
  shows "cn_role c = Client" "is_webtransport_connect hs \<Longrightarrow> cn_peer_settings c \<noteq> None"
  using assms
  by (auto simp: check_request_def validate_wt_connect_request_def bindR_Inr_iff ok_or_Inr_iff split: if_splits)

text \<open>A client stores the new stream, and the session if the request is for one.\<close>

lemma step_request:
  assumes "conn_inv c" "cn_role c = Client" "cn_next_stream_id c < 2 ^ 62"
    "m = cn_streams c \<or> (\<exists>s. stream_inv s \<and> m = (cn_streams c)(cn_next_stream_id c \<mapsto> s))"
    "w = cn_wt_sessions c \<or> cn_peer_settings c \<noteq> None \<and> (\<exists>h. w = (cn_wt_sessions c)
      (cn_next_stream_id c \<mapsto> set_offered_protocols h wt_session_new))"
  defines "c' \<equiv> c\<lparr>cn_next_stream_id := cn_next_stream_id c + 4,
      cn_streams := m, cn_wt_sessions := w\<rparr>"
  shows "conn_inv c' \<and> evolves c c'"
proof -
  let ?i = "cn_next_stream_id c"
  have kind: "?i mod 4 = 0" "kind_is_bidirectional (kind_from_stream_id ?i)"
    using assms(1,2) by (simp_all add: conn_inv_ex_def critical_inv_def kind_from_stream_id_mod)
  have S: "wt_sessions_inv c" "wt_waiting_inv c" using conn_inv_wt [OF assms(1)] by (simp_all add: wt_inv_def)
  have dom: "dom (cn_wt_sessions c) \<union> cn_closed_wt_sessions c \<subseteq> {..<?i}"
    using S(1) assms(2) by (simp add: wt_sessions_inv_def)
  then have none: "cn_wt_sessions c ?i = None" "?i \<notin> cn_closed_wt_sessions c" by auto
  have w: "finite (dom w)" "dom w \<union> cn_closed_wt_sessions c \<subseteq> {..<?i + 4}"
    "\<forall>j r. w j = Some r \<longrightarrow> ws_inv r \<and> j < 2 ^ 62 \<and> j \<notin> cn_closed_wt_sessions c"
    "cn_peer_settings c = None \<longrightarrow> w = cn_wt_sessions c" "\<forall>j \<noteq> ?i. w j = cn_wt_sessions c j"
  proof -
    note old = S(1) [unfolded wt_sessions_inv_def]
    show "finite (dom w)" using assms(5) old by auto
    show "dom w \<union> cn_closed_wt_sessions c \<subseteq> {..<?i + 4}"
    proof -
      have "dom w \<union> cn_closed_wt_sessions c \<subseteq> insert ?i (dom (cn_wt_sessions c) \<union> cn_closed_wt_sessions c)"
        using assms(5) by auto
      also have "\<dots> \<subseteq> {..?i}" using dom by auto
      also have "\<dots> \<subseteq> {..<?i + 4}" by auto
      finally show ?thesis .
    qed
    show "\<forall>j r. w j = Some r \<longrightarrow> ws_inv r \<and> j < 2 ^ 62 \<and> j \<notin> cn_closed_wt_sessions c"
      using assms(3,5) old none(2) by (auto split: if_splits)
    show "cn_peer_settings c = None \<longrightarrow> w = cn_wt_sessions c" using assms(5) by blast
    show "\<forall>j \<noteq> ?i. w j = cn_wt_sessions c j" using assms(5) by auto
  qed
  have "wt_sessions_inv c'"
    using S(1) w(1-4) assms(2) by (auto simp: c'_def wt_sessions_inv_def wt_quiet_def)
  moreover have "wt_waiting_inv c'" using S(2) by (simp add: c'_def wt_waiting_inv_def)
  moreover have "streams_inv c'"
  proof -
    have "j < 2 ^ 62 \<and> kind_is_bidirectional (kind_from_stream_id j) \<and> stream_inv r" if j: "m j = Some r" for j r
      using assms(4)
    proof
      assume "m = cn_streams c"
      with j conn_inv_stream [OF assms(1)] show ?thesis by blast
    next
      assume "\<exists>s. stream_inv s \<and> m = (cn_streams c)(?i \<mapsto> s)"
      with j assms(3) kind(2) conn_inv_stream [OF assms(1), of j r] show ?thesis
        by (auto simp del: kind_is_bidirectional.simps split: if_splits)
    qed
    then show ?thesis by (auto simp: streams_inv_def c'_def simp del: kind_is_bidirectional.simps)
  qed
  moreover have "server_inv {} c'" using assms(2) by (simp add: server_inv_def c'_def)
  moreover have "dispatch_inv c'"
    using assms(1,2) by (auto simp: c'_def conn_inv_ex_def dispatch_inv_def)
  moreover have "critical_inv c'"
    using assms(1,2) kind(1) by (simp add: c'_def conn_inv_ex_def critical_inv_def mod_add_eq [symmetric, of _ 4])
  moreover have "progress c c'"
    unfolding progress_def
  proof (intro conjI allI impI)
    fix j r assume r: "cn_wt_sessions c j = Some r"
    then have "w j = Some r" using none(1) w(5) by (cases "j = ?i") auto
    then show "case cn_wt_sessions c' j of None \<Rightarrow> j \<in> cn_closed_wt_sessions c'
        | Some s' \<Rightarrow> stage (ws_state r) \<le> stage (ws_state s')" by (simp add: c'_def)
  qed (simp add: c'_def)
  moreover have "refuses_above c c'" using assms(2) by (simp add: refuses_above_def)
  ultimately show ?thesis by (simp add: conn_inv_ex_def wt_inv_def evolves_def) (simp add: c'_def)
qed

lemma request_runs:
  assumes "conn_inv c" "encodable hs" "cn_next_stream_id c < 2 ^ 62"
  shows "runs c (cn_send_request c hs fin)"
proof (cases "check_request c hs")
  case (Inl e)
  with assms(1) show ?thesis by (simp add: cn_send_request_def tryC_def)
next
  case (Inr u)
  then have ok: "check_request c hs = Inr ()" by simp
  note chk = check_request_ok [OF ok]
  obtain c1 res where e: "encode_qpack_headers c hs (qe_blocked_streams_count (cn_qpack_encoder c)) = Some (c1, res)"
    "conn_inv c1" "encoded c c1" "\<And>buf. res = Inr buf \<Longrightarrow> length buf < 2 ^ 62"
    using encode_runs [OF assms(2,1), of "qe_blocked_streams_count (cn_qpack_encoder c)"] by (auto simp: returns_def)
  obtain q where q: "c1 = c\<lparr>cn_qpack_encoder := q\<rparr>"
    "dt_entries (qe_table q) = dt_entries (qe_table (cn_qpack_encoder c))"
    using e(3) by (auto simp: encoded_def)
  have e1: "evolves c c1" using q by simp
  show ?thesis
  proof (cases res)
    case (Inl x)
    with ok e e1 show ?thesis by (simp add: cn_send_request_def tryC_def bindC_def)
  next
    case (Inr buf)
    let ?i = "cn_next_stream_id c"
    define n where "n = c1\<lparr>cn_next_stream_id := ?i + 4\<rparr>"
    let ?s = "request_stream_for n ?i hs"
    have i: "checked_add ?i 4 = Some (?i + 4)" using assms(3) by (simp add: checked_add_def)
    obtain s r where sent: "send_encoded_headers ?s buf fin False = Some (s, r)" "pushed ?s s"
      using send_headers_runs [OF request_stream_inv e(4) [OF Inr], of n ?i hs fin False] by (fastforce simp: returns_def)
    have c1: "cn_role c1 = Client" "cn_next_stream_id c1 = ?i" "cn_peer_settings c1 = cn_peer_settings c"
      "cn_streams c1 = cn_streams c" "cn_wt_sessions c1 = cn_wt_sessions c"
      using q chk(1) by simp_all
    have "conn_inv n \<and> evolves c1 n"
      using step_request [OF e(2) c1(1), of "cn_streams c1" "cn_wt_sessions c1"] assms(3) c1(2) by (simp add: n_def)
    then have n: "conn_inv n" "evolves c n" using me.R_trans [OF e1] by blast+
    have stored: "conn_inv (n\<lparr>cn_qpack_encoder := x, cn_streams := (cn_streams n)(?i \<mapsto> s), cn_wt_sessions := w\<rparr>) \<and>
        evolves c (n\<lparr>cn_qpack_encoder := x, cn_streams := (cn_streams n)(?i \<mapsto> s), cn_wt_sessions := w\<rparr>)"
      if w: "w = cn_wt_sessions c \<or> is_webtransport_connect hs \<and>
        w = (cn_wt_sessions c)(?i \<mapsto> set_offered_protocols hs wt_session_new)"
        and x: "dt_entries (qe_table x) = dt_entries (qe_table (cn_qpack_encoder n))" for x w
    proof -
      let ?c = "c1\<lparr>cn_qpack_encoder := x\<rparr>"
      let ?d = "n\<lparr>cn_qpack_encoder := x, cn_streams := (cn_streams n)(?i \<mapsto> s), cn_wt_sessions := w\<rparr>"
      have eq: "?d = ?c\<lparr>cn_next_stream_id := cn_next_stream_id ?c + 4,
          cn_streams := (cn_streams c)(?i \<mapsto> s), cn_wt_sessions := w\<rparr>"
        using c1 by (intro connection.equality) (simp_all add: n_def)
      have "conn_inv ?d \<and> evolves ?c ?d"
        unfolding eq
        by (rule step_request) (use e(2) c1 assms(3) sent(2) chk(2) w in \<open>auto simp: pushed_def\<close>)
      moreover have "evolves c ?c"
        by (rule me.R_trans [OF e1 evolves_encoder]) (use e(2) x in \<open>simp_all add: n_def\<close>)
      ultimately show ?thesis using me.R_trans by blast
    qed
    have ws: "cn_wt_sessions n = cn_wt_sessions c" using c1(5) by (simp add: n_def)
    have "n\<lparr>cn_qpack_encoder := x, cn_streams := m, cn_wt_sessions := cn_wt_sessions c\<rparr> =
        n\<lparr>cn_qpack_encoder := x, cn_streams := m\<rparr>" for x m
      using ws by (intro connection.equality) simp_all
    with stored [of "cn_wt_sessions c"] have stored1:
      "conn_inv (n\<lparr>cn_qpack_encoder := x, cn_streams := (cn_streams n)(?i \<mapsto> s)\<rparr>) \<and>
        evolves c (n\<lparr>cn_qpack_encoder := x, cn_streams := (cn_streams n)(?i \<mapsto> s)\<rparr>)"
      if "dt_entries (qe_table x) = dt_entries (qe_table (cn_qpack_encoder n))" for x
      using that by simp
    show ?thesis
      using n stored stored1 sent(1)
      by (simp add: cn_send_request_def ok e(1) Inr tryC_def bindC_def i c1(2) Let_def n_def [symmetric] ws
          split: sum.split)
  qed
qed

section \<open>Responses and bodies\<close>

text \<open>The application answers a request that it was given.\<close>

definition answerable :: "connection \<Rightarrow> u64 \<Rightarrow> bool" where
  "answerable c i \<longleftrightarrow> (cn_role c = Server \<longrightarrow> (\<forall>r. cn_streams c i = Some r \<longrightarrow> \<not> awaiting r))"

lemma body_runs:
  assumes "conn_inv c" "answerable c i" "length data < 2 ^ 62"
  shows "runs c (cn_send_body c i data fin)"
  unfolding cn_send_body_def
proof (rule remember_runs [OF assms(1)])
  show "runs c (case cn_streams c i of None \<Rightarrow> Some (c, Inl (StreamNotFound i))
      | Some stream \<Rightarrow> map_option (\<lambda>(stream, r). (c\<lparr>cn_streams := (cn_streams c)(i \<mapsto> stream)\<rparr>, r))
             (send_body stream data fin))"
  proof (cases "cn_streams c i")
    case (Some r)
    obtain r' x where s: "send_body r data fin = Some (r', x)" "pushed r r'"
      using send_body_runs [of r data fin] conn_inv_stream [OF assms(1) Some] assms(3) by (auto simp: returns_def)
    have "conn_inv (c\<lparr>cn_streams := (cn_streams c)(i \<mapsto> r')\<rparr>)"
      by (rule pushed_step [OF assms(1) Some s(2)]) (use assms(2) Some in \<open>simp add: answerable_def\<close>)
    with Some s(1) show ?thesis by simp
  qed (use assms(1) in simp)
qed

lemma response_runs:
  assumes "conn_inv c" "answerable c i" "encodable hs"
  shows "runs c (cn_send_response ord c i hs fin)"
proof (cases "check_response c i hs")
  case (Inl e)
  with assms(1) show ?thesis by (simp add: cn_send_response_def tryC_def)
next
  case (Inr u)
  then have ok: "check_response c i hs = Inr ()" by simp
  then have server: "cn_role c = Server" by (auto simp: check_response_def bindR_Inr_iff split: if_splits)
  obtain c1 res where e: "encode_qpack_headers c hs (qe_blocked_streams_count (cn_qpack_encoder c)) = Some (c1, res)"
    "conn_inv c1" "encoded c c1" "\<And>buf. res = Inr buf \<Longrightarrow> length buf < 2 ^ 62"
    using encode_runs [OF assms(3,1), of "qe_blocked_streams_count (cn_qpack_encoder c)"] by (auto simp: returns_def)
  have e1: "evolves c c1" "cn_streams c1 = cn_streams c" "cn_role c1 = Server"
    using e(3) server by (auto simp: encoded_def)
  show ?thesis
  proof (cases "\<exists>buf r. res = Inr buf \<and> cn_streams c i = Some r")
    case False
    with ok e(1,2) e1 show ?thesis
      by (cases res; cases "cn_streams c i") (auto simp: cn_send_response_def tryC_def bindC_def)
  next
    case True
    then obtain buf r where buf: "res = Inr buf" and r: "cn_streams c i = Some r" by blast
    have na: "\<not> awaiting r" using assms(2) server r by (simp add: answerable_def)
    obtain r' x where s: "send_encoded_headers r buf fin (is_interim_response hs) = Some (r', x)" "pushed r r'"
      "x = Inr () \<Longrightarrow> can_send (rs_state r)"
      using send_headers_runs [OF _ e(4) [OF buf], of r fin "is_interim_response hs"] conn_inv_stream [OF assms(1) r]
      by (fastforce simp: returns_def)
    let ?c2 = "c1\<lparr>cn_streams := (cn_streams c1)(i \<mapsto> r')\<rparr>"
    have c2: "conn_inv ?c2" by (rule pushed_step [OF e(2) _ s(2)]) (use r e1 na in simp_all)
    have e2: "evolves c ?c2" by (rule me.R_trans [OF e1(1) evolves_stream c2]) (use r e1(2) in simp)
    have na2: "\<not> awaiting r'" using na s(2) by (simp add: pushed_def awaiting_def)
    have main: "runs c (let c = ?c2;
                 c = (if \<not> is_interim_response hs \<and> \<not> is_success_status hs \<and> session_pending c i then
                        close_session_entry c i else c) in
             bindC (establish_wt_session_server ord c i hs) (\<lambda>c _.
             let ric = qe_last_ric (cn_qpack_encoder c) in
             Some (c\<lparr>cn_qpack_encoder := qe_track_section (cn_qpack_encoder c) i ric\<rparr>, Inr ())))"
      if "x = Inr ()"
    proof -
      have "can_send (rs_state r)" by (rule s(3) [OF that])
      then have "sending r" by (auto simp: sending_def can_send_def)
      then have live: "sending r'" using s(2) by (simp add: pushed_def)
      let ?b = "\<not> is_interim_response hs \<and> \<not> is_success_status hs \<and> session_pending ?c2 i"
      let ?c3 = "if ?b then close_session_entry ?c2 i else ?c2"
      have "wt_step {i} {} ?c2 ?c3"
        using close_entry_steps [OF conn_inv_wt [OF c2], of i] wt_step_refl [OF conn_inv_wt [OF c2]]
        by (auto simp: session_pending_def is_some_and_def split: option.splits)
      note w3 = this
      have c3: "conn_inv ?c3 \<and> inner ?c2 ?c3"
        by (rule conn_wt_step [OF c2 w3]) (use na2 in \<open>auto simp: awaiting_def\<close>)
      have at: "cn_streams ?c3 i = Some r'" using wt_core_same(7) [OF wt_step_core [OF w3]] by simp
      have "returns (\<lambda>(c', _). conn_inv c' \<and> inner ?c3 c') (establish_wt_session_server ord ?c3 i hs)"
      proof (rule returns_mono [OF establish_server_steps [OF conn_inv_wt]])
        show "conn_inv ?c3" using c3 by blast
        show "case y of (c', _) \<Rightarrow> conn_inv c' \<and> inner ?c3 c'" if "case y of (c', _) \<Rightarrow> wt_step {i} {i} ?c3 c'" for y
        proof -
          obtain c4 z where y: "y = (c4, z)" by fastforce
          have "conn_inv c4 \<and> inner ?c3 c4"
            by (rule conn_wt_step [where X = "{i}" and Y = "{i}"])
              (use c3 that y at na2 live in \<open>auto simp: awaiting_def\<close>)
          then show ?thesis by (simp add: y)
        qed
      qed
      from keeps_runs [OF this]
      have "runs ?c3 (bindC (establish_wt_session_server ord ?c3 i hs) (\<lambda>c _.
             let ric = qe_last_ric (cn_qpack_encoder c) in
             Some (c\<lparr>cn_qpack_encoder := qe_track_section (cn_qpack_encoder c) i ric\<rparr>, Inr ())))"
        by (rule runs_bindC) (simp add: Let_def)
      from runs_then [OF me.R_trans [OF e2 inner_evolves] this] c3 show ?thesis by (simp only: Let_def)
    qed
    show ?thesis
    proof (cases x)
      case (Inl er)
      with ok e(1) buf r e1(2) s(1) c2 e2 show ?thesis
        by (simp add: cn_send_response_def tryC_def bindC_def [of "Some _"] Let_def)
    next
      case (Inr u)
      with main ok e(1) buf r e1(2) s(1) show ?thesis
        by (simp add: cn_send_response_def tryC_def bindC_def [of "Some _"] Let_def)
    qed
  qed
qed

section \<open>GOAWAY\<close>

lemma send_goaway_runs:
  assumes "conn_inv c" "varint_ok g"
  shows "runs c (cn_send_goaway c g)"
  unfolding cn_send_goaway_def
proof (rule remember_runs [OF assms(1)])
  let ?s = "cn_control_send c"
  have inv: "sb_inv (cs_send_buf ?s)" "cs_send_state ?s = CsReady"
    using assms(1) by (simp_all add: conn_inv_ex_def critical_inv_def)
  let ?t = "?s\<lparr>cs_send_buf := sb_push (cs_send_buf ?s) (frame_bytes (GoawayFrame g))\<rparr>"
  have "conn_inv (c\<lparr>cn_control_send := ?t\<rparr>)"
    using inv sbq.push_inv by (intro step_control_send [OF assms(1)]) simp_all
  then have "conn_inv (c\<lparr>cn_control_send := ?t, cn_last_sent_goaway_id := Some g\<rparr>)" by simp
  moreover have "evolves c (c\<lparr>cn_control_send := ?t, cn_last_sent_goaway_id := Some g\<rparr>)"
    if "\<not> is_some_and (cn_last_sent_goaway_id c) (\<lambda>last_id. vget last_id < vget g)"
    using that by (auto simp: evolves_def lowered_def progress_same is_some_and_def split: option.splits)
  ultimately show "runs c
      (if (case cn_role c of Server \<Rightarrow> vget g mod 4 \<noteq> 0 | Client \<Rightarrow> vget g \<noteq> 0) then Some (c, conn_err IdError)
       else if is_some_and (cn_last_sent_goaway_id c) (\<lambda>last_id. vget last_id < vget g) then Some (c, conn_err IdError)
       else (case cs_send_goaway ?s g of None \<Rightarrow> None
          | Some (s, Inl e) \<Rightarrow> Some (c\<lparr>cn_control_send := s\<rparr>, Inl e)
          | Some (s, Inr _) \<Rightarrow> Some (c\<lparr>cn_control_send := s, cn_last_sent_goaway_id := Some g\<rparr>, Inr ())))"
    using assms(1) cs_send_goaway_sends [OF assms(2) inv(2)] by simp
qed

section \<open>RESET\_STREAM and STOP\_SENDING\<close>

lemma abort_keeps:
  fixes c :: connection and i :: u64 and f :: "request_stream \<Rightarrow> request_stream"
  assumes "conn_inv c" "\<And>r. stream_inv r \<Longrightarrow> stream_inv (f r)"
    "\<And>r. rs_recv_state (f r) = rs_recv_state r" "\<And>r. rs_qpack_blocked_header (f r) = rs_qpack_blocked_header r"
    "\<And>r. sb_fin (rs_send_buf (f r)) \<Longrightarrow> sb_fin (rs_send_buf r)"
  defines "c' \<equiv> send_stream_cancellation_if_needed (clear_qpack_blocked (update_stream c i f) i) i"
  shows "conn_inv_ex {i} c' \<and> evolves c c' \<and> (\<forall>r. cn_streams c' i = Some r \<longrightarrow> rs_qpack_blocked_header r = None)"
proof (cases "cn_streams c i")
  case None
  have "conn_inv_ex {i} c" by (rule conn_inv_weaken [OF assms(1)]) simp
  with None show ?thesis
    by (simp add: c'_def update_stream_def clear_qpack_blocked_def inner_evolves)
next
  case (Some r)
  note i = conn_inv_stream [OF assms(1) Some]
  let ?r = "rs_set_qpack_blocked (f r) False 0 None"
  let ?c = "c\<lparr>cn_streams := (cn_streams c)(i \<mapsto> ?r)\<rparr>"
  have c1: "conn_inv_ex {i} ?c"
  proof (rule step_stream)
    show "conn_inv_ex {i} c" by (rule conn_inv_weaken [OF assms(1)]) simp
    show "i < 2 ^ 62" "kind_is_bidirectional (kind_from_stream_id i)" using i by simp_all
    show "stream_inv ?r" using assms(2) i by (simp add: stream_inv_def rs_set_qpack_blocked_def rs_inv_def rs_pending_def)
    show "cn_pending_bidi_dispatch c i = None"
      using assms(1) Some by (auto simp: conn_inv_ex_def dispatch_inv_def)
    show "\<not> sb_fin (rs_send_buf ?r)" if "cn_role c = Server" "awaiting ?r"
      using assms(1,3,5) Some that
      by (auto simp: conn_inv_ex_def server_inv_def awaiting_def rs_set_qpack_blocked_def)
  qed (simp_all add: rs_set_qpack_blocked_def)
  have cl: "\<exists>b. clear_qpack_blocked (update_stream c i f) i = ?c\<lparr>cn_blocked_by_ricnt := b\<rparr>"
    using Some
    by (cases "rs_qpack_blocked (f r)")
      (auto simp: clear_qpack_blocked_def update_stream_def intro!: exI connection.equality)
  then obtain b where b: "clear_qpack_blocked (update_stream c i f) i = ?c\<lparr>cn_blocked_by_ricnt := b\<rparr>" by blast
  have "evolves c (?c\<lparr>cn_blocked_by_ricnt := b\<rparr>)" using Some by (auto simp: evolves_def refuses_above_def progress_same)
  moreover have "inner (?c\<lparr>cn_blocked_by_ricnt := b\<rparr>) c'" by (simp add: c'_def b)
  moreover have "conn_inv_ex {i} c'" using c1 by (simp add: c'_def b)
  ultimately show ?thesis
    using evolves_trans [OF _ inner_evolves] conn_inv_wt by (auto simp: c'_def b rs_set_qpack_blocked_def)
qed

text \<open>After WebTransport has dealt with the stream, no session is left that needs it.\<close>

lemma aborted_runs:
  assumes "conn_inv_ex {i} c" "\<And>r. cn_streams c i = Some r \<Longrightarrow> rs_qpack_blocked_header r = None"
    "steps {i} {} c m" "\<And>c' b. m = Some (c', b) \<Longrightarrow> \<not> active c' i"
  shows "runs c (finish_reset c i e m)"
proof -
  obtain c1 b where m: "m = Some (c1, b)" "wt_step {i} {} c c1" using assms(3) by (auto simp: returns_def)
  have 1: "conn_inv_ex {i} c1 \<and> inner c c1"
    by (rule conn_wt_step [OF assms(1) m(2)]) (use assms(2) in auto)
  have c1: "conn_inv c1" by (rule conn_inv_except [OF _ assms(4) [OF m(1)]]) (use 1 in simp)
  let ?c = "if b then c1 else push_event c1 e"
  have c2: "conn_inv ?c" "inner c1 ?c" using c1 by simp_all
  have "conn_inv (remove_stream_if_done ?c i) \<and> inner ?c (remove_stream_if_done ?c i)"
    by (rule step_remove_if_done [OF c2(1)])
  then have "conn_inv (remove_stream_if_done ?c i)" "inner c (remove_stream_if_done ?c i)"
    using inner_trans [OF _ inner_trans [OF c2(2)]] 1 conn_inv_wt by blast+
  with m(1) show ?thesis by (simp add: finish_reset_def inner_evolves)
qed

lemma state_reset_facts [simp]: "\<not> can_send (state_reset s)"
  by (cases s) (simp_all add: can_send_def state_reset_def)

lemma reset_runs:
  assumes "conn_inv c"
  shows "runs c (stream_reset ord c i e n)"
  unfolding stream_reset_def
proof (rule remember_runs [OF assms])
  let ?f = "\<lambda>s. s\<lparr>rs_state := state_reset (rs_state s)\<rparr>"
  let ?d = "c\<lparr>cn_pending_bidi_dispatch := (cn_pending_bidi_dispatch c)(i := None)\<rparr>"
  let ?u = "update_stream c i ?f"
  let ?c = "send_stream_cancellation_if_needed (clear_qpack_blocked (update_stream ?d i ?f) i) i"
  have u: "?u\<lparr>cn_pending_bidi_dispatch := (cn_pending_bidi_dispatch ?u)(i := None)\<rparr> = update_stream ?d i ?f"
    by (cases "cn_streams c i") (simp_all add: update_stream_def)
  have "conn_inv ?d" by (rule step_dispatch(1) [OF assms])
  then have c1: "conn_inv_ex {i} ?c \<and> evolves ?d ?c \<and> (\<forall>r. cn_streams ?c i = Some r \<longrightarrow> rs_qpack_blocked_header r = None)"
    by (rule abort_keeps) (auto simp: stream_inv_def rs_inv_def rs_pending_def)
  then have wt: "wt_inv ?c" using conn_inv_wt by blast
  have ev: "evolves c ?c" using evolves_trans [OF evolves_fields(18) _ wt] c1 by blast
  have "runs ?c (finish_reset ?c i (StreamResetReceived i e) (handle_wt_stream_reset ord ?c i e n))"
    by (rule aborted_runs [OF _ _ reset_steps [OF wt] reset_inactive [OF wt]]) (use c1 in blast)+
  from runs_then [OF ev this]
  show "runs c
      (if cr_stream_id (cn_control_recv c) = Some i \<or> cn_peer_encoder_stream_id c = Some i \<or>
         cn_peer_decoder_stream_id c = Some i then Some (c, conn_err ClosedCriticalStream)
       else
         let c = update_stream c i ?f;
             c = c\<lparr>cn_pending_bidi_dispatch := (cn_pending_bidi_dispatch c)(i := None)\<rparr>;
             c = clear_qpack_blocked c i;
             c = send_stream_cancellation_if_needed c i in
         finish_reset c i (StreamResetReceived i e) (handle_wt_stream_reset ord c i e n))"
    using assms by (simp only: Let_def u) simp
qed

lemma stop_sending_runs:
  assumes "conn_inv c"
  shows "runs c (stop_sending ord c i e)"
  unfolding stop_sending_def
proof (rule remember_runs [OF assms])
  let ?f = "\<lambda>s. discard_send_data (s\<lparr>rs_state := close_local (rs_state s)\<rparr>)"
  let ?c = "send_stream_cancellation_if_needed (clear_qpack_blocked (update_stream c i ?f) i) i"
  have c1: "conn_inv_ex {i} ?c \<and> evolves c ?c \<and> (\<forall>r. cn_streams ?c i = Some r \<longrightarrow> rs_qpack_blocked_header r = None)"
    using assms
    by (rule abort_keeps)
      (auto simp: stream_inv_def rs_inv_def rs_pending_def discard_send_data_def sb_discard_def sb_inv_def)
  then have wt: "wt_inv ?c" using conn_inv_wt by blast
  have "runs ?c (finish_reset ?c i (StopSendingReceived i e) (handle_wt_stop_sending ord ?c i e))"
    by (rule aborted_runs [OF _ _ stop_sending_steps [OF wt] stop_inactive [OF wt]]) (use c1 in blast)+
  with c1 have "runs c (finish_reset ?c i (StopSendingReceived i e) (handle_wt_stop_sending ord ?c i e))"
    using runs_then by blast
  then show "runs c
      (if cs_stream_id (cn_control_send c) = Some i \<or> cn_encoder_stream_id c = Some i \<or>
         cn_decoder_stream_id c = Some i then Some (c, conn_err ClosedCriticalStream)
       else
         let c = update_stream c i ?f;
             c = clear_qpack_blocked c i;
             c = send_stream_cancellation_if_needed c i in
         finish_reset c i (StopSendingReceived i e) (handle_wt_stop_sending ord c i e))"
    using assms by (simp only: Let_def) simp
qed

end
