(* ===== verification/Connection_Safety.thy ===== *)
theory Connection_Safety
  imports Connection_Send
begin

text \<open>
  A connection as a state machine: the calls an application and a transport can make, the states that
  are reached from a new connection, and what holds in all of them.
\<close>

section \<open>Calls\<close>

datatype conn_op =
    InitStreams u64 u64 u64
  | SetControlId u64
  | SetEncoderId u64
  | SetDecoderId u64
  | SetMaxBody u64
  | SetTransportVerified bool bool
  | SetPreviousSettings wt_settings
  | Feed u64 bytes bool
  | FeedDatagram bytes
  | Reset u64 u64 u64
  | StopSend u64 u64
  | Poll
  | DrainEvents
  | GetData u64
  | ConsumeData u64 usize
  | TakeData u64
  | SendRequest "header list" bool
  | SendResponse u64 "header list" bool
  | SendBodyData u64 bytes bool
  | SendGoaway varint
  | RegisterLocal u64 u64
  | DataConsumed u64 u64
  | TakeCapsules u64

fun conn_apply :: "(u64 set \<Rightarrow> u64 list) \<Rightarrow> conn_op \<Rightarrow> connection \<Rightarrow> connection option" where
  "conn_apply ord (InitStreams i j k) c = map_option fst (init_h3_streams ord c i j k)"
| "conn_apply ord (SetControlId i) c = map_option fst (set_control_stream_id c i)"
| "conn_apply ord (SetEncoderId i) c = map_option fst (set_encoder_stream_id c i)"
| "conn_apply ord (SetDecoderId i) c = map_option fst (set_decoder_stream_id c i)"
| "conn_apply ord (SetMaxBody n) c = Some (set_max_received_body_size c n)"
| "conn_apply ord (SetTransportVerified a b) c = map_option fst (set_webtransport_transport_verified c a b)"
| "conn_apply ord (SetPreviousSettings s) c = Some (set_previous_wt_settings c s)"
| "conn_apply ord (Feed i data fin) c = map_option fst (feed_stream ord c i data fin)"
| "conn_apply ord (FeedDatagram data) c = map_option fst (feed_datagram c data)"
| "conn_apply ord (Reset i e n) c = map_option fst (stream_reset ord c i e n)"
| "conn_apply ord (StopSend i e) c = map_option fst (stop_sending ord c i e)"
| "conn_apply ord Poll c = map_option fst (poll_event ord c)"
| "conn_apply ord DrainEvents c = map_option fst (drain_events ord c)"
| "conn_apply ord (GetData i) c = map_option fst (get_stream_data ord c i)"
| "conn_apply ord (ConsumeData i n) c = consume_stream_data c i n"
| "conn_apply ord (TakeData i) c = map_option fst (take_stream_data ord c i)"
| "conn_apply ord (SendRequest hs fin) c = map_option fst (cn_send_request c hs fin)"
| "conn_apply ord (SendResponse i hs fin) c = map_option fst (cn_send_response ord c i hs fin)"
| "conn_apply ord (SendBodyData i data fin) c = map_option fst (cn_send_body c i data fin)"
| "conn_apply ord (SendGoaway g) c = map_option fst (cn_send_goaway c g)"
| "conn_apply ord (RegisterLocal j i) c = map_option fst (register_local_wt_stream c j i)"
| "conn_apply ord (DataConsumed j n) c = Some (wt_data_consumed c j n)"
| "conn_apply ord (TakeCapsules j) c = Some (fst (take_wt_pending_capsules c j))"

text \<open>
  What the callers owe: QUIC delivers nothing behind FIN and has identifiers below \<open>2 ^ 62\<close>; a response
  or its body goes to a request that was delivered; no more is consumed than was offered; sections and
  bodies fit the length of a frame.
\<close>

fun conn_op_ok :: "conn_op \<Rightarrow> connection \<Rightarrow> bool" where
  "conn_op_ok (Feed i data fin) c \<longleftrightarrow> feed_ok c i data"
| "conn_op_ok (ConsumeData i n) c \<longleftrightarrow> consume_ok c i n"
| "conn_op_ok (SendRequest hs fin) c \<longleftrightarrow> encodable hs \<and> cn_next_stream_id c < 2 ^ 62"
| "conn_op_ok (SendResponse i hs fin) c \<longleftrightarrow> encodable hs \<and> answerable c i"
| "conn_op_ok (SendBodyData i data fin) c \<longleftrightarrow> length data < 2 ^ 62 \<and> answerable c i"
| "conn_op_ok (SendGoaway g) c \<longleftrightarrow> varint_ok g"
| "conn_op_ok _ c \<longleftrightarrow> True"

lemma step_max_body:
  assumes "conn_inv c"
  shows "conn_inv (set_max_received_body_size c n) \<and> evolves c (set_max_received_body_size c n)"
proof -
  let ?m = "\<lambda>i. map_option (\<lambda>s. rs_set_max_received_body_size s n) (cn_streams c i)"
  have f: "awaiting (rs_set_max_received_body_size r n) = awaiting r"
    "sending (rs_set_max_received_body_size r n) = sending r"
    "rs_qpack_blocked_header (rs_set_max_received_body_size r n) = rs_qpack_blocked_header r"
    "rs_send_buf (rs_set_max_received_body_size r n) = rs_send_buf r"
    "stream_inv (rs_set_max_received_body_size r n) = stream_inv r" for r
    by (simp_all add: rs_set_max_received_body_size_def awaiting_def sending_def stream_inv_def rs_inv_def rs_pending_def)
  note inv = assms [unfolded conn_inv_ex_def]
  have "streams_inv (c\<lparr>cn_streams := ?m\<rparr>)" using inv f(5) by (auto simp: streams_inv_def)
  moreover have "server_inv {} (c\<lparr>cn_streams := ?m\<rparr>)"
  proof -
    have "\<exists>r'. ?m i = Some r' \<and> \<not> awaiting r' \<and> sending r'"
      if live: "cn_role c = Server" "active c i" for i
    proof -
      obtain r where "cn_streams c i = Some r" "\<not> awaiting r" "sending r"
        using inv live by (auto simp: server_inv_def)
      with f(1,2) show ?thesis by simp
    qed
    moreover have "\<not> sb_fin (rs_send_buf r')" if "cn_role c = Server" "?m i = Some r'" "awaiting r'" for i r'
      using inv that f(1,4) by (auto simp: server_inv_def)
    moreover have "i \<notin> cn_closed_wt_sessions c"
      if "cn_role c = Server" "?m i = Some r'" "rs_qpack_blocked_header r' = Some (e, False)" for i r' e
      using inv that f(3) by (auto simp: server_inv_def)
    ultimately show ?thesis by (simp add: server_inv_def)
  qed
  moreover have "dispatch_inv (c\<lparr>cn_streams := ?m\<rparr>)" "critical_inv (c\<lparr>cn_streams := ?m\<rparr>)"
    using inv by (auto simp: dispatch_inv_def critical_inv_def)
  ultimately have "conn_inv (c\<lparr>cn_streams := ?m\<rparr>)" using inv by (simp add: conn_inv_ex_def)
  then have "conn_inv (c\<lparr>cn_streams := ?m, cn_limits := (cn_limits c)\<lparr>lim_max_received_body_size := n\<rparr>\<rparr>)" by simp
  moreover have "c\<lparr>cn_streams := ?m, cn_limits := (cn_limits c)\<lparr>lim_max_received_body_size := n\<rparr>\<rparr> =
      set_max_received_body_size c n"
    by (simp add: set_max_received_body_size_def)
  ultimately show ?thesis by (simp add: set_max_received_body_size_def evolves_def progress_same refuses_above_def)
qed

lemma runs_fst: "runs c m \<Longrightarrow> returns (\<lambda>c'. conn_inv c' \<and> evolves c c') (map_option fst m)"
  by (auto simp: returns_map_option elim!: returns_mono)

lemma conn_apply_runs:
  assumes "conn_inv c" "enumerates ord" "conn_op_ok op c"
  shows "returns (\<lambda>c'. conn_inv c' \<and> evolves c c') (conn_apply ord op c)"
proof -
  have wt: "conn_inv c' \<and> evolves c c'" if "wt_step {} {} c c'" for c'
    using wt_step_keeps [OF assms(1) that] inner_evolves by blast
  show ?thesis
    using assms runs_fst [OF init_runs] runs_fst [OF set_control_runs] runs_fst [OF set_encoder_runs]
      runs_fst [OF set_decoder_runs] step_max_body runs_fst [OF feed_runs] runs_fst [OF reset_runs]
      runs_fst [OF stop_sending_runs] runs_fst [OF poll_runs] runs_fst [OF drain_events_runs]
      runs_fst [OF get_data_runs] consume_runs runs_fst [OF take_runs] runs_fst [OF request_runs]
      runs_fst [OF response_runs] runs_fst [OF body_runs] runs_fst [OF send_goaway_runs]
      runs_fst [OF wt_runs [OF assms(1) feed_datagram_steps [OF conn_inv_wt [OF assms(1)]]]]
      runs_fst [OF wt_runs [OF assms(1) local_stream_steps [OF conn_inv_wt [OF assms(1)]]]]
      wt [OF data_consumed_steps [OF conn_inv_wt [OF assms(1)]]]
      wt [OF take_capsules_steps [OF conn_inv_wt [OF assms(1)]]]
    by (cases op)
      (simp_all add: set_webtransport_transport_verified_def set_previous_wt_settings_def evolves_def progress_same)
qed

section \<open>New connections\<close>

lemma merge_wf: "wf_h3_settings a \<Longrightarrow> wf_h3_settings b \<Longrightarrow> wf_h3_settings (merge_settings a b)"
  by (auto simp: wf_h3_settings_def merge_settings_def Let_def split: option.split)

lemma default_settings: "\<exists>s. settings_from_limits limits_default = Inr s \<and> wf_h3_settings s"
  by (simp add: settings_from_limits_def limits_default_def varint_new_def VARINT_MAX_def wf_h3_settings_def varint_ok_iff)

lemma new_connection:
  assumes "wf_h3_settings settings"
  obtains c where "connection_new role settings = Some c" "conn_inv c" "cn_role c = role"
    "cn_wt_sessions c = Map.empty" "cn_closed_wt_sessions c = {}" "cn_streams c = Map.empty" "cn_error c = None"
    "dt_entries (qe_table (cn_qpack_encoder c)) = []"
proof -
  obtain b where b: "settings_from_limits limits_default = Inr b" "wf_h3_settings b" using default_settings by blast
  let ?l = "merge_settings b settings"
  have wf: "wf_h3_settings ?l" by (rule merge_wf [OF b(2) assms])
  obtain p where p: "payload_from_settings ?l = Inr p" using payload_from_settings_total [OF wf] by blast
  let ?s = "cs_new\<lparr>cs_send_buf := sb_push (cs_send_buf cs_new) (0 # frame_bytes (SettingsFrame p)), cs_send_state := CsReady\<rparr>"
  have s: "cs_send_settings cs_new ?l = Some ?s"
    by (rule cs_send_settings_sends [OF wf p settings_frame_wf [OF wf p]]) (simp add: cs_new_def)
  have sb: "sb_inv (cs_send_buf ?s)" using sbq.push_inv by (simp add: cs_new_def)
  obtain c where c: "connection_new role settings = Some c" by (simp add: connection_new_def b(1) Let_def s)
  have f: "cn_wt_sessions c = Map.empty" "cn_closed_wt_sessions c = {}" "cn_streams c = Map.empty"
    "cn_error c = None" "cn_role c = role" "cn_wt_uni_streams c = Map.empty" "cn_wt_bidi_streams c = Map.empty"
    "cn_pending_wt_uni_streams c = Map.empty" "cn_pending_wt_bidi_streams c = Map.empty"
    "cn_deferred_wt_connects c = Map.empty" "cn_pending_pre_negotiation c = Map.empty"
    "cn_pending_bidi_dispatch c = Map.empty" "cn_control_send c = ?s" "cn_control_recv c = cr_new"
    "cn_peer_settings c = None" "cn_encoder_stream_id c = None" "cn_decoder_stream_id c = None"
    "cn_next_stream_id c = (case role of Client \<Rightarrow> 0 | Server \<Rightarrow> 1)"
    "dt_entries (qe_table (cn_qpack_encoder c)) = []"
    using c by (auto simp: connection_new_def b(1) Let_def s qe_new_def dt_new_def dt_with_capacity_def)
  have "conn_inv c"
    using sb cr_new_facts
    by (simp add: conn_inv_ex_def streams_inv_def server_inv_def dispatch_inv_def critical_inv_def wt_inv_def
        wt_sessions_inv_def wt_waiting_inv_def wt_quiet_def active_def f cs_new_def split: role.split)
  from that [OF c this] f show thesis by simp
qed

lemma new_connection_fields:
  assumes "connection_new role settings = Some c"
  shows "cs_stream_id (cn_control_send c) = None" "cn_encoder_stream_id c = None" "cn_decoder_stream_id c = None"
    "cn_peer_settings c = None" "cn_peer_goaway_last_id c = None" "cn_last_sent_goaway_id c = None"
    "cn_next_stream_id c = (case role of Client \<Rightarrow> 0 | Server \<Rightarrow> 1)" "cn_deferred_wt_connects c = Map.empty"
    "cn_wt_bidi_streams c = Map.empty" "cn_pending_wt_bidi_streams c = Map.empty" "cn_ignored_pre_negotiation c = {}"
    "cn_pending_pre_negotiation c = Map.empty" "cn_pending_bidi_dispatch c = Map.empty"
    "lim_max_received_body_size (cn_limits c) = 16 * 1024 * 1024"
proof -
  have id: "cs_stream_id s' = cs_stream_id s" if "cs_send_settings s l = Some s'" for s s' l
    using that by (auto simp: cs_send_settings_def bind_eq_Some_conv Let_def split: if_splits)
  show "cs_stream_id (cn_control_send c) = None" "cn_encoder_stream_id c = None" "cn_decoder_stream_id c = None"
    "cn_peer_settings c = None" "cn_peer_goaway_last_id c = None" "cn_last_sent_goaway_id c = None"
    "cn_next_stream_id c = (case role of Client \<Rightarrow> 0 | Server \<Rightarrow> 1)" "cn_deferred_wt_connects c = Map.empty"
    "cn_wt_bidi_streams c = Map.empty" "cn_pending_wt_bidi_streams c = Map.empty" "cn_ignored_pre_negotiation c = {}"
    "cn_pending_pre_negotiation c = Map.empty" "cn_pending_bidi_dispatch c = Map.empty"
    "lim_max_received_body_size (cn_limits c) = 16 * 1024 * 1024"
    using assms id
    by (auto simp: connection_new_def bind_eq_Some_conv Let_def cs_new_def sync_limits_def limits_default_def
        split: role.splits)
qed

text \<open>The states a connection gets into, whatever its callers do within their duties.\<close>

inductive conn_reach :: "(u64 set \<Rightarrow> u64 list) \<Rightarrow> connection \<Rightarrow> connection \<Rightarrow> bool" for ord where
  CrStart: "conn_reach ord c c"
| CrCall: "conn_reach ord c c1 \<Longrightarrow> conn_op_ok op c1 \<Longrightarrow> conn_apply ord op c1 = Some c2 \<Longrightarrow> conn_reach ord c c2"

lemma reach_inv:
  assumes "conn_reach ord c c'" "enumerates ord" "conn_inv c"
  shows "conn_inv c' \<and> evolves c c'"
  using assms
proof induction
  case (CrCall c c1 op c2)
  have 1: "conn_inv c1" "evolves c c1" using CrCall by blast+
  have "conn_inv c2 \<and> evolves c1 c2" using conn_apply_runs [OF 1(1) CrCall.prems(1) CrCall.hyps(2)] CrCall.hyps(3) by simp
  with me.R_trans [OF 1(2)] show ?case by blast
qed simp

text \<open>Examples start from a connection with the default limits.\<close>

definition plain_settings :: h3_settings where
  "plain_settings =
    \<lparr>qpack_max_table_capacity = None, max_field_section_size = None, qpack_blocked_streams = None,
     enable_connect_protocol = None, h3_datagram = None, wt_part = None\<rparr>"

lemma plain_settings_wf: "wf_h3_settings plain_settings"
  by (simp add: plain_settings_def wf_h3_settings_def)

lemma enumerates_sorted: "enumerates sorted_list_of_set"
  by (simp add: enumerates_def)

section \<open>Streams and sessions that are new\<close>

text \<open>Sessions that were opened early, by a stream or a datagram before their CONNECT.\<close>

lemma pending_count_set:
  "count_pending_wt_sessions c = card {i. \<exists>s. cn_wt_sessions c i = Some s \<and> ws_state s = WsPending}"
proof -
  have "{i \<in> dom (cn_wt_sessions c). ws_state (the (cn_wt_sessions c i)) = WsPending} =
      {i. \<exists>s. cn_wt_sessions c i = Some s \<and> ws_state s = WsPending}"
    by auto
  then show ?thesis by (simp add: count_pending_wt_sessions_def count_wt_sessions_def)
qed




lemma pending_count_event [simp]: "count_pending_wt_sessions (push_event c e) = count_pending_wt_sessions c"
  by (simp add: pending_count_set push_event_def)

lemma buffering_keeps_state [simp]:
  "ws_state (fst (ws_buffer_datagram s d)) = ws_state s" "ws_state (ws_associate_stream s i) = ws_state s"
  "ws_buffer_stream s i b = (s', ok) \<Longrightarrow> ws_state s' = ws_state s"
  by (auto simp: ws_buffer_datagram_def ws_associate_stream_def ws_buffer_stream_def split: if_splits)




text \<open>A client-initiated stream that is new to a server.\<close>

lemma fresh_kind:
  assumes "i mod 4 = (0 :: u64)"
  shows "kind_from_stream_id i = ClientBidi"
  using assms by (simp add: kind_from_stream_id_mod)

definition wt_stream_known :: "connection \<Rightarrow> u64 \<Rightarrow> bool" where
  "wt_stream_known s i \<longleftrightarrow> cn_wt_bidi_streams s i \<noteq> None \<or> cn_pending_wt_bidi_streams s i \<noteq> None \<or>
    i \<in> cn_ignored_pre_negotiation s \<or> cn_pending_pre_negotiation s i \<noteq> None"

definition bytes_arrived :: "connection \<Rightarrow> u64 \<Rightarrow> bytes \<Rightarrow> bytes" where
  "bytes_arrived s i data = (case cn_pending_bidi_dispatch s i of None \<Rightarrow> data | Some pending \<Rightarrow> pending @ data)"

definition undispatched :: "connection \<Rightarrow> u64 \<Rightarrow> bytes option \<Rightarrow> connection" where
  "undispatched s i b = s\<lparr>cn_pending_bidi_dispatch := (cn_pending_bidi_dispatch s)(i := b)\<rparr>"

lemma small_varint:
  assumes "buf \<noteq> []" "drop_bit 6 (buf ! 0) = 0"
  obtains v where "varint_decode buf = Inr (v, 1)" "vget v < 64"
proof -
  have "unat (buf ! 0 AND 0x3f) < 64" by (simp add: unat_and_3f)
  with that assms show thesis by (simp add: varint_decode_def Let_def)
qed

text \<open>What a server makes of the first bytes on a client-initiated stream that is new to it.\<close>

lemma dispatch_fresh:
  assumes "cn_role s = Server" "i mod 4 = 0" "cn_streams s i = None" "\<not> wt_stream_known s i"
  shows "dispatch_stream ord s i data fin =
    (let buf = bytes_arrived s i data; s' = undispatched s i None in
     case varint_decode buf of
       Inr (t, _) \<Rightarrow>
         if vget t = BIDIRECTIONAL_SIGNAL_VALUE then dispatch_wt_bidi ord s' i buf fin
         else handle_bidirectional_stream ord s' i buf fin
     | Inl _ \<Rightarrow>
         if \<not> fin then Some (undispatched s i (Some buf), Inr ())
         else if buf = [] then handle_bidirectional_stream ord s' i [] True
         else Some (s', conn_err FrameError))"
proof -
  have d: "dispatch_stream ord s i data fin = dispatch_client_bidi_stream ord s i data fin"
    using assms by (simp add: dispatch_stream_def wt_stream_known_def fresh_kind)
  show ?thesis
  proof (cases "bytes_arrived s i data \<noteq> [] \<and> drop_bit 6 (bytes_arrived s i data ! 0) = 0")
    case True
    then obtain v where v: "varint_decode (bytes_arrived s i data) = Inr (v, 1)" "vget v < 64"
      using small_varint by blast
    then have "vget v \<noteq> BIDIRECTIONAL_SIGNAL_VALUE" by (simp add: BIDIRECTIONAL_SIGNAL_VALUE_def)
    with v True show ?thesis
      unfolding d dispatch_client_bidi_stream_def Let_def bytes_arrived_def [symmetric] undispatched_def [symmetric]
      by simp
  next
    case False
    then show ?thesis
      unfolding d dispatch_client_bidi_stream_def Let_def bytes_arrived_def [symmetric] undispatched_def [symmetric]
      by (auto split: sum.split)
  qed
qed

lemma undispatched_fields [simp]:
  "cn_role (undispatched s i b) = cn_role s" "cn_streams (undispatched s i b) = cn_streams s"
  "cn_last_sent_goaway_id (undispatched s i b) = cn_last_sent_goaway_id s"
  "cn_closed_wt_sessions (undispatched s i b) = cn_closed_wt_sessions s"
  by (simp_all add: undispatched_def)

section \<open>Properties of a connection\<close>

text \<open>
  C2: No call on a connection runs forever or panics.  A connection can be made with every valid
  configuration; in every state it gets into, every call that its caller may make returns.  This
  covers all loops: over the frames of a stream and of the control stream, over QPACK instructions,
  over capsules, over streams that waited for the dynamic table, and all \<open>expect\<close>s and slice operations.
\<close>

theorem connection_calls_return:
  assumes "wf_h3_settings settings" "enumerates ord"
  shows "\<exists>c0. connection_new role settings = Some c0 \<and>
    (\<forall>c op. conn_reach ord c0 c \<longrightarrow> conn_op_ok op c \<longrightarrow> (\<exists>c'. conn_apply ord op c = Some c'))"
proof -
  obtain c0 where c0: "connection_new role settings = Some c0" "conn_inv c0" using new_connection [OF assms(1)] .
  have "\<exists>c'. conn_apply ord op c = Some c'" if "conn_reach ord c0 c" "conn_op_ok op c" for c op
    using conn_apply_runs [OF _ assms(2) that(2)] reach_inv [OF that(1) assms(2) c0(2)] by (auto simp: returns_def)
  with c0(1) show ?thesis by blast
qed

theorem connection_calls_return_witness:
  "\<exists>c0 c1. connection_new Server plain_settings = Some c0 \<and>
    conn_apply sorted_list_of_set (Feed 2 [0x00, 0x04, 0x00] False) c0 = Some c1 \<and>
    (\<exists>c2. conn_apply sorted_list_of_set Poll c1 = Some c2)"
proof -
  obtain c0 where c0: "connection_new Server plain_settings = Some c0" "cn_streams c0 = Map.empty"
    using new_connection [OF plain_settings_wf, of Server] by blast
  then have all: "\<forall>c op. conn_reach sorted_list_of_set c0 c \<longrightarrow> conn_op_ok op c \<longrightarrow>
      (\<exists>c'. conn_apply sorted_list_of_set op c = Some c')"
    using connection_calls_return [OF plain_settings_wf enumerates_sorted, of Server] by auto
  have ok: "conn_op_ok (Feed 2 [0x00, 0x04, 0x00] False) c0"
    by (simp add: feed_ok_def honest_fin_def c0(2))
  from all [rule_format, OF CrStart this] obtain c1 where
    c1: "conn_apply sorted_list_of_set (Feed 2 [0x00, 0x04, 0x00] False) c0 = Some c1" by blast
  from all [rule_format, OF CrCall [OF CrStart ok c1], of Poll] c0(1) c1 show ?thesis by auto
qed



text \<open>
  C5: Sessions only move forward.  However long a connection is used, a session that was closed is never
  in the table of sessions again; one that is there stays there in the same or a later state (pending,
  established, draining), or is closed.
\<close>

theorem sessions_move_forward:
  assumes "wf_h3_settings settings" "enumerates ord" "connection_new role settings = Some c0"
    "conn_reach ord c0 c1" "conn_reach ord c1 c2"
  shows "(\<forall>i \<in> cn_closed_wt_sessions c1. i \<in> cn_closed_wt_sessions c2 \<and> cn_wt_sessions c2 i = None) \<and>
    (\<forall>i s. cn_wt_sessions c1 i = Some s \<longrightarrow>
      (case cn_wt_sessions c2 i of
         None \<Rightarrow> i \<in> cn_closed_wt_sessions c2
       | Some s' \<Rightarrow> stage (ws_state s) \<le> stage (ws_state s') \<and> ws_state s' \<noteq> WsClosed))"
proof -
  have "conn_inv c0" using new_connection [OF assms(1), of role] assms(3) by auto
  then have c1: "conn_inv c1" using reach_inv [OF assms(4,2)] by blast
  have c2: "conn_inv c2" "evolves c1 c2" using reach_inv [OF assms(5,2) c1] by blast+
  have p: "progress c1 c2" using c2(2) by (simp add: evolves_def)
  have none: "cn_wt_sessions c2 i = None" if "i \<in> cn_closed_wt_sessions c2" for i
    using wt_inv_session [OF conn_inv_wt [OF c2(1)], of i] that by (cases "cn_wt_sessions c2 i") auto
  have live: "ws_state s \<noteq> WsClosed" if "cn_wt_sessions c2 i = Some s" for i s
    using wt_inv_session [OF conn_inv_wt [OF c2(1)] that] by (simp add: ws_inv_def)
  have "case cn_wt_sessions c2 i of
      None \<Rightarrow> i \<in> cn_closed_wt_sessions c2
    | Some s' \<Rightarrow> stage (ws_state s) \<le> stage (ws_state s') \<and> ws_state s' \<noteq> WsClosed"
    if "cn_wt_sessions c1 i = Some s" for i s
  proof -
    have "case cn_wt_sessions c2 i of
        None \<Rightarrow> i \<in> cn_closed_wt_sessions c2
      | Some s' \<Rightarrow> stage (ws_state s) \<le> stage (ws_state s')"
      using p that unfolding progress_def by blast
    then show ?thesis using live by (cases "cn_wt_sessions c2 i") simp_all
  qed
  with none p show ?thesis by (auto simp: progress_def)
qed

theorem sessions_move_forward_witness:
  "\<exists>c0 c1. connection_new Client plain_settings = Some c0 \<and>
    conn_apply sorted_list_of_set (SetMaxBody 5) c0 = Some c1 \<and>
    (\<forall>i \<in> cn_closed_wt_sessions c0. i \<in> cn_closed_wt_sessions c1 \<and> cn_wt_sessions c1 i = None)"
proof -
  obtain c0 where c0: "connection_new Client plain_settings = Some c0"
    using new_connection [OF plain_settings_wf, of Client] by blast
  have "conn_reach sorted_list_of_set c0 (set_max_received_body_size c0 5)"
    by (rule CrCall [OF CrStart, of "SetMaxBody 5"]) simp_all
  from sessions_move_forward [OF plain_settings_wf enumerates_sorted c0 CrStart this] c0 show ?thesis by auto
qed

text \<open>
  An established session lives on an open CONNECT stream.  In every reachable state of a server, a
  session that was established (and is not closed) has its request stream in the table, its request was
  decoded, and the server has not given the stream up: it can still send on it, or has a FIN to hand out.
\<close>

theorem established_sessions_have_streams:
  assumes "wf_h3_settings settings" "enumerates ord" "connection_new Server settings = Some c0" "conn_reach ord c0 c"
    "cn_wt_sessions c i = Some s" "ws_state s \<noteq> WsPending"
  shows "\<exists>r. cn_streams c i = Some r \<and> rs_recv_state r \<noteq> RrWaitingHeaders \<and> rs_state r \<noteq> SsReset \<and>
    (can_send (rs_state r) \<or> sb_fin (rs_send_buf r) \<and> \<not> sb_fin_sent (rs_send_buf r))"
proof -
  have 0: "conn_inv c0" "cn_role c0 = Server" using new_connection [OF assms(1), of Server] assms(3) by auto
  then have c: "conn_inv c" "cn_role c = Server" using reach_inv [OF assms(4,2)] by (auto simp: evolves_def)
  have "active c i" using assms(5,6) by (auto simp: active_def)
  with c obtain r where "cn_streams c i = Some r" "\<not> awaiting r" "sending r"
    by (auto simp: conn_inv_ex_def server_inv_def)
  then show ?thesis by (auto simp: awaiting_def sending_def)
qed

lemma same_error [simp]: "cn_error c = Some e \<Longrightarrow> c\<lparr>cn_error := Some e\<rparr> = c"
  by (intro connection.equality) simp_all

lemma remember_failed: "cn_error c = Some e \<Longrightarrow> remember_connection_error (tryC c (check_error_state c) f) = Some (c, Inl e)"
  by (cases e) (simp_all add: check_error_state_def tryC_def remember_connection_error_def)

definition peer_critical :: "connection \<Rightarrow> u64 \<Rightarrow> bool" where
  "peer_critical c i \<longleftrightarrow> cr_stream_id (cn_control_recv c) = Some i \<or> cn_peer_encoder_stream_id c = Some i \<or>
    cn_peer_decoder_stream_id c = Some i"

definition failed :: "connection \<Rightarrow> error_code \<Rightarrow> (connection \<times> (h3_error + 'a)) option" where
  "failed c e = Some (c\<lparr>cn_error := Some (ConnectionError e)\<rparr>, conn_err e)"

lemma remembers:
  "remember_connection_error m = Some (c, Inl (ConnectionError k)) \<Longrightarrow> cn_error c = Some (ConnectionError k)"
  by (auto simp: remember_connection_error_def split: option.splits sum.splits h3_error.splits)

text \<open>
  C8: A connection error is remembered and final.  When one of the calls for arriving streams, RESET\_STREAM,
  STOP\_SENDING, events, a body or GOAWAY gives a connection error, the connection has failed with it; and
  a connection that has failed gives this error, and does nothing else, on each of these calls, on
  datagrams, requests and responses, whatever was called in between.

  Connection errors that a datagram, a request or a response gives do not make the connection fail; taking
  data to send, and the calls for settings, for stream identifiers and for WebTransport sessions, still
  act on a failed connection.
\<close>

theorem connection_error_is_final:
  assumes "wf_h3_settings settings" "enumerates ord" "connection_new role settings = Some c0" "conn_reach ord c0 c1"
  shows "(feed_stream ord c1 i data fin = Some (c2, Inl (ConnectionError k)) \<or>
      stream_reset ord c1 i ec n = Some (c2, Inl (ConnectionError k)) \<or>
      stop_sending ord c1 i ec = Some (c2, Inl (ConnectionError k)) \<or>
      poll_event ord c1 = Some (c2, Inl (ConnectionError k)) \<or>
      drain_events ord c1 = Some (c2, Inl (ConnectionError k)) \<or>
      cn_send_body c1 i data fin = Some (c2, Inl (ConnectionError k)) \<or>
      cn_send_goaway c1 g = Some (c2, Inl (ConnectionError k)) \<longrightarrow>
      cn_error c2 = Some (ConnectionError k)) \<and>
    (\<forall>e c. cn_error c1 = Some e \<and> conn_reach ord c1 c \<longrightarrow>
      feed_stream ord c i data fin = Some (c, Inl e) \<and> feed_datagram c data = Some (c, Inl e) \<and>
      stream_reset ord c i ec n = Some (c, Inl e) \<and> stop_sending ord c i ec = Some (c, Inl e) \<and>
      poll_event ord c = Some (c, Inl e) \<and> drain_events ord c = Some (c, Inl e) \<and>
      cn_send_request c hs fin = Some (c, Inl e) \<and> cn_send_response ord c i hs fin = Some (c, Inl e) \<and>
      cn_send_body c i data fin = Some (c, Inl e) \<and> cn_send_goaway c g = Some (c, Inl e))"
proof (intro conjI allI impI)
  have feed: "cn_error c2 = Some (ConnectionError k)"
    if "feed_stream ord c1 i data fin = Some (c2, Inl (ConnectionError k))"
    using that remembers by (auto simp: feed_stream_def split: option.splits)
  show "cn_error c2 = Some (ConnectionError k)"
    if "feed_stream ord c1 i data fin = Some (c2, Inl (ConnectionError k)) \<or>
      stream_reset ord c1 i ec n = Some (c2, Inl (ConnectionError k)) \<or>
      stop_sending ord c1 i ec = Some (c2, Inl (ConnectionError k)) \<or>
      poll_event ord c1 = Some (c2, Inl (ConnectionError k)) \<or>
      drain_events ord c1 = Some (c2, Inl (ConnectionError k)) \<or>
      cn_send_body c1 i data fin = Some (c2, Inl (ConnectionError k)) \<or>
      cn_send_goaway c1 g = Some (c2, Inl (ConnectionError k))"
    using that
    unfolding stream_reset_def stop_sending_def poll_event_def drain_events_def cn_send_body_def cn_send_goaway_def
    by (elim disjE) (erule feed, (erule remembers)+)
next
  fix e c assume later: "cn_error c1 = Some e \<and> conn_reach ord c1 c"
  have "conn_inv c0" using new_connection [OF assms(1), of role] assms(3) by auto
  then have "conn_inv c1" using reach_inv [OF assms(4,2)] by blast
  then have "evolves c1 c" using reach_inv [OF _ assms(2)] later by blast
  then have e: "cn_error c = Some e" using later by (simp add: evolves_def)
  show "feed_stream ord c i data fin = Some (c, Inl e)" "feed_datagram c data = Some (c, Inl e)"
    "stream_reset ord c i ec n = Some (c, Inl e)" "stop_sending ord c i ec = Some (c, Inl e)"
    "poll_event ord c = Some (c, Inl e)" "drain_events ord c = Some (c, Inl e)"
    "cn_send_body c i data fin = Some (c, Inl e)" "cn_send_goaway c g = Some (c, Inl e)"
    using e
    by (simp_all add: feed_stream_def feed_datagram_def stream_reset_def stop_sending_def poll_event_def
        drain_events_def cn_send_body_def cn_send_goaway_def remember_failed)
  show "cn_send_request c hs fin = Some (c, Inl e)" "cn_send_response ord c i hs fin = Some (c, Inl e)"
    using e
    by (simp_all add: cn_send_request_def cn_send_response_def check_request_def check_response_def
        check_error_state_def tryC_def)
qed

theorem connection_error_is_final_witness:
  "\<exists>c0 c1. connection_new Client plain_settings = Some c0 \<and>
    feed_stream sorted_list_of_set c0 1 [] False = Some (c1, conn_err StreamCreationError) \<and>
    cn_error c1 = Some (ConnectionError StreamCreationError) \<and>
    poll_event sorted_list_of_set c1 = Some (c1, conn_err StreamCreationError) \<and>
    feed_datagram c1 [7] = Some (c1, conn_err StreamCreationError)"
proof -
  obtain c0 where c0: "connection_new Client plain_settings = Some c0" "cn_role c0 = Client" "cn_error c0 = None"
    "cn_streams c0 = Map.empty"
    using new_connection [OF plain_settings_wf, of Client] by blast
  let ?e = "ConnectionError StreamCreationError"
  let ?c1 = "c0\<lparr>cn_error := Some ?e\<rparr>"
  have "\<not> is_wt_fully_negotiated c0"
    using new_connection_fields(4) [OF c0(1)] by (simp add: is_wt_fully_negotiated_def split: option.split)
  then have "dispatch_stream sorted_list_of_set c0 1 [] False = Some (c0, conn_err StreamCreationError)"
    using c0(2) by (simp add: dispatch_stream_def kind_from_stream_id_mod)
  then have f: "feed_stream sorted_list_of_set c0 1 [] False = Some (?c1, Inl ?e)"
    using c0(3) by (simp add: feed_stream_def remember_connection_error_def)
  have r: "conn_reach sorted_list_of_set c0 ?c1"
    by (rule CrCall [OF CrStart, of "Feed 1 [] False"]) (use f in \<open>simp_all add: feed_ok_def honest_fin_def c0(4)\<close>)
  note final = connection_error_is_final [OF plain_settings_wf enumerates_sorted c0(1)]
  have e: "cn_error ?c1 = Some ?e"
    using final [OF CrStart, THEN conjunct1] f by blast
  from final [OF r, THEN conjunct2, rule_format, OF conjI [OF e CrStart]]
  have "poll_event sorted_list_of_set ?c1 = Some (?c1, Inl ?e)" "feed_datagram ?c1 [7] = Some (?c1, Inl ?e)" by blast+
  with c0(1) f e show ?thesis by blast
qed

text \<open>
  C11: The critical streams cannot be taken away.  RESET\_STREAM on the control or QPACK streams of the
  peer, STOP\_SENDING on the own ones, and FIN (behind the data that was delivered) on the peer's are the
  connection error H3\_CLOSED\_CRITICAL\_STREAM (H3\_FRAME\_ERROR if FIN cuts off a control frame), which is
  remembered.
\<close>

theorem critical_streams_protected:
  assumes "cn_error c = None"
  shows "(peer_critical c i \<longrightarrow> stream_reset ord c i ec n = failed c ClosedCriticalStream) \<and>
    (cs_stream_id (cn_control_send c) = Some i \<or> cn_encoder_stream_id c = Some i \<or> cn_decoder_stream_id c = Some i \<longrightarrow>
      stop_sending ord c i ec = failed c ClosedCriticalStream) \<and>
    (peer_critical c i \<and> kind_is_unidirectional (kind_from_stream_id i) \<and>
      \<not> is_local_initiated_uni c (kind_from_stream_id i) \<and> i \<notin> cn_ignored_uni_streams c \<longrightarrow>
      feed_stream ord c i [] True =
        failed c (if cr_stream_id (cn_control_recv c) = Some i \<and> cr_has_pending_data (cn_control_recv c)
          then FrameError else ClosedCriticalStream))"
proof (intro conjI impI)
  show "stream_reset ord c i ec n = failed c ClosedCriticalStream" if "peer_critical c i"
    using that assms
    by (simp add: peer_critical_def stream_reset_def check_error_state_def tryC_def remember_connection_error_def failed_def)
  show "stop_sending ord c i ec = failed c ClosedCriticalStream"
    if "cs_stream_id (cn_control_send c) = Some i \<or> cn_encoder_stream_id c = Some i \<or> cn_decoder_stream_id c = Some i"
    using that assms
    by (simp add: stop_sending_def check_error_state_def tryC_def remember_connection_error_def failed_def)
  show "feed_stream ord c i [] True =
      failed c (if cr_stream_id (cn_control_recv c) = Some i \<and> cr_has_pending_data (cn_control_recv c)
        then FrameError else ClosedCriticalStream)"
    if "peer_critical c i \<and> kind_is_unidirectional (kind_from_stream_id i) \<and>
      \<not> is_local_initiated_uni c (kind_from_stream_id i) \<and> i \<notin> cn_ignored_uni_streams c"
  proof -
    have d: "dispatch_stream ord c i [] True = handle_unidirectional_stream ord c i [] True"
      using that by (simp only: dispatch_stream_def Let_def if_True)
    have u: "handle_unidirectional_stream ord c i [] True = Some (c, conn_err
        (if cr_stream_id (cn_control_recv c) = Some i \<and> cr_has_pending_data (cn_control_recv c)
          then FrameError else ClosedCriticalStream))"
      using that by (auto simp: handle_unidirectional_stream_def bindC_def tryC_def critical_fin_def peer_critical_def)
    show ?thesis
      unfolding feed_stream_def d u using assms by (simp add: remember_connection_error_def failed_def)
  qed
qed

theorem critical_streams_protected_witness:
  "\<exists>c0. connection_new Client plain_settings = Some c0 \<and>
    stream_reset sorted_list_of_set (c0\<lparr>cn_peer_encoder_stream_id := Some 7\<rparr>) 7 0 0 =
      failed (c0\<lparr>cn_peer_encoder_stream_id := Some 7\<rparr>) ClosedCriticalStream"
proof -
  obtain c0 where c0: "connection_new Client plain_settings = Some c0" "cn_error c0 = None"
    using new_connection [OF plain_settings_wf, of Client] by blast
  let ?c = "c0\<lparr>cn_peer_encoder_stream_id := Some 7\<rparr>"
  have "cn_error ?c = None" using c0(2) by simp
  from critical_streams_protected [OF this, of 7 sorted_list_of_set 0 0] c0(1) show ?thesis
    by (auto simp: peer_critical_def)
qed

text \<open>Where a stream that is not a request may be known already.\<close>

definition elsewhere :: "connection \<Rightarrow> u64 \<Rightarrow> bool" where
  "elsewhere s i \<longleftrightarrow> i \<in> cn_closed_wt_sessions s \<or> cn_wt_sessions s i \<noteq> None \<or> cn_deferred_wt_connects s i \<noteq> None \<or>
    cn_wt_bidi_streams s i \<noteq> None \<or> cn_pending_wt_bidi_streams s i \<noteq> None \<or> i \<in> cn_ignored_pre_negotiation s \<or>
    cn_pending_pre_negotiation s i \<noteq> None \<or> cn_pending_bidi_dispatch s i \<noteq> None"

lemma feed_fresh:
  assumes "cn_role s = Server" "cn_error s = None" "i mod 4 = 0" "cn_streams s i = None" "\<not> elsewhere s i"
    "data \<noteq> []" "drop_bit 6 (data ! 0) = 0"
  shows "feed_stream ord s i data fin = remember_connection_error (handle_bidirectional_stream ord s i data fin)"
proof -
  have "s\<lparr>cn_pending_bidi_dispatch := (cn_pending_bidi_dispatch s)(i := None)\<rparr> = s"
    using assms(5) by (intro connection.equality) (simp_all add: elsewhere_def fun_upd_idem)
  with assms show ?thesis
    by (simp add: feed_stream_def dispatch_stream_def elsewhere_def fresh_kind dispatch_client_bidi_stream_def Let_def)
qed

lemma encoded_next: "encode_qpack_headers c hs b = Some (c', r) \<Longrightarrow> cn_next_stream_id c' = cn_next_stream_id c"
proof -
  have "encode_attempts k c n hs b = Some (c', r) \<Longrightarrow> cn_next_stream_id c' = cn_next_stream_id c" for k n
    by (induction k arbitrary: c n) (fastforce simp: Let_def split: prod.splits option.splits)+
  then show "encode_qpack_headers c hs b = Some (c', r) \<Longrightarrow> cn_next_stream_id c' = cn_next_stream_id c"
    by (simp add: encode_qpack_headers_def)
qed

lemma request_id:
  assumes "cn_send_request c hs fin = Some (c', Inr i)"
  shows "check_request c hs = Inr ()" "i = cn_next_stream_id c" "cn_next_stream_id c' = i + 4"
proof -
  show ok: "check_request c hs = Inr ()"
    using assms by (cases "check_request c hs") (simp_all add: cn_send_request_def tryC_def)
  show "i = cn_next_stream_id c" "cn_next_stream_id c' = i + 4"
    using assms encoded_next
    by (auto simp: cn_send_request_def ok tryC_def bindC_def Let_def checked_add_def
        split: option.splits prod.splits sum.splits if_splits)
qed

text \<open>
  C9: Requests go out in order and below GOAWAY.  Of two requests of a client, the later one has the
  greater identifier, and every identifier is one of a client-initiated bidirectional stream; once
  GOAWAY has arrived, no request ever gets an identifier at or above the one announced.
\<close>

theorem requests_ordered_below_goaway:
  assumes "wf_h3_settings settings" "enumerates ord" "connection_new Client settings = Some c0" "conn_reach ord c0 c1"
    "conn_op_ok (SendRequest hs fin) c1" "cn_send_request c1 hs fin = Some (c2, Inr i)"
    "conn_reach ord c2 c3" "cn_send_request c3 hs' fin' = Some (c4, Inr j)"
  shows "i mod 4 = 0 \<and> j mod 4 = 0 \<and> i < j \<and>
    (\<forall>g. cn_peer_goaway_last_id c1 = Some g \<longrightarrow> i < vget g) \<and>
    (\<forall>g. cn_peer_goaway_last_id c2 = Some g \<longrightarrow> j < vget g)"
proof -
  have 0: "conn_inv c0" "cn_role c0 = Client" using new_connection [OF assms(1), of Client] assms(3) by auto
  then have 1: "conn_inv c1" "cn_role c1 = Client" using reach_inv [OF assms(4,2)] by (auto simp: evolves_def)
  then have "conn_inv c2 \<and> evolves c1 c2"
    using request_runs [OF 1(1), of hs fin] assms(5,6) by simp
  then have 2: "conn_inv c2" "cn_role c2 = Client" using 1(2) by (auto simp: evolves_def)
  have 3: "conn_inv c3" "evolves c2 c3" using reach_inv [OF assms(7,2) 2(1)] by auto
  then have role: "cn_role c3 = Client" using 2(2) by (simp add: evolves_def)
  note i = request_id [OF assms(6)] and j = request_id [OF assms(8)]
  have "i mod 4 = 0" "j mod 4 = 0"
    using 1 3(1) role i(2) j(2) by (simp_all add: conn_inv_ex_def critical_inv_def)
  moreover have "i < j" using i(3) j(2) 3(2) by (simp add: evolves_def)
  moreover have below: "cn_next_stream_id c < vget g"
    if "check_request c hs = Inr ()" "cn_role c = Client" "cn_peer_goaway_last_id c = Some g" for c hs g
    using that
    by (auto simp: check_request_def peer_goaway_request_boundary_def bindR_Inr_iff is_some_and_def split: if_splits)
  moreover have "cn_next_stream_id c3 < vget g" if g: "cn_peer_goaway_last_id c2 = Some g" for g
  proof -
    obtain g' where "cn_peer_goaway_last_id c3 = Some g'" "vget g' \<le> vget g"
      using 3(2) g by (auto simp: evolves_def lowered_def)
    with below [OF j(1) role] show ?thesis by fastforce
  qed
  ultimately show ?thesis using i j 1(2) by auto
qed

text \<open>
  C10: A server that sent GOAWAY takes no request at or above the identifier it announced.  No request
  stream comes into being there, now or later, whatever is called.  On a client-initiated stream that is
  not one of WebTransport and not one of a closed session, the bytes wait until the first variable-length
  integer is complete; then, and when the stream ends empty, the answer is H3\_REQUEST\_REJECTED, however
  the bytes were cut, and apart from the bytes that waited the connection stays as it is.  Only FIN within
  this integer is H3\_FRAME\_ERROR; a stream that starts with 0x41 is one of WebTransport and is not
  answered here.
\<close>

theorem goaway_refuses_requests:
  assumes "wf_h3_settings settings" "enumerates ord" "connection_new Server settings = Some c0" "conn_reach ord c0 c1"
    "cn_last_sent_goaway_id c1 = Some g" "conn_reach ord c1 c2" "vget g \<le> i" "cn_streams c2 i = None"
  shows "(\<forall>c3. conn_reach ord c2 c3 \<longrightarrow> cn_streams c3 i = None) \<and>
    (cn_error c2 = None \<and> i mod 4 = 0 \<and> i \<notin> cn_closed_wt_sessions c2 \<and> \<not> wt_stream_known c2 i \<longrightarrow>
      (let buf = bytes_arrived c2 i data;
           refused = Some (undispatched c2 i None, stream_err RequestRejected) in
       case varint_decode buf of
         Inr (t, _) \<Rightarrow>
           vget t \<noteq> BIDIRECTIONAL_SIGNAL_VALUE \<longrightarrow> feed_stream ord c2 i data fin = refused
       | Inl _ \<Rightarrow>
           feed_stream ord c2 i data fin =
             (if \<not> fin then Some (undispatched c2 i (Some buf), Inr ())
              else if buf = [] then refused
              else failed (undispatched c2 i None) FrameError)))"
proof -
  have 0: "conn_inv c0" "cn_role c0 = Server" using new_connection [OF assms(1), of Server] assms(3) by auto
  then have 1: "conn_inv c1" "cn_role c1 = Server" using reach_inv [OF assms(4,2)] by (auto simp: evolves_def)
  have "conn_inv c2" "evolves c1 c2" using reach_inv [OF assms(6,2) 1(1)] by blast+
  then have 2: "conn_inv c2" "cn_role c2 = Server" "lowered (cn_last_sent_goaway_id c1) (cn_last_sent_goaway_id c2)"
    using 1(2) by (simp_all add: evolves_def)
  then obtain g' where g': "cn_last_sent_goaway_id c2 = Some g'" "vget g' \<le> i"
    using assms(5,7) by (auto simp: lowered_def)
  have "cn_streams c3 i = None" if "conn_reach ord c2 c3" for c3
    using reach_inv [OF that assms(2) 2(1)] 2(2) g' assms(8) by (auto simp: evolves_def refuses_above_def)
  moreover have refused: "handle_bidirectional_stream ord (undispatched c2 i None) i b f =
      Some (undispatched c2 i None, stream_err RequestRejected)" if "i \<notin> cn_closed_wt_sessions c2" for b f
    using that 2(2) g' assms(8) by (simp add: handle_bidirectional_stream_def is_some_and_def)
  moreover have "feed_stream ord c2 i data fin = remember_connection_error (dispatch_stream ord c2 i data fin)"
    if "cn_error c2 = None" using that by (simp add: feed_stream_def)
  ultimately show ?thesis
    using dispatch_fresh [OF 2(2) _ assms(8), of ord data fin]
    by (auto simp: Let_def remember_connection_error_def failed_def split: sum.split)
qed

text \<open>A server that sent GOAWAY(0), and how a two byte frame type arrives on stream 4.\<close>

lemma goaway_example:
  obtains c0 c1 where "connection_new Server plain_settings = Some c0" "conn_reach sorted_list_of_set c0 c1"
    "cn_last_sent_goaway_id c1 = Some (VarInt 0)" "cn_streams c1 = Map.empty" "cn_error c1 = None"
    "cn_closed_wt_sessions c1 = {}" "\<not> wt_stream_known c1 4" "cn_pending_bidi_dispatch c1 = Map.empty"
proof -
  obtain c0 where c0: "connection_new Server plain_settings = Some c0" "cn_role c0 = Server" "cn_error c0 = None"
    "cn_streams c0 = Map.empty" "cn_wt_sessions c0 = Map.empty" "cn_closed_wt_sessions c0 = {}" "conn_inv c0"
    using new_connection [OF plain_settings_wf, of Server] by blast
  note f = new_connection_fields [OF c0(1)]
  have g: "varint_ok (VarInt 0)" "cs_send_state (cn_control_send c0) = CsReady"
    using c0(7) by (simp_all add: conn_inv_ex_def critical_inv_def varint_ok_iff)
  obtain s where s: "conn_apply sorted_list_of_set (SendGoaway (VarInt 0)) c0 =
      Some (c0\<lparr>cn_control_send := s, cn_last_sent_goaway_id := Some (VarInt 0)\<rparr>)"
    using c0(2,3) f(6)
    by (simp add: cn_send_goaway_def check_error_state_def tryC_def is_some_and_def cs_send_goaway_sends [OF g]
        remember_connection_error_def)
  have "conn_reach sorted_list_of_set c0 (c0\<lparr>cn_control_send := s, cn_last_sent_goaway_id := Some (VarInt 0)\<rparr>)"
    by (rule CrCall [OF CrStart _ s]) (simp add: g(1))
  from that [OF c0(1) this] c0(3-6) f show thesis by (simp add: wt_stream_known_def)
qed

theorem goaway_refuses_requests_witness:
  "\<exists>c0 c1 c2. connection_new Server plain_settings = Some c0 \<and> conn_reach sorted_list_of_set c0 c1 \<and>
    cn_last_sent_goaway_id c1 = Some (VarInt 0) \<and>
    feed_stream sorted_list_of_set c1 4 [0x40] False = Some (c2, Inr ()) \<and>
    feed_stream sorted_list_of_set c2 4 [0x21, 0x00] False = Some (undispatched c2 4 None, stream_err RequestRejected) \<and>
    cn_streams c2 4 = None"
proof -
  obtain c0 c1 where c: "connection_new Server plain_settings = Some c0" "conn_reach sorted_list_of_set c0 c1"
    "cn_last_sent_goaway_id c1 = Some (VarInt 0)" "cn_streams c1 = Map.empty" "cn_error c1 = None"
    "cn_closed_wt_sessions c1 = {}" "\<not> wt_stream_known c1 4" "cn_pending_bidi_dispatch c1 = Map.empty"
    using goaway_example .
  note refuses = goaway_refuses_requests [OF plain_settings_wf enumerates_sorted c(1,2,3)]
  let ?c2 = "undispatched c1 4 (Some [0x40])"
  have v: "varint_decode [0x40] = Inl DecodeBufferTooShort" "varint_decode [0x40, 0x21, 0x00] = Inr (VarInt 0x21, 2)"
    by (simp_all add: varint_decode_def Let_def from_be_bytes_def)
  have none: "cn_streams c1 4 = None" using c(4) by simp
  have f: "feed_stream sorted_list_of_set c1 4 [0x40] False = Some (?c2, Inr ())"
    using refuses [OF CrStart, of 4, THEN conjunct2, of "[0x40]" False] c v(1) none
    by (simp add: bytes_arrived_def Let_def)
  have known: "\<not> wt_stream_known ?c2 4" using c(7) by (simp add: wt_stream_known_def undispatched_def)
  have e: "cn_error ?c2 = None" "cn_pending_bidi_dispatch ?c2 4 = Some [0x40]" using c(5) by (simp_all add: undispatched_def)
  have r: "conn_reach sorted_list_of_set c1 ?c2"
    by (rule CrCall [OF CrStart, of "Feed 4 [0x40] False"]) (use f c(4) in \<open>simp_all add: feed_ok_def honest_fin_def\<close>)
  have "cn_streams ?c2 4 = None"
    using refuses [OF CrStart, of 4, THEN conjunct1, rule_format, OF _ none r] by simp
  moreover have "feed_stream sorted_list_of_set ?c2 4 [0x21, 0x00] False = Some (undispatched ?c2 4 None, stream_err RequestRejected)"
    using refuses [OF r, of 4, THEN conjunct2, of "[0x21, 0x00]" False] known e c(4,6) v(2)
    by (simp add: bytes_arrived_def BIDIRECTIONAL_SIGNAL_VALUE_def Let_def)
  ultimately show ?thesis using c(1-3) f by blast
qed

end
