(* ===== verification/Connection_Delivery.thy ===== *)
theory Connection_Delivery
  imports Connection_Safety
begin

text \<open>
  Two connections: the bytes that a client hands out for a request are fed to a server.  The section is
  encoded and decoded, framed and parsed, validated on both sides; the events of the server tell its
  application what the other one sent.
\<close>

section \<open>Sending\<close>

text \<open>The stream \<open>i\<close> of a client has \<open>data\<close> to hand out, and then FIN or more to come.\<close>

definition offering :: "connection \<Rightarrow> u64 \<Rightarrow> bytes \<Rightarrow> bool \<Rightarrow> bool" where
  "offering c i data fin \<longleftrightarrow>
    (\<exists>r. cn_streams c i = Some r \<and> sb_inv (rs_send_buf r) \<and> sb_peek (rs_send_buf r) = data \<and>
      sb_fin (rs_send_buf r) = fin \<and> \<not> sb_fin_sent (rs_send_buf r) \<and>
      rs_state r = (if fin then SsLocalClosed else SsOpen) \<and>
      (\<not> fin \<longrightarrow> rs_send_state r = RsHeadersSent \<or> rs_send_state r = RsSendingBody)) \<and>
    cs_stream_id (cn_control_send c) \<noteq> Some i \<and> cn_encoder_stream_id c \<noteq> Some i \<and>
    cn_decoder_stream_id c \<noteq> Some i \<and> cn_wt_sessions c i = None \<and> i \<notin> cn_closed_wt_sessions c \<and>
    cn_error c = None"

text \<open>With an empty table, a section has static references and literals only.\<close>

lemma encode_static:
  assumes "dt_entries (qe_table (cn_qpack_encoder c)) = []"
  shows "encode_qpack_headers c hs b =
    Some (c\<lparr>cn_qpack_encoder := (cn_qpack_encoder c)\<lparr>qe_last_ric := 0\<rparr>\<rparr>, Inr (static_section (cn_qpack_encoder c) hs))"
proof -
  let ?buf = "replicate (estimate_encoded_size hs + 64) (0 :: u8)"
  have "estimate_encoded_size hs \<le> length ?buf" by simp
  from estimate_suffices [OF this] obtain out len where
    "encode_static_only (cn_qpack_encoder c) ?buf hs = Some (out, len)" by blast
  moreover from this have "take len out = static_section (cn_qpack_encoder c) hs"
    using writesD [OF writes_static_only [of "cn_qpack_encoder c" hs], of ?buf] by (auto split: if_splits)
  ultimately show ?thesis
    using assms by (simp add: encode_qpack_headers_def eval_nat_numeral qe_encode_def Let_def)
qed

text \<open>The estimate is linear in the size of the section, so that only absurd sections are not encodable.\<close>

lemma integer_len_bound: "encoded_integer_len v p \<le> v + 2"
proof -
  have "encoded_integer_len_loop r n \<le> n + 1 + r" for r n
  proof (induction r n rule: encoded_integer_len_loop.induct)
    case (1 r n)
    have "128 \<le> r \<Longrightarrow> drop_bit 7 r < r" by (simp add: drop_bit_eq_div)
    with 1 show ?case by (subst encoded_integer_len_loop.simps) fastforce
  qed
  from this [of "v - (2 ^ p - 1)" 1] have "encoded_integer_len_loop (v - (2 ^ p - 1)) 1 \<le> v + 2" by linarith
  then show ?thesis by (simp add: encoded_integer_len_def Let_def)
qed

lemma estimate_step_bound: "estimate_step h n \<le> n + 200 + 2 * header_size h"
proof -
  obtain se sn where f: "find_static_entry (h_name h) (h_value h) = (se, sn)" by fastforce
  have "\<And>j. se = Some j \<or> sn = Some j \<Longrightarrow> j < 99"
    using find_static_entry_spec [OF f] by (auto simp: get_static_entry_Some)
  then show ?thesis
    using integer_len_bound [of "the se" 6] integer_len_bound [of "the sn" 4]
      integer_len_bound [of "length (h_name h)" 3] integer_len_bound [of "length (h_value h)" 7]
    by (cases se; cases sn) (fastforce simp: estimate_step_def f encoded_string_len_def header_size_def)+
qed

lemma section_encodable:
  assumes "section_size hs < 2 ^ 54"
  shows "encodable hs"
proof -
  have "fold estimate_step hs n \<le> n + 9 * section_size hs" for n
  proof (induction hs arbitrary: n)
    case (Cons h hs)
    have "32 \<le> header_size h" by (simp add: header_size_def)
    with Cons [of "estimate_step h n"] estimate_step_bound [of h n] show ?case by (simp add: section_size_def)
  qed (simp add: section_size_def)
  from this [of 2] assms show ?thesis by (simp add: encodable_def estimate_encoded_size_def)
qed

lemma static_section_short:
  assumes "encodable hs"
  shows "length (static_section e hs) < 2 ^ 62"
proof -
  have "length (static_section e hs) \<le> estimate_encoded_size hs"
    using estimate_fold [of 2 "qe_use_huffman e" hs] by (simp add: static_section_def estimate_encoded_size_def)
  with assms show ?thesis by (simp add: encodable_def)
qed

lemma not_connect:
  assumes "\<not> has_header_value hs '':method'' (ascii ''CONNECT'')"
  shows "\<not> is_webtransport_connect hs" "\<not> is_plain_connect hs"
  using assms by (simp_all add: is_webtransport_connect_def is_plain_connect_def)

lemma send_headers_new:
  assumes "length buf < 2 ^ 62" "rs_send_state r = RsInitial" "rs_state r = SsOpen"
  shows "send_encoded_headers r buf fin False =
    Some (rs_finish_sending
      (r\<lparr>rs_send_buf := sb_push (rs_send_buf r) (frame_bytes (HeadersFrame buf)), rs_send_state := RsHeadersSent\<rparr>) fin,
      Inr ())"
  using request_frame_wf(1) [OF assms(1)]
  by (simp add: send_encoded_headers_def can_send_def headers_check_def headers_sent_state_def rs_push_frame_sends
      assms(2,3) Let_def)

lemma send_request_offers:
  assumes "conn_inv c" "dt_entries (qe_table (cn_qpack_encoder c)) = []" "encodable hs" "cn_next_stream_id c < 2 ^ 62"
    "\<not> has_header_value hs '':method'' (ascii ''CONNECT'')" "check_request c hs = Inr ()"
  shows "\<exists>c'. cn_send_request c hs fin = Some (c', Inr (cn_next_stream_id c)) \<and>
    offering c' (cn_next_stream_id c) (frame_bytes (HeadersFrame (static_section (cn_qpack_encoder c) hs))) fin \<and>
    (\<exists>q m. c' = c\<lparr>cn_next_stream_id := cn_next_stream_id c + 4, cn_qpack_encoder := q, cn_streams := m\<rparr>)"
proof -
  let ?i = "cn_next_stream_id c" and ?buf = "static_section (cn_qpack_encoder c) hs"
  let ?q = "(cn_qpack_encoder c)\<lparr>qe_last_ric := 0\<rparr>"
  note role = check_request_ok(1) [OF assms(6)]
  have valid: "cn_error c = None"
    using assms(6) by (auto simp: check_request_def check_error_state_def bindR_Inr_iff split: if_splits option.splits)
  have i: "checked_add ?i 4 = Some (?i + 4)" using assms(4) by (simp add: checked_add_def)
  let ?n = "c\<lparr>cn_qpack_encoder := ?q, cn_next_stream_id := ?i + 4\<rparr>"
  let ?r = "request_stream_for ?n ?i hs"
  have r: "rs_send_state ?r = RsInitial" "rs_state ?r = SsOpen" "rs_send_buf ?r = sb_new"
    by (simp_all add: request_stream_for_def new_request_stream_def rs_new_def rs_set_max_received_body_size_def
        rs_set_wt_connect_def rs_set_is_head_request_def rs_set_connect_request_def Let_def)
  note sent = send_headers_new [OF static_section_short [OF assms(3)] r(1,2), of "cn_qpack_encoder c" fin]
  let ?s = "rs_finish_sending (?r\<lparr>rs_send_buf := sb_push (rs_send_buf ?r) (frame_bytes (HeadersFrame ?buf)),
      rs_send_state := RsHeadersSent\<rparr>) fin"
  have c': "cn_send_request c hs fin =
      Some (?n\<lparr>cn_qpack_encoder := qe_track_section ?q ?i 0, cn_streams := (cn_streams c)(?i \<mapsto> ?s)\<rparr>, Inr ?i)"
    using not_connect [OF assms(5)] assms(5)
    by (simp add: cn_send_request_def assms(6) encode_static [OF assms(2)] tryC_def bindC_def i Let_def sent)
  have none: "cn_wt_sessions c ?i = None" "?i \<notin> cn_closed_wt_sessions c"
    using conn_inv_wt [OF assms(1)] role by (auto simp: wt_inv_def wt_sessions_inv_def)
  have "?i mod 4 = 0" using assms(1) role by (simp add: conn_inv_ex_def critical_inv_def)
  then have "\<not> kind_is_unidirectional (kind_from_stream_id ?i)" by (simp add: kind_from_stream_id_mod)
  then have own: "cs_stream_id (cn_control_send c) \<noteq> Some ?i" "cn_encoder_stream_id c \<noteq> Some ?i"
    "cn_decoder_stream_id c \<noteq> Some ?i"
    using critical_ids [OF assms(1)] by (auto simp: own_ids_def)
  have "sb_inv (sb_push sb_new d)" "sb_peek (sb_push sb_new d) = d" "\<not> sb_fin_sent sb_new" for d
    using sbq.push_inv [of sb_new] sbq.push_view [of sb_new] by (simp_all, simp add: sb_new_def)
  with none own valid r have "offering
      (?n\<lparr>cn_qpack_encoder := qe_track_section ?q ?i 0, cn_streams := (cn_streams c)(?i \<mapsto> ?s)\<rparr>) ?i
      (frame_bytes (HeadersFrame ?buf)) fin"
    by (auto simp: offering_def rs_finish_sending_def)
  moreover have "?n\<lparr>cn_qpack_encoder := x, cn_streams := m\<rparr> =
      c\<lparr>cn_next_stream_id := ?i + 4, cn_qpack_encoder := x, cn_streams := m\<rparr>" for x m
    by (intro connection.equality) simp_all
  ultimately show ?thesis using c' by auto
qed

lemma send_body_offers:
  assumes "offering c i [] False" "length data < 2 ^ 62"
  shows "\<exists>c'. cn_send_body c i data fin = Some (c', Inr ()) \<and>
    offering c' i (if data = [] then [] else frame_bytes (DataFrame data)) fin"
proof -
  obtain r where r: "cn_streams c i = Some r" "sb_inv (rs_send_buf r)" "sb_peek (rs_send_buf r) = []"
    "\<not> sb_fin (rs_send_buf r)" "\<not> sb_fin_sent (rs_send_buf r)" "rs_state r = SsOpen"
    "rs_send_state r = RsHeadersSent \<or> rs_send_state r = RsSendingBody"
    using assms(1) by (auto simp: offering_def)
  let ?r = "if data = [] then r else
      r\<lparr>rs_send_buf := sb_push (rs_send_buf r) (frame_bytes (DataFrame data)), rs_send_state := RsSendingBody\<rparr>"
  have "send_body r data fin = Some (rs_finish_sending ?r fin, Inr ())"
    using r request_frame_wf(2) [OF assms(2)] by (auto simp: send_body_def can_send_def rs_push_frame_sends)
  moreover have "cn_error c = None" using assms(1) by (simp add: offering_def)
  ultimately have "cn_send_body c i data fin =
      Some (c\<lparr>cn_streams := (cn_streams c)(i \<mapsto> rs_finish_sending ?r fin)\<rparr>, Inr ())"
    using r(1) by (simp add: cn_send_body_def check_error_state_def tryC_def remember_connection_error_def)
  with r assms(1) sbq.push_inv [OF r(2)] sbq.push_view [OF r(2)] show ?thesis
    by (auto simp: offering_def rs_finish_sending_def)
qed

lemma take_offered:
  assumes "offering c i data fin" "data \<noteq> []"
  shows "\<exists>c'. take_stream_data ord c i = Some (c', Some (data, False)) \<and> offering c' i [] fin"
proof -
  obtain r where r: "cn_streams c i = Some r" "sb_inv (rs_send_buf r)" "sb_peek (rs_send_buf r) = data"
    "\<not> sb_fin_sent (rs_send_buf r)" "rs_state r = (if fin then SsLocalClosed else SsOpen)"
    using assms(1) by (auto simp: offering_def)
  obtain b where b: "sb_consume (rs_send_buf r) (length data) = Some b" "sb_inv b" "sb_peek b = []"
    using sbq.consume_Some [OF r(2), of "length data"] r(3) by auto
  have g: "get_stream_data ord c i = Some (c, Some (data, False))"
    using assms r(1,3)
    by (simp add: get_stream_data_def offering_def has_fin_pending_def buffer_tests get_send_data_def
        first_nonempty_def)
  have "remove_stream_if_done (c\<lparr>cn_streams := (cn_streams c)(i \<mapsto> r\<lparr>rs_send_buf := b\<rparr>)\<rparr>) i =
      c\<lparr>cn_streams := (cn_streams c)(i \<mapsto> r\<lparr>rs_send_buf := b\<rparr>)\<rparr>"
    using r(5) assms(1) by (simp add: remove_stream_if_done_def offering_def)
  with assms r(1) b(1) g have "take_stream_data ord c i =
      Some (c\<lparr>cn_streams := (cn_streams c)(i \<mapsto> r\<lparr>rs_send_buf := b\<rparr>)\<rparr>, Some (data, False))"
    by (simp add: take_stream_data_def consume_stream_data_def consume_send_data_def offering_def)
  with assms(1) r b consume_fin(2) [OF b(1)] show ?thesis by (auto simp: offering_def)
qed

lemma take_fin:
  assumes "offering c i [] True"
  shows "\<exists>c'. take_stream_data ord c i = Some (c', Some ([], True))"
proof -
  obtain r where r: "cn_streams c i = Some r" "has_fin_pending r" "rs_state r = SsLocalClosed"
    "sb_inv (rs_send_buf r)" "sb_peek (rs_send_buf r) = []"
    using assms by (auto simp: offering_def has_fin_pending_def buffer_tests)
  let ?c = "c\<lparr>cn_streams := (cn_streams c)(i \<mapsto> mark_fin_sent r)\<rparr>"
  have g: "get_stream_data ord c i = Some (?c, Some ([], True))"
    using assms r(1,2) by (simp add: get_stream_data_def offering_def update_stream_def Let_def)
  have m: "sb_inv (rs_send_buf (mark_fin_sent r))" "sb_peek (rs_send_buf (mark_fin_sent r)) = []"
    using r(4,5) by (simp_all add: mark_fin_sent_def sb_mark_fin_sent_def sb_inv_def sb_peek_def)
  obtain b where "sb_consume (rs_send_buf (mark_fin_sent r)) 0 = Some b"
    using sbq.consume_Some [OF m(1), of 0] by auto
  with assms g show ?thesis
    by (simp add: take_stream_data_def consume_stream_data_def consume_send_data_def offering_def)
qed

section \<open>Receiving\<close>

text \<open>Only names and values count, not how a field is to be indexed.\<close>

lemma received_fields [simp]: "h_name (received h) = h_name h" "h_value (received h) = h_value h"
  by (simp_all add: received_def header_from_validated_parts_def)

lemma request_field_received [simp]: "request_field f (received h) = request_field f h"
  by (simp only: request_field_def received_fields)

lemma content_length_field_received [simp]: "content_length_field f (received h) = content_length_field f h"
  by (simp only: content_length_field_def received_fields)

lemma validate_received: "validate_request_headers (map received hs) = validate_request_headers hs"
proof -
  have "request_fields_of f (map received hs) = request_fields_of f hs" for f
    by (induction hs arbitrary: f) (simp_all add: bindR_def split: sum.split)
  then show ?thesis by (simp add: validate_request_headers_def)
qed

lemma has_header_received [simp]: "has_header_value (map received hs) n v = has_header_value hs n v"
  by (simp add: has_header_value_def)

lemma content_length_received: "validate_content_length (map received hs) n skip = validate_content_length hs n skip"
proof -
  have "content_length_of f (map received hs) = content_length_of f hs" for f
    by (induction hs arbitrary: f) (simp_all add: bindR_def split: sum.split)
  then show ?thesis by (simp add: validate_content_length_def)
qed

text \<open>The stream \<open>i\<close> is new to a server, or it got a request and this much of its body.\<close>

definition expecting :: "connection \<Rightarrow> u64 \<Rightarrow> bool" where
  "expecting s i \<longleftrightarrow> cn_role s = Server \<and> cn_error s = None \<and> i mod 4 = 0 \<and> cn_streams s i = None \<and> \<not> elsewhere s i \<and>
    (\<forall>g. cn_last_sent_goaway_id s = Some g \<longrightarrow> i < vget g)"

definition receiving :: "connection \<Rightarrow> u64 \<Rightarrow> header list \<Rightarrow> bytes \<Rightarrow> u64 \<Rightarrow> bool" where
  "receiving s i hs body m \<longleftrightarrow> cn_role s = Server \<and> cn_error s = None \<and> i mod 4 = 0 \<and> \<not> elsewhere s i \<and>
    (\<exists>r. cn_streams s i = Some r \<and> rs_inv r \<and> rs_pending r = [] \<and> \<not> rb_fin (rs_recv_buf r) \<and>
      rs_recv_state r = RrReceivingBody \<and> \<not> rs_is_wt_connect r \<and> \<not> rs_qpack_blocked r \<and>
      rs_recv_headers r = hs \<and> rs_recv_body r = body \<and> rs_state r = SsOpen \<and> rs_max_received_body_size r = m)"

text \<open>A whole frame in the buffer of a stream.\<close>

lemma process_raw_frame:
  assumes "rs_inv r" "rs_pending r = frame_bytes f" "wf_frame f" "f = HeadersFrame p \<or> f = DataFrame p"
    "process_frame (r\<lparr>rs_first_frame_processed := True\<rparr>) f = (r1, Some res)"
  shows "\<exists>q. process_raw r = (r1\<lparr>rs_recv_buf := q\<rparr>, res) \<and> rb_inv q \<and> rb_peek q = [] \<and> rb_fin q = rb_fin (rs_recv_buf r)"
proof -
  have "process_frame ((strip r)\<lparr>rs_first_frame_processed := True\<rparr>) f = (strip r1, Some res)"
    using process_frame_strip [of "rs_recv_buf r" r True f] assms(5) by simp
  from request_step_frame [OF assms(3,4) this, of "\<lambda>_. False" "[]"]
  have "request_run (strip r) (frame_bytes f) = (strip r1, [], res)"
    by (auto simp: request_step_def notify_if_def split: prod.splits sum.splits option.splits raw_received_data.splits)
  moreover obtain r2 x where p: "process_raw r = (r2, x)" by fastforce
  ultimately have v: "strip r2 = strip r1" "rs_pending r2 = []" "x = res" "rs_inv r2"
    using process_raw_run [OF assms(1)] assms(2) by (auto simp: view3_def)
  have "rs_recv_buf r1 = rs_recv_buf r" using process_frame_buf [OF assms(5)] by simp
  then have f: "rb_fin (rs_recv_buf r2) = rb_fin (rs_recv_buf r)"
    using arg_cong [OF v(1), of "\<lambda>r. rb_fin (rs_recv_buf r)"] by simp
  have "r2 = r1\<lparr>rs_recv_buf := rs_recv_buf r2\<rparr>"
    using v(1) by (cases r1; cases r2) (simp add: strip_def)
  with p v f show ?thesis by (auto simp: rs_pending_def rs_inv_def)
qed

lemma process_raw_empty:
  assumes "rs_pending r = []"
  shows "process_raw r =
    (if rb_fin (rs_recv_buf r) \<and> rs_recv_state r \<noteq> RrComplete then
       if rs_recv_state r = RrWaitingHeaders then (r, Inl (StreamError MessageError))
       else (r\<lparr>rs_state := close_remote (rs_state r), rs_recv_state := RrComplete\<rparr>, Inr (Some RawStreamEnd))
     else (r, Inr None))"
  using assms by (subst process_raw.simps) (simp add: process_once_def rs_pending_def)

lemma receive_view:
  assumes "rs_inv r"
  shows "rs_inv (rs_receive r d fin)" "rs_pending (rs_receive r d fin) = rs_pending r @ d"
    "rb_fin (rs_recv_buf (rs_receive r d fin)) = (fin \<or> rb_fin (rs_recv_buf r))"
    "\<exists>q. rs_receive r d fin = r\<lparr>rs_recv_buf := q\<rparr>"
  using assms rbq.push_inv [of "rs_recv_buf r" d] rbq.push_view [of "rs_recv_buf r" d]
  by (auto simp: rs_receive_def rs_inv_def rs_pending_def Let_def)

text \<open>The loop over the frames stops at an empty buffer.\<close>

lemma frames_stop:
  assumes "cn_streams c i = Some r" "rs_pending r = []" "rb_fin (rs_recv_buf r) \<longrightarrow> rs_recv_state r = RrComplete"
    "rs_state r = SsOpen \<or> rs_state r = SsRemoteClosed" "i \<notin> cn_closed_wt_sessions c"
  shows "process_stream_frames ord c i = Some (c, Inr ())"
proof -
  have "c\<lparr>cn_streams := (cn_streams c)(i \<mapsto> r)\<rparr> = c"
    using assms(1) by (intro connection.equality) (simp_all add: fun_upd_idem)
  moreover have "process_raw r = (r, Inr None)" using assms(2,3) by (simp add: process_raw_empty)
  ultimately show ?thesis
    using assms by (subst process_stream_frames.simps) (auto simp: remove_stream_if_done_def)
qed

lemma decode_static:
  assumes "list_all Qpack_Decoder.sendable hs" "section_size hs \<le> dd_max_field_section_size d"
  shows "dd_decode d (static_section e hs) = (d\<lparr>dd_last_ric := 0\<rparr>, Inr (Decoded (map received hs)))"
proof -
  have "list_all wf_line (map static_line hs)"
    "map (line_field (dd_table d) 0 0) (map static_line hs) = map Inr (map received hs)"
    using assms(1) static_line_field by (auto simp: list_all_iff)
  with assms(2) dd_decode_section [of 0 0 d "map static_line hs" "map received hs" "qe_use_huffman e"] show ?thesis
    by (simp add: dd_decode_required_insert_count_def static_section_lines)
qed

definition header_events :: "u64 \<Rightarrow> header list \<Rightarrow> event list" where
  "header_events i hs =
    HeadersBegin i # map (\<lambda>h. HeaderField i (h_name h) (h_value h)) hs @ [HeadersEnd i]"

lemma request_headers:
  assumes "cn_role s = Server" "validate_request_headers hs = Inr ()" "cn_streams s i = Some r"
    "\<not> has_header_value hs '':method'' (ascii ''CONNECT'')" "dd_last_ric (cn_qpack_decoder s) = 0"
  shows "emit_header_events ord s i (map received hs) False =
    Some (s\<lparr>cn_streams := (cn_streams s)(i \<mapsto> rs_set_recv_headers r (map received hs)),
      cn_events := cn_events s @ header_events i hs\<rparr>, Inr ())"
proof -
  have no: "\<not> is_webtransport_connect (map received hs)" "\<not> is_plain_connect (map received hs)"
    using not_connect [of "map received hs"] assms(4) by simp_all
  have "validate_headers (map received hs) Server = Inr ()" by (simp add: validate_received assms(2))
  with assms(1) no have "receive_message_headers ord s i (map received hs) = Some (s, Inr False)"
    by (simp add: receive_message_headers_def tryC_def bindC_def validate_wt_connect_request_server_def
        register_wt_connect_session_def handle_wt_connect_response_def Let_def)
  with assms(3,5) show ?thesis
    by (simp add: emit_header_events_def bindC_def update_stream_def acknowledge_section_def push_header_events_def
        header_events_def comp_def)
qed

lemma headers_type_byte: "varint_bytes (varint_from_static (Suc 0)) = [1]"
  by (simp add: varint_bytes_def varint_from_static_def as_u8_def)

lemma headers_arrive:
  assumes "expecting s i" "list_all Qpack_Decoder.sendable hs" "validate_request_headers hs = Inr ()"
    "\<not> has_header_value hs '':method'' (ascii ''CONNECT'')" "length (static_section e hs) < 2 ^ 62"
    "section_size hs \<le> dd_max_field_section_size (cn_qpack_decoder s)"
  shows "\<exists>s'. feed_stream ord s i (frame_bytes (HeadersFrame (static_section e hs))) False = Some (s', Inr ()) \<and>
    receiving s' i (map received hs) [] (lim_max_received_body_size (cn_limits s)) \<and>
    cn_events s' = cn_events s @ header_events i hs"
proof -
  let ?f = "HeadersFrame (static_section e hs)"
  let ?b = "frame_bytes ?f"
  have b: "?b \<noteq> []" "drop_bit 6 (?b ! 0) = 0"
    by (simp_all add: frame_bytes_def header_bytes_def headers_type_byte)
  have "feed_stream ord s i ?b False = remember_connection_error (handle_bidirectional_stream ord s i ?b False)"
    by (rule feed_fresh) (use assms(1) b in \<open>simp_all add: expecting_def\<close>)
  moreover
  let ?new = "new_request_stream s i"
  let ?r = "rs_receive ?new ?b False"
  have r0: "rs_inv ?new" "rs_pending ?new = []" "\<not> rb_fin (rs_recv_buf ?new)"
    by (simp_all add: new_request_stream_def rs_set_max_received_body_size_def rs_new_def rs_inv_def rs_pending_def)
  obtain q0 where q0: "?r = ?new\<lparr>rs_recv_buf := q0\<rparr>" using receive_view(4) [OF r0(1)] by blast
  note r = receive_view(1-3) [OF r0(1), of ?b False]
  let ?s = "s\<lparr>cn_streams := (cn_streams s)(i \<mapsto> ?r)\<rparr>"
  have "handle_bidirectional_stream ord s i ?b False = process_stream_frames ord ?s i"
    using assms(1) q0
    by (auto simp: handle_bidirectional_stream_def expecting_def elsewhere_def is_some_and_def new_request_stream_def
        rs_new_def rs_set_max_received_body_size_def Let_def split: option.split)
  moreover
  let ?x = "?r\<lparr>rs_first_frame_processed := True, rs_recv_state := RrReceivingBody\<rparr>"
  have "process_frame (?r\<lparr>rs_first_frame_processed := True\<rparr>) ?f = (?x, Some (Inr (Some (RawHeaders (static_section e hs)))))"
    using q0 by (simp add: new_request_stream_def rs_new_def rs_set_max_received_body_size_def)
  from process_raw_frame [OF r(1) _ _ _ this] r(2) r0(2) request_frame_wf(1) [OF assms(5)]
  obtain q where q: "process_raw ?r = (?x\<lparr>rs_recv_buf := q\<rparr>, Inr (Some (RawHeaders (static_section e hs))))"
    "rb_inv q" "rb_peek q = []" "rb_fin q = rb_fin (rs_recv_buf ?r)" by auto
  let ?t = "s\<lparr>cn_streams := (cn_streams s)(i \<mapsto> ?x\<lparr>rs_recv_buf := q\<rparr>),
      cn_qpack_decoder := (cn_qpack_decoder s)\<lparr>dd_last_ric := 0\<rparr>\<rparr>"
  let ?y = "rs_set_recv_headers (?x\<lparr>rs_recv_buf := q\<rparr>) (map received hs)"
  let ?u = "?t\<lparr>cn_streams := (cn_streams s)(i \<mapsto> ?y), cn_events := cn_events s @ header_events i hs\<rparr>"
  have "emit_header_events ord ?t i (map received hs) False = Some (?u, Inr ())"
    using request_headers [of ?t hs i "?x\<lparr>rs_recv_buf := q\<rparr>" ord] assms(1,3,4) by (simp add: expecting_def)
  then have h: "handle_received ord (?s\<lparr>cn_streams := (cn_streams ?s)(i \<mapsto> ?x\<lparr>rs_recv_buf := q\<rparr>)\<rparr>) i
      (RawHeaders (static_section e hs)) = Some (?u, Inr True)"
    by (simp add: receive_section_def decode_static [OF assms(2,6)] bindC_def)
  have s2: "process_stream_frames ord ?u i = Some (?u, Inr ())"
    using assms(1) q r(3) r0(3) q0
    by (intro frames_stop [where r = ?y])
      (auto simp: rs_set_recv_headers_def rs_pending_def expecting_def elsewhere_def new_request_stream_def rs_new_def
        rs_set_max_received_body_size_def)
  have "process_stream_frames ord ?s i = Some (?u, Inr ())"
    using q(1) h s2 by (subst process_stream_frames.simps) simp
  moreover have "receiving ?u i (map received hs) [] (lim_max_received_body_size (cn_limits s))"
    using assms(1) q r(3) r0(3) q0
    by (auto simp: receiving_def expecting_def elsewhere_def rs_set_recv_headers_def rs_inv_def rs_pending_def
        new_request_stream_def rs_new_def rs_set_max_received_body_size_def)
  ultimately show ?thesis by (simp add: remember_connection_error_def)
qed

text \<open>What comes next on the stream.\<close>

lemma feed_known:
  assumes "receiving s i hs body m" "cn_streams s i = Some r"
    "process_stream_frames ord (s\<lparr>cn_streams := (cn_streams s)(i \<mapsto> rs_receive r data fin)\<rparr>) i = Some (s', Inr ())"
    "cn_streams s' i = Some r'" "rs_state r' = SsOpen \<or> rs_state r' = SsRemoteClosed" "i \<notin> cn_closed_wt_sessions s'"
  shows "feed_stream ord s i data fin = Some (s', Inr ())"
proof -
  have "rs_qpack_blocked (rs_receive r data fin) = rs_qpack_blocked r" by (simp add: rs_receive_def Let_def)
  then have "handle_bidirectional_stream ord s i data fin = Some (s', Inr ())"
    using assms(1-3) by (auto simp: handle_bidirectional_stream_def receiving_def elsewhere_def Let_def)
  moreover have "remove_stream_if_done s' i = s'"
    using assms(4-6) by (auto simp: remove_stream_if_done_def)
  ultimately show ?thesis
    using assms(1,2)
    by (simp add: feed_stream_def dispatch_stream_def receiving_def elsewhere_def fresh_kind
        remember_connection_error_def Let_def)
qed

lemma data_arrives:
  assumes "receiving s i hs body m" "length body + length data \<le> m" "m < 2 ^ 64" "length data < 2 ^ 62"
  shows "\<exists>s'. feed_stream ord s i (frame_bytes (DataFrame data)) False = Some (s', Inr ()) \<and>
    receiving s' i hs (body @ data) m \<and> cn_events s' = cn_events s @ [DataReceived i data]"
proof -
  let ?f = "DataFrame data"
  obtain r where r: "cn_streams s i = Some r" "rs_inv r" "rs_pending r = []" "\<not> rb_fin (rs_recv_buf r)"
    "rs_recv_state r = RrReceivingBody" "\<not> rs_is_wt_connect r" "\<not> rs_qpack_blocked r" "rs_recv_headers r = hs"
    "rs_recv_body r = body" "rs_state r = SsOpen" "rs_max_received_body_size r = m"
    using assms(1) by (auto simp: receiving_def)
  let ?r = "rs_receive r (frame_bytes ?f) False"
  obtain q0 where q0: "?r = r\<lparr>rs_recv_buf := q0\<rparr>" using receive_view(4) [OF r(2)] by blast
  note v = receive_view(1-3) [OF r(2), of "frame_bytes ?f" False]
  let ?x = "?r\<lparr>rs_first_frame_processed := True, rs_recv_body := body @ data\<rparr>"
  have "sat_add (length body) (length data) = length body + length data"
    using assms(2,3) by (simp add: sat_add_def)
  then have "process_frame (?r\<lparr>rs_first_frame_processed := True\<rparr>) ?f = (?x, Some (Inr (Some (RawData data))))"
    using r assms(2) by (simp add: q0 Let_def)
  from process_raw_frame [OF v(1) _ _ _ this] v(2) r(3) request_frame_wf(2) [OF assms(4)]
  obtain q where q: "process_raw ?r = (?x\<lparr>rs_recv_buf := q\<rparr>, Inr (Some (RawData data)))"
    "rb_inv q" "rb_peek q = []" "rb_fin q = rb_fin (rs_recv_buf ?r)" by auto
  let ?s = "s\<lparr>cn_streams := (cn_streams s)(i \<mapsto> ?r)\<rparr>"
  let ?u = "s\<lparr>cn_streams := (cn_streams s)(i \<mapsto> ?x\<lparr>rs_recv_buf := q\<rparr>), cn_events := cn_events s @ [DataReceived i data]\<rparr>"
  have "handle_received ord (?s\<lparr>cn_streams := (cn_streams ?s)(i \<mapsto> ?x\<lparr>rs_recv_buf := q\<rparr>)\<rparr>) i (RawData data) =
      Some (?u, Inr True)"
    using assms(1) by (simp add: handle_wt_data_frame_def receiving_def elsewhere_def bindC_def push_event_def)
  moreover have "process_stream_frames ord ?u i = Some (?u, Inr ())"
    using assms(1) q v(3) r q0
    by (intro frames_stop [where r = "?x\<lparr>rs_recv_buf := q\<rparr>"])
      (auto simp: rs_pending_def receiving_def elsewhere_def)
  ultimately have "process_stream_frames ord ?s i = Some (?u, Inr ())"
    using q(1) by (subst process_stream_frames.simps) simp
  then have "feed_stream ord s i (frame_bytes ?f) False = Some (?u, Inr ())"
    by (rule feed_known [OF assms(1) r(1), where r' = "?x\<lparr>rs_recv_buf := q\<rparr>"]) (use assms(1) r q0 in \<open>simp_all add: receiving_def elsewhere_def\<close>)
  moreover have "receiving ?u i hs (body @ data) m"
    using assms(1) r q q0 v(3) by (auto simp: receiving_def elsewhere_def rs_inv_def rs_pending_def)
  ultimately show ?thesis by auto
qed

lemma fin_arrives:
  assumes "receiving s i hs body m" "validate_content_length hs (length body) False = Inr ()"
  shows "\<exists>s'. feed_stream ord s i [] True = Some (s', Inr ()) \<and> cn_events s' = cn_events s @ [StreamEnd i]"
proof -
  obtain r where r: "cn_streams s i = Some r" "rs_inv r" "rs_pending r = []"
    "rs_recv_state r = RrReceivingBody" "rs_recv_headers r = hs" "rs_recv_body r = body" "rs_state r = SsOpen"
    using assms(1) by (auto simp: receiving_def)
  let ?r = "rs_receive r [] True"
  obtain q0 where q0: "?r = r\<lparr>rs_recv_buf := q0\<rparr>" using receive_view(4) [OF r(2)] by blast
  note v = receive_view(1-3) [OF r(2), of "[]" True]
  let ?x = "?r\<lparr>rs_state := SsRemoteClosed, rs_recv_state := RrComplete\<rparr>"
  have p: "process_raw ?r = (?x, Inr (Some RawStreamEnd))"
    using v r by (simp add: process_raw_empty q0)
  let ?s = "s\<lparr>cn_streams := (cn_streams s)(i \<mapsto> ?r)\<rparr>"
  let ?u = "s\<lparr>cn_streams := (cn_streams s)(i \<mapsto> ?x), cn_events := cn_events s @ [StreamEnd i]\<rparr>"
  have "handle_received ord (?s\<lparr>cn_streams := (cn_streams ?s)(i \<mapsto> ?x)\<rparr>) i RawStreamEnd = Some (?u, Inr True)"
    using assms r q0
    by (simp add: receive_stream_end_def handle_wt_stream_end_def receiving_def elsewhere_def bindC_def tryC_def
        skips_body_check_def push_event_def)
  moreover have "process_stream_frames ord ?u i = Some (?u, Inr ())"
    using assms(1) v(2) r q0
    by (intro frames_stop [where r = ?x]) (auto simp: rs_pending_def receiving_def elsewhere_def)
  ultimately have "process_stream_frames ord ?s i = Some (?u, Inr ())"
    using p by (subst process_stream_frames.simps) simp
  then have "feed_stream ord s i [] True = Some (?u, Inr ())"
    by (rule feed_known [OF assms(1) r(1), where r' = ?x]) (use assms(1) in \<open>simp_all add: receiving_def elsewhere_def\<close>)
  then show ?thesis by auto
qed

section \<open>A whole request\<close>

text \<open>The bytes of a stream are taken from one end and fed to the other; an error stops it.\<close>

definition transfer ::
    "(u64 set \<Rightarrow> u64 list) \<Rightarrow> u64 \<Rightarrow> connection \<times> connection \<Rightarrow> (connection \<times> connection) option" where
  "transfer ord i p =
    (case take_stream_data ord (fst p) i of
       Some (c, Some (data, fin)) \<Rightarrow>
         (case feed_stream ord (snd p) i data fin of
            Some (s, Inr _) \<Rightarrow> Some (c, s)
          | _ \<Rightarrow> None)
     | _ \<Rightarrow> None)"

text \<open>The body goes out in chunks, each of them transferred.\<close>

fun send_chunks ::
    "(u64 set \<Rightarrow> u64 list) \<Rightarrow> u64 \<Rightarrow> bytes list \<Rightarrow> connection \<times> connection \<Rightarrow> (connection \<times> connection) option" where
  "send_chunks ord i [] p = Some p"
| "send_chunks ord i (d # ds) p =
    (case cn_send_body (fst p) i d False of
       Some (c, Inr _) \<Rightarrow> Option.bind (transfer ord i (c, snd p)) (send_chunks ord i ds)
     | _ \<Rightarrow> None)"

definition finish_request ::
    "(u64 set \<Rightarrow> u64 list) \<Rightarrow> u64 \<Rightarrow> connection \<times> connection \<Rightarrow> (connection \<times> connection) option" where
  "finish_request ord i p =
    (case cn_send_body (fst p) i [] True of
       Some (c, Inr _) \<Rightarrow> transfer ord i (c, snd p)
     | _ \<Rightarrow> None)"

lemma frame_bytes_ne: "frame_bytes (DataFrame d) \<noteq> []" "frame_bytes (HeadersFrame d) \<noteq> []"
  by (simp_all add: frame_bytes_def header_bytes_def varint_bytes_def varint_from_static_def)

lemma chunks_delivered:
  assumes "offering c i [] False" "receiving s i hs body m" "m < 2 ^ 64"
    "length body + length (concat ds) \<le> m" "\<forall>d \<in> set ds. d \<noteq> [] \<and> length d < 2 ^ 62"
  shows "\<exists>c' s'. send_chunks ord i ds (c, s) = Some (c', s') \<and> offering c' i [] False \<and>
    receiving s' i hs (body @ concat ds) m \<and> cn_events s' = cn_events s @ map (DataReceived i) ds"
  using assms
proof (induction ds arbitrary: c s body)
  case (Cons d ds)
  have d: "d \<noteq> []" "length d < 2 ^ 62" using Cons.prems(5) by auto
  obtain c1 where c1: "cn_send_body c i d False = Some (c1, Inr ())" "offering c1 i (frame_bytes (DataFrame d)) False"
    using send_body_offers [OF Cons.prems(1) d(2), of False] d(1) by auto
  obtain c2 where c2: "take_stream_data ord c1 i = Some (c2, Some (frame_bytes (DataFrame d), False))"
    "offering c2 i [] False"
    using take_offered [OF c1(2), of ord] frame_bytes_ne by blast
  obtain s1 where s1: "feed_stream ord s i (frame_bytes (DataFrame d)) False = Some (s1, Inr ())"
    "receiving s1 i hs (body @ d) m" "cn_events s1 = cn_events s @ [DataReceived i d]"
    using data_arrives [OF Cons.prems(2) _ Cons.prems(3) d(2), of ord] Cons.prems(4) by auto
  have "transfer ord i (c1, s) = Some (c2, s1)" by (simp add: transfer_def c2(1) s1(1))
  moreover obtain c' s' where "send_chunks ord i ds (c2, s1) = Some (c', s')" "offering c' i [] False"
    "receiving s' i hs (body @ d @ concat ds) m" "cn_events s' = cn_events s1 @ map (DataReceived i) ds"
    using Cons.IH [OF c2(2) s1(2) Cons.prems(3)] Cons.prems(4,5) by auto
  ultimately show ?case using c1(1) s1(3) by auto
qed simp

lemma fin_delivered:
  assumes "offering c i [] False" "receiving s i hs body m" "validate_content_length hs (length body) False = Inr ()"
  shows "\<exists>c' s'. finish_request ord i (c, s) = Some (c', s') \<and> cn_events s' = cn_events s @ [StreamEnd i]"
proof -
  obtain c1 where c1: "cn_send_body c i [] True = Some (c1, Inr ())" "offering c1 i [] True"
    using send_body_offers [OF assms(1), of "[]" True] by auto
  obtain c2 where "take_stream_data ord c1 i = Some (c2, Some ([], True))" using take_fin [OF c1(2)] by blast
  moreover obtain s1 where "feed_stream ord s i [] True = Some (s1, Inr ())" "cn_events s1 = cn_events s @ [StreamEnd i]"
    using fin_arrives [OF assms(2,3)] by blast
  ultimately show ?thesis using c1(1) by (auto simp: finish_request_def transfer_def)
qed

text \<open>
  C1: A request (other than CONNECT) reaches the server as it was sent.  Whatever a client connection went
  through before, when it has no objection to a request, it sends it; and when the bytes of the stream,
  in the pieces in which the client offers them, are handed to a server
  for which the stream is new, then the server accepts all of it, and its events are the fields in order,
  the chunks of the body in order and the end of the stream.  The server only has to allow sections and
  bodies of this size, and Content-Length, if there is one, has to be right.
\<close>

theorem request_delivered:
  assumes "wf_h3_settings settings" "enumerates ord" "connection_new Client settings = Some c0" "conn_reach ord c0 c"
    "conn_op_ok (SendRequest hs False) c" "check_request c hs = Inr ()" "\<not> has_header_value hs '':method'' (ascii ''CONNECT'')"
    and "expecting s (cn_next_stream_id c)" "list_all Qpack_Decoder.sendable hs"
    "section_size hs \<le> dd_max_field_section_size (cn_qpack_decoder s)"
    and "length (concat ds) \<le> lim_max_received_body_size (cn_limits s)" "lim_max_received_body_size (cn_limits s) < 2 ^ 64"
    "\<forall>d \<in> set ds. d \<noteq> [] \<and> length d < 2 ^ 62" "validate_content_length hs (length (concat ds)) False = Inr ()"
  shows "\<exists>c1 p c' s'. cn_send_request c hs False = Some (c1, Inr (cn_next_stream_id c)) \<and>
    transfer ord (cn_next_stream_id c) (c1, s) = Some p \<and>
    Option.bind (send_chunks ord (cn_next_stream_id c) ds p) (finish_request ord (cn_next_stream_id c)) = Some (c', s') \<and>
    cn_events s' = cn_events s @ header_events (cn_next_stream_id c) hs @
      map (DataReceived (cn_next_stream_id c)) ds @ [StreamEnd (cn_next_stream_id c)]"
proof -
  let ?i = "cn_next_stream_id c" and ?m = "lim_max_received_body_size (cn_limits s)"
  let ?f = "frame_bytes (HeadersFrame (static_section (cn_qpack_encoder c) hs))"
  have 0: "conn_inv c0" "dt_entries (qe_table (cn_qpack_encoder c0)) = []"
    using new_connection [OF assms(1), of Client] assms(3) by auto
  then have c: "conn_inv c" "dt_entries (qe_table (cn_qpack_encoder c)) = []"
    using reach_inv [OF assms(4,2)] by (auto simp: evolves_def)
  have ok: "encodable hs" "?i < 2 ^ 62" using assms(5) by simp_all
  obtain c1 where c1: "cn_send_request c hs False = Some (c1, Inr ?i)" "offering c1 ?i ?f False"
    using send_request_offers [OF c ok assms(7,6)] by blast
  obtain c2 where c2: "take_stream_data ord c1 ?i = Some (c2, Some (?f, False))" "offering c2 ?i [] False"
    using take_offered [OF c1(2)] frame_bytes_ne by blast
  have v: "validate_request_headers hs = Inr ()"
    using assms(6) by (auto simp: check_request_def bindR_Inr_iff split: if_splits)
  obtain s2 where s2: "feed_stream ord s ?i ?f False = Some (s2, Inr ())" "receiving s2 ?i (map received hs) [] ?m"
    "cn_events s2 = cn_events s @ header_events ?i hs"
    using headers_arrive [OF assms(8,9) v assms(7) static_section_short [OF ok(1)] assms(10)] by blast
  have t: "transfer ord ?i (c1, s) = Some (c2, s2)" by (simp add: transfer_def c2(1) s2(1))
  obtain c3 s3 where 3: "send_chunks ord ?i ds (c2, s2) = Some (c3, s3)" "offering c3 ?i [] False"
    "receiving s3 ?i (map received hs) (concat ds) ?m" "cn_events s3 = cn_events s2 @ map (DataReceived ?i) ds"
    using chunks_delivered [OF c2(2) s2(2) assms(12) _ assms(13), of ord] assms(11) by auto
  obtain c4 s4 where "finish_request ord ?i (c3, s3) = Some (c4, s4)" "cn_events s4 = cn_events s3 @ [StreamEnd ?i]"
    using fin_delivered [OF 3(2,3), of ord] assms(14) by (auto simp: content_length_received)
  with c1(1) t 3(1,4) s2(3) show ?thesis by simp
qed

definition example_request :: "header list" where
  "example_request =
    [header_from_validated_parts (ascii '':method'') (ascii ''PUT''),
     header_from_validated_parts (ascii '':scheme'') (ascii ''ftp''),
     header_from_validated_parts (ascii '':path'') (ascii ''/''),
     header_from_validated_parts (ascii ''x'') (ascii ''3'')]"

lemma example_request_valid: "validate_request_headers example_request = Inr ()"
  by (simp add: example_request_def header_from_validated_parts_def validate_request_headers_def
      request_fields_none_def request_field_def bindR_def ok_or_def check_ordinary_def check_authority_def
      authority_differs_def is_http_scheme_def is_some_and_def starts_with_def is_valid_field_name_def
      is_valid_field_name_byte_def is_valid_field_value_def CONNECTION_SPECIFIC_FIELDS_def ascii_def
      is_valid_method_def is_valid_scheme_def vd_is_tchar_def is_ascii_alphanumeric_def is_ascii_digit_def
      is_ascii_lowercase_def is_ascii_uppercase_def is_ascii_alphabetic_def)

lemma example_request_length: "validate_content_length example_request 3 False = Inr ()"
  by (simp add: example_request_def header_from_validated_parts_def validate_content_length_def bindR_def
      content_length_field_def ascii_def)

lemma example_request_post: "\<not> has_header_value example_request '':method'' (ascii ''CONNECT'')"
  by (simp add: has_header_value_def example_request_def header_from_validated_parts_def ascii_def)

lemma example_request_sizes: "list_all Qpack_Decoder.sendable example_request" "section_size example_request \<le> 16384"
  by (simp_all add: example_request_def header_from_validated_parts_def ascii_def Qpack_Decoder.sendable_def
      section_size_def header_size_def)

lemma example_request_encodable: "encodable example_request"
  using example_request_sizes(2) by (simp add: section_encodable)

lemmas example_request_facts =
  example_request_valid example_request_length example_request_post example_request_encodable example_request_sizes

lemma control_id_call:
  assumes "connection_new Client settings = Some c"
  shows "conn_apply ord (SetControlId 2) c = Some (c\<lparr>cn_control_send := cs_set_stream_id (cn_control_send c) 2\<rparr>)"
proof -
  have "cn_role c = Client" using assms by (auto simp: connection_new_def bind_eq_Some_conv Let_def)
  with new_connection_fields [OF assms] show ?thesis
    by (simp add: set_control_stream_id_def tryC_def validate_self_initiated_uni_stream_id_def)
qed

theorem request_delivered_witness:
  "\<exists>c0 c1 p c' s s'. connection_new Client plain_settings = Some c0 \<and> connection_new Server plain_settings = Some s \<and>
    cn_send_request (c0\<lparr>cn_control_send := cs_set_stream_id (cn_control_send c0) 2\<rparr>) example_request False = Some (c1, Inr 0) \<and>
    transfer sorted_list_of_set 0 (c1, s) = Some p \<and>
    Option.bind (send_chunks sorted_list_of_set 0 [[1, 2], [3]] p) (finish_request sorted_list_of_set 0) = Some (c', s') \<and>
    cn_events s' = cn_events s @ header_events 0 example_request @
      [DataReceived 0 [1, 2], DataReceived 0 [3], StreamEnd 0]"
proof -
  obtain c0 where c0: "connection_new Client plain_settings = Some c0" "cn_role c0 = Client" "cn_error c0 = None"
    using new_connection [OF plain_settings_wf, of Client] by blast
  obtain s where s: "connection_new Server plain_settings = Some s" "cn_role s = Server" "cn_error s = None"
    "cn_wt_sessions s = Map.empty" "cn_closed_wt_sessions s = {}" "cn_streams s = Map.empty"
    using new_connection [OF plain_settings_wf, of Server] by blast
  note f = new_connection_fields [OF c0(1)] and g = new_connection_fields [OF s(1)]
  let ?c = "c0\<lparr>cn_control_send := cs_set_stream_id (cn_control_send c0) 2\<rparr>"
  have reach: "conn_reach sorted_list_of_set c0 ?c"
    using control_id_call [OF c0(1)] by (intro CrCall [OF CrStart, of "SetControlId 2"]) simp_all
  have next_id: "cn_next_stream_id ?c = 0" using f by simp
  have d: "dd_max_field_section_size (cn_qpack_decoder s) = 16384"
    using s(1)
    by (auto simp: connection_new_def bind_eq_Some_conv Let_def settings_from_limits_def limits_default_def
        varint_new_def VARINT_MAX_def merge_settings_def plain_settings_def dd_set_max_field_section_size_def)
  have "conn_op_ok (SendRequest example_request False) ?c" using example_request_facts(4) next_id by simp
  moreover have "check_request ?c example_request = Inr ()"
    using c0 f example_request_facts(1) not_connect(1) [OF example_request_facts(3)]
    by (simp add: check_request_def check_error_state_def peer_max_section_def check_field_section_size_def
        validate_wt_connect_request_def peer_goaway_request_boundary_def is_some_and_def cs_set_stream_id_def)
  moreover have "expecting s (cn_next_stream_id ?c)"
    unfolding next_id using s g by (simp add: expecting_def elsewhere_def)
  ultimately show ?thesis
    using request_delivered [OF plain_settings_wf enumerates_sorted c0(1) reach, of example_request s "[[1, 2], [3]]"]
      c0(1) s(1) next_id d g example_request_facts by (simp add: numeral_3_eq_3)
qed

theorem requests_ordered_below_goaway_witness:
  "\<exists>c0 c1 c2. connection_new Client plain_settings = Some c0 \<and>
    cn_send_request (c0\<lparr>cn_control_send := cs_set_stream_id (cn_control_send c0) 2\<rparr>) example_request True = Some (c1, Inr 0) \<and>
    cn_send_request c1 example_request True = Some (c2, Inr 4) \<and> (0 :: u64) < 4"
proof -
  obtain c0 where c0: "connection_new Client plain_settings = Some c0" "cn_role c0 = Client" "cn_error c0 = None"
    "conn_inv c0" "dt_entries (qe_table (cn_qpack_encoder c0)) = []"
    using new_connection [OF plain_settings_wf, of Client] by blast
  note f = new_connection_fields [OF c0(1)]
  let ?c = "c0\<lparr>cn_control_send := cs_set_stream_id (cn_control_send c0) 2\<rparr>"
  have reach: "conn_reach sorted_list_of_set c0 ?c"
    using control_id_call [OF c0(1)] by (intro CrCall [OF CrStart, of "SetControlId 2"]) simp_all
  have c: "conn_inv ?c" "cn_next_stream_id ?c = 0" "dt_entries (qe_table (cn_qpack_encoder ?c)) = []"
    using reach_inv [OF reach enumerates_sorted c0(4)] f c0(5) by simp_all
  have chk: "check_request (?c\<lparr>cn_next_stream_id := n, cn_qpack_encoder := q, cn_streams := m\<rparr>) example_request = Inr ()"
    for n q m
    using c0 f example_request_valid not_connect(1) [OF example_request_post]
    by (simp add: check_request_def check_error_state_def peer_max_section_def check_field_section_size_def
        validate_wt_connect_request_def peer_goaway_request_boundary_def is_some_and_def cs_set_stream_id_def)
  have "check_request ?c example_request = Inr ()"
    using chk [where n = "cn_next_stream_id ?c" and q = "cn_qpack_encoder ?c" and m = "cn_streams ?c"] by simp
  then obtain c1 q m where c1: "cn_send_request ?c example_request True = Some (c1, Inr 0)"
    "c1 = ?c\<lparr>cn_next_stream_id := 4, cn_qpack_encoder := q, cn_streams := m\<rparr>"
    using send_request_offers [OF c(1,3) example_request_encodable _ example_request_post, of True] c(2) by auto
  have i1: "conn_inv c1" "dt_entries (qe_table (cn_qpack_encoder c1)) = []" "cn_next_stream_id c1 = 4"
    using request_runs [OF c(1) example_request_encodable, of True] c1 c(2,3) by (auto simp: evolves_def)
  have "check_request c1 example_request = Inr ()" unfolding c1(2) by (rule chk)
  then obtain c2 where c2: "cn_send_request c1 example_request True = Some (c2, Inr 4)"
    using send_request_offers [OF i1(1,2) example_request_encodable _ example_request_post, of True] i1(3) by auto
  have "conn_op_ok (SendRequest example_request True) ?c" using example_request_encodable c(2) by simp
  from requests_ordered_below_goaway [OF plain_settings_wf enumerates_sorted c0(1) reach this c1(1) CrStart c2] c0(1) c1(1) c2
  show ?thesis by blast
qed

end
