(* ===== verification/S2n_Glue.thy ===== *)
theory S2n_Glue
  imports Connection_Send Session
begin

text \<open>
  The part of the s2n-quic integration that has logic of its own (\<^verbatim>\<open>crates/tokio-s2n-quic/src/\<close>): the
  send side of WebTransport flow control, the classification of streams and of receive results, the
  state around a connection, and what the handshake loops make of events.  The asynchronous tasks
  around it call into the QUIC library and are not modelled; where a function gets a value of that
  library, the value is a parameter.
\<close>

section \<open>Errors (\<^verbatim>\<open>error.rs\<close>)\<close>

datatype flow_control_resource = ResBidirectionalStream | ResUnidirectionalStream | ResData

text \<open>The payloads of \<^verbatim>\<open>Transport\<close>, \<^verbatim>\<open>InvalidState\<close> and \<^verbatim>\<open>Internal\<close> are text for people.\<close>

datatype s2n_error =
    S2nTransport
  | S2nHttp3 h3_error
  | S2nConnectionClosed
  | S2nStreamClosed
  | S2nInvalidState
  | S2nInternal
  | S2nFlowControlBlocked flow_control_resource

section \<open>Flow control of the sender (\<^verbatim>\<open>webtransport/flow_control.rs\<close>)\<close>

definition peer_wt_send_limits :: "h3_settings option \<Rightarrow> flow_control_limits" where
  "peer_wt_send_limits peer_settings =
    (case Option.bind peer_settings wt_part of
       None \<Rightarrow> flow_control_limits_new
     | Some wt \<Rightarrow>
         \<lparr>fl_max_streams_uni = vget (wt_initial_max_streams_uni wt),
          fl_max_streams_bidi = vget (wt_initial_max_streams_bidi wt),
          fl_max_data = vget (wt_initial_max_data wt)\<rparr>)"

record wt_send_flow_control =
  wsf_enabled :: bool
  wsf_limits :: flow_control_limits
  wsf_opened_bidi :: u64
  wsf_opened_uni :: u64
  wsf_data_sent :: u64

definition wsf_new :: "bool \<Rightarrow> flow_control_limits \<Rightarrow> wt_send_flow_control" where
  "wsf_new enabled limits =
    \<lparr>wsf_enabled = enabled, wsf_limits = limits, wsf_opened_bidi = 0, wsf_opened_uni = 0, wsf_data_sent = 0\<rparr>"

definition wsf_open :: "wt_send_flow_control \<Rightarrow> bool \<Rightarrow> wt_send_flow_control" where
  "wsf_open f bidirectional =
    (if bidirectional then f\<lparr>wsf_opened_bidi := sat_add (wsf_opened_bidi f) 1\<rparr>
     else f\<lparr>wsf_opened_uni := sat_add (wsf_opened_uni f) 1\<rparr>)"

definition wsf_try_open_stream :: "wt_send_flow_control \<Rightarrow> bool \<Rightarrow> wt_send_flow_control \<times> (s2n_error + unit)" where
  "wsf_try_open_stream f bidirectional =
    (if \<not> wsf_enabled f then (wsf_open f bidirectional, Inr ())
     else
       let (opened, limit, resource) =
             (if bidirectional then (wsf_opened_bidi f, fl_max_streams_bidi (wsf_limits f), ResBidirectionalStream)
              else (wsf_opened_uni f, fl_max_streams_uni (wsf_limits f), ResUnidirectionalStream)) in
       if limit \<le> opened then (f, Inl (S2nFlowControlBlocked resource))
       else (wsf_open f bidirectional, Inr ()))"

definition wsf_try_send_data :: "wt_send_flow_control \<Rightarrow> u64 \<Rightarrow> wt_send_flow_control \<times> (s2n_error + unit)" where
  "wsf_try_send_data f n =
    (if \<not> wsf_enabled f then (f\<lparr>wsf_data_sent := sat_add (wsf_data_sent f) n\<rparr>, Inr ())
     else if sat_sub (fl_max_data (wsf_limits f)) (wsf_data_sent f) < n then (f, Inl (S2nFlowControlBlocked ResData))
     else (f\<lparr>wsf_data_sent := sat_add (wsf_data_sent f) n\<rparr>, Inr ()))"

text \<open>The \<^verbatim>\<open>?\<close> behind a validation leaves the limits alone.\<close>

definition wsf_process_capsule ::
    "wt_send_flow_control \<Rightarrow> capsule \<Rightarrow> wt_send_flow_control \<times> (capsule_validation_error + unit)" where
  "wsf_process_capsule f c =
    (if \<not> wsf_enabled f then (f, Inr ())
     else
       case c of
         MaxStreams bidirectional maximum \<Rightarrow>
           if bidirectional then
             (case validate_max_streams maximum (fl_max_streams_bidi (wsf_limits f)) of
                Inl e \<Rightarrow> (f, Inl e)
              | Inr _ \<Rightarrow> (f\<lparr>wsf_limits := (wsf_limits f)\<lparr>fl_max_streams_bidi := maximum\<rparr>\<rparr>, Inr ()))
           else
             (case validate_max_streams maximum (fl_max_streams_uni (wsf_limits f)) of
                Inl e \<Rightarrow> (f, Inl e)
              | Inr _ \<Rightarrow> (f\<lparr>wsf_limits := (wsf_limits f)\<lparr>fl_max_streams_uni := maximum\<rparr>\<rparr>, Inr ()))
       | MaxData maximum \<Rightarrow>
           (case validate_max_data maximum (fl_max_data (wsf_limits f)) of
              Inl e \<Rightarrow> (f, Inl e)
            | Inr _ \<Rightarrow> (f\<lparr>wsf_limits := (wsf_limits f)\<lparr>fl_max_data := maximum\<rparr>\<rparr>, Inr ()))
       | StreamsBlocked _ maximum \<Rightarrow>
           if MAX_STREAMS_LIMIT < maximum then (f, Inl MaxStreamsExceedsLimit) else (f, Inr ())
       | _ \<Rightarrow> (f, Inr ()))"

section \<open>Headers of streams (\<^verbatim>\<open>webtransport/session.rs\<close>)\<close>

datatype uni_stream_header = UhWebTransport usize | UhHttp3 | UhMalformedSessionId | UhForeignSession

text \<open>\<open>None\<close> waits for more bytes.\<close>

definition classify_uni_stream_header :: "bytes \<Rightarrow> u64 option \<Rightarrow> uni_stream_header option" where
  "classify_uni_stream_header buf expected_session_id =
    (case classify_uni_stream_checked buf of
       Inr (CuWebTransport got data_offset) \<Rightarrow>
         if is_some_and expected_session_id (\<lambda>session_id. got \<noteq> session_id) then Some UhForeignSession
         else Some (UhWebTransport data_offset)
     | Inr (CuHttp3 _ _) \<Rightarrow> Some UhHttp3
     | Inl ShBufferTooShort \<Rightarrow> None
     | Inl ShInvalidFormat \<Rightarrow> Some UhHttp3
     | Inl ShInvalidSessionId \<Rightarrow> Some UhMalformedSessionId
     | Inl ShSessionIdOutOfRange \<Rightarrow> Some UhMalformedSessionId)"

datatype bi_stream_header = BhComplete bytes | BhNotWebTransport | BhMalformedSessionId | BhForeignSession

definition classify_bi_stream_header :: "bytes \<Rightarrow> u64 \<Rightarrow> bi_stream_header option" where
  "classify_bi_stream_header buf session_id =
    (case decode_bidirectional_checked buf of
       Inr (header, consumed) \<Rightarrow>
         if sh_session_id header = session_id then Some (BhComplete (drop consumed buf)) else Some BhForeignSession
     | Inl ShBufferTooShort \<Rightarrow> None
     | Inl ShInvalidFormat \<Rightarrow> Some BhNotWebTransport
     | Inl ShInvalidSessionId \<Rightarrow> Some BhMalformedSessionId
     | Inl ShSessionIdOutOfRange \<Rightarrow> Some BhMalformedSessionId)"

section \<open>Events of a session (\<^verbatim>\<open>webtransport/session.rs\<close>)\<close>

text \<open>\<^verbatim>\<open>u32::try_from(..).expect(..)\<close> cannot fail for a constant of 32 bits.\<close>

definition flow_control_error_code :: u32 where
  "flow_control_error_code = wt_code FlowControlError"

definition flow_control_error_capsule :: capsule where
  "flow_control_error_capsule = CloseSession flow_control_error_code []"

definition flow_control_error_session_closed :: "u64 \<Rightarrow> web_transport_event" where
  "flow_control_error_session_closed session_id =
    WtSessionClosed session_id [] (wt_code FlowControlError) flow_control_error_code []"

definition synthesized_session_closed :: "u64 \<Rightarrow> web_transport_event" where
  "synthesized_session_closed session_id = WtSessionClosed session_id [] (wt_code SessionGone) 0 []"

fun is_forwardable_wt_event :: "web_transport_event \<Rightarrow> bool" where
  "is_forwardable_wt_event (WtSessionClosed _ _ _ _ _) = True"
| "is_forwardable_wt_event (WtDraining _) = True"
| "is_forwardable_wt_event (WtBufferedStreamRejected _ _) = True"
| "is_forwardable_wt_event _ = False"

section \<open>What was received on a stream (\<^verbatim>\<open>internal/mod.rs\<close>)\<close>

text \<open>
  \<open>reset_code\<close> reads the code of a reset from an error of the QUIC library, and is \<open>None\<close> for every
  other error.
\<close>

datatype uni_recv_action = UrData bytes | UrFin | UrReset u64 | UrIgnore

definition classify_uni_recv :: "('e \<Rightarrow> u64 option) \<Rightarrow> 'e + bytes option \<Rightarrow> uni_recv_action" where
  "classify_uni_recv reset_code result =
    (case result of
       Inr (Some data) \<Rightarrow> UrData data
     | Inr None \<Rightarrow> UrFin
     | Inl e \<Rightarrow> (case reset_code e of Some n \<Rightarrow> UrReset n | None \<Rightarrow> UrIgnore))"

text \<open>The code with which the stream is reset, if it is.\<close>

definition reset_stream_on_stream_error :: "s2n_error \<Rightarrow> u64 option" where
  "reset_stream_on_stream_error err =
    (case err of S2nHttp3 (StreamError c) \<Rightarrow> Some (code c) | _ \<Rightarrow> None)"

section \<open>The state around a connection (\<^verbatim>\<open>internal/connection_state.rs\<close>)\<close>

text \<open>The states of server and client have the same fields.  \<open>None\<close> of an outcome is a panic.\<close>

record s2n_state =
  sn_conn :: connection
  sn_control_stream_id :: "u64 option"
  sn_encoder_stream_id :: "u64 option"
  sn_decoder_stream_id :: "u64 option"

type_synonym 'a s2n_outcome = "(s2n_state \<times> (s2n_error + 'a)) option"

definition s2n_state_of :: "connection \<Rightarrow> s2n_state" where
  "s2n_state_of c =
    \<lparr>sn_conn = c, sn_control_stream_id = None, sn_encoder_stream_id = None, sn_decoder_stream_id = None\<rparr>"

definition server_state_new :: "h3_settings \<Rightarrow> s2n_state option" where
  "server_state_new settings = map_option s2n_state_of (connection_new Server settings)"

definition client_state_new :: "h3_settings \<Rightarrow> s2n_state option" where
  "client_state_new settings = map_option s2n_state_of (connection_new Client settings)"

text \<open>A call of the connection, with its error wrapped.\<close>

definition on_conn :: "s2n_state \<Rightarrow> 'a outcome \<Rightarrow> 'a s2n_outcome" where
  "on_conn s m = map_option (\<lambda>(c, r). (s\<lparr>sn_conn := c\<rparr>, map_err S2nHttp3 r)) m"

definition then_s2n :: "'a s2n_outcome \<Rightarrow> (s2n_state \<Rightarrow> 'a \<Rightarrow> 'b s2n_outcome) \<Rightarrow> 'b s2n_outcome" where
  "then_s2n m f =
    (case m of None \<Rightarrow> None | Some (s, Inl e) \<Rightarrow> Some (s, Inl e) | Some (s, Inr x) \<Rightarrow> f s x)"

definition state_init_h3_streams ::
    "(u64 set \<Rightarrow> u64 list) \<Rightarrow> s2n_state \<Rightarrow> u64 \<Rightarrow> u64 \<Rightarrow> u64 \<Rightarrow> h3_init_data s2n_outcome" where
  "state_init_h3_streams ord s control_stream_id encoder_stream_id decoder_stream_id =
    (let s = s\<lparr>sn_control_stream_id := Some control_stream_id, sn_encoder_stream_id := Some encoder_stream_id,
               sn_decoder_stream_id := Some decoder_stream_id\<rparr> in
     on_conn s (init_h3_streams ord (sn_conn s) control_stream_id encoder_stream_id decoder_stream_id))"

fun take_each ::
    "(u64 set \<Rightarrow> u64 list) \<Rightarrow> connection \<Rightarrow> u64 list \<Rightarrow> (connection \<times> (u64 \<times> bytes) list) option" where
  "take_each ord c [] = Some (c, [])"
| "take_each ord c (i # is) = do {
     (c, r) \<leftarrow> take_stream_data ord c i;
     (c, rest) \<leftarrow> take_each ord c is;
     Some (c, (case r of Some (data, _) \<Rightarrow> (i, data) # rest | None \<Rightarrow> rest))
   }"

definition drain_qpack_data ::
    "(u64 set \<Rightarrow> u64 list) \<Rightarrow> s2n_state \<Rightarrow> (s2n_state \<times> (u64 \<times> bytes) list) option" where
  "drain_qpack_data ord s =
    map_option (\<lambda>(c, result). (s\<lparr>sn_conn := c\<rparr>, result))
      (take_each ord (sn_conn s) (opt_list (sn_encoder_stream_id s) @ opt_list (sn_decoder_stream_id s)))"

definition state_drain_events :: "(u64 set \<Rightarrow> u64 list) \<Rightarrow> s2n_state \<Rightarrow> event list s2n_outcome" where
  "state_drain_events ord s = on_conn s (drain_events ord (sn_conn s))"

definition feed_stream_only ::
    "(u64 set \<Rightarrow> u64 list) \<Rightarrow> s2n_state \<Rightarrow> u64 \<Rightarrow> bytes \<Rightarrow> bool \<Rightarrow> unit s2n_outcome" where
  "feed_stream_only ord s stream_id data fin = on_conn s (feed_stream ord (sn_conn s) stream_id data fin)"

definition process_stream_data ::
    "(u64 set \<Rightarrow> u64 list) \<Rightarrow> s2n_state \<Rightarrow> u64 \<Rightarrow> bytes \<Rightarrow> bool \<Rightarrow> event list s2n_outcome" where
  "process_stream_data ord s stream_id data fin =
    then_s2n (on_conn s (feed_stream ord (sn_conn s) stream_id data fin)) (\<lambda>s _.
    on_conn s (drain_events ord (sn_conn s)))"

definition prepare_response ::
    "(u64 set \<Rightarrow> u64 list) \<Rightarrow> s2n_state \<Rightarrow> u64 \<Rightarrow> header list \<Rightarrow> bytes \<Rightarrow> unit s2n_outcome" where
  "prepare_response ord s stream_id headers body =
    then_s2n (on_conn s (cn_send_response ord (sn_conn s) stream_id headers False)) (\<lambda>s _.
    on_conn s (cn_send_body (sn_conn s) stream_id body True))"

definition state_send_request :: "s2n_state \<Rightarrow> header list \<Rightarrow> bool \<Rightarrow> u64 s2n_outcome" where
  "state_send_request s headers fin = on_conn s (cn_send_request (sn_conn s) headers fin)"

definition state_get_stream_data ::
    "(u64 set \<Rightarrow> u64 list) \<Rightarrow> s2n_state \<Rightarrow> u64 \<Rightarrow> (s2n_state \<times> (bytes \<times> bool) option) option" where
  "state_get_stream_data ord s stream_id =
    map_option (\<lambda>(c, r). (s\<lparr>sn_conn := c\<rparr>, r)) (take_stream_data ord (sn_conn s) stream_id)"

definition stream_reset_only ::
    "(u64 set \<Rightarrow> u64 list) \<Rightarrow> s2n_state \<Rightarrow> u64 \<Rightarrow> u64 \<Rightarrow> unit s2n_outcome" where
  "stream_reset_only ord s stream_id error_code =
    on_conn s (stream_reset ord (sn_conn s) stream_id error_code 0)"

definition state_stream_reset ::
    "(u64 set \<Rightarrow> u64 list) \<Rightarrow> s2n_state \<Rightarrow> u64 \<Rightarrow> u64 \<Rightarrow> event list s2n_outcome" where
  "state_stream_reset ord s stream_id error_code =
    then_s2n (stream_reset_only ord s stream_id error_code) (\<lambda>s _. on_conn s (drain_events ord (sn_conn s)))"

definition connect_stream_reset ::
    "(u64 set \<Rightarrow> u64 list) \<Rightarrow> s2n_state \<Rightarrow> u64 \<Rightarrow> u64 \<Rightarrow> event list s2n_outcome" where
  "connect_stream_reset ord s stream_id error_code = state_stream_reset ord s stream_id error_code"

text \<open>The Boolean says whether the task goes on.\<close>

definition apply_uni_recv_action ::
    "(u64 set \<Rightarrow> u64 list) \<Rightarrow> s2n_state \<Rightarrow> u64 \<Rightarrow> uni_recv_action \<Rightarrow> bool s2n_outcome" where
  "apply_uni_recv_action ord s stream_id action =
    (case action of
       UrData data \<Rightarrow> then_s2n (feed_stream_only ord s stream_id data False) (\<lambda>s _. Some (s, Inr True))
     | UrFin \<Rightarrow> then_s2n (feed_stream_only ord s stream_id [] True) (\<lambda>s _. Some (s, Inr False))
     | UrReset error_code \<Rightarrow> then_s2n (stream_reset_only ord s stream_id error_code) (\<lambda>s _. Some (s, Inr False))
     | UrIgnore \<Rightarrow> Some (s, Inr False))"

section \<open>Events of a handshake (\<^verbatim>\<open>webtransport/client.rs\<close>, \<^verbatim>\<open>webtransport/server.rs\<close>)\<close>

text \<open>The variables that the loop around \<^verbatim>\<open>process_handshake_events\<close> keeps.\<close>

record handshake =
  hk_latest_status :: "u16 option"
  hk_session_established :: bool
  hk_pending_wt_events :: "web_transport_event list"
  hk_pending_flow_control_capsules :: "capsule list"

definition parse_status :: "bytes \<Rightarrow> u16 option" where
  "parse_status v = (if utf8_valid v then parse_u16 v else None)"

fun is_termination :: "web_transport_event \<Rightarrow> bool" where
  "is_termination (WtSessionClosed _ _ _ _ _) = True"
| "is_termination (WtDraining _) = True"
| "is_termination _ = False"

definition handshake_wt_event :: "web_transport_event \<Rightarrow> handshake \<Rightarrow> handshake \<times> (s2n_error + unit)" where
  "handshake_wt_event wt h =
    (case wt of
       WtSessionEstablished _ _ \<Rightarrow> (h\<lparr>hk_session_established := True\<rparr>, Inr ())
     | WtCapsule _ c \<Rightarrow>
         (h\<lparr>hk_pending_flow_control_capsules := hk_pending_flow_control_capsules h @ [c]\<rparr>, Inr ())
     | _ \<Rightarrow>
         if is_termination wt \<and> \<not> hk_session_established h then (h, Inl S2nConnectionClosed)
         else if is_forwardable_wt_event wt then
           (h\<lparr>hk_pending_wt_events := hk_pending_wt_events h @ [wt]\<rparr>, Inr ())
         else (h, Inr ()))"

definition handshake_event :: "event \<Rightarrow> handshake \<Rightarrow> handshake \<times> (s2n_error + unit)" where
  "handshake_event e h =
    (case e of
       HeaderField _ name v \<Rightarrow>
         if name = ascii '':status'' then (h\<lparr>hk_latest_status := parse_status v\<rparr>, Inr ()) else (h, Inr ())
     | HeadersEnd _ \<Rightarrow>
         (case hk_latest_status h of
            None \<Rightarrow> (h, Inr ())
          | Some status \<Rightarrow>
              if 100 \<le> status \<and> status < 200 then (h\<lparr>hk_latest_status := None\<rparr>, Inr ())
              else if \<not> (200 \<le> status \<and> status < 300) then (h, Inl S2nConnectionClosed)
              else (h, Inr ()))
     | WebTransport wt \<Rightarrow> handshake_wt_event wt h
     | _ \<Rightarrow> (h, Inr ()))"

fun process_handshake_events :: "event list \<Rightarrow> handshake \<Rightarrow> handshake \<times> (s2n_error + unit)" where
  "process_handshake_events [] h = (h, Inr ())"
| "process_handshake_events (e # es) h =
    (case handshake_event e h of
       (h, Inl err) \<Rightarrow> (h, Inl err)
     | (h, Inr _) \<Rightarrow> process_handshake_events es h)"

text \<open>What the server's loop keeps: the fields so far, whether they are complete, and events for later.\<close>

record request_events =
  re_collected_headers :: "(bytes \<times> bytes) list"
  re_headers_complete :: bool
  re_pending_wt_events :: "web_transport_event list"

fun collect_request_events :: "event list \<Rightarrow> request_events \<Rightarrow> request_events" where
  "collect_request_events [] r = r"
| "collect_request_events (e # es) r =
    collect_request_events es
      (case e of
         HeaderField _ name v \<Rightarrow> r\<lparr>re_collected_headers := re_collected_headers r @ [(name, v)]\<rparr>
       | HeadersEnd _ \<Rightarrow> r\<lparr>re_headers_complete := True\<rparr>
       | WebTransport wt \<Rightarrow>
           if is_forwardable_wt_event wt then r\<lparr>re_pending_wt_events := re_pending_wt_events r @ [wt]\<rparr> else r
       | _ \<Rightarrow> r)"

section \<open>The two accounts of what may be sent\<close>

text \<open>
  The library counts in its sessions what the peer allows to be sent, and the integration counts it
  once more.  The operations of both, with the answer whether it was allowed:
\<close>

datatype credit_op = SendOpen bool | SendAmount u64 | SendCapsule capsule

definition allowed :: "'s \<times> ('e + 'a) \<Rightarrow> 's \<times> bool" where
  "allowed r = (fst r, \<not> isl (snd r))"

fun glue_send :: "credit_op \<Rightarrow> wt_send_flow_control \<Rightarrow> wt_send_flow_control \<times> bool" where
  "glue_send (SendOpen b) f = allowed (wsf_try_open_stream f b)"
| "glue_send (SendAmount n) f = allowed (wsf_try_send_data f n)"
| "glue_send (SendCapsule c) f = allowed (wsf_process_capsule f c)"

fun session_send :: "credit_op \<Rightarrow> session \<Rightarrow> session \<times> bool" where
  "session_send (SendOpen b) s = try_open_stream s b"
| "session_send (SendAmount n) s = try_send_data s n"
| "session_send (SendCapsule c) s = allowed (process_capsule s c)"

text \<open>Capsules that are not about flow control do not reach the integration's account; amounts are read as varints.\<close>

fun credit_op_ok :: "credit_op \<Rightarrow> bool" where
  "credit_op_ok (SendCapsule c) \<longleftrightarrow> is_flow_control c \<and> wf_capsule c"
| "credit_op_ok _ \<longleftrightarrow> True"

fun answers :: "('o \<Rightarrow> 's \<Rightarrow> 's \<times> bool) \<Rightarrow> 'o list \<Rightarrow> 's \<Rightarrow> bool list" where
  "answers step [] s = []"
| "answers step (x # xs) s = (let (s, b) = step x s in b # answers step xs s)"

definition same_account :: "wt_send_flow_control \<Rightarrow> session \<Rightarrow> bool" where
  "same_account f s \<longleftrightarrow>
    wsf_enabled f = se_flow_control_enabled s \<and> wsf_limits f = se_remote_limits s \<and>
    wsf_opened_bidi f = fs_streams_bidi_opened (se_flow_state s) \<and>
    wsf_opened_uni f = fs_streams_uni_opened (se_flow_state s) \<and>
    wsf_data_sent f = fs_data_sent (se_flow_state s)"

lemma glue_send_agrees:
  assumes "same_account f s" "se_can_send (se_state s)" "credit_op_ok x"
  shows "snd (glue_send x f) = snd (session_send x s) \<and> same_account (fst (glue_send x f)) (fst (session_send x s)) \<and>
    se_state (fst (session_send x s)) = se_state s"
proof (cases x)
  case (SendOpen b)
  then show ?thesis using assms
    by (auto simp: same_account_def allowed_def wsf_try_open_stream_def wsf_open_def try_open_stream_def Let_def
        se_can_send_def se_can_create_stream_def opened_of_def limit_of_def set_opened_def set_last_blocked_def)
next
  case (SendAmount n)
  then show ?thesis using assms
    by (auto simp: same_account_def allowed_def wsf_try_send_data_def try_send_data_def Let_def)
next
  case (SendCapsule c)
  have p: "\<not> is_prohibited_in_http3 c" if "is_flow_control c"
    using that by (cases c) (auto simp: is_prohibited_in_http3_def is_prohibited_in_http3_type_def
      PROHIBITED_WT_MAX_STREAM_DATA_CAPSULE_TYPE_def PROHIBITED_WT_STREAM_DATA_BLOCKED_CAPSULE_TYPE_def)
  show ?thesis using SendCapsule assms p
    by (cases c) (auto simp: same_account_def allowed_def wsf_process_capsule_def process_capsule_def
        validate_max_streams_def validate_max_data_def VARINT_MAX_def flow_control_error_def)
qed


fun run_credits :: "('o \<Rightarrow> 's \<Rightarrow> 's \<times> bool) \<Rightarrow> 'o list \<Rightarrow> 's \<Rightarrow> 's" where
  "run_credits step [] s = s"
| "run_credits step (x # xs) s = run_credits step xs (fst (step x s))"

text \<open>
  C14: While a session may send, the integration's account of streams and data and the one that the
  library keeps in the session allow and refuse the same operations, whatever the peer's flow control
  capsules do in between, and stay equal.
\<close>

theorem send_accounts_agree:
  assumes "same_account f s" "se_can_send (se_state s)" "\<forall>x \<in> set ops. credit_op_ok x"
  shows "answers glue_send ops f = answers session_send ops s \<and>
    same_account (run_credits glue_send ops f) (run_credits session_send ops s)"
  using assms
proof (induction ops arbitrary: f s)
  case (Cons x xs)
  from glue_send_agrees [OF Cons.prems(1,2), of x] Cons.prems(3)
  have *: "snd (glue_send x f) = snd (session_send x s)" "same_account (fst (glue_send x f)) (fst (session_send x s))"
    "se_state (fst (session_send x s)) = se_state s" by simp_all
  with Cons.IH [OF *(2)] Cons.prems(2,3) show ?case by (simp add: split_beta)
qed simp

definition some_sends :: "credit_op list" where
  "some_sends = [SendOpen True, SendCapsule (MaxStreams True 1), SendOpen True, SendOpen True, SendAmount 3]"

theorem send_accounts_agree_witness:
  "answers session_send some_sends (se_set_established (set_flow_control_enabled (session_new 0) True)) =
    [False, True, True, False, False]"
proof -
  let ?f = "wsf_new True flow_control_limits_new"
    and ?s = "se_set_established (set_flow_control_enabled (session_new 0) True)"
  have "same_account ?f ?s" "se_can_send (se_state ?s)" "\<forall>x \<in> set some_sends. credit_op_ok x"
    by (simp_all add: same_account_def wsf_new_def session_new_def set_flow_control_enabled_def
        se_set_established_def se_can_send_def flow_control_state_new_def some_sends_def)
  from send_accounts_agree [OF this]
  have "answers session_send some_sends ?s = answers glue_send some_sends ?f" by simp
  also have "\<dots> = [False, True, True, False, False]"
    by (simp add: some_sends_def allowed_def wsf_new_def flow_control_limits_new_def wsf_try_open_stream_def
        wsf_open_def wsf_process_capsule_def wsf_try_send_data_def validate_max_streams_def MAX_STREAMS_LIMIT_def
        sat_add_def sat_sub_def Let_def)
  finally show ?thesis .
qed

text \<open>What has been used of the limits.\<close>

definition within_limits :: "wt_send_flow_control \<Rightarrow> bool" where
  "within_limits f \<longleftrightarrow>
    wsf_enabled f \<longrightarrow>
      wsf_opened_bidi f \<le> fl_max_streams_bidi (wsf_limits f) \<and> wsf_opened_uni f \<le> fl_max_streams_uni (wsf_limits f) \<and>
      wsf_data_sent f \<le> fl_max_data (wsf_limits f)"

lemma glue_send_within: "within_limits f \<Longrightarrow> within_limits (fst (glue_send x f))"
  by (cases x; simp add: allowed_def; auto simp: within_limits_def wsf_try_open_stream_def wsf_open_def
      wsf_try_send_data_def wsf_process_capsule_def validate_max_streams_def validate_max_data_def sat_add_def
      sat_sub_def Let_def split: capsule.splits if_splits)

lemma sends_within: "within_limits f \<Longrightarrow> within_limits (run_credits glue_send ops f)"
  by (induction ops arbitrary: f) (simp_all add: glue_send_within)

section \<open>Headers of streams are read from any part of them\<close>

text \<open>
  C22: However a stream is cut, the integration waits until the header is complete, and from then on hands
  out exactly the data behind it for its own session, and refuses the stream of another session.
\<close>

theorem stream_header_routed:
  assumes "stream_header_new i = Inr h" "encode_bidirectional h [] = Some b" "encode_unidirectional h [] = Some u"
  shows "classify_bi_stream_header (take k (b @ data)) j =
      (if k < length b then None
       else if i = j then Some (BhComplete (take (k - length b) data)) else Some BhForeignSession) \<and>
    classify_uni_stream_header (take k (u @ data)) expected =
      (if k < length u then None
       else if expected = None \<or> expected = Some i then Some (UhWebTransport (length u)) else Some UhForeignSession)"
proof -
  have i: "sh_session_id h = i" using stream_header_new_ok [OF assms(1)] by simp
  note r = stream_header_roundtrip [OF assms(1), of "[]"]
  have len: "length u = length b" "length b > 0"
    using r [of "[]"] assms(2,3) by (auto simp: classify_uni_stream_checked_def)
  have full: "decode_bidirectional_checked (b @ d) = Inr (h, length b)"
    "classify_uni_stream_checked (u @ d) = Inr (CuWebTransport i (length u))" for d
    using r [of d] assms(2,3) by auto
  show ?thesis
  proof (cases "k < length b")
    case True
    then have "decode_bidirectional_checked (take k b) = Inl ShBufferTooShort"
      "classify_uni_stream_checked (take k u) = Inl ShBufferTooShort"
      using r [of "[]"] assms(2,3) by auto
    with True len(1) show ?thesis by (simp add: classify_bi_stream_header_def classify_uni_stream_header_def)
  next
    case False
    then have "take k (b @ data) = b @ take (k - length b) data" "take k (u @ data) = u @ take (k - length u) data"
      using len(1) by simp_all
    with False len(1) i show ?thesis
      by (auto simp: classify_bi_stream_header_def classify_uni_stream_header_def is_some_and_def full
          split: option.split)
  qed
qed

theorem stream_header_routed_witness:
  "\<exists>b. encode_bidirectional \<lparr>sh_session_id = 8\<rparr> [] = Some b \<and> classify_bi_stream_header (b @ [1, 2]) 8 = Some (BhComplete [1, 2]) \<and>
    classify_bi_stream_header (take 1 b) 8 = None"
proof -
  have h: "stream_header_new 8 = Inr \<lparr>sh_session_id = 8\<rparr>"
    by (simp add: stream_header_new_def result_ok_def varint_new_def VARINT_MAX_def)
  obtain b u n where e: "encode_bidirectional \<lparr>sh_session_id = 8\<rparr> [] = Some b"
    "encode_unidirectional \<lparr>sh_session_id = 8\<rparr> [] = Some u" "length b = n" "n > 1"
    using encode_header(1,2) [OF stream_header_new_ok [OF h, THEN conjunct1], of "[]"]
    by (auto simp: header_wire_def length_varint_bytes BIDIRECTIONAL_SIGNAL_VALUE_def encoded_len_def)
  show ?thesis
    using stream_header_routed [OF h e(1,2), of "n + 2" "[1, 2]" 8] stream_header_routed [OF h e(1,2), of 1 "[]" 8] e
    by auto
qed

section \<open>What a handshake makes of events\<close>






lemma handshake_append:
  "process_handshake_events (a @ b) h =
    (case process_handshake_events a h of (h, Inl e) \<Rightarrow> (h, Inl e) | (h, Inr _) \<Rightarrow> process_handshake_events b h)"
  by (induction a arbitrary: h) (auto split: prod.split sum.split)





section \<open>The calls return\<close>

abbreviation s2n_runs :: "(s2n_state \<times> 'r) option \<Rightarrow> bool" where
  "s2n_runs m \<equiv> returns (\<lambda>(s, _). conn_inv (sn_conn s)) m"

lemma on_conn_runs: "runs c m \<Longrightarrow> s2n_runs (on_conn s m)"
  by (auto simp: on_conn_def returns_map_option elim!: returns_mono)

lemma then_s2n_runs:
  assumes "s2n_runs m" "\<And>s x. conn_inv (sn_conn s) \<Longrightarrow> s2n_runs (f s x)"
  shows "s2n_runs (then_s2n m f)"
  using assms by (auto simp: then_s2n_def returns_def split: sum.split)

lemma take_each_runs: "conn_inv c \<Longrightarrow> returns (\<lambda>(c, _). conn_inv c) (take_each ord c is)"
proof (induction "is" arbitrary: c)
  case (Cons i "is")
  from take_runs [OF Cons.prems, of ord i] obtain c1 r where 1: "take_stream_data ord c i = Some (c1, r)" "conn_inv c1"
    by (auto simp: returns_def)
  from Cons.IH [OF 1(2)] 1(1) show ?case by (auto simp: returns_def)
qed simp

text \<open>
  No call that the integration makes on the state around a connection panics, and all keep it in order, as
  long as QUIC delivers nothing behind FIN and the request that is answered has been delivered.
\<close>

theorem s2n_calls_return:
  assumes "conn_inv (sn_conn s)" "enumerates ord"
  shows "s2n_runs (state_init_h3_streams ord s i j k)" "s2n_runs (drain_qpack_data ord s)"
    "s2n_runs (state_drain_events ord s)" "s2n_runs (state_get_stream_data ord s i)"
    "s2n_runs (state_stream_reset ord s i n)"
    "feed_ok (sn_conn s) i data \<Longrightarrow> s2n_runs (process_stream_data ord s i data fin)"
    "feed_ok (sn_conn s) i (case action of UrData data \<Rightarrow> data | _ \<Rightarrow> []) \<Longrightarrow>
      s2n_runs (apply_uni_recv_action ord s i action)"
    "encodable hs \<Longrightarrow> cn_next_stream_id (sn_conn s) < 2 ^ 62 \<Longrightarrow> s2n_runs (state_send_request s hs fin)"
proof -
  note a = assms(1)
  have then_drain: "s2n_runs (then_s2n m (\<lambda>s _. on_conn s (drain_events ord (sn_conn s))))" if "s2n_runs m"
    for m :: "unit s2n_outcome"
    by (rule then_s2n_runs [OF that on_conn_runs [OF drain_events_runs]])
  have then_done: "s2n_runs (then_s2n m (\<lambda>s _. Some (s, Inr b)))" if "s2n_runs m" for m :: "unit s2n_outcome" and b
    by (rule then_s2n_runs [OF that]) simp
  show "s2n_runs (state_init_h3_streams ord s i j k)"
    using on_conn_runs [OF init_runs [OF a]] by (simp add: state_init_h3_streams_def)
  show "s2n_runs (drain_qpack_data ord s)"
    unfolding drain_qpack_data_def returns_map_option by (rule returns_mono [OF take_each_runs [OF a]]) auto
  show "s2n_runs (state_drain_events ord s)"
    using on_conn_runs [OF drain_events_runs [OF a]] by (simp add: state_drain_events_def)
  show "s2n_runs (state_get_stream_data ord s i)"
    unfolding state_get_stream_data_def returns_map_option by (rule returns_mono [OF take_runs [OF a]]) auto
  show "s2n_runs (state_stream_reset ord s i n)"
    unfolding state_stream_reset_def stream_reset_only_def by (rule then_drain [OF on_conn_runs [OF reset_runs [OF a]]])
  show "s2n_runs (process_stream_data ord s i data fin)" if "feed_ok (sn_conn s) i data"
    unfolding process_stream_data_def by (rule then_drain [OF on_conn_runs [OF feed_runs [OF a assms(2) that]]])
  show "s2n_runs (apply_uni_recv_action ord s i action)"
    if "feed_ok (sn_conn s) i (case action of UrData data \<Rightarrow> data | _ \<Rightarrow> [])"
    using that a then_done [OF on_conn_runs [OF feed_runs [OF a assms(2)]]] then_done [OF on_conn_runs [OF reset_runs [OF a]]]
    by (cases action) (simp_all add: apply_uni_recv_action_def feed_stream_only_def stream_reset_only_def)
  show "s2n_runs (state_send_request s hs fin)" if "encodable hs" "cn_next_stream_id (sn_conn s) < 2 ^ 62"
    using on_conn_runs [OF request_runs [OF a that]] by (simp add: state_send_request_def)
qed

end
