(* ===== verification/Ngtcp2_Glue.thy ===== *)
theory Ngtcp2_Glue
  imports Connection_Delivery
begin

text \<open>
  The integration with ngtcp2 (\<^verbatim>\<open>crates/tokio-ngtcp2/src/\<close>): the loop that carries data between QUIC and
  a connection, the client around it, and what the servers make of events.  The QUIC connection is a
  library that is not part of the repository: its operations are a parameter, a record of functions on
  a state of their own.  Asynchronous calls are taken at their results; what waits for a clock
  (\<^verbatim>\<open>pump_wait\<close>, deadlines) is left out, and stream identifiers, \<^verbatim>\<open>i64\<close> there, are natural numbers.
\<close>

section \<open>Errors (\<^verbatim>\<open>lib.rs\<close>)\<close>

text \<open>The payloads of \<^verbatim>\<open>InvalidArgument\<close> and \<^verbatim>\<open>InvalidState\<close> are text for people.\<close>

datatype 'e ng_error =
    NgQuic 'e
  | NgHttp3 h3_error
  | NgTimeout
  | NgInvalidArgument
  | NgInvalidState
  | NgWebTransportClosed u32 bytes

fun ng_is_stream_error :: "'e ng_error \<Rightarrow> bool" where
  "ng_is_stream_error (NgHttp3 (StreamError _)) = True"
| "ng_is_stream_error _ = False"

section \<open>QUIC\<close>

text \<open>The last constructor stands for the events that the code ignores.\<close>

datatype quic_event =
    QeStreamData u64 bytes bool
  | QeStreamReset u64 u64 u64
  | QeDatagram bytes
  | QeConnectionClosed
  | QeOther

text \<open>The calls of \<^verbatim>\<open>QuicConnectionRef\<close>; what \<^verbatim>\<open>extend_max_stream_offset\<close> returns is dropped by the code.\<close>

record ('q, 'e) quic =
  qc_poll_event :: "'q \<Rightarrow> 'q \<times> quic_event option"
  qc_reset_stream :: "'q \<Rightarrow> u64 \<Rightarrow> u64 \<Rightarrow> 'q \<times> ('e + unit)"
  qc_write_stream :: "'q \<Rightarrow> u64 \<Rightarrow> bytes \<Rightarrow> bool \<Rightarrow> 'q \<times> ('e + unit)"
  qc_extend_max_stream_offset :: "'q \<Rightarrow> u64 \<Rightarrow> u64 \<Rightarrow> 'q"
  qc_open_uni_stream :: "'q \<Rightarrow> 'q \<times> ('e + u64)"
  qc_open_bidi_stream :: "'q \<Rightarrow> 'q \<times> ('e + u64)"
  qc_flush :: "'q \<Rightarrow> 'q \<times> ('e + unit)"
  qc_send_datagram :: "'q \<Rightarrow> bytes \<Rightarrow> 'q \<times> ('e + unit)"
  qc_can_send_datagram :: "'q \<Rightarrow> bool"

section \<open>State (\<^verbatim>\<open>h3.rs\<close>)\<close>

text \<open>The role is the one of the connection; \<open>None\<close> of an outcome is a panic, or a loop without end.\<close>

record 'e h3_state =
  ng_conn :: connection
  ng_events :: "event list"
  ng_stream_errors :: "'e ng_error list"

type_synonym ('e, 'q, 'a) ng_outcome = "('e h3_state \<times> 'q \<times> ('e ng_error + 'a)) option"

definition h3_state_new :: "role \<Rightarrow> h3_settings \<Rightarrow> 'e h3_state option" where
  "h3_state_new role settings =
    map_option (\<lambda>c. \<lparr>ng_conn = c, ng_events = [], ng_stream_errors = []\<rparr>) (connection_new role settings)"

text \<open>A call of the connection, a call of QUIC, and what follows a success.\<close>

definition h3_call :: "'e h3_state \<Rightarrow> 'q \<Rightarrow> 'a outcome \<Rightarrow> ('e, 'q, 'a) ng_outcome" where
  "h3_call h q m = map_option (\<lambda>(c, r). (h\<lparr>ng_conn := c\<rparr>, q, map_err NgHttp3 r)) m"

definition quic_call :: "'e h3_state \<Rightarrow> 'q \<times> ('e + 'a) \<Rightarrow> ('e, 'q, 'a) ng_outcome" where
  "quic_call h r = Some (h, fst r, map_err NgQuic (snd r))"

definition then_ng ::
    "('e, 'q, 'a) ng_outcome \<Rightarrow> ('e h3_state \<Rightarrow> 'q \<Rightarrow> 'a \<Rightarrow> ('e, 'q, 'b) ng_outcome) \<Rightarrow> ('e, 'q, 'b) ng_outcome" where
  "then_ng m f =
    (case m of None \<Rightarrow> None | Some (h, q, Inl e) \<Rightarrow> Some (h, q, Inl e) | Some (h, q, Inr x) \<Rightarrow> f h q x)"

definition ng_init_h3_streams ::
    "(u64 set \<Rightarrow> u64 list) \<Rightarrow> ('q, 'e) quic \<Rightarrow> 'e h3_state \<Rightarrow> 'q \<Rightarrow> ('e, 'q, unit) ng_outcome" where
  "ng_init_h3_streams ord Q h q =
    then_ng (quic_call h (qc_open_uni_stream Q q)) (\<lambda>h q control_stream_id.
    then_ng (quic_call h (qc_open_uni_stream Q q)) (\<lambda>h q encoder_stream_id.
    then_ng (quic_call h (qc_open_uni_stream Q q)) (\<lambda>h q decoder_stream_id.
    then_ng (h3_call h q (init_h3_streams ord (ng_conn h) control_stream_id encoder_stream_id decoder_stream_id)) (\<lambda>h q init.
    then_ng (quic_call h (qc_write_stream Q q (hi_control_stream_id init) (hi_control_data init) False)) (\<lambda>h q _.
    then_ng (quic_call h (qc_write_stream Q q (hi_encoder_stream_id init) (hi_encoder_data init) False)) (\<lambda>h q _.
    then_ng (quic_call h (qc_write_stream Q q (hi_decoder_stream_id init) (hi_decoder_data init) False)) (\<lambda>h q _.
    quic_call h (qc_flush Q q))))))))"

definition ng_set_transport_verified :: "'e h3_state \<Rightarrow> 'q \<Rightarrow> ('e, 'q, unit) ng_outcome" where
  "ng_set_transport_verified h q = h3_call h q (set_webtransport_transport_verified (ng_conn h) True True)"

definition ng_poll_event :: "'e h3_state \<Rightarrow> 'e h3_state \<times> event option" where
  "ng_poll_event h = (case ng_events h of [] \<Rightarrow> (h, None) | e # es \<Rightarrow> (h\<lparr>ng_events := es\<rparr>, Some e))"

definition take_stream_error :: "'e h3_state \<Rightarrow> 'e h3_state \<times> 'e ng_error option" where
  "take_stream_error h =
    (case ng_stream_errors h of [] \<Rightarrow> (h, None) | e # es \<Rightarrow> (h\<lparr>ng_stream_errors := es\<rparr>, Some e))"

text \<open>The warnings themselves are not modelled.\<close>

definition log_stream_errors :: "'e h3_state \<Rightarrow> 'e h3_state" where
  "log_stream_errors h = h\<lparr>ng_stream_errors := []\<rparr>"

definition record_error :: "'e h3_state \<Rightarrow> 'e ng_error \<Rightarrow> 'e h3_state \<times> ('e ng_error + unit)" where
  "record_error h e =
    (if ng_is_stream_error e then (h\<lparr>ng_stream_errors := ng_stream_errors h @ [e]\<rparr>, Inr ()) else (h, Inl e))"

definition ng_send_request :: "'e h3_state \<Rightarrow> 'q \<Rightarrow> header list \<Rightarrow> bool \<Rightarrow> ('e, 'q, u64) ng_outcome" where
  "ng_send_request h q headers fin =
    (case cn_role (ng_conn h) of
       Client \<Rightarrow> h3_call h q (cn_send_request (ng_conn h) headers fin)
     | Server \<Rightarrow> Some (h, q, Inl NgInvalidState))"

definition ng_send_response ::
    "(u64 set \<Rightarrow> u64 list) \<Rightarrow> 'e h3_state \<Rightarrow> 'q \<Rightarrow> u64 \<Rightarrow> header list \<Rightarrow> bool \<Rightarrow> ('e, 'q, unit) ng_outcome" where
  "ng_send_response ord h q stream_id headers fin =
    (case cn_role (ng_conn h) of
       Server \<Rightarrow> h3_call h q (cn_send_response ord (ng_conn h) stream_id headers fin)
     | Client \<Rightarrow> Some (h, q, Inl NgInvalidState))"

definition ng_send_body :: "'e h3_state \<Rightarrow> 'q \<Rightarrow> u64 \<Rightarrow> bytes \<Rightarrow> bool \<Rightarrow> ('e, 'q, unit) ng_outcome" where
  "ng_send_body h q stream_id data fin = h3_call h q (cn_send_body (ng_conn h) stream_id data fin)"

definition ng_register_local_wt_stream :: "'e h3_state \<Rightarrow> 'q \<Rightarrow> u64 \<Rightarrow> u64 \<Rightarrow> ('e, 'q, unit) ng_outcome" where
  "ng_register_local_wt_stream h q session_id stream_id =
    h3_call h q (register_local_wt_stream (ng_conn h) session_id stream_id)"

text \<open>A capsule that cannot be encoded panics.\<close>

definition take_wt_capsules :: "'e h3_state \<Rightarrow> u64 \<Rightarrow> ('e h3_state \<times> bytes list) option" where
  "take_wt_capsules h session_id =
    (case take_wt_pending_capsules (ng_conn h) session_id of
       (c, capsules) \<Rightarrow>
         map_option (\<lambda>bufs. (h\<lparr>ng_conn := c\<rparr>, bufs)) (those (map (\<lambda>c. encode_as_data_frame c []) capsules)))"

definition ng_wt_data_consumed :: "'e h3_state \<Rightarrow> u64 \<Rightarrow> u64 \<Rightarrow> 'e h3_state" where
  "ng_wt_data_consumed h session_id n = h\<lparr>ng_conn := wt_data_consumed (ng_conn h) session_id n\<rparr>"

definition send_wt_datagram ::
    "('q, 'e) quic \<Rightarrow> 'e h3_state \<Rightarrow> 'q \<Rightarrow> u64 \<Rightarrow> bytes \<Rightarrow> ('e, 'q, unit) ng_outcome" where
  "send_wt_datagram Q h q session_id payload =
    (if \<not> qc_can_send_datagram Q q then Some (h, q, Inl NgInvalidState)
     else
       case send_datagram (ng_conn h) session_id payload of
         None \<Rightarrow> None
       | Some (Inl e) \<Rightarrow> Some (h, q, Inl (NgHttp3 e))
       | Some (Inr payload) \<Rightarrow> quic_call h (qc_send_datagram Q q payload))"

section \<open>From QUIC to HTTP/3 and back\<close>

definition handle_quic_event ::
    "(u64 set \<Rightarrow> u64 list) \<Rightarrow> ('q, 'e) quic \<Rightarrow> 'e h3_state \<Rightarrow> 'q \<Rightarrow> quic_event \<Rightarrow> ('e, 'q, unit) ng_outcome" where
  "handle_quic_event ord Q h q event =
    (case event of
       QeStreamData stream_id data fin \<Rightarrow>
         (case feed_stream ord (ng_conn h) stream_id data fin of
            None \<Rightarrow> None
          | Some (c, Inr _) \<Rightarrow>
              Some (h\<lparr>ng_conn := c\<rparr>, qc_extend_max_stream_offset Q q stream_id (length data), Inr ())
          | Some (c, Inl (StreamError e)) \<Rightarrow> quic_call (h\<lparr>ng_conn := c\<rparr>) (qc_reset_stream Q q stream_id (code e))
          | Some (c, Inl e) \<Rightarrow> Some (h\<lparr>ng_conn := c\<rparr>, q, Inl (NgHttp3 e)))
     | QeStreamReset stream_id final_size app_error_code \<Rightarrow>
         h3_call h q (stream_reset ord (ng_conn h) stream_id app_error_code final_size)
     | QeDatagram data \<Rightarrow> h3_call h q (feed_datagram (ng_conn h) data)
     | QeConnectionClosed \<Rightarrow> Some (h, q, Inr ())
     | QeOther \<Rightarrow> Some (h, q, Inr ()))"

text \<open>The inner loop of \<^verbatim>\<open>write_pending\<close>, for one stream, and the loop over the streams.\<close>

partial_function (option) write_stream_pending ::
    "(u64 set \<Rightarrow> u64 list) \<Rightarrow> ('q, 'e) quic \<Rightarrow> 'e h3_state \<Rightarrow> 'q \<Rightarrow> u64 \<Rightarrow> ('e, 'q, unit) ng_outcome" where
  "write_stream_pending ord Q h q stream_id =
    Option.bind (take_stream_data ord (ng_conn h) stream_id) (\<lambda>(c, r).
      let h = h\<lparr>ng_conn := c\<rparr> in
      case r of
        None \<Rightarrow> Some (h, q, Inr ())
      | Some (data, fin) \<Rightarrow>
          (case qc_write_stream Q q stream_id data fin of
             (q, Inl e) \<Rightarrow> Some (h, q, Inl (NgQuic e))
           | (q, Inr _) \<Rightarrow>
               if data = [] \<and> fin then Some (h, q, Inr ()) else write_stream_pending ord Q h q stream_id))"

fun write_each ::
    "(u64 set \<Rightarrow> u64 list) \<Rightarrow> ('q, 'e) quic \<Rightarrow> u64 list \<Rightarrow> 'e h3_state \<Rightarrow> 'q \<Rightarrow> ('e, 'q, unit) ng_outcome" where
  "write_each ord Q [] h q = Some (h, q, Inr ())"
| "write_each ord Q (i # is) h q =
    then_ng (write_stream_pending ord Q h q i) (\<lambda>h q _. write_each ord Q is h q)"

definition write_pending ::
    "(u64 set \<Rightarrow> u64 list) \<Rightarrow> ('q, 'e) quic \<Rightarrow> 'e h3_state \<Rightarrow> 'q \<Rightarrow> ('e, 'q, unit) ng_outcome" where
  "write_pending ord Q h q = write_each ord Q (writable_streams ord (ng_conn h)) h q"

text \<open>The two loops over the events of QUIC; the second one drops what the first one remembers, the end of the connection.\<close>

partial_function (option) pump_events ::
    "(u64 set \<Rightarrow> u64 list) \<Rightarrow> ('q, 'e) quic \<Rightarrow> 'e h3_state \<Rightarrow> 'q \<Rightarrow> bool \<Rightarrow> ('e, 'q, bool) ng_outcome" where
  "pump_events ord Q h q closed =
    (case qc_poll_event Q q of
       (q, None) \<Rightarrow> Some (h, q, Inr closed)
     | (q, Some event) \<Rightarrow>
         (let closed = closed \<or> event = QeConnectionClosed in
          Option.bind (handle_quic_event ord Q h q event) (\<lambda>(h, q, r).
            case r of
              Inr _ \<Rightarrow> pump_events ord Q h q closed
            | Inl e \<Rightarrow>
                (case record_error h e of
                   (h, Inl e) \<Rightarrow> Some (h, q, Inl e)
                 | (h, Inr _) \<Rightarrow> pump_events ord Q h q closed))))"

definition collect_events ::
    "(u64 set \<Rightarrow> u64 list) \<Rightarrow> 'e h3_state \<Rightarrow> 'q \<Rightarrow> ('e, 'q, unit) ng_outcome" where
  "collect_events ord h q =
    (case drain_events ord (ng_conn h) of
       None \<Rightarrow> None
     | Some (c, Inr events) \<Rightarrow> Some (h\<lparr>ng_conn := c, ng_events := ng_events h @ events\<rparr>, q, Inr ())
     | Some (c, Inl e) \<Rightarrow> (case record_error (h\<lparr>ng_conn := c\<rparr>) (NgHttp3 e) of (h, r) \<Rightarrow> Some (h, q, r)))"

definition ng_pump ::
    "(u64 set \<Rightarrow> u64 list) \<Rightarrow> ('q, 'e) quic \<Rightarrow> 'e h3_state \<Rightarrow> 'q \<Rightarrow> ('e, 'q, unit) ng_outcome" where
  "ng_pump ord Q h q =
    then_ng (pump_events ord Q h q False) (\<lambda>h q closed.
    then_ng (if closed then Some (h, q, Inr ()) else write_pending ord Q h q) (\<lambda>h q _.
    then_ng (quic_call h (qc_flush Q q)) (\<lambda>h q _.
    then_ng (pump_events ord Q h q False) (\<lambda>h q _.
    collect_events ord h q))))"

section \<open>The client (\<^verbatim>\<open>client.rs\<close>)\<close>

definition open_bidi_stream_for ::
    "('q, 'e) quic \<Rightarrow> 'e h3_state \<Rightarrow> 'q \<Rightarrow> u64 \<Rightarrow> ('e, 'q, unit) ng_outcome" where
  "open_bidi_stream_for Q h q stream_id =
    then_ng (quic_call h (qc_open_bidi_stream Q q)) (\<lambda>h q opened.
      Some (h, q, if opened \<noteq> stream_id then Inl NgInvalidState else Inr ()))"

definition client_send_request ::
    "('q, 'e) quic \<Rightarrow> 'e h3_state \<Rightarrow> 'q \<Rightarrow> header list \<Rightarrow> ('e, 'q, u64) ng_outcome" where
  "client_send_request Q h q headers =
    then_ng (ng_send_request h q headers True) (\<lambda>h q stream_id.
    then_ng (open_bidi_stream_for Q h q stream_id) (\<lambda>h q _. Some (h, q, Inr stream_id)))"

definition client_send_request_with_body ::
    "('q, 'e) quic \<Rightarrow> 'e h3_state \<Rightarrow> 'q \<Rightarrow> header list \<Rightarrow> bytes \<Rightarrow> ('e, 'q, u64) ng_outcome" where
  "client_send_request_with_body Q h q headers body =
    then_ng (ng_send_request h q headers False) (\<lambda>h q stream_id.
    then_ng (open_bidi_stream_for Q h q stream_id) (\<lambda>h q _.
    then_ng (ng_send_body h q stream_id body True) (\<lambda>h q _. Some (h, q, Inr stream_id))))"

definition client_send_request_streaming ::
    "('q, 'e) quic \<Rightarrow> 'e h3_state \<Rightarrow> 'q \<Rightarrow> header list \<Rightarrow> ('e, 'q, u64) ng_outcome" where
  "client_send_request_streaming Q h q headers =
    then_ng (ng_send_request h q headers False) (\<lambda>h q stream_id.
    then_ng (open_bidi_stream_for Q h q stream_id) (\<lambda>h q _. Some (h, q, Inr stream_id)))"

definition return_stream_error :: "'e h3_state \<Rightarrow> 'q \<Rightarrow> ('e, 'q, unit) ng_outcome" where
  "return_stream_error h q =
    (case take_stream_error h of (h, Some e) \<Rightarrow> Some (h, q, Inl e) | (h, None) \<Rightarrow> Some (h, q, Inr ()))"

definition client_flush ::
    "(u64 set \<Rightarrow> u64 list) \<Rightarrow> ('q, 'e) quic \<Rightarrow> 'e h3_state \<Rightarrow> 'q \<Rightarrow> ('e, 'q, unit) ng_outcome" where
  "client_flush ord Q h q = then_ng (ng_pump ord Q h q) (\<lambda>h q _. return_stream_error h q)"

definition client_send_wt_datagram ::
    "(u64 set \<Rightarrow> u64 list) \<Rightarrow> ('q, 'e) quic \<Rightarrow> 'e h3_state \<Rightarrow> 'q \<Rightarrow> u64 \<Rightarrow> bytes \<Rightarrow> ('e, 'q, bool) ng_outcome" where
  "client_send_wt_datagram ord Q h q session_id payload =
    (if \<not> qc_can_send_datagram Q q then Some (h, q, Inr False)
     else
       then_ng (send_wt_datagram Q h q session_id payload) (\<lambda>h q _.
       then_ng (client_flush ord Q h q) (\<lambda>h q _. Some (h, q, Inr True))))"

section \<open>The servers (\<^verbatim>\<open>server.rs\<close>, \<^verbatim>\<open>webtransport.rs\<close>)\<close>

text \<open>
  The handler is a parameter with a state of its own.  The loops take the events that \<^verbatim>\<open>pump_wait\<close>, which
  is called before them, has collected.
\<close>

text \<open>An error of a stream does not end the connection.\<close>

definition keep_connection :: "('e, 'q, unit) ng_outcome \<Rightarrow> ('e, 'q, unit) ng_outcome" where
  "keep_connection m =
    (case m of
       Some (h, q, Inl e) \<Rightarrow> Some (h, q, if ng_is_stream_error e then Inr () else Inl e)
     | r \<Rightarrow> r)"

definition send_answer ::
    "(u64 set \<Rightarrow> u64 list) \<Rightarrow> 'e h3_state \<Rightarrow> 'q \<Rightarrow> u64 \<Rightarrow> header list \<Rightarrow> bytes \<Rightarrow> ('e, 'q, unit) ng_outcome" where
  "send_answer ord h q stream_id headers body =
    keep_connection
      (then_ng (ng_send_response ord h q stream_id headers False) (\<lambda>h q _. ng_send_body h q stream_id body True))"

text \<open>The state of the handler comes first in what the loops return.\<close>

fun serve_events ::
    "(u64 set \<Rightarrow> u64 list) \<Rightarrow> ('w \<Rightarrow> event \<Rightarrow> 'w \<times> (header list \<times> bytes) option) \<Rightarrow> event list \<Rightarrow> 'w \<Rightarrow> 'e h3_state \<Rightarrow> 'q \<Rightarrow>
      ('w \<times> 'e h3_state \<times> 'q \<times> ('e ng_error + unit)) option" where
  "serve_events ord handler [] w h q = Some (w, h, q, Inr ())"
| "serve_events ord handler (event # events) w h q =
    (let h = h\<lparr>ng_events := events\<rparr> in
     case handler w event of
       (w, Some (headers, body)) \<Rightarrow>
         (case event_stream_id event of
            Some stream_id \<Rightarrow>
              (case send_answer ord h q stream_id headers body of
                 None \<Rightarrow> None
               | Some (h, q, Inl e) \<Rightarrow> Some (w, h, q, Inl e)
               | Some (h, q, Inr _) \<Rightarrow> serve_events ord handler events w h q)
          | None \<Rightarrow> serve_events ord handler events w h q)
     | (w, None) \<Rightarrow> serve_events ord handler events w h q)"

definition wt_settings_all_drafts :: wt_settings where
  "wt_settings_all_drafts =
    for_draft_versions [Draft02, Draft07, Draft14, Draft15, Draft17] (VarInt 1) wt_settings_new"

definition client_settings :: h3_settings where
  "client_settings = enable_webtransport_client h3_settings_new wt_settings_all_drafts"

definition server_settings :: h3_settings where
  "server_settings = enable_webtransport_server h3_settings_new wt_settings_all_drafts"

text \<open>\<open>ord\<close> is the order in which a hash set is run through.\<close>

record wt_connection_state =
  wc_sessions :: "u64 set"
  wc_stream_sessions :: "u64 \<rightharpoonup> u64"
  wc_request_headers :: "u64 \<rightharpoonup> (bytes \<times> bytes) list"

definition wt_connection_state_new :: wt_connection_state where
  "wt_connection_state_new =
    \<lparr>wc_sessions = {}, wc_stream_sessions = Map.empty, wc_request_headers = Map.empty\<rparr>"

definition any_session :: "(u64 set \<Rightarrow> u64 list) \<Rightarrow> wt_connection_state \<Rightarrow> u64 option" where
  "any_session ord wt = (case ord (wc_sessions wt) of [] \<Rightarrow> None | i # _ \<Rightarrow> Some i)"

definition resolve_session :: "(u64 set \<Rightarrow> u64 list) \<Rightarrow> wt_connection_state \<Rightarrow> u64 option \<Rightarrow> u64 option" where
  "resolve_session ord wt stream_id =
    (case Option.bind stream_id (wc_stream_sessions wt) of
       Some session_id \<Rightarrow> Some session_id
     | None \<Rightarrow> any_session ord wt)"

definition delivered_to :: "(u64 set \<Rightarrow> u64 list) \<Rightarrow> wt_connection_state \<Rightarrow> web_transport_event \<Rightarrow> u64" where
  "delivered_to ord wt e =
    (case resolve_session ord wt (wt_event_stream_id e) of
       Some i \<Rightarrow> i
     | None \<Rightarrow> (case any_session ord wt of Some i \<Rightarrow> i | None \<Rightarrow> 0))"

text \<open>The session that the handler is given with a WebTransport event, and the bookkeeping before that.\<close>

definition note_wt_event ::
    "(u64 set \<Rightarrow> u64 list) \<Rightarrow> web_transport_event \<Rightarrow> wt_connection_state \<Rightarrow> 'e h3_state \<Rightarrow>
      u64 \<times> wt_connection_state \<times> 'e h3_state" where
  "note_wt_event ord e wt h =
    (case e of
       WtSessionEstablished session_id _ \<Rightarrow> (session_id, wt\<lparr>wc_sessions := insert session_id (wc_sessions wt)\<rparr>, h)
     | WtBidiStreamOpen stream_id session_id \<Rightarrow>
         (session_id, wt\<lparr>wc_stream_sessions := (wc_stream_sessions wt)(stream_id \<mapsto> session_id)\<rparr>, h)
     | WtUniStreamOpen stream_id session_id \<Rightarrow>
         (session_id, wt\<lparr>wc_stream_sessions := (wc_stream_sessions wt)(stream_id \<mapsto> session_id)\<rparr>, h)
     | WtBidiStreamData _ data \<Rightarrow>
         let session_id = delivered_to ord wt e in (session_id, wt, ng_wt_data_consumed h session_id (length data))
     | WtUniStreamData _ data \<Rightarrow>
         let session_id = delivered_to ord wt e in (session_id, wt, ng_wt_data_consumed h session_id (length data))
     | _ \<Rightarrow> (delivered_to ord wt e, wt, h))"

definition answer_connect ::
    "(u64 set \<Rightarrow> u64 list) \<Rightarrow> 'e h3_state \<Rightarrow> 'q \<Rightarrow> u64 \<Rightarrow> ('e, 'q, unit) ng_outcome" where
  "answer_connect ord h q stream_id =
    (case response_to_headers (connect_response_new 200) of
       Inl _ \<Rightarrow> Some (h, q, Inl NgInvalidArgument)
     | Inr response \<Rightarrow> keep_connection (ng_send_response ord h q stream_id response False))"

definition is_valid_connect :: "(bytes \<times> bytes) list \<Rightarrow> bool" where
  "is_valid_connect headers \<longleftrightarrow>
    (ascii '':method'', ascii ''CONNECT'') \<in> set headers \<and> ascii '':protocol'' \<in> fst ` set headers \<and>
    result_ok (from_headers headers) \<noteq> None"

fun drive_events ::
    "(u64 set \<Rightarrow> u64 list) \<Rightarrow> ('w \<Rightarrow> u64 \<Rightarrow> event \<Rightarrow> 'w \<times> bool) \<Rightarrow> event list \<Rightarrow> 'w \<Rightarrow> wt_connection_state \<Rightarrow>
      'e h3_state \<Rightarrow> 'q \<Rightarrow> ('w \<times> wt_connection_state \<times> 'e h3_state \<times> 'q \<times> ('e ng_error + unit)) option" where
  "drive_events ord handler [] w wt h q = Some (w, wt, h, q, Inr ())"
| "drive_events ord handler (event # events) w wt h q =
    (let h = h\<lparr>ng_events := events\<rparr> in
     case event of
       HeaderField stream_id name v \<Rightarrow>
         let so_far = (case wc_request_headers wt stream_id of None \<Rightarrow> [] | Some l \<Rightarrow> l) in
         drive_events ord handler events w
           (wt\<lparr>wc_request_headers := (wc_request_headers wt)(stream_id \<mapsto> so_far @ [(name, v)])\<rparr>) h q
     | HeadersEnd stream_id \<Rightarrow>
         let headers = (case wc_request_headers wt stream_id of None \<Rightarrow> [] | Some l \<Rightarrow> l);
             wt = wt\<lparr>wc_request_headers := (wc_request_headers wt)(stream_id := None)\<rparr> in
         if is_valid_connect headers then
           (case handler w stream_id (HeadersEnd stream_id) of
              (w, False) \<Rightarrow> drive_events ord handler events w wt h q
            | (w, True) \<Rightarrow>
                (case answer_connect ord h q stream_id of
                   None \<Rightarrow> None
                 | Some (h, q, Inl e) \<Rightarrow> Some (w, wt, h, q, Inl e)
                 | Some (h, q, Inr _) \<Rightarrow> drive_events ord handler events w wt h q))
         else drive_events ord handler events w wt h q
     | WebTransport e \<Rightarrow>
         (case note_wt_event ord e wt h of
            (session_id, wt, h) \<Rightarrow>
              drive_events ord handler events (fst (handler w session_id (WebTransport e))) wt h q)
     | _ \<Rightarrow> drive_events ord handler events w wt h q)"

text \<open>The capsules of all sessions with flow control go to their CONNECT streams.\<close>

fun write_bufs ::
    "('q, 'e) quic \<Rightarrow> u64 \<Rightarrow> bytes list \<Rightarrow> 'e h3_state \<Rightarrow> 'q \<Rightarrow> ('e, 'q, unit) ng_outcome" where
  "write_bufs Q i [] h q = Some (h, q, Inr ())"
| "write_bufs Q i (b # bs) h q =
    then_ng (quic_call h (qc_write_stream Q q i b False)) (\<lambda>h q _. write_bufs Q i bs h q)"

fun deliver_capsules ::
    "('q, 'e) quic \<Rightarrow> u64 list \<Rightarrow> 'e h3_state \<Rightarrow> 'q \<Rightarrow> ('e, 'q, unit) ng_outcome" where
  "deliver_capsules Q [] h q = Some (h, q, Inr ())"
| "deliver_capsules Q (i # is) h q =
    (if \<not> wt_session_flow_control_enabled (ng_conn h) i then deliver_capsules Q is h q
     else
       case take_wt_capsules h i of
         None \<Rightarrow> None
       | Some (h, bufs) \<Rightarrow> then_ng (write_bufs Q i bufs h q) (\<lambda>h q _. deliver_capsules Q is h q))"

section \<open>The loops come to an end\<close>

definition to_send :: "connection \<Rightarrow> u64 \<Rightarrow> bytes" where
  "to_send c i =
    (if cs_stream_id (cn_control_send c) = Some i then cs_get_data (cn_control_send c) else []) @
    (if cn_encoder_stream_id c = Some i then es_send_buffer (cn_encoder_stream c) else []) @
    (if cn_decoder_stream_id c = Some i then ds_send_buffer (cn_decoder_stream c) else []) @
    (case cn_streams c i of None \<Rightarrow> [] | Some s \<Rightarrow> fst (get_send_data s))"

text \<open>Whatever is taken, other than FIN alone, is all that there was.\<close>

lemma removed_to_send: "length (to_send (remove_stream_if_done c j) i) \<le> length (to_send c i)"
  by (auto simp: remove_stream_if_done_def to_send_def Let_def)

lemma take_empties:
  assumes "conn_inv c" "take_stream_data ord c i = Some (c', Some (data, fin))" "\<not> (data = [] \<and> fin)"
  shows "length (to_send c' i) < length (to_send c i)"
proof -
  have np: "\<not> is_some_and (cn_streams c i) has_fin_pending"
    using assms(2,3) by (auto simp: take_stream_data_def get_stream_data_def Let_def split: bind_splits option.splits if_splits)
  let ?a = "if cs_stream_id (cn_control_send c) = Some i then cs_get_data (cn_control_send c) else []"
  let ?b = "if cn_encoder_stream_id c = Some i then es_send_buffer (cn_encoder_stream c) else []"
  let ?d = "if cn_decoder_stream_id c = Some i then ds_send_buffer (cn_decoder_stream c) else []"
  let ?e = "case cn_streams c i of None \<Rightarrow> [] | Some s \<Rightarrow> fst (get_send_data s)"
  have t: "first_nonempty [?a, ?b, ?d, ?e] = Some (data, fin)" "consume_stream_data c i (length data) = Some c'"
    using assms(2) unfolding take_stream_data_def get_stream_data_def if_not_P [OF np]
    by (auto split: option.splits if_splits)
  then have data: "data \<noteq> []" "data \<in> {?a, ?b, ?d, ?e}"
    unfolding first_nonempty_def by (auto split: list.splits if_splits)
  have dist: "cn_encoder_stream_id c \<noteq> Some i \<and> cn_decoder_stream_id c \<noteq> Some i"
    if "cs_stream_id (cn_control_send c) = Some i"
    using assms(1) that by (auto simp: conn_inv_ex_def critical_inv_def)
  have none: "cn_streams c i = None"
    if "cs_stream_id (cn_control_send c) = Some i \<or> cn_encoder_stream_id c = Some i \<or> cn_decoder_stream_id c = Some i"
    using critical_no_stream [OF assms(1) that] .
  have dist2: "cn_decoder_stream_id c \<noteq> Some i" if "cn_encoder_stream_id c = Some i"
    using assms(1) that by (auto simp: conn_inv_ex_def critical_inv_def)
  have l: "0 < length data" using data(1) by simp
  consider (control) "cs_stream_id (cn_control_send c) = Some i"
    | (encoder) "cs_stream_id (cn_control_send c) \<noteq> Some i" "cn_encoder_stream_id c = Some i"
    | (decoder) "cs_stream_id (cn_control_send c) \<noteq> Some i" "cn_encoder_stream_id c \<noteq> Some i" "cn_decoder_stream_id c = Some i"
    | (stream) "cs_stream_id (cn_control_send c) \<noteq> Some i" "cn_encoder_stream_id c \<noteq> Some i" "cn_decoder_stream_id c \<noteq> Some i"
    by blast
  then show ?thesis
  proof cases
    case control
    then have d: "data = sb_peek (cs_send_buf (cn_control_send c))" "sb_inv (cs_send_buf (cn_control_send c))"
      using data dist none assms(1) by (auto simp: cs_get_data_def conn_inv_ex_def critical_inv_def split: if_splits)
    from sbq.consume_Some [OF d(2), of "length data"] d(1) obtain b
      where "sb_consume (cs_send_buf (cn_control_send c)) (length data) = Some b" "sb_peek b = []" by auto
    with control t(2) dist none d(1) l show ?thesis
      by (auto simp: consume_stream_data_def cs_consume_data_def to_send_def cs_get_data_def)
  next
    case encoder
    with data dist2 none have "data = es_send_buffer (cn_encoder_stream c)" by (auto split: if_splits)
    with encoder t(2) dist2 none l show ?thesis
      by (auto simp: consume_stream_data_def to_send_def es_consume_data_def)
  next
    case decoder
    with data none have "data = ds_send_buffer (cn_decoder_stream c)" by (auto split: if_splits)
    with decoder t(2) none l show ?thesis
      by (auto simp: consume_stream_data_def to_send_def ds_consume_data_def)
  next
    case stream
    then obtain s where s: "cn_streams c i = Some s" "data = sb_peek (rs_send_buf s)"
      using data by (auto simp: get_send_data_def split: option.splits)
    have "sb_inv (rs_send_buf s)" using conn_inv_stream [OF assms(1) s(1)] by (simp add: stream_inv_def)
    from sbq.consume_Some [OF this, of "length data"] s(2) obtain b
      where b: "sb_consume (rs_send_buf s) (length data) = Some b" "sb_peek b = []" by auto
    let ?c = "c\<lparr>cn_streams := (cn_streams c)(i \<mapsto> s\<lparr>rs_send_buf := b\<rparr>)\<rparr>"
    have "c' = remove_stream_if_done ?c i"
      using stream s(1) b(1) t(2) by (simp add: consume_stream_data_def consume_send_data_def)
    with removed_to_send [of ?c i i] stream s b l show ?thesis
      by (simp add: to_send_def get_send_data_def)
  qed
qed

lemma write_stream_returns:
  assumes "conn_inv (ng_conn h)"
  shows "returns (\<lambda>(h', q', r). conn_inv (ng_conn h') \<and> ng_events h' = ng_events h \<and> ng_stream_errors h' = ng_stream_errors h)
    (write_stream_pending ord Q h q i)"
  using assms
proof (induction "length (to_send (ng_conn h) i)" arbitrary: h q rule: less_induct)
  case less
  obtain c r where t: "take_stream_data ord (ng_conn h) i = Some (c, r)" "conn_inv c"
    using take_runs [OF less.prems, of ord i] by (auto simp: returns_def)
  have u: "write_stream_pending ord Q h q i =
    (case r of None \<Rightarrow> Some (h\<lparr>ng_conn := c\<rparr>, q, Inr ())
     | Some (data, fin) \<Rightarrow>
         (case qc_write_stream Q q i data fin of
            (q, Inl e) \<Rightarrow> Some (h\<lparr>ng_conn := c\<rparr>, q, Inl (NgQuic e))
          | (q, Inr _) \<Rightarrow>
              if data = [] \<and> fin then Some (h\<lparr>ng_conn := c\<rparr>, q, Inr ())
              else write_stream_pending ord Q (h\<lparr>ng_conn := c\<rparr>) q i))"
    by (subst write_stream_pending.simps) (simp add: t(1) Let_def)
  show ?case
  proof (cases r)
    case None
    with u t(2) show ?thesis by simp
  next
    case (Some df)
    obtain data fin where df: "r = Some (data, fin)" using Some by (cases df) simp
    obtain q1 w where w: "qc_write_stream Q q i data fin = (q1, w)" by fastforce
    have "returns (\<lambda>(h', q', r). conn_inv (ng_conn h') \<and> ng_events h' = ng_events h \<and> ng_stream_errors h' = ng_stream_errors h)
      (write_stream_pending ord Q (h\<lparr>ng_conn := c\<rparr>) q1 i)" if "\<not> (data = [] \<and> fin)"
      using less.hyps [of "h\<lparr>ng_conn := c\<rparr>" q1] take_empties [OF less.prems t(1) [unfolded df] that] t(2) by simp
    with u df w t(2) show ?thesis by (auto split: sum.split)
  qed
qed

lemma write_each_returns:
  assumes "conn_inv (ng_conn h)"
  shows "returns (\<lambda>(h', q', r). conn_inv (ng_conn h') \<and> ng_events h' = ng_events h \<and> ng_stream_errors h' = ng_stream_errors h)
    (write_each ord Q is h q)"
  using assms
proof (induction "is" arbitrary: h q)
  case (Cons i "is")
  from write_stream_returns [OF Cons.prems, of ord Q q i] obtain h1 q1 r
    where 1: "write_stream_pending ord Q h q i = Some (h1, q1, r)" "conn_inv (ng_conn h1)"
      "ng_events h1 = ng_events h" "ng_stream_errors h1 = ng_stream_errors h" by (auto simp: returns_def)
  from Cons.IH [OF 1(2), of q1] 1 show ?case by (auto simp: then_ng_def split: sum.split)
qed simp

text \<open>
  C13: Writing out comes to an end.  Whatever QUIC answers, the nested loops that hand the pending data of a
  connection to QUIC return without a panic, keep the connection in order, and neither lose nor invent
  events or errors that wait for the application.
\<close>

theorem write_pending_returns:
  assumes "wf_h3_settings settings" "enumerates ord" "connection_new role settings = Some c0"
    "conn_reach ord c0 (ng_conn h)"
  shows "\<exists>h' q' r. write_pending ord Q h q = Some (h', q', r) \<and> conn_inv (ng_conn h') \<and>
    ng_events h' = ng_events h \<and> ng_stream_errors h' = ng_stream_errors h"
proof -
  have "conn_inv c0" using new_connection [OF assms(1), of role] assms(3) by auto
  then have "conn_inv (ng_conn h)" using reach_inv [OF assms(4,2)] by blast
  from write_each_returns [OF this, of ord Q "writable_streams ord (ng_conn h)" q] show ?thesis
    by (auto simp: write_pending_def returns_def)
qed

text \<open>A QUIC connection that only keeps what it is given to write.\<close>

definition list_quic :: "((u64 \<times> bytes \<times> bool) list, unit) quic" where
  "list_quic =
    \<lparr>qc_poll_event = (\<lambda>q. (q, None)), qc_reset_stream = (\<lambda>q _ _. (q, Inr ())),
     qc_write_stream = (\<lambda>q i data fin. (q @ [(i, data, fin)], Inr ())),
     qc_extend_max_stream_offset = (\<lambda>q _ _. q), qc_open_uni_stream = (\<lambda>q. (q, Inr 2)),
     qc_open_bidi_stream = (\<lambda>q. (q, Inr 0)), qc_flush = (\<lambda>q. (q, Inr ())),
     qc_send_datagram = (\<lambda>q _. (q, Inr ())), qc_can_send_datagram = (\<lambda>_. True)\<rparr>"

theorem write_pending_returns_witness:
  "\<exists>h h' q' r. (h3_state_new Client plain_settings :: unit h3_state option) = Some h \<and>
    write_pending sorted_list_of_set list_quic h [] = Some (h', q', r)"
proof -
  obtain c0 where c0: "connection_new Client plain_settings = Some c0"
    using new_connection [OF plain_settings_wf, of Client] by blast
  let ?h = "\<lparr>ng_conn = c0, ng_events = [], ng_stream_errors = []\<rparr> :: unit h3_state"
  have "conn_reach sorted_list_of_set c0 (ng_conn ?h)" by (simp add: CrStart)
  from write_pending_returns [OF plain_settings_wf enumerates_sorted c0 this, of list_quic "[]"] c0
  show ?thesis by (auto simp: h3_state_new_def)
qed

section \<open>What QUIC is given\<close>

text \<open>QUIC takes everything; \<open>log\<close> reads what it has been given.\<close>

definition takes_all :: "('q, 'e) quic \<Rightarrow> ('q \<Rightarrow> (u64 \<times> bytes \<times> bool) list) \<Rightarrow> bool" where
  "takes_all Q log \<longleftrightarrow>
    (\<forall>q i data fin. snd (qc_write_stream Q q i data fin) = Inr () \<and>
      log (fst (qc_write_stream Q q i data fin)) = log q @ [(i, data, fin)])"

lemma take_nothing:
  "offering c i [] False \<Longrightarrow> take_stream_data ord c i = Some (c, None)"
  by (auto simp: offering_def take_stream_data_def get_stream_data_def first_nonempty_def get_send_data_def
      has_fin_pending_def is_some_and_def)

lemma write_offered_fin:
  assumes "takes_all Q log" "offering (ng_conn h) i [] fin"
  shows "\<exists>h' q'. write_stream_pending ord Q h q i = Some (h', q', Inr ()) \<and>
    log q' = log q @ (if fin then [(i, [], True)] else [])"
proof (cases fin)
  case True
  with assms(2) obtain c where c: "take_stream_data ord (ng_conn h) i = Some (c, Some ([], True))"
    using take_fin [of "ng_conn h" i ord] by auto
  obtain q1 w where w: "qc_write_stream Q q i [] True = (q1, w)" by fastforce
  then have "w = Inr ()" "log q1 = log q @ [(i, [], True)]"
    using assms(1) by (auto simp: takes_all_def dest!: spec [of _ q] spec [of _ i] spec [of _ "[]"] spec [of _ True])
  with True c w show ?thesis by (subst write_stream_pending.simps) (simp add: Let_def)
next
  case False
  with take_nothing [of "ng_conn h" i ord] assms(2) show ?thesis
    by (subst write_stream_pending.simps) (simp add: Let_def)
qed

text \<open>
  C15: Nothing is lost or repeated on the way to QUIC.  For a stream with data to hand out, which is not
  a critical one and not that of a session, and a QUIC that takes what it is given, the loop writes these
  bytes once, in one piece, and then FIN alone if the stream is finished.
\<close>

theorem write_stream_hands_out:
  assumes "takes_all Q log" "offering (ng_conn h) i data fin"
  shows "\<exists>h' q'. write_stream_pending ord Q h q i = Some (h', q', Inr ()) \<and>
    log q' = log q @ (if data = [] then [] else [(i, data, False)]) @ (if fin then [(i, [], True)] else [])"
proof (cases "data = []")
  case True
  with write_offered_fin [OF assms(1)] assms(2) show ?thesis by simp
next
  case False
  from take_offered [OF assms(2) False] obtain c
    where c: "take_stream_data ord (ng_conn h) i = Some (c, Some (data, False))" "offering c i [] fin" by blast
  obtain q1 w where w: "qc_write_stream Q q i data False = (q1, w)" by fastforce
  then have l: "w = Inr ()" "log q1 = log q @ [(i, data, False)]"
    using assms(1) by (auto simp: takes_all_def dest!: spec [of _ q] spec [of _ i] spec [of _ data] spec [of _ False])
  obtain h' q' where "write_stream_pending ord Q (h\<lparr>ng_conn := c\<rparr>) q1 i = Some (h', q', Inr ())"
    "log q' = log q1 @ (if fin then [(i, [], True)] else [])"
    using write_offered_fin [OF assms(1), of "h\<lparr>ng_conn := c\<rparr>" i fin ord q1] c(2) by auto
  with False c(1) w l show ?thesis by (subst write_stream_pending.simps) (simp add: Let_def)
qed

theorem write_stream_hands_out_witness:
  "\<exists>h h'. offering (ng_conn h) 0 [1, 2] True \<and>
    write_stream_pending sorted_list_of_set list_quic h [] 0 = Some (h', [(0, [1, 2], False), (0, [], True)], Inr ())"
proof -
  obtain c0 where c0: "connection_new Client plain_settings = Some c0" "cn_error c0 = None"
    "cn_wt_sessions c0 = Map.empty" "cn_closed_wt_sessions c0 = {}"
    using new_connection [OF plain_settings_wf, of Client] by blast
  let ?r = "(rs_new 0 Client)\<lparr>rs_send_buf := sb_set_fin (sb_push sb_new [1, 2]), rs_state := SsLocalClosed\<rparr>"
  let ?h = "\<lparr>ng_conn = c0\<lparr>cn_streams := [0 \<mapsto> ?r]\<rparr>, ng_events = [], ng_stream_errors = []\<rparr> :: unit h3_state"
  have o: "offering (ng_conn ?h) 0 [1, 2] True"
    using c0 new_connection_fields [OF c0(1)]
    by (simp add: offering_def sb_set_fin_def sb_push_def sb_new_def sb_inv_def sb_peek_def)
  have "takes_all list_quic id" by (simp add: takes_all_def list_quic_def)
  from write_stream_hands_out [OF this o, of sorted_list_of_set "[]"] obtain h'
    where "write_stream_pending sorted_list_of_set list_quic ?h [] 0 =
      Some (h', [(0, [1, 2], False), (0, [], True)], Inr ())" by auto
  with o show ?thesis by (intro exI [of _ ?h] exI [of _ h'] conjI)
qed

section \<open>Two counts of streams\<close>

text \<open>QUIC numbers the streams that it opens; \<open>next\<close> reads the number of the one that comes next.\<close>

definition numbers_streams :: "('q, 'e) quic \<Rightarrow> ('q \<Rightarrow> u64) \<Rightarrow> bool" where
  "numbers_streams Q next \<longleftrightarrow>
    (\<forall>q. snd (qc_open_bidi_stream Q q) = Inr (next q) \<and> next (fst (qc_open_bidi_stream Q q)) = next q + 4)"

lemma request_count:
  assumes "cn_send_request c hs fin = Some (c', r)"
  shows "cn_next_stream_id c \<le> cn_next_stream_id c'"
  using assms encoded_next
  by (auto simp: cn_send_request_def tryC_def bindC_def Let_def checked_add_def
      split: option.splits prod.splits sum.splits if_splits)

text \<open>
  A request that is refused after it has got its number, such as CONNECT with FIN, leaves the connection
  ahead of QUIC, and from then on no request of this client ever succeeds.
\<close>

theorem requests_out_of_step:
  assumes "numbers_streams Q next" "next q < cn_next_stream_id (ng_conn h)"
    "client_send_request Q h q headers = Some (h', q', r)"
  shows "\<not> (\<exists>i. r = Inr i) \<and> next q' < cn_next_stream_id (ng_conn h')"
proof (cases "cn_role (ng_conn h)")
  case Server
  with assms(2,3) show ?thesis by (auto simp: client_send_request_def ng_send_request_def then_ng_def)
next
  case Client
  obtain c s where c: "cn_send_request (ng_conn h) headers True = Some (c, s)"
    using assms(3) Client
    by (cases "cn_send_request (ng_conn h) headers True")
      (auto simp: client_send_request_def ng_send_request_def h3_call_def then_ng_def)
  show ?thesis
  proof (cases s)
    case (Inl e)
    with assms(2,3) Client c request_count [OF c] show ?thesis
      by (auto simp: client_send_request_def ng_send_request_def h3_call_def then_ng_def)
  next
    case (Inr i)
    note id = request_id(2,3) [OF c [unfolded Inr]]
    have "snd (qc_open_bidi_stream Q q) = Inr (next q)" "next (fst (qc_open_bidi_stream Q q)) = next q + 4"
      using assms(1) by (simp_all add: numbers_streams_def)
    with assms(2,3) Client c Inr id show ?thesis
      by (auto simp: client_send_request_def ng_send_request_def h3_call_def then_ng_def quic_call_def
          open_bidi_stream_for_def)
  qed
qed

theorem refused_connect_counts:
  assumes "cn_role (ng_conn h) = Client" "check_request (ng_conn h) headers = Inr ()"
    "has_header_value headers '':method'' (ascii ''CONNECT'')" "cn_next_stream_id (ng_conn h) < 2 ^ 62"
    "dt_entries (qe_table (cn_qpack_encoder (ng_conn h))) = []"
  shows "\<exists>h'. client_send_request Q h q headers = Some (h', q, Inl (NgHttp3 (StreamError MessageError))) \<and>
    cn_next_stream_id (ng_conn h') = cn_next_stream_id (ng_conn h) + 4"
  using assms
  by (simp add: client_send_request_def ng_send_request_def h3_call_def then_ng_def cn_send_request_def tryC_def
      encode_static bindC_def Let_def checked_add_def)

text \<open>
  A bidirectional WebTransport stream that the client opens does not count as a number of the connection:
  the next request gets the same number, and its response goes to the WebTransport stream.
\<close>

theorem request_reuses_wt_stream:
  assumes "cn_role c = Client" "cn_next_stream_id c mod 4 = 0"
    "register_local_wt_stream c j (cn_next_stream_id c) = Some (c1, Inr ())"
    "cn_send_request c1 hs fin = Some (c2, Inr i)"
  shows "i = cn_next_stream_id c \<and> cn_wt_bidi_streams c1 i = Some j \<and> cn_streams c2 i \<noteq> None"
proof -
  have k: "kind_from_stream_id (cn_next_stream_id c) = ClientBidi"
    using assms(2) by (simp add: kind_from_stream_id_mod)
  have r: "cn_next_stream_id c1 = cn_next_stream_id c" "cn_wt_bidi_streams c1 (cn_next_stream_id c) = Some j"
    using assms(1,3) k
    by (auto simp: register_local_wt_stream_def is_local_initiated_bidi_def Let_def update_session_def
        split: option.splits if_splits)
  moreover have "cn_streams c2 i \<noteq> None"
    using assms(4)
    by (auto simp: cn_send_request_def tryC_def bindC_def Let_def split: option.splits prod.splits sum.splits if_splits)
  ultimately show ?thesis using request_id(2) [OF assms(4)] by simp
qed

text \<open>
  Events that belong to a session and to no stream, such as its end, are given to the handler for any one
  of the sessions that a connection has had: those of two sessions are not told apart.
\<close>

theorem session_events_mixed_up:
  assumes "wc_stream_sessions wt i = None" "wc_stream_sessions wt j = None"
  shows "delivered_to ord wt (WtSessionClosed i rs e ce m) = delivered_to ord wt (WtSessionClosed j rs e ce m)"
  using assms by (simp add: delivered_to_def resolve_session_def)

end
