(* ===== verification/Spec2Isabelle.thy ===== *)
theory Spec2Isabelle
  imports Frame Qpack_Sync Session_Link Request_Stream Datagram Connect Connection_Delivery S2n_Glue Ngtcp2_Glue
begin

text \<open>
  A verification library for the Sans-I/O HTTP/3 implementation under \<^verbatim>\<open>src/src/\<close> and for the logic of its
  two integrations with QUIC libraries under \<^verbatim>\<open>src/crates/\<close>.

  The program turns bytes of QUIC streams into events and calls of the application into bytes; it
  does no I/O of its own.  Its layers, from the bottom:

  \<^item> \<^emph>\<open>Encodings\<close>.  \<open>Varint\<close> (\<^verbatim>\<open>varint.rs\<close>) variable-length integers; \<open>Settings\<close>
    (\<^verbatim>\<open>settings.rs\<close>, \<^verbatim>\<open>webtransport/settings.rs\<close>) SETTINGS parameters and the choice of a
    WebTransport draft; \<open>Errors\<close> (\<^verbatim>\<open>error.rs\<close>); \<open>Frame\<close> (\<^verbatim>\<open>frame/\<close>) frames.
  \<^item> \<^emph>\<open>QPACK\<close> (\<^verbatim>\<open>qpack/\<close>).  \<open>Prefix_Integer\<close>, \<open>Huffman_Table\<close>, \<open>Huffman\<close>, \<open>Header\<close>,
    \<open>Static_Table\<close>, \<open>Dynamic_Table\<close>, \<open>Qpack_Wire\<close>, \<open>Qpack_Encoder\<close>, \<open>Qpack_Decoder\<close>,
    \<open>Encoder_Stream\<close>, \<open>Decoder_Stream\<close>, each for the module of the same name; \<open>Field_Line\<close> holds the
    lemmas on single field lines and \<open>Qpack_Sync\<close> the two ends together.
  \<^item> \<^emph>\<open>Streams\<close> (\<^verbatim>\<open>stream/\<close>).  \<open>Streams\<close> (\<^verbatim>\<open>mod.rs\<close>) identifiers, states, send and receive
    buffers; \<open>Control_Stream\<close> (\<^verbatim>\<open>control.rs\<close>), \<open>Request_Stream\<close> (\<^verbatim>\<open>request.rs\<close>).
  \<^item> \<^emph>\<open>WebTransport\<close> (\<^verbatim>\<open>webtransport/\<close>).  \<open>Wt_Stream\<close> (\<^verbatim>\<open>stream.rs\<close>) stream headers,
    \<open>Datagram\<close>, \<open>Capsule\<close>, \<open>Wt_Error\<close>, \<open>Flow_Control\<close> (\<^verbatim>\<open>session/flow_control.rs\<close>), \<open>Session\<close>
    (\<^verbatim>\<open>session/mod.rs\<close>); \<open>Session_Link\<close> joins two sessions by their channels.  \<open>Sf_Parser\<close>
    (\<^verbatim>\<open>connect/sf_parser.rs\<close>) and \<open>Connect\<close> (the rest of \<^verbatim>\<open>connect/\<close>) are the extended CONNECT: which
    settings a draft needs, the request and the response.
  \<^item> \<^emph>\<open>Connection\<close> (\<^verbatim>\<open>connection/\<close>, \<^verbatim>\<open>event.rs\<close>).  \<open>Event\<close> the events, \<open>Conn_State\<close> the state and its small
    steps, \<open>Connection\<close> the operations (\<^verbatim>\<open>mod.rs\<close>); \<open>Wt_Types\<close> (\<^verbatim>\<open>wt_types.rs\<close>) the entries of sessions,
    \<open>Conn_Wt_Session\<close> (\<^verbatim>\<open>wt_session.rs\<close>), \<open>Conn_Wt_Capsule\<close> (\<^verbatim>\<open>wt_capsule.rs\<close>) and \<open>Conn_Wt_Stream\<close>
    (\<^verbatim>\<open>wt_stream.rs\<close>) what a connection does for WebTransport.  \<^verbatim>\<open>client.rs\<close> and \<^verbatim>\<open>server.rs\<close> hand every call
    through.  \<open>Conn_Wt_Inv\<close> and \<open>Connection_Inv\<close> hold the invariant \<open>conn_inv\<close>; \<open>Connection_Recv\<close> (request
    streams), \<open>Connection_Critical\<close> (control and QPACK streams), \<open>Connection_Dispatch\<close> (\<^verbatim>\<open>feed_stream\<close>, events,
    data to send) and \<open>Connection_Send\<close> (requests, responses, GOAWAY, resets) show for each operation that it
    returns, keeps the invariant and only evolves the state.  \<open>Connection_Safety\<close> has the calls as a datatype, the
    reachable states and what holds in them, \<open>Connection_Delivery\<close> a client and a server back to back.
  \<^item> \<^emph>\<open>Message rules\<close> (\<^verbatim>\<open>validation.rs\<close>).  \<open>Uri_Syntax\<close> holds the checks of single bytes, paths and
    authorities with the grammars of RFC 3986 that they decide, \<open>Validation\<close> the checks of whole header sections.
  \<^item> \<^emph>\<open>Integrations\<close> (\<^verbatim>\<open>crates/\<close>).  \<open>S2n_Glue\<close> (\<^verbatim>\<open>tokio-s2n-quic/src/\<close>) has the sender's flow control, the
    classification of streams, the state around a connection and what a handshake makes of events;
    \<open>Ngtcp2_Glue\<close> (\<^verbatim>\<open>tokio-ngtcp2/src/\<close>) the loop between QUIC and a connection (\<^verbatim>\<open>h3.rs\<close>), the requests of
    the client (\<^verbatim>\<open>client.rs\<close>) and what the servers make of events (\<^verbatim>\<open>server.rs\<close>, \<^verbatim>\<open>webtransport.rs\<close>).  QUIC itself
    is a parameter there, a record of functions \<open>quic\<close> on a state of its own, of which nothing is assumed for
    termination; \<open>takes_all\<close> (it accepts what it is given) and \<open>numbers_streams\<close> (it numbers the streams that
    it opens in steps of four) are the documented behaviour that single theorems name.

  \<^bold>\<open>How the code is read.\<close>  A struct is a \<^theory_text>\<open>record\<close>, an enum a \<^theory_text>\<open>datatype\<close>, with the names of the source,
  prefixed where they clash.  A \<^verbatim>\<open>u8\<close> is an \<open>8 word\<close>; \<^verbatim>\<open>u16\<close> to \<^verbatim>\<open>usize\<close> are \<open>nat\<close> with the width
  written out at every operation that can leave it (\<open>checked_add\<close>, \<open>sat_add\<close>, \<open>sat_sub\<close> of \<open>Prelude\<close>).  A method
  with \<^verbatim>\<open>&mut self\<close> returns the new state; a \<^verbatim>\<open>Result\<close> is a sum, \<open>Inl\<close> the error; a panic is \<open>None\<close>,
  and \<open>the\<close> stands only for calls that a lemma shows not to panic.  A getter is the field it reads.
  Loops are structural recursion or \<^theory_text>\<open>function\<close> with a measure, and there is no fuel in the model of the code; the
  loops around QUIC are \<^theory_text>\<open>partial_function\<close>, since it may deliver events forever, and \<open>write_pending_returns\<close>
  shows that the one that writes ends all the same.  Where a
  specification polls a machine until it is idle (\<open>drain\<close> of \<open>Receivers\<close>, \<open>pump\<close> of
  \<open>Request_Stream\<close>) the fuel is the number of pending bytes plus one, and \<open>drain_fuel\<close> shows that
  more changes nothing, since every event takes a byte.

  \<^bold>\<open>Interfaces.\<close>  \<open>Prelude\<close> has the locales of wire formats (an encoder and an incremental
  decoder); frames, capsules, stream headers and the QPACK instructions interpret them.  \<open>Streams\<close>
  has \<open>byte_queue\<close> for both buffers, \<open>Receivers\<close> the machines that consume a byte queue event by event
  (\<open>byte_receiver\<close>, \<open>ending_receiver\<close>): that the cut of the input does not matter is proved there
  once and obtained for the control stream, the request stream and the QPACK streams.
  \<open>Flow_Control\<close> has \<open>window\<close> for the data window and the two stream windows.  \<open>Connection_Inv\<close> has \<open>moves\<close>:
  operations that return, keep the invariant and move the state along a preorder compose; it is interpreted on
  \<open>inner\<close> (what handlers of streams leave alone), \<open>evolves\<close> (what only moves in one direction) and \<open>calmly\<close>.

  \<^bold>\<open>What is shown.\<close>  Round trips for every wire format, with the error or \<open>wait\<close> for what
  is not complete, and for frames exactly when the decoder waits; the well-formedness of whatever a decoder accepts; for
  QPACK that the two dynamic tables stay in step and that a section is decoded to what was sent, blocked or too
  large, as long as the encoder announces no capacity below its protected entries and has no more insertions in
  flight than \<open>capacity div 32\<close> (the code allows both, \<open>capacity_below_protected\<close> and
  \<open>unacknowledged_eviction\<close> of \<open>Qpack_Sync\<close> show what then goes wrong); for the streams that both
  ends agree on the sequence of events however the bytes are cut, that a peer that breaks the
  grammar gets the error the code names, that the body is bounded; for sessions the life cycle, the safety
  and liveness of the windows, and that a peer which obeys the limits it was told is never accused; for
  header sections that exactly those of the grammar are accepted, and that requests and responses of
  the extended CONNECT survive.  For a whole connection: every call in every reachable state returns (no loop runs
  forever, no \<open>expect\<close> fails), the WebTransport buffers that have a limit keep it (capsules of an established
  session and bytes of incomplete frames have none), sessions only move forward, errors are remembered by the
  calls that \<open>connection_error_is_final\<close> names and final for them, the critical streams are protected, no request
  goes out and no request stream comes into being at or above a GOAWAY, and a request with its body arrives as it
  was sent.  The hypotheses on callers are in \<open>conn_op_ok\<close>: QUIC delivers nothing behind FIN and has
  identifiers below \<open>2 ^ 62\<close>, a response goes to a request that was delivered, nothing is consumed that was not
  offered.  For the integrations: the account that one of them keeps of the peer's limits agrees with the one of the
  library's sessions, the header of a stream is read however it is cut, a handshake loses no events, and what
  a connection offers reaches QUIC once and in order.  Four theorems of \<open>Ngtcp2_Glue\<close> state defects
  (\<open>refused_connect_counts\<close>, \<open>requests_out_of_step\<close>, \<open>request_reuses_wt_stream\<close>, \<open>session_events_mixed_up\<close>).
  The order in which a hash map is traversed is a parameter \<open>ord\<close>, of which only \<open>enumerates\<close> is known.

  \<^bold>\<open>Not modelled.\<close>  Text for people (\<^verbatim>\<open>Display\<close>, \<^verbatim>\<open>Debug\<close>, descriptions).  In the integrations, the
  asynchronous tasks, channels and locks, the set-up of sockets and TLS, and the loops that wait for a clock
  (\<^verbatim>\<open>pump_wait\<close>, deadlines): they are calls of the QUIC libraries and of the runtime, which are not in the
  repository.  The example server and the tests.
\<close>

end
